(* ===== verification/Go_Prelude.thy ===== *)
theory Go_Prelude
  imports Main "HOL-Library.AList" "HOL-Library.Multiset"
begin

text \<open>
  What the components share of Go: instants and durations, maps with an unspecified
  iteration order, the \<open>range\<close> loops that delete while they iterate, and runs of
  operations.

  An instant (\<open>time.Time\<close>) is the number of nanoseconds since Go's zero time, so the
  zero value of the type is 0. A duration is a 64-bit count of nanoseconds:
  \<open>Time.Sub\<close> saturates at its bounds, which matters because the code subtracts the zero
  time from the current time. Strings are byte strings (\<open>string\<close>); case folding is the
  ASCII one.

  A map is an association list with distinct keys. The order in which \<open>range\<close> visits a
  map is left open by Go: the code's loops take it as a parameter, a function that
  rearranges the entries, and every property holds for all of them (\<open>fair_range\<close>).
\<close>

named_theorems go_time \<open>the durations and comparisons of package time\<close>
named_theorems go_map \<open>lookups in updated maps\<close>

subsection \<open>Instants and durations\<close>

type_synonym time = int
type_synonym duration = int

definition zero_time :: time where
  "zero_time = 0"

definition IsZero :: "time \<Rightarrow> bool" where
  "IsZero t \<longleftrightarrow> t = zero_time"

definition min_duration :: duration where
  "min_duration = - (2 ^ 63)"

definition max_duration :: duration where
  "max_duration = 2 ^ 63 - 1"

text \<open>\<open>Time.Sub\<close> returns the nearest representable duration.\<close>

definition time_Sub :: "time \<Rightarrow> time \<Rightarrow> duration" where
  "time_Sub t u = max min_duration (min max_duration (t - u))"

definition time_Before :: "time \<Rightarrow> time \<Rightarrow> bool" where
  "time_Before t u \<longleftrightarrow> t < u"

definition second :: duration where
  "second = 1000000000"

definition minute :: duration where
  "minute = 60 * second"

lemmas duration_defs [go_time] = second_def minute_def min_duration_def max_duration_def

lemma time_Sub_ge [go_time]:
  "min_duration < w \<Longrightarrow> w \<le> max_duration \<Longrightarrow> w \<le> time_Sub t u \<longleftrightarrow> u + w \<le> t"
  by (auto simp: time_Sub_def)

lemma time_Sub_lt [go_time]:
  "min_duration < w \<Longrightarrow> w \<le> max_duration \<Longrightarrow> time_Sub t u < w \<longleftrightarrow> t < u + w"
  by (auto simp: time_Sub_def)

subsection \<open>Maps and the order a range loop visits them in\<close>

type_synonym ('k, 'v) gomap = "('k \<times> 'v) list"

type_synonym ('k, 'v) ranging = "('k \<times> 'v) list \<Rightarrow> ('k \<times> 'v) list"

abbreviation gm_get :: "('k, 'v) gomap \<Rightarrow> 'k \<Rightarrow> 'v option" where
  "gm_get m k \<equiv> map_of m k"

abbreviation gm_put :: "'k \<Rightarrow> 'v \<Rightarrow> ('k, 'v) gomap \<Rightarrow> ('k, 'v) gomap" where
  "gm_put \<equiv> AList.update"

abbreviation gm_del :: "'k \<Rightarrow> ('k, 'v) gomap \<Rightarrow> ('k, 'v) gomap" where
  "gm_del \<equiv> AList.delete"

abbreviation gm_keys :: "('k, 'v) gomap \<Rightarrow> 'k set" where
  "gm_keys m \<equiv> fst ` set m"

abbreviation gm_ok :: "('k, 'v) gomap \<Rightarrow> bool" where
  "gm_ok m \<equiv> distinct (map fst m)"

text \<open>Lookups are the normal form of statements about a map.\<close>

declare map_of_eq_Some_iff [simp del]

definition fair_range :: "('k, 'v) ranging \<Rightarrow> bool" where
  "fair_range r \<longleftrightarrow> (\<forall>m. mset (r m) = mset m)"

lemma fair_range_id [simp, intro]: "fair_range id"
  by (simp add: fair_range_def)

lemma fair_range_rev [simp, intro]: "fair_range rev"
  by (simp add: fair_range_def)

lemma fair_range_set [go_map]: "fair_range r \<Longrightarrow> set (r m) = set m"
  by (metis fair_range_def set_mset_mset)

lemma fair_range_length [go_map]: "fair_range r \<Longrightarrow> length (r m) = length m"
  by (metis fair_range_def size_mset)

lemma gm_get_put [go_map]: "gm_get (gm_put k v m) k' = (if k' = k then Some v else gm_get m k')"
  by (simp add: update_conv')

lemma gm_get_del [go_map]: "gm_get (gm_del k m) k' = (if k' = k then None else gm_get m k')"
  by (simp add: delete_conv')

lemma gm_ok_put [simp, intro]: "gm_ok m \<Longrightarrow> gm_ok (gm_put k v m)"
  by (rule distinct_update)

lemma gm_ok_del [simp, intro]: "gm_ok m \<Longrightarrow> gm_ok (gm_del k m)"
  by (rule distinct_delete)

lemma gm_ok_filter [simp, intro]: "gm_ok m \<Longrightarrow> gm_ok (filter P m)"
  by (rule distinct_map_filter)

lemma gm_mem_iff: "gm_ok m \<Longrightarrow> (k, v) \<in> set m \<longleftrightarrow> gm_get m k = Some v"
  by (metis map_of_eq_Some_iff)

lemma gm_keys_get: "k \<in> gm_keys m \<longleftrightarrow> gm_get m k \<noteq> None"
  by (simp add: map_of_eq_None_iff)

lemma gm_length_card: "gm_ok m \<Longrightarrow> length m = card (gm_keys m)"
  using distinct_card [of "map fst m"] by simp

lemma length_gm_put:
  "length (gm_put k v m) = (if k \<in> gm_keys m then length m else Suc (length m))"
  by (induction m) auto

lemma length_gm_del_le: "length (gm_del k m) \<le> length m"
  by (rule length_delete_le)

lemma gm_del_conv: "gm_del k m = filter (\<lambda>(k', _). k' \<noteq> k) m"
  by (auto simp: AList.delete_eq intro!: filter_cong)

lemma set_gm_del: "set (gm_del k m) = {e \<in> set m. fst e \<noteq> k}"
  by (auto simp: gm_del_conv)

lemma set_gm_put_new: "gm_get m k = None \<Longrightarrow> set (gm_put k v m) = insert (k, v) (set m)"
  by (induction m) (auto split: if_splits)

lemma length_gm_del_lt: "k \<in> gm_keys m \<Longrightarrow> length (gm_del k m) < length m"
  unfolding gm_del_conv by (auto intro!: length_filter_less)

lemma gm_get_filter:
  "gm_ok m \<Longrightarrow> gm_get (filter P m) k =
     (case gm_get m k of None \<Rightarrow> None | Some v \<Rightarrow> if P (k, v) then Some v else None)"
proof (induction m)
  case Nil
  then show ?case by simp
next
  case (Cons e m)
  obtain k' v' where "e = (k', v')" by (cases e)
  with Cons show ?case
    by (force simp: map_of_eq_None_iff split: option.splits)
qed

text \<open>
  \<open>for k, v := range m { if p(v) { delete(m, k) } }\<close>: deleting while iterating. In
  whatever order the entries come, the loop leaves exactly the entries that do not
  satisfy the condition.
\<close>

definition range_delete :: "('v \<Rightarrow> bool) \<Rightarrow> ('k, 'v) ranging \<Rightarrow> ('k, 'v) gomap \<Rightarrow> ('k, 'v) gomap" where
  "range_delete p r m = fold (\<lambda>(k, v) acc. if p v then gm_del k acc else acc) (r m) m"

lemma fold_delete_filter:
  "fold (\<lambda>(k, v) acc. if p v then gm_del k acc else acc) es m =
     filter (\<lambda>e. \<forall>v. (fst e, v) \<in> set es \<longrightarrow> \<not> p v) m"
proof (induction es arbitrary: m)
  case Nil
  then show ?case by simp
next
  case (Cons e es)
  obtain k v where e: "e = (k, v)" by (cases e)
  let ?m = "if p v then gm_del k m else m"
  have "fold (\<lambda>(k, v) acc. if p v then gm_del k acc else acc) (e # es) m =
      filter (\<lambda>e. \<forall>v. (fst e, v) \<in> set es \<longrightarrow> \<not> p v) ?m"
    by (simp only: fold_simps comp_apply e prod.case Cons.IH)
  also have "\<dots> = filter (\<lambda>x. \<forall>v. (fst x, v) \<in> set (e # es) \<longrightarrow> \<not> p v) m"
    by (cases "p v") (simp_all add: e gm_del_conv case_prod_beta; rule filter_cong; fastforce)+
  finally show ?case .
qed

lemma range_delete_filter:
  assumes "fair_range r" and "gm_ok m"
  shows "range_delete p r m = filter (\<lambda>e. \<not> p (snd e)) m"
proof -
  have *: "(\<forall>v. (fst e, v) \<in> set (r m) \<longrightarrow> \<not> p v) \<longleftrightarrow> \<not> p (snd e)" if "e \<in> set m" for e
    using that unfolding fair_range_set [OF assms(1)]
    by (metis eq_key_imp_eq_value [OF assms(2)] prod.collapse)
  show ?thesis
    unfolding range_delete_def fold_delete_filter by (rule filter_cong) (simp_all add: *)
qed

subsection \<open>Runs of operations\<close>

text \<open>A run threads the state through a list of operations, in order.\<close>

fun run :: "('s \<Rightarrow> 'o \<Rightarrow> 's) \<Rightarrow> 's \<Rightarrow> 'o list \<Rightarrow> 's" where
  "run step s [] = s"
| "run step s (op # ops) = run step (step s op) ops"

lemma run_append: "run step s (xs @ ys) = run step (run step s xs) ys"
  by (induction xs arbitrary: s) auto

lemma run_invariant:
  assumes "I s" and "\<And>s op. I s \<Longrightarrow> op \<in> set ops \<Longrightarrow> I (step s op)"
  shows "I (run step s ops)"
  using assms by (induction ops arbitrary: s) auto

end
