(* ===== verification/Store_Interfaces.thy ===== *)
theory Store_Interfaces
  imports Go_Prelude
begin

text \<open>
  The contracts the in-memory stores of \<open>backend/component/state\<close> share, as locales over
  the operations a store offers. A store proves the one-step laws once; what a client may
  rely on over a whole run is derived here and instantiated by \<open>interpretation\<close> in the
  theory of each store.
  \<^item> \<open>step_invariant\<close>: operations keep the store well formed.
  \<^item> \<open>bounded_pool\<close>: a store an unauthenticated caller can fill stays within its capacity.
  \<^item> \<open>single_use\<close>: a secret that is handed out is handed out once per time it was minted.
\<close>

subsection \<open>Well-formed stores\<close>

locale step_invariant =
  fixes step :: "'s \<Rightarrow> 'o \<Rightarrow> 's"
    and admissible :: "'o \<Rightarrow> bool"
    and ok :: "'s \<Rightarrow> bool"
  assumes step_ok: "ok s \<Longrightarrow> admissible op \<Longrightarrow> ok (step s op)"
begin

lemma run_ok: "ok s \<Longrightarrow> \<forall>op\<in>set ops. admissible op \<Longrightarrow> ok (run step s ops)"
  by (rule run_invariant) (auto intro: step_ok)

end

subsection \<open>Bounded stores\<close>

locale bounded_pool = step_invariant step admissible ok
  for step :: "'s \<Rightarrow> 'o \<Rightarrow> 's" and admissible and ok +
  fixes occupancy :: "'s \<Rightarrow> nat"
    and capacity :: "'s \<Rightarrow> nat"
  assumes capacity_step: "capacity (step s op) = capacity s"
    and occupancy_step:
      "ok s \<Longrightarrow> admissible op \<Longrightarrow> occupancy s \<le> capacity s \<Longrightarrow> occupancy (step s op) \<le> capacity s"
begin

lemma run_capacity: "capacity (run step s ops) = capacity s"
  by (induction ops arbitrary: s) (simp_all add: capacity_step)

lemma run_bounded:
  assumes "ok s" and "occupancy s \<le> capacity s" and "\<forall>op\<in>set ops. admissible op"
  shows "occupancy (run step s ops) \<le> capacity s"
  using assms
proof (induction ops arbitrary: s)
  case Nil
  then show ?case by simp
next
  case (Cons op ops)
  have "occupancy (run step (step s op) ops) \<le> capacity (step s op)"
    by (rule Cons.IH) (use Cons.prems in \<open>auto intro: step_ok simp: capacity_step occupancy_step\<close>)
  then show ?case by (simp add: capacity_step)
qed

end

subsection \<open>Single-use secrets\<close>

text \<open>
  How often an observation is made of a key along a run: \<open>obs s op\<close> is the key that
  operation \<open>op\<close>, run in state \<open>s\<close>, is observed on.
\<close>

fun hits :: "('s \<Rightarrow> 'o \<Rightarrow> 's) \<Rightarrow> ('s \<Rightarrow> 'o \<Rightarrow> 'k option) \<Rightarrow> 'k \<Rightarrow> 's \<Rightarrow> 'o list \<Rightarrow> nat" where
  "hits step obs k s [] = 0"
| "hits step obs k s (op # ops) =
     (if obs s op = Some k then 1 else 0) + hits step obs k (step s op) ops"

locale single_use = step_invariant step admissible ok
  for step :: "'s \<Rightarrow> 'o \<Rightarrow> 's" and admissible and ok +
  fixes live :: "'s \<Rightarrow> 'k set"
    and redeems :: "'s \<Rightarrow> 'o \<Rightarrow> 'k option"
    and mints :: "'s \<Rightarrow> 'o \<Rightarrow> 'k option"
  assumes redeem_live: "ok s \<Longrightarrow> admissible op \<Longrightarrow> redeems s op = Some k \<Longrightarrow> k \<in> live s"
    and redeem_kills: "ok s \<Longrightarrow> admissible op \<Longrightarrow> redeems s op = Some k \<Longrightarrow> k \<notin> live (step s op)"
    and only_mint_births:
      "ok s \<Longrightarrow> admissible op \<Longrightarrow> k \<in> live (step s op) \<Longrightarrow> k \<in> live s \<or> mints s op = Some k"
begin

lemma redeemed_at_most_minted:
  assumes "ok s" and "\<forall>op\<in>set ops. admissible op"
  shows "hits step redeems k s ops \<le> (if k \<in> live s then 1 else 0) + hits step mints k s ops"
  using assms
proof (induction ops arbitrary: s)
  case Nil
  then show ?case by simp
next
  case (Cons op ops)
  let ?s = "step s op"
  have adm: "admissible op" and ok: "ok ?s"
    using Cons.prems by (auto intro: step_ok)
  have IH: "hits step redeems k ?s ops \<le> (if k \<in> live ?s then 1 else 0) + hits step mints k ?s ops"
    by (rule Cons.IH) (use ok Cons.prems in auto)
  show ?case
    using IH redeem_live [OF Cons.prems(1) adm] redeem_kills [OF Cons.prems(1) adm]
      only_mint_births [OF Cons.prems(1) adm, of k]
    by (auto split: if_splits)
qed

text \<open>A secret that exists now and is not minted again is redeemed at most once.\<close>

lemma redeemed_once:
  assumes "ok s" and "\<forall>op\<in>set ops. admissible op" and "hits step mints k s ops = 0"
  shows "hits step redeems k s ops \<le> 1"
  using redeemed_at_most_minted [OF assms(1,2), of k] assms(3) by (auto split: if_splits)

text \<open>A secret that does not exist and is not minted is never redeemed.\<close>

lemma never_redeemed:
  assumes "ok s" and "\<forall>op\<in>set ops. admissible op" and "k \<notin> live s" and "hits step mints k s ops = 0"
  shows "hits step redeems k s ops = 0"
  using redeemed_at_most_minted [OF assms(1,2), of k] assms(3,4) by simp

end

end
