(* ===== verification/Login_Attempts.thy ===== *)
theory Login_Attempts
  imports Go_Prelude
begin

text \<open>
  The fixed-window counter behind both throttles of \<open>backend/component/state\<close>: the
  \<open>loginAttempt\<close> of \<open>login_limiter.go\<close>, the two functions of \<open>window_limiter.go\<close> that
  read and advance it, and the eviction loop that both files carry. The lemmas bound how
  many requests one counter admits in any interval, whatever window its history left open.
\<close>

subsection \<open>One counter\<close>

record loginAttempt =
  attempt_count :: nat
  attempt_first :: time

text \<open>Reading an absent map key yields the zero value of the type.\<close>

definition zero_attempt :: loginAttempt where
  "zero_attempt = \<lparr>attempt_count = 0, attempt_first = zero_time\<rparr>"

definition attempt_of :: "(string, loginAttempt) gomap \<Rightarrow> string \<Rightarrow> loginAttempt" where
  "attempt_of m key = (case gm_get m key of None \<Rightarrow> zero_attempt | Some a \<Rightarrow> a)"

definition windowExceeded :: "loginAttempt \<Rightarrow> nat \<Rightarrow> duration \<Rightarrow> time \<Rightarrow> bool" where
  "windowExceeded attempt limit window now =
     (if window \<le> time_Sub now (attempt_first attempt) then False
      else limit \<le> attempt_count attempt)"

definition windowBump :: "loginAttempt \<Rightarrow> duration \<Rightarrow> time \<Rightarrow> loginAttempt" where
  "windowBump attempt window now =
     (if IsZero (attempt_first attempt) \<or> window \<le> time_Sub now (attempt_first attempt)
      then \<lparr>attempt_count = 1, attempt_first = now\<rparr>
      else attempt\<lparr>attempt_count := attempt_count attempt + 1\<rparr>)"

definition window_ok :: "duration \<Rightarrow> bool" where
  "window_ok w \<longleftrightarrow> 0 < w \<and> w \<le> max_duration"

lemma window_elapsed [go_time]:
  "window_ok w \<Longrightarrow> w \<le> time_Sub now t \<longleftrightarrow> t + w \<le> now"
  by (rule time_Sub_ge) (auto simp: window_ok_def min_duration_def)

lemma window_open [go_time]:
  "window_ok w \<Longrightarrow> time_Sub now t < w \<longleftrightarrow> now < t + w"
  using window_elapsed [of w now t] by auto

subsection \<open>What one counter admits\<close>

text \<open>
  \<open>admits limit w a ts\<close>: starting from counter \<open>a\<close>, requests at the instants \<open>ts\<close> are
  all admitted, each one bumping the counter.
\<close>

fun admits :: "nat \<Rightarrow> duration \<Rightarrow> loginAttempt \<Rightarrow> time list \<Rightarrow> bool" where
  "admits limit w a [] = True"
| "admits limit w a (t # ts) =
     (\<not> windowExceeded a limit w t \<and> admits limit w (windowBump a w t) ts)"

text \<open>How many windows of length \<open>w\<close> fit between \<open>x\<close> and \<open>hi\<close>, the last one cut short.\<close>

definition windows_until :: "duration \<Rightarrow> time \<Rightarrow> time \<Rightarrow> nat" where
  "windows_until w hi x = (if hi \<le> x then 0 else nat ((hi - x + w - 1) div w))"

lemma windows_until_antimono:
  assumes "0 < w" and "x \<le> y"
  shows "windows_until w hi y \<le> windows_until w hi x"
  using assms by (auto simp: windows_until_def intro!: nat_mono zdiv_mono1)

lemma windows_until_step:
  assumes "0 < w" and "x < hi"
  shows "windows_until w hi x = Suc (windows_until w hi (x + w))"
proof -
  have eq: "hi - x + w - 1 = (hi - x - 1) + w" by simp
  have "(hi - x + w - 1) div w = (hi - x - 1) div w + 1"
    unfolding eq using assms by (simp add: div_add_self2)
  moreover have "(hi - x - 1) div w \<ge> 0"
    using assms by (simp add: pos_imp_zdiv_nonneg_iff)
  moreover have "(hi - x - 1) div w = 0" if "hi \<le> x + w"
    using that assms by (simp add: div_pos_pos_trivial)
  ultimately show ?thesis
    using assms by (auto simp: windows_until_def nat_add_distrib algebra_simps)
qed

lemma admits_before:
  assumes w: "window_ok w" and "1 \<le> limit"
    and "admits limit w a ts" and "sorted ts"
    and "attempt_count a \<le> limit" and "attempt_first a = 0 \<Longrightarrow> attempt_count a = 0"
    and "\<forall>t\<in>set ts. attempt_first a \<le> t \<and> 0 < t"
  shows "length (filter (\<lambda>t. t < hi) ts)
     \<le> (limit - attempt_count a) + limit * windows_until w hi (attempt_first a + w)"
  using assms(3-)
proof (induction ts arbitrary: a)
  case Nil
  then show ?case by simp
next
  case (Cons t ts)
  let ?f = "attempt_first a" and ?c = "attempt_count a"
  let ?a = "windowBump a w t"
  let ?n = "\<lambda>ts. length (filter (\<lambda>t. t < hi) ts)"
  have tpos: "0 < t" and ft: "?f \<le> t" and wpos: "0 < w"
    using Cons.prems(5) w by (auto simp: window_ok_def)
  show ?case
  proof (cases "t < hi")
    case False
    with Cons.prems(2) have "filter (\<lambda>t. t < hi) (t # ts) = []"
      by (auto simp: filter_empty_conv)
    then show ?thesis by (simp only: list.size)
  next
    case True
    show ?thesis
    proof (cases "?f = 0 \<or> ?f + w \<le> t")
      case fresh: True
      have a: "?a = \<lparr>attempt_count = 1, attempt_first = t\<rparr>"
        using fresh w by (auto simp: windowBump_def IsZero_def zero_time_def window_elapsed)
      have "?n ts \<le> (limit - 1) + limit * windows_until w hi (t + w)"
        using Cons.IH [of ?a] Cons.prems assms(2) tpos by (auto simp: a)
      then have le: "?n (t # ts) \<le> limit * windows_until w hi t"
        using windows_until_step [OF wpos True] assms(2) True by simp
      show ?thesis
      proof (cases "?f = 0")
        case True
        have "windows_until w hi (t + w) \<le> windows_until w hi (?f + w)"
          using ft by (intro windows_until_antimono wpos) simp
        then have "limit * windows_until w hi t \<le> limit + limit * windows_until w hi (?f + w)"
          using windows_until_step [OF wpos \<open>t < hi\<close>] by simp
        with le True Cons.prems(4) show ?thesis by simp
      next
        case False
        with fresh have "windows_until w hi t \<le> windows_until w hi (?f + w)"
          by (intro windows_until_antimono wpos) simp
        then have "limit * windows_until w hi t \<le> limit * windows_until w hi (?f + w)"
          by (rule mult_le_mono2)
        with le show ?thesis by linarith
      qed
    next
      case False
      have a: "?a = a\<lparr>attempt_count := ?c + 1\<rparr>" and c: "?c < limit"
        using False w Cons.prems(1)
        by (auto simp: windowBump_def windowExceeded_def IsZero_def zero_time_def window_elapsed)
      have "?n ts \<le> (limit - (?c + 1)) + limit * windows_until w hi (?f + w)"
        using Cons.IH [of ?a] Cons.prems c False by (auto simp: a)
      with c True show ?thesis by simp
    qed
  qed
qed

text \<open>
  An interval that starts at \<open>lo\<close>, with the first request at \<open>t\<close> inside it: whether or not
  the window that was open at \<open>t\<close> began before \<open>lo\<close>, it contributes at most one quota.
\<close>

lemma admits_from_within:
  assumes w: "window_ok w" and l: "1 \<le> limit"
    and adm: "admits limit w a (t # ts)" and "sorted (t # ts)"
    and "attempt_count a \<le> limit" and "attempt_first a = 0 \<Longrightarrow> attempt_count a = 0"
    and "\<forall>u\<in>set (t # ts). attempt_first a \<le> u \<and> 0 < u"
    and "lo \<le> t"
  shows "length (filter (\<lambda>t. t < hi) (t # ts)) \<le> limit * (1 + windows_until w hi lo)"
proof -
  let ?f = "attempt_first a"
  have wpos: "0 < w" using w by (simp add: window_ok_def)
  consider (late) "lo \<le> ?f + w" | (early) "?f + w < lo" by linarith
  then show ?thesis
  proof cases
    case late
    have "length (filter (\<lambda>t. t < hi) (t # ts))
        \<le> (limit - attempt_count a) + limit * windows_until w hi (?f + w)"
      by (rule admits_before) (use assms in auto)
    moreover have "windows_until w hi (?f + w) \<le> windows_until w hi lo"
      using late wpos by (intro windows_until_antimono)
    ultimately show ?thesis
      by (simp add: add_mono mult_le_mono2 le_trans [OF _ add_mono])
  next
    case early
    let ?a = "windowBump a w t"
    have a: "?a = \<lparr>attempt_count = 1, attempt_first = t\<rparr>"
      using early assms(8) w by (auto simp: windowBump_def window_elapsed)
    have "length (filter (\<lambda>t. t < hi) ts) \<le> (limit - 1) + limit * windows_until w hi (t + w)"
      using admits_before [OF w l, of ?a ts hi] assms by (simp add: a)
    moreover have "limit * windows_until w hi (t + w) \<le> limit * windows_until w hi lo"
      using assms(8) wpos by (intro mult_le_mono2 windows_until_antimono) auto
    moreover have "length (filter (\<lambda>t. t < hi) (t # ts)) \<le> 1 + length (filter (\<lambda>t. t < hi) ts)"
      by simp
    ultimately have "length (filter (\<lambda>t. t < hi) (t # ts)) \<le> 1 + ((limit - 1) + limit * windows_until w hi lo)"
      by linarith
    with l show ?thesis by simp
  qed
qed

lemma admits_within:
  assumes w: "window_ok w" and l: "1 \<le> limit"
    and "admits limit w a ts" and "sorted ts"
    and "attempt_count a \<le> limit" and "attempt_first a = 0 \<Longrightarrow> attempt_count a = 0"
    and "\<forall>t\<in>set ts. attempt_first a \<le> t \<and> 0 < t"
  shows "length (filter (\<lambda>t. lo \<le> t \<and> t < hi) ts) \<le> limit * (1 + windows_until w hi lo)"
  using assms(3-)
proof (induction ts arbitrary: a)
  case Nil
  then show ?case by simp
next
  case (Cons t ts)
  let ?a = "windowBump a w t"
  have wpos: "0 < w" using w by (simp add: window_ok_def)
  have next_ok: "attempt_count ?a \<le> limit" "attempt_first ?a = 0 \<Longrightarrow> attempt_count ?a = 0"
    "attempt_first ?a \<le> t"
    using Cons.prems l w
    by (auto simp: windowBump_def windowExceeded_def IsZero_def zero_time_def window_elapsed split: if_splits)
  have IH: "length (filter (\<lambda>t. lo \<le> t \<and> t < hi) ts) \<le> limit * (1 + windows_until w hi lo)"
    by (rule Cons.IH [of ?a]) (use Cons.prems next_ok in auto)
  show ?case
  proof (cases "lo \<le> t")
    case False
    with IH show ?thesis by simp
  next
    case True
    then have "filter (\<lambda>t. lo \<le> t \<and> t < hi) (t # ts) = filter (\<lambda>t. t < hi) (t # ts)"
      using Cons.prems(2) by (intro filter_cong) auto
    moreover have "length (filter (\<lambda>t. t < hi) (t # ts)) \<le> limit * (1 + windows_until w hi lo)"
      using admits_from_within [OF w l Cons.prems True] .
    ultimately show ?thesis by simp
  qed
qed

text \<open>An elapsed counter admits what an absent one does: the next request opens a new window.\<close>

lemma admits_elapsed:
  assumes "window_ok w" and "\<forall>t\<in>set ts. attempt_first a + w \<le> t" and "1 \<le> limit"
    and "admits limit w zero_attempt ts"
  shows "admits limit w a ts"
  using assms
  by (cases ts) (auto simp: windowExceeded_def windowBump_def zero_attempt_def IsZero_def window_elapsed)

subsection \<open>Evicting the oldest counter\<close>

text \<open>
  \<open>for key, attempt := range attempts { if oldestKey == "" || attempt.first.Before(oldest)
  { oldestKey, oldest = key, attempt.first } }\<close>: the empty string doubles as "nothing
  chosen yet", so a counter stored under the empty key is never kept as the choice while
  another entry follows.
\<close>

fun older :: "string \<times> loginAttempt \<Rightarrow> string \<times> time \<Rightarrow> string \<times> time" where
  "older (key, attempt) (oldestKey, oldest) =
     (if oldestKey = '''' \<or> time_Before (attempt_first attempt) oldest
      then (key, attempt_first attempt) else (oldestKey, oldest))"

definition oldest_key :: "(string, loginAttempt) ranging \<Rightarrow> (string, loginAttempt) gomap \<Rightarrow> string" where
  "oldest_key r m = fst (fold older (r m) ('''', zero_time))"

lemma fold_older_mem: "fst (fold older es c) \<in> insert (fst c) (fst ` set es)"
proof (induction es arbitrary: c)
  case (Cons e es)
  have "fst (older e c) \<in> {fst e, fst c}" by (cases e; cases c) simp
  with Cons [of "older e c"] show ?case by auto
qed simp

lemma oldest_key_mem:
  assumes "fair_range r" and "m \<noteq> []"
  shows "oldest_key r m \<in> gm_keys m"
proof -
  have "r m \<noteq> []" using fair_range_length [OF assms(1), of m] assms(2) by auto
  then obtain k a es where r: "r m = (k, a) # es" by (cases "r m") auto
  have "oldest_key r m \<in> insert k (fst ` set es)"
    using fold_older_mem [of es "(k, attempt_first a)"] by (simp add: oldest_key_def r)
  also have "\<dots> = fst ` set (r m)" by (simp add: r)
  finally show ?thesis by (simp add: fair_range_set [OF assms(1)])
qed

definition older_choice :: "(string \<times> loginAttempt) list \<Rightarrow> string \<times> time \<Rightarrow> string \<times> time \<Rightarrow> bool" where
  "older_choice es c c' \<longleftrightarrow> snd c' \<le> snd c \<and> (\<forall>e\<in>set es. snd c' \<le> attempt_first (snd e)) \<and>
     (c' = c \<or> (\<exists>a. (fst c', a) \<in> set es \<and> snd c' = attempt_first a))"

lemma fold_older_min:
  "'''' \<notin> fst ` set es \<Longrightarrow> fst c \<noteq> '''' \<Longrightarrow> older_choice es c (fold older es c)"
proof (induction es arbitrary: c)
  case Nil
  then show ?case by (simp add: older_choice_def)
next
  case (Cons e es)
  obtain ke ae where e: "e = (ke, ae)" by (cases e)
  have c: "older e c = c \<and> snd c \<le> attempt_first ae \<or>
      older e c = (ke, attempt_first ae) \<and> attempt_first ae \<le> snd c"
    using Cons.prems by (cases c) (auto simp: e time_Before_def)
  have "older_choice es (older e c) (fold older es (older e c))"
    using Cons.prems c by (intro Cons.IH) (auto simp: e)
  with c show ?case by (auto simp: older_choice_def e)
qed

lemma oldest_key_min:
  assumes "fair_range r" and "gm_ok m" and "'''' \<notin> gm_keys m" and "(k, a) \<in> set m"
  shows "\<exists>b. gm_get m (oldest_key r m) = Some b \<and> attempt_first b \<le> attempt_first a"
proof -
  have "r m \<noteq> []" using fair_range_length [OF assms(1), of m] assms(4) by auto
  then obtain k0 a0 es where r: "r m = (k0, a0) # es" by (cases "r m") auto
  have set: "set m = insert (k0, a0) (set es)"
    using fair_range_set [OF assms(1), of m] by (simp add: r)
  let ?c = "(k0, attempt_first a0)"
  have "older_choice es ?c (fold older es ?c)"
    using assms(3) by (intro fold_older_min) (auto simp: set)
  then show ?thesis
    using assms(2,4) by (force simp: oldest_key_def r older_choice_def gm_mem_iff [symmetric] set)
qed

end
