(* ===== verification/Window_Limiter.thy ===== *)
theory Window_Limiter
  imports Store_Interfaces Login_Attempts
begin

text \<open>
  The fixed-window throttle of \<open>backend/component/state/window_limiter.go\<close>: a counter per
  source and one for the whole deployment, both over the same window. \<open>Allow\<close> is the
  limiter's only operation; the mutex makes each call one step. The iteration order of the
  eviction loop is the parameter \<open>r\<close> of the operation.
\<close>

subsection \<open>State, budgets and constructors\<close>

record WindowLimiter =
  wl_sources :: "(string, loginAttempt) gomap"
  wl_global :: loginAttempt
  wl_sourceLimit :: nat
  wl_globalLimit :: nat
  wl_window :: duration
  wl_capacity :: nat

definition throttleWindow :: duration where
  "throttleWindow = minute"

definition limiterCapacity :: nat where
  "limiterCapacity = 4096"

definition deviceLoginSourceLimit :: nat where "deviceLoginSourceLimit = 10"
definition deviceLoginGlobalLimit :: nat where "deviceLoginGlobalLimit = 100"
definition deviceLoginLookupLimit :: nat where "deviceLoginLookupLimit = 60"
definition deviceLoginLookupGlobal :: nat where "deviceLoginLookupGlobal = 600"
definition loginRequestSourceLimit :: nat where "loginRequestSourceLimit = 120"
definition loginRequestGlobalLimit :: nat where "loginRequestGlobalLimit = 300"
definition createUserRequestSourceLimit :: nat where "createUserRequestSourceLimit = 20"
definition createUserRequestGlobalLimit :: nat where "createUserRequestGlobalLimit = 100"
definition logoutRequestSourceLimit :: nat where "logoutRequestSourceLimit = 120"
definition logoutRequestGlobalLimit :: nat where "logoutRequestGlobalLimit = 300"
definition ssoStateSourceLimit :: nat where "ssoStateSourceLimit = 120"
definition ssoStateGlobalLimit :: nat where "ssoStateGlobalLimit = 300"
definition mcpCallLimit :: nat where "mcpCallLimit = 600"
definition mcpCallGlobal :: nat where "mcpCallGlobal = 6000"
definition mcpSourceCallLimit :: nat where "mcpSourceCallLimit = 6000"
definition mcpSourceCallGlobal :: nat where "mcpSourceCallGlobal = 60000"
definition principalMethodLimit :: nat where "principalMethodLimit = 3000"
definition principalGlobalLimit :: nat where "principalGlobalLimit = 30000"
definition principalLimiterCapacity :: nat where "principalLimiterCapacity = 16384"

lemmas budget_defs = throttleWindow_def limiterCapacity_def
  deviceLoginSourceLimit_def deviceLoginGlobalLimit_def deviceLoginLookupLimit_def
  deviceLoginLookupGlobal_def loginRequestSourceLimit_def loginRequestGlobalLimit_def
  createUserRequestSourceLimit_def createUserRequestGlobalLimit_def logoutRequestSourceLimit_def
  logoutRequestGlobalLimit_def ssoStateSourceLimit_def ssoStateGlobalLimit_def
  mcpCallLimit_def mcpCallGlobal_def mcpSourceCallLimit_def
  mcpSourceCallGlobal_def principalMethodLimit_def principalGlobalLimit_def
  principalLimiterCapacity_def

definition newWindowLimiter :: "nat \<Rightarrow> nat \<Rightarrow> WindowLimiter" where
  "newWindowLimiter sourceLimit globalLimit =
     \<lparr>wl_sources = [], wl_global = zero_attempt, wl_sourceLimit = sourceLimit,
      wl_globalLimit = globalLimit, wl_window = throttleWindow, wl_capacity = limiterCapacity\<rparr>"

definition newDeviceLoginCreateLimiter :: WindowLimiter where
  "newDeviceLoginCreateLimiter = newWindowLimiter deviceLoginSourceLimit deviceLoginGlobalLimit"

definition newDeviceLoginLookupLimiter :: WindowLimiter where
  "newDeviceLoginLookupLimiter = newWindowLimiter deviceLoginLookupLimit deviceLoginLookupGlobal"

definition newMCPCallLimiter :: WindowLimiter where
  "newMCPCallLimiter = newWindowLimiter mcpCallLimit mcpCallGlobal"

definition newMCPSourceCallLimiter :: WindowLimiter where
  "newMCPSourceCallLimiter = newWindowLimiter mcpSourceCallLimit mcpSourceCallGlobal"

definition newLogoutRequestLimiter :: WindowLimiter where
  "newLogoutRequestLimiter = newWindowLimiter logoutRequestSourceLimit logoutRequestGlobalLimit"

definition newPrincipalRequestLimiter :: WindowLimiter where
  "newPrincipalRequestLimiter = 
     (newWindowLimiter principalMethodLimit principalGlobalLimit)\<lparr>wl_capacity := principalLimiterCapacity\<rparr>"

definition newLoginRequestLimiter :: WindowLimiter where
  "newLoginRequestLimiter = newWindowLimiter loginRequestSourceLimit loginRequestGlobalLimit"

definition newCreateUserRequestLimiter :: WindowLimiter where
  "newCreateUserRequestLimiter = newWindowLimiter createUserRequestSourceLimit createUserRequestGlobalLimit"

definition newSSOStateRequestLimiter :: WindowLimiter where
  "newSSOStateRequestLimiter = newWindowLimiter ssoStateSourceLimit ssoStateGlobalLimit"

lemmas limiter_defs = newWindowLimiter_def
  newDeviceLoginCreateLimiter_def newDeviceLoginLookupLimiter_def
  newMCPCallLimiter_def newMCPSourceCallLimiter_def
  newLogoutRequestLimiter_def newPrincipalRequestLimiter_def
  newLoginRequestLimiter_def newCreateUserRequestLimiter_def
  newSSOStateRequestLimiter_def

subsection \<open>Operations\<close>

definition pruneLocked :: "(string, loginAttempt) ranging \<Rightarrow> time \<Rightarrow> WindowLimiter \<Rightarrow> WindowLimiter" where
  "pruneLocked r now l =
     (if length (wl_sources l) < wl_capacity l then l
      else
        let l' = l\<lparr>wl_sources :=
              range_delete (\<lambda>a. wl_window l \<le> time_Sub now (attempt_first a)) r (wl_sources l)\<rparr>
        in if length (wl_sources l') < wl_capacity l' then l'
           else l'\<lparr>wl_sources := gm_del (oldest_key r (wl_sources l')) (wl_sources l')\<rparr>)"

definition Allow :: "(string, loginAttempt) ranging \<Rightarrow> string \<Rightarrow> time \<Rightarrow> WindowLimiter \<Rightarrow> bool \<times> WindowLimiter" where
  "Allow r source now l =
     (if windowExceeded (wl_global l) (wl_globalLimit l) (wl_window l) now then (False, l)
      else
        let attempt = attempt_of (wl_sources l) source
        in if windowExceeded attempt (wl_sourceLimit l) (wl_window l) now then (False, l)
           else
             let l1 = l\<lparr>wl_global := windowBump (wl_global l) (wl_window l) now\<rparr>;
                 l2 = pruneLocked r now l1
             in (True, l2\<lparr>wl_sources :=
                   gm_put source (windowBump attempt (wl_window l) now) (wl_sources l2)\<rparr>))"

text \<open>A request: its source, the instant it is counted at, and the iteration order it sees.\<close>

type_synonym allow_op = "string \<times> time \<times> (string, loginAttempt) ranging"

fun wl_step :: "WindowLimiter \<Rightarrow> allow_op \<Rightarrow> WindowLimiter" where
  "wl_step l (source, now, r) = snd (Allow r source now l)"

fun allowed :: "WindowLimiter \<Rightarrow> allow_op list \<Rightarrow> (string \<times> time) list" where
  "allowed l [] = []"
| "allowed l ((source, now, r) # ops) =
     (if fst (Allow r source now l) then [(source, now)] else [])
       @ allowed (snd (Allow r source now l)) ops"

definition op_source :: "allow_op \<Rightarrow> string" where "op_source op = fst op"
definition op_time :: "allow_op \<Rightarrow> time" where "op_time op = fst (snd op)"
definition op_fair :: "allow_op \<Rightarrow> bool" where "op_fair op = fair_range (snd (snd op))"

lemmas op_defs [simp] = op_source_def op_time_def op_fair_def

subsection \<open>Frame and capacity\<close>

lemma pruneLocked_frame [simp]:
  "wl_global (pruneLocked r now l) = wl_global l"
  "wl_sourceLimit (pruneLocked r now l) = wl_sourceLimit l"
  "wl_globalLimit (pruneLocked r now l) = wl_globalLimit l"
  "wl_window (pruneLocked r now l) = wl_window l"
  "wl_capacity (pruneLocked r now l) = wl_capacity l"
  by (simp_all add: pruneLocked_def Let_def)

lemma Allow_frame [simp]:
  "wl_sourceLimit (snd (Allow r source now l)) = wl_sourceLimit l"
  "wl_globalLimit (snd (Allow r source now l)) = wl_globalLimit l"
  "wl_window (snd (Allow r source now l)) = wl_window l"
  "wl_capacity (snd (Allow r source now l)) = wl_capacity l"
  by (simp_all add: Allow_def Let_def)

definition wl_ok :: "WindowLimiter \<Rightarrow> bool" where
  "wl_ok l \<longleftrightarrow> gm_ok (wl_sources l) \<and> 0 < wl_capacity l"

lemma pruneLocked_ok:
  "fair_range r \<Longrightarrow> wl_ok l \<Longrightarrow> wl_ok (pruneLocked r now l)"
  by (auto simp: pruneLocked_def wl_ok_def Let_def range_delete_filter)

lemma pruneLocked_room:
  assumes "fair_range r" and "wl_ok l" and "length (wl_sources l) \<le> wl_capacity l"
  shows "length (wl_sources (pruneLocked r now l)) < wl_capacity l"
proof -
  define m where "m = range_delete (\<lambda>a. wl_window l \<le> time_Sub now (attempt_first a)) r (wl_sources l)"
  have m: "length m \<le> wl_capacity l"
    using assms unfolding m_def wl_ok_def
    by (auto simp: range_delete_filter intro: le_trans [OF length_filter_le])
  have "length (gm_del (oldest_key r m) m) < wl_capacity l" if "\<not> length m < wl_capacity l"
  proof -
    have "m \<noteq> []" using that assms(2) by (auto simp: wl_ok_def)
    from length_gm_del_lt [OF oldest_key_mem [OF assms(1) this]] m show ?thesis by simp
  qed
  then show ?thesis
    using assms(2) by (auto simp: pruneLocked_def Let_def wl_ok_def m_def)
qed

lemma Allow_ok: "fair_range r \<Longrightarrow> wl_ok l \<Longrightarrow> wl_ok (snd (Allow r source now l))"
  using pruneLocked_ok [of r "l\<lparr>wl_global := windowBump (wl_global l) (wl_window l) now\<rparr>" now]
  by (auto simp: Allow_def Let_def wl_ok_def)

lemma Allow_occupancy:
  assumes "fair_range r" and "wl_ok l" and "length (wl_sources l) \<le> wl_capacity l"
  shows "length (wl_sources (snd (Allow r source now l))) \<le> wl_capacity l"
proof -
  let ?l = "l\<lparr>wl_global := windowBump (wl_global l) (wl_window l) now\<rparr>"
  have "length (wl_sources (pruneLocked r now ?l)) < wl_capacity l"
    using pruneLocked_room [of r ?l now] assms by (simp add: wl_ok_def)
  then show ?thesis
    using assms(3) by (simp add: Allow_def Let_def length_gm_put)
qed

interpretation wl: bounded_pool wl_step op_fair wl_ok "\<lambda>l. length (wl_sources l)" wl_capacity
  by unfold_locales (auto intro: Allow_ok Allow_occupancy)

lemma newWindowLimiter_ok: "wl_ok (newWindowLimiter s g)"
  by (simp add: wl_ok_def newWindowLimiter_def limiterCapacity_def)

subsection \<open>What the limiter admits\<close>

text \<open>A request that is refused leaves no trace; one that is allowed bumps both counters.\<close>

lemma Allow_refused: "\<not> fst (Allow r source now l) \<Longrightarrow> snd (Allow r source now l) = l"
  by (auto simp: Allow_def Let_def split: if_splits)

lemma Allow_global:
  assumes "fst (Allow r source now l)"
  shows "\<not> windowExceeded (wl_global l) (wl_globalLimit l) (wl_window l) now"
    and "wl_global (snd (Allow r source now l)) = windowBump (wl_global l) (wl_window l) now"
  using assms by (auto simp: Allow_def Let_def split: if_splits)

lemma allowed_times: "set (allowed l ops) \<subseteq> (\<lambda>op. (op_source op, op_time op)) ` set ops"
  by (induction l ops rule: allowed.induct) auto

lemma sorted_allowed: "sorted (map op_time ops) \<Longrightarrow> sorted (map snd (allowed l ops))"
proof (induction l ops rule: allowed.induct)
  case (2 l source now r ops)
  have "\<forall>t\<in>set (map snd (allowed (snd (Allow r source now l)) ops)). now \<le> t"
    using allowed_times [of "snd (Allow r source now l)" ops] "2.prems" by fastforce
  with 2 show ?case by simp
qed simp

lemma global_admits:
  "admits (wl_globalLimit l) (wl_window l) (wl_global l) (map snd (allowed l ops))"
proof (induction l ops rule: allowed.induct)
  case (2 l source now r ops)
  then show ?case
    using Allow_refused [of r source now l] Allow_global [of r source now l] by (cases "fst (Allow r source now l)") auto
qed simp

text \<open>With room in the map nothing is evicted, and the counter of a source moves with it alone.\<close>

lemma Allow_source:
  assumes "fst (Allow r source now l)" and "length (wl_sources l) < wl_capacity l"
  shows "\<not> windowExceeded (attempt_of (wl_sources l) source) (wl_sourceLimit l) (wl_window l) now"
    and "attempt_of (wl_sources (snd (Allow r source now l))) k =
      (if k = source then windowBump (attempt_of (wl_sources l) source) (wl_window l) now else attempt_of (wl_sources l) k)"
    and "gm_keys (wl_sources (snd (Allow r source now l))) = insert source (gm_keys (wl_sources l))"
  using assms
  by (auto simp: Allow_def Let_def pruneLocked_def attempt_of_def gm_get_put update_keys dom_update split: if_splits)

lemma source_admits:
  assumes "finite K" and "card K < wl_capacity l" and "gm_ok (wl_sources l)"
    and "gm_keys (wl_sources l) \<subseteq> K" and "op_source ` set ops \<subseteq> K"
  shows "admits (wl_sourceLimit l) (wl_window l) (attempt_of (wl_sources l) k)
           (map snd (filter (\<lambda>e. fst e = k) (allowed l ops)))"
  using assms(2-)
proof (induction l ops rule: allowed.induct)
  case (2 l source now r ops)
  have "length (wl_sources l) = card (gm_keys (wl_sources l))"
    using "2.prems"(2) by (rule gm_length_card)
  also have "\<dots> \<le> card K" by (rule card_mono [OF assms(1) "2.prems"(3)])
  finally have room: "length (wl_sources l) < wl_capacity l" using "2.prems"(1) by simp
  show ?case
  proof (cases "fst (Allow r source now l)")
    case False
    then show ?thesis using 2 Allow_refused [OF False] by simp
  next
    case True
    have "gm_ok (wl_sources (snd (Allow r source now l)))"
      using True room "2.prems"(2) by (auto simp: Allow_def pruneLocked_def Let_def)
    then show ?thesis
      using True Allow_source [OF True room] 2 by (auto simp: op_source_def)
  qed
qed simp

lemma newWindowLimiter_fields [simp]:
  "wl_sources (newWindowLimiter s g) = []" "wl_global (newWindowLimiter s g) = zero_attempt"
  "wl_sourceLimit (newWindowLimiter s g) = s" "wl_globalLimit (newWindowLimiter s g) = g"
  "wl_window (newWindowLimiter s g) = throttleWindow" "wl_capacity (newWindowLimiter s g) = limiterCapacity"
  by (simp_all add: newWindowLimiter_def)

lemma throttleWindow_ok [simp]: "window_ok throttleWindow"
  by (simp add: window_ok_def throttleWindow_def duration_defs)

lemma times_after_zero:
  "\<forall>op\<in>set ops. 0 < op_time op \<Longrightarrow> e \<in> set (allowed l ops) \<Longrightarrow> 0 < snd e"
  using allowed_times [of l ops] by fastforce

lemma global_admits_within:
  assumes "1 \<le> g" and "sorted (map op_time ops)" and "\<forall>op\<in>set ops. 0 < op_time op"
  shows "length (filter (\<lambda>e. lo \<le> snd e \<and> snd e < hi) (allowed (newWindowLimiter s g) ops))
     \<le> g * (1 + windows_until throttleWindow hi lo)"
proof -
  let ?ts = "map snd (allowed (newWindowLimiter s g) ops)"
  have "length (filter (\<lambda>t. lo \<le> t \<and> t < hi) ?ts) \<le> g * (1 + windows_until throttleWindow hi lo)"
    using global_admits [of "newWindowLimiter s g" ops] sorted_allowed [OF assms(2)]
      times_after_zero [OF assms(3)]
    by (intro admits_within [OF throttleWindow_ok assms(1), of zero_attempt])
       (auto simp: zero_attempt_def zero_time_def intro: less_imp_le)
  then show ?thesis by (simp add: filter_map comp_def)
qed

text \<open>The deployment-wide budget: from a fresh limiter and with the clock running forward,
  at most \<open>globalLimit * (1 + \<lceil>(hi - lo) / window\<rceil>)\<close> requests are allowed between two instants
  \<open>lo\<close> and \<open>hi\<close>, from however many sources, in whatever order the map is iterated.\<close>

theorem global_budget:
  assumes "1 \<le> g" and "sorted (map op_time ops)" and "\<forall>op\<in>set ops. 0 < op_time op"
  shows "length (filter (\<lambda>e. lo \<le> snd e \<and> snd e < hi) (allowed (newWindowLimiter s g) ops))
     \<le> g * (1 + windows_until throttleWindow hi lo)"
  by (rule global_admits_within [OF assms])

theorem global_budget_witness:
  "let ops = [(''a'', minute, id), (''b'', minute + 1, id), (''c'', 2 * minute, rev)];
       l = newWindowLimiter 1 1
   in allowed l ops = [(''a'', minute), (''c'', 2 * minute)] \<and>
      length (filter (\<lambda>e. minute \<le> snd e \<and> snd e < 2 * minute + 1) (allowed l ops)) \<le> 3"
proof -
  let ?ops = "[(''a'', minute, id), (''b'', minute + 1, id), (''c'', 2 * minute, rev)] :: allow_op list"
  have h: "sorted (map op_time ?ops)" "\<forall>op\<in>set ?ops. 0 < op_time op"
    by (simp_all add: duration_defs)
  have "allowed (newWindowLimiter 1 1) ?ops = [(''a'', minute), (''c'', 2 * minute)]"
    by code_simp
  moreover have "windows_until throttleWindow (2 * minute + 1) minute = 2"
    by (simp add: windows_until_def throttleWindow_def duration_defs)
  ultimately show ?thesis
    using global_budget [OF _ h, of 1 minute "2 * minute + 1" 1] by (simp add: Let_def)
qed

text \<open>The budget of one source, while the map has room: from a fresh limiter that sees fewer
  distinct sources than its capacity, at most
  \<open>sourceLimit * (1 + \<lceil>(hi - lo) / window\<rceil>)\<close> requests of a source are allowed between \<open>lo\<close>
  and \<open>hi\<close>.\<close>

theorem source_budget:
  assumes "1 \<le> s" and "sorted (map op_time ops)" and "\<forall>op\<in>set ops. 0 < op_time op"
    and "card (op_source ` set ops) < limiterCapacity"
  shows "length (filter (\<lambda>e. fst e = k \<and> lo \<le> snd e \<and> snd e < hi)
      (allowed (newWindowLimiter s g) ops)) \<le> s * (1 + windows_until throttleWindow hi lo)"
proof -
  let ?es = "filter (\<lambda>e. fst e = k) (allowed (newWindowLimiter s g) ops)"
  let ?ts = "map snd ?es"
  have "sorted ?ts"
    using sorted_filter [OF sorted_allowed [OF assms(2)]] .
  moreover have "admits s throttleWindow zero_attempt ?ts"
    using source_admits [of "op_source ` set ops" "newWindowLimiter s g" ops k] assms(4)
    by (simp add: attempt_of_def)
  ultimately have "length (filter (\<lambda>t. lo \<le> t \<and> t < hi) ?ts) \<le> s * (1 + windows_until throttleWindow hi lo)"
    using times_after_zero [OF assms(3)]
    by (intro admits_within [OF throttleWindow_ok assms(1), of zero_attempt])
       (auto simp: zero_attempt_def zero_time_def intro: less_imp_le)
  then show ?thesis by (simp add: filter_map comp_def conj_commute conj_left_commute)
qed

theorem source_budget_witness:
  "let ops = [(''a'', minute, id), (''a'', minute + 1, id), (''b'', minute + 2, rev)];
       l = newWindowLimiter 1 5
   in allowed l ops = [(''a'', minute), (''b'', minute + 2)] \<and>
      length (filter (\<lambda>e. fst e = ''a'' \<and> minute \<le> snd e \<and> snd e < 2 * minute) (allowed l ops)) \<le> 2"
proof -
  let ?ops = "[(''a'', minute, id), (''a'', minute + 1, id), (''b'', minute + 2, rev)] :: allow_op list"
  have h: "sorted (map op_time ?ops)" "\<forall>op\<in>set ?ops. 0 < op_time op"
    "card (op_source ` set ?ops) < limiterCapacity"
    by (simp_all add: duration_defs limiterCapacity_def)
  have "allowed (newWindowLimiter 1 5) ?ops = [(''a'', minute), (''b'', minute + 2)]"
    by code_simp
  moreover have "windows_until throttleWindow (2 * minute) minute = 1"
    by (simp add: windows_until_def throttleWindow_def duration_defs)
  ultimately show ?thesis
    using source_budget [OF _ h, of 1 "''a''" minute "2 * minute" 5] by (simp add: Let_def)
qed

subsection \<open>Capacity and eviction\<close>

text \<open>However many sources call, a limiter tracks at most \<open>limiterCapacity\<close> of them.\<close>

theorem limiter_bounded:
  assumes "\<forall>op\<in>set ops. op_fair op"
  shows "length (wl_sources (run wl_step (newWindowLimiter s g) ops)) \<le> limiterCapacity"
  using wl.run_bounded [of "newWindowLimiter s g" ops] newWindowLimiter_ok assms by simp

theorem limiter_bounded_witness:
  "length (wl_sources (run wl_step (newWindowLimiter 1 2)
     [(''a'', minute, rev), (''b'', minute, id), (''c'', minute, id)])) \<le> limiterCapacity"
  by (rule limiter_bounded) simp

text \<open>
  What a full limiter forgets: every elapsed window and, only when no window has
  elapsed, one open window; where no source has the empty name, that one is the oldest.
\<close>

theorem prune_evicts_elapsed_or_oldest:
  assumes "fair_range r" and "wl_ok l" and "length (wl_sources l) = wl_capacity l"
    and "window_ok (wl_window l)" and "'''' \<notin> gm_keys (wl_sources l)"
    and "gm_get (wl_sources l) k = Some a" and "gm_get (wl_sources (pruneLocked r now l)) k = None"
  shows "attempt_first a + wl_window l \<le> now \<or>
    (\<forall>k' a'. gm_get (wl_sources l) k' = Some a' \<longrightarrow>
       now < attempt_first a' + wl_window l \<and> attempt_first a \<le> attempt_first a')"
proof (cases "attempt_first a + wl_window l \<le> now")
  case False
  define m where "m = filter (\<lambda>e. \<not> wl_window l \<le> time_Sub now (attempt_first (snd e))) (wl_sources l)"
  have ok: "gm_ok (wl_sources l)" using assms(2) by (simp add: wl_ok_def)
  have prune: "wl_sources (pruneLocked r now l) =
      (if length m < wl_capacity l then m else gm_del (oldest_key r m) m)"
    using assms(3) by (simp add: pruneLocked_def Let_def range_delete_filter [OF assms(1) ok] m_def)
  have kept: "gm_get m k = Some a"
    using False assms(4,6) by (simp add: m_def gm_get_filter [OF ok] window_elapsed)
  have full: "\<not> length m < wl_capacity l" and k: "k = oldest_key r m"
    using assms(7) kept by (auto simp: prune gm_get_del split: if_splits)
  have "m = wl_sources l"
    using full assms(3) unfolding m_def by (metis filter_id_conv length_filter_less linorder_not_less)
  have "now < attempt_first a' + wl_window l \<and> attempt_first a \<le> attempt_first a'"
    if "gm_get (wl_sources l) k' = Some a'" for k' a'
  proof -
    have mem: "(k', a') \<in> set m"
      using that by (simp add: \<open>m = wl_sources l\<close> map_of_SomeD)
    have "\<exists>b. gm_get m k = Some b \<and> attempt_first b \<le> attempt_first a'"
      unfolding k using assms(1,5) ok mem \<open>m = wl_sources l\<close> by (intro oldest_key_min) auto
    with kept mem assms(4) show ?thesis
      unfolding m_def by (auto simp: window_elapsed)
  qed
  then show ?thesis by blast
qed simp

theorem prune_evicts_elapsed_or_oldest_witness:
  "let l = (newWindowLimiter 1 9)\<lparr>wl_capacity := 2,
         wl_sources := [(''a'', \<lparr>attempt_count = 1, attempt_first = 8\<rparr>),
                        (''b'', \<lparr>attempt_count = 1, attempt_first = 7\<rparr>)]\<rparr>
   in gm_get (wl_sources (pruneLocked rev 9 l)) ''b'' = None \<and>
      (\<forall>k' a'. gm_get (wl_sources l) k' = Some a' \<longrightarrow> 7 \<le> attempt_first a')"
proof -
  let ?l = "(newWindowLimiter 1 9)\<lparr>wl_capacity := 2,
         wl_sources := [(''a'', \<lparr>attempt_count = 1, attempt_first = 8\<rparr>),
                        (''b'', \<lparr>attempt_count = 1, attempt_first = 7\<rparr>)]\<rparr>"
  have gone: "gm_get (wl_sources (pruneLocked rev 9 ?l)) ''b'' = None"
    by code_simp
  have "\<forall>k' a'. gm_get (wl_sources ?l) k' = Some a' \<longrightarrow> 7 \<le> attempt_first a'"
    using prune_evicts_elapsed_or_oldest [OF fair_range_rev _ _ _ _ _ gone,
        of "\<lparr>attempt_count = 1, attempt_first = 7\<rparr>"]
    by (simp add: wl_ok_def throttleWindow_def duration_defs)
  with gone show ?thesis by (simp add: Let_def)
qed

end
