(* ===== verification/Login_Limiter.thy ===== *)
theory Login_Limiter
  imports Store_Interfaces Login_Attempts Go_Strings
begin

text \<open>
  The password-guessing throttle of \<open>backend/component/state/login_limiter.go\<close>: failed
  logins counted per account and per source in two maps of fixed-window counters. The Go
  maps are mutated in place by \<open>attemptBlocked\<close> as well as by the recording functions, so
  every operation returns the new limiter.
\<close>

subsection \<open>State and operations\<close>

definition loginAccountAttemptLimit :: nat where "loginAccountAttemptLimit = 10"
definition loginSourceAttemptLimit :: nat where "loginSourceAttemptLimit = 20"
definition loginAttemptWindow :: duration where "loginAttemptWindow = 5 * minute"
definition loginAttemptCapacity :: nat where "loginAttemptCapacity = 4096"

lemmas login_limit_defs = loginAccountAttemptLimit_def loginSourceAttemptLimit_def
  loginAttemptWindow_def loginAttemptCapacity_def

record LoginLimiter =
  ll_accounts :: "(string, loginAttempt) gomap"
  ll_sources :: "(string, loginAttempt) gomap"

definition newLoginLimiter :: LoginLimiter where
  "newLoginLimiter = \<lparr>ll_accounts = [], ll_sources = []\<rparr>"

definition normalizeAccount :: "string \<Rightarrow> string" where
  "normalizeAccount email = ToLower (TrimSpace email)"

definition attemptBlocked ::
    "(string, loginAttempt) gomap \<Rightarrow> string \<Rightarrow> nat \<Rightarrow> time \<Rightarrow> bool \<times> (string, loginAttempt) gomap" where
  "attemptBlocked attempts key limit now =
     (case gm_get attempts key of
        None \<Rightarrow> (False, attempts)
      | Some attempt \<Rightarrow>
          if loginAttemptWindow \<le> time_Sub now (attempt_first attempt) then (False, gm_del key attempts)
          else (limit \<le> attempt_count attempt, attempts))"

definition pruneAttemptsLocked ::
    "(string, loginAttempt) ranging \<Rightarrow> (string, loginAttempt) gomap \<Rightarrow> time \<Rightarrow> nat \<Rightarrow> (string, loginAttempt) gomap" where
  "pruneAttemptsLocked r attempts now capacity =
     (let attempts' = range_delete (\<lambda>a. loginAttemptWindow \<le> time_Sub now (attempt_first a)) r attempts
      in if length attempts' < capacity then attempts'
         else gm_del (oldest_key r attempts') attempts')"

definition recordAttemptLocked ::
    "(string, loginAttempt) ranging \<Rightarrow> (string, loginAttempt) gomap \<Rightarrow> string \<Rightarrow> time \<Rightarrow> nat \<Rightarrow> (string, loginAttempt) gomap" where
  "recordAttemptLocked r attempts key now capacity =
     (case gm_get attempts key of
        None \<Rightarrow> gm_put key \<lparr>attempt_count = 1, attempt_first = now\<rparr> (pruneAttemptsLocked r attempts now capacity)
      | Some attempt \<Rightarrow>
          if loginAttemptWindow \<le> time_Sub now (attempt_first attempt)
          then gm_put key \<lparr>attempt_count = 1, attempt_first = now\<rparr> (pruneAttemptsLocked r attempts now capacity)
          else gm_put key (attempt\<lparr>attempt_count := attempt_count attempt + 1\<rparr>) attempts)"

text \<open>The second map is only consulted, and cleaned, when the account is not blocked.\<close>

definition Blocked :: "string \<Rightarrow> string \<Rightarrow> time \<Rightarrow> LoginLimiter \<Rightarrow> bool \<times> LoginLimiter" where
  "Blocked email source now l =
     (case attemptBlocked (ll_accounts l) (normalizeAccount email) loginAccountAttemptLimit now of
        (True, accounts) \<Rightarrow> (True, l\<lparr>ll_accounts := accounts\<rparr>)
      | (False, accounts) \<Rightarrow>
          (case attemptBlocked (ll_sources l) source loginSourceAttemptLimit now of
             (b, sources) \<Rightarrow> (b, l\<lparr>ll_accounts := accounts, ll_sources := sources\<rparr>)))"

definition RecordFailure ::
    "(string, loginAttempt) ranging \<Rightarrow> string \<Rightarrow> string \<Rightarrow> time \<Rightarrow> LoginLimiter \<Rightarrow> LoginLimiter" where
  "RecordFailure r email source now l =
     l\<lparr>ll_accounts := recordAttemptLocked r (ll_accounts l) (normalizeAccount email) now loginAttemptCapacity,
       ll_sources := recordAttemptLocked r (ll_sources l) source now loginAttemptCapacity\<rparr>"

definition ResetAccount :: "string \<Rightarrow> LoginLimiter \<Rightarrow> LoginLimiter" where
  "ResetAccount email l = l\<lparr>ll_accounts := gm_del (normalizeAccount email) (ll_accounts l)\<rparr>"

datatype login_op =
  OpBlocked string string time
| OpFailure "(string, loginAttempt) ranging" string string time
| OpReset string

fun ll_step :: "LoginLimiter \<Rightarrow> login_op \<Rightarrow> LoginLimiter" where
  "ll_step l (OpBlocked email source now) = snd (Blocked email source now l)"
| "ll_step l (OpFailure r email source now) = RecordFailure r email source now l"
| "ll_step l (OpReset email) = ResetAccount email l"

fun ll_fair :: "login_op \<Rightarrow> bool" where
  "ll_fair (OpFailure r email source now) = fair_range r"
| "ll_fair _ = True"

subsection \<open>Capacity\<close>

lemma loginAttemptWindow_ok [simp]: "window_ok loginAttemptWindow"
  by (simp add: window_ok_def loginAttemptWindow_def duration_defs)

lemma attemptBlocked_ok:
  "gm_ok m \<Longrightarrow> gm_ok (snd (attemptBlocked m k n now))"
  "length (snd (attemptBlocked m k n now)) \<le> length m"
  by (auto simp: attemptBlocked_def length_gm_del_le split: option.splits)

lemma pruneAttempts_ok:
  "fair_range r \<Longrightarrow> gm_ok m \<Longrightarrow> gm_ok (pruneAttemptsLocked r m now c)"
  by (auto simp: pruneAttemptsLocked_def Let_def range_delete_filter)

lemma pruneAttempts_room:
  assumes "fair_range r" and "gm_ok m" and "length m \<le> c" and "0 < c"
  shows "length (pruneAttemptsLocked r m now c) < c"
proof -
  define m' where "m' = range_delete (\<lambda>a. loginAttemptWindow \<le> time_Sub now (attempt_first a)) r m"
  have m': "length m' \<le> c"
    using assms unfolding m'_def by (auto simp: range_delete_filter intro: le_trans [OF length_filter_le])
  have "length (gm_del (oldest_key r m') m') < c" if "\<not> length m' < c"
  proof -
    have "m' \<noteq> []" using that assms(4) by auto
    from length_gm_del_lt [OF oldest_key_mem [OF assms(1) this]] m' show ?thesis by simp
  qed
  then show ?thesis by (simp add: pruneAttemptsLocked_def m'_def Let_def)
qed

lemma recordAttempt_ok:
  "fair_range r \<Longrightarrow> gm_ok m \<Longrightarrow> gm_ok (recordAttemptLocked r m k now c)"
  by (auto simp: recordAttemptLocked_def pruneAttempts_ok split: option.splits)

lemma recordAttempt_occupancy:
  assumes "fair_range r" and "gm_ok m" and "length m \<le> c" and "0 < c"
  shows "length (recordAttemptLocked r m k now c) \<le> c"
  using pruneAttempts_room [OF assms, of now] assms(3)
  by (auto simp: recordAttemptLocked_def length_gm_put gm_keys_get split: option.splits)

definition ll_ok :: "LoginLimiter \<Rightarrow> bool" where
  "ll_ok l \<longleftrightarrow> gm_ok (ll_accounts l) \<and> gm_ok (ll_sources l)"

lemma Blocked_maps:
  "ll_accounts (snd (Blocked email source now l)) =
     snd (attemptBlocked (ll_accounts l) (normalizeAccount email) loginAccountAttemptLimit now)"
  "ll_sources (snd (Blocked email source now l)) =
     (if fst (attemptBlocked (ll_accounts l) (normalizeAccount email) loginAccountAttemptLimit now)
      then ll_sources l else snd (attemptBlocked (ll_sources l) source loginSourceAttemptLimit now))"
  by (simp_all add: Blocked_def split: prod.splits bool.splits)

interpretation ll_acc: bounded_pool ll_step ll_fair ll_ok "\<lambda>l. length (ll_accounts l)" "\<lambda>_. loginAttemptCapacity"
proof (unfold_locales, goal_cases)
  case (1 s op)
  then show ?case
    by (cases op) (auto simp: ll_ok_def Blocked_maps attemptBlocked_ok RecordFailure_def
        recordAttempt_ok ResetAccount_def)
next
  case (3 s op)
  then show ?case
    by (cases op) (auto simp: ll_ok_def Blocked_maps RecordFailure_def ResetAccount_def
        loginAttemptCapacity_def intro: recordAttempt_occupancy
        le_trans [OF attemptBlocked_ok(2)] le_trans [OF length_gm_del_le])
qed simp

interpretation ll_src: bounded_pool ll_step ll_fair ll_ok "\<lambda>l. length (ll_sources l)" "\<lambda>_. loginAttemptCapacity"
proof (unfold_locales, goal_cases)
  case (2 s op)
  then show ?case
    by (cases op) (auto simp: ll_ok_def Blocked_maps RecordFailure_def ResetAccount_def
        loginAttemptCapacity_def intro: recordAttempt_occupancy
        le_trans [OF attemptBlocked_ok(2)])
qed simp

subsection \<open>Password logins\<close>

text \<open>
  The throttled part of \<open>AuthService.Login\<close> (\<open>backend/api/v1/auth_service.go\<close>): the limiter is asked
  before the password is verified, a failure is recorded, a success clears the account. The limiter is
  locked in each call and not between them, so that other logins ask and record while one verifies its
  password: a login is two steps, each reading the clock. \<open>lr_good\<close> is the verdict \<open>getAndVerifyUser\<close>
  comes to.
\<close>

record login_request =
  lr_email :: string
  lr_source :: string
  lr_good :: bool

definition askLogin :: "login_request \<Rightarrow> time \<Rightarrow> LoginLimiter \<Rightarrow> bool \<times> LoginLimiter" where
  "askLogin q now l = Blocked (lr_email q) (lr_source q) now l"

definition verifyLogin ::
    "(string, loginAttempt) ranging \<Rightarrow> login_request \<Rightarrow> time \<Rightarrow> LoginLimiter \<Rightarrow> LoginLimiter" where
  "verifyLogin r q now l =
     (if \<not> lr_good q then RecordFailure r (lr_email q) (lr_source q) now l else ResetAccount (lr_email q) l)"

text \<open>The limiter with the logins that were let through and verify their password.\<close>

record logins =
  lg_limiter :: LoginLimiter
  lg_checking :: "(nat, login_request) gomap"

definition fresh_logins :: logins where
  "fresh_logins = \<lparr>lg_limiter = newLoginLimiter, lg_checking = []\<rparr>"

datatype login_event =
    Ask nat login_request time
  | Verify nat time "(string, loginAttempt) ranging"

fun ev_time :: "login_event \<Rightarrow> time" where
  "ev_time (Ask login q now) = now"
| "ev_time (Verify login now r) = now"

fun login_step :: "logins \<Rightarrow> login_event \<Rightarrow> logins" where
  "login_step s (Ask login q now) =
     (if gm_get (lg_checking s) login \<noteq> None then s
      else case askLogin q now (lg_limiter s) of (blocked, l) \<Rightarrow>
        s\<lparr>lg_limiter := l, lg_checking := (if blocked then lg_checking s else gm_put login q (lg_checking s))\<rparr>)"
| "login_step s (Verify login now r) =
     (case gm_get (lg_checking s) login of
        None \<Rightarrow> s
      | Some q \<Rightarrow> s\<lparr>lg_limiter := verifyLogin r q now (lg_limiter s), lg_checking := gm_del login (lg_checking s)\<rparr>)"

text \<open>The guesses that reached the password check and failed, with the instant of the failure.\<close>

fun fails :: "logins \<Rightarrow> login_event \<Rightarrow> (login_request \<times> time) list" where
  "fails s (Ask login q now) = []"
| "fails s (Verify login now r) =
     (case gm_get (lg_checking s) login of
        None \<Rightarrow> [] | Some q \<Rightarrow> if lr_good q then [] else [(q, now)])"

fun failed_guesses :: "logins \<Rightarrow> login_event list \<Rightarrow> (login_request \<times> time) list" where
  "failed_guesses s [] = []"
| "failed_guesses s (e # es) = fails s e @ failed_guesses (login_step s e) es"

text \<open>The most logins with a property that verify their password at one moment of a run.\<close>

definition verifying :: "(login_request \<Rightarrow> bool) \<Rightarrow> logins \<Rightarrow> nat" where
  "verifying P s = length (filter (\<lambda>e. P (snd e)) (lg_checking s))"

fun most_verifying :: "(login_request \<Rightarrow> bool) \<Rightarrow> logins \<Rightarrow> login_event list \<Rightarrow> nat" where
  "most_verifying P s [] = verifying P s"
| "most_verifying P s (e # es) = max (verifying P s) (most_verifying P (login_step s e) es)"

definition account_of :: "login_request \<Rightarrow> string" where
  "account_of q = normalizeAccount (lr_email q)"

subsection \<open>How the counters move\<close>

text \<open>
  Between two recordings a map is only cleaned: a counter stays, or it had elapsed and is
  gone. Recording under a key bumps its counter and cleans the others.
\<close>

definition cleaned :: "time \<Rightarrow> (string, loginAttempt) gomap \<Rightarrow> string \<Rightarrow> (string, loginAttempt) gomap \<Rightarrow> bool" where
  "cleaned now m k m' \<longleftrightarrow> attempt_of m' k = attempt_of m k \<or>
     attempt_of m' k = zero_attempt \<and> attempt_first (attempt_of m k) + loginAttemptWindow \<le> now"

definition counters_ok :: "string set \<Rightarrow> (string, loginAttempt) gomap \<Rightarrow> bool" where
  "counters_ok K m \<longleftrightarrow> gm_ok m \<and> gm_keys m \<subseteq> K \<and> (\<forall>k a. gm_get m k = Some a \<longrightarrow> 0 < attempt_first a)"

lemma attemptBlocked_exceeded:
  "1 \<le> limit \<Longrightarrow> fst (attemptBlocked m k limit now) = windowExceeded (attempt_of m k) limit loginAttemptWindow now"
  by (auto simp: attemptBlocked_def windowExceeded_def attempt_of_def zero_attempt_def split: option.splits)

lemma attemptBlocked_cleaned: "cleaned now m k (snd (attemptBlocked m k' limit now))"
  by (auto simp: attemptBlocked_def cleaned_def attempt_of_def gm_get_del window_elapsed split: option.splits)

lemma attemptBlocked_counters:
  "counters_ok K m \<Longrightarrow> counters_ok K (snd (attemptBlocked m k limit now))"
  by (auto simp: counters_ok_def attemptBlocked_def set_gm_del gm_get_del split: option.splits if_splits)

lemma pruneAttempts_filter:
  assumes "fair_range r" and "counters_ok K m" and "finite K" and "card K < c"
  shows "pruneAttemptsLocked r m now c =
    filter (\<lambda>e. \<not> loginAttemptWindow \<le> time_Sub now (attempt_first (snd e))) m" (is "_ = ?m")
proof -
  have "length m \<le> card K"
    using assms(2,3) gm_length_card [of m] by (auto simp: counters_ok_def intro: card_mono)
  then have "length ?m \<le> card K"
    by (rule le_trans [OF length_filter_le])
  then show ?thesis
    using assms by (auto simp: pruneAttemptsLocked_def range_delete_filter counters_ok_def Let_def)
qed

lemma recordAttempt_counters:
  assumes "fair_range r" and "counters_ok K m" and "finite K" and "card K < c" and "k \<in> K" and "0 < now"
  shows "counters_ok K (recordAttemptLocked r m k now c)"
    and "attempt_of (recordAttemptLocked r m k now c) k = windowBump (attempt_of m k) loginAttemptWindow now"
    and "k' \<noteq> k \<Longrightarrow> cleaned now m k' (recordAttemptLocked r m k now c)"
proof -
  let ?p = "filter (\<lambda>e. \<not> loginAttemptWindow \<le> time_Sub now (attempt_first (snd e))) m"
  note p = pruneAttempts_filter [OF assms(1-4), of now]
  have m: "gm_ok m" "gm_keys m \<subseteq> K" "\<And>k a. gm_get m k = Some a \<Longrightarrow> 0 < attempt_first a"
    using assms(2) by (auto simp: counters_ok_def)
  show "counters_ok K (recordAttemptLocked r m k now c)"
    using assms(2,5,6) m(3)
    by (auto simp: recordAttemptLocked_def p counters_ok_def dom_update gm_get_put gm_get_filter
        split: option.splits if_splits)
  show "attempt_of (recordAttemptLocked r m k now c) k = windowBump (attempt_of m k) loginAttemptWindow now"
    using m(3) by (force simp: recordAttemptLocked_def attempt_of_def gm_get_put windowBump_def
        zero_attempt_def IsZero_def zero_time_def split: option.splits)
  show "cleaned now m k' (recordAttemptLocked r m k now c)" if "k' \<noteq> k"
    using that by (auto simp: recordAttemptLocked_def p cleaned_def attempt_of_def gm_get_put
        gm_get_filter [OF m(1)] window_elapsed split: option.splits)
qed

lemma cleaned_refl [simp]: "cleaned now m k m"
  by (simp add: cleaned_def)

lemma cleaned_trans: "cleaned now m k m' \<Longrightarrow> cleaned now m' k m'' \<Longrightarrow> cleaned now m k m''"
  by (auto simp: cleaned_def)

lemma cleaned_bump:
  "cleaned now m k m' \<Longrightarrow>
     windowBump (attempt_of m' k) loginAttemptWindow now = windowBump (attempt_of m k) loginAttemptWindow now"
  by (auto simp: cleaned_def windowBump_def zero_attempt_def IsZero_def window_elapsed)

subsection \<open>How a login moves the counters\<close>

text \<open>
  The keys of the maps and of the logins under way are among \<open>KA\<close> and \<open>KS\<close>.
\<close>

definition logins_ok :: "string set \<Rightarrow> string set \<Rightarrow> logins \<Rightarrow> bool" where
  "logins_ok KA KS s \<longleftrightarrow> counters_ok KA (ll_accounts (lg_limiter s)) \<and> counters_ok KS (ll_sources (lg_limiter s)) \<and>
     gm_ok (lg_checking s) \<and> (\<forall>e\<in>set (lg_checking s). account_of (snd e) \<in> KA \<and> lr_source (snd e) \<in> KS)"

fun event_ok :: "string set \<Rightarrow> string set \<Rightarrow> login_event \<Rightarrow> bool" where
  "event_ok KA KS (Ask login q now) \<longleftrightarrow> account_of q \<in> KA \<and> lr_source q \<in> KS \<and> 0 < now"
| "event_ok KA KS (Verify login now r) \<longleftrightarrow> fair_range r \<and> 0 < now"

definition room :: "string set \<Rightarrow> bool" where
  "room K \<longleftrightarrow> finite K \<and> card K < loginAttemptCapacity"

lemma gm_del_counters: "counters_ok K m \<Longrightarrow> counters_ok K (gm_del k m)"
  by (auto simp: counters_ok_def set_gm_del gm_get_del split: if_splits)

lemma askLogin_eq:
  fixes l q now
  defines "A \<equiv> attemptBlocked (ll_accounts l) (account_of q) loginAccountAttemptLimit now"
    and "S \<equiv> attemptBlocked (ll_sources l) (lr_source q) loginSourceAttemptLimit now"
  shows "askLogin q now l =
    (if fst A then (True, l\<lparr>ll_accounts := snd A\<rparr>)
     else (fst S, l\<lparr>ll_accounts := snd A, ll_sources := snd S\<rparr>))"
  unfolding A_def S_def by (auto simp: askLogin_def account_of_def Blocked_def split: prod.splits bool.splits)

lemma verifyLogin_eq:
  "verifyLogin r q now l =
    (if lr_good q then l\<lparr>ll_accounts := gm_del (account_of q) (ll_accounts l)\<rparr>
     else l\<lparr>ll_accounts := recordAttemptLocked r (ll_accounts l) (account_of q) now loginAttemptCapacity,
            ll_sources := recordAttemptLocked r (ll_sources l) (lr_source q) now loginAttemptCapacity\<rparr>)"
  by (simp add: verifyLogin_def account_of_def RecordFailure_def ResetAccount_def)

text \<open>
  A login under way is put into the map of them, and taken out of it.
\<close>

lemma verifying_put: "gm_get m login = None \<Longrightarrow>
    length (filter (\<lambda>e. P (snd e)) (gm_put login q m)) = length (filter (\<lambda>e. P (snd e)) m) + (if P q then 1 else 0)"
  by (induction m) (auto split: if_splits)

lemma verifying_del:
  "length (filter (\<lambda>e. P (snd e)) (gm_del login m)) + (if \<exists>q. gm_get m login = Some q \<and> P q then 1 else 0)
     \<le> length (filter (\<lambda>e. P (snd e)) m)"
  by (induction m) auto

lemma logins_ok_step:
  assumes "room KA" "room KS" and "logins_ok KA KS s" and "event_ok KA KS e"
  shows "logins_ok KA KS (login_step s e)"
proof (cases e)
  case (Ask login q now)
  have "set (gm_put login q (lg_checking s)) = insert (login, q) (set (lg_checking s))"
    if "gm_get (lg_checking s) login = None"
    by (rule set_gm_put_new [OF that])
  then show ?thesis
    using assms(3,4) unfolding logins_ok_def Ask
    by (auto simp: askLogin_eq attemptBlocked_counters)
next
  case (Verify login now r)
  have q: "account_of q \<in> KA" "lr_source q \<in> KS" if "gm_get (lg_checking s) login = Some q" for q
    using assms(3) map_of_SomeD [OF that] by (auto simp: logins_ok_def)
  show ?thesis
    using assms q unfolding logins_ok_def Verify room_def
    by (auto simp: verifyLogin_eq set_gm_del intro!: recordAttempt_counters(1) gm_del_counters split: option.splits)
qed

text \<open>
  What an event does to the counter of \<open>k\<close> and to the logins on \<open>k\<close> under way. A failure bumps the
  counter and ends one of them. Any other event leaves the counter or clears it after its window, and
  only a login that finds the counter below the limit adds to them.
\<close>

definition moved ::
    "nat \<Rightarrow> time \<Rightarrow> string \<Rightarrow> (string, loginAttempt) gomap \<Rightarrow> nat \<Rightarrow> bool \<Rightarrow> (string, loginAttempt) gomap \<Rightarrow> nat \<Rightarrow> bool" where
  "moved limit now k m n hit m' n' \<longleftrightarrow>
     (if hit then attempt_of m' k = windowBump (attempt_of m k) loginAttemptWindow now \<and> n' < n
      else cleaned now m k m' \<and> (n' \<le> n \<or> attempt_count (attempt_of m' k) < limit))"

lemma ask_moved:
  assumes "1 \<le> limit"
  shows "cleaned now m k (snd (attemptBlocked m k' limit now))"
    and "\<not> fst (attemptBlocked m k limit now) \<Longrightarrow> attempt_count (attempt_of (snd (attemptBlocked m k limit now)) k) < limit"
proof -
  show "cleaned now m k (snd (attemptBlocked m k' limit now))" by (rule attemptBlocked_cleaned)
  show "\<not> fst (attemptBlocked m k limit now) \<Longrightarrow> attempt_count (attempt_of (snd (attemptBlocked m k limit now)) k) < limit"
    using assms by (auto simp: attemptBlocked_def attempt_of_def gm_get_del zero_attempt_def split: option.splits)
qed

lemma account_moved:
  fixes k :: string
  assumes "room KA" and "logins_ok KA KS s" and "event_ok KA KS e"
    and "\<forall>q\<in>snd ` set (lg_checking s). account_of q = k \<longrightarrow> \<not> lr_good q"
  defines "P \<equiv> \<lambda>q. account_of q = k"
  shows "moved loginAccountAttemptLimit (ev_time e) k (ll_accounts (lg_limiter s)) (verifying P s)
    (\<exists>q t. fails s e = [(q, t)] \<and> P q) (ll_accounts (lg_limiter (login_step s e))) (verifying P (login_step s e))"
proof (cases e)
  case (Ask login q now)
  let ?A = "attemptBlocked (ll_accounts (lg_limiter s)) (account_of q) loginAccountAttemptLimit now"
  note am = ask_moved [where limit = loginAccountAttemptLimit and now = now and m = "ll_accounts (lg_limiter s)"]
  have l: "1 \<le> loginAccountAttemptLimit" by (simp add: loginAccountAttemptLimit_def)
  show ?thesis
    using am(1) [OF l, of k "account_of q"] am(2) [OF l, of "account_of q"]
    by (auto simp: Ask moved_def askLogin_eq verifying_def verifying_put [where P = "\<lambda>q. account_of q = k"] P_def)
next
  case (Verify login now r)
  show ?thesis
  proof (cases "gm_get (lg_checking s) login")
    case (Some q)
    have q: "account_of q \<in> KA" "P q \<Longrightarrow> \<not> lr_good q"
      using assms(2,4) map_of_SomeD [OF Some] by (auto simp: logins_ok_def P_def)
    have n: "verifying P (login_step s e) + (if P q then 1 else 0) \<le> verifying P s"
      using verifying_del [of P login "lg_checking s"] Some by (simp add: verifying_def Verify)
    have c: "counters_ok KA (ll_accounts (lg_limiter s))" "finite KA" "card KA < loginAttemptCapacity" "0 < now" "fair_range r"
      using assms(1-3) by (simp_all add: logins_ok_def room_def Verify)
    note rec = recordAttempt_counters [OF c(5,1-3) q(1) c(4)]
    show ?thesis
      using n q(2) rec(2,3) unfolding Verify moved_def
      by (auto simp: Some verifyLogin_eq P_def cleaned_def attempt_of_def gm_get_del)
  qed (simp add: Verify moved_def)
qed

text \<open>The same of a source: a success anywhere does not clear its counter.\<close>

lemma source_moved:
  fixes k :: string
  assumes "room KS" and "logins_ok KA KS s" and "event_ok KA KS e"
  defines "P \<equiv> \<lambda>q. lr_source q = k"
  shows "moved loginSourceAttemptLimit (ev_time e) k (ll_sources (lg_limiter s)) (verifying P s)
    (\<exists>q t. fails s e = [(q, t)] \<and> P q) (ll_sources (lg_limiter (login_step s e))) (verifying P (login_step s e))"
proof (cases e)
  case (Ask login q now)
  let ?A = "attemptBlocked (ll_sources (lg_limiter s)) (lr_source q) loginSourceAttemptLimit now"
  note am = ask_moved [where limit = loginSourceAttemptLimit and now = now and m = "ll_sources (lg_limiter s)"]
  have l: "1 \<le> loginSourceAttemptLimit" by (simp add: loginSourceAttemptLimit_def)
  show ?thesis
    using am(1) [OF l, of k "lr_source q"] am(2) [OF l, of "lr_source q"]
    by (auto simp: Ask moved_def askLogin_eq verifying_def verifying_put [where P = "\<lambda>q. lr_source q = k"] P_def)
next
  case (Verify login now r)
  show ?thesis
  proof (cases "gm_get (lg_checking s) login")
    case (Some q)
    have q: "lr_source q \<in> KS" using assms(2) map_of_SomeD [OF Some] by (auto simp: logins_ok_def)
    have n: "verifying P (login_step s e) + (if P q then 1 else 0) \<le> verifying P s"
      using verifying_del [of P login "lg_checking s"] Some by (simp add: verifying_def Verify)
    have c: "counters_ok KS (ll_sources (lg_limiter s))" "finite KS" "card KS < loginAttemptCapacity" "0 < now" "fair_range r"
      using assms(1-3) by (simp_all add: logins_ok_def room_def Verify)
    note rec = recordAttempt_counters [OF c(5,1-3) q c(4)]
    show ?thesis
      using n rec(2,3) unfolding Verify moved_def by (auto simp: Some verifyLogin_eq P_def)
  qed (simp add: Verify moved_def)
qed

subsection \<open>What a counter lets through\<close>

text \<open>
  A counter under a limit, with at most \<open>c\<close> logins on its key under way at one moment, admits what a
  counter with \<open>c - 1\<close> more to spare admits: what is under way has been let through already.
\<close>

lemma moved_admits:
  assumes "1 \<le> limit" and "1 \<le> c" and "sorted (map ev_time es)"
    and step: "\<And>s e. I s \<Longrightarrow> e \<in> set es \<Longrightarrow> I (login_step s e) \<and>
      moved limit (ev_time e) k (M s) (verifying P s) (\<exists>q t. fails s e = [(q, t)] \<and> P q)
        (M (login_step s e)) (verifying P (login_step s e))"
    and "I s" and "most_verifying P s es \<le> c"
    and "attempt_count (attempt_of (M s) k) + verifying P s \<le> limit + c - 1"
  shows "admits (limit + c - 1) loginAttemptWindow (attempt_of (M s) k)
    (map snd (filter (\<lambda>g. P (fst g)) (failed_guesses s es)))"
  using assms(3-)
proof (induction es arbitrary: s)
  case Nil
  then show ?case by simp
next
  case (Cons e es)
  let ?s = "login_step s e" and ?w = loginAttemptWindow and ?L = "limit + c - 1"
  let ?hit = "\<exists>q t. fails s e = [(q, t)] \<and> P q"
  let ?ts = "map snd (filter (\<lambda>g. P (fst g)) (failed_guesses ?s es))"
  have I: "I ?s" and mv: "moved limit (ev_time e) k (M s) (verifying P s) ?hit (M ?s) (verifying P ?s)"
    using Cons.prems(2) [OF Cons.prems(3), of e] by auto
  have most: "most_verifying P ?s es \<le> c" using Cons.prems(4) by simp
  then have n: "verifying P ?s \<le> c" by (cases es) auto
  have inv: "attempt_count (attempt_of (M ?s) k) + verifying P ?s \<le> ?L"
  proof (cases ?hit)
    case True
    then have "attempt_count (attempt_of (M ?s) k) \<le> max 1 (Suc (attempt_count (attempt_of (M s) k)))"
      and "verifying P ?s < verifying P s"
      using mv by (auto simp: moved_def windowBump_def)
    then show ?thesis using Cons.prems(5) by linarith
  next
    case False
    then have "cleaned (ev_time e) (M s) k (M ?s)"
      and or: "verifying P ?s \<le> verifying P s \<or> attempt_count (attempt_of (M ?s) k) < limit"
      using mv by (auto simp: moved_def)
    then have "attempt_count (attempt_of (M ?s) k) \<le> attempt_count (attempt_of (M s) k)"
      by (auto simp: cleaned_def zero_attempt_def)
    then show ?thesis using or n Cons.prems(5) assms(1) by linarith
  qed
  have IH: "admits ?L ?w (attempt_of (M ?s) k) ?ts"
    by (rule Cons.IH [OF _ _ I most inv]) (use Cons.prems in auto)
  have later: "\<forall>t\<in>set ?ts. ev_time e \<le> t"
  proof -
    have "snd g \<in> ev_time ` set es" if "g \<in> set (failed_guesses s es)" for g s
      using that
    proof (induction es arbitrary: s)
      case (Cons e es)
      then show ?case by (cases e) (auto split: option.splits if_splits)
    qed simp
    then show ?thesis using Cons.prems(1) by fastforce
  qed
  show ?case
  proof (cases ?hit)
    case True
    then obtain q where q: "fails s e = [(q, ev_time e)]" "P q"
      by (cases e) (auto split: option.splits if_splits)
    have "attempt_of (M ?s) k = windowBump (attempt_of (M s) k) ?w (ev_time e)" "verifying P ?s < verifying P s"
      using mv True by (simp_all add: moved_def)
    moreover have "\<not> windowExceeded (attempt_of (M s) k) ?L ?w (ev_time e)"
      using Cons.prems(5) calculation(2) by (simp add: windowExceeded_def)
    ultimately show ?thesis using IH q by simp
  next
    case False
    then have none: "filter (\<lambda>g. P (fst g)) (fails s e) = []"
      by (cases e) (auto split: option.splits if_splits)
    have clean: "cleaned (ev_time e) (M s) k (M ?s)" using mv False by (simp add: moved_def)
    have "admits ?L ?w (attempt_of (M s) k) ?ts"
    proof (cases "attempt_of (M ?s) k = attempt_of (M s) k")
      case True
      with IH show ?thesis by simp
    next
      case False
      with clean have zero: "attempt_of (M ?s) k = zero_attempt"
        and gone: "attempt_first (attempt_of (M s) k) + ?w \<le> ev_time e"
        by (auto simp: cleaned_def)
      have "\<forall>t\<in>set ?ts. attempt_first (attempt_of (M s) k) + ?w \<le> t" using later gone order_trans by blast
      moreover have "1 \<le> ?L" using assms(1,2) by linarith
      ultimately show ?thesis using admits_elapsed [OF loginAttemptWindow_ok] IH by (simp only: zero)
    qed
    then show ?thesis using none by simp
  qed
qed

lemma failed_guesses_times: "snd ` set (failed_guesses s es) \<subseteq> ev_time ` set es"
proof (induction es arbitrary: s)
  case (Cons e es)
  have "snd ` set (fails s e) \<subseteq> {ev_time e}" by (cases e) (auto split: option.splits)
  then show ?case using Cons [of "login_step s e"] by auto
qed simp

lemma sorted_failed_guesses:
  "sorted (map ev_time es) \<Longrightarrow> sorted (map snd (failed_guesses s es))"
proof (induction es arbitrary: s)
  case (Cons e es)
  have "fails s e = [] \<or> (\<exists>q. fails s e = [(q, ev_time e)])" by (cases e) (auto split: option.splits)
  moreover have "\<forall>g\<in>set (failed_guesses (login_step s e) es). ev_time e \<le> snd g"
    using failed_guesses_times [of "login_step s e" es] Cons.prems by fastforce
  ultimately show ?case using Cons by auto
qed simp

lemma most_verifying_zero: "most_verifying P s es = 0 \<Longrightarrow> filter (\<lambda>g. P (fst g)) (failed_guesses s es) = []"
proof (induction es arbitrary: s)
  case (Cons e es)
  have "filter (\<lambda>g. P (fst g)) (fails s e) = []"
    using Cons.prems map_of_SomeD by (cases e) (fastforce simp: verifying_def filter_empty_conv split: option.splits)+
  then show ?case using Cons by simp
qed simp

lemma guesses_within:
  assumes "1 \<le> limit" and "most_verifying P fresh_logins es \<noteq> 0 \<Longrightarrow>
      admits (limit + most_verifying P fresh_logins es - 1) loginAttemptWindow zero_attempt
        (map snd (filter (\<lambda>g. P (fst g)) (failed_guesses fresh_logins es)))"
    and "sorted (map ev_time es)" and "\<forall>e\<in>set es. 0 < ev_time e"
  shows "length (filter (\<lambda>(q, t). P q \<and> lo \<le> t \<and> t < hi) (failed_guesses fresh_logins es))
     \<le> (limit + most_verifying P fresh_logins es - 1) * (1 + windows_until loginAttemptWindow hi lo)"
proof -
  let ?gs = "filter (\<lambda>g. P (fst g)) (failed_guesses fresh_logins es)"
  let ?L = "limit + most_verifying P fresh_logins es - 1"
  have "length (filter (\<lambda>t. lo \<le> t \<and> t < hi) (map snd ?gs)) \<le> ?L * (1 + windows_until loginAttemptWindow hi lo)"
  proof (cases "most_verifying P fresh_logins es = 0")
    case True
    then show ?thesis by (simp add: most_verifying_zero)
  next
    case False
    have "sorted (map snd ?gs)" using sorted_filter [OF sorted_failed_guesses [OF assms(3)]] .
    moreover have "\<forall>t\<in>set (map snd ?gs). 0 < t"
      using failed_guesses_times [of fresh_logins es] assms(4) by fastforce
    moreover have "1 \<le> ?L" using assms(1) False by linarith
    ultimately show ?thesis
      using assms(2) [OF False]
      by (intro admits_within [OF loginAttemptWindow_ok, of ?L zero_attempt])
         (auto simp: zero_attempt_def zero_time_def intro: less_imp_le)
  qed
  then show ?thesis by (simp add: filter_map comp_def case_prod_unfold conj_commute conj_left_commute)
qed

lemma fresh_logins_ok: "logins_ok KA KS fresh_logins"
  by (simp add: logins_ok_def counters_ok_def fresh_logins_def newLoginLimiter_def)

text \<open>The accounts and the sources a run asks about.\<close>

fun asked :: "login_event list \<Rightarrow> login_request list" where
  "asked [] = []"
| "asked (Ask login q now # es) = q # asked es"
| "asked (Verify login now r # es) = asked es"

fun fair_event :: "login_event \<Rightarrow> bool" where
  "fair_event (Ask login q now) = True"
| "fair_event (Verify login now r) = fair_range r"

lemma asked_in: "Ask login q now \<in> set es \<Longrightarrow> q \<in> set (asked es)"
  by (induction es rule: asked.induct) auto

lemma logins_run_ok:
  assumes "\<forall>e\<in>set es. 0 < ev_time e \<and> fair_event e" and "e \<in> set es"
  shows "event_ok (account_of ` set (asked es)) (lr_source ` set (asked es)) e"
  using assms asked_in by (cases e) fastforce+

text \<open>C3. Guessing the password of one account. While the limiter tracks fewer keys than its capacity and
  no login to the account succeeds, and if at most \<open>c\<close> logins to it verify their password at one moment,
  at most \<open>(10 + c - 1) * (1 + \<lceil>(hi - lo) / 5min\<rceil>)\<close> of them fail between \<open>lo\<close> and \<open>hi\<close>, from however many
  sources they come: 10 in a window if they come one after the other, and one more for each further one
  that is let through before the ones ahead of it are recorded.\<close>

theorem account_guess_budget:
  assumes "sorted (map ev_time es)" and "\<forall>e\<in>set es. 0 < ev_time e \<and> fair_event e"
    and "card (account_of ` set (asked es)) < loginAttemptCapacity"
    and "card (lr_source ` set (asked es)) < loginAttemptCapacity"
    and "\<forall>q\<in>set (asked es). account_of q = k \<longrightarrow> \<not> lr_good q"
  shows "length (filter (\<lambda>(q, t). account_of q = k \<and> lo \<le> t \<and> t < hi) (failed_guesses fresh_logins es))
    \<le> (loginAccountAttemptLimit + most_verifying (\<lambda>q. account_of q = k) fresh_logins es - 1)
        * (1 + windows_until loginAttemptWindow hi lo)"
proof (rule guesses_within)
  let ?KA = "account_of ` set (asked es)" and ?KS = "lr_source ` set (asked es)"
  let ?P = "\<lambda>q. account_of q = k" and ?c = "most_verifying (\<lambda>q. account_of q = k) fresh_logins es"
  let ?I = "\<lambda>s. logins_ok ?KA ?KS s \<and> (\<forall>q\<in>snd ` set (lg_checking s). ?P q \<longrightarrow> \<not> lr_good q)"
  have "\<forall>q\<in>snd ` set (lg_checking (login_step s e)). ?P q \<longrightarrow> \<not> lr_good q" if "?I s" "e \<in> set es" for s e
    using that assms(5) by (cases e)
      (auto simp: set_gm_del set_gm_put_new dest!: asked_in split: prod.splits option.splits if_splits)
  then have step: "?I (login_step s e) \<and> moved loginAccountAttemptLimit (ev_time e) k (ll_accounts (lg_limiter s))
      (verifying ?P s) (\<exists>q t. fails s e = [(q, t)] \<and> ?P q) (ll_accounts (lg_limiter (login_step s e)))
      (verifying ?P (login_step s e))" if "?I s" "e \<in> set es" for s e
    using logins_ok_step [of ?KA ?KS s e] account_moved [of ?KA ?KS s e k] that assms(3,4) logins_run_ok [OF assms(2) that(2)]
    by (auto simp: room_def)
  show "admits (loginAccountAttemptLimit + ?c - 1) loginAttemptWindow zero_attempt
      (map snd (filter (\<lambda>g. ?P (fst g)) (failed_guesses fresh_logins es)))" if "?c \<noteq> 0"
    using moved_admits [where I = ?I and M = "\<lambda>s. ll_accounts (lg_limiter s)" and k = k and P = ?P and c = ?c
        and s = fresh_logins, OF _ _ assms(1) step] that fresh_logins_ok
    by (auto simp: loginAccountAttemptLimit_def fresh_logins_def newLoginLimiter_def attempt_of_def zero_attempt_def
        verifying_def)
qed (use assms(1,2) in \<open>auto simp: loginAccountAttemptLimit_def\<close>)

theorem account_guess_budget_witness:
  "let q = \<lparr>lr_email = '' Bob@X'', lr_source = ''s'', lr_good = False\<rparr>;
       es = [Ask 1 q minute, Ask 2 q minute, Verify 1 minute id, Verify 2 minute id];
       g = failed_guesses fresh_logins es
   in length g = 2 \<and>
      length (filter (\<lambda>(q, t). account_of q = ''bob@x'' \<and> 0 \<le> t \<and> t < 2 * minute) g) \<le> 22"
proof -
  let ?q = "\<lparr>lr_email = '' Bob@X'', lr_source = ''s'', lr_good = False\<rparr>"
  let ?es = "[Ask 1 ?q minute, Ask 2 ?q minute, Verify 1 minute id, Verify 2 minute id]"
  have f: "length (failed_guesses fresh_logins ?es) = 2"
    "most_verifying (\<lambda>q. account_of q = ''bob@x'') fresh_logins ?es = 2"
    by code_simp+
  moreover have "windows_until loginAttemptWindow (2 * minute) 0 = 1"
    by (simp add: windows_until_def loginAttemptWindow_def duration_defs)
  moreover have "card (account_of ` set (asked ?es)) < loginAttemptCapacity"
    "card (lr_source ` set (asked ?es)) < loginAttemptCapacity"
    by (simp_all add: loginAttemptCapacity_def)
  ultimately show ?thesis
    using account_guess_budget [of ?es "''bob@x''" 0 "2 * minute"]
    by (simp add: Let_def loginAccountAttemptLimit_def duration_defs del: failed_guesses.simps most_verifying.simps)
qed

text \<open>Spraying from one source: the same of a source, whatever accounts it tries and even when it signs
  in successfully in between.\<close>

theorem source_guess_budget:
  assumes "sorted (map ev_time es)" and "\<forall>e\<in>set es. 0 < ev_time e \<and> fair_event e"
    and "card (account_of ` set (asked es)) < loginAttemptCapacity"
    and "card (lr_source ` set (asked es)) < loginAttemptCapacity"
  shows "length (filter (\<lambda>(q, t). lr_source q = k \<and> lo \<le> t \<and> t < hi) (failed_guesses fresh_logins es))
    \<le> (loginSourceAttemptLimit + most_verifying (\<lambda>q. lr_source q = k) fresh_logins es - 1)
        * (1 + windows_until loginAttemptWindow hi lo)"
proof (rule guesses_within)
  let ?KA = "account_of ` set (asked es)" and ?KS = "lr_source ` set (asked es)"
  let ?P = "\<lambda>q. lr_source q = k" and ?c = "most_verifying (\<lambda>q. lr_source q = k) fresh_logins es"
  have step: "logins_ok ?KA ?KS (login_step s e) \<and> moved loginSourceAttemptLimit (ev_time e) k (ll_sources (lg_limiter s))
      (verifying ?P s) (\<exists>q t. fails s e = [(q, t)] \<and> ?P q) (ll_sources (lg_limiter (login_step s e)))
      (verifying ?P (login_step s e))" if "logins_ok ?KA ?KS s" "e \<in> set es" for s e
    using logins_ok_step [of ?KA ?KS s e] source_moved [of ?KS ?KA s e k] that assms(3,4) logins_run_ok [OF assms(2) that(2)]
    by (auto simp: room_def)
  show "admits (loginSourceAttemptLimit + ?c - 1) loginAttemptWindow zero_attempt
      (map snd (filter (\<lambda>g. ?P (fst g)) (failed_guesses fresh_logins es)))" if "?c \<noteq> 0"
    using moved_admits [where I = "logins_ok ?KA ?KS" and M = "\<lambda>s. ll_sources (lg_limiter s)" and k = k and P = ?P
        and c = ?c and s = fresh_logins, OF _ _ assms(1) step] that fresh_logins_ok
    by (auto simp: loginSourceAttemptLimit_def fresh_logins_def newLoginLimiter_def attempt_of_def zero_attempt_def
        verifying_def)
qed (use assms(1,2) in \<open>auto simp: loginSourceAttemptLimit_def\<close>)

text \<open>Both maps stay within their capacity, whoever calls.\<close>

lemma login_limiter_bounded:
  "\<forall>op\<in>set ops. ll_fair op \<Longrightarrow>
     length (ll_accounts (run ll_step newLoginLimiter ops)) \<le> loginAttemptCapacity \<and>
     length (ll_sources (run ll_step newLoginLimiter ops)) \<le> loginAttemptCapacity"
  using ll_acc.run_bounded [of newLoginLimiter ops] ll_src.run_bounded [of newLoginLimiter ops]
  by (simp add: newLoginLimiter_def ll_ok_def)

end
