(* ===== verification/LRU_Interface.thy ===== *)
theory LRU_Interface
  imports Go_Prelude
begin

text \<open>
  The bounded cache of \<open>github.com/hashicorp/golang-lru/v2\<close> the components hold. It is a
  package the repository only calls, so its operations are a parameter (\<open>lru_api\<close>), and
  what the code relies on is the named contract below: \<open>Get\<close> and \<open>Peek\<close> agree on the
  value, \<open>Get\<close> only touches recency, an \<open>Add\<close> is visible at once, and adding or removing
  one key leaves another key as it was or evicted. Nothing is assumed about which entry an
  \<open>Add\<close> evicts or when.
\<close>

record ('c, 'v) lru_api =
  lru_Get :: "'c \<Rightarrow> string \<Rightarrow> 'v option \<times> 'c"
  lru_Peek :: "'c \<Rightarrow> string \<Rightarrow> 'v option"
  lru_Add :: "'c \<Rightarrow> string \<Rightarrow> 'v \<Rightarrow> 'c"
  lru_Remove :: "'c \<Rightarrow> string \<Rightarrow> 'c"

definition lru_contract :: "('c, 'v) lru_api \<Rightarrow> bool" where
  "lru_contract api \<longleftrightarrow>
     (\<forall>c k. fst (lru_Get api c k) = lru_Peek api c k) \<and>
     (\<forall>c k k'. lru_Peek api (snd (lru_Get api c k)) k' = lru_Peek api c k') \<and>
     (\<forall>c k v. lru_Peek api (lru_Add api c k v) k = Some v) \<and>
     (\<forall>c k v k'. k' \<noteq> k \<longrightarrow> lru_Peek api (lru_Add api c k v) k' \<in> {lru_Peek api c k', None}) \<and>
     (\<forall>c k. lru_Peek api (lru_Remove api c k) k = None) \<and>
     (\<forall>c k k'. k' \<noteq> k \<longrightarrow> lru_Peek api (lru_Remove api c k) k' = lru_Peek api c k')"

lemma lru_contractD:
  assumes "lru_contract api"
  shows "fst (lru_Get api c k) = lru_Peek api c k"
    and "lru_Peek api (snd (lru_Get api c k)) k' = lru_Peek api c k'"
    and "lru_Peek api (lru_Add api c k v) k = Some v"
    and "k' \<noteq> k \<Longrightarrow> lru_Peek api (lru_Add api c k v) k' \<in> {lru_Peek api c k', None}"
    and "lru_Peek api (lru_Remove api c k) k = None"
    and "k' \<noteq> k \<Longrightarrow> lru_Peek api (lru_Remove api c k) k' = lru_Peek api c k'"
  using assms unfolding lru_contract_def by simp_all

lemma lru_Add_Peek:
  "lru_contract api \<Longrightarrow> lru_Peek api (lru_Add api c k v) k' = Some d \<Longrightarrow>
     k' = k \<and> d = v \<or> k' \<noteq> k \<and> lru_Peek api c k' = Some d"
  using lru_contractD(3) [of api c k v] lru_contractD(4) [of api k' k c v] by (cases "k' = k") auto

text \<open>
  A concrete cache for the witnesses: at most \<open>n + 1\<close> entries, most recently used first.
\<close>

definition bounded_lru :: "nat \<Rightarrow> ((string \<times> 'v) list, 'v) lru_api" where
  "bounded_lru n =
     \<lparr>lru_Get = (\<lambda>c k. (map_of c k,
        case map_of c k of None \<Rightarrow> c | Some v \<Rightarrow> (k, v) # gm_del k c)),
      lru_Peek = map_of,
      lru_Add = (\<lambda>c k v. (k, v) # take n (gm_del k c)),
      lru_Remove = (\<lambda>c k. gm_del k c)\<rparr>"

lemma map_of_take_gm_del:
  "k' \<noteq> k \<Longrightarrow> map_of (take n (gm_del k c)) k' = map_of c k' \<or> map_of (take n (gm_del k c)) k' = None"
proof (induction c arbitrary: n)
  case (Cons e c)
  then show ?case by (cases n) auto
qed simp

lemma bounded_lru_contract [simp]: "lru_contract (bounded_lru n)"
proof -
  have "\<forall>c k k'. k' \<noteq> k \<longrightarrow>
      gm_get (take n (gm_del k c)) k' = gm_get c k' \<or> gm_get (take n (gm_del k c)) k' = None"
    for c :: "(string \<times> 'v) list"
    using map_of_take_gm_del by metis
  then show ?thesis
    by (simp add: lru_contract_def bounded_lru_def gm_get_del split: option.splits)
qed

subsection \<open>The recency order\<close>

text \<open>
  The full contract of a cache of \<open>cap\<close> entries, for the properties that depend on what is
  evicted: \<open>ents\<close> lists the entries, most recently used first; a hit and an \<open>Add\<close> move the
  key to the front, and an \<open>Add\<close> to a full cache drops the last entry.
\<close>

definition lru_exact :: "('c, 'v) lru_api \<Rightarrow> ('c \<Rightarrow> (string \<times> 'v) list) \<Rightarrow> nat \<Rightarrow> bool" where
  "lru_exact api ents cap \<longleftrightarrow>
     (\<forall>c k. lru_Peek api c k = map_of (ents c) k) \<and>
     (\<forall>c k. fst (lru_Get api c k) = map_of (ents c) k) \<and>
     (\<forall>c k. ents (snd (lru_Get api c k)) =
        (case map_of (ents c) k of None \<Rightarrow> ents c | Some v \<Rightarrow> (k, v) # gm_del k (ents c))) \<and>
     (\<forall>c k v. ents (lru_Add api c k v) = take cap ((k, v) # gm_del k (ents c))) \<and>
     (\<forall>c k. ents (lru_Remove api c k) = gm_del k (ents c))"

lemma lru_exactD:
  assumes "lru_exact api ents cap"
  shows "lru_Peek api c k = map_of (ents c) k"
    and "fst (lru_Get api c k) = map_of (ents c) k"
    and "ents (snd (lru_Get api c k)) =
      (case map_of (ents c) k of None \<Rightarrow> ents c | Some v \<Rightarrow> (k, v) # gm_del k (ents c))"
    and "ents (lru_Add api c k v) = take cap ((k, v) # gm_del k (ents c))"
    and "ents (lru_Remove api c k) = gm_del k (ents c)"
  using assms unfolding lru_exact_def by simp_all

lemma bounded_lru_exact: "lru_exact (bounded_lru n) id (Suc n)"
  by (simp add: lru_exact_def bounded_lru_def split: option.splits)

text \<open>How many entries were used more recently than a key.\<close>

definition ahead :: "string \<Rightarrow> (string \<times> 'v) list \<Rightarrow> nat" where
  "ahead k es = length (takeWhile (\<lambda>e. fst e \<noteq> k) es)"

lemma ahead_simps [simp]:
  "ahead k ((k, v) # es) = 0"
  "k' \<noteq> k \<Longrightarrow> ahead k ((k', v) # es) = Suc (ahead k es)"
  by (simp_all add: ahead_def)

lemma ahead_del: "k' \<noteq> k \<Longrightarrow> ahead k (gm_del k' es) \<le> ahead k es"
  by (induction es) (auto simp: ahead_def)

lemma map_of_take_ahead: "ahead k es < n \<Longrightarrow> map_of (take n es) k = map_of es k"
proof (induction es arbitrary: n)
  case (Cons e es)
  then show ?case by (cases n) (auto simp: ahead_def split: if_splits)
qed (simp add: ahead_def)

lemma ahead_take: "ahead k (take n es) \<le> ahead k es"
proof (induction es arbitrary: n)
  case (Cons e es)
  then show ?case by (cases n) (auto simp: ahead_def)
qed (simp add: ahead_def)

text \<open>How many of these have a key outside a set.\<close>

definition crowd :: "string \<Rightarrow> string set \<Rightarrow> (string \<times> 'v) list \<Rightarrow> nat" where
  "crowd k X es = length (filter (\<lambda>e. fst e \<notin> X) (takeWhile (\<lambda>e. fst e \<noteq> k) es))"

lemma crowd_Cons:
  "crowd k X ((k', v) # es) = (if k' = k then 0 else (if k' \<in> X then 0 else 1) + crowd k X es)"
  by (simp add: crowd_def)

lemma crowd_mono: "X \<subseteq> Y \<Longrightarrow> crowd k Y es \<le> crowd k X es"
  by (induction es) (auto simp: crowd_def)

lemma crowd_del: "k' \<noteq> k \<Longrightarrow> crowd k X (gm_del k' es) \<le> crowd k X es"
  by (induction es) (auto simp: crowd_def)

lemma crowd_del_absent: "k' \<noteq> k \<Longrightarrow> X \<subseteq> insert k' Y \<Longrightarrow> crowd k Y (gm_del k' es) \<le> crowd k X es"
  by (induction es) (auto simp: crowd_def)

lemma crowd_take: "crowd k X (take n es) \<le> crowd k X es"
proof (induction es arbitrary: n)
  case (Cons e es)
  then show ?case by (cases n) (auto simp: crowd_def)
qed (simp add: crowd_def)

lemma gm_ok_take: "gm_ok es \<Longrightarrow> gm_ok (take n es)"
  by (metis distinct_take take_map)

lemma gm_ok_front: "gm_ok es \<Longrightarrow> gm_ok ((k, v) # gm_del k es)"
  using gm_ok_del [of es k] by (auto simp: set_gm_del)

lemma ahead_crowd:
  assumes "gm_ok es" and "finite X"
  shows "ahead k es \<le> crowd k X es + card X"
proof -
  let ?es = "takeWhile (\<lambda>e. fst e \<noteq> k) es" and ?P = "\<lambda>e. fst e \<in> X"
  have "map fst ?es = takeWhile (\<lambda>k'. k' \<noteq> k) (map fst es)" by (simp add: takeWhile_map comp_def)
  then have "distinct (map fst ?es)" using assms(1) by simp
  then have "distinct (map fst (filter ?P ?es))" by (rule distinct_map_filter)
  then have "length (filter ?P ?es) = card (fst ` set (filter ?P ?es))"
    using distinct_card [of "map fst (filter ?P ?es)"] by simp
  also have "\<dots> \<le> card X" by (rule card_mono [OF assms(2)]) auto
  finally show ?thesis
    using sum_length_filter_compl [of ?P ?es] by (simp add: ahead_def crowd_def)
qed

end
