(* ===== verification/Revocation_Cache.thy ===== *)
theory Revocation_Cache
  imports LRU_Interface
begin

text \<open>
  The decision cache of \<open>backend/component/state/revocation_cache.go\<close> and the check in front
  of the persistent revocation table that uses it, \<open>tokenRevoked\<close> of
  \<open>backend/api/auth/authenticator.go\<close>. The cache methods hold the mutex, so each is one
  step; a check is three steps (look up, read the table, remember) that other requests and
  other replicas may interleave with.
\<close>

subsection \<open>The cache\<close>

definition revocationCacheTTL :: duration where
  "revocationCacheTTL = 30 * second"

record revocationDecision =
  rd_revoked :: bool
  rd_checkedAt :: time

definition Lookup ::
    "('c, revocationDecision) lru_api \<Rightarrow> string \<Rightarrow> time \<Rightarrow> 'c \<Rightarrow> (bool \<times> bool) \<times> 'c" where
  "Lookup api tokenID now c =
     (case lru_Get api c tokenID of
        (None, c') \<Rightarrow> ((False, False), c')
      | (Some decision, c') \<Rightarrow>
          if revocationCacheTTL \<le> time_Sub now (rd_checkedAt decision) then ((False, False), c')
          else ((rd_revoked decision, True), c'))"

definition Remember ::
    "('c, revocationDecision) lru_api \<Rightarrow> string \<Rightarrow> bool \<Rightarrow> time \<Rightarrow> 'c \<Rightarrow> 'c" where
  "Remember api tokenID revoked now c =
     (if \<not> revoked \<and>
         (case lru_Peek api c tokenID of None \<Rightarrow> False | Some existing \<Rightarrow> rd_revoked existing)
      then c
      else lru_Add api c tokenID \<lparr>rd_revoked = revoked, rd_checkedAt = now\<rparr>)"

definition Revoke :: "('c, revocationDecision) lru_api \<Rightarrow> string \<Rightarrow> time \<Rightarrow> 'c \<Rightarrow> 'c" where
  "Revoke api tokenID now c = lru_Add api c tokenID \<lparr>rd_revoked = True, rd_checkedAt = now\<rparr>"

lemma TTL_ok: "revocationCacheTTL \<le> time_Sub now t \<longleftrightarrow> t + revocationCacheTTL \<le> now"
  by (rule time_Sub_ge) (simp_all add: revocationCacheTTL_def duration_defs)

lemma Lookup_eq:
  assumes "lru_contract api"
  shows "fst (Lookup api k now c) =
    (case lru_Peek api c k of None \<Rightarrow> (False, False)
     | Some d \<Rightarrow> if rd_checkedAt d + revocationCacheTTL \<le> now then (False, False) else (rd_revoked d, True))"
  using lru_contractD(1) [OF assms, of c k, symmetric]
  by (cases "lru_Get api c k") (simp add: Lookup_def TTL_ok split: option.splits)

lemma Lookup_keeps:
  assumes "lru_contract api"
  shows "lru_Peek api (snd (Lookup api k now c)) k' = lru_Peek api c k'"
  using lru_contractD(2) [OF assms, of c k k']
  by (cases "lru_Get api c k") (simp add: Lookup_def split: option.splits)

lemma Remember_Peek:
  assumes "lru_contract api" and "lru_Peek api (Remember api k r t c) k' = Some d"
  shows "lru_Peek api c k' = Some d \<or> k' = k \<and> d = \<lparr>rd_revoked = r, rd_checkedAt = t\<rparr>"
  using assms(2) by (auto simp: Remember_def dest!: lru_Add_Peek [OF assms(1)] split: if_splits)

text \<open>
  A table read that finishes late never overwrites a revocation: \<open>Remember\<close> of a live
  answer leaves a revoked decision exactly as it is.
\<close>

lemma Remember_never_downgrades:
  "lru_Peek api c k = Some d \<Longrightarrow> rd_revoked d \<Longrightarrow> Remember api k False now c = c"
  by (simp add: Remember_def)

subsection \<open>A check against the table\<close>

text \<open>
  \<open>tokenRevoked\<close> of one request, run to completion. \<open>isTokenRevoked\<close> is the read of the
  persistent table, which may fail.
\<close>

definition tokenRevoked ::
    "('c, revocationDecision) lru_api \<Rightarrow> (string \<Rightarrow> 'e + bool) \<Rightarrow> string \<Rightarrow> time \<Rightarrow> 'c \<Rightarrow> ('e + bool) \<times> 'c" where
  "tokenRevoked api isTokenRevoked tokenID now c =
     (if tokenID = [] then (Inr False, c)
      else case Lookup api tokenID now c of
        ((revoked, fresh), c') \<Rightarrow>
          if fresh then (Inr revoked, c')
          else case isTokenRevoked tokenID of
                 Inl err \<Rightarrow> (Inl err, c')
               | Inr revoked' \<Rightarrow> (Inr revoked', Remember api tokenID revoked' now c'))"

text \<open>
  A revocation table that cannot be read never clears a token: when the read fails, a check
  either fails too or answers from a decision younger than the cache's lifetime, and it leaves
  every cached decision as it was.
\<close>

theorem tokenRevoked_fails_closed:
  assumes "lru_contract api" and "isTokenRevoked k = Inl err" and "k \<noteq> []"
  shows "case tokenRevoked api isTokenRevoked k now c of (answer, c') \<Rightarrow>
      (answer = Inl err \<or>
       (\<exists>d. lru_Peek api c k = Some d \<and> now < rd_checkedAt d + revocationCacheTTL \<and> answer = Inr (rd_revoked d))) \<and>
      (\<forall>k'. lru_Peek api c' k' = lru_Peek api c k')"
proof -
  obtain r f c' where L: "Lookup api k now c = ((r, f), c')" by (metis prod.collapse)
  show ?thesis
    using Lookup_eq [OF assms(1), of k now c] Lookup_keeps [OF assms(1), of k now c] assms(2,3)
    by (auto simp: tokenRevoked_def L split: option.splits if_splits)
qed

theorem tokenRevoked_fails_closed_witness:
  "fst (tokenRevoked (bounded_lru 2) (\<lambda>_. Inl ''down'') ''t'' minute
      [(''t'', \<lparr>rd_revoked = True, rd_checkedAt = minute - 1\<rparr>)]) = (Inr True :: string + bool) \<and>
   fst (tokenRevoked (bounded_lru 2) (\<lambda>_. Inl ''down'') ''t'' minute []) = (Inl ''down'' :: string + bool)"
  using tokenRevoked_fails_closed [OF bounded_lru_contract [of 2], of "\<lambda>_. Inl ''down''" "''t''" "''down''"]
  by (simp add: tokenRevoked_def Lookup_def bounded_lru_def time_Sub_def revocationCacheTTL_def duration_defs)

subsection \<open>Concurrent checks and logouts\<close>

text \<open>
  The interleavings: any number of checks, each at the point where it has looked the cache up
  (\<open>CReading\<close>, with the instant it started at) or has read the table (\<open>CRead\<close>); logouts, which
  insert the row and then tell this process's cache; and the clock. \<open>rs_table\<close> gives the
  instant a row was inserted at, by this replica or another, and \<open>rs_answers\<close> logs what each
  check answered: the token, when the check started, and whether it was found revoked.
\<close>

datatype check = CIdle | CReading string time | CRead string time bool

record 'c rc_system =
  rs_cache :: 'c
  rs_table :: "string \<Rightarrow> time option"
  rs_now :: time
  rs_checks :: "nat \<Rightarrow> check"
  rs_answers :: "(string \<times> time \<times> bool) list"

inductive rc_step :: "('c, revocationDecision) lru_api \<Rightarrow> 'c rc_system \<Rightarrow> 'c rc_system \<Rightarrow> bool"
  for api where
  rc_tick: "rs_now s \<le> t \<Longrightarrow> rc_step api s (s\<lparr>rs_now := t\<rparr>)"
| rc_hit: "rs_checks s i = CIdle \<Longrightarrow> Lookup api k (rs_now s) (rs_cache s) = ((r, True), c') \<Longrightarrow>
     rc_step api s (s\<lparr>rs_cache := c', rs_answers := (k, rs_now s, r) # rs_answers s\<rparr>)"
| rc_miss: "rs_checks s i = CIdle \<Longrightarrow> Lookup api k (rs_now s) (rs_cache s) = ((r, False), c') \<Longrightarrow>
     rc_step api s (s\<lparr>rs_cache := c', rs_checks := (rs_checks s)(i := CReading k (rs_now s))\<rparr>)"
| rc_read: "rs_checks s i = CReading k t \<Longrightarrow>
     rc_step api s (s\<lparr>rs_checks := (rs_checks s)(i := CRead k t (rs_table s k \<noteq> None))\<rparr>)"
| rc_fail: "rs_checks s i = CReading k t \<Longrightarrow>
     rc_step api s (s\<lparr>rs_checks := (rs_checks s)(i := CIdle)\<rparr>)"
| rc_remember: "rs_checks s i = CRead k t r \<Longrightarrow>
     rc_step api s (s\<lparr>rs_cache := Remember api k r t (rs_cache s),
       rs_checks := (rs_checks s)(i := CIdle), rs_answers := (k, t, r) # rs_answers s\<rparr>)"
| rc_insert: "rs_table s k = None \<Longrightarrow> rc_step api s (s\<lparr>rs_table := (rs_table s)(k \<mapsto> rs_now s)\<rparr>)"
| rc_revoke: "rs_table s k \<noteq> None \<Longrightarrow>
     rc_step api s (s\<lparr>rs_cache := Revoke api k (rs_now s) (rs_cache s)\<rparr>)"

definition rc_start :: "('c, revocationDecision) lru_api \<Rightarrow> 'c rc_system \<Rightarrow> bool" where
  "rc_start api s \<longleftrightarrow> (\<forall>k. lru_Peek api (rs_cache s) k = None) \<and> rs_table s = Map.empty \<and>
     (\<forall>i. rs_checks s i = CIdle) \<and> rs_answers s = []"

inductive rc_reachable :: "('c, revocationDecision) lru_api \<Rightarrow> 'c rc_system \<Rightarrow> bool" for api where
  rc_init: "rc_start api s \<Longrightarrow> rc_reachable api s"
| rc_next: "rc_reachable api s \<Longrightarrow> rc_step api s s' \<Longrightarrow> rc_reachable api s'"

text \<open>
  A decision \<open>r\<close> about \<open>k\<close> dated \<open>t\<close> is backed by the table: a revoked one by a row, a live
  one by the absence of a row older than \<open>t\<close>.
\<close>

definition backed :: "'c rc_system \<Rightarrow> string \<Rightarrow> time \<Rightarrow> bool \<Rightarrow> bool" where
  "backed s k t r \<longleftrightarrow> (if r then rs_table s k \<noteq> None else (\<forall>t0. rs_table s k = Some t0 \<longrightarrow> t \<le> t0)) \<and> t \<le> rs_now s"

definition cache_backed :: "('c, revocationDecision) lru_api \<Rightarrow> 'c rc_system \<Rightarrow> 'c \<Rightarrow> bool" where
  "cache_backed api s c \<longleftrightarrow>
     (\<forall>k d. lru_Peek api c k = Some d \<longrightarrow> backed s k (rd_checkedAt d) (rd_revoked d))"

fun check_backed :: "'c rc_system \<Rightarrow> check \<Rightarrow> bool" where
  "check_backed s CIdle = True"
| "check_backed s (CReading k t) = (t \<le> rs_now s)"
| "check_backed s (CRead k t r) = backed s k t r"

text \<open>An answer may come from a decision up to one cache lifetime older than the check.\<close>

fun answer_backed :: "'c rc_system \<Rightarrow> string \<times> time \<times> bool \<Rightarrow> bool" where
  "answer_backed s (k, t, r) = (\<exists>t'. t < t' + revocationCacheTTL \<and> backed s k t' r)"

definition rc_inv :: "('c, revocationDecision) lru_api \<Rightarrow> 'c rc_system \<Rightarrow> bool" where
  "rc_inv api s \<longleftrightarrow> cache_backed api s (rs_cache s) \<and>
     (\<forall>i. check_backed s (rs_checks s i)) \<and> (\<forall>e\<in>set (rs_answers s). answer_backed s e)"

text \<open>Steps only add rows and let time pass, so what was backed stays backed.\<close>

lemma step_backed: "rc_step api s s' \<Longrightarrow> backed s k t r \<Longrightarrow> backed s' k t r"
  by (induction rule: rc_step.induct) (auto simp: backed_def)

lemma step_kept:
  assumes "rc_step api s s'"
  shows "cache_backed api s c \<Longrightarrow> cache_backed api s' c"
    and "check_backed s p \<Longrightarrow> check_backed s' p"
    and "answer_backed s e \<Longrightarrow> answer_backed s' e"
proof -
  have now: "rs_now s \<le> rs_now s'" using assms by (induction rule: rc_step.induct) auto
  show "cache_backed api s c \<Longrightarrow> cache_backed api s' c"
    using step_backed [OF assms] by (simp add: cache_backed_def)
  show "check_backed s p \<Longrightarrow> check_backed s' p"
    using step_backed [OF assms] now by (cases p) auto
  show "answer_backed s e \<Longrightarrow> answer_backed s' e"
    using step_backed [OF assms] by (cases e) auto
qed

lemma cache_backed_Lookup:
  "lru_contract api \<Longrightarrow> Lookup api k now c = (res, c') \<Longrightarrow> cache_backed api s c' = cache_backed api s c"
  using Lookup_keeps [of api k now c] by (simp add: cache_backed_def)

lemma Lookup_answer:
  assumes "lru_contract api" and "Lookup api k now c = ((r, True), c')" and "cache_backed api s c"
  shows "answer_backed s (k, now, r)"
proof -
  obtain d where "lru_Peek api c k = Some d" "now < rd_checkedAt d + revocationCacheTTL" "r = rd_revoked d"
    using Lookup_eq [OF assms(1), of k now c] assms(2) by (auto split: option.splits if_splits)
  with assms(3) show ?thesis by (auto simp: cache_backed_def)
qed

lemma cache_backed_Remember:
  "lru_contract api \<Longrightarrow> cache_backed api s c \<Longrightarrow> backed s k t r \<Longrightarrow> cache_backed api s (Remember api k r t c)"
  by (auto simp: cache_backed_def dest: Remember_Peek)

lemma cache_backed_Revoke:
  "lru_contract api \<Longrightarrow> cache_backed api s c \<Longrightarrow> backed s k t True \<Longrightarrow> cache_backed api s (Revoke api k t c)"
  by (auto simp: cache_backed_def Revoke_def dest!: lru_Add_Peek)

lemma backed_answer: "backed s k t r \<Longrightarrow> answer_backed s (k, t, r)"
  by (auto intro!: exI [of _ t] simp: revocationCacheTTL_def duration_defs)

lemma rc_step_inv:
  assumes "lru_contract api" and "rc_step api s s'" and "rc_inv api s"
  shows "rc_inv api s'"
proof -
  note kept = step_kept [OF assms(2)]
  have inv: "cache_backed api s' (rs_cache s)" "\<And>i. check_backed s' (rs_checks s i)"
    "\<And>e. e \<in> set (rs_answers s) \<Longrightarrow> answer_backed s' e" "cache_backed api s (rs_cache s)"
    using assms(3) by (auto simp: rc_inv_def intro: kept)
  from assms(2) show ?thesis
  proof (cases rule: rc_step.cases)
    case (rc_hit i k r c')
    have "answer_backed s' (k, rs_now s, r)"
      by (rule kept(3), rule Lookup_answer [OF assms(1) rc_hit(3) inv(4)])
    then show ?thesis
      using inv rc_hit cache_backed_Lookup [OF assms(1) rc_hit(3)] by (auto simp: rc_inv_def)
  next
    case (rc_miss i k r c')
    then show ?thesis
      using inv cache_backed_Lookup [OF assms(1) rc_miss(3)] by (auto simp: rc_inv_def)
  next
    case (rc_read i k t)
    have "t \<le> rs_now s" using assms(3) rc_read(2) by (metis check_backed.simps(2) rc_inv_def)
    then have "backed s' k t (rs_table s k \<noteq> None)" by (auto simp: rc_read backed_def)
    then show ?thesis using inv rc_read by (auto simp: rc_inv_def)
  next
    case (rc_remember i k t r)
    have "backed s' k t r" using inv(2) [of i] rc_remember by simp
    then show ?thesis
      using inv rc_remember cache_backed_Remember [OF assms(1) inv(1)] backed_answer [of s' k t r]
      by (auto simp: rc_inv_def)
  next
    case (rc_revoke k)
    have "backed s' k (rs_now s) True" using rc_revoke by (auto simp: backed_def)
    then show ?thesis
      using inv rc_revoke cache_backed_Revoke [OF assms(1) inv(1)] by (auto simp: rc_inv_def)
  qed (use inv in \<open>auto simp: rc_inv_def\<close>)
qed

lemma rc_reachable_inv:
  "rc_reachable api s \<Longrightarrow> lru_contract api \<Longrightarrow> rc_inv api s"
proof (induction rule: rc_reachable.induct)
  case (rc_init s)
  then show ?case by (auto simp: rc_inv_def rc_start_def cache_backed_def)
next
  case (rc_next s s')
  then show ?case by (blast intro: rc_step_inv)
qed

text \<open>
  C2. Bounded staleness, under every interleaving of checks, logouts and evictions: a check
  that answers "live" started before the revocation had been in the table for one cache
  lifetime, so a token revoked (by any replica) at least 30 seconds ago is never accepted.
  A check that answers "revoked" is right.
\<close>

theorem revocation_staleness_bounded:
  assumes "lru_contract api" and "rc_reachable api s" and "(k, t, r) \<in> set (rs_answers s)"
  shows "if r then rs_table s k \<noteq> None
    else (\<forall>t0. rs_table s k = Some t0 \<longrightarrow> t < t0 + revocationCacheTTL)"
proof -
  have "answer_backed s (k, t, r)"
    using rc_reachable_inv [OF assms(2,1)] assms(3) by (auto simp: rc_inv_def)
  then show ?thesis by (auto simp: backed_def)
qed

text \<open>
  The steps as a function, to evaluate interleavings on: \<open>None\<close> where the step is not enabled.
\<close>

datatype rc_action = ATick time | ABegin nat string | ARead nat | AFail nat | AFinish nat
  | AInsert string | ARevoke string

fun rc_exec ::
    "('c, revocationDecision) lru_api \<Rightarrow> rc_action \<Rightarrow> 'c rc_system \<Rightarrow> 'c rc_system option" where
  "rc_exec api (ATick t) s = (if rs_now s \<le> t then Some (s\<lparr>rs_now := t\<rparr>) else None)"
| "rc_exec api (ABegin i k) s =
     (case rs_checks s i of
        CIdle \<Rightarrow>
          (case Lookup api k (rs_now s) (rs_cache s) of ((r, fresh), c') \<Rightarrow>
             Some (if fresh then s\<lparr>rs_cache := c', rs_answers := (k, rs_now s, r) # rs_answers s\<rparr>
                   else s\<lparr>rs_cache := c', rs_checks := (rs_checks s)(i := CReading k (rs_now s))\<rparr>))
      | _ \<Rightarrow> None)"
| "rc_exec api (ARead i) s =
     (case rs_checks s i of
        CReading k t \<Rightarrow> Some (s\<lparr>rs_checks := (rs_checks s)(i := CRead k t (rs_table s k \<noteq> None))\<rparr>)
      | _ \<Rightarrow> None)"
| "rc_exec api (AFail i) s =
     (case rs_checks s i of
        CReading k t \<Rightarrow> Some (s\<lparr>rs_checks := (rs_checks s)(i := CIdle)\<rparr>)
      | _ \<Rightarrow> None)"
| "rc_exec api (AFinish i) s =
     (case rs_checks s i of
        CRead k t r \<Rightarrow> Some (s\<lparr>rs_cache := Remember api k r t (rs_cache s),
          rs_checks := (rs_checks s)(i := CIdle), rs_answers := (k, t, r) # rs_answers s\<rparr>)
      | _ \<Rightarrow> None)"
| "rc_exec api (AInsert k) s =
     (if rs_table s k = None then Some (s\<lparr>rs_table := (rs_table s)(k \<mapsto> rs_now s)\<rparr>) else None)"
| "rc_exec api (ARevoke k) s =
     (if rs_table s k = None then None
      else Some (s\<lparr>rs_cache := Revoke api k (rs_now s) (rs_cache s)\<rparr>))"

lemma rc_exec_step: "rc_exec api a s = Some s' \<Longrightarrow> rc_step api s s'"
  by (induction api a s rule: rc_exec.induct)
    (auto simp del: not_None_eq intro: rc_step.intros split: check.splits if_splits prod.splits)

fun rc_execs ::
    "('c, revocationDecision) lru_api \<Rightarrow> rc_action list \<Rightarrow> 'c rc_system \<Rightarrow> 'c rc_system option" where
  "rc_execs api [] s = Some s"
| "rc_execs api (a # as) s = (case rc_exec api a s of None \<Rightarrow> None | Some s' \<Rightarrow> rc_execs api as s')"

lemma rc_execs_reachable:
  "rc_reachable api s \<Longrightarrow> rc_execs api as s = Some s' \<Longrightarrow> rc_reachable api s'"
  by (induction as arbitrary: s) (auto split: option.splits dest!: rc_exec_step intro: rc_next)

definition empty_system :: "(string \<times> revocationDecision) list rc_system" where
  "empty_system = \<lparr>rs_cache = [], rs_table = Map.empty, rs_now = minute, rs_checks = (\<lambda>_. CIdle), rs_answers = []\<rparr>"

lemma empty_system_reachable: "rc_reachable (bounded_lru n) empty_system"
  by (rule rc_init) (simp add: rc_start_def empty_system_def bounded_lru_def)

text \<open>
  A run at the limit of the guarantee, with a cache of one entry: check 1 reads the table before a
  logout, the logout inserts the row and revokes the token in this process, a check of another token
  evicts that decision, and check 1 then remembers its old answer, which check 3 is served from.
\<close>

definition late_remember :: "rc_action list" where
  "late_remember =
     [ABegin 1 ''t'', ARead 1, AInsert ''t'', ARevoke ''t'', ABegin 2 ''u'', ARead 2, AFinish 2,
      AFinish 1, ATick (minute + second), ABegin 3 ''t'']"

lemma late_remember_run:
  "map_option (\<lambda>s. (rs_answers s, rs_table s ''t'')) (rc_execs (bounded_lru 0) late_remember empty_system) =
     Some ([(''t'', minute + second, False), (''t'', minute, False), (''u'', minute, False)], Some minute)"
  by code_simp

theorem revocation_staleness_bounded_witness:
  "\<exists>s. rc_reachable (bounded_lru 0) s \<and> (''t'', minute + second, False) \<in> set (rs_answers s) \<and>
     rs_table s ''t'' = Some minute \<and> minute + second < minute + revocationCacheTTL"
proof -
  obtain s where s: "rc_execs (bounded_lru 0) late_remember empty_system = Some s"
      "(''t'', minute + second, False) \<in> set (rs_answers s)" "rs_table s ''t'' = Some minute"
    using late_remember_run by auto
  have r: "rc_reachable (bounded_lru 0) s" by (rule rc_execs_reachable [OF empty_system_reachable s(1)])
  show ?thesis
    using revocation_staleness_bounded [OF bounded_lru_contract r s(2)] r s(2,3) by auto
qed

text \<open>
  The limit of the guarantee, which is where the cache's comment says more than the code
  does: after a logout completed in this very process, an eviction of its decision and a table read
  that started before the logout are enough for a later check to accept the revoked token.
\<close>

theorem revoked_token_accepted_after_eviction:
  "\<exists>before after s s'. rc_reachable (bounded_lru 0) s \<and>
     rc_execs (bounded_lru 0) (before @ [ARevoke ''t''] @ after) empty_system = Some s \<and>
     ATick (minute + second) \<in> set after \<and>
     rc_exec (bounded_lru 0) (ABegin 3 ''t'') s = Some s' \<and>
     hd (rs_answers s') = (''t'', minute + second, False)"
proof -
  let ?before = "[ABegin 1 ''t'', ARead 1, AInsert ''t'']"
  let ?after = "[ABegin 2 ''u'', ARead 2, AFinish 2, AFinish 1, ATick (minute + second)]"
  have "map_option (\<lambda>s. map_option (\<lambda>s'. hd (rs_answers s')) (rc_exec (bounded_lru 0) (ABegin 3 ''t'') s))
      (rc_execs (bounded_lru 0) (?before @ [ARevoke ''t''] @ ?after) empty_system) =
      Some (Some (''t'', minute + second, False))"
    by code_simp
  then obtain s s' where s: "rc_execs (bounded_lru 0) (?before @ [ARevoke ''t''] @ ?after) empty_system = Some s"
      "rc_exec (bounded_lru 0) (ABegin 3 ''t'') s = Some s'" "hd (rs_answers s') = (''t'', minute + second, False)"
    by auto
  show ?thesis
    by (rule exI [of _ ?before], rule exI [of _ ?after], rule exI [of _ s], rule exI [of _ s'])
      (use s rc_execs_reachable [OF empty_system_reachable s(1)] in \<open>simp\<close>)
qed

end
