(* ===== verification/SSO_State.thy ===== *)
theory SSO_State
  imports LRU_Interface Window_Limiter
begin

text \<open>
  The anonymous entry points' throttle (\<open>backend/api/v1/throttle_interceptor.go\<close>) and the
  one-time OAuth2 state nonces behind it (\<open>CreateSSOState\<close> and \<open>consumeSSOState\<close> of
  \<open>backend/api/v1/auth_service.go\<close>, over the cache that \<open>backend/component/state/state.go\<close>
  sizes). The cache is a parameter under the contract of \<open>LRU_Interface\<close>; the random nonce
  and the resolved client address are arguments of the operations.
\<close>

subsection \<open>The throttle of the anonymous methods\<close>

datatype procedure = LoginProcedure | RefreshProcedure | ExchangeRefreshTokenProcedure
  | CreateUserProcedure | LogoutProcedure | CreateDeviceLoginProcedure | CreateSSOStateProcedure
  | OtherProcedure string

datatype budget = LoginRequestLimiter | CreateUserRequestLimiter | LogoutRequestLimiter
  | DeviceLoginLimiter | SSOStateRequestLimiter

record 'c State =
  limiter :: "budget \<Rightarrow> WindowLimiter"
  SSOStateCache :: 'c

definition newState :: "'c \<Rightarrow> 'c State" where
  "newState cache =
     \<lparr>limiter = (\<lambda>b. case b of
          LoginRequestLimiter \<Rightarrow> newLoginRequestLimiter
        | CreateUserRequestLimiter \<Rightarrow> newCreateUserRequestLimiter
        | LogoutRequestLimiter \<Rightarrow> newLogoutRequestLimiter
        | DeviceLoginLimiter \<Rightarrow> newDeviceLoginCreateLimiter
        | SSOStateRequestLimiter \<Rightarrow> newSSOStateRequestLimiter),
      SSOStateCache = cache\<rparr>"

definition limiterFor :: "procedure \<Rightarrow> budget option \<times> bool" where
  "limiterFor p =
     (case p of
        LoginProcedure \<Rightarrow> (Some LoginRequestLimiter, False)
      | RefreshProcedure \<Rightarrow> (Some LoginRequestLimiter, False)
      | ExchangeRefreshTokenProcedure \<Rightarrow> (Some LoginRequestLimiter, False)
      | CreateUserProcedure \<Rightarrow> (Some CreateUserRequestLimiter, True)
      | LogoutProcedure \<Rightarrow> (Some LogoutRequestLimiter, False)
      | CreateDeviceLoginProcedure \<Rightarrow> (Some DeviceLoginLimiter, False)
      | CreateSSOStateProcedure \<Rightarrow> (Some SSOStateRequestLimiter, False)
      | OtherProcedure _ \<Rightarrow> (None, False))"

text \<open>\<open>signedIn\<close> says whether the context carries a user; the result is whether the call goes on.\<close>

definition throttleCheck ::
    "(string, loginAttempt) ranging \<Rightarrow> procedure \<Rightarrow> bool \<Rightarrow> string \<Rightarrow> time \<Rightarrow> 'c State \<Rightarrow> bool \<times> 'c State" where
  "throttleCheck r p signedIn source now s =
     (case limiterFor p of
        (None, _) \<Rightarrow> (True, s)
      | (Some b, skipAuthenticated) \<Rightarrow>
          if skipAuthenticated \<and> signedIn then (True, s)
          else case Allow r source now (limiter s b) of
                 (ok, l) \<Rightarrow> (ok, s\<lparr>limiter := (limiter s)(b := l)\<rparr>))"

subsection \<open>One-time nonces\<close>

definition SSOStateTTL :: duration where
  "SSOStateTTL = 5 * minute"

definition ssoStateCapacity :: nat where
  "ssoStateCapacity = 4096"

definition CreateSSOState :: "('c, time) lru_api \<Rightarrow> string \<Rightarrow> time \<Rightarrow> 'c State \<Rightarrow> 'c State" where
  "CreateSSOState api state now s = s\<lparr>SSOStateCache := lru_Add api (SSOStateCache s) state now\<rparr>"

text \<open>
  \<open>consumeSSOState\<close> asks the cache twice, and only each call is locked: a lookup, and, when it found the
  nonce, its removal with the verdict on its age. Other logins may run in between.
\<close>

definition lookupSSOState :: "('c, time) lru_api \<Rightarrow> string \<Rightarrow> 'c State \<Rightarrow> time option \<times> 'c State" where
  "lookupSSOState api nonce s =
     (if nonce = [] then (None, s)
      else case lru_Get api (SSOStateCache s) nonce of (issuedAt, c) \<Rightarrow> (issuedAt, s\<lparr>SSOStateCache := c\<rparr>))"

definition removeSSOState ::
    "('c, time) lru_api \<Rightarrow> string \<Rightarrow> time \<Rightarrow> time \<Rightarrow> 'c State \<Rightarrow> bool \<times> 'c State" where
  "removeSSOState api nonce issuedAt now s =
     (time_Sub now issuedAt \<le> SSOStateTTL, s\<lparr>SSOStateCache := lru_Remove api (SSOStateCache s) nonce\<rparr>)"

definition consumeSSOState :: "('c, time) lru_api \<Rightarrow> string \<Rightarrow> time \<Rightarrow> 'c State \<Rightarrow> bool \<times> 'c State" where
  "consumeSSOState api nonce now s =
     (case lookupSSOState api nonce s of
        (None, s') \<Rightarrow> (False, s')
      | (Some issuedAt, s') \<Rightarrow> removeSSOState api nonce issuedAt now s')"

text \<open>
  The requests of a deployment that concern the nonces: a \<open>CreateSSOState\<close> call through the
  throttle, with the nonce it draws; the two steps of a login that presents a nonce; and a call of any
  other method through the throttle. Between its steps a login is under way with the nonce it found
  and the instant it was issued at. The instant of a lookup only places it among the others: the code
  reads the clock after the removal.
\<close>

record 'c sign_ins =
  ss_state :: "'c State"
  ss_found :: "(nat, string \<times> time) gomap"

definition fresh_sign_ins :: "'c \<Rightarrow> 'c sign_ins" where
  "fresh_sign_ins c = \<lparr>ss_state = newState c, ss_found = []\<rparr>"

datatype sso_op =
    RequestState bool string time "(string, loginAttempt) ranging" string
  | LookupState nat string time
  | RemoveState nat time
  | OtherCall procedure bool string time "(string, loginAttempt) ranging"

fun sso_step :: "('c, time) lru_api \<Rightarrow> 'c sign_ins \<Rightarrow> sso_op \<Rightarrow> 'c sign_ins" where
  "sso_step api s (RequestState signedIn source now r nonce) =
     (case throttleCheck r CreateSSOStateProcedure signedIn source now (ss_state s) of
        (ok, s') \<Rightarrow> s\<lparr>ss_state := if ok then CreateSSOState api nonce now s' else s'\<rparr>)"
| "sso_step api s (LookupState login nonce now) =
     (if gm_get (ss_found s) login \<noteq> None then s
      else case lookupSSOState api nonce (ss_state s) of
          (None, s') \<Rightarrow> s\<lparr>ss_state := s'\<rparr>
        | (Some issuedAt, s') \<Rightarrow> s\<lparr>ss_state := s', ss_found := gm_put login (nonce, issuedAt) (ss_found s)\<rparr>)"
| "sso_step api s (RemoveState login now) =
     (case gm_get (ss_found s) login of
        None \<Rightarrow> s
      | Some (nonce, issuedAt) \<Rightarrow>
          s\<lparr>ss_state := snd (removeSSOState api nonce issuedAt now (ss_state s)),
            ss_found := gm_del login (ss_found s)\<rparr>)"
| "sso_step api s (OtherCall p signedIn source now r) =
     (if p = CreateSSOStateProcedure then s
      else s\<lparr>ss_state := snd (throttleCheck r p signedIn source now (ss_state s))\<rparr>)"

text \<open>What a step redeems (a nonce accepted) and what it mints (a nonce handed out).\<close>

fun sso_redeems :: "('c, time) lru_api \<Rightarrow> 'c sign_ins \<Rightarrow> sso_op \<Rightarrow> string option" where
  "sso_redeems api s (RemoveState login now) =
     (case gm_get (ss_found s) login of
        None \<Rightarrow> None
      | Some (nonce, issuedAt) \<Rightarrow>
          if fst (removeSSOState api nonce issuedAt now (ss_state s)) then Some nonce else None)"
| "sso_redeems api s _ = None"

fun sso_mints :: "'c sign_ins \<Rightarrow> sso_op \<Rightarrow> string option" where
  "sso_mints s (RequestState signedIn source now r nonce) =
     (if fst (throttleCheck r CreateSSOStateProcedure signedIn source now (ss_state s)) then Some nonce else None)"
| "sso_mints s _ = None"

lemma throttleCheck_sso:
  "throttleCheck r CreateSSOStateProcedure signedIn source now s =
     (case Allow r source now (limiter s SSOStateRequestLimiter) of
        (ok, l) \<Rightarrow> (ok, s\<lparr>limiter := (limiter s)(SSOStateRequestLimiter := l)\<rparr>))"
  by (simp add: throttleCheck_def limiterFor_def)

lemma throttleCheck_other:
  "p \<noteq> CreateSSOStateProcedure \<Longrightarrow>
     limiter (snd (throttleCheck r p signedIn source now s)) SSOStateRequestLimiter =
       limiter s SSOStateRequestLimiter"
  by (auto simp: throttleCheck_def limiterFor_def split: procedure.splits prod.splits)

lemma throttleCheck_cache [simp]:
  "SSOStateCache (snd (throttleCheck r p signedIn source now s)) = SSOStateCache s"
  by (auto simp: throttleCheck_def split: prod.splits option.splits)

subsection \<open>A nonce is accepted once\<close>

text \<open>The cache no longer has the nonce, and the logins that are under way with it.\<close>

definition sso_gone :: "('c, time) lru_api \<Rightarrow> string \<Rightarrow> 'c sign_ins \<Rightarrow> bool" where
  "sso_gone api nonce s \<longleftrightarrow> lru_Peek api (SSOStateCache (ss_state s)) nonce = None"

definition under_way :: "string \<Rightarrow> 'c sign_ins \<Rightarrow> nat" where
  "under_way nonce s = length (filter (\<lambda>e. fst (snd e) = nonce) (ss_found s))"

lemma lookup_Peek:
  assumes "lru_contract api"
  shows "fst (lookupSSOState api nonce s) = (if nonce = [] then None else lru_Peek api (SSOStateCache s) nonce)"
    and "lru_Peek api (SSOStateCache (snd (lookupSSOState api nonce s))) k = lru_Peek api (SSOStateCache s) k"
  using lru_contractD(1,2) [OF assms, of "SSOStateCache s" nonce]
  by (cases "lru_Get api (SSOStateCache s) nonce"; simp add: lookupSSOState_def)+

lemma remove_Peek:
  assumes "lru_contract api"
  shows "lru_Peek api (SSOStateCache (snd (removeSSOState api nonce issuedAt now s))) k =
    (if k = nonce then None else lru_Peek api (SSOStateCache s) k)"
  using lru_contractD(5,6) [OF assms] by (simp add: removeSSOState_def)

lemma under_way_put: "gm_get m login = None \<Longrightarrow> nonce' \<noteq> nonce \<Longrightarrow>
    length (filter (\<lambda>e. fst (snd e) = nonce) (gm_put login (nonce', t) m)) = length (filter (\<lambda>e. fst (snd e) = nonce) m)"
  by (induction m) (auto split: if_splits)

lemma under_way_del:
  "length (filter (\<lambda>e. fst (snd e) = nonce) (gm_del login m)) + (if map_option fst (gm_get m login) = Some nonce then 1 else 0)
     \<le> length (filter (\<lambda>e. fst (snd e) = nonce) m)"
  by (induction m) auto

text \<open>A step on a nonce that is gone: it stays gone, and accepting it takes a login that was under way.\<close>

lemma sso_gone_step:
  assumes "lru_contract api" and "sso_gone api nonce s" and "sso_mints s op \<noteq> Some nonce"
  shows "sso_gone api nonce (sso_step api s op)"
    and "under_way nonce (sso_step api s op) + (if sso_redeems api s op = Some nonce then 1 else 0) \<le> under_way nonce s"
proof -
  have "sso_gone api nonce (sso_step api s op) \<and>
      under_way nonce (sso_step api s op) + (if sso_redeems api s op = Some nonce then 1 else 0) \<le> under_way nonce s"
  proof (cases op)
    case (RequestState signedIn source now r nonce')
    obtain ok s' where T: "throttleCheck r CreateSSOStateProcedure signedIn source now (ss_state s) = (ok, s')"
      by (cases "throttleCheck r CreateSSOStateProcedure signedIn source now (ss_state s)")
    have c: "SSOStateCache s' = SSOStateCache (ss_state s)"
      using throttleCheck_cache [of r CreateSSOStateProcedure signedIn source now "ss_state s"] by (simp add: T)
    have "lru_Peek api (lru_Add api (SSOStateCache s') nonce' now) nonce = None" if ok
    proof -
      have "nonce \<noteq> nonce'" using assms(3) that by (auto simp: RequestState T)
      then show ?thesis
        using lru_contractD(4) [OF assms(1), of nonce nonce' "SSOStateCache s'" now] assms(2) by (simp add: sso_gone_def c)
    qed
    then show ?thesis
      using assms(2) by (simp add: RequestState T sso_gone_def under_way_def CreateSSOState_def c)
  next
    case (LookupState login nonce' now)
    obtain v s' where L: "lookupSSOState api nonce' (ss_state s) = (v, s')"
      by (cases "lookupSSOState api nonce' (ss_state s)")
    have v: "v = (if nonce' = [] then None else lru_Peek api (SSOStateCache (ss_state s)) nonce')"
      and c: "lru_Peek api (SSOStateCache s') nonce = lru_Peek api (SSOStateCache (ss_state s)) nonce"
      using lookup_Peek [OF assms(1), of nonce' "ss_state s"] by (simp_all add: L)
    show ?thesis
    proof (cases v)
      case (Some t)
      then have "nonce' \<noteq> nonce" using v assms(2) by (auto simp: sso_gone_def split: if_splits)
      then show ?thesis
        using assms(2) Some
        by (cases "gm_get (ss_found s) login") (simp_all add: LookupState L sso_gone_def under_way_def c under_way_put)
    qed (use assms(2) in \<open>simp add: LookupState L sso_gone_def under_way_def c\<close>)
  next
    case (RemoveState login now)
    then show ?thesis
      using assms(2) under_way_del [of nonce login "ss_found s"] remove_Peek [OF assms(1)]
      by (auto simp: sso_gone_def under_way_def split: option.splits if_splits)
  next
    case (OtherCall p signedIn source now r)
    then show ?thesis using assms(2) by (simp add: sso_gone_def under_way_def)
  qed
  then show "sso_gone api nonce (sso_step api s op)"
    and "under_way nonce (sso_step api s op) + (if sso_redeems api s op = Some nonce then 1 else 0) \<le> under_way nonce s"
    by blast+
qed

lemma sso_gone_run:
  assumes "lru_contract api" and "sso_gone api nonce s" and "hits (sso_step api) sso_mints nonce s ops = 0"
  shows "hits (sso_step api) (sso_redeems api) nonce s ops \<le> under_way nonce s"
  using assms(2,3)
proof (induction ops arbitrary: s)
  case (Cons op ops)
  have m: "sso_mints s op \<noteq> Some nonce" "hits (sso_step api) sso_mints nonce (sso_step api s op) ops = 0"
    using Cons.prems(2) by (auto split: if_splits)
  note step = sso_gone_step [OF assms(1) Cons.prems(1) m(1)]
  show ?case using Cons.IH [OF step(1) m(2)] step(2) by simp
qed simp

text \<open>
  C4. A nonce is good for one sign-in, but for the logins that overlap the first one. Once a login has
  removed the nonce it found, and unless the nonce is drawn again, it is accepted only by logins that
  had looked it up before the removal and had not removed it yet, at most once by each: never again
  when no other login was under way with it, however requests, sign-ins and other calls interleave
  afterwards.
\<close>

theorem sso_nonce_single_use:
  assumes "lru_contract api" and "gm_get (ss_found s) login = Some (nonce, issuedAt)"
    and "hits (sso_step api) sso_mints nonce (sso_step api s (RemoveState login now)) ops = 0"
  shows "hits (sso_step api) (sso_redeems api) nonce (sso_step api s (RemoveState login now)) ops
    \<le> length (filter (\<lambda>(other, found, _). found = nonce \<and> other \<noteq> login) (ss_found s))"
proof -
  let ?s = "sso_step api s (RemoveState login now)"
  have "sso_gone api nonce ?s" using assms(1,2) by (simp add: sso_gone_def remove_Peek)
  then have "hits (sso_step api) (sso_redeems api) nonce ?s ops \<le> under_way nonce ?s"
    by (rule sso_gone_run [OF assms(1) _ assms(3)])
  also have "filter (\<lambda>e. fst (snd e) = nonce) (gm_del login m) = filter (\<lambda>(other, found, _). found = nonce \<and> other \<noteq> login) m"
    for m :: "(nat, string \<times> time) gomap"
    by (induction m) auto
  then have "under_way nonce ?s = length (filter (\<lambda>(other, found, _). found = nonce \<and> other \<noteq> login) (ss_found s))"
    using assms(2) by (simp add: under_way_def)
  finally show ?thesis .
qed

text \<open>The bound is reached: of two logins that look the nonce up before either removes it both are accepted.\<close>

theorem sso_nonce_single_use_witness:
  "let api = bounded_lru 3; s0 = run (sso_step api) (fresh_sign_ins [])
         [RequestState False ''ip'' minute id ''n'', LookupState 1 ''n'' (minute + 1)];
       two = sso_step api s0 (LookupState 2 ''n'' (minute + 2));
       ops = [RemoveState 2 (minute + 3), LookupState 3 ''n'' (minute + 4), RemoveState 3 (minute + 5)]
   in hits (sso_step api) (sso_redeems api) ''n'' (sso_step api s0 (RemoveState 1 (minute + 2))) (tl ops) = 0 \<and>
      sso_redeems api two (RemoveState 1 (minute + 3)) = Some ''n'' \<and>
      hits (sso_step api) (sso_redeems api) ''n'' (sso_step api two (RemoveState 1 (minute + 3))) ops = 1"
proof -
  let ?api = "bounded_lru 3"
  let ?s0 = "run (sso_step ?api) (fresh_sign_ins []) [RequestState False ''ip'' minute id ''n'', LookupState 1 ''n'' (minute + 1)]"
  let ?two = "sso_step ?api ?s0 (LookupState 2 ''n'' (minute + 2))"
  let ?ops = "[RemoveState 2 (minute + 3), LookupState 3 ''n'' (minute + 4), RemoveState 3 (minute + 5)]"
  have f: "gm_get (ss_found ?s0) 1 = Some (''n'', minute)"
    "length (filter (\<lambda>(other, found, _). found = ''n'' \<and> other \<noteq> 1) (ss_found ?s0)) = 0"
    "hits (sso_step ?api) sso_mints ''n'' (sso_step ?api ?s0 (RemoveState 1 (minute + 2))) (tl ?ops) = 0"
    by code_simp+
  have "hits (sso_step ?api) (sso_redeems ?api) ''n'' (sso_step ?api ?s0 (RemoveState 1 (minute + 2))) (tl ?ops) = 0"
    using sso_nonce_single_use [OF bounded_lru_contract f(1,3)] f(2) by simp
  moreover have "sso_redeems ?api ?two (RemoveState 1 (minute + 3)) = Some ''n''"
    "hits (sso_step ?api) (sso_redeems ?api) ''n'' (sso_step ?api ?two (RemoveState 1 (minute + 3))) ?ops = 1"
    by code_simp+
  ultimately show ?thesis unfolding Let_def by blast
qed

subsection \<open>A nonce survives the flood\<close>

fun op_at :: "sso_op \<Rightarrow> time" where
  "op_at (RequestState _ _ now _ _) = now"
| "op_at (LookupState _ _ now) = now"
| "op_at (RemoveState _ now) = now"
| "op_at (OtherCall _ _ _ now _) = now"

fun op_nonce :: "sso_op \<Rightarrow> string option" where
  "op_nonce (RequestState _ _ _ _ nonce) = Some nonce"
| "op_nonce (LookupState _ nonce _) = Some nonce"
| "op_nonce (RemoveState _ _) = None"
| "op_nonce (OtherCall _ _ _ _ _) = None"

fun state_requests :: "sso_op list \<Rightarrow> allow_op list" where
  "state_requests [] = []"
| "state_requests (RequestState signedIn source now r nonce # ops) = (source, now, r) # state_requests ops"
| "state_requests (LookupState login nonce now # ops) = state_requests ops"
| "state_requests (RemoveState login now # ops) = state_requests ops"
| "state_requests (OtherCall p signedIn source now r # ops) = state_requests ops"

text \<open>The nonces handed out along a run, and the most logins under way at one moment of it.\<close>

fun minted :: "('c, time) lru_api \<Rightarrow> 'c sign_ins \<Rightarrow> sso_op list \<Rightarrow> nat" where
  "minted api s [] = 0"
| "minted api s (op # ops) = (if sso_mints s op = None then 0 else 1) + minted api (sso_step api s op) ops"

fun most_under_way :: "('c, time) lru_api \<Rightarrow> 'c sign_ins \<Rightarrow> sso_op list \<Rightarrow> nat" where
  "most_under_way api s [] = length (ss_found s)"
| "most_under_way api s (op # ops) = max (length (ss_found s)) (most_under_way api (sso_step api s op) ops)"

lemma most_under_way_ge: "length (ss_found s) \<le> most_under_way api s ops"
  by (cases ops) auto

lemma lookup_limiter [simp]: "limiter (snd (lookupSSOState api nonce s)) = limiter s"
  by (auto simp: lookupSSOState_def split: prod.splits)

lemma remove_limiter [simp]: "limiter (snd (removeSSOState api nonce t now s)) = limiter s"
  by (simp add: removeSSOState_def)

lemma create_limiter [simp]: "limiter (CreateSSOState api nonce now s) = limiter s"
  by (simp add: CreateSSOState_def)

lemma step_limiter:
  "limiter (ss_state (sso_step api s op)) SSOStateRequestLimiter =
     run wl_step (limiter (ss_state s) SSOStateRequestLimiter) (state_requests [op])"
proof (cases op)
  case (LookupState login nonce now)
  show ?thesis using lookup_limiter [of api nonce "ss_state s"]
    by (cases "lookupSSOState api nonce (ss_state s)"; cases "fst (lookupSSOState api nonce (ss_state s))")
      (simp_all add: LookupState)
qed (auto simp: throttleCheck_sso throttleCheck_other split: prod.splits option.splits)

lemma sso_limiter:
  "limiter (ss_state (run (sso_step api) s ops)) SSOStateRequestLimiter =
     run wl_step (limiter (ss_state s) SSOStateRequestLimiter) (state_requests ops)"
proof (induction ops arbitrary: s)
  case (Cons op ops)
  show ?case using Cons [of "sso_step api s op"] step_limiter [of api s op] by (cases op) (simp_all del: sso_step.simps)
qed simp

lemma minted_allowed:
  "minted api s ops = length (allowed (limiter (ss_state s) SSOStateRequestLimiter) (state_requests ops))"
proof (induction ops arbitrary: s)
  case (Cons op ops)
  note IH = Cons [of "sso_step api s op"] and st = step_limiter [of api s op]
  show ?case
  proof (cases op)
    case (RequestState signedIn source now r nonce)
    show ?thesis using IH st
      by (simp add: RequestState throttleCheck_sso split: prod.splits)
  qed (use IH st in \<open>simp_all del: sso_step.simps\<close>)
qed simp

lemma allowed_append: "allowed l (xs @ ys) = allowed l xs @ allowed (run wl_step l xs) ys"
  by (induction l xs rule: allowed.induct) auto

lemma state_requests_append: "state_requests (xs @ ys) = state_requests xs @ state_requests ys"
  by (induction xs rule: state_requests.induct) auto

lemma state_requests_times:
  "set (map op_time (state_requests ops)) \<subseteq> op_at ` set ops"
  "sorted (map op_at ops) \<Longrightarrow> sorted (map op_time (state_requests ops))"
proof -
  show *: "set (map op_time (state_requests ops)) \<subseteq> op_at ` set ops" for ops
    by (induction ops rule: state_requests.induct) auto
  show "sorted (map op_at ops) \<Longrightarrow> sorted (map op_time (state_requests ops))"
  proof (induction ops rule: state_requests.induct)
    case (2 signedIn source now r nonce ops)
    then have "\<forall>x\<in>set (map op_time (state_requests ops)). now \<le> x" using * [of ops] by auto
    with 2 show ?case by simp
  qed simp_all
qed

text \<open>
  The quota of five minutes, both ends included: seven windows of 300, below the capacity.
\<close>

lemma sso_quota:
  assumes "sorted (map op_at ops)" and "\<forall>op\<in>set ops. 0 < op_at op"
  shows "length (filter (\<lambda>e. t \<le> snd e \<and> snd e < t + SSOStateTTL + 1)
      (allowed newSSOStateRequestLimiter (state_requests ops))) \<le> 2100"
proof -
  have "length (filter (\<lambda>e. t \<le> snd e \<and> snd e < t + SSOStateTTL + 1)
      (allowed newSSOStateRequestLimiter (state_requests ops)))
      \<le> ssoStateGlobalLimit * (1 + windows_until throttleWindow (t + SSOStateTTL + 1) t)"
    unfolding newSSOStateRequestLimiter_def
    using state_requests_times [of ops] assms
    by (intro global_admits_within) (auto simp: ssoStateGlobalLimit_def)
  also have "windows_until throttleWindow (t + SSOStateTTL + 1) t = 6"
    by (simp add: windows_until_def throttleWindow_def SSOStateTTL_def duration_defs)
  finally show ?thesis by (simp add: ssoStateGlobalLimit_def)
qed

text \<open>
  How far a cached nonce is from being evicted. An operation on another nonce moves at most one entry
  ahead of it: a nonce that is handed out, or one that a login looked up and has not removed yet.
\<close>

definition found_nonces :: "'c sign_ins \<Rightarrow> string set" where
  "found_nonces s = (\<lambda>e. fst (snd e)) ` set (ss_found s)"

definition held :: "('c \<Rightarrow> (string \<times> time) list) \<Rightarrow> string \<Rightarrow> time \<Rightarrow> nat \<Rightarrow> 'c sign_ins \<Rightarrow> bool" where
  "held ents k t n s \<longleftrightarrow> (let es = ents (SSOStateCache (ss_state s)) in
     gm_ok es \<and> gm_ok (ss_found s) \<and> map_of es k = Some t \<and> k \<notin> found_nonces s \<and> crowd k (found_nonces s) es \<le> n)"

lemma ahead_found:
  assumes "gm_ok (ents (SSOStateCache (ss_state s)))"
  shows "ahead k (ents (SSOStateCache (ss_state s))) \<le>
    crowd k (found_nonces s) (ents (SSOStateCache (ss_state s))) + length (ss_found s)"
proof -
  have "card (found_nonces s) \<le> length (ss_found s)"
    unfolding found_nonces_def by (rule order_trans [OF card_image_le card_length]) simp
  moreover have "finite (found_nonces s)" by (simp add: found_nonces_def)
  ultimately show ?thesis using ahead_crowd [OF assms, of "found_nonces s" k] by linarith
qed

lemma held_add:
  assumes "lru_exact api ents cap" and "held ents k t n s" and "nonce \<noteq> k" and "Suc n + length (ss_found s) < cap"
  shows "held ents k t (Suc n) (s\<lparr>ss_state := CreateSSOState api nonce now (ss_state s)\<rparr>)"
proof -
  let ?es = "ents (SSOStateCache (ss_state s))" and ?X = "found_nonces s"
  let ?new = "(nonce, now) # gm_del nonce ?es"
  have h: "gm_ok ?es" "map_of ?es k = Some t" "k \<notin> ?X" "crowd k ?X ?es \<le> n" "gm_ok (ss_found s)"
    using assms(2) by (simp_all add: held_def Let_def)
  have "ahead k ?new \<le> Suc (ahead k ?es)"
    using ahead_del [OF assms(3), of ?es] assms(3) by simp
  then have "ahead k ?new < cap" using ahead_found [of ents s k, OF h(1)] h(4) assms(4) by linarith
  then have "map_of (take cap ?new) k = map_of ?new k" by (rule map_of_take_ahead)
  moreover have "crowd k ?X (take cap ?new) \<le> Suc n"
    using crowd_take [of k ?X cap ?new] crowd_del [OF assms(3), of ?X ?es] h(4) assms(3)
    by (simp add: crowd_Cons split: if_splits)
  moreover have "found_nonces (s\<lparr>ss_state := st\<rparr>) = ?X" for st by (simp add: found_nonces_def)
  ultimately show ?thesis
    using h assms(3) gm_ok_take [OF gm_ok_front [OF h(1)], of cap nonce now]
    by (simp add: held_def CreateSSOState_def lru_exactD(4) [OF assms(1)] gm_get_del)
qed

lemma held_lookup:
  assumes "lru_exact api ents cap" and "held ents k t n s" and "nonce \<noteq> k"
  shows "held ents k t n (sso_step api s (LookupState login nonce now))"
proof (cases "gm_get (ss_found s) login = None \<and> nonce \<noteq> []")
  case True
  let ?es = "ents (SSOStateCache (ss_state s))" and ?X = "found_nonces s"
  have h: "gm_ok ?es" "map_of ?es k = Some t" "k \<notin> ?X" "crowd k ?X ?es \<le> n" "gm_ok (ss_found s)"
    using assms(2) by (simp_all add: held_def Let_def)
  obtain v c where G: "lru_Get api (SSOStateCache (ss_state s)) nonce = (v, c)"
    by (cases "lru_Get api (SSOStateCache (ss_state s)) nonce")
  have v: "v = map_of ?es nonce"
    and c: "ents c = (case v of None \<Rightarrow> ?es | Some i \<Rightarrow> (nonce, i) # gm_del nonce ?es)"
    using lru_exactD(2,3) [OF assms(1), of "SSOStateCache (ss_state s)" nonce] by (simp_all add: G)
  show ?thesis
  proof (cases v)
    case None
    then show ?thesis using h True c by (simp add: G lookupSSOState_def held_def found_nonces_def)
  next
    case (Some i)
    have X: "(\<lambda>e. fst (snd e)) ` set (gm_put login (nonce, i) (ss_found s)) = insert nonce ?X"
      using True by (simp add: found_nonces_def set_gm_put_new)
    have "found_nonces (s\<lparr>ss_state := st, ss_found := gm_put login (nonce, i) (ss_found s)\<rparr>) = insert nonce ?X" for st
      using X by (simp add: found_nonces_def)
    moreover have "crowd k (insert nonce ?X) ((nonce, i) # gm_del nonce ?es) \<le> n"
      using crowd_del [OF assms(3), of "insert nonce ?X" ?es] crowd_mono [of ?X "insert nonce ?X" k ?es] h(4) assms(3)
      by (simp add: crowd_Cons subset_insertI)
    ultimately show ?thesis
      using h True c Some assms(3) gm_ok_front [OF h(1), of nonce i]
      by (simp add: G lookupSSOState_def held_def Let_def gm_get_del)
  qed
qed (use assms(2) in \<open>auto simp: lookupSSOState_def held_def found_nonces_def\<close>)

lemma held_remove:
  assumes "lru_exact api ents cap" and "held ents k t n s"
  shows "held ents k t n (sso_step api s (RemoveState login now))"
proof (cases "gm_get (ss_found s) login")
  case (Some e)
  obtain nonce i where e: "e = (nonce, i)" by (cases e)
  let ?es = "ents (SSOStateCache (ss_state s))" and ?X = "found_nonces s"
  let ?s = "sso_step api s (RemoveState login now)"
  have h: "gm_ok ?es" "map_of ?es k = Some t" "k \<notin> ?X" "crowd k ?X ?es \<le> n" "gm_ok (ss_found s)"
    using assms(2) by (simp_all add: held_def Let_def)
  have "nonce \<in> ?X" using Some map_of_SomeD [OF Some] by (force simp: e found_nonces_def)
  then have ne: "nonce \<noteq> k" using h(3) by blast
  have st: "ents (SSOStateCache (ss_state ?s)) = gm_del nonce ?es"
    by (simp add: Some e removeSSOState_def lru_exactD(5) [OF assms(1)])
  have "set (gm_del login m) \<subseteq> set m" for m :: "(nat, string \<times> time) gomap" by (auto simp: set_gm_del)
  then have sub: "found_nonces ?s \<subseteq> ?X" by (auto simp: found_nonces_def Some e)
  have "fst (snd x) \<in> insert nonce (found_nonces ?s)" if "x \<in> set (ss_found s)" for x
  proof (cases "fst x = login")
    case True
    then have "snd x = (nonce, i)" using that Some gm_mem_iff [OF h(5), of login "snd x"] by (auto simp: e)
    then show ?thesis by simp
  next
    case False
    then show ?thesis using that by (simp add: found_nonces_def Some e set_gm_del)
  qed
  then have "?X \<subseteq> insert nonce (found_nonces ?s)" unfolding found_nonces_def by blast
  then have "crowd k (found_nonces ?s) (gm_del nonce ?es) \<le> crowd k ?X ?es"
    by (rule crowd_del_absent [OF ne])
  moreover have "ss_found ?s = gm_del login (ss_found s)" by (simp add: Some e)
  ultimately show ?thesis using h sub st ne unfolding held_def Let_def by (auto simp: gm_get_del simp del: sso_step.simps)
qed (use assms(2) in simp)

lemma held_step:
  assumes "lru_exact api ents cap" and "held ents k t n s" and "op_nonce op \<noteq> Some k"
    and "n + (if sso_mints s op = None then 0 else 1) + length (ss_found s) < cap"
  shows "held ents k t (n + (if sso_mints s op = None then 0 else 1)) (sso_step api s op)"
proof (cases op)
  case (RequestState signedIn source now r nonce)
  obtain ok s' where T: "throttleCheck r CreateSSOStateProcedure signedIn source now (ss_state s) = (ok, s')"
    by (cases "throttleCheck r CreateSSOStateProcedure signedIn source now (ss_state s)")
  have c: "SSOStateCache s' = SSOStateCache (ss_state s)"
    using throttleCheck_cache [of r CreateSSOStateProcedure signedIn source now "ss_state s"] by (simp add: T)
  have "held ents k t n (s\<lparr>ss_state := s'\<rparr>)" using assms(2) by (simp add: held_def c found_nonces_def)
  then show ?thesis
    using RequestState assms(3,4) held_add [OF assms(1), of k t n "s\<lparr>ss_state := s'\<rparr>" nonce now]
    by (cases ok) (simp_all add: T)
next
  case (LookupState login nonce now)
  then show ?thesis using held_lookup [OF assms(1,2), of nonce login now] assms(3) by (simp del: sso_step.simps)
next
  case (RemoveState login now)
  then show ?thesis using held_remove [OF assms(1,2)] by (simp del: sso_step.simps)
next
  case (OtherCall p signedIn source now r)
  then show ?thesis using assms(2) by (simp add: held_def found_nonces_def)
qed

lemma held_run:
  assumes "lru_exact api ents cap" and "held ents k t n s" and "\<forall>op\<in>set ops. op_nonce op \<noteq> Some k"
    and "n + minted api s ops + most_under_way api s ops < cap"
  shows "held ents k t (n + minted api s ops) (run (sso_step api) s ops)"
  using assms(2-)
proof (induction ops arbitrary: s n)
  case (Cons op ops)
  let ?d = "if sso_mints s op = None then 0 else 1 :: nat"
  have "n + ?d + length (ss_found s) < cap"
    using Cons.prems(3) max.cobounded1 [of "length (ss_found s)" "most_under_way api (sso_step api s op) ops"] by simp
  then have "held ents k t (n + ?d) (sso_step api s op)"
    by (intro held_step [OF assms(1) Cons.prems(1)]) (use Cons.prems(2) in auto)
  then have "held ents k t (n + ?d + minted api (sso_step api s op) ops) (run (sso_step api) (sso_step api s op) ops)"
    using Cons.prems by (intro Cons.IH) (auto simp: add.assoc)
  then show ?case by (simp add: add.assoc)
qed simp

lemma consume_held:
  assumes "lru_exact api ents cap" and "held ents k t n s" and "k \<noteq> []" and "now \<le> t + SSOStateTTL"
  shows "fst (consumeSSOState api k now (ss_state s))"
proof -
  obtain v c where G: "lru_Get api (SSOStateCache (ss_state s)) k = (v, c)"
    by (cases "lru_Get api (SSOStateCache (ss_state s)) k")
  have "v = Some t"
    using lru_exactD(2) [OF assms(1), of "SSOStateCache (ss_state s)" k] assms(2) by (simp add: G held_def Let_def)
  then show ?thesis
    using assms(3,4)
    by (simp add: consumeSSOState_def lookupSSOState_def removeSSOState_def G time_Sub_def SSOStateTTL_def
        duration_defs min_def max_def)
qed

text \<open>What the run after a nonce was handed out can add to the cache while it is valid.\<close>

lemma minted_while_valid:
  assumes "sorted (map op_at (before @ op # after))" and "\<forall>o'\<in>set (before @ op # after). 0 < op_at o'"
    and "\<forall>o'\<in>set after. op_at o' \<le> op_at op + SSOStateTTL"
  shows "minted api (run (sso_step api) (fresh_sign_ins c) (before @ [op])) after \<le> 2100"
proof -
  let ?l = "run wl_step newSSOStateRequestLimiter (state_requests (before @ [op]))"
  have l: "limiter (ss_state (run (sso_step api) (fresh_sign_ins c) (before @ [op]))) SSOStateRequestLimiter = ?l"
    by (simp only: sso_limiter) (simp add: newState_def fresh_sign_ins_def)
  have times: "\<forall>e\<in>set (allowed ?l (state_requests after)). op_at op \<le> snd e \<and> snd e < op_at op + SSOStateTTL + 1"
  proof
    fix e assume "e \<in> set (allowed ?l (state_requests after))"
    then have "snd e \<in> op_at ` set after"
      using allowed_times [of ?l "state_requests after"] state_requests_times(1) [of after] by fastforce
    then show "op_at op \<le> snd e \<and> snd e < op_at op + SSOStateTTL + 1"
      using assms(1,3) by (auto simp: sorted_append)
  qed
  have "allowed newSSOStateRequestLimiter (state_requests (before @ op # after)) =
      allowed newSSOStateRequestLimiter (state_requests (before @ [op])) @ allowed ?l (state_requests after)"
    using allowed_append [of newSSOStateRequestLimiter "state_requests (before @ [op])" "state_requests after"]
    by (simp flip: state_requests_append)
  then have "length (allowed ?l (state_requests after)) \<le> 2100"
    using sso_quota [OF assms(1,2), of "op_at op"] filter_True [OF times] by simp
  then show ?thesis by (simp add: minted_allowed l)
qed

text \<open>The cache of a run keeps its keys distinct, and so does the map of the logins under way.\<close>

lemma step_gm_ok:
  assumes "lru_exact api ents cap" and "gm_ok (ents (SSOStateCache (ss_state s)))"
  shows "gm_ok (ents (SSOStateCache (ss_state (sso_step api s op))))"
proof (cases op)
  case (RequestState signedIn source now r nonce)
  obtain ok s' where T: "throttleCheck r CreateSSOStateProcedure signedIn source now (ss_state s) = (ok, s')"
    by (cases "throttleCheck r CreateSSOStateProcedure signedIn source now (ss_state s)")
  have "SSOStateCache s' = SSOStateCache (ss_state s)"
    using throttleCheck_cache [of r CreateSSOStateProcedure signedIn source now "ss_state s"] by (simp add: T)
  then show ?thesis
    using assms(2) gm_ok_take [OF gm_ok_front [OF assms(2)], of cap nonce now]
    by (simp add: RequestState T CreateSSOState_def lru_exactD(4) [OF assms(1)])
next
  case (LookupState login nonce now)
  obtain v c where G: "lru_Get api (SSOStateCache (ss_state s)) nonce = (v, c)"
    by (cases "lru_Get api (SSOStateCache (ss_state s)) nonce")
  have "gm_ok (ents c)"
    using lru_exactD(3) [OF assms(1), of "SSOStateCache (ss_state s)" nonce] assms(2) gm_ok_front [OF assms(2)]
    by (simp add: G split: option.splits)
  then show ?thesis using assms(2) by (cases v) (simp_all add: LookupState lookupSSOState_def G)
next
  case (RemoveState login now)
  then show ?thesis
    using assms(2) by (auto simp: removeSSOState_def lru_exactD(5) [OF assms(1)] split: option.splits)
qed (use assms(2) in simp)

lemma found_gm_ok: "gm_ok (ss_found s) \<Longrightarrow> gm_ok (ss_found (run (sso_step api) s ops))"
proof (induction ops arbitrary: s)
  case (Cons op ops)
  have "gm_ok (ss_found (sso_step api s op))"
    using Cons.prems by (cases op) (auto split: prod.splits option.splits)
  then show ?case using Cons.IH by simp
qed simp

lemma run_gm_ok:
  assumes "lru_exact api ents cap"
  shows "gm_ok (ents (SSOStateCache (ss_state s))) \<Longrightarrow> gm_ok (ents (SSOStateCache (ss_state (run (sso_step api) s ops))))"
  by (induction ops arbitrary: s) (simp_all add: step_gm_ok [OF assms])

text \<open>
  C1. The cache is large enough for the budget in front of it: a nonce handed out at \<open>t\<close> is
  still accepted at every instant up to \<open>t + SSOStateTTL\<close>, however many other callers ask for
  nonces, sign in or call the other throttled methods meanwhile, provided nobody else
  presents or draws that same nonce and no more than 1995 logins stand between the lookup and the
  removal of their nonces at one moment. Filling the cache does not evict a sign-in in progress.
\<close>

theorem sso_nonce_survives_flood:
  assumes "lru_exact api ents ssoStateCapacity" and "gm_ok (ents c)"
    and "sorted (map op_at (before @ RequestState signedIn source t r nonce # after))"
    and "\<forall>op\<in>set (before @ RequestState signedIn source t r nonce # after). 0 < op_at op"
    and "sso_mints (run (sso_step api) (fresh_sign_ins c) before) (RequestState signedIn source t r nonce) = Some nonce"
    and "\<forall>op\<in>set after. op_nonce op \<noteq> Some nonce \<and> op_at op \<le> t + SSOStateTTL"
    and "nonce \<notin> found_nonces (run (sso_step api) (fresh_sign_ins c) before)"
    and "most_under_way api (run (sso_step api) (fresh_sign_ins c)
      (before @ [RequestState signedIn source t r nonce])) after \<le> 1995"
    and "nonce \<noteq> []" and "now \<le> t + SSOStateTTL"
  shows "fst (consumeSSOState api nonce now (ss_state
    (run (sso_step api) (fresh_sign_ins c) (before @ RequestState signedIn source t r nonce # after))))"
proof -
  let ?op = "RequestState signedIn source t r nonce"
  let ?s0 = "run (sso_step api) (fresh_sign_ins c) before"
  let ?s = "run (sso_step api) (fresh_sign_ins c) (before @ [?op])"
  have "gm_ok (ents (SSOStateCache (ss_state ?s0)))"
    by (rule run_gm_ok [OF assms(1)]) (simp add: fresh_sign_ins_def newState_def assms(2))
  then have "gm_ok (ents (SSOStateCache (ss_state ?s)))"
    using step_gm_ok [OF assms(1), of ?s0 ?op] by (simp only: run_append run.simps)
  moreover have "gm_ok (ss_found ?s)" by (rule found_gm_ok) (simp add: fresh_sign_ins_def)
  ultimately have "held ents nonce t 0 ?s"
    using assms(5,7) unfolding held_def Let_def
    by (auto simp: run_append CreateSSOState_def lru_exactD(4) [OF assms(1)] ssoStateCapacity_def
        found_nonces_def crowd_Cons split: prod.splits if_splits)
  moreover have "minted api ?s after \<le> 2100"
    using assms(3,4,6) by (intro minted_while_valid) auto
  ultimately have "held ents nonce t (minted api ?s after) (run (sso_step api) ?s after)"
    using held_run [OF assms(1), of nonce t 0 ?s after] assms(6,8) by (simp add: ssoStateCapacity_def)
  then show ?thesis
    using consume_held [OF assms(1) _ assms(9,10)] by (simp add: run_append)
qed

theorem sso_nonce_survives_flood_witness:
  "let ops = [RequestState False ''a'' minute id ''x'', RequestState False ''b'' (minute + 1) id ''n'',
       RequestState False ''a'' (minute + 2) id ''y'', LookupState 1 ''x'' (minute + 3),
       RequestState False ''a'' (minute + 4) id ''z'', RemoveState 1 (minute + 5)]
   in fst (consumeSSOState (bounded_lru 4095) ''n'' (6 * minute)
        (ss_state (run (sso_step (bounded_lru 4095)) (fresh_sign_ins []) ops)))"
proof -
  let ?before = "[RequestState False ''a'' minute id ''x'']" and ?op = "RequestState False ''b'' (minute + 1) id ''n''"
  let ?after = "[RequestState False ''a'' (minute + 2) id ''y'', LookupState 1 ''x'' (minute + 3),
     RequestState False ''a'' (minute + 4) id ''z'', RemoveState 1 (minute + 5)]"
  have e: "lru_exact (bounded_lru 4095) id ssoStateCapacity"
    using bounded_lru_exact [of 4095] by (simp add: ssoStateCapacity_def)
  have m: "sso_mints (run (sso_step (bounded_lru 4095)) (fresh_sign_ins []) ?before) ?op = Some ''n''"
    and w: "ss_found (run (sso_step (bounded_lru 4095)) (fresh_sign_ins []) ?before) = []"
      "most_under_way (bounded_lru 4095) (run (sso_step (bounded_lru 4095)) (fresh_sign_ins []) (?before @ [?op])) ?after = 1"
    by code_simp+
  have "fst (consumeSSOState (bounded_lru 4095) ''n'' (6 * minute)
      (ss_state (run (sso_step (bounded_lru 4095)) (fresh_sign_ins []) (?before @ ?op # ?after))))"
    by (rule sso_nonce_survives_flood [OF e _ _ _ m])
      (use w in \<open>simp_all add: duration_defs SSOStateTTL_def found_nonces_def del: sso_step.simps most_under_way.simps run.simps\<close>)
  then show ?thesis by (simp only: Let_def append_Cons append_Nil)
qed

end
