(* ===== verification/Indexed_Store.thy ===== *)
theory Indexed_Store
  imports Go_Prelude
begin

text \<open>
  What the device-login store and the OAuth authorization store share: requests allocated on
  the heap, a map that owns them by their primary key, and a second map that points at the
  same objects by another key. A method that mutates a request through one map is seen
  through the other, so the heap is explicit: a map holds addresses. \<open>ix_view\<close> is the abstract
  value of a store, the requests it answers for by primary key.
\<close>

subsection \<open>Objects behind two maps\<close>

type_synonym addr = nat

record 'r indexed =
  ix_heap :: "addr \<Rightarrow> 'r"
  ix_next :: addr
  ix_primary :: "(string, addr) gomap"
  ix_secondary :: "(string, addr) gomap"

definition ix_new :: "'r \<Rightarrow> 'r indexed" where
  "ix_new zero = \<lparr>ix_heap = (\<lambda>_. zero), ix_next = 0, ix_primary = [], ix_secondary = []\<rparr>"

text \<open>\<open>*p = r\<close>, and \<open>p = &r\<close> with both maps pointing at the new object.\<close>

definition ix_set :: "addr \<Rightarrow> 'r \<Rightarrow> 'r indexed \<Rightarrow> 'r indexed" where
  "ix_set p r s = s\<lparr>ix_heap := (ix_heap s)(p := r)\<rparr>"

lemma ix_set_fields [simp]:
  "ix_heap (ix_set p r s) = (ix_heap s)(p := r)" "ix_next (ix_set p r s) = ix_next s"
  "ix_primary (ix_set p r s) = ix_primary s" "ix_secondary (ix_set p r s) = ix_secondary s"
  by (simp_all add: ix_set_def)

definition ix_alloc :: "'r \<Rightarrow> 'r indexed \<Rightarrow> addr \<times> 'r indexed" where
  "ix_alloc r s = (ix_next s, (ix_set (ix_next s) r s)\<lparr>ix_next := Suc (ix_next s)\<rparr>)"

definition ix_view :: "'r indexed \<Rightarrow> string \<Rightarrow> 'r option" where
  "ix_view s k = map_option (ix_heap s) (gm_get (ix_primary s) k)"

text \<open>
  The loop that drops dead requests while it ranges over the primary map. The removal takes the
  pointer, and deletes the key the request carries: in a well-formed store that is the key the
  loop is at, so no entry disappears before the loop reaches it.
\<close>

definition sweep ::
    "(addr \<Rightarrow> 'r indexed \<Rightarrow> 'r indexed) \<Rightarrow> ('r \<Rightarrow> bool) \<Rightarrow> (string, addr) ranging \<Rightarrow> 'r indexed \<Rightarrow> 'r indexed" where
  "sweep remove dead r s =
     fold (\<lambda>(_, p) s. if dead (ix_heap s p) then remove p s else s) (r (ix_primary s)) s"

text \<open>The loop that looks for the oldest request, from a nil pointer.\<close>

definition earliest :: "('a \<Rightarrow> time) \<Rightarrow> 'a list \<Rightarrow> 'a option" where
  "earliest created ps =
     fold (\<lambda>p oldest. case oldest of
         None \<Rightarrow> Some p
       | Some q \<Rightarrow> if time_Before (created p) (created q) then Some p else oldest) ps None"

lemma earliest_fold:
  "\<exists>m. fold (\<lambda>p oldest. case oldest of
         None \<Rightarrow> Some p
       | Some q \<Rightarrow> if time_Before (created p) (created q) then Some p else oldest) ps (Some q) = Some m \<and>
     m \<in> insert q (set ps) \<and> (\<forall>x\<in>insert q (set ps). created m \<le> created x)"
proof (induction ps arbitrary: q)
  case (Cons p ps)
  show ?case
  proof (cases "time_Before (created p) (created q)")
    case True
    then show ?thesis using Cons.IH [of p] by (auto simp: time_Before_def)
  next
    case False
    then show ?thesis using Cons.IH [of q] by (auto simp: time_Before_def)
  qed
qed simp

lemma earliest_Some:
  assumes "ps \<noteq> []"
  obtains m where "earliest created ps = Some m" "m \<in> set ps" "\<And>x. x \<in> set ps \<Longrightarrow> created m \<le> created x"
proof -
  obtain p ps' where ps: "ps = p # ps'" using assms by (cases ps) auto
  from earliest_fold [where created = created and ps = ps' and q = p] obtain m where
    "earliest created ps = Some m" "m \<in> insert p (set ps')" "\<forall>x\<in>insert p (set ps'). created m \<le> created x"
    unfolding earliest_def ps by auto
  then show ?thesis using ps by (intro that [of m]) auto
qed

locale index_keys =
  fixes key1 :: "'r \<Rightarrow> string"
    and key2 :: "'r \<Rightarrow> string option"
    and remove :: "addr \<Rightarrow> 'r indexed \<Rightarrow> 'r indexed"
  assumes remove_eq: "remove p s =
    s\<lparr>ix_primary := gm_del (key1 (ix_heap s p)) (ix_primary s),
      ix_secondary := (case key2 (ix_heap s p) of None \<Rightarrow> ix_secondary s | Some c \<Rightarrow> gm_del c (ix_secondary s))\<rparr>"
begin

definition ix_ok :: "'r indexed \<Rightarrow> bool" where
  "ix_ok s \<longleftrightarrow> gm_ok (ix_primary s) \<and> gm_ok (ix_secondary s) \<and>
     (\<forall>k p. gm_get (ix_primary s) k = Some p \<longrightarrow>
        p < ix_next s \<and> key1 (ix_heap s p) = k \<and>
        (\<forall>c. key2 (ix_heap s p) = Some c \<longrightarrow> gm_get (ix_secondary s) c = Some p)) \<and>
     (\<forall>c p. gm_get (ix_secondary s) c = Some p \<longrightarrow>
        key2 (ix_heap s p) = Some c \<and> gm_get (ix_primary s) (key1 (ix_heap s p)) = Some p)"

definition stored :: "addr \<Rightarrow> 'r indexed \<Rightarrow> bool" where
  "stored p s \<longleftrightarrow> gm_get (ix_primary s) (key1 (ix_heap s p)) = Some p"

lemma ix_okD:
  assumes "ix_ok s"
  shows "gm_ok (ix_primary s)" and "gm_ok (ix_secondary s)"
    and "gm_get (ix_primary s) k = Some p \<Longrightarrow> p < ix_next s"
    and "gm_get (ix_primary s) k = Some p \<Longrightarrow> key1 (ix_heap s p) = k"
    and "gm_get (ix_primary s) k = Some p \<Longrightarrow> key2 (ix_heap s p) = Some c \<Longrightarrow> gm_get (ix_secondary s) c = Some p"
    and "gm_get (ix_secondary s) c = Some p \<Longrightarrow> key2 (ix_heap s p) = Some c"
    and "gm_get (ix_secondary s) c = Some p \<Longrightarrow> stored p s"
    and "gm_get (ix_primary s) k = Some p \<Longrightarrow> stored p s"
  using assms unfolding ix_ok_def stored_def by blast+

lemma ix_new_ok [simp]: "ix_ok (ix_new zero)"
  by (simp add: ix_ok_def ix_new_def)

lemma ix_new_view [simp]: "ix_view (ix_new zero) k = None"
  by (simp add: ix_view_def ix_new_def)

lemma view_primary: "gm_get (ix_primary s) k = Some p \<Longrightarrow> ix_view s k = Some (ix_heap s p)"
  by (simp add: ix_view_def)

lemma view_secondary:
  "ix_ok s \<Longrightarrow> gm_get (ix_secondary s) c = Some p \<Longrightarrow> ix_view s (key1 (ix_heap s p)) = Some (ix_heap s p)"
  using ix_okD(7) by (fastforce simp: ix_view_def stored_def)

lemma view_key1: "ix_ok s \<Longrightarrow> ix_view s k = Some r \<Longrightarrow> key1 r = k"
  using ix_okD(4) by (fastforce simp: ix_view_def)

text \<open>The second map finds exactly the requests that carry the second key.\<close>

lemma view_of_secondary:
  assumes "ix_ok s"
  shows "(\<exists>p. gm_get (ix_secondary s) c = Some p \<and> ix_heap s p = r) \<longleftrightarrow>
    ix_view s (key1 r) = Some r \<and> key2 r = Some c"
proof
  assume "\<exists>p. gm_get (ix_secondary s) c = Some p \<and> ix_heap s p = r"
  then obtain p where p: "gm_get (ix_secondary s) c = Some p" and h: "ix_heap s p = r" by blast
  show "ix_view s (key1 r) = Some r \<and> key2 r = Some c"
    using view_secondary [OF assms p] ix_okD(6) [OF assms p] by (simp add: h)
next
  assume "ix_view s (key1 r) = Some r \<and> key2 r = Some c"
  then show "\<exists>p. gm_get (ix_secondary s) c = Some p \<and> ix_heap s p = r"
    using ix_okD(5) [OF assms, of "key1 r"] by (auto simp: ix_view_def)
qed

text \<open>The second map is no larger than the first.\<close>

lemma secondary_le_primary:
  assumes "ix_ok s"
  shows "length (ix_secondary s) \<le> length (ix_primary s)"
proof -
  let ?f = "\<lambda>c. key1 (ix_heap s (the (gm_get (ix_secondary s) c)))"
  have "inj_on ?f (gm_keys (ix_secondary s))"
  proof (rule inj_onI)
    fix c d
    assume "c \<in> gm_keys (ix_secondary s)" "d \<in> gm_keys (ix_secondary s)" and eq: "?f c = ?f d"
    then obtain p q where p: "gm_get (ix_secondary s) c = Some p" and q: "gm_get (ix_secondary s) d = Some q"
      unfolding gm_keys_get not_None_eq by blast
    have "key1 (ix_heap s p) = key1 (ix_heap s q)" using eq unfolding p q option.sel .
    then have "p = q"
      using ix_okD(7) [OF assms p] ix_okD(7) [OF assms q] unfolding stored_def by (metis option.inject)
    then show "c = d" using ix_okD(6) [OF assms p] ix_okD(6) [OF assms q] by simp
  qed
  moreover have "?f ` gm_keys (ix_secondary s) \<subseteq> gm_keys (ix_primary s)"
  proof
    fix k assume "k \<in> ?f ` gm_keys (ix_secondary s)"
    then obtain c where c: "c \<in> gm_keys (ix_secondary s)" and k: "k = ?f c" by blast
    then obtain p where p: "gm_get (ix_secondary s) c = Some p" unfolding gm_keys_get not_None_eq by blast
    have "gm_get (ix_primary s) k = Some p"
      using ix_okD(7) [OF assms p] unfolding k p option.sel stored_def .
    then show "k \<in> gm_keys (ix_primary s)" by (simp add: gm_keys_get)
  qed
  ultimately have "card (gm_keys (ix_secondary s)) \<le> card (gm_keys (ix_primary s))"
    by (intro card_inj_on_le) auto
  then show ?thesis using ix_okD(1,2) [OF assms] by (simp add: gm_length_card)
qed

lemma stored_same:
  assumes "ix_ok s" and "stored p s" and "stored q s" and "key1 (ix_heap s p) = key1 (ix_heap s q)"
  shows "p = q"
  using assms by (simp add: stored_def)

text \<open>An update through a pointer that leaves both keys alone.\<close>

lemma set_ok:
  assumes "ix_ok s" and "stored p s" and "key1 r = key1 (ix_heap s p)" and "key2 r = key2 (ix_heap s p)"
  shows "ix_ok (ix_set p r s)"
    and "ix_view (ix_set p r s) = (ix_view s)(key1 r \<mapsto> r)"
proof -
  have p: "gm_get (ix_primary s) (key1 r) = Some p" using assms by (simp add: stored_def)
  have h: "key1 (((ix_heap s)(p := r)) q) = key1 (ix_heap s q)"
    "key2 (((ix_heap s)(p := r)) q) = key2 (ix_heap s q)" for q
    using assms(3,4) by simp_all
  show "ix_ok (ix_set p r s)"
    using assms(1) unfolding ix_ok_def ix_set_fields h .
  have "ix_view (ix_set p r s) k = ((ix_view s)(key1 r \<mapsto> r)) k" for k
  proof (cases "gm_get (ix_primary s) k")
    case None
    with p show ?thesis by (auto simp: ix_view_def ix_set_def)
  next
    case (Some q)
    then show ?thesis
      using p ix_okD(4) [OF assms(1) Some] ix_okD(4) [OF assms(1) p] by (auto simp: ix_view_def ix_set_def)
  qed
  then show "ix_view (ix_set p r s) = (ix_view s)(key1 r \<mapsto> r)" by (rule ext)
qed

text \<open>An update that gives the object its second key.\<close>

lemma link_ok:
  assumes "ix_ok s" and "stored p s" and "key1 r = key1 (ix_heap s p)" and "key2 (ix_heap s p) = None"
    and "key2 r = Some c" and "gm_get (ix_secondary s) c = None"
  shows "ix_ok ((ix_set p r s)\<lparr>ix_secondary := gm_put c p (ix_secondary s)\<rparr>)"
    and "ix_view ((ix_set p r s)\<lparr>ix_secondary := gm_put c p (ix_secondary s)\<rparr>) = (ix_view s)(key1 r \<mapsto> r)"
proof -
  let ?s = "(ix_set p r s)\<lparr>ix_secondary := gm_put c p (ix_secondary s)\<rparr>"
  have p: "gm_get (ix_primary s) (key1 r) = Some p" using assms(2,3) by (simp add: stored_def)
  have sec: "gm_get (ix_secondary ?s) d = (if d = c then Some p else gm_get (ix_secondary s) d)" for d
    by (simp add: gm_get_put)
  have oks: "gm_ok (ix_primary ?s)" "gm_ok (ix_secondary ?s)" using ix_okD(1,2) [OF assms(1)] by auto
  have one: "q < ix_next ?s \<and> key1 (ix_heap ?s q) = k \<and>
      (\<forall>d. key2 (ix_heap ?s q) = Some d \<longrightarrow> gm_get (ix_secondary ?s) d = Some q)"
    if q: "gm_get (ix_primary ?s) k = Some q" for k q
  proof -
    have k: "gm_get (ix_primary s) k = Some q" using q by simp
    show ?thesis
      using ix_okD(3,4,5) [OF assms(1) k] assms(3,5,6) ix_okD(5) [OF assms(1) k, of c]
      by (cases "q = p") (auto simp: gm_get_put)
  qed
  have two: "key2 (ix_heap ?s q) = Some d \<and> gm_get (ix_primary ?s) (key1 (ix_heap ?s q)) = Some q"
    if q: "gm_get (ix_secondary ?s) d = Some q" for d q
  proof (cases "d = c")
    case True
    then show ?thesis using q p assms(5) by (simp add: gm_get_put)
  next
    case False
    then have d: "gm_get (ix_secondary s) d = Some q" using q by (simp add: gm_get_put)
    have "q \<noteq> p" using ix_okD(6) [OF assms(1) d] assms(4) by auto
    then show ?thesis using ix_okD(6,7) [OF assms(1) d] by (simp add: stored_def)
  qed
  show "ix_ok ?s" unfolding ix_ok_def using oks one two by blast
  have "ix_view ?s k = ((ix_view s)(key1 r \<mapsto> r)) k" for k
  proof (cases "gm_get (ix_primary s) k")
    case None
    with p show ?thesis by (auto simp: ix_view_def)
  next
    case (Some q)
    then show ?thesis
      using p ix_okD(4) [OF assms(1) Some] ix_okD(4) [OF assms(1) p] by (auto simp: ix_view_def)
  qed
  then show "ix_view ?s = (ix_view s)(key1 r \<mapsto> r)" by (rule ext)
qed

lemma remove_frame [simp]: "ix_heap (remove p s) = ix_heap s" "ix_next (remove p s) = ix_next s"
  by (simp_all add: remove_eq)

lemma remove_primary: "gm_get (ix_primary (remove p s)) k =
    (if k = key1 (ix_heap s p) then None else gm_get (ix_primary s) k)"
  by (simp add: remove_eq gm_get_del)

lemma remove_ok:
  assumes "ix_ok s" and "stored p s"
  shows "ix_ok (remove p s)" and "ix_view (remove p s) = (ix_view s)(key1 (ix_heap s p) := None)"
proof -
  have sec: "gm_get (ix_secondary (remove p s)) c =
      (if key2 (ix_heap s p) = Some c then None else gm_get (ix_secondary s) c)" for c
    by (auto simp: remove_eq gm_get_del split: option.splits)
  have oks: "gm_ok (ix_primary (remove p s))" "gm_ok (ix_secondary (remove p s))"
    using ix_okD(1,2) [OF assms(1)] by (auto simp: remove_eq split: option.splits)
  have one: "q < ix_next s \<and> key1 (ix_heap s q) = k \<and>
      (\<forall>c. key2 (ix_heap s q) = Some c \<longrightarrow> gm_get (ix_secondary (remove p s)) c = Some q)"
    if q: "gm_get (ix_primary (remove p s)) k = Some q" for k q
  proof -
    have k: "gm_get (ix_primary s) k = Some q" "k \<noteq> key1 (ix_heap s p)"
      using q by (auto simp: remove_primary split: if_splits)
    have "q \<noteq> p" using ix_okD(4) [OF assms(1) k(1)] k(2) by auto
    then show ?thesis
      using ix_okD(3,4,5) [OF assms(1) k(1)] ix_okD(5) [OF assms(1), of _ p] assms(2)
      by (auto simp: sec stored_def)
  qed
  have two: "key2 (ix_heap s q) = Some c \<and> gm_get (ix_primary (remove p s)) (key1 (ix_heap s q)) = Some q"
    if q: "gm_get (ix_secondary (remove p s)) c = Some q" for c q
  proof -
    have c: "gm_get (ix_secondary s) c = Some q" "key2 (ix_heap s p) \<noteq> Some c"
      using q by (auto simp: sec split: if_splits)
    have "key1 (ix_heap s q) \<noteq> key1 (ix_heap s p)"
      using stored_same [OF assms(1) ix_okD(7) [OF assms(1) c(1)] assms(2)] ix_okD(6) [OF assms(1) c(1)] c(2) by auto
    then show ?thesis
      using ix_okD(6,7) [OF assms(1) c(1)] by (simp add: remove_primary stored_def)
  qed
  show "ix_ok (remove p s)"
    unfolding ix_ok_def remove_frame using oks one two by blast
  show "ix_view (remove p s) = (ix_view s)(key1 (ix_heap s p) := None)"
    by (rule ext) (simp add: ix_view_def remove_primary)
qed

text \<open>A new object under fresh keys; \<open>c\<close> is the second key it starts with, if any.\<close>

definition ix_insert :: "'r \<Rightarrow> 'r indexed \<Rightarrow> 'r indexed" where
  "ix_insert r s =
     (case ix_alloc r s of (p, s') \<Rightarrow>
        s'\<lparr>ix_primary := gm_put (key1 r) p (ix_primary s'),
           ix_secondary := (case key2 r of None \<Rightarrow> ix_secondary s' | Some c \<Rightarrow> gm_put c p (ix_secondary s'))\<rparr>)"

lemma insert_ok:
  assumes "ix_ok s" and "ix_view s (key1 r) = None" and "\<And>c. key2 r = Some c \<Longrightarrow> gm_get (ix_secondary s) c = None"
  shows "ix_ok (ix_insert r s)" and "ix_view (ix_insert r s) = (ix_view s)(key1 r \<mapsto> r)"
proof -
  let ?s = "ix_insert r s" and ?p = "ix_next s"
  have prim: "gm_get (ix_primary ?s) k = (if k = key1 r then Some ?p else gm_get (ix_primary s) k)" for k
    by (simp add: ix_insert_def ix_alloc_def ix_set_def gm_get_put)
  have sec: "gm_get (ix_secondary ?s) c = (if key2 r = Some c then Some ?p else gm_get (ix_secondary s) c)" for c
    by (auto simp: ix_insert_def ix_alloc_def ix_set_def gm_get_put split: option.splits)
  have heap: "ix_heap ?s = (ix_heap s)(?p := r)" and nxt: "ix_next ?s = Suc ?p"
    by (simp_all add: ix_insert_def ix_alloc_def ix_set_def)
  have oks: "gm_ok (ix_primary ?s)" "gm_ok (ix_secondary ?s)"
    using ix_okD(1,2) [OF assms(1)] by (auto simp: ix_insert_def ix_alloc_def ix_set_def split: option.splits)
  have fresh: "q \<noteq> ?p" if "gm_get (ix_primary s) k = Some q" for k q
    using ix_okD(3) [OF assms(1) that] by simp
  have free: "gm_get (ix_primary s) (key1 r) = None" using assms(2) by (simp add: ix_view_def)
  have one: "q < ix_next ?s \<and> key1 (ix_heap ?s q) = k \<and>
      (\<forall>c. key2 (ix_heap ?s q) = Some c \<longrightarrow> gm_get (ix_secondary ?s) c = Some q)"
    if q: "gm_get (ix_primary ?s) k = Some q" for k q
  proof (cases "k = key1 r")
    case True
    then show ?thesis using q by (simp add: prim sec heap nxt)
  next
    case False
    then have k: "gm_get (ix_primary s) k = Some q" using q by (simp add: prim)
    show ?thesis
      using ix_okD(3,4,5) [OF assms(1) k] fresh [OF k] assms(3) by (auto simp: sec heap nxt)
  qed
  have two: "key2 (ix_heap ?s q) = Some c \<and> gm_get (ix_primary ?s) (key1 (ix_heap ?s q)) = Some q"
    if q: "gm_get (ix_secondary ?s) c = Some q" for c q
  proof (cases "key2 r = Some c")
    case True
    then show ?thesis using q by (simp add: prim sec heap)
  next
    case False
    then have c: "gm_get (ix_secondary s) c = Some q" using q by (simp add: sec)
    have st: "gm_get (ix_primary s) (key1 (ix_heap s q)) = Some q"
      using ix_okD(7) [OF assms(1) c] by (simp add: stored_def)
    then show ?thesis
      using ix_okD(6) [OF assms(1) c] fresh [OF st] free by (auto simp: prim heap)
  qed
  show "ix_ok ?s" unfolding ix_ok_def using oks one two by blast
  have "ix_view ?s k = ((ix_view s)(key1 r \<mapsto> r)) k" for k
    using fresh [of k] by (cases "gm_get (ix_primary s) k") (auto simp: ix_view_def prim heap)
  then show "ix_view ?s = (ix_view s)(key1 r \<mapsto> r)" by (rule ext)
qed

subsection \<open>Sweeping and making room\<close>

lemma fold_sweep:
  assumes "ix_ok s" and "distinct (map fst es)" and "set es \<subseteq> set (ix_primary s)"
  shows "let s' = fold (\<lambda>(_, p) s. if dead (ix_heap s p) then remove p s else s) es s in
    ix_ok s' \<and> length (ix_primary s') \<le> length (ix_primary s) \<and>
    (\<forall>k. ix_view s' k = (case ix_view s k of None \<Rightarrow> None
       | Some r \<Rightarrow> if dead r \<and> k \<in> fst ` set es then None else Some r))"
  using assms
proof (induction es arbitrary: s)
  case Nil
  then show ?case by (simp split: option.splits)
next
  case (Cons e es)
  obtain k p where e: "e = (k, p)" by (cases e)
  have p: "gm_get (ix_primary s) k = Some p"
    using Cons.prems e by (metis gm_mem_iff ix_okD(1) list.set_intros(1) subsetD)
  have kp: "key1 (ix_heap s p) = k" and st: "stored p s"
    using ix_okD(4,8) [OF Cons.prems(1) p] by simp_all
  have vk: "ix_view s k = Some (ix_heap s p)" by (rule view_primary [OF p])
  show ?case
  proof (cases "dead (ix_heap s p)")
    case False
    then have step: "fold (\<lambda>(_, p) s. if dead (ix_heap s p) then remove p s else s) (e # es) s =
        fold (\<lambda>(_, p) s. if dead (ix_heap s p) then remove p s else s) es s" by (simp add: e)
    have "let s' = fold (\<lambda>(_, p) s. if dead (ix_heap s p) then remove p s else s) es s in
        ix_ok s' \<and> length (ix_primary s') \<le> length (ix_primary s) \<and>
        (\<forall>k. ix_view s' k = (case ix_view s k of None \<Rightarrow> None
           | Some r \<Rightarrow> if dead r \<and> k \<in> fst ` set es then None else Some r))"
      by (rule Cons.IH) (use Cons.prems in auto)
    then show ?thesis
      unfolding step Let_def using False vk by (auto simp: e split: option.splits)
  next
    case True
    let ?s = "remove p s"
    have step: "fold (\<lambda>(_, p) s. if dead (ix_heap s p) then remove p s else s) (e # es) s =
        fold (\<lambda>(_, p) s. if dead (ix_heap s p) then remove p s else s) es ?s" using True by (simp add: e)
    note rm = remove_ok [OF Cons.prems(1) st, unfolded kp]
    have sub: "set es \<subseteq> set (ix_primary ?s)"
      using Cons.prems(2,3) by (auto simp: remove_eq set_gm_del kp e)
    have "let s' = fold (\<lambda>(_, p) s. if dead (ix_heap s p) then remove p s else s) es ?s in
        ix_ok s' \<and> length (ix_primary s') \<le> length (ix_primary ?s) \<and>
        (\<forall>k. ix_view s' k = (case ix_view ?s k of None \<Rightarrow> None
           | Some r \<Rightarrow> if dead r \<and> k \<in> fst ` set es then None else Some r))"
      by (rule Cons.IH [OF rm(1) _ sub]) (use Cons.prems(2) in simp)
    moreover have "length (ix_primary ?s) \<le> length (ix_primary s)"
      by (simp add: remove_eq length_gm_del_le)
    ultimately show ?thesis
      unfolding step Let_def rm(2) using True vk by (auto simp: e split: option.splits if_splits)
  qed
qed

lemma sweep_spec:
  assumes "ix_ok s" and "fair_range r"
  shows "ix_ok (sweep remove dead r s)"
    and "length (ix_primary (sweep remove dead r s)) \<le> length (ix_primary s)"
    and "ix_view (sweep remove dead r s) k =
      (case ix_view s k of None \<Rightarrow> None | Some x \<Rightarrow> if dead x then None else Some x)"
proof -
  have d: "distinct (map fst (r (ix_primary s)))"
    using ix_okD(1) [OF assms(1)] assms(2) by (metis fair_range_def mset_eq_imp_distinct_iff mset_map)
  have st: "set (r (ix_primary s)) = set (ix_primary s)" by (rule fair_range_set [OF assms(2)])
  have k: "ix_view s k = Some x \<Longrightarrow> k \<in> gm_keys (ix_primary s)" for k x
    by (simp add: gm_keys_get ix_view_def) blast
  show "ix_ok (sweep remove dead r s)"
    and "length (ix_primary (sweep remove dead r s)) \<le> length (ix_primary s)"
    and "ix_view (sweep remove dead r s) k =
      (case ix_view s k of None \<Rightarrow> None | Some x \<Rightarrow> if dead x then None else Some x)"
    using fold_sweep [OF assms(1) d, of dead] k [of k] unfolding sweep_def Let_def st
    by (auto split: option.splits)
qed

text \<open>
  Pruning: sweep, and drop the oldest request if that made no room. \<open>created\<close> is the creation
  time the loop compares.
\<close>

definition pruned :: "('r \<Rightarrow> bool) \<Rightarrow> ('r \<Rightarrow> time) \<Rightarrow> nat \<Rightarrow> (string, addr) ranging \<Rightarrow> 'r indexed \<Rightarrow> 'r indexed" where
  "pruned dead created capacity r s =
     (let s1 = sweep remove dead r s in
      if length (ix_primary s1) < capacity then s1
      else case earliest (\<lambda>p. created (ix_heap s1 p)) (map snd (r (ix_primary s1))) of
        None \<Rightarrow> s1 | Some p \<Rightarrow> remove p s1)"

lemma primary_stored: "ix_ok s \<Longrightarrow> p \<in> snd ` set (ix_primary s) \<Longrightarrow> stored p s"
  using ix_okD(8) gm_mem_iff [OF ix_okD(1)] by fastforce

lemma pruned_cases:
  assumes "ix_ok s" and "fair_range r" and "0 < capacity"
  obtains (swept) "length (ix_primary (sweep remove dead r s)) < capacity"
      "pruned dead created capacity r s = sweep remove dead r s"
  | (evicted) p where "capacity \<le> length (ix_primary (sweep remove dead r s))"
      "pruned dead created capacity r s = remove p (sweep remove dead r s)"
      "stored p (sweep remove dead r s)"
      "\<And>k x. ix_view (sweep remove dead r s) k = Some x \<Longrightarrow> created (ix_heap (sweep remove dead r s) p) \<le> created x"
proof (cases "length (ix_primary (sweep remove dead r s)) < capacity")
  case True
  then show ?thesis by (intro swept) (simp_all add: pruned_def)
next
  case False
  let ?s = "sweep remove dead r s"
  have ok: "ix_ok ?s" by (rule sweep_spec(1) [OF assms(1,2)])
  have st: "set (r (ix_primary ?s)) = set (ix_primary ?s)" by (rule fair_range_set [OF assms(2)])
  have ne: "map snd (r (ix_primary ?s)) \<noteq> []"
    using False assms(3) fair_range_length [OF assms(2), of "ix_primary ?s"] by auto
  obtain p where p: "earliest (\<lambda>p. created (ix_heap ?s p)) (map snd (r (ix_primary ?s))) = Some p"
      "p \<in> snd ` set (ix_primary ?s)"
      "\<And>q. q \<in> snd ` set (ix_primary ?s) \<Longrightarrow> created (ix_heap ?s p) \<le> created (ix_heap ?s q)"
    using earliest_Some [OF ne, of "\<lambda>p. created (ix_heap ?s p)"] unfolding set_map st by metis
  show ?thesis
  proof (rule evicted [of p])
    show "created (ix_heap ?s p) \<le> created x" if v: "ix_view ?s k = Some x" for k x
    proof -
      obtain q where q: "gm_get (ix_primary ?s) k = Some q" "x = ix_heap ?s q"
        using v by (auto simp: ix_view_def)
      then show ?thesis using p(3) by (metis image_eqI map_of_SomeD snd_conv)
    qed
  qed (use False p(1) primary_stored [OF ok p(2)] in \<open>simp_all add: pruned_def\<close>)
qed

lemma pruned_ok:
  assumes "ix_ok s" and "fair_range r" and "0 < capacity"
  shows "ix_ok (pruned dead created capacity r s)"
  by (cases rule: pruned_cases [OF assms, of dead created])
    (simp_all add: sweep_spec(1) [OF assms(1,2)] remove_ok(1))

lemma pruned_room:
  assumes "ix_ok s" and "fair_range r" and "0 < capacity" and "length (ix_primary s) \<le> capacity"
  shows "length (ix_primary (pruned dead created capacity r s)) < capacity"
  using assms(1-3)
proof (cases rule: pruned_cases [where dead = dead and created = created])
  case (evicted p)
  let ?s = "sweep remove dead r s"
  have "key1 (ix_heap ?s p) \<in> gm_keys (ix_primary ?s)"
    using evicted(3) by (simp add: stored_def gm_keys_get)
  then have "length (ix_primary (remove p ?s)) < length (ix_primary ?s)"
    by (simp add: remove_eq length_gm_del_lt)
  then show ?thesis
    using evicted(2) sweep_spec(2) [OF assms(1,2), of dead] assms(4) by simp
qed simp

text \<open>Nothing changes in place, and what disappears was dead or the oldest of the live.\<close>

lemma pruned_view:
  assumes "ix_ok s" and "fair_range r" and "0 < capacity"
    and "ix_view (pruned dead created capacity r s) k = Some x"
  shows "ix_view s k = Some x" and "\<not> dead x"
proof -
  have "ix_view (sweep remove dead r s) k = Some x"
    using assms(4)
    by (cases rule: pruned_cases [OF assms(1-3), of dead created])
      (auto simp: remove_ok(2) [OF sweep_spec(1) [OF assms(1,2)]] split: if_splits)
  then show "ix_view s k = Some x" and "\<not> dead x"
    by (auto simp: sweep_spec(3) [OF assms(1,2)] split: option.splits if_splits)
qed

lemma pruned_lost:
  assumes "ix_ok s" and "fair_range r" and "0 < capacity"
    and "ix_view s k = Some x" and "ix_view (pruned dead created capacity r s) k = None"
  shows "dead x \<or> (\<forall>k' x'. ix_view s k' = Some x' \<and> \<not> dead x' \<longrightarrow> created x \<le> created x')"
proof (cases "dead x")
  case d: False
  let ?s = "sweep remove dead r s"
  have ok: "ix_ok ?s" by (rule sweep_spec(1) [OF assms(1,2)])
  have vk: "ix_view ?s k = Some x" using d assms(4) by (simp add: sweep_spec(3) [OF assms(1,2)])
  have "\<forall>k' x'. ix_view s k' = Some x' \<and> \<not> dead x' \<longrightarrow> created x \<le> created x'"
    using assms(1-3)
  proof (cases rule: pruned_cases [where dead = dead and created = created])
    case swept
    then show ?thesis using assms(5) vk by simp
  next
    case (evicted p)
    have "k = key1 (ix_heap ?s p)"
      using assms(5) vk by (auto simp: evicted(2) remove_ok(2) [OF ok evicted(3)] split: if_splits)
    then have "x = ix_heap ?s p" using vk evicted(3) by (simp add: stored_def view_primary)
    moreover have "ix_view ?s k' = Some x'" if "ix_view s k' = Some x'" "\<not> dead x'" for k' x'
      using that by (simp add: sweep_spec(3) [OF assms(1,2)])
    ultimately show ?thesis using evicted(4) by blast
  qed
  then show ?thesis ..
qed simp

end

end
