(* ===== verification/Random_Code.thy ===== *)
theory Random_Code
  imports Go_Strings
begin

text \<open>
  The codes of \<open>backend/component/state/device_login.go\<close>: how the secrets and the human codes
  are drawn, and how a typed code is brought back to its canonical form. The randomness of
  \<open>crypto/rand\<close> is a parameter: \<open>rng limit g\<close> is one call of \<open>rand.Int\<close> on a source in state
  \<open>g\<close>, \<open>None\<close> when reading the source fails.
\<close>

type_synonym 'g rng = "nat \<Rightarrow> 'g \<Rightarrow> nat option \<times> 'g"

definition rng_bounded :: "'g rng \<Rightarrow> bool" where
  "rng_bounded rng \<longleftrightarrow> (\<forall>limit g d g'. rng limit g = (Some d, g') \<longrightarrow> d < limit)"

definition deviceCodeLength :: nat where "deviceCodeLength = 43"
definition userCodeLength :: nat where "userCodeLength = 8"
definition userCodeDashAt :: nat where "userCodeDashAt = 4"
definition codeAttempts :: nat where "codeAttempts = 5"

definition deviceLoginAlphabet :: string where
  "deviceLoginAlphabet = ''0123456789abcdefghijklmnopqrstuvwxyzABCDEFGHIJKLMNOPQRSTUVWXYZ''"

definition crockfordAlphabet :: string where
  "crockfordAlphabet = ''0123456789ABCDEFGHJKMNPQRSTVWXYZ''"

text \<open>The first \<open>n\<close> characters still to draw.\<close>

fun randomCode :: "'g rng \<Rightarrow> string \<Rightarrow> nat \<Rightarrow> 'g \<Rightarrow> string option \<times> 'g" where
  "randomCode rng alphabet 0 g = (Some [], g)"
| "randomCode rng alphabet (Suc n) g =
     (case rng (length alphabet) g of
        (None, g') \<Rightarrow> (None, g')
      | (Some d, g') \<Rightarrow>
          (case randomCode rng alphabet n g' of
             (None, g'') \<Rightarrow> (None, g'')
           | (Some code, g'') \<Rightarrow> (Some (alphabet ! d # code), g'')))"

text \<open>The loop of \<open>newUserCode\<close> with \<open>n\<close> characters left, appending to \<open>code\<close>.\<close>

fun userCodeLoop :: "'g rng \<Rightarrow> nat \<Rightarrow> string \<Rightarrow> 'g \<Rightarrow> string option \<times> 'g" where
  "userCodeLoop rng 0 code g = (Some code, g)"
| "userCodeLoop rng (Suc n) code g =
     (let code' = (if userCodeLength - Suc n = userCodeDashAt then code @ ''-'' else code)
      in case rng (length crockfordAlphabet) g of
           (None, g') \<Rightarrow> (None, g')
         | (Some d, g') \<Rightarrow> userCodeLoop rng n (code' @ [crockfordAlphabet ! d]) g')"

definition newUserCode :: "'g rng \<Rightarrow> 'g \<Rightarrow> string option \<times> 'g" where
  "newUserCode rng g = userCodeLoop rng userCodeLength [] g"

text \<open>The loop over the characters of a typed code; \<open>None\<close> is the early return of the empty code.\<close>

fun canonicalRunes :: "string \<Rightarrow> string option" where
  "canonicalRunes [] = Some []"
| "canonicalRunes (r # rs) =
     (if r \<in> {CHR ''-'', CHR '' '', CHR ''_''} then canonicalRunes rs
      else
        let r' = (if r = CHR ''O'' then CHR ''0''
                  else if r = CHR ''I'' \<or> r = CHR ''L'' then CHR ''1'' else r)
        in if r' \<notin> set crockfordAlphabet then None
           else map_option ((#) r') (canonicalRunes rs))"

definition NormalizeUserCode :: "string \<Rightarrow> string" where
  "NormalizeUserCode raw =
     (case canonicalRunes (ToUpper (TrimSpace raw)) of
        None \<Rightarrow> []
      | Some canonical \<Rightarrow>
          if length canonical \<noteq> userCodeLength then []
          else take userCodeDashAt canonical @ ''-'' @ drop userCodeDashAt canonical)"

subsection \<open>Drawn codes\<close>

lemma randomCode_alphabet:
  assumes "rng_bounded rng" and "randomCode rng alphabet n g = (Some code, g')"
  shows "length code = n \<and> set code \<subseteq> set alphabet"
  using assms(2)
proof (induction n arbitrary: g code)
  case (Suc n)
  then show ?case
    using assms(1) by (fastforce simp: rng_bounded_def split: prod.splits option.splits intro: nth_mem)
qed simp

text \<open>A canonical code: two groups of four Crockford characters.\<close>

definition canonical_code :: "string \<Rightarrow> bool" where
  "canonical_code c \<longleftrightarrow>
     (\<exists>a b. c = a @ CHR ''-'' # b \<and> length a = 4 \<and> length b = 4 \<and>
        set a \<subseteq> set crockfordAlphabet \<and> set b \<subseteq> set crockfordAlphabet)"

lemma userCodeLoop_append:
  assumes "rng_bounded rng" and "userCodeLoop rng n code g = (Some c, g')" and "n \<le> 4"
  shows "\<exists>b. c = code @ (if n = 4 then CHR ''-'' # b else b) \<and> length b = n \<and> set b \<subseteq> set crockfordAlphabet"
  using assms(2,3)
proof (induction n arbitrary: code g)
  case (Suc n)
  obtain d g'' where d: "rng (length crockfordAlphabet) g = (Some d, g'')"
    using Suc.prems(1) by (auto split: prod.splits option.splits)
  then have m: "crockfordAlphabet ! d \<in> set crockfordAlphabet"
    using assms(1) by (auto simp: rng_bounded_def intro!: nth_mem)
  let ?code = "if Suc n = 4 then code @ ''-'' else code"
  have dash: "userCodeLength - Suc n = userCodeDashAt \<longleftrightarrow> Suc n = 4"
    using Suc.prems(2) by (auto simp: userCodeLength_def userCodeDashAt_def)
  have "userCodeLoop rng n (?code @ [crockfordAlphabet ! d]) g'' = (Some c, g')"
    using Suc.prems(1) unfolding userCodeLoop.simps dash Let_def d by simp
  from Suc.IH [OF this] Suc.prems(2) obtain b where
    "c = ?code @ [crockfordAlphabet ! d] @ b" "length b = n" "set b \<subseteq> set crockfordAlphabet" by auto
  then show ?case
    using m by (intro exI [of _ "crockfordAlphabet ! d # b"]) auto
qed simp

lemma userCodeLoop_first:
  assumes "rng_bounded rng" and "userCodeLoop rng (n + 4) code g = (Some c, g')" and "n \<le> 4"
  shows "\<exists>a b. c = code @ a @ CHR ''-'' # b \<and> length a = n \<and> length b = 4 \<and>
    set a \<subseteq> set crockfordAlphabet \<and> set b \<subseteq> set crockfordAlphabet"
  using assms(2,3)
proof (induction n arbitrary: code g)
  case 0
  then show ?case using userCodeLoop_append [OF assms(1), of 4 code g c] by auto
next
  case (Suc n)
  note run = Suc.prems(1) [unfolded add_Suc userCodeLoop.simps Let_def]
  have dash: "userCodeLength - Suc (n + 4) \<noteq> userCodeDashAt"
    using Suc.prems(2) by (simp add: userCodeLength_def userCodeDashAt_def)
  obtain d g'' where d: "rng (length crockfordAlphabet) g = (Some d, g'')"
    using run by (auto split: prod.splits option.splits)
  then have m: "crockfordAlphabet ! d \<in> set crockfordAlphabet"
    using assms(1) by (auto simp: rng_bounded_def intro!: nth_mem)
  have "userCodeLoop rng (n + 4) (code @ [crockfordAlphabet ! d]) g'' = (Some c, g')"
    using run dash by (simp add: d)
  from Suc.IH [OF this] Suc.prems(2) obtain a b where
    "c = code @ [crockfordAlphabet ! d] @ a @ CHR ''-'' # b" "length a = n" "length b = 4"
    "set a \<subseteq> set crockfordAlphabet" "set b \<subseteq> set crockfordAlphabet" by auto
  then show ?case using m by (intro exI [of _ "crockfordAlphabet ! d # a"] exI [of _ b]) auto
qed

lemma newUserCode_canonical:
  "rng_bounded rng \<Longrightarrow> newUserCode rng g = (Some c, g') \<Longrightarrow> canonical_code c"
  using userCodeLoop_first [of rng 4 "[]" g c g']
  by (auto simp: newUserCode_def canonical_code_def userCodeLength_def)

subsection \<open>Typed codes\<close>

lemma crockford_checked:
  "\<forall>c\<in>set crockfordAlphabet.
     c \<notin> {CHR ''-'', CHR '' '', CHR ''_'', CHR ''O'', CHR ''I'', CHR ''L''} \<and>
     \<not> is_space c \<and> upper_char c = c \<and> upper_char (lower_char c) = c \<and> \<not> is_space (lower_char c)"
  by code_simp

lemmas crockford_chars = crockford_checked [rule_format]

lemma canonicalRunes_id: "set a \<subseteq> set crockfordAlphabet \<Longrightarrow> canonicalRunes a = Some a"
  by (induction a) (auto dest!: crockford_chars simp: Let_def)

lemma canonicalRunes_append:
  "canonicalRunes (a @ b) = (case canonicalRunes a of None \<Rightarrow> None
     | Some x \<Rightarrow> map_option ((@) x) (canonicalRunes b))"
proof (induction a)
  case Nil
  show ?case by (cases "canonicalRunes b") simp_all
next
  case (Cons r a)
  then show ?case by (cases "canonicalRunes a"; cases "canonicalRunes b") (simp_all add: Let_def)
qed

lemma canonicalRunes_set: "canonicalRunes a = Some c \<Longrightarrow> set c \<subseteq> set crockfordAlphabet"
  by (induction a arbitrary: c) (auto simp: Let_def split: if_splits)

lemma TrimSpace_id: "s = [] \<or> \<not> is_space (hd s) \<and> \<not> is_space (last s) \<Longrightarrow> TrimSpace s = s"
  unfolding TrimSpace_def TrimLeft_def TrimRight_def
  by (metis dropWhile_eq_self_iff hd_rev rev_is_Nil_conv rev_rev_ident)

lemma NormalizeUserCode_result: "NormalizeUserCode raw = [] \<or> canonical_code (NormalizeUserCode raw)"
proof (cases "canonicalRunes (ToUpper (TrimSpace raw))")
  case (Some c)
  have "set (take 4 c) \<subseteq> set crockfordAlphabet" "set (drop 4 c) \<subseteq> set crockfordAlphabet"
    using canonicalRunes_set [OF Some] by (meson order_trans set_take_subset set_drop_subset)+
  then have "canonical_code (take 4 c @ CHR ''-'' # drop 4 c)" if "length c = 8"
    unfolding canonical_code_def using that by (intro exI [of _ "take 4 c"] exI [of _ "drop 4 c"]) simp
  then show ?thesis
    by (simp add: NormalizeUserCode_def Some userCodeLength_def userCodeDashAt_def)
qed (simp add: NormalizeUserCode_def)

lemma NormalizeUserCode_spelling:
  assumes "canonical_code c" and "\<And>x. x \<in> set c \<Longrightarrow> f x = x \<or> f x = lower_char x"
  shows "NormalizeUserCode (map f c) = c"
proof -
  obtain a b where c: "c = a @ CHR ''-'' # b" "length a = 4" "length b = 4"
      "set a \<subseteq> set crockfordAlphabet" "set b \<subseteq> set crockfordAlphabet"
    using assms(1) unfolding canonical_code_def by blast
  have x: "upper_char (f x) = x \<and> \<not> is_space (f x)" if "x \<in> set a \<union> set b" for x
    using that c crockford_chars [of x] assms(2) [of x] by auto
  have d: "upper_char (f (CHR ''-'')) = CHR ''-''"
    using assms(2) [of "CHR ''-''"] c(1) by (auto simp: upper_char_def lower_char_def)
  have "TrimSpace (map f c) = map f c"
    using c x by (intro TrimSpace_id) (cases a; cases b rule: rev_cases; auto)
  moreover have "ToUpper (map f c) = c"
    using x d by (auto simp: ToUpper_def c(1) intro!: map_idI)
  moreover have "canonicalRunes c = Some (a @ b)"
    using c by (simp add: canonicalRunes_append canonicalRunes_id)
  ultimately show ?thesis
    using c by (simp add: NormalizeUserCode_def userCodeLength_def userCodeDashAt_def)
qed

text \<open>
  A code survives being shown and typed back: what \<open>newUserCode\<close> draws is accepted in any
  mixture of upper and lower case as the very same code, and what normalisation yields is
  either nothing or a canonical code that normalises to itself.
\<close>

theorem user_code_roundtrip:
  assumes "rng_bounded rng" and "newUserCode rng g = (Some code, g')"
    and "\<forall>x\<in>set code. f x = x \<or> f x = lower_char x"
  shows "NormalizeUserCode (map f code) = code \<and>
    NormalizeUserCode (NormalizeUserCode raw) = NormalizeUserCode raw"
proof
  show "NormalizeUserCode (map f code) = code"
    using newUserCode_canonical [OF assms(1,2)] assms(3) by (intro NormalizeUserCode_spelling) auto
  show "NormalizeUserCode (NormalizeUserCode raw) = NormalizeUserCode raw"
    using NormalizeUserCode_result [of raw] NormalizeUserCode_spelling [of "NormalizeUserCode raw" id]
    by (auto simp: NormalizeUserCode_def [of "[]"] TrimSpace_def TrimLeft_def TrimRight_def ToUpper_def
        userCodeLength_def)
qed

theorem user_code_roundtrip_witness:
  "newUserCode (\<lambda>limit g. if limit = 0 then (None, g) else (Some (g mod limit), g + 7)) 0 = (Some ''07EN-W3AH'', 56) \<and>
   NormalizeUserCode (map lower_char ''07EN-W3AH'') = ''07EN-W3AH'' \<and>
   NormalizeUserCode (NormalizeUserCode '' o7en w3ah'') = ''07EN-W3AH''"
proof -
  let ?rng = "\<lambda>limit g. if limit = 0 then (None, g) else (Some (g mod limit), g + 7 :: nat)"
  have b: "rng_bounded ?rng" by (auto simp: rng_bounded_def split: if_splits)
  have d: "newUserCode ?rng 0 = (Some ''07EN-W3AH'', 56)"
    by code_simp
  have n: "NormalizeUserCode '' o7en w3ah'' = ''07EN-W3AH''" by code_simp
  show ?thesis
    using user_code_roundtrip [OF b d, of lower_char "'' o7en w3ah''"] d n by simp
qed

end
