(* ===== verification/Device_Login.thy ===== *)
theory Device_Login
  imports Store_Interfaces Indexed_Store Random_Code
begin

text \<open>
  The store of device authorization requests, \<open>DeviceLoginStore\<close> of
  \<open>backend/component/state/device_login.go\<close>. The two maps point at the same objects
  (\<open>Indexed_Store\<close>): the owning map is \<open>byDeviceCode\<close>, the second one \<open>byUserCode\<close>. Methods
  hold the mutex, so each is one step; they return a copy of the request and an error.
\<close>

subsection \<open>Requests and the store\<close>

definition DeviceLoginTTL :: duration where
  "DeviceLoginTTL = 10 * minute"

definition DeviceLoginMinPollInterval :: duration where
  "DeviceLoginMinPollInterval = 1 * second"

definition deviceLoginCapacity :: nat where
  "deviceLoginCapacity = 10000"

datatype DeviceLoginState = DeviceLoginPending | DeviceLoginApproved | DeviceLoginDenied | DeviceLoginExpired

datatype deviceLoginError = ErrDeviceLoginCodesMissing | ErrDeviceLoginNotFound | ErrDeviceLoginCodeTaken
  | ErrDeviceLoginExpired | ErrDeviceLoginNotPending | ErrDeviceLoginSlowDown | ErrRandomSource

record DeviceLogin =
  dl_DeviceCode :: string
  dl_UserCode :: string
  dl_State :: DeviceLoginState
  dl_ClientName :: string
  dl_ClientVersion :: string
  dl_RequestIP :: string
  dl_RequestUserAgent :: string
  dl_CreateTime :: time
  dl_ExpireTime :: time
  dl_ApprovedByUserID :: int
  dl_lastPollAt :: time

definition zero_login :: DeviceLogin where
  "zero_login = \<lparr>dl_DeviceCode = [], dl_UserCode = [], dl_State = DeviceLoginPending, dl_ClientName = [],
     dl_ClientVersion = [], dl_RequestIP = [], dl_RequestUserAgent = [], dl_CreateTime = zero_time,
     dl_ExpireTime = zero_time, dl_ApprovedByUserID = 0, dl_lastPollAt = zero_time\<rparr>"

type_synonym DeviceLoginStore = "DeviceLogin indexed"
type_synonym dl_result = "DeviceLogin \<times> deviceLoginError option"

abbreviation byDeviceCode :: "DeviceLoginStore \<Rightarrow> (string, addr) gomap" where
  "byDeviceCode \<equiv> ix_primary"

abbreviation byUserCode :: "DeviceLoginStore \<Rightarrow> (string, addr) gomap" where
  "byUserCode \<equiv> ix_secondary"

definition newDeviceLoginStore :: DeviceLoginStore where
  "newDeviceLoginStore = ix_new zero_login"

subsection \<open>Operations\<close>

definition dl_removeLocked :: "addr \<Rightarrow> DeviceLoginStore \<Rightarrow> DeviceLoginStore" where
  "dl_removeLocked p s =
     s\<lparr>ix_secondary := gm_del (dl_UserCode (ix_heap s p)) (byUserCode s),
       ix_primary := gm_del (dl_DeviceCode (ix_heap s p)) (byDeviceCode s)\<rparr>"

definition dl_expireLocked :: "addr \<Rightarrow> time \<Rightarrow> DeviceLoginStore \<Rightarrow> bool \<times> DeviceLoginStore" where
  "dl_expireLocked p now s =
     (if time_Before now (dl_ExpireTime (ix_heap s p)) then (False, s)
      else (True, dl_removeLocked p (ix_set p ((ix_heap s p)\<lparr>dl_State := DeviceLoginExpired\<rparr>) s)))"

definition dl_pruneLocked :: "(string, addr) ranging \<Rightarrow> time \<Rightarrow> DeviceLoginStore \<Rightarrow> DeviceLoginStore" where
  "dl_pruneLocked r now s =
     (let s1 = sweep dl_removeLocked (\<lambda>login. \<not> time_Before now (dl_ExpireTime login)) r s in
      if length (byDeviceCode s1) < deviceLoginCapacity then s1
      else case earliest (\<lambda>p. dl_CreateTime (ix_heap s1 p)) (map snd (r (byDeviceCode s1))) of
        None \<Rightarrow> s1
      | Some p \<Rightarrow> dl_removeLocked p s1)"

definition dl_Create ::
    "(string, addr) ranging \<Rightarrow> DeviceLogin \<Rightarrow> time \<Rightarrow> DeviceLoginStore \<Rightarrow> dl_result \<times> DeviceLoginStore" where
  "dl_Create r login now s =
     (if dl_DeviceCode login = [] \<or> dl_UserCode login = [] then ((zero_login, Some ErrDeviceLoginCodesMissing), s)
      else if gm_get (byUserCode s) (dl_UserCode login) \<noteq> None then ((zero_login, Some ErrDeviceLoginCodeTaken), s)
      else if gm_get (byDeviceCode s) (dl_DeviceCode login) \<noteq> None then ((zero_login, Some ErrDeviceLoginCodeTaken), s)
      else
        let s1 = dl_pruneLocked r now s;
            login1 = login\<lparr>dl_State := DeviceLoginPending, dl_CreateTime := now,
              dl_ExpireTime := now + DeviceLoginTTL, dl_ApprovedByUserID := 0, dl_lastPollAt := zero_time\<rparr>;
            (stored, s2) = ix_alloc login1 s1;
            s3 = s2\<lparr>ix_secondary := gm_put (dl_UserCode login1) stored (byUserCode s2)\<rparr>;
            s4 = s3\<lparr>ix_primary := gm_put (dl_DeviceCode login1) stored (byDeviceCode s3)\<rparr>
        in ((ix_heap s4 stored, None), s4))"

text \<open>The loop of \<open>NewDeviceLogin\<close> with \<open>n\<close> attempts left.\<close>

fun newDeviceLoginLoop ::
    "'g rng \<Rightarrow> (string, addr) ranging \<Rightarrow> nat \<Rightarrow> DeviceLogin \<Rightarrow> time \<Rightarrow> 'g \<Rightarrow> DeviceLoginStore
      \<Rightarrow> dl_result \<times> 'g \<times> DeviceLoginStore" where
  "newDeviceLoginLoop rng r 0 login now g s = ((zero_login, Some ErrDeviceLoginCodeTaken), g, s)"
| "newDeviceLoginLoop rng r (Suc n) login now g s =
     (case randomCode rng deviceLoginAlphabet deviceCodeLength g of
        (None, g1) \<Rightarrow> ((zero_login, Some ErrRandomSource), g1, s)
      | (Some deviceCode, g1) \<Rightarrow>
          (case newUserCode rng g1 of
             (None, g2) \<Rightarrow> ((zero_login, Some ErrRandomSource), g2, s)
           | (Some userCode, g2) \<Rightarrow>
               let login' = login\<lparr>dl_DeviceCode := deviceCode, dl_UserCode := userCode\<rparr>
               in case dl_Create r login' now s of
                    ((created, None), s') \<Rightarrow> ((created, None), g2, s')
                  | ((_, Some err), s') \<Rightarrow>
                      if err \<noteq> ErrDeviceLoginCodeTaken then ((zero_login, Some err), g2, s')
                      else newDeviceLoginLoop rng r n login' now g2 s'))"

definition NewDeviceLogin ::
    "'g rng \<Rightarrow> (string, addr) ranging \<Rightarrow> DeviceLogin \<Rightarrow> time \<Rightarrow> 'g \<Rightarrow> DeviceLoginStore
      \<Rightarrow> dl_result \<times> 'g \<times> DeviceLoginStore" where
  "NewDeviceLogin rng r login now g s = newDeviceLoginLoop rng r codeAttempts login now g s"

definition GetByUserCode :: "string \<Rightarrow> time \<Rightarrow> DeviceLoginStore \<Rightarrow> dl_result \<times> DeviceLoginStore" where
  "GetByUserCode userCode now s =
     (case gm_get (byUserCode s) userCode of
        None \<Rightarrow> ((zero_login, Some ErrDeviceLoginNotFound), s)
      | Some login \<Rightarrow> let s' = snd (dl_expireLocked login now s) in ((ix_heap s' login, None), s'))"

definition dl_Approve ::
    "string \<Rightarrow> int \<Rightarrow> bool \<Rightarrow> time \<Rightarrow> DeviceLoginStore \<Rightarrow> dl_result \<times> DeviceLoginStore" where
  "dl_Approve userCode approverUserID approve now s =
     (case gm_get (byUserCode s) userCode of
        None \<Rightarrow> ((zero_login, Some ErrDeviceLoginNotFound), s)
      | Some login \<Rightarrow>
          (case dl_expireLocked login now s of
             (True, s') \<Rightarrow> ((ix_heap s' login, Some ErrDeviceLoginExpired), s')
           | (False, s') \<Rightarrow>
               if dl_State (ix_heap s' login) \<noteq> DeviceLoginPending
               then ((ix_heap s' login, Some ErrDeviceLoginNotPending), s')
               else
                 let login' = (if approve
                       then (ix_heap s' login)\<lparr>dl_State := DeviceLoginApproved, dl_ApprovedByUserID := approverUserID\<rparr>
                       else (ix_heap s' login)\<lparr>dl_State := DeviceLoginDenied\<rparr>);
                     s'' = ix_set login login' s'
                 in ((ix_heap s'' login, None), s'')))"

definition dl_Exchange :: "string \<Rightarrow> time \<Rightarrow> DeviceLoginStore \<Rightarrow> dl_result \<times> DeviceLoginStore" where
  "dl_Exchange deviceCode now s =
     (case gm_get (byDeviceCode s) deviceCode of
        None \<Rightarrow> ((zero_login, Some ErrDeviceLoginNotFound), s)
      | Some login \<Rightarrow>
          (case dl_expireLocked login now s of
             (True, s') \<Rightarrow> ((ix_heap s' login, None), s')
           | (False, s') \<Rightarrow>
               let held = ix_heap s' login in
               if dl_State held = DeviceLoginPending \<and> \<not> IsZero (dl_lastPollAt held) \<and>
                  time_Sub now (dl_lastPollAt held) < DeviceLoginMinPollInterval
               then ((held, Some ErrDeviceLoginSlowDown), s')
               else
                 let s'' = ix_set login (held\<lparr>dl_lastPollAt := now\<rparr>) s' in
                 case dl_State held of
                   DeviceLoginApproved \<Rightarrow> ((ix_heap s'' login, None), dl_removeLocked login s'')
                 | DeviceLoginDenied \<Rightarrow> ((ix_heap s'' login, None), dl_removeLocked login s'')
                 | DeviceLoginPending \<Rightarrow> ((ix_heap s'' login, None), s'')
                 | DeviceLoginExpired \<Rightarrow> ((ix_heap s'' login, None), s'')))"

interpretation dl: index_keys dl_DeviceCode "\<lambda>login. Some (dl_UserCode login)" dl_removeLocked
  by unfold_locales (simp add: dl_removeLocked_def)

lemma prune_eq:
  "dl_pruneLocked r now =
     dl.pruned (\<lambda>login. \<not> time_Before now (dl_ExpireTime login)) dl_CreateTime deviceLoginCapacity r"
  by (rule ext) (simp add: dl_pruneLocked_def dl.pruned_def Let_def)

subsection \<open>The contract: a map from device codes to requests\<close>

text \<open>The request a user code refers to, in the abstract store.\<close>

definition spec_by_user :: "(string \<Rightarrow> DeviceLogin option) \<Rightarrow> string \<Rightarrow> DeviceLogin option" where
  "spec_by_user m uc =
     (if \<exists>k r. m k = Some r \<and> dl_UserCode r = uc
      then Some (THE r. \<exists>k. m k = Some r \<and> dl_UserCode r = uc) else None)"

definition spec_Get :: "string \<Rightarrow> time \<Rightarrow> (string \<Rightarrow> DeviceLogin option) \<Rightarrow> dl_result \<times> (string \<Rightarrow> DeviceLogin option)" where
  "spec_Get uc now m =
     (case spec_by_user m uc of
        None \<Rightarrow> ((zero_login, Some ErrDeviceLoginNotFound), m)
      | Some r \<Rightarrow>
          if now < dl_ExpireTime r then ((r, None), m)
          else ((r\<lparr>dl_State := DeviceLoginExpired\<rparr>, None), m(dl_DeviceCode r := None)))"

definition decided :: "int \<Rightarrow> bool \<Rightarrow> DeviceLogin \<Rightarrow> DeviceLogin" where
  "decided user approve r =
     (if approve then r\<lparr>dl_State := DeviceLoginApproved, dl_ApprovedByUserID := user\<rparr>
      else r\<lparr>dl_State := DeviceLoginDenied\<rparr>)"

definition spec_Approve :: "string \<Rightarrow> int \<Rightarrow> bool \<Rightarrow> time \<Rightarrow> (string \<Rightarrow> DeviceLogin option)
    \<Rightarrow> dl_result \<times> (string \<Rightarrow> DeviceLogin option)" where
  "spec_Approve uc user approve now m =
     (case spec_by_user m uc of
        None \<Rightarrow> ((zero_login, Some ErrDeviceLoginNotFound), m)
      | Some r \<Rightarrow>
          if \<not> now < dl_ExpireTime r
          then ((r\<lparr>dl_State := DeviceLoginExpired\<rparr>, Some ErrDeviceLoginExpired), m(dl_DeviceCode r := None))
          else if dl_State r \<noteq> DeviceLoginPending then ((r, Some ErrDeviceLoginNotPending), m)
          else ((decided user approve r, None), m(dl_DeviceCode r \<mapsto> decided user approve r)))"

definition spec_Exchange :: "string \<Rightarrow> time \<Rightarrow> (string \<Rightarrow> DeviceLogin option)
    \<Rightarrow> dl_result \<times> (string \<Rightarrow> DeviceLogin option)" where
  "spec_Exchange dc now m =
     (case m dc of
        None \<Rightarrow> ((zero_login, Some ErrDeviceLoginNotFound), m)
      | Some r \<Rightarrow>
          let polled = r\<lparr>dl_lastPollAt := now\<rparr> in
          if \<not> now < dl_ExpireTime r then ((r\<lparr>dl_State := DeviceLoginExpired\<rparr>, None), m(dc := None))
          else if dl_State r = DeviceLoginPending \<and> dl_lastPollAt r \<noteq> 0 \<and> now < dl_lastPollAt r + second
          then ((r, Some ErrDeviceLoginSlowDown), m)
          else if dl_State r = DeviceLoginApproved \<or> dl_State r = DeviceLoginDenied
          then ((polled, None), m(dc := None))
          else ((polled, None), m(dc \<mapsto> polled)))"

lemma spec_by_user_eq:
  assumes "dl.ix_ok s"
  shows "spec_by_user (ix_view s) uc = map_option (ix_heap s) (gm_get (byUserCode s) uc)"
proof (cases "gm_get (byUserCode s) uc")
  case None
  then show ?thesis
    using dl.view_of_secondary [OF assms, of uc] dl.view_key1 [OF assms] by (fastforce simp: spec_by_user_def)
next
  case (Some p)
  have found: "ix_view s (dl_DeviceCode (ix_heap s p)) = Some (ix_heap s p)" "dl_UserCode (ix_heap s p) = uc"
    using dl.view_of_secondary [OF assms, of uc "ix_heap s p"] Some by auto
  have uniq: "r = ix_heap s p" if "ix_view s k = Some r" "dl_UserCode r = uc" for k r
    using dl.view_of_secondary [OF assms, of uc r] dl.view_key1 [OF assms that(1)] that Some by auto
  have "(THE r. \<exists>k. ix_view s k = Some r \<and> dl_UserCode r = uc) = ix_heap s p"
    by (rule the_equality) (use found uniq in blast)+
  moreover have "\<exists>k r. ix_view s k = Some r \<and> dl_UserCode r = uc" using found by blast
  ultimately show ?thesis using Some by (simp add: spec_by_user_def)
qed

lemma expire_spec:
  assumes "dl.ix_ok s" and "dl.stored p s"
  shows "now < dl_ExpireTime (ix_heap s p) \<Longrightarrow> dl_expireLocked p now s = (False, s)"
    and "\<not> now < dl_ExpireTime (ix_heap s p) \<Longrightarrow>
      \<exists>s'. dl_expireLocked p now s = (True, s') \<and> dl.ix_ok s' \<and>
        ix_heap s' p = (ix_heap s p)\<lparr>dl_State := DeviceLoginExpired\<rparr> \<and>
        ix_view s' = (ix_view s)(dl_DeviceCode (ix_heap s p) := None) \<and>
        length (byDeviceCode s') \<le> length (byDeviceCode s)"
proof -
  show "now < dl_ExpireTime (ix_heap s p) \<Longrightarrow> dl_expireLocked p now s = (False, s)"
    by (simp add: dl_expireLocked_def time_Before_def)
  let ?r = "(ix_heap s p)\<lparr>dl_State := DeviceLoginExpired\<rparr>" and ?s = "ix_set p ((ix_heap s p)\<lparr>dl_State := DeviceLoginExpired\<rparr>) s"
  assume e: "\<not> now < dl_ExpireTime (ix_heap s p)"
  have ok: "dl.ix_ok ?s" "ix_view ?s = (ix_view s)(dl_DeviceCode ?r \<mapsto> ?r)"
    by (rule dl.set_ok [OF assms]; simp)+
  have st: "dl.stored p ?s" using assms(2) by (simp add: dl.stored_def)
  show "\<exists>s'. dl_expireLocked p now s = (True, s') \<and> dl.ix_ok s' \<and> ix_heap s' p = ?r \<and>
        ix_view s' = (ix_view s)(dl_DeviceCode (ix_heap s p) := None) \<and>
        length (byDeviceCode s') \<le> length (byDeviceCode s)"
  proof (intro exI [of _ "dl_removeLocked p ?s"] conjI)
    show "dl_expireLocked p now s = (True, dl_removeLocked p ?s)"
      using e by (simp add: dl_expireLocked_def time_Before_def)
    show "dl.ix_ok (dl_removeLocked p ?s)" by (rule dl.remove_ok(1) [OF ok(1) st])
    show "ix_heap (dl_removeLocked p ?s) p = ?r" by simp
    show "ix_view (dl_removeLocked p ?s) = (ix_view s)(dl_DeviceCode (ix_heap s p) := None)"
      unfolding dl.remove_ok(2) [OF ok(1) st] ok(2) by simp
    show "length (byDeviceCode (dl_removeLocked p ?s)) \<le> length (byDeviceCode s)"
      by (simp add: dl_removeLocked_def length_gm_del_le)
  qed
qed

lemma poll_throttle: "time_Sub now t < DeviceLoginMinPollInterval \<longleftrightarrow> now < t + second"
  unfolding DeviceLoginMinPollInterval_def by (subst time_Sub_lt) (simp_all add: duration_defs)

text \<open>Every operation refines its specification and keeps the two maps consistent.\<close>

lemma Get_refines:
  assumes "dl.ix_ok s"
  shows "case GetByUserCode uc now s of (res, s') \<Rightarrow> (res, ix_view s') = spec_Get uc now (ix_view s) \<and>
    dl.ix_ok s' \<and> length (byDeviceCode s') \<le> length (byDeviceCode s)"
proof (cases "gm_get (byUserCode s) uc")
  case None
  then show ?thesis using assms by (simp add: GetByUserCode_def spec_Get_def spec_by_user_eq)
next
  case (Some p)
  note st = dl.ix_okD(7) [OF assms Some]
  show ?thesis
    using expire_spec [OF assms st, of now] assms
    by (cases "now < dl_ExpireTime (ix_heap s p)")
      (auto simp: GetByUserCode_def spec_Get_def spec_by_user_eq Some Let_def)
qed

lemma Approve_refines:
  assumes "dl.ix_ok s"
  shows "case dl_Approve uc user approve now s of (res, s') \<Rightarrow>
    (res, ix_view s') = spec_Approve uc user approve now (ix_view s) \<and>
    dl.ix_ok s' \<and> length (byDeviceCode s') \<le> length (byDeviceCode s)"
proof (cases "gm_get (byUserCode s) uc")
  case None
  then show ?thesis using assms by (simp add: dl_Approve_def spec_Approve_def spec_by_user_eq)
next
  case (Some p)
  note st = dl.ix_okD(7) [OF assms Some]
  let ?r = "decided user approve (ix_heap s p)"
  have set: "dl.ix_ok (ix_set p ?r s)" "ix_view (ix_set p ?r s) = (ix_view s)(dl_DeviceCode ?r \<mapsto> ?r)"
    by (rule dl.set_ok [OF assms st]; simp add: decided_def)+
  have dc: "dl_DeviceCode ?r = dl_DeviceCode (ix_heap s p)" by (simp add: decided_def)
  show ?thesis
  proof (cases "now < dl_ExpireTime (ix_heap s p)")
    case True
    have eq: "dl_Approve uc user approve now s =
        (if dl_State (ix_heap s p) \<noteq> DeviceLoginPending then ((ix_heap s p, Some ErrDeviceLoginNotPending), s)
         else ((?r, None), ix_set p ?r s))"
      using expire_spec(1) [OF assms st True] by (simp add: dl_Approve_def Some Let_def decided_def)
    show ?thesis
      unfolding eq using True set dc assms by (simp add: spec_Approve_def spec_by_user_eq Some)
  next
    case False
    then show ?thesis
      using expire_spec(2) [OF assms st False] assms
      by (auto simp: dl_Approve_def spec_Approve_def spec_by_user_eq Some)
  qed
qed

lemma Exchange_refines:
  assumes "dl.ix_ok s"
  shows "case dl_Exchange dc now s of (res, s') \<Rightarrow>
    (res, ix_view s') = spec_Exchange dc now (ix_view s) \<and>
    dl.ix_ok s' \<and> length (byDeviceCode s') \<le> length (byDeviceCode s)"
proof (cases "gm_get (byDeviceCode s) dc")
  case None
  then show ?thesis using assms by (simp add: dl_Exchange_def spec_Exchange_def ix_view_def)
next
  case (Some p)
  note st = dl.ix_okD(8) [OF assms Some] and dc = dl.ix_okD(4) [OF assms Some] and v = dl.view_primary [OF Some]
  let ?r = "(ix_heap s p)\<lparr>dl_lastPollAt := now\<rparr>"
  have set: "dl.ix_ok (ix_set p ?r s)" "ix_view (ix_set p ?r s) = (ix_view s)(dl_DeviceCode ?r \<mapsto> ?r)"
    by (rule dl.set_ok [OF assms st]; simp)+
  have st': "dl.stored p (ix_set p ?r s)" using st by (simp add: dl.stored_def)
  note rm = dl.remove_ok [OF set(1) st']
  have len: "length (byDeviceCode (dl_removeLocked p (ix_set p ?r s))) \<le> length (byDeviceCode s)"
    by (simp add: dl_removeLocked_def length_gm_del_le)
  show ?thesis
  proof (cases "now < dl_ExpireTime (ix_heap s p)")
    case True
    let ?slow = "dl_State (ix_heap s p) = DeviceLoginPending \<and> dl_lastPollAt (ix_heap s p) \<noteq> 0 \<and>
      now < dl_lastPollAt (ix_heap s p) + second"
    have eq: "dl_Exchange dc now s =
        (if ?slow then ((ix_heap s p, Some ErrDeviceLoginSlowDown), s)
         else if dl_State (ix_heap s p) = DeviceLoginApproved \<or> dl_State (ix_heap s p) = DeviceLoginDenied
         then ((?r, None), dl_removeLocked p (ix_set p ?r s))
         else ((?r, None), ix_set p ?r s))"
      using expire_spec(1) [OF assms st True]
      by (auto simp: dl_Exchange_def Some Let_def poll_throttle IsZero_def zero_time_def split: DeviceLoginState.splits)
    show ?thesis
      unfolding eq using True set rm len dc v assms by (simp add: spec_Exchange_def Let_def)
  next
    case False
    then show ?thesis
      using expire_spec(2) [OF assms st False] dc v
      by (auto simp: dl_Exchange_def spec_Exchange_def Some Let_def)
  qed
qed

lemma view_after:
  assumes "dl.ix_ok s"
  shows "ix_view (snd (GetByUserCode uc now s)) = snd (spec_Get uc now (ix_view s))"
    and "ix_view (snd (dl_Approve uc user approve now s)) = snd (spec_Approve uc user approve now (ix_view s))"
    and "ix_view (snd (dl_Exchange dc now s)) = snd (spec_Exchange dc now (ix_view s))"
    and "fst (dl_Exchange dc now s) = fst (spec_Exchange dc now (ix_view s))"
  using Get_refines [OF assms, of uc now] Approve_refines [OF assms, of uc user approve now]
    Exchange_refines [OF assms, of dc now]
  unfolding case_prod_beta by (metis fst_conv snd_conv)+

text \<open>
  Each operation behaves as its specification on the abstract map from device codes to
  requests, whatever the aliasing of the two maps: in a well-formed store the answer is the
  specified one, the new abstract map is the specified one, and the store stays well formed.
\<close>

theorem device_store_refines:
  assumes "dl.ix_ok s"
  shows "(case GetByUserCode uc now s of (res, s') \<Rightarrow>
      (res, ix_view s') = spec_Get uc now (ix_view s) \<and> dl.ix_ok s') \<and>
    (case dl_Approve uc user approve now s of (res, s') \<Rightarrow>
      (res, ix_view s') = spec_Approve uc user approve now (ix_view s) \<and> dl.ix_ok s') \<and>
    (case dl_Exchange dc now s of (res, s') \<Rightarrow>
      (res, ix_view s') = spec_Exchange dc now (ix_view s) \<and> dl.ix_ok s')"
  using Get_refines [OF assms, of uc now] Approve_refines [OF assms, of uc user approve now]
    Exchange_refines [OF assms, of dc now]
  by (auto split: prod.splits)

text \<open>What \<open>Create\<close> stores.\<close>

definition fresh_login :: "DeviceLogin \<Rightarrow> time \<Rightarrow> DeviceLogin" where
  "fresh_login login now = login\<lparr>dl_State := DeviceLoginPending, dl_CreateTime := now,
     dl_ExpireTime := now + DeviceLoginTTL, dl_ApprovedByUserID := 0, dl_lastPollAt := zero_time\<rparr>"

lemma fresh_login_simps [simp]:
  "dl_DeviceCode (fresh_login l now) = dl_DeviceCode l" "dl_UserCode (fresh_login l now) = dl_UserCode l"
  "dl_State (fresh_login l now) = DeviceLoginPending" "dl_CreateTime (fresh_login l now) = now"
  "dl_ExpireTime (fresh_login l now) = now + DeviceLoginTTL" "dl_lastPollAt (fresh_login l now) = 0"
  by (simp_all add: fresh_login_def zero_time_def)

definition dl_room :: "DeviceLoginStore \<Rightarrow> bool" where
  "dl_room s \<longleftrightarrow> dl.ix_ok s \<and> length (byDeviceCode s) \<le> deviceLoginCapacity"

lemma capacity_pos [simp]: "0 < deviceLoginCapacity"
  by (simp add: deviceLoginCapacity_def)

lemma Create_refused:
  "snd (fst (dl_Create r login now s)) \<noteq> None \<Longrightarrow> snd (dl_Create r login now s) = s"
  by (auto simp: dl_Create_def ix_alloc_def Let_def split: if_splits)

lemma Create_accepted:
  assumes "dl.ix_ok s" and "fair_range r" and "length (byDeviceCode s) \<le> deviceLoginCapacity"
    and "dl_Create r login now s = ((res, None), s')"
  shows "dl.ix_ok s' \<and> length (byDeviceCode s') \<le> deviceLoginCapacity \<and> res = fresh_login login now \<and>
    dl_DeviceCode login \<noteq> [] \<and> dl_UserCode login \<noteq> [] \<and>
    ix_view s (dl_DeviceCode login) = None \<and> gm_get (byUserCode s) (dl_UserCode login) = None \<and>
    ix_view s' = (ix_view (dl_pruneLocked r now s))(dl_DeviceCode login \<mapsto> res)"
proof -
  let ?s1 = "dl_pruneLocked r now s" and ?l = "fresh_login login now"
  have guards: "dl_DeviceCode login \<noteq> []" "dl_UserCode login \<noteq> []"
    "gm_get (byUserCode s) (dl_UserCode login) = None" "gm_get (byDeviceCode s) (dl_DeviceCode login) = None"
    using assms(4) by (auto simp: dl_Create_def split: if_splits)
  have swap: "t\<lparr>ix_secondary := x, ix_primary := y\<rparr> = t\<lparr>ix_primary := y, ix_secondary := x\<rparr>" for t :: DeviceLoginStore and x y
    by (rule indexed.equality) simp_all
  have "dl_Create r login now s = ((?l, None), dl.ix_insert ?l ?s1)"
    using guards
    by (simp add: dl_Create_def dl.ix_insert_def fresh_login_def Let_def ix_alloc_def ix_set_def swap)
  then have "((res, None), s') = ((?l, None), dl.ix_insert ?l ?s1)" using assms(4) by simp
  then have res: "res = ?l" and s': "s' = dl.ix_insert ?l ?s1" by simp_all
  have ok1: "dl.ix_ok ?s1" unfolding prune_eq by (rule dl.pruned_ok [OF assms(1,2) capacity_pos])
  have sub: "ix_view s k = Some x" if "ix_view ?s1 k = Some x" for k x
    using dl.pruned_view(1) [OF assms(1,2) capacity_pos] that unfolding prune_eq by blast
  have v1: "ix_view ?s1 (dl_DeviceCode login) = None"
    using sub [of "dl_DeviceCode login"] guards(4) by (cases "ix_view ?s1 (dl_DeviceCode login)") (auto simp: ix_view_def)
  have u1: "gm_get (byUserCode ?s1) (dl_UserCode login) = None"
  proof (rule ccontr)
    assume "gm_get (byUserCode ?s1) (dl_UserCode login) \<noteq> None"
    then obtain p where "gm_get (byUserCode ?s1) (dl_UserCode login) = Some p" by auto
    then have v: "ix_view ?s1 (dl_DeviceCode (ix_heap ?s1 p)) = Some (ix_heap ?s1 p)"
        "dl_UserCode (ix_heap ?s1 p) = dl_UserCode login"
      using dl.view_of_secondary [OF ok1, of "dl_UserCode login" "ix_heap ?s1 p"] by auto
    show False
      using dl.view_of_secondary [OF assms(1), of "dl_UserCode login" "ix_heap ?s1 p"] sub [OF v(1)] v(2) guards(3)
      by auto
  qed
  have ins: "dl.ix_ok (dl.ix_insert ?l ?s1)" "ix_view (dl.ix_insert ?l ?s1) = (ix_view ?s1)(dl_DeviceCode ?l \<mapsto> ?l)"
    by (rule dl.insert_ok [OF ok1]; use v1 u1 in simp)+
  have "length (byDeviceCode ?s1) < deviceLoginCapacity"
    unfolding prune_eq by (rule dl.pruned_room [OF assms(1,2) capacity_pos assms(3)])
  then have "length (byDeviceCode s') \<le> deviceLoginCapacity"
    by (simp add: s' dl.ix_insert_def ix_alloc_def length_gm_put)
  then show ?thesis
    using ins guards by (simp add: s' res ix_view_def)
qed

subsection \<open>Runs\<close>

datatype dl_op =
    DLCreate "(string, addr) ranging" DeviceLogin time
  | DLGet string time
  | DLApprove string int bool time
  | DLExchange string time

fun dl_step :: "DeviceLoginStore \<Rightarrow> dl_op \<Rightarrow> DeviceLoginStore" where
  "dl_step s (DLCreate r login now) = snd (dl_Create r login now s)"
| "dl_step s (DLGet uc now) = snd (GetByUserCode uc now s)"
| "dl_step s (DLApprove uc user approve now) = snd (dl_Approve uc user approve now s)"
| "dl_step s (DLExchange dc now) = snd (dl_Exchange dc now s)"

fun dl_fair :: "dl_op \<Rightarrow> bool" where
  "dl_fair (DLCreate r login now) = fair_range r"
| "dl_fair _ = True"

text \<open>A poll that hands out the approval, and a request accepted.\<close>

fun dl_grants :: "DeviceLoginStore \<Rightarrow> dl_op \<Rightarrow> string option" where
  "dl_grants s (DLExchange dc now) =
     (case fst (dl_Exchange dc now s) of (login, err) \<Rightarrow>
        if err = None \<and> dl_State login = DeviceLoginApproved then Some dc else None)"
| "dl_grants s _ = None"

fun dl_creates :: "DeviceLoginStore \<Rightarrow> dl_op \<Rightarrow> string option" where
  "dl_creates s (DLCreate r login now) =
     (if snd (fst (dl_Create r login now s)) = None then Some (dl_DeviceCode login) else None)"
| "dl_creates s _ = None"

lemma spec_Get_view: "snd (spec_Get uc now m) k = Some r \<Longrightarrow> m k = Some r"
  by (auto simp: spec_Get_def split: option.splits if_splits)

lemma dl_room_step:
  assumes "dl_room s" and "dl_fair op"
  shows "dl_room (dl_step s op)"
proof (cases op)
  case (DLCreate r login now)
  obtain res err s' where C: "dl_Create r login now s = ((res, err), s')" by (metis prod.collapse)
  show ?thesis
    using Create_refused [of r login now s] Create_accepted [of s r login now res s'] assms DLCreate C
    by (cases err) (auto simp: dl_room_def)
next
  case (DLGet uc now)
  then show ?thesis using Get_refines [of s uc now] assms by (auto simp: dl_room_def split: prod.splits)
next
  case (DLApprove uc user approve now)
  then show ?thesis using Approve_refines [of s uc user approve now] assms by (auto simp: dl_room_def split: prod.splits)
next
  case (DLExchange dc now)
  then show ?thesis using Exchange_refines [of s dc now] assms by (auto simp: dl_room_def split: prod.splits)
qed

interpretation dl_pool: bounded_pool dl_step dl_fair dl_room
  "\<lambda>s. length (byDeviceCode s)" "\<lambda>_. deviceLoginCapacity"
proof
  fix s op assume "dl_room s" "dl_fair op"
  then show "dl_room (dl_step s op)" by (rule dl_room_step)
  then show "length (byDeviceCode (dl_step s op)) \<le> deviceLoginCapacity" by (simp add: dl_room_def)
qed simp

definition dl_live :: "DeviceLoginStore \<Rightarrow> string set" where
  "dl_live s = {k. ix_view s k \<noteq> None}"

lemma spec_Exchange_grant:
  assumes "spec_Exchange dc now m = ((login, None), m')" and "dl_State login = DeviceLoginApproved"
  shows "\<exists>r. m dc = Some r \<and> dl_State r = DeviceLoginApproved \<and> now < dl_ExpireTime r \<and>
    login = r\<lparr>dl_lastPollAt := now\<rparr> \<and> m' = m(dc := None)"
  using assms by (auto simp: spec_Exchange_def Let_def split: option.splits if_splits)

lemma dl_grant:
  assumes "dl_room s" and "dl_grants s op = Some dc"
  shows "\<exists>now r login. op = DLExchange dc now \<and> ix_view s dc = Some r \<and> dl_State r = DeviceLoginApproved \<and>
    now < dl_ExpireTime r \<and> ix_view (dl_step s op) = (ix_view s)(dc := None)"
proof -
  have ok: "dl.ix_ok s" using assms(1) by (simp add: dl_room_def)
  obtain now login where op: "op = DLExchange dc now"
      and ex: "fst (dl_Exchange dc now s) = (login, None)" "dl_State login = DeviceLoginApproved"
    using assms(2) by (cases op) (auto split: prod.splits if_splits)
  have "spec_Exchange dc now (ix_view s) = ((login, None), ix_view (snd (dl_Exchange dc now s)))"
    using view_after(3,4) [OF ok, of dc now] ex(1) by (metis prod.collapse)
  from spec_Exchange_grant [OF this ex(2)] show ?thesis using op by auto
qed

text \<open>How an operation changes the abstract store: what it may leave behind under a device code.\<close>

inductive changes :: "dl_op \<Rightarrow> (string \<Rightarrow> DeviceLogin option) \<Rightarrow> string \<Rightarrow> DeviceLogin \<Rightarrow> bool" for op m k where
  kept: "m k = Some r \<Longrightarrow> changes op m k r"
| born: "op = DLCreate rng login now \<Longrightarrow> dl_DeviceCode login = k \<Longrightarrow> m k = None \<Longrightarrow> changes op m k (fresh_login login now)"
| judged: "op = DLApprove (dl_UserCode r) user approve now \<Longrightarrow> m k = Some r \<Longrightarrow> dl_State r = DeviceLoginPending \<Longrightarrow>
    now < dl_ExpireTime r \<Longrightarrow> changes op m k (decided user approve r)"
| polled: "op = DLExchange k now \<Longrightarrow> m k = Some r \<Longrightarrow> now < dl_ExpireTime r \<Longrightarrow>
    dl_State r \<noteq> DeviceLoginApproved \<Longrightarrow>
    dl_State r = DeviceLoginPending \<longrightarrow> dl_lastPollAt r = 0 \<or> dl_lastPollAt r + second \<le> now \<Longrightarrow>
    changes op m k (r\<lparr>dl_lastPollAt := now\<rparr>)"

lemma spec_by_user_view:
  assumes "dl.ix_ok s" and "spec_by_user (ix_view s) uc = Some r"
  shows "ix_view s (dl_DeviceCode r) = Some r \<and> dl_UserCode r = uc"
  using assms dl.view_of_secondary [OF assms(1), of uc r] by (auto simp: spec_by_user_eq)

lemma dl_step_changes:
  assumes "dl_room s" and "dl_fair op" and "ix_view (dl_step s op) k = Some r"
  shows "changes op (ix_view s) k r"
proof (cases op)
  case (DLCreate rg login now)
  obtain res err s' where C: "dl_Create rg login now s = ((res, err), s')" by (metis prod.collapse)
  show ?thesis
  proof (cases err)
    case (Some e)
    then show ?thesis
      using Create_refused [of rg login now s] assms(3) C DLCreate by (auto intro: kept)
  next
    case None
    note acc = Create_accepted [of s rg login now res s']
    show ?thesis
    proof (cases "k = dl_DeviceCode login")
      case True
      then show ?thesis
        using acc assms C DLCreate None by (auto simp: dl_room_def intro: born)
    next
      case False
      then have "ix_view (dl_pruneLocked rg now s) k = Some r"
        using acc assms C DLCreate None by (auto simp: dl_room_def)
      then have "ix_view s k = Some r"
        using dl.pruned_view(1) [of s rg deviceLoginCapacity] assms(1,2) DLCreate
        unfolding prune_eq dl_room_def by (metis capacity_pos dl_fair.simps(1))
      then show ?thesis by (rule kept)
    qed
  qed
next
  case (DLGet uc now)
  then show ?thesis
    using view_after(1) [of s uc now] assms spec_Get_view [of uc now "ix_view s" k r]
    by (auto simp: dl_room_def intro!: kept)
next
  case (DLApprove uc user approve now)
  have ok: "dl.ix_ok s" using assms(1) by (simp add: dl_room_def)
  have v: "snd (spec_Approve uc user approve now (ix_view s)) k = Some r"
    using view_after(2) [OF ok, of uc user approve now] assms(3) DLApprove by simp
  show ?thesis
  proof (cases "spec_by_user (ix_view s) uc")
    case None
    then show ?thesis using v by (auto simp: spec_Approve_def intro: kept)
  next
    case (Some x)
    have x: "ix_view s (dl_DeviceCode x) = Some x" "dl_UserCode x = uc"
      using spec_by_user_view [OF ok Some] by auto
    show ?thesis
    proof (cases "k = dl_DeviceCode x")
      case False
      then show ?thesis using v Some by (auto simp: spec_Approve_def intro!: kept split: if_splits)
    next
      case True
      then show ?thesis
        using v Some x DLApprove
        by (auto simp: spec_Approve_def intro: kept judged split: if_splits)
    qed
  qed
next
  case (DLExchange dc now)
  have ok: "dl.ix_ok s" using assms(1) by (simp add: dl_room_def)
  have v: "snd (spec_Exchange dc now (ix_view s)) k = Some r"
    using view_after(3) [OF ok, of dc now] assms(3) DLExchange by simp
  show ?thesis
  proof (cases "k = dc")
    case False
    then show ?thesis
      using v by (auto simp: spec_Exchange_def Let_def intro!: kept split: option.splits if_splits)
  next
    case True
    then show ?thesis
      using v DLExchange
      by (auto simp: spec_Exchange_def Let_def not_less intro: kept polled split: option.splits if_splits)
  qed
qed

interpretation dl_once: single_use dl_step dl_fair dl_room dl_live dl_grants dl_creates
proof
  fix s op k
  assume s: "dl_room s" "dl_fair op" "dl_grants s op = Some k"
  show "k \<in> dl_live s" and "k \<notin> dl_live (dl_step s op)"
    using dl_grant [OF s(1,3)] by (auto simp: dl_live_def)
next
  fix s op k
  assume s: "dl_room s" "dl_fair op" "k \<in> dl_live (dl_step s op)"
  then obtain r where r: "ix_view (dl_step s op) k = Some r" by (auto simp: dl_live_def)
  from dl_step_changes [OF s(1,2) r] show "k \<in> dl_live s \<or> dl_creates s op = Some k"
  proof cases
    case (born rg login now)
    have "snd (fst (dl_Create rg login now s)) = None"
      using Create_refused [of rg login now s] r born by fastforce
    then show ?thesis using born by simp
  qed (auto simp: dl_live_def)
qed

lemma new_store_room [simp]: "dl_room newDeviceLoginStore"
  by (simp add: dl_room_def newDeviceLoginStore_def) (simp add: ix_new_def)

lemma new_store_empty [simp]: "ix_view newDeviceLoginStore k = None"
  by (simp add: newDeviceLoginStore_def)

subsection \<open>What a client and an approver may rely on\<close>

text \<open>
  Memory is bounded: whatever anonymous callers do, at most \<open>deviceLoginCapacity\<close> requests are
  held, under either code.
\<close>

theorem device_store_bounded:
  assumes "\<forall>op\<in>set ops. dl_fair op"
  shows "let s = run dl_step newDeviceLoginStore ops in
    length (byDeviceCode s) \<le> deviceLoginCapacity \<and> length (byUserCode s) \<le> length (byDeviceCode s)"
proof -
  have "dl_room (run dl_step newDeviceLoginStore ops)"
    by (rule dl_pool.run_ok) (use assms in simp_all)
  then show ?thesis
    using dl.secondary_le_primary by (simp add: dl_room_def Let_def)
qed

definition sample_login :: "string \<Rightarrow> string \<Rightarrow> DeviceLogin" where
  "sample_login dc uc = zero_login\<lparr>dl_DeviceCode := dc, dl_UserCode := uc, dl_ClientName := ''cli''\<rparr>"

theorem device_store_bounded_witness:
  "let s = run dl_step newDeviceLoginStore
       [DLCreate rev (sample_login ''d1'' ''u1'') minute, DLCreate id (sample_login ''d2'' ''u2'') minute]
   in length (byDeviceCode s) \<le> deviceLoginCapacity \<and> length (byUserCode s) \<le> length (byDeviceCode s)"
  by (rule device_store_bounded) simp

text \<open>
  C8. A device code yields its approval once: over any run, the polls that hand out an approval for
  a device code are at most as many as the requests created under it, so an approved request
  is exchanged for a single token.
\<close>

theorem device_grant_once:
  assumes "\<forall>op\<in>set ops. dl_fair op"
  shows "hits dl_step dl_grants dc newDeviceLoginStore ops \<le> hits dl_step dl_creates dc newDeviceLoginStore ops"
  using dl_once.redeemed_at_most_minted [of newDeviceLoginStore ops dc] assms by (simp add: dl_live_def)

theorem device_store_refines_witness:
  "let s = run dl_step newDeviceLoginStore [DLCreate rev (sample_login ''d1'' ''u1'') minute] in
   case dl_Approve ''u1'' 7 True (minute + 5) s of (res, s') \<Rightarrow>
     (res, ix_view s') = spec_Approve ''u1'' 7 True (minute + 5) (ix_view s) \<and> dl.ix_ok s'"
proof -
  let ?s = "run dl_step newDeviceLoginStore [DLCreate rev (sample_login ''d1'' ''u1'') minute]"
  have "dl_room ?s" by (rule dl_pool.run_ok) simp_all
  then have "dl.ix_ok ?s" by (simp add: dl_room_def)
  from device_store_refines [OF this, where uc = "''u1''" and user = 7 and approve = True and now = "minute + 5",
      THEN conjunct2, THEN conjunct1]
  show ?thesis unfolding Let_def .
qed

theorem device_grant_once_witness:
  "let ops = [DLCreate id (sample_login ''d1'' ''u1'') minute, DLApprove ''u1'' 7 True (minute + 5),
       DLExchange ''d1'' (minute + 6), DLExchange ''d1'' (minute + 7)]
   in hits dl_step dl_grants ''d1'' newDeviceLoginStore ops = 1 \<and>
      hits dl_step dl_grants ''d1'' newDeviceLoginStore ops \<le> hits dl_step dl_creates ''d1'' newDeviceLoginStore ops"
proof -
  let ?ops = "[DLCreate id (sample_login ''d1'' ''u1'') minute, DLApprove ''u1'' 7 True (minute + 5),
       DLExchange ''d1'' (minute + 6), DLExchange ''d1'' (minute + 7)]"
  have "hits dl_step dl_grants ''d1'' newDeviceLoginStore ?ops = 1" by code_simp
  moreover have "hits dl_step dl_grants ''d1'' newDeviceLoginStore ?ops \<le> hits dl_step dl_creates ''d1'' newDeviceLoginStore ?ops"
    by (rule device_grant_once) simp
  ultimately show ?thesis by (simp only: Let_def)
qed

text \<open>The history of a stored request: who asked for it, and who approved it.\<close>

definition same_request :: "DeviceLogin \<Rightarrow> DeviceLogin \<Rightarrow> bool" where
  "same_request l r \<longleftrightarrow> dl_DeviceCode r = dl_DeviceCode l \<and> dl_UserCode r = dl_UserCode l \<and>
     dl_ClientName r = dl_ClientName l \<and> dl_ClientVersion r = dl_ClientVersion l \<and>
     dl_RequestIP r = dl_RequestIP l \<and> dl_RequestUserAgent r = dl_RequestUserAgent l \<and>
     dl_ExpireTime r = dl_CreateTime r + DeviceLoginTTL"

definition requested :: "dl_op list \<Rightarrow> DeviceLogin \<Rightarrow> bool" where
  "requested ops r \<longleftrightarrow> (\<exists>xs rg l ys. ops = xs @ DLCreate rg l (dl_CreateTime r) # ys \<and> same_request l r)"

definition approved :: "dl_op list \<Rightarrow> DeviceLogin \<Rightarrow> bool" where
  "approved ops r \<longleftrightarrow> (\<exists>xs rg l ys t zs.
     ops = xs @ DLCreate rg l (dl_CreateTime r) # ys @ DLApprove (dl_UserCode r) (dl_ApprovedByUserID r) True t # zs \<and>
     same_request l r \<and> t < dl_ExpireTime r)"

definition dl_history :: "dl_op list \<Rightarrow> DeviceLoginStore \<Rightarrow> bool" where
  "dl_history ops s \<longleftrightarrow> (\<forall>k r. ix_view s k = Some r \<longrightarrow>
     requested ops r \<and> (dl_State r = DeviceLoginApproved \<longrightarrow> approved ops r))"

lemma requested_snoc: "requested ops r \<Longrightarrow> requested (ops @ [op]) r"
  unfolding requested_def by fastforce

lemma approved_snoc: "approved ops r \<Longrightarrow> approved (ops @ [op]) r"
  unfolding approved_def by fastforce

lemma requested_judged: "requested ops r \<Longrightarrow> requested ops (decided user approve r)"
  by (auto simp: requested_def same_request_def decided_def)

lemma requested_approved:
  "requested ops r \<Longrightarrow> t < dl_ExpireTime r \<Longrightarrow>
     approved (ops @ [DLApprove (dl_UserCode r) user True t]) (decided user True r)"
  unfolding requested_def approved_def by (force simp: same_request_def decided_def)

lemma dl_history_step:
  assumes "dl_room s" and "dl_fair op" and "dl_history ops s"
  shows "dl_history (ops @ [op]) (dl_step s op)"
  unfolding dl_history_def
proof (intro allI impI)
  fix k r
  assume "ix_view (dl_step s op) k = Some r"
  from dl_step_changes [OF assms(1,2) this]
  show "requested (ops @ [op]) r \<and> (dl_State r = DeviceLoginApproved \<longrightarrow> approved (ops @ [op]) r)"
  proof cases
    case kept
    then show ?thesis using assms(3) by (auto simp: dl_history_def requested_snoc approved_snoc)
  next
    case (born rg login now)
    have "requested (ops @ [op]) r"
      unfolding requested_def
      by (rule exI [of _ ops], rule exI [of _ rg], rule exI [of _ login], rule exI [of _ "[]"])
        (simp add: born same_request_def fresh_login_def)
    then show ?thesis using born by simp
  next
    case (judged r0 user approve now)
    have "requested ops r0" using judged assms(3) by (auto simp: dl_history_def)
    then have "requested (ops @ [op]) r"
      using requested_snoc [OF requested_judged] judged by simp
    moreover have "dl_State r = DeviceLoginApproved \<longrightarrow> approve"
      using judged by (simp add: decided_def)
    ultimately show ?thesis
      using judged requested_approved [OF \<open>requested ops r0\<close>] by auto
  next
    case (polled now r0)
    then show ?thesis
      using assms(3) requested_snoc [of ops r0 op]
      by (auto simp: dl_history_def requested_def same_request_def)
  qed
qed

lemma run_snoc: "run step s (ops @ [op]) = step (run step s ops) op"
  by (simp add: run_append)

lemma dl_history_run:
  "\<forall>op\<in>set ops. dl_fair op \<Longrightarrow> dl_history ops (run dl_step newDeviceLoginStore ops)"
proof (induction ops rule: rev_induct)
  case Nil
  then show ?case by (simp add: dl_history_def)
next
  case (snoc op ops)
  have "dl_room (run dl_step newDeviceLoginStore ops)"
    by (rule dl_pool.run_ok) (use snoc.prems in simp_all)
  then show ?case
    unfolding run_snoc by (rule dl_history_step) (use snoc in simp_all)
qed

text \<open>
  C7. No token without consent: when a poll hands out an approval, the request was created
  under that device code with that client and address, and after that the user it names
  approved its user code; both the approval and the poll came within the lifetime.
\<close>

theorem device_grant_authorised:
  assumes "\<forall>op\<in>set ops. dl_fair op"
    and "dl_Exchange dc now (run dl_step newDeviceLoginStore ops) = ((login, None), s')"
    and "dl_State login = DeviceLoginApproved"
  shows "\<exists>xs rg l ys t zs.
    ops = xs @ DLCreate rg l (dl_CreateTime login) # ys
      @ DLApprove (dl_UserCode login) (dl_ApprovedByUserID login) True t # zs \<and>
    dl_DeviceCode l = dc \<and> dl_UserCode l = dl_UserCode login \<and> dl_ClientName l = dl_ClientName login \<and>
    dl_RequestIP l = dl_RequestIP login \<and>
    t < dl_CreateTime login + DeviceLoginTTL \<and> now < dl_CreateTime login + DeviceLoginTTL"
proof -
  let ?s = "run dl_step newDeviceLoginStore ops"
  have room: "dl_room ?s" by (rule dl_pool.run_ok) (use assms(1) in simp_all)
  then have ok: "dl.ix_ok ?s" by (simp add: dl_room_def)
  have "spec_Exchange dc now (ix_view ?s) = ((login, None), ix_view s')"
    using Exchange_refines [OF ok, of dc now] assms(2) by simp
  from spec_Exchange_grant [OF this assms(3)] obtain r where
    r: "ix_view ?s dc = Some r" "dl_State r = DeviceLoginApproved" "now < dl_ExpireTime r" "login = r\<lparr>dl_lastPollAt := now\<rparr>"
    by blast
  have dc: "dl_DeviceCode r = dc" by (rule dl.view_key1 [OF ok r(1)])
  have "approved ops r" using dl_history_run [OF assms(1)] r by (simp add: dl_history_def)
  then obtain xs rg l ys t zs where
    ops: "ops = xs @ DLCreate rg l (dl_CreateTime r) # ys @ DLApprove (dl_UserCode r) (dl_ApprovedByUserID r) True t # zs"
    and same: "same_request l r" and t: "t < dl_ExpireTime r"
    unfolding approved_def by blast
  show ?thesis
    by (rule exI [of _ xs], rule exI [of _ rg], rule exI [of _ l], rule exI [of _ ys], rule exI [of _ t], rule exI [of _ zs])
      (use ops same t r(3,4) dc in \<open>auto simp: same_request_def\<close>)
qed

definition sample_run :: "dl_op list" where
  "sample_run = [DLCreate id (sample_login ''d1'' ''u1'') minute, DLCreate rev (sample_login ''d2'' ''u2'') minute,
     DLApprove ''u1'' 7 True (minute + 5)]"

theorem device_grant_authorised_witness:
  "\<exists>login s'. dl_Exchange ''d1'' (minute + 6) (run dl_step newDeviceLoginStore sample_run) = ((login, None), s') \<and>
     dl_State login = DeviceLoginApproved \<and> minute + 6 < dl_CreateTime login + DeviceLoginTTL"
proof -
  obtain login err s' where ex:
      "dl_Exchange ''d1'' (minute + 6) (run dl_step newDeviceLoginStore sample_run) = ((login, err), s')"
    by (metis prod.collapse)
  have "map_prod dl_State id (fst (dl_Exchange ''d1'' (minute + 6) (run dl_step newDeviceLoginStore sample_run))) =
      (DeviceLoginApproved, None)"
    by code_simp
  then have g: "err = None" "dl_State login = DeviceLoginApproved" by (simp_all add: ex)
  have f: "\<forall>op\<in>set sample_run. dl_fair op" by (simp add: sample_run_def)
  show ?thesis
    using device_grant_authorised [OF f ex [unfolded g(1)] g(2)] ex g by auto
qed

subsection \<open>Polling\<close>

text \<open>The instants at which a poll of a device code was answered "pending".\<close>

fun pending_poll :: "string \<Rightarrow> DeviceLoginStore \<Rightarrow> dl_op \<Rightarrow> time option" where
  "pending_poll k s (DLExchange dc now) =
     (case fst (dl_Exchange dc now s) of (login, err) \<Rightarrow>
        if dc = k \<and> err = None \<and> dl_State login = DeviceLoginPending then Some now else None)"
| "pending_poll k s _ = None"

fun pending_polls :: "string \<Rightarrow> DeviceLoginStore \<Rightarrow> dl_op list \<Rightarrow> time list" where
  "pending_polls k s [] = []"
| "pending_polls k s (op # ops) =
     (case pending_poll k s op of None \<Rightarrow> [] | Some t \<Rightarrow> [t]) @ pending_polls k (dl_step s op) ops"

fun dl_positive :: "dl_op \<Rightarrow> bool" where
  "dl_positive (DLExchange dc now) = (0 < now)"
| "dl_positive _ = True"

lemma poll_accepted:
  assumes "dl_room s" and "dl_positive op" and "pending_poll k s op = Some t"
  shows "0 < t \<and> (\<exists>r. ix_view s k = Some r \<and> dl_State r = DeviceLoginPending \<and>
    (dl_lastPollAt r = 0 \<or> dl_lastPollAt r + second \<le> t) \<and>
    ix_view (dl_step s op) k = Some (r\<lparr>dl_lastPollAt := t\<rparr>))"
proof -
  have ok: "dl.ix_ok s" using assms(1) by (simp add: dl_room_def)
  obtain login where op: "op = DLExchange k t" and ex: "fst (dl_Exchange k t s) = (login, None)"
      and pending: "dl_State login = DeviceLoginPending"
    using assms(3) by (cases op) (auto split: prod.splits if_splits)
  have "fst (spec_Exchange k t (ix_view s)) = (login, None)"
    using view_after(4) [OF ok, of k t] ex by simp
  then have "\<exists>r. ix_view s k = Some r \<and> dl_State r = DeviceLoginPending \<and>
     (dl_lastPollAt r = 0 \<or> dl_lastPollAt r + second \<le> t) \<and>
     snd (spec_Exchange k t (ix_view s)) k = Some (r\<lparr>dl_lastPollAt := t\<rparr>)"
    using pending by (auto simp: spec_Exchange_def Let_def not_less split: option.splits if_splits)
  then show ?thesis
    using op view_after(3) [OF ok, of k t] assms(2) by auto
qed

lemma no_poll_frame:
  assumes "dl_room s" and "dl_fair op" and "dl_creates s op \<noteq> Some k" and "pending_poll k s op = None"
    and "ix_view (dl_step s op) k = Some r" and "dl_State r = DeviceLoginPending"
  shows "ix_view s k = Some r"
  using dl_step_changes [OF assms(1,2,5)]
proof cases
  case (born rg login now)
  have "snd (fst (dl_Create rg login now s)) = None"
    using Create_refused [of rg login now s] assms(5) born by fastforce
  then show ?thesis using born assms(3) by simp
next
  case (judged r0 user approve now)
  then show ?thesis using assms(6) by (auto simp: decided_def split: if_splits)
next
  case (polled now r0)
  have "fst (spec_Exchange k now (ix_view s)) = (r, None)"
    using polled assms(6) by (auto simp: spec_Exchange_def Let_def)
  then have "pending_poll k s op = Some now"
    using polled view_after(4) [of s k now] assms(1,6) by (simp add: dl_room_def)
  then show ?thesis using assms(4) by simp
qed

lemma polls_spaced:
  assumes "dl_room s" and "\<forall>op\<in>set ops. dl_fair op \<and> dl_positive op" and "hits dl_step dl_creates k s ops = 0"
  shows "successively (\<lambda>t t'. t + second \<le> t') (pending_polls k s ops) \<and>
    (pending_polls k s ops \<noteq> [] \<longrightarrow> (\<exists>r. ix_view s k = Some r \<and> dl_State r = DeviceLoginPending \<and>
       (dl_lastPollAt r = 0 \<or> dl_lastPollAt r + second \<le> hd (pending_polls k s ops))))"
  using assms
proof (induction ops arbitrary: s)
  case (Cons op ops)
  let ?s = "dl_step s op"
  have room: "dl_room ?s" by (rule dl_room_step) (use Cons.prems in simp_all)
  have IH: "successively (\<lambda>t t'. t + second \<le> t') (pending_polls k ?s ops)"
      "pending_polls k ?s ops \<noteq> [] \<longrightarrow> (\<exists>r. ix_view ?s k = Some r \<and> dl_State r = DeviceLoginPending \<and>
       (dl_lastPollAt r = 0 \<or> dl_lastPollAt r + second \<le> hd (pending_polls k ?s ops)))"
    using Cons.IH [OF room] Cons.prems by auto
  show ?case
  proof (cases "pending_poll k s op")
    case None
    then show ?thesis
      using IH no_poll_frame [OF Cons.prems(1) _ _ None] Cons.prems(2,3) by fastforce
  next
    case (Some t)
    from poll_accepted [OF Cons.prems(1) _ Some] Cons.prems(2) obtain r where
      "0 < t" "ix_view s k = Some r" "dl_State r = DeviceLoginPending"
      "dl_lastPollAt r = 0 \<or> dl_lastPollAt r + second \<le> t" "ix_view ?s k = Some (r\<lparr>dl_lastPollAt := t\<rparr>)"
      by auto
    then show ?thesis
      using IH Some by (cases "pending_polls k ?s ops") auto
  qed
qed simp

text \<open>
  The poll interval is enforced: while a request is pending, two polls of it that are answered
  "pending" rather than "slow down" are at least a second apart, whatever else happens to the
  store in between.
\<close>

theorem device_poll_interval:
  assumes "dl_room s" and "\<forall>op\<in>set ops. dl_fair op \<and> dl_positive op" and "hits dl_step dl_creates dc s ops = 0"
  shows "successively (\<lambda>t t'. t + DeviceLoginMinPollInterval \<le> t') (pending_polls dc s ops)"
  using polls_spaced [OF assms] by (simp add: DeviceLoginMinPollInterval_def)

theorem device_poll_interval_witness:
  "let s = run dl_step newDeviceLoginStore [DLCreate id (sample_login ''d1'' ''u1'') minute];
       ops = [DLExchange ''d1'' minute, DLExchange ''d1'' (minute + 5), DLGet ''u1'' minute, DLExchange ''d1'' (minute + second)]
   in successively (\<lambda>t t'. t + DeviceLoginMinPollInterval \<le> t') (pending_polls ''d1'' s ops) \<and>
      pending_polls ''d1'' s ops = [minute, minute + second]"
proof -
  let ?s = "run dl_step newDeviceLoginStore [DLCreate id (sample_login ''d1'' ''u1'') minute]"
  let ?ops = "[DLExchange ''d1'' minute, DLExchange ''d1'' (minute + 5), DLGet ''u1'' minute, DLExchange ''d1'' (minute + second)]"
  have room: "dl_room ?s" by (rule dl_pool.run_ok) simp_all
  have "successively (\<lambda>t t'. t + DeviceLoginMinPollInterval \<le> t') (pending_polls ''d1'' ?s ?ops)"
    by (rule device_poll_interval [OF room]) (simp_all add: duration_defs)
  moreover have "pending_polls ''d1'' ?s ?ops = [minute, minute + second]" by code_simp
  ultimately show ?thesis by (simp only: Let_def)
qed

subsection \<open>Drawing the codes\<close>

text \<open>
  \<open>NewDeviceLogin\<close> either stores nothing and says why, or stores a pending request for ten
  minutes under codes nobody else holds, the human one in the form users can type.
\<close>

theorem NewDeviceLogin_outcome:
  assumes "dl_room s" and "fair_range r" and "rng_bounded rng"
    and "NewDeviceLogin rng r login now g s = ((created, err), g', s')"
  shows "(case err of
      Some e \<Rightarrow> s' = s \<and> (e = ErrRandomSource \<or> e = ErrDeviceLoginCodeTaken)
    | None \<Rightarrow> ix_view s (dl_DeviceCode created) = None \<and> ix_view s' (dl_DeviceCode created) = Some created \<and>
        spec_by_user (ix_view s) (dl_UserCode created) = None \<and>
        length (dl_DeviceCode created) = deviceCodeLength \<and> canonical_code (dl_UserCode created) \<and>
        dl_State created = DeviceLoginPending \<and> dl_ExpireTime created = now + DeviceLoginTTL \<and> dl_room s')"
proof -
  have ok: "dl.ix_ok s" and len: "length (byDeviceCode s) \<le> deviceLoginCapacity"
    using assms(1) by (simp_all add: dl_room_def)
  have "?thesis" if "newDeviceLoginLoop rng r n login now g s = ((created, err), g', s')" for n
    using that
  proof (induction n arbitrary: login g)
    case 0
    then show ?case by auto
  next
    case (Suc n)
    obtain dc g1 where dc: "randomCode rng deviceLoginAlphabet deviceCodeLength g = (dc, g1)"
      by (cases "randomCode rng deviceLoginAlphabet deviceCodeLength g")
    obtain uc g2 where uc: "newUserCode rng g1 = (uc, g2)" by (cases "newUserCode rng g1")
    show ?case
    proof (cases "dc = None \<or> uc = None")
      case True
      then show ?thesis using Suc.prems dc uc by (auto split: option.splits)
    next
      case False
      then obtain d u where du: "dc = Some d" "uc = Some u" by auto
      let ?login = "login\<lparr>dl_DeviceCode := d, dl_UserCode := u\<rparr>"
      have d: "length d = deviceCodeLength" and u: "canonical_code u"
        using randomCode_alphabet [OF assms(3)] newUserCode_canonical [OF assms(3)] dc uc du by blast+
      have ne: "d \<noteq> []" "u \<noteq> []" using d u by (auto simp: deviceCodeLength_def canonical_code_def)
      obtain res e s1 where C: "dl_Create r ?login now s = ((res, e), s1)" by (metis prod.collapse)
      show ?thesis
      proof (cases e)
        case None
        have eq: "created = res" "err = None" "s' = s1"
          using Suc.prems dc uc du C None by simp_all
        note acc = Create_accepted [OF ok assms(2) len C [unfolded None]]
        then show ?thesis
          using d u by (auto simp: eq spec_by_user_eq [OF ok] dl_room_def)
      next
        case (Some x)
        have "s1 = s" using Create_refused [of r ?login now s] C Some by simp
        moreover have "x = ErrDeviceLoginCodeTaken"
          using C Some ne by (auto simp: dl_Create_def Let_def ix_alloc_def split: if_splits)
        ultimately show ?thesis
          using Suc.prems Suc.IH [of ?login g2] dc uc du C Some by simp
      qed
    qed
  qed
  then show ?thesis using assms(4) by (simp add: NewDeviceLogin_def)
qed

definition stepping_rng :: "nat rng" where
  "stepping_rng limit g = (if limit = 0 then (None, g) else (Some (g mod limit), g + 7))"

theorem NewDeviceLogin_outcome_witness:
  "\<exists>created g' s'. NewDeviceLogin stepping_rng id zero_login minute 0 newDeviceLoginStore = ((created, None), g', s') \<and>
     canonical_code (dl_UserCode created)"
proof -
  obtain created err g' s' where N:
      "NewDeviceLogin stepping_rng id zero_login minute 0 newDeviceLoginStore = ((created, err), g', s')"
    by (metis prod.collapse)
  have "snd (fst (NewDeviceLogin stepping_rng id zero_login minute 0 newDeviceLoginStore)) = None"
    by code_simp
  then have e: "err = None" by (simp add: N)
  have rng: "rng_bounded stepping_rng" by (auto simp: rng_bounded_def stepping_rng_def split: if_splits)
  show ?thesis
    using NewDeviceLogin_outcome [OF new_store_room fair_range_id rng N] N e by auto
qed

end
