(* ===== verification/OAuth_Request.thy ===== *)
theory OAuth_Request
  imports Store_Interfaces Indexed_Store Random_Code "HOL-Library.Sublist"
begin

text \<open>
  The store of OAuth 2.1 authorization requests and of the single-use codes minted from them,
  \<open>OAuthAuthorizationRequestStore\<close> of
  \<open>backend/component/state/oauth_authorization_request.go\<close>. The owning map is \<open>byRequestID\<close>;
  \<open>byCode\<close> points at the same object once a code has been minted (\<open>Indexed_Store\<close>). Each
  method holds the mutex, so each is one step.
\<close>

subsection \<open>Requests and the store\<close>

definition OAuthAuthorizationRequestTTL :: duration where
  "OAuthAuthorizationRequestTTL = 10 * minute"

definition OAuthAuthorizationCodeTTL :: duration where
  "OAuthAuthorizationCodeTTL = 60 * second"

definition oauthAuthorizationRequestCapacity :: nat where
  "oauthAuthorizationRequestCapacity = 10000"

definition oauthAuthorizationCodeLength :: nat where
  "oauthAuthorizationCodeLength = 43"

datatype OAuthAuthorizationState = OAuthAuthorizationPending | OAuthAuthorizationApproved | OAuthAuthorizationDenied

datatype oauthError = ErrOAuthRequestNotFound | ErrOAuthRequestExpired | ErrOAuthRequestNotPending
  | ErrOAuthRequestNotApproved | ErrOAuthRequestWrongUser | ErrOAuthCodeNotFound | ErrOAuthCodeExpired
  | ErrOAuthIDsExhausted | ErrOAuthRandomSource

record OAuthAuthorizationRequest =
  oa_RequestID :: string
  oa_ClientID :: string
  oa_ClientName :: string
  oa_RedirectURI :: string
  oa_Resource :: string
  oa_Scopes :: "string list"
  oa_CodeChallenge :: string
  oa_CodeChallengeMethod :: string
  oa_ClientState :: string
  oa_UserID :: int
  oa_ApprovedByUserID :: int
  oa_State :: OAuthAuthorizationState
  oa_Code :: string
  oa_RequestIP :: string
  oa_CreateTime :: time
  oa_ExpireTime :: time
  oa_CodeExpireTime :: time

definition zero_request :: OAuthAuthorizationRequest where
  "zero_request = \<lparr>oa_RequestID = [], oa_ClientID = [], oa_ClientName = [], oa_RedirectURI = [], oa_Resource = [],
     oa_Scopes = [], oa_CodeChallenge = [], oa_CodeChallengeMethod = [], oa_ClientState = [], oa_UserID = 0,
     oa_ApprovedByUserID = 0, oa_State = OAuthAuthorizationPending, oa_Code = [], oa_RequestIP = [],
     oa_CreateTime = zero_time, oa_ExpireTime = zero_time, oa_CodeExpireTime = zero_time\<rparr>"

definition deadline :: "OAuthAuthorizationRequest \<Rightarrow> time \<times> oauthError" where
  "deadline r = (if oa_Code r = [] then (oa_ExpireTime r, ErrOAuthRequestExpired)
     else (oa_CodeExpireTime r, ErrOAuthCodeExpired))"

type_synonym OAuthStore = "OAuthAuthorizationRequest indexed"
type_synonym oa_result = "oauthError + OAuthAuthorizationRequest"

abbreviation byRequestID :: "OAuthStore \<Rightarrow> (string, addr) gomap" where
  "byRequestID \<equiv> ix_primary"

abbreviation byCode :: "OAuthStore \<Rightarrow> (string, addr) gomap" where
  "byCode \<equiv> ix_secondary"

definition NewOAuthAuthorizationRequestStore :: OAuthStore where
  "NewOAuthAuthorizationRequestStore = ix_new zero_request"

subsection \<open>Operations\<close>

definition oa_removeLocked :: "addr \<Rightarrow> OAuthStore \<Rightarrow> OAuthStore" where
  "oa_removeLocked p s =
     (let s1 = s\<lparr>ix_primary := gm_del (oa_RequestID (ix_heap s p)) (byRequestID s)\<rparr>
      in if oa_Code (ix_heap s1 p) \<noteq> []
         then s1\<lparr>ix_secondary := gm_del (oa_Code (ix_heap s1 p)) (byCode s1)\<rparr> else s1)"

definition oa_dead :: "time \<Rightarrow> OAuthAuthorizationRequest \<Rightarrow> bool" where
  "oa_dead now r \<longleftrightarrow> \<not> time_Before now (fst (deadline r))"

definition oa_pruneLocked :: "(string, addr) ranging \<Rightarrow> time \<Rightarrow> OAuthStore \<Rightarrow> OAuthStore" where
  "oa_pruneLocked r now s =
     (let s1 = sweep oa_removeLocked (oa_dead now) r s in
      if length (byRequestID s1) < oauthAuthorizationRequestCapacity then s1
      else case earliest (\<lambda>p. oa_CreateTime (ix_heap s1 p)) (map snd (r (byRequestID s1))) of
        None \<Rightarrow> s1
      | Some p \<Rightarrow> oa_removeLocked p s1)"

definition resolveLocked :: "string \<Rightarrow> int \<Rightarrow> time \<Rightarrow> OAuthStore \<Rightarrow> (oauthError + addr) \<times> OAuthStore" where
  "resolveLocked requestID userID now s =
     (case gm_get (byRequestID s) requestID of
        None \<Rightarrow> (Inl ErrOAuthRequestNotFound, s)
      | Some request \<Rightarrow>
          if oa_UserID (ix_heap s request) \<noteq> userID then (Inl ErrOAuthRequestWrongUser, s)
          else case deadline (ix_heap s request) of (d, expired) \<Rightarrow>
            if \<not> time_Before now d then (Inl expired, oa_removeLocked request s)
            else (Inr request, s))"

text \<open>The loop of \<open>Create\<close> with \<open>n\<close> attempts left.\<close>

fun oa_createLoop ::
    "'g rng \<Rightarrow> (string, addr) ranging \<Rightarrow> nat \<Rightarrow> OAuthAuthorizationRequest \<Rightarrow> time \<Rightarrow> 'g \<Rightarrow> OAuthStore
      \<Rightarrow> oa_result \<times> OAuthStore" where
  "oa_createLoop rng r 0 request now g s = (Inl ErrOAuthIDsExhausted, s)"
| "oa_createLoop rng r (Suc n) request now g s =
     (case randomCode rng deviceLoginAlphabet oauthAuthorizationCodeLength g of
        (None, _) \<Rightarrow> (Inl ErrOAuthRandomSource, s)
      | (Some requestID, g') \<Rightarrow>
          if gm_get (byRequestID s) requestID \<noteq> None then oa_createLoop rng r n request now g' s
          else
            let s1 = oa_pruneLocked r now s;
                request1 = request\<lparr>oa_RequestID := requestID, oa_ApprovedByUserID := 0,
                  oa_State := OAuthAuthorizationPending, oa_Code := [], oa_CodeExpireTime := zero_time,
                  oa_CreateTime := now, oa_ExpireTime := now + OAuthAuthorizationRequestTTL\<rparr>;
                (stored, s2) = ix_alloc request1 s1;
                s3 = s2\<lparr>ix_primary := gm_put requestID stored (byRequestID s2)\<rparr>
            in (Inr (ix_heap s3 stored), s3))"

definition oa_Create ::
    "'g rng \<Rightarrow> (string, addr) ranging \<Rightarrow> OAuthAuthorizationRequest \<Rightarrow> time \<Rightarrow> 'g \<Rightarrow> OAuthStore
      \<Rightarrow> oa_result \<times> OAuthStore" where
  "oa_Create rng r request now g s = oa_createLoop rng r codeAttempts request now g s"

definition oa_Get :: "string \<Rightarrow> int \<Rightarrow> time \<Rightarrow> OAuthStore \<Rightarrow> oa_result \<times> OAuthStore" where
  "oa_Get requestID userID now s =
     (case resolveLocked requestID userID now s of
        (Inl err, s') \<Rightarrow> (Inl err, s')
      | (Inr request, s') \<Rightarrow> (Inr (ix_heap s' request), s'))"

definition oa_Approve :: "string \<Rightarrow> int \<Rightarrow> bool \<Rightarrow> time \<Rightarrow> OAuthStore \<Rightarrow> oauthError option \<times> OAuthStore" where
  "oa_Approve requestID userID approve now s =
     (case resolveLocked requestID userID now s of
        (Inl err, s') \<Rightarrow> (Some err, s')
      | (Inr request, s') \<Rightarrow>
          if oa_State (ix_heap s' request) \<noteq> OAuthAuthorizationPending then (Some ErrOAuthRequestNotPending, s')
          else (None, ix_set request
             (if approve
              then (ix_heap s' request)\<lparr>oa_State := OAuthAuthorizationApproved, oa_ApprovedByUserID := userID\<rparr>
              else (ix_heap s' request)\<lparr>oa_State := OAuthAuthorizationDenied\<rparr>) s'))"

text \<open>The loop of \<open>Complete\<close> that mints the code, with \<open>n\<close> attempts left.\<close>

fun oa_mintLoop :: "'g rng \<Rightarrow> nat \<Rightarrow> addr \<Rightarrow> time \<Rightarrow> 'g \<Rightarrow> OAuthStore \<Rightarrow> oa_result \<times> OAuthStore" where
  "oa_mintLoop rng 0 request now g s = (Inl ErrOAuthIDsExhausted, s)"
| "oa_mintLoop rng (Suc n) request now g s =
     (case randomCode rng deviceLoginAlphabet oauthAuthorizationCodeLength g of
        (None, _) \<Rightarrow> (Inl ErrOAuthRandomSource, s)
      | (Some code, g') \<Rightarrow>
          if gm_get (byCode s) code \<noteq> None then oa_mintLoop rng n request now g' s
          else
            let s1 = ix_set request
                  ((ix_heap s request)\<lparr>oa_Code := code, oa_CodeExpireTime := now + OAuthAuthorizationCodeTTL\<rparr>) s;
                s2 = s1\<lparr>ix_secondary := gm_put code request (byCode s1)\<rparr>
            in (Inr (ix_heap s2 request), s2))"

definition oa_Complete :: "'g rng \<Rightarrow> string \<Rightarrow> int \<Rightarrow> time \<Rightarrow> 'g \<Rightarrow> OAuthStore \<Rightarrow> oa_result \<times> OAuthStore" where
  "oa_Complete rng requestID userID now g s =
     (case resolveLocked requestID userID now s of
        (Inl err, s') \<Rightarrow> (Inl err, s')
      | (Inr request, s') \<Rightarrow>
          (case oa_State (ix_heap s' request) of
             OAuthAuthorizationPending \<Rightarrow> (Inl ErrOAuthRequestNotPending, s')
           | OAuthAuthorizationDenied \<Rightarrow> (Inl ErrOAuthRequestNotApproved, s')
           | OAuthAuthorizationApproved \<Rightarrow>
               if oa_Code (ix_heap s' request) \<noteq> [] then (Inl ErrOAuthRequestNotPending, s')
               else oa_mintLoop rng codeAttempts request now g s'))"

definition oa_Exchange :: "string \<Rightarrow> time \<Rightarrow> OAuthStore \<Rightarrow> oa_result \<times> OAuthStore" where
  "oa_Exchange code now s =
     (case gm_get (byCode s) code of
        None \<Rightarrow> (Inl ErrOAuthCodeNotFound, s)
      | Some request \<Rightarrow>
          if \<not> time_Before now (fst (deadline (ix_heap s request)))
          then (Inl ErrOAuthCodeExpired, oa_removeLocked request s)
          else let answer = ix_heap s request in (Inr answer, oa_removeLocked request s))"

definition code_key :: "OAuthAuthorizationRequest \<Rightarrow> string option" where
  "code_key r = (if oa_Code r = [] then None else Some (oa_Code r))"

interpretation oa: index_keys oa_RequestID code_key oa_removeLocked
  by unfold_locales (simp add: oa_removeLocked_def code_key_def Let_def)

lemma oa_prune_eq:
  "oa_pruneLocked r now = oa.pruned (oa_dead now) oa_CreateTime oauthAuthorizationRequestCapacity r"
  by (rule ext) (simp add: oa_pruneLocked_def oa.pruned_def Let_def)

lemma oa_capacity_pos [simp]: "0 < oauthAuthorizationRequestCapacity"
  by (simp add: oauthAuthorizationRequestCapacity_def)

definition oa_room :: "OAuthStore \<Rightarrow> bool" where
  "oa_room s \<longleftrightarrow> oa.ix_ok s \<and> length (byRequestID s) \<le> oauthAuthorizationRequestCapacity"

subsection \<open>The contract: a map from request ids to requests\<close>

type_synonym oa_map = "string \<Rightarrow> OAuthAuthorizationRequest option"

definition spec_resolve :: "string \<Rightarrow> int \<Rightarrow> time \<Rightarrow> oa_map \<Rightarrow> oa_result \<times> oa_map" where
  "spec_resolve rid user now m =
     (case m rid of
        None \<Rightarrow> (Inl ErrOAuthRequestNotFound, m)
      | Some r \<Rightarrow>
          if oa_UserID r \<noteq> user then (Inl ErrOAuthRequestWrongUser, m)
          else if \<not> now < fst (deadline r) then (Inl (snd (deadline r)), m(rid := None))
          else (Inr r, m))"

definition oa_decided :: "int \<Rightarrow> bool \<Rightarrow> OAuthAuthorizationRequest \<Rightarrow> OAuthAuthorizationRequest" where
  "oa_decided user approve r =
     (if approve then r\<lparr>oa_State := OAuthAuthorizationApproved, oa_ApprovedByUserID := user\<rparr>
      else r\<lparr>oa_State := OAuthAuthorizationDenied\<rparr>)"

definition with_code :: "string \<Rightarrow> time \<Rightarrow> OAuthAuthorizationRequest \<Rightarrow> OAuthAuthorizationRequest" where
  "with_code code now r = r\<lparr>oa_Code := code, oa_CodeExpireTime := now + OAuthAuthorizationCodeTTL\<rparr>"

text \<open>\<open>resolveLocked\<close> returns the object the specification answers with.\<close>

lemma resolve_refines:
  assumes "oa_room s"
  shows "case resolveLocked rid user now s of (res, s') \<Rightarrow>
    oa_room s' \<and> (case res of
       Inl e \<Rightarrow> spec_resolve rid user now (ix_view s) = (Inl e, ix_view s')
     | Inr p \<Rightarrow> s' = s \<and> gm_get (byRequestID s) rid = Some p \<and>
         spec_resolve rid user now (ix_view s) = (Inr (ix_heap s p), ix_view s) \<and>
         oa_UserID (ix_heap s p) = user \<and> now < fst (deadline (ix_heap s p)))"
proof (cases "gm_get (byRequestID s) rid")
  case None
  then show ?thesis using assms by (simp add: resolveLocked_def spec_resolve_def ix_view_def)
next
  case (Some p)
  have ok: "oa.ix_ok s" using assms by (simp add: oa_room_def)
  have v: "ix_view s rid = Some (ix_heap s p)" by (rule oa.view_primary [OF Some])
  have rid: "oa_RequestID (ix_heap s p) = rid" by (rule oa.ix_okD(4) [OF ok Some])
  note rm = oa.remove_ok [OF ok oa.ix_okD(8) [OF ok Some]]
  have len: "length (byRequestID (oa_removeLocked p s)) \<le> length (byRequestID s)"
    by (simp add: oa.remove_eq length_gm_del_le)
  show ?thesis
    using assms rm len v rid
    by (auto simp: resolveLocked_def spec_resolve_def Some oa_room_def time_Before_def split: prod.splits)
qed

definition oa_spec_Approve :: "string \<Rightarrow> int \<Rightarrow> bool \<Rightarrow> time \<Rightarrow> oa_map \<Rightarrow> oauthError option \<times> oa_map" where
  "oa_spec_Approve rid user approve now m =
     (case spec_resolve rid user now m of
        (Inl e, m') \<Rightarrow> (Some e, m')
      | (Inr r, m') \<Rightarrow>
          if oa_State r \<noteq> OAuthAuthorizationPending then (Some ErrOAuthRequestNotPending, m')
          else (None, m'(rid \<mapsto> oa_decided user approve r)))"

text \<open>The request a code was minted for, and what exchanging the code does.\<close>

definition spec_by_code :: "oa_map \<Rightarrow> string \<Rightarrow> OAuthAuthorizationRequest option" where
  "spec_by_code m c =
     (if \<exists>k r. m k = Some r \<and> code_key r = Some c then Some (THE r. \<exists>k. m k = Some r \<and> code_key r = Some c) else None)"

definition oa_spec_Exchange :: "string \<Rightarrow> time \<Rightarrow> oa_map \<Rightarrow> oa_result \<times> oa_map" where
  "oa_spec_Exchange code now m =
     (case spec_by_code m code of
        None \<Rightarrow> (Inl ErrOAuthCodeNotFound, m)
      | Some r \<Rightarrow> (if now < oa_CodeExpireTime r then Inr r else Inl ErrOAuthCodeExpired, m(oa_RequestID r := None)))"

text \<open>The code is drawn, so what \<open>Complete\<close> does is specified up to the code.\<close>

definition oa_spec_Complete :: "string \<Rightarrow> int \<Rightarrow> time \<Rightarrow> oa_map \<Rightarrow> oa_result \<Rightarrow> oa_map \<Rightarrow> bool" where
  "oa_spec_Complete rid user now m res m' \<longleftrightarrow>
     (case spec_resolve rid user now m of
        (Inl e, m1) \<Rightarrow> res = Inl e \<and> m' = m1
      | (Inr r, m1) \<Rightarrow>
          if oa_State r = OAuthAuthorizationApproved \<and> oa_Code r = []
          then (case res of
              Inl e \<Rightarrow> m' = m \<and> (e = ErrOAuthRandomSource \<or> e = ErrOAuthIDsExhausted)
            | Inr r' \<Rightarrow> \<exists>code. length code = oauthAuthorizationCodeLength \<and> spec_by_code m code = None \<and>
                r' = with_code code now r \<and> m' = m(rid \<mapsto> r'))
          else m' = m \<and> res = Inl (if oa_State r = OAuthAuthorizationDenied
              then ErrOAuthRequestNotApproved else ErrOAuthRequestNotPending))"

lemma spec_by_code_eq:
  assumes "oa.ix_ok s"
  shows "spec_by_code (ix_view s) c = map_option (ix_heap s) (gm_get (byCode s) c)"
proof (cases "gm_get (byCode s) c")
  case None
  then show ?thesis
    using oa.view_of_secondary [OF assms, of c] oa.view_key1 [OF assms] by (fastforce simp: spec_by_code_def)
next
  case (Some p)
  have found: "ix_view s (oa_RequestID (ix_heap s p)) = Some (ix_heap s p)" "code_key (ix_heap s p) = Some c"
    using oa.view_of_secondary [OF assms, of c "ix_heap s p"] Some by auto
  have uniq: "r = ix_heap s p" if "ix_view s k = Some r" "code_key r = Some c" for k r
    using oa.view_of_secondary [OF assms, of c r] oa.view_key1 [OF assms that(1)] that Some by auto
  have "(THE r. \<exists>k. ix_view s k = Some r \<and> code_key r = Some c) = ix_heap s p"
    by (rule the_equality) (use found uniq in blast)+
  moreover have "\<exists>k r. ix_view s k = Some r \<and> code_key r = Some c" using found by blast
  ultimately show ?thesis using Some by (simp add: spec_by_code_def)
qed

lemma spec_by_code_view:
  assumes "oa.ix_ok s" and "spec_by_code (ix_view s) c = Some r"
  shows "ix_view s (oa_RequestID r) = Some r \<and> code_key r = Some c"
  using assms oa.view_of_secondary [OF assms(1), of c r] by (auto simp: spec_by_code_eq)

lemma oa_Get_refines:
  assumes "oa_room s"
  shows "case oa_Get rid user now s of (res, s') \<Rightarrow>
    oa_room s' \<and> (res, ix_view s') = spec_resolve rid user now (ix_view s)"
  using resolve_refines [OF assms, of rid user now] by (auto simp: oa_Get_def split: prod.splits sum.splits)

lemma set_room:
  assumes "oa_room s" and "gm_get (byRequestID s) rid = Some p"
    and "oa_RequestID r = rid" and "code_key r = code_key (ix_heap s p)"
  shows "oa_room (ix_set p r s)" and "ix_view (ix_set p r s) = (ix_view s)(rid \<mapsto> r)"
proof -
  have ok: "oa.ix_ok s" using assms(1) by (simp add: oa_room_def)
  note set = oa.set_ok [OF ok oa.ix_okD(8) [OF ok assms(2)], of r]
  show "oa_room (ix_set p r s)" and "ix_view (ix_set p r s) = (ix_view s)(rid \<mapsto> r)"
    using set assms oa.ix_okD(4) [OF ok assms(2)] by (simp_all add: oa_room_def)
qed

lemma oa_Approve_refines:
  assumes "oa_room s"
  shows "case oa_Approve rid user approve now s of (res, s') \<Rightarrow>
    oa_room s' \<and> (res, ix_view s') = oa_spec_Approve rid user approve now (ix_view s)"
proof -
  have ok: "oa.ix_ok s" using assms by (simp add: oa_room_def)
  obtain res s' where R: "resolveLocked rid user now s = (res, s')" by (cases "resolveLocked rid user now s")
  show ?thesis
  proof (cases res)
    case (Inl e)
    then show ?thesis
      using resolve_refines [OF assms, of rid user now] by (simp add: R oa_Approve_def oa_spec_Approve_def)
  next
    case (Inr p)
    have r: "s' = s" "gm_get (byRequestID s) rid = Some p"
      "spec_resolve rid user now (ix_view s) = (Inr (ix_heap s p), ix_view s)"
      using resolve_refines [OF assms, of rid user now] by (simp_all add: R Inr)
    let ?r = "oa_decided user approve (ix_heap s p)"
    have "oa_RequestID ?r = rid" "code_key ?r = code_key (ix_heap s p)"
      using oa.ix_okD(4) [OF ok r(2)] by (simp_all add: oa_decided_def code_key_def)
    note set = set_room [OF assms r(2) this]
    show ?thesis
      using set r assms by (simp add: oa_Approve_def oa_spec_Approve_def R Inr oa_decided_def)
  qed
qed

lemma randomCode_length: "randomCode rng alphabet n g = (Some code, g') \<Longrightarrow> length code = n"
  by (induction n arbitrary: g code) (auto split: prod.splits option.splits)

lemma mint_refines:
  assumes "oa_room s" and "gm_get (byRequestID s) rid = Some p" and "oa_Code (ix_heap s p) = []"
  shows "case oa_mintLoop rng n p now g s of (res, s') \<Rightarrow> oa_room s' \<and>
    (case res of
       Inl e \<Rightarrow> s' = s \<and> (e = ErrOAuthRandomSource \<or> e = ErrOAuthIDsExhausted)
     | Inr r' \<Rightarrow> \<exists>code. length code = oauthAuthorizationCodeLength \<and> spec_by_code (ix_view s) code = None \<and>
         r' = with_code code now (ix_heap s p) \<and> ix_view s' = (ix_view s)(rid \<mapsto> r'))"
proof (induction n arbitrary: g)
  case 0
  then show ?case using assms(1) by simp
next
  case (Suc n)
  have ok: "oa.ix_ok s" using assms(1) by (simp add: oa_room_def)
  obtain c g' where c: "randomCode rng deviceLoginAlphabet oauthAuthorizationCodeLength g = (c, g')"
    by (cases "randomCode rng deviceLoginAlphabet oauthAuthorizationCodeLength g")
  show ?case
  proof (cases c)
    case None
    then show ?thesis using assms(1) c by simp
  next
    case (Some code)
    show ?thesis
    proof (cases "gm_get (byCode s) code = None")
      case False
      then show ?thesis using Suc.IH [of g'] c Some by simp
    next
      case True
      have len: "length code = oauthAuthorizationCodeLength"
        using c unfolding Some by (rule randomCode_length)
      then have ne: "code \<noteq> []" by (auto simp: oauthAuthorizationCodeLength_def)
      let ?r = "with_code code now (ix_heap s p)"
      let ?s = "(ix_set p ?r s)\<lparr>ix_secondary := gm_put code p (byCode s)\<rparr>"
      have keys: "oa_RequestID ?r = oa_RequestID (ix_heap s p)" "code_key (ix_heap s p) = None" "code_key ?r = Some code"
        using ne assms(3) by (simp_all add: with_code_def code_key_def)
      note link = oa.link_ok [OF ok oa.ix_okD(8) [OF ok assms(2)] keys True]
      have rid: "oa_RequestID ?r = rid" using keys(1) oa.ix_okD(4) [OF ok assms(2)] by simp
      have run: "oa_mintLoop rng (Suc n) p now g s = (Inr ?r, ?s)"
        using True by (simp add: c Some Let_def with_code_def)
      have "oa_room ?s" using link(1) assms(1) by (simp add: oa_room_def)
      moreover have "spec_by_code (ix_view s) code = None" using True by (simp add: spec_by_code_eq [OF ok])
      ultimately show ?thesis
        unfolding run using link(2) len rid by auto
    qed
  qed
qed

lemma oa_Complete_refines:
  assumes "oa_room s"
  shows "case oa_Complete rng rid user now g s of (res, s') \<Rightarrow>
    oa_room s' \<and> oa_spec_Complete rid user now (ix_view s) res (ix_view s')"
proof -
  obtain res s' where R: "resolveLocked rid user now s = (res, s')" by (cases "resolveLocked rid user now s")
  show ?thesis
  proof (cases res)
    case (Inl e)
    then show ?thesis
      using resolve_refines [OF assms, of rid user now] by (simp add: R oa_Complete_def oa_spec_Complete_def)
  next
    case (Inr p)
    have r: "s' = s" "gm_get (byRequestID s) rid = Some p"
      "spec_resolve rid user now (ix_view s) = (Inr (ix_heap s p), ix_view s)"
      using resolve_refines [OF assms, of rid user now] by (simp_all add: R Inr)
    show ?thesis
    proof (cases "oa_State (ix_heap s p) = OAuthAuthorizationApproved \<and> oa_Code (ix_heap s p) = []")
      case True
      then have "oa_Complete rng rid user now g s = oa_mintLoop rng codeAttempts p now g s"
        by (simp add: oa_Complete_def R Inr r(1))
      then show ?thesis
        using mint_refines [OF assms r(2), where rng = rng and n = codeAttempts and now = now and g = g] True
        by (auto simp: oa_spec_Complete_def r(3) split: prod.splits sum.splits)
    next
      case False
      then show ?thesis
        using assms r by (cases "oa_State (ix_heap s p)") (simp_all add: oa_Complete_def oa_spec_Complete_def R Inr)
    qed
  qed
qed

lemma oa_Exchange_refines:
  assumes "oa_room s"
  shows "case oa_Exchange code now s of (res, s') \<Rightarrow>
    oa_room s' \<and> (res, ix_view s') = oa_spec_Exchange code now (ix_view s)"
proof (cases "gm_get (byCode s) code")
  case None
  then show ?thesis
    using assms by (simp add: oa_Exchange_def oa_spec_Exchange_def spec_by_code_eq oa_room_def)
next
  case (Some p)
  have ok: "oa.ix_ok s" using assms by (simp add: oa_room_def)
  note rm = oa.remove_ok [OF ok oa.ix_okD(7) [OF ok Some]]
  have "oa_Code (ix_heap s p) \<noteq> []" using oa.ix_okD(6) [OF ok Some] by (auto simp: code_key_def split: if_splits)
  moreover have "length (byRequestID (oa_removeLocked p s)) \<le> length (byRequestID s)"
    by (simp add: oa.remove_eq length_gm_del_le)
  ultimately show ?thesis
    using rm assms
    by (simp add: oa_Exchange_def oa_spec_Exchange_def spec_by_code_eq [OF ok] Some deadline_def time_Before_def oa_room_def Let_def)
qed

text \<open>
  C9. Each operation behaves as its specification on the abstract map from request ids to
  requests: the owner is checked before the deadline, a request past its deadline is dropped,
  only a pending request is decided, only an approved one without a code gets a code, and a
  code is consumed by its exchange whether or not it is still in time.
\<close>

theorem oauth_store_refines:
  assumes "oa_room s"
  shows "(case oa_Get rid user now s of (res, s') \<Rightarrow>
      oa_room s' \<and> (res, ix_view s') = spec_resolve rid user now (ix_view s)) \<and>
    (case oa_Approve rid user approve now s of (res, s') \<Rightarrow>
      oa_room s' \<and> (res, ix_view s') = oa_spec_Approve rid user approve now (ix_view s)) \<and>
    (case oa_Complete rng rid user now g s of (res, s') \<Rightarrow>
      oa_room s' \<and> oa_spec_Complete rid user now (ix_view s) res (ix_view s')) \<and>
    (case oa_Exchange code now s of (res, s') \<Rightarrow>
      oa_room s' \<and> (res, ix_view s') = oa_spec_Exchange code now (ix_view s))"
  by (intro conjI oa_Get_refines oa_Approve_refines oa_Complete_refines oa_Exchange_refines assms)

text \<open>What \<open>Create\<close> stores.\<close>

definition fresh_request :: "OAuthAuthorizationRequest \<Rightarrow> string \<Rightarrow> time \<Rightarrow> OAuthAuthorizationRequest" where
  "fresh_request q rid now = q\<lparr>oa_RequestID := rid, oa_ApprovedByUserID := 0,
     oa_State := OAuthAuthorizationPending, oa_Code := [], oa_CodeExpireTime := zero_time,
     oa_CreateTime := now, oa_ExpireTime := now + OAuthAuthorizationRequestTTL\<rparr>"

lemma oa_Create_outcome:
  assumes "oa_room s" and "fair_range r"
  shows "case oa_createLoop rng r n q now g s of (res, s') \<Rightarrow> oa_room s' \<and>
    (case res of
       Inl e \<Rightarrow> s' = s
     | Inr q' \<Rightarrow> \<exists>rid. length rid = oauthAuthorizationCodeLength \<and> q' = fresh_request q rid now \<and>
         ix_view s rid = None \<and> ix_view s' = (ix_view (oa_pruneLocked r now s))(rid \<mapsto> q'))"
proof (induction n arbitrary: g)
  case 0
  then show ?case using assms(1) by simp
next
  case (Suc n)
  have ok: "oa.ix_ok s" and len: "length (byRequestID s) \<le> oauthAuthorizationRequestCapacity"
    using assms(1) by (simp_all add: oa_room_def)
  obtain c g' where c: "randomCode rng deviceLoginAlphabet oauthAuthorizationCodeLength g = (c, g')"
    by (cases "randomCode rng deviceLoginAlphabet oauthAuthorizationCodeLength g")
  show ?case
  proof (cases c)
    case None
    then show ?thesis using assms(1) c by simp
  next
    case (Some rid)
    show ?thesis
    proof (cases "gm_get (byRequestID s) rid = None")
      case False
      then show ?thesis using Suc.IH [of g'] c Some by simp
    next
      case True
      let ?q = "fresh_request q rid now" and ?s1 = "oa_pruneLocked r now s"
      have lr: "length rid = oauthAuthorizationCodeLength" using c unfolding Some by (rule randomCode_length)
      have ok1: "oa.ix_ok ?s1" unfolding oa_prune_eq by (rule oa.pruned_ok [OF ok assms(2) oa_capacity_pos])
      have v: "ix_view s rid = None" using True by (simp add: ix_view_def)
      then have v1: "ix_view ?s1 rid = None"
        using oa.pruned_view(1) [OF ok assms(2) oa_capacity_pos, of "oa_dead now" oa_CreateTime rid]
        unfolding oa_prune_eq by (metis not_None_eq)
      have keys: "oa_RequestID ?q = rid" "code_key ?q = None" by (simp_all add: fresh_request_def code_key_def)
      have ins: "oa.ix_ok (oa.ix_insert ?q ?s1)" "ix_view (oa.ix_insert ?q ?s1) = (ix_view ?s1)(rid \<mapsto> ?q)"
        using oa.insert_ok [OF ok1, of ?q] v1 keys by simp_all
      have run: "oa_createLoop rng r (Suc n) q now g s = (Inr ?q, oa.ix_insert ?q ?s1)"
        using True by (simp add: c Some Let_def oa.ix_insert_def fresh_request_def code_key_def ix_alloc_def ix_set_def)
      have "length (byRequestID ?s1) < oauthAuthorizationRequestCapacity"
        unfolding oa_prune_eq by (rule oa.pruned_room [OF ok assms(2) oa_capacity_pos len])
      then have "oa_room (oa.ix_insert ?q ?s1)"
        using ins(1) keys(2) by (simp add: oa_room_def oa.ix_insert_def ix_alloc_def length_gm_put)
      then show ?thesis unfolding run using ins(2) lr v by auto
    qed
  qed
qed

subsection \<open>Runs\<close>

datatype 'g oa_op =
    OACreate "'g rng" "(string, addr) ranging" OAuthAuthorizationRequest time 'g
  | OAGet string int time
  | OAApprove string int bool time
  | OAComplete "'g rng" string int time 'g
  | OAExchange string time

fun oa_step :: "OAuthStore \<Rightarrow> 'g oa_op \<Rightarrow> OAuthStore" where
  "oa_step s (OACreate rng r q now g) = snd (oa_Create rng r q now g s)"
| "oa_step s (OAGet rid user now) = snd (oa_Get rid user now s)"
| "oa_step s (OAApprove rid user approve now) = snd (oa_Approve rid user approve now s)"
| "oa_step s (OAComplete rng rid user now g) = snd (oa_Complete rng rid user now g s)"
| "oa_step s (OAExchange code now) = snd (oa_Exchange code now s)"

fun oa_fair :: "'g oa_op \<Rightarrow> bool" where
  "oa_fair (OACreate rng r q now g) = fair_range r"
| "oa_fair _ = True"

text \<open>A code exchanged for a grant, and a code minted.\<close>

fun oa_grants :: "OAuthStore \<Rightarrow> 'g oa_op \<Rightarrow> string option" where
  "oa_grants s (OAExchange code now) = (case fst (oa_Exchange code now s) of Inl _ \<Rightarrow> None | Inr _ \<Rightarrow> Some code)"
| "oa_grants s _ = None"

fun oa_mints :: "OAuthStore \<Rightarrow> 'g oa_op \<Rightarrow> string option" where
  "oa_mints s (OAComplete rng rid user now g) =
     (case fst (oa_Complete rng rid user now g s) of Inl _ \<Rightarrow> None | Inr r \<Rightarrow> Some (oa_Code r))"
| "oa_mints s _ = None"

definition oa_codes :: "OAuthStore \<Rightarrow> string set" where
  "oa_codes s = {c. spec_by_code (ix_view s) c \<noteq> None}"

lemma oa_step_room: "oa_room s \<Longrightarrow> oa_fair op \<Longrightarrow> oa_room (oa_step s op)"
  using oa_Create_outcome [of s] oa_Get_refines [of s] oa_Approve_refines [of s] oa_Complete_refines [of s]
    oa_Exchange_refines [of s]
  by (cases op) (fastforce simp: oa_Create_def case_prod_beta)+

interpretation oa_pool: bounded_pool oa_step oa_fair oa_room
  "\<lambda>s. length (byRequestID s)" "\<lambda>_. oauthAuthorizationRequestCapacity"
proof
  fix s and op :: "'g oa_op" assume "oa_room s" "oa_fair op"
  then show "oa_room (oa_step s op)" by (rule oa_step_room)
  then show "length (byRequestID (oa_step s op)) \<le> oauthAuthorizationRequestCapacity" by (simp add: oa_room_def)
qed simp

text \<open>What an operation may leave behind under a request id.\<close>

inductive oa_changes :: "'g oa_op \<Rightarrow> oa_map \<Rightarrow> string \<Rightarrow> OAuthAuthorizationRequest \<Rightarrow> bool" for op m k where
  oa_kept: "m k = Some r \<Longrightarrow> oa_changes op m k r"
| oa_born: "op = OACreate rng rg q now g \<Longrightarrow> m k = None \<Longrightarrow> oa_changes op m k (fresh_request q k now)"
| oa_judged: "op = OAApprove k (oa_UserID r) approve now \<Longrightarrow> m k = Some r \<Longrightarrow>
    oa_State r = OAuthAuthorizationPending \<Longrightarrow> now < fst (deadline r) \<Longrightarrow>
    oa_changes op m k (oa_decided (oa_UserID r) approve r)"
| oa_minted: "op = OAComplete rng k (oa_UserID r) now g \<Longrightarrow> m k = Some r \<Longrightarrow>
    oa_State r = OAuthAuthorizationApproved \<Longrightarrow> oa_Code r = [] \<Longrightarrow> now < oa_ExpireTime r \<Longrightarrow>
    length code = oauthAuthorizationCodeLength \<Longrightarrow> oa_changes op m k (with_code code now r)"

lemma spec_resolve_view:
  assumes "spec_resolve rid user now m = (res, m')"
  shows "m' k = Some r \<Longrightarrow> m k = Some r"
    and "res = Inr x \<Longrightarrow> m' = m \<and> m rid = Some x \<and> oa_UserID x = user \<and> now < fst (deadline x)"
  using assms by (auto simp: spec_resolve_def split: option.splits if_splits)

lemma oa_step_changes:
  assumes "oa_room s" and "oa_fair op" and "ix_view (oa_step s op) k = Some r"
  shows "oa_changes op (ix_view s) k r"
proof (cases op)
  case (OACreate rng rg q now g)
  obtain res s' where C: "oa_createLoop rng rg codeAttempts q now g s = (res, s')"
    by (cases "oa_createLoop rng rg codeAttempts q now g s")
  have f: "fair_range rg" using assms(2) OACreate by simp
  have ok: "oa.ix_ok s" using assms(1) by (simp add: oa_room_def)
  have v: "ix_view s' k = Some r" using assms(3) by (simp add: OACreate oa_Create_def C)
  show ?thesis
  proof (cases res)
    case (Inl e)
    then have "s' = s" using oa_Create_outcome [OF assms(1) f, where rng = rng and n = codeAttempts and q = q and now = now and g = g] by (simp add: C)
    then show ?thesis using v by (auto intro: oa_kept)
  next
    case (Inr q')
    then obtain rid where q': "q' = fresh_request q rid now" "ix_view s rid = None"
        "ix_view s' = (ix_view (oa_pruneLocked rg now s))(rid \<mapsto> q')"
      using oa_Create_outcome [OF assms(1) f, where rng = rng and n = codeAttempts and q = q and now = now and g = g] by (auto simp: C)
    show ?thesis
    proof (cases "k = rid")
      case True
      then show ?thesis using v q' OACreate by (auto intro: oa_born)
    next
      case False
      then have "ix_view (oa_pruneLocked rg now s) k = Some r" using v q'(3) by simp
      then have "ix_view s k = Some r"
        unfolding oa_prune_eq by (rule oa.pruned_view(1) [OF ok f oa_capacity_pos])
      then show ?thesis by (rule oa_kept)
    qed
  qed
next
  case (OAGet rid user now)
  then show ?thesis
    using oa_Get_refines [OF assms(1), of rid user now] assms(3)
    by (auto intro!: oa_kept dest: spec_resolve_view(1) [OF sym] split: prod.splits)
next
  case (OAApprove rid user approve now)
  obtain res m' where R: "spec_resolve rid user now (ix_view s) = (res, m')" by (cases "spec_resolve rid user now (ix_view s)")
  note R' = spec_resolve_view [OF R]
  have v: "snd (oa_spec_Approve rid user approve now (ix_view s)) k = Some r"
    using oa_Approve_refines [OF assms(1), of rid user approve now] assms(3) OAApprove
    unfolding case_prod_beta by (metis oa_step.simps(3) snd_conv)
  show ?thesis
    using v R' OAApprove by (cases res) (auto simp: oa_spec_Approve_def R intro: oa_kept oa_judged split: if_splits)
next
  case (OAComplete rng rid user now g)
  obtain res m' where R: "spec_resolve rid user now (ix_view s) = (res, m')" by (cases "spec_resolve rid user now (ix_view s)")
  note R' = spec_resolve_view [OF R]
  have C: "oa_spec_Complete rid user now (ix_view s) (fst (oa_Complete rng rid user now g s)) (ix_view (oa_step s op))"
    using oa_Complete_refines [OF assms(1), where rng = rng and rid = rid and user = user and now = now and g = g] OAComplete unfolding case_prod_beta by simp
  show ?thesis
    using C R' assms(3) OAComplete
    by (cases res) (auto simp: oa_spec_Complete_def R deadline_def intro: oa_kept oa_minted split: if_splits sum.splits)
next
  case (OAExchange code now)
  have v: "snd (oa_spec_Exchange code now (ix_view s)) k = Some r"
    using oa_Exchange_refines [OF assms(1), of code now] assms(3) OAExchange
    unfolding case_prod_beta by (metis oa_step.simps(5) snd_conv)
  then show ?thesis by (auto simp: oa_spec_Exchange_def intro!: oa_kept split: option.splits if_splits)
qed

lemma codes_view:
  "oa.ix_ok s \<Longrightarrow> c \<in> oa_codes s \<longleftrightarrow> (\<exists>k r. ix_view s k = Some r \<and> code_key r = Some c)"
  by (simp add: oa_codes_def spec_by_code_def)

lemma code_births:
  assumes "oa_room s" and "oa_fair op" and "c \<in> oa_codes (oa_step s op)"
  shows "c \<in> oa_codes s \<or> oa_mints s op = Some c"
proof -
  have ok: "oa.ix_ok s" "oa.ix_ok (oa_step s op)"
    using assms(1) oa_step_room [OF assms(1,2)] by (simp_all add: oa_room_def)
  obtain k r where r: "ix_view (oa_step s op) k = Some r" "code_key r = Some c"
    using assms(3) codes_view [OF ok(2)] by blast
  from oa_step_changes [OF assms(1,2) r(1)] show ?thesis
  proof cases
    case oa_kept
    then show ?thesis using r(2) codes_view [OF ok(1)] by blast
  next
    case (oa_born rng rg q now g)
    then show ?thesis using r(2) by (simp add: fresh_request_def code_key_def)
  next
    case (oa_judged r0 approve now)
    then have "code_key r0 = Some c" using r(2) by (simp add: oa_decided_def code_key_def split: if_splits)
    then show ?thesis using oa_judged codes_view [OF ok(1)] by blast
  next
    case (oa_minted rng r0 now g code)
    then have "ix_view (oa_step s op) k \<noteq> ix_view s k" using r(1)
      by (auto simp: with_code_def oauthAuthorizationCodeLength_def dest!: arg_cong [of _ _ oa_Code])
    then have "\<exists>r'. fst (oa_Complete rng k (oa_UserID r0) now g s) = Inr r' \<and> ix_view (oa_step s op) k = Some r'"
      using oa_Complete_refines [OF assms(1), where rng = rng and rid = k and user = "oa_UserID r0" and now = now and g = g] oa_minted
      by (auto simp: oa_spec_Complete_def spec_resolve_def deadline_def split: prod.splits sum.splits if_splits)
    then have "oa_mints s op = Some (oa_Code r)" using oa_minted r by auto
    then show ?thesis using r(2) by (simp add: code_key_def split: if_splits)
  qed
qed

lemma exchange_code:
  assumes "oa_room s" and "oa_grants s op = Some c"
  shows "c \<in> oa_codes s \<and> c \<notin> oa_codes (oa_step s op)"
proof -
  have ok: "oa.ix_ok s" using assms(1) by (simp add: oa_room_def)
  obtain now r where op: "op = OAExchange c now" "fst (oa_Exchange c now s) = Inr r"
    using assms(2) by (cases op) (auto split: sum.splits)
  have E: "oa_spec_Exchange c now (ix_view s) = (Inr r, ix_view (oa_step s op))"
    and room: "oa_room (oa_step s op)"
    using oa_Exchange_refines [OF assms(1), of c now] op by (auto split: prod.splits)
  have ok': "oa.ix_ok (oa_step s op)" using room by (simp add: oa_room_def)
  from E have r: "spec_by_code (ix_view s) c = Some r" "ix_view (oa_step s op) = (ix_view s)(oa_RequestID r := None)"
    by (auto simp: oa_spec_Exchange_def split: option.splits if_splits)
  have "False" if "ix_view (oa_step s op) k = Some x" "code_key x = Some c" for k x
  proof -
    have x: "ix_view s k = Some x" "k \<noteq> oa_RequestID r" using that(1) by (auto simp: r(2) split: if_splits)
    have "gm_get (byCode s) c \<noteq> None"
      and "\<And>p. gm_get (byCode s) c = Some p \<Longrightarrow> ix_heap s p = r \<and> ix_heap s p = x"
      using oa.view_of_secondary [OF ok, of c x] oa.view_key1 [OF ok x(1)] x(1) that(2) r(1)
      by (auto simp: spec_by_code_eq [OF ok])
    then show False using oa.view_key1 [OF ok x(1)] x(2) by auto
  qed
  then have "c \<notin> oa_codes (oa_step s op)" using codes_view [OF ok'] by blast
  then show ?thesis using r(1) by (simp add: oa_codes_def)
qed

interpretation oa_once: single_use oa_step oa_fair oa_room oa_codes oa_grants oa_mints
proof
  fix s k and op :: "'g oa_op"
  assume "oa_room s" "oa_fair op" "oa_grants s op = Some k"
  then show "k \<in> oa_codes s" and "k \<notin> oa_codes (oa_step s op)" using exchange_code by blast+
next
  fix s k and op :: "'g oa_op"
  assume "oa_room s" "oa_fair op" "k \<in> oa_codes (oa_step s op)"
  then show "k \<in> oa_codes s \<or> oa_mints s op = Some k" by (rule code_births)
qed

lemma new_oauth_store [simp]: "oa_room NewOAuthAuthorizationRequestStore" "ix_view NewOAuthAuthorizationRequestStore k = None"
  by (simp_all add: oa_room_def NewOAuthAuthorizationRequestStore_def) (simp add: ix_new_def)

subsection \<open>What a client and a user may rely on\<close>

text \<open>
  C6. An authorization code buys one token: over any run of the store, a code is exchanged
  successfully at most as often as it was minted, and a code never minted is never accepted.
\<close>

theorem oauth_code_single_use:
  assumes "\<forall>op\<in>set ops. oa_fair op"
  shows "hits oa_step oa_grants c NewOAuthAuthorizationRequestStore ops
      \<le> hits oa_step oa_mints c NewOAuthAuthorizationRequestStore ops"
  using oa_once.redeemed_at_most_minted [of NewOAuthAuthorizationRequestStore ops c] assms
  by (simp add: oa_codes_def spec_by_code_def)

text \<open>
  At most \<open>oauthAuthorizationRequestCapacity\<close> requests are held, and no more codes than requests.
\<close>

theorem oauth_store_bounded:
  assumes "\<forall>op\<in>set ops. oa_fair op"
  shows "let s = run oa_step NewOAuthAuthorizationRequestStore ops in
    length (byRequestID s) \<le> oauthAuthorizationRequestCapacity \<and> length (byCode s) \<le> length (byRequestID s)"
proof -
  have "oa_room (run oa_step NewOAuthAuthorizationRequestStore ops)"
    by (rule oa_pool.run_ok) (use assms in simp_all)
  then show ?thesis using oa.secondary_le_primary by (simp add: oa_room_def Let_def)
qed

text \<open>
  A request belongs to the user it was created for: for anybody else, reading, deciding or
  completing it answers "wrong user" and changes nothing, not even when it has expired.
\<close>

theorem oauth_request_ownership:
  assumes "gm_get (byRequestID s) rid = Some p" and "oa_UserID (ix_heap s p) \<noteq> user"
  shows "oa_Get rid user now s = (Inl ErrOAuthRequestWrongUser, s) \<and>
    oa_Approve rid user approve now s = (Some ErrOAuthRequestWrongUser, s) \<and>
    oa_Complete rng rid user now g s = (Inl ErrOAuthRequestWrongUser, s)"
  using assms by (simp add: oa_Get_def oa_Approve_def oa_Complete_def resolveLocked_def)

text \<open>The history of a stored request: creation, then consent of its user, then the code.\<close>

definition same_grant :: "OAuthAuthorizationRequest \<Rightarrow> OAuthAuthorizationRequest \<Rightarrow> bool" where
  "same_grant q r \<longleftrightarrow> oa_ClientID r = oa_ClientID q \<and> oa_RedirectURI r = oa_RedirectURI q \<and>
     oa_Resource r = oa_Resource q \<and> oa_Scopes r = oa_Scopes q \<and> oa_CodeChallenge r = oa_CodeChallenge q \<and>
     oa_CodeChallengeMethod r = oa_CodeChallengeMethod q \<and> oa_UserID r = oa_UserID q \<and>
     oa_ExpireTime r = oa_CreateTime r + OAuthAuthorizationRequestTTL"

definition oa_story :: "'g oa_op list \<Rightarrow> OAuthAuthorizationRequest \<Rightarrow> bool" where
  "oa_story ops r \<longleftrightarrow> (\<exists>rng rg q g t1 rng' t2 g'.
     same_grant q r \<and>
     (let asked = OACreate rng rg q (oa_CreateTime r) g;
          consented = OAApprove (oa_RequestID r) (oa_UserID r) True t1;
          coded = OAComplete rng' (oa_RequestID r) (oa_UserID r) t2 g'
      in if oa_State r \<noteq> OAuthAuthorizationApproved then subseq [asked] ops \<and> oa_Code r = []
         else oa_ApprovedByUserID r = oa_UserID r \<and> t1 < oa_ExpireTime r \<and>
           (if oa_Code r = [] then subseq [asked, consented] ops
            else subseq [asked, consented, coded] ops \<and> t2 < oa_ExpireTime r \<and>
              oa_CodeExpireTime r = t2 + OAuthAuthorizationCodeTTL)))"

lemma subseq_snoc_keep: "subseq xs ops \<Longrightarrow> subseq xs (ops @ [op])"
  by (metis append_Nil2 list_emb_append_mono list_emb_Nil)

lemma subseq_snoc_use: "subseq xs ops \<Longrightarrow> subseq (xs @ [op]) (ops @ [op])"
  by (rule list_emb_append_mono) simp_all

lemma oa_story_keep: "oa_story ops r \<Longrightarrow> oa_story (ops @ [op]) r"
  unfolding oa_story_def Let_def using subseq_snoc_keep by (smt (verit, best))

lemma oa_story_born: "oa_story (ops @ [OACreate rng rg q now g]) (fresh_request q k now)"
  unfolding oa_story_def Let_def
  by (rule exI [of _ rng], rule exI [of _ rg], rule exI [of _ q], rule exI [of _ g], intro exI)
    (use subseq_snoc_use [of "[]" ops "OACreate rng rg q now g"] in \<open>simp add: same_grant_def fresh_request_def\<close>)

lemma oa_story_judged:
  assumes "oa_story ops r" and "oa_State r = OAuthAuthorizationPending" and "now < fst (deadline r)"
    and "op = OAApprove (oa_RequestID r) (oa_UserID r) approve now"
  shows "oa_story (ops @ [op]) (oa_decided (oa_UserID r) approve r)"
proof -
  from assms(1,2) obtain rng rg q g where
    q: "same_grant q r" "subseq [OACreate rng rg q (oa_CreateTime r) g] ops" "oa_Code r = []"
    unfolding oa_story_def Let_def by auto
  have t: "now < oa_ExpireTime r" using assms(3) q(3) by (simp add: deadline_def)
  show ?thesis
  proof (cases approve)
    case True
    have "subseq [OACreate rng rg q (oa_CreateTime r) g, op] (ops @ [op])"
      using subseq_snoc_use [OF q(2), of op] by simp
    then show ?thesis
      unfolding oa_story_def Let_def using q t True assms(4)
      by (intro exI [of _ rng] exI [of _ rg] exI [of _ q] exI [of _ g] exI [of _ now] exI)
        (simp add: oa_decided_def same_grant_def)
  next
    case False
    then show ?thesis
      unfolding oa_story_def Let_def using q subseq_snoc_keep [OF q(2), of op]
      by (intro exI [of _ rng] exI [of _ rg] exI [of _ q] exI [of _ g] exI)
        (simp add: oa_decided_def same_grant_def)
  qed
qed

lemma oa_story_minted:
  assumes "oa_story ops r" and "oa_State r = OAuthAuthorizationApproved" and "oa_Code r = []"
    and "now < oa_ExpireTime r" and "code \<noteq> []"
    and "op = OAComplete rng' (oa_RequestID r) (oa_UserID r) now g'"
  shows "oa_story (ops @ [op]) (with_code code now r)"
proof -
  from assms(1-3) obtain rng rg q g t1 where
    q: "same_grant q r" "oa_ApprovedByUserID r = oa_UserID r" "t1 < oa_ExpireTime r"
      "subseq [OACreate rng rg q (oa_CreateTime r) g, OAApprove (oa_RequestID r) (oa_UserID r) True t1] ops"
    unfolding oa_story_def Let_def by auto
  have "subseq [OACreate rng rg q (oa_CreateTime r) g, OAApprove (oa_RequestID r) (oa_UserID r) True t1, op] (ops @ [op])"
    using subseq_snoc_use [OF q(4), of op] by simp
  then show ?thesis
    unfolding oa_story_def Let_def using q assms
    by (intro exI [of _ rng] exI [of _ rg] exI [of _ q] exI [of _ g] exI [of _ t1] exI [of _ rng'] exI [of _ now] exI [of _ g'])
      (simp add: with_code_def same_grant_def)
qed

lemma oa_history_step:
  assumes "oa_room s" and "oa_fair op" and "\<And>k r. ix_view s k = Some r \<Longrightarrow> oa_story ops r"
    and "ix_view (oa_step s op) k = Some r"
  shows "oa_story (ops @ [op]) r"
proof -
  have key: "ix_view s k = Some x \<Longrightarrow> oa_RequestID x = k" for x
    using assms(1) oa.view_key1 unfolding oa_room_def by blast
  from oa_step_changes [OF assms(1,2,4)] show ?thesis
  proof cases
    case oa_kept
    then show ?thesis using assms(3) by (blast intro: oa_story_keep)
  next
    case (oa_born rng rg q now g)
    then show ?thesis by (simp add: oa_story_born)
  next
    case (oa_judged r0 approve now)
    then show ?thesis using assms(3) key by (auto intro!: oa_story_judged)
  next
    case (oa_minted rng r0 now g code)
    then show ?thesis using assms(3) key
      by (auto intro!: oa_story_minted simp: oauthAuthorizationCodeLength_def)
  qed
qed

lemma oa_history_run:
  assumes "\<forall>op\<in>set ops. oa_fair op" and "ix_view (run oa_step NewOAuthAuthorizationRequestStore ops) k = Some r"
  shows "oa_story ops r"
  using assms
proof (induction ops arbitrary: k r rule: rev_induct)
  case (snoc op ops)
  have "oa_room (run oa_step NewOAuthAuthorizationRequestStore ops)"
    by (rule oa_pool.run_ok) (use snoc.prems(1) in simp_all)
  then show ?case
    using snoc by (intro oa_history_step [of "run oa_step NewOAuthAuthorizationRequestStore ops" op ops k]) (simp_all add: run_append)
qed simp

text \<open>
  C5. No code without consent: when a code is exchanged, the request was created for the user and
  client it names, that same user approved it and then had the code minted, all in this order
  and within the request's lifetime, and the exchange came within a minute of the minting.
\<close>

theorem oauth_grant_authorised:
  fixes ops :: "'g oa_op list"
  assumes "\<forall>op\<in>set ops. oa_fair op"
    and "oa_Exchange code now (run oa_step NewOAuthAuthorizationRequestStore ops) = (Inr r, s')"
  shows "\<exists>(rng :: 'g rng) rg q g t1 (rng' :: 'g rng) t2 g'.
    subseq [OACreate rng rg q (oa_CreateTime r) g,
            OAApprove (oa_RequestID r) (oa_UserID r) True t1,
            OAComplete rng' (oa_RequestID r) (oa_UserID r) t2 g'] ops \<and>
    oa_UserID q = oa_UserID r \<and> oa_ClientID q = oa_ClientID r \<and> oa_RedirectURI q = oa_RedirectURI r \<and>
    oa_CodeChallenge q = oa_CodeChallenge r \<and> oa_ApprovedByUserID r = oa_UserID r \<and>
    t1 < oa_CreateTime r + OAuthAuthorizationRequestTTL \<and> t2 < oa_CreateTime r + OAuthAuthorizationRequestTTL \<and>
    now < t2 + OAuthAuthorizationCodeTTL"
proof -
  let ?s = "run oa_step NewOAuthAuthorizationRequestStore ops"
  have room: "oa_room ?s" by (rule oa_pool.run_ok) (use assms(1) in simp_all)
  then have ok: "oa.ix_ok ?s" by (simp add: oa_room_def)
  have "oa_spec_Exchange code now (ix_view ?s) = (Inr r, ix_view s')"
    using oa_Exchange_refines [OF room, of code now] assms(2) by simp
  then have r: "spec_by_code (ix_view ?s) code = Some r" "now < oa_CodeExpireTime r"
    by (auto simp: oa_spec_Exchange_def split: option.splits if_splits)
  have v: "ix_view ?s (oa_RequestID r) = Some r" "oa_Code r \<noteq> []"
    using spec_by_code_view [OF ok r(1)] by (auto simp: code_key_def split: if_splits)
  obtain rng rg q g t1 and rng' :: "'g rng" and t2 g' where
    st: "same_grant q r" "oa_ApprovedByUserID r = oa_UserID r" "t1 < oa_ExpireTime r" "t2 < oa_ExpireTime r"
      "oa_CodeExpireTime r = t2 + OAuthAuthorizationCodeTTL"
      "subseq [OACreate rng rg q (oa_CreateTime r) g, OAApprove (oa_RequestID r) (oa_UserID r) True t1,
         OAComplete rng' (oa_RequestID r) (oa_UserID r) t2 g'] ops"
    using oa_history_run [OF assms(1) v(1)] v(2) unfolding oa_story_def Let_def by (auto split: if_splits)
  show ?thesis
    by (rule exI [of _ rng], rule exI [of _ rg], rule exI [of _ q], rule exI [of _ g], rule exI [of _ t1],
        rule exI [of _ rng'], rule exI [of _ t2], rule exI [of _ g'])
      (use st r(2) in \<open>simp add: same_grant_def\<close>)
qed

text \<open>A run for the witnesses: two requests of user 7, one approved and completed.\<close>

definition sample_rng :: "nat rng" where
  "sample_rng limit g = (if limit = 0 then (None, g) else (Some (g mod limit), g))"

definition sample_request :: OAuthAuthorizationRequest where
  "sample_request = zero_request\<lparr>oa_UserID := 7, oa_ClientID := ''app''\<rparr>"

definition rid :: "nat \<Rightarrow> string" where
  "rid n = replicate oauthAuthorizationCodeLength (deviceLoginAlphabet ! n)"

definition sample_ops :: "nat oa_op list" where
  "sample_ops = [OACreate sample_rng id sample_request minute 1, OACreate sample_rng rev sample_request minute 2,
     OAApprove (rid 1) 7 True (minute + 5), OAComplete sample_rng (rid 1) 7 (minute + 6) 10]"

lemma sample_fair [simp]: "\<forall>op\<in>set sample_ops. oa_fair op" "oa_fair (OAExchange code now)"
  by (simp_all add: sample_ops_def)

theorem oauth_grant_authorised_witness:
  "\<exists>r s'. oa_Exchange (rid 10) (minute + 7) (run oa_step NewOAuthAuthorizationRequestStore sample_ops) = (Inr r, s') \<and>
     oa_ApprovedByUserID r = oa_UserID r"
proof -
  obtain res s' where ex:
      "oa_Exchange (rid 10) (minute + 7) (run oa_step NewOAuthAuthorizationRequestStore sample_ops) = (res, s')"
    by (cases "oa_Exchange (rid 10) (minute + 7) (run oa_step NewOAuthAuthorizationRequestStore sample_ops)")
  have "isl (fst (oa_Exchange (rid 10) (minute + 7) (run oa_step NewOAuthAuthorizationRequestStore sample_ops))) = False"
    by code_simp
  then obtain r where r: "res = Inr r" by (cases res) (simp_all add: ex)
  show ?thesis
    using oauth_grant_authorised [OF sample_fair(1) ex [unfolded r]] ex r by auto
qed

theorem oauth_code_single_use_witness:
  "let ops = sample_ops @ [OAExchange (rid 10) (minute + 7), OAExchange (rid 10) (minute + 8)]
   in hits oa_step oa_grants (rid 10) NewOAuthAuthorizationRequestStore ops = 1 \<and>
      hits oa_step oa_grants (rid 10) NewOAuthAuthorizationRequestStore ops
        \<le> hits oa_step oa_mints (rid 10) NewOAuthAuthorizationRequestStore ops"
proof -
  let ?ops = "sample_ops @ [OAExchange (rid 10) (minute + 7), OAExchange (rid 10) (minute + 8)]"
  have "hits oa_step oa_grants (rid 10) NewOAuthAuthorizationRequestStore ?ops = 1" by code_simp
  moreover have "hits oa_step oa_grants (rid 10) NewOAuthAuthorizationRequestStore ?ops
      \<le> hits oa_step oa_mints (rid 10) NewOAuthAuthorizationRequestStore ?ops"
    by (rule oauth_code_single_use) (simp add: ball_Un)
  ultimately show ?thesis by (simp only: Let_def)
qed

theorem oauth_store_bounded_witness:
  "let s = run oa_step NewOAuthAuthorizationRequestStore sample_ops in
    length (byRequestID s) \<le> oauthAuthorizationRequestCapacity \<and> length (byCode s) \<le> length (byRequestID s)"
  by (rule oauth_store_bounded) simp

theorem oauth_request_ownership_witness:
  "oa_Approve (rid 1) 8 True (minute + 5) (run oa_step NewOAuthAuthorizationRequestStore (take 2 sample_ops)) =
     (Some ErrOAuthRequestWrongUser, run oa_step NewOAuthAuthorizationRequestStore (take 2 sample_ops))"
proof -
  let ?s = "run oa_step NewOAuthAuthorizationRequestStore (take 2 sample_ops)"
  have "gm_get (byRequestID ?s) (rid 1) = Some 0" "oa_UserID (ix_heap ?s 0) = 7" by code_simp+
  then show ?thesis
    using oauth_request_ownership [of ?s "rid 1" 0 8 "minute + 5" True sample_rng 0] by simp
qed

theorem oauth_store_refines_witness:
  "case oa_Approve (rid 1) 7 True (minute + 5) (run oa_step NewOAuthAuthorizationRequestStore (take 2 sample_ops)) of
     (res, s') \<Rightarrow> oa_room s' \<and>
       (res, ix_view s') = oa_spec_Approve (rid 1) 7 True (minute + 5)
          (ix_view (run oa_step NewOAuthAuthorizationRequestStore (take 2 sample_ops)))"
proof -
  have "oa_room (run oa_step NewOAuthAuthorizationRequestStore (take 2 sample_ops))"
    by (rule oa_pool.run_ok) (simp_all add: sample_ops_def)
  from oauth_store_refines [OF this, where rid = "rid 1" and user = 7 and approve = True and now = "minute + 5",
      THEN conjunct2, THEN conjunct1]
  show ?thesis .
qed

end
