(* ===== verification/Connection_Governor.thy ===== *)
theory Connection_Governor
  imports Go_Prelude "HOL-Library.Word"
begin

text \<open>
  The queue that hands out an instance's connection budget: \<open>connectionGovernor\<close> of
  \<open>backend/component/state/connection.go\<close>. Its critical sections are operations on the
  governor; a waiting goroutine holds a pointer to its \<open>connectionWaiter\<close>, which the governor
  mutates when it grants the slot, so waiters live on an explicit heap and queues hold their
  addresses. The interleavings of goroutines that acquire, wake up, give up and release are the
  system at the end.
\<close>

subsection \<open>State\<close>

type_synonym ConnectionPriority = int

definition ConnectionPriorityBackground :: ConnectionPriority where "ConnectionPriorityBackground = 0"
definition ConnectionPriorityManual :: ConnectionPriority where "ConnectionPriorityManual = 1"
definition ConnectionPriorityInteractive :: ConnectionPriority where "ConnectionPriorityInteractive = 2"

record InstanceConnectionRequest =
  InstanceID :: string
  MaximumConnections :: int
  Priority :: ConnectionPriority

text \<open>\<open>w_ready\<close> says that the channel is closed, which is what wakes the waiting goroutine up.\<close>

record connectionWaiter =
  w_priority :: ConnectionPriority
  w_sequence :: "64 word"
  w_limit :: int
  w_granted :: bool
  w_ready :: bool

record connectionGovernor =
  g_holders :: "(string, int) gomap"
  g_waiters :: "(string, nat list) gomap"
  g_sequence :: "64 word"
  g_heap :: "nat \<Rightarrow> connectionWaiter"
  g_next :: nat

definition newConnectionGovernor :: connectionGovernor where
  "newConnectionGovernor =
     \<lparr>g_holders = [], g_waiters = [], g_sequence = 0,
      g_heap = (\<lambda>_. \<lparr>w_priority = 0, w_sequence = 0, w_limit = 0, w_granted = False, w_ready = False\<rparr>),
      g_next = 0\<rparr>"

text \<open>Reading a key a Go map does not have yields the zero value.\<close>

definition held :: "connectionGovernor \<Rightarrow> string \<Rightarrow> int" where
  "held g inst = (case gm_get (g_holders g) inst of None \<Rightarrow> 0 | Some n \<Rightarrow> n)"

definition queue :: "connectionGovernor \<Rightarrow> string \<Rightarrow> nat list" where
  "queue g inst = (case gm_get (g_waiters g) inst of None \<Rightarrow> [] | Some ws \<Rightarrow> ws)"

definition set_held :: "string \<Rightarrow> int \<Rightarrow> connectionGovernor \<Rightarrow> connectionGovernor" where
  "set_held inst n g = g\<lparr>g_holders := gm_put inst n (g_holders g)\<rparr>"

text \<open>Storing a queue back: an empty one is deleted from the map.\<close>

definition set_queue :: "string \<Rightarrow> nat list \<Rightarrow> connectionGovernor \<Rightarrow> connectionGovernor" where
  "set_queue inst ws g =
     g\<lparr>g_waiters := (if ws = [] then gm_del inst (g_waiters g) else gm_put inst ws (g_waiters g))\<rparr>"

lemma held_simps [simp]:
  "held (set_held inst n g) = (held g)(inst := n)"
  "held (set_queue inst ws g) = held g"
  "held (g\<lparr>g_heap := h\<rparr>) = held g"
  by (rule ext; simp add: held_def set_held_def set_queue_def gm_get_put)+

lemma queue_simps [simp]:
  "queue (set_queue inst ws g) = (queue g)(inst := ws)"
  "queue (set_held inst n g) = queue g"
  "queue (g\<lparr>g_heap := h\<rparr>) = queue g"
  by (rule ext; simp add: queue_def set_held_def set_queue_def gm_get_put gm_get_del)+

lemma frame_simps [simp]:
  "g_heap (set_held inst n g) = g_heap g" "g_heap (set_queue inst ws g) = g_heap g"
  "g_next (set_held inst n g) = g_next g" "g_next (set_queue inst ws g) = g_next g"
  "g_sequence (set_held inst n g) = g_sequence g" "g_sequence (set_queue inst ws g) = g_sequence g"
  by (simp_all add: set_held_def set_queue_def)

subsection \<open>Operations\<close>

definition admissibleLocked :: "InstanceConnectionRequest \<Rightarrow> connectionGovernor \<Rightarrow> bool" where
  "admissibleLocked request g \<longleftrightarrow>
     MaximumConnections request \<le> 0 \<or> held g (InstanceID request) < MaximumConnections request"

definition tryAcquire :: "InstanceConnectionRequest \<Rightarrow> connectionGovernor \<Rightarrow> bool \<times> connectionGovernor" where
  "tryAcquire request g =
     (if queue g (InstanceID request) \<noteq> [] \<or> \<not> admissibleLocked request g then (False, g)
      else (True, set_held (InstanceID request) (held g (InstanceID request) + 1) g))"

text \<open>
  \<open>acquire\<close> up to its \<open>select\<close>: the context is already done, the slot is there, or the goroutine
  waits on the waiter at the given address.
\<close>

datatype acquired = AcquireRefused | AcquireAdmitted | AcquireQueued nat

definition acquireStart ::
    "InstanceConnectionRequest \<Rightarrow> bool \<Rightarrow> connectionGovernor \<Rightarrow> acquired \<times> connectionGovernor" where
  "acquireStart request ctxDone g =
     (if ctxDone then (AcquireRefused, g)
      else if queue g (InstanceID request) = [] \<and> admissibleLocked request g
      then (AcquireAdmitted, set_held (InstanceID request) (held g (InstanceID request) + 1) g)
      else
        let waiter = g_next g;
            g1 = g\<lparr>g_heap := (g_heap g)(waiter := \<lparr>w_priority = Priority request, w_sequence = g_sequence g,
                     w_limit = MaximumConnections request, w_granted = False, w_ready = False\<rparr>),
                   g_next := g_next g + 1,
                   g_sequence := g_sequence g + 1\<rparr>
        in (AcquireQueued waiter, set_queue (InstanceID request) (queue g1 (InstanceID request) @ [waiter]) g1))"

text \<open>The comparison of the loop in \<open>bestWaiterIndex\<close>, and the loop from index \<open>i\<close> on.\<close>

definition beats :: "connectionWaiter \<Rightarrow> connectionWaiter \<Rightarrow> bool" where
  "beats w best \<longleftrightarrow> w_priority best < w_priority w \<or>
     (w_priority w = w_priority best \<and> w_sequence w < w_sequence best)"

fun bestLoop :: "(nat \<Rightarrow> connectionWaiter) \<Rightarrow> nat list \<Rightarrow> nat \<Rightarrow> nat \<Rightarrow> connectionWaiter \<Rightarrow> nat" where
  "bestLoop h [] i best w = best"
| "bestLoop h (x # xs) i best w =
     (if beats (h x) w then bestLoop h xs (i + 1) i (h x) else bestLoop h xs (i + 1) best w)"

definition bestWaiterIndex :: "(nat \<Rightarrow> connectionWaiter) \<Rightarrow> nat list \<Rightarrow> nat" where
  "bestWaiterIndex h waiters = bestLoop h (tl waiters) 1 0 (h (hd waiters))"

lemma bestLoop_bound: "best < i \<Longrightarrow> bestLoop h xs i best w < i + length xs"
proof (induction xs arbitrary: i best w)
  case (Cons x xs)
  then show ?case using Cons.IH [of i "i + 1" "h x"] Cons.IH [of best "i + 1" w] by simp
qed simp

lemma bestWaiterIndex_bound: "waiters \<noteq> [] \<Longrightarrow> bestWaiterIndex h waiters < length waiters"
  using bestLoop_bound [of 0 1 h "tl waiters" "h (hd waiters)"]
  by (cases waiters) (simp_all add: bestWaiterIndex_def)

lemma length_without: "n < length xs \<Longrightarrow> length (take n xs @ drop (Suc n) xs) < length xs"
  by simp

text \<open>The loop of \<open>dispatchLocked\<close> over the local slice, which is stored back at its end.\<close>

function dispatchLoop :: "string \<Rightarrow> nat list \<Rightarrow> connectionGovernor \<Rightarrow> nat list \<times> connectionGovernor" where
  "dispatchLoop inst waiters g =
     (if waiters = [] then (waiters, g)
      else
        let next = bestWaiterIndex (g_heap g) waiters;
            waiter = waiters ! next;
            limit = w_limit (g_heap g waiter)
        in if 0 < limit \<and> limit \<le> held g inst then (waiters, g)
           else
             let g1 = set_held inst (held g inst + 1) g;
                 g2 = g1\<lparr>g_heap := (g_heap g1)(waiter := (g_heap g1 waiter)\<lparr>w_granted := True, w_ready := True\<rparr>)\<rparr>
             in dispatchLoop inst (take next waiters @ drop (Suc next) waiters) g2)"
  by pat_completeness auto
termination
proof (relation "measure (\<lambda>(_, waiters, _). length waiters)", goal_cases)
  case (2 inst waiters g)
  then show ?case
    using length_without [OF bestWaiterIndex_bound [of waiters "g_heap g"]] by (simp add: Let_def)
qed simp

declare dispatchLoop.simps [simp del]

definition dispatchLocked :: "string \<Rightarrow> connectionGovernor \<Rightarrow> connectionGovernor" where
  "dispatchLocked inst g =
     (case dispatchLoop inst (queue g inst) g of (waiters, g') \<Rightarrow> set_queue inst waiters g')"

definition release :: "string \<Rightarrow> connectionGovernor \<Rightarrow> connectionGovernor" where
  "release inst g =
     dispatchLocked inst
       (if held g inst \<le> 1 then g\<lparr>g_holders := gm_del inst (g_holders g)\<rparr>
        else set_held inst (held g inst - 1) g)"

definition removeWaiterLocked :: "string \<Rightarrow> nat \<Rightarrow> connectionGovernor \<Rightarrow> connectionGovernor" where
  "removeWaiterLocked inst waiter g = set_queue inst (remove1 waiter (queue g inst)) g"

text \<open>The critical section of an \<open>acquire\<close> whose context is done: whether the slot had been granted.\<close>

definition acquireCancel :: "string \<Rightarrow> nat \<Rightarrow> connectionGovernor \<Rightarrow> bool \<times> connectionGovernor" where
  "acquireCancel inst waiter g =
     (if w_granted (g_heap g waiter) then (True, g) else (False, removeWaiterLocked inst waiter g))"

subsection \<open>Goroutines\<close>

text \<open>
  A goroutine that has called \<open>acquire\<close> or \<open>tryAcquire\<close>: waiting in the \<open>select\<close> for its waiter,
  holding a lease, between giving up and returning a slot that was granted to it meanwhile, or
  finished. Calling the release function of a finished lease again does nothing (\<open>sync.Once\<close>).
\<close>

datatype client = Waiting string nat | Holding string | Returning string | Finished

record gov_system =
  gov :: connectionGovernor
  clients :: "client list"

datatype gov_action =
    GAcquire InstanceConnectionRequest bool
  | GTry InstanceConnectionRequest
  | GWake nat
  | GCancel nat
  | GReturn nat
  | GRelease nat

definition set_client :: "nat \<Rightarrow> client \<Rightarrow> gov_system \<Rightarrow> gov_system" where
  "set_client i c s = s\<lparr>clients := (clients s)[i := c]\<rparr>"

fun gov_exec :: "gov_action \<Rightarrow> gov_system \<Rightarrow> gov_system option" where
  "gov_exec (GAcquire request ctxDone) s =
     (case acquireStart request ctxDone (gov s) of
        (AcquireRefused, g) \<Rightarrow> Some (s\<lparr>gov := g\<rparr>)
      | (AcquireAdmitted, g) \<Rightarrow> Some (s\<lparr>gov := g, clients := clients s @ [Holding (InstanceID request)]\<rparr>)
      | (AcquireQueued w, g) \<Rightarrow> Some (s\<lparr>gov := g, clients := clients s @ [Waiting (InstanceID request) w]\<rparr>))"
| "gov_exec (GTry request) s =
     (case tryAcquire request (gov s) of
        (ok, g) \<Rightarrow> Some (s\<lparr>gov := g, clients := clients s @ (if ok then [Holding (InstanceID request)] else [])\<rparr>))"
| "gov_exec (GWake i) s =
     (if i < length (clients s)
      then case clients s ! i of
          Waiting inst w \<Rightarrow> if w_ready (g_heap (gov s) w) then Some (set_client i (Holding inst) s) else None
        | _ \<Rightarrow> None
      else None)"
| "gov_exec (GCancel i) s =
     (if i < length (clients s)
      then case clients s ! i of
          Waiting inst w \<Rightarrow>
            (case acquireCancel inst w (gov s) of
               (granted, g) \<Rightarrow> Some ((set_client i (if granted then Returning inst else Finished) s)\<lparr>gov := g\<rparr>))
        | _ \<Rightarrow> None
      else None)"
| "gov_exec (GReturn i) s =
     (if i < length (clients s)
      then case clients s ! i of
          Returning inst \<Rightarrow> Some ((set_client i Finished s)\<lparr>gov := release inst (gov s)\<rparr>)
        | _ \<Rightarrow> None
      else None)"
| "gov_exec (GRelease i) s =
     (if i < length (clients s)
      then case clients s ! i of
          Holding inst \<Rightarrow> Some ((set_client i Finished s)\<lparr>gov := release inst (gov s)\<rparr>)
        | Finished \<Rightarrow> Some s
        | _ \<Rightarrow> None
      else None)"

text \<open>The runs in which every request satisfies \<open>P\<close>.\<close>

fun asks :: "(InstanceConnectionRequest \<Rightarrow> bool) \<Rightarrow> gov_action \<Rightarrow> bool" where
  "asks P (GAcquire request ctxDone) = P request"
| "asks P (GTry request) = P request"
| "asks P _ = True"

inductive gov_reachable :: "(InstanceConnectionRequest \<Rightarrow> bool) \<Rightarrow> gov_system \<Rightarrow> bool" for P where
  gov_init: "gov_reachable P \<lparr>gov = newConnectionGovernor, clients = []\<rparr>"
| gov_next: "gov_reachable P s \<Longrightarrow> asks P a \<Longrightarrow> gov_exec a s = Some s' \<Longrightarrow> gov_reachable P s'"

subsection \<open>Accounting\<close>

text \<open>The goroutines that occupy a slot of an instance, given which waiters were granted one.\<close>

fun occupies :: "(nat \<Rightarrow> connectionWaiter) \<Rightarrow> string \<Rightarrow> client \<Rightarrow> bool" where
  "occupies h inst (Waiting i w) = (i = inst \<and> w_granted (h w))"
| "occupies h inst (Holding i) = (i = inst)"
| "occupies h inst (Returning i) = (i = inst)"
| "occupies h inst Finished = False"

definition occupants :: "(nat \<Rightarrow> connectionWaiter) \<Rightarrow> string \<Rightarrow> client list \<Rightarrow> nat set" where
  "occupants h inst cl = {i. i < length cl \<and> occupies h inst (cl ! i)}"

lemma finite_occupants [simp]: "finite (occupants h inst cl)"
  by (simp add: occupants_def)

lemma occupants_append:
  "occupants h inst (cl @ [c]) = occupants h inst cl \<union> (if occupies h inst c then {length cl} else {})"
  by (auto simp: occupants_def nth_append less_Suc_eq)

lemma occupants_update:
  "i < length cl \<Longrightarrow> occupants h inst (cl[i := c]) =
     occupants h inst cl - {i} \<union> (if occupies h inst c then {i} else {})"
  by (auto simp: occupants_def nth_list_update)

lemma occupants_new [simp]: "length cl \<notin> occupants h inst cl"
  by (simp add: occupants_def)

text \<open>
  The invariant, over the holder counts, the queues, the waiters' heap and the next address: a
  count is the number of occupied slots; the queue of an instance lists, once each, exactly the
  waiters of goroutines that wait without a grant; a waiter belongs to one goroutine.
\<close>

definition accounted ::
    "client list \<Rightarrow> (string \<Rightarrow> int) \<Rightarrow> (string \<Rightarrow> nat list) \<Rightarrow> (nat \<Rightarrow> connectionWaiter) \<Rightarrow> nat \<Rightarrow> bool" where
  "accounted cl H Q h n \<longleftrightarrow>
     (\<forall>inst. H inst = int (card (occupants h inst cl))) \<and>
     (\<forall>inst. distinct (Q inst)) \<and>
     (\<forall>inst w. w \<in> set (Q inst) \<longrightarrow> \<not> w_granted (h w) \<and> Waiting inst w \<in> set cl) \<and>
     (\<forall>inst w. Waiting inst w \<in> set cl \<longrightarrow> w < n \<and> (w_granted (h w) \<or> w \<in> set (Q inst))) \<and>
     (\<forall>i j inst inst' w. i < length cl \<longrightarrow> j < length cl \<longrightarrow> cl ! i = Waiting inst w \<longrightarrow>
        cl ! j = Waiting inst' w \<longrightarrow> i = j) \<and>
     (\<forall>w. w_ready (h w) = w_granted (h w))"

lemma accountedD:
  assumes "accounted cl H Q h n"
  shows "H inst = int (card (occupants h inst cl))"
    and "distinct (Q inst)"
    and "w \<in> set (Q inst) \<Longrightarrow> \<not> w_granted (h w)"
    and "w \<in> set (Q inst) \<Longrightarrow> Waiting inst w \<in> set cl"
    and "Waiting inst w \<in> set cl \<Longrightarrow> w < n"
    and "Waiting inst w \<in> set cl \<Longrightarrow> w_granted (h w) \<or> w \<in> set (Q inst)"
    and "i < length cl \<Longrightarrow> j < length cl \<Longrightarrow> cl ! i = Waiting inst w \<Longrightarrow> cl ! j = Waiting inst' w \<Longrightarrow> i = j"
    and "w_ready (h w) = w_granted (h w)"
  using assms unfolding accounted_def by blast+

lemma accountedI:
  assumes "\<And>inst. H inst = int (card (occupants h inst cl))"
    and "\<And>inst. distinct (Q inst)"
    and "\<And>inst w. w \<in> set (Q inst) \<Longrightarrow> \<not> w_granted (h w) \<and> Waiting inst w \<in> set cl"
    and "\<And>inst w. Waiting inst w \<in> set cl \<Longrightarrow> w < n \<and> (w_granted (h w) \<or> w \<in> set (Q inst))"
    and "\<And>i j inst inst' w. i < length cl \<Longrightarrow> j < length cl \<Longrightarrow> cl ! i = Waiting inst w \<Longrightarrow>
        cl ! j = Waiting inst' w \<Longrightarrow> i = j"
    and "\<And>w. w_ready (h w) = w_granted (h w)"
  shows "accounted cl H Q h n"
  unfolding accounted_def using assms by blast

text \<open>Granting a queued waiter its slot.\<close>

lemma accounted_grant:
  assumes "accounted cl H Q h n" and "w \<in> set (Q inst)"
  shows "accounted cl (H(inst := H inst + 1)) (Q(inst := remove1 w (Q inst)))
    (h(w := (h w)\<lparr>w_granted := True, w_ready := True\<rparr>)) n"
proof -
  let ?h = "h(w := (h w)\<lparr>w_granted := True, w_ready := True\<rparr>)" and ?Q = "Q(inst := remove1 w (Q inst))"
  note a = accountedD [OF assms(1)]
  obtain j where j: "j < length cl" "cl ! j = Waiting inst w"
    using a(4) [OF assms(2)] by (metis in_set_conv_nth)
  have own: "i = j \<and> inst' = inst" if "i < length cl" "cl ! i = Waiting inst' w" for i inst'
    using a(7) [OF that(1) j(1) that(2) j(2)] that(2) j(2) by auto
  have occ: "occupies ?h inst' (cl ! i) \<longleftrightarrow> occupies h inst' (cl ! i) \<or> i = j \<and> inst' = inst"
    if "i < length cl" for i inst'
    using own [OF that] j by (cases "cl ! i") (auto split: if_splits)
  have "occupants ?h inst' cl = occupants h inst' cl \<union> (if inst' = inst then {j} else {})" for inst'
    using occ j(1) by (auto simp: occupants_def)
  moreover have "j \<notin> occupants h inst cl" using j(2) a(3) [OF assms(2)] by (simp add: occupants_def)
  ultimately have "(H(inst := H inst + 1)) inst' = int (card (occupants ?h inst' cl))" for inst'
    using a(1) by simp
  moreover have "\<not> w_granted (?h x) \<and> Waiting inst' x \<in> set cl" if "x \<in> set (?Q inst')" for inst' x
  proof -
    have x: "x \<in> set (Q inst')" "inst' = inst \<longrightarrow> x \<noteq> w"
      using that a(2) [of inst] by (auto split: if_splits dest: notin_set_remove1)
    have "x \<noteq> w" using x a(4) [OF x(1)] own by (metis in_set_conv_nth)
    then show ?thesis using a(3,4) [OF x(1)] by simp
  qed
  moreover have "x < n \<and> (w_granted (?h x) \<or> x \<in> set (?Q inst'))" if "Waiting inst' x \<in> set cl" for inst' x
    using a(5,6) [OF that] by (auto simp: in_set_remove1)
  ultimately show ?thesis
    by (intro accountedI) (use a(2,7,8) in auto)
qed

lemma accounted_heap_unused:
  assumes "accounted cl H Q h n"
  shows "occupants (h(n := x)) inst cl = occupants h inst cl"
proof -
  have "occupies (h(n := x)) inst (cl ! i) = occupies h inst (cl ! i)" if "i < length cl" for i
    using accountedD(5) [OF assms, of inst n] that by (cases "cl ! i") (auto dest: nth_mem)
  then show ?thesis by (auto simp: occupants_def)
qed

lemma accounted_admit:
  assumes "accounted cl H Q h n"
  shows "accounted (cl @ [Holding inst]) (H(inst := H inst + 1)) Q h n"
proof (rule accountedI, goal_cases)
  case (5 i j inst1 inst2 w)
  then show ?case using accountedD(7) [OF assms, of i j] by (auto simp: nth_append split: if_splits)
qed (use accountedD [OF assms] in \<open>auto simp: occupants_append\<close>)

lemma accounted_enqueue:
  assumes "accounted cl H Q h n" and "\<not> w_granted x" and "\<not> w_ready x"
  shows "accounted (cl @ [Waiting inst n]) H (Q(inst := Q inst @ [n])) (h(n := x)) (n + 1)"
proof -
  note a = accountedD [OF assms(1)]
  have new: "Waiting inst' n \<notin> set cl" for inst' using a(5) by blast
  have notq: "n \<notin> set (Q inst')" for inst' using a(4) new by blast
  show ?thesis
  proof (rule accountedI, goal_cases)
    case (1 inst')
    then show ?case using a(1) assms(2) by (simp add: occupants_append accounted_heap_unused [OF assms(1)])
  next
    case (2 inst')
    then show ?case using a(2) notq by simp
  next
    case (3 inst' w)
    then show ?case using a(3,4) notq assms(2) by (auto split: if_splits)
  next
    case (4 inst' w)
    then show ?case using a(5,6) [of inst' w] new by (auto split: if_splits)
  next
    case (5 i j inst1 inst2 w)
    have "\<not> (i < length cl \<and> cl ! i = Waiting inst' n)" for i inst'
      using new nth_mem by metis
    then show ?case using 5 a(7) [of i j] by (auto simp: nth_append less_Suc_eq split: if_splits)
  next
    case (6 w)
    then show ?case using a(8) assms(2,3) by simp
  qed
qed

text \<open>A goroutine moves on: what it waits for must be settled, and the count must follow.\<close>

lemma accounted_move:
  assumes "accounted cl H Q h n" and "i < length cl"
    and "\<And>inst w. c \<noteq> Waiting inst w"
    and "\<And>inst. H' inst = H inst - of_bool (occupies h inst (cl ! i)) + of_bool (occupies h inst c)"
    and "\<And>inst w. cl ! i = Waiting inst w \<Longrightarrow> w \<notin> set (Q inst)"
  shows "accounted (cl[i := c]) H' Q h n"
proof -
  note a = accountedD [OF assms(1)]
  have keep: "Waiting inst w \<in> set (cl[i := c]) \<Longrightarrow> Waiting inst w \<in> set cl" for inst w
    using set_update_subset_insert [of cl i c] assms(3) [of inst w] by blast
  show ?thesis
  proof (rule accountedI, goal_cases)
    case (1 inst)
    have c: "card (occupants h inst cl) = card (occupants h inst cl - {i}) + of_bool (i \<in> occupants h inst cl)"
    proof (cases "i \<in> occupants h inst cl")
      case True
      then show ?thesis using card.remove [OF finite_occupants True] by simp
    qed simp
    have "i \<in> occupants h inst cl \<longleftrightarrow> occupies h inst (cl ! i)"
      using assms(2) by (simp add: occupants_def)
    then have "int (card (occupants h inst cl)) =
        int (card (occupants h inst cl - {i})) + of_bool (occupies h inst (cl ! i))"
      using c by simp
    moreover have "card (insert i (occupants h inst cl - {i})) = Suc (card (occupants h inst cl - {i}))"
      by (rule card_insert_disjoint) simp_all
    then have "card (occupants h inst (cl[i := c])) = card (occupants h inst cl - {i}) + of_bool (occupies h inst c)"
      unfolding occupants_update [OF assms(2)] by simp
    ultimately show ?case using assms(4) [of inst] a(1) [of inst] by simp
  next
    case (2 inst)
    then show ?case by (rule a(2))
  next
    case (3 inst w)
    have "Waiting inst w \<in> set cl" by (rule a(4) [OF 3])
    then obtain j where j: "j < length cl" "cl ! j = Waiting inst w" by (metis in_set_conv_nth)
    have "j \<noteq> i" using assms(5) j(2) 3 by auto
    then have "cl[i := c] ! j = Waiting inst w" using j by simp
    then have "Waiting inst w \<in> set (cl[i := c])" using j(1) by (metis length_list_update nth_mem)
    then show ?case using a(3) [OF 3] by simp
  next
    case (4 inst w)
    then show ?case using a(5,6) keep by blast
  next
    case (5 j k inst1 inst2 w)
    then show ?case using a(7) [of j k] assms(3) by (cases "j = i"; cases "k = i") auto
  next
    case (6 w)
    then show ?case by (rule a(8))
  qed
qed

lemma accounted_dequeue:
  assumes "accounted cl H Q h n" and "i < length cl" and "cl ! i = Waiting inst w" and "\<not> w_granted (h w)"
  shows "accounted (cl[i := Finished]) H (Q(inst := remove1 w (Q inst))) h n"
proof -
  note a = accountedD [OF assms(1)]
  have own: "j = i \<and> inst' = inst" if "Waiting inst' w = cl ! j" "j < length cl" for j inst'
    using a(7) [OF that(2) assms(2) that(1) [symmetric] assms(3)] that(1) assms(3) by auto
  have keep: "Waiting inst' x \<in> set (cl[i := Finished]) \<longleftrightarrow> Waiting inst' x \<in> set cl \<and> x \<noteq> w" for inst' x
  proof
    assume "Waiting inst' x \<in> set (cl[i := Finished])"
    then obtain j where j: "j < length cl" "cl[i := Finished] ! j = Waiting inst' x"
      by (metis in_set_conv_nth length_list_update)
    then have "j \<noteq> i" by auto
    then show "Waiting inst' x \<in> set cl \<and> x \<noteq> w" using j own [of inst' j] by (auto dest: nth_mem)
  next
    assume x: "Waiting inst' x \<in> set cl \<and> x \<noteq> w"
    then obtain j where j: "j < length cl" "cl ! j = Waiting inst' x" by (metis in_set_conv_nth)
    then have "cl[i := Finished] ! j = Waiting inst' x" using x assms(3) by (cases "j = i") auto
    then show "Waiting inst' x \<in> set (cl[i := Finished])" using j(1) by (metis length_list_update nth_mem)
  qed
  have q: "x \<in> set ((Q(inst := remove1 w (Q inst))) inst') \<longleftrightarrow> x \<in> set (Q inst') \<and> x \<noteq> w" for inst' x
  proof (cases "inst' = inst")
    case True
    then show ?thesis using a(2) [of inst] by simp
  next
    case False
    have "w \<notin> set (Q inst')" using a(4) [of w inst'] own False by (metis in_set_conv_nth)
    then show ?thesis using False by auto
  qed
  show ?thesis
  proof (rule accountedI, goal_cases)
    case (1 inst')
    then show ?case using a(1) assms(2-4) by (simp add: occupants_update) (simp add: occupants_def)
  next
    case (5 j k inst1 inst2 x)
    then show ?case using a(7) [of j k] by (cases "j = i"; cases "k = i") auto
  next
    case (2 inst')
    then show ?case using a(2) by simp
  next
    case (3 inst' x)
    then show ?case using a(3,4) [of x inst'] unfolding q keep by blast
  next
    case (4 inst' x)
    then show ?case using a(5,6) [of inst' x] unfolding q keep by blast
  next
    case (6 x)
    then show ?case by (rule a(8))
  qed
qed

text \<open>Dispatching keeps the books, and it changes nothing but the grants it makes.\<close>

definition static :: "(nat \<Rightarrow> connectionWaiter) \<Rightarrow> nat \<Rightarrow> ConnectionPriority \<times> 64 word \<times> int" where
  "static h w = (w_priority (h w), w_sequence (h w), w_limit (h w))"

lemma static_grant [simp]: "static (h(w := (h w)\<lparr>w_granted := True, w_ready := True\<rparr>)) = static h"
  by (rule ext) (simp add: static_def)

lemma take_drop_remove1: "distinct ws \<Longrightarrow> i < length ws \<Longrightarrow> take i ws @ drop (Suc i) ws = remove1 (ws ! i) ws"
proof -
  assume d: "distinct ws" and i: "i < length ws"
  have ws: "ws = take i ws @ ws ! i # drop (Suc i) ws" by (rule id_take_nth_drop [OF i])
  then have "ws ! i \<notin> set (take i ws)" using d by (metis disjoint_iff distinct_append list.set_intros(1))
  then show ?thesis using ws by (metis remove1.simps(2) remove1_append)
qed

lemma accounted_dispatchLoop:
  assumes "accounted cl (held g) ((queue g)(inst := ws)) (g_heap g) (g_next g)"
    and "dispatchLoop inst ws g = (ws', g')"
  shows "accounted cl (held g') ((queue g)(inst := ws')) (g_heap g') (g_next g) \<and>
    queue g' = queue g \<and> g_next g' = g_next g \<and> g_sequence g' = g_sequence g \<and>
    set ws' \<subseteq> set ws \<and> static (g_heap g') = static (g_heap g) \<and>
    (ws' \<noteq> [] \<longrightarrow> (\<exists>w\<in>set ws'. 0 < w_limit (g_heap g' w) \<and> w_limit (g_heap g' w) \<le> held g' inst))"
  using assms
proof (induction inst ws g arbitrary: ws' g' rule: dispatchLoop.induct)
  case (1 inst ws g)
  let ?n = "bestWaiterIndex (g_heap g) ws"
  let ?w = "ws ! ?n"
  let ?stop = "0 < w_limit (g_heap g ?w) \<and> w_limit (g_heap g ?w) \<le> held g inst"
  show ?case
  proof (cases "ws = [] \<or> ?stop")
    case True
    then have "dispatchLoop inst ws g = (ws, g)"
      by (subst dispatchLoop.simps) (auto simp: Let_def)
    then have eq: "ws' = ws" "g' = g" using "1.prems"(2) by simp_all
    have "\<exists>w\<in>set ws. 0 < w_limit (g_heap g w) \<and> w_limit (g_heap g w) \<le> held g inst" if "ws \<noteq> []"
      using True that nth_mem [OF bestWaiterIndex_bound [OF that, of "g_heap g"]] by blast
    then show ?thesis
      unfolding eq using "1.prems"(1) by simp
  next
    case False
    let ?g1 = "set_held inst (held g inst + 1) g"
    let ?g2 = "?g1\<lparr>g_heap := (g_heap ?g1)(?w := (g_heap ?g1 ?w)\<lparr>w_granted := True, w_ready := True\<rparr>)\<rparr>"
    have b: "?n < length ws" using False bestWaiterIndex_bound by blast
    have d: "distinct ws" using accountedD(2) [OF "1.prems"(1), of inst] by simp
    have "dispatchLoop inst ws g = dispatchLoop inst (remove1 ?w ws) ?g2"
      unfolding take_drop_remove1 [OF d b, symmetric] using False
      by (subst dispatchLoop.simps) (auto simp: Let_def)
    then have run: "dispatchLoop inst (remove1 ?w ws) ?g2 = (ws', g')" using "1.prems"(2) by simp
    have "accounted cl ((held g)(inst := held g inst + 1)) (((queue g)(inst := ws))(inst := remove1 ?w (((queue g)(inst := ws)) inst)))
        ((g_heap g)(?w := (g_heap g ?w)\<lparr>w_granted := True, w_ready := True\<rparr>)) (g_next g)"
      by (rule accounted_grant [OF "1.prems"(1)]) (use b in simp)
    then have acc: "accounted cl (held ?g2) ((queue ?g2)(inst := remove1 ?w ws)) (g_heap ?g2) (g_next ?g2)"
      by simp
    have frame: "static (g_heap ?g2) = static (g_heap g)" "queue ?g2 = queue g" "g_next ?g2 = g_next g"
      "g_sequence ?g2 = g_sequence g"
      by simp_all
    have "ws \<noteq> []" and nostop: "\<not> ?stop" using False by simp_all
    note IH = "1.IH" [OF this(1) refl refl refl _ refl refl, unfolded take_drop_remove1 [OF d b], OF nostop acc run,
        unfolded frame]
    then show ?thesis using set_remove1_subset [of ?w ws] by blast
  qed
qed

lemma dispatchLoop_held:
  assumes "dispatchLoop inst ws g = (ws', g')"
  shows "inst' \<noteq> inst \<Longrightarrow> held g' inst' = held g inst'"
    and "0 < L \<Longrightarrow> \<forall>w\<in>set ws. w_limit (g_heap g w) = L \<Longrightarrow> held g inst \<le> L \<Longrightarrow> held g' inst \<le> L"
  using assms
proof (induction inst ws g arbitrary: ws' g' rule: dispatchLoop.induct)
  case (1 inst ws g)
  let ?n = "bestWaiterIndex (g_heap g) ws"
  let ?w = "ws ! ?n"
  let ?stop = "0 < w_limit (g_heap g ?w) \<and> w_limit (g_heap g ?w) \<le> held g inst"
  let ?g1 = "set_held inst (held g inst + 1) g"
  let ?g2 = "?g1\<lparr>g_heap := (g_heap ?g1)(?w := (g_heap ?g1 ?w)\<lparr>w_granted := True, w_ready := True\<rparr>)\<rparr>"
  let ?ws = "take ?n ws @ drop (Suc ?n) ws"
  {
    case 1
    then show ?case
    proof (cases "ws = [] \<or> ?stop")
      case True
      then have "dispatchLoop inst ws g = (ws, g)" by (subst dispatchLoop.simps) (auto simp: Let_def)
      then show ?thesis using 1 by simp
    next
      case False
      then have "dispatchLoop inst ws g = dispatchLoop inst ?ws ?g2" by (subst dispatchLoop.simps) (auto simp: Let_def)
      then have "dispatchLoop inst ?ws ?g2 = (ws', g')" using 1(2) by simp
      then show ?thesis using "1.IH"(1) [OF _ refl refl refl _ refl refl] False 1(1) by simp
    qed
  next
    case 2
    show ?case
    proof (cases "ws = [] \<or> ?stop")
      case True
      then have "dispatchLoop inst ws g = (ws, g)" by (subst dispatchLoop.simps) (auto simp: Let_def)
      then show ?thesis using 2 by simp
    next
      case False
      then have "dispatchLoop inst ws g = dispatchLoop inst ?ws ?g2" by (subst dispatchLoop.simps) (auto simp: Let_def)
      then have run: "dispatchLoop inst ?ws ?g2 = (ws', g')" using 2(4) by simp
      have "w_limit (g_heap g ?w) = L" using 2(2) False bestWaiterIndex_bound [of ws "g_heap g"] by auto
      then have "held ?g2 inst \<le> L" using False 2(1) by simp
      moreover have "\<forall>w\<in>set ?ws. w_limit (g_heap ?g2 w) = L"
        using 2(2) by (auto dest: in_set_takeD in_set_dropD)
      ultimately show ?thesis using "1.IH"(2) [OF _ refl refl refl _ refl refl 2(1)] False run by blast
    qed
  }
qed

lemma dispatch_facts:
  fixes inst :: string
  assumes "accounted cl (held g) (queue g) (g_heap g) (g_next g)"
  defines "g' \<equiv> dispatchLocked inst g"
  shows "accounted cl (held g') (queue g') (g_heap g') (g_next g')"
    and "g_next g' = g_next g" and "g_sequence g' = g_sequence g" and "static (g_heap g') = static (g_heap g)"
    and "set (queue g' inst') \<subseteq> set (queue g inst')"
    and "inst' \<noteq> inst \<Longrightarrow> queue g' inst' = queue g inst' \<and> held g' inst' = held g inst'"
    and "queue g' inst \<noteq> [] \<Longrightarrow> \<exists>w\<in>set (queue g' inst). 0 < w_limit (g_heap g' w) \<and> w_limit (g_heap g' w) \<le> held g' inst"
    and "0 < L \<Longrightarrow> \<forall>w\<in>set (queue g inst). w_limit (g_heap g w) = L \<Longrightarrow> held g inst \<le> L \<Longrightarrow> held g' inst \<le> L"
proof -
  obtain ws g1 where run: "dispatchLoop inst (queue g inst) g = (ws, g1)" by (cases "dispatchLoop inst (queue g inst) g")
  have g': "g' = set_queue inst ws g1" by (simp add: g'_def dispatchLocked_def run)
  have pre: "accounted cl (held g) ((queue g)(inst := queue g inst)) (g_heap g) (g_next g)" using assms(1) by simp
  note L = accounted_dispatchLoop [OF pre run] and H = dispatchLoop_held [OF run]
  show "accounted cl (held g') (queue g') (g_heap g') (g_next g')" using L by (simp add: g')
  show "g_next g' = g_next g" "g_sequence g' = g_sequence g" "static (g_heap g') = static (g_heap g)"
    using L by (simp_all add: g')
  show "set (queue g' inst') \<subseteq> set (queue g inst')" using L by (auto simp: g')
  show "inst' \<noteq> inst \<Longrightarrow> queue g' inst' = queue g inst' \<and> held g' inst' = held g inst'"
    using L H(1) by (simp add: g')
  show "queue g' inst \<noteq> [] \<Longrightarrow> \<exists>w\<in>set (queue g' inst). 0 < w_limit (g_heap g' w) \<and> w_limit (g_heap g' w) \<le> held g' inst"
    using L by (simp add: g')
  show "0 < L \<Longrightarrow> \<forall>w\<in>set (queue g inst). w_limit (g_heap g w) = L \<Longrightarrow> held g inst \<le> L \<Longrightarrow> held g' inst \<le> L"
    using H(2) by (simp add: g')
qed

text \<open>A lease that ends: the slot is free, and then dispatched.\<close>

definition freed :: "string \<Rightarrow> connectionGovernor \<Rightarrow> connectionGovernor" where
  "freed inst g = (if held g inst \<le> 1 then g\<lparr>g_holders := gm_del inst (g_holders g)\<rparr>
     else set_held inst (held g inst - 1) g)"

lemma release_freed: "release inst g = dispatchLocked inst (freed inst g)"
  by (simp add: release_def freed_def)

lemma freed_frame [simp]:
  "queue (freed inst g) = queue g" "g_heap (freed inst g) = g_heap g" "g_next (freed inst g) = g_next g"
  "g_sequence (freed inst g) = g_sequence g"
  by (auto simp: freed_def queue_def)

lemma freed_held: "1 \<le> held g inst \<Longrightarrow> held (freed inst g) = (held g)(inst := held g inst - 1)"
proof (cases "held g inst = 1")
  case True
  have "held (g\<lparr>g_holders := gm_del inst (g_holders g)\<rparr>) = (held g)(inst := 0)"
    by (rule ext) (simp add: held_def gm_get_del)
  then show ?thesis using True by (simp add: freed_def)
next
  case False
  assume "1 \<le> held g inst"
  then show ?thesis using False by (simp add: freed_def)
qed

lemma accounted_freed:
  assumes "accounted cl (held g) (queue g) (g_heap g) (g_next g)" and "i < length cl"
    and "cl ! i = Holding inst \<or> cl ! i = Returning inst"
  shows "1 \<le> held g inst"
    and "accounted (cl[i := Finished]) (held (freed inst g)) (queue (freed inst g)) (g_heap (freed inst g)) (g_next (freed inst g))"
proof -
  have "i \<in> occupants (g_heap g) inst cl" using assms(2,3) by (auto simp: occupants_def)
  then have "0 < card (occupants (g_heap g) inst cl)" by (auto simp: card_gt_0_iff)
  then show pos: "1 \<le> held g inst" using accountedD(1) [OF assms(1), of inst] by simp
  show "accounted (cl[i := Finished]) (held (freed inst g)) (queue (freed inst g)) (g_heap (freed inst g)) (g_next (freed inst g))"
    unfolding freed_frame freed_held [OF pos]
    by (rule accounted_move [OF assms(1,2)]) (use assms(3) in auto)
qed

subsection \<open>The invariant of all runs\<close>

definition gov_ok :: "gov_system \<Rightarrow> bool" where
  "gov_ok s \<longleftrightarrow>
     accounted (clients s) (held (gov s)) (queue (gov s)) (g_heap (gov s)) (g_next (gov s)) \<and>
     (\<forall>inst. queue (gov s) inst \<noteq> [] \<longrightarrow> 0 < held (gov s) inst) \<and>
     g_sequence (gov s) = of_nat (g_next (gov s)) \<and>
     (\<forall>w<g_next (gov s). w_sequence (g_heap (gov s) w) = of_nat w)"

lemma static_sequence: "static h = static h' \<Longrightarrow> w_sequence (h w) = w_sequence (h' w)"
  by (metis fst_conv snd_conv static_def)

lemma static_limit: "static h = static h' \<Longrightarrow> w_limit (h w) = w_limit (h' w)"
  by (metis snd_conv static_def)

lemma static_priority: "static h = static h' \<Longrightarrow> w_priority (h w) = w_priority (h' w)"
  by (metis fst_conv static_def)

lemma gov_ok_release:
  assumes "gov_ok s" and "i < length (clients s)" and "clients s ! i = Holding inst \<or> clients s ! i = Returning inst"
  shows "gov_ok ((set_client i Finished s)\<lparr>gov := release inst (gov s)\<rparr>)"
proof -
  have acc: "accounted (clients s) (held (gov s)) (queue (gov s)) (g_heap (gov s)) (g_next (gov s))"
    using assms(1) by (simp add: gov_ok_def)
  note fr = accounted_freed [OF acc assms(2,3)]
  note d = dispatch_facts [OF fr(2), where inst = inst, folded release_freed]
  have "0 < held (release inst (gov s)) inst'" if q: "queue (release inst (gov s)) inst' \<noteq> []" for inst'
  proof (cases "inst' = inst")
    case True
    then show ?thesis using d(7) q by fastforce
  next
    case False
    then show ?thesis using d(6) [where inst' = inst'] q assms(1) by (simp add: gov_ok_def freed_held [OF fr(1)])
  qed
  then show ?thesis
    using assms(1) d(1-3) static_sequence [OF d(4)] by (simp add: gov_ok_def set_client_def)
qed

lemma acquireStart_cases:
  assumes "acquireStart request ctxDone g = (out, g')"
  obtains (refused) "out = AcquireRefused" "g' = g"
  | (admitted) "out = AcquireAdmitted" "queue g (InstanceID request) = []" "admissibleLocked request g"
      "g' = set_held (InstanceID request) (held g (InstanceID request) + 1) g"
  | (queued) x where "out = AcquireQueued (g_next g)" "queue g (InstanceID request) \<noteq> [] \<or> \<not> admissibleLocked request g"
      "held g' = held g" "queue g' = (queue g)(InstanceID request := queue g (InstanceID request) @ [g_next g])"
      "g_heap g' = (g_heap g)(g_next g := x)" "g_next g' = g_next g + 1" "g_sequence g' = g_sequence g + 1"
      "\<not> w_granted x" "\<not> w_ready x" "w_sequence x = g_sequence g" "w_limit x = MaximumConnections request"
      "w_priority x = Priority request"
proof -
  define x where "x = \<lparr>w_priority = Priority request, w_sequence = g_sequence g,
      w_limit = MaximumConnections request, w_granted = False, w_ready = False\<rparr>"
  let ?g1 = "g\<lparr>g_heap := (g_heap g)(g_next g := x), g_next := g_next g + 1, g_sequence := g_sequence g + 1\<rparr>"
  have frame: "held ?g1 = held g" "queue ?g1 = queue g"
    by (rule ext; simp add: held_def queue_def)+
  consider "ctxDone" | "\<not> ctxDone" "queue g (InstanceID request) = []" "admissibleLocked request g"
    | "\<not> ctxDone" "queue g (InstanceID request) \<noteq> [] \<or> \<not> admissibleLocked request g" by blast
  then show ?thesis
  proof cases
    case 1
    then show ?thesis using assms by (intro refused) (simp_all add: acquireStart_def)
  next
    case 2
    then show ?thesis using assms by (intro admitted) (simp_all add: acquireStart_def)
  next
    case 3
    then have "out = AcquireQueued (g_next g)"
      "g' = set_queue (InstanceID request) (queue ?g1 (InstanceID request) @ [g_next g]) ?g1"
      using assms by (auto simp: acquireStart_def x_def Let_def)
    then show ?thesis using 3(2) frame by (intro queued [of x]) (simp_all add: x_def)
  qed
qed

lemma admissible_or_held: "\<not> admissibleLocked request g \<Longrightarrow>
    0 < MaximumConnections request \<and> MaximumConnections request \<le> held g (InstanceID request)"
  by (simp add: admissibleLocked_def)

lemma cancel_cases:
  assumes "acquireCancel inst w g = (granted, g')"
  shows "granted = w_granted (g_heap g w)" and "held g' = held g" and "g_heap g' = g_heap g"
    and "g_next g' = g_next g" and "g_sequence g' = g_sequence g"
    and "queue g' = (if granted then queue g else (queue g)(inst := remove1 w (queue g inst)))"
  using assms by (auto simp: acquireCancel_def removeWaiterLocked_def split: if_splits)

lemma gov_ok_step:
  assumes "gov_ok s" and "gov_exec a s = Some s'"
  shows "gov_ok s'"
proof -
  have acc: "accounted (clients s) (held (gov s)) (queue (gov s)) (g_heap (gov s)) (g_next (gov s))"
    and wait: "\<And>inst. queue (gov s) inst \<noteq> [] \<Longrightarrow> 0 < held (gov s) inst"
    and seq: "g_sequence (gov s) = of_nat (g_next (gov s))"
      "\<And>w. w < g_next (gov s) \<Longrightarrow> w_sequence (g_heap (gov s) w) = of_nat w"
    using assms(1) by (simp_all add: gov_ok_def)
  have nonneg: "0 \<le> held (gov s) inst" for inst using accountedD(1) [OF acc, of inst] by simp
  note admit = accounted_admit [OF acc]
  show ?thesis
  proof (cases a)
    case (GAcquire request ctxDone)
    obtain out g' where A: "acquireStart request ctxDone (gov s) = (out, g')" by (cases "acquireStart request ctxDone (gov s)")
    from A show ?thesis
    proof (cases rule: acquireStart_cases)
      case refused
      then show ?thesis using assms GAcquire A by simp
    next
      case admitted
      then have s': "s' = s\<lparr>gov := g', clients := clients s @ [Holding (InstanceID request)]\<rparr>"
        using assms(2) GAcquire A by simp
      show ?thesis
        unfolding s' gov_ok_def using admit wait seq nonneg admitted by (auto simp: less_le)
    next
      case (queued x)
      then have s': "s' = s\<lparr>gov := g', clients := clients s @ [Waiting (InstanceID request) (g_next (gov s))]\<rparr>"
        using assms(2) GAcquire A by simp
      have "accounted (clients s @ [Waiting (InstanceID request) (g_next (gov s))]) (held g') (queue g') (g_heap g') (g_next g')"
        unfolding queued using accounted_enqueue [OF acc] queued by simp
      moreover have "0 < held g' inst" if "queue g' inst \<noteq> []" for inst
        using that wait queued admissible_or_held by (fastforce split: if_splits)
      ultimately show ?thesis
        unfolding s' gov_ok_def using seq queued by (auto simp: less_Suc_eq)
    qed
  next
    case (GTry request)
    then show ?thesis
      using assms admit wait seq nonneg
      by (auto simp: tryAcquire_def gov_ok_def less_le split: if_splits)
  next
    case (GWake i)
    then obtain inst w where i: "i < length (clients s)" "clients s ! i = Waiting inst w" "w_ready (g_heap (gov s) w)"
        "s' = set_client i (Holding inst) s"
      using assms(2) by (auto split: if_splits client.splits)
    have g: "w_granted (g_heap (gov s) w)" using accountedD(8) [OF acc] i(3) by simp
    have "accounted ((clients s)[i := Holding inst]) (held (gov s)) (queue (gov s)) (g_heap (gov s)) (g_next (gov s))"
      by (rule accounted_move [OF acc i(1)]) (use i(2) g accountedD(3) [OF acc] in auto)
    then show ?thesis using assms(1) i(4) by (simp add: gov_ok_def set_client_def)
  next
    case (GCancel i)
    then obtain inst w granted g' where i: "i < length (clients s)" "clients s ! i = Waiting inst w"
        "acquireCancel inst w (gov s) = (granted, g')"
        "s' = (set_client i (if granted then Returning inst else Finished) s)\<lparr>gov := g'\<rparr>"
      using assms(2) by (auto split: if_splits client.splits prod.splits)
    note c = cancel_cases [OF i(3)]
    have "accounted ((clients s)[i := (if granted then Returning inst else Finished)]) (held g') (queue g') (g_heap g') (g_next g')"
    proof (cases granted)
      case True
      have "accounted ((clients s)[i := Returning inst]) (held (gov s)) (queue (gov s)) (g_heap (gov s)) (g_next (gov s))"
        by (rule accounted_move [OF acc i(1)]) (use i(2) True c(1) accountedD(3) [OF acc] in auto)
      then show ?thesis using True c by simp
    next
      case False
      then show ?thesis using c accounted_dequeue [OF acc i(1,2)] by simp
    qed
    moreover have "0 < held g' inst'" if "queue g' inst' \<noteq> []" for inst'
    proof -
      have "queue (gov s) inst' \<noteq> []" using that c(6) by (auto split: if_splits)
      then show ?thesis using wait c(2) by simp
    qed
    ultimately show ?thesis using seq c i(4) by (simp add: gov_ok_def set_client_def)
  next
    case (GReturn i)
    then show ?thesis using assms gov_ok_release [OF assms(1)] by (auto split: if_splits client.splits)
  next
    case (GRelease i)
    then show ?thesis using assms gov_ok_release [OF assms(1)] by (auto split: if_splits client.splits)
  qed
qed

lemma gov_ok_reachable: "gov_reachable P s \<Longrightarrow> gov_ok s"
proof (induction rule: gov_reachable.induct)
  case gov_init
  then show ?case
    by (auto simp: gov_ok_def newConnectionGovernor_def held_def queue_def occupants_def intro!: accountedI)
next
  case (gov_next s a s')
  then show ?case by (blast intro: gov_ok_step)
qed

subsection \<open>One ceiling per instance\<close>

text \<open>
  What the code's comment takes for granted, that every caller of an instance passes the same
  ceiling, as a hypothesis on the requests of a run.
\<close>

definition same_ceiling :: "(string \<Rightarrow> int) \<Rightarrow> InstanceConnectionRequest \<Rightarrow> bool" where
  "same_ceiling lim request \<longleftrightarrow> MaximumConnections request = lim (InstanceID request)"

definition within :: "(string \<Rightarrow> int) \<Rightarrow> connectionGovernor \<Rightarrow> bool" where
  "within lim g \<longleftrightarrow> (\<forall>inst. (\<forall>w\<in>set (queue g inst). w_limit (g_heap g w) = lim inst) \<and>
     (queue g inst \<noteq> [] \<longrightarrow> 0 < lim inst \<and> lim inst \<le> held g inst) \<and>
     (0 < lim inst \<longrightarrow> held g inst \<le> lim inst))"

lemma withinD:
  assumes "within lim g"
  shows "w \<in> set (queue g inst) \<Longrightarrow> w_limit (g_heap g w) = lim inst"
    and "queue g inst \<noteq> [] \<Longrightarrow> 0 < lim inst \<and> lim inst \<le> held g inst"
    and "0 < lim inst \<Longrightarrow> held g inst \<le> lim inst"
  using assms unfolding within_def by blast+

lemma within_release:
  assumes "gov_ok s" and "within lim (gov s)" and "i < length (clients s)"
    and "clients s ! i = Holding inst \<or> clients s ! i = Returning inst"
  shows "within lim (release inst (gov s))"
proof -
  have acc: "accounted (clients s) (held (gov s)) (queue (gov s)) (g_heap (gov s)) (g_next (gov s))"
    using assms(1) by (simp add: gov_ok_def)
  note fr = accounted_freed [OF acc assms(3,4)] and w = withinD [OF assms(2)]
  note d = dispatch_facts [OF fr(2), where inst = inst, folded release_freed]
  have lim: "\<forall>x\<in>set (queue (freed inst (gov s)) inst). w_limit (g_heap (freed inst (gov s)) x) = lim inst"
    using w(1) by simp
  have bound: "0 < lim inst \<Longrightarrow> held (release inst (gov s)) inst \<le> lim inst"
    using d(8) [OF _ lim] w(3) [of inst] by (simp add: freed_held [OF fr(1)])
  have limits: "w_limit (g_heap (release inst (gov s)) x) = lim inst'" if "x \<in> set (queue (release inst (gov s)) inst')" for x inst'
    using static_limit [OF d(4), of x] d(5) [where inst' = inst'] that w(1) by auto
  have "queue (release inst (gov s)) inst' \<noteq> [] \<longrightarrow> 0 < lim inst' \<and> lim inst' \<le> held (release inst (gov s)) inst'" for inst'
  proof (cases "inst' = inst")
    case True
    then show ?thesis using d(7) limits [of _ inst] by auto
  next
    case False
    then show ?thesis using d(6) [where inst' = inst'] w(2) by (simp add: freed_held [OF fr(1)])
  qed
  moreover have "0 < lim inst' \<longrightarrow> held (release inst (gov s)) inst' \<le> lim inst'" for inst'
    using bound d(6) [where inst' = inst'] w(3) [of inst'] by (cases "inst' = inst") (simp_all add: freed_held [OF fr(1)])
  ultimately show ?thesis using limits unfolding within_def by blast
qed

lemma within_step:
  assumes "gov_ok s" and "within lim (gov s)" and "asks (same_ceiling lim) a" and "gov_exec a s = Some s'"
  shows "within lim (gov s')"
proof -
  have acc: "accounted (clients s) (held (gov s)) (queue (gov s)) (g_heap (gov s)) (g_next (gov s))"
    using assms(1) by (simp add: gov_ok_def)
  note w = withinD [OF assms(2)]
  have admit: "within lim (set_held inst (held (gov s) inst + 1) (gov s))"
    if "queue (gov s) inst = []" "lim inst \<le> 0 \<or> held (gov s) inst < lim inst" for inst
    using assms(2) that unfolding within_def by auto
  show ?thesis
  proof (cases a)
    case (GAcquire request ctxDone)
    then have lim: "MaximumConnections request = lim (InstanceID request)"
      using assms(3) by (simp add: same_ceiling_def)
    obtain out g' where A: "acquireStart request ctxDone (gov s) = (out, g')" by (cases "acquireStart request ctxDone (gov s)")
    have g': "gov s' = g'" using assms(4) GAcquire A by (cases out) auto
    from A have "within lim g'"
    proof (cases rule: acquireStart_cases)
      case refused
      then show ?thesis using assms(2) by simp
    next
      case admitted
      then show ?thesis using admit [of "InstanceID request"] lim by (auto simp: admissibleLocked_def)
    next
      case (queued x)
      have fresh: "y \<in> set (queue (gov s) inst) \<Longrightarrow> y \<noteq> g_next (gov s)" for y inst
        using accountedD(4,5) [OF acc] by blast
      have full: "0 < lim (InstanceID request) \<and> lim (InstanceID request) \<le> held (gov s) (InstanceID request)"
        using queued(2) w(2) admissible_or_held [of request "gov s"] lim by auto
      have "\<forall>y\<in>set (queue g' inst). w_limit (g_heap g' y) = lim inst" for inst
        using w(1) fresh lim queued by auto
      moreover have "queue g' inst \<noteq> [] \<longrightarrow> 0 < lim inst \<and> lim inst \<le> held g' inst" for inst
        using w(2) full queued by auto
      ultimately show ?thesis using w(3) queued(3) unfolding within_def by auto
    qed
    then show ?thesis using g' by simp
  next
    case (GTry request)
    then show ?thesis
      using assms(2,3,4) admit [of "InstanceID request"]
      by (auto simp: tryAcquire_def admissibleLocked_def same_ceiling_def split: if_splits)
  next
    case (GWake i)
    then show ?thesis using assms(2,4) by (auto simp: set_client_def split: if_splits client.splits)
  next
    case (GCancel i)
    then obtain inst x granted where c: "acquireCancel inst x (gov s) = (granted, gov s')"
      using assms(4) by (auto simp: set_client_def split: if_splits client.splits prod.splits)
    have "set (queue (gov s') inst') \<subseteq> set (queue (gov s) inst')" for inst'
      using cancel_cases(6) [OF c] set_remove1_subset [of x "queue (gov s) inst"] by auto
    moreover from this have "queue (gov s') inst' \<noteq> [] \<Longrightarrow> queue (gov s) inst' \<noteq> []" for inst'
      by (metis set_empty subset_empty)
    ultimately show ?thesis
      using w unfolding within_def cancel_cases(2,3) [OF c] by blast
  next
    case (GReturn i)
    then show ?thesis using assms within_release [OF assms(1,2)] by (auto split: if_splits client.splits)
  next
    case (GRelease i)
    then show ?thesis using assms within_release [OF assms(1,2)] by (auto split: if_splits client.splits)
  qed
qed

lemma within_reachable: "gov_reachable (same_ceiling lim) s \<Longrightarrow> within lim (gov s)"
proof (induction rule: gov_reachable.induct)
  case gov_init
  then show ?case by (simp add: within_def newConnectionGovernor_def held_def queue_def)
next
  case (gov_next s a s')
  then show ?case by (blast intro: within_step gov_ok_reachable)
qed

subsection \<open>What callers may rely on\<close>

text \<open>The open sessions of an instance: the leases that have been handed out and not released.\<close>

definition sessions :: "string \<Rightarrow> gov_system \<Rightarrow> nat set" where
  "sessions inst s = {i. i < length (clients s) \<and> clients s ! i = Holding inst}"

lemma sessions_occupants: "sessions inst s \<subseteq> occupants h inst (clients s)"
  by (auto simp: sessions_def occupants_def)

text \<open>
  C11. The ceiling holds: under every interleaving of acquiring, trying, waking up, giving up and
  releasing goroutines, an instance whose callers all pass the ceiling \<open>lim inst > 0\<close> never has
  more than that many open sessions; and if somebody waits for it, the budget is fully used.
\<close>

theorem governor_ceiling:
  assumes "gov_reachable (same_ceiling lim) s" and "0 < lim inst"
  shows "int (card (sessions inst s)) \<le> lim inst \<and>
    (queue (gov s) inst \<noteq> [] \<longrightarrow> held (gov s) inst = lim inst)"
proof -
  have acc: "accounted (clients s) (held (gov s)) (queue (gov s)) (g_heap (gov s)) (g_next (gov s))"
    using gov_ok_reachable [OF assms(1)] by (simp add: gov_ok_def)
  have "card (sessions inst s) \<le> card (occupants (g_heap (gov s)) inst (clients s))"
    by (rule card_mono [OF finite_occupants sessions_occupants])
  then show ?thesis
    using accountedD(1) [OF acc, of inst] withinD(2,3) [OF within_reachable [OF assms(1)], of inst] assms(2) by auto
qed

text \<open>A slot that ends while somebody waits goes to one waiter, and the others stay.\<close>

lemma release_hands_over:
  assumes "distinct (queue g inst)" and "within lim g" and "queue g inst \<noteq> []" and "1 \<le> held g inst"
  shows "\<exists>w\<in>set (queue g inst). queue (release inst g) inst = remove1 w (queue g inst) \<and>
    w_ready (g_heap (release inst g) w)"
proof -
  let ?g = "freed inst g" and ?ws = "queue g inst"
  let ?n = "bestWaiterIndex (g_heap ?g) ?ws"
  let ?w = "?ws ! ?n"
  let ?g1 = "set_held inst (held ?g inst + 1) ?g"
  let ?g2 = "?g1\<lparr>g_heap := (g_heap ?g1)(?w := (g_heap ?g1 ?w)\<lparr>w_granted := True, w_ready := True\<rparr>)\<rparr>"
  have n: "?n < length ?ws" by (rule bestWaiterIndex_bound [OF assms(3)])
  have full: "held g inst = lim inst" "0 < lim inst"
    using withinD(2,3) [OF assms(2), of inst] assms(3) by auto
  have held: "held ?g inst = lim inst - 1" "held ?g2 inst = lim inst"
    using freed_held [OF assms(4)] full by simp_all
  have limits: "\<forall>x\<in>set ?ws. w_limit (g_heap ?g x) = lim inst" using withinD(1) [OF assms(2)] by simp
  have rest: "take ?n ?ws @ drop (Suc ?n) ?ws = remove1 ?w ?ws" by (rule take_drop_remove1 [OF assms(1) n])
  have "dispatchLoop inst ?ws ?g = dispatchLoop inst (take ?n ?ws @ drop (Suc ?n) ?ws) ?g2"
    using assms(3) held limits n by (subst dispatchLoop.simps) (simp add: Let_def)
  also have "\<dots> = (remove1 ?w ?ws, ?g2)"
  proof (cases "remove1 ?w ?ws = []")
    case True
    then show ?thesis unfolding rest by (subst dispatchLoop.simps) simp
  next
    case False
    let ?best = "remove1 ?w ?ws ! bestWaiterIndex (g_heap ?g2) (remove1 ?w ?ws)"
    have "?best \<in> set (remove1 ?w ?ws)" by (rule nth_mem [OF bestWaiterIndex_bound [OF False]])
    then have "?best \<in> set ?ws" using set_remove1_subset by (rule subsetD [rotated])
    moreover have "\<forall>x\<in>set ?ws. w_limit (g_heap ?g2 x) = lim inst" using limits by simp
    ultimately have "w_limit (g_heap ?g2 ?best) = lim inst" by blast
    then show ?thesis using False held full(2) unfolding rest by (subst dispatchLoop.simps) (simp add: Let_def)
  qed
  finally have "dispatchLocked inst ?g = set_queue inst (remove1 ?w ?ws) ?g2" by (simp add: dispatchLocked_def)
  then have "release inst g = set_queue inst (remove1 ?w ?ws) ?g2" by (simp only: release_freed)
  then show ?thesis using n by (intro bexI [of _ ?w]) simp_all
qed

lemma gov_reachable_mono: "gov_reachable P s \<Longrightarrow> (\<And>r. P r \<Longrightarrow> Q r) \<Longrightarrow> gov_reachable Q s"
proof (induction rule: gov_reachable.induct)
  case (gov_next s a s')
  have "asks Q a" using gov_next.hyps(2) gov_next.prems by (cases a) auto
  then show ?case using gov_next by (blast intro: gov_reachable.gov_next)
qed (rule gov_init)

text \<open>
  C12. No slot is lost and no wake-up is missed. Whatever ceilings the callers pass, the count of an
  instance is the number of goroutines that hold a lease, have been granted one or are about to
  return one, and a goroutine that waits without a grant is in its queue. When the callers of every
  instance agree on its ceiling, somebody waits only while the whole ceiling is taken, and each lease
  that is released or returned then passes its slot to exactly one waiter in the same step.
\<close>

theorem governor_no_lost_slot:
  assumes "gov_reachable P s"
  shows "held (gov s) inst = int (card (occupants (g_heap (gov s)) inst (clients s))) \<and>
    (\<forall>w. Waiting inst w \<in> set (clients s) \<longrightarrow> w_ready (g_heap (gov s) w) \<or> w \<in> set (queue (gov s) inst)) \<and>
    (\<forall>lim. (\<forall>r. P r \<longrightarrow> same_ceiling lim r) \<and> queue (gov s) inst \<noteq> [] \<longrightarrow>
       held (gov s) inst = lim inst \<and>
       (\<forall>i s'. i < length (clients s) \<and> (clients s ! i = Holding inst \<and> gov_exec (GRelease i) s = Some s' \<or>
            clients s ! i = Returning inst \<and> gov_exec (GReturn i) s = Some s') \<longrightarrow>
          (\<exists>w\<in>set (queue (gov s) inst). queue (gov s') inst = remove1 w (queue (gov s) inst) \<and>
             w_ready (g_heap (gov s') w))))"
proof -
  have ok: "gov_ok s" by (rule gov_ok_reachable [OF assms])
  then have acc: "accounted (clients s) (held (gov s)) (queue (gov s)) (g_heap (gov s)) (g_next (gov s))"
    by (simp add: gov_ok_def)
  have shared: "held (gov s) inst = lim inst \<and>
      (\<forall>i s'. i < length (clients s) \<and> (clients s ! i = Holding inst \<and> gov_exec (GRelease i) s = Some s' \<or>
            clients s ! i = Returning inst \<and> gov_exec (GReturn i) s = Some s') \<longrightarrow>
          (\<exists>w\<in>set (queue (gov s) inst). queue (gov s') inst = remove1 w (queue (gov s) inst) \<and>
             w_ready (g_heap (gov s') w)))"
    if P: "\<forall>r. P r \<longrightarrow> same_ceiling lim r" and waits: "queue (gov s) inst \<noteq> []" for lim
  proof -
    have w: "within lim (gov s)" using gov_reachable_mono [OF assms] P within_reachable by blast
    have full: "held (gov s) inst = lim inst" "1 \<le> held (gov s) inst"
      using withinD(2,3) [OF w, of inst] waits by auto
    have "gov s' = release inst (gov s)" if "i < length (clients s)"
      "clients s ! i = Holding inst \<and> gov_exec (GRelease i) s = Some s' \<or>
        clients s ! i = Returning inst \<and> gov_exec (GReturn i) s = Some s'" for i s'
      using that by auto
    then show ?thesis
      using full(1) release_hands_over [OF accountedD(2) [OF acc] w waits full(2)] by metis
  qed
  show ?thesis
  proof (intro conjI)
    show "held (gov s) inst = int (card (occupants (g_heap (gov s)) inst (clients s)))"
      by (rule accountedD(1) [OF acc])
    show "\<forall>w. Waiting inst w \<in> set (clients s) \<longrightarrow> w_ready (g_heap (gov s) w) \<or> w \<in> set (queue (gov s) inst)"
      using accountedD(6,8) [OF acc] by blast
  qed (use shared in blast)
qed

subsection \<open>Who is served first\<close>

lemma beats_trans: "beats x y \<Longrightarrow> beats y z \<Longrightarrow> beats x z"
  by (auto simp: beats_def)

lemma not_beats_trans: "\<not> beats x y \<Longrightarrow> \<not> beats y z \<Longrightarrow> \<not> beats x z"
  by (auto simp: beats_def not_less)

lemma bestLoop_best:
  assumes "best < i"
  shows "let r = bestLoop h xs i best w; v = (if r < i then w else h (xs ! (r - i))) in
    (r = best \<or> i \<le> r) \<and> \<not> beats w v \<and> (\<forall>x\<in>set xs. \<not> beats (h x) v)"
  using assms
proof (induction xs arbitrary: i best w)
  case Nil
  then show ?case by (simp add: beats_def)
next
  case (Cons x xs)
  show ?case
  proof (cases "beats (h x) w")
    case True
    let ?r = "bestLoop h xs (i + 1) i (h x)"
    let ?v = "if ?r < i + 1 then h x else h (xs ! (?r - (i + 1)))"
    have IH: "?r = i \<or> i + 1 \<le> ?r" "\<not> beats (h x) ?v" "\<forall>y\<in>set xs. \<not> beats (h y) ?v"
      using Cons.IH [of i "i + 1" "h x"] less_add_one [of i] unfolding Let_def by blast+
    have "(if ?r < i then w else h ((x # xs) ! (?r - i))) = ?v" using IH(1) by (auto simp: nth_Cons' Suc_diff_le)
    moreover have "\<not> beats w ?v" using IH(2) True beats_trans by blast
    ultimately show ?thesis using True IH by (auto simp: Let_def)
  next
    case False
    let ?r = "bestLoop h xs (i + 1) best w"
    let ?v = "if ?r < i + 1 then w else h (xs ! (?r - (i + 1)))"
    have IH: "?r = best \<or> i + 1 \<le> ?r" "\<not> beats w ?v" "\<forall>y\<in>set xs. \<not> beats (h y) ?v"
      using Cons.IH [of best "i + 1" w] less_trans [OF Cons.prems less_add_one] unfolding Let_def by blast+
    have "(if ?r < i then w else h ((x # xs) ! (?r - i))) = ?v"
      using IH(1) Cons.prems by (auto simp: nth_Cons' Suc_diff_le)
    moreover have "\<not> beats (h x) ?v" using IH(2) False not_beats_trans by blast
    ultimately show ?thesis using False IH by (auto simp: Let_def)
  qed
qed

lemma bestWaiterIndex_best:
  "x \<in> set ws \<Longrightarrow> \<not> beats (h x) (h (ws ! bestWaiterIndex h ws))"
  using bestLoop_best [of 0 1 h "tl ws" "h (hd ws)"]
  by (cases ws) (auto simp: bestWaiterIndex_def Let_def nth_Cons' split: if_splits)

lemma dispatchLoop_subset: "dispatchLoop inst ws g = (ws', g') \<Longrightarrow> set ws' \<subseteq> set ws"
proof (induction inst ws g arbitrary: ws' g' rule: dispatchLoop.induct)
  case (1 inst ws g)
  let ?n = "bestWaiterIndex (g_heap g) ws"
  let ?w = "ws ! ?n"
  show ?case
  proof (cases "ws = [] \<or> 0 < w_limit (g_heap g ?w) \<and> w_limit (g_heap g ?w) \<le> held g inst")
    case True
    then have "dispatchLoop inst ws g = (ws, g)" by (subst dispatchLoop.simps) (auto simp: Let_def)
    then show ?thesis using "1.prems" by simp
  next
    case False
    let ?g1 = "set_held inst (held g inst + 1) g"
    let ?g2 = "?g1\<lparr>g_heap := (g_heap ?g1)(?w := (g_heap ?g1 ?w)\<lparr>w_granted := True, w_ready := True\<rparr>)\<rparr>"
    have "dispatchLoop inst ws g = dispatchLoop inst (take ?n ws @ drop (Suc ?n) ws) ?g2"
      using False by (subst dispatchLoop.simps) (auto simp: Let_def)
    then have "dispatchLoop inst (take ?n ws @ drop (Suc ?n) ws) ?g2 = (ws', g')" using "1.prems" by simp
    then have "set ws' \<subseteq> set (take ?n ws @ drop (Suc ?n) ws)"
      using "1.IH" [OF _ refl refl refl _ refl refl] False by blast
    then show ?thesis using set_take_subset [of ?n ws] set_drop_subset [of "Suc ?n" ws] by auto
  qed
qed

lemma dispatchLoop_best:
  assumes "dispatchLoop inst ws g = (ws', g')" and "distinct ws" and "v \<in> set ws'" and "w \<in> set ws" and "w \<notin> set ws'"
  shows "\<not> beats (g_heap g v) (g_heap g w) \<and> v \<in> set ws"
  using assms
proof (induction inst ws g arbitrary: ws' g' rule: dispatchLoop.induct)
  case (1 inst ws g)
  let ?n = "bestWaiterIndex (g_heap g) ws"
  let ?w = "ws ! ?n"
  let ?stop = "0 < w_limit (g_heap g ?w) \<and> w_limit (g_heap g ?w) \<le> held g inst"
  show ?case
  proof (cases "ws = [] \<or> ?stop")
    case True
    then have "dispatchLoop inst ws g = (ws, g)" by (subst dispatchLoop.simps) (auto simp: Let_def)
    then show ?thesis using "1.prems" by simp
  next
    case False
    let ?g1 = "set_held inst (held g inst + 1) g"
    let ?g2 = "?g1\<lparr>g_heap := (g_heap ?g1)(?w := (g_heap ?g1 ?w)\<lparr>w_granted := True, w_ready := True\<rparr>)\<rparr>"
    have b: "?n < length ws" using False bestWaiterIndex_bound by blast
    have run: "dispatchLoop inst (remove1 ?w ws) ?g2 = (ws', g')"
      using "1.prems"(1) False unfolding take_drop_remove1 [OF "1.prems"(2) b, symmetric]
      by (subst (asm) dispatchLoop.simps) (auto simp: Let_def split: if_splits)
    have "ws \<noteq> []" and nostop: "\<not> ?stop" using False by simp_all
    note IH = "1.IH" [OF this(1) refl refl refl _ refl refl, unfolded take_drop_remove1 [OF "1.prems"(2) b], OF nostop run]
    have same: "beats (g_heap ?g2 x) (g_heap ?g2 y) = beats (g_heap g x) (g_heap g y)" for x y
      by (simp add: beats_def)
    have sub: "set ws' \<subseteq> set (remove1 ?w ws)" by (rule dispatchLoop_subset [OF run])
    have v: "v \<in> set ws" using sub "1.prems"(3) set_remove1_subset [of ?w ws] by blast
    show ?thesis
    proof (cases "w = ?w")
      case True
      then show ?thesis using v bestWaiterIndex_best [of v ws "g_heap g"] by simp
    next
      case False
      have "w \<in> set (remove1 ?w ws)" using False "1.prems"(4) by (simp add: in_set_remove1)
      from IH [OF distinct_remove1 [OF "1.prems"(2)] "1.prems"(3) this "1.prems"(5)]
      show ?thesis using v unfolding same by blast
    qed
  qed
qed

lemma release_grant:
  assumes "distinct (queue g inst)" and "v \<in> set (queue (release inst g) inst)"
    and "w \<in> set (queue g inst)" and "w \<notin> set (queue (release inst g) inst)"
  shows "\<not> beats (g_heap g v) (g_heap g w)"
proof -
  let ?g = "freed inst g"
  obtain ws g1 where run: "dispatchLoop inst (queue ?g inst) ?g = (ws, g1)"
    by (cases "dispatchLoop inst (queue ?g inst) ?g")
  have q: "queue (release inst g) inst = ws" by (simp only: release_freed dispatchLocked_def run prod.case queue_simps fun_upd_same)
  show ?thesis
    using dispatchLoop_best [OF run, of v w] assms unfolding q freed_frame by blast
qed

text \<open>Only a release grants a slot to a waiter, and only in the instance it releases.\<close>

lemma grants_release:
  assumes "gov_ok s" and "gov_exec a s = Some s'" and "w \<in> set (queue (gov s) inst)" and "w_granted (g_heap (gov s') w)"
  shows "\<exists>i inst'. i < length (clients s) \<and> (clients s ! i = Holding inst' \<or> clients s ! i = Returning inst') \<and>
    gov s' = release inst' (gov s)"
proof -
  have acc: "accounted (clients s) (held (gov s)) (queue (gov s)) (g_heap (gov s)) (g_next (gov s))"
    using assms(1) by (simp add: gov_ok_def)
  have w: "\<not> w_granted (g_heap (gov s) w)" "w < g_next (gov s)"
    using accountedD(3,4,5) [OF acc] assms(3) by blast+
  show ?thesis
  proof (cases a)
    case (GAcquire request ctxDone)
    obtain out g' where A: "acquireStart request ctxDone (gov s) = (out, g')" by (cases "acquireStart request ctxDone (gov s)")
    have g': "gov s' = g'" using assms(2) GAcquire A by (cases out) auto
    from A have "w_granted (g_heap g' w) = w_granted (g_heap (gov s) w)"
      by (cases rule: acquireStart_cases) (use w(2) in simp_all)
    then show ?thesis using w assms(4) g' by simp
  next
    case (GTry request)
    then show ?thesis using assms(2,4) w by (auto simp: tryAcquire_def split: if_splits)
  next
    case (GWake i)
    then show ?thesis using assms(2,4) w by (auto simp: set_client_def split: if_splits client.splits)
  next
    case (GCancel i)
    then obtain inst x granted where c: "acquireCancel inst x (gov s) = (granted, gov s')"
      using assms(2) by (auto simp: set_client_def split: if_splits client.splits prod.splits)
    show ?thesis using cancel_cases(3) [OF c] w assms(4) by simp
  next
    case (GReturn i)
    then show ?thesis using assms(2) by (auto split: if_splits client.splits)
  next
    case (GRelease i)
    then show ?thesis using assms(2,4) w by (auto split: if_splits client.splits)
  qed
qed

text \<open>
  C13. Nobody is overtaken: when a step grants a waiting request its slot while another request of
  the instance stays queued, the granted one has the higher priority, or the same priority and
  was queued first (for as long as the 64-bit sequence number has not wrapped around).
\<close>

theorem governor_priority:
  assumes "gov_reachable P s" and "gov_exec a s = Some s'" and "g_next (gov s) \<le> 2 ^ 64"
    and "w \<in> set (queue (gov s) inst)" and "w_granted (g_heap (gov s') w)"
    and "v \<in> set (queue (gov s) inst)" and "v \<in> set (queue (gov s') inst)"
  shows "w_priority (g_heap (gov s) v) < w_priority (g_heap (gov s) w) \<or>
    (w_priority (g_heap (gov s) v) = w_priority (g_heap (gov s) w) \<and> w < v)"
proof -
  have ok: "gov_ok s" "gov_ok s'"
    using gov_ok_reachable [OF assms(1)] gov_ok_step [OF _ assms(2)] by blast+
  then have acc: "accounted (clients s) (held (gov s)) (queue (gov s)) (g_heap (gov s)) (g_next (gov s))"
    and acc': "accounted (clients s') (held (gov s')) (queue (gov s')) (g_heap (gov s')) (g_next (gov s'))"
    by (simp_all add: gov_ok_def)
  have gone: "w \<notin> set (queue (gov s') inst)" using accountedD(3) [OF acc'] assms(5) by blast
  obtain i inst' where i: "i < length (clients s)" "clients s ! i = Holding inst' \<or> clients s ! i = Returning inst'"
      and r: "gov s' = release inst' (gov s)"
    using grants_release [OF ok(1) assms(2,4,5)] by blast
  note d = dispatch_facts(6) [OF accounted_freed(2) [OF acc i], where inst = inst', folded release_freed]
  have inst: "inst' = inst"
  proof (rule ccontr)
    assume "inst' \<noteq> inst"
    then have "queue (gov s') inst = queue (gov s) inst" using d [where inst' = inst] by (simp add: r)
    then show False using gone assms(4) by simp
  qed
  have nb: "\<not> beats (g_heap (gov s) v) (g_heap (gov s) w)"
    using release_grant [of "gov s" inst v w] accountedD(2) [OF acc] gone assms(4,7) by (simp add: r inst)
  have lt: "v < g_next (gov s)" "w < g_next (gov s)"
    using accountedD(4,5) [OF acc] assms(4,6) by blast+
  have small: "v < 2 ^ 64" "w < 2 ^ 64" using lt assms(3) by linarith+
  have "w_sequence (g_heap (gov s) v) = of_nat v" "w_sequence (g_heap (gov s) w) = of_nat w"
    using ok(1) lt by (auto simp: gov_ok_def)
  moreover have "(of_nat v :: 64 word) < of_nat w \<longleftrightarrow> v < w"
    using small by (simp add: word_less_nat_alt unat_of_nat)
  moreover have "v \<noteq> w" using gone assms(7) by blast
  ultimately show ?thesis using nb by (auto simp: beats_def)
qed

subsection \<open>Runs for the witnesses\<close>

fun gov_execs :: "gov_action list \<Rightarrow> gov_system \<Rightarrow> gov_system option" where
  "gov_execs [] s = Some s"
| "gov_execs (a # as) s = (case gov_exec a s of None \<Rightarrow> None | Some s' \<Rightarrow> gov_execs as s')"

lemma gov_execs_reachable:
  "gov_reachable P s \<Longrightarrow> \<forall>a\<in>set as. asks P a \<Longrightarrow> gov_execs as s = Some s' \<Longrightarrow> gov_reachable P s'"
  by (induction as arbitrary: s) (auto split: option.splits intro: gov_next)

definition asking :: "int \<Rightarrow> ConnectionPriority \<Rightarrow> InstanceConnectionRequest" where
  "asking limit priority = \<lparr>InstanceID = ''db'', MaximumConnections = limit, Priority = priority\<rparr>"

definition contention :: "gov_action list" where
  "contention = [GAcquire (asking 1 ConnectionPriorityBackground) False,
     GAcquire (asking 1 ConnectionPriorityBackground) False,
     GAcquire (asking 1 ConnectionPriorityInteractive) False]"

abbreviation gov_start :: gov_system where
  "gov_start \<equiv> \<lparr>gov = newConnectionGovernor, clients = []\<rparr>"

lemma contention_run:
  "\<exists>s s'. gov_execs contention gov_start = Some s \<and> gov_exec (GRelease 0) s = Some s' \<and>
     queue (gov s) ''db'' = [0, 1] \<and> queue (gov s') ''db'' = [0] \<and> w_granted (g_heap (gov s') 1) \<and>
     clients s = [Holding ''db'', Waiting ''db'' 0, Waiting ''db'' 1] \<and> g_next (gov s) = 2"
proof -
  have "map_option (\<lambda>s. (queue (gov s) ''db'', clients s, g_next (gov s),
        map_option (\<lambda>s'. (queue (gov s') ''db'', w_granted (g_heap (gov s') 1))) (gov_exec (GRelease 0) s)))
      (gov_execs contention gov_start) =
      Some ([0, 1], [Holding ''db'', Waiting ''db'' 0, Waiting ''db'' 1], 2, Some ([0], True))"
    by code_simp
  then show ?thesis by auto
qed

lemma contention_asks: "\<forall>a\<in>set contention. asks (same_ceiling (\<lambda>_. 1)) a"
  by (simp add: contention_def same_ceiling_def asking_def)

theorem governor_ceiling_witness:
  "\<exists>s. gov_execs contention gov_start = Some s \<and> int (card (sessions ''db'' s)) \<le> 1 \<and>
     queue (gov s) ''db'' \<noteq> [] \<and> held (gov s) ''db'' = 1"
proof -
  obtain s where s: "gov_execs contention gov_start = Some s" "queue (gov s) ''db'' = [0, 1]"
    using contention_run by blast
  have "gov_reachable (same_ceiling (\<lambda>_. 1)) s"
    by (rule gov_execs_reachable [OF gov_init contention_asks s(1)])
  from governor_ceiling [OF this, of "''db''"] show ?thesis using s by simp
qed

theorem governor_no_lost_slot_witness:
  "\<exists>s s' w. gov_execs contention gov_start = Some s \<and> held (gov s) ''db'' = 1 \<and>
     gov_exec (GRelease 0) s = Some s' \<and> queue (gov s') ''db'' = remove1 w [0, 1] \<and> w_ready (g_heap (gov s') w)"
proof -
  obtain s s' where s: "gov_execs contention gov_start = Some s" "gov_exec (GRelease 0) s = Some s'"
      "queue (gov s) ''db'' = [0, 1]" "clients s = [Holding ''db'', Waiting ''db'' 0, Waiting ''db'' 1]"
    using contention_run by blast
  have r: "gov_reachable (same_ceiling (\<lambda>_. 1)) s"
    by (rule gov_execs_reachable [OF gov_init contention_asks s(1)])
  have "(\<forall>r. same_ceiling (\<lambda>_. 1) r \<longrightarrow> same_ceiling (\<lambda>_. 1) r) \<and> queue (gov s) ''db'' \<noteq> []" using s(3) by simp
  then have h: "held (gov s) ''db'' = 1" "\<And>i s'. i < length (clients s) \<and>
      (clients s ! i = Holding ''db'' \<and> gov_exec (GRelease i) s = Some s' \<or>
        clients s ! i = Returning ''db'' \<and> gov_exec (GReturn i) s = Some s') \<Longrightarrow>
      \<exists>w\<in>set (queue (gov s) ''db''). queue (gov s') ''db'' = remove1 w (queue (gov s) ''db'') \<and> w_ready (g_heap (gov s') w)"
    using governor_no_lost_slot [OF r, of "''db''"] by blast+
  have "0 < length (clients s) \<and> clients s ! 0 = Holding ''db''" using s(4) by simp
  then have "\<exists>w. queue (gov s') ''db'' = remove1 w [0, 1] \<and> w_ready (g_heap (gov s') w)"
    using h(2) [of 0 s'] s(2) unfolding s(3) by blast
  with h(1) show ?thesis using s by blast
qed

theorem governor_priority_witness:
  "\<exists>s s'. gov_execs contention gov_start = Some s \<and> gov_exec (GRelease 0) s = Some s' \<and>
     w_granted (g_heap (gov s') 1) \<and> w_priority (g_heap (gov s) 0) < w_priority (g_heap (gov s) 1)"
proof -
  obtain s s' where s: "gov_execs contention gov_start = Some s" "gov_exec (GRelease 0) s = Some s'"
      "queue (gov s) ''db'' = [0, 1]" "queue (gov s') ''db'' = [0]" "w_granted (g_heap (gov s') 1)" "g_next (gov s) = 2"
    using contention_run by blast
  have "gov_reachable (same_ceiling (\<lambda>_. 1)) s"
    by (rule gov_execs_reachable [OF gov_init contention_asks s(1)])
  from governor_priority [OF this s(2), of 1 "''db''" 0] show ?thesis using s by simp
qed

text \<open>
  What the documentation of \<open>AcquireInstanceConnection\<close> says of a request without a ceiling,
  that it never queues, holds only if no other caller set one: behind a waiter it does queue.
\<close>

theorem unlimited_request_queues:
  "\<exists>s w. gov_reachable (\<lambda>_. True) s \<and>
     fst (acquireStart (asking 0 ConnectionPriorityInteractive) False (gov s)) = AcquireQueued w"
proof -
  have "map_option (\<lambda>s. fst (acquireStart (asking 0 ConnectionPriorityInteractive) False (gov s)))
      (gov_execs contention gov_start) = Some (AcquireQueued 2)"
    by code_simp
  then obtain s where s: "gov_execs contention gov_start = Some s"
      "fst (acquireStart (asking 0 ConnectionPriorityInteractive) False (gov s)) = AcquireQueued 2"
    by auto
  have "\<forall>a\<in>set contention. asks (\<lambda>_. True) a" by (simp add: contention_def)
  then have "gov_reachable (\<lambda>_. True) s" using gov_execs_reachable [OF gov_init _ s(1)] by blast
  then show ?thesis using s(2) by blast
qed

end
