(* ===== verification/SQL_Sanitize.thy ===== *)
theory SQL_Sanitize
  imports Go_Strings
begin

text \<open>
  The sanitizer of application SQL, package \<open>backend/plugin/sqlsanitize\<close>: \<open>token.go\<close> (token
  spans, literals, comments), \<open>sanitize.go\<close> (the stored text and its fingerprint) and
  \<open>fold.go\<close> (the list foldings of the fingerprint). The dialect lexers and SHA-256 are packages
  the repository calls, so they are parameters. Strings are byte strings; white space is the
  ASCII one.
\<close>

subsection \<open>Tokens\<close>

datatype Engine = POSTGRES | STARROCKS | DORIS | MSSQL | OtherEngine string

record lex_token =
  lt_type :: nat
  lt_loc :: nat
  lt_end :: nat
  lt_err :: bool

text \<open>
  A lexer: the tokens successive calls of \<open>NextToken\<close> return (\<open>lt_err\<close> is the lexer's error
  state after the call), and the one-shot tokenizers with whether they reported errors.
\<close>

record lexers =
  NextToken :: "Engine \<Rightarrow> string \<Rightarrow> nat \<Rightarrow> lex_token"
  Tokenize :: "Engine \<Rightarrow> string \<Rightarrow> lex_token list \<times> bool"

type_synonym span = "nat \<times> nat"

definition substr :: "string \<Rightarrow> nat \<Rightarrow> nat \<Rightarrow> string" where
  "substr s i j = take (j - i) (drop i s)"

function trimTrailingSpace :: "string \<Rightarrow> span \<Rightarrow> span" where
  "trimTrailingSpace sql (loc, e) =
     (if loc < e \<and> sql ! (e - 1) \<in> {CHR '' '', CHR 0x09, CHR 0x0D, CHR 0x0A}
      then trimTrailingSpace sql (loc, e - 1) else (loc, e))"
  by pat_completeness auto
termination
  by (relation "measure (\<lambda>(_, _, e). e)") auto

declare trimTrailingSpace.simps [simp del]

text \<open>The loops over \<open>NextToken\<close>, from call \<open>i\<close> on with \<open>n\<close> calls left.\<close>

fun nextSpans :: "(nat \<Rightarrow> lex_token) \<Rightarrow> string \<Rightarrow> nat \<Rightarrow> nat \<Rightarrow> span list" where
  "nextSpans nt sql 0 i = []"
| "nextSpans nt sql (Suc n) i =
     (let t = nt i in
      if lt_type t = 0 \<or> lt_end t \<le> lt_loc t then []
      else trimTrailingSpace sql (lt_loc t, lt_end t) # nextSpans nt sql n (i + 1))"

fun nextSpansMSSQL :: "(nat \<Rightarrow> lex_token) \<Rightarrow> string \<Rightarrow> nat \<Rightarrow> nat \<Rightarrow> span list option" where
  "nextSpansMSSQL nt sql 0 i = Some []"
| "nextSpansMSSQL nt sql (Suc n) i =
     (let t = nt i in
      if lt_err t then None
      else if lt_type t = 0 \<or> lt_end t \<le> lt_loc t then Some []
      else map_option ((#) (trimTrailingSpace sql (lt_loc t, lt_end t))) (nextSpansMSSQL nt sql n (i + 1)))"

definition tokenizeSpans :: "lex_token list \<times> bool \<Rightarrow> string \<Rightarrow> span list" where
  "tokenizeSpans res sql =
     (if snd res then []
      else map (\<lambda>t. trimTrailingSpace sql (lt_loc t, lt_end t)) (filter (\<lambda>t. lt_loc t < lt_end t) (fst res)))"

definition tokenSpans :: "lexers \<Rightarrow> Engine \<Rightarrow> string \<Rightarrow> span list" where
  "tokenSpans lx engine sql =
     (case engine of
        POSTGRES \<Rightarrow> nextSpans (NextToken lx engine sql) sql (length sql + 1) 0
      | STARROCKS \<Rightarrow> tokenizeSpans (Tokenize lx engine sql) sql
      | DORIS \<Rightarrow> tokenizeSpans (Tokenize lx engine sql) sql
      | MSSQL \<Rightarrow> (case nextSpansMSSQL (NextToken lx engine sql) sql (length sql + 1) 0 of
          None \<Rightarrow> [] | Some spans \<Rightarrow> spans)
      | OtherEngine _ \<Rightarrow> nextSpans (NextToken lx engine sql) sql (length sql + 1) 0)"

subsection \<open>Literals\<close>

definition Placeholder :: string where
  "Placeholder = ''?''"

definition dollarParam :: "string \<Rightarrow> bool" where
  "dollarParam raw \<longleftrightarrow> raw \<noteq> [] \<and> hd raw = CHR ''$'' \<and> tl raw \<noteq> [] \<and> (\<forall>c\<in>set (tl raw). is_digit c)"

definition isPlaceholder :: "string \<Rightarrow> bool" where
  "isPlaceholder raw \<longleftrightarrow> raw = Placeholder \<or> dollarParam raw"

text \<open>
  \<open>utf8.DecodeRuneInString\<close>: the width of the rune a string starts with, \<open>None\<close> for a byte that
  starts no valid encoding (which Go decodes as one byte).
\<close>

definition byte :: "char \<Rightarrow> nat" where
  "byte c = of_char c"

definition rune_width :: "string \<Rightarrow> nat option" where
  "rune_width s =
     (let b = (\<lambda>i. if i < length s then byte (s ! i) else 0);
          cont = (\<lambda>i. 128 \<le> b i \<and> b i \<le> 191);
          within = (\<lambda>lo hi. lo \<le> b 1 \<and> b 1 \<le> hi)
      in if s = [] then None
         else if b 0 < 128 then Some 1
         else if 194 \<le> b 0 \<and> b 0 \<le> 223 then (if cont 1 then Some 2 else None)
         else if b 0 = 224 then (if within 160 191 \<and> cont 2 then Some 3 else None)
         else if b 0 = 237 then (if within 128 159 \<and> cont 2 then Some 3 else None)
         else if 225 \<le> b 0 \<and> b 0 \<le> 239 then (if cont 1 \<and> cont 2 then Some 3 else None)
         else if b 0 = 240 then (if within 144 191 \<and> cont 2 \<and> cont 3 then Some 4 else None)
         else if 241 \<le> b 0 \<and> b 0 \<le> 243 then (if cont 1 \<and> cont 2 \<and> cont 3 then Some 4 else None)
         else if b 0 = 244 then (if within 128 143 \<and> cont 2 \<and> cont 3 then Some 4 else None)
         else None)"

lemma rune_width_bound: "rune_width s = Some n \<Longrightarrow> 0 < n \<and> s \<noteq> []"
  by (auto simp: rune_width_def Let_def split: if_splits)

function ValidString :: "string \<Rightarrow> bool" where
  "ValidString s =
     (if s = [] then True
      else case rune_width s of None \<Rightarrow> False | Some n \<Rightarrow> ValidString (drop n s))"
  by pat_completeness auto
termination
  by (relation "measure length") (auto dest: rune_width_bound)

declare ValidString.simps [simp del]

definition tSQLMoneyLiteral :: "string \<Rightarrow> bool" where
  "tSQLMoneyLiteral raw =
     (if raw = [] then False
      else
        let size = (case rune_width raw of None \<Rightarrow> 1 | Some n \<Rightarrow> n) in
        if hd raw \<noteq> CHR ''$'' \<and> byte (hd raw) < 128 then False
        else
          let rest = TrimLeft (\<lambda>c. c = CHR '' '' \<or> c = CHR 0x09) (drop size raw);
              rest = TrimLeft (\<lambda>c. c = CHR ''+'' \<or> c = CHR ''-'') rest
          in if rest = [] then False
             else is_digit (hd rest) \<or> hd rest = CHR ''.'')"

definition isLiteral :: "Engine \<Rightarrow> string \<Rightarrow> bool" where
  "isLiteral engine raw =
     (if raw = [] \<or> raw = Placeholder then False
      else if engine = MSSQL \<and> tSQLMoneyLiteral raw then True
      else if hd raw = CHR 0x27 then True
      else if hd raw = CHR 0x22 then engine \<noteq> POSTGRES \<and> engine \<noteq> MSSQL
      else if hd raw = CHR ''['' then False
      else if hd raw = CHR ''#'' then False
      else if hd raw = CHR 0x60 then False
      else if hd raw = CHR ''$'' then engine \<noteq> MSSQL \<and> \<not> dollarParam raw
      else if hd raw = CHR ''@'' then False
      else if hd raw = CHR ''.'' then 1 < length raw \<and> is_digit (raw ! 1)
      else if is_digit (hd raw) then True
      else CHR 0x27 \<in> set raw)"

subsection \<open>Comments\<close>

text \<open>The loop of \<open>blockCommentEnd\<close> at offset \<open>i\<close>; \<open>None\<close> for -1.\<close>

fun blockEndLoop :: "int \<Rightarrow> string \<Rightarrow> nat \<Rightarrow> nat option" where
  "blockEndLoop depth (a # b # s) i =
     (if a = CHR ''/'' \<and> b = CHR ''*'' then blockEndLoop (depth + 1) s (i + 2)
      else if a = CHR ''*'' \<and> b = CHR ''/''
      then (if depth - 1 = 0 then Some (i + 2) else blockEndLoop (depth - 1) s (i + 2))
      else blockEndLoop depth (b # s) (i + 1))"
| "blockEndLoop depth [a] i = None"
| "blockEndLoop depth [] i = None"

definition blockCommentEnd :: "string \<Rightarrow> nat option" where
  "blockCommentEnd s = blockEndLoop 0 s 0"

lemma blockEndLoop_grows: "blockEndLoop depth s i = Some n \<Longrightarrow> i < n"
  by (induction depth s i rule: blockEndLoop.induct) (auto split: if_splits)

fun IndexByte :: "string \<Rightarrow> char \<Rightarrow> nat option" where
  "IndexByte [] c = None"
| "IndexByte (x # s) c = (if x = c then Some 0 else map_option Suc (IndexByte s c))"

definition lineComment :: "Engine \<Rightarrow> string \<Rightarrow> bool" where
  "lineComment engine gap \<longleftrightarrow> HasPrefix gap ''--'' \<or>
     (engine \<noteq> POSTGRES \<and> engine \<noteq> MSSQL \<and> HasPrefix gap ''#'')"

text \<open>The text of a gap from an offset on, what precedes it having been written.\<close>

function stripComments :: "Engine \<Rightarrow> string \<Rightarrow> string" where
  "stripComments engine gap =
     (if gap = [] then []
      else if lineComment engine gap
      then (case IndexByte gap (CHR 0x0A) of
              None \<Rightarrow> []
            | Some nl \<Rightarrow> if nl = 0 then gap else stripComments engine (drop nl gap))
      else if HasPrefix gap ''/*''
      then (case blockCommentEnd gap of None \<Rightarrow> [] | Some n \<Rightarrow> CHR '' '' # stripComments engine (drop n gap))
      else hd gap # stripComments engine (tl gap))"
  by pat_completeness auto
termination
  by (relation "measure (\<lambda>(_, gap). length gap)")
    (auto simp: blockCommentEnd_def dest: blockEndLoop_grows)

declare stripComments.simps [simp del]

text \<open>A line comment does not start at a newline, so the case \<open>nl = 0\<close> does not arise.\<close>

lemma lineComment_newline: "lineComment engine gap \<Longrightarrow> IndexByte gap (CHR 0x0A) \<noteq> Some 0"
  by (cases gap) (auto simp: lineComment_def HasPrefix_def)

subsection \<open>The stored text\<close>

definition redacted :: "Engine \<Rightarrow> string \<Rightarrow> bool" where
  "redacted engine raw \<longleftrightarrow> isLiteral engine raw \<or> isPlaceholder raw"

text \<open>The loop of \<open>rewriteLiterals\<close> from \<open>cursor\<close> on.\<close>

fun rewriteFrom :: "Engine \<Rightarrow> string \<Rightarrow> nat \<Rightarrow> span list \<Rightarrow> string" where
  "rewriteFrom engine sql cursor [] =
     (if cursor < length sql then stripComments engine (drop cursor sql) else [])"
| "rewriteFrom engine sql cursor ((loc, e) # spans) =
     (if cursor < loc then stripComments engine (substr sql cursor loc) else [])
     @ (let raw = substr sql loc e in if redacted engine raw then Placeholder else raw)
     @ rewriteFrom engine sql e spans"

definition rewriteLiterals :: "Engine \<Rightarrow> string \<Rightarrow> span list \<Rightarrow> string" where
  "rewriteLiterals engine sql spans = rewriteFrom engine sql 0 spans"

definition neutralLiteral :: string where
  "neutralLiteral = [CHR 0x27, CHR ''?'', CHR 0x27]"

fun analyzableFrom :: "string \<Rightarrow> nat \<Rightarrow> span list \<Rightarrow> string" where
  "analyzableFrom text cursor [] = (if cursor < length text then drop cursor text else [])"
| "analyzableFrom text cursor ((loc, e) # spans) =
     (if cursor < loc then substr text cursor loc else [])
     @ (let raw = substr text loc e in if raw = Placeholder then neutralLiteral else raw)
     @ analyzableFrom text e spans"

definition Analyzable :: "lexers \<Rightarrow> Engine \<Rightarrow> string \<Rightarrow> string" where
  "Analyzable lx engine text =
     (let spans = tokenSpans lx engine text in
      if spans = [] then text else analyzableFrom text 0 spans)"

subsection \<open>The foldings of the fingerprint\<close>

text \<open>
  \<open>strings.EqualFold\<close> with an ASCII keyword: beside the two cases of a letter, the Kelvin sign
  folds to k and the long s to s.
\<close>

fun isKeyword :: "string \<Rightarrow> string \<Rightarrow> bool" where
  "isKeyword raw [] \<longleftrightarrow> raw = []"
| "isKeyword [] (k # ks) \<longleftrightarrow> False"
| "isKeyword (c # raw) (k # ks) \<longleftrightarrow>
     (lower_char c = lower_char k \<and> isKeyword raw ks)
     \<or> (lower_char k = CHR ''s'' \<and> c = CHR 0xC5 \<and> raw \<noteq> [] \<and> hd raw = CHR 0xBF \<and> isKeyword (tl raw) ks)
     \<or> (lower_char k = CHR ''k'' \<and> c = CHR 0xE2 \<and> take 2 raw = [CHR 0x84, CHR 0xAA]
        \<and> isKeyword (drop 2 raw) ks)"

text \<open>The loop of \<open>placeholderGroupEnd\<close> over \<open>, ?\<close>, from token \<open>i\<close> on.\<close>

function groupLoop :: "string list \<Rightarrow> nat \<Rightarrow> nat" where
  "groupLoop raws i =
     (if i + 1 < length raws \<and> raws ! i = '','' \<and> raws ! (i + 1) = Placeholder
      then groupLoop raws (i + 2) else i)"
  by pat_completeness auto
termination
  by (relation "measure (\<lambda>(raws, i). length raws - i)") auto

declare groupLoop.simps [simp del]

lemma groupLoop_le: "i \<le> groupLoop raws i"
  by (induction raws i rule: groupLoop.induct) (subst groupLoop.simps, auto)

definition placeholderGroupEnd :: "string list \<Rightarrow> nat \<Rightarrow> nat option" where
  "placeholderGroupEnd raws opn =
     (if length raws \<le> opn \<or> raws ! opn \<noteq> ''('' then None
      else if length raws \<le> opn + 1 \<or> raws ! (opn + 1) \<noteq> Placeholder then None
      else let i = groupLoop raws (opn + 2) in
        if length raws \<le> i \<or> raws ! i \<noteq> '')'' then None else Some i)"

lemma placeholderGroupEnd_bounds:
  "placeholderGroupEnd raws opn = Some i \<Longrightarrow> opn + 2 \<le> i \<and> i < length raws"
  using groupLoop_le [of "opn + 2" raws]
  by (auto simp: placeholderGroupEnd_def Let_def split: if_splits)

function foldInFrom :: "string list \<Rightarrow> nat \<Rightarrow> string list" where
  "foldInFrom raws i =
     (if i < length raws
      then if \<not> isKeyword (raws ! i) ''IN'' then raws ! i # foldInFrom raws (i + 1)
           else (case placeholderGroupEnd raws (i + 1) of
                   None \<Rightarrow> raws ! i # foldInFrom raws (i + 1)
                 | Some e \<Rightarrow> [raws ! i, ''('', Placeholder, '')''] @ foldInFrom raws (e + 1))
      else [])"
  by pat_completeness auto
termination
  by (relation "measure (\<lambda>(raws, i). length raws - i)") (auto dest: placeholderGroupEnd_bounds)

declare foldInFrom.simps [simp del]

definition foldInLists :: "string list \<Rightarrow> string list" where
  "foldInLists raws = foldInFrom raws 0"

text \<open>The index of the last closing parenthesis of the groups that follow the one at \<open>last\<close>.\<close>

function lastGroup :: "string list \<Rightarrow> nat \<Rightarrow> nat" where
  "lastGroup raws l =
     (if l + 2 < length raws \<and> raws ! (l + 1) = '',''
      then (case placeholderGroupEnd raws (l + 2) of
              None \<Rightarrow> l
            | Some nextEnd \<Rightarrow> lastGroup raws nextEnd)
      else l)"
  by pat_completeness auto
termination
  by (relation "measure (\<lambda>(raws, l). length raws - l)") (auto dest: placeholderGroupEnd_bounds)

declare lastGroup.simps [simp del]

lemma lastGroup_le: "l \<le> lastGroup raws l"
proof (induction raws l rule: lastGroup.induct)
  case (1 raws l)
  then show ?case
    by (subst lastGroup.simps) (force dest: placeholderGroupEnd_bounds split: option.splits)
qed

function foldValuesFrom :: "string list \<Rightarrow> nat \<Rightarrow> string list" where
  "foldValuesFrom raws i =
     (if i < length raws
      then if \<not> isKeyword (raws ! i) ''VALUES'' then raws ! i # foldValuesFrom raws (i + 1)
           else (case placeholderGroupEnd raws (i + 1) of
                   None \<Rightarrow> raws ! i # foldValuesFrom raws (i + 1)
                 | Some firstEnd \<Rightarrow>
                     raws ! i # take (firstEnd - i) (drop (i + 1) raws)
                     @ foldValuesFrom raws (lastGroup raws firstEnd + 1))
      else [])"
  by pat_completeness auto
termination
  apply (relation "measure (\<lambda>(raws, i). length raws - i)")
     apply auto
  using lastGroup_le placeholderGroupEnd_bounds
  by (smt (verit, best) Suc_leD Suc_le_eq add_2_eq_Suc' diff_less_mono2 le_SucI le_trans less_Suc_eq_le)

declare foldValuesFrom.simps [simp del]

definition foldValueGroups :: "string list \<Rightarrow> string list" where
  "foldValueGroups raws = foldValuesFrom raws 0"

subsection \<open>Sanitize\<close>

datatype sanitize_error = ErrUnlexable

record Statement =
  Text :: string
  Canonical :: string
  Fingerprint :: string

definition canonicalForm :: "lexers \<Rightarrow> Engine \<Rightarrow> string \<Rightarrow> string" where
  "canonicalForm lx engine text =
     (let parts = map (\<lambda>(loc, e). substr text loc e) (tokenSpans lx engine text)
      in Join (foldValueGroups (foldInLists parts)) '' '')"

text \<open>The parameter \<open>hash\<close> is the hexadecimal SHA-256 of a text.\<close>

definition Sanitize :: "lexers \<Rightarrow> (string \<Rightarrow> string) \<Rightarrow> Engine \<Rightarrow> string \<Rightarrow> sanitize_error + Statement" where
  "Sanitize lx hash engine sql =
     (if \<not> ValidString sql then Inl ErrUnlexable
      else
        let spans = tokenSpans lx engine sql in
        if spans = [] then Inl ErrUnlexable
        else if TrimSpace (stripComments engine (drop (snd (last spans)) sql)) \<noteq> [] then Inl ErrUnlexable
        else
          let text = TrimSpace (rewriteLiterals engine sql spans) in
          if text = [] then Inl ErrUnlexable
          else
            let canonical = canonicalForm lx engine text
            in Inr \<lparr>Text = text, Canonical = canonical, Fingerprint = hash canonical\<rparr>)"

end
