(* ===== verification/SQL_Fold_Laws.thy ===== *)
theory SQL_Fold_Laws
  imports SQL_Sanitize
begin

text \<open>
  The laws of the two list foldings of \<open>fold.go\<close>: their equations over groups of placeholders,
  what any such pass keeps (locale \<open>folding\<close>, of which both are instances), idempotence,
  commutation, and that the length of a list does not count.
\<close>

subsection \<open>Groups of placeholders\<close>

text \<open>The tokens \<open>, ?\<close> repeated \<open>n\<close> times, and the group of \<open>n + 1\<close> placeholders.\<close>

fun more :: "nat \<Rightarrow> string list" where
  "more 0 = []"
| "more (Suc n) = '','' # Placeholder # more n"

definition holders :: "nat \<Rightarrow> string list" where
  "holders n = ''('' # Placeholder # more n @ ['')'']"

lemma length_more [simp]: "length (more n) = 2 * n"
  by (induction n) auto

lemma length_holders [simp]: "length (holders n) = 2 * n + 3"
  by (simp add: holders_def)

lemma more_inj: "more n @ '')'' # r = more m @ '')'' # r' \<Longrightarrow> n = m \<and> r = r'"
proof (induction n arbitrary: m)
  case 0
  then show ?case by (cases m) auto
next
  case (Suc n)
  then show ?case by (cases m) auto
qed

lemma holders_inj: "holders n @ r = holders m @ r' \<longleftrightarrow> n = m \<and> r = r'"
  using more_inj [of n r m r'] by (auto simp: holders_def)

lemma set_more: "set (more n) \<subseteq> {'','', ''?''}"
  by (induction n) (auto simp: Placeholder_def)

lemma set_holders: "set (holders n) \<subseteq> {''('', '')'', '','', ''?''}"
  using set_more [of n] by (auto simp: holders_def Placeholder_def)

lemma groupLoop_shift: "groupLoop raws (i + k) = i + groupLoop (drop i raws) k"
proof (induction "drop i raws" k rule: groupLoop.induct)
  case (1 k)
  show ?case
    using 1
    by (subst groupLoop.simps, subst (2) groupLoop.simps) (auto simp: add.assoc less_diff_conv algebra_simps)
qed

lemma groupLoop_more:
  "groupLoop (pre @ more n @ '')'' # r) (length pre) = length pre + 2 * n"
proof (induction n arbitrary: pre)
  case 0
  show ?case by (subst groupLoop.simps) (simp add: nth_append)
next
  case (Suc n)
  have "groupLoop (pre @ more (Suc n) @ '')'' # r) (length pre)
      = groupLoop ((pre @ ['','', Placeholder]) @ more n @ '')'' # r) (length (pre @ ['','', Placeholder]))"
    by (subst groupLoop.simps) (simp add: nth_append)
  then show ?case using Suc [of "pre @ ['','', Placeholder]"] by simp
qed

lemma groupLoop_spec:
  "groupLoop raws i = j \<Longrightarrow> i \<le> length raws \<Longrightarrow> \<exists>n. j = i + 2 * n \<and> (\<exists>r. drop i raws = more n @ r)"
proof (induction raws i rule: groupLoop.induct)
  case (1 raws i)
  show ?case
  proof (cases "i + 1 < length raws \<and> raws ! i = '','' \<and> raws ! (i + 1) = Placeholder")
    case True
    then have "groupLoop raws (i + 2) = j" using 1(2) by (subst (asm) groupLoop.simps) simp
    then obtain n r where nr: "j = i + 2 + 2 * n" "drop (i + 2) raws = more n @ r"
      using 1(1) True by auto
    have "drop i raws = raws ! i # raws ! (i + 1) # drop (i + 2) raws"
      using True by (metis Cons_nth_drop_Suc Suc_eq_plus1 add_2_eq_Suc' add_lessD1)
    then have "drop i raws = more (Suc n) @ r" using nr True by simp
    then show ?thesis using nr by (intro exI [of _ "Suc n"]) auto
  next
    case False
    then have "j = i" using 1(2) by (subst (asm) groupLoop.simps) auto
    then show ?thesis by (intro exI [of _ 0]) auto
  qed
qed

lemma placeholderGroupEnd_holders: "placeholderGroupEnd (holders n @ r) 0 = Some (2 * n + 2)"
  using groupLoop_more [of "[''('', Placeholder]" n r]
  by (simp add: placeholderGroupEnd_def holders_def nth_append)

lemma placeholderGroupEnd_shift:
  "placeholderGroupEnd raws (i + k) = map_option (\<lambda>e. i + e) (placeholderGroupEnd (drop i raws) k)"
  using groupLoop_shift [of raws i "k + 2"]
  by (auto simp: placeholderGroupEnd_def Let_def add.assoc not_le less_diff_conv algebra_simps)

lemma placeholderGroupEnd_zero:
  assumes "placeholderGroupEnd ts 0 = Some e"
  shows "\<exists>n r. ts = holders n @ r \<and> e = 2 * n + 2"
proof -
  obtain rest where ts: "ts = ''('' # Placeholder # rest" and loop: "groupLoop ts 2 = e"
    and e: "e < length ts" "ts ! e = '')''"
    using assms
    by (cases ts; cases "tl ts") (auto simp: placeholderGroupEnd_def Let_def numeral_2_eq_2 split: if_splits)
  obtain n r where n: "e = 2 + 2 * n" "rest = more n @ r"
    using groupLoop_spec [OF loop] ts by auto
  have "r ! 0 = '')''" "r \<noteq> []" using e n ts by (auto simp: nth_append)
  then have "ts = holders n @ tl r" using ts n by (cases r) (auto simp: holders_def)
  then show ?thesis using n by auto
qed

lemma placeholderGroupEnd_Some:
  "placeholderGroupEnd raws i = Some e \<longleftrightarrow> (\<exists>n r. drop i raws = holders n @ r \<and> e = i + 2 * n + 2)"
  using placeholderGroupEnd_shift [of raws i 0] placeholderGroupEnd_zero [of "drop i raws"]
    placeholderGroupEnd_holders
  by (auto simp: )

definition no_group :: "string list \<Rightarrow> bool" where
  "no_group ts \<longleftrightarrow> (\<nexists>n r. ts = holders n @ r)"

lemma placeholderGroupEnd_None: "placeholderGroupEnd raws i = None \<longleftrightarrow> no_group (drop i raws)"
proof (cases "placeholderGroupEnd raws i")
  case None
  then show ?thesis using placeholderGroupEnd_Some [of raws i] unfolding no_group_def by force
next
  case (Some e)
  then show ?thesis using placeholderGroupEnd_Some [of raws i e] unfolding no_group_def by force
qed

subsection \<open>The foldings over the rest of the tokens\<close>

lemma foldInFrom_shift: "foldInFrom raws (i + k) = foldInFrom (drop i raws) k"
proof (induction "drop i raws" k rule: foldInFrom.induct)
  case (1 k)
  show ?case
  proof (cases "i + k < length raws")
    case True
    then have k: "k < length (drop i raws)" "drop i raws ! k = raws ! (i + k)" by auto
    show ?thesis
    proof (cases "isKeyword (raws ! (i + k)) ''IN''")
      case kw: True
      have eq: "placeholderGroupEnd raws (i + k + 1)
          = map_option (\<lambda>e. i + e) (placeholderGroupEnd (drop i raws) (k + 1))"
        using placeholderGroupEnd_shift [of raws i "k + 1"] by (simp add: add.assoc)
      show ?thesis
      proof (cases "placeholderGroupEnd (drop i raws) (k + 1)")
        case None
        then show ?thesis using 1(2) kw k True eq
          by (auto simp: add.assoc foldInFrom.simps [of raws "i + k"] foldInFrom.simps [of "drop i raws" k])
      next
        case (Some e)
        then show ?thesis using 1(3) kw k True eq
          by (auto simp: add.assoc foldInFrom.simps [of raws "i + k"] foldInFrom.simps [of "drop i raws" k])
      qed
    next
      case False
      then show ?thesis using 1(1) k True
        by (auto simp: add.assoc foldInFrom.simps [of raws "i + k"] foldInFrom.simps [of "drop i raws" k])
    qed
  next
    case False
    then show ?thesis by (auto simp: foldInFrom.simps [of raws "i + k"] foldInFrom.simps [of "drop i raws" k])
  qed
qed

lemma foldInFrom_drop: "foldInFrom raws i = foldInLists (drop i raws)"
  using foldInFrom_shift [of raws i 0] by (simp add: foldInLists_def)

lemma foldInLists_Nil [simp]: "foldInLists [] = []"
  by (simp add: foldInLists_def foldInFrom.simps)

lemma foldInLists_other: "\<not> isKeyword t ''IN'' \<Longrightarrow> foldInLists (t # ts) = t # foldInLists ts"
  unfolding foldInLists_def by (subst foldInFrom.simps) (simp add: foldInFrom_drop)

lemma foldInLists_none:
  "isKeyword t ''IN'' \<Longrightarrow> no_group ts \<Longrightarrow> foldInLists (t # ts) = t # foldInLists ts"
  unfolding foldInLists_def using placeholderGroupEnd_None [of "t # ts" 1]
  by (subst foldInFrom.simps) (simp add: foldInFrom_drop)

lemma foldInLists_group:
  assumes "isKeyword t ''IN''"
  shows "foldInLists (t # holders n @ ts) = t # holders 0 @ foldInLists ts"
proof -
  have "placeholderGroupEnd (t # holders n @ ts) 1 = Some (2 * n + 3)"
    by (subst placeholderGroupEnd_Some) auto
  moreover have "drop k (t # holders n @ ts) = ts" if "k = length (t # holders n)" for k
    unfolding that by (simp del: length_holders)
  ultimately show ?thesis using assms unfolding foldInLists_def
    by (subst foldInFrom.simps) (simp add: foldInFrom_drop holders_def [of 0])
qed

lemma fold_group_cases [case_names holders no_group]:
  obtains n r where "ts = holders n @ r" | "no_group ts"
  unfolding no_group_def by blast

lemma lastGroup_shift: "lastGroup raws (i + k) = i + lastGroup (drop i raws) k"
proof (induction "drop i raws" k rule: lastGroup.induct)
  case (1 k)
  show ?case
  proof (cases "i + k + 2 < length raws \<and> raws ! (i + k + 1) = '',''")
    case True
    then have k: "k + 2 < length (drop i raws) \<and> drop i raws ! (k + 1) = '',''" by (auto simp: add.assoc)
    have eq: "placeholderGroupEnd raws (i + k + 2)
        = map_option (\<lambda>e. i + e) (placeholderGroupEnd (drop i raws) (k + 2))"
      using placeholderGroupEnd_shift [of raws i "k + 2"] by (simp add: add.assoc)
    show ?thesis
      using 1 [OF k] True k eq
      by (auto simp: lastGroup.simps [of raws "i + k"] lastGroup.simps [of "drop i raws" k]
          split: option.splits)
  next
    case False
    then show ?thesis by (auto simp: add.assoc lastGroup.simps [of raws "i + k"]
        lastGroup.simps [of "drop i raws" k])
  qed
qed

lemma foldValuesFrom_shift: "foldValuesFrom raws (i + k) = foldValuesFrom (drop i raws) k"
proof (induction "drop i raws" k rule: foldValuesFrom.induct)
  case (1 k)
  show ?case
  proof (cases "i + k < length raws")
    case True
    then have k: "k < length (drop i raws)" "drop i raws ! k = raws ! (i + k)" by auto
    show ?thesis
    proof (cases "isKeyword (raws ! (i + k)) ''VALUES''")
      case kw: True
      have eq: "placeholderGroupEnd raws (i + k + 1)
          = map_option (\<lambda>e. i + e) (placeholderGroupEnd (drop i raws) (k + 1))"
        using placeholderGroupEnd_shift [of raws i "k + 1"] by (simp add: add.assoc)
      show ?thesis
      proof (cases "placeholderGroupEnd (drop i raws) (k + 1)")
        case None
        then show ?thesis using 1(2) kw k True eq
          by (auto simp: add.assoc foldValuesFrom.simps [of raws "i + k"] foldValuesFrom.simps [of "drop i raws" k])
      next
        case (Some e)
        then show ?thesis using 1(3) kw k True eq lastGroup_shift [of raws i e]
          by (auto simp: add.assoc add.commute foldValuesFrom.simps [of raws "i + k"]
              foldValuesFrom.simps [of "drop i raws" k])
      qed
    next
      case False
      then show ?thesis using 1(1) k True
        by (auto simp: add.assoc foldValuesFrom.simps [of raws "i + k"] foldValuesFrom.simps [of "drop i raws" k])
    qed
  next
    case False
    then show ?thesis by (auto simp: foldValuesFrom.simps [of raws "i + k"] foldValuesFrom.simps [of "drop i raws" k])
  qed
qed

lemma foldValuesFrom_drop: "foldValuesFrom raws i = foldValueGroups (drop i raws)"
  using foldValuesFrom_shift [of raws i 0] by (simp add: foldValueGroups_def)


text \<open>Further groups, each after a comma, and the rests of which none can be taken.\<close>

fun rows :: "nat list \<Rightarrow> string list" where
  "rows [] = []"
| "rows (k # ks) = '','' # holders k @ rows ks"

definition no_row :: "string list \<Rightarrow> bool" where
  "no_row ts \<longleftrightarrow> (\<nexists>k r. ts = '','' # holders k @ r)"

lemma rows_exist: "\<exists>ks r. ts = rows ks @ r \<and> no_row r"
proof (induction "length ts" arbitrary: ts rule: less_induct)
  case less
  show ?case
  proof (cases "no_row ts")
    case True
    then show ?thesis by (intro exI [of _ "[]"] exI [of _ ts]) auto
  next
    case False
    then obtain k r where ts: "ts = '','' # holders k @ r" unfolding no_row_def by blast
    then obtain ks r' where "r = rows ks @ r'" "no_row r'" using less [of r] by auto
    then show ?thesis using ts by (intro exI [of _ "k # ks"]) auto
  qed
qed

lemma lastGroup_rows:
  "length pre = Suc m \<Longrightarrow> no_row r \<Longrightarrow>
   Suc (lastGroup (pre @ rows ks @ r) m) = length (pre @ rows ks)"
proof (induction ks arbitrary: pre m)
  case Nil
  show ?case
  proof (cases r)
    case Nil
    then have "\<not> m + 2 < length (pre @ rows [] @ r)" using Nil.prems by simp
    then show ?thesis using Nil.prems by (subst lastGroup.simps) auto
  next
    case (Cons c r')
    then have "c = '','' \<Longrightarrow> no_group r'" using Nil.prems unfolding no_row_def no_group_def by blast
    then have "c = '','' \<Longrightarrow> placeholderGroupEnd (pre @ r) (m + 2) = None"
      using Cons Nil.prems by (subst placeholderGroupEnd_None) simp
    then show ?thesis using Cons Nil.prems by (subst lastGroup.simps) (auto simp: nth_append)
  qed
next
  case (Cons k ks)
  let ?pre = "pre @ '','' # holders k"
  have eq: "pre @ rows (k # ks) @ r = ?pre @ rows ks @ r" by simp
  have e: "placeholderGroupEnd (pre @ rows (k # ks) @ r) (m + 2) = Some (m + 2 + 2 * k + 2)"
    using Cons.prems by (subst placeholderGroupEnd_Some) auto
  have "lastGroup (pre @ rows (k # ks) @ r) m = lastGroup (?pre @ rows ks @ r) (m + 2 + 2 * k + 2)"
    unfolding eq [symmetric] using e Cons.prems by (subst lastGroup.simps) (auto simp: nth_append)
  also have "Suc \<dots> = length (?pre @ rows ks)"
    by (rule Cons.IH) (use Cons.prems in auto)
  finally show ?case by simp
qed

lemma foldValueGroups_Nil [simp]: "foldValueGroups [] = []"
  by (simp add: foldValueGroups_def foldValuesFrom.simps)

lemma foldValueGroups_other:
  "\<not> isKeyword t ''VALUES'' \<Longrightarrow> foldValueGroups (t # ts) = t # foldValueGroups ts"
  unfolding foldValueGroups_def by (subst foldValuesFrom.simps) (simp add: foldValuesFrom_drop)

lemma foldValueGroups_none:
  "isKeyword t ''VALUES'' \<Longrightarrow> no_group ts \<Longrightarrow> foldValueGroups (t # ts) = t # foldValueGroups ts"
  unfolding foldValueGroups_def using placeholderGroupEnd_None [of "t # ts" 1]
  by (subst foldValuesFrom.simps) (simp add: foldValuesFrom_drop)

lemma drop_exact: "k = length xs \<Longrightarrow> drop k (xs @ ys) = ys"
  by simp

lemma foldValueGroups_group:
  assumes "isKeyword t ''VALUES''" "no_row r"
  shows "foldValueGroups (t # holders n @ rows ks @ r) = t # holders n @ foldValueGroups r"
proof -
  let ?raws = "t # holders n @ rows ks @ r"
  have e: "placeholderGroupEnd ?raws 1 = Some (2 * n + 3)"
    by (subst placeholderGroupEnd_Some) auto
  have "Suc (lastGroup ?raws (2 * n + 3)) = length ((t # holders n) @ rows ks)"
    using lastGroup_rows [of "t # holders n" "2 * n + 3" r ks] assms(2) by simp
  then have "drop (Suc (lastGroup ?raws (2 * n + 3))) ((t # holders n @ rows ks) @ r) = r"
    by (intro drop_exact) simp
  then show ?thesis using assms(1) e unfolding foldValueGroups_def
    by (subst foldValuesFrom.simps) (simp add: foldValuesFrom_drop)
qed


subsection \<open>What a folding keeps\<close>

definition punctuation :: "string \<Rightarrow> bool" where
  "punctuation t \<longleftrightarrow> t \<in> {''('', '')'', '','', ''?''}"

lemma punctuation_group: "x \<in> set (holders n) \<Longrightarrow> punctuation x"
  using set_holders [of n] by (auto simp: punctuation_def)

text \<open>A pass over the tokens that may change only what follows a keyword.\<close>

locale folding =
  fixes kw :: "string \<Rightarrow> bool" and f :: "string list \<Rightarrow> string list"
  assumes nil: "f [] = []"
    and other: "\<not> kw t \<Longrightarrow> f (t # ts) = t # f ts"
    and head: "\<exists>us. f (t # ts) = t # us"
    and keyword: "kw t \<Longrightarrow> \<not> punctuation t"
begin

lemma not_kw: "punctuation t \<Longrightarrow> \<not> kw t"
  using keyword by blast

lemma plain: "\<forall>x\<in>set xs. punctuation x \<Longrightarrow> f (xs @ ts) = xs @ f ts"
  by (induction xs) (auto simp: other not_kw)

lemma plain_prefix:
  "\<forall>x\<in>set xs. punctuation x \<Longrightarrow> f ts = xs @ r \<Longrightarrow> \<exists>r'. ts = xs @ r' \<and> f r' = r"
proof (induction xs arbitrary: ts)
  case (Cons x xs)
  then obtain t ts' where ts: "ts = t # ts'" using nil by (cases ts) auto
  then have "t = x" using Cons.prems head [of t ts'] by auto
  then have "f ts' = xs @ r" using Cons.prems(1,2) ts not_kw [of t] other [of t ts'] by simp
  then show ?case using Cons ts \<open>t = x\<close> by auto
qed simp

lemma group [simp]: "f (holders n @ ts) = holders n @ f ts"
  by (rule plain) (auto dest: punctuation_group)

lemma rows [simp]: "f (rows ks @ ts) = rows ks @ f ts"
proof (induction ks)
  case (Cons k ks)
  have "\<not> kw '',''" by (rule not_kw) (simp add: punctuation_def)
  then show ?case using Cons by (simp add: other)
qed simp

lemma no_group: "no_group ts \<Longrightarrow> no_group (f ts)"
  using plain_prefix [of "holders _" ts] punctuation_group unfolding no_group_def by metis

lemma no_row: "no_row ts \<Longrightarrow> no_row (f ts)"
proof -
  have "\<forall>x\<in>set ('','' # holders k). punctuation x" for k
    using punctuation_group [of _ k] by (auto simp: punctuation_def)
  then show "no_row ts \<Longrightarrow> no_row (f ts)"
    using plain_prefix [of "'','' # holders _" ts] unfolding no_row_def by (metis append_Cons)
qed

end

lemma lower_chars:
  "lower_char (CHR ''I'') = CHR ''i''" "lower_char (CHR ''V'') = CHR ''v''"
  "lower_char (CHR ''('') = CHR ''(''" "lower_char (CHR '')'') = CHR '')''"
  "lower_char (CHR '','') = CHR '',''" "lower_char (CHR ''?'') = CHR ''?''"
  by code_simp+

lemma keyword_IN: "isKeyword t ''IN'' \<Longrightarrow> \<not> punctuation t"
  by (auto simp: punctuation_def lower_chars)

lemma keyword_VALUES: "isKeyword t ''VALUES'' \<Longrightarrow> \<not> punctuation t"
  by (auto simp: punctuation_def lower_chars)

lemma keyword_differ: "isKeyword t ''IN'' \<Longrightarrow> \<not> isKeyword t ''VALUES''"
  by (cases t) (auto simp: lower_chars)

lemma foldInLists_head: "\<exists>us. foldInLists (t # ts) = t # us"
  by (cases "isKeyword t ''IN''"; cases rule: fold_group_cases [of ts])
    (auto simp: foldInLists_other foldInLists_none foldInLists_group)

lemma foldValueGroups_head: "\<exists>us. foldValueGroups (t # ts) = t # us"
proof (cases rule: fold_group_cases [of ts])
  case (holders n r)
  then obtain ks r' where "ts = holders n @ rows ks @ r'" "no_row r'" using rows_exist [of r] by blast
  then show ?thesis
    by (cases "isKeyword t ''VALUES''") (auto simp: foldValueGroups_other foldValueGroups_group)
next
  case no_group
  then show ?thesis
    by (cases "isKeyword t ''VALUES''") (auto simp: foldValueGroups_other foldValueGroups_none)
qed

interpretation fin: folding "\<lambda>t. isKeyword t ''IN''" foldInLists
  by unfold_locales (auto simp: foldInLists_other foldInLists_head dest: keyword_IN)

interpretation fval: folding "\<lambda>t. isKeyword t ''VALUES''" foldValueGroups
  by unfold_locales (auto simp: foldValueGroups_other foldValueGroups_head dest: keyword_VALUES)

lemma foldInLists_idem: "foldInLists (foldInLists ts) = foldInLists ts"
proof (induction "length ts" arbitrary: ts rule: less_induct)
  case less
  show ?case
  proof (cases ts)
    case (Cons t ts')
    then have IH: "foldInLists (foldInLists u) = foldInLists u" if "length u \<le> length ts'" for u
      using less that by simp
    show ?thesis
    proof (cases "isKeyword t ''IN''")
      case True
      show ?thesis using IH True fin.no_group [of ts']
        by (cases rule: fold_group_cases [of ts'])
          (auto simp: Cons foldInLists_group foldInLists_none)
    next
      case False
      then show ?thesis using IH by (simp add: Cons foldInLists_other)
    qed
  qed simp
qed

text \<open>The tokens after a keyword: a group with its further rows, or none.\<close>

lemma values_cases [case_names rows no_group]:
  obtains n ks r where "ts = holders n @ rows ks @ r" "no_row r" | "no_group ts"
  using fold_group_cases [of ts] rows_exist by metis

lemma foldValueGroups_idem: "foldValueGroups (foldValueGroups ts) = foldValueGroups ts"
proof (induction "length ts" arbitrary: ts rule: less_induct)
  case less
  show ?case
  proof (cases ts)
    case (Cons t ts')
    then have IH: "foldValueGroups (foldValueGroups u) = foldValueGroups u" if "length u \<le> length ts'" for u
      using less that by simp
    show ?thesis
    proof (cases "isKeyword t ''VALUES''")
      case True
      show ?thesis
      proof (cases rule: values_cases [of ts'])
        case (rows n ks r)
        then show ?thesis
          using IH True foldValueGroups_group [OF True, of "foldValueGroups r" n "[]"] fval.no_row [of r]
          by (simp add: Cons foldValueGroups_group)
      next
        case no_group
        then show ?thesis using IH True fval.no_group [of ts'] by (simp add: Cons foldValueGroups_none)
      qed
    next
      case False
      then show ?thesis using IH by (simp add: Cons foldValueGroups_other)
    qed
  qed simp
qed

lemma foldings_commute: "foldInLists (foldValueGroups ts) = foldValueGroups (foldInLists ts)"
proof (induction "length ts" arbitrary: ts rule: less_induct)
  case less
  show ?case
  proof (cases ts)
    case (Cons t ts')
    then have IH: "foldInLists (foldValueGroups u) = foldValueGroups (foldInLists u)"
      if "length u \<le> length ts'" for u
      using less that by simp
    consider (kin) "isKeyword t ''IN''" "\<not> isKeyword t ''VALUES''"
      | (kval) "isKeyword t ''VALUES''" "\<not> isKeyword t ''IN''"
      | (plain) "\<not> isKeyword t ''IN''" "\<not> isKeyword t ''VALUES''"
      using keyword_differ by blast
    then show ?thesis
    proof cases
      case kin
      then show ?thesis using IH fval.no_group [of ts']
        by (cases rule: fold_group_cases [of ts'])
          (auto simp: Cons foldInLists_group foldInLists_none foldValueGroups_other)
    next
      case kval
      then show ?thesis using IH fin.no_group [of ts'] fin.no_row
        by (cases rule: values_cases [of ts'])
          (auto simp: Cons foldValueGroups_group foldValueGroups_none foldInLists_other)
    next
      case plain
      then show ?thesis using IH by (simp add: Cons foldInLists_other foldValueGroups_other)
    qed
  qed simp
qed

subsection \<open>The length of a list does not count\<close>

text \<open>
  A group or a row that starts among the tokens before a word is complete before it: what
  follows the word does not matter.
\<close>

lemma prefix_before_word:
  assumes "pre @ t # u = g @ r" "t \<notin> set g"
  shows "\<exists>us. pre = g @ us \<and> r = us @ t # u"
  using assms by (auto simp: append_eq_append_conv2 append_eq_Cons_conv Cons_eq_append_conv)

lemma no_group_word:
  "\<not> punctuation t \<Longrightarrow> no_group (pre @ t # u) \<longleftrightarrow> no_group (pre @ t # v)"
  unfolding no_group_def using prefix_before_word [of pre t _ "holders _"] punctuation_group
  by (metis append_assoc)

lemma no_row_word: "\<not> punctuation t \<Longrightarrow> no_row pre \<Longrightarrow> no_row (pre @ t # u)"
proof -
  assume a: "\<not> punctuation t" "no_row pre"
  have "t \<notin> set ('','' # holders k)" for k
    using a(1) punctuation_group [of t k] by (auto simp: punctuation_def)
  then have "pre @ t # u \<noteq> ('','' # holders k) @ r" for k r
    using prefix_before_word [of pre t u "'','' # holders k" r] a(2) unfolding no_row_def by fastforce
  then show ?thesis unfolding no_row_def by simp
qed

lemma foldInLists_replace:
  assumes kw: "\<not> punctuation t" and eq: "foldInLists (t # u) = foldInLists (t # v)"
  shows "foldInLists (pre @ t # u) = foldInLists (pre @ t # v)"
proof (induction "length pre" arbitrary: pre rule: less_induct)
  case less
  show ?case
  proof (cases pre)
    case (Cons x xs)
    then have IH: "foldInLists (ys @ t # u) = foldInLists (ys @ t # v)" if "length ys \<le> length xs" for ys
      using less that by simp
    show ?thesis
    proof (cases "isKeyword x ''IN''")
      case True
      show ?thesis
      proof (cases rule: fold_group_cases [of "xs @ t # u"])
        case (holders n r)
        then obtain us where "xs = holders n @ us"
          using prefix_before_word [of xs t u] kw punctuation_group by metis
        then show ?thesis using IH [of us] True by (simp add: Cons foldInLists_group)
      next
        case no_group
        then show ?thesis using IH [of xs] True no_group_word [OF kw, of xs u v]
          by (simp add: Cons foldInLists_none)
      qed
    next
      case False
      then show ?thesis using IH [of xs] by (simp add: Cons foldInLists_other)
    qed
  qed (simp add: eq)
qed

lemma foldValueGroups_replace:
  assumes kw: "\<not> punctuation t" and eq: "foldValueGroups (t # u) = foldValueGroups (t # v)"
  shows "foldValueGroups (pre @ t # u) = foldValueGroups (pre @ t # v)"
proof (induction "length pre" arbitrary: pre rule: less_induct)
  case less
  show ?case
  proof (cases pre)
    case (Cons x xs)
    then have IH: "foldValueGroups (ys @ t # u) = foldValueGroups (ys @ t # v)"
      if "length ys \<le> length xs" for ys
      using less that by simp
    show ?thesis
    proof (cases "isKeyword x ''VALUES''")
      case True
      show ?thesis
      proof (cases rule: fold_group_cases [of "xs @ t # u"])
        case (holders n r)
        then obtain us where us: "xs = holders n @ us"
          using prefix_before_word [of xs t u] kw punctuation_group by metis
        obtain ks vs where vs: "us = rows ks @ vs" "no_row vs" using rows_exist by blast
        have "no_row (vs @ t # u)" "no_row (vs @ t # v)" using no_row_word [OF kw vs(2)] by auto
        then show ?thesis using IH [of vs] True by (simp add: Cons us vs(1) foldValueGroups_group)
      next
        case no_group
        then show ?thesis using IH [of xs] True no_group_word [OF kw, of xs u v]
          by (simp add: Cons foldValueGroups_none)
      qed
    next
      case False
      then show ?thesis using IH [of xs] by (simp add: Cons foldValueGroups_other)
    qed
  qed (simp add: eq)
qed

lemma in_list_length:
  "isKeyword t ''IN'' \<Longrightarrow>
   foldInLists (pre @ t # holders n @ post) = foldInLists (pre @ t # holders m @ post)"
  by (rule foldInLists_replace) (auto simp: keyword_IN foldInLists_group)

lemma rows_append [simp]: "rows (ks @ js) = rows ks @ rows js"
  by (induction ks) auto

lemma values_list_length:
  assumes "isKeyword t ''VALUES''"
  shows "foldValueGroups (pre @ t # holders n @ rows ks @ post)
    = foldValueGroups (pre @ t # holders n @ rows js @ post)"
proof (rule foldValueGroups_replace)
  obtain ls r where r: "post = rows ls @ r" "no_row r" using rows_exist by blast
  have "foldValueGroups (t # holders n @ rows is @ post) = t # holders n @ foldValueGroups r" for "is"
    using foldValueGroups_group [OF assms r(2), of n "is @ ls"] by (simp add: r(1))
  then show "foldValueGroups (t # holders n @ rows ks @ post)
      = foldValueGroups (t # holders n @ rows js @ post)" by simp
qed (use assms in \<open>auto simp: keyword_VALUES\<close>)

definition foldParts :: "string list \<Rightarrow> string list" where
  "foldParts parts = foldValueGroups (foldInLists parts)"

text \<open>The foldings are idempotent: the parts of a canonical form fold to themselves, so a
  statement reported in its folded form has the fingerprint of the original.\<close>

theorem foldings_idempotent:
  "foldValueGroups (foldInLists (foldValueGroups (foldInLists parts))) = foldValueGroups (foldInLists parts)"
  by (simp add: foldings_commute foldInLists_idem foldValueGroups_idem)

end
