(* ===== verification/SQL_Sanitize_Laws.thy ===== *)
theory SQL_Sanitize_Laws
  imports SQL_Fold_Laws
begin

text \<open>
  What the sanitizer promises: a statement is seen as its tokens and the gaps between them, and
  the stored text, the canonical form and the fingerprint are characterised on these. That the
  dialect's lexer finds the tokens (\<open>lexes\<close>) is the hypothesis on the lexer.
\<close>

subsection \<open>Statements as gaps and tokens\<close>

text \<open>A statement as its tokens, each after the gap before it, and the tail.\<close>

type_synonym piece = "string \<times> string"

fun assemble :: "piece list \<Rightarrow> string \<Rightarrow> string" where
  "assemble [] tail = tail"
| "assemble ((g, t) # ps) tail = g @ t @ assemble ps tail"

fun spans_at :: "nat \<Rightarrow> piece list \<Rightarrow> span list" where
  "spans_at i [] = []"
| "spans_at i ((g, t) # ps) =
     (i + length g, i + length g + length t) # spans_at (i + length g + length t) ps"

text \<open>The lexer finds these tokens in the statement.\<close>

definition lexes :: "lexers \<Rightarrow> Engine \<Rightarrow> piece list \<Rightarrow> string \<Rightarrow> bool" where
  "lexes lx engine ps tail \<longleftrightarrow> tokenSpans lx engine (assemble ps tail) = spans_at 0 ps"

definition redact :: "Engine \<Rightarrow> string \<Rightarrow> string" where
  "redact engine raw = (if redacted engine raw then Placeholder else raw)"

lemma redact_Placeholder [simp]: "redact engine Placeholder = Placeholder"
  by (simp add: redact_def)

lemma redact_idem [simp]: "redact engine (redact engine raw) = redact engine raw"
  by (simp add: redact_def)

lemma spans_at_Nil [simp]: "spans_at i ps = [] \<longleftrightarrow> ps = []"
  by (cases ps) auto

lemma spans_at_last: "ps \<noteq> [] \<Longrightarrow> snd (last (spans_at i ps)) = i + length (assemble ps [])"
proof (induction i ps rule: spans_at.induct)
  case (2 i g t ps)
  then show ?case by (cases "ps = []") (simp_all add: add.assoc)
qed simp

lemma assemble_tail: "assemble ps tail = assemble ps [] @ tail"
  by (induction ps tail rule: assemble.induct) auto

lemma stripComments_Nil [simp]: "stripComments engine [] = []"
  by (simp add: stripComments.simps)

lemma substr_at:
  "i = length pre \<Longrightarrow> j = length pre + length x \<Longrightarrow> substr (pre @ x @ y) i j = x"
  by (simp add: substr_def)

lemma rewriteFrom_pieces:
  "rewriteFrom engine (pre @ assemble ps tail) (length pre) (spans_at (length pre) ps)
    = assemble (map (\<lambda>(g, t). (stripComments engine g, redact engine t)) ps) (stripComments engine tail)"
proof (induction ps arbitrary: pre)
  case Nil
  then show ?case by auto
next
  case (Cons p ps)
  obtain g t where p: "p = (g, t)" by fastforce
  have "substr (pre @ g @ t @ assemble ps tail) (length pre) (length pre + length g) = g"
    by (rule substr_at) auto
  moreover have "substr ((pre @ g) @ t @ assemble ps tail) (length pre + length g)
      (length pre + length g + length t) = t"
    by (rule substr_at) auto
  ultimately show ?case using Cons [of "pre @ g @ t"]
    by (auto simp: p redact_def Let_def add.assoc)
qed

lemma rewriteLiterals_pieces:
  "rewriteLiterals engine (assemble ps tail) (spans_at 0 ps)
    = assemble (map (\<lambda>(g, t). (stripComments engine g, redact engine t)) ps) (stripComments engine tail)"
  using rewriteFrom_pieces [of engine "[]" ps tail] by (simp add: rewriteLiterals_def)

lemma tail_at: "ps \<noteq> [] \<Longrightarrow> drop (snd (last (spans_at 0 ps))) (assemble ps tail) = tail"
  by (simp add: spans_at_last) (subst assemble_tail, simp)

lemma parts_at:
  "map (\<lambda>(loc, e). substr (pre @ assemble ps tail) loc e) (spans_at (length pre) ps) = map snd ps"
proof (induction ps arbitrary: pre)
  case (Cons p ps)
  obtain g t where p: "p = (g, t)" by fastforce
  have "substr ((pre @ g) @ t @ assemble ps tail) (length pre + length g)
      (length pre + length g + length t) = t"
    by (rule substr_at) auto
  then show ?case using Cons [of "pre @ g @ t"] by (simp add: p add.assoc)
qed simp

lemma canonicalForm_pieces:
  "lexes lx engine ps tail \<Longrightarrow> canonicalForm lx engine (assemble ps tail) = Join (foldParts (map snd ps)) '' ''"
  using parts_at [of "[]" ps tail] by (simp add: canonicalForm_def lexes_def foldParts_def)

lemma analyzableFrom_pieces:
  "analyzableFrom (pre @ assemble ps tail) (length pre) (spans_at (length pre) ps)
    = assemble (map (\<lambda>(g, t). (g, if t = Placeholder then neutralLiteral else t)) ps) tail"
proof (induction ps arbitrary: pre)
  case (Cons p ps)
  obtain g t where p: "p = (g, t)" by fastforce
  have "substr (pre @ g @ t @ assemble ps tail) (length pre) (length pre + length g) = g"
    by (rule substr_at) auto
  moreover have "substr ((pre @ g) @ t @ assemble ps tail) (length pre + length g)
      (length pre + length g + length t) = t"
    by (rule substr_at) auto
  ultimately show ?case using Cons [of "pre @ g @ t"]
    by (auto simp: p Let_def add.assoc)
qed auto

lemma Analyzable_pieces:
  "lexes lx engine ps tail \<Longrightarrow> Analyzable lx engine (assemble ps tail)
    = assemble (map (\<lambda>(g, t). (g, if t = Placeholder then neutralLiteral else t)) ps) tail"
  using analyzableFrom_pieces [of "[]" ps tail] by (auto simp: Analyzable_def lexes_def)

lemma Sanitize_pieces:
  assumes "lexes lx engine ps tail" "ValidString (assemble ps tail)" "ps \<noteq> []"
  defines "text \<equiv> TrimSpace
    (assemble (map (\<lambda>(g, t). (stripComments engine g, redact engine t)) ps) (stripComments engine tail))"
  shows "Sanitize lx hash engine (assemble ps tail) =
    (if TrimSpace (stripComments engine tail) \<noteq> [] \<or> text = [] then Inl ErrUnlexable
     else Inr \<lparr>Text = text, Canonical = canonicalForm lx engine text,
       Fingerprint = hash (canonicalForm lx engine text)\<rparr>)"
  using assms(1-3) tail_at [of ps tail]
  by (auto simp: Sanitize_def lexes_def Let_def rewriteLiterals_pieces text_def)


lemma Sanitize_no_tokens: "lexes lx engine [] tail \<Longrightarrow> Sanitize lx hash engine tail = Inl ErrUnlexable"
  by (simp add: Sanitize_def lexes_def)

subsection \<open>Sanitized statements\<close>

lemma Sanitize_same:
  assumes "lexes lx engine ps tail" "lexes lx engine ps' tail"
    and "ValidString (assemble ps tail)" "ValidString (assemble ps' tail)"
    and same: "map (\<lambda>(g, t). (stripComments engine g, redact engine t)) ps
      = map (\<lambda>(g, t). (stripComments engine g, redact engine t)) ps'"
  shows "Sanitize lx hash engine (assemble ps tail) = Sanitize lx hash engine (assemble ps' tail)"
proof (cases "ps = []")
  case False
  then have "ps' \<noteq> []" using same by auto
  then show ?thesis using False assms by (simp add: Sanitize_pieces)
qed (use same in simp)

lemma neutral_is_literal: "isLiteral engine neutralLiteral"
  by (simp add: isLiteral_def neutralLiteral_def Placeholder_def)

text \<open>Round trip of the analyzable form: the text an analyzer is given, with a string literal for
  every placeholder, is sanitized to what the stored text itself is sanitized to.\<close>

theorem sanitize_analyzable:
  assumes "lexes lx engine ps tail"
    and "lexes lx engine (map (\<lambda>(g, t). (g, if t = Placeholder then neutralLiteral else t)) ps) tail"
    and "ValidString (assemble ps tail)" "ValidString (Analyzable lx engine (assemble ps tail))"
  shows "Sanitize lx hash engine (Analyzable lx engine (assemble ps tail))
    = Sanitize lx hash engine (assemble ps tail)"
proof -
  have "redact engine (if t = Placeholder then neutralLiteral else t) = redact engine t" for t
    by (simp add: redact_def redacted_def neutral_is_literal isPlaceholder_def)
  then show ?thesis
    using assms(2-4) unfolding Analyzable_pieces [OF assms(1)]
    by (intro Sanitize_same assms(1)) auto
qed

text \<open>The length of an IN list of placeholders does not count: statements that differ in it only
  have the same canonical form, whatever stands before and after the list.\<close>

theorem in_list_length_ignored:
  assumes "lexes lx engine ps tail" "lexes lx engine ps' tail'"
    and "isKeyword t ''IN''"
    and "map snd ps = pre @ t # holders n @ post" "map snd ps' = pre @ t # holders m @ post"
  shows "canonicalForm lx engine (assemble ps tail) = canonicalForm lx engine (assemble ps' tail')"
  using assms in_list_length [OF assms(3), of pre n post m]
  by (simp add: canonicalForm_pieces foldParts_def)

text \<open>The number of rows of a VALUES list does not count, whatever the rows' arities and whatever
  stands before and after the list.\<close>

theorem values_rows_ignored:
  assumes "lexes lx engine ps tail" "lexes lx engine ps' tail'"
    and "isKeyword t ''VALUES''"
    and "map snd ps = pre @ t # holders n @ rows ks @ post"
    and "map snd ps' = pre @ t # holders n @ rows js @ post"
  shows "canonicalForm lx engine (assemble ps tail) = canonicalForm lx engine (assemble ps' tail')"
  using assms values_list_length [OF assms(3), of pre n ks post js]
  by (simp add: canonicalForm_pieces foldParts_def foldings_commute [symmetric])

subsection \<open>Witnesses\<close>

text \<open>A lexer to apply the properties to: the tokens are the words between blanks.\<close>

fun words_at :: "nat \<Rightarrow> string \<Rightarrow> string \<Rightarrow> span list" where
  "words_at i w [] = (if w = [] then [] else [(i - length w, i)])"
| "words_at i w (c # s) =
     (if c = CHR '' '' then (if w = [] then [] else [(i - length w, i)]) @ words_at (i + 1) [] s
      else words_at (i + 1) (c # w) s)"

definition word_lexer :: lexers where
  "word_lexer = \<lparr>NextToken = \<lambda>_ _ _. \<lparr>lt_type = 0, lt_loc = 0, lt_end = 0, lt_err = False\<rparr>,
     Tokenize = \<lambda>_ s. (map (\<lambda>(i, j). \<lparr>lt_type = 1, lt_loc = i, lt_end = j, lt_err = False\<rparr>)
       (words_at 0 [] s), False)\<rparr>"

theorem sanitize_analyzable_witness:
  "Sanitize word_lexer id STARROCKS (Analyzable word_lexer STARROCKS
      (assemble [([], ''a''), ('' '', ''=''), ('' '', Placeholder)] []))
    = Sanitize word_lexer id STARROCKS (assemble [([], ''a''), ('' '', ''=''), ('' '', Placeholder)] [])"
  by (rule sanitize_analyzable) code_simp+

theorem in_list_length_ignored_witness:
  "canonicalForm word_lexer STARROCKS ''a in ( ? )'' = canonicalForm word_lexer STARROCKS ''a in ( ? , ? )''"
  using in_list_length_ignored [of word_lexer STARROCKS
      "[([], ''a''), ('' '', ''in''), ('' '', ''(''), ('' '', ''?''), ('' '', '')'')]" "[]"
      "[([], ''a''), ('' '', ''in''), ('' '', ''(''), ('' '', ''?''), ('' '', '',''), ('' '', ''?''), ('' '', '')'')]" "[]"
      "''in''" "[''a'']" 0 "[]" 1]
  by code_simp

theorem values_rows_ignored_witness:
  "canonicalForm word_lexer STARROCKS ''values ( ? )'' = canonicalForm word_lexer STARROCKS ''values ( ? ) , ( ? )''"
  using values_rows_ignored [of word_lexer STARROCKS
      "[([], ''values''), ('' '', ''(''), ('' '', ''?''), ('' '', '')'')]" "[]"
      "[([], ''values''), ('' '', ''(''), ('' '', ''?''), ('' '', '')''), ('' '', '',''), ('' '', ''(''), ('' '', ''?''), ('' '', '')'')]" "[]"
      "''values''" "[]" 0 "[]" "[]" "[0]"]
  by code_simp

end
