(* ===== verification/SQL_Tokens.thy ===== *)
theory SQL_Tokens
  imports SQL_Sanitize_Laws
begin

text \<open>
  What the sanitizer stores of a statement, stated over the lexical grammar of the dialects: the literals,
  the parameters, the names and operators, and the comments and blanks between them. The grammar says
  how a token is written, independently of the tests the code makes on its first characters.
\<close>

subsection \<open>Literals\<close>

definition letter :: "char \<Rightarrow> bool" where
  "letter c \<longleftrightarrow> (let n = byte c in (65 \<le> n \<and> n \<le> 90) \<or> (97 \<le> n \<and> n \<le> 122) \<or> n = 95)"

definition quoted :: "char \<Rightarrow> string \<Rightarrow> char \<Rightarrow> string" where
  "quoted left body right = left # body @ [right]"

text \<open>
  A number, a number that starts with its point, a string with its prefix (as in \<open>N'..'\<close>, \<open>E'..'\<close>, \<open>x'..'\<close>,
  \<open>_utf8'..'\<close>), a string in double quotes, a dollar-quoted string with its tag, and an amount of money with
  its symbol, blanks and signs.
\<close>

datatype sql_literal =
    NumberLit char string
  | FractionLit char string
  | QuotedLit string string
  | DoubleQuotedLit string
  | DollarLit string string
  | MoneyLit string string string string

fun literal_text :: "sql_literal \<Rightarrow> string" where
  "literal_text (NumberLit d rest) = d # rest"
| "literal_text (FractionLit d rest) = CHR ''.'' # d # rest"
| "literal_text (QuotedLit prefix body) = prefix @ quoted (CHR 0x27) body (CHR 0x27)"
| "literal_text (DoubleQuotedLit body) = quoted (CHR 0x22) body (CHR 0x22)"
| "literal_text (DollarLit tag body) = CHR ''$'' # tag @ CHR ''$'' # body @ CHR ''$'' # tag @ ''$''"
| "literal_text (MoneyLit symbol blanks signs amount) = symbol @ blanks @ signs @ amount"

text \<open>The currency symbols in UTF-8: dollar, cent, pound, yen and euro.\<close>

definition money_symbols :: "string list" where
  "money_symbols = [''$'', [CHR 0xC2, CHR 0xA2], [CHR 0xC2, CHR 0xA3], [CHR 0xC2, CHR 0xA5],
     [CHR 0xE2, CHR 0x82, CHR 0xAC]]"

text \<open>The literals of a dialect: double quotes enclose an identifier in PostgreSQL and T-SQL.\<close>

fun literal_in :: "Engine \<Rightarrow> sql_literal \<Rightarrow> bool" where
  "literal_in engine (NumberLit d rest) \<longleftrightarrow> is_digit d"
| "literal_in engine (FractionLit d rest) \<longleftrightarrow> is_digit d"
| "literal_in engine (QuotedLit prefix body) \<longleftrightarrow> prefix = [] \<or> letter (hd prefix)"
| "literal_in engine (DoubleQuotedLit body) \<longleftrightarrow> engine \<noteq> POSTGRES \<and> engine \<noteq> MSSQL"
| "literal_in engine (DollarLit tag body) \<longleftrightarrow> engine = POSTGRES"
| "literal_in engine (MoneyLit symbol blanks signs amount) \<longleftrightarrow> engine = MSSQL \<and> symbol \<in> set money_symbols \<and>
     list_all (\<lambda>c. c \<in> {CHR '' '', CHR 0x09}) blanks \<and> list_all (\<lambda>c. c \<in> {CHR ''+'', CHR ''-''}) signs \<and>
     amount \<noteq> [] \<and> (is_digit (hd amount) \<or> hd amount = CHR ''.'')"

lemma letter_plain:
  assumes "letter c"
  shows "c \<notin> {CHR 0x27, CHR 0x22, CHR ''['', CHR ''#'', CHR 0x60, CHR ''$'', CHR ''@'', CHR ''.'', CHR ''?''}"
    and "\<not> is_digit c" and "byte c < 128" and "\<not> is_space c"
  using assms by (auto simp: letter_def byte_def is_digit_def is_space_def Let_def)

lemma plain_digit_token:
  assumes "is_digit c"
  shows "c \<notin> {CHR 0x27, CHR 0x22, CHR ''['', CHR ''#'', CHR 0x60, CHR ''$'', CHR ''@'', CHR ''.'', CHR ''?'',
      CHR ''+'', CHR ''-'', CHR '' '', CHR 0x09}"
  using assms by (auto simp: is_digit_def Let_def)

lemma rune_width_symbol:
  assumes "symbol \<in> set money_symbols"
  shows "rune_width (symbol @ s) = Some (length symbol)"
proof -
  have "rune_width (CHR ''$'' # s) = Some 1" by (simp add: rune_width_def byte_def)
  moreover have "rune_width (CHR 0xC2 # c # s) = Some 2" if "128 \<le> byte c" "byte c \<le> 191" for c
    using that by (simp add: rune_width_def byte_def)
  from this [of "CHR 0xA2"] this [of "CHR 0xA3"] this [of "CHR 0xA5"]
  have "rune_width (CHR 0xC2 # CHR 0xA2 # s) = Some 2" "rune_width (CHR 0xC2 # CHR 0xA3 # s) = Some 2"
    "rune_width (CHR 0xC2 # CHR 0xA5 # s) = Some 2"
    by (simp_all add: byte_def)
  moreover have "rune_width (CHR 0xE2 # CHR 0x82 # CHR 0xAC # s) = Some 3"
    by (simp add: rune_width_def byte_def)
  moreover have "symbol = ''$'' \<or> symbol = [CHR 0xC2, CHR 0xA2] \<or> symbol = [CHR 0xC2, CHR 0xA3] \<or>
      symbol = [CHR 0xC2, CHR 0xA5] \<or> symbol = [CHR 0xE2, CHR 0x82, CHR 0xAC]"
    using assms unfolding money_symbols_def by simp
  ultimately show ?thesis by (elim disjE) simp_all
qed

lemma dropWhile_all: "list_all P xs \<Longrightarrow> dropWhile P (xs @ ys) = dropWhile P ys"
  by (induction xs) auto

lemma money_literal:
  assumes "literal_in MSSQL (MoneyLit symbol blanks signs amount)"
  shows "tSQLMoneyLiteral (literal_text (MoneyLit symbol blanks signs amount))"
proof -
  let ?text = "symbol @ blanks @ signs @ amount"
  have sym: "symbol \<noteq> []" "hd symbol = CHR ''$'' \<or> 128 \<le> byte (hd symbol)"
    using assms by (auto simp: money_symbols_def byte_def)
  have amount: "amount \<noteq> []" "hd amount \<notin> {CHR ''+'', CHR ''-'', CHR '' '', CHR 0x09}"
    using assms plain_digit_token by auto
  have "dropWhile (\<lambda>c. c = CHR '' '' \<or> c = CHR 0x09) (signs @ amount) = signs @ amount"
    using assms amount by (cases signs; cases amount) auto
  then have "TrimLeft (\<lambda>c. c = CHR '' '' \<or> c = CHR 0x09) (blanks @ signs @ amount) = signs @ amount"
    using assms by (simp add: TrimLeft_def dropWhile_all)
  moreover have "TrimLeft (\<lambda>c. c = CHR ''+'' \<or> c = CHR ''-'') (signs @ amount) = amount"
    using assms amount by (cases amount) (simp_all add: TrimLeft_def dropWhile_all)
  ultimately show ?thesis
    using assms sym amount rune_width_symbol [of symbol "blanks @ signs @ amount"]
    by (auto simp: tSQLMoneyLiteral_def)
qed

text \<open>Every literal of a dialect is recognised.\<close>

lemma literal_recognised:
  assumes "literal_in engine l"
  shows "isLiteral engine (literal_text l)"
proof (cases l)
  case (NumberLit d rest)
  then show ?thesis using assms plain_digit_token [of d] by (auto simp: isLiteral_def Placeholder_def)
next
  case (FractionLit d rest)
  then show ?thesis using assms by (auto simp: isLiteral_def Placeholder_def)
next
  case (QuotedLit prefix body)
  then show ?thesis
    using assms letter_plain [of "hd prefix"]
    by (cases prefix) (auto simp: isLiteral_def Placeholder_def quoted_def)
next
  case (DoubleQuotedLit body)
  then show ?thesis using assms by (auto simp: isLiteral_def Placeholder_def quoted_def)
next
  case (DollarLit tag body)
  have "\<not> is_digit (CHR ''$'')" by (simp add: is_digit_def)
  then show ?thesis using assms DollarLit by (auto simp: isLiteral_def Placeholder_def dollarParam_def)
next
  case (MoneyLit symbol blanks signs amount)
  then have "engine = MSSQL" using assms by simp
  moreover have "literal_text l \<noteq> [] \<and> literal_text l \<noteq> Placeholder"
  proof -
    have "symbol \<noteq> [] \<and> hd symbol \<noteq> CHR ''?''" using assms MoneyLit by (auto simp: money_symbols_def)
    then show ?thesis by (cases symbol) (auto simp: MoneyLit Placeholder_def)
  qed
  ultimately show ?thesis
    using assms MoneyLit money_literal by (simp add: isLiteral_def)
qed

text \<open>
  The shape of a money literal takes in more than money: a T-SQL identifier that starts with a letter outside
  ASCII and goes on with a digit, as in \<open>FROM\<close> \<^emph>\<open>e-acute\<close>\<open>1\<close>, is rewritten to a question mark.
\<close>

lemma wide_identifier_is_money: "isLiteral MSSQL [CHR 0xC3, CHR 0xA9, CHR ''1'']"
  by code_simp

subsection \<open>The other tokens\<close>

text \<open>
  A parameter (\<open>?\<close>, or \<open>$\<close> and a number), a word, an identifier in the quotes of the dialect, a variable, the
  name of a temporary table and a pseudo-column of T-SQL, and an operator or a punctuation mark.
\<close>

datatype sql_token =
    Literal sql_literal
  | Parameter string
  | Word string
  | DoubleQuotedName string
  | Bracketed string
  | Backticked string
  | Variable string
  | HashName string
  | PseudoColumn string
  | Operator string

fun token_text :: "sql_token \<Rightarrow> string" where
  "token_text (Literal l) = literal_text l"
| "token_text (Parameter number) = (if number = [] then ''?'' else CHR ''$'' # number)"
| "token_text (Word w) = w"
| "token_text (DoubleQuotedName body) = quoted (CHR 0x22) body (CHR 0x22)"
| "token_text (Bracketed body) = quoted (CHR ''['') body (CHR '']'')"
| "token_text (Backticked body) = quoted (CHR 0x60) body (CHR 0x60)"
| "token_text (Variable name) = CHR ''@'' # name"
| "token_text (HashName name) = CHR ''#'' # name"
| "token_text (PseudoColumn name) = CHR ''$'' # name"
| "token_text (Operator s) = s"

definition operator_chars :: string where
  "operator_chars = ''()*+,-/:;<=>!%^&|~{}''"

fun token_in :: "Engine \<Rightarrow> sql_token \<Rightarrow> bool" where
  "token_in engine (Literal l) \<longleftrightarrow> literal_in engine l"
| "token_in engine (Parameter number) \<longleftrightarrow> list_all is_digit number"
| "token_in engine (Word w) \<longleftrightarrow> w \<noteq> [] \<and> (letter (hd w) \<or> engine \<noteq> MSSQL \<and> 128 \<le> byte (hd w)) \<and>
     CHR 0x27 \<notin> set w"
| "token_in engine (DoubleQuotedName body) \<longleftrightarrow> engine = POSTGRES \<or> engine = MSSQL"
| "token_in engine (Bracketed body) \<longleftrightarrow> engine = MSSQL"
| "token_in engine (Backticked body) \<longleftrightarrow> engine \<noteq> POSTGRES \<and> engine \<noteq> MSSQL"
| "token_in engine (Variable name) \<longleftrightarrow> engine \<noteq> POSTGRES"
| "token_in engine (HashName name) \<longleftrightarrow> engine = MSSQL"
| "token_in engine (PseudoColumn name) \<longleftrightarrow> engine = MSSQL \<and> name \<noteq> [] \<and> letter (hd name)"
| "token_in engine (Operator s) \<longleftrightarrow> s = ''.'' \<or> s \<noteq> [] \<and> hd s \<in> set operator_chars \<and> CHR 0x27 \<notin> set s"

text \<open>What is stored of a token.\<close>

fun stored_token :: "sql_token \<Rightarrow> string" where
  "stored_token (Literal l) = ''?''"
| "stored_token (Parameter number) = ''?''"
| "stored_token t = token_text t"

lemma operator_plain:
  assumes "c \<in> set operator_chars"
  shows "c \<notin> {CHR 0x27, CHR 0x22, CHR ''['', CHR ''#'', CHR 0x60, CHR ''$'', CHR ''@'', CHR ''.'', CHR ''?''}"
    and "\<not> is_digit c" and "byte c < 128" and "\<not> is_space c"
  using assms by (auto simp: operator_chars_def byte_def is_digit_def is_space_def)

lemma not_money: "raw \<noteq> [] \<Longrightarrow> hd raw \<noteq> CHR ''$'' \<Longrightarrow> byte (hd raw) < 128 \<Longrightarrow> \<not> tSQLMoneyLiteral raw"
  by (simp add: tSQLMoneyLiteral_def)

lemma pseudo_column_plain:
  assumes "name \<noteq> []" "letter (hd name)"
  shows "\<not> redacted MSSQL (CHR ''$'' # name)"
proof -
  have "rune_width (CHR ''$'' # name) = Some 1" by (simp add: rune_width_def byte_def)
  moreover have "hd name \<notin> {CHR '' '', CHR 0x09, CHR ''+'', CHR ''-'', CHR ''.''}" "\<not> is_digit (hd name)"
    using assms(2) letter_plain [of "hd name"] by (auto simp: is_space_def letter_def byte_def)
  ultimately have "\<not> tSQLMoneyLiteral (CHR ''$'' # name)" "\<not> dollarParam (CHR ''$'' # name)"
    using assms(1) by (cases name; simp add: tSQLMoneyLiteral_def TrimLeft_def dollarParam_def)+
  then show ?thesis by (simp add: redacted_def isLiteral_def isPlaceholder_def Placeholder_def)
qed

lemma redact_token:
  assumes "token_in engine t"
  shows "redact engine (token_text t) = stored_token t"
proof (cases t)
  case (Literal l)
  then show ?thesis
    using assms literal_recognised by (simp add: redact_def redacted_def Placeholder_def)
next
  case (Parameter number)
  then show ?thesis
    using assms by (auto simp: redact_def redacted_def isPlaceholder_def dollarParam_def Placeholder_def list_all_iff)
next
  case (Word w)
  have "hd w \<notin> {CHR 0x27, CHR 0x22, CHR ''['', CHR ''#'', CHR 0x60, CHR ''$'', CHR ''@'', CHR ''.'', CHR ''?''}"
      "\<not> is_digit (hd w)" "engine = MSSQL \<Longrightarrow> byte (hd w) < 128"
    using assms letter_plain [of "hd w"] by (auto simp: Word byte_def is_digit_def Let_def)
  then show ?thesis
    using assms not_money [of w]
    by (auto simp: Word redact_def redacted_def isLiteral_def isPlaceholder_def dollarParam_def Placeholder_def)
next
  case (Operator s)
  show ?thesis
  proof (cases "s = ''.''")
    case True
    then show ?thesis
      by (simp add: Operator redact_def redacted_def isLiteral_def isPlaceholder_def dollarParam_def Placeholder_def
          tSQLMoneyLiteral_def byte_def)
  next
    case False
    then have "s \<noteq> []" "hd s \<in> set operator_chars" "CHR 0x27 \<notin> set s" using assms by (simp_all add: Operator)
    then show ?thesis
      using operator_plain [of "hd s"] not_money [of s]
      by (auto simp: Operator redact_def redacted_def isLiteral_def isPlaceholder_def dollarParam_def Placeholder_def)
  qed
next
  case (PseudoColumn name)
  then show ?thesis using assms pseudo_column_plain [of name] by (simp add: redact_def)
qed (use assms in \<open>auto simp: quoted_def redact_def redacted_def isLiteral_def isPlaceholder_def dollarParam_def
  Placeholder_def tSQLMoneyLiteral_def byte_def\<close>)

subsection \<open>Blanks and comments\<close>

text \<open>The comments here hold no slash, so that they are neither nested nor ended early.\<close>

datatype gap_part = Blank char | LineComment string | HashComment string | BlockComment string

fun gap_part_text :: "gap_part \<Rightarrow> string" where
  "gap_part_text (Blank c) = [c]"
| "gap_part_text (LineComment body) = ''--'' @ body @ [CHR 0x0A]"
| "gap_part_text (HashComment body) = ''#'' @ body @ [CHR 0x0A]"
| "gap_part_text (BlockComment body) = ''/*'' @ body @ ''*/''"

fun gap_part_in :: "Engine \<Rightarrow> gap_part \<Rightarrow> bool" where
  "gap_part_in engine (Blank c) \<longleftrightarrow> is_space c"
| "gap_part_in engine (LineComment body) \<longleftrightarrow> CHR 0x0A \<notin> set body"
| "gap_part_in engine (HashComment body) \<longleftrightarrow> engine \<noteq> POSTGRES \<and> engine \<noteq> MSSQL \<and> CHR 0x0A \<notin> set body"
| "gap_part_in engine (BlockComment body) \<longleftrightarrow> CHR ''/'' \<notin> set body"

text \<open>What is stored of it: the newline of a line comment and a space for a block comment.\<close>

fun stored_gap_part :: "gap_part \<Rightarrow> char" where
  "stored_gap_part (Blank c) = c"
| "stored_gap_part (LineComment body) = CHR 0x0A"
| "stored_gap_part (HashComment body) = CHR 0x0A"
| "stored_gap_part (BlockComment body) = CHR '' ''"

definition gap_text :: "gap_part list \<Rightarrow> string" where
  "gap_text ps = concat (map gap_part_text ps)"

definition gap_in :: "Engine \<Rightarrow> gap_part list \<Rightarrow> bool" where
  "gap_in engine ps \<longleftrightarrow> list_all (gap_part_in engine) ps"

lemma IndexByte_at: "c \<notin> set s \<Longrightarrow> IndexByte (s @ c # t) c = Some (length s)"
  by (induction s) auto

lemma blockEndLoop_body:
  "CHR ''/'' \<notin> set body \<Longrightarrow> blockEndLoop 1 (body @ CHR ''*'' # CHR ''/'' # s) i = Some (i + length body + 2)"
proof (induction body arbitrary: i)
  case (Cons a body)
  then show ?case by (cases body) auto
qed simp

lemma blockCommentEnd_body:
  "CHR ''/'' \<notin> set body \<Longrightarrow> blockCommentEnd (''/*'' @ body @ ''*/'' @ s) = Some (length body + 4)"
  using blockEndLoop_body [of body s "Suc (Suc 0)"] by (simp add: blockCommentEnd_def)

lemma strip_blank:
  assumes "is_space c"
  shows "stripComments engine (c # s) = c # stripComments engine s"
proof -
  have "c \<notin> {CHR ''-'', CHR ''#'', CHR ''/''}" using assms by (auto simp: is_space_def)
  then show ?thesis by (subst stripComments.simps) (auto simp: lineComment_def HasPrefix_def)
qed

lemma strip_line:
  assumes "lineComment engine (mark @ body @ CHR 0x0A # s)" "CHR 0x0A \<notin> set (mark @ body)" "mark \<noteq> []"
  shows "stripComments engine (mark @ body @ CHR 0x0A # s) = CHR 0x0A # stripComments engine s"
proof -
  have i: "IndexByte (mark @ body @ CHR 0x0A # s) (CHR 0x0A) = Some (length (mark @ body))"
    using IndexByte_at [OF assms(2), of s] by simp
  have "stripComments engine (CHR 0x0A # s) = CHR 0x0A # stripComments engine s"
    by (rule strip_blank) (simp add: is_space_def)
  then show ?thesis using assms by (subst stripComments.simps) (simp add: i)
qed

lemma drop_at: "n = length xs \<Longrightarrow> drop n (xs @ ys) = ys"
  by simp

lemma strip_part:
  assumes "gap_part_in engine p"
  shows "stripComments engine (gap_part_text p @ s) = stored_gap_part p # stripComments engine s"
proof (cases p)
  case (Blank c)
  then show ?thesis using assms strip_blank by simp
next
  case (LineComment body)
  then show ?thesis
    using assms strip_line [of engine "''--''" body s] by (simp add: lineComment_def HasPrefix_def)
next
  case (HashComment body)
  then show ?thesis
    using assms strip_line [of engine "''#''" body s] by (simp add: lineComment_def HasPrefix_def)
next
  case (BlockComment body)
  let ?gap = "''/*'' @ body @ ''*/'' @ s"
  have "\<not> lineComment engine ?gap" "HasPrefix ?gap ''/*''" by (simp_all add: lineComment_def HasPrefix_def)
  moreover have "drop (length body + 4) ((''/*'' @ body @ ''*/'') @ s) = s"
    by (rule drop_at) simp
  moreover have "blockCommentEnd ?gap = Some (length body + 4)"
    using assms BlockComment by (intro blockCommentEnd_body) simp
  ultimately have "stripComments engine ?gap = CHR '' '' # stripComments engine s"
    by (subst stripComments.simps) (simp only: append_assoc option.case if_False if_True append_Cons list.distinct)
  then show ?thesis by (simp add: BlockComment)
qed

lemma strip_gap: "gap_in engine ps \<Longrightarrow> stripComments engine (gap_text ps) = map stored_gap_part ps"
proof (induction ps)
  case (Cons p ps)
  then show ?case using strip_part [of engine p "gap_text ps"] by (simp add: gap_text_def gap_in_def)
qed (simp add: gap_text_def)

lemma stored_gap_blank: "gap_in engine ps \<Longrightarrow> c \<in> stored_gap_part ` set ps \<Longrightarrow> is_space c"
proof (induction ps)
  case (Cons p ps)
  then show ?case by (cases p) (auto simp: gap_in_def is_space_def)
qed simp

subsection \<open>Statements\<close>

text \<open>A statement: its tokens, each after its gap.\<close>

type_synonym statement = "(gap_part list \<times> sql_token) list"

definition pieces :: "statement \<Rightarrow> piece list" where
  "pieces ts = map (\<lambda>(g, t). (gap_text g, token_text t)) ts"

definition statement_in :: "Engine \<Rightarrow> statement \<Rightarrow> bool" where
  "statement_in engine ts \<longleftrightarrow> list_all (\<lambda>(g, t). gap_in engine g \<and> token_in engine t) ts"

definition stored_text :: "statement \<Rightarrow> string" where
  "stored_text ts = concat (map (\<lambda>(g, t). map stored_gap_part g @ stored_token t) ts)"

lemma assemble_pieces:
  "statement_in engine ts \<Longrightarrow>
    assemble (map (\<lambda>(g, t). (stripComments engine g, redact engine t)) (pieces ts)) z = stored_text ts @ z"
  by (induction ts) (auto simp: statement_in_def pieces_def stored_text_def strip_gap redact_token)

lemma TrimSpace_blank_right: "\<forall>c\<in>set z. is_space c \<Longrightarrow> TrimSpace (s @ z) = TrimSpace s"
proof (induction z rule: rev_induct)
  case (snoc c z)
  have "TrimSpace (s @ [c]) = TrimSpace s" if "is_space c" for s c
  proof (cases "\<exists>x\<in>set s. \<not> is_space x")
    case True
    then have "TrimLeft is_space (s @ [c]) = TrimLeft is_space s @ [c]"
      by (auto simp: TrimLeft_def dropWhile_append1)
    then show ?thesis using that by (simp add: TrimSpace_def TrimRight_def)
  next
    case False
    then have "\<forall>x\<in>set s. is_space x" "\<forall>x\<in>set (s @ [c]). is_space x" using that by auto
    then have "dropWhile is_space s = []" "dropWhile is_space (s @ [c]) = []" by (simp_all only: dropWhile_eq_Nil_conv)
    then show ?thesis unfolding TrimSpace_def TrimLeft_def by (simp only:)
  qed
  from this [of c "s @ z"] snoc show ?case by simp
qed simp

lemma TrimSpace_blank: "TrimSpace s = [] \<longleftrightarrow> (\<forall>c\<in>set s. is_space c)"
proof
  assume "TrimSpace s = []"
  then have "\<forall>c\<in>set (dropWhile is_space s). is_space c"
    by (simp add: TrimSpace_def TrimRight_def TrimLeft_def)
  moreover have "set s \<subseteq> set (takeWhile is_space s) \<union> set (dropWhile is_space s)"
    by (metis set_append takeWhile_dropWhile_id subset_refl)
  ultimately show "\<forall>c\<in>set s. is_space c" by (auto dest: set_takeWhileD)
next
  assume "\<forall>c\<in>set s. is_space c"
  then show "TrimSpace s = []" using TrimSpace_blank_right [of s "[]"] by (simp add: TrimSpace_def TrimLeft_def TrimRight_def)
qed

lemma stored_token_visible:
  assumes "token_in engine t"
  shows "\<exists>c\<in>set (stored_token t). \<not> is_space c"
proof (cases t)
  case (Word w)
  then have "hd w \<in> set w" "\<not> is_space (hd w)"
    using assms letter_plain(4) [of "hd w"] by (auto simp: byte_def is_space_def)
  then show ?thesis using Word by auto
next
  case (Operator s)
  then have "hd s \<in> set s" "\<not> is_space (hd s)"
    using assms operator_plain(4) [of "hd s"] by (auto simp: is_space_def)
  then show ?thesis using Operator by auto
qed (auto simp: quoted_def is_space_def)

lemma Sanitize_statement:
  assumes "lexes lx engine (pieces ts) (gap_text g)" "statement_in engine ts" "gap_in engine g" "ts \<noteq> []"
    and "ValidString (assemble (pieces ts) (gap_text g))"
  shows "Sanitize lx hash engine (assemble (pieces ts) (gap_text g)) =
    (let text = TrimSpace (stored_text ts) in
     Inr \<lparr>Text = text, Canonical = canonicalForm lx engine text, Fingerprint = hash (canonicalForm lx engine text)\<rparr>)"
proof -
  have z: "\<forall>c\<in>set (map stored_gap_part g). is_space c" using stored_gap_blank [OF assms(3)] by auto
  have "pieces ts \<noteq> []" using assms(4) by (simp add: pieces_def)
  note S = Sanitize_pieces [OF assms(1,5) this, of hash, unfolded strip_gap [OF assms(3)] assemble_pieces [OF assms(2)]
      TrimSpace_blank_right [OF z]]
  obtain p ts' where ts: "ts = p # ts'" using assms(4) by (cases ts) auto
  then have "\<exists>c\<in>set (stored_text ts). \<not> is_space c"
    using assms(2) stored_token_visible [of engine "snd p"]
    by (auto simp: statement_in_def stored_text_def split: prod.splits)
  then have "TrimSpace (stored_text ts) \<noteq> []" by (simp add: TrimSpace_blank)
  moreover have "TrimSpace (map stored_gap_part g) = []" using z by (simp add: TrimSpace_blank)
  ultimately show ?thesis unfolding S by (simp add: Let_def)
qed

text \<open>
  C14. The stored text, token by token: every literal and every parameter is a question mark, every other
  token is kept as it is written, a block comment is a space, a line comment its newline, and every
  blank is kept but at the two ends. No such statement is refused. The canonical form and the
  fingerprint are computed from that text alone.
\<close>

theorem sanitize_stored_text:
  assumes "lexes lx engine (pieces ts) (gap_text g)" "ts \<noteq> []"
    and "\<forall>(gap, t)\<in>set ts. gap_in engine gap \<and> token_in engine t" "gap_in engine g"
    and "ValidString (assemble (pieces ts) (gap_text g))"
  shows "map_sum id Text (Sanitize lx hash engine (assemble (pieces ts) (gap_text g))) =
      Inr (TrimSpace (concat (map (\<lambda>(gap, t). map stored_gap_part gap @ stored_token t) ts)))"
  using assms Sanitize_statement [of lx engine ts g hash]
  by (simp add: statement_in_def list_all_iff stored_text_def Let_def)

text \<open>Two statements that are the same token for token, but for the values of their literals.\<close>

fun same_token :: "sql_token \<Rightarrow> sql_token \<Rightarrow> bool" where
  "same_token (Literal l) (Literal l') \<longleftrightarrow> True"
| "same_token t t' \<longleftrightarrow> t = t'"

lemma same_stored: "same_token t t' \<Longrightarrow> stored_token t = stored_token t'"
  by (cases "(t, t')" rule: same_token.cases) auto

text \<open>
  C10. Nothing of a literal is stored. Two statements that agree but for the values of their literals, of
  whatever kinds the dialect has, have the same stored text, canonical form and fingerprint.
\<close>

theorem sanitize_literal_blind:
  assumes "lexes lx engine (pieces ts) (gap_text g)" "lexes lx engine (pieces ts') (gap_text g)"
    and "statement_in engine ts" "statement_in engine ts'" "gap_in engine g" "ts \<noteq> []"
    and "ValidString (assemble (pieces ts) (gap_text g))" "ValidString (assemble (pieces ts') (gap_text g))"
    and "list_all2 (\<lambda>(gap, t) (gap', t'). gap = gap' \<and> same_token t t') ts ts'"
  shows "Sanitize lx hash engine (assemble (pieces ts) (gap_text g)) =
    Sanitize lx hash engine (assemble (pieces ts') (gap_text g))"
proof -
  have "stored_text ts = stored_text ts'" using assms(9)
    by (induction ts ts' rule: list_all2_induct) (auto simp: stored_text_def dest: same_stored)
  moreover have "ts' \<noteq> []" using assms(6,9) by auto
  ultimately show ?thesis using Sanitize_statement assms(1-8) by simp
qed

subsection \<open>Witnesses\<close>

definition example_statement :: "sql_literal \<Rightarrow> statement" where
  "example_statement l = [([], Word ''a''), ([Blank (CHR '' '')], Operator ''=''), ([Blank (CHR '' '')], Literal l)]"

theorem sanitize_literal_blind_witness:
  "Sanitize word_lexer id STARROCKS ''a = 1'' = Sanitize word_lexer id STARROCKS
     (''a = '' @ [CHR 0x27] @ ''secret'' @ [CHR 0x27])"
proof -
  have "Sanitize word_lexer id STARROCKS (assemble (pieces (example_statement (NumberLit (CHR ''1'') []))) (gap_text []))
    = Sanitize word_lexer id STARROCKS (assemble (pieces (example_statement (QuotedLit [] ''secret''))) (gap_text []))"
    by (rule sanitize_literal_blind) code_simp+
  then show ?thesis
    by (simp add: pieces_def example_statement_def gap_text_def quoted_def)
qed

text \<open>A lexer that finds the same tokens in every text.\<close>

definition fixed_lexer :: "span list \<Rightarrow> lexers" where
  "fixed_lexer spans = \<lparr>NextToken = \<lambda>_ _ _. \<lparr>lt_type = 0, lt_loc = 0, lt_end = 0, lt_err = False\<rparr>,
     Tokenize = \<lambda>_ _. (map (\<lambda>(i, j). \<lparr>lt_type = 1, lt_loc = i, lt_end = j, lt_err = False\<rparr>) spans, False)\<rparr>"

definition commented_statement :: statement where
  "commented_statement = [([], Word ''a''), ([BlockComment ''c''], Operator ''=''),
     ([LineComment ''d'', Blank (CHR '' '')], Literal (QuotedLit ''n'' ''x''))]"

theorem sanitize_stored_text_witness:
  "map_sum id Text (Sanitize (fixed_lexer [(0, 1), (6, 7), (12, 16)]) id STARROCKS
     (''a/*c*/=--d'' @ [CHR 0x0A] @ '' n'' @ [CHR 0x27] @ ''x'' @ [CHR 0x27])) = Inr (''a ='' @ [CHR 0x0A] @ '' ?'')"
proof -
  let ?lx = "fixed_lexer [(0, 1), (6, 7), (12, 16)]"
  have "map_sum id Text (Sanitize ?lx id STARROCKS (assemble (pieces commented_statement) (gap_text []))) =
      Inr (TrimSpace (concat (map (\<lambda>(gap, t). map stored_gap_part gap @ stored_token t) commented_statement)))"
    by (rule sanitize_stored_text) code_simp+
  moreover have "assemble (pieces commented_statement) (gap_text []) =
      ''a/*c*/=--d'' @ [CHR 0x0A] @ '' n'' @ [CHR 0x27] @ ''x'' @ [CHR 0x27]"
    "TrimSpace (concat (map (\<lambda>(gap, t). map stored_gap_part gap @ stored_token t) commented_statement)) =
      ''a ='' @ [CHR 0x0A] @ '' ?''"
    by code_simp+
  ultimately show ?thesis by simp
qed

end
