(* ===== verification/Schema_Diff.thy ===== *)
theory Schema_Diff
  imports Go_Prelude "HOL-Library.List_Lexorder" "HOL-Library.Char_ord" "HOL-Library.Product_Lexorder"
begin

text \<open>
  The comparison of two database schemas, \<open>backend/plugin/schema/differ.go\<close>. The metadata
  messages are generated code; their records here hold the fields the differ reads, and the
  fields a foreign key, an index and a column have beside those. The elements of a repeated
  field are never nil.

  \<open>slices.SortFunc\<close> sees its elements through comparisons only and leaves the order of equal
  ones open, so it is a parameter: a function from the ranks of the keys to the order of the
  indices.
\<close>

subsection \<open>Metadata\<close>

record ColumnMetadata =
  c_Name :: string
  c_Position :: int
  c_Default :: string
  c_DefaultOnNull :: bool
  c_OnUpdate :: string
  c_Nullable :: bool
  c_Type :: string
  c_CharacterSet :: string
  c_Collation :: string
  c_Comment :: string
  c_UserComment :: string
  c_Generation :: "string option"
  c_IsIdentity :: bool
  c_IdentityGeneration :: nat
  c_IdentitySeed :: int
  c_IdentityIncrement :: int

record IndexMetadata =
  ix_Name :: string
  ix_Expressions :: "string list"
  ix_Descending :: "bool list"
  ix_Type :: string
  ix_Unique :: bool
  ix_Primary :: bool
  ix_IsConstraint :: bool
  ix_SpatialConfig :: "string option"

record ForeignKeyMetadata =
  fk_Name :: string
  fk_Columns :: "string list"
  fk_ReferencedSchema :: string
  fk_ReferencedTable :: string
  fk_ReferencedColumns :: "string list"
  fk_OnDelete :: string
  fk_OnUpdate :: string
  fk_MatchType :: string

record CheckConstraintMetadata =
  ck_Name :: string
  ck_Expression :: string

record TriggerMetadata =
  tg_Name :: string
  tg_Event :: string
  tg_Timing :: string
  tg_Body :: string

record TablePartitionMetadata =
  pt_Name :: string
  pt_Type :: nat
  pt_Expression :: string

record TableMetadata =
  t_Name :: string
  t_Columns :: "ColumnMetadata list"
  t_Indexes :: "IndexMetadata list"
  t_Engine :: string
  t_Collation :: string
  t_Charset :: string
  t_Comment :: string
  t_ForeignKeys :: "ForeignKeyMetadata list"
  t_Partitions :: "TablePartitionMetadata list"
  t_CheckConstraints :: "CheckConstraintMetadata list"
  t_Owner :: string
  t_Triggers :: "TriggerMetadata list"
  t_SkipDump :: bool

record ViewMetadata =
  v_Name :: string
  v_Definition :: string
  v_Comment :: string
  v_SkipDump :: bool

record MaterializedViewMetadata =
  mv_Name :: string
  mv_Definition :: string
  mv_Comment :: string
  mv_SkipDump :: bool

record FunctionMetadata =
  f_Name :: string
  f_Definition :: string
  f_SkipDump :: bool

record ProcedureMetadata =
  p_Name :: string
  p_Definition :: string
  p_SkipDump :: bool

record SequenceMetadata =
  sq_Name :: string
  sq_DataType :: string
  sq_Start :: string
  sq_MinValue :: string
  sq_MaxValue :: string
  sq_Increment :: string
  sq_Cycle :: bool
  sq_CacheSize :: string
  sq_SkipDump :: bool

record EnumTypeMetadata =
  en_Name :: string
  en_Values :: "string list"
  en_SkipDump :: bool

record EventMetadata =
  ev_Name :: string
  ev_Definition :: string

record ExtensionMetadata =
  ex_Name :: string
  ex_Schema :: string
  ex_Version :: string

record EventTriggerMetadata =
  et_Name :: string
  et_Definition :: string

record SchemaMetadata =
  s_Name :: string
  s_Tables :: "TableMetadata list"
  s_Views :: "ViewMetadata list"
  s_Functions :: "FunctionMetadata list"
  s_Procedures :: "ProcedureMetadata list"
  s_MaterializedViews :: "MaterializedViewMetadata list"
  s_Sequences :: "SequenceMetadata list"
  s_Events :: "EventMetadata list"
  s_EnumTypes :: "EnumTypeMetadata list"
  s_SkipDump :: bool

record DatabaseSchemaMetadata =
  d_Name :: string
  d_Schemas :: "SchemaMetadata list"
  d_Extensions :: "ExtensionMetadata list"
  d_EventTriggers :: "EventTriggerMetadata list"

subsection \<open>Differences\<close>

datatype MetadataDiffAction = ActionUnset | DiffCreate | DiffDrop | DiffAlter

text \<open>
  The entries of the diff lists: the action, the schema and the object's name where the list
  has them, and the old and the new object.
\<close>

record 'a object_diff =
  Action :: MetadataDiffAction
  ObjName :: string
  OldObj :: "'a option"
  NewObj :: "'a option"

record 'a schema_object_diff = "'a object_diff" +
  InSchema :: string

text \<open>A \<open>ColumnDiff\<close> has no name of its own: nothing reads the one it gets here.\<close>

type_synonym ColumnDiff = "ColumnMetadata object_diff"
type_synonym IndexDiff = "IndexMetadata object_diff"
type_synonym ForeignKeyDiff = "ForeignKeyMetadata object_diff"
type_synonym CheckConstraintDiff = "CheckConstraintMetadata object_diff"
type_synonym TriggerDiff = "TriggerMetadata object_diff"
type_synonym PartitionDiff = "TablePartitionMetadata object_diff"
type_synonym SchemaDiff = "SchemaMetadata object_diff"
type_synonym ExtensionDiff = "ExtensionMetadata object_diff"
type_synonym EventTriggerDiff = "EventTriggerMetadata object_diff"
type_synonym ViewDiff = "ViewMetadata schema_object_diff"
type_synonym MaterializedViewDiff = "MaterializedViewMetadata schema_object_diff"
type_synonym FunctionDiff = "FunctionMetadata schema_object_diff"
type_synonym ProcedureDiff = "ProcedureMetadata schema_object_diff"
type_synonym SequenceDiff = "SequenceMetadata schema_object_diff"
type_synonym EnumTypeDiff = "EnumTypeMetadata schema_object_diff"
type_synonym EventDiff = "EventMetadata schema_object_diff"

record TableDiff =
  td_Action :: MetadataDiffAction
  td_SchemaName :: string
  td_TableName :: string
  td_OldTable :: "TableMetadata option"
  td_NewTable :: "TableMetadata option"
  ColumnChanges :: "ColumnDiff list"
  IndexChanges :: "IndexDiff list"
  ForeignKeyChanges :: "ForeignKeyDiff list"
  CheckConstraintChanges :: "CheckConstraintDiff list"
  TriggerChanges :: "TriggerDiff list"
  PartitionChanges :: "PartitionDiff list"

datatype CommentObjectType = CommentTable | CommentColumn | CommentView | CommentMaterializedView
  | CommentFunction | CommentSequence | CommentSchema | CommentIndex

fun objectTypeString :: "CommentObjectType \<Rightarrow> string" where
  "objectTypeString CommentTable = ''TABLE''"
| "objectTypeString CommentColumn = ''COLUMN''"
| "objectTypeString CommentView = ''VIEW''"
| "objectTypeString CommentMaterializedView = ''MATERIALIZED_VIEW''"
| "objectTypeString CommentFunction = ''FUNCTION''"
| "objectTypeString CommentSequence = ''SEQUENCE''"
| "objectTypeString CommentSchema = ''SCHEMA''"
| "objectTypeString CommentIndex = ''INDEX''"

record CommentDiff =
  cd_Action :: MetadataDiffAction
  cd_SchemaName :: string
  cd_ObjectType :: CommentObjectType
  cd_ObjectName :: string
  cd_OldComment :: string
  cd_NewComment :: string

record MetadataDiff =
  DatabaseName :: string
  SchemaChanges :: "SchemaDiff list"
  TableChanges :: "TableDiff list"
  ViewChanges :: "ViewDiff list"
  MaterializedViewChanges :: "MaterializedViewDiff list"
  FunctionChanges :: "FunctionDiff list"
  ProcedureChanges :: "ProcedureDiff list"
  SequenceChanges :: "SequenceDiff list"
  EnumTypeChanges :: "EnumTypeDiff list"
  ExtensionChanges :: "ExtensionDiff list"
  EventTriggerChanges :: "EventTriggerDiff list"
  EventChanges :: "EventDiff list"
  CommentChanges :: "CommentDiff list"

subsection \<open>Maps by name and the loops over two of them\<close>

text \<open>The loop of the \<open>build...Map\<close> functions, and \<open>sortedKeys\<close>.\<close>

definition buildMap :: "('a \<Rightarrow> string) \<Rightarrow> 'a list \<Rightarrow> (string, 'a) gomap" where
  "buildMap name xs = fold (\<lambda>x m. gm_put (name x) x m) xs []"

definition sortedKeys :: "(string, 'a) gomap \<Rightarrow> string list" where
  "sortedKeys m = sort (map fst m)"

text \<open>
  The two loops every comparison runs: over the old names for what was dropped, then over the
  new names for what was created or altered. \<open>skip\<close> is the field \<open>SkipDump\<close> where the object has
  it, \<open>same\<close> the comparison of two objects of one name.
\<close>

definition droppedOne ::
    "('a \<Rightarrow> bool) \<Rightarrow> (string, 'a) gomap \<Rightarrow> string \<Rightarrow> 'a \<Rightarrow> 'a object_diff list" where
  "droppedOne skip news name old =
     (if gm_get news name = None \<and> \<not> skip old
      then [\<lparr>Action = DiffDrop, ObjName = name, OldObj = Some old, NewObj = None\<rparr>] else [])"

definition changedOne ::
    "('a \<Rightarrow> bool) \<Rightarrow> ('a \<Rightarrow> 'a \<Rightarrow> bool) \<Rightarrow> (string, 'a) gomap \<Rightarrow> string \<Rightarrow> 'a \<Rightarrow> 'a object_diff list" where
  "changedOne skip same olds name new =
     (if skip new then []
      else (case gm_get olds name of
          None \<Rightarrow> [\<lparr>Action = DiffCreate, ObjName = name, OldObj = None, NewObj = Some new\<rparr>]
        | Some old \<Rightarrow>
            if skip old then [\<lparr>Action = DiffCreate, ObjName = name, OldObj = None, NewObj = Some new\<rparr>]
            else if \<not> same old new
            then [\<lparr>Action = DiffAlter, ObjName = name, OldObj = Some old, NewObj = Some new\<rparr>]
            else []))"

text \<open>\<open>for _, name := range sortedKeys(m)\<close>, collecting what the body appends.\<close>

definition rangeSorted :: "(string \<Rightarrow> 'a \<Rightarrow> 'd list) \<Rightarrow> (string, 'a) gomap \<Rightarrow> 'd list" where
  "rangeSorted body m =
     concat (map (\<lambda>name. case gm_get m name of None \<Rightarrow> [] | Some x \<Rightarrow> body name x) (sortedKeys m))"

definition diffMaps ::
    "('a \<Rightarrow> bool) \<Rightarrow> ('a \<Rightarrow> 'a \<Rightarrow> bool) \<Rightarrow> (string, 'a) gomap \<Rightarrow> (string, 'a) gomap \<Rightarrow> 'a object_diff list" where
  "diffMaps skip same olds news =
     rangeSorted (droppedOne skip news) olds @ rangeSorted (changedOne skip same olds) news"

definition inSchema :: "string \<Rightarrow> 'a object_diff \<Rightarrow> 'a schema_object_diff" where
  "inSchema schemaName d = object_diff.extend d \<lparr>InSchema = schemaName\<rparr>"

abbreviation never :: "'a \<Rightarrow> bool" where
  "never \<equiv> \<lambda>_. False"

subsection \<open>Tables\<close>

definition buildColumnMap :: "ColumnMetadata list \<Rightarrow> (string, ColumnMetadata) gomap" where
  "buildColumnMap = buildMap c_Name"

definition buildIndexMap :: "IndexMetadata list \<Rightarrow> (string, IndexMetadata) gomap" where
  "buildIndexMap = buildMap ix_Name"

definition buildFKMap :: "ForeignKeyMetadata list \<Rightarrow> (string, ForeignKeyMetadata) gomap" where
  "buildFKMap = buildMap fk_Name"

definition buildCheckMap :: "CheckConstraintMetadata list \<Rightarrow> (string, CheckConstraintMetadata) gomap" where
  "buildCheckMap = buildMap ck_Name"

definition buildTriggerMap :: "TriggerMetadata list \<Rightarrow> (string, TriggerMetadata) gomap" where
  "buildTriggerMap = buildMap tg_Name"

definition buildPartitionMap :: "TablePartitionMetadata list \<Rightarrow> (string, TablePartitionMetadata) gomap" where
  "buildPartitionMap = buildMap pt_Name"

definition columnsEqual :: "ColumnMetadata \<Rightarrow> ColumnMetadata \<Rightarrow> bool" where
  "columnsEqual a b \<longleftrightarrow>
     c_Name a = c_Name b \<and> c_Type a = c_Type b \<and> c_Nullable a = c_Nullable b
     \<and> c_Default a = c_Default b \<and> c_Comment a = c_Comment b \<and> c_UserComment a = c_UserComment b
     \<and> c_CharacterSet a = c_CharacterSet b \<and> c_Collation a = c_Collation b
     \<and> c_OnUpdate a = c_OnUpdate b \<and> c_Position a = c_Position b
     \<and> c_DefaultOnNull a = c_DefaultOnNull b \<and> c_IsIdentity a = c_IsIdentity b
     \<and> c_IdentitySeed a = c_IdentitySeed b \<and> c_IdentityIncrement a = c_IdentityIncrement b
     \<and> c_IdentityGeneration a = c_IdentityGeneration b"

definition indexesEqual :: "IndexMetadata \<Rightarrow> IndexMetadata \<Rightarrow> bool" where
  "indexesEqual a b \<longleftrightarrow>
     ix_Name a = ix_Name b \<and> ix_Expressions a = ix_Expressions b \<and> ix_Unique a = ix_Unique b
     \<and> ix_Primary a = ix_Primary b \<and> ix_Type a = ix_Type b \<and> ix_IsConstraint a = ix_IsConstraint b
     \<and> ix_SpatialConfig a = ix_SpatialConfig b"

definition foreignKeysEqual :: "ForeignKeyMetadata \<Rightarrow> ForeignKeyMetadata \<Rightarrow> bool" where
  "foreignKeysEqual a b \<longleftrightarrow>
     fk_Name a = fk_Name b \<and> fk_Columns a = fk_Columns b \<and> fk_ReferencedTable a = fk_ReferencedTable b
     \<and> fk_ReferencedColumns a = fk_ReferencedColumns b \<and> fk_OnDelete a = fk_OnDelete b
     \<and> fk_OnUpdate a = fk_OnUpdate b"

definition triggersEqual :: "TriggerMetadata \<Rightarrow> TriggerMetadata \<Rightarrow> bool" where
  "triggersEqual a b \<longleftrightarrow>
     tg_Name a = tg_Name b \<and> tg_Event a = tg_Event b \<and> tg_Timing a = tg_Timing b \<and> tg_Body a = tg_Body b"

definition compareColumns :: "TableMetadata \<Rightarrow> TableMetadata \<Rightarrow> ColumnDiff list" where
  "compareColumns old new =
     diffMaps never columnsEqual (buildColumnMap (t_Columns old)) (buildColumnMap (t_Columns new))"

definition compareIndexes :: "TableMetadata \<Rightarrow> TableMetadata \<Rightarrow> IndexDiff list" where
  "compareIndexes old new =
     diffMaps never indexesEqual (buildIndexMap (t_Indexes old)) (buildIndexMap (t_Indexes new))"

definition compareForeignKeys :: "TableMetadata \<Rightarrow> TableMetadata \<Rightarrow> ForeignKeyDiff list" where
  "compareForeignKeys old new =
     diffMaps never foreignKeysEqual (buildFKMap (t_ForeignKeys old)) (buildFKMap (t_ForeignKeys new))"

definition compareCheckConstraints ::
    "TableMetadata \<Rightarrow> TableMetadata \<Rightarrow> CheckConstraintDiff list" where
  "compareCheckConstraints old new =
     diffMaps never (\<lambda>a b. ck_Expression a = ck_Expression b)
       (buildCheckMap (t_CheckConstraints old)) (buildCheckMap (t_CheckConstraints new))"

definition compareTriggers :: "TableMetadata \<Rightarrow> TableMetadata \<Rightarrow> TriggerDiff list" where
  "compareTriggers old new =
     diffMaps never triggersEqual (buildTriggerMap (t_Triggers old)) (buildTriggerMap (t_Triggers new))"

definition comparePartitions :: "TableMetadata \<Rightarrow> TableMetadata \<Rightarrow> PartitionDiff list" where
  "comparePartitions old new =
     diffMaps never (\<lambda>a b. pt_Type a = pt_Type b \<and> pt_Expression a = pt_Expression b)
       (buildPartitionMap (t_Partitions old)) (buildPartitionMap (t_Partitions new))"

definition compareTableDetails ::
    "string \<Rightarrow> string \<Rightarrow> TableMetadata \<Rightarrow> TableMetadata \<Rightarrow> TableDiff option" where
  "compareTableDetails schemaName tableName old new =
     (let tableDiff = \<lparr>td_Action = DiffAlter, td_SchemaName = schemaName, td_TableName = tableName,
            td_OldTable = Some old, td_NewTable = Some new,
            ColumnChanges = compareColumns old new, IndexChanges = compareIndexes old new,
            ForeignKeyChanges = compareForeignKeys old new,
            CheckConstraintChanges = compareCheckConstraints old new,
            TriggerChanges = compareTriggers old new, PartitionChanges = comparePartitions old new\<rparr>;
          hasChanges =
            compareColumns old new \<noteq> [] \<or> compareIndexes old new \<noteq> []
            \<or> compareForeignKeys old new \<noteq> [] \<or> compareCheckConstraints old new \<noteq> []
            \<or> compareTriggers old new \<noteq> [] \<or> comparePartitions old new \<noteq> []
            \<or> t_Comment old \<noteq> t_Comment new \<or> t_Engine old \<noteq> t_Engine new
            \<or> t_Charset old \<noteq> t_Charset new \<or> t_Collation old \<noteq> t_Collation new
            \<or> t_Owner old \<noteq> t_Owner new
      in if \<not> hasChanges then None else Some tableDiff)"

definition columnComment ::
    "string \<Rightarrow> string \<Rightarrow> (string, ColumnMetadata) gomap \<Rightarrow> string \<Rightarrow> ColumnMetadata \<Rightarrow> CommentDiff list" where
  "columnComment schemaName tableName newCols colName oldCol =
     (case gm_get newCols colName of
        None \<Rightarrow> []
      | Some newCol \<Rightarrow>
          if c_Comment oldCol \<noteq> c_Comment newCol
          then [\<lparr>cd_Action = ActionUnset, cd_SchemaName = schemaName, cd_ObjectType = CommentColumn,
                 cd_ObjectName = tableName @ ''.'' @ colName,
                 cd_OldComment = c_Comment oldCol, cd_NewComment = c_Comment newCol\<rparr>]
          else [])"

definition compareColumnComments ::
    "string \<Rightarrow> string \<Rightarrow> TableMetadata \<Rightarrow> TableMetadata \<Rightarrow> MetadataDiff \<Rightarrow> MetadataDiff" where
  "compareColumnComments schemaName tableName old new diff =
     (let oldCols = buildColumnMap (t_Columns old); newCols = buildColumnMap (t_Columns new)
      in diff\<lparr>CommentChanges := CommentChanges diff @
           rangeSorted (columnComment schemaName tableName newCols) oldCols\<rparr>)"

subsection \<open>Objects of a schema\<close>

definition tableDiffOf ::
    "MetadataDiffAction \<Rightarrow> string \<Rightarrow> string \<Rightarrow> TableMetadata option \<Rightarrow> TableMetadata option \<Rightarrow> TableDiff" where
  "tableDiffOf action schemaName tableName old new =
     \<lparr>td_Action = action, td_SchemaName = schemaName, td_TableName = tableName,
      td_OldTable = old, td_NewTable = new, ColumnChanges = [], IndexChanges = [],
      ForeignKeyChanges = [], CheckConstraintChanges = [], TriggerChanges = [], PartitionChanges = []\<rparr>"

definition add_table :: "TableDiff \<Rightarrow> MetadataDiff \<Rightarrow> MetadataDiff" where
  "add_table td diff = diff\<lparr>TableChanges := TableChanges diff @ [td]\<rparr>"

text \<open>The bodies of the two loops over tables in \<open>compareSchemaObjects\<close>.\<close>

definition dropTable ::
    "string \<Rightarrow> (string, TableMetadata) gomap \<Rightarrow> (string, TableMetadata) gomap \<Rightarrow> string \<Rightarrow> MetadataDiff \<Rightarrow> MetadataDiff" where
  "dropTable schemaName oldTables newTables tableName diff =
     (case gm_get oldTables tableName of
        None \<Rightarrow> diff
      | Some oldTable \<Rightarrow>
          if gm_get newTables tableName = None \<and> \<not> t_SkipDump oldTable
          then add_table (tableDiffOf DiffDrop schemaName tableName (Some oldTable) None) diff
          else diff)"

definition compareTable ::
    "string \<Rightarrow> (string, TableMetadata) gomap \<Rightarrow> (string, TableMetadata) gomap \<Rightarrow> string \<Rightarrow> MetadataDiff \<Rightarrow> MetadataDiff" where
  "compareTable schemaName oldTables newTables tableName diff =
     (case gm_get newTables tableName of
        None \<Rightarrow> diff
      | Some newTable \<Rightarrow>
          if t_SkipDump newTable then diff
          else
            let create = add_table (tableDiffOf DiffCreate schemaName tableName None (Some newTable)) in
            case gm_get oldTables tableName of
              None \<Rightarrow> create diff
            | Some oldTable \<Rightarrow>
                if t_SkipDump oldTable then create diff
                else
                  let diff = (if t_Comment oldTable \<noteq> t_Comment newTable
                        then diff\<lparr>CommentChanges := CommentChanges diff @
                          [\<lparr>cd_Action = ActionUnset, cd_SchemaName = schemaName, cd_ObjectType = CommentTable,
                            cd_ObjectName = tableName, cd_OldComment = t_Comment oldTable,
                            cd_NewComment = t_Comment newTable\<rparr>]\<rparr>
                        else diff);
                      diff = compareColumnComments schemaName tableName oldTable newTable diff
                  in case compareTableDetails schemaName tableName oldTable newTable of
                       None \<Rightarrow> diff
                     | Some tableDiff \<Rightarrow> add_table tableDiff diff)"

definition buildTableMap :: "TableMetadata list \<Rightarrow> (string, TableMetadata) gomap" where
  "buildTableMap = buildMap t_Name"

definition compareTables :: "string \<Rightarrow> SchemaMetadata \<Rightarrow> SchemaMetadata \<Rightarrow> MetadataDiff \<Rightarrow> MetadataDiff" where
  "compareTables schemaName old new diff =
     (let oldTables = buildTableMap (s_Tables old); newTables = buildTableMap (s_Tables new)
      in fold (compareTable schemaName oldTables newTables) (sortedKeys newTables)
           (fold (dropTable schemaName oldTables newTables) (sortedKeys oldTables) diff))"

definition sequencesEqual :: "SequenceMetadata \<Rightarrow> SequenceMetadata \<Rightarrow> bool" where
  "sequencesEqual a b \<longleftrightarrow>
     sq_Name a = sq_Name b \<and> sq_DataType a = sq_DataType b \<and> sq_Start a = sq_Start b
     \<and> sq_MinValue a = sq_MinValue b \<and> sq_MaxValue a = sq_MaxValue b
     \<and> sq_Increment a = sq_Increment b \<and> sq_Cycle a = sq_Cycle b \<and> sq_CacheSize a = sq_CacheSize b"

definition buildViewMap :: "ViewMetadata list \<Rightarrow> (string, ViewMetadata) gomap" where
  "buildViewMap = buildMap v_Name"

definition compareViews :: "string \<Rightarrow> SchemaMetadata \<Rightarrow> SchemaMetadata \<Rightarrow> MetadataDiff \<Rightarrow> MetadataDiff" where
  "compareViews schemaName old new diff =
     diff\<lparr>ViewChanges := ViewChanges diff @ map (inSchema schemaName)
       (diffMaps v_SkipDump (\<lambda>a b. v_Definition a = v_Definition b \<and> v_Comment a = v_Comment b)
          (buildViewMap (s_Views old)) (buildViewMap (s_Views new)))\<rparr>"

definition buildMVMap :: "MaterializedViewMetadata list \<Rightarrow> (string, MaterializedViewMetadata) gomap" where
  "buildMVMap = buildMap mv_Name"

definition compareMaterializedViews :: "string \<Rightarrow> SchemaMetadata \<Rightarrow> SchemaMetadata \<Rightarrow> MetadataDiff \<Rightarrow> MetadataDiff" where
  "compareMaterializedViews schemaName old new diff =
     diff\<lparr>MaterializedViewChanges := MaterializedViewChanges diff @ map (inSchema schemaName)
       (diffMaps mv_SkipDump (\<lambda>a b. mv_Definition a = mv_Definition b \<and> mv_Comment a = mv_Comment b)
          (buildMVMap (s_MaterializedViews old)) (buildMVMap (s_MaterializedViews new)))\<rparr>"

definition buildFunctionMap :: "FunctionMetadata list \<Rightarrow> (string, FunctionMetadata) gomap" where
  "buildFunctionMap = buildMap f_Name"

definition compareFunctions :: "string \<Rightarrow> SchemaMetadata \<Rightarrow> SchemaMetadata \<Rightarrow> MetadataDiff \<Rightarrow> MetadataDiff" where
  "compareFunctions schemaName old new diff =
     diff\<lparr>FunctionChanges := FunctionChanges diff @ map (inSchema schemaName)
       (diffMaps f_SkipDump (\<lambda>a b. f_Definition a = f_Definition b)
          (buildFunctionMap (s_Functions old)) (buildFunctionMap (s_Functions new)))\<rparr>"

definition buildProcedureMap :: "ProcedureMetadata list \<Rightarrow> (string, ProcedureMetadata) gomap" where
  "buildProcedureMap = buildMap p_Name"

definition compareProcedures :: "string \<Rightarrow> SchemaMetadata \<Rightarrow> SchemaMetadata \<Rightarrow> MetadataDiff \<Rightarrow> MetadataDiff" where
  "compareProcedures schemaName old new diff =
     diff\<lparr>ProcedureChanges := ProcedureChanges diff @ map (inSchema schemaName)
       (diffMaps p_SkipDump (\<lambda>a b. p_Definition a = p_Definition b)
          (buildProcedureMap (s_Procedures old)) (buildProcedureMap (s_Procedures new)))\<rparr>"

definition buildSequenceMap :: "SequenceMetadata list \<Rightarrow> (string, SequenceMetadata) gomap" where
  "buildSequenceMap = buildMap sq_Name"

definition compareSequences :: "string \<Rightarrow> SchemaMetadata \<Rightarrow> SchemaMetadata \<Rightarrow> MetadataDiff \<Rightarrow> MetadataDiff" where
  "compareSequences schemaName old new diff =
     diff\<lparr>SequenceChanges := SequenceChanges diff @ map (inSchema schemaName)
       (diffMaps sq_SkipDump sequencesEqual
          (buildSequenceMap (s_Sequences old)) (buildSequenceMap (s_Sequences new)))\<rparr>"

definition buildEnumTypeMap :: "EnumTypeMetadata list \<Rightarrow> (string, EnumTypeMetadata) gomap" where
  "buildEnumTypeMap = buildMap en_Name"

definition compareEnumTypes :: "string \<Rightarrow> SchemaMetadata \<Rightarrow> SchemaMetadata \<Rightarrow> MetadataDiff \<Rightarrow> MetadataDiff" where
  "compareEnumTypes schemaName old new diff =
     diff\<lparr>EnumTypeChanges := EnumTypeChanges diff @ map (inSchema schemaName)
       (diffMaps en_SkipDump (\<lambda>a b. en_Values a = en_Values b)
          (buildEnumTypeMap (s_EnumTypes old)) (buildEnumTypeMap (s_EnumTypes new)))\<rparr>"

definition buildEventMap :: "EventMetadata list \<Rightarrow> (string, EventMetadata) gomap" where
  "buildEventMap = buildMap ev_Name"

definition compareEvents :: "string \<Rightarrow> SchemaMetadata \<Rightarrow> SchemaMetadata \<Rightarrow> MetadataDiff \<Rightarrow> MetadataDiff" where
  "compareEvents schemaName old new diff =
     diff\<lparr>EventChanges := EventChanges diff @ map (inSchema schemaName)
       (diffMaps never (\<lambda>a b. ev_Definition a = ev_Definition b)
          (buildEventMap (s_Events old)) (buildEventMap (s_Events new)))\<rparr>"

definition compareSchemaObjects :: "string \<Rightarrow> SchemaMetadata \<Rightarrow> SchemaMetadata \<Rightarrow> MetadataDiff \<Rightarrow> MetadataDiff" where
  "compareSchemaObjects schemaName old new diff =
     (let diff = compareTables schemaName old new diff;
          diff = compareViews schemaName old new diff;
          diff = compareMaterializedViews schemaName old new diff;
          diff = compareFunctions schemaName old new diff;
          diff = compareProcedures schemaName old new diff;
          diff = compareSequences schemaName old new diff;
          diff = compareEnumTypes schemaName old new diff
      in compareEvents schemaName old new diff)"

text \<open>The loops of \<open>addNewSchemaObjects\<close>: every object of a list, in its order.\<close>

definition createdObjects ::
    "('a \<Rightarrow> bool) \<Rightarrow> ('a \<Rightarrow> string) \<Rightarrow> string \<Rightarrow> 'a list \<Rightarrow> 'a schema_object_diff list" where
  "createdObjects skip name schemaName xs =
     map (\<lambda>x. inSchema schemaName \<lparr>Action = DiffCreate, ObjName = name x, OldObj = None, NewObj = Some x\<rparr>)
       (filter (\<lambda>x. \<not> skip x) xs)"

definition addNewSchemaObjects :: "string \<Rightarrow> SchemaMetadata \<Rightarrow> MetadataDiff \<Rightarrow> MetadataDiff" where
  "addNewSchemaObjects schemaName sch diff =
     diff\<lparr>TableChanges := TableChanges diff @
            map (\<lambda>t. tableDiffOf DiffCreate schemaName (t_Name t) None (Some t))
              (filter (\<lambda>t. \<not> t_SkipDump t) (s_Tables sch)),
          ViewChanges := ViewChanges diff @ createdObjects v_SkipDump v_Name schemaName (s_Views sch),
          MaterializedViewChanges := MaterializedViewChanges diff
            @ createdObjects mv_SkipDump mv_Name schemaName (s_MaterializedViews sch),
          FunctionChanges := FunctionChanges diff @ createdObjects f_SkipDump f_Name schemaName (s_Functions sch),
          ProcedureChanges := ProcedureChanges diff
            @ createdObjects p_SkipDump p_Name schemaName (s_Procedures sch),
          SequenceChanges := SequenceChanges diff
            @ createdObjects sq_SkipDump sq_Name schemaName (s_Sequences sch),
          EnumTypeChanges := EnumTypeChanges diff
            @ createdObjects en_SkipDump en_Name schemaName (s_EnumTypes sch),
          EventChanges := EventChanges diff @ createdObjects never ev_Name schemaName (s_Events sch)\<rparr>"

subsection \<open>Sorting\<close>

text \<open>
  A comparison sort is a function of the outcomes of the comparisons, that is, of the ranks of
  the keys: \<open>srt ranks\<close> lists the indices in their new order.
\<close>

type_synonym sorter = "nat list \<Rightarrow> nat list"

definition rank :: "('k::linorder) list \<Rightarrow> 'k \<Rightarrow> nat" where
  "rank keys k = length (filter (\<lambda>k'. k' < k) (remdups keys))"

definition SortFunc :: "sorter \<Rightarrow> ('a \<Rightarrow> 'k::linorder) \<Rightarrow> 'a list \<Rightarrow> 'a list" where
  "SortFunc srt key xs = map (\<lambda>i. xs ! i) (srt (map (\<lambda>x. rank (map key xs) (key x)) xs))"

definition columnDiffName :: "ColumnDiff \<Rightarrow> string" where
  "columnDiffName d =
     (case NewObj d of Some c \<Rightarrow> c_Name c
      | None \<Rightarrow> (case OldObj d of Some c \<Rightarrow> c_Name c | None \<Rightarrow> []))"

definition sortTableSubObjectChanges :: "sorter \<Rightarrow> TableDiff \<Rightarrow> TableDiff" where
  "sortTableSubObjectChanges srt td =
     td\<lparr>ColumnChanges := SortFunc srt columnDiffName (ColumnChanges td),
        IndexChanges := SortFunc srt ObjName (IndexChanges td),
        ForeignKeyChanges := SortFunc srt ObjName (ForeignKeyChanges td),
        CheckConstraintChanges := SortFunc srt ObjName (CheckConstraintChanges td),
        TriggerChanges := SortFunc srt ObjName (TriggerChanges td)\<rparr>"

definition schemaKey :: "'a schema_object_diff \<Rightarrow> string \<times> string" where
  "schemaKey d = (InSchema d, ObjName d)"

definition tableKey :: "TableDiff \<Rightarrow> string \<times> string" where
  "tableKey td = (td_SchemaName td, td_TableName td)"

definition sortDiffLists :: "sorter \<Rightarrow> MetadataDiff \<Rightarrow> MetadataDiff" where
  "sortDiffLists srt diff =
     diff\<lparr>SchemaChanges := SortFunc srt ObjName (SchemaChanges diff),
          TableChanges := map (sortTableSubObjectChanges srt) (SortFunc srt tableKey (TableChanges diff)),
          ViewChanges := SortFunc srt schemaKey (ViewChanges diff),
          MaterializedViewChanges := SortFunc srt schemaKey (MaterializedViewChanges diff),
          FunctionChanges := SortFunc srt schemaKey (FunctionChanges diff),
          ProcedureChanges := SortFunc srt schemaKey (ProcedureChanges diff),
          SequenceChanges := SortFunc srt schemaKey (SequenceChanges diff),
          EnumTypeChanges := SortFunc srt schemaKey (EnumTypeChanges diff),
          ExtensionChanges := SortFunc srt ObjName (ExtensionChanges diff),
          EventTriggerChanges := SortFunc srt ObjName (EventTriggerChanges diff),
          EventChanges := SortFunc srt schemaKey (EventChanges diff),
          CommentChanges := SortFunc srt (\<lambda>c. (cd_SchemaName c, objectTypeString (cd_ObjectType c)))
            (CommentChanges diff)\<rparr>"

subsection \<open>Databases\<close>

definition buildExtensionMap :: "ExtensionMetadata list \<Rightarrow> (string, ExtensionMetadata) gomap" where
  "buildExtensionMap = buildMap ex_Name"

definition buildEventTriggerMap :: "EventTriggerMetadata list \<Rightarrow> (string, EventTriggerMetadata) gomap" where
  "buildEventTriggerMap = buildMap et_Name"

definition compareExtensions ::
    "DatabaseSchemaMetadata \<Rightarrow> DatabaseSchemaMetadata \<Rightarrow> MetadataDiff \<Rightarrow> MetadataDiff" where
  "compareExtensions old new diff =
     diff\<lparr>ExtensionChanges := ExtensionChanges diff
       @ diffMaps never (\<lambda>a b. ex_Version a = ex_Version b \<and> ex_Schema a = ex_Schema b)
           (buildExtensionMap (d_Extensions old)) (buildExtensionMap (d_Extensions new))\<rparr>"

definition compareEventTriggers ::
    "DatabaseSchemaMetadata \<Rightarrow> DatabaseSchemaMetadata \<Rightarrow> MetadataDiff \<Rightarrow> MetadataDiff" where
  "compareEventTriggers old new diff =
     diff\<lparr>EventTriggerChanges := EventTriggerChanges diff
       @ diffMaps never (\<lambda>a b. et_Definition a = et_Definition b)
           (buildEventTriggerMap (d_EventTriggers old)) (buildEventTriggerMap (d_EventTriggers new))\<rparr>"

definition empty_diff :: "string \<Rightarrow> MetadataDiff" where
  "empty_diff name =
     \<lparr>DatabaseName = name, SchemaChanges = [], TableChanges = [], ViewChanges = [],
      MaterializedViewChanges = [], FunctionChanges = [], ProcedureChanges = [],
      SequenceChanges = [], EnumTypeChanges = [], ExtensionChanges = [],
      EventTriggerChanges = [], EventChanges = [], CommentChanges = []\<rparr>"

definition add_schema :: "SchemaDiff \<Rightarrow> MetadataDiff \<Rightarrow> MetadataDiff" where
  "add_schema d diff = diff\<lparr>SchemaChanges := SchemaChanges diff @ [d]\<rparr>"

text \<open>The bodies of the two loops over schemas.\<close>

definition dropSchema ::
    "(string, SchemaMetadata) gomap \<Rightarrow> (string, SchemaMetadata) gomap \<Rightarrow> string \<Rightarrow> MetadataDiff \<Rightarrow> MetadataDiff" where
  "dropSchema oldSchemas newSchemas schemaName diff =
     (case gm_get oldSchemas schemaName of
        None \<Rightarrow> diff
      | Some old \<Rightarrow>
          if gm_get newSchemas schemaName = None \<and> \<not> s_SkipDump old
          then add_schema \<lparr>Action = DiffDrop, ObjName = schemaName, OldObj = Some old, NewObj = None\<rparr> diff
          else diff)"

definition compareSchema ::
    "(string, SchemaMetadata) gomap \<Rightarrow> (string, SchemaMetadata) gomap \<Rightarrow> string \<Rightarrow> MetadataDiff \<Rightarrow> MetadataDiff" where
  "compareSchema oldSchemas newSchemas schemaName diff =
     (case gm_get newSchemas schemaName of
        None \<Rightarrow> diff
      | Some new \<Rightarrow>
          if s_SkipDump new then diff
          else
            let create = addNewSchemaObjects schemaName new
                  (add_schema \<lparr>Action = DiffCreate, ObjName = schemaName, OldObj = None, NewObj = Some new\<rparr> diff)
            in case gm_get oldSchemas schemaName of
                 None \<Rightarrow> create
               | Some old \<Rightarrow>
                   if s_SkipDump old then create else compareSchemaObjects schemaName old new diff)"

definition GetDatabaseSchemaDiff ::
    "sorter \<Rightarrow> DatabaseSchemaMetadata option \<Rightarrow> DatabaseSchemaMetadata option \<Rightarrow> MetadataDiff option" where
  "GetDatabaseSchemaDiff srt oldSchema newSchema =
     (case (oldSchema, newSchema) of
        (Some old, Some new) \<Rightarrow>
          let oldSchemas = buildMap s_Name (d_Schemas old);
              newSchemas = buildMap s_Name (d_Schemas new);
              diff = empty_diff (d_Name new);
              diff = fold (dropSchema oldSchemas newSchemas) (sortedKeys oldSchemas) diff;
              diff = fold (compareSchema oldSchemas newSchemas) (sortedKeys newSchemas) diff;
              diff = compareExtensions old new diff;
              diff = compareEventTriggers old new diff
          in Some (sortDiffLists srt diff)
      | _ \<Rightarrow> None)"

end
