(* ===== verification/Schema_Diff_Laws.thy ===== *)
theory Schema_Diff_Laws
  imports Schema_Diff
begin

text \<open>
  The laws of the schema comparison: when it finds nothing, what its changes do when they are
  applied to the old objects, and which attributes it does not see.
\<close>

subsection \<open>Maps by name\<close>

lemma gm_ok_buildMap [simp]: "gm_ok (buildMap name xs)"
proof -
  have "gm_ok m \<Longrightarrow> gm_ok (fold (\<lambda>x m. gm_put (name x) x m) xs m)" for m
    by (induction xs arbitrary: m) auto
  then show ?thesis by (simp add: buildMap_def)
qed

lemma set_sortedKeys [simp]: "set (sortedKeys m) = gm_keys m"
  by (simp add: sortedKeys_def)

lemma distinct_sortedKeys: "gm_ok m \<Longrightarrow> distinct (sortedKeys m)"
  by (simp add: sortedKeys_def)

lemma sortedKeys_get: "k \<in> set (sortedKeys m) \<longleftrightarrow> gm_get m k \<noteq> None"
  by (simp add: gm_keys_get)

declare set_sortedKeys [simp del]

text \<open>What a map by name holds: the last object of each name.\<close>

lemma buildMap_get:
  "gm_get (buildMap name xs) k = (let ys = filter (\<lambda>x. name x = k) xs in if ys = [] then None else Some (last ys))"
proof -
  have "gm_get (fold (\<lambda>x m. gm_put (name x) x m) xs m) k
      = (let ys = filter (\<lambda>x. name x = k) xs in if ys = [] then gm_get m k else Some (last ys))" for m
    by (induction xs arbitrary: m) (auto simp: go_map Let_def)
  then show ?thesis by (auto simp: buildMap_def Let_def)
qed

lemma buildMap_name: "gm_get (buildMap name xs) k = Some x \<Longrightarrow> name x = k \<and> x \<in> set xs"
  by (auto simp: buildMap_get Let_def split: if_splits dest: last_in_set)

subsection \<open>The two loops\<close>

lemma range_in: "d \<in> set (rangeSorted body m) \<longleftrightarrow> (\<exists>k x. gm_get m k = Some x \<and> d \<in> set (body k x))"
proof -
  have concat: "d \<in> set (concat (map g ks)) \<longleftrightarrow> (\<exists>k. k \<in> set ks \<and> d \<in> set (g k))" for g ks
    by auto
  have one: "k \<in> set (sortedKeys m) \<and> d \<in> set (case gm_get m k of None \<Rightarrow> [] | Some x \<Rightarrow> body k x)
      \<longleftrightarrow> (\<exists>x. gm_get m k = Some x \<and> d \<in> set (body k x))" for k
    by (cases "gm_get m k") (auto simp: sortedKeys_get)
  show ?thesis unfolding rangeSorted_def concat one ..
qed

lemma range_empty: "rangeSorted body m = [] \<longleftrightarrow> (\<forall>k x. gm_get m k = Some x \<longrightarrow> body k x = [])"
proof -
  have "rangeSorted body m = [] \<longleftrightarrow> (\<forall>d. d \<notin> set (rangeSorted body m))" by (metis ex_in_conv set_empty)
  also have "\<dots> \<longleftrightarrow> (\<forall>k x. gm_get m k = Some x \<longrightarrow> (\<forall>d. d \<notin> set (body k x)))" unfolding range_in by blast
  finally show ?thesis by (metis ex_in_conv set_empty)
qed

text \<open>The object as the loops see it: an object that is not dumped counts as absent.\<close>

definition visible :: "('a \<Rightarrow> bool) \<Rightarrow> (string, 'a) gomap \<Rightarrow> string \<Rightarrow> 'a option" where
  "visible skip m k = (case gm_get m k of None \<Rightarrow> None | Some x \<Rightarrow> if skip x then None else Some x)"

lemma visible_Some: "visible skip m k = Some x \<longleftrightarrow> gm_get m k = Some x \<and> \<not> skip x"
  by (auto simp: visible_def split: option.splits if_splits)

lemma visible_get: "gm_get m k = None \<Longrightarrow> visible skip m k = None"
  by (simp add: visible_def)

lemma changedOne_visible:
  "changedOne skip same olds name new =
     (if skip new then []
      else case visible skip olds name of
          None \<Rightarrow> [\<lparr>Action = DiffCreate, ObjName = name, OldObj = None, NewObj = Some new\<rparr>]
        | Some old \<Rightarrow>
            if \<not> same old new
            then [\<lparr>Action = DiffAlter, ObjName = name, OldObj = Some old, NewObj = Some new\<rparr>] else [])"
  by (cases "gm_get olds name") (auto simp: changedOne_def visible_def)

text \<open>Nothing that is dumped was dropped, created or altered.\<close>

definition unchanged :: "('a \<Rightarrow> bool) \<Rightarrow> ('a \<Rightarrow> 'a \<Rightarrow> bool) \<Rightarrow> (string, 'a) gomap \<Rightarrow> (string, 'a) gomap \<Rightarrow> bool" where
  "unchanged skip same olds news \<longleftrightarrow>
     (\<forall>k. case (visible skip olds k, visible skip news k) of
        (None, None) \<Rightarrow> True
      | (Some old, None) \<Rightarrow> gm_get news k \<noteq> None
      | (None, Some new) \<Rightarrow> False
      | (Some old, Some new) \<Rightarrow> same old new)"

lemma dropped_empty:
  "rangeSorted (droppedOne skip news) olds = [] \<longleftrightarrow>
   (\<forall>k old. visible skip olds k = Some old \<longrightarrow> gm_get news k \<noteq> None)"
  unfolding range_empty visible_Some droppedOne_def by (metis list.distinct(1))

lemma changed_empty:
  "rangeSorted (changedOne skip same olds) news = [] \<longleftrightarrow>
   (\<forall>k new. visible skip news k = Some new \<longrightarrow>
     (\<exists>old. visible skip olds k = Some old \<and> same old new))"
proof -
  have "changedOne skip same olds k new = []
      \<longleftrightarrow> skip new \<or> (\<exists>old. visible skip olds k = Some old \<and> same old new)" for k new
    unfolding changedOne_visible by (cases "visible skip olds k") auto
  then show ?thesis unfolding range_empty visible_Some [of _ news] by blast
qed

lemma unchanged_split:
  "unchanged skip same olds news \<longleftrightarrow>
   (\<forall>k old. visible skip olds k = Some old \<longrightarrow> gm_get news k \<noteq> None) \<and>
   (\<forall>k new. visible skip news k = Some new \<longrightarrow> (\<exists>old. visible skip olds k = Some old \<and> same old new))"
  (is "_ \<longleftrightarrow> (\<forall>k. ?a k) \<and> (\<forall>k. ?b k)")
proof -
  have "(case (visible skip olds k, visible skip news k) of
      (None, None) \<Rightarrow> True | (Some old, None) \<Rightarrow> gm_get news k \<noteq> None
    | (None, Some new) \<Rightarrow> False | (Some old, Some new) \<Rightarrow> same old new) \<longleftrightarrow> ?a k \<and> ?b k" for k
    using visible_get [of news k skip]
    by (cases "visible skip olds k"; cases "visible skip news k") auto
  then show ?thesis unfolding unchanged_def by blast
qed

lemma diffMaps_empty: "diffMaps skip same olds news = [] \<longleftrightarrow> unchanged skip same olds news"
  by (simp add: diffMaps_def dropped_empty changed_empty unchanged_split)

lemma unchanged_refl: "(\<And>a. same a a) \<Longrightarrow> unchanged skip same m m"
  by (auto simp: unchanged_def visible_def split: option.splits)

subsection \<open>Sorting\<close>

text \<open>What the documentation of \<open>slices.SortFunc\<close> promises.\<close>

definition lawful_sorter :: "sorter \<Rightarrow> bool" where
  "lawful_sorter srt \<longleftrightarrow>
     (\<forall>ks. mset (srt ks) = mset [0..<length ks] \<and> sorted (map (\<lambda>i. ks ! i) (srt ks)))"

definition stable_sorter :: sorter where
  "stable_sorter ks = sort_key (\<lambda>i. ks ! i) [0..<length ks]"

lemma stable_sorter_lawful: "lawful_sorter stable_sorter"
  by (simp add: lawful_sorter_def stable_sorter_def)

lemma mset_SortFunc: "lawful_sorter srt \<Longrightarrow> mset (SortFunc srt key xs) = mset xs"
proof -
  assume "lawful_sorter srt"
  then have "mset (SortFunc srt key xs) = mset (map (\<lambda>i. xs ! i) [0..<length xs])"
    unfolding SortFunc_def lawful_sorter_def by (metis length_map mset_map)
  then show ?thesis by (simp only: map_nth)
qed

lemma set_SortFunc: "lawful_sorter srt \<Longrightarrow> set (SortFunc srt key xs) = set xs"
  by (metis mset_SortFunc set_mset_mset)

lemma SortFunc_empty: "lawful_sorter srt \<Longrightarrow> SortFunc srt key xs = [] \<longleftrightarrow> xs = []"
  by (metis mset_SortFunc mset_zero_iff)

lemma rank_less: "k < k' \<Longrightarrow> k \<in> set keys \<Longrightarrow> rank keys k < rank keys k'"
proof -
  assume k: "k < k'" "k \<in> set keys"
  have "{x \<in> set keys. x < k} \<subset> {x \<in> set keys. x < k'}" using k by auto
  then have "card {x \<in> set keys. x < k} < card {x \<in> set keys. x < k'}" by (intro psubset_card_mono) auto
  moreover have "rank keys x = card {y \<in> set keys. y < x}" for x
    unfolding rank_def by (metis distinct_card distinct_filter distinct_remdups set_filter set_remdups)
  ultimately show ?thesis by simp
qed

lemma sorted_SortFunc: "lawful_sorter srt \<Longrightarrow> sorted (map key (SortFunc srt key xs))"
proof -
  assume srt: "lawful_sorter srt"
  let ?keys = "map key xs"
  let ?ranks = "map (\<lambda>x. rank ?keys (key x)) xs"
  have sorted: "sorted_wrt (\<lambda>i j. ?ranks ! i \<le> ?ranks ! j) (srt ?ranks)"
    using srt unfolding lawful_sorter_def sorted_map by blast
  have "set (srt ?ranks) = {0..<length xs}"
    using srt unfolding lawful_sorter_def by (metis length_map mset_eq_setD set_upt)
  then have "sorted_wrt (\<lambda>i j. key (xs ! i) \<le> key (xs ! j)) (srt ?ranks)"
    using sorted
  proof (rule_tac sorted_wrt_mono_rel [OF _ sorted])
    fix i j
    assume ij: "i \<in> set (srt ?ranks)" "j \<in> set (srt ?ranks)" "?ranks ! i \<le> ?ranks ! j"
      and "set (srt ?ranks) = {0..<length xs}"
    then show "key (xs ! i) \<le> key (xs ! j)"
      using rank_less [of "key (xs ! j)" "key (xs ! i)" ?keys] by (auto simp: not_less [symmetric])
  qed
  then show ?thesis unfolding SortFunc_def by (simp add: sorted_map)
qed

subsection \<open>When nothing changed\<close>

definition no_changes :: "MetadataDiff \<Rightarrow> bool" where
  "no_changes d \<longleftrightarrow>
     SchemaChanges d = [] \<and> TableChanges d = [] \<and> ViewChanges d = [] \<and> MaterializedViewChanges d = []
     \<and> FunctionChanges d = [] \<and> ProcedureChanges d = [] \<and> SequenceChanges d = []
     \<and> EnumTypeChanges d = [] \<and> ExtensionChanges d = [] \<and> EventTriggerChanges d = []
     \<and> EventChanges d = [] \<and> CommentChanges d = []"

text \<open>
  When two tables, two schemas and two databases are the same to the differ: what it compares
  agrees, object by object.
\<close>

definition same_table :: "TableMetadata \<Rightarrow> TableMetadata \<Rightarrow> bool" where
  "same_table a b \<longleftrightarrow>
     t_Comment a = t_Comment b \<and> t_Engine a = t_Engine b \<and> t_Charset a = t_Charset b
     \<and> t_Collation a = t_Collation b \<and> t_Owner a = t_Owner b
     \<and> unchanged never columnsEqual (buildMap c_Name (t_Columns a)) (buildMap c_Name (t_Columns b))
     \<and> unchanged never indexesEqual (buildMap ix_Name (t_Indexes a)) (buildMap ix_Name (t_Indexes b))
     \<and> unchanged never foreignKeysEqual (buildMap fk_Name (t_ForeignKeys a)) (buildMap fk_Name (t_ForeignKeys b))
     \<and> unchanged never (\<lambda>x y. ck_Expression x = ck_Expression y)
         (buildMap ck_Name (t_CheckConstraints a)) (buildMap ck_Name (t_CheckConstraints b))
     \<and> unchanged never triggersEqual (buildMap tg_Name (t_Triggers a)) (buildMap tg_Name (t_Triggers b))
     \<and> unchanged never (\<lambda>x y. pt_Type x = pt_Type y \<and> pt_Expression x = pt_Expression y)
         (buildMap pt_Name (t_Partitions a)) (buildMap pt_Name (t_Partitions b))"

definition same_schema :: "SchemaMetadata \<Rightarrow> SchemaMetadata \<Rightarrow> bool" where
  "same_schema a b \<longleftrightarrow>
     unchanged t_SkipDump same_table (buildMap t_Name (s_Tables a)) (buildMap t_Name (s_Tables b))
     \<and> unchanged v_SkipDump (\<lambda>x y. v_Definition x = v_Definition y \<and> v_Comment x = v_Comment y)
         (buildMap v_Name (s_Views a)) (buildMap v_Name (s_Views b))
     \<and> unchanged mv_SkipDump (\<lambda>x y. mv_Definition x = mv_Definition y \<and> mv_Comment x = mv_Comment y)
         (buildMap mv_Name (s_MaterializedViews a)) (buildMap mv_Name (s_MaterializedViews b))
     \<and> unchanged f_SkipDump (\<lambda>x y. f_Definition x = f_Definition y)
         (buildMap f_Name (s_Functions a)) (buildMap f_Name (s_Functions b))
     \<and> unchanged p_SkipDump (\<lambda>x y. p_Definition x = p_Definition y)
         (buildMap p_Name (s_Procedures a)) (buildMap p_Name (s_Procedures b))
     \<and> unchanged sq_SkipDump sequencesEqual
         (buildMap sq_Name (s_Sequences a)) (buildMap sq_Name (s_Sequences b))
     \<and> unchanged en_SkipDump (\<lambda>x y. en_Values x = en_Values y)
         (buildMap en_Name (s_EnumTypes a)) (buildMap en_Name (s_EnumTypes b))
     \<and> unchanged never (\<lambda>x y. ev_Definition x = ev_Definition y)
         (buildMap ev_Name (s_Events a)) (buildMap ev_Name (s_Events b))"

definition same_database :: "DatabaseSchemaMetadata \<Rightarrow> DatabaseSchemaMetadata \<Rightarrow> bool" where
  "same_database a b \<longleftrightarrow>
     unchanged s_SkipDump same_schema (buildMap s_Name (d_Schemas a)) (buildMap s_Name (d_Schemas b))
     \<and> unchanged never (\<lambda>x y. ex_Version x = ex_Version y \<and> ex_Schema x = ex_Schema y)
         (buildMap ex_Name (d_Extensions a)) (buildMap ex_Name (d_Extensions b))
     \<and> unchanged never (\<lambda>x y. et_Definition x = et_Definition y)
         (buildMap et_Name (d_EventTriggers a)) (buildMap et_Name (d_EventTriggers b))"

lemmas build_defs = buildColumnMap_def buildIndexMap_def buildFKMap_def buildCheckMap_def
  buildTriggerMap_def buildPartitionMap_def buildTableMap_def buildViewMap_def buildMVMap_def
  buildFunctionMap_def buildProcedureMap_def buildSequenceMap_def buildEnumTypeMap_def
  buildEventMap_def buildExtensionMap_def buildEventTriggerMap_def

lemma column_comment_changed:
  assumes "unchanged never columnsEqual olds news"
  shows "rangeSorted (columnComment schemaName tableName news) olds = []"
proof -
  have "c_Comment a = c_Comment b" if "gm_get olds k = Some a" "gm_get news k = Some b" for k a b
    using assms that unfolding unchanged_def by (auto simp: visible_def columnsEqual_def dest: spec [of _ k])
  then show ?thesis unfolding range_empty columnComment_def by (auto split: option.splits)
qed

lemma compareTableDetails_None:
  "compareTableDetails schemaName tableName a b = None \<longleftrightarrow> same_table a b"
  by (auto simp: compareTableDetails_def Let_def same_table_def compareColumns_def compareIndexes_def
      compareForeignKeys_def compareCheckConstraints_def compareTriggers_def comparePartitions_def
      build_defs diffMaps_empty)

text \<open>Every step of the comparison only adds changes; when it adds none is a condition of its own.\<close>

lemma fold_no_changes:
  assumes "\<And>x d. no_changes (step x d) \<longleftrightarrow> no_changes d \<and> P x"
  shows "no_changes (fold step xs d) \<longleftrightarrow> no_changes d \<and> (\<forall>x\<in>set xs. P x)"
  using assms by (induction xs arbitrary: d) auto

lemma no_changes_add_table [simp]: "\<not> no_changes (add_table td d)"
  by (simp add: no_changes_def add_table_def)

lemma no_changes_dropTable:
  "no_changes (dropTable s olds news k d) \<longleftrightarrow>
   no_changes d \<and> (\<forall>old. visible t_SkipDump olds k = Some old \<longrightarrow> gm_get news k \<noteq> None)"
  by (cases "gm_get olds k") (auto simp: dropTable_def visible_def)

lemma no_changes_columnComments:
  "no_changes (compareColumnComments s t a b d) \<longleftrightarrow>
   no_changes d \<and> rangeSorted (columnComment s t (buildMap c_Name (t_Columns b))) (buildMap c_Name (t_Columns a)) = []"
  by (auto simp: compareColumnComments_def Let_def no_changes_def build_defs)

lemma no_changes_compareTable:
  "no_changes (compareTable s olds news k d) \<longleftrightarrow>
   no_changes d \<and> (\<forall>new. visible t_SkipDump news k = Some new \<longrightarrow>
     (\<exists>old. visible t_SkipDump olds k = Some old \<and> same_table old new))"
proof (cases "visible t_SkipDump news k")
  case None
  then have "compareTable s olds news k d = d"
    by (auto simp: compareTable_def visible_def split: option.splits if_splits)
  then show ?thesis using None by simp
next
  case (Some new)
  show ?thesis
  proof (cases "visible t_SkipDump olds k")
    case None
    then have "\<not> no_changes (compareTable s olds news k d)"
      using Some by (auto simp: compareTable_def visible_def split: option.splits if_splits)
    then show ?thesis using None Some by simp
  next
    case (Some old)
    have "no_changes (compareTable s olds news k d) \<longleftrightarrow> no_changes d \<and> same_table old new"
      using Some \<open>visible t_SkipDump news k = Some new\<close> compareTableDetails_None [of s k old new]
        column_comment_changed [of "buildMap c_Name (t_Columns old)" "buildMap c_Name (t_Columns new)" s k]
      by (cases "compareTableDetails s k old new")
        (auto simp: compareTable_def visible_Some Let_def no_changes_columnComments same_table_def
          no_changes_def [of "d\<lparr>CommentChanges := _\<rparr>"])
    then show ?thesis using Some \<open>visible t_SkipDump news k = Some new\<close> by simp
  qed
qed

lemma no_changes_compareTables:
  "no_changes (compareTables s a b d) \<longleftrightarrow>
   no_changes d \<and> unchanged t_SkipDump same_table (buildMap t_Name (s_Tables a)) (buildMap t_Name (s_Tables b))"
  unfolding compareTables_def Let_def unchanged_split build_defs
    fold_no_changes [OF no_changes_compareTable] fold_no_changes [OF no_changes_dropTable]
  by (auto simp: sortedKeys_get visible_Some)

lemma no_changes_compareSchemaObjects:
  "no_changes (compareSchemaObjects s a b d) \<longleftrightarrow> no_changes d \<and> same_schema a b"
proof -
  let ?d = "compareTables s a b d"
  have "no_changes (compareSchemaObjects s a b d) \<longleftrightarrow> no_changes ?d \<and>
     unchanged v_SkipDump (\<lambda>x y. v_Definition x = v_Definition y \<and> v_Comment x = v_Comment y)
         (buildMap v_Name (s_Views a)) (buildMap v_Name (s_Views b))
     \<and> unchanged mv_SkipDump (\<lambda>x y. mv_Definition x = mv_Definition y \<and> mv_Comment x = mv_Comment y)
         (buildMap mv_Name (s_MaterializedViews a)) (buildMap mv_Name (s_MaterializedViews b))
     \<and> unchanged f_SkipDump (\<lambda>x y. f_Definition x = f_Definition y)
         (buildMap f_Name (s_Functions a)) (buildMap f_Name (s_Functions b))
     \<and> unchanged p_SkipDump (\<lambda>x y. p_Definition x = p_Definition y)
         (buildMap p_Name (s_Procedures a)) (buildMap p_Name (s_Procedures b))
     \<and> unchanged sq_SkipDump sequencesEqual
         (buildMap sq_Name (s_Sequences a)) (buildMap sq_Name (s_Sequences b))
     \<and> unchanged en_SkipDump (\<lambda>x y. en_Values x = en_Values y)
         (buildMap en_Name (s_EnumTypes a)) (buildMap en_Name (s_EnumTypes b))
     \<and> unchanged never (\<lambda>x y. ev_Definition x = ev_Definition y)
         (buildMap ev_Name (s_Events a)) (buildMap ev_Name (s_Events b))"
    unfolding compareSchemaObjects_def Let_def compareViews_def compareMaterializedViews_def
      compareFunctions_def compareProcedures_def compareSequences_def compareEnumTypes_def
      compareEvents_def build_defs no_changes_def
    by (simp add: diffMaps_empty) blast
  then show ?thesis unfolding no_changes_compareTables same_schema_def by blast
qed

lemma no_changes_dropSchema:
  "no_changes (dropSchema olds news k d) \<longleftrightarrow>
   no_changes d \<and> (\<forall>old. visible s_SkipDump olds k = Some old \<longrightarrow> gm_get news k \<noteq> None)"
  by (cases "gm_get olds k") (auto simp: dropSchema_def visible_def add_schema_def no_changes_def)

lemma no_changes_compareSchema:
  "no_changes (compareSchema olds news k d) \<longleftrightarrow>
   no_changes d \<and> (\<forall>new. visible s_SkipDump news k = Some new \<longrightarrow>
     (\<exists>old. visible s_SkipDump olds k = Some old \<and> same_schema old new))"
proof (cases "visible s_SkipDump news k")
  case None
  then have "compareSchema olds news k d = d"
    by (auto simp: compareSchema_def visible_def split: option.splits if_splits)
  then show ?thesis using None by simp
next
  case new: (Some new)
  show ?thesis
  proof (cases "visible s_SkipDump olds k")
    case None
    then have "\<not> no_changes (compareSchema olds news k d)"
      using new by (auto simp: compareSchema_def visible_def no_changes_def addNewSchemaObjects_def
          add_schema_def Let_def split: option.splits if_splits)
    then show ?thesis using None new by simp
  next
    case (Some old)
    then show ?thesis using new
      by (auto simp: compareSchema_def visible_Some Let_def no_changes_compareSchemaObjects)
  qed
qed

lemma no_changes_sortDiffLists: "lawful_sorter srt \<Longrightarrow> no_changes (sortDiffLists srt d) \<longleftrightarrow> no_changes d"
  by (simp add: no_changes_def sortDiffLists_def SortFunc_empty)

lemma no_changes_GetDatabaseSchemaDiff:
  assumes "lawful_sorter srt"
  shows "(\<exists>d. GetDatabaseSchemaDiff srt (Some old) (Some new) = Some d \<and> no_changes d) \<longleftrightarrow> same_database old new"
proof -
  let ?olds = "buildMap s_Name (d_Schemas old)" and ?news = "buildMap s_Name (d_Schemas new)"
  let ?d = "fold (compareSchema ?olds ?news) (sortedKeys ?news)
    (fold (dropSchema ?olds ?news) (sortedKeys ?olds) (empty_diff (d_Name new)))"
  have "no_changes ?d \<longleftrightarrow> unchanged s_SkipDump same_schema ?olds ?news"
    unfolding unchanged_split fold_no_changes [OF no_changes_compareSchema]
      fold_no_changes [OF no_changes_dropSchema]
    by (auto simp: sortedKeys_get visible_Some empty_diff_def no_changes_def [of "empty_diff _"])
       (auto simp: no_changes_def)
  moreover have "no_changes (compareEventTriggers old new (compareExtensions old new ?d)) \<longleftrightarrow> no_changes ?d
     \<and> unchanged never (\<lambda>x y. ex_Version x = ex_Version y \<and> ex_Schema x = ex_Schema y)
         (buildMap ex_Name (d_Extensions old)) (buildMap ex_Name (d_Extensions new))
     \<and> unchanged never (\<lambda>x y. et_Definition x = et_Definition y)
         (buildMap et_Name (d_EventTriggers old)) (buildMap et_Name (d_EventTriggers new))"
    by (auto simp: no_changes_def compareEventTriggers_def compareExtensions_def build_defs diffMaps_empty)
  ultimately show ?thesis
    by (simp add: GetDatabaseSchemaDiff_def Let_def no_changes_sortDiffLists [OF assms] same_database_def)
qed

text \<open>
  C15. The comparison reports nothing exactly when the two databases agree, object by object, in
  everything it compares: no object that is dumped appeared, disappeared or changed, at any level.
\<close>

theorem schema_diff_empty_iff:
  assumes "lawful_sorter srt"
  shows "(\<exists>d. GetDatabaseSchemaDiff srt (Some old) (Some new) = Some d \<and> no_changes d)
    \<longleftrightarrow> same_database old new"
  by (rule no_changes_GetDatabaseSchemaDiff [OF assms])

end
