(* ===== verification/Schema_Diff_Patch.thy ===== *)
theory Schema_Diff_Patch
  imports Schema_Diff_Laws
begin

text \<open>
  What the changes of a comparison do: which tables they report, what they make of the old
  objects when they are applied, and which attributes they miss.
\<close>

subsection \<open>Applying changes\<close>

definition apply_change :: "('a, 'b) object_diff_scheme \<Rightarrow> (string, 'a) gomap \<Rightarrow> (string, 'a) gomap" where
  "apply_change d m = (case NewObj d of None \<Rightarrow> gm_del (ObjName d) m | Some x \<Rightarrow> gm_put (ObjName d) x m)"

definition patch :: "('a, 'b) object_diff_scheme list \<Rightarrow> (string, 'a) gomap \<Rightarrow> (string, 'a) gomap" where
  "patch ds m = fold apply_change ds m"

text \<open>A map holds what the new one shows, up to the comparison, and nothing that was dropped.\<close>

definition reaches :: "('a \<Rightarrow> bool) \<Rightarrow> ('a \<Rightarrow> 'a \<Rightarrow> bool) \<Rightarrow> (string, 'a) gomap \<Rightarrow> (string, 'a) gomap \<Rightarrow> bool" where
  "reaches skip same m news \<longleftrightarrow>
     (\<forall>k. (\<forall>new. visible skip news k = Some new \<longrightarrow> (\<exists>x. gm_get m k = Some x \<and> (x = new \<or> same x new)))
        \<and> (gm_get news k = None \<longrightarrow> visible skip m k = None))"

lemma patch_other: "k \<notin> ObjName ` set ds \<Longrightarrow> gm_get (patch ds m) k = gm_get m k"
  unfolding patch_def
  by (induction ds arbitrary: m) (auto simp: apply_change_def go_map split: option.splits)

lemma patch_change:
  "distinct (map ObjName ds) \<Longrightarrow> d \<in> set ds \<Longrightarrow> gm_get (patch ds m) (ObjName d) = NewObj d"
proof (induction ds arbitrary: m)
  case (Cons e ds)
  have step: "patch (e # ds) m = patch ds (apply_change e m)" by (simp add: patch_def)
  show ?case
  proof (cases "d = e")
    case True
    then have "ObjName d \<notin> ObjName ` set ds" using Cons.prems by simp
    then show ?thesis using True by (auto simp: step patch_other apply_change_def go_map split: option.splits)
  next
    case False
    then show ?thesis using Cons by (simp add: step)
  qed
qed simp

lemma distinct_range:
  assumes "gm_ok m" "\<And>k x. map ObjName (body k x) = [] \<or> map ObjName (body k x) = [k]"
  shows "distinct (map ObjName (rangeSorted body m))"
proof -
  have "distinct ks \<Longrightarrow> distinct (map ObjName (concat (map g ks))) \<and> ObjName ` set (concat (map g ks)) \<subseteq> set ks"
    if g: "\<And>k. map ObjName (g k) = [] \<or> map ObjName (g k) = [k]" for g :: "string \<Rightarrow> ('b, 'c) object_diff_scheme list" and ks
  proof (induction ks)
    case (Cons k ks)
    let ?rest = "concat (map g ks)"
    have IH: "distinct (map ObjName ?rest)" "ObjName ` set ?rest \<subseteq> set ks" "k \<notin> set ks" using Cons by auto
    consider "g k = []" | d where "g k = [d]" "ObjName d = k" using g [of k] by auto
    then show ?case
    proof cases
      case 1
      then show ?thesis using IH by (simp only: list.map concat.simps append_Nil) auto
    next
      case 2
      then have "ObjName d \<notin> ObjName ` set ?rest" using IH by blast
      then show ?thesis using 2 IH
        by (simp only: list.map concat.simps append_Cons append_Nil distinct.simps set_map list.set) auto
    qed
  qed simp
  then show ?thesis
    unfolding rangeSorted_def using assms distinct_sortedKeys [OF assms(1)]
    by (metis (no_types, lifting) list.map_disc_iff option.case_eq_if)
qed

lemma distinct_diffMaps:
  assumes "gm_ok olds" "gm_ok news"
  shows "distinct (map ObjName (diffMaps skip same olds news))"
proof -
  have d: "map ObjName (droppedOne skip news k x) = [] \<or> map ObjName (droppedOne skip news k x) = [k]" for k x
    by (simp add: droppedOne_def)
  have c: "map ObjName (changedOne skip same olds k x) = [] \<or> map ObjName (changedOne skip same olds k x) = [k]" for k x
    by (cases "gm_get olds k") (simp_all add: changedOne_def)
  have "gm_get news (ObjName d) = None" if "d \<in> set (rangeSorted (droppedOne skip news) olds)" for d
    using that unfolding range_in droppedOne_def by (auto split: if_splits)
  moreover have "gm_get news (ObjName d) \<noteq> None" if d: "d \<in> set (rangeSorted (changedOne skip same olds) news)" for d
  proof -
    obtain k x where "gm_get news k = Some x" "d \<in> set (changedOne skip same olds k x)"
      using d unfolding range_in by blast
    then show ?thesis using c [of k x] by (cases "changedOne skip same olds k x") auto
  qed
  ultimately show ?thesis
    unfolding diffMaps_def map_append distinct_append
    using distinct_range [OF assms(1) d] distinct_range [OF assms(2) c] by fastforce
qed

lemma patch_reaches:
  assumes ok: "gm_ok olds" "gm_ok news" and ds: "mset ds = mset (diffMaps skip same olds news)"
  shows "reaches skip same (patch ds olds) news"
proof -
  have dist: "distinct (map ObjName ds)"
    using distinct_diffMaps [OF ok, of skip same] ds by (metis mset_map mset_eq_imp_distinct_iff)
  have set: "set ds = set (diffMaps skip same olds news)" using ds by (metis set_mset_mset)
  have "\<exists>x. gm_get (patch ds olds) k = Some x \<and> (x = new \<or> same x new)" if v: "visible skip news k = Some new" for k new
  proof (cases "changedOne skip same olds k new")
    case Nil
    then obtain old where old: "visible skip olds k = Some old" "same old new"
      using v unfolding changedOne_visible by (auto simp: visible_Some split: option.splits if_splits)
    have "k \<notin> ObjName ` set ds"
    proof
      assume "k \<in> ObjName ` set ds"
      then obtain d where d: "d \<in> set (diffMaps skip same olds news)" "ObjName d = k" using set by auto
      then show False using Nil v
        unfolding diffMaps_def set_append Un_iff range_in visible_Some
        by (auto simp: droppedOne_def changedOne_def split: if_splits option.splits)
    qed
    then show ?thesis using old by (auto simp: patch_other visible_Some)
  next
    case (Cons d rest)
    then have d: "ObjName d = k" "NewObj d = Some new"
      by (auto simp: changedOne_def split: if_splits option.splits)
    have "gm_get news k = Some new" "d \<in> set (changedOne skip same olds k new)"
      using v Cons by (simp_all add: visible_Some)
    then have "d \<in> set ds"
      unfolding set diffMaps_def set_append Un_iff range_in by blast
    then show ?thesis using patch_change [OF dist, of d olds] d by auto
  qed
  moreover have "visible skip (patch ds olds) k = None" if n: "gm_get news k = None" for k
  proof (cases "visible skip olds k")
    case None
    have "k \<notin> ObjName ` set ds"
    proof
      assume "k \<in> ObjName ` set ds"
      then obtain d where d: "d \<in> set (diffMaps skip same olds news)" "ObjName d = k" using set by auto
      then show False using None n
        unfolding diffMaps_def set_append Un_iff range_in
        by (auto simp: droppedOne_def changedOne_def visible_def split: if_splits option.splits)
    qed
    then show ?thesis using None by (simp add: visible_def patch_other)
  next
    case (Some old)
    let ?d = "\<lparr>Action = DiffDrop, ObjName = k, OldObj = Some old, NewObj = None\<rparr>"
    have "?d \<in> set ds"
      unfolding set diffMaps_def set_append Un_iff range_in using n Some
      by (auto simp: visible_Some droppedOne_def)
    then show ?thesis using patch_change [OF dist, of ?d olds] by (simp add: visible_def)
  qed
  ultimately show ?thesis unfolding reaches_def by blast
qed

subsection \<open>The table changes\<close>

lemma fold_appends:
  assumes "\<And>x d. get (f x d) = get d @ X x"
  shows "get (fold f xs d) = get d @ concat (map X xs)"
  using assms by (induction xs arbitrary: d) auto

definition drop_tables where
  "drop_tables s olds news k = TableChanges (dropTable s olds news k (empty_diff []))"

definition compare_tables where
  "compare_tables s olds news k = TableChanges (compareTable s olds news k (empty_diff []))"

lemma TableChanges_dropTable: "TableChanges (dropTable s olds news k d) = TableChanges d @ drop_tables s olds news k"
  by (cases "gm_get olds k") (auto simp: drop_tables_def dropTable_def add_table_def empty_diff_def)

lemma TableChanges_columnComments [simp]:
  "TableChanges (compareColumnComments s t a b d) = TableChanges d"
  by (simp add: compareColumnComments_def Let_def)

lemma TableChanges_compareTable:
  "TableChanges (compareTable s olds news k d) = TableChanges d @ compare_tables s olds news k"
proof (cases "gm_get news k")
  case (Some new)
  then show ?thesis
  proof (cases "gm_get olds k")
    case None
    then show ?thesis using Some
      by (auto simp: compare_tables_def compareTable_def add_table_def empty_diff_def Let_def)
  next
    case (Some old)
    then show ?thesis using \<open>gm_get news k = Some new\<close>
      by (cases "compareTableDetails s k old new")
        (auto simp: compare_tables_def compareTable_def add_table_def empty_diff_def Let_def)
  qed
qed (auto simp: compare_tables_def compareTable_def empty_diff_def)

lemma in_drop_tables:
  "td \<in> set (drop_tables s olds news k) \<longleftrightarrow>
   (\<exists>old. visible t_SkipDump olds k = Some old \<and> gm_get news k = None
     \<and> td = tableDiffOf DiffDrop s k (Some old) None)"
  by (cases "gm_get olds k") (auto simp: drop_tables_def dropTable_def add_table_def empty_diff_def visible_def)

lemma in_compare_tables:
  "td \<in> set (compare_tables s olds news k) \<longleftrightarrow>
   (\<exists>new. visible t_SkipDump news k = Some new \<and>
     (case visible t_SkipDump olds k of
        None \<Rightarrow> td = tableDiffOf DiffCreate s k None (Some new)
      | Some old \<Rightarrow> compareTableDetails s k old new = Some td))"
proof (cases "visible t_SkipDump news k")
  case None
  then have "compare_tables s olds news k = []"
    by (auto simp: compare_tables_def compareTable_def visible_def empty_diff_def split: option.splits if_splits)
  then show ?thesis using None by simp
next
  case new: (Some new)
  show ?thesis
  proof (cases "visible t_SkipDump olds k")
    case None
    then have "compare_tables s olds news k = [tableDiffOf DiffCreate s k None (Some new)]"
      using new by (auto simp: compare_tables_def compareTable_def add_table_def visible_def empty_diff_def
          split: option.splits if_splits)
    then show ?thesis using None new by simp
  next
    case (Some old)
    then have "compare_tables s olds news k
        = (case compareTableDetails s k old new of None \<Rightarrow> [] | Some td \<Rightarrow> [td])"
      using new by (auto simp: compare_tables_def compareTable_def add_table_def visible_Some empty_diff_def Let_def
          split: option.splits)
    then show ?thesis using Some new by (auto split: option.splits)
  qed
qed

text \<open>What the comparison of two schemas, and of two databases, adds to the table changes.\<close>

definition schema_tables :: "string \<Rightarrow> SchemaMetadata \<Rightarrow> SchemaMetadata \<Rightarrow> TableDiff list" where
  "schema_tables s a b =
     (let olds = buildMap t_Name (s_Tables a); news = buildMap t_Name (s_Tables b)
      in concat (map (drop_tables s olds news) (sortedKeys olds))
         @ concat (map (compare_tables s olds news) (sortedKeys news)))"

lemma TableChanges_compareSchemaObjects:
  "TableChanges (compareSchemaObjects s a b d) = TableChanges d @ schema_tables s a b"
proof -
  have "TableChanges (compareSchemaObjects s a b d) = TableChanges (compareTables s a b d)"
    by (simp add: compareSchemaObjects_def Let_def compareViews_def compareMaterializedViews_def
      compareFunctions_def compareProcedures_def compareSequences_def compareEnumTypes_def compareEvents_def)
  then show ?thesis
    by (simp add: compareTables_def schema_tables_def Let_def build_defs
        fold_appends [where get = TableChanges, OF TableChanges_compareTable]
        fold_appends [where get = TableChanges, OF TableChanges_dropTable])
qed

text \<open>Table \<open>k\<close> is dropped, created or altered between two schemas.\<close>

definition table_change ::
    "string \<Rightarrow> SchemaMetadata \<Rightarrow> SchemaMetadata \<Rightarrow> string \<Rightarrow> TableDiff option" where
  "table_change s a b k =
     (let olds = buildMap t_Name (s_Tables a); news = buildMap t_Name (s_Tables b) in
      case (visible t_SkipDump olds k, visible t_SkipDump news k) of
        (None, None) \<Rightarrow> None
      | (Some old, None) \<Rightarrow> if gm_get news k = None then Some (tableDiffOf DiffDrop s k (Some old) None) else None
      | (None, Some new) \<Rightarrow> Some (tableDiffOf DiffCreate s k None (Some new))
      | (Some old, Some new) \<Rightarrow> compareTableDetails s k old new)"

lemma table_change_iff:
  "table_change s a b k = Some td \<longleftrightarrow>
     td \<in> set (drop_tables s (buildMap t_Name (s_Tables a)) (buildMap t_Name (s_Tables b)) k)
     \<or> td \<in> set (compare_tables s (buildMap t_Name (s_Tables a)) (buildMap t_Name (s_Tables b)) k)"
  unfolding table_change_def Let_def in_drop_tables in_compare_tables
  using visible_get [of "buildMap t_Name (s_Tables b)" k t_SkipDump]
  by (cases "visible t_SkipDump (buildMap t_Name (s_Tables a)) k";
      cases "visible t_SkipDump (buildMap t_Name (s_Tables b)) k") auto

lemma in_schema_tables: "td \<in> set (schema_tables s a b) \<longleftrightarrow> (\<exists>k. table_change s a b k = Some td)"
proof -
  let ?olds = "buildMap t_Name (s_Tables a)" and ?news = "buildMap t_Name (s_Tables b)"
  have "k \<in> set (sortedKeys ?olds)" if "td \<in> set (drop_tables s ?olds ?news k)" for k
    using that unfolding in_drop_tables by (auto simp: sortedKeys_get visible_Some)
  moreover have "k \<in> set (sortedKeys ?news)" if "td \<in> set (compare_tables s ?olds ?news k)" for k
    using that unfolding in_compare_tables by (auto simp: sortedKeys_get visible_Some)
  ultimately show ?thesis unfolding table_change_iff schema_tables_def Let_def by auto
qed

lemma compareTableDetails_key:
  "compareTableDetails s k a b = Some td \<Longrightarrow>
   td_SchemaName td = s \<and> td_TableName td = k \<and> td_Action td = DiffAlter
     \<and> td_OldTable td = Some a \<and> td_NewTable td = Some b"
  by (auto simp: compareTableDetails_def Let_def split: if_splits)

lemma table_change_key: "table_change s a b k = Some td \<Longrightarrow> td_SchemaName td = s \<and> td_TableName td = k"
  by (auto simp: table_change_def Let_def tableDiffOf_def split: option.splits if_splits dest: compareTableDetails_key)

definition database_tables :: "(string, SchemaMetadata) gomap \<Rightarrow> (string, SchemaMetadata) gomap \<Rightarrow> string \<Rightarrow> TableDiff list" where
  "database_tables olds news s = TableChanges (compareSchema olds news s (empty_diff []))"

lemma TableChanges_compareSchema:
  "TableChanges (compareSchema olds news s d) = TableChanges d @ database_tables olds news s"
proof (cases "gm_get news s")
  case (Some new)
  then show ?thesis
    by (cases "gm_get olds s")
      (auto simp: database_tables_def compareSchema_def Let_def addNewSchemaObjects_def add_schema_def
        empty_diff_def TableChanges_compareSchemaObjects)
qed (auto simp: database_tables_def compareSchema_def empty_diff_def)

lemma database_tables_schema: "td \<in> set (database_tables olds news s) \<Longrightarrow> td_SchemaName td = s"
proof (cases "gm_get news s")
  case (Some new)
  then show "td \<in> set (database_tables olds news s) \<Longrightarrow> td_SchemaName td = s"
    by (cases "gm_get olds s")
      (auto simp: database_tables_def compareSchema_def Let_def addNewSchemaObjects_def add_schema_def
        empty_diff_def TableChanges_compareSchemaObjects in_schema_tables tableDiffOf_def
        dest!: table_change_key split: if_splits)
qed (auto simp: database_tables_def compareSchema_def empty_diff_def)

lemma TableChanges_dropSchema [simp]: "TableChanges (dropSchema olds news s d) = TableChanges d"
  by (cases "gm_get olds s") (auto simp: dropSchema_def add_schema_def)

lemma in_TableChanges:
  assumes "lawful_sorter srt" "GetDatabaseSchemaDiff srt (Some old) (Some new) = Some d"
    and "visible s_SkipDump (buildMap s_Name (d_Schemas old)) s = Some a"
    and "visible s_SkipDump (buildMap s_Name (d_Schemas new)) s = Some b"
  shows "td \<in> set (TableChanges d) \<and> td_SchemaName td = s \<longleftrightarrow>
    (\<exists>k td0. table_change s a b k = Some td0 \<and> td = sortTableSubObjectChanges srt td0)"
proof -
  let ?olds = "buildMap s_Name (d_Schemas old)" and ?news = "buildMap s_Name (d_Schemas new)"
  let ?d0 = "fold (dropSchema ?olds ?news) (sortedKeys ?olds) (empty_diff (d_Name new))"
  have "TableChanges ?d0 = TableChanges (empty_diff (d_Name new)) @ concat (map (\<lambda>_. []) (sortedKeys ?olds))"
    by (rule fold_appends [where get = TableChanges]) simp
  then have "TableChanges ?d0 = []" by (simp add: empty_diff_def)
  then have "TableChanges (fold (compareSchema ?olds ?news) (sortedKeys ?news) ?d0)
      = concat (map (database_tables ?olds ?news) (sortedKeys ?news))"
    by (simp add: fold_appends [where get = TableChanges, OF TableChanges_compareSchema])
  then obtain d1 where d1: "d = sortDiffLists srt d1"
      "TableChanges d1 = concat (map (database_tables ?olds ?news) (sortedKeys ?news))"
    using assms(2) by (auto simp: GetDatabaseSchemaDiff_def Let_def compareExtensions_def compareEventTriggers_def)
  have all: "set (TableChanges d) =
      sortTableSubObjectChanges srt ` (\<Union>s\<in>set (sortedKeys ?news). set (database_tables ?olds ?news s))"
    unfolding d1(1) by (simp add: sortDiffLists_def set_SortFunc [OF assms(1)] d1(2))
  have g: "gm_get ?olds s = Some a" "\<not> s_SkipDump a" "gm_get ?news s = Some b" "\<not> s_SkipDump b"
    using assms(3,4) unfolding visible_Some by auto
  have "compareSchema ?olds ?news s (empty_diff []) = compareSchemaObjects s a b (empty_diff [])"
    by (simp add: compareSchema_def g Let_def)
  then have tables: "database_tables ?olds ?news s = schema_tables s a b"
    by (simp add: database_tables_def TableChanges_compareSchemaObjects) (simp add: empty_diff_def)
  have s: "s \<in> set (sortedKeys ?news)" using g by (simp add: sortedKeys_get)
  have name: "td_SchemaName (sortTableSubObjectChanges srt td0) = td_SchemaName td0" for td0
    by (simp add: sortTableSubObjectChanges_def)
  show ?thesis
  proof
    assume td: "td \<in> set (TableChanges d) \<and> td_SchemaName td = s"
    then obtain s' td0 where td0: "td0 \<in> set (database_tables ?olds ?news s')" "td = sortTableSubObjectChanges srt td0"
      unfolding all by blast
    then have "s' = s" using database_tables_schema [OF td0(1)] name td by metis
    then show "\<exists>k td0. table_change s a b k = Some td0 \<and> td = sortTableSubObjectChanges srt td0"
      using td0 tables in_schema_tables [of td0 s a b] by auto
  next
    assume "\<exists>k td0. table_change s a b k = Some td0 \<and> td = sortTableSubObjectChanges srt td0"
    then obtain k td0 where td0: "table_change s a b k = Some td0" "td = sortTableSubObjectChanges srt td0" by blast
    then have "td0 \<in> set (database_tables ?olds ?news s)"
      unfolding tables using in_schema_tables [of td0 s a b] by blast
    then show "td \<in> set (TableChanges d) \<and> td_SchemaName td = s"
      unfolding all using td0 s name table_change_key [OF td0(1)] by auto
  qed
qed

text \<open>
  Which tables the comparison reports: between two versions of a schema, a table is reported
  as dropped, created or altered exactly when it is, and never in two ways.
\<close>

theorem table_changes_exact:
  assumes "lawful_sorter srt" "GetDatabaseSchemaDiff srt (Some old) (Some new) = Some d"
    and "visible s_SkipDump (buildMap s_Name (d_Schemas old)) s = Some a"
    and "visible s_SkipDump (buildMap s_Name (d_Schemas new)) s = Some b"
  shows "td_Action ` {td \<in> set (TableChanges d). td_SchemaName td = s \<and> td_TableName td = k} =
    (let olds = buildMap t_Name (s_Tables a); news = buildMap t_Name (s_Tables b) in
     case (visible t_SkipDump olds k, visible t_SkipDump news k) of
       (None, None) \<Rightarrow> {}
     | (Some t, None) \<Rightarrow> if gm_get news k = None then {DiffDrop} else {}
     | (None, Some t') \<Rightarrow> {DiffCreate}
     | (Some t, Some t') \<Rightarrow> if same_table t t' then {} else {DiffAlter})"
proof -
  let ?change = "table_change s a b k"
  have "td \<in> {td \<in> set (TableChanges d). td_SchemaName td = s \<and> td_TableName td = k}
      \<longleftrightarrow> (\<exists>td0. ?change = Some td0 \<and> td = sortTableSubObjectChanges srt td0)" for td
  proof -
    have "td_TableName (sortTableSubObjectChanges srt td0) = td_TableName td0" for td0
      by (simp add: sortTableSubObjectChanges_def)
    then have "td_TableName td = k' " if "table_change s a b k' = Some td0" "td = sortTableSubObjectChanges srt td0" for k' td0
      using table_change_key [OF that(1)] that(2) by simp
    then show ?thesis using in_TableChanges [OF assms, of td] by blast
  qed
  then have "{td \<in> set (TableChanges d). td_SchemaName td = s \<and> td_TableName td = k}
      = sortTableSubObjectChanges srt ` set_option ?change"
    by (auto simp: image_iff)
  then have "td_Action ` {td \<in> set (TableChanges d). td_SchemaName td = s \<and> td_TableName td = k}
      = td_Action ` set_option ?change"
    by (simp add: image_image sortTableSubObjectChanges_def)
  also have "td_Action ` set_option ?change = (let olds = buildMap t_Name (s_Tables a); news = buildMap t_Name (s_Tables b) in
     case (visible t_SkipDump olds k, visible t_SkipDump news k) of
       (None, None) \<Rightarrow> {}
     | (Some t, None) \<Rightarrow> if gm_get news k = None then {DiffDrop} else {}
     | (None, Some t') \<Rightarrow> {DiffCreate}
     | (Some t, Some t') \<Rightarrow> if same_table t t' then {} else {DiffAlter})"
  proof -
    have alter: "td_Action ` set_option (compareTableDetails s k t t') = (if same_table t t' then {} else {DiffAlter})"
      for t t'
      using compareTableDetails_None [of s k t t']
      by (cases "compareTableDetails s k t t'") (auto dest: compareTableDetails_key)
    show ?thesis
      unfolding table_change_def Let_def
      by (cases "visible t_SkipDump (buildMap t_Name (s_Tables a)) k";
          cases "visible t_SkipDump (buildMap t_Name (s_Tables b)) k") (auto simp: alter tableDiffOf_def dest: weak_map_of_SomeI)
  qed
  finally show ?thesis .
qed

text \<open>Two maps agree on what \<open>f\<close> keeps of an object: they hold the same names, and the same under each.\<close>

definition agree_on :: "('a \<Rightarrow> 'b) \<Rightarrow> (string, 'a) gomap \<Rightarrow> (string, 'a) gomap \<Rightarrow> bool" where
  "agree_on f m m' \<longleftrightarrow> (\<forall>k. map_option f (gm_get m k) = map_option f (gm_get m' k))"

lemma reaches_agree:
  assumes "reaches never same m news" and "\<And>x y. same x y \<Longrightarrow> f x = f y"
  shows "agree_on f m news"
  unfolding agree_on_def
proof
  fix k
  show "map_option f (gm_get m k) = map_option f (gm_get news k)"
  proof (cases "gm_get news k")
    case None
    then have "visible never m k = None" using assms(1) by (simp add: reaches_def)
    then show ?thesis using None by (auto simp: visible_def split: option.splits)
  next
    case (Some new)
    then have "visible never news k = Some new" by (simp add: visible_Some)
    then obtain x where "gm_get m k = Some x" "x = new \<or> same x new"
      using assms(1) by (auto simp: reaches_def)
    then show ?thesis using Some assms(2) by auto
  qed
qed

text \<open>
  What the comparison does not look at: the expression of a generated column, the direction of an index's
  columns, and the schema and the match type of a foreign key's reference.
\<close>

definition erase_column :: "ColumnMetadata \<Rightarrow> ColumnMetadata" where
  "erase_column c = c\<lparr>c_Generation := None\<rparr>"

definition erase_index :: "IndexMetadata \<Rightarrow> IndexMetadata" where
  "erase_index ix = ix\<lparr>ix_Descending := []\<rparr>"

definition erase_key :: "ForeignKeyMetadata \<Rightarrow> ForeignKeyMetadata" where
  "erase_key fk = fk\<lparr>fk_ReferencedSchema := [], fk_MatchType := []\<rparr>"

lemma columns_erase: "columnsEqual x y \<longleftrightarrow> erase_column x = erase_column y"
  by (cases x; cases y) (auto simp: columnsEqual_def erase_column_def)

lemma indexes_erase: "indexesEqual x y \<longleftrightarrow> erase_index x = erase_index y"
  by (cases x; cases y) (auto simp: indexesEqual_def erase_index_def)

lemma keys_erase: "foreignKeysEqual x y \<longleftrightarrow> erase_key x = erase_key y"
  by (cases x; cases y) (auto simp: foreignKeysEqual_def erase_key_def)

lemma triggers_erase: "triggersEqual x y \<longleftrightarrow> x = y"
  by (cases x; cases y) (auto simp: triggersEqual_def)

lemmas erase_same = columns_erase indexes_erase keys_erase triggers_erase

lemma compared_reaches:
  assumes "lawful_sorter srt"
  shows "reaches never columnsEqual (patch (SortFunc srt columnDiffName (compareColumns t t')) (buildMap c_Name (t_Columns t)))
      (buildMap c_Name (t_Columns t'))"
    and "reaches never indexesEqual (patch (SortFunc srt ObjName (compareIndexes t t')) (buildMap ix_Name (t_Indexes t)))
      (buildMap ix_Name (t_Indexes t'))"
    and "reaches never foreignKeysEqual (patch (SortFunc srt ObjName (compareForeignKeys t t'))
      (buildMap fk_Name (t_ForeignKeys t))) (buildMap fk_Name (t_ForeignKeys t'))"
    and "reaches never (\<lambda>x y. ck_Expression x = ck_Expression y) (patch (SortFunc srt ObjName (compareCheckConstraints t t'))
      (buildMap ck_Name (t_CheckConstraints t))) (buildMap ck_Name (t_CheckConstraints t'))"
    and "reaches never triggersEqual (patch (SortFunc srt ObjName (compareTriggers t t')) (buildMap tg_Name (t_Triggers t)))
      (buildMap tg_Name (t_Triggers t'))"
    and "reaches never (\<lambda>x y. pt_Type x = pt_Type y \<and> pt_Expression x = pt_Expression y)
      (patch (comparePartitions t t') (buildMap pt_Name (t_Partitions t))) (buildMap pt_Name (t_Partitions t'))"
  by (intro patch_reaches; simp add: mset_SortFunc [OF assms] compareColumns_def compareIndexes_def
      compareForeignKeys_def compareCheckConstraints_def compareTriggers_def comparePartitions_def build_defs)+

text \<open>
  C16. An altered table: its change lists, applied to the old table's columns, indexes, foreign keys, check
  constraints, triggers and partitions, give objects of exactly the new table's names. They are the
  new table's objects in every attribute the comparison reads; what may be left of the old table is the
  expression of a generated column, the direction of an index's columns, and the schema and match type
  of a foreign key's reference.
\<close>

theorem table_diff_patches:
  assumes "lawful_sorter srt" "GetDatabaseSchemaDiff srt (Some old) (Some new) = Some d"
    and "visible s_SkipDump (buildMap s_Name (d_Schemas old)) s = Some a"
    and "visible s_SkipDump (buildMap s_Name (d_Schemas new)) s = Some b"
    and "td \<in> set (TableChanges d)" "td_SchemaName td = s" "td_Action td = DiffAlter"
  shows "\<exists>t t'. td_OldTable td = Some t \<and> td_NewTable td = Some t'
    \<and> agree_on erase_column (patch (ColumnChanges td) (buildMap c_Name (t_Columns t)))
        (buildMap c_Name (t_Columns t'))
    \<and> agree_on erase_index (patch (IndexChanges td) (buildMap ix_Name (t_Indexes t)))
        (buildMap ix_Name (t_Indexes t'))
    \<and> agree_on erase_key (patch (ForeignKeyChanges td) (buildMap fk_Name (t_ForeignKeys t)))
        (buildMap fk_Name (t_ForeignKeys t'))
    \<and> agree_on ck_Expression (patch (CheckConstraintChanges td) (buildMap ck_Name (t_CheckConstraints t)))
        (buildMap ck_Name (t_CheckConstraints t'))
    \<and> agree_on id (patch (TriggerChanges td) (buildMap tg_Name (t_Triggers t)))
        (buildMap tg_Name (t_Triggers t'))
    \<and> agree_on (\<lambda>p. (pt_Type p, pt_Expression p)) (patch (PartitionChanges td) (buildMap pt_Name (t_Partitions t)))
        (buildMap pt_Name (t_Partitions t'))"
proof -
  obtain k td0 where td: "table_change s a b k = Some td0" "td = sortTableSubObjectChanges srt td0"
    using in_TableChanges [OF assms(1-4)] assms(5,6) by metis
  then have "td_Action td0 = DiffAlter" using assms(7) by (simp add: sortTableSubObjectChanges_def)
  then obtain t t' where t: "compareTableDetails s k t t' = Some td0"
    using td(1) by (auto simp: table_change_def Let_def tableDiffOf_def split: option.splits if_splits)
  note key = compareTableDetails_key [OF t]
  have lists: "ColumnChanges td0 = compareColumns t t'" "IndexChanges td0 = compareIndexes t t'"
    "ForeignKeyChanges td0 = compareForeignKeys t t'"
    "CheckConstraintChanges td0 = compareCheckConstraints t t'"
    "TriggerChanges td0 = compareTriggers t t'" "PartitionChanges td0 = comparePartitions t t'"
    using t by (auto simp: compareTableDetails_def Let_def split: if_splits)
  note defs = td(2) sortTableSubObjectChanges_def lists and R = compared_reaches [OF assms(1), of t t']
  have "agree_on erase_column (patch (ColumnChanges td) (buildMap c_Name (t_Columns t))) (buildMap c_Name (t_Columns t'))"
    "agree_on erase_index (patch (IndexChanges td) (buildMap ix_Name (t_Indexes t))) (buildMap ix_Name (t_Indexes t'))"
    "agree_on erase_key (patch (ForeignKeyChanges td) (buildMap fk_Name (t_ForeignKeys t))) (buildMap fk_Name (t_ForeignKeys t'))"
    "agree_on ck_Expression (patch (CheckConstraintChanges td) (buildMap ck_Name (t_CheckConstraints t)))
      (buildMap ck_Name (t_CheckConstraints t'))"
    "agree_on id (patch (TriggerChanges td) (buildMap tg_Name (t_Triggers t))) (buildMap tg_Name (t_Triggers t'))"
    "agree_on (\<lambda>p. (pt_Type p, pt_Expression p)) (patch (PartitionChanges td) (buildMap pt_Name (t_Partitions t)))
      (buildMap pt_Name (t_Partitions t'))"
    using reaches_agree [OF R(1), of erase_column] reaches_agree [OF R(2), of erase_index]
      reaches_agree [OF R(3), of erase_key] reaches_agree [OF R(4), of ck_Expression]
      reaches_agree [OF R(5), of id] reaches_agree [OF R(6), of "\<lambda>p. (pt_Type p, pt_Expression p)"]
    by (simp_all add: defs erase_same)
  moreover have "td_OldTable td = Some t" "td_NewTable td = Some t'" using key by (simp_all add: defs)
  ultimately show ?thesis by blast
qed

subsection \<open>Attributes the comparison does not see\<close>

definition erase_table :: "TableMetadata \<Rightarrow> TableMetadata" where
  "erase_table t =
     t\<lparr>t_Columns := map erase_column (t_Columns t), t_Indexes := map erase_index (t_Indexes t),
       t_ForeignKeys := map erase_key (t_ForeignKeys t)\<rparr>"

definition erase_schema :: "SchemaMetadata \<Rightarrow> SchemaMetadata" where
  "erase_schema s = s\<lparr>s_Tables := map erase_table (s_Tables s)\<rparr>"

definition erase_database :: "DatabaseSchemaMetadata \<Rightarrow> DatabaseSchemaMetadata" where
  "erase_database db = db\<lparr>d_Schemas := map erase_schema (d_Schemas db)\<rparr>"

lemma buildMap_map:
  assumes "\<And>x. name (f x) = name x"
  shows "gm_get (buildMap name (map f xs)) k = map_option f (gm_get (buildMap name xs) k)"
  using assms by (auto simp: buildMap_get Let_def filter_map comp_def last_map)

lemma unchanged_erase:
  assumes "\<And>x. name (f x) = name x" "\<And>x. skip (f x) = skip x" "\<And>x y. f x = f y \<Longrightarrow> same x y"
    and "map f xs = map f ys"
  shows "unchanged skip same (buildMap name xs) (buildMap name ys)"
  unfolding unchanged_def
proof
  fix k
  have eq: "map_option f (gm_get (buildMap name xs) k) = map_option f (gm_get (buildMap name ys) k)"
    using buildMap_map [of name f xs k] buildMap_map [of name f ys k] assms(1,4) by simp
  show "case (visible skip (buildMap name xs) k, visible skip (buildMap name ys) k) of
      (None, None) \<Rightarrow> True | (Some old, None) \<Rightarrow> gm_get (buildMap name ys) k \<noteq> None
    | (None, Some new) \<Rightarrow> False | (Some old, Some new) \<Rightarrow> same old new"
  proof (cases "gm_get (buildMap name xs) k")
    case None
    then show ?thesis using eq by (simp add: visible_def)
  next
    case (Some x)
    then obtain y where y: "gm_get (buildMap name ys) k = Some y" "f x = f y"
      using eq by (cases "gm_get (buildMap name ys) k") simp_all
    then have "skip x = skip y" using assms(2) [of x] assms(2) [of y] by simp
    then show ?thesis using Some y assms(3) [OF y(2)] by (simp add: visible_def)
  qed
qed

lemma same_table_erase:
  assumes "erase_table t = erase_table t'"
  shows "same_table t t'"
proof -
  have lists: "map erase_column (t_Columns t) = map erase_column (t_Columns t')"
    "map erase_index (t_Indexes t) = map erase_index (t_Indexes t')"
    "map erase_key (t_ForeignKeys t) = map erase_key (t_ForeignKeys t')"
    using arg_cong [OF assms, of t_Columns] arg_cong [OF assms, of t_Indexes] arg_cong [OF assms, of t_ForeignKeys] by (simp_all add: erase_table_def)
  have same: "t_Comment t = t_Comment t'" "t_Engine t = t_Engine t'" "t_Charset t = t_Charset t'"
    "t_Collation t = t_Collation t'" "t_Owner t = t_Owner t'" "t_CheckConstraints t = t_CheckConstraints t'"
    "t_Triggers t = t_Triggers t'" "t_Partitions t = t_Partitions t'"
    using arg_cong [OF assms, of t_Comment] arg_cong [OF assms, of t_Engine] arg_cong [OF assms, of t_Charset] arg_cong [OF assms, of t_Collation] arg_cong [OF assms, of t_Owner]
      arg_cong [OF assms, of t_CheckConstraints] arg_cong [OF assms, of t_Triggers] arg_cong [OF assms, of t_Partitions]
    by (simp_all add: erase_table_def)
  have "unchanged never columnsEqual (buildMap c_Name (t_Columns t)) (buildMap c_Name (t_Columns t'))"
    by (rule unchanged_erase [OF _ _ _ lists(1)]) (simp_all add: erase_same, simp add: erase_column_def)
  moreover have "unchanged never indexesEqual (buildMap ix_Name (t_Indexes t)) (buildMap ix_Name (t_Indexes t'))"
    by (rule unchanged_erase [OF _ _ _ lists(2)]) (simp_all add: erase_same, simp add: erase_index_def)
  moreover have "unchanged never foreignKeysEqual (buildMap fk_Name (t_ForeignKeys t)) (buildMap fk_Name (t_ForeignKeys t'))"
    by (rule unchanged_erase [OF _ _ _ lists(3)]) (simp_all add: erase_same, simp add: erase_key_def)
  ultimately show ?thesis by (simp add: same_table_def same unchanged_refl triggersEqual_def)
qed

lemma same_schema_erase:
  assumes "erase_schema s = erase_schema s'"
  shows "same_schema s s'"
proof -
  have t: "map erase_table (s_Tables s) = map erase_table (s_Tables s')"
    using arg_cong [OF assms, of s_Tables] by (simp add: erase_schema_def)
  have same: "s_Views s = s_Views s'" "s_Functions s = s_Functions s'" "s_Procedures s = s_Procedures s'"
    "s_MaterializedViews s = s_MaterializedViews s'" "s_Sequences s = s_Sequences s'" "s_Events s = s_Events s'"
    "s_EnumTypes s = s_EnumTypes s'"
    using arg_cong [OF assms, of s_Views] arg_cong [OF assms, of s_Functions] arg_cong [OF assms, of s_Procedures] arg_cong [OF assms, of s_MaterializedViews]
      arg_cong [OF assms, of s_Sequences] arg_cong [OF assms, of s_Events] arg_cong [OF assms, of s_EnumTypes]
    by (simp_all add: erase_schema_def)
  have "unchanged t_SkipDump same_table (buildMap t_Name (s_Tables s)) (buildMap t_Name (s_Tables s'))"
    by (rule unchanged_erase [OF _ _ _ t]) (simp_all add: same_table_erase, simp_all add: erase_table_def)
  then show ?thesis by (simp add: same_schema_def same unchanged_refl sequencesEqual_def)
qed

text \<open>
  C17. What the comparison misses. Two databases that agree once the expressions of generated columns, the
  directions of index columns and the referenced schemas and match types of foreign keys are erased have
  an empty difference: whichever of these change, in whichever columns, indexes and keys, no change is
  reported.
\<close>

theorem schema_diff_misses_attributes:
  assumes "lawful_sorter srt" and "erase_database old = erase_database new"
  shows "\<exists>d. GetDatabaseSchemaDiff srt (Some old) (Some new) = Some d \<and> no_changes d"
proof -
  have s: "map erase_schema (d_Schemas old) = map erase_schema (d_Schemas new)"
    and same: "d_Extensions old = d_Extensions new" "d_EventTriggers old = d_EventTriggers new"
    using assms(2) by (cases old; cases new; simp add: erase_database_def)+
  have "unchanged s_SkipDump same_schema (buildMap s_Name (d_Schemas old)) (buildMap s_Name (d_Schemas new))"
    by (rule unchanged_erase [OF _ _ _ s]) (simp_all add: same_schema_erase, simp_all add: erase_schema_def)
  then have "same_database old new" by (simp add: same_database_def same unchanged_refl)
  then show ?thesis using no_changes_GetDatabaseSchemaDiff [OF assms(1)] by blast
qed

subsection \<open>Witnesses\<close>

definition ex_column :: "string \<Rightarrow> string \<Rightarrow> ColumnMetadata" where
  "ex_column name typ = \<lparr>c_Name = name, c_Position = 1, c_Default = [], c_DefaultOnNull = False,
     c_OnUpdate = [], c_Nullable = False, c_Type = typ, c_CharacterSet = [], c_Collation = [],
     c_Comment = [], c_UserComment = [], c_Generation = None, c_IsIdentity = False,
     c_IdentityGeneration = 0, c_IdentitySeed = 0, c_IdentityIncrement = 0\<rparr>"

definition ex_key :: "string \<Rightarrow> ForeignKeyMetadata" where
  "ex_key sch = \<lparr>fk_Name = ''fk'', fk_Columns = [''a''], fk_ReferencedSchema = sch,
     fk_ReferencedTable = ''u'', fk_ReferencedColumns = [''a''], fk_OnDelete = [], fk_OnUpdate = [],
     fk_MatchType = []\<rparr>"

definition ex_database :: "ColumnMetadata list \<Rightarrow> string \<Rightarrow> DatabaseSchemaMetadata" where
  "ex_database cols refsch = \<lparr>d_Name = ''db'', d_Schemas = [\<lparr>s_Name = ''public'',
     s_Tables = [\<lparr>t_Name = ''t'', t_Columns = cols, t_Indexes = [], t_Engine = [], t_Collation = [],
       t_Charset = [], t_Comment = [], t_ForeignKeys = [ex_key refsch], t_Partitions = [],
       t_CheckConstraints = [], t_Owner = [], t_Triggers = [], t_SkipDump = False\<rparr>],
     s_Views = [], s_Functions = [], s_Procedures = [], s_MaterializedViews = [], s_Sequences = [],
     s_Events = [], s_EnumTypes = [], s_SkipDump = False\<rparr>], d_Extensions = [], d_EventTriggers = []\<rparr>"

theorem schema_diff_empty_iff_witness:
  "(\<exists>d. GetDatabaseSchemaDiff stable_sorter (Some (ex_database [] [])) (Some (ex_database [] [])) = Some d \<and> no_changes d)
    \<longleftrightarrow> same_database (ex_database [] []) (ex_database [] [])"
  by (rule schema_diff_empty_iff [OF stable_sorter_lawful])

theorem schema_diff_misses_attributes_witness:
  "\<exists>d. GetDatabaseSchemaDiff stable_sorter
      (Some (ex_database [ex_column ''a'' ''int'', (ex_column ''b'' ''int'')\<lparr>c_Generation := Some ''a + 1''\<rparr>] ''a''))
      (Some (ex_database [ex_column ''a'' ''int'', (ex_column ''b'' ''int'')\<lparr>c_Generation := Some ''a - 1''\<rparr>] ''b'')) = Some d
    \<and> no_changes d"
  by (rule schema_diff_misses_attributes [OF stable_sorter_lawful])
    (simp add: erase_database_def erase_schema_def erase_table_def erase_column_def erase_key_def ex_database_def
      ex_key_def ex_column_def)

definition ex_old :: DatabaseSchemaMetadata where
  "ex_old = ex_database [ex_column ''a'' ''int'', ex_column ''b'' ''int''] []"

definition ex_new :: DatabaseSchemaMetadata where
  "ex_new = ex_database [ex_column ''a'' ''text''] []"

lemma ex_schemas:
  "visible s_SkipDump (buildMap s_Name (d_Schemas ex_old)) ''public'' = Some (hd (d_Schemas ex_old))"
  "visible s_SkipDump (buildMap s_Name (d_Schemas ex_new)) ''public'' = Some (hd (d_Schemas ex_new))"
  by (simp_all add: ex_old_def ex_new_def ex_database_def visible_def buildMap_def)

definition ex_diff :: MetadataDiff where
  "ex_diff = the (GetDatabaseSchemaDiff stable_sorter (Some ex_old) (Some ex_new))"

lemma ex_diff: "GetDatabaseSchemaDiff stable_sorter (Some ex_old) (Some ex_new) = Some ex_diff"
  by (simp add: ex_diff_def GetDatabaseSchemaDiff_def Let_def)

theorem table_changes_exact_witness:
  "td_Action ` {td \<in> set (TableChanges ex_diff). td_SchemaName td = ''public'' \<and> td_TableName td = ''t''} = {DiffAlter}"
proof -
  have "buildMap t_Name (s_Tables (hd (d_Schemas ex_old))) = [(''t'', hd (s_Tables (hd (d_Schemas ex_old))))]"
    "buildMap t_Name (s_Tables (hd (d_Schemas ex_new))) = [(''t'', hd (s_Tables (hd (d_Schemas ex_new))))]"
    by (simp_all add: ex_old_def ex_new_def ex_database_def buildMap_def)
  moreover have "compareTableDetails ''public'' ''t'' (hd (s_Tables (hd (d_Schemas ex_old))))
      (hd (s_Tables (hd (d_Schemas ex_new)))) \<noteq> None"
    by code_simp
  then have "\<not> same_table (hd (s_Tables (hd (d_Schemas ex_old)))) (hd (s_Tables (hd (d_Schemas ex_new))))"
    by (simp add: compareTableDetails_None)
  moreover have "\<not> t_SkipDump (hd (s_Tables (hd (d_Schemas ex_old))))" "\<not> t_SkipDump (hd (s_Tables (hd (d_Schemas ex_new))))"
    by (simp_all add: ex_old_def ex_new_def ex_database_def)
  ultimately show ?thesis
    unfolding table_changes_exact [OF stable_sorter_lawful ex_diff ex_schemas] by (simp add: visible_def)
qed

theorem table_diff_patches_witness:
  "agree_on erase_column
    (patch (ColumnChanges (hd (TableChanges ex_diff))) (buildMap c_Name [ex_column ''a'' ''int'', ex_column ''b'' ''int'']))
    (buildMap c_Name [ex_column ''a'' ''text''])"
proof -
  have td: "length (TableChanges ex_diff) = 1" "td_SchemaName (hd (TableChanges ex_diff)) = ''public''"
    "td_Action (hd (TableChanges ex_diff)) = DiffAlter"
    "map_option t_Columns (td_OldTable (hd (TableChanges ex_diff))) = Some [ex_column ''a'' ''int'', ex_column ''b'' ''int'']"
    "map_option t_Columns (td_NewTable (hd (TableChanges ex_diff))) = Some [ex_column ''a'' ''text'']"
    by code_simp+
  then have "hd (TableChanges ex_diff) \<in> set (TableChanges ex_diff)" by (cases "TableChanges ex_diff") auto
  then show ?thesis
    using table_diff_patches [OF stable_sorter_lawful ex_diff ex_schemas _ td(2,3)] td(4,5) by fastforce
qed

end
