(* ===== verification/Go_Float.thy ===== *)
theory Go_Float
  imports Complex_Main
begin

text \<open>
  Go's \<open>float64\<close>: IEEE 754 binary64 with rounding to the nearest even. A finite float is its
  rational value; the two zeros are one, which no modelled operation can tell apart, because the code
  divides only by values it has compared with zero. Every operation computes exactly and rounds once.
\<close>

datatype float64 = Fin rat | PosInf | NegInf | NaN

subsection \<open>Rounding\<close>

definition round_even :: "rat \<Rightarrow> int" where
  "round_even r =
     (let f = \<lfloor>r\<rfloor>; d = r - of_int f in
      if d < 1 / 2 then f else if 1 / 2 < d then f + 1 else if even f then f else f + 1)"

definition pow2 :: "int \<Rightarrow> rat" where
  "pow2 e = (if 0 \<le> e then 2 ^ nat e else 1 / 2 ^ nat (- e))"

text \<open>The number of binary digits of a positive integer.\<close>

function bit_length :: "int \<Rightarrow> int" where
  "bit_length n = (if n \<le> 0 then 0 else bit_length (n div 2) + 1)"
  by pat_completeness auto
termination
  by (relation "measure nat") auto

declare bit_length.simps [simp del]

text \<open>The exponent of the last place of a positive number: 53 bits, and no place below \<open>2^-1074\<close>.\<close>

definition last_place :: "rat \<Rightarrow> int" where
  "last_place x =
     (let (p, q) = quotient_of x;
          e = bit_length p - bit_length q - 53;
          e' = (if x < 2 ^ 53 * pow2 e then e else e + 1)
      in max (- 1074) e')"

definition round_magnitude :: "rat \<Rightarrow> rat" where
  "round_magnitude x =
     (if x = 0 then 0
      else let e = last_place x in of_int (round_even (x / pow2 e)) * pow2 e)"

definition round64 :: "rat \<Rightarrow> float64" where
  "round64 x =
     (let m = round_magnitude \<bar>x\<bar> in
      if 2 ^ 1024 \<le> m then (if 0 \<le> x then PosInf else NegInf)
      else Fin (if 0 \<le> x then m else - m))"

subsection \<open>Operations\<close>

definition f_of_int :: "int \<Rightarrow> float64" where
  "f_of_int n = round64 (of_int n)"

fun f_neg :: "float64 \<Rightarrow> float64" where
  "f_neg (Fin a) = Fin (- a)"
| "f_neg PosInf = NegInf"
| "f_neg NegInf = PosInf"
| "f_neg NaN = NaN"

fun f_add :: "float64 \<Rightarrow> float64 \<Rightarrow> float64" where
  "f_add (Fin a) (Fin b) = round64 (a + b)"
| "f_add NaN _ = NaN"
| "f_add _ NaN = NaN"
| "f_add PosInf NegInf = NaN"
| "f_add NegInf PosInf = NaN"
| "f_add PosInf _ = PosInf"
| "f_add _ PosInf = PosInf"
| "f_add NegInf _ = NegInf"
| "f_add _ NegInf = NegInf"

definition f_sub :: "float64 \<Rightarrow> float64 \<Rightarrow> float64" where
  "f_sub x y = f_add x (f_neg y)"

definition f_sign_inf :: "rat \<Rightarrow> float64 \<Rightarrow> float64" where
  "f_sign_inf a x = (if a = 0 then NaN else if 0 < a then x else f_neg x)"

fun f_mul :: "float64 \<Rightarrow> float64 \<Rightarrow> float64" where
  "f_mul (Fin a) (Fin b) = round64 (a * b)"
| "f_mul NaN _ = NaN"
| "f_mul _ NaN = NaN"
| "f_mul (Fin a) x = f_sign_inf a x"
| "f_mul x (Fin a) = f_sign_inf a x"
| "f_mul PosInf x = x"
| "f_mul NegInf x = f_neg x"

fun f_div :: "float64 \<Rightarrow> float64 \<Rightarrow> float64" where
  "f_div (Fin a) (Fin b) =
     (if b = 0 then (if a = 0 then NaN else if 0 < a then PosInf else NegInf) else round64 (a / b))"
| "f_div NaN _ = NaN"
| "f_div _ NaN = NaN"
| "f_div (Fin a) _ = Fin 0"
| "f_div x (Fin b) = (if b < 0 then f_neg x else x)"
| "f_div _ _ = NaN"

fun f_less :: "float64 \<Rightarrow> float64 \<Rightarrow> bool" where
  "f_less (Fin a) (Fin b) \<longleftrightarrow> a < b"
| "f_less NaN _ \<longleftrightarrow> False"
| "f_less _ NaN \<longleftrightarrow> False"
| "f_less NegInf y \<longleftrightarrow> y \<noteq> NegInf"
| "f_less _ NegInf \<longleftrightarrow> False"
| "f_less x PosInf \<longleftrightarrow> x \<noteq> PosInf"
| "f_less PosInf _ \<longleftrightarrow> False"

definition f_eq :: "float64 \<Rightarrow> float64 \<Rightarrow> bool" where
  "f_eq x y \<longleftrightarrow> x \<noteq> NaN \<and> x = y"

definition f_le :: "float64 \<Rightarrow> float64 \<Rightarrow> bool" where
  "f_le x y \<longleftrightarrow> f_less x y \<or> f_eq x y"

text \<open>The built-in \<open>min\<close> and \<open>max\<close>, and package \<open>math\<close>.\<close>

definition f_min :: "float64 \<Rightarrow> float64 \<Rightarrow> float64" where
  "f_min x y = (if x = NaN \<or> y = NaN then NaN else if f_less y x then y else x)"

definition f_max :: "float64 \<Rightarrow> float64 \<Rightarrow> float64" where
  "f_max x y = (if x = NaN \<or> y = NaN then NaN else if f_less x y then y else x)"

definition f_abs :: "float64 \<Rightarrow> float64" where
  "f_abs x = (case x of Fin a \<Rightarrow> Fin \<bar>a\<bar> | NegInf \<Rightarrow> PosInf | _ \<Rightarrow> x)"

definition f_floor :: "float64 \<Rightarrow> float64" where
  "f_floor x = (case x of Fin a \<Rightarrow> Fin (of_int \<lfloor>a\<rfloor>) | _ \<Rightarrow> x)"

definition f_ceil :: "float64 \<Rightarrow> float64" where
  "f_ceil x = (case x of Fin a \<Rightarrow> Fin (of_int \<lceil>a\<rceil>) | _ \<Rightarrow> x)"

subsection \<open>What the proofs use of rounding\<close>

lemma f_le_squeeze: "f_le (Fin a) x \<Longrightarrow> f_le x (Fin b) \<Longrightarrow> \<exists>c. x = Fin c \<and> a \<le> c \<and> c \<le> b"
  by (cases x) (auto simp: f_le_def f_eq_def)

lemma f_le_Fin [simp]: "f_le (Fin a) (Fin b) \<longleftrightarrow> a \<le> b"
  by (auto simp: f_le_def f_eq_def)

lemma f_le_trans: "f_le x y \<Longrightarrow> f_le y z \<Longrightarrow> f_le x z"
  by (cases x; cases y; cases z) (auto simp: f_le_def f_eq_def)

lemma f_less_le_trans: "f_less x y \<Longrightarrow> f_le y z \<Longrightarrow> f_less x z"
  by (cases x; cases y; cases z) (auto simp: f_le_def f_eq_def)

locale rounding =
  fixes rnd :: "rat \<Rightarrow> float64"
  assumes rnd_mono: "a \<le> b \<Longrightarrow> f_le (rnd a) (rnd b)"
    and rnd_int: "\<bar>n\<bar> \<le> 2 ^ 53 \<Longrightarrow> rnd (of_int n) = Fin (of_int n)"
begin

lemma rnd_not_nan: "rnd a \<noteq> NaN"
  using rnd_mono [of a a] by (cases "rnd a") (auto simp: f_le_def f_eq_def)

lemma rnd_zero [simp]: "rnd 0 = Fin 0"
  using rnd_int [of 0] by simp

lemma rnd_one [simp]: "rnd 1 = Fin 1"
  using rnd_int [of 1] by simp

lemma rnd_between:
  assumes "of_int m \<le> a" "a \<le> of_int n" "\<bar>m\<bar> \<le> 2 ^ 53" "\<bar>n\<bar> \<le> 2 ^ 53"
  obtains b where "rnd a = Fin b" "of_int m \<le> b" "b \<le> of_int n"
proof -
  have "f_le (Fin (of_int m)) (rnd a)" "f_le (rnd a) (Fin (of_int n))"
    using rnd_mono [OF assms(1)] rnd_mono [OF assms(2)]
    unfolding rnd_int [OF assms(3)] rnd_int [OF assms(4)] .
  then show thesis using f_le_squeeze that by blast
qed

end

subsection \<open>Binary64 provides it\<close>

lemma pow2_pos [simp]: "0 < pow2 e"
  by (simp add: pow2_def)

lemma pow2_signs [simp]: "pow2 e \<noteq> 0" "\<not> pow2 e \<le> 0" "0 \<le> pow2 e"
  using pow2_pos [of e] by linarith+

lemma pow2_add: "pow2 (a + b) = pow2 a * pow2 b"
proof -
  have "pow2 e = 2 powi e" for e
    by (simp add: pow2_def power_int_def inverse_eq_divide power_one_over)
  then show ?thesis by (simp add: power_int_add)
qed

lemma pow2_1 [simp]: "pow2 1 = 2"
  by (simp add: pow2_def)

lemma pow2_mono: "a \<le> b \<Longrightarrow> pow2 a \<le> pow2 b"
proof -
  assume "a \<le> b"
  then have "pow2 b = pow2 a * 2 ^ nat (b - a)"
    using pow2_add [of a "b - a"] by (simp add: pow2_def)
  then show ?thesis by simp
qed

lemma round_even_mono: "a \<le> b \<Longrightarrow> round_even a \<le> round_even b"
proof -
  assume ab: "a \<le> b"
  have bounds: "\<lfloor>x\<rfloor> \<le> round_even x \<and> round_even x \<le> \<lfloor>x\<rfloor> + 1" for x
    by (simp add: round_even_def Let_def)
  show ?thesis
  proof (cases "\<lfloor>a\<rfloor> = \<lfloor>b\<rfloor>")
    case False
    then have "\<lfloor>a\<rfloor> + 1 \<le> \<lfloor>b\<rfloor>" using floor_mono [OF ab] by simp
    then show ?thesis using bounds [of a] bounds [of b] by linarith
  qed (use ab in \<open>auto simp: round_even_def Let_def\<close>)
qed

lemma round_even_int [simp]: "round_even (of_int n) = n"
  by (simp add: round_even_def)

lemma bit_length_nonneg: "0 \<le> bit_length p"
  by (induction p rule: bit_length.induct) (simp add: bit_length.simps)

lemma bit_length_bounds:
  "0 < p \<Longrightarrow> pow2 (bit_length p - 1) \<le> of_int p \<and> of_int p < pow2 (bit_length p)"
proof (induction p rule: bit_length.induct)
  case (1 p)
  show ?case
  proof (cases "p = 1")
    case False
    define h where "h = p div 2"
    have h: "0 < h" "2 * h \<le> p" "p < 2 * h + 2" using 1(2) False by (auto simp: h_def)
    have IH: "pow2 (bit_length h - 1) \<le> of_int h" "of_int h < pow2 (bit_length h)"
      using 1(1) 1(2) h(1) by (simp_all add: h_def)
    have step: "bit_length p = bit_length h + 1"
      using 1(2) by (simp add: bit_length.simps [of p] h_def)
    have two: "pow2 (bit_length h) = 2 * pow2 (bit_length h - 1)"
      using pow2_add [of "bit_length h - 1" 1] by simp
    have pos: "0 \<le> bit_length h" using h(1) IH(2)
      by (metis bit_length_nonneg)
    then have "pow2 (bit_length h) = of_int (2 ^ nat (bit_length h))" by (simp add: pow2_def)
    then have "h < 2 ^ nat (bit_length h)" using IH(2) by (simp only: of_int_less_iff)
    then have "p < 2 * 2 ^ nat (bit_length h)" using h(3) by simp
    then have "(of_int p :: rat) < of_int (2 * 2 ^ nat (bit_length h))" by (simp only: of_int_less_iff)
    then have "of_int p < 2 * pow2 (bit_length h)" using pos by (simp add: pow2_def)
    moreover have "(of_int (2 * h) :: rat) \<le> of_int p" using h(2) by (simp only: of_int_le_iff)
    ultimately show ?thesis using IH(1) two by (simp add: step pow2_add)
  qed (simp add: bit_length.simps [of 1] bit_length.simps [of 0] pow2_def)
qed

lemma last_place_bounds:
  assumes "0 < x"
  shows "- 1074 \<le> last_place x" "x < 2 ^ 53 * pow2 (last_place x)"
    "last_place x = - 1074 \<or> 2 ^ 52 * pow2 (last_place x) \<le> x"
proof -
  obtain p q where pq: "quotient_of x = (p, q)" by (cases "quotient_of x")
  have q: "0 < q" using quotient_of_denom_pos [OF pq] .
  have x: "x = of_int p / of_int q" by (rule quotient_of_div [OF pq])
  then have p: "0 < p" using assms q by (simp add: zero_less_divide_iff)
  define e where "e = bit_length p - bit_length q - 53"
  define e' where "e' = (if x < 2 ^ 53 * pow2 e then e else e + 1)"
  have lp: "last_place x = max (- 1074) e'" by (simp add: last_place_def pq e_def e'_def Let_def)
  have two53: "2 ^ 53 * pow2 k = pow2 (53 + k)" "2 ^ 52 * pow2 k = pow2 (52 + k)" for k
    unfolding pow2_add by (simp_all add: pow2_def)
  have upper: "x < pow2 (54 + e)"
  proof -
    have "of_int p < pow2 (bit_length p)" by (rule conjunct2 [OF bit_length_bounds [OF p]])
    also have "\<dots> = pow2 (54 + e) * pow2 (bit_length q - 1)"
      by (simp add: pow2_add [symmetric] e_def)
    also have "\<dots> \<le> pow2 (54 + e) * of_int q"
      using conjunct1 [OF bit_length_bounds [OF q]] by (simp add: mult_left_mono less_imp_le)
    finally show ?thesis using q by (simp add: x divide_less_eq)
  qed
  have lower: "pow2 (52 + e) \<le> x"
  proof -
    have "pow2 (52 + e) * of_int q \<le> pow2 (52 + e) * pow2 (bit_length q)"
      using conjunct2 [OF bit_length_bounds [OF q]] by (simp add: mult_left_mono less_imp_le)
    also have "\<dots> = pow2 (bit_length p - 1)"
      by (simp add: pow2_add [symmetric] e_def)
    also have "\<dots> \<le> of_int p" by (rule conjunct1 [OF bit_length_bounds [OF p]])
    finally show ?thesis using q by (simp add: x le_divide_eq)
  qed
  have e': "x < pow2 (53 + e')" "pow2 (52 + e') \<le> x"
    using upper lower unfolding e'_def two53 by (auto simp: algebra_simps not_less)
  show "- 1074 \<le> last_place x" by (simp add: lp)
  show "x < 2 ^ 53 * pow2 (last_place x)"
    unfolding two53 using e'(1) pow2_mono [of "53 + e'" "53 + last_place x"] by (simp add: lp)
  show "last_place x = - 1074 \<or> 2 ^ 52 * pow2 (last_place x) \<le> x"
    unfolding two53 using e'(2) by (auto simp: lp max_def)
qed

lemma round_even_le: "r \<le> of_int n \<Longrightarrow> round_even r \<le> n"
  using round_even_mono [of r "of_int n"] by simp

lemma round_even_ge: "of_int n \<le> r \<Longrightarrow> n \<le> round_even r"
  using round_even_mono [of "of_int n" r] by simp

lemma round_magnitude_mono:
  assumes "0 \<le> x" "x \<le> y"
  shows "0 \<le> round_magnitude x" "round_magnitude x \<le> round_magnitude y"
proof -
  have nonneg: "0 \<le> round_magnitude z" if "0 \<le> z" for z
    using round_even_ge [of 0 "z / pow2 (last_place z)"] that
    by (simp add: round_magnitude_def Let_def less_imp_le)
  show "0 \<le> round_magnitude x" by (rule nonneg [OF assms(1)])
  show "round_magnitude x \<le> round_magnitude y"
  proof (cases "x = 0")
    case True
    then show ?thesis using nonneg assms by (simp add: round_magnitude_def)
  next
    case False
    then have x: "0 < x" and y: "0 < y" using assms by auto
    define d where "d = last_place x"
    define e where "e = last_place y"
    note X = last_place_bounds [OF x, folded d_def] and Y = last_place_bounds [OF y, folded e_def]
    have mx: "round_magnitude x = of_int (round_even (x / pow2 d)) * pow2 d"
      and my: "round_magnitude y = of_int (round_even (y / pow2 e)) * pow2 e"
      using x y by (simp_all add: round_magnitude_def Let_def d_def e_def)
    show ?thesis
    proof (cases "d = e")
      case True
      have "round_even (x / pow2 e) \<le> round_even (y / pow2 e)"
        by (rule round_even_mono) (simp add: assms(2) divide_right_mono less_imp_le)
      then show ?thesis by (simp add: mx my True)
    next
      case False
      have "d \<le> e"
      proof (rule ccontr)
        assume "\<not> d \<le> e"
        then have "2 * pow2 e \<le> pow2 d" using pow2_mono [of "1 + e" d] by (simp add: pow2_add)
        moreover have "2 ^ 52 * pow2 d \<le> x" using X(3) Y(1) \<open>\<not> d \<le> e\<close> by auto
        ultimately show False using Y(2) assms(2) by simp
      qed
      then have lt: "2 * pow2 d \<le> pow2 e" using False pow2_mono [of "1 + d" e] by (simp add: pow2_add)
      have "round_even (x / pow2 d) \<le> 2 ^ 53"
        using X(2) by (intro round_even_le) (simp add: divide_le_eq)
      then have "round_magnitude x \<le> 2 ^ 53 * pow2 d"
        unfolding mx using mult_right_mono [of "of_int (round_even (x / pow2 d))" "of_int (2 ^ 53)" "pow2 d"]
        by (simp only: of_int_le_iff) (simp add: less_imp_le)
      also have "\<dots> \<le> 2 ^ 52 * pow2 e" using lt by simp
      also have "\<dots> \<le> round_magnitude y"
      proof -
        have "2 ^ 52 * pow2 e \<le> y" using Y(3) X(1) \<open>d \<le> e\<close> False by auto
        then have "2 ^ 52 \<le> round_even (y / pow2 e)"
          by (intro round_even_ge) (simp add: le_divide_eq)
        then have "(of_int (2 ^ 52) :: rat) \<le> of_int (round_even (y / pow2 e))" by (simp only: of_int_le_iff)
        then show ?thesis unfolding my by (intro mult_right_mono) (simp_all add: less_imp_le)
      qed
      finally show ?thesis .
    qed
  qed
qed

text \<open>A number with at most 53 significant bits is rounded to itself.\<close>

lemma round_magnitude_exact:
  assumes "0 \<le> k" "k \<le> 2 ^ 53" "- 1074 \<le> e"
  shows "round_magnitude (of_int k * pow2 e) = of_int k * pow2 e"
proof (cases "k = 0")
  case False
  define x where "x = of_int k * pow2 e"
  have x: "0 < x" using assms(1) False by (simp add: x_def)
  define d where "d = last_place x"
  note L = last_place_bounds [OF x, folded d_def]
  have k53: "(of_int k :: rat) \<le> 2 ^ 53" using assms(2) by (metis of_int_le_iff of_int_numeral of_int_power)
  have "\<exists>n. x / pow2 d = of_int n"
  proof (cases "d \<le> e")
    case True
    then have "pow2 e = pow2 d * 2 ^ nat (e - d)" using pow2_add [of d "e - d"] by (simp add: pow2_def)
    then have "x / pow2 d = of_int (k * 2 ^ nat (e - d))" using pow2_pos [of d] by (simp add: x_def)
    then show ?thesis by blast
  next
    case False
    then have "2 * pow2 e \<le> pow2 d" using pow2_mono [of "1 + e" d] by (simp add: pow2_add)
    moreover have "2 ^ 52 * pow2 d \<le> x" using L(3) assms(3) False by auto
    moreover have "x \<le> 2 ^ 53 * pow2 e" unfolding x_def using k53 by (intro mult_right_mono) (simp_all add: less_imp_le)
    ultimately have "x = 2 ^ 52 * pow2 d" by simp
    then have "x / pow2 d = of_int (2 ^ 52)" by simp
    then show ?thesis by blast
  qed
  then obtain n where n: "x / pow2 d = of_int n" ..
  then have "x = of_int n * pow2 d" by (metis less_irrefl nonzero_divide_eq_eq pow2_pos)
  moreover have "round_magnitude x = of_int (round_even (x / pow2 d)) * pow2 d"
    using x by (simp add: round_magnitude_def Let_def d_def)
  ultimately show ?thesis unfolding n x_def by simp
qed (simp add: round_magnitude_def)

lemma round_magnitude_int: "0 \<le> n \<Longrightarrow> n \<le> 2 ^ 53 \<Longrightarrow> round_magnitude (of_int n) = of_int n"
  using round_magnitude_exact [of n 0] by (simp add: pow2_def)

interpretation binary64: rounding round64
proof
  fix a b :: rat
  assume ab: "a \<le> b"
  consider "0 \<le> a" | "a < 0" "0 \<le> b" | "b < 0" using ab by linarith
  then show "f_le (round64 a) (round64 b)"
  proof cases
    case 1
    then show ?thesis using round_magnitude_mono [of a b] ab
      by (auto simp: round64_def Let_def f_le_def f_eq_def)
  next
    case 2
    then show ?thesis using round_magnitude_mono [of "- a" "- a"] round_magnitude_mono [of b b]
      by (auto simp: round64_def Let_def f_le_def f_eq_def)
  next
    case 3
    then show ?thesis using round_magnitude_mono [of "- b" "- a"] ab
      by (auto simp: round64_def Let_def f_le_def f_eq_def)
  qed
next
  fix n :: int
  assume n: "\<bar>n\<bar> \<le> 2 ^ 53"
  have "\<not> 2 ^ 1024 \<le> (of_int \<bar>n\<bar> :: rat)"
  proof -
    have "(of_int \<bar>n\<bar> :: rat) \<le> 2 ^ 53" using n by (metis of_int_le_iff of_int_numeral of_int_power)
    then show ?thesis by (simp add: not_le)
  qed
  then show "round64 (of_int n) = Fin (of_int n)"
    using round_magnitude_int [of "\<bar>n\<bar>"] n by (simp add: round64_def Let_def)
qed

lemma f_of_int_exact [simp]: "\<bar>n\<bar> \<le> 2 ^ 53 \<Longrightarrow> f_of_int n = Fin (of_int n)"
  by (simp add: f_of_int_def binary64.rnd_int)

lemma f_of_int_mono: "m \<le> n \<Longrightarrow> f_le (f_of_int m) (f_of_int n)"
  by (simp add: f_of_int_def binary64.rnd_mono)

lemma round64_exact:
  assumes "\<bar>k\<bar> \<le> 2 ^ 53" "- 1074 \<le> e" "e \<le> 900"
  shows "round64 (of_int k * pow2 e) = Fin (of_int k * pow2 e)"
proof -
  have "(of_int \<bar>k\<bar> :: rat) \<le> 2 ^ 53" using assms(1) by (metis of_int_le_iff of_int_numeral of_int_power)
  moreover have "pow2 e \<le> 2 ^ 900" using pow2_mono [OF assms(3)] by (simp add: pow2_def)
  ultimately have "of_int \<bar>k\<bar> * pow2 e \<le> 2 ^ 53 * 2 ^ 900" by (intro mult_mono) (simp_all add: less_imp_le)
  then have "\<not> 2 ^ 1024 \<le> of_int \<bar>k\<bar> * pow2 e" by (simp add: not_le)
  moreover have "\<bar>of_int k * pow2 e\<bar> = of_int \<bar>k\<bar> * pow2 e" by (simp add: abs_mult abs_of_pos)
  moreover have "0 \<le> of_int k * pow2 e \<longleftrightarrow> 0 \<le> k" by (simp add: zero_le_mult_iff not_le)
  ultimately show ?thesis
    using round_magnitude_exact [of "\<bar>k\<bar>" e] assms(1,2) by (simp add: round64_def Let_def)
qed

end
