(* ===== verification/Go_Strconv.thy ===== *)
theory Go_Strconv
  imports Go_Strings Go_Float
begin

text \<open>
  The conversions of packages \<open>fmt\<close> and \<open>strconv\<close> the code calls, on byte strings. An \<open>int\<close> has
  64 bits.
\<close>

text \<open>Two more functions of package \<open>strings\<close>: \<open>Contains\<close> and \<open>HasSuffix\<close>.\<close>

fun str_contains :: "string \<Rightarrow> string \<Rightarrow> bool" where
  "str_contains [] p \<longleftrightarrow> p = []"
| "str_contains (c # s) p \<longleftrightarrow> HasPrefix (c # s) p \<or> str_contains s p"

definition HasSuffix :: "string \<Rightarrow> string \<Rightarrow> bool" where
  "HasSuffix s p \<longleftrightarrow> HasPrefix (rev s) (rev p)"

subsection \<open>Integers\<close>

definition digit_char :: "nat \<Rightarrow> char" where
  "digit_char d = char_of (48 + d)"

definition digit_value :: "char \<Rightarrow> nat" where
  "digit_value c = of_char c - 48"

fun dec :: "nat \<Rightarrow> string" where
  "dec n = (if n < 10 then [digit_char n] else dec (n div 10) @ [digit_char (n mod 10)])"

declare dec.simps [simp del]

text \<open>\<open>fmt.Sprintf("%d")\<close>.\<close>

definition fmt_d :: "int \<Rightarrow> string" where
  "fmt_d i = (if i < 0 then CHR ''-'' # dec (nat (- i)) else dec (nat i))"

definition digits_value :: "string \<Rightarrow> nat" where
  "digits_value s = fold (\<lambda>c v. 10 * v + digit_value c) s 0"

text \<open>\<open>strconv.ParseInt(s, 10, 64)\<close> and \<open>strconv.Atoi\<close>: an optional sign, digits, and the range.\<close>

definition ParseInt :: "string \<Rightarrow> int option" where
  "ParseInt s =
     (let neg = s \<noteq> [] \<and> hd s = CHR ''-'';
          ds = (if s \<noteq> [] \<and> (hd s = CHR ''-'' \<or> hd s = CHR ''+'') then tl s else s);
          v = (if neg then - int (digits_value ds) else int (digits_value ds))
      in if ds = [] \<or> \<not> list_all is_digit ds then None
         else if v < - (2 ^ 63) \<or> 2 ^ 63 \<le> v then None
         else Some v)"

lemma digit_char_value: "d < 10 \<Longrightarrow> digit_value (digit_char d) = d \<and> is_digit (digit_char d)"
  by (simp add: digit_value_def digit_char_def is_digit_def Let_def)

lemma dec_digits: "list_all is_digit (dec n) \<and> dec n \<noteq> []"
proof (induction n rule: dec.induct)
  case (1 n)
  then show ?case by (auto simp: dec.simps [of n] digit_char_value)
qed

lemma dec_value: "digits_value (dec n) = n"
proof (induction n rule: dec.induct)
  case (1 n)
  then show ?case
    by (subst dec.simps) (auto simp: digits_value_def digit_char_value)
qed

lemma digit_no_sign: "is_digit c \<Longrightarrow> c \<noteq> CHR ''-'' \<and> c \<noteq> CHR ''+'' \<and> c \<noteq> CHR ''/''"
  by (auto simp: is_digit_def)

lemma ParseInt_fmt_d: "- (2 ^ 63) \<le> i \<Longrightarrow> i < 2 ^ 63 \<Longrightarrow> ParseInt (fmt_d i) = Some i"
proof -
  assume i: "- (2 ^ 63) \<le> i" "i < 2 ^ 63"
  have hd: "is_digit (hd (dec n))" for n
    using dec_digits [of n] by (cases "dec n") auto
  show ?thesis
  proof (cases "i < 0")
    case True
    then show ?thesis using i dec_digits [of "nat (- i)"]
      by (simp add: ParseInt_def fmt_d_def dec_value Let_def)
  next
    case False
    then show ?thesis using i dec_digits [of "nat i"] digit_no_sign [OF hd [of "nat i"]]
      by (simp add: ParseInt_def fmt_d_def dec_value Let_def)
  qed
qed

lemma fmt_d_plain: "fmt_d i \<noteq> [] \<and> CHR ''/'' \<notin> set (fmt_d i)"
  using dec_digits digit_no_sign by (auto simp: fmt_d_def list_all_iff)

subsection \<open>Booleans\<close>

definition ParseBool :: "string \<Rightarrow> bool option" where
  "ParseBool s =
     (if s \<in> {''1'', ''t'', ''T'', ''true'', ''TRUE'', ''True''} then Some True
      else if s \<in> {''0'', ''f'', ''F'', ''false'', ''FALSE'', ''False''} then Some False
      else None)"

subsection \<open>Floating-point numbers\<close>

text \<open>
  \<open>strconv.ParseFloat(s, 64)\<close>: the special values, a decimal or a hexadecimal mantissa, and an
  exponent whose digits stop counting at 10000. A number beyond the largest float is an error.
\<close>

definition special_float :: "string \<Rightarrow> float64 option" where
  "special_float s =
     (let neg = HasPrefix s ''-'';
          signed = neg \<or> HasPrefix s ''+'';
          u = ToLower (if signed then drop 1 s else s)
      in if u = ''inf'' \<or> u = ''infinity'' then Some (if neg then NegInf else PosInf)
         else if u = ''nan'' \<and> \<not> signed then Some NaN
         else None)"

definition hex_digit :: "char \<Rightarrow> nat option" where
  "hex_digit c =
     (let n = of_char (lower_char c) :: nat in
      if 48 \<le> n \<and> n \<le> 57 then Some (n - 48) else if 97 \<le> n \<and> n \<le> 102 then Some (n - 87) else None)"

text \<open>The digits of a mantissa: its value without the point, the digits after the point, whether
  any digit was there, and the rest. Underscores are looked at later.\<close>

fun mantissa :: "nat \<Rightarrow> string \<Rightarrow> nat \<Rightarrow> nat \<Rightarrow> bool \<Rightarrow> bool \<Rightarrow> nat \<times> nat \<times> bool \<times> bool \<times> string" where
  "mantissa radix [] v places sawdot sawdigits = (v, places, sawdot, sawdigits, [])"
| "mantissa radix (c # s) v places sawdot sawdigits =
     (if c = CHR ''_'' then mantissa radix s v places sawdot sawdigits
      else if c = CHR ''.'' \<and> \<not> sawdot then mantissa radix s v places True sawdigits
      else if is_digit c \<or> (radix = 16 \<and> hex_digit c \<noteq> None) then
        mantissa radix s (radix * v + the (hex_digit c)) (if sawdot then places + 1 else places) sawdot True
      else (v, places, sawdot, sawdigits, c # s))"

text \<open>The exponent and the rest.\<close>

fun exponent :: "string \<Rightarrow> nat \<Rightarrow> nat \<times> string" where
  "exponent [] e = (e, [])"
| "exponent (c # s) e =
     (if c = CHR ''_'' then exponent s e
      else if is_digit c then exponent s (if e < 10000 then 10 * e + digit_value c else e)
      else (e, c # s))"

text \<open>Underscores must separate digits, or the base prefix from a digit.\<close>

fun underscores :: "char \<Rightarrow> bool \<Rightarrow> string \<Rightarrow> bool" where
  "underscores saw hex [] \<longleftrightarrow> saw \<noteq> CHR ''_''"
| "underscores saw hex (c # s) \<longleftrightarrow>
     (if is_digit c \<or> (hex \<and> hex_digit c \<noteq> None) then underscores (CHR ''0'') hex s
      else if c = CHR ''_'' then saw = CHR ''0'' \<and> underscores (CHR ''_'') hex s
      else saw \<noteq> CHR ''_'' \<and> underscores (CHR ''!'') hex s)"

definition decimal_float :: "string \<Rightarrow> float64 option" where
  "decimal_float s =
     (let neg = HasPrefix s ''-'';
          u = (if neg \<or> HasPrefix s ''+'' then drop 1 s else s);
          hex = HasPrefix (ToLower u) ''0x'' \<and> 2 < length u;
          radix = (if hex then 16 else 10);
          (v, places, sawdot, sawdigits, rest) = mantissa radix (if hex then drop 2 u else u) 0 0 False False;
          marker = (if hex then CHR ''p'' else CHR ''e'');
          has_exp = rest \<noteq> [] \<and> lower_char (hd rest) = marker;
          eneg = has_exp \<and> HasPrefix (tl rest) ''-'';
          etext = (if has_exp \<and> (eneg \<or> HasPrefix (tl rest) ''+'') then drop 2 rest else tl rest);
          (e, tail) = (if has_exp then exponent etext 0 else (0, rest));
          ex = (if eneg then - int e else int e);
          value = (if hex then of_nat v * pow2 (ex - 4 * int places)
                   else if 0 \<le> ex - int places then of_nat v * 10 ^ nat (ex - int places)
                   else of_nat v / 10 ^ nat (int places - ex));
          result = round64 (if neg then - value else value)
      in if \<not> sawdigits then None
         else if hex \<and> \<not> has_exp then None
         else if has_exp \<and> (etext = [] \<or> \<not> is_digit (hd etext)) then None
         else if tail \<noteq> [] then None
         else if CHR ''_'' \<in> set s \<and> \<not> underscores (if hex then CHR ''0'' else CHR ''^'') hex (if hex then drop 2 u else u) then None
         else if result = PosInf \<or> result = NegInf then None
         else Some result)"

definition ParseFloat :: "string \<Rightarrow> float64 option" where
  "ParseFloat s = (case special_float s of Some f \<Rightarrow> Some f | None \<Rightarrow> decimal_float s)"

subsection \<open>An integer reads as the float nearest to it\<close>

lemma digit_lower: "is_digit c \<Longrightarrow> lower_char c = c"
  by (auto simp: lower_char_def is_digit_def Let_def)

lemma mantissa_digits: "list_all is_digit ds \<Longrightarrow>
    mantissa 10 ds v 0 False seen_digit = (fold (\<lambda>c v. 10 * v + digit_value c) ds v, 0, False, seen_digit \<or> ds \<noteq> [], [])"
proof (induction ds arbitrary: v seen_digit)
  case (Cons c ds)
  then have c: "c \<noteq> CHR ''_''" "c \<noteq> CHR ''.''" "is_digit c" "lower_char c = c" by (auto simp: is_digit_def digit_lower)
  then have "the (hex_digit c) = digit_value c" by (auto simp: hex_digit_def is_digit_def digit_value_def Let_def)
  with c Cons show ?case by simp
qed simp

lemma f_of_int_finite: "- (2 ^ 63) \<le> n \<Longrightarrow> n < 2 ^ 63 \<Longrightarrow> f_of_int n \<notin> {PosInf, NegInf}"
proof -
  assume n: "- (2 ^ 63) \<le> n" "n < 2 ^ 63"
  have m: "round_magnitude (2 ^ 63) = 2 ^ 63" using round_magnitude_exact [of 1 63] by (simp add: pow2_def)
  have small: "\<not> 2 ^ 1024 \<le> (2 ^ 63 :: rat)" by simp
  have b: "f_of_int (2 ^ 63) = Fin (2 ^ 63)"
    unfolding f_of_int_def of_int_power of_int_numeral round64_def using m small by (simp only: abs_power2 abs_numeral power_abs Let_def) simp
  have b': "f_of_int (- (2 ^ 63)) = Fin (- (2 ^ 63))"
    unfolding f_of_int_def of_int_minus of_int_power of_int_numeral round64_def using m small
    by (simp only: abs_minus_cancel abs_numeral power_abs Let_def) simp
  have "f_le (Fin (- (2 ^ 63))) (f_of_int n)" "f_le (f_of_int n) (Fin (2 ^ 63))"
    using f_of_int_mono [OF n(1)] f_of_int_mono [OF less_imp_le [OF n(2)]] unfolding b b' by simp_all
  from f_le_squeeze [OF this] show ?thesis by (elim exE conjE) simp
qed

lemma ParseInt_ParseFloat:
  assumes "ParseInt s = Some n"
  shows "ParseFloat s = Some (f_of_int n)"
proof -
  let ?neg = "HasPrefix s ''-''"
  define ds where "ds = (if ?neg \<or> HasPrefix s ''+'' then drop 1 s else s)"
  have signs: "s \<noteq> [] \<and> hd s = CHR ''-'' \<longleftrightarrow> ?neg" "(if s \<noteq> [] \<and> (hd s = CHR ''-'' \<or> hd s = CHR ''+'') then tl s else s) = ds"
    unfolding ds_def by (cases s; auto simp: HasPrefix_def)+
  have ds: "ds \<noteq> []" "list_all is_digit ds" and
    n: "n = (if ?neg then - int (digits_value ds) else int (digits_value ds))" "- (2 ^ 63) \<le> n" "n < 2 ^ 63"
    using assms unfolding ParseInt_def Let_def signs by (auto split: if_splits)
  obtain c cs where c: "ds = c # cs" using ds(1) by (cases ds) auto
  have first: "is_digit c" "c \<noteq> CHR ''-''" "c \<noteq> CHR ''+''" using ds(2) c by (auto simp: is_digit_def)
  have special: "ToLower ds \<notin> {''inf'', ''infinity'', ''nan''}"
    using first by (auto simp: ToLower_def c digit_lower is_digit_def)
  have hex: "\<not> HasPrefix (ToLower ds) ''0x''"
  proof (cases cs)
    case (Cons c' cs')
    then have "is_digit c'" using ds(2) c by simp
    then show ?thesis by (auto simp: HasPrefix_def ToLower_def c Cons digit_lower is_digit_def)
  qed (simp add: HasPrefix_def ToLower_def c)
  have m: "mantissa 10 ds 0 0 False False = (digits_value ds, 0, False, True, [])"
    using mantissa_digits [OF ds(2), of 0 False] ds(1) by (simp add: digits_value_def)
  have plain: "CHR ''_'' \<notin> set s"
  proof
    assume us: "CHR ''_'' \<in> set s"
    then have "CHR ''_'' \<in> set ds" by (cases s) (auto simp: ds_def HasPrefix_def split: if_splits)
    then show False using ds(2) by (auto simp: list_all_iff is_digit_def)
  qed
  have n': "(if ?neg then - (of_nat (digits_value ds) :: rat) else of_nat (digits_value ds)) = of_int n"
    by (simp add: n(1))
  have "special_float s = None"
    using special unfolding special_float_def Let_def ds_def [symmetric] by simp
  moreover have "decimal_float s = Some (f_of_int n)"
    unfolding decimal_float_def Let_def ds_def [symmetric] using hex m plain n' f_of_int_finite [OF n(2,3)]
    by (cases ?neg) (simp_all add: f_of_int_def)
  ultimately show ?thesis by (simp add: ParseFloat_def)
qed
subsection \<open>Formatting\<close>

text \<open>
  \<open>strconv.FormatFloat(x, 'f', -1, 64)\<close> of a positive number: the fewest significant digits that read
  back as it, 17 at most.
\<close>

definition f_digits :: "rat \<Rightarrow> int \<Rightarrow> string" where
  "f_digits r places =
     (let n = nat (round_even (r * (if 0 \<le> places then 10 ^ nat places else 1 / 10 ^ nat (- places))))
      in if places \<le> 0 then dec (n * 10 ^ nat (- places))
         else let whole = dec (n div 10 ^ nat places);
                  part = dec (n mod 10 ^ nat places)
              in whole @ ''.'' @ replicate (nat places - length part) (CHR ''0'') @ part)"

fun shortest :: "rat \<Rightarrow> int \<Rightarrow> nat \<Rightarrow> string" where
  "shortest r places 0 = f_digits r places"
| "shortest r places (Suc more) =
     (if decimal_float (f_digits r places) = Some (Fin r) then f_digits r places
      else shortest r (places + 1) more)"

definition FormatFloat :: "float64 \<Rightarrow> string" where
  "FormatFloat x =
     (case x of
        Fin r \<Rightarrow>
          (if r = 0 then ''0''
           else let a = \<bar>r\<bar>; magnitude = int (length (dec (nat \<lfloor>a\<rfloor>)))
                in (if r < 0 then ''-'' else []) @ shortest a (1 - magnitude) (nat (magnitude + 350)))
      | PosInf \<Rightarrow> ''+Inf''
      | NegInf \<Rightarrow> ''-Inf''
      | NaN \<Rightarrow> ''NaN'')"

end
