(* ===== verification/Resource_Names.thy ===== *)
theory Resource_Names
  imports Go_Strconv
begin

text \<open>
  Resource names, \<open>backend/common/resource_name.go\<close>: building and taking apart names such as
  \<open>instances/{id}/databases/{id}\<close>.
\<close>

subsection \<open>Names\<close>

datatype name_error =
    InvalidRequest string | InvalidPrefix string string | EmptyToken string | InvalidID string
  | InvalidRoleID string

definition WorkspacePrefix :: string where "WorkspacePrefix = ''workspaces/''"
definition EnvironmentNamePrefix :: string where "EnvironmentNamePrefix = ''environments/''"
definition InstanceNamePrefix :: string where "InstanceNamePrefix = ''instances/''"
definition DatabaseIDPrefix :: string where "DatabaseIDPrefix = ''databases/''"
definition UserNamePrefix :: string where "UserNamePrefix = ''users/''"
definition IdentityProviderNamePrefix :: string where "IdentityProviderNamePrefix = ''idps/''"
definition RolePrefix :: string where "RolePrefix = ''roles/''"
definition GroupPrefix :: string where "GroupPrefix = ''groups/''"
definition DataSourceIDPrefix :: string where "DataSourceIDPrefix = ''dataSources/''"
definition NamespaceMappingPrefix :: string where "NamespaceMappingPrefix = ''openlineage/namespaceMappings/''"
definition OpenLineageRunPrefix :: string where "OpenLineageRunPrefix = ''openlineage/runs/''"
definition OpenLineageTaskPrefix :: string where "OpenLineageTaskPrefix = ''openlineage/tasks/''"
definition APIKeyPrefix :: string where "APIKeyPrefix = ''openlineage/apiKeys/''"
definition ApplicationNamePrefix :: string where "ApplicationNamePrefix = ''applications/''"
definition ConnectedAppNamePrefix :: string where "ConnectedAppNamePrefix = ''connectedApps/''"
definition NotificationPrefix :: string where "NotificationPrefix = ''notifications/''"

lemmas prefix_defs = WorkspacePrefix_def EnvironmentNamePrefix_def InstanceNamePrefix_def
  DatabaseIDPrefix_def UserNamePrefix_def IdentityProviderNamePrefix_def RolePrefix_def
  GroupPrefix_def DataSourceIDPrefix_def NamespaceMappingPrefix_def OpenLineageRunPrefix_def
  OpenLineageTaskPrefix_def APIKeyPrefix_def ApplicationNamePrefix_def ConnectedAppNamePrefix_def
  NotificationPrefix_def

text \<open>The loop of \<open>GetNameParentTokens\<close> over the prefixes and the pairs of parts.\<close>

fun parentTokens :: "string \<Rightarrow> string list \<Rightarrow> string list \<Rightarrow> name_error + string list" where
  "parentTokens name parts [] = Inr []"
| "parentTokens name (part # token # parts) (prefix # prefixes) =
     (if part @ ''/'' \<noteq> prefix then Inl (InvalidPrefix prefix name)
      else if token = [] then Inl (EmptyToken name)
      else map_sum id ((#) token) (parentTokens name parts prefixes))"
| "parentTokens name _ (prefix # prefixes) = Inl (InvalidRequest name)"

definition GetNameParentTokens :: "string \<Rightarrow> string list \<Rightarrow> name_error + string list" where
  "GetNameParentTokens name tokenPrefixes =
     (let parts = Split (CHR ''/'') name in
      if length parts \<noteq> 2 * length tokenPrefixes then Inl (InvalidRequest name)
      else parentTokens name parts tokenPrefixes)"

text \<open>Continuing with the tokens when there was no error.\<close>

definition bind_name :: "name_error + 'a \<Rightarrow> ('a \<Rightarrow> name_error + 'b) \<Rightarrow> name_error + 'b" where
  "bind_name r f = (case r of Inl e \<Rightarrow> Inl e | Inr x \<Rightarrow> f x)"

definition parseID :: "string \<Rightarrow> name_error + int" where
  "parseID token = (case ParseInt token of None \<Rightarrow> Inl (InvalidID token) | Some i \<Rightarrow> Inr i)"

definition GetOpenLineageToken :: "string \<Rightarrow> string \<Rightarrow> name_error + string" where
  "GetOpenLineageToken name prefix =
     (if \<not> HasPrefix name prefix then Inl (InvalidPrefix prefix name)
      else let token = TrimPrefix name prefix in
        if token = [] \<or> CHR ''/'' \<in> set token then Inl (InvalidRequest name) else Inr token)"

definition GetOpenLineageIntID :: "string \<Rightarrow> string \<Rightarrow> name_error + int" where
  "GetOpenLineageIntID name prefix = bind_name (GetOpenLineageToken name prefix) parseID"

definition GetNamespaceMappingID :: "string \<Rightarrow> name_error + int" where
  "GetNamespaceMappingID name = GetOpenLineageIntID name NamespaceMappingPrefix"

definition GetOpenLineageRunGUID :: "string \<Rightarrow> name_error + string" where
  "GetOpenLineageRunGUID name = GetOpenLineageToken name OpenLineageRunPrefix"

definition GetOpenLineageTaskGUID :: "string \<Rightarrow> name_error + string" where
  "GetOpenLineageTaskGUID name = GetOpenLineageToken name OpenLineageTaskPrefix"

definition GetAPIKeyID :: "string \<Rightarrow> name_error + int" where
  "GetAPIKeyID name = GetOpenLineageIntID name APIKeyPrefix"

definition FormatNamespaceMapping :: "int \<Rightarrow> string" where
  "FormatNamespaceMapping i = NamespaceMappingPrefix @ fmt_d i"

definition FormatOpenLineageRun :: "string \<Rightarrow> string" where
  "FormatOpenLineageRun guid = OpenLineageRunPrefix @ guid"

definition FormatOpenLineageTask :: "string \<Rightarrow> string" where
  "FormatOpenLineageTask guid = OpenLineageTaskPrefix @ guid"

definition FormatAPIKey :: "int \<Rightarrow> string" where
  "FormatAPIKey i = APIKeyPrefix @ fmt_d i"

definition FormatApplication :: "string \<Rightarrow> string" where
  "FormatApplication applicationID = ApplicationNamePrefix @ applicationID"

definition FormatApplicationAPIKey :: "string \<Rightarrow> int \<Rightarrow> string" where
  "FormatApplicationAPIKey applicationID keyID =
     ApplicationNamePrefix @ applicationID @ ''/'' @ ''apiKeys/'' @ fmt_d keyID"

definition GetApplicationID :: "string \<Rightarrow> name_error + string" where
  "GetApplicationID name =
     bind_name (GetNameParentTokens name [ApplicationNamePrefix]) (\<lambda>tokens. Inr (tokens ! 0))"

definition GetApplicationAPIKeyID :: "string \<Rightarrow> name_error + string \<times> int" where
  "GetApplicationAPIKeyID name =
     bind_name (GetNameParentTokens name [ApplicationNamePrefix, ''apiKeys/''])
       (\<lambda>tokens. bind_name (parseID (tokens ! 1)) (\<lambda>i. Inr (tokens ! 0, i)))"

definition GetUIDFromName :: "string \<Rightarrow> string \<Rightarrow> name_error + int" where
  "GetUIDFromName name prefix =
     bind_name (GetNameParentTokens name [prefix]) (\<lambda>tokens. parseID (tokens ! 0))"

definition GetEnvironmentID :: "string \<Rightarrow> name_error + string" where
  "GetEnvironmentID name =
     bind_name (GetNameParentTokens name [EnvironmentNamePrefix]) (\<lambda>tokens. Inr (tokens ! 0))"

definition GetInstanceID :: "string \<Rightarrow> name_error + string" where
  "GetInstanceID name =
     bind_name (GetNameParentTokens name [InstanceNamePrefix]) (\<lambda>tokens. Inr (tokens ! 0))"

definition GetInstanceDatabaseID :: "string \<Rightarrow> name_error + string \<times> string" where
  "GetInstanceDatabaseID name =
     bind_name (GetNameParentTokens name [InstanceNamePrefix, DatabaseIDPrefix])
       (\<lambda>tokens. Inr (tokens ! 0, tokens ! 1))"

definition GetUserID :: "string \<Rightarrow> name_error + int" where
  "GetUserID name = GetUIDFromName name UserNamePrefix"

definition GetConnectedAppID :: "string \<Rightarrow> name_error + int" where
  "GetConnectedAppID name = GetOpenLineageIntID name ConnectedAppNamePrefix"

definition GetUserEmail :: "string \<Rightarrow> name_error + string" where
  "GetUserEmail name =
     bind_name (GetNameParentTokens name [UserNamePrefix]) (\<lambda>tokens. Inr (tokens ! 0))"

definition GetInstanceDataSourceID :: "string \<Rightarrow> name_error + string \<times> string" where
  "GetInstanceDataSourceID name =
     bind_name (GetNameParentTokens name [InstanceNamePrefix, DataSourceIDPrefix])
       (\<lambda>tokens. Inr (tokens ! 0, tokens ! 1))"

definition GetIdentityProviderID :: "string \<Rightarrow> name_error + string" where
  "GetIdentityProviderID name =
     bind_name (GetNameParentTokens name [IdentityProviderNamePrefix]) (\<lambda>tokens. Inr (tokens ! 0))"

definition GetGroupEmail :: "string \<Rightarrow> name_error + string" where
  "GetGroupEmail name =
     bind_name (GetNameParentTokens name [GroupPrefix]) (\<lambda>tokens. Inr (tokens ! 0))"

definition FormatWorkspace :: "string \<Rightarrow> string" where
  "FormatWorkspace i = WorkspacePrefix @ i"

definition GetNotificationID :: "string \<Rightarrow> name_error + int" where
  "GetNotificationID name =
     bind_name (GetNameParentTokens name [WorkspacePrefix, NotificationPrefix])
       (\<lambda>tokens. parseID (tokens ! 1))"

definition FormatNotification :: "string \<Rightarrow> int \<Rightarrow> string" where
  "FormatNotification workspaceID i = FormatWorkspace workspaceID @ ''/'' @ NotificationPrefix @ fmt_d i"

definition FormatUserUID :: "int \<Rightarrow> string" where
  "FormatUserUID uid = UserNamePrefix @ fmt_d uid"

definition FormatGroupEmail :: "string \<Rightarrow> string" where
  "FormatGroupEmail email = GroupPrefix @ email"

definition FormatEnvironment :: "string \<Rightarrow> string" where
  "FormatEnvironment resourceID = EnvironmentNamePrefix @ resourceID"

definition FormatInstance :: "string \<Rightarrow> string" where
  "FormatInstance resourceID = InstanceNamePrefix @ resourceID"

definition FormatDatabase :: "string \<Rightarrow> string \<Rightarrow> string" where
  "FormatDatabase inst database = FormatInstance inst @ ''/'' @ DatabaseIDPrefix @ database"

definition FormatDataSource :: "string \<Rightarrow> string \<Rightarrow> string" where
  "FormatDataSource instanceID dataSourceID = FormatInstance instanceID @ ''/'' @ DataSourceIDPrefix @ dataSourceID"

definition FormatRole :: "string \<Rightarrow> string" where
  "FormatRole role = RolePrefix @ role"

definition FormatIdentityProviderUID :: "string \<Rightarrow> string" where
  "FormatIdentityProviderUID idpID = IdentityProviderNamePrefix @ idpID"

text \<open>
  The two regular expressions: a first character, at most 61 characters in between and a last
  one that is not a hyphen.
\<close>

definition is_lower :: "char \<Rightarrow> bool" where
  "is_lower c \<longleftrightarrow> (let n = of_char c :: nat in 97 \<le> n \<and> n \<le> 122)"

definition is_upper :: "char \<Rightarrow> bool" where
  "is_upper c \<longleftrightarrow> (let n = of_char c :: nat in 65 \<le> n \<and> n \<le> 90)"

definition matches_id :: "(char \<Rightarrow> bool) \<Rightarrow> string \<Rightarrow> bool" where
  "matches_id letter s \<longleftrightarrow>
     s \<noteq> [] \<and> letter (hd s) \<and> length s \<le> 63
     \<and> list_all (\<lambda>c. letter c \<or> is_digit c \<or> c = CHR ''-'') (tl s)
     \<and> (letter (last s) \<or> is_digit (last s))"

definition IsValidResourceID :: "string \<Rightarrow> bool" where
  "IsValidResourceID s = matches_id is_lower s"

definition IsValidRoleID :: "string \<Rightarrow> bool" where
  "IsValidRoleID s = matches_id (\<lambda>c. is_lower c \<or> is_upper c) s"

definition GetRoleID :: "string \<Rightarrow> name_error + string" where
  "GetRoleID name =
     bind_name (GetNameParentTokens name [RolePrefix])
       (\<lambda>tokens. if \<not> IsValidRoleID (tokens ! 0) then Inl (InvalidRoleID (tokens ! 0)) else Inr (tokens ! 0))"

text \<open>The three names under a workspace that are taken apart by hand.\<close>

definition workspaceChild :: "string \<Rightarrow> string \<Rightarrow> name_error + string" where
  "workspaceChild collection name =
     (let parts = Split (CHR ''/'') name in
      if length parts \<noteq> 4 \<or> parts ! 0 \<noteq> ''workspaces'' \<or> parts ! 1 = [] \<or> parts ! 2 \<noteq> collection
      then Inl (InvalidRequest name) else Inr (parts ! 3))"

definition GetNotificationChannelID :: "string \<Rightarrow> name_error + string" where
  "GetNotificationChannelID name = bind_name (workspaceChild ''notificationChannels'' name)
     (\<lambda>i. if \<not> IsValidResourceID i then Inl (InvalidID name) else Inr i)"

definition GetNotificationRouteID :: "string \<Rightarrow> name_error + string" where
  "GetNotificationRouteID name = bind_name (workspaceChild ''notificationRoutes'' name)
     (\<lambda>i. if \<not> IsValidResourceID i then Inl (InvalidID name) else Inr i)"

definition GetNotificationDeliveryID :: "string \<Rightarrow> name_error + int" where
  "GetNotificationDeliveryID name = bind_name (workspaceChild ''notificationDeliveries'' name)
     (\<lambda>i. case ParseInt i of
        None \<Rightarrow> Inl (InvalidID name)
      | Some n \<Rightarrow> if n \<le> 0 then Inl (InvalidID name) else Inr n)"


subsection \<open>What names denote\<close>

text \<open>A token that can stand in a name, and a prefix as the code declares them.\<close>

definition token_ok :: "string \<Rightarrow> bool" where
  "token_ok t \<longleftrightarrow> t \<noteq> [] \<and> CHR ''/'' \<notin> set t"

definition prefix_ok :: "string \<Rightarrow> bool" where
  "prefix_ok p \<longleftrightarrow> p \<noteq> [] \<and> last p = CHR ''/'' \<and> CHR ''/'' \<notin> set (butlast p)"

lemma prefix_ok_simps [simp]:
  "prefix_ok WorkspacePrefix" "prefix_ok EnvironmentNamePrefix" "prefix_ok InstanceNamePrefix"
  "prefix_ok DatabaseIDPrefix" "prefix_ok UserNamePrefix" "prefix_ok IdentityProviderNamePrefix"
  "prefix_ok RolePrefix" "prefix_ok GroupPrefix" "prefix_ok DataSourceIDPrefix"
  "prefix_ok ApplicationNamePrefix" "prefix_ok NotificationPrefix" "prefix_ok ''apiKeys/''"
  by (simp_all add: prefix_ok_def prefix_defs)

lemma prefix_split: "prefix_ok p \<Longrightarrow> p = butlast p @ ''/''"
  by (metis append_butlast_last_id prefix_ok_def)

fun parts_of :: "string list \<Rightarrow> string list \<Rightarrow> string list" where
  "parts_of (p # ps) (t # ts) = butlast p # t # parts_of ps ts"
| "parts_of _ _ = []"

lemma parentTokens_Inr:
  "parentTokens name parts ps = Inr ts \<Longrightarrow> length parts = 2 * length ps \<Longrightarrow>
   parts = parts_of ps ts \<and> length ts = length ps \<and> (\<forall>t\<in>set ts. t \<noteq> [])"
proof (induction name parts ps arbitrary: ts rule: parentTokens.induct)
  case (2 name part token parts prefix prefixes)
  obtain ts' where ts: "part @ ''/'' = prefix" "token \<noteq> []" "parentTokens name parts prefixes = Inr ts'" "ts = token # ts'"
    using 2(2) by (cases "parentTokens name parts prefixes") (auto split: if_splits)
  then show ?case using 2(1) [OF _ _ ts(3)] 2(3) by auto
qed auto

lemma parentTokens_parts:
  "length ts = length ps \<Longrightarrow> list_all prefix_ok ps \<Longrightarrow> list_all token_ok ts \<Longrightarrow>
   parentTokens name (parts_of ps ts) ps = Inr ts"
  by (induction ps ts rule: parts_of.induct) (auto simp: token_ok_def prefix_split [symmetric])

lemma length_parts_of: "length ts = length ps \<Longrightarrow> length (parts_of ps ts) = 2 * length ps"
  by (induction ps ts rule: parts_of.induct) auto

lemma Join_parts:
  "length ts = length ps \<Longrightarrow> list_all prefix_ok ps \<Longrightarrow>
   Join (parts_of ps ts) ''/'' = Join (map2 (@) ps ts) ''/''"
proof (induction ps ts rule: parts_of.induct)
  case (1 p ps t ts)
  show ?case
  proof (cases ps)
    case Nil
    then show ?thesis using 1 prefix_split [of p] by auto
  next
    case (Cons q qs)
    then obtain u us where ts: "ts = u # us" using 1(2) by (cases ts) auto
    have "p @ x = butlast p @ CHR ''/'' # x" for x using prefix_split [of p] 1(3) by (metis append.assoc append_Cons append_Nil list.pred_inject(2))
    then show ?thesis using 1 by (simp add: Cons ts)
  qed
qed auto

lemma parts_plain:
  "length ts = length ps \<Longrightarrow> list_all prefix_ok ps \<Longrightarrow> list_all token_ok ts \<Longrightarrow>
   \<forall>x\<in>set (parts_of ps ts). CHR ''/'' \<notin> set x"
  by (induction ps ts rule: parts_of.induct) (auto simp: prefix_ok_def token_ok_def)

lemma Split_plain: "x \<in> set (Split c s) \<Longrightarrow> c \<notin> set x"
proof (induction s arbitrary: x)
  case (Cons y s)
  then show ?case by (cases "Split c s") (auto split: if_splits)
qed simp

lemma tokens_iff:
  assumes ps: "ps \<noteq> []" "list_all prefix_ok ps"
  shows "GetNameParentTokens name ps = Inr ts \<longleftrightarrow>
    length ts = length ps \<and> list_all token_ok ts \<and> name = Join (map2 (@) ps ts) ''/''"
proof
  assume "GetNameParentTokens name ps = Inr ts"
  then have *: "length (Split (CHR ''/'') name) = 2 * length ps" "parentTokens name (Split (CHR ''/'') name) ps = Inr ts"
    by (auto simp: GetNameParentTokens_def Let_def split: if_splits)
  note p = parentTokens_Inr [OF *(2,1)]
  have "t \<in> set (parts_of ps ts)" if "t \<in> set ts" "length ts = length ps" for t
    using that by (induction ps ts rule: parts_of.induct) auto
  then have "list_all token_ok ts"
    using p Split_plain [of _ "CHR ''/''" name] by (auto simp: list_all_iff token_ok_def)
  moreover have "name = Join (map2 (@) ps ts) ''/''"
    using Join_Split [of "CHR ''/''" name] p Join_parts [of ts ps] ps(2) by simp
  ultimately show "length ts = length ps \<and> list_all token_ok ts \<and> name = Join (map2 (@) ps ts) ''/''"
    using p by blast
next
  assume *: "length ts = length ps \<and> list_all token_ok ts \<and> name = Join (map2 (@) ps ts) ''/''"
  then have "parts_of ps ts \<noteq> []" using ps(1) by (cases ps; cases ts) auto
  then have "Split (CHR ''/'') name = parts_of ps ts"
    using Split_Join [of "parts_of ps ts" "CHR ''/''"] parts_plain [of ts ps] Join_parts [of ts ps] * ps(2) by simp
  then show "GetNameParentTokens name ps = Inr ts"
    using * ps(2) by (simp add: GetNameParentTokens_def Let_def length_parts_of parentTokens_parts)
qed

lemma tokens_one: "prefix_ok p \<Longrightarrow> GetNameParentTokens name [p] = Inr ts \<longleftrightarrow> (\<exists>t. ts = [t] \<and> token_ok t \<and> name = p @ t)"
  by (cases ts) (auto simp: tokens_iff length_Suc_conv)

lemma tokens_two:
  "prefix_ok p \<Longrightarrow> prefix_ok q \<Longrightarrow> GetNameParentTokens name [p, q] = Inr ts \<longleftrightarrow>
   (\<exists>t u. ts = [t, u] \<and> token_ok t \<and> token_ok u \<and> name = p @ t @ ''/'' @ q @ u)"
  by (auto simp: tokens_iff length_Suc_conv)

lemma bind_name_Inr: "bind_name r f = Inr y \<longleftrightarrow> (\<exists>x. r = Inr x \<and> f x = Inr y)"
  by (cases r) (auto simp: bind_name_def)

lemma parseID_Inr: "parseID s = Inr i \<longleftrightarrow> ParseInt s = Some i"
  by (simp add: parseID_def split: option.splits)

lemma fmt_d_token: "token_ok (fmt_d i)"
  using fmt_d_plain [of i] by (simp add: token_ok_def)

lemma openlineage_token:
  "GetOpenLineageToken name p = Inr t \<longleftrightarrow> token_ok t \<and> name = p @ t"
  by (auto simp: GetOpenLineageToken_def token_ok_def HasPrefix_def TrimPrefix_def Let_def
      split: if_splits) (metis append_take_drop_id)

definition int64 :: "int \<Rightarrow> bool" where
  "int64 i \<longleftrightarrow> - (2 ^ 63) \<le> i \<and> i < 2 ^ 63"

lemma ParseInt_int64 [simp]: "int64 i \<Longrightarrow> ParseInt (fmt_d i) = Some i"
  by (simp add: int64_def ParseInt_fmt_d)

lemma GetUserID_iff: "GetUserID name = Inr i \<longleftrightarrow> (\<exists>t. token_ok t \<and> name = UserNamePrefix @ t \<and> ParseInt t = Some i)"
  by (auto simp: GetUserID_def GetUIDFromName_def bind_name_Inr tokens_one parseID_Inr)

lemma GetUserID_format: "int64 i \<Longrightarrow> GetUserID (FormatUserUID i) = Inr i"
  unfolding GetUserID_iff FormatUserUID_def using fmt_d_token by auto

lemma name_defs_Inr: "bind_name r (\<lambda>x. Inr (g x)) = Inr y \<longleftrightarrow> (\<exists>x. r = Inr x \<and> y = g x)"
  by (auto simp: bind_name_Inr)

lemma role_token: "IsValidRoleID a \<Longrightarrow> token_ok a"
proof -
  assume "IsValidRoleID a"
  then have "a \<noteq> [] \<and> (\<forall>c\<in>set a. is_lower c \<or> is_upper c \<or> is_digit c \<or> c = CHR ''-'')"
    by (cases a) (auto simp: IsValidRoleID_def matches_id_def list_all_iff)
  moreover have "\<not> (is_lower c \<or> is_upper c \<or> is_digit c \<or> c = CHR ''-'')" if "c = CHR ''/''" for c
    using that by (simp add: is_lower_def is_upper_def is_digit_def)
  ultimately show "token_ok a" by (auto simp: token_ok_def)
qed

text \<open>
  C18. A name is taken apart exactly when it was built from tokens that are not empty and hold no
  slash, and into these tokens: parsing inverts formatting, and no two different resources of a
  kind have the same name.
\<close>

theorem resource_names_exact:
  "(GetInstanceID n = Inr a \<longleftrightarrow> token_ok a \<and> n = FormatInstance a)
   \<and> (GetInstanceDatabaseID n = Inr (a, b) \<longleftrightarrow> token_ok a \<and> token_ok b \<and> n = FormatDatabase a b)
   \<and> (GetInstanceDataSourceID n = Inr (a, b) \<longleftrightarrow> token_ok a \<and> token_ok b \<and> n = FormatDataSource a b)
   \<and> (GetEnvironmentID n = Inr a \<longleftrightarrow> token_ok a \<and> n = FormatEnvironment a)
   \<and> (GetIdentityProviderID n = Inr a \<longleftrightarrow> token_ok a \<and> n = FormatIdentityProviderUID a)
   \<and> (GetGroupEmail n = Inr a \<longleftrightarrow> token_ok a \<and> n = FormatGroupEmail a)
   \<and> (GetApplicationID n = Inr a \<longleftrightarrow> token_ok a \<and> n = FormatApplication a)
   \<and> (GetRoleID n = Inr a \<longleftrightarrow> IsValidRoleID a \<and> n = FormatRole a)
   \<and> (GetOpenLineageRunGUID n = Inr a \<longleftrightarrow> token_ok a \<and> n = FormatOpenLineageRun a)
   \<and> (GetOpenLineageTaskGUID n = Inr a \<longleftrightarrow> token_ok a \<and> n = FormatOpenLineageTask a)"
proof (intro conjI)
  show "GetRoleID n = Inr a \<longleftrightarrow> IsValidRoleID a \<and> n = FormatRole a"
    using role_token [of a]
    by (auto simp: GetRoleID_def bind_name_Inr tokens_one FormatRole_def intro!: exI [of _ "[a]"] split: if_splits)
next
  show "GetInstanceDatabaseID n = Inr (a, b) \<longleftrightarrow> token_ok a \<and> token_ok b \<and> n = FormatDatabase a b"
    "GetInstanceDataSourceID n = Inr (a, b) \<longleftrightarrow> token_ok a \<and> token_ok b \<and> n = FormatDataSource a b"
    by (auto simp: GetInstanceDatabaseID_def GetInstanceDataSourceID_def name_defs_Inr tokens_two
        FormatInstance_def FormatDatabase_def FormatDataSource_def intro!: exI [of _ "[a, b]"])
qed (auto simp: GetInstanceID_def GetEnvironmentID_def
    GetIdentityProviderID_def GetGroupEmail_def GetApplicationID_def GetOpenLineageRunGUID_def
    GetOpenLineageTaskGUID_def name_defs_Inr tokens_one openlineage_token FormatInstance_def FormatEnvironment_def FormatIdentityProviderUID_def
    FormatGroupEmail_def FormatApplication_def FormatOpenLineageRun_def FormatOpenLineageTask_def)

text \<open>The names that end in a number.\<close>

lemma numeric_names:
  assumes "int64 i" "token_ok a"
  shows "GetUserID (FormatUserUID i) = Inr i" "GetNamespaceMappingID (FormatNamespaceMapping i) = Inr i"
    "GetAPIKeyID (FormatAPIKey i) = Inr i"
    "GetApplicationAPIKeyID (FormatApplicationAPIKey a i) = Inr (a, i)"
    "GetNotificationID (FormatNotification a i) = Inr i"
  using assms fmt_d_token [of i]
  by (auto simp: GetUserID_format GetNamespaceMappingID_def GetAPIKeyID_def GetOpenLineageIntID_def
      bind_name_Inr openlineage_token parseID_Inr FormatNamespaceMapping_def FormatAPIKey_def
      GetApplicationAPIKeyID_def FormatApplicationAPIKey_def GetNotificationID_def FormatNotification_def
      FormatWorkspace_def tokens_two intro!: exI [of _ "[a, fmt_d i]"])

end
