(* ===== verification/IAM.thy ===== *)
theory IAM
  imports Resource_Names "HOL-Library.List_Lexorder" "HOL-Library.Char_ord"
begin

text \<open>
  The permission checks: the catalog and the predefined roles
  (\<open>backend/common/permission\<close>, \<open>backend/store/predefined_roles.go\<close>), membership
  (\<open>backend/utils/member.go\<close>), the engine (\<open>backend/component/iam/manager.go\<close>), the interceptor
  (\<open>backend/api/v1/acl_interceptor.go\<close>), and the writers of the workspace policy
  (\<open>backend/store/policy.go\<close>, \<open>backend/api/v1/iam_service.go\<close>, \<open>iam_helpers.go\<close>).

  The rows of the database are a record of what its queries return, and the evaluation of a
  condition by the CEL library is a parameter. A check reads the clock at one instant.
\<close>

subsection \<open>Permissions and roles\<close>

type_synonym Permission = string

definition allPermissions :: "Permission list" where
  "allPermissions =
   [''metaxisdata.instances.get'', ''metaxisdata.instances.list'',
    ''metaxisdata.instances.create'', ''metaxisdata.instances.update'',
    ''metaxisdata.instances.delete'', ''metaxisdata.instances.undelete'',
    ''metaxisdata.instances.sync'', ''metaxisdata.environments.list'',
    ''metaxisdata.dataSources.create'', ''metaxisdata.dataSources.update'',
    ''metaxisdata.dataSources.delete'', ''metaxisdata.databases.list'',
    ''metaxisdata.databases.read'', ''metaxisdata.databases.sync'',
    ''metaxisdata.applications.get'', ''metaxisdata.applications.list'',
    ''metaxisdata.applications.create'', ''metaxisdata.applications.update'',
    ''metaxisdata.applications.delete'', ''metaxisdata.applications.apiKeys.list'',
    ''metaxisdata.applications.apiKeys.create'', ''metaxisdata.applications.apiKeys.delete'',
    ''metaxisdata.applicationSqls.get'', ''metaxisdata.applicationSqls.list'',
    ''metaxisdata.applicationSqls.delete'', ''metaxisdata.manualSqls.get'',
    ''metaxisdata.manualSqls.list'', ''metaxisdata.manualSqls.create'',
    ''metaxisdata.manualSqls.update'', ''metaxisdata.manualSqls.delete'',
    ''metaxisdata.lineage.get'', ''metaxisdata.openlineage.read'',
    ''metaxisdata.openlineage.namespaceMappings.list'',
    ''metaxisdata.openlineage.namespaceMappings.create'',
    ''metaxisdata.openlineage.namespaceMappings.update'',
    ''metaxisdata.openlineage.namespaceMappings.delete'',
    ''metaxisdata.openlineage.apiKeys.list'', ''metaxisdata.openlineage.apiKeys.create'',
    ''metaxisdata.openlineage.apiKeys.delete'', ''metaxisdata.llm.profiles.list'',
    ''metaxisdata.llm.profiles.create'', ''metaxisdata.llm.profiles.update'',
    ''metaxisdata.llm.profiles.delete'', ''metaxisdata.llm.profiles.fetchModels'',
    ''metaxisdata.explainSql.explain'', ''metaxisdata.dataQuality.rules.get'',
    ''metaxisdata.dataQuality.rules.list'', ''metaxisdata.dataQuality.rules.create'',
    ''metaxisdata.dataQuality.rules.update'', ''metaxisdata.dataQuality.rules.delete'',
    ''metaxisdata.dataQuality.rules.run'', ''metaxisdata.dataQuality.executions.get'',
    ''metaxisdata.dataQuality.executions.list'', ''metaxisdata.dataQuality.issues.get'',
    ''metaxisdata.dataQuality.issues.list'', ''metaxisdata.dataQuality.issues.update'',
    ''metaxisdata.dataQuality.explain'', ''metaxisdata.dataQuality.suggest'',
    ''metaxisdata.dataQuality.contracts.publish'', ''metaxisdata.dataQuality.plans.update'',
    ''metaxisdata.dataQuality.changeRequests.decide'', ''metaxisdata.dataQuality.profile.run'',
    ''metaxisdata.dataQuality.labels.update'', ''metaxisdata.dataQuality.templates.list'',
    ''metaxisdata.dataQuality.templates.create'', ''metaxisdata.dataQuality.templates.update'',
    ''metaxisdata.dataQuality.templates.delete'', ''metaxisdata.dataQuality.codeTables.list'',
    ''metaxisdata.dataQuality.codeTables.create'', ''metaxisdata.dataQuality.codeTables.update'',
    ''metaxisdata.dataQuality.codeTables.delete'', ''metaxisdata.users.get'',
    ''metaxisdata.users.list'', ''metaxisdata.users.create'', ''metaxisdata.users.update'',
    ''metaxisdata.users.delete'', ''metaxisdata.users.undelete'', ''metaxisdata.groups.get'',
    ''metaxisdata.groups.list'', ''metaxisdata.groups.create'', ''metaxisdata.groups.update'',
    ''metaxisdata.groups.delete'', ''metaxisdata.roles.get'', ''metaxisdata.roles.list'',
    ''metaxisdata.roles.create'', ''metaxisdata.roles.update'', ''metaxisdata.roles.delete'',
    ''metaxisdata.iam.getPolicy'', ''metaxisdata.iam.setPolicy'', ''metaxisdata.settings.get'',
    ''metaxisdata.settings.update'', ''metaxisdata.identityProviders.get'',
    ''metaxisdata.identityProviders.list'', ''metaxisdata.identityProviders.create'',
    ''metaxisdata.identityProviders.update'', ''metaxisdata.identityProviders.delete'',
    ''metaxisdata.connectedApps.list'', ''metaxisdata.connectedApps.revoke'',
    ''metaxisdata.auditLogs.search'']"

definition memberBaselinePermissions :: "Permission list" where
  "memberBaselinePermissions =
   [''metaxisdata.instances.get'', ''metaxisdata.instances.list'',
    ''metaxisdata.environments.list'', ''metaxisdata.users.list'',
    ''metaxisdata.databases.list'', ''metaxisdata.databases.read'',
    ''metaxisdata.manualSqls.get'', ''metaxisdata.manualSqls.list'',
    ''metaxisdata.manualSqls.create'', ''metaxisdata.manualSqls.update'',
    ''metaxisdata.manualSqls.delete'', ''metaxisdata.lineage.get'',
    ''metaxisdata.openlineage.read'', ''metaxisdata.applications.get'',
    ''metaxisdata.applications.list'', ''metaxisdata.applicationSqls.get'',
    ''metaxisdata.applicationSqls.list'', ''metaxisdata.explainSql.explain'',
    ''metaxisdata.dataQuality.rules.get'', ''metaxisdata.dataQuality.rules.list'',
    ''metaxisdata.dataQuality.executions.get'', ''metaxisdata.dataQuality.executions.list'',
    ''metaxisdata.dataQuality.issues.get'', ''metaxisdata.dataQuality.issues.list'',
    ''metaxisdata.dataQuality.explain'', ''metaxisdata.dataQuality.templates.list'',
    ''metaxisdata.dataQuality.codeTables.list'']"

definition qualityAgentPermissions :: "Permission list" where
  "qualityAgentPermissions =
   [''metaxisdata.dataQuality.rules.get'', ''metaxisdata.dataQuality.rules.list'',
    ''metaxisdata.dataQuality.plans.update'']"

definition IAMSetPolicy :: Permission where
  "IAMSetPolicy = ''metaxisdata.iam.setPolicy''"

record RoleMessage =
  r_ResourceID :: string
  r_Permissions :: "Permission list"

definition WorkspaceAdminRole :: string where "WorkspaceAdminRole = ''workspaceAdmin''"
definition WorkspaceMemberRole :: string where "WorkspaceMemberRole = ''workspaceMember''"
definition QualityAgentRole :: string where "QualityAgentRole = ''qualityAgent''"

definition PredefinedRoles :: "RoleMessage list" where
  "PredefinedRoles =
     [\<lparr>r_ResourceID = WorkspaceAdminRole, r_Permissions = allPermissions\<rparr>,
      \<lparr>r_ResourceID = WorkspaceMemberRole, r_Permissions = memberBaselinePermissions\<rparr>,
      \<lparr>r_ResourceID = QualityAgentRole, r_Permissions = qualityAgentPermissions\<rparr>]"

definition GetPredefinedRole :: "string \<Rightarrow> RoleMessage option" where
  "GetPredefinedRole resourceID = find (\<lambda>r. r_ResourceID r = resourceID) PredefinedRoles"

subsection \<open>Principals, policies and what the database holds\<close>

datatype PrincipalType = PRINCIPAL_TYPE_UNSPECIFIED | END_USER | SERVICE_ACCOUNT | SYSTEM_BOT

record UserMessage =
  u_ID :: int
  u_Type :: PrincipalType
  u_MemberDeleted :: bool

record UserStat =
  us_Type :: PrincipalType
  us_Deleted :: bool
  us_Count :: int

record GroupMessage =
  g_Members :: "string list"

text \<open>The empty expression stands for a binding without a condition, as the getters of the code have it.\<close>

record Binding =
  b_Role :: string
  b_Members :: "string list"
  b_Condition :: string

record IamPolicy =
  Bindings :: "Binding list"

datatype iam_error =
    StoreError | ConditionError | NameError name_error | InvalidArgument | Unauthenticated
  | PermissionDenied | Internal | Aborted

record IamStore =
  st_policy :: "iam_error + IamPolicy"
  st_cachedRole :: "string \<Rightarrow> RoleMessage option"
  st_role :: "string \<Rightarrow> iam_error + RoleMessage option"
  st_group :: "string \<Rightarrow> iam_error + GroupMessage option"
  st_user :: "int \<Rightarrow> iam_error + UserMessage option"
  st_stats :: "iam_error + UserStat list"

definition GetRoleSnapshot :: "IamStore \<Rightarrow> string \<Rightarrow> iam_error + RoleMessage option" where
  "GetRoleSnapshot st resourceID =
     (case GetPredefinedRole resourceID of
        Some role \<Rightarrow> Inr (Some role)
      | None \<Rightarrow> (case st_cachedRole st resourceID of
            Some role \<Rightarrow> Inr (Some role)
          | None \<Rightarrow> st_role st resourceID))"

subsection \<open>Conditions and membership\<close>

text \<open>
  What evaluating an expression over the request time comes to: a Boolean, a residual because it
  depends on other variables, or a failure of one of the steps.
\<close>

datatype cel_outcome = CelError | CelResidual | CelBool bool

type_synonym cel = "string \<Rightarrow> time \<Rightarrow> cel_outcome"

definition EvalBindingCondition :: "cel \<Rightarrow> string \<Rightarrow> time \<Rightarrow> iam_error + bool" where
  "EvalBindingCondition cel expr requestTime =
     (if expr = [] then Inr True
      else (case cel expr requestTime of
          CelError \<Rightarrow> Inl ConditionError
        | CelResidual \<Rightarrow> Inl ConditionError
        | CelBool b \<Rightarrow> Inr b))"

definition validateIAMBinding :: "cel \<Rightarrow> time \<Rightarrow> Binding \<Rightarrow> bool" where
  "validateIAMBinding cel now binding =
     (case EvalBindingCondition cel (b_Condition binding) now of Inl _ \<Rightarrow> False | Inr ok \<Rightarrow> ok)"

definition AllUsers :: string where
  "AllUsers = ''allUsers''"

definition getUserByIdentifier :: "IamStore \<Rightarrow> string \<Rightarrow> UserMessage option" where
  "getUserByIdentifier st identifier =
     (case GetUserID identifier of
        Inl _ \<Rightarrow> None
      | Inr uid \<Rightarrow> (case st_user st uid of Inl _ \<Rightarrow> None | Inr user \<Rightarrow> user))"

definition GetUsersByMember :: "IamStore \<Rightarrow> string \<Rightarrow> UserMessage list" where
  "GetUsersByMember st member =
     (if HasPrefix member UserNamePrefix
      then (case getUserByIdentifier st member of None \<Rightarrow> [] | Some user \<Rightarrow> [user])
      else if HasPrefix member GroupPrefix
      then (case GetGroupEmail member of
          Inl _ \<Rightarrow> []
        | Inr email \<Rightarrow> (case st_group st email of
              Inr (Some grp) \<Rightarrow> List.map_filter (getUserByIdentifier st) (g_Members grp)
            | _ \<Rightarrow> []))
      else [])"

text \<open>The loop over the members of a binding.\<close>

fun hasUserLoop :: "IamStore \<Rightarrow> string \<Rightarrow> string list \<Rightarrow> bool" where
  "hasUserLoop st userIDFullName [] = False"
| "hasUserLoop st userIDFullName (member # members) =
     (if member = AllUsers then True
      else if userIDFullName = member then True
      else if HasPrefix member GroupPrefix
      then (case GetGroupEmail member of
          Inl _ \<Rightarrow> hasUserLoop st userIDFullName members
        | Inr email \<Rightarrow> (case st_group st email of
              Inr (Some grp) \<Rightarrow>
                if userIDFullName \<in> set (g_Members grp) then True
                else hasUserLoop st userIDFullName members
            | _ \<Rightarrow> hasUserLoop st userIDFullName members))
      else hasUserLoop st userIDFullName members)"

definition GetUserIAMPolicyBindings ::
    "IamStore \<Rightarrow> cel \<Rightarrow> time \<Rightarrow> UserMessage \<Rightarrow> IamPolicy list \<Rightarrow> Binding list" where
  "GetUserIAMPolicyBindings st cel now user policies =
     concat (map (\<lambda>policy. filter
         (\<lambda>binding. validateIAMBinding cel now binding
            \<and> hasUserLoop st (FormatUserUID (u_ID user)) (b_Members binding))
         (Bindings policy)) policies)"

fun uniqLoop :: "'a list \<Rightarrow> 'a list \<Rightarrow> 'a list" where
  "uniqLoop seen [] = []"
| "uniqLoop seen (e # es) =
     (if e \<in> set seen then uniqLoop seen es else e # uniqLoop (e # seen) es)"

definition Uniq :: "'a list \<Rightarrow> 'a list" where
  "Uniq xs = uniqLoop [] xs"

definition GetUserRolesInIamPolicy ::
    "IamStore \<Rightarrow> cel \<Rightarrow> time \<Rightarrow> UserMessage \<Rightarrow> IamPolicy list \<Rightarrow> string list" where
  "GetUserRolesInIamPolicy st cel now user policies =
     Uniq (concat (map (\<lambda>policy. map b_Role (GetUserIAMPolicyBindings st cel now user [policy])) policies))"

subsection \<open>The engine\<close>

definition rolePermissions :: "IamStore \<Rightarrow> string \<Rightarrow> Permission list" where
  "rolePermissions st role =
     (case GetRoleSnapshot st (TrimPrefix role RolePrefix) of
        Inl _ \<Rightarrow> [] | Inr None \<Rightarrow> [] | Inr (Some roleMessage) \<Rightarrow> r_Permissions roleMessage)"

definition baselinePermissions :: "Permission list" where
  "baselinePermissions =
     (case GetPredefinedRole WorkspaceMemberRole of None \<Rightarrow> [] | Some role \<Rightarrow> r_Permissions role)"

definition CheckPermission ::
    "IamStore \<Rightarrow> cel \<Rightarrow> time \<Rightarrow> Permission \<Rightarrow> UserMessage option \<Rightarrow> iam_error + bool" where
  "CheckPermission st cel now perm user =
     (case user of
        None \<Rightarrow> Inr False
      | Some u \<Rightarrow>
          if perm \<in> set baselinePermissions then Inr True
          else (case st_policy st of
              Inl err \<Rightarrow> Inl err
            | Inr policy \<Rightarrow>
                Inr (list_ex (\<lambda>role. perm \<in> set (rolePermissions st role))
                  (GetUserRolesInIamPolicy st cel now u [policy]))))"

text \<open>The permissions collected in a map, then listed in order.\<close>

definition sortedSet :: "string list \<Rightarrow> string list" where
  "sortedSet ps = sort (remdups ps)"

definition EffectivePermissions ::
    "IamStore \<Rightarrow> cel \<Rightarrow> time \<Rightarrow> UserMessage option \<Rightarrow> iam_error + Permission list" where
  "EffectivePermissions st cel now user =
     (case user of
        None \<Rightarrow> Inr (sortedSet baselinePermissions)
      | Some u \<Rightarrow> (case st_policy st of
            Inl err \<Rightarrow> Inl err
          | Inr policy \<Rightarrow> Inr (sortedSet (baselinePermissions
              @ concat (map (rolePermissions st) (GetUserRolesInIamPolicy st cel now u [policy]))))))"

record AuthContext =
  AllowWithoutCredential :: bool
  PermissionRequired :: Permission

text \<open>The interceptor: \<open>None\<close> lets the call through.\<close>

definition authorize ::
    "IamStore \<Rightarrow> cel \<Rightarrow> time \<Rightarrow> AuthContext option \<Rightarrow> UserMessage option \<Rightarrow> iam_error option" where
  "authorize st cel now authCtx user =
     (case authCtx of
        None \<Rightarrow> Some Internal
      | Some ctx \<Rightarrow>
          if AllowWithoutCredential ctx \<or> PermissionRequired ctx = [] then None
          else if user = None then Some Unauthenticated
          else (case CheckPermission st cel now (PermissionRequired ctx) user of
              Inl _ \<Rightarrow> Some Internal
            | Inr ok \<Rightarrow> if \<not> ok then Some PermissionDenied else None))"

definition requirePermission ::
    "IamStore \<Rightarrow> cel \<Rightarrow> time \<Rightarrow> UserMessage option \<Rightarrow> Permission \<Rightarrow> iam_error option" where
  "requirePermission st cel now user perm =
     (if user = None then Some Unauthenticated
      else (case CheckPermission st cel now perm user of
          Inl _ \<Rightarrow> Some Internal
        | Inr ok \<Rightarrow> if \<not> ok then Some PermissionDenied else None))"

subsection \<open>Writing the policy\<close>

definition allUsersBaselineRole :: string where
  "allUsersBaselineRole = RolePrefix @ WorkspaceMemberRole"

definition checkAllUsersRole :: "IamPolicy \<Rightarrow> iam_error option" where
  "checkAllUsersRole policy =
     (if list_all (\<lambda>b. AllUsers \<notin> set (b_Members b) \<or> b_Role b = allUsersBaselineRole) (Bindings policy)
      then None else Some InvalidArgument)"

definition CheckAllUsersBinding :: "IamPolicy \<Rightarrow> iam_error option" where
  "CheckAllUsersBinding policy =
     (case checkAllUsersRole policy of
        Some err \<Rightarrow> Some err
      | None \<Rightarrow>
          if list_ex (\<lambda>b. b_Role b = allUsersBaselineRole \<and> AllUsers \<in> set (b_Members b)) (Bindings policy)
          then None else Some InvalidArgument)"

text \<open>The first loop of \<open>patchIamPolicyBindings\<close>, with the roles still pending, and the second.\<close>

fun patchLoop :: "string \<Rightarrow> string list \<Rightarrow> Binding list \<Rightarrow> Binding list \<times> string list" where
  "patchLoop member pending [] = ([], pending)"
| "patchLoop member pending (b # bs) =
     (let b' = (if b_Role b \<notin> set pending
                then (if member \<in> set (b_Members b)
                      then b\<lparr>b_Members := remove1 member (b_Members b)\<rparr> else b)
                else if member \<notin> set (b_Members b)
                then b\<lparr>b_Members := b_Members b @ [member]\<rparr> else b);
          (bs', rest) = patchLoop member (removeAll (b_Role b) pending) bs
      in (b' # bs', rest))"

fun appendLoop :: "string \<Rightarrow> string list \<Rightarrow> string list \<Rightarrow> Binding list" where
  "appendLoop member pending [] = []"
| "appendLoop member pending (role # roles) =
     (if role \<notin> set pending then appendLoop member pending roles
      else \<lparr>b_Role = role, b_Members = [member], b_Condition = []\<rparr>
        # appendLoop member (removeAll role pending) roles)"

definition patchIamPolicyBindings :: "IamPolicy \<Rightarrow> string \<Rightarrow> string list \<Rightarrow> IamPolicy" where
  "patchIamPolicyBindings policy member roles =
     (let (bs, pending) = patchLoop member roles (Bindings policy)
      in policy\<lparr>Bindings := bs @ appendLoop member pending roles\<rparr>)"

text \<open>The policy row: the policy and when it was written. \<open>time.Time.UnixMilli\<close> makes its etag.\<close>

type_synonym policy_row = "(IamPolicy \<times> time) option"

definition unix_epoch :: time where
  "unix_epoch = 62135596800 * second"

definition generateEtag :: "time \<Rightarrow> string" where
  "generateEtag t = fmt_d ((t - unix_epoch) div 1000000)"

definition row_policy :: "policy_row \<Rightarrow> IamPolicy" where
  "row_policy row = (case row of None \<Rightarrow> \<lparr>Bindings = []\<rparr> | Some (p, _) \<Rightarrow> p)"

definition row_etag :: "policy_row \<Rightarrow> string" where
  "row_etag row = (case row of None \<Rightarrow> [] | Some (_, t) \<Rightarrow> generateEtag t)"

definition etagMismatch :: "string \<Rightarrow> string \<Rightarrow> bool" where
  "etagMismatch current provided \<longleftrightarrow> provided \<noteq> [] \<and> provided \<noteq> current"

definition storeSetPolicy :: "time \<Rightarrow> IamPolicy \<Rightarrow> string \<Rightarrow> policy_row \<Rightarrow> iam_error + policy_row" where
  "storeSetPolicy now policy etag row =
     (case CheckAllUsersBinding policy of
        Some err \<Rightarrow> Inl err
      | None \<Rightarrow> if etagMismatch (row_etag row) etag then Inl Aborted else Inr (Some (policy, now)))"

definition storePatchPolicy :: "time \<Rightarrow> string \<Rightarrow> string list \<Rightarrow> policy_row \<Rightarrow> iam_error + policy_row" where
  "storePatchPolicy now member roles row =
     (let policy = patchIamPolicyBindings (row_policy row) member roles in
      case checkAllUsersRole policy of
        Some err \<Rightarrow> Inl err
      | None \<Rightarrow> Inr (Some (policy, now)))"

definition validateIamMember :: "IamStore \<Rightarrow> string \<Rightarrow> iam_error option" where
  "validateIamMember st member =
     (if member = AllUsers then None
      else if HasPrefix member UserNamePrefix
      then (case GetUserID member of
          Inl _ \<Rightarrow> Some InvalidArgument
        | Inr userID \<Rightarrow> (case st_user st userID of
              Inl _ \<Rightarrow> Some Internal
            | Inr None \<Rightarrow> Some InvalidArgument
            | Inr (Some user) \<Rightarrow> if u_MemberDeleted user then Some InvalidArgument else None))
      else if HasPrefix member GroupPrefix
      then (case GetGroupEmail member of
          Inl _ \<Rightarrow> Some Internal
        | Inr email \<Rightarrow> (case st_group st email of
              Inl _ \<Rightarrow> Some Internal
            | Inr None \<Rightarrow> Some InvalidArgument
            | Inr (Some _) \<Rightarrow> None))
      else Some InvalidArgument)"

text \<open>The first error of a loop that returns at the first one.\<close>

fun first_error :: "('a \<Rightarrow> iam_error option) \<Rightarrow> 'a list \<Rightarrow> iam_error option" where
  "first_error check [] = None"
| "first_error check (x # xs) = (case check x of Some err \<Rightarrow> Some err | None \<Rightarrow> first_error check xs)"

definition validateBinding :: "IamStore \<Rightarrow> cel \<Rightarrow> time \<Rightarrow> Binding \<Rightarrow> iam_error option" where
  "validateBinding st cel now b =
     (case GetRoleID (b_Role b) of
        Inl _ \<Rightarrow> Some InvalidArgument
      | Inr resourceID \<Rightarrow> (case GetRoleSnapshot st resourceID of
            Inl _ \<Rightarrow> Some Internal
          | Inr None \<Rightarrow> Some InvalidArgument
          | Inr (Some _) \<Rightarrow> (case EvalBindingCondition cel (b_Condition b) now of
                Inl _ \<Rightarrow> Some InvalidArgument
              | Inr _ \<Rightarrow> first_error (validateIamMember st) (b_Members b))))"

definition validateIamPolicy :: "IamStore \<Rightarrow> cel \<Rightarrow> time \<Rightarrow> IamPolicy \<Rightarrow> iam_error option" where
  "validateIamPolicy st cel now policy =
     (case CheckAllUsersBinding policy of
        Some _ \<Rightarrow> Some InvalidArgument
      | None \<Rightarrow> first_error (validateBinding st cel now) (Bindings policy))"

subsection \<open>The last administrator\<close>

definition activeEndUserCount :: "IamStore \<Rightarrow> iam_error + int" where
  "activeEndUserCount st =
     (case st_stats st of
        Inl err \<Rightarrow> Inl err
      | Inr stats \<Rightarrow> (case find (\<lambda>s. \<not> us_Deleted s \<and> us_Type s = END_USER) stats of
            None \<Rightarrow> Inr 0 | Some s \<Rightarrow> Inr (us_Count s)))"

text \<open>Whether a member covers an active end user other than the excluded one (0 for none).\<close>

definition memberCovered :: "IamStore \<Rightarrow> int \<Rightarrow> string \<Rightarrow> iam_error + bool" where
  "memberCovered st excludeUserID member =
     (if excludeUserID \<noteq> 0 \<and> member = FormatUserUID excludeUserID then Inr False
      else if member = AllUsers
      then (case activeEndUserCount st of
          Inl err \<Rightarrow> Inl err
        | Inr n \<Rightarrow> Inr (if excludeUserID \<noteq> 0 then 1 < n else 0 < n))
      else Inr (list_ex (\<lambda>u. \<not> (excludeUserID \<noteq> 0 \<and> u_ID u = excludeUserID)
                   \<and> \<not> u_MemberDeleted u \<and> u_Type u = END_USER)
                 (GetUsersByMember st member)))"

fun adminMembers ::
    "IamStore \<Rightarrow> int \<Rightarrow> string \<Rightarrow> string list \<Rightarrow> bool \<times> bool \<Rightarrow> iam_error + bool \<times> bool" where
  "adminMembers st excludeUserID expression [] (active, unconditional) = Inr (active, unconditional)"
| "adminMembers st excludeUserID expression (member # members) (active, unconditional) =
     (case memberCovered st excludeUserID member of
        Inl err \<Rightarrow> Inl err
      | Inr covered \<Rightarrow> adminMembers st excludeUserID expression members
          (if covered then (True, unconditional \<or> expression = []) else (active, unconditional)))"

fun adminBindings ::
    "IamStore \<Rightarrow> cel \<Rightarrow> time \<Rightarrow> int \<Rightarrow> Binding list \<Rightarrow> bool \<times> bool \<Rightarrow> iam_error + bool \<times> bool" where
  "adminBindings st cel now excludeUserID [] acc = Inr acc"
| "adminBindings st cel now excludeUserID (b # bs) acc =
     (case GetRoleSnapshot st (TrimPrefix (b_Role b) RolePrefix) of
        Inl err \<Rightarrow> Inl err
      | Inr None \<Rightarrow> adminBindings st cel now excludeUserID bs acc
      | Inr (Some role) \<Rightarrow>
          if IAMSetPolicy \<notin> set (r_Permissions role) then adminBindings st cel now excludeUserID bs acc
          else (case EvalBindingCondition cel (b_Condition b) now of
              Inl _ \<Rightarrow> adminBindings st cel now excludeUserID bs acc
            | Inr False \<Rightarrow> adminBindings st cel now excludeUserID bs acc
            | Inr True \<Rightarrow> (case adminMembers st excludeUserID (b_Condition b) (b_Members b) acc of
                  Inl err \<Rightarrow> Inl err
                | Inr acc' \<Rightarrow> adminBindings st cel now excludeUserID bs acc')))"

definition hasActiveWorkspaceAdmin ::
    "IamStore \<Rightarrow> cel \<Rightarrow> time \<Rightarrow> IamPolicy \<Rightarrow> int \<Rightarrow> iam_error + bool" where
  "hasActiveWorkspaceAdmin st cel now policy excludeUserID =
     (case adminBindings st cel now excludeUserID (Bindings policy) (False, False) of
        Inl err \<Rightarrow> Inl err
      | Inr (active, unconditional) \<Rightarrow> Inr (active \<and> unconditional))"

text \<open>
  The RPC that replaces the policy: it checks what the store holds, and then writes. Nothing is locked in
  between, so the row may be another one than the check saw.
\<close>

definition checkSetPolicy :: "IamStore \<Rightarrow> cel \<Rightarrow> time \<Rightarrow> IamPolicy \<Rightarrow> iam_error option" where
  "checkSetPolicy st cel now policy =
     (case validateIamPolicy st cel now policy of
        Some err \<Rightarrow> Some err
      | None \<Rightarrow> (case hasActiveWorkspaceAdmin st cel now policy 0 of
            Inl _ \<Rightarrow> Some Internal
          | Inr ok \<Rightarrow> if \<not> ok then Some InvalidArgument else None))"

definition writeSetPolicy :: "time \<Rightarrow> IamPolicy \<Rightarrow> string \<Rightarrow> policy_row \<Rightarrow> iam_error + policy_row" where
  "writeSetPolicy now policy etag row =
     (case storeSetPolicy now policy etag row of
        Inl Aborted \<Rightarrow> Inl Aborted
      | Inl _ \<Rightarrow> Inl Internal
      | Inr row' \<Rightarrow> Inr row')"

definition SetWorkspaceIamPolicy ::
    "IamStore \<Rightarrow> cel \<Rightarrow> time \<Rightarrow> IamPolicy \<Rightarrow> string \<Rightarrow> policy_row \<Rightarrow> iam_error + policy_row" where
  "SetWorkspaceIamPolicy st cel now policy etag row =
     (case checkSetPolicy st cel now policy of
        Some err \<Rightarrow> Inl err
      | None \<Rightarrow> writeSetPolicy now policy etag row)"

text \<open>
  The RPC that deletes a user, in the same two steps: \<open>caller\<close> says that the context names one, and
  \<open>updateUser\<close> is what the write to the database answers.
\<close>

datatype delete_error = CallerMissing | BadName | LookupFailed | NotFound | PolicyFailed iam_error | LastAdmin | UpdateFailed

definition checkDeleteUser ::
    "IamStore \<Rightarrow> cel \<Rightarrow> time \<Rightarrow> bool \<Rightarrow> string \<Rightarrow> delete_error + UserMessage" where
  "checkDeleteUser st cel now caller name =
     (if \<not> caller then Inl CallerMissing
      else (case GetUserID name of
          Inl _ \<Rightarrow> Inl BadName
        | Inr userID \<Rightarrow> (case st_user st userID of
              Inl _ \<Rightarrow> Inl LookupFailed
            | Inr None \<Rightarrow> Inl NotFound
            | Inr (Some user) \<Rightarrow>
                if u_MemberDeleted user then Inl NotFound
                else (case st_policy st of
                    Inl err \<Rightarrow> Inl (PolicyFailed err)
                  | Inr policy \<Rightarrow> (case hasActiveWorkspaceAdmin st cel now policy (u_ID user) of
                        Inl err \<Rightarrow> Inl (PolicyFailed err)
                      | Inr hasExtra \<Rightarrow> if \<not> hasExtra then Inl LastAdmin else Inr user)))))"

definition writeDeleteUser :: "iam_error option \<Rightarrow> UserMessage \<Rightarrow> IamStore \<Rightarrow> delete_error + IamStore" where
  "writeDeleteUser updateUser user st =
     (if updateUser \<noteq> None then Inl UpdateFailed
      else Inr (st\<lparr>st_user := (st_user st)(u_ID user := Inr (Some (user\<lparr>u_MemberDeleted := True\<rparr>)))\<rparr>))"

definition DeleteUser ::
    "IamStore \<Rightarrow> cel \<Rightarrow> time \<Rightarrow> bool \<Rightarrow> iam_error option \<Rightarrow> string \<Rightarrow> delete_error + IamStore" where
  "DeleteUser st cel now caller updateUser name =
     (case checkDeleteUser st cel now caller name of
        Inl err \<Rightarrow> Inl err
      | Inr user \<Rightarrow> writeDeleteUser updateUser user st)"

end
