(* ===== verification/IAM_Laws.thy ===== *)
theory IAM_Laws
  imports IAM
begin

text \<open>
  What the permission checks decide: the check against the list shown to the user, what a caller
  without a grant can do, and that a workspace keeps an administrator.
\<close>

subsection \<open>The check and the list\<close>

lemma set_sortedSet [simp]: "set (sortedSet ps) = set ps"
  by (simp add: sortedSet_def)

lemma sortedSet_sorted: "sorted (sortedSet ps) \<and> distinct (sortedSet ps)"
  by (simp add: sortedSet_def)

lemma sortedSet_cong: "set ps = set qs \<Longrightarrow> sortedSet ps = sortedSet qs"
  by (metis sortedSet_sorted set_sortedSet sorted_distinct_set_unique)

text \<open>
  The check a request goes through (\<open>CheckPermission\<close>) grants exactly the permissions that
  \<open>EffectivePermissions\<close> lists for the caller, whatever the policy, the groups, the custom roles and
  the conditions are; when the policy cannot be read, both fail, except that the check still grants
  the baseline. The list is sorted and has no duplicates, and a missing user has no permission.
\<close>

theorem check_grants_effective:
  "CheckPermission st cel now perm (Some u) =
     (case EffectivePermissions st cel now (Some u) of
        Inr ps \<Rightarrow> Inr (perm \<in> set ps)
      | Inl err \<Rightarrow> if perm \<in> set baselinePermissions then Inr True else Inl err) \<and>
   (case EffectivePermissions st cel now user of Inr ps \<Rightarrow> sorted ps \<and> distinct ps | Inl _ \<Rightarrow> True) \<and>
   CheckPermission st cel now perm None = Inr False"
  by (auto simp: CheckPermission_def EffectivePermissions_def list_ex_iff sortedSet_sorted split: sum.splits option.splits)

subsection \<open>Members\<close>

definition memberMatches :: "IamStore \<Rightarrow> string \<Rightarrow> string \<Rightarrow> bool" where
  "memberMatches st name member \<longleftrightarrow>
     member = AllUsers \<or> member = name \<or>
     (HasPrefix member GroupPrefix \<and>
       (case GetGroupEmail member of
          Inl _ \<Rightarrow> False
        | Inr email \<Rightarrow> (case st_group st email of
              Inr (Some g) \<Rightarrow> name \<in> set (g_Members g) | _ \<Rightarrow> False)))"

lemma hasUserLoop_iff: "hasUserLoop st name members \<longleftrightarrow> list_ex (memberMatches st name) members"
proof (induction members)
  case (Cons m ms)
  have "hasUserLoop st name (m # ms) \<longleftrightarrow> memberMatches st name m \<or> hasUserLoop st name ms"
    by (auto simp: memberMatches_def split: sum.split option.split)
  then show ?case using Cons.IH by simp
qed simp

lemma set_Uniq [simp]: "set (Uniq xs) = set xs"
proof -
  have "set (uniqLoop seen xs) = set xs - set seen" for seen
    by (induction seen xs rule: uniqLoop.induct) auto
  then show ?thesis by (simp add: Uniq_def)
qed

text \<open>A role is held through a binding whose condition is met and that names the user.\<close>

lemma user_roles:
  "role \<in> set (GetUserRolesInIamPolicy st cel now u [policy]) \<longleftrightarrow>
     (\<exists>b\<in>set (Bindings policy). b_Role b = role \<and> validateIAMBinding cel now b
        \<and> list_ex (memberMatches st (FormatUserUID (u_ID u))) (b_Members b))"
  by (auto simp: GetUserRolesInIamPolicy_def GetUserIAMPolicyBindings_def hasUserLoop_iff)

lemma check_outside_baseline:
  assumes "st_policy st = Inr policy" "perm \<notin> set baselinePermissions"
  shows "CheckPermission st cel now perm (Some u) = Inr
     (\<exists>b\<in>set (Bindings policy). perm \<in> set (rolePermissions st (b_Role b)) \<and> validateIAMBinding cel now b
        \<and> list_ex (memberMatches st (FormatUserUID (u_ID u))) (b_Members b))"
proof -
  have "list_ex (\<lambda>role. perm \<in> set (rolePermissions st role)) (GetUserRolesInIamPolicy st cel now u [policy]) \<longleftrightarrow>
      (\<exists>b\<in>set (Bindings policy). perm \<in> set (rolePermissions st (b_Role b)) \<and> validateIAMBinding cel now b
        \<and> list_ex (memberMatches st (FormatUserUID (u_ID u))) (b_Members b))"
    unfolding list_ex_iff [of "\<lambda>role. perm \<in> set (rolePermissions st role)"] Bex_def user_roles by blast
  then show ?thesis using assms by (simp add: CheckPermission_def)
qed

lemma baseline_role: "rolePermissions st allUsersBaselineRole = memberBaselinePermissions"
  "baselinePermissions = memberBaselinePermissions"
  "GetRoleSnapshot st (TrimPrefix allUsersBaselineRole RolePrefix)
     = Inr (Some \<lparr>r_ResourceID = WorkspaceMemberRole, r_Permissions = memberBaselinePermissions\<rparr>)"
  by (simp_all add: rolePermissions_def baselinePermissions_def allUsersBaselineRole_def RolePrefix_def
      TrimPrefix_def HasPrefix_def WorkspaceMemberRole_def GetRoleSnapshot_def GetPredefinedRole_def
      PredefinedRoles_def WorkspaceAdminRole_def)

lemma setPolicy_outside: "IAMSetPolicy \<notin> set memberBaselinePermissions"
  by (simp add: IAMSetPolicy_def memberBaselinePermissions_def)

subsection \<open>What a policy write keeps\<close>

text \<open>The writers of the policy row, from the row that is missing on a fresh install.\<close>

inductive policy_step :: "policy_row \<Rightarrow> policy_row \<Rightarrow> bool" where
  replace: "storeSetPolicy now policy etag row = Inr row' \<Longrightarrow> policy_step row row'"
| patch: "storePatchPolicy now member roles row = Inr row' \<Longrightarrow> policy_step row row'"

inductive policy_reachable :: "policy_row \<Rightarrow> bool" where
  fresh: "policy_reachable None"
| step: "policy_reachable row \<Longrightarrow> policy_step row row' \<Longrightarrow> policy_reachable row'"

inductive_cases policy_stepE: "policy_step row row'"

lemma policy_step_allUsers: "policy_step row row' \<Longrightarrow> checkAllUsersRole (row_policy row') = None"
  by (erule policy_stepE)
    (auto simp: storeSetPolicy_def storePatchPolicy_def CheckAllUsersBinding_def row_policy_def Let_def
      split: option.splits if_splits)

lemma reachable_allUsers: "policy_reachable row \<Longrightarrow> checkAllUsersRole (row_policy row) = None"
  by (induction rule: policy_reachable.induct)
    (auto simp: policy_step_allUsers, simp add: row_policy_def checkAllUsersRole_def)

lemma allUsers_only_baseline:
  "checkAllUsersRole policy = None \<Longrightarrow> b \<in> set (Bindings policy) \<Longrightarrow> AllUsers \<in> set (b_Members b)
    \<Longrightarrow> b_Role b = allUsersBaselineRole"
  by (auto simp: checkAllUsersRole_def list_all_iff split: if_splits)

text \<open>A binding names a user when one of its members other than \<open>allUsers\<close> matches.\<close>

definition named_in :: "IamStore \<Rightarrow> UserMessage \<Rightarrow> IamPolicy \<Rightarrow> bool" where
  "named_in st u policy =
     list_ex (\<lambda>b. list_ex (memberMatches st (FormatUserUID (u_ID u))) (removeAll AllUsers (b_Members b)))
       (Bindings policy)"

lemma unnamed_roles:
  assumes "checkAllUsersRole policy = None" "\<not> named_in st u policy"
    and "role \<in> set (GetUserRolesInIamPolicy st cel now u [policy])"
  shows "role = allUsersBaselineRole"
proof -
  obtain b m where b: "b \<in> set (Bindings policy)" "b_Role b = role" "m \<in> set (b_Members b)"
      "memberMatches st (FormatUserUID (u_ID u)) m"
    using assms(3) unfolding user_roles list_ex_iff by blast
  have "m = AllUsers" using assms(2) b by (auto simp: named_in_def list_ex_iff)
  then show ?thesis using allUsers_only_baseline [OF assms(1)] b by auto
qed

text \<open>
  C19. The signup invariant. Whatever sequence of full replacements and patches led to the stored
  policy, a user that no binding names, directly or through a group, and in particular everyone who
  signs up after the writes, holds exactly the member baseline: \<open>EffectivePermissions\<close> lists it and
  nothing else, and the interceptor refuses every method that requires another permission, whatever
  the groups, the custom roles and the conditions are.
\<close>

theorem unnamed_user_gets_baseline:
  assumes "policy_reachable row" and "st_policy st = Inr (row_policy row)"
    and "\<not> named_in st u (row_policy row)"
  shows "EffectivePermissions st cel now (Some u) = Inr (sortedSet memberBaselinePermissions) \<and>
    (perm \<in> set memberBaselinePermissions \<or> perm = [] \<or>
     authorize st cel now (Some \<lparr>AllowWithoutCredential = False, PermissionRequired = perm\<rparr>) (Some u)
       = Some PermissionDenied)"
proof -
  have only: "role = allUsersBaselineRole"
    if "role \<in> set (GetUserRolesInIamPolicy st cel now u [row_policy row])" for role
    using unnamed_roles [OF reachable_allUsers [OF assms(1)] assms(3)] that by blast
  have perms: "rolePermissions st role = memberBaselinePermissions"
    if "role \<in> set (GetUserRolesInIamPolicy st cel now u [row_policy row])" for role
    using only [OF that] by (simp add: baseline_role)
  have "set (memberBaselinePermissions
      @ concat (map (rolePermissions st) (GetUserRolesInIamPolicy st cel now u [row_policy row])))
    = set memberBaselinePermissions"
    by (auto simp: perms)
  from sortedSet_cong [OF this]
  have effective: "EffectivePermissions st cel now (Some u) = Inr (sortedSet memberBaselinePermissions)"
    using assms(2) by (simp add: EffectivePermissions_def baseline_role)
  have check: "perm \<notin> set memberBaselinePermissions \<Longrightarrow> CheckPermission st cel now perm (Some u) = Inr False"
    using assms(2) by (simp add: CheckPermission_def baseline_role(2) list_ex_iff perms)
  then have "perm \<in> set memberBaselinePermissions \<or> perm = [] \<or>
     authorize st cel now (Some \<lparr>AllowWithoutCredential = False, PermissionRequired = perm\<rparr>) (Some u)
       = Some PermissionDenied"
    by (cases "perm \<in> set memberBaselinePermissions") (simp_all add: authorize_def)
  then show ?thesis using effective by simp
qed

subsection \<open>A patch of the policy\<close>

lemma patchLoop_bindings:
  "patchLoop member pending bs = (bs', rest) \<Longrightarrow> list_all (\<lambda>b. distinct (b_Members b)) bs \<Longrightarrow>
     set rest = set pending - b_Role ` set bs \<and>
     list_all2 (\<lambda>b b'. b_Role b' = b_Role b \<and> b_Condition b' = b_Condition b
        \<and> removeAll member (b_Members b') = removeAll member (b_Members b) \<and> distinct (b_Members b')) bs bs' \<and>
     (\<forall>role. (\<exists>b\<in>set bs'. b_Role b = role \<and> member \<in> set (b_Members b)) \<longleftrightarrow> role \<in> set pending \<and> role \<in> b_Role ` set bs)"
proof (induction bs arbitrary: pending bs' rest)
  case (Cons b bs)
  obtain cs where cs: "patchLoop member (removeAll (b_Role b) pending) bs = (cs, rest)"
    and bs': "bs' = (if b_Role b \<notin> set pending
                then (if member \<in> set (b_Members b)
                      then b\<lparr>b_Members := remove1 member (b_Members b)\<rparr> else b)
                else if member \<notin> set (b_Members b)
                then b\<lparr>b_Members := b_Members b @ [member]\<rparr> else b) # cs"
    using Cons.prems(1) by (auto simp: Let_def split: prod.splits)
  have d: "distinct (b_Members b)" "list_all (\<lambda>b. distinct (b_Members b)) bs"
    using Cons.prems(2) by auto
  note IH = Cons.IH [OF cs d(2)]
  show ?case using IH d(1)
    by (auto simp: bs' distinct_remove1_removeAll distinct_removeAll)
qed auto

lemma appendLoop_eq:
  "(\<And>r. r \<in> set pending \<longleftrightarrow> P r \<and> r \<notin> set seen) \<Longrightarrow>
   appendLoop member pending roles =
     map (\<lambda>role. \<lparr>b_Role = role, b_Members = [member], b_Condition = []\<rparr>) (uniqLoop seen (filter P roles))"
proof (induction roles arbitrary: pending seen)
  case (Cons r rs)
  show ?case
  proof (cases "r \<in> set pending")
    case True
    then show ?thesis using Cons.IH [of "removeAll r pending" "r # seen"] Cons.prems by auto
  next
    case False
    then show ?thesis using Cons.IH [of pending seen] Cons.prems by auto
  qed
qed simp

text \<open>
  A patch gives a member exactly the requested roles. When no binding lists a member twice,
  afterwards the member is in a binding of a role precisely when the role was requested; every
  binding keeps its place, role, condition and other members; and the roles that had no binding are
  appended in request order, each once, for this member alone.
\<close>

theorem patch_sets_roles:
  assumes "list_all (\<lambda>b. distinct (b_Members b)) (Bindings policy)"
  shows "((\<exists>b\<in>set (Bindings (patchIamPolicyBindings policy member roles)).
             b_Role b = role \<and> member \<in> set (b_Members b)) \<longleftrightarrow> role \<in> set roles) \<and>
    map (\<lambda>b. (b_Role b, b_Condition b, removeAll member (b_Members b)))
        (Bindings (patchIamPolicyBindings policy member roles)) =
      map (\<lambda>b. (b_Role b, b_Condition b, removeAll member (b_Members b))) (Bindings policy)
      @ map (\<lambda>r. (r, [], [])) (Uniq (filter (\<lambda>r. r \<notin> b_Role ` set (Bindings policy)) roles))"
proof -
  obtain bs rest where p: "patchLoop member roles (Bindings policy) = (bs, rest)" by fastforce
  note b = patchLoop_bindings [OF p assms]
  have a: "appendLoop member rest roles =
      map (\<lambda>role. \<lparr>b_Role = role, b_Members = [member], b_Condition = []\<rparr>)
        (uniqLoop [] (filter (\<lambda>r. r \<in> set roles \<and> r \<notin> b_Role ` set (Bindings policy)) roles))"
    by (rule appendLoop_eq) (use b in auto)
  have f: "filter (\<lambda>r. r \<in> set roles \<and> r \<notin> b_Role ` set (Bindings policy)) roles
      = filter (\<lambda>r. r \<notin> b_Role ` set (Bindings policy)) roles"
    by (rule filter_cong) auto
  let ?new = "Uniq (filter (\<lambda>r. r \<notin> b_Role ` set (Bindings policy)) roles)"
  have r: "Bindings (patchIamPolicyBindings policy member roles) = bs @
      map (\<lambda>role. \<lparr>b_Role = role, b_Members = [member], b_Condition = []\<rparr>) ?new"
    by (simp add: patchIamPolicyBindings_def p a f Uniq_def [symmetric])
  have "map (\<lambda>b. (b_Role b, b_Condition b, removeAll member (b_Members b))) (Bindings policy) =
      map (\<lambda>b. (b_Role b, b_Condition b, removeAll member (b_Members b))) bs"
    using b by (auto simp: list_eq_iff_nth_eq list_all2_conv_all_nth)
  moreover have "(\<exists>b\<in>set bs. b_Role b = role \<and> member \<in> set (b_Members b))
      \<or> role \<in> set ?new \<longleftrightarrow> role \<in> set roles"
    using b by auto
  ultimately show ?thesis by (auto simp: r bex_Un)
qed

subsection \<open>The last administrator\<close>

text \<open>The guard was satisfied by a binding without a condition.\<close>

lemma adminMembers_unconditional:
  "adminMembers st ex expr members (a, uc) = Inr (a', True) \<Longrightarrow>
     uc \<or> expr = [] \<and> (\<exists>m\<in>set members. memberCovered st ex m = Inr True)"
  by (induction st ex expr members "(a, uc)" arbitrary: a uc rule: adminMembers.induct)
    (force split: sum.splits if_splits)+

lemma adminBindings_unconditional:
  "adminBindings st cel now ex bs acc = Inr (a', True) \<Longrightarrow>
     snd acc \<or> (\<exists>b\<in>set bs. b_Condition b = [] \<and> IAMSetPolicy \<in> set (rolePermissions st (b_Role b)) \<and>
        (\<exists>m\<in>set (b_Members b). memberCovered st ex m = Inr True))"
proof (induction st cel now ex bs acc rule: adminBindings.induct)
  case (2 st cel now ex b bs acc)
  obtain r where r: "GetRoleSnapshot st (TrimPrefix (b_Role b) RolePrefix) = Inr r"
    by (cases "GetRoleSnapshot st (TrimPrefix (b_Role b) RolePrefix)") (use "2.prems" in auto)
  show ?case
  proof (cases "\<exists>role. r = Some role \<and> IAMSetPolicy \<in> set (r_Permissions role)
      \<and> EvalBindingCondition cel (b_Condition b) now = Inr True")
    case True
    then obtain role where role: "r = Some role" "IAMSetPolicy \<in> set (r_Permissions role)"
      "EvalBindingCondition cel (b_Condition b) now = Inr True" by blast
    obtain acc' where acc': "adminMembers st ex (b_Condition b) (b_Members b) acc = Inr acc'"
      "adminBindings st cel now ex bs acc' = Inr (a', True)"
      using "2.prems" r role by (auto split: sum.splits)
    have "snd acc' \<or> (\<exists>b\<in>set bs. b_Condition b = [] \<and> IAMSetPolicy \<in> set (rolePermissions st (b_Role b)) \<and>
        (\<exists>m\<in>set (b_Members b). memberCovered st ex m = Inr True))"
      using "2.IH" r role acc' by auto
    moreover have "snd acc' \<Longrightarrow> snd acc \<or> b_Condition b = [] \<and> (\<exists>m\<in>set (b_Members b). memberCovered st ex m = Inr True)"
      using adminMembers_unconditional acc'(1) by (metis prod.collapse)
    moreover have "IAMSetPolicy \<in> set (rolePermissions st (b_Role b))"
      using r role by (simp add: rolePermissions_def)
    ultimately show ?thesis by auto
  next
    case False
    then have "adminBindings st cel now ex bs acc = Inr (a', True)"
      using "2.prems" r by (auto split: option.splits sum.splits bool.splits if_splits)
    then show ?thesis using "2.IH" r False
      by (cases r; cases "EvalBindingCondition cel (b_Condition b) now") (auto split: bool.splits)
  qed
qed auto

text \<open>
  What the rows of the database keep: a user is found under its own identifier, and identifiers are
  positive.
\<close>

definition users_by_id :: "IamStore \<Rightarrow> bool" where
  "users_by_id st \<longleftrightarrow> (\<forall>uid u. st_user st uid = Inr (Some u) \<longrightarrow> u_ID u = uid \<and> 0 < uid)"

text \<open>Names written the way the code writes them: \<open>users/7\<close>, not \<open>users/07\<close> or \<open>users/+7\<close>.\<close>

definition canonical_name :: "string \<Rightarrow> bool" where
  "canonical_name name \<longleftrightarrow> (case GetUserID name of Inl _ \<Rightarrow> True | Inr uid \<Rightarrow> name = FormatUserUID uid)"

definition canonical_member :: "IamStore \<Rightarrow> string \<Rightarrow> bool" where
  "canonical_member st member \<longleftrightarrow> canonical_name member \<and>
     (case GetGroupEmail member of
        Inl _ \<Rightarrow> True
      | Inr email \<Rightarrow> (case st_group st email of
            Inr (Some g) \<Rightarrow> list_all canonical_name (g_Members g) | _ \<Rightarrow> True))"

definition canonical_policy :: "IamStore \<Rightarrow> IamPolicy \<Rightarrow> bool" where
  "canonical_policy st policy \<longleftrightarrow> list_all (\<lambda>b. list_all (canonical_member st) (b_Members b)) (Bindings policy)"

definition active_end_user :: "IamStore \<Rightarrow> UserMessage \<Rightarrow> bool" where
  "active_end_user st u \<longleftrightarrow> st_user st (u_ID u) = Inr (Some u) \<and> \<not> u_MemberDeleted u \<and> u_Type u = END_USER"

lemma user_by_canonical_name:
  assumes "users_by_id st" "canonical_name name" "getUserByIdentifier st name = Some u"
  shows "name = FormatUserUID (u_ID u) \<and> st_user st (u_ID u) = Inr (Some u)"
  using assms by (auto simp: getUserByIdentifier_def canonical_name_def users_by_id_def split: sum.splits)

lemma member_users:
  assumes "users_by_id st" "canonical_member st member" "u \<in> set (GetUsersByMember st member)"
  shows "memberMatches st (FormatUserUID (u_ID u)) member \<and> st_user st (u_ID u) = Inr (Some u)"
proof (cases "HasPrefix member UserNamePrefix")
  case True
  then have "getUserByIdentifier st member = Some u"
    using assms(3) by (auto simp: GetUsersByMember_def split: option.splits)
  then show ?thesis
    using user_by_canonical_name [OF assms(1)] assms(2) by (auto simp: memberMatches_def canonical_member_def)
next
  case False
  then have p: "HasPrefix member GroupPrefix"
    using assms(3) by (cases "HasPrefix member GroupPrefix") (simp_all add: GetUsersByMember_def)
  obtain email where e: "GetGroupEmail member = Inr email"
    using assms(3) False p by (cases "GetGroupEmail member"; simp add: GetUsersByMember_def)
  obtain g where g: "HasPrefix member GroupPrefix" "GetGroupEmail member = Inr email"
      "st_group st email = Inr (Some g)" "u \<in> set (List.map_filter (getUserByIdentifier st) (g_Members g))"
    using assms(3) False p e
    by (cases "st_group st email"; cases "projr (st_group st email)"; auto simp: GetUsersByMember_def)
  then obtain name where n: "name \<in> set (g_Members g)" "getUserByIdentifier st name = Some u"
    by (auto simp: List.map_filter_def)
  have "canonical_name name" using assms(2) g n by (simp add: canonical_member_def list_all_iff)
  then show ?thesis
    using user_by_canonical_name [OF assms(1)] g n by (auto simp: memberMatches_def)
qed

lemma covered_user:
  assumes "users_by_id st" "canonical_member st member" "member \<noteq> AllUsers"
    "memberCovered st ex member = Inr True"
  obtains u where "active_end_user st u" "memberMatches st (FormatUserUID (u_ID u)) member" "ex = 0 \<or> u_ID u \<noteq> ex"
proof -
  from assms(3,4) obtain u where "u \<in> set (GetUsersByMember st member)" "\<not> (ex \<noteq> 0 \<and> u_ID u = ex)"
      "\<not> u_MemberDeleted u" "u_Type u = END_USER"
    by (auto simp: memberCovered_def list_ex_iff split: if_splits)
  then show thesis using member_users [OF assms(1,2)] that by (auto simp: active_end_user_def)
qed

text \<open>The guard names an administrator whose grant does not lapse.\<close>

lemma guard_names_admin:
  assumes "users_by_id st" "canonical_policy st policy" "checkAllUsersRole policy = None"
    "hasActiveWorkspaceAdmin st cel now policy ex = Inr True"
  obtains u b where "active_end_user st u" "ex = 0 \<or> u_ID u \<noteq> ex" "b \<in> set (Bindings policy)"
    "b_Condition b = []" "IAMSetPolicy \<in> set (rolePermissions st (b_Role b))"
    "list_ex (memberMatches st (FormatUserUID (u_ID u))) (b_Members b)"
proof -
  obtain a where "adminBindings st cel now ex (Bindings policy) (False, False) = Inr (a, True)"
    using assms(4) by (auto simp: hasActiveWorkspaceAdmin_def split: sum.splits)
  from adminBindings_unconditional [OF this] obtain b m where b: "b \<in> set (Bindings policy)" "b_Condition b = []"
      "IAMSetPolicy \<in> set (rolePermissions st (b_Role b))" "m \<in> set (b_Members b)" "memberCovered st ex m = Inr True"
    by auto
  have "m \<noteq> AllUsers"
    using allUsers_only_baseline [OF assms(3) b(1)] b(3,4) baseline_role(1) [of st] setPolicy_outside by auto
  moreover have "canonical_member st m" using assms(2) b by (auto simp: canonical_policy_def list_all_iff)
  ultimately obtain u where "active_end_user st u" "memberMatches st (FormatUserUID (u_ID u)) m" "ex = 0 \<or> u_ID u \<noteq> ex"
    using covered_user assms(1) b(5) by blast
  then show thesis using that b by (auto simp: list_ex_iff)
qed

lemma unconditional_grant:
  assumes "st_policy st = Inr policy" "b \<in> set (Bindings policy)" "b_Condition b = []"
    "perm \<in> set (rolePermissions st (b_Role b))"
    "list_ex (memberMatches st (FormatUserUID (u_ID u))) (b_Members b)"
  shows "CheckPermission st cel now perm (Some u) = Inr True"
proof (cases "perm \<in> set baselinePermissions")
  case True
  then show ?thesis by (simp add: CheckPermission_def)
next
  case False
  have "validateIAMBinding cel now b" using assms(3) by (simp add: validateIAMBinding_def EvalBindingCondition_def)
  then show ?thesis unfolding check_outside_baseline [OF assms(1) False] using assms by auto
qed

lemma store_updates [simp]:
  "memberMatches (st\<lparr>st_policy := p\<rparr>) = memberMatches st" "memberMatches (st\<lparr>st_user := f\<rparr>) = memberMatches st"
  "rolePermissions (st\<lparr>st_policy := p\<rparr>) = rolePermissions st" "rolePermissions (st\<lparr>st_user := f\<rparr>) = rolePermissions st"
  by (intro ext, auto simp: memberMatches_def rolePermissions_def GetRoleSnapshot_def split: sum.split option.split)+

text \<open>
  Somebody can change the policy, now and later, and however the conditions evaluate then: the store as it
  is has an active end user who holds \<open>iam.setPolicy\<close> at every time.
\<close>

definition administrable :: "IamStore \<Rightarrow> bool" where
  "administrable st \<longleftrightarrow> (\<exists>u. active_end_user st u \<and>
     (\<forall>cel now. CheckPermission st cel now IAMSetPolicy (Some u) = Inr True))"

text \<open>What the two guards find, in the store they look at.\<close>

lemma set_guard:
  assumes "users_by_id st" "canonical_policy st policy" "checkSetPolicy st cel now policy = None"
  shows "checkAllUsersRole policy = None" and "administrable (st\<lparr>st_policy := Inr policy\<rparr>)"
proof -
  have v: "validateIamPolicy st cel now policy = None"
    and g: "hasActiveWorkspaceAdmin st cel now policy 0 = Inr True"
    using assms(3) by (auto simp: checkSetPolicy_def split: option.splits sum.splits if_splits)
  show c: "checkAllUsersRole policy = None"
    using v by (auto simp: validateIamPolicy_def CheckAllUsersBinding_def split: option.splits)
  obtain u b where u: "active_end_user st u" "b \<in> set (Bindings policy)"
    "b_Condition b = []" "IAMSetPolicy \<in> set (rolePermissions st (b_Role b))"
    "list_ex (memberMatches st (FormatUserUID (u_ID u))) (b_Members b)"
    using guard_names_admin [OF assms(1,2) c g] by metis
  have "CheckPermission (st\<lparr>st_policy := Inr policy\<rparr>) cel' now' IAMSetPolicy (Some u) = Inr True" for cel' now'
    by (rule unconditional_grant [where policy = policy and b = b]) (use u in simp_all)
  then show "administrable (st\<lparr>st_policy := Inr policy\<rparr>)"
    using u(1) by (auto simp: administrable_def active_end_user_def)
qed

lemma write_row: "writeSetPolicy now policy etag row = Inr row' \<Longrightarrow> row_policy row' = policy"
  by (auto simp: writeSetPolicy_def storeSetPolicy_def row_policy_def
      split: option.splits if_splits sum.splits iam_error.splits)

lemma delete_guard:
  assumes "users_by_id st" and "st_policy st = Inr policy" "canonical_policy st policy" "checkAllUsersRole policy = None"
    and "checkDeleteUser st cel now caller name = Inr user"
  shows "GetUserID name = Inr (u_ID user)" and "st_user st (u_ID user) = Inr (Some user)"
    and "administrable (st\<lparr>st_user := (st_user st)(u_ID user := Inr (Some (user\<lparr>u_MemberDeleted := True\<rparr>)))\<rparr>)"
proof -
  obtain uid where uid: "GetUserID name = Inr uid" "st_user st uid = Inr (Some user)"
    and g: "hasActiveWorkspaceAdmin st cel now policy (u_ID user) = Inr True"
    using assms(2,5) by (auto simp: checkDeleteUser_def split: option.splits sum.splits if_splits)
  have id: "u_ID user = uid" "uid \<noteq> 0" using assms(1) uid(2) by (auto simp: users_by_id_def)
  show "GetUserID name = Inr (u_ID user)" "st_user st (u_ID user) = Inr (Some user)" using uid id by simp_all
  obtain u b where u: "active_end_user st u" "u_ID u \<noteq> uid" "b \<in> set (Bindings policy)"
    "b_Condition b = []" "IAMSetPolicy \<in> set (rolePermissions st (b_Role b))"
    "list_ex (memberMatches st (FormatUserUID (u_ID u))) (b_Members b)"
    using guard_names_admin [OF assms(1,3,4) g] id by metis
  let ?st = "st\<lparr>st_user := (st_user st)(u_ID user := Inr (Some (user\<lparr>u_MemberDeleted := True\<rparr>)))\<rparr>"
  have "active_end_user ?st u" using u(1,2) id by (simp add: active_end_user_def)
  moreover have "CheckPermission ?st cel' now' IAMSetPolicy (Some u) = Inr True" for cel' now'
    by (rule unconditional_grant [where policy = policy and b = b]) (use u assms(2) in simp_all)
  ultimately show "administrable ?st" by (auto simp: administrable_def)
qed

text \<open>
  An accepted policy keeps the workspace administrable, provided its members are written the way the
  code writes them (\<open>users/7\<close>, not \<open>users/07\<close>). When the RPC accepts a policy, the stored row is that
  policy, and under it some active end user holds \<open>iam.setPolicy\<close> at every later time and however the
  conditions evaluate then, for as long as users, groups and roles stay as the check saw them.
\<close>

theorem set_policy_keeps_admin:
  assumes "users_by_id st" and "canonical_policy st policy"
    and "SetWorkspaceIamPolicy st cel now policy etag row = Inr row'"
  shows "row_policy row' = policy \<and>
    (\<exists>u. active_end_user st u \<and>
      (\<forall>cel' now'. CheckPermission (st\<lparr>st_policy := Inr (row_policy row')\<rparr>) cel' now' IAMSetPolicy (Some u) = Inr True))"
proof -
  have g: "checkSetPolicy st cel now policy = None" and w: "writeSetPolicy now policy etag row = Inr row'"
    using assms(3) by (auto simp: SetWorkspaceIamPolicy_def split: option.splits)
  show ?thesis
    using write_row [OF w] set_guard(2) [OF assms(1,2) g] by (simp add: administrable_def active_end_user_def)
qed

subsection \<open>A workspace with two administrators\<close>

definition example_user :: "int \<Rightarrow> UserMessage" where
  "example_user uid = \<lparr>u_ID = uid, u_Type = END_USER, u_MemberDeleted = False\<rparr>"

definition example_policy :: "string list \<Rightarrow> IamPolicy" where
  "example_policy admins = \<lparr>Bindings =
     [\<lparr>b_Role = ''roles/workspaceAdmin'', b_Members = admins, b_Condition = []\<rparr>,
      \<lparr>b_Role = ''roles/workspaceMember'', b_Members = [AllUsers], b_Condition = []\<rparr>]\<rparr>"

definition example_store :: "IamPolicy \<Rightarrow> IamStore" where
  "example_store policy =
     \<lparr>st_policy = Inr policy, st_cachedRole = (\<lambda>_. None), st_role = (\<lambda>_. Inr None),
      st_group = (\<lambda>_. Inr None),
      st_user = (\<lambda>uid. Inr (if uid \<in> {7, 8, 9} then Some (example_user uid) else None)),
      st_stats = Inr [\<lparr>us_Type = END_USER, us_Deleted = False, us_Count = 3\<rparr>]\<rparr>"

definition no_cel :: cel where
  "no_cel = (\<lambda>_ _. CelError)"

lemma example_users: "users_by_id (example_store policy)"
  by (auto simp: users_by_id_def example_store_def example_user_def split: if_splits)

lemma example_canonical:
  "canonical_policy (example_store policy) (example_policy [''users/7'', ''users/8''])"
  by (simp add: example_store_def) code_simp

lemma example_set:
  "SetWorkspaceIamPolicy (example_store (example_policy [])) no_cel 5 (example_policy [''users/7'', ''users/8'']) [] None
     = Inr (Some (example_policy [''users/7'', ''users/8''], 5))"
  by code_simp

lemma example_reachable: "policy_reachable (Some (example_policy [''users/7'', ''users/8''], 5))"
proof -
  have "storeSetPolicy 5 (example_policy [''users/7'', ''users/8'']) [] None
      = Inr (Some (example_policy [''users/7'', ''users/8''], 5))"
    by code_simp
  then show ?thesis by (blast intro: policy_reachable.intros policy_step.intros)
qed

lemma example_row: "st_policy (example_store policy) = Inr (row_policy (Some (policy, 5)))"
  by (simp add: example_store_def row_policy_def)

lemma unnamed_user_gets_baseline_witness:
  "EffectivePermissions (example_store (example_policy [''users/7'', ''users/8''])) no_cel 6 (Some (example_user 9))
     = Inr (sortedSet memberBaselinePermissions)"
proof -
  have "\<not> named_in (example_store (example_policy [''users/7'', ''users/8''])) (example_user 9)
      (row_policy (Some (example_policy [''users/7'', ''users/8''], 5)))"
    by code_simp
  from unnamed_user_gets_baseline [OF example_reachable example_row this] show ?thesis by blast
qed

lemma patch_sets_roles_witness:
  "map b_Members (Bindings (patchIamPolicyBindings (example_policy [''users/7'']) ''users/8''
     [''roles/workspaceAdmin'', ''roles/auditor''])) = [[''users/7'', ''users/8''], [AllUsers], [''users/8'']] \<and>
   (\<exists>b\<in>set (Bindings (patchIamPolicyBindings (example_policy [''users/7'']) ''users/8''
     [''roles/workspaceAdmin'', ''roles/auditor''])). b_Role b = ''roles/auditor'' \<and> ''users/8'' \<in> set (b_Members b))"
proof (intro conjI)
  have "list_all (\<lambda>b. distinct (b_Members b)) (Bindings (example_policy [''users/7'']))" by code_simp
  from patch_sets_roles [OF this, of "''users/8''" "[''roles/workspaceAdmin'', ''roles/auditor'']" "''roles/auditor''"]
  show "\<exists>b\<in>set (Bindings (patchIamPolicyBindings (example_policy [''users/7'']) ''users/8''
     [''roles/workspaceAdmin'', ''roles/auditor''])). b_Role b = ''roles/auditor'' \<and> ''users/8'' \<in> set (b_Members b)"
    by simp
qed code_simp

lemma set_policy_keeps_admin_witness:
  "\<exists>u. active_end_user (example_store (example_policy [])) u \<and>
     CheckPermission ((example_store (example_policy []))
       \<lparr>st_policy := Inr (example_policy [''users/7'', ''users/8''])\<rparr>) no_cel 6 IAMSetPolicy (Some u) = Inr True"
  using set_policy_keeps_admin [OF example_users example_canonical example_set] by fastforce

subsection \<open>Members written otherwise\<close>

text \<open>
  The hypothesis on the members is needed: the guard reads \<open>users/07\<close> as a number and finds the
  user, while the check compares names, so that a policy whose administrator is bound as
  \<open>users/07\<close> is accepted and nobody can change it any more.
\<close>

lemma alias_member_locks_out:
  "SetWorkspaceIamPolicy (example_store (example_policy [])) no_cel 5 (example_policy [''users/07'']) [] None
     = Inr (Some (example_policy [''users/07''], 5))"
  "CheckPermission (example_store (example_policy [''users/07''])) cel now IAMSetPolicy (Some u) = Inr False"
proof -
  show "SetWorkspaceIamPolicy (example_store (example_policy [])) no_cel 5 (example_policy [''users/07'']) [] None
     = Inr (Some (example_policy [''users/07''], 5))"
    by code_simp
  have p: "st_policy (example_store (example_policy [''users/07''])) = Inr (example_policy [''users/07''])"
    by (simp add: example_store_def)
  have b: "IAMSetPolicy \<notin> set baselinePermissions" by (simp add: baseline_role(2) setPolicy_outside)
  have "fmt_d i \<noteq> ''07''" for i
  proof
    assume "fmt_d i = ''07''"
    then have d: "dec (nat i) = ''07''" by (auto simp: fmt_d_def split: if_splits)
    then have "nat i = 7" using dec_value [of "nat i"] by (simp add: digits_value_def digit_value_def)
    then show False using d by (simp add: dec.simps [of 7])
  qed
  then have n: "FormatUserUID (u_ID u) \<noteq> ''users/07''" by (simp add: FormatUserUID_def UserNamePrefix_def)
  have m: "\<not> list_ex (memberMatches st (FormatUserUID (u_ID u))) [''users/07'']" for st
    using n by (simp add: memberMatches_def AllUsers_def HasPrefix_def GroupPrefix_def)
  have r: "IAMSetPolicy \<notin> set (rolePermissions st ''roles/workspaceMember'')" for st
    using baseline_role(1) [of st] setPolicy_outside
    by (simp add: allUsersBaselineRole_def RolePrefix_def WorkspaceMemberRole_def)
  then show "CheckPermission (example_store (example_policy [''users/07''])) cel now IAMSetPolicy (Some u) = Inr False"
    unfolding check_outside_baseline [OF p b] using m r by (auto simp: example_policy_def)
qed

end
