(* ===== verification/IAM_Administrators.thy ===== *)
theory IAM_Administrators
  imports IAM_Laws
begin

text \<open>
  The two RPCs that can take the last administrator away, \<open>SetWorkspaceIamPolicy\<close>
  (\<open>backend/api/v1/iam_service.go\<close>) and \<open>DeleteUser\<close> (\<open>backend/api/v1/user_service.go\<close>), as they run beside
  each other: each checks what the store holds and writes later, and other calls check and write in
  between.
\<close>

subsection \<open>Calls in flight\<close>

text \<open>
  A call that passed its check carries what it will write. The count of writes when it was checked is
  recorded beside it, for the statements only: nothing reads it.
\<close>

datatype iam_call = SettingPolicy IamPolicy string nat | DeletingUser UserMessage nat

fun checked_at :: "iam_call \<Rightarrow> nat" where
  "checked_at (SettingPolicy policy etag n) = n"
| "checked_at (DeletingUser user n) = n"

record iam_server =
  srv_store :: IamStore
  srv_row :: policy_row
  srv_calls :: "(nat, iam_call) gomap"
  srv_writes :: nat

text \<open>What a call reads: the users, groups and roles, and the policy of the stored row.\<close>

definition srv_view :: "iam_server \<Rightarrow> IamStore" where
  "srv_view s = (srv_store s)\<lparr>st_policy := Inr (row_policy (srv_row s))\<rparr>"

datatype iam_event =
    CheckSet nat cel time IamPolicy string
  | WriteSet nat time
  | CheckDelete nat cel time string
  | WriteDelete nat "iam_error option"

fun srv_step :: "iam_server \<Rightarrow> iam_event \<Rightarrow> iam_server" where
  "srv_step s (CheckSet call cel now policy etag) =
     (if gm_get (srv_calls s) call \<noteq> None \<or> checkSetPolicy (srv_view s) cel now policy \<noteq> None then s
      else s\<lparr>srv_calls := gm_put call (SettingPolicy policy etag (srv_writes s)) (srv_calls s)\<rparr>)"
| "srv_step s (WriteSet call now) =
     (case gm_get (srv_calls s) call of
        Some (SettingPolicy policy etag _) \<Rightarrow>
          (case writeSetPolicy now policy etag (srv_row s) of
             Inl _ \<Rightarrow> s\<lparr>srv_calls := gm_del call (srv_calls s)\<rparr>
           | Inr row \<Rightarrow> s\<lparr>srv_row := row, srv_calls := gm_del call (srv_calls s), srv_writes := srv_writes s + 1\<rparr>)
      | _ \<Rightarrow> s)"
| "srv_step s (CheckDelete call cel now name) =
     (if gm_get (srv_calls s) call \<noteq> None then s
      else (case checkDeleteUser (srv_view s) cel now True name of
          Inl _ \<Rightarrow> s
        | Inr user \<Rightarrow> s\<lparr>srv_calls := gm_put call (DeletingUser user (srv_writes s)) (srv_calls s)\<rparr>))"
| "srv_step s (WriteDelete call updateUser) =
     (case gm_get (srv_calls s) call of
        Some (DeletingUser user _) \<Rightarrow>
          (case writeDeleteUser updateUser user (srv_store s) of
             Inl _ \<Rightarrow> s\<lparr>srv_calls := gm_del call (srv_calls s)\<rparr>
           | Inr st \<Rightarrow> s\<lparr>srv_store := st, srv_calls := gm_del call (srv_calls s), srv_writes := srv_writes s + 1\<rparr>)
      | _ \<Rightarrow> s)"

text \<open>A run in which no write comes between the check and the write of another call.\<close>

fun undisturbed :: "iam_server \<Rightarrow> iam_event list \<Rightarrow> bool" where
  "undisturbed s [] \<longleftrightarrow> True"
| "undisturbed s (e # es) \<longleftrightarrow>
     (case e of
        WriteSet call now \<Rightarrow> (case gm_get (srv_calls s) call of None \<Rightarrow> True | Some c \<Rightarrow> checked_at c = srv_writes s)
      | WriteDelete call updateUser \<Rightarrow>
          (case gm_get (srv_calls s) call of None \<Rightarrow> True | Some c \<Rightarrow> checked_at c = srv_writes s)
      | _ \<Rightarrow> True) \<and> undisturbed (srv_step s e) es"

subsection \<open>The workspace stays administrable\<close>

text \<open>What a call that is checked against the present state will leave behind.\<close>

fun call_ok :: "iam_server \<Rightarrow> iam_call \<Rightarrow> bool" where
  "call_ok s (SettingPolicy policy etag n) \<longleftrightarrow> n = srv_writes s \<longrightarrow>
     checkAllUsersRole policy = None \<and> canonical_policy (srv_view s) policy \<and>
     administrable ((srv_view s)\<lparr>st_policy := Inr policy\<rparr>)"
| "call_ok s (DeletingUser user n) \<longleftrightarrow> n = srv_writes s \<longrightarrow>
     st_user (srv_view s) (u_ID user) = Inr (Some user) \<and>
     administrable ((srv_view s)\<lparr>st_user := (st_user (srv_view s))(u_ID user := Inr (Some (user\<lparr>u_MemberDeleted := True\<rparr>)))\<rparr>)"

definition srv_ok :: "iam_server \<Rightarrow> bool" where
  "srv_ok s \<longleftrightarrow> users_by_id (srv_view s) \<and> checkAllUsersRole (row_policy (srv_row s)) = None \<and>
     canonical_policy (srv_view s) (row_policy (srv_row s)) \<and> administrable (srv_view s) \<and>
     (\<forall>call c. gm_get (srv_calls s) call = Some c \<longrightarrow> checked_at c \<le> srv_writes s \<and> call_ok s c)"

lemma canonical_policy_groups:
  assumes "st_group st = st_group st'"
  shows "canonical_policy st = canonical_policy st'"
proof -
  have "canonical_member st = canonical_member st'" by (intro ext) (simp only: canonical_member_def assms)
  then show ?thesis by (intro ext) (simp only: canonical_policy_def)
qed

lemma canonical_groups:
  "canonical_policy (st\<lparr>st_user := f\<rparr>) = canonical_policy st" "canonical_policy (st\<lparr>st_policy := p\<rparr>) = canonical_policy st"
  by (rule canonical_policy_groups; simp)+

lemma call_ok_calls [simp]: "call_ok (s\<lparr>srv_calls := m\<rparr>) c = call_ok s c"
  by (cases c) (simp_all add: srv_view_def)

lemma call_ok_stale: "checked_at c < srv_writes s \<Longrightarrow> call_ok s c"
  by (cases c) simp_all

lemma srv_ok_check:
  assumes "srv_ok s" and "checked_at c = srv_writes s" and "call_ok s c"
  shows "srv_ok (s\<lparr>srv_calls := gm_put call c (srv_calls s)\<rparr>)"
  using assms unfolding srv_ok_def by (auto simp: srv_view_def gm_get_put)

lemma srv_ok_drop: "srv_ok s \<Longrightarrow> srv_ok (s\<lparr>srv_calls := gm_del call (srv_calls s)\<rparr>)"
  unfolding srv_ok_def by (auto simp: srv_view_def gm_get_del)

lemma srv_ok_write:
  assumes "srv_ok s" and "srv_writes s' = Suc (srv_writes s)" "srv_calls s' = gm_del call (srv_calls s)"
    and "users_by_id (srv_view s')" "checkAllUsersRole (row_policy (srv_row s')) = None"
    and "canonical_policy (srv_view s') (row_policy (srv_row s'))" "administrable (srv_view s')"
  shows "srv_ok s'"
proof -
  have "checked_at c \<le> srv_writes s' \<and> call_ok s' c" if "gm_get (srv_calls s') call' = Some c" for call' c
  proof -
    have "checked_at c \<le> srv_writes s"
      using assms(1) that unfolding assms(3) srv_ok_def by (auto simp: gm_get_del split: if_splits)
    then have "checked_at c < srv_writes s'" by (simp add: assms(2))
    then show ?thesis using call_ok_stale by simp
  qed
  then show ?thesis unfolding srv_ok_def using assms(4-7) by blast
qed

lemma srv_ok_step:
  assumes ok: "srv_ok s" and canon: "\<forall>call cel now policy etag. e = CheckSet call cel now policy etag \<longrightarrow> canonical_policy (srv_view s) policy"
    and und: "undisturbed s [e]"
  shows "srv_ok (srv_step s e)"
proof -
  note parts = ok [unfolded srv_ok_def]
  show ?thesis
  proof (cases e)
    case (CheckSet call cel now policy etag)
    show ?thesis
    proof (cases "gm_get (srv_calls s) call \<noteq> None \<or> checkSetPolicy (srv_view s) cel now policy \<noteq> None")
      case False
      then have "checkSetPolicy (srv_view s) cel now policy = None" by simp
      from set_guard [OF _ _ this] parts canon CheckSet have "call_ok s (SettingPolicy policy etag (srv_writes s))" by simp
      then show ?thesis using False srv_ok_check [OF ok] by (simp add: CheckSet)
    qed (use ok in \<open>auto simp: CheckSet\<close>)
  next
    case (WriteSet call now)
    show ?thesis
    proof (cases "gm_get (srv_calls s) call")
      case (Some c)
      have c: "checked_at c = srv_writes s" "call_ok s c" using und parts Some by (auto simp: WriteSet)
      show ?thesis
      proof (cases c)
        case (SettingPolicy policy etag n)
        then have p: "checkAllUsersRole policy = None" "canonical_policy (srv_view s) policy"
          "administrable ((srv_view s)\<lparr>st_policy := Inr policy\<rparr>)" using c by simp_all
        show ?thesis
        proof (cases "writeSetPolicy now policy etag (srv_row s)")
          case (Inl err)
          then show ?thesis using srv_ok_drop [OF ok] by (simp add: WriteSet Some SettingPolicy)
        next
          case (Inr row)
          let ?s = "s\<lparr>srv_row := row, srv_calls := gm_del call (srv_calls s), srv_writes := srv_writes s + 1\<rparr>"
          have r: "row_policy row = policy" by (rule write_row [OF Inr])
          have v: "srv_view ?s = (srv_view s)\<lparr>st_policy := Inr policy\<rparr>" by (simp add: srv_view_def r)
          have "users_by_id (srv_view ?s)" using parts unfolding v by (simp add: users_by_id_def)
          moreover have "canonical_policy (srv_view ?s) (row_policy (srv_row ?s))"
            using p(2) unfolding v canonical_groups by (simp add: r)
          ultimately have "srv_ok ?s"
            using p(1) p(3) [folded v] by (intro srv_ok_write [OF ok, of _ call]) (simp_all add: r)
          then show ?thesis using Inr by (simp add: WriteSet Some SettingPolicy)
        qed
      qed (use ok in \<open>simp add: WriteSet Some\<close>)
    qed (use ok in \<open>simp add: WriteSet\<close>)
  next
    case (CheckDelete call cel now name)
    show ?thesis
    proof (cases "gm_get (srv_calls s) call = None")
      case True
      show ?thesis
      proof (cases "checkDeleteUser (srv_view s) cel now True name")
        case (Inr user)
        have "st_policy (srv_view s) = Inr (row_policy (srv_row s))" by (simp add: srv_view_def)
        from delete_guard [OF _ this _ _ Inr] parts have "call_ok s (DeletingUser user (srv_writes s))" by simp
        then show ?thesis using True Inr srv_ok_check [OF ok] by (simp add: CheckDelete)
      qed (use ok in \<open>simp add: CheckDelete\<close>)
    qed (use ok in \<open>auto simp: CheckDelete\<close>)
  next
    case (WriteDelete call updateUser)
    show ?thesis
    proof (cases "gm_get (srv_calls s) call")
      case (Some c)
      have c: "checked_at c = srv_writes s" "call_ok s c" using und parts Some by (auto simp: WriteDelete)
      show ?thesis
      proof (cases c)
        case (DeletingUser user n)
        let ?f = "(st_user (srv_store s))(u_ID user := Inr (Some (user\<lparr>u_MemberDeleted := True\<rparr>)))"
        let ?s = "s\<lparr>srv_store := (srv_store s)\<lparr>st_user := ?f\<rparr>, srv_calls := gm_del call (srv_calls s), srv_writes := srv_writes s + 1\<rparr>"
        have u: "st_user (srv_view s) (u_ID user) = Inr (Some user)"
          "administrable ((srv_view s)\<lparr>st_user := (st_user (srv_view s))(u_ID user := Inr (Some (user\<lparr>u_MemberDeleted := True\<rparr>)))\<rparr>)"
          using c DeletingUser by simp_all
        have v: "srv_view ?s = (srv_view s)\<lparr>st_user := ?f\<rparr>" by (simp add: srv_view_def)
        have "0 < u_ID user" using parts u(1) unfolding users_by_id_def by blast
        then have "users_by_id (srv_view ?s)"
          using parts unfolding v users_by_id_def by (simp add: srv_view_def)
        moreover have "administrable (srv_view ?s)" using u(2) unfolding v by (simp add: srv_view_def)
        moreover have "canonical_policy (srv_view ?s) (row_policy (srv_row ?s))" using parts unfolding v canonical_groups by simp
        ultimately have "srv_ok ?s" using parts by (intro srv_ok_write [OF ok, of _ call]) simp_all
        then show ?thesis
          using srv_ok_drop [OF ok] by (simp add: WriteDelete Some DeletingUser writeDeleteUser_def)
      qed (use ok in \<open>simp add: WriteDelete Some\<close>)
    qed (use ok in \<open>simp add: WriteDelete\<close>)
  qed
qed

text \<open>The groups a policy's members are looked up in do not change along a run.\<close>

lemma step_groups: "st_group (srv_store (srv_step s e)) = st_group (srv_store s)"
  by (cases e) (auto simp: writeDeleteUser_def split: option.splits iam_call.splits sum.splits)

lemma canonical_view:
  "st_group (srv_store s) = st_group (srv_store s') \<Longrightarrow> canonical_policy (srv_view s) = canonical_policy (srv_view s')"
  by (rule canonical_policy_groups) (simp add: srv_view_def)

lemma srv_ok_run:
  assumes "srv_ok s" "undisturbed s es"
    and "\<forall>call cel now policy etag. CheckSet call cel now policy etag \<in> set es \<longrightarrow> canonical_policy (srv_view s) policy"
  shows "srv_ok (run srv_step s es)"
  using assms
proof (induction es arbitrary: s)
  case (Cons e es)
  have "srv_ok (srv_step s e)" by (rule srv_ok_step) (use Cons.prems in auto)
  moreover have "\<forall>call cel now policy etag. CheckSet call cel now policy etag \<in> set es \<longrightarrow>
      canonical_policy (srv_view (srv_step s e)) policy"
    unfolding canonical_view [OF step_groups] using Cons.prems(3) by auto
  moreover have "undisturbed (srv_step s e) es" using Cons.prems(2) by simp
  ultimately show ?case using Cons.IH [of "srv_step s e"] by simp
qed simp

text \<open>
  C20. The workspace stays administrable. Whatever policies are set and users deleted, as long as no
  write of these RPCs falls between the check and the write of another and the members of the policies
  are written the way the code writes them, some active end user holds \<open>iam.setPolicy\<close> after every step, at
  every time and however the conditions evaluate. The code takes no lock over the check and the write,
  so that the condition on the order is the caller's.
\<close>

theorem workspace_stays_administrable:
  assumes "users_by_id (srv_store s)" and "policy_reachable (srv_row s)" and "srv_calls s = []"
    and "canonical_policy (srv_view s) (row_policy (srv_row s))" and "administrable (srv_view s)"
    and "undisturbed s es"
    and "\<forall>call cel now policy etag. CheckSet call cel now policy etag \<in> set es \<longrightarrow> canonical_policy (srv_view s) policy"
  shows "\<exists>u. active_end_user (srv_view (run srv_step s es)) u \<and>
    (\<forall>cel now. CheckPermission (srv_view (run srv_step s es)) cel now IAMSetPolicy (Some u) = Inr True)"
proof -
  have "users_by_id (srv_view s)" using assms(1) by (simp add: users_by_id_def srv_view_def)
  then have "srv_ok s" using assms(3-5) reachable_allUsers [OF assms(2)] by (simp add: srv_ok_def)
  from srv_ok_run [OF this assms(6,7)] show ?thesis by (simp add: srv_ok_def administrable_def)
qed

subsection \<open>Two deletions\<close>

definition two_admins :: iam_server where
  "two_admins = \<lparr>srv_store = example_store (example_policy [''users/7'', ''users/8'']),
     srv_row = Some (example_policy [''users/7'', ''users/8''], 5), srv_calls = [], srv_writes = 0\<rparr>"

lemma two_admins_view: "srv_view two_admins = example_store (example_policy [''users/7'', ''users/8''])"
  by (simp add: srv_view_def two_admins_def row_policy_def example_store_def)

lemma two_admins_administrable: "administrable (srv_view two_admins)"
proof -
  have "checkSetPolicy (srv_view two_admins) no_cel 5 (example_policy [''users/7'', ''users/8'']) = None"
    unfolding two_admins_view by code_simp
  from set_guard(2) [OF _ _ this] example_users example_canonical show ?thesis
    by (simp add: two_admins_view) (simp add: example_store_def)
qed

text \<open>One after the other, the first deletion succeeds and the second one is refused.\<close>

theorem workspace_stays_administrable_witness:
  "let s = run srv_step two_admins [CheckDelete 1 no_cel 6 ''users/7'', WriteDelete 1 None, CheckDelete 2 no_cel 7 ''users/8'']
   in srv_calls s = [] \<and> srv_writes s = 1 \<and>
     (\<exists>u. active_end_user (srv_view s) u \<and> (\<forall>cel now. CheckPermission (srv_view s) cel now IAMSetPolicy (Some u) = Inr True))"
proof -
  let ?es = "[CheckDelete 1 no_cel 6 ''users/7'', WriteDelete 1 None, CheckDelete 2 no_cel 7 ''users/8'']"
  have "undisturbed two_admins ?es" "srv_calls (run srv_step two_admins ?es) = []" "srv_writes (run srv_step two_admins ?es) = 1"
    by code_simp+
  moreover have "users_by_id (srv_store two_admins)" "policy_reachable (srv_row two_admins)" "srv_calls two_admins = []"
      "canonical_policy (srv_view two_admins) (row_policy (srv_row two_admins))"
    using example_users example_reachable example_canonical unfolding two_admins_view
    by (simp_all add: two_admins_def row_policy_def)
  ultimately show ?thesis
    using workspace_stays_administrable [of two_admins ?es] two_admins_administrable by (simp add: Let_def del: srv_step.simps)
qed

text \<open>
  The order is needed: when both deletions are checked before either writes, both are accepted, and
  nobody can change the policy any more.
\<close>

lemma overlapping_deletions_lock_out:
  defines "s \<equiv> run srv_step two_admins [CheckDelete 1 no_cel 6 ''users/7'', CheckDelete 2 no_cel 6 ''users/8'',
    WriteDelete 1 None, WriteDelete 2 None]"
  shows "map_sum id (map_option u_MemberDeleted) (st_user (srv_view s) 7) = Inr (Some True)"
    and "map_sum id (map_option u_MemberDeleted) (st_user (srv_view s) 8) = Inr (Some True)"
    and "row_policy (srv_row s) = example_policy [''users/7'', ''users/8'']"
  unfolding s_def by code_simp+

end
