(* ===== verification/Meta_GUID.thy ===== *)
theory Meta_GUID
  imports Go_Strings
begin

text \<open>
  The identifiers of the metadata registry, \<open>backend/common/guid.go\<close>: the parts of an object's
  name, escaped and joined by semicolons.
\<close>

definition MetaGUIDSplit :: char where
  "MetaGUIDSplit = CHR '';''"

definition guidPartEscape :: string where
  "guidPartEscape = ''%3B''"

definition guidPartPercentEscape :: string where
  "guidPartPercentEscape = ''%25''"

definition EscapeGUIDPart :: "string \<Rightarrow> string" where
  "EscapeGUIDPart part =
     ReplaceAll (ReplaceAll part ''%'' guidPartPercentEscape) [MetaGUIDSplit] guidPartEscape"

definition UnescapeGUIDPart :: "string \<Rightarrow> string" where
  "UnescapeGUIDPart part =
     ReplaceAll (ReplaceAll part guidPartEscape [MetaGUIDSplit]) guidPartPercentEscape ''%''"

definition BuildMetaGUID :: "string list \<Rightarrow> string" where
  "BuildMetaGUID parts = Join (map EscapeGUIDPart parts) [MetaGUIDSplit]"

definition SplitMetaGUID :: "string \<Rightarrow> string list" where
  "SplitMetaGUID guid = map UnescapeGUIDPart (Split MetaGUIDSplit guid)"

definition GetInstanceFromGUID :: "string \<Rightarrow> string option" where
  "GetInstanceFromGUID guid =
     (if MetaGUIDSplit \<notin> set guid then None
      else Some (UnescapeGUIDPart (takeWhile (\<lambda>c. c \<noteq> MetaGUIDSplit) guid)))"

definition GetSchemaFromGUID :: "string \<Rightarrow> string option" where
  "GetSchemaFromGUID guid =
     (let parts = SplitMetaGUID guid in if length parts < 3 then None else Some (parts ! 2))"

definition GUIDPrefix :: "string \<Rightarrow> string" where
  "GUIDPrefix guid =
     (if MetaGUIDSplit \<notin> set guid then []
      else rev (tl (dropWhile (\<lambda>c. c \<noteq> MetaGUIDSplit) (rev guid))))"

subsection \<open>Escaping\<close>

definition escape_char :: "char \<Rightarrow> string" where
  "escape_char c = (if c = CHR ''%'' then ''%25'' else if c = CHR '';'' then ''%3B'' else [c])"

text \<open>The string between the two replacements of \<open>UnescapeGUIDPart\<close>.\<close>

definition half_escape_char :: "char \<Rightarrow> string" where
  "half_escape_char c = (if c = CHR ''%'' then ''%25'' else [c])"

lemma EscapeGUIDPart_chars: "EscapeGUIDPart s = concat (map escape_char s)"
  by (induction s) (auto simp: EscapeGUIDPart_def MetaGUIDSplit_def guidPartEscape_def
      guidPartPercentEscape_def ReplaceAll_char escape_char_def)

lemma semicolon_decoded:
  "ReplaceAll (concat (map escape_char s)) ''%3B'' '';'' = concat (map half_escape_char s)"
  by (induction s) (auto simp: escape_char_def half_escape_char_def HasPrefix_def numeral_eq_Suc)

lemma percent_decoded: "ReplaceAll (concat (map half_escape_char s)) ''%25'' ''%'' = s"
  by (induction s) (auto simp: half_escape_char_def HasPrefix_def numeral_eq_Suc)

lemma Unescape_Escape [simp]: "UnescapeGUIDPart (EscapeGUIDPart s) = s"
  by (simp add: UnescapeGUIDPart_def EscapeGUIDPart_chars guidPartEscape_def MetaGUIDSplit_def
      guidPartPercentEscape_def semicolon_decoded percent_decoded)

lemma Escape_no_split: "MetaGUIDSplit \<notin> set (EscapeGUIDPart s)"
  by (induction s) (auto simp: EscapeGUIDPart_chars escape_char_def MetaGUIDSplit_def)

lemma SplitMetaGUID_Build: "parts \<noteq> [] \<Longrightarrow> SplitMetaGUID (BuildMetaGUID parts) = parts"
  unfolding SplitMetaGUID_def BuildMetaGUID_def
  by (subst Split_Join) (auto simp: Escape_no_split o_def)

lemma Join_butlast:
  "p \<noteq> [] \<Longrightarrow> Join (p @ [x]) sep = Join p sep @ sep @ x"
  by (induction p sep rule: Join.induct) auto

lemma last_split:
  "c \<notin> set x \<Longrightarrow> rev (tl (dropWhile (\<lambda>d. d \<noteq> c) (rev (p @ c # x)))) = p"
  by (induction x rule: rev_induct) auto

text \<open>
  C27. A registry identifier determines the object: splitting it gives back the parts it was built
  from, whatever characters they hold, so that two objects never share an identifier; its first and
  third parts are the instance and the schema; and dropping the last part is the identifier of the
  parent.
\<close>

theorem meta_guid_roundtrip:
  assumes "parts \<noteq> []"
  shows "SplitMetaGUID (BuildMetaGUID parts) = parts \<and>
    (BuildMetaGUID parts = BuildMetaGUID parts' \<longleftrightarrow> parts = parts' \<or> parts = [[]] \<and> parts' = []) \<and>
    GUIDPrefix (BuildMetaGUID (parts @ [part])) = BuildMetaGUID parts \<and>
    GetInstanceFromGUID (BuildMetaGUID (parts @ [part])) = Some (hd parts) \<and>
    GetSchemaFromGUID (BuildMetaGUID parts) = (if length parts < 3 then None else Some (parts ! 2))"
proof (intro conjI)
  show split: "SplitMetaGUID (BuildMetaGUID parts) = parts" by (rule SplitMetaGUID_Build [OF assms])
  show "BuildMetaGUID parts = BuildMetaGUID parts' \<longleftrightarrow> parts = parts' \<or> parts = [[]] \<and> parts' = []"
  proof (cases "parts' = []")
    case True
    have "BuildMetaGUID parts = [] \<longleftrightarrow> parts = [[]]"
    proof
      assume "BuildMetaGUID parts = []"
      then show "parts = [[]]" using split by (simp add: SplitMetaGUID_def UnescapeGUIDPart_def)
    qed (simp add: BuildMetaGUID_def EscapeGUIDPart_chars)
    then show ?thesis using True assms by (simp add: BuildMetaGUID_def)
  next
    case False
    then show ?thesis using split SplitMetaGUID_Build [OF False] by metis
  qed
  have snoc: "BuildMetaGUID (parts @ [part]) = BuildMetaGUID parts @ MetaGUIDSplit # EscapeGUIDPart part"
    using assms by (simp add: BuildMetaGUID_def Join_butlast)
  show "GUIDPrefix (BuildMetaGUID (parts @ [part])) = BuildMetaGUID parts"
    unfolding snoc GUIDPrefix_def last_split [OF Escape_no_split] by simp
  obtain p ps where parts: "parts = p # ps" using assms by (cases parts) auto
  have "BuildMetaGUID (parts @ [part]) = EscapeGUIDPart p @ MetaGUIDSplit # Join (map EscapeGUIDPart (ps @ [part])) [MetaGUIDSplit]"
    by (cases "map EscapeGUIDPart (ps @ [part])") (simp_all add: BuildMetaGUID_def parts)
  then show "GetInstanceFromGUID (BuildMetaGUID (parts @ [part])) = Some (hd parts)"
    using Escape_no_split [of p] by (simp add: GetInstanceFromGUID_def parts takeWhile_append takeWhile_eq_all_conv)
  show "GetSchemaFromGUID (BuildMetaGUID parts) = (if length parts < 3 then None else Some (parts ! 2))"
    by (simp add: GetSchemaFromGUID_def split Let_def)
qed

lemma meta_guid_roundtrip_witness:
  "BuildMetaGUID [''inst'', ''demo'', ''dbo'', ''a;b%3B''] = ''inst;demo;dbo;a%3Bb%253B'' \<and>
   SplitMetaGUID ''inst;demo;dbo;a%3Bb%253B'' = [''inst'', ''demo'', ''dbo'', ''a;b%3B'']"
proof -
  have g: "BuildMetaGUID [''inst'', ''demo'', ''dbo'', ''a;b%3B''] = ''inst;demo;dbo;a%3Bb%253B''" by code_simp
  have "[''inst'', ''demo'', ''dbo'', ''a;b%3B''] \<noteq> []" by simp
  from meta_guid_roundtrip [OF this] g show ?thesis by simp
qed

end
