(* ===== verification/Lineage_Model.thy ===== *)
theory Lineage_Model
  imports Meta_GUID Resource_Names
begin

text \<open>
  What a lineage analysis produces, \<open>backend/plugin/lineage/model\<close>: identifiers of objects, columns,
  edges between columns with the transformations that produced them, and diagnostics.
\<close>

subsection \<open>Identifiers (\<open>identifier.go\<close>)\<close>

record ObjectIdentifier =
  InstanceID :: string
  Database :: string
  Schema :: string
  Name :: string

definition FullName :: "ObjectIdentifier \<Rightarrow> string" where
  "FullName o' =
     (if Database o' \<noteq> [] then Database o' @ ''.'' else [])
     @ (if Schema o' \<noteq> [] then Schema o' @ ''.'' else []) @ Name o'"

definition GUID :: "ObjectIdentifier \<Rightarrow> string" where
  "GUID o' = BuildMetaGUID [InstanceID o', Database o', Schema o', Name o']"

definition NormalizeIdentifier :: "string \<Rightarrow> string" where
  "NormalizeIdentifier txt =
     (let txt = TrimSpace txt in
      if length txt < 2 then txt
      else let quote = hd txt in
        if quote \<noteq> CHR ''`'' \<and> quote \<noteq> CHR 0x22 \<or> last txt \<noteq> quote then txt
        else ReplaceAll (butlast (tl txt)) [quote, quote] [quote])"

definition StrToObjectIdentifier :: "string \<Rightarrow> ObjectIdentifier" where
  "StrToObjectIdentifier s =
     (case Split (CHR ''.'') s of
        [a] \<Rightarrow> \<lparr>InstanceID = [], Database = [], Schema = [], Name = a\<rparr>
      | [a, b] \<Rightarrow> \<lparr>InstanceID = [], Database = [], Schema = a, Name = b\<rparr>
      | [a, b, c] \<Rightarrow> \<lparr>InstanceID = [], Database = a, Schema = b, Name = c\<rparr>
      | [a, b, c, d] \<Rightarrow> \<lparr>InstanceID = a, Database = b, Schema = c, Name = d\<rparr>
      | _ \<Rightarrow> \<lparr>InstanceID = [], Database = [], Schema = [], Name = s\<rparr>)"

definition GUIDToObjectIdentifier :: "string \<Rightarrow> ObjectIdentifier option" where
  "GUIDToObjectIdentifier guid =
     (let parts = SplitMetaGUID guid in
      if length parts \<noteq> 4 \<or> parts ! 3 = [] then None
      else Some \<lparr>InstanceID = parts ! 0, Database = parts ! 1, Schema = parts ! 2, Name = parts ! 3\<rparr>)"

subsection \<open>Transformations (\<open>transformation.go\<close>)\<close>

datatype OperationType =
    OperationDelete | OperationUnion | OperationIntersect | OperationExcept | OperationProject
  | OperationFunction | OperationAggregate | OperationWindow | OperationOperator | OperationCase
  | OperationFilter | OperationJoin | OperationGroupBy | OperationSort

record Transformation =
  Operation :: OperationType
  Expression :: string
  FunctionName :: string
  Arguments :: "string list"
  GroupKeys :: "string list"
  PartitionBy :: "string list"
  OrderBy :: "string list"
  OpType :: string
  Condition :: string
  AllRows :: bool

definition new_transformation :: "OperationType \<Rightarrow> Transformation" where
  "new_transformation op =
     \<lparr>Operation = op, Expression = [], FunctionName = [], Arguments = [], GroupKeys = [],
      PartitionBy = [], OrderBy = [], OpType = [], Condition = [], AllRows = False\<rparr>"

definition NewFilterTransformation :: "string \<Rightarrow> Transformation" where
  "NewFilterTransformation condition = (new_transformation OperationFilter)\<lparr>Condition := condition\<rparr>"

definition NewJoinTransformation :: "string \<Rightarrow> Transformation" where
  "NewJoinTransformation condition = (new_transformation OperationJoin)\<lparr>Condition := condition\<rparr>"

definition NewDeleteTransformation :: "string \<Rightarrow> Transformation" where
  "NewDeleteTransformation condition = (new_transformation OperationDelete)\<lparr>Condition := condition\<rparr>"

definition NewUnionTransformation :: "bool \<Rightarrow> Transformation" where
  "NewUnionTransformation all = (new_transformation OperationUnion)\<lparr>AllRows := all\<rparr>"

definition NewIntersectTransformation :: "bool \<Rightarrow> Transformation" where
  "NewIntersectTransformation all = (new_transformation OperationIntersect)\<lparr>AllRows := all\<rparr>"

definition NewExceptTransformation :: "bool \<Rightarrow> Transformation" where
  "NewExceptTransformation all = (new_transformation OperationExcept)\<lparr>AllRows := all\<rparr>"

definition NewProjectTransformation :: "string \<Rightarrow> Transformation" where
  "NewProjectTransformation expression = (new_transformation OperationProject)\<lparr>Expression := expression\<rparr>"

definition NewFunctionTransformation :: "string \<Rightarrow> string \<Rightarrow> string list \<Rightarrow> Transformation" where
  "NewFunctionTransformation functionName expression arguments =
     (new_transformation OperationFunction)
       \<lparr>FunctionName := functionName, Expression := expression, Arguments := arguments\<rparr>"

definition NewAggregateTransformation :: "string \<Rightarrow> string \<Rightarrow> string list \<Rightarrow> Transformation" where
  "NewAggregateTransformation functionName expression groupKeys =
     (new_transformation OperationAggregate)
       \<lparr>FunctionName := functionName, Expression := expression, GroupKeys := groupKeys\<rparr>"

definition NewWindowTransformation ::
    "string \<Rightarrow> string \<Rightarrow> string list \<Rightarrow> string list \<Rightarrow> Transformation" where
  "NewWindowTransformation functionName expression partitionBy orderBy =
     (new_transformation OperationWindow)
       \<lparr>FunctionName := functionName, Expression := expression, PartitionBy := partitionBy, OrderBy := orderBy\<rparr>"

definition NewOperatorTransformation :: "string \<Rightarrow> string \<Rightarrow> Transformation" where
  "NewOperatorTransformation opType expression =
     (new_transformation OperationOperator)\<lparr>OpType := opType, Expression := expression\<rparr>"

definition NewCaseTransformation :: "string \<Rightarrow> Transformation" where
  "NewCaseTransformation expression = (new_transformation OperationCase)\<lparr>Expression := expression\<rparr>"

definition CombineTransformations :: "Transformation list \<Rightarrow> Transformation list \<Rightarrow> Transformation list" where
  "CombineTransformations base additional =
     (if base = [] then additional else if additional = [] then base else base @ additional)"

definition Transformation_Equal :: "Transformation \<Rightarrow> Transformation \<Rightarrow> bool" where
  "Transformation_Equal t other \<longleftrightarrow>
     Operation t = Operation other \<and> AllRows t = AllRows other \<and> Expression t = Expression other
     \<and> FunctionName t = FunctionName other \<and> OpType t = OpType other \<and> Condition t = Condition other
     \<and> Arguments t = Arguments other \<and> GroupKeys t = GroupKeys other
     \<and> PartitionBy t = PartitionBy other \<and> OrderBy t = OrderBy other"

definition SameTransformations :: "Transformation list \<Rightarrow> Transformation list \<Rightarrow> bool" where
  "SameTransformations a b \<longleftrightarrow> length a = length b \<and> list_all2 Transformation_Equal a b"

subsection \<open>Columns and edges (\<open>relation.go\<close>)\<close>

record Column =
  col_Table :: ObjectIdentifier
  col_Name :: string

datatype RelationType =
    RelationTypeDirect | RelationTypeIndirect | RelationTypeJoin | RelationTypeGroup
  | RelationTypeUnion | RelationTypeIntersect | RelationTypeExcept | RelationTypeUnknown

record ColumnRelation =
  Source :: Column
  Target :: Column
  rel_Transformation :: "Transformation list"
  rel_Type :: RelationType
  IsTemp :: bool

definition WildcardColumn :: string where "WildcardColumn = ''*''"
definition ResultTableName :: string where "ResultTableName = ''__result__''"
definition DeletionColumnName :: string where "DeletionColumnName = ''__deletion__''"
definition FileSourceName :: string where "FileSourceName = ''__file__''"

text \<open>The loop of \<open>AnsweringLineage\<close>: the entries that name the column and those that forward it.\<close>

fun answering :: "string \<Rightarrow> ColumnRelation list \<Rightarrow> ColumnRelation list \<times> ColumnRelation list" where
  "answering column [] = ([], [])"
| "answering column (edge # edges) =
     (let (named, forwarded) = answering column edges in
      if EqualFold (col_Name (Target edge)) column then (edge # named, forwarded)
      else if col_Name (Target edge) = WildcardColumn then (named, edge # forwarded)
      else (named, forwarded))"

definition AnsweringLineage :: "ColumnRelation list \<Rightarrow> string \<Rightarrow> ColumnRelation list" where
  "AnsweringLineage lineage column =
     (if column = WildcardColumn then lineage
      else let (named, forwarded) = answering column lineage in
        if named \<noteq> [] then named else forwarded)"

definition RelationTypeOf :: "Transformation list \<Rightarrow> RelationType" where
  "RelationTypeOf transform =
     (case transform of
        [] \<Rightarrow> RelationTypeDirect
      | t # _ \<Rightarrow> (case Operation t of
            OperationDelete \<Rightarrow> RelationTypeIndirect
          | OperationUnion \<Rightarrow> RelationTypeUnion
          | OperationIntersect \<Rightarrow> RelationTypeIntersect
          | OperationExcept \<Rightarrow> RelationTypeExcept
          | OperationAggregate \<Rightarrow> RelationTypeGroup
          | OperationJoin \<Rightarrow> RelationTypeJoin
          | _ \<Rightarrow> RelationTypeIndirect))"

subsection \<open>Diagnostics (\<open>diagnostic.go\<close>)\<close>

text \<open>The zero value of the category is \<open>DiagnosticUnclassified\<close>.\<close>

datatype DiagnosticCategory =
    DiagnosticUnclassified | DiagnosticNotModelled | DiagnosticUnresolved | DiagnosticAmbiguous
  | DiagnosticCatalogUnavailable

record Diagnostic =
  Category :: DiagnosticCategory
  Subject :: string
  Reference :: string
  Detail :: string

definition Diagnostic_String :: "Diagnostic \<Rightarrow> string" where
  "Diagnostic_String d =
     (case Category d of
        DiagnosticNotModelled \<Rightarrow>
          if Detail d \<noteq> [] then ''not modelled: '' @ Subject d @ '': '' @ Detail d
          else ''not modelled: '' @ Subject d
      | DiagnosticUnresolved \<Rightarrow> ''unresolved reference in '' @ Subject d @ '': '' @ Reference d
      | DiagnosticAmbiguous \<Rightarrow> ''ambiguous reference in '' @ Subject d @ '': '' @ Reference d
      | DiagnosticCatalogUnavailable \<Rightarrow> ''catalog lookup failed for '' @ Reference d @ '': '' @ Detail d
      | DiagnosticUnclassified \<Rightarrow> ''unclassified diagnostic'')"

definition FormatDiagnostics :: "Diagnostic list \<Rightarrow> int \<Rightarrow> string" where
  "FormatDiagnostics notes omitted =
     Join (map Diagnostic_String notes @ (if 0 < omitted then [fmt_d omitted @ '' more not listed''] else [])) ''; ''"

subsection \<open>Laws\<close>

lemma CombineTransformations_append [simp]: "CombineTransformations base additional = base @ additional"
  by (simp add: CombineTransformations_def)

lemma Transformation_Equal_iff [simp]: "Transformation_Equal t u \<longleftrightarrow> t = u"
  by (auto simp: Transformation_Equal_def)

lemma SameTransformations_iff [simp]: "SameTransformations a b \<longleftrightarrow> a = b"
  by (auto simp: SameTransformations_def list_all2_conv_all_nth intro: nth_equalityI)

lemma answering_filter:
  "answering column edges =
     (filter (\<lambda>e. EqualFold (col_Name (Target e)) column) edges,
      filter (\<lambda>e. \<not> EqualFold (col_Name (Target e)) column \<and> col_Name (Target e) = WildcardColumn) edges)"
  by (induction edges) auto

lemma AnsweringLineage_subset: "set (AnsweringLineage lineage column) \<subseteq> set lineage"
  by (auto simp: AnsweringLineage_def answering_filter split: if_splits)

lemma GUIDToObjectIdentifier_GUID:
  "GUIDToObjectIdentifier (GUID o') = (if Name o' = [] then None else Some o')"
  by (simp add: GUIDToObjectIdentifier_def GUID_def SplitMetaGUID_Build)

end
