(* ===== verification/Lineage_Scope.thy ===== *)
theory Lineage_Scope
  imports Lineage_Model "HOL-Library.List_Lexorder" "HOL-Library.Char_ord" "HOL-Library.Product_Lexorder"
begin

text \<open>
  The lexical scopes a statement's references resolve in, \<open>backend/plugin/lineage/scope\<close>.

  A scope is a value: the scope the pointers reach at the time of a call, its parent and the scope
  whose definitions it reads included. The column lookup of a relation is the answer its function
  gives: \<open>None\<close> without a function, \<open>Some None\<close> for a nil answer.
\<close>

subsection \<open>References and relations (\<open>types.go\<close>)\<close>

record ColumnRef =
  cr_Schema :: string
  cr_Table :: string
  cr_Column :: string
  Resolved :: bool

record RelationKey =
  Qualifier :: string
  key_Name :: string

record TableRef =
  tr_Schema :: string
  tr_Table :: string
  Alias :: string
  IsSubquery :: bool
  IsCTE :: bool
  tr_Lineage :: "ColumnRelation list"
  columnLookup :: "string list option option"

record ResolvedColumn =
  Ref :: ColumnRef
  Relation :: "TableRef option"

record CTEDefinition =
  cte_Name :: string
  cte_Columns :: "string list"
  cte_Lineage :: "ColumnRelation list"

record ColumnSource =
  src_Ref :: ColumnRef
  Transform :: "Transformation list"

record OutputColumn =
  oc_Alias :: string
  Sources :: "ColumnSource list"
  IsDerived :: bool

definition addressName :: "TableRef \<Rightarrow> string" where
  "addressName r = (if Alias r \<noteq> [] then Alias r else tr_Table r)"

definition Key :: "TableRef \<Rightarrow> RelationKey" where
  "Key r = \<lparr>Qualifier = tr_Schema r, key_Name = addressName r\<rparr>"

definition namesMatch :: "string \<Rightarrow> string \<Rightarrow> bool \<Rightarrow> bool" where
  "namesMatch a b folds = (if folds then EqualFold a b else a = b)"

definition addresses :: "TableRef \<Rightarrow> RelationKey \<Rightarrow> bool \<Rightarrow> bool" where
  "addresses r key folds =
     (if \<not> namesMatch (key_Name key) (addressName r) folds then False
      else Qualifier key = [] \<or> tr_Schema r = [] \<or> namesMatch (Qualifier key) (tr_Schema r) folds)"

definition RelationKeyOf :: "ObjectIdentifier \<Rightarrow> RelationKey" where
  "RelationKeyOf oid =
     \<lparr>Qualifier = (if Database oid = [] then Schema oid else Database oid), key_Name = Name oid\<rparr>"

definition SetColumnLookup :: "string list option \<Rightarrow> TableRef \<Rightarrow> TableRef" where
  "SetColumnLookup answer r = r\<lparr>columnLookup := Some answer\<rparr>"

definition ColumnNames :: "TableRef \<Rightarrow> string list option" where
  "ColumnNames r = (case columnLookup r of None \<Rightarrow> None | Some answer \<Rightarrow> answer)"

definition NewColumnSources :: "ColumnRef list \<Rightarrow> Transformation list \<Rightarrow> ColumnSource list" where
  "NewColumnSources refs transform = map (\<lambda>ref. \<lparr>src_Ref = ref, Transform = transform\<rparr>) refs"

definition Refs :: "ColumnSource list \<Rightarrow> ColumnRef list" where
  "Refs sources = map src_Ref sources"

definition SetTransform :: "Transformation list \<Rightarrow> OutputColumn \<Rightarrow> OutputColumn" where
  "SetTransform transform c = c\<lparr>Sources := map (\<lambda>s. s\<lparr>Transform := transform\<rparr>) (Sources c)\<rparr>"

type_synonym new_edge =
  "string \<Rightarrow> string \<Rightarrow> string \<Rightarrow> string \<Rightarrow> string \<Rightarrow> string \<Rightarrow> Transformation list \<Rightarrow> bool \<Rightarrow> ColumnRelation"

definition buildLineageEdge :: "bool \<Rightarrow> new_edge" where
  "buildLineageEdge qualifierIsSchema fromQualifier fromTable fromField toQualifier toTable toField transform isTemp =
     (let identifier = (\<lambda>qualifier name.
            if qualifierIsSchema
            then \<lparr>InstanceID = [], Database = [], Schema = qualifier, Name = name\<rparr>
            else \<lparr>InstanceID = [], Database = qualifier, Schema = [], Name = name\<rparr>) in
      \<lparr>Source = \<lparr>col_Table = identifier fromQualifier fromTable, col_Name = fromField\<rparr>,
       Target = \<lparr>col_Table = identifier toQualifier toTable, col_Name = toField\<rparr>,
       rel_Transformation = transform,
       rel_Type = RelationTypeOf transform,
       IsTemp = isTemp\<rparr>)"

definition NewLineageEdge :: new_edge where
  "NewLineageEdge = buildLineageEdge False"

definition NewSchemaLineageEdge :: new_edge where
  "NewSchemaLineageEdge = buildLineageEdge True"

subsection \<open>Scopes (\<open>scope.go\<close>)\<close>

datatype Scope =
  Scope (parent: "Scope option") (definitions: "Scope option") (relations: "TableRef list")
    (foldNames: bool) (verifyQualifiedColumns: bool) (ctes: "(string, CTEDefinition) gomap")
    (outputColumns: "OutputColumn list")

definition NewScope :: "Scope option \<Rightarrow> Scope" where
  "NewScope p =
     (let folds = (case p of None \<Rightarrow> False | Some q \<Rightarrow> foldNames q);
          verify = (case p of None \<Rightarrow> False | Some q \<Rightarrow> verifyQualifiedColumns q)
      in Scope p None [] folds verify [] [])"

definition SetFoldNames :: "bool \<Rightarrow> Scope \<Rightarrow> Scope" where
  "SetFoldNames folds s = (case s of Scope p d rs _ v cs os \<Rightarrow> Scope p d rs folds v cs os)"

definition SetVerifyQualifiedColumns :: "bool \<Rightarrow> Scope \<Rightarrow> Scope" where
  "SetVerifyQualifiedColumns verify s = (case s of Scope p d rs f _ cs os \<Rightarrow> Scope p d rs f verify cs os)"

definition NewScopeWithDefinitions :: "Scope option \<Rightarrow> Scope \<Rightarrow> Scope" where
  "NewScopeWithDefinitions p d =
     (case NewScope p of Scope q _ rs f v cs os \<Rightarrow> Scope q (Some d) rs f v cs os)"

definition sameAddress :: "bool \<Rightarrow> RelationKey \<Rightarrow> RelationKey \<Rightarrow> bool" where
  "sameAddress folds a b \<longleftrightarrow>
     namesMatch (key_Name a) (key_Name b) folds \<and> namesMatch (Qualifier a) (Qualifier b) folds"

text \<open>The loop of \<open>AddTable\<close>: the first relation with the same address is replaced.\<close>

fun addTable :: "bool \<Rightarrow> TableRef \<Rightarrow> TableRef list \<Rightarrow> TableRef list" where
  "addTable folds ref [] = [ref]"
| "addTable folds ref (existing # rest) =
     (if sameAddress folds (Key existing) (Key ref) then ref # rest else existing # addTable folds ref rest)"

definition AddTable :: "TableRef \<Rightarrow> Scope \<Rightarrow> Scope" where
  "AddTable ref s = (case s of Scope p d rs f v cs os \<Rightarrow> Scope p d (addTable f ref rs) f v cs os)"

definition AddCTE :: "CTEDefinition \<Rightarrow> Scope \<Rightarrow> Scope" where
  "AddCTE cte s = (case s of Scope p d rs f v cs os \<Rightarrow> Scope p d rs f v (gm_put (cte_Name cte) cte cs) os)"

definition AddOutputColumn :: "OutputColumn \<Rightarrow> Scope \<Rightarrow> Scope" where
  "AddOutputColumn col s = (case s of Scope p d rs f v cs os \<Rightarrow> Scope p d rs f v cs (os @ [col]))"

definition SetOutputColumns :: "OutputColumn list \<Rightarrow> Scope \<Rightarrow> Scope" where
  "SetOutputColumns cols s = (case s of Scope p d rs f v cs _ \<Rightarrow> Scope p d rs f v cs cols)"

text \<open>What a scope itself answers, before its parent is asked.\<close>

definition findOwnRelation :: "bool \<Rightarrow> TableRef list \<Rightarrow> RelationKey \<Rightarrow> TableRef option" where
  "findOwnRelation folds rs key =
     (case find (\<lambda>ref. sameAddress folds (Key ref) key) rs of
        Some ref \<Rightarrow> Some ref
      | None \<Rightarrow> find (\<lambda>ref. addresses ref key folds) rs)"

fun FindRelation :: "Scope \<Rightarrow> RelationKey \<Rightarrow> TableRef option" where
  "FindRelation (Scope p d rs f v cs os) key =
     (case findOwnRelation f rs key of
        Some ref \<Rightarrow> Some ref
      | None \<Rightarrow> (case p of None \<Rightarrow> None | Some q \<Rightarrow> FindRelation q key))"

definition FindTable :: "Scope \<Rightarrow> string \<Rightarrow> TableRef option" where
  "FindTable s name = FindRelation s \<lparr>Qualifier = [], key_Name = name\<rparr>"

text \<open>A map's keys in increasing order.\<close>

definition sortedKeysOf :: "(string, 'v) gomap \<Rightarrow> string list" where
  "sortedKeysOf m = sort (map fst m)"

definition lookupCTE :: "Scope \<Rightarrow> string \<Rightarrow> CTEDefinition option" where
  "lookupCTE s name =
     (case gm_get (ctes s) name of
        Some cte \<Rightarrow> Some cte
      | None \<Rightarrow>
          if \<not> foldNames s then None
          else (case find (\<lambda>key. EqualFold key name) (sortedKeysOf (ctes s)) of
              None \<Rightarrow> None
            | Some key \<Rightarrow> gm_get (ctes s) key))"

fun FindCTE :: "Scope \<Rightarrow> string \<Rightarrow> CTEDefinition option" where
  "FindCTE (Scope p d rs f v cs os) name =
     (case lookupCTE (Scope p d rs f v cs os) name of
        Some cte \<Rightarrow> Some cte
      | None \<Rightarrow> (case d of
            Some q \<Rightarrow> FindCTE q name
          | None \<Rightarrow> (case p of None \<Rightarrow> None | Some q \<Rightarrow> FindCTE q name)))"

fun findCTEQualifier :: "Scope \<Rightarrow> string \<Rightarrow> CTEDefinition option" where
  "findCTEQualifier (Scope p d rs f v cs os) name =
     (case lookupCTE (Scope p d rs f v cs os) name of
        Some cte \<Rightarrow> Some cte
      | None \<Rightarrow> (case p of None \<Rightarrow> None | Some q \<Rightarrow> findCTEQualifier q name))"

definition cteTableRef :: "CTEDefinition \<Rightarrow> TableRef" where
  "cteTableRef cte =
     \<lparr>tr_Schema = [], tr_Table = cte_Name cte, Alias = cte_Name cte, IsSubquery = False, IsCTE = True,
      tr_Lineage = cte_Lineage cte, columnLookup = None\<rparr>"

definition sortedRelations :: "Scope \<Rightarrow> TableRef list" where
  "sortedRelations s = sort_key (\<lambda>r. (addressName r, tr_Schema r)) (relations s)"

definition sortedCTEs :: "Scope \<Rightarrow> CTEDefinition list" where
  "sortedCTEs s = map (\<lambda>key. the (gm_get (ctes s) key)) (sortedKeysOf (ctes s))"

definition ownsColumn :: "TableRef \<Rightarrow> string \<Rightarrow> bool" where
  "ownsColumn ref column =
     (case ColumnNames ref of
        None \<Rightarrow> True
      | Some names \<Rightarrow> if names = [] then True else list_ex (\<lambda>name. EqualFold name column) names)"

definition columnsOf :: "TableRef list \<Rightarrow> string \<Rightarrow> ResolvedColumn list" where
  "columnsOf refs column = map (\<lambda>ref.
     \<lparr>Ref = \<lparr>cr_Schema = tr_Schema ref, cr_Table = tr_Table ref, cr_Column = column, Resolved = False\<rparr>,
      Relation = Some ref\<rparr>) refs"

text \<open>The two lists of \<open>resolveInScope\<close>: the relations that own the column, and those nobody describes.\<close>

fun classify :: "string \<Rightarrow> TableRef list \<Rightarrow> TableRef list \<times> TableRef list" where
  "classify column [] = ([], [])"
| "classify column (ref # refs) =
     (let (owners, unknown) = classify column refs in
      case ColumnNames ref of
        None \<Rightarrow> (owners, ref # unknown)
      | Some names \<Rightarrow>
          if list_ex (\<lambda>name. EqualFold name column) names then (ref # owners, unknown)
          else (owners, unknown))"

definition resolveInScope :: "Scope \<Rightarrow> string \<Rightarrow> ResolvedColumn list \<times> TableRef list" where
  "resolveInScope s column =
     (let (owners, unknown) = classify column (sortedRelations s) in (columnsOf owners column, unknown))"

datatype resolve_error = ColumnNotFound string | QualifiedColumnNotFound string string | TableNotFound string

text \<open>The loop of \<open>resolveUnqualified\<close>, outwards, with \<open>fallback\<close> and \<open>hasAlternative\<close>.\<close>

fun resolveLoop ::
    "string \<Rightarrow> Scope \<Rightarrow> TableRef option \<Rightarrow> bool \<Rightarrow> resolve_error + ResolvedColumn list" where
  "resolveLoop column (Scope p d rs f v cs os) fallback hasAlternative =
     (let cur = Scope p d rs f v cs os;
          candidates = sortedRelations cur;
          fallback' = (if fallback = None \<and> \<not> hasAlternative \<and> length candidates = 1
            then Some (hd candidates) else fallback);
          hasAlternative' = (if 1 < length candidates then True else hasAlternative);
          (columns, unknown) = resolveInScope cur column
      in if columns \<noteq> [] then Inr columns
         else if unknown \<noteq> [] then Inr (columnsOf [hd unknown] column)
         else if candidates = [] \<and> sortedCTEs cur \<noteq> [] then
           let cte = hd (sortedCTEs cur) in
           Inr [\<lparr>Ref = \<lparr>cr_Schema = [], cr_Table = cte_Name cte, cr_Column = column, Resolved = False\<rparr>,
                 Relation = Some (cteTableRef cte)\<rparr>]
         else (case p of
             Some q \<Rightarrow> resolveLoop column q fallback' hasAlternative'
           | None \<Rightarrow> (case fallback' of
                 Some ref \<Rightarrow> Inr (columnsOf [ref] column)
               | None \<Rightarrow> Inl (ColumnNotFound column))))"

definition resolveUnqualified :: "Scope \<Rightarrow> ColumnRef \<Rightarrow> resolve_error + ResolvedColumn list" where
  "resolveUnqualified s colRef = resolveLoop (cr_Column colRef) s None False"

definition ResolveColumnRefs :: "Scope \<Rightarrow> ColumnRef \<Rightarrow> resolve_error + ResolvedColumn list" where
  "ResolveColumnRefs s colRef =
     (let key = \<lparr>Qualifier = cr_Schema colRef, key_Name = cr_Table colRef\<rparr> in
      if Resolved colRef then
        (case FindRelation s key of
           Some ref \<Rightarrow> Inr [\<lparr>Ref = colRef, Relation = Some ref\<rparr>]
         | None \<Rightarrow> Inr [\<lparr>Ref = colRef, Relation = None\<rparr>])
      else if cr_Table colRef \<noteq> [] then
        (case FindRelation s key of
           Some ref \<Rightarrow>
             if verifyQualifiedColumns s \<and> \<not> IsCTE ref \<and> \<not> IsSubquery ref
               \<and> cr_Column colRef \<noteq> [] \<and> cr_Column colRef \<noteq> WildcardColumn
               \<and> \<not> ownsColumn ref (cr_Column colRef)
             then Inl (QualifiedColumnNotFound (cr_Table colRef) (cr_Column colRef))
             else Inr [\<lparr>Ref = \<lparr>cr_Schema = tr_Schema ref,
                 cr_Table = (if IsCTE ref \<or> IsSubquery ref then addressName ref else tr_Table ref),
                 cr_Column = cr_Column colRef, Resolved = False\<rparr>, Relation = Some ref\<rparr>]
         | None \<Rightarrow> (case findCTEQualifier s (cr_Table colRef) of
               Some cte \<Rightarrow> Inr [\<lparr>Ref = \<lparr>cr_Schema = [], cr_Table = cte_Name cte,
                 cr_Column = cr_Column colRef, Resolved = False\<rparr>, Relation = Some (cteTableRef cte)\<rparr>]
             | None \<Rightarrow> Inl (TableNotFound (cr_Table colRef))))
      else resolveUnqualified s colRef)"

definition ResolveColumnRef :: "Scope \<Rightarrow> ColumnRef \<Rightarrow> resolve_error + ColumnRef \<times> TableRef option" where
  "ResolveColumnRef s colRef =
     (case ResolveColumnRefs s colRef of
        Inl err \<Rightarrow> Inl err
      | Inr resolved \<Rightarrow> Inr (Ref (resolved ! 0), Relation (resolved ! 0)))"

definition ResolveColumn :: "Scope \<Rightarrow> ColumnRef \<Rightarrow> resolve_error + ColumnRef" where
  "ResolveColumn s colRef = map_sum id fst (ResolveColumnRef s colRef)"

subsection \<open>Names a temporary relation exposes (\<open>exposed.go\<close>)\<close>

fun firstTargets :: "string list \<Rightarrow> ColumnRelation list \<Rightarrow> string list" where
  "firstTargets seen [] = []"
| "firstTargets seen (edge # edges) =
     (if col_Name (Target edge) \<in> set seen then firstTargets seen edges
      else col_Name (Target edge) # firstTargets (col_Name (Target edge) # seen) edges)"

definition TempColumnNames :: "string list \<Rightarrow> ColumnRelation list \<Rightarrow> string list option" where
  "TempColumnNames declared lineage =
     (let names = (if declared = [] then firstTargets [] lineage else declared) in
      if names = [] then None
      else if list_ex (\<lambda>name. name = [] \<or> name = WildcardColumn) names then None
      else Some names)"

definition AttachTempColumnLookup :: "TableRef \<Rightarrow> string list \<Rightarrow> TableRef" where
  "AttachTempColumnLookup tableRef declared =
     (case TempColumnNames declared (tr_Lineage tableRef) of
        None \<Rightarrow> tableRef
      | Some names \<Rightarrow> SetColumnLookup (Some names) tableRef)"

definition OutputColumnNames :: "string list \<Rightarrow> OutputColumn list \<Rightarrow> string list" where
  "OutputColumnNames declared cols =
     (let renames = length declared \<le> length cols in
      map (\<lambda>(i, col). if renames \<and> i < length declared then declared ! i else oc_Alias col)
        (enumerate 0 cols))"

definition hasWildcardOutput :: "OutputColumn list \<Rightarrow> bool" where
  "hasWildcardOutput cols = list_ex (\<lambda>col. oc_Alias col = WildcardColumn) cols"

definition ExposedColumnNames :: "string list \<Rightarrow> OutputColumn list \<Rightarrow> string list" where
  "ExposedColumnNames declared cols =
     (if length cols < length declared \<and> hasWildcardOutput cols then declared
      else OutputColumnNames declared cols)"

definition WildcardSourceRef :: "TableRef \<Rightarrow> ColumnRef" where
  "WildcardSourceRef tableRef =
     \<lparr>cr_Schema = tr_Schema tableRef, cr_Table = tr_Table tableRef, cr_Column = WildcardColumn, Resolved = True\<rparr>"

definition QueryLocalColumnRef :: "TableRef \<Rightarrow> string \<Rightarrow> ColumnRef" where
  "QueryLocalColumnRef tableRef column =
     \<lparr>cr_Schema = [], cr_Table = (if Alias tableRef = [] then tr_Table tableRef else Alias tableRef),
      cr_Column = column, Resolved = False\<rparr>"

end
