(* ===== verification/Lineage_Algorithm.thy ===== *)
theory Lineage_Algorithm
  imports Lineage_Scope
begin

text \<open>
  The parts of lineage analysis the SQL dialects share, \<open>backend/plugin/lineage/algorithm\<close>.

  A callback that records an edge is a list of the edges it is given. The recursions through
  temporary relations take fuel, because the code's need not return: \<open>None\<close> is running out of it.
\<close>

subsection \<open>Diagnostics (\<open>diagnostics.go\<close>)\<close>

definition diagnosticLimit :: nat where
  "diagnosticLimit = 10"

text \<open>A nil store is \<open>None\<close>.\<close>

record Diagnostics =
  dg_seen :: "Diagnostic list"
  dg_notes :: "Diagnostic list"
  dg_omitted :: int

definition NewDiagnostics :: "Diagnostics option" where
  "NewDiagnostics = Some \<lparr>dg_seen = [], dg_notes = [], dg_omitted = 0\<rparr>"

definition add_note :: "Diagnostic \<Rightarrow> Diagnostics option \<Rightarrow> Diagnostics option" where
  "add_note note d =
     (case d of
        None \<Rightarrow> None
      | Some d \<Rightarrow>
          if note \<in> set (dg_seen d) then Some d
          else let d = d\<lparr>dg_seen := note # dg_seen d\<rparr> in
            if diagnosticLimit \<le> length (dg_notes d) then Some (d\<lparr>dg_omitted := dg_omitted d + 1\<rparr>)
            else Some (d\<lparr>dg_notes := dg_notes d @ [note]\<rparr>))"

definition refName :: "string \<Rightarrow> string \<Rightarrow> string" where
  "refName table column =
     (if table = [] then column else if column = [] then table else table @ ''.'' @ column)"

definition note_of :: "DiagnosticCategory \<Rightarrow> string \<Rightarrow> string \<Rightarrow> string \<Rightarrow> Diagnostic" where
  "note_of category subject reference detail =
     \<lparr>Category = category, Subject = subject, Reference = reference, Detail = detail\<rparr>"

definition NotModelled :: "string \<Rightarrow> string \<Rightarrow> Diagnostics option \<Rightarrow> Diagnostics option" where
  "NotModelled subject detail d = add_note (note_of DiagnosticNotModelled subject [] detail) d"

definition Unresolved :: "string \<Rightarrow> ColumnRef \<Rightarrow> Diagnostics option \<Rightarrow> Diagnostics option" where
  "Unresolved clause ref d =
     add_note (note_of DiagnosticUnresolved clause (refName (cr_Table ref) (cr_Column ref)) []) d"

definition Ambiguous :: "string \<Rightarrow> ColumnRef \<Rightarrow> Diagnostics option \<Rightarrow> Diagnostics option" where
  "Ambiguous clause ref d =
     add_note (note_of DiagnosticAmbiguous clause (refName (cr_Table ref) (cr_Column ref)) []) d"

definition UnresolvedQualifier :: "string \<Rightarrow> string \<Rightarrow> Diagnostics option \<Rightarrow> Diagnostics option" where
  "UnresolvedQualifier clause qualifier d = add_note (note_of DiagnosticUnresolved clause qualifier []) d"

definition CatalogUnavailable :: "string \<Rightarrow> string \<Rightarrow> Diagnostics option \<Rightarrow> Diagnostics option" where
  "CatalogUnavailable rel err d = add_note (note_of DiagnosticCatalogUnavailable [] rel err) d"

definition AppendTo :: "string list \<Rightarrow> Diagnostics option \<Rightarrow> string list" where
  "AppendTo reasons d =
     (case d of
        None \<Rightarrow> reasons
      | Some d \<Rightarrow>
          if dg_notes d = [] then reasons else reasons @ [FormatDiagnostics (dg_notes d) (dg_omitted d)])"

definition Notes :: "Diagnostics option \<Rightarrow> Diagnostic list \<times> int" where
  "Notes d =
     (case d of
        None \<Rightarrow> ([], 0)
      | Some d \<Rightarrow> if dg_notes d = [] then ([], 0) else (dg_notes d, dg_omitted d))"

subsection \<open>The set of edges (\<open>edge.go\<close>)\<close>

record endpoints =
  ep_source :: ObjectIdentifier
  sourceField :: string
  ep_target :: ObjectIdentifier
  targetField :: string

definition endpointsOf :: "ColumnRelation \<Rightarrow> endpoints" where
  "endpointsOf relation =
     \<lparr>ep_source = col_Table (Source relation), sourceField = col_Name (Source relation),
      ep_target = col_Table (Target relation), targetField = col_Name (Target relation)\<rparr>"

record EdgeSet =
  Edges :: "ColumnRelation list"
  es_seen :: "(endpoints, ColumnRelation list) gomap"

definition NewEdgeSet :: EdgeSet where
  "NewEdgeSet = \<lparr>Edges = [], es_seen = []\<rparr>"

text \<open>A missing key of the map reads as the empty slice.\<close>

definition seen_at :: "EdgeSet \<Rightarrow> endpoints \<Rightarrow> ColumnRelation list" where
  "seen_at s key = (case gm_get (es_seen s) key of None \<Rightarrow> [] | Some rs \<Rightarrow> rs)"

definition edge_Add :: "ColumnRelation \<Rightarrow> EdgeSet \<Rightarrow> EdgeSet" where
  "edge_Add relation s =
     (let key = endpointsOf relation in
      if list_ex (\<lambda>existing. SameTransformations (rel_Transformation existing) (rel_Transformation relation))
           (seen_at s key)
      then s
      else s\<lparr>es_seen := gm_put key (seen_at s key @ [relation]) (es_seen s), Edges := Edges s @ [relation]\<rparr>)"

definition edge_Len :: "EdgeSet \<Rightarrow> nat" where
  "edge_Len s = length (Edges s)"

subsection \<open>Set operations (\<open>setop.go\<close>)\<close>

definition ArmChain :: "Transformation list \<Rightarrow> Transformation \<Rightarrow> Transformation list" where
  "ArmChain chain op =
     (if chain \<noteq> [] \<and> Transformation_Equal (last chain) op then chain else chain @ [op])"

definition mergedSources ::
    "OutputColumn list list \<Rightarrow> Transformation list list \<Rightarrow> nat \<Rightarrow> ColumnSource list" where
  "mergedSources armColumns armTransforms colIdx =
     concat (map (\<lambda>(armIdx, cols).
       if length cols \<le> colIdx then []
       else map (\<lambda>source. source\<lparr>Transform :=
              CombineTransformations (if armIdx < length armTransforms then armTransforms ! armIdx else [])
                (Transform source)\<rparr>)
            (Sources (cols ! colIdx)))
       (enumerate 0 armColumns))"

definition MergeSetOpColumns ::
    "Scope \<Rightarrow> OutputColumn list list \<Rightarrow> Transformation list list \<Rightarrow> Scope" where
  "MergeSetOpColumns baseScope armColumns armTransforms =
     (if armColumns = [] \<or> hd armColumns = [] then baseScope
      else SetOutputColumns
        (map (\<lambda>(colIdx, firstColumn). firstColumn\<lparr>Sources := mergedSources armColumns armTransforms colIdx\<rparr>)
          (enumerate 0 (hd armColumns))) baseScope)"

subsection \<open>Temporary relations (\<open>temp.go\<close>)\<close>

definition isExcludedColumn :: "string list \<Rightarrow> string \<Rightarrow> bool" where
  "isExcludedColumn except name = list_ex (\<lambda>excluded. EqualFold excluded name) except"

fun uniqueColumnNames :: "string list \<Rightarrow> bool" where
  "uniqueColumnNames [] = True"
| "uniqueColumnNames (name # names) =
     (if list_ex (\<lambda>other. EqualFold name other) names then False else uniqueColumnNames names)"

definition is_temp :: "TableRef \<Rightarrow> bool" where
  "is_temp r \<longleftrightarrow> IsCTE r \<or> IsSubquery r"

definition wildcardColumns :: "TableRef \<Rightarrow> string list \<Rightarrow> string list \<Rightarrow> OutputColumn list" where
  "wildcardColumns tableRef except names =
     map (\<lambda>name. \<lparr>oc_Alias = name, Sources = NewColumnSources [QueryLocalColumnRef tableRef name] [],
           IsDerived = False\<rparr>)
       (filter (\<lambda>name. \<not> isExcludedColumn except name) names)"

definition ExpandQueryLocalWildcard :: "Scope \<Rightarrow> TableRef \<Rightarrow> string list \<Rightarrow> bool \<times> Scope" where
  "ExpandQueryLocalWildcard sp tableRef except =
     (if \<not> is_temp tableRef then (False, sp)
      else (case ColumnNames tableRef of
          None \<Rightarrow> (False, sp)
        | Some names \<Rightarrow>
            if \<not> uniqueColumnNames names then (False, sp)
            else (True, fold AddOutputColumn (wildcardColumns tableRef except names) sp)))"

text \<open>The name a traced entry gets: a wildcard read as a wildcard keeps the entry's own.\<close>

definition actualTarget :: "string \<Rightarrow> string \<Rightarrow> ColumnRelation \<Rightarrow> string" where
  "actualTarget columnName targetColumn edge =
     (if columnName = WildcardColumn \<and> targetColumn = WildcardColumn then col_Name (Target edge)
      else targetColumn)"

definition TraceThroughTableLineage ::
    "new_edge \<Rightarrow> TableRef \<Rightarrow> string \<Rightarrow> string \<Rightarrow> Transformation list \<Rightarrow> ColumnRelation list" where
  "TraceThroughTableLineage newEdge tableRef columnName outputAlias transform =
     map (\<lambda>edge. newEdge (Qualifier (RelationKeyOf (col_Table (Source edge)))) (Name (col_Table (Source edge)))
            (col_Name (Source edge)) [] ResultTableName (actualTarget columnName outputAlias edge)
            (CombineTransformations (rel_Transformation edge) transform) True)
       (AnsweringLineage (tr_Lineage tableRef) columnName)"

definition TraceThroughTableLineageToTarget ::
    "new_edge \<Rightarrow> TableRef \<Rightarrow> string \<Rightarrow> string \<Rightarrow> string \<Rightarrow> string \<Rightarrow> Transformation list \<Rightarrow> ColumnRelation list" where
  "TraceThroughTableLineageToTarget newEdge tableRef columnName targetQualifier targetTable targetColumn transform =
     map (\<lambda>edge. newEdge (Qualifier (RelationKeyOf (col_Table (Source edge)))) (Name (col_Table (Source edge)))
            (col_Name (Source edge)) targetQualifier targetTable (actualTarget columnName targetColumn edge)
            (CombineTransformations (rel_Transformation edge) transform) (targetTable = ResultTableName))
       (AnsweringLineage (tr_Lineage tableRef) columnName)"

text \<open>The relation an entry's source names again, when it is a temporary one.\<close>

definition nestedTemp :: "Scope \<Rightarrow> ColumnRelation \<Rightarrow> TableRef option" where
  "nestedTemp sp edge =
     (case FindRelation sp (RelationKeyOf (col_Table (Source edge))) of
        None \<Rightarrow> None
      | Some nested \<Rightarrow> if is_temp nested then Some nested else None)"

text \<open>Running a step for every element, when every step returns.\<close>

definition collect :: "('a \<Rightarrow> 'b list option) \<Rightarrow> 'a list \<Rightarrow> 'b list option" where
  "collect f xs = map_option concat (those (map f xs))"

fun flattenedLineage ::
    "nat \<Rightarrow> new_edge \<Rightarrow> Scope \<Rightarrow> TableRef \<Rightarrow> string \<Rightarrow> string \<Rightarrow> string \<Rightarrow> Transformation list
      \<Rightarrow> ColumnRelation list option" where
  "flattenedLineage 0 newEdge sp tableRef columnName targetTable targetColumn transform = None"
| "flattenedLineage (Suc fuel) newEdge sp tableRef columnName targetTable targetColumn transform =
     collect (\<lambda>edge.
       let target = actualTarget columnName targetColumn edge;
           combined = CombineTransformations (rel_Transformation edge) transform
       in case nestedTemp sp edge of
            Some nested \<Rightarrow> flattenedLineage fuel newEdge sp nested (col_Name (Source edge)) targetTable target combined
          | None \<Rightarrow> Some [newEdge (Qualifier (RelationKeyOf (col_Table (Source edge)))) (Name (col_Table (Source edge)))
              (col_Name (Source edge)) [] targetTable target combined True])
       (AnsweringLineage (tr_Lineage tableRef) columnName)"

definition FlattenTempSourceLineage ::
    "nat \<Rightarrow> new_edge \<Rightarrow> Scope \<Rightarrow> TableRef option \<Rightarrow> string \<Rightarrow> string \<Rightarrow> string \<Rightarrow> Transformation list
      \<Rightarrow> ColumnRelation list \<Rightarrow> (bool \<times> ColumnRelation list) option" where
  "FlattenTempSourceLineage fuel newEdge sp relation columnName targetTable targetColumn transform lineage =
     (case relation of
        None \<Rightarrow> Some (False, lineage)
      | Some r \<Rightarrow>
          if \<not> is_temp r then Some (False, lineage)
          else map_option (\<lambda>edges. (True, lineage @ edges))
            (flattenedLineage fuel newEdge sp r columnName targetTable targetColumn transform))"

fun FlattenTempSources ::
    "nat \<Rightarrow> Scope \<Rightarrow> ColumnRef \<Rightarrow> TableRef option \<Rightarrow> Transformation list \<Rightarrow> ColumnSource list option" where
  "FlattenTempSources 0 sp ref relation transform = None"
| "FlattenTempSources (Suc fuel) sp ref relation transform =
     (case relation of
        None \<Rightarrow> Some [\<lparr>src_Ref = ref, Transform = transform\<rparr>]
      | Some r \<Rightarrow>
          if \<not> is_temp r then Some [\<lparr>src_Ref = ref, Transform = transform\<rparr>]
          else collect (\<lambda>edge.
            let combined = CombineTransformations (rel_Transformation edge) transform;
                edgeRef = \<lparr>cr_Schema = Schema (col_Table (Source edge)), cr_Table = Name (col_Table (Source edge)),
                  cr_Column = col_Name (Source edge), Resolved = False\<rparr>
            in case nestedTemp sp edge of
                 Some nested \<Rightarrow> FlattenTempSources fuel sp edgeRef (Some nested) combined
               | None \<Rightarrow> Some [\<lparr>src_Ref = edgeRef\<lparr>Resolved := True\<rparr>, Transform = combined\<rparr>])
            (AnsweringLineage (tr_Lineage r) (cr_Column ref)))"

subsection \<open>Output columns (\<open>output.go\<close>)\<close>

definition resolveSource :: "nat \<Rightarrow> Scope \<Rightarrow> ColumnSource \<Rightarrow> ColumnSource list option" where
  "resolveSource fuel sp source =
     (case ResolveColumnRefs sp (src_Ref source) of
        Inl _ \<Rightarrow> Some [source]
      | Inr resolutions \<Rightarrow> collect (\<lambda>res.
          case Relation res of
            Some r \<Rightarrow>
              if is_temp r then FlattenTempSources fuel sp (Ref res) (Some r) (Transform source)
              else Some [\<lparr>src_Ref = (Ref res)\<lparr>Resolved := True\<rparr>, Transform = Transform source\<rparr>]
          | None \<Rightarrow> Some [\<lparr>src_Ref = (Ref res)\<lparr>Resolved := True\<rparr>, Transform = Transform source\<rparr>])
          resolutions)"

definition resolveOutput :: "nat \<Rightarrow> Scope \<Rightarrow> OutputColumn \<Rightarrow> OutputColumn list option" where
  "resolveOutput fuel sp col =
     (if Sources col = [] then Some [col]
      else map_option (\<lambda>resolved. [col\<lparr>Sources := resolved\<rparr>]) (collect (resolveSource fuel sp) (Sources col)))"

definition ResolveOutputColumns :: "nat \<Rightarrow> Scope \<Rightarrow> OutputColumn list \<Rightarrow> OutputColumn list option" where
  "ResolveOutputColumns fuel sp cols = collect (resolveOutput fuel sp) cols"

end
