(* ===== verification/Lineage_Scope_Laws.thy ===== *)
theory Lineage_Scope_Laws
  imports Lineage_Scope
begin

text \<open>
  What a reference resolves to: the latest registration of its address, and for a name without a
  qualifier the innermost scope that provides it.
\<close>

subsection \<open>Addresses\<close>

lemma namesMatch_equiv:
  "namesMatch a a f" "namesMatch a b f \<Longrightarrow> namesMatch b a f"
  "namesMatch a b f \<Longrightarrow> namesMatch b c f \<Longrightarrow> namesMatch a c f"
  by (auto simp: namesMatch_def EqualFold_def split: if_splits)

lemma sameAddress_refl [simp]: "sameAddress f a a"
  by (simp add: sameAddress_def namesMatch_equiv)

lemma sameAddress_sym: "sameAddress f a b \<longleftrightarrow> sameAddress f b a"
  by (auto simp: sameAddress_def intro: namesMatch_equiv)

lemma sameAddress_trans: "sameAddress f a b \<Longrightarrow> sameAddress f b c \<Longrightarrow> sameAddress f a c"
  by (auto simp: sameAddress_def intro: namesMatch_equiv)

subsection \<open>Registering and finding\<close>

text \<open>
  Both registries of a scope, relations and definitions, promise the same: the latest registration of
  an address is what the address finds, and it changes no other address.
\<close>

locale registry =
  fixes add :: "'r \<Rightarrow> 's \<Rightarrow> 's"
    and lookup :: "'s \<Rightarrow> 'k \<Rightarrow> 'r option"
    and matches :: "'s \<Rightarrow> 'r \<Rightarrow> 'k \<Rightarrow> bool"
  assumes add_matches: "matches (add r s) = matches s"
    and lookup_add: "lookup (add r s) k = (if matches s r k then Some r else lookup s k)"
begin

lemma matches_fold: "matches (fold add rs s) = matches s"
  by (induction rs arbitrary: s) (simp_all add: add_matches)

lemma lookup_fold:
  "lookup (fold add rs s) k =
     (case find (\<lambda>r. matches s r k) (rev rs) of Some r \<Rightarrow> Some r | None \<Rightarrow> lookup s k)"
proof (induction rs rule: rev_induct)
  case (snoc r rs)
  then show ?case by (simp add: lookup_add matches_fold)
qed simp

end

definition exactRelation :: "Scope \<Rightarrow> RelationKey \<Rightarrow> TableRef option" where
  "exactRelation s key = find (\<lambda>ref. sameAddress (foldNames s) (Key ref) key) (relations s)"

lemma addTable_find:
  "find (\<lambda>r. sameAddress f (Key r) k) (addTable f ref rs) =
     (if sameAddress f (Key ref) k then Some ref else find (\<lambda>r. sameAddress f (Key r) k) rs)"
proof (induction rs)
  case (Cons e rs)
  have "sameAddress f (Key e) (Key ref) \<Longrightarrow> sameAddress f (Key e) k \<longleftrightarrow> sameAddress f (Key ref) k"
    using sameAddress_trans sameAddress_sym by blast
  moreover have "sameAddress f (Key e) k \<Longrightarrow> sameAddress f (Key ref) k \<Longrightarrow> sameAddress f (Key e) (Key ref)"
    using sameAddress_trans sameAddress_sym by blast
  ultimately show ?case using Cons.IH by auto
qed simp

lemma AddTable_fields [simp]:
  "relations (AddTable ref s) = addTable (foldNames s) ref (relations s)"
  "foldNames (AddTable ref s) = foldNames s" "parent (AddTable ref s) = parent s"
  "ctes (AddTable ref s) = ctes s" "definitions (AddTable ref s) = definitions s"
  by (cases s, simp add: AddTable_def)+

lemma AddCTE_fields [simp]:
  "ctes (AddCTE cte s) = gm_put (cte_Name cte) cte (ctes s)" "foldNames (AddCTE cte s) = foldNames s"
  "relations (AddCTE cte s) = relations s" "parent (AddCTE cte s) = parent s"
  by (cases s, simp add: AddCTE_def)+

interpretation tables: registry AddTable exactRelation "\<lambda>s ref key. sameAddress (foldNames s) (Key ref) key"
  by unfold_locales (simp_all add: exactRelation_def addTable_find)

interpretation definitions: registry AddCTE "\<lambda>s name. gm_get (ctes s) name" "\<lambda>_ cte name. cte_Name cte = name"
  by unfold_locales (auto simp: update_conv)

lemma FindRelation_exact: "exactRelation s key = Some ref \<Longrightarrow> FindRelation s key = Some ref"
  by (cases s) (simp add: exactRelation_def findOwnRelation_def)

lemma lookupCTE_exact: "gm_get (ctes s) name = Some cte \<Longrightarrow> FindCTE s name = Some cte \<and> findCTEQualifier s name = Some cte"
  by (cases s) (simp add: lookupCTE_def)

text \<open>
  The latest registration wins. After any sequence of registrations, a reference that spells the
  address of one of the registered relations finds the last relation registered under that address
  (in the engine's sense of equal names), whatever was in scope before, and the name of a registered
  definition finds the last definition of that name.
\<close>

theorem latest_registration_found:
  "(case find (\<lambda>r. sameAddress (foldNames s) (Key r) key) (rev refs) of
      Some ref \<Rightarrow> FindRelation (fold AddTable refs s) key = Some ref | None \<Rightarrow> True) \<and>
   (case find (\<lambda>cte. cte_Name cte = name) (rev defs) of
      Some cte \<Rightarrow> FindCTE (fold AddCTE defs s) name = Some cte | None \<Rightarrow> True)"
  by (auto split: option.split intro!: FindRelation_exact lookupCTE_exact [THEN conjunct1]
      simp: tables.lookup_fold definitions.lookup_fold)

subsection \<open>Names without a qualifier\<close>

text \<open>The scopes a search visits, from the inside.\<close>

fun scopes :: "Scope \<Rightarrow> Scope list" where
  "scopes (Scope p d rs f v cs os) =
     Scope p d rs f v cs os # (case p of None \<Rightarrow> [] | Some q \<Rightarrow> scopes q)"

definition lists_column :: "string \<Rightarrow> TableRef \<Rightarrow> bool" where
  "lists_column column ref \<longleftrightarrow>
     (case ColumnNames ref of None \<Rightarrow> False | Some names \<Rightarrow> list_ex (\<lambda>name. EqualFold name column) names)"

definition owners :: "string \<Rightarrow> Scope \<Rightarrow> TableRef list" where
  "owners column cur = filter (lists_column column) (sortedRelations cur)"

definition undescribed :: "Scope \<Rightarrow> TableRef list" where
  "undescribed cur = filter (\<lambda>ref. ColumnNames ref = None) (sortedRelations cur)"

text \<open>
  A scope provides a name when a relation lists it, when a relation is undescribed, or when it holds
  definitions only; and then this is its answer.
\<close>

definition provides :: "string \<Rightarrow> Scope \<Rightarrow> bool" where
  "provides column cur \<longleftrightarrow> owners column cur \<noteq> [] \<or> undescribed cur \<noteq> [] \<or> (relations cur = [] \<and> ctes cur \<noteq> [])"

definition provided :: "string \<Rightarrow> Scope \<Rightarrow> ResolvedColumn list" where
  "provided column cur =
     (if owners column cur \<noteq> [] then columnsOf (owners column cur) column
      else if undescribed cur \<noteq> [] then columnsOf [hd (undescribed cur)] column
      else columnsOf [cteTableRef (hd (sortedCTEs cur))] column)"

lemma classify_filter:
  "classify column refs = (filter (lists_column column) refs, filter (\<lambda>ref. ColumnNames ref = None) refs)"
  by (induction refs) (auto simp: lists_column_def split: option.splits)

lemma resolveInScope_owners:
  "resolveInScope cur column = (columnsOf (owners column cur) column, undescribed cur)"
  by (simp add: resolveInScope_def classify_filter owners_def undescribed_def)

lemma columnsOf_Nil [simp]: "columnsOf refs column = [] \<longleftrightarrow> refs = []"
  by (simp add: columnsOf_def)

lemma sorted_Nil [simp]: "sortedRelations cur = [] \<longleftrightarrow> relations cur = []" "sortedCTEs cur = [] \<longleftrightarrow> ctes cur = []"
  "length (sortedRelations cur) = length (relations cur)" "set (sortedRelations cur) = set (relations cur)"
  by (auto simp: sortedRelations_def sortedCTEs_def sortedKeysOf_def simp flip: length_0_conv)

lemma provided_definition:
  "columnsOf [cteTableRef cte] column =
     [\<lparr>Ref = \<lparr>cr_Schema = [], cr_Table = cte_Name cte, cr_Column = column, Resolved = False\<rparr>,
       Relation = Some (cteTableRef cte)\<rparr>]"
  by (simp add: columnsOf_def cteTableRef_def)

text \<open>The only relation of the innermost scope that has one.\<close>

definition innermost_single :: "Scope list \<Rightarrow> TableRef option" where
  "innermost_single chain =
     (case dropWhile (\<lambda>cur. relations cur = []) chain of
        [] \<Rightarrow> None | cur # _ \<Rightarrow> (case relations cur of [ref] \<Rightarrow> Some ref | _ \<Rightarrow> None))"

lemma single_sorted: "length (relations cur) = 1 \<Longrightarrow> hd (sortedRelations cur) = hd (relations cur)"
  by (cases "relations cur") (auto simp: sortedRelations_def)

lemma resolveLoop_spec:
  "resolveLoop column s fallback alt =
     (case find (provides column) (scopes s) of
        Some cur \<Rightarrow> Inr (provided column cur)
      | None \<Rightarrow> (case (if fallback \<noteq> None then fallback else if alt then None else innermost_single (scopes s)) of
            Some ref \<Rightarrow> Inr (columnsOf [ref] column) | None \<Rightarrow> Inl (ColumnNotFound column)))"
proof (induction s arbitrary: fallback alt)
  case (Scope p d rs f v cs os)
  let ?cur = "Scope p d rs f v cs os"
  show ?case
  proof (cases "provides column ?cur")
    case True
    then show ?thesis
      by (auto simp: resolveInScope_owners Let_def provides_def provided_def provided_definition)
  next
    case False
    define fb where "fb = (if fallback = None \<and> \<not> alt \<and> length rs = 1 then Some (hd rs) else fallback)"
    define alt' where "alt' = (if 1 < length rs then True else alt)"
    have step: "resolveLoop column ?cur fallback alt =
        (case p of Some q \<Rightarrow> resolveLoop column q fb alt'
         | None \<Rightarrow> (case fb of Some ref \<Rightarrow> Inr (columnsOf [ref] column) | None \<Rightarrow> Inl (ColumnNotFound column)))"
      using False single_sorted [of ?cur]
      by (auto simp: resolveInScope_owners Let_def provides_def fb_def alt'_def split: option.splits)
    have chain: "(if fb \<noteq> None then fb else if alt' then None else innermost_single rest) =
        (if fallback \<noteq> None then fallback else if alt then None else innermost_single (?cur # rest))" for rest
      by (cases rs; cases "tl rs") (auto simp: fb_def alt'_def innermost_single_def)
    have rest: "find (provides column) (scopes ?cur) = find (provides column) (case p of None \<Rightarrow> [] | Some q \<Rightarrow> scopes q)"
      using False by simp
    show ?thesis
    proof (cases p)
      case None
      have n: "innermost_single [] = None" "scopes ?cur = [?cur]" "find (provides column) (scopes ?cur) = None"
        using rest by (simp_all add: innermost_single_def None)
      have "fb = (if fb \<noteq> None then fb else if alt' then None else innermost_single [])"
        by (cases fb) (simp_all add: n(1))
      also note chain [of "[]"]
      finally have "fb = (if fallback \<noteq> None then fallback else if alt then None else innermost_single [?cur])" .
      then show ?thesis unfolding step n using None False by (simp del: not_None_eq)
    next
      case (Some q)
      have "scopes ?cur = ?cur # scopes q" by (simp add: Some)
      have "resolveLoop column ?cur fallback alt = resolveLoop column q fb alt'"
        unfolding step by (simp add: Some)
      also have "\<dots> = (case find (provides column) (scopes q) of Some cur \<Rightarrow> Inr (provided column cur)
          | None \<Rightarrow> (case (if fb \<noteq> None then fb else if alt' then None else innermost_single (scopes q)) of
              Some ref \<Rightarrow> Inr (columnsOf [ref] column) | None \<Rightarrow> Inl (ColumnNotFound column)))"
        by (rule Scope.IH(1)) (simp add: Some)
      finally show ?thesis
        unfolding chain [of "scopes q"] rest unfolding \<open>scopes ?cur = ?cur # scopes q\<close> by (simp add: Some)
    qed
  qed
qed

lemma resolve_spec:
  "resolveUnqualified s colRef =
     (case find (provides (cr_Column colRef)) (scopes s) of
        Some cur \<Rightarrow> Inr (provided (cr_Column colRef) cur)
      | None \<Rightarrow> (case innermost_single (scopes s) of
            Some ref \<Rightarrow> Inr (columnsOf [ref] (cr_Column colRef))
          | None \<Rightarrow> Inl (ColumnNotFound (cr_Column colRef))))"
  by (simp add: resolveUnqualified_def resolveLoop_spec)

text \<open>
  C21. A name without a qualifier belongs to the innermost scope that provides it. That scope
  answers with every relation that lists the name, in the order of their names; without one, with
  its first undescribed relation, which alone may still have the column; and an empty scope with
  the first of its definitions. When no scope provides the name, it is attributed to the relation
  of the innermost scope that has any if it is the only one there, and rejected otherwise.
\<close>

theorem unqualified_name_resolution:
  "resolveUnqualified s colRef =
     (case find (provides (cr_Column colRef)) (scopes s) of
        Some cur \<Rightarrow> Inr (provided (cr_Column colRef) cur)
      | None \<Rightarrow> (case innermost_single (scopes s) of
            Some ref \<Rightarrow> Inr (columnsOf [ref] (cr_Column colRef))
          | None \<Rightarrow> Inl (ColumnNotFound (cr_Column colRef))))"
  by (rule resolve_spec)

subsection \<open>Every resolution names a relation in scope\<close>

definition in_scope :: "Scope \<Rightarrow> TableRef \<Rightarrow> bool" where
  "in_scope s ref \<longleftrightarrow>
     (\<exists>cur\<in>set (scopes s). ref \<in> set (relations cur) \<or> (\<exists>cte\<in>snd ` set (ctes cur). ref = cteTableRef cte))"

lemma find_SomeD: "find P xs = Some x \<Longrightarrow> x \<in> set xs \<and> P x"
  by (auto simp: find_Some_iff)

lemma sameAddress_addresses: "sameAddress f (Key r) key \<Longrightarrow> addresses r key f"
  using namesMatch_equiv(2) by (auto simp: sameAddress_def addresses_def Key_def)

lemma FindRelation_in_scope:
  "FindRelation s key = Some ref \<Longrightarrow> \<exists>cur\<in>set (scopes s). ref \<in> set (relations cur) \<and> addresses ref key (foldNames cur)"
proof (induction s)
  case (Scope p d rs f v cs os)
  show ?case
  proof (cases "findOwnRelation f rs key")
    case None
    then show ?thesis using Scope.prems Scope.IH(1) by (cases p) auto
  next
    case (Some r)
    have "r \<in> set rs \<and> addresses r key f"
      using Some unfolding findOwnRelation_def
      by (auto dest!: find_SomeD dest: sameAddress_addresses split: option.splits)
    then show ?thesis using Scope.prems Some by (cases p) auto
  qed
qed

lemma lookupCTE_mem: "lookupCTE s name = Some cte \<Longrightarrow> cte \<in> snd ` set (ctes s)"
  by (auto simp: lookupCTE_def split: option.splits if_splits dest!: map_of_SomeD intro: rev_image_eqI)

lemma findCTEQualifier_mem:
  "findCTEQualifier s name = Some cte \<Longrightarrow> \<exists>cur\<in>set (scopes s). cte \<in> snd ` set (ctes cur)"
proof (induction s)
  case (Scope p d rs f v cs os)
  show ?case
  proof (cases "lookupCTE (Scope p d rs f v cs os) name")
    case None
    then show ?thesis using Scope.prems Scope.IH(1) by (cases p) auto
  next
    case (Some c)
    then have "cte \<in> snd ` set cs" using Scope.prems lookupCTE_mem [OF Some] by simp
    then show ?thesis by auto
  qed
qed

lemma hd_sortedCTEs: "ctes cur \<noteq> [] \<Longrightarrow> hd (sortedCTEs cur) \<in> snd ` set (ctes cur)"
proof -
  assume "ctes cur \<noteq> []"
  then have "sortedCTEs cur \<noteq> []" by (simp only: sorted_Nil(2) not_False_eq_True)
  then have "sortedKeysOf (ctes cur) \<noteq> []" by (auto simp: sortedCTEs_def)
  then obtain k ks where k: "sortedKeysOf (ctes cur) = k # ks" by (cases "sortedKeysOf (ctes cur)") auto
  then have "k \<in> fst ` set (ctes cur)" by (metis list.set_intros(1) set_map set_sort sortedKeysOf_def)
  then have "gm_get (ctes cur) k \<noteq> None" by (simp add: map_of_eq_None_iff)
  then obtain c where "gm_get (ctes cur) k = Some c" by blast
  then have "hd (sortedCTEs cur) = c" "(k, c) \<in> set (ctes cur)" by (simp_all add: sortedCTEs_def k map_of_SomeD)
  then show ?thesis by force
qed

lemma innermost_single_mem: "innermost_single chain = Some ref \<Longrightarrow> \<exists>cur\<in>set chain. ref \<in> set (relations cur)"
  by (induction chain) (auto simp: innermost_single_def split: list.splits if_splits)

lemma in_scopeI:
  "cur \<in> set (scopes s) \<Longrightarrow> ref \<in> set (relations cur) \<Longrightarrow> in_scope s ref"
  "cur \<in> set (scopes s) \<Longrightarrow> cte \<in> snd ` set (ctes cur) \<Longrightarrow> in_scope s (cteTableRef cte)"
  unfolding in_scope_def by blast+

lemma columnsOf_mem:
  "rc \<in> set (columnsOf refs column) \<Longrightarrow> \<exists>ref\<in>set refs. Relation rc = Some ref \<and> cr_Column (Ref rc) = column"
  by (auto simp: columnsOf_def)

lemma provided_in_scope:
  assumes "provides column cur" "cur \<in> set (scopes s)" "rc \<in> set (provided column cur)"
  shows "\<exists>ref. Relation rc = Some ref \<and> in_scope s ref \<and> cr_Column (Ref rc) = column"
proof -
  consider "rc \<in> set (columnsOf (owners column cur) column)"
    | "undescribed cur \<noteq> []" "rc \<in> set (columnsOf [hd (undescribed cur)] column)"
    | "ctes cur \<noteq> []" "rc \<in> set (columnsOf [cteTableRef (hd (sortedCTEs cur))] column)"
    using assms(1,3) by (auto simp: provided_def provides_def split: if_splits)
  then show ?thesis
  proof cases
    case 1
    then show ?thesis using columnsOf_mem assms(2) in_scopeI(1) by (fastforce simp: owners_def)
  next
    case 2
    have "hd (undescribed cur) \<in> set (relations cur)" using hd_in_set [OF 2(1)] by (simp add: undescribed_def)
    then show ?thesis using columnsOf_mem [OF 2(2)] assms(2) in_scopeI(1) by fastforce
  next
    case 3
    then show ?thesis using columnsOf_mem [OF 3(2)] hd_sortedCTEs assms(2) in_scopeI(2) by fastforce
  qed
qed

text \<open>
  Resolution invents nothing. A reference that was not resolved before resolves to at least one
  relation, every one of them a relation registered in the scope or an enclosing one or a definition
  made there, with the column the statement wrote; and a relation a qualified reference resolves to
  is one that reference addresses.
\<close>

theorem resolution_names_relations_in_scope:
  assumes "ResolveColumnRefs s colRef = Inr resolved" and "\<not> Resolved colRef"
  shows "resolved \<noteq> [] \<and>
    (\<forall>rc\<in>set resolved. \<exists>ref. Relation rc = Some ref \<and> in_scope s ref \<and> cr_Column (Ref rc) = cr_Column colRef)"
proof (cases "cr_Table colRef = []")
  case True
  have u: "resolveUnqualified s colRef = Inr resolved" using assms True by (simp add: ResolveColumnRefs_def Let_def)
  show ?thesis
  proof (cases "find (provides (cr_Column colRef)) (scopes s)")
    case None
    then show ?thesis using u innermost_single_mem [of "scopes s"] unfolding resolve_spec
      by (auto simp: columnsOf_def in_scope_def split: option.splits)
  next
    case (Some cur)
    then have "provides (cr_Column colRef) cur" "cur \<in> set (scopes s)" by (auto simp: find_Some_iff)
    moreover have "resolved = provided (cr_Column colRef) cur"
      using u Some unfolding resolve_spec by simp
    ultimately show ?thesis using provided_in_scope by (auto simp: provided_def)
  qed
next
  case False
  let ?key = "\<lparr>Qualifier = cr_Schema colRef, key_Name = cr_Table colRef\<rparr>"
  show ?thesis
  proof (cases "FindRelation s ?key")
    case None
    then show ?thesis using assms False findCTEQualifier_mem [of s "cr_Table colRef"]
      by (fastforce simp: ResolveColumnRefs_def Let_def in_scope_def split: option.splits)
  next
    case (Some ref)
    then show ?thesis using assms False FindRelation_in_scope [OF Some]
      by (auto simp: ResolveColumnRefs_def Let_def in_scope_def split: if_splits)
  qed
qed

end
