(* ===== verification/Lineage_Algorithm_Laws.thy ===== *)
theory Lineage_Algorithm_Laws
  imports Lineage_Algorithm Lineage_Scope_Laws
begin

text \<open>
  What the shared parts of the analysis promise: edges and diagnostics are kept once, operations of a
  set-operation tree are recorded without repetition, and temporary relations are replaced by the
  stored ones behind them, when they can be.
\<close>

subsection \<open>Keeping the first of each kind\<close>

text \<open>The elements whose key is new, in order: what every deduplicating loop of the code computes.\<close>

fun first_by :: "('a \<Rightarrow> 'k) \<Rightarrow> 'k set \<Rightarrow> 'a list \<Rightarrow> 'a list" where
  "first_by key seen [] = []"
| "first_by key seen (x # xs) =
     (if key x \<in> seen then first_by key seen xs else x # first_by key (insert (key x) seen) xs)"

lemma first_by_distinct: "distinct (map key (first_by key seen xs)) \<and> key ` set (first_by key seen xs) \<inter> seen = {}"
proof (induction xs arbitrary: seen)
  case (Cons x xs)
  show ?case using Cons.IH [of seen] Cons.IH [of "insert (key x) seen"] by auto
qed simp

lemma first_by_set: "key ` set (first_by key seen xs) = key ` set xs - seen"
  by (induction xs arbitrary: seen) auto

lemma first_by_snoc:
  "first_by key seen (xs @ [x]) = first_by key seen xs @ (if key x \<in> seen \<or> key x \<in> key ` set xs then [] else [x])"
  by (induction xs arbitrary: seen) auto

lemma firstTargets_first_by: "firstTargets seen edges = map (\<lambda>e. col_Name (Target e)) (first_by (\<lambda>e. col_Name (Target e)) (set seen) edges)"
  by (induction seen edges rule: firstTargets.induct) auto

subsection \<open>Edges\<close>

text \<open>An edge is identified by its endpoints and the transformations that produced it.\<close>

definition edge_identity :: "ColumnRelation \<Rightarrow> endpoints \<times> Transformation list" where
  "edge_identity e = (endpointsOf e, rel_Transformation e)"

definition edge_set_ok :: "EdgeSet \<Rightarrow> bool" where
  "edge_set_ok s \<longleftrightarrow> (\<forall>key. seen_at s key = filter (\<lambda>e. endpointsOf e = key) (Edges s))"

lemma edge_Add_cases:
  assumes "edge_set_ok s"
  shows "Edges (edge_Add r s) = Edges s @ (if edge_identity r \<in> edge_identity ` set (Edges s) then [] else [r])
    \<and> edge_set_ok (edge_Add r s)"
proof -
  have seen: "seen_at s (endpointsOf r) = filter (\<lambda>e. endpointsOf e = endpointsOf r) (Edges s)"
    using assms by (simp add: edge_set_ok_def)
  have dup: "list_ex (\<lambda>e. SameTransformations (rel_Transformation e) (rel_Transformation r)) (seen_at s (endpointsOf r))
      \<longleftrightarrow> edge_identity r \<in> edge_identity ` set (Edges s)"
    unfolding seen by (auto simp: list_ex_iff edge_identity_def image_iff) metis+
  show ?thesis
  proof (cases "edge_identity r \<in> edge_identity ` set (Edges s)")
    case True
    then show ?thesis using dup assms by (simp add: edge_Add_def Let_def)
  next
    case False
    then have "edge_Add r s = s\<lparr>es_seen := gm_put (endpointsOf r) (seen_at s (endpointsOf r) @ [r]) (es_seen s), Edges := Edges s @ [r]\<rparr>"
      using dup by (simp add: edge_Add_def Let_def)
    then show ?thesis using False assms by (auto simp: edge_set_ok_def seen_at_def gm_get_put)
  qed
qed

lemma edge_set_run: "Edges (fold edge_Add rs NewEdgeSet) = first_by edge_identity {} rs \<and> edge_set_ok (fold edge_Add rs NewEdgeSet)"
proof (induction rs rule: rev_induct)
  case Nil
  then show ?case by (simp add: NewEdgeSet_def edge_set_ok_def seen_at_def)
next
  case (snoc r rs)
  then show ?case using edge_Add_cases [of "fold edge_Add rs NewEdgeSet" r]
    by (simp add: first_by_snoc first_by_set)
qed

lemmas edge_set_first = edge_set_run [THEN conjunct1]

text \<open>
  The edge set keeps the first edge of every identity and nothing else, in the order they were
  added: the result has no two edges with the same endpoints and transformations, every added edge
  has its like in it, and edges that differ in either are both kept.
\<close>

theorem edge_set_keeps_first:
  "Edges (fold edge_Add rs NewEdgeSet) = first_by edge_identity {} rs \<and>
   distinct (map edge_identity (Edges (fold edge_Add rs NewEdgeSet))) \<and>
   edge_identity ` set (Edges (fold edge_Add rs NewEdgeSet)) = edge_identity ` set rs \<and>
   edge_Len (fold edge_Add rs NewEdgeSet) = card (edge_identity ` set rs)"
proof -
  have "length (first_by edge_identity {} rs) = card (edge_identity ` set rs)"
    using first_by_distinct [of edge_identity "{}" rs] first_by_set [of edge_identity "{}" rs]
    by (metis Diff_empty distinct_card length_map set_map)
  then show ?thesis
    using first_by_distinct [of edge_identity "{}" rs] by (simp add: edge_set_first first_by_set edge_Len_def)
qed

subsection \<open>Diagnostics\<close>

lemma add_note_Some:
  "add_note n (Some d) =
     Some (if n \<in> set (dg_seen d) then d
       else if diagnosticLimit \<le> length (dg_notes d) then d\<lparr>dg_seen := n # dg_seen d, dg_omitted := dg_omitted d + 1\<rparr>
       else d\<lparr>dg_seen := n # dg_seen d, dg_notes := dg_notes d @ [n]\<rparr>)"
  by (simp add: add_note_def Let_def)

text \<open>
  The notes of an analysis are the first ten different ones, in the order they were reported,
  and the count of those left out is exact; so no notes means that nothing was dropped.
\<close>

theorem diagnostics_bounded:
  "Notes (fold add_note ns NewDiagnostics) =
     (take diagnosticLimit (first_by (\<lambda>n. n) {} ns),
      int (card (set ns)) - int (length (take diagnosticLimit (first_by (\<lambda>n. n) {} ns)))) \<and>
   (fst (Notes (fold add_note ns NewDiagnostics)) = [] \<longleftrightarrow> ns = [])"
proof -
  have inv: "\<exists>d. fold add_note ns NewDiagnostics = Some d \<and> set (dg_seen d) = set ns
      \<and> dg_notes d = take diagnosticLimit (first_by (\<lambda>n. n) {} ns)
      \<and> dg_omitted d = int (length (first_by (\<lambda>n. n) {} ns)) - int (length (dg_notes d))"
  proof (induction ns rule: rev_induct)
    case Nil
    then show ?case by (simp add: NewDiagnostics_def)
  next
    case (snoc n ns)
    then obtain d where d: "fold add_note ns NewDiagnostics = Some d" "set (dg_seen d) = set ns"
      "dg_notes d = take diagnosticLimit (first_by (\<lambda>n. n) {} ns)"
      "dg_omitted d = int (length (first_by (\<lambda>n. n) {} ns)) - int (length (dg_notes d))" by blast
    show ?case
    proof (cases "n \<in> set ns")
      case True
      then show ?thesis using d by (simp add: add_note_Some first_by_snoc insert_absorb)
    next
      case False
      then show ?thesis using d by (auto simp: add_note_Some first_by_snoc Let_def)
    qed
  qed
  have len: "length (first_by (\<lambda>n. n) {} ns) = card (set ns)"
    using first_by_distinct [of "\<lambda>n. n" "{}" ns] first_by_set [of "\<lambda>n. n" "{}" ns]
    by (simp add: distinct_card [symmetric])
  have "first_by (\<lambda>n. n) {} ns = [] \<longleftrightarrow> ns = []" using len by (cases ns) auto
  moreover obtain d where d: "fold add_note ns NewDiagnostics = Some d" "dg_notes d = take diagnosticLimit (first_by (\<lambda>n. n) {} ns)"
      "dg_omitted d = int (length (first_by (\<lambda>n. n) {} ns)) - int (length (dg_notes d))"
    using inv by blast
  moreover have "Notes (fold add_note ns NewDiagnostics) = (if dg_notes d = [] then ([], 0) else (dg_notes d, dg_omitted d))"
    by (simp add: Notes_def d(1))
  ultimately show ?thesis using len by (cases "ns = []") (auto simp: diagnosticLimit_def)
qed

subsection \<open>Set operations\<close>

text \<open>
  The operations on the way to an arm of a set operation are recorded from the outside in,
  each run of equal ones once, and the edges of the arm carry them before the arm's own
  transformations: a merged column has, for every arm, the sources the arm's column had, in order,
  and an edge from them is typed by the outermost operation.
\<close>

lemma map_enumerate_index: "map (\<lambda>(i, x). f i) (enumerate n xs) = map f [n..<n + length xs]"
  by (simp add: split_def flip: map_fst_enumerate)

lemma mergedSources_view:
  "map (\<lambda>s. (src_Ref s, Transform s)) (mergedSources armColumns armTransforms i) =
     concat (map (\<lambda>(arm, cols). if i < length cols
       then map (\<lambda>s. (src_Ref s, (if arm < length armTransforms then armTransforms ! arm else []) @ Transform s)) (Sources (cols ! i))
       else []) (enumerate 0 armColumns))"
  unfolding mergedSources_def map_concat map_map
  by (rule arg_cong [where f = concat], rule map_cong) (auto simp: o_def)

lemma SetOutputColumns_outputs [simp]: "outputColumns (SetOutputColumns cols s) = cols"
  by (cases s) (simp add: SetOutputColumns_def)

theorem set_operation_arms:
  "fold (\<lambda>op chain. ArmChain chain op) ops [] = remdups_adj ops \<and>
   (armColumns = [] \<or> hd armColumns = [] \<or>
    map (\<lambda>col. map (\<lambda>s. (src_Ref s, Transform s)) (Sources col)) (outputColumns (MergeSetOpColumns sp armColumns armTransforms)) =
    map (\<lambda>i. concat (map (\<lambda>(arm, cols). if i < length cols
          then map (\<lambda>s. (src_Ref s, (if arm < length armTransforms then armTransforms ! arm else []) @ Transform s)) (Sources (cols ! i))
          else []) (enumerate 0 armColumns)))
      [0..<length (hd armColumns)]) \<and>
   RelationTypeOf (CombineTransformations (op # chain) transform) = RelationTypeOf [op]"
proof (intro conjI)
  show "fold (\<lambda>op chain. ArmChain chain op) ops [] = remdups_adj ops"
  proof (induction ops rule: rev_induct)
    case (snoc op ops)
    then show ?case by (cases ops rule: rev_cases) (auto simp: ArmChain_def remdups_adj_append_two remdups_adj_singleton)
  qed simp
  show "armColumns = [] \<or> hd armColumns = [] \<or>
    map (\<lambda>col. map (\<lambda>s. (src_Ref s, Transform s)) (Sources col)) (outputColumns (MergeSetOpColumns sp armColumns armTransforms)) =
    map (\<lambda>i. concat (map (\<lambda>(arm, cols). if i < length cols
          then map (\<lambda>s. (src_Ref s, (if arm < length armTransforms then armTransforms ! arm else []) @ Transform s)) (Sources (cols ! i))
          else []) (enumerate 0 armColumns)))
      [0..<length (hd armColumns)]"
  proof (cases "armColumns = [] \<or> hd armColumns = []")
    case False
    then have "map (\<lambda>col. map (\<lambda>s. (src_Ref s, Transform s)) (Sources col))
          (outputColumns (MergeSetOpColumns sp armColumns armTransforms)) =
        map (\<lambda>(i, col). map (\<lambda>s. (src_Ref s, Transform s)) (mergedSources armColumns armTransforms i))
          (enumerate 0 (hd armColumns))"
      by (simp add: MergeSetOpColumns_def split_def)
    then show ?thesis by (simp add: map_enumerate_index mergedSources_view)
  qed blast
qed (simp add: RelationTypeOf_def)

subsection \<open>Temporary relations\<close>

lemma collect_Some:
  "collect f xs = Some ys \<longleftrightarrow> (\<exists>yss. list_all2 (\<lambda>x ys. f x = Some ys) xs yss \<and> ys = concat yss)"
proof -
  have "those (map f xs) = Some yss \<longleftrightarrow> list_all2 (\<lambda>x ys. f x = Some ys) xs yss" for yss
    by (induction xs arbitrary: yss) (auto simp: list_all2_Cons1 split: option.splits)
  then show ?thesis by (auto simp: collect_def)
qed

lemma collect_None: "collect f xs = None \<longleftrightarrow> (\<exists>x\<in>set xs. f x = None)"
  by (induction xs) (auto simp: collect_def split: option.splits)

lemma collect_cong [fundef_cong]: "(\<And>x. x \<in> set ys \<Longrightarrow> f x = g x) \<Longrightarrow> xs = ys \<Longrightarrow> collect f xs = collect g ys"
  by (simp add: collect_def cong: map_cong)

lemma collect_rel:
  "(\<And>x. x \<in> set xs \<Longrightarrow> rel_option (list_all2 R) (f x) (g x)) \<Longrightarrow> rel_option (list_all2 R) (collect f xs) (collect g xs)"
proof (induction xs)
  case Nil
  then show ?case by (simp add: collect_def)
next
  case (Cons x xs)
  then have "rel_option (list_all2 R) (f x) (g x)" "rel_option (list_all2 R) (collect f xs) (collect g xs)" by auto
  then show ?case
    by (auto simp: collect_def option.rel_sel list_all2_appendI split: option.splits)
qed

text \<open>Which temporary relations of a scope read which.\<close>

definition temps :: "Scope \<Rightarrow> TableRef set" where
  "temps sp = {r. is_temp r \<and> (\<exists>cur\<in>set (scopes sp). r \<in> set (relations cur))}"

definition reads :: "Scope \<Rightarrow> (TableRef \<times> TableRef) set" where
  "reads sp = {(nested, r). r \<in> temps sp \<and> (\<exists>edge\<in>set (tr_Lineage r). nestedTemp sp edge = Some nested)}"

lemma nestedTemp_temps: "nestedTemp sp edge = Some nested \<Longrightarrow> nested \<in> temps sp"
  using FindRelation_in_scope
  by (fastforce simp: nestedTemp_def temps_def split: option.splits if_splits)

lemma finite_temps: "finite (temps sp)"
proof -
  have "temps sp \<subseteq> (\<Union>cur\<in>set (scopes sp). set (relations cur))" by (auto simp: temps_def)
  then show ?thesis by (rule finite_subset) auto
qed

lemma wf_reads: "acyclic (reads sp) \<Longrightarrow> wf (reads sp)"
proof (rule finite_acyclic_wf)
  have "reads sp \<subseteq> temps sp \<times> temps sp" by (auto simp: reads_def dest: nestedTemp_temps)
  then show "finite (reads sp)" by (rule finite_subset) (simp add: finite_temps)
qed

text \<open>More fuel never changes an answer, and enough of it is enough for all the elements.\<close>

lemma collect_more:
  assumes "\<And>x ys. f n x = Some ys \<Longrightarrow> f m x = Some ys" "collect (f n) xs = Some zs"
  shows "collect (f m) xs = Some zs"
proof -
  obtain yss where "list_all2 (\<lambda>x ys. f n x = Some ys) xs yss" "zs = concat yss"
    using assms(2) unfolding collect_Some by blast
  moreover from this(1) have "list_all2 (\<lambda>x ys. f m x = Some ys) xs yss"
    by (rule list_all2_mono) (rule assms(1))
  ultimately show ?thesis unfolding collect_Some by blast
qed

lemma collect_eventually:
  fixes f :: "nat \<Rightarrow> 'a \<Rightarrow> 'b list option"
  assumes mono: "\<And>n m x ys. f n x = Some ys \<Longrightarrow> n \<le> m \<Longrightarrow> f m x = Some ys"
  shows "(\<And>x. x \<in> set xs \<Longrightarrow> \<exists>n ys. f n x = Some ys \<and> list_all P ys) \<Longrightarrow>
    \<exists>n ys. collect (f n) xs = Some ys \<and> list_all P ys"
proof (induction xs)
  case Nil
  then show ?case by (simp add: collect_def)
next
  case (Cons x xs)
  then obtain n srcs where n: "collect (f n) xs = Some srcs" "list_all P srcs" by auto
  obtain k ss where k: "f k x = Some ss" "list_all P ss" using Cons.prems [of x] by auto
  obtain yss where y: "list_all2 (\<lambda>x ys. f n x = Some ys) xs yss" "srcs = concat yss"
    using n(1) unfolding collect_Some by blast
  have "f (max k n) x = Some ss" using mono [OF k(1) max.cobounded1] .
  moreover have "list_all2 (\<lambda>x ys. f (max k n) x = Some ys) xs yss"
    using y(1) by (rule list_all2_mono) (erule mono, rule max.cobounded2)
  ultimately have "list_all2 (\<lambda>x ys. f (max k n) x = Some ys) (x # xs) (ss # yss)" by (rule list.rel_intros(2))
  then have "collect (f (max k n)) (x # xs) = Some (concat (ss # yss))" unfolding collect_Some by blast
  moreover have "list_all P (concat (ss # yss))" using n(2) k(2) y(2) by simp
  ultimately show ?case by blast
qed

subsection \<open>Flattening\<close>

definition source_ref :: "bool \<Rightarrow> ColumnRelation \<Rightarrow> ColumnRef" where
  "source_ref resolved edge =
     \<lparr>cr_Schema = Schema (col_Table (Source edge)), cr_Table = Name (col_Table (Source edge)),
      cr_Column = col_Name (Source edge), Resolved = resolved\<rparr>"

text \<open>What the flattening makes of one entry.\<close>

definition flatten_entry ::
    "Scope \<Rightarrow> Transformation list \<Rightarrow> nat \<Rightarrow> ColumnRelation \<Rightarrow> ColumnSource list option" where
  "flatten_entry sp tr n edge =
     (case nestedTemp sp edge of
        Some nested \<Rightarrow> FlattenTempSources n sp (source_ref False edge) (Some nested) (rel_Transformation edge @ tr)
      | None \<Rightarrow> Some [\<lparr>src_Ref = source_ref True edge, Transform = rel_Transformation edge @ tr\<rparr>])"

lemma FlattenTempSources_Suc:
  "is_temp r \<Longrightarrow> FlattenTempSources (Suc n) sp ref (Some r) tr =
     collect (flatten_entry sp tr n) (AnsweringLineage (tr_Lineage r) (cr_Column ref))"
  by (simp add: flatten_entry_def [abs_def] source_ref_def Let_def cong: option.case_cong)

lemma FlattenTempSources_stored:
  "\<not> (\<exists>r. rel = Some r \<and> is_temp r) \<Longrightarrow> FlattenTempSources (Suc n) sp ref rel tr = Some [\<lparr>src_Ref = ref, Transform = tr\<rparr>]"
  by (auto split: option.splits)

lemma FlattenTempSources_more:
  "FlattenTempSources n sp ref rel tr = Some srcs \<Longrightarrow> n \<le> m \<Longrightarrow> FlattenTempSources m sp ref rel tr = Some srcs"
proof (induction n arbitrary: m ref rel tr srcs)
  case (Suc n)
  then obtain m' where m: "m = Suc m'" "n \<le> m'" by (cases m) auto
  show ?case
  proof (cases "\<exists>r. rel = Some r \<and> is_temp r")
    case False
    then show ?thesis using Suc.prems(1) unfolding m FlattenTempSources_stored [OF False] by simp
  next
    case True
    then obtain r where r: "rel = Some r" "is_temp r" by blast
    have "flatten_entry sp tr n e = Some ys \<Longrightarrow> flatten_entry sp tr m' e = Some ys" for e ys
      using Suc.IH [OF _ m(2)] by (auto simp: flatten_entry_def split: option.splits)
    then show ?thesis
      using Suc.prems(1) collect_more [of "flatten_entry sp tr" n m'] r by (simp add: m FlattenTempSources_Suc del: FlattenTempSources.simps)
  qed
qed simp

lemma flatten_entry_more:
  "flatten_entry sp tr n e = Some ys \<Longrightarrow> n \<le> m \<Longrightarrow> flatten_entry sp tr m e = Some ys"
  by (auto simp: flatten_entry_def split: option.splits intro: FlattenTempSources_more)

text \<open>A source the flattening ends at: an entry whose own source is not temporary.\<close>

definition stored_source :: "Scope \<Rightarrow> ColumnSource \<Rightarrow> bool" where
  "stored_source sp s \<longleftrightarrow> (\<exists>edge. nestedTemp sp edge = None \<and> src_Ref s = source_ref True edge)"

lemma flatten_step:
  assumes "is_temp r"
    and "\<And>edge nested ref tr. edge \<in> set (tr_Lineage r) \<Longrightarrow> nestedTemp sp edge = Some nested \<Longrightarrow>
      \<exists>n srcs. FlattenTempSources n sp ref (Some nested) tr = Some srcs \<and> list_all (stored_source sp) srcs"
  shows "\<exists>n srcs. FlattenTempSources n sp ref (Some r) tr = Some srcs \<and> list_all (stored_source sp) srcs"
proof -
  have one: "\<exists>n srcs. flatten_entry sp tr n edge = Some srcs \<and> list_all (stored_source sp) srcs"
    if "edge \<in> set (AnsweringLineage (tr_Lineage r) (cr_Column ref))" for edge
  proof (cases "nestedTemp sp edge")
    case None
    then show ?thesis by (auto simp: flatten_entry_def stored_source_def)
  next
    case (Some nested)
    then show ?thesis using assms(2) [of edge nested] that AnsweringLineage_subset by (fastforce simp: flatten_entry_def)
  qed
  have "\<exists>n srcs. collect (flatten_entry sp tr n) (AnsweringLineage (tr_Lineage r) (cr_Column ref)) = Some srcs
      \<and> list_all (stored_source sp) srcs"
    by (rule collect_eventually [where f = "flatten_entry sp tr"]) (erule (1) flatten_entry_more, erule one)
  then obtain n srcs where "collect (flatten_entry sp tr n) (AnsweringLineage (tr_Lineage r) (cr_Column ref)) = Some srcs"
    "list_all (stored_source sp) srcs" by blast
  then show ?thesis using FlattenTempSources_Suc [OF assms(1)] by metis
qed

lemma flatten_returns:
  assumes "acyclic (reads sp)" "is_temp r"
  shows "\<exists>n srcs. FlattenTempSources n sp ref (Some r) tr = Some srcs \<and> list_all (stored_source sp) srcs"
proof -
  have inside: "r \<in> temps sp \<Longrightarrow> \<exists>n srcs. FlattenTempSources n sp ref (Some r) tr = Some srcs \<and> list_all (stored_source sp) srcs" for r ref tr
  proof (induction r arbitrary: ref tr rule: wf_induct_rule [OF wf_reads [OF assms(1)]])
    case (1 r)
    show ?case
    proof (rule flatten_step)
      show "is_temp r" using 1(2) by (simp add: temps_def)
      fix edge nested ref tr assume e: "edge \<in> set (tr_Lineage r)" "nestedTemp sp edge = Some nested"
      then have "(nested, r) \<in> reads sp" using 1(2) by (auto simp: reads_def)
      from 1(1) [OF this nestedTemp_temps [OF e(2)]]
      show "\<exists>n srcs. FlattenTempSources n sp ref (Some nested) tr = Some srcs \<and> list_all (stored_source sp) srcs" .
    qed
  qed
  show ?thesis by (rule flatten_step [OF assms(2)]) (blast intro: inside nestedTemp_temps)
qed

end
