(* ===== verification/Lineage_Flatten.thy ===== *)
theory Lineage_Flatten
  imports Lineage_Algorithm_Laws
begin

text \<open>
  Replacing temporary relations by the stored ones behind them: when it ends, what it ends in, that
  the two functions that do it agree, and the statements for which it never ends.
\<close>

subsection \<open>It ends when no relation reads itself\<close>

lemma resolveSource_more: "resolveSource n sp s = Some ys \<Longrightarrow> n \<le> m \<Longrightarrow> resolveSource m sp s = Some ys"
  unfolding resolveSource_def
  by (cases "ResolveColumnRefs sp (src_Ref s)")
    (auto elim!: collect_more [rotated] intro: FlattenTempSources_more split: option.splits if_splits)

lemma resolveOutput_more: "resolveOutput n sp c = Some ys \<Longrightarrow> n \<le> m \<Longrightarrow> resolveOutput m sp c = Some ys"
  using collect_more [of "\<lambda>n. resolveSource n sp" n m] resolveSource_more [of n sp _ _ m]
  by (auto simp: resolveOutput_def split: if_splits)

text \<open>A source is settled when it is resolved for good, or resolves to nothing.\<close>

definition settled :: "Scope \<Rightarrow> ColumnSource \<Rightarrow> bool" where
  "settled sp s \<longleftrightarrow> Resolved (src_Ref s) \<or> (\<exists>err. ResolveColumnRefs sp (src_Ref s) = Inl err)"

lemma stored_settled: "stored_source sp s \<Longrightarrow> settled sp s"
  by (auto simp: stored_source_def settled_def source_ref_def)

lemma resolveSource_returns:
  assumes "acyclic (reads sp)"
  shows "\<exists>n ys. resolveSource n sp s = Some ys \<and> list_all (settled sp) ys"
proof (cases "ResolveColumnRefs sp (src_Ref s)")
  case (Inl err)
  then show ?thesis by (simp add: resolveSource_def settled_def)
next
  case (Inr resolutions)
  let ?f = "\<lambda>n res. case Relation res of
      Some r \<Rightarrow>
        if is_temp r then FlattenTempSources n sp (Ref res) (Some r) (Transform s)
        else Some [\<lparr>src_Ref = (Ref res)\<lparr>Resolved := True\<rparr>, Transform = Transform s\<rparr>]
    | None \<Rightarrow> Some [\<lparr>src_Ref = (Ref res)\<lparr>Resolved := True\<rparr>, Transform = Transform s\<rparr>]"
  have "\<exists>n ys. ?f n res = Some ys \<and> list_all (settled sp) ys" for res
  proof (cases "\<exists>r. Relation res = Some r \<and> is_temp r")
    case True
    then obtain r where r: "Relation res = Some r" "is_temp r" by blast
    then show ?thesis using flatten_returns [OF assms r(2)] stored_settled by (fastforce simp: list_all_iff)
  next
    case False
    then show ?thesis by (auto simp: settled_def split: option.splits)
  qed
  moreover have "?f n res = Some ys \<Longrightarrow> n \<le> m \<Longrightarrow> ?f m res = Some ys" for n m res ys
    by (auto split: option.splits if_splits intro: FlattenTempSources_more)
  ultimately have "\<exists>n ys. collect (?f n) resolutions = Some ys \<and> list_all (settled sp) ys"
    by (intro collect_eventually) blast+
  then show ?thesis by (simp add: resolveSource_def Inr)
qed

text \<open>
  C22. Resolving the outputs of a query returns. When no temporary relation in scope reads itself,
  directly or through others, enough fuel exists, and then there are as many outputs as before, with
  their names, and every source of them is settled: it names a stored relation for good or it is a
  reference that resolves to nothing.
\<close>

theorem output_columns_settle:
  assumes "acyclic (reads sp)"
  shows "\<exists>fuel cols'. (\<forall>n\<ge>fuel. ResolveOutputColumns n sp cols = Some cols') \<and>
    map oc_Alias cols' = map oc_Alias cols \<and> list_all (\<lambda>c. list_all (settled sp) (Sources c)) cols'"
proof -
  have one: "\<exists>n ys. resolveOutput n sp c = Some ys \<and> list_all (\<lambda>c. list_all (settled sp) (Sources c)) ys" for c
  proof (cases "Sources c = []")
    case False
    have "\<exists>n ys. collect (resolveSource n sp) (Sources c) = Some ys \<and> list_all (settled sp) ys"
      by (rule collect_eventually) (erule (1) resolveSource_more, rule resolveSource_returns [OF assms])
    then obtain n ys where "collect (resolveSource n sp) (Sources c) = Some ys" "list_all (settled sp) ys" by blast
    then have "resolveOutput n sp c = Some [c\<lparr>Sources := ys\<rparr>]" "list_all (settled sp) ys"
      using False by (simp_all add: resolveOutput_def)
    then show ?thesis by fastforce
  qed (simp add: resolveOutput_def)
  have "\<exists>n ys. collect (resolveOutput n sp) cols = Some ys \<and> list_all (\<lambda>c. list_all (settled sp) (Sources c)) ys"
    by (rule collect_eventually) (erule (1) resolveOutput_more, rule one)
  then obtain fuel cols' where c: "collect (resolveOutput fuel sp) cols = Some cols'"
    "list_all (\<lambda>c. list_all (settled sp) (Sources c)) cols'" by blast
  have named: "resolveOutput n sp c = Some ys \<Longrightarrow> map oc_Alias ys = [oc_Alias c]" for n c ys
    by (auto simp: resolveOutput_def split: if_splits)
  have "list_all2 (\<lambda>c ys. resolveOutput n sp c = Some ys) cols yss \<Longrightarrow> map oc_Alias (concat yss) = map oc_Alias cols" for n yss
    by (induction rule: list_all2_induct) (auto dest: named)
  then have "map oc_Alias cols' = map oc_Alias cols" using c(1) unfolding collect_Some by blast
  moreover have "ResolveOutputColumns n sp cols = Some cols'" if "fuel \<le> n" for n
    unfolding ResolveOutputColumns_def using c(1) by (rule collect_more [rotated]) (erule resolveOutput_more [OF _ that])
  ultimately show ?thesis using c(2) by blast
qed

subsection \<open>It never ends when one does\<close>

lemma flattenedLineage_Suc:
  "flattenedLineage (Suc n) newEdge sp r column targetTable targetColumn tr =
     collect (\<lambda>edge. case nestedTemp sp edge of
            Some nested \<Rightarrow> flattenedLineage n newEdge sp nested (col_Name (Source edge)) targetTable
              (actualTarget column targetColumn edge) (rel_Transformation edge @ tr)
          | None \<Rightarrow> Some [newEdge (Qualifier (RelationKeyOf (col_Table (Source edge)))) (Name (col_Table (Source edge)))
              (col_Name (Source edge)) [] targetTable (actualTarget column targetColumn edge)
              (rel_Transformation edge @ tr) True])
       (AnsweringLineage (tr_Lineage r) column)"
  by (simp add: Let_def cong: option.case_cong)

text \<open>
  C23. A temporary relation that answers a column with an entry whose source is again that column of
  the relation of that name never flattens: neither function returns, whatever the fuel. This is what
  a derived table or a definition named after the table it reads becomes inside another one.
\<close>

theorem self_named_relation_diverges:
  assumes "is_temp r" and "edge \<in> set (AnsweringLineage (tr_Lineage r) (col_Name (Source edge)))"
    and "nestedTemp sp edge = Some r" and "cr_Column ref = col_Name (Source edge)"
  shows "FlattenTempSources fuel sp ref (Some r) tr = None \<and>
    FlattenTempSourceLineage fuel newEdge sp (Some r) (col_Name (Source edge)) targetTable targetColumn tr lineage = None"
proof -
  have "FlattenTempSources fuel sp ref (Some r) tr = None" if "cr_Column ref = col_Name (Source edge)" for ref tr
    using that
  proof (induction fuel arbitrary: ref tr)
    case (Suc n)
    have "flatten_entry sp tr n edge = None"
      using Suc.IH [of "source_ref False edge"] assms(3) by (simp add: flatten_entry_def source_ref_def)
    then show ?case using assms(2) Suc.prems unfolding FlattenTempSources_Suc [OF assms(1)] collect_None by auto
  qed simp
  moreover have "flattenedLineage fuel newEdge sp r (col_Name (Source edge)) targetTable targetColumn tr = None" for targetColumn tr
  proof (induction fuel arbitrary: targetColumn tr)
    case (Suc n)
    show ?case using assms(2,3) Suc.IH unfolding flattenedLineage_Suc collect_None by force
  qed simp
  ultimately show ?thesis using assms(1,4) by (simp add: FlattenTempSourceLineage_def)
qed

subsection \<open>The two functions agree\<close>

text \<open>
  C24. Both functions find the same stored columns with the same transformations: with any fuel both
  return or neither does, and entry by entry the edge of the one is built from the source of the
  other. They differ in the qualifier: the edge keeps the database an entry names, or else its
  schema, while the source reference keeps the schema only.
\<close>

theorem flatteners_agree:
  "rel_option (list_all2 (\<lambda>(s :: ColumnSource) (e :: ColumnRelation). \<exists>(table :: ObjectIdentifier) target. src_Ref s =
        \<lparr>cr_Schema = Schema table, cr_Table = Name table, cr_Column = cr_Column (src_Ref s), Resolved = True\<rparr> \<and>
        e = newEdge (if Database table \<noteq> [] then Database table else Schema table) (Name table)
          (cr_Column (src_Ref s)) [] targetTable target (Transform s) True))
     (if is_temp r then FlattenTempSources fuel sp ref (Some r) tr else Some [])
     (map_option snd (FlattenTempSourceLineage fuel newEdge sp (Some r) (cr_Column ref) targetTable targetColumn tr []))"
proof -
  let ?R = "\<lambda>(s :: ColumnSource) (e :: ColumnRelation). \<exists>(table :: ObjectIdentifier) target. src_Ref s =
        \<lparr>cr_Schema = Schema table, cr_Table = Name table, cr_Column = cr_Column (src_Ref s), Resolved = True\<rparr> \<and>
        e = newEdge (if Database table \<noteq> [] then Database table else Schema table) (Name table)
          (cr_Column (src_Ref s)) [] targetTable target (Transform s) True"
  have "rel_option (list_all2 ?R) (FlattenTempSources fuel sp ref (Some r) tr)
      (flattenedLineage fuel newEdge sp r (cr_Column ref) targetTable targetColumn tr)"
    if "is_temp r" for r ref targetColumn tr
    using that
  proof (induction fuel arbitrary: r ref targetColumn tr)
    case (Suc n)
    show ?case
      unfolding FlattenTempSources_Suc [OF Suc.prems] flattenedLineage_Suc
    proof (rule collect_rel)
      fix edge
      show "rel_option (list_all2 ?R) (flatten_entry sp tr n edge)
          (case nestedTemp sp edge of
            Some nested \<Rightarrow> flattenedLineage n newEdge sp nested (col_Name (Source edge)) targetTable
              (actualTarget (cr_Column ref) targetColumn edge) (rel_Transformation edge @ tr)
          | None \<Rightarrow> Some [newEdge (Qualifier (RelationKeyOf (col_Table (Source edge)))) (Name (col_Table (Source edge)))
              (col_Name (Source edge)) [] targetTable (actualTarget (cr_Column ref) targetColumn edge)
              (rel_Transformation edge @ tr) True])"
      proof (cases "nestedTemp sp edge")
        case None
        then show ?thesis by (auto simp: flatten_entry_def source_ref_def RelationKeyOf_def)
      next
        case (Some nested)
        then have "is_temp nested" by (auto simp: nestedTemp_def split: option.splits if_splits)
        from Suc.IH [OF this, of "source_ref False edge"] show ?thesis
          using Some by (simp add: flatten_entry_def source_ref_def)
      qed
    qed
  qed simp
  then show ?thesis by (auto simp: FlattenTempSourceLineage_def option.map_comp o_def option.map_ident)
qed

subsection \<open>Statements\<close>

definition derived :: "string \<Rightarrow> ColumnRelation list \<Rightarrow> TableRef" where
  "derived alias lineage =
     \<lparr>tr_Schema = [], tr_Table = alias, Alias = alias, IsSubquery = True, IsCTE = False, tr_Lineage = lineage,
      columnLookup = None\<rparr>"

definition base_table :: "string \<Rightarrow> string list option \<Rightarrow> TableRef" where
  "base_table name columns =
     \<lparr>tr_Schema = [], tr_Table = name, Alias = name, IsSubquery = False, IsCTE = False, tr_Lineage = [],
      columnLookup = Some columns\<rparr>"

definition col_ref :: "string \<Rightarrow> string \<Rightarrow> ColumnRef" where
  "col_ref table name = \<lparr>cr_Schema = [], cr_Table = table, cr_Column = name, Resolved = False\<rparr>"

text \<open>\<open>SELECT id FROM (SELECT id FROM db2.t) d\<close>, the scope of the outer query.\<close>

definition scope_d :: Scope where
  "scope_d = AddTable (derived ''d'' [NewLineageEdge ''db2'' ''t'' ''id'' [] ''d'' ''id'' [] True]) (NewScope None)"

text \<open>\<open>SELECT id FROM (SELECT id FROM (SELECT id FROM t) t) d\<close>, the scope of the middle query.\<close>

definition self_t :: TableRef where
  "self_t = derived ''t'' [NewLineageEdge [] ''t'' ''id'' [] ''t'' ''id'' [] True]"

definition scope_t :: Scope where
  "scope_t = AddTable self_t (NewScope None)"

lemma output_columns_settle_witness:
  "\<exists>fuel. ResolveOutputColumns fuel scope_d
     [\<lparr>oc_Alias = ''id'', Sources = [\<lparr>src_Ref = col_ref [] ''id'', Transform = []\<rparr>], IsDerived = False\<rparr>]
   = Some [\<lparr>oc_Alias = ''id'', Sources = [\<lparr>src_Ref = (col_ref ''t'' ''id'')\<lparr>Resolved := True\<rparr>, Transform = []\<rparr>],
       IsDerived = False\<rparr>]"
proof -
  let ?cols = "[\<lparr>oc_Alias = ''id'', Sources = [\<lparr>src_Ref = col_ref [] ''id'', Transform = []\<rparr>], IsDerived = False\<rparr>]"
  let ?d = "derived ''d'' [NewLineageEdge ''db2'' ''t'' ''id'' [] ''d'' ''id'' [] True]"
  have "nestedTemp scope_d (NewLineageEdge ''db2'' ''t'' ''id'' [] ''d'' ''id'' [] True) = None" by code_simp
  moreover have "temps scope_d \<subseteq> {?d}" by (auto simp: temps_def scope_d_def NewScope_def AddTable_def)
  ultimately have "reads scope_d = {}" by (auto simp: reads_def derived_def)
  then have "acyclic (reads scope_d)" by (simp add: acyclic_def)
  from output_columns_settle [OF this] obtain fuel cols' where
    f: "\<forall>n\<ge>fuel. ResolveOutputColumns n scope_d ?cols = Some cols'" by blast
  then have "ResolveOutputColumns (max fuel 2) scope_d ?cols = Some cols'" by simp
  moreover have "ResolveOutputColumns 2 scope_d ?cols
     = Some [\<lparr>oc_Alias = ''id'', Sources = [\<lparr>src_Ref = (col_ref ''t'' ''id'')\<lparr>Resolved := True\<rparr>, Transform = []\<rparr>],
       IsDerived = False\<rparr>]" by code_simp
  ultimately show ?thesis by blast
qed

lemma self_named_relation_diverges_witness:
  "FlattenTempSources 1000 scope_t (col_ref ''t'' ''id'') (Some self_t) [] = None \<and>
   ResolveColumnRefs scope_t (col_ref [] ''id'')
     = Inr [\<lparr>Ref = col_ref ''t'' ''id'', Relation = Some self_t\<rparr>]"
proof (intro conjI)
  have "is_temp self_t" "NewLineageEdge [] ''t'' ''id'' [] ''t'' ''id'' [] True \<in> set (AnsweringLineage (tr_Lineage self_t)
      (col_Name (Source (NewLineageEdge [] ''t'' ''id'' [] ''t'' ''id'' [] True))))"
    "nestedTemp scope_t (NewLineageEdge [] ''t'' ''id'' [] ''t'' ''id'' [] True) = Some self_t"
    "cr_Column (col_ref ''t'' ''id'') = col_Name (Source (NewLineageEdge [] ''t'' ''id'' [] ''t'' ''id'' [] True))"
    by code_simp+
  from self_named_relation_diverges [OF this] show "FlattenTempSources 1000 scope_t (col_ref ''t'' ''id'') (Some self_t) [] = None"
    by blast
qed code_simp

text \<open>
  The database of the qualifier is lost: \<open>SELECT id FROM (SELECT id FROM db2.t) d UNION ...\<close> resolves
  its first arm to the table \<open>t\<close> without a database, while the edge of a derived table keeps it.
\<close>

lemma database_lost:
  "FlattenTempSources 1 scope_d (col_ref ''d'' ''id'') (Some (hd (relations scope_d))) []
     = Some [\<lparr>src_Ref = (col_ref ''t'' ''id'')\<lparr>Resolved := True\<rparr>, Transform = []\<rparr>]"
  "FlattenTempSourceLineage 1 NewLineageEdge scope_d (Some (hd (relations scope_d))) ''id'' ''e'' ''id'' [] []
     = Some (True, [NewLineageEdge ''db2'' ''t'' ''id'' [] ''e'' ''id'' [] True])"
  by code_simp+

text \<open>
  A resolved reference is bound again: a later arm's table \<open>t\<close>, looked up in the scope of a first arm
  \<open>SELECT id FROM (SELECT id FROM x) t\<close>, is taken for the derived table of that name.
\<close>

lemma resolved_reference_rebinds:
  "ResolveColumnRefs (AddTable (derived ''t'' [NewLineageEdge [] ''x'' ''id'' [] ''t'' ''id'' [] True]) (NewScope None))
     ((col_ref ''t'' ''id'')\<lparr>Resolved := True\<rparr>)
   = Inr [\<lparr>Ref = (col_ref ''t'' ''id'')\<lparr>Resolved := True\<rparr>,
       Relation = Some (derived ''t'' [NewLineageEdge [] ''x'' ''id'' [] ''t'' ''id'' [] True])\<rparr>]"
  by code_simp

text \<open>
  The only relation of the innermost scope answers for a name no scope provides although an outer scope
  offers several.
\<close>

lemma fallback_kept:
  "resolveUnqualified
     (AddTable (base_table ''a'' (Some [''x''])) (NewScope (Some
       (AddTable (base_table ''b'' (Some [''x''])) (AddTable (base_table ''c'' (Some [''x''])) (NewScope None))))))
     (col_ref [] ''y'')
   = Inr (columnsOf [base_table ''a'' (Some [''x''])] ''y'')"
  by code_simp

lemma resolution_names_relations_in_scope_witness:
  "\<exists>rc. ResolveColumnRefs scope_t (col_ref [] ''id'') = Inr [rc] \<and> in_scope scope_t self_t \<and> Relation rc = Some self_t"
proof -
  have r: "ResolveColumnRefs scope_t (col_ref [] ''id'') = Inr [\<lparr>Ref = col_ref ''t'' ''id'', Relation = Some self_t\<rparr>]"
    by code_simp
  moreover have "\<not> Resolved (col_ref [] ''id'')" by (simp add: col_ref_def)
  ultimately show ?thesis using resolution_names_relations_in_scope [of scope_t "col_ref [] ''id''"] by auto
qed

end
