(* ===== verification/Lineage_Influence.thy ===== *)
theory Lineage_Influence
  imports Lineage_Algorithm
begin

text \<open>
  The predicates that decide which rows a statement produces,
  \<open>backend/plugin/lineage/algorithm/influence.go\<close>.

  The store is keyed by the addresses of scopes and of definitions, here any two types of keys; a nil
  pointer is \<open>None\<close>. An influence without a stored relation keeps the query-local one it resolved to.
\<close>

subsection \<open>The store\<close>

record PredicateKey =
  pk_Qualifier :: string
  pk_Table :: string
  pk_Column :: string

record Influence =
  inf_Relation :: "TableRef option"
  inf_Column :: string
  inf_Key :: PredicateKey
  inf_Transform :: Transformation

record ('s, 'c, 'i) Influences =
  byScope :: "('s, 'i list) gomap"
  byCTE :: "('c, 'i list) gomap"

definition NewInfluences :: "('s, 'c, 'i) Influences" where
  "NewInfluences = \<lparr>byScope = [], byCTE = []\<rparr>"

text \<open>A missing key reads as the empty slice.\<close>

definition slice_at :: "('k, 'i list) gomap \<Rightarrow> 'k \<Rightarrow> 'i list" where
  "slice_at m k = (case gm_get m k of None \<Rightarrow> [] | Some is \<Rightarrow> is)"

definition append_at :: "'k \<Rightarrow> 'i list \<Rightarrow> ('k, 'i list) gomap \<Rightarrow> ('k, 'i list) gomap" where
  "append_at k is m = gm_put k (slice_at m k @ is) m"

definition inf_Add :: "'s option \<Rightarrow> 'i \<Rightarrow> ('s, 'c, 'i) Influences \<Rightarrow> ('s, 'c, 'i) Influences" where
  "inf_Add sp influence s =
     (case sp of None \<Rightarrow> s | Some sp \<Rightarrow> s\<lparr>byScope := append_at sp [influence] (byScope s)\<rparr>)"

definition Inherit :: "'s option \<Rightarrow> 's option \<Rightarrow> ('s, 'c, 'i) Influences \<Rightarrow> ('s, 'c, 'i) Influences" where
  "Inherit from to s =
     (case (from, to) of
        (Some f, Some t) \<Rightarrow>
          if f = t then s
          else let influences = slice_at (byScope s) f;
                   m = (if influences \<noteq> [] then append_at t influences (byScope s) else byScope s)
               in s\<lparr>byScope := gm_del f m\<rparr>
      | _ \<Rightarrow> s)"

definition BindCTE :: "'c option \<Rightarrow> 's option \<Rightarrow> ('s, 'c, 'i) Influences \<Rightarrow> ('s, 'c, 'i) Influences" where
  "BindCTE cte from s =
     (case (cte, from) of
        (Some c, Some f) \<Rightarrow>
          let influences = slice_at (byScope s) f;
              m = (if influences \<noteq> [] then append_at c influences (byCTE s) else byCTE s)
          in s\<lparr>byCTE := m, byScope := gm_del f (byScope s)\<rparr>
      | _ \<Rightarrow> s)"

definition InheritCTE :: "'s option \<Rightarrow> 'c option \<Rightarrow> ('s, 'c, 'i) Influences \<Rightarrow> ('s, 'c, 'i) Influences" where
  "InheritCTE sp cte s =
     (case (sp, cte) of
        (Some sp, Some c) \<Rightarrow>
          let influences = slice_at (byCTE s) c in
          if influences \<noteq> [] then s\<lparr>byScope := append_at sp influences (byScope s)\<rparr> else s
      | _ \<Rightarrow> s)"

text \<open>What \<open>Emit\<close> hands to its emitter: a reference to trace, or an edge.\<close>

datatype emission =
    Trace TableRef string string string string "Transformation list"
  | AddEdge ColumnRelation

definition emission_of :: "new_edge \<Rightarrow> string \<Rightarrow> string \<Rightarrow> bool \<Rightarrow> Influence \<Rightarrow> emission" where
  "emission_of newEdge targetQualifier targetTable isTemp influence =
     (case inf_Relation influence of
        Some r \<Rightarrow> Trace r (inf_Column influence) targetQualifier targetTable [] [inf_Transform influence]
      | None \<Rightarrow> AddEdge (newEdge (pk_Qualifier (inf_Key influence)) (pk_Table (inf_Key influence))
          (pk_Column (inf_Key influence)) targetQualifier targetTable [] [inf_Transform influence] isTemp))"

definition drain :: "'s \<Rightarrow> ('s, 'c, 'i) Influences \<Rightarrow> ('s, 'c, 'i) Influences \<times> 'i list" where
  "drain sp s =
     (let influences = slice_at (byScope s) sp in
      if influences = [] then (s, []) else (s\<lparr>byScope := gm_del sp (byScope s)\<rparr>, influences))"

definition Emit ::
    "'s \<Rightarrow> string \<Rightarrow> string \<Rightarrow> bool \<Rightarrow> new_edge \<Rightarrow> ('s, 'c, Influence) Influences
      \<Rightarrow> ('s, 'c, Influence) Influences \<times> emission list" where
  "Emit sp targetQualifier targetTable isTemp newEdge s =
     (let (s', influences) = drain sp s in
      (s', map (emission_of newEdge targetQualifier targetTable isTemp) influences))"

subsection \<open>Resolving a predicate's columns\<close>

definition influence_of :: "Transformation \<Rightarrow> ResolvedColumn \<Rightarrow> Influence" where
  "influence_of transform res =
     (case Relation res of
        Some r \<Rightarrow>
          if is_temp r
          then \<lparr>inf_Relation = Some r, inf_Column = cr_Column (Ref res),
                inf_Key = \<lparr>pk_Qualifier = [], pk_Table = [], pk_Column = []\<rparr>, inf_Transform = transform\<rparr>
          else \<lparr>inf_Relation = None, inf_Column = [], inf_Key = \<lparr>pk_Qualifier = cr_Schema (Ref res),
                pk_Table = cr_Table (Ref res), pk_Column = cr_Column (Ref res)\<rparr>, inf_Transform = transform\<rparr>
      | None \<Rightarrow> \<lparr>inf_Relation = None, inf_Column = [], inf_Key = \<lparr>pk_Qualifier = cr_Schema (Ref res),
                pk_Table = cr_Table (Ref res), pk_Column = cr_Column (Ref res)\<rparr>, inf_Transform = transform\<rparr>)"

type_synonym ('s, 'c) influence_state = "('s, 'c, Influence) Influences \<times> Diagnostics option"

definition resolveOwn ::
    "'s \<Rightarrow> Scope \<Rightarrow> Transformation \<Rightarrow> ColumnRef \<Rightarrow> ('s, 'c) influence_state \<Rightarrow> ('s, 'c) influence_state" where
  "resolveOwn sp scope transform ref st =
     (case ResolveColumnRefs scope ref of
        Inl _ \<Rightarrow> (fst st, Unresolved ''a predicate'' ref (snd st))
      | Inr resolutions \<Rightarrow>
          (fold (\<lambda>res. inf_Add (Some sp) (influence_of transform res)) resolutions (fst st), snd st))"

definition Resolve ::
    "('s \<times> Scope) option \<Rightarrow> ColumnRef \<Rightarrow> Transformation \<Rightarrow> bool \<Rightarrow> ('s, 'c) influence_state
      \<Rightarrow> ('s, 'c) influence_state" where
  "Resolve sp ref transform resolveAliases st =
     (case sp of
        None \<Rightarrow> st
      | Some (sp, scope) \<Rightarrow>
          (case (if resolveAliases \<and> cr_Table ref = [] \<and> cr_Column ref \<noteq> []
                 then find (\<lambda>output. oc_Alias output = cr_Column ref) (outputColumns scope) else None) of
             Some output \<Rightarrow> fold (\<lambda>source. resolveOwn sp scope transform (src_Ref source)) (Sources output) st
           | None \<Rightarrow> resolveOwn sp scope transform ref st))"

subsection \<open>Where influences go\<close>

datatype ('s, 'c, 'i) inf_op =
    OpAdd 's 'i
  | OpInherit 's 's
  | OpBindCTE 'c 's
  | OpInheritCTE 's 'c
  | OpEmit 's

text \<open>A step and what it emits.\<close>

fun inf_step :: "('s, 'c, 'i) Influences \<Rightarrow> ('s, 'c, 'i) inf_op \<Rightarrow> ('s, 'c, 'i) Influences \<times> 'i list" where
  "inf_step s (OpAdd sp i) = (inf_Add (Some sp) i s, [])"
| "inf_step s (OpInherit f t) = (Inherit (Some f) (Some t) s, [])"
| "inf_step s (OpBindCTE c f) = (BindCTE (Some c) (Some f) s, [])"
| "inf_step s (OpInheritCTE sp c) = (InheritCTE (Some sp) (Some c) s, [])"
| "inf_step s (OpEmit sp) = drain sp s"

fun inf_run :: "('s, 'c, 'i) Influences \<Rightarrow> ('s, 'c, 'i) inf_op list \<Rightarrow> ('s, 'c, 'i) Influences \<times> 'i list" where
  "inf_run s [] = (s, [])"
| "inf_run s (op # ops) =
     (let (s', out) = inf_step s op; (s'', out') = inf_run s' ops in (s'', out @ out'))"

lemma slice_at_simps [simp]:
  "slice_at (append_at k is m) k' = slice_at m k' @ (if k' = k then is else [])"
  "slice_at (gm_del k m) k' = (if k' = k then [] else slice_at m k')"
  "slice_at [] k' = []"
  by (auto simp: slice_at_def append_at_def gm_get_put gm_get_del)

lemma slice_inherit [simp]:
  "slice_at (if is \<noteq> [] then append_at k is m else m) k' = slice_at m k' @ (if k' = k then is else [])"
  by simp

lemma Inherit_slices:
  "f \<noteq> t \<Longrightarrow> slice_at (byScope (Inherit (Some f) (Some t) s)) k =
     (if k = f then [] else slice_at (byScope s) k @ (if k = t then slice_at (byScope s) f else []))"
  "byCTE (Inherit (Some f) (Some t) s) = byCTE s" "Inherit (Some f) (Some f) s = s"
  by (simp_all add: Inherit_def Let_def)

lemma BindCTE_slices:
  "slice_at (byScope (BindCTE (Some c) (Some f) s)) k = (if k = f then [] else slice_at (byScope s) k)"
  "slice_at (byCTE (BindCTE (Some c) (Some f) s)) c' =
     slice_at (byCTE s) c' @ (if c' = c then slice_at (byScope s) f else [])"
  by (simp_all add: BindCTE_def Let_def)

lemma InheritCTE_slices:
  "slice_at (byScope (InheritCTE (Some sp) (Some c) s)) k =
     slice_at (byScope s) k @ (if k = sp then slice_at (byCTE s) c else [])"
  "byCTE (InheritCTE (Some sp) (Some c) s) = byCTE s"
  by (simp_all add: InheritCTE_def Let_def)

lemma drain_slices:
  "slice_at (byScope (fst (drain sp s))) k = (if k = sp then [] else slice_at (byScope s) k)"
  "byCTE (fst (drain sp s)) = byCTE s" "snd (drain sp s) = slice_at (byScope s) sp"
  by (auto simp: drain_def Let_def)

lemma inf_Add_slices:
  "slice_at (byScope (inf_Add (Some sp) i s)) k = slice_at (byScope s) k @ (if k = sp then [i] else [])"
  "byCTE (inf_Add (Some sp) i s) = byCTE s"
  by (simp_all add: inf_Add_def)

text \<open>
  A set of scopes and a set of definitions are sealed in a run when no operation passes the rows of
  one of them to a scope or a definition outside.
\<close>

fun stays_inside :: "'s set \<Rightarrow> 'c set \<Rightarrow> ('s, 'c, 'i) inf_op \<Rightarrow> bool" where
  "stays_inside S C (OpAdd sp i) = True"
| "stays_inside S C (OpInherit f t) = (f \<in> S \<longrightarrow> t \<in> S)"
| "stays_inside S C (OpBindCTE c f) = (f \<in> S \<longrightarrow> c \<in> C)"
| "stays_inside S C (OpInheritCTE sp c) = (c \<in> C \<longrightarrow> sp \<in> S)"
| "stays_inside S C (OpEmit sp) = (sp \<notin> S)"

text \<open>An influence is confined when only scopes and definitions of the sets hold it.\<close>

definition confined :: "'s set \<Rightarrow> 'c set \<Rightarrow> 'i \<Rightarrow> ('s, 'c, 'i) Influences \<Rightarrow> bool" where
  "confined S C i s \<longleftrightarrow>
     (\<forall>k. i \<in> set (slice_at (byScope s) k) \<longrightarrow> k \<in> S) \<and> (\<forall>c. i \<in> set (slice_at (byCTE s) c) \<longrightarrow> c \<in> C)"

lemma confined_step:
  assumes "confined S C i s" "stays_inside S C op" "\<And>sp. op = OpAdd sp i \<Longrightarrow> sp \<in> S"
  shows "confined S C i (fst (inf_step s op)) \<and> i \<notin> set (snd (inf_step s op))"
proof (cases op)
  case (OpInherit f t)
  then show ?thesis using assms
    by (cases "f = t") (auto simp: confined_def Inherit_slices split: if_splits)
qed (use assms in \<open>auto simp: confined_def inf_Add_slices BindCTE_slices InheritCTE_slices drain_slices split: if_splits\<close>)

lemma confined_run:
  "confined S C i s \<Longrightarrow> list_all (stays_inside S C) ops \<Longrightarrow> (\<And>sp. OpAdd sp i \<in> set ops \<Longrightarrow> sp \<in> S)
    \<Longrightarrow> i \<notin> set (snd (inf_run s ops))"
proof (induction ops arbitrary: s)
  case (Cons op ops)
  have "confined S C i (fst (inf_step s op)) \<and> i \<notin> set (snd (inf_step s op))"
    by (rule confined_step) (use Cons.prems in auto)
  then show ?case using Cons.IH [of "fst (inf_step s op)"] Cons.prems by (auto simp: Let_def split: prod.splits)
qed simp

text \<open>
  C25. A predicate influences only rows that are read. When the rows of some scopes and definitions
  never reach anything outside, as those of a definition no statement refers to, an influence
  recorded in these scopes is never emitted, in whatever order scopes are entered, merged and
  emitted.
\<close>

theorem unread_rows_emit_nothing:
  assumes "list_all (stays_inside S C) ops" and "\<forall>sp. OpAdd sp i \<in> set ops \<longrightarrow> sp \<in> S"
  shows "i \<notin> set (snd (inf_run NewInfluences ops))"
  by (rule confined_run [of S C]) (use assms in \<open>auto simp: confined_def NewInfluences_def\<close>)

lemma unread_rows_emit_nothing_witness:
  "''x = 1'' \<notin> set (snd (inf_run NewInfluences
     [OpAdd (1::nat) ''x = 1'', OpBindCTE ''unused'' 1, OpAdd 0 ''y = 2'', OpEmit 0])) \<and>
   snd (inf_run NewInfluences
     [OpAdd (1::nat) ''x = 1'', OpBindCTE ''unused'' 1, OpAdd 0 ''y = 2'', OpEmit 0]) = [''y = 2'']"
proof (intro conjI)
  show "''x = 1'' \<notin> set (snd (inf_run NewInfluences
     [OpAdd (1::nat) ''x = 1'', OpBindCTE ''unused'' 1, OpAdd 0 ''y = 2'', OpEmit 0]))"
    by (rule unread_rows_emit_nothing [of "{1}" "{''unused''}"]) auto
qed code_simp

subsection \<open>Nothing is lost or doubled\<close>

fun no_definitions :: "('s, 'c, 'i) inf_op \<Rightarrow> bool" where
  "no_definitions (OpBindCTE c f) = False"
| "no_definitions (OpInheritCTE sp c) = False"
| "no_definitions op = True"

fun recorded :: "('s, 'c, 'i) inf_op list \<Rightarrow> 'i multiset" where
  "recorded [] = {#}"
| "recorded (OpAdd sp i # ops) = add_mset i (recorded ops)"
| "recorded (_ # ops) = recorded ops"

definition held :: "'s set \<Rightarrow> ('s, 'c, 'i) Influences \<Rightarrow> 'i multiset" where
  "held U s = (\<Sum>k\<in>U. mset (slice_at (byScope s) k))"

fun op_scopes :: "('s, 'c, 'i) inf_op \<Rightarrow> 's set" where
  "op_scopes (OpAdd sp i) = {sp}"
| "op_scopes (OpInherit f t) = {f, t}"
| "op_scopes (OpBindCTE c f) = {f}"
| "op_scopes (OpInheritCTE sp c) = {sp}"
| "op_scopes (OpEmit sp) = {sp}"

lemma sum_update:
  assumes "finite U" "a \<in> U"
  shows "(\<Sum>k\<in>U. (if k = a then x else g k)) = x + (\<Sum>k\<in>U - {a}. g k :: 'b::comm_monoid_add)"
proof -
  have "(\<Sum>k\<in>U. (if k = a then x else g k)) = x + (\<Sum>k\<in>U - {a}. (if k = a then x else g k))"
    using assms by (simp add: sum.remove)
  also have "(\<Sum>k\<in>U - {a}. (if k = a then x else g k)) = (\<Sum>k\<in>U - {a}. g k)"
    by (rule sum.cong) auto
  finally show ?thesis .
qed

lemma conserved_step:
  assumes "finite U" "op_scopes op \<subseteq> U" "no_definitions op"
  shows "held U (fst (inf_step s op)) + mset (snd (inf_step s op)) = held U s + recorded [op]"
proof (cases op)
  case (OpAdd sp i)
  have "held U (inf_Add (Some sp) i s) = held U s + (\<Sum>k\<in>U. if k = sp then {#i#} else {#})"
    unfolding held_def sum.distrib [symmetric] by (rule sum.cong) (auto simp: inf_Add_slices)
  then show ?thesis using assms OpAdd by (simp add: sum.delta')
next
  case (OpInherit f t)
  show ?thesis
  proof (cases "f = t")
    case True
    then show ?thesis using OpInherit by (simp add: Inherit_slices)
  next
    case False
    have "held U (Inherit (Some f) (Some t) s) =
        (\<Sum>k\<in>U. if k = f then {#} else mset (slice_at (byScope s) k) + (if k = t then mset (slice_at (byScope s) f) else {#}))"
      unfolding held_def by (rule sum.cong) (auto simp: Inherit_slices False)
    also have "\<dots> = (\<Sum>k\<in>U - {f}. mset (slice_at (byScope s) k) + (if k = t then mset (slice_at (byScope s) f) else {#}))"
      using assms OpInherit by (simp add: sum_update)
    also have "\<dots> = (\<Sum>k\<in>U - {f}. mset (slice_at (byScope s) k)) + mset (slice_at (byScope s) f)"
      using assms OpInherit False by (simp add: sum.distrib sum.delta')
    also have "\<dots> = held U s"
      using assms OpInherit by (simp add: held_def sum.remove [of U f])
    finally show ?thesis using OpInherit by simp
  qed
next
  case (OpEmit sp)
  have "held U (fst (drain sp s)) = (\<Sum>k\<in>U. if k = sp then {#} else mset (slice_at (byScope s) k))"
    unfolding held_def by (rule sum.cong) (auto simp: drain_slices)
  also have "\<dots> = (\<Sum>k\<in>U - {sp}. mset (slice_at (byScope s) k))"
    using assms OpEmit by (simp add: sum_update)
  finally show ?thesis
    using assms OpEmit by (simp add: held_def drain_slices sum.remove [of U sp])
qed (use assms in auto)

lemma conserved_run:
  assumes "finite U"
  shows "\<forall>op\<in>set ops. op_scopes op \<subseteq> U \<and> no_definitions op \<Longrightarrow>
    held U (fst (inf_run s ops)) + mset (snd (inf_run s ops)) = held U s + recorded ops"
proof (induction ops arbitrary: s)
  case (Cons op ops)
  let ?s = "fst (inf_step s op)"
  have "held U (fst (inf_run ?s ops)) + mset (snd (inf_run ?s ops)) = held U ?s + recorded ops"
    by (rule Cons.IH) (use Cons.prems in auto)
  moreover have "held U ?s + mset (snd (inf_step s op)) = held U s + recorded [op]"
    by (rule conserved_step [OF assms]) (use Cons.prems in auto)
  moreover have "recorded (op # ops) = recorded [op] + recorded ops" by (cases op) auto
  ultimately show ?case by (auto simp: Let_def ac_simps split: prod.splits)
qed simp

text \<open>
  Influences are neither lost nor duplicated when rows are passed on. Along a run without
  definitions, what was emitted together with what the scopes still hold is, with multiplicities,
  what was recorded.
\<close>

theorem influences_conserved:
  assumes "finite U" and "\<forall>op\<in>set ops. op_scopes op \<subseteq> U \<and> no_definitions op"
  shows "held U (fst (inf_run NewInfluences ops)) + mset (snd (inf_run NewInfluences ops)) = recorded ops"
  using conserved_run [OF assms] by (simp add: held_def NewInfluences_def)

lemma influences_conserved_witness:
  "mset (snd (inf_run NewInfluences
     [OpAdd (1::nat) ''x'', OpInherit 1 0, OpAdd 0 ''y'', OpAdd 2 ''z'', OpEmit 0 :: (nat, nat, string) inf_op]))
   + held {0, 1, 2} (fst (inf_run NewInfluences
     [OpAdd (1::nat) ''x'', OpInherit 1 0, OpAdd 0 ''y'', OpAdd 2 ''z'', OpEmit 0 :: (nat, nat, string) inf_op]))
   = {#''x'', ''y'', ''z''#}"
proof -
  let ?ops = "[OpAdd (1::nat) ''x'', OpInherit 1 0, OpAdd 0 ''y'', OpAdd 2 ''z'', OpEmit 0 :: (nat, nat, string) inf_op]"
  have "\<forall>op\<in>set ?ops. op_scopes op \<subseteq> {0, 1, 2} \<and> no_definitions op" by auto
  from influences_conserved [OF _ this] have "held {0, 1, 2} (fst (inf_run NewInfluences ?ops))
      + mset (snd (inf_run NewInfluences ?ops)) = recorded ?ops" by simp
  also have "recorded ?ops = {#''x'', ''y'', ''z''#}" by simp
  finally show ?thesis by (simp only: add.commute)
qed

end
