(* ===== verification/Lineage_Analyzer.thy ===== *)
theory Lineage_Analyzer
  imports Lineage_Algorithm_Laws
begin

text \<open>
  The analyzer above the dialects, \<open>backend/plugin/lineage/lineage.go\<close>, and the catalog it reads,
  \<open>backend/plugin/lineage/catalog\<close>.

  The dialects' analyzers and splitters and the registry's query are parameters. A provider answers
  with an error, with nothing, or with what it knows of a relation.
\<close>

subsection \<open>The catalog (\<open>provide.go\<close>)\<close>

record AnalysisContext =
  ac_InstanceID :: string
  ac_Database :: string
  ac_Schema :: string

definition Complete :: "AnalysisContext \<Rightarrow> ObjectIdentifier \<Rightarrow> ObjectIdentifier" where
  "Complete ac oid =
     oid\<lparr>InstanceID := (if InstanceID oid = [] then ac_InstanceID ac else InstanceID oid),
         Database := (if Database oid = [] then ac_Database ac else Database oid),
         Schema := (if Schema oid = [] then ac_Schema ac else Schema oid)\<rparr>"

record ColumnMeta =
  cm_Name :: string
  cm_Type :: string
  Nullable :: bool

record TableMeta =
  ID :: ObjectIdentifier
  tm_Columns :: "ColumnMeta list"

text \<open>What the registry stores for an object; the other kinds of objects have no column list.\<close>

datatype StoredMetadata =
    TableMetadata "ColumnMeta list" | ExternalTableMetadata "ColumnMeta list" | ViewMetadata "ColumnMeta list"
  | MaterializedViewMetadata "ColumnMeta list" | OtherMetadata

record MetaRegistryResource =
  res_GUID :: string
  Metadata :: StoredMetadata

definition catalogColumns :: "StoredMetadata \<Rightarrow> ColumnMeta list option" where
  "catalogColumns meta =
     (case meta of
        TableMetadata cs \<Rightarrow> Some cs
      | ExternalTableMetadata cs \<Rightarrow> Some cs
      | ViewMetadata cs \<Rightarrow> Some cs
      | MaterializedViewMetadata cs \<Rightarrow> if cs = [] then None else Some cs
      | OtherMetadata \<Rightarrow> None)"

text \<open>The registry's query, by the bytes of an identifier or (\<open>True\<close>) ignoring case.\<close>

type_synonym registry_query = "bool \<Rightarrow> string \<Rightarrow> string + MetaRegistryResource option"

type_synonym provider = "ObjectIdentifier \<Rightarrow> string + TableMeta option"

definition provide_lookup :: "registry_query \<Rightarrow> ObjectIdentifier \<Rightarrow> bool \<Rightarrow> string + MetaRegistryResource option" where
  "provide_lookup q oid folded = q folded (GUID oid)"

definition provide_GetTable :: "registry_query \<Rightarrow> AnalysisContext option \<Rightarrow> bool \<Rightarrow> provider" where
  "provide_GetTable q context ignoreCase oid0 =
     (let oid = (case context of None \<Rightarrow> oid0 | Some ac \<Rightarrow> Complete ac oid0);
          found = (case provide_lookup q oid False of
              Inl err \<Rightarrow> Inl err
            | Inr None \<Rightarrow> if ignoreCase then provide_lookup q oid True else Inr None
            | Inr (Some res) \<Rightarrow> Inr (Some res))
      in case found of
           Inl err \<Rightarrow> Inl err
         | Inr None \<Rightarrow> Inr None
         | Inr (Some res) \<Rightarrow> (case catalogColumns (Metadata res) of
               None \<Rightarrow> Inr None
             | Some columns \<Rightarrow>
                 Inr (Some \<lparr>ID = (case GUIDToObjectIdentifier (res_GUID res) of Some identity \<Rightarrow> identity | None \<Rightarrow> oid),
                            tm_Columns = columns\<rparr>)))"

subsection \<open>The cache of an analysis (\<open>cache.go\<close>)\<close>

text \<open>A nil cache is \<open>None\<close>. The last component is what the wrapped provider was asked.\<close>

record Cache =
  entries :: "(ObjectIdentifier, TableMeta option) gomap"
  failures :: "(ObjectIdentifier, string) gomap"

definition NewCache :: "provider option \<Rightarrow> Cache option" where
  "NewCache provide = (case provide of None \<Rightarrow> None | Some _ \<Rightarrow> Some \<lparr>entries = [], failures = []\<rparr>)"

definition cache_GetTable ::
    "provider \<Rightarrow> Cache option \<Rightarrow> ObjectIdentifier
      \<Rightarrow> (string + TableMeta option) \<times> Cache option \<times> ObjectIdentifier list" where
  "cache_GetTable provide cache oid =
     (case cache of
        None \<Rightarrow> (Inr None, None, [])
      | Some c \<Rightarrow> (case gm_get (entries c) oid of
            Some meta \<Rightarrow> (Inr meta, Some c, [])
          | None \<Rightarrow> (case gm_get (failures c) oid of
                Some err \<Rightarrow> (Inl err, Some c, [])
              | None \<Rightarrow> (case provide oid of
                    Inl err \<Rightarrow> (Inl err, Some (c\<lparr>failures := gm_put oid err (failures c)\<rparr>), [oid])
                  | Inr meta \<Rightarrow>
                      let es = gm_put oid meta (entries c);
                          es' = (case meta of
                              Some m \<Rightarrow> if ID m \<noteq> oid then gm_put (ID m) (Some m) es else es
                            | None \<Rightarrow> es)
                      in (Inr meta, Some (c\<lparr>entries := es'\<rparr>), [oid])))))"

fun cache_run ::
    "provider \<Rightarrow> Cache option \<Rightarrow> ObjectIdentifier list
      \<Rightarrow> (string + TableMeta option) list \<times> ObjectIdentifier list" where
  "cache_run provide cache [] = ([], [])"
| "cache_run provide cache (oid # oids) =
     (let (answer, cache', asked) = cache_GetTable provide cache oid;
          (answers, asked') = cache_run provide cache' oids
      in (answer # answers, asked @ asked'))"

subsection \<open>Engines (\<open>lineage.go\<close>)\<close>

text \<open>How a dialect fails: text it cannot parse, or gaps beside the edges it found.\<close>

datatype analysis_error = ParseError string | UnsupportedStatement "Diagnostic list" int | EngineNotSupported

type_synonym analysis = "ColumnRelation list \<times> analysis_error option"

type_synonym Engine = int

record EngineRegistration =
  reg_Engine :: Engine
  Analyze_fn :: "string \<Rightarrow> provider option \<Rightarrow> analysis"
  Split_fn :: "(string \<Rightarrow> string list) option"
  FoldIdentifierNames :: bool

record Analyzer =
  an_catalog :: "AnalysisContext option \<Rightarrow> bool \<Rightarrow> provider option"
  engines :: "(Engine, EngineRegistration) gomap"

text \<open>\<open>None\<close> is the panic on two registrations of an engine.\<close>

fun register :: "EngineRegistration list \<Rightarrow> (Engine, EngineRegistration) gomap \<Rightarrow> (Engine, EngineRegistration) gomap option" where
  "register [] m = Some m"
| "register (r # rs) m =
     (if gm_get m (reg_Engine r) \<noteq> None then None else register rs (gm_put (reg_Engine r) r m))"

definition NewAnalyzer ::
    "(AnalysisContext option \<Rightarrow> bool \<Rightarrow> provider option) \<Rightarrow> EngineRegistration list \<Rightarrow> Analyzer option" where
  "NewAnalyzer catalog registrations =
     map_option (\<lambda>m. \<lparr>an_catalog = catalog, engines = m\<rparr>) (register registrations [])"

definition Supports :: "Analyzer \<Rightarrow> Engine \<Rightarrow> bool" where
  "Supports a engine \<longleftrightarrow> gm_get (engines a) engine \<noteq> None"

definition FoldsIdentifiers :: "Analyzer \<Rightarrow> Engine \<Rightarrow> bool" where
  "FoldsIdentifiers a engine = (case gm_get (engines a) engine of None \<Rightarrow> False | Some r \<Rightarrow> FoldIdentifierNames r)"

definition CanonicalIdentifier ::
    "Analyzer \<Rightarrow> AnalysisContext option \<Rightarrow> Engine \<Rightarrow> ObjectIdentifier \<Rightarrow> ObjectIdentifier" where
  "CanonicalIdentifier a context engine oid =
     (case an_catalog a context True of
        None \<Rightarrow> oid
      | Some provide \<Rightarrow>
          if \<not> FoldsIdentifiers a engine then oid
          else (case provide oid of
              Inl _ \<Rightarrow> oid
            | Inr None \<Rightarrow> oid
            | Inr (Some meta) \<Rightarrow> if Name (ID meta) = [] then oid else ID meta))"

definition SplitScript :: "Analyzer \<Rightarrow> Engine \<Rightarrow> string \<Rightarrow> string list" where
  "SplitScript a engine sql =
     (case gm_get (engines a) engine of
        None \<Rightarrow> []
      | Some r \<Rightarrow> (case Split_fn r of None \<Rightarrow> [sql] | Some split \<Rightarrow> split sql))"

definition gapLimit :: nat where
  "gapLimit = 10"

text \<open>The loop of \<open>boundDiagnostics\<close>.\<close>

fun boundLoop ::
    "Diagnostic set \<Rightarrow> Diagnostic list \<Rightarrow> int \<Rightarrow> Diagnostic list \<Rightarrow> Diagnostic list \<times> int" where
  "boundLoop seen merged omitted [] = (merged, omitted)"
| "boundLoop seen merged omitted (note # ns) =
     (if note \<in> seen then boundLoop seen merged omitted ns
      else if gapLimit \<le> length merged then boundLoop (insert note seen) merged (omitted + 1) ns
      else boundLoop (insert note seen) (merged @ [note]) omitted ns)"

definition boundDiagnostics :: "Diagnostic list \<Rightarrow> int \<Rightarrow> Diagnostic list \<times> int" where
  "boundDiagnostics ns omitted = boundLoop {} [] omitted ns"

text \<open>The loop of \<open>Analyze\<close> over the statements of a script.\<close>

fun analyzeLoop ::
    "(string \<Rightarrow> analysis) \<Rightarrow> string list \<Rightarrow> EdgeSet \<Rightarrow> Diagnostic list \<Rightarrow> int
      \<Rightarrow> analysis_error + EdgeSet \<times> Diagnostic list \<times> int" where
  "analyzeLoop analyze [] edges diagnostics omitted = Inr (edges, diagnostics, omitted)"
| "analyzeLoop analyze (statement # statements) edges diagnostics omitted =
     (let (relations, err) = analyze statement in
      case err of
        None \<Rightarrow> analyzeLoop analyze statements (fold edge_Add relations edges) diagnostics omitted
      | Some (UnsupportedStatement ns n) \<Rightarrow>
          analyzeLoop analyze statements (fold edge_Add relations edges) (diagnostics @ ns) (omitted + n)
      | Some e \<Rightarrow> Inl e)"

definition Analyze :: "Analyzer \<Rightarrow> AnalysisContext option \<Rightarrow> bool \<Rightarrow> Engine \<Rightarrow> string \<Rightarrow> analysis" where
  "Analyze a context ignoreCase engine sql =
     (case gm_get (engines a) engine of
        None \<Rightarrow> ([], Some EngineNotSupported)
      | Some r \<Rightarrow> (case Split_fn r of
            None \<Rightarrow> Analyze_fn r sql (an_catalog a context ignoreCase)
          | Some split \<Rightarrow>
              (case analyzeLoop (\<lambda>s. Analyze_fn r s (an_catalog a context ignoreCase)) (split sql) NewEdgeSet [] 0 of
                 Inl e \<Rightarrow> ([], Some e)
               | Inr (edges, diagnostics, omitted) \<Rightarrow>
                   if diagnostics \<noteq> [] then
                     (let (merged, dropped) = boundDiagnostics diagnostics omitted in
                      (Edges edges, Some (UnsupportedStatement merged dropped)))
                   else (Edges edges, None))))"

subsection \<open>The cache is transparent\<close>

text \<open>
  A provider whose answers name objects under which it gives the same answer: a lookup under the
  registered spelling finds the same registered object.
\<close>

definition coherent :: "provider \<Rightarrow> bool" where
  "coherent provide \<longleftrightarrow> (\<forall>oid m. provide oid = Inr (Some m) \<longrightarrow> provide (ID m) = Inr (Some m))"

definition cache_ok :: "provider \<Rightarrow> Cache \<Rightarrow> bool" where
  "cache_ok provide c \<longleftrightarrow>
     (\<forall>oid meta. gm_get (entries c) oid = Some meta \<longrightarrow> provide oid = Inr meta) \<and>
     (\<forall>oid err. gm_get (failures c) oid = Some err \<longrightarrow> provide oid = Inl err)"

definition answered :: "Cache \<Rightarrow> ObjectIdentifier set" where
  "answered c = gm_keys (entries c) \<union> gm_keys (failures c)"

lemma cache_step:
  assumes "coherent provide" "cache_ok provide c"
  obtains c' asked where "cache_GetTable provide (Some c) oid = (provide oid, Some c', asked)"
    "cache_ok provide c'" "answered c \<union> {oid} \<subseteq> answered c'" "asked = (if oid \<in> answered c then [] else [oid])"
proof (cases "oid \<in> answered c")
  case True
  then consider meta where "gm_get (entries c) oid = Some meta"
    | err where "gm_get (entries c) oid = None" "gm_get (failures c) oid = Some err"
    by (cases "gm_get (entries c) oid"; cases "gm_get (failures c) oid") (auto simp: answered_def gm_keys_get)
  then have "cache_GetTable provide (Some c) oid = (provide oid, Some c, [])"
    using assms(2) by cases (auto simp: cache_GetTable_def cache_ok_def)
  then show ?thesis using that [of c "[]"] assms(2) True by simp
next
  case False
  then have n: "gm_get (entries c) oid = None" "gm_get (failures c) oid = None"
    by (auto simp: answered_def gm_keys_get)
  show ?thesis
  proof (cases "provide oid")
    case (Inl err)
    let ?c = "c\<lparr>failures := gm_put oid err (failures c)\<rparr>"
    have "cache_GetTable provide (Some c) oid = (provide oid, Some ?c, [oid])" using n Inl by (simp add: cache_GetTable_def)
    moreover have "cache_ok provide ?c" using assms(2) Inl by (auto simp: cache_ok_def gm_get_put)
    moreover have "answered c \<union> {oid} \<subseteq> answered ?c"
      unfolding answered_def subset_iff Un_iff gm_keys_get by (simp add: gm_get_put)
    ultimately show ?thesis using that False by auto
  next
    case (Inr meta)
    let ?es = "gm_put oid meta (entries c)"
    let ?es' = "case meta of Some m \<Rightarrow> if ID m \<noteq> oid then gm_put (ID m) (Some m) ?es else ?es | None \<Rightarrow> ?es"
    let ?c = "c\<lparr>entries := ?es'\<rparr>"
    have "cache_GetTable provide (Some c) oid = (provide oid, Some ?c, [oid])"
      using n Inr by (simp add: cache_GetTable_def Let_def)
    moreover have "cache_ok provide ?c"
      using assms Inr by (auto simp: cache_ok_def gm_get_put coherent_def split: option.splits if_splits)
    moreover have "answered c \<union> {oid} \<subseteq> answered ?c"
      unfolding answered_def subset_iff Un_iff gm_keys_get by (simp add: gm_get_put split: option.splits)
    ultimately show ?thesis using that False by auto
  qed
qed

lemma cache_run_spec:
  assumes "coherent provide"
  shows "cache_ok provide c \<Longrightarrow> fst (cache_run provide (Some c) oids) = map provide oids \<and>
    distinct (snd (cache_run provide (Some c) oids)) \<and>
    set (snd (cache_run provide (Some c) oids)) \<subseteq> set oids - answered c"
proof (induction oids arbitrary: c)
  case (Cons oid oids)
  obtain c' asked where s: "cache_GetTable provide (Some c) oid = (provide oid, Some c', asked)"
    "cache_ok provide c'" "answered c \<union> {oid} \<subseteq> answered c'" "asked = (if oid \<in> answered c then [] else [oid])"
    by (rule cache_step [OF assms Cons.prems])
  show ?case using Cons.IH [OF s(2)] s(1,3,4) by (auto simp: Let_def split: prod.splits)
qed simp

text \<open>
  C26. The catalog cache changes no answer. When looking a relation up under its registered name finds
  the same relation, every lookup of an analysis, errors and missing relations included, is answered
  as the provider would, and the provider is asked at most once for each name, and only for names that
  were looked up.
\<close>

theorem catalog_cache_transparent:
  assumes "coherent provide"
  shows "fst (cache_run provide (NewCache (Some provide)) oids) = map provide oids \<and>
    distinct (snd (cache_run provide (NewCache (Some provide)) oids)) \<and>
    set (snd (cache_run provide (NewCache (Some provide)) oids)) \<subseteq> set oids"
  using cache_run_spec [OF assms, of "\<lparr>entries = [], failures = []\<rparr>"]
  by (auto simp: NewCache_def cache_ok_def answered_def)

definition users_table :: TableMeta where
  "users_table = \<lparr>ID = \<lparr>InstanceID = ''i'', Database = ''d'', Schema = ''dbo'', Name = ''Users''\<rparr>, tm_Columns = []\<rparr>"

definition users_provider :: provider where
  "users_provider oid = (if EqualFold (Name oid) ''users'' then Inr (Some users_table) else Inl ''down'')"

lemma catalog_cache_transparent_witness:
  "let oids = map (\<lambda>n. (ID users_table)\<lparr>Name := n\<rparr>) [''users'', ''Users'', ''t'', ''users'', ''t''] in
   fst (cache_run users_provider (NewCache (Some users_provider)) oids) = map users_provider oids \<and>
   snd (cache_run users_provider (NewCache (Some users_provider)) oids)
     = map (\<lambda>n. (ID users_table)\<lparr>Name := n\<rparr>) [''users'', ''t'']"
proof -
  have "EqualFold ''Users'' ''users''" by code_simp
  then have "coherent users_provider" by (auto simp: coherent_def users_provider_def users_table_def split: if_splits)
  from catalog_cache_transparent [OF this] show ?thesis unfolding Let_def by (intro conjI) (blast, code_simp)
qed

subsection \<open>Scripts\<close>

lemma boundLoop_spec:
  "boundLoop seen merged omitted ns =
     (let new = first_by (\<lambda>n. n) seen ns in
      (merged @ take (gapLimit - length merged) new, omitted + int (length new) - int (length (take (gapLimit - length merged) new))))"
proof (induction seen merged omitted ns rule: boundLoop.induct)
  case (2 seen merged omitted d ns)
  show ?case
  proof (cases "d \<in> seen")
    case True
    then show ?thesis using 2(1) by simp
  next
    case False
    show ?thesis
    proof (cases "gapLimit \<le> length merged")
      case full: True
      then show ?thesis using 2(2) False by (simp add: Let_def)
    next
      case room: False
      then have "gapLimit - length merged = Suc (gapLimit - Suc (length merged))" by simp
      then show ?thesis using 2(3) False room by (simp add: Let_def)
    qed
  qed
qed simp

text \<open>What fails a script whole: text a dialect cannot parse.\<close>

definition fatal :: "analysis \<Rightarrow> analysis_error option" where
  "fatal r = (case snd r of None \<Rightarrow> None | Some (UnsupportedStatement _ _) \<Rightarrow> None | Some e \<Rightarrow> Some e)"

definition gaps :: "analysis \<Rightarrow> Diagnostic list" where
  "gaps r = (case snd r of Some (UnsupportedStatement ns _) \<Rightarrow> ns | _ \<Rightarrow> [])"

definition more_gaps :: "analysis \<Rightarrow> int" where
  "more_gaps r = (case snd r of Some (UnsupportedStatement _ n) \<Rightarrow> n | _ \<Rightarrow> 0)"

lemma analyzeLoop_spec:
  "analyzeLoop analyze ss edges ds om =
     (case List.map_filter (\<lambda>s. fatal (analyze s)) ss of
        e # _ \<Rightarrow> Inl e
      | [] \<Rightarrow> Inr (fold edge_Add (concat (map (\<lambda>s. fst (analyze s)) ss)) edges,
                   ds @ concat (map (\<lambda>s. gaps (analyze s)) ss), om + sum_list (map (\<lambda>s. more_gaps (analyze s)) ss)))"
proof (induction ss arbitrary: edges ds om)
  case (Cons s ss)
  show ?case
  proof (cases "analyze s")
    case (Pair rs err)
    show ?thesis
    proof (cases err)
      case None
      then show ?thesis using Pair Cons.IH
        by (simp add: List.map_filter_simps fatal_def gaps_def more_gaps_def split: list.split)
    next
      case (Some e)
      then show ?thesis using Pair Cons.IH
        by (cases e) (simp_all add: List.map_filter_simps fatal_def gaps_def more_gaps_def split: list.split)
    qed
  qed
qed simp

text \<open>
  Analyzing a script. A statement that does not parse fails the script, with the first such error
  and no edges. Otherwise gaps never discard lineage: the edges are those of all the statements, each
  once, and what the statements left out is reported as the first ten different gaps with the exact
  number of the rest; without a gap there is no error.
\<close>

theorem script_analysis:
  "let stmts = map (\<lambda>s. Analyze_fn r s (an_catalog a context ignoreCase)) (split sql);
       edges = first_by edge_identity {} (concat (map fst stmts));
       found = first_by (\<lambda>n. n) {} (concat (map gaps stmts))
   in Analyze (a\<lparr>engines := gm_put engine (r\<lparr>Split_fn := Some split\<rparr>) (engines a)\<rparr>) context ignoreCase engine sql =
     (case List.map_filter fatal stmts of
        e # _ \<Rightarrow> ([], Some e)
      | [] \<Rightarrow> (edges,
          if found = [] then None
          else Some (UnsupportedStatement (take gapLimit found)
            (sum_list (map more_gaps stmts) + int (length found) - int (length (take gapLimit found))))))"
proof -
  have e: "Edges (fold edge_Add rs NewEdgeSet) = first_by edge_identity {} rs" for rs
    by (rule edge_set_first)
  have n: "first_by (\<lambda>n. n) {} ns = [] \<longleftrightarrow> ns = []" for ns :: "Diagnostic list"
    by (cases ns) auto
  let ?an = "\<lambda>s. Analyze_fn r s (an_catalog a context ignoreCase)"
  define stmts where "stmts = map ?an (split sql)"
  have loop: "analyzeLoop ?an (split sql) NewEdgeSet [] 0 = (case List.map_filter fatal stmts of
        e # _ \<Rightarrow> Inl e
      | [] \<Rightarrow> Inr (fold edge_Add (concat (map fst stmts)) NewEdgeSet, concat (map gaps stmts), sum_list (map more_gaps stmts)))"
    unfolding analyzeLoop_spec stmts_def map_map o_def List.map_filter_def filter_map append_Nil add_0 by simp
  have "Analyze (a\<lparr>engines := gm_put engine (r\<lparr>Split_fn := Some split\<rparr>) (engines a)\<rparr>) context ignoreCase engine sql =
      (case List.map_filter fatal stmts of
        e # _ \<Rightarrow> ([], Some e)
      | [] \<Rightarrow> if concat (map gaps stmts) \<noteq> [] then
                (first_by edge_identity {} (concat (map fst stmts)),
                 Some (case_prod UnsupportedStatement (boundDiagnostics (concat (map gaps stmts)) (sum_list (map more_gaps stmts)))))
              else (first_by edge_identity {} (concat (map fst stmts)), None))"
    by (simp add: Analyze_def gm_get_put loop e split: list.split prod.split)
  then show ?thesis
    unfolding Let_def stmts_def [symmetric] n boundDiagnostics_def boundLoop_spec
    by (simp add: Let_def split: list.split)
qed

end
