(* ===== verification/Unicode_Strings.thy ===== *)
theory Unicode_Strings
  imports Go_Strings
begin

text \<open>
  Text that comes from outside: the cells of a sampled row, an imported code list. The functions of
  package \<open>strings\<close> that consult Go's Unicode tables are a parameter on it; on a string of ASCII
  bytes they are the functions of \<open>Go_Strings\<close>, which is the fast path Go takes itself.
\<close>

record unicode =
  u_ToUpper :: "string \<Rightarrow> string"
  u_TrimSpace :: "string \<Rightarrow> string"
  u_Fields :: "string \<Rightarrow> string list"
  u_ValidString :: "string \<Rightarrow> bool"

definition ascii :: "string \<Rightarrow> bool" where
  "ascii s \<longleftrightarrow> list_all (\<lambda>c. (of_char c :: nat) < 128) s"

definition GoToUpper :: "unicode \<Rightarrow> string \<Rightarrow> string" where
  "GoToUpper uni s = (if ascii s then ToUpper s else u_ToUpper uni s)"

definition GoTrimSpace :: "unicode \<Rightarrow> string \<Rightarrow> string" where
  "GoTrimSpace uni s = (if ascii s then TrimSpace s else u_TrimSpace uni s)"

definition ValidString :: "unicode \<Rightarrow> string \<Rightarrow> bool" where
  "ValidString uni s \<longleftrightarrow> ascii s \<or> u_ValidString uni s"

text \<open>\<open>strings.Fields\<close>: the maximal runs of bytes that are no white space.\<close>

fun asciiFields :: "string \<Rightarrow> string \<Rightarrow> string list" where
  "asciiFields word [] = (if word = [] then [] else [rev word])"
| "asciiFields word (c # s) =
     (if is_space c then (if word = [] then asciiFields [] s else rev word # asciiFields [] s)
      else asciiFields (c # word) s)"

definition Fields :: "unicode \<Rightarrow> string \<Rightarrow> string list" where
  "Fields uni s = (if ascii s then asciiFields [] s else u_Fields uni s)"

text \<open>\<open>strings.IndexByte\<close>.\<close>

fun IndexByte :: "string \<Rightarrow> char \<Rightarrow> int" where
  "IndexByte [] c = - 1"
| "IndexByte (x # s) c = (if x = c then 0 else let i = IndexByte s c in if i < 0 then - 1 else i + 1)"

definition all_digits :: "string \<Rightarrow> bool" where
  "all_digits s \<longleftrightarrow> list_all is_digit s"

subsection \<open>Laws\<close>

lemma ascii_Nil [simp]: "ascii []"
  by (simp add: ascii_def)

lemma ascii_Cons [simp]: "ascii (c # s) \<longleftrightarrow> (of_char c :: nat) < 128 \<and> ascii s"
  by (simp add: ascii_def)

lemma ascii_subset: "ascii s \<Longrightarrow> set t \<subseteq> set s \<Longrightarrow> ascii t"
  by (auto simp: ascii_def list_all_iff)

lemma IndexByte_ge: "- 1 \<le> IndexByte s c"
  by (induction s c rule: IndexByte.induct) (auto simp: Let_def)

lemma IndexByte_neg_iff: "IndexByte s c < 0 \<longleftrightarrow> c \<notin> set s"
  by (induction s c rule: IndexByte.induct) (auto simp: Let_def)

lemma IndexByte_lt: "IndexByte s c < int (length s)"
  by (induction s c rule: IndexByte.induct) (auto simp: Let_def)

lemma IndexByte_nth: "c \<in> set s \<Longrightarrow> s ! nat (IndexByte s c) = c"
proof (induction s c rule: IndexByte.induct)
  case (2 x s c)
  show ?case
  proof (cases "x = c")
    case False
    then have m: "c \<in> set s" using "2.prems" by auto
    then have "0 \<le> IndexByte s c" using IndexByte_neg_iff [of s c] by auto
    moreover from this have "nat (IndexByte s c + 1) = Suc (nat (IndexByte s c))" by simp
    ultimately show ?thesis using False "2.IH" [OF False m] by (simp add: Let_def)
  qed simp
qed simp

lemma IndexByte_distinct:
  assumes "distinct s" "i < length s"
  shows "IndexByte s (s ! i) = int i"
proof -
  have m: "s ! i \<in> set s" using assms(2) by simp
  then have "0 \<le> IndexByte s (s ! i)" using IndexByte_neg_iff [of s "s ! i"] by auto
  moreover have "s ! nat (IndexByte s (s ! i)) = s ! i" by (rule IndexByte_nth [OF m])
  moreover have "nat (IndexByte s (s ! i)) < length s"
    using IndexByte_lt [of s "s ! i"] calculation(1) by simp
  ultimately show ?thesis using assms by (simp add: distinct_conv_nth) (metis int_nat_eq)
qed

lemma TrimRight_snoc: "TrimRight p (s @ [c]) = (if p c then TrimRight p s else s @ [c])"
  by (simp add: TrimRight_def)

lemma TrimRight_set: "set (TrimRight p s) \<subseteq> set s"
  by (auto simp: TrimRight_def dest: set_dropWhileD)

lemma TrimRight_idle: "\<forall>c\<in>set s. \<not> p c \<Longrightarrow> TrimRight p s = s"
  by (cases s rule: rev_cases) (auto simp: TrimRight_def)

lemma TrimRight_idem [simp]: "TrimRight p (TrimRight p s) = TrimRight p s"
  by (cases "dropWhile p (rev s)") (auto simp: TrimRight_def dropWhile_eq_Cons_conv)

lemma ascii_TrimRight: "ascii s \<Longrightarrow> ascii (TrimRight p s)"
  by (rule ascii_subset [OF _ TrimRight_set])

lemma of_char_upper: "(of_char (upper_char c) :: nat) =
    (if 97 \<le> (of_char c :: nat) \<and> (of_char c :: nat) \<le> 122 then of_char c - 32 else of_char c)"
  by (auto simp: upper_char_def Let_def)

lemma upper_char_idem [simp]: "upper_char (upper_char c) = upper_char c"
  by (auto simp: upper_char_def [of "upper_char c"] of_char_upper Let_def)

lemma ToUpper_idem [simp]: "ToUpper (ToUpper s) = ToUpper s"
  by (simp add: ToUpper_def)

lemma ascii_ToUpper: "ascii s \<Longrightarrow> ascii (ToUpper s)"
  by (auto simp: ascii_def list_all_iff ToUpper_def of_char_upper)

lemma length_ToUpper [simp]: "length (ToUpper s) = length s"
  by (simp add: ToUpper_def)

end
