(* ===== verification/Code_Tables.thy ===== *)
theory Code_Tables
  imports Unicode_Strings Go_Strconv
begin

text \<open>
  The offline code tables of \<open>backend/component/dataquality/codetable/codetable.go\<close>: how the two
  embedded files are read and how a code is looked up in them. The files are an argument. A set of
  Go (\<open>map[string]struct{}\<close>) is a list of its keys, newest first.
\<close>

subsection \<open>The tables\<close>

datatype table_error =
    NotSixDigits nat string
  | UnknownPrefix nat string
  | DuplicateDivision nat string
  | BadFields nat string
  | BadSection nat string
  | BadNumber nat string
  | DuplicateIndustry nat string string
  | MissingParent string string string
  | ForeignParent string string string string
  | NoCodes

record divisions =
  divisionCodes :: "string list"
  provincePrefixes :: "string list"

record industries =
  industrySections :: "(string, string) gomap"
  industrySectionsSet :: "char list"

definition provincePrefixList :: "string list" where
  "provincePrefixList =
    [''11'', ''12'', ''13'', ''14'', ''15'', ''21'', ''22'', ''23'',
     ''31'', ''32'', ''33'', ''34'', ''35'', ''36'', ''37'',
     ''41'', ''42'', ''43'', ''44'', ''45'', ''46'',
     ''50'', ''51'', ''52'', ''53'', ''54'',
     ''61'', ''62'', ''63'', ''64'', ''65'', ''71'', ''81'', ''82'']"

definition insert_key :: "'a \<Rightarrow> 'a list \<Rightarrow> 'a list" where
  "insert_key k ks = (if k \<in> set ks then ks else k # ks)"

lemma set_insert_key [simp]: "set (insert_key k ks) = insert k (set ks)"
  by (auto simp: insert_key_def)

subsection \<open>Lookups\<close>

definition IsAdministrativeDivision :: "divisions \<Rightarrow> string \<Rightarrow> bool" where
  "IsAdministrativeDivision t code \<longleftrightarrow> code \<in> set (divisionCodes t)"

definition IsProvincePrefix :: "divisions \<Rightarrow> string \<Rightarrow> bool" where
  "IsProvincePrefix t code \<longleftrightarrow> code \<in> set (provincePrefixes t)"

text \<open>The section letter a code starts with, \<open>None\<close> for Go's zero byte, and the rest.\<close>

definition sectionLetter :: "string \<Rightarrow> char option \<times> string" where
  "sectionLetter code =
     (case code of
        [] \<Rightarrow> (None, code)
      | c # numeric \<Rightarrow>
          let n = (of_char c :: nat) in
          if 65 \<le> n \<and> n \<le> 84 then (Some c, numeric)
          else if 97 \<le> n \<and> n \<le> 116 then (Some (char_of (n - 32)), numeric)
          else (None, code))"

definition IsIndustryClassification :: "industries \<Rightarrow> string \<Rightarrow> bool" where
  "IsIndustryClassification t code =
     (if code = [] then False
      else
        let (letter, numeric) = sectionLetter code in
        if numeric = [] then
          (case letter of None \<Rightarrow> False | Some l \<Rightarrow> l \<in> set (industrySectionsSet t))
        else if length numeric < 2 \<or> 4 < length numeric then False
        else if \<not> all_digits numeric then False
        else (case gm_get (industrySections t) numeric of
            None \<Rightarrow> False
          | Some section \<Rightarrow> letter = None \<or> Some (section ! 0) = letter))"

subsection \<open>Reading the division file\<close>

text \<open>\<open>strconv.Atoi\<close> on two digits is written out.\<close>

definition isStatisticsPseudoDivision :: "string \<Rightarrow> bool" where
  "isStatisticsPseudoDivision code =
     (if length code \<noteq> 6 then False
      else if take 2 (drop 2 code) = ''90'' then False
      else if \<not> all_digits (drop 4 code) then False
      else let n = 10 * digit_value (code ! 4) + digit_value (code ! 5)
           in (71 \<le> n \<and> n \<le> 79) \<or> (90 \<le> n \<and> n \<le> 99))"

fun divisionLines ::
    "unicode \<Rightarrow> nat \<Rightarrow> string list \<Rightarrow> divisions \<Rightarrow> table_error + divisions" where
  "divisionLines uni n [] t = Inr t"
| "divisionLines uni n (raw # rest) t =
     (let line = GoTrimSpace uni raw in
      if line = [] \<or> HasPrefix line ''#'' then divisionLines uni (n + 1) rest t
      else if length line \<noteq> 6 then Inl (NotSixDigits (n + 1) line)
      else if \<not> all_digits line then Inl (NotSixDigits (n + 1) line)
      else if isStatisticsPseudoDivision line then divisionLines uni (n + 1) rest t
      else if take 2 line \<notin> set provincePrefixList then Inl (UnknownPrefix (n + 1) line)
      else if line \<in> set (divisionCodes t) then Inl (DuplicateDivision (n + 1) line)
      else divisionLines uni (n + 1) rest
        (t\<lparr>divisionCodes := insert_key line (divisionCodes t),
           provincePrefixes := insert_key (take 2 line) (provincePrefixes t)\<rparr>))"

definition parseDivisions :: "unicode \<Rightarrow> string \<Rightarrow> table_error + divisions" where
  "parseDivisions uni data =
     (case divisionLines uni 0 (Split (CHR 0x0A) data) \<lparr>divisionCodes = [], provincePrefixes = []\<rparr> of
        Inl err \<Rightarrow> Inl err
      | Inr t \<Rightarrow> if divisionCodes t = [] then Inl NoCodes else Inr t)"

subsection \<open>Reading the industry file\<close>

fun industryLines ::
    "unicode \<Rightarrow> nat \<Rightarrow> string list \<Rightarrow> industries \<Rightarrow> table_error + industries" where
  "industryLines uni n [] t = Inr t"
| "industryLines uni n (raw # rest) t =
     (let line = GoTrimSpace uni raw in
      if line = [] \<or> HasPrefix line ''#'' then industryLines uni (n + 1) rest t
      else (case Fields uni line of
          [section, number] \<Rightarrow>
            if length section \<noteq> 1 \<or> (of_char (section ! 0) :: nat) < 65 \<or> 84 < (of_char (section ! 0) :: nat)
            then Inl (BadSection (n + 1) section)
            else if length number < 2 \<or> 4 < length number then Inl (BadNumber (n + 1) number)
            else if \<not> all_digits number then Inl (BadNumber (n + 1) number)
            else (case gm_get (industrySections t) number of
                Some previous \<Rightarrow> Inl (DuplicateIndustry (n + 1) number previous)
              | None \<Rightarrow> industryLines uni (n + 1) rest
                  (t\<lparr>industrySections := gm_put number section (industrySections t),
                     industrySectionsSet := insert_key (section ! 0) (industrySectionsSet t)\<rparr>))
        | _ \<Rightarrow> Inl (BadFields (n + 1) line)))"

text \<open>The loop that looks for every code's parent, over the entries in map order.\<close>

definition parentOf :: "string \<Rightarrow> string option" where
  "parentOf code =
     (if length code = 3 then Some (take 2 code)
      else if length code = 4 then Some (take 3 code) else None)"

fun parentLoop :: "(string, string) gomap \<Rightarrow> (string \<times> string) list \<Rightarrow> table_error option" where
  "parentLoop sections [] = None"
| "parentLoop sections ((code, section) # rest) =
     (case parentOf code of
        None \<Rightarrow> parentLoop sections rest
      | Some parent \<Rightarrow> (case gm_get sections parent of
            None \<Rightarrow> Some (MissingParent section code parent)
          | Some parentSection \<Rightarrow>
              if parentSection \<noteq> section then Some (ForeignParent section code parent parentSection)
              else parentLoop sections rest))"

definition parseIndustries ::
    "unicode \<Rightarrow> (string, string) ranging \<Rightarrow> string \<Rightarrow> table_error + industries" where
  "parseIndustries uni r data =
     (case industryLines uni 0 (Split (CHR 0x0A) data)
             \<lparr>industrySections = [], industrySectionsSet = []\<rparr> of
        Inl err \<Rightarrow> Inl err
      | Inr t \<Rightarrow>
          if industrySections t = [] then Inl NoCodes
          else (case parentLoop (industrySections t) (r (industrySections t)) of
              Some err \<Rightarrow> Inl err
            | None \<Rightarrow> Inr t))"

subsection \<open>What a table that was read holds\<close>

definition divisions_ok :: "divisions \<Rightarrow> bool" where
  "divisions_ok t \<longleftrightarrow> list_all (\<lambda>c. length c = 6 \<and> all_digits c \<and> \<not> isStatisticsPseudoDivision c
      \<and> take 2 c \<in> set provincePrefixList \<and> take 2 c \<in> set (provincePrefixes t)) (divisionCodes t)
    \<and> list_all (\<lambda>p. list_ex (\<lambda>c. take 2 c = p) (divisionCodes t)) (provincePrefixes t)"

lemma divisions_ok_insert:
  "divisions_ok t \<Longrightarrow> length line = 6 \<Longrightarrow> all_digits line \<Longrightarrow> \<not> isStatisticsPseudoDivision line \<Longrightarrow>
   take 2 line \<in> set provincePrefixList \<Longrightarrow>
   divisions_ok (t\<lparr>divisionCodes := insert_key line (divisionCodes t),
     provincePrefixes := insert_key (take 2 line) (provincePrefixes t)\<rparr>)"
  by (auto simp: divisions_ok_def list_all_iff list_ex_iff)

lemma divisionLines_ok:
  "divisionLines uni n lines t = Inr t' \<Longrightarrow> divisions_ok t \<Longrightarrow> divisions_ok t'"
proof (induction lines arbitrary: n t)
  case (Cons raw rest)
  show ?case
    using Cons.prems(1)
    by (simp add: Let_def split: if_splits)
       (blast intro: Cons.IH Cons.prems(2) divisions_ok_insert)+
qed simp

lemma parseDivisions_ok: "parseDivisions uni data = Inr t \<Longrightarrow> divisions_ok t \<and> divisionCodes t \<noteq> []"
  by (auto simp: parseDivisions_def divisions_ok_def dest!: divisionLines_ok split: sum.splits if_splits)

definition industries_ok :: "industries \<Rightarrow> bool" where
  "industries_ok t \<longleftrightarrow> gm_ok (industrySections t)
    \<and> list_all (\<lambda>(number, section). 2 \<le> length number \<and> length number \<le> 4 \<and> all_digits number
        \<and> (\<exists>l. section = [l] \<and> l \<in> set (industrySectionsSet t)
             \<and> 65 \<le> (of_char l :: nat) \<and> (of_char l :: nat) \<le> 84)) (industrySections t)"

lemma length_1: "length s = Suc 0 \<Longrightarrow> \<exists>l. s = [l]"
  by (cases s) auto

lemma gm_put_new: "gm_get m k = None \<Longrightarrow> set (gm_put k v m) = insert (k, v) (set m)"
  by (induction m) (auto split: if_splits)

lemma industries_ok_put:
  assumes "industries_ok t" "gm_get (industrySections t) number = None" "all_digits number"
    "2 \<le> length number" "length number \<le> 4"
    "length section = 1" "65 \<le> (of_char (section ! 0) :: nat)" "(of_char (section ! 0) :: nat) \<le> 84"
  shows "industries_ok (t\<lparr>industrySections := gm_put number section (industrySections t),
    industrySectionsSet := insert_key (section ! 0) (industrySectionsSet t)\<rparr>)"
proof -
  obtain l where "section = [l]" using length_1 assms(6) by fastforce
  with assms show ?thesis
    by (auto simp: industries_ok_def list_all_iff gm_put_new)
qed

lemma industryLines_ok:
  "industryLines uni n lines t = Inr t' \<Longrightarrow> industries_ok t \<Longrightarrow> industries_ok t'"
proof (induction lines arbitrary: n t)
  case (Cons raw rest)
  let ?line = "GoTrimSpace uni raw"
  show ?case
  proof (cases "?line = [] \<or> HasPrefix ?line ''#''")
    case False
    then obtain sect number where f: "Fields uni ?line = [sect, number]"
      using Cons.prems(1) by (auto simp: Let_def split: list.splits)
    show ?thesis
      using Cons.prems(1) False f
      by (simp add: Let_def split: if_splits option.splits)
         (erule Cons.IH, rule industries_ok_put [OF Cons.prems(2)], simp_all)
  qed (use Cons in \<open>auto simp: Let_def\<close>)
qed simp

lemma parentLoop_None:
  "parentLoop sections es = None \<longleftrightarrow>
     (\<forall>(code, section)\<in>set es. \<forall>parent. parentOf code = Some parent \<longrightarrow> gm_get sections parent = Some section)"
  by (induction sections es rule: parentLoop.induct) (auto split: option.splits)

end
