(* ===== verification/Check_Digits.thy ===== *)
theory Check_Digits
  imports Main
begin

text \<open>
  What a weighted check digit is good for, as an interface: a predicate accepts only strings whose
  weighted sum of character values has a fixed residue, and every weight is invertible modulo the
  base. The validators of \<open>Standard_Codes\<close> provide it.
\<close>

definition weighted_sum :: "int list \<Rightarrow> (nat \<Rightarrow> char \<Rightarrow> int) \<Rightarrow> string \<Rightarrow> int" where
  "weighted_sum ws v s = (\<Sum>i<length ws. ws ! i * v i (s ! i))"

definition unit_mod :: "int \<Rightarrow> int \<Rightarrow> bool" where
  "unit_mod m w \<longleftrightarrow> (\<exists>u. (w * u) mod m = 1 mod m)"

definition swap_at :: "nat \<Rightarrow> 'a list \<Rightarrow> 'a list" where
  "swap_at i s = s[i := s ! Suc i, Suc i := s ! i]"

lemma swap_at_same: "s ! i = s ! Suc i \<Longrightarrow> swap_at i s = s"
  by (metis list_update_id swap_at_def)

lemma unit_mod_cancel:
  assumes "unit_mod m w" "(w * d) mod m = 0"
  shows "d mod m = 0"
proof -
  from assms(1) obtain u where u: "(w * u) mod m = 1 mod m" by (auto simp: unit_mod_def)
  have "d mod m = (1 mod m * d) mod m" by (simp add: mod_mult_left_eq)
  also have "\<dots> = ((w * u) mod m * d) mod m" by (simp add: u)
  also have "\<dots> = (u * ((w * d) mod m)) mod m" by (simp add: mod_mult_left_eq mod_mult_right_eq ac_simps)
  finally show ?thesis by (simp add: assms(2))
qed

lemma weighted_sum_one_change:
  assumes "i < length ws" "\<And>j. j < length ws \<Longrightarrow> j \<noteq> i \<Longrightarrow> s ! j = t ! j"
  shows "weighted_sum ws v s - weighted_sum ws v t = ws ! i * (v i (s ! i) - v i (t ! i))"
proof -
  have "weighted_sum ws v s - weighted_sum ws v t =
      (\<Sum>j<length ws. ws ! j * (v j (s ! j) - v j (t ! j)))"
    by (simp add: weighted_sum_def sum_subtractf right_diff_distrib)
  also have "\<dots> = (\<Sum>j\<in>{i}. ws ! j * (v j (s ! j) - v j (t ! j)))"
    by (rule sum.mono_neutral_right) (use assms in auto)
  finally show ?thesis by simp
qed

lemma weighted_sum_two_changes:
  assumes "Suc i < length ws" "\<And>j. j < length ws \<Longrightarrow> j \<noteq> i \<Longrightarrow> j \<noteq> Suc i \<Longrightarrow> s ! j = t ! j"
  shows "weighted_sum ws v s - weighted_sum ws v t =
    ws ! i * (v i (s ! i) - v i (t ! i)) + ws ! Suc i * (v (Suc i) (s ! Suc i) - v (Suc i) (t ! Suc i))"
proof -
  have "weighted_sum ws v s - weighted_sum ws v t =
      (\<Sum>j<length ws. ws ! j * (v j (s ! j) - v j (t ! j)))"
    by (simp add: weighted_sum_def sum_subtractf right_diff_distrib)
  also have "\<dots> = (\<Sum>j\<in>{i, Suc i}. ws ! j * (v j (s ! j) - v j (t ! j)))"
    by (rule sum.mono_neutral_right) (use assms in auto)
  finally show ?thesis by simp
qed

locale check_digit =
  fixes accepts :: "string \<Rightarrow> bool"
    and weights :: "int list"
    and val :: "nat \<Rightarrow> char \<Rightarrow> int"
    and base residue :: int
  assumes accepted_length: "accepts s \<Longrightarrow> length s = length weights"
    and accepted_sum: "accepts s \<Longrightarrow> weighted_sum weights val s mod base = residue mod base"
    and weight_unit: "i < length weights \<Longrightarrow> unit_mod base (weights ! i)"
begin

lemma same_sum:
  assumes "accepts s" "accepts t"
  shows "(weighted_sum weights val s - weighted_sum weights val t) mod base = 0"
  using accepted_sum [OF assms(1)] accepted_sum [OF assms(2)] by (simp add: mod_diff_eq [symmetric])

lemma substitution_congruent:
  assumes "accepts s" "accepts t" "i < length s" "\<And>j. j < length s \<Longrightarrow> j \<noteq> i \<Longrightarrow> s ! j = t ! j"
  shows "val i (s ! i) mod base = val i (t ! i) mod base"
proof -
  have len: "length s = length weights" by (rule accepted_length [OF assms(1)])
  have "(weights ! i * (val i (s ! i) - val i (t ! i))) mod base = 0"
    using weighted_sum_one_change [of i weights s t val] same_sum [OF assms(1,2)] assms(3,4)
    by (simp add: len)
  then have "(val i (s ! i) - val i (t ! i)) mod base = 0"
    using unit_mod_cancel weight_unit assms(3) len by metis
  then show ?thesis by (simp add: mod_eq_dvd_iff dvd_eq_mod_eq_0)
qed

end

text \<open>A check digit over an alphabet in which congruent values are equal characters.\<close>

locale exact_check_digit = check_digit +
  assumes exact: "accepts s \<Longrightarrow> accepts t \<Longrightarrow> i < length s \<Longrightarrow> j < length s \<Longrightarrow>
      val i (s ! i) mod base = val i (t ! j) mod base \<Longrightarrow> s ! i = t ! j"
    and uniform: "accepts s \<Longrightarrow> i < length s \<Longrightarrow> Suc i < length s \<Longrightarrow>
      val i (s ! i) = val (Suc i) (s ! i) \<and> val i (s ! Suc i) = val (Suc i) (s ! Suc i)"
    and step_unit: "Suc i < length weights \<Longrightarrow> unit_mod base (weights ! i - weights ! Suc i)"
begin

lemma distance_two:
  assumes "accepts s" "accepts t" "s \<noteq> t"
  shows "\<exists>i j. i < j \<and> j < length s \<and> s ! i \<noteq> t ! i \<and> s ! j \<noteq> t ! j"
proof -
  have len: "length t = length s" using accepted_length assms(1,2) by metis
  then obtain i where i: "i < length s" "s ! i \<noteq> t ! i"
    using assms(3) nth_equalityI by metis
  have "\<exists>j<length s. j \<noteq> i \<and> s ! j \<noteq> t ! j"
  proof (rule ccontr)
    assume "\<not> ?thesis"
    then have "val i (s ! i) mod base = val i (t ! i) mod base"
      using substitution_congruent [OF assms(1,2) i(1)] by blast
    then show False using exact [OF assms(1,2) i(1) i(1)] i(2) by blast
  qed
  then show ?thesis using i by (metis nat_neq_iff)
qed

lemma swap_detected:
  assumes "accepts s" "accepts (swap_at i s)" "Suc i < length s"
  shows "s ! i = s ! Suc i"
proof -
  have len: "length s = length weights" by (rule accepted_length [OF assms(1)])
  let ?t = "swap_at i s"
  let ?d = "val i (s ! i) - val i (s ! Suc i)"
  have "weighted_sum weights val s - weighted_sum weights val ?t =
      weights ! i * ?d + weights ! Suc i * (val (Suc i) (s ! Suc i) - val (Suc i) (s ! i))"
    using weighted_sum_two_changes [of i weights s ?t val] assms(3) by (simp add: len swap_at_def)
  also have "\<dots> = (weights ! i - weights ! Suc i) * ?d"
    using uniform [OF assms(1)] assms(3) by (simp add: algebra_simps)
  finally have "((weights ! i - weights ! Suc i) * ?d) mod base = 0"
    using same_sum [OF assms(1,2)] by metis
  then have "?d mod base = 0"
    using unit_mod_cancel step_unit assms(3) len by metis
  then have "val i (s ! i) mod base = val i (s ! Suc i) mod base"
    by (simp add: mod_eq_dvd_iff dvd_eq_mod_eq_0)
  then show ?thesis
    using exact [OF assms(1,1), of i "Suc i"] assms(3) by simp
qed

lemma errors_detected:
  assumes "accepts s" "accepts t" "s \<noteq> t"
  shows "(\<exists>i j. i < j \<and> j < length s \<and> s ! i \<noteq> t ! i \<and> s ! j \<noteq> t ! j)
    \<and> (\<forall>i. Suc i < length s \<longrightarrow> t \<noteq> swap_at i s)"
  using distance_two [OF assms] swap_detected [OF assms(1)] swap_at_same assms(2,3) by metis

end

end
