(* ===== verification/Standard_Codes.thy ===== *)
theory Standard_Codes
  imports Code_Tables Check_Digits "HOL-Library.List_Lexorder" "HOL-Library.Char_ord"
begin

text \<open>
  The standard-code rule, \<open>backend/component/dataquality/standard_code.go\<close>, and the workspace code
  tables of \<open>code_table.go\<close>: the validators with their check digits, the narrowing by a code table
  and the judgment of a sample. The current date, as \<open>time.Now().UTC().Format("20060102")\<close> prints
  it, is an argument.
\<close>

subsection \<open>Standards and their configuration\<close>

datatype QualityStandardCode =
    STANDARD_CODE_UNSPECIFIED
  | UNIFIED_SOCIAL_CREDIT_CODE
  | ORGANIZATION_CODE
  | RESIDENT_ID_CARD
  | ADMINISTRATIVE_DIVISION
  | INDUSTRY_CLASSIFICATION
  | CUSTOM_CODE_TABLE
  | OTHER_STANDARD nat

datatype code_error =
    NegativeSampleRows
  | TooManySampleRows int
  | ReferenceRequired
  | EmptyCodeTable string
  | MissingColumn string
  | ShortRow nat nat
  | NotText
  | InvalidUTF8
  | NulCharacter
  | ValueTooLong nat
  | TooManyValues nat

definition defaultStandardCodeSampleRows :: int where "defaultStandardCodeSampleRows = 10000"
definition maxStandardCodeSampleRows :: int where "maxStandardCodeSampleRows = 100000"

definition standardCodeSampleRows :: "int \<Rightarrow> code_error + int" where
  "standardCodeSampleRows configured =
     (if configured < 0 then Inl NegativeSampleRows
      else if configured = 0 then Inr defaultStandardCodeSampleRows
      else if maxStandardCodeSampleRows < configured then Inl (TooManySampleRows configured)
      else Inr configured)"

definition knownStandard :: "QualityStandardCode \<Rightarrow> bool" where
  "knownStandard standard =
     (case standard of STANDARD_CODE_UNSPECIFIED \<Rightarrow> False | OTHER_STANDARD _ \<Rightarrow> False | _ \<Rightarrow> True)"

fun standardCodeValueIndex :: "nat \<Rightarrow> string list \<Rightarrow> string \<Rightarrow> code_error + nat" where
  "standardCodeValueIndex index [] column = Inl (MissingColumn column)"
| "standardCodeValueIndex index (name # names) column =
     (if name = column then Inr index else standardCodeValueIndex (Suc index) names column)"

abbreviation trim_blanks :: "string \<Rightarrow> string" where
  "trim_blanks \<equiv> TrimRight (\<lambda>c. c = CHR '' '')"

subsection \<open>Unified social credit codes\<close>

definition usccAlphabet :: string where
  "usccAlphabet = ''0123456789ABCDEFGHJKLMNPQRTUWXY''"

definition unifiedSocialCreditWeights :: "int list" where
  "unifiedSocialCreditWeights = [1, 3, 9, 27, 19, 26, 16, 17, 20, 29, 25, 13, 8, 24, 10, 30, 28]"

text \<open>The loop over the first 17 characters; it stops at the first one outside the alphabet.\<close>

fun usccSum :: "string \<Rightarrow> int list \<Rightarrow> int \<Rightarrow> int option" where
  "usccSum (c # code) (w # weights) acc =
     (let digit = IndexByte usccAlphabet c
      in if digit < 0 then None else usccSum code weights (acc + digit * w))"
| "usccSum _ _ acc = Some acc"

definition validUnifiedSocialCreditCode :: "unicode \<Rightarrow> string \<Rightarrow> bool" where
  "validUnifiedSocialCreditCode uni value =
     (let code = GoToUpper uni (trim_blanks value) in
      if length code \<noteq> 18 then False
      else if code ! 0 \<notin> set ''123456789ANY'' then False
      else if code ! 1 \<notin> set ''123459'' then False
      else if \<not> all_digits (take 6 (drop 2 code)) then False
      else (case usccSum code unifiedSocialCreditWeights 0 of
          None \<Rightarrow> False
        | Some acc \<Rightarrow> code ! 17 = usccAlphabet ! nat ((31 - acc mod 31) mod 31)))"

subsection \<open>Organization codes\<close>

definition organizationCodeWeights :: "int list" where
  "organizationCodeWeights = [3, 7, 9, 10, 5, 8, 4, 2]"

definition organizationCodeValue :: "char \<Rightarrow> int" where
  "organizationCodeValue c =
     (let n = (of_char c :: nat) in
      if 48 \<le> n \<and> n \<le> 57 then int n - 48
      else if 65 \<le> n \<and> n \<le> 90 then int n - 65 + 10
      else - 1)"

fun organizationSum :: "string \<Rightarrow> int list \<Rightarrow> int \<Rightarrow> int option" where
  "organizationSum (c # code) (w # weights) acc =
     (let character = organizationCodeValue c
      in if character < 0 then None else organizationSum code weights (acc + character * w))"
| "organizationSum _ _ acc = Some acc"

definition fullWidthHyphen :: string where
  "fullWidthHyphen = [CHR 0xEF, CHR 0xBC, CHR 0x8D]"

definition validOrganizationCode :: "unicode \<Rightarrow> string \<Rightarrow> bool" where
  "validOrganizationCode uni value =
     (let code = ReplaceAll (GoToUpper uni (trim_blanks value)) fullWidthHyphen ''-'' in
      if length code = 10 \<and> code ! 8 \<noteq> CHR ''-'' then False
      else
        let code = (if length code = 10 then take 8 code @ drop 9 code else code) in
        if length code \<noteq> 9 then False
        else (case organizationSum code organizationCodeWeights 0 of
            None \<Rightarrow> False
          | Some acc \<Rightarrow>
              let check = 11 - acc mod 11;
                  want = (if check = 10 then CHR ''X'' else if check = 11 then CHR ''0''
                    else char_of (48 + nat check))
              in code ! 8 = want))"

subsection \<open>Resident identity numbers\<close>

definition residentIDCardWeights :: "int list" where
  "residentIDCardWeights = [7, 9, 10, 5, 8, 4, 2, 1, 6, 3, 7, 9, 10, 5, 8, 4, 2]"

definition residentIDCardCheckCharacters :: string where
  "residentIDCardCheckCharacters = ''10X98765432''"

text \<open>
  \<open>time.Parse("20060102", birth)\<close> on eight digits: it fails for a month or a day the calendar does
  not have.
\<close>

definition two_digits :: "string \<Rightarrow> nat" where
  "two_digits s = 10 * digit_value (s ! 0) + digit_value (s ! 1)"

definition leap_year :: "nat \<Rightarrow> bool" where
  "leap_year y \<longleftrightarrow> y mod 4 = 0 \<and> (y mod 100 \<noteq> 0 \<or> y mod 400 = 0)"

definition days_in :: "nat \<Rightarrow> nat \<Rightarrow> nat" where
  "days_in month year =
     (if month = 2 then (if leap_year year then 29 else 28)
      else if month \<in> {4, 6, 9, 11} then 30 else 31)"

definition parse_date :: "string \<Rightarrow> bool" where
  "parse_date s =
     (let year = 100 * two_digits s + two_digits (drop 2 s);
          month = two_digits (drop 4 s);
          day = two_digits (drop 6 s)
      in 1 \<le> month \<and> month \<le> 12 \<and> 1 \<le> day \<and> day \<le> days_in month year)"

fun residentSum :: "string \<Rightarrow> int list \<Rightarrow> int \<Rightarrow> int" where
  "residentSum (c # code) (w # weights) acc =
     residentSum code weights (acc + int (digit_value c) * w)"
| "residentSum _ _ acc = acc"

definition validResidentIDCard :: "unicode \<Rightarrow> divisions \<Rightarrow> string \<Rightarrow> string \<Rightarrow> bool" where
  "validResidentIDCard uni t today value =
     (let code = GoToUpper uni (trim_blanks value) in
      if length code \<noteq> 18 then False
      else if \<not> all_digits (take 17 code) then False
      else
        let last_char = code ! 17 in
        if \<not> is_digit last_char \<and> last_char \<noteq> CHR ''X'' then False
        else
          let birth = take 8 (drop 6 code) in
          if \<not> parse_date birth \<or> birth < ''18000101'' \<or> today < birth then False
          else if \<not> IsProvincePrefix t (take 2 code) then False
          else
            let acc = residentSum code residentIDCardWeights 0
            in code ! 17 = residentIDCardCheckCharacters ! nat (acc mod 11))"

subsection \<open>Table standards and the dispatch\<close>

definition validAdministrativeDivision :: "divisions \<Rightarrow> string \<Rightarrow> bool" where
  "validAdministrativeDivision t value =
     (let code = trim_blanks value in
      if length code \<noteq> 6 then False
      else if \<not> all_digits code then False
      else IsAdministrativeDivision t code)"

definition validIndustryClassification :: "unicode \<Rightarrow> industries \<Rightarrow> string \<Rightarrow> bool" where
  "validIndustryClassification uni t value =
     IsIndustryClassification t (GoToUpper uni (trim_blanks value))"

text \<open>What the process reads besides the value: Unicode's tables, the code tables, the date.\<close>

record code_env =
  env_unicode :: unicode
  env_divisions :: divisions
  env_industries :: industries
  env_today :: string

definition validStandardCode :: "code_env \<Rightarrow> QualityStandardCode \<Rightarrow> string \<Rightarrow> bool" where
  "validStandardCode env standard value =
     (case standard of
        UNIFIED_SOCIAL_CREDIT_CODE \<Rightarrow> validUnifiedSocialCreditCode (env_unicode env) value
      | ORGANIZATION_CODE \<Rightarrow> validOrganizationCode (env_unicode env) value
      | RESIDENT_ID_CARD \<Rightarrow> validResidentIDCard (env_unicode env) (env_divisions env) (env_today env) value
      | ADMINISTRATIVE_DIVISION \<Rightarrow> validAdministrativeDivision (env_divisions env) value
      | INDUSTRY_CLASSIFICATION \<Rightarrow> validIndustryClassification (env_unicode env) (env_industries env) value
      | _ \<Rightarrow> False)"

definition standardCodeTableSet ::
    "unicode \<Rightarrow> QualityStandardCode \<Rightarrow> string \<Rightarrow> string list \<Rightarrow> code_error + string set option" where
  "standardCodeTableSet uni standard reference values =
     (let reference = GoTrimSpace uni reference in
      if reference = [] then
        (if standard = CUSTOM_CODE_TABLE then Inl ReferenceRequired else Inr None)
      else if values = [] then Inl (EmptyCodeTable reference)
      else Inr (Some (set (map (\<lambda>value.
          if standard \<noteq> CUSTOM_CODE_TABLE then GoToUpper uni (trim_blanks value) else value) values))))"

definition standardCodeTableContains ::
    "unicode \<Rightarrow> QualityStandardCode \<Rightarrow> string set \<Rightarrow> string \<Rightarrow> bool" where
  "standardCodeTableContains uni standard codeTable value =
     (let value = trim_blanks value;
          value = (if standard \<noteq> CUSTOM_CODE_TABLE then GoToUpper uni value else value)
      in value \<in> codeTable)"

definition standardCodeAccepts ::
    "code_env \<Rightarrow> QualityStandardCode \<Rightarrow> string \<Rightarrow> string set option \<Rightarrow> bool" where
  "standardCodeAccepts env standard value codeTable =
     (if standard \<noteq> CUSTOM_CODE_TABLE \<and> \<not> validStandardCode env standard value then False
      else (case codeTable of
          None \<Rightarrow> True
        | Some s \<Rightarrow> standardCodeTableContains (env_unicode env) standard s value))"

subsection \<open>A sample\<close>

text \<open>The dynamic types of a cell the code tells apart.\<close>

datatype cell = CNil | CString string | CBytes string | COther

type_synonym row = "cell list"

definition standardCodeCell :: "cell \<Rightarrow> code_error + string \<times> bool" where
  "standardCodeCell value =
     (case value of
        CNil \<Rightarrow> Inr ([], True)
      | CString s \<Rightarrow> Inr (s, False)
      | CBytes s \<Rightarrow> Inr (s, False)
      | COther \<Rightarrow> Inl NotText)"

text \<open>The state of the loop: violations, rows evaluated, rows kept as failing and as passing.\<close>

record tally =
  violations :: int
  evaluated :: int
  failing :: "row list"
  passing :: "row list"

definition keep_row :: "int \<Rightarrow> row \<Rightarrow> row list \<Rightarrow> row list" where
  "keep_row sampleLimit r rs =
     (if 0 < sampleLimit \<and> int (length rs) < sampleLimit then rs @ [r] else rs)"

fun standardCodeRows ::
    "(string \<Rightarrow> bool) \<Rightarrow> bool \<Rightarrow> nat \<Rightarrow> int \<Rightarrow> nat \<Rightarrow> row list \<Rightarrow> tally \<Rightarrow> code_error + tally" where
  "standardCodeRows accepts allowNull valueIndex sampleLimit rowIndex [] t = Inr t"
| "standardCodeRows accepts allowNull valueIndex sampleLimit rowIndex (r # rows) t =
     (if length r \<le> valueIndex then Inl (ShortRow rowIndex (length r))
      else (case standardCodeCell (r ! valueIndex) of
          Inl err \<Rightarrow> Inl err
        | Inr (value, isNull) \<Rightarrow>
            let t1 = t\<lparr>evaluated := evaluated t + 1\<rparr> in
            if (isNull \<and> allowNull) \<or> (\<not> isNull \<and> accepts value)
            then standardCodeRows accepts allowNull valueIndex sampleLimit (Suc rowIndex) rows
              (t1\<lparr>passing := keep_row sampleLimit r (passing t)\<rparr>)
            else standardCodeRows accepts allowNull valueIndex sampleLimit (Suc rowIndex) rows
              (t1\<lparr>violations := violations t + 1, failing := keep_row sampleLimit r (failing t)\<rparr>)))"

definition evaluateStandardCodeRows ::
    "code_env \<Rightarrow> QualityStandardCode \<Rightarrow> bool \<Rightarrow> nat \<Rightarrow> row list \<Rightarrow> int \<Rightarrow> string set option
      \<Rightarrow> code_error + tally" where
  "evaluateStandardCodeRows env standard allowNull valueIndex rows sampleLimit codeTable =
     standardCodeRows (\<lambda>value. standardCodeAccepts env standard value codeTable)
       allowNull valueIndex sampleLimit 0 rows
       \<lparr>violations = 0, evaluated = 0, failing = [], passing = []\<rparr>"

subsection \<open>Workspace code tables (\<open>code_table.go\<close>)\<close>

definition maxCodeTableValues :: nat where "maxCodeTableValues = 5000"
definition maxCodeTableValueBytes :: nat where "maxCodeTableValueBytes = 256"

fun codeTableLoop :: "unicode \<Rightarrow> string list \<Rightarrow> string list \<Rightarrow> code_error + string list" where
  "codeTableLoop uni [] normalized = Inr normalized"
| "codeTableLoop uni (raw # values) normalized =
     (let value = GoTrimSpace uni raw in
      if value = [] then codeTableLoop uni values normalized
      else if \<not> ValidString uni value then Inl InvalidUTF8
      else if CHR 0x00 \<in> set value then Inl NulCharacter
      else if maxCodeTableValueBytes < length value then Inl (ValueTooLong (length value))
      else codeTableLoop uni values (normalized @ [value]))"

definition NormalizeCodeTableValues :: "unicode \<Rightarrow> string list \<Rightarrow> code_error + string list" where
  "NormalizeCodeTableValues uni values =
     (case codeTableLoop uni values [] of
        Inl err \<Rightarrow> Inl err
      | Inr normalized \<Rightarrow>
          let normalized = remdups_adj (sort normalized) in
          if maxCodeTableValues < length normalized then Inl (TooManyValues (length normalized))
          else Inr normalized)"

end
