(* ===== verification/Standard_Codes_Laws.thy ===== *)
theory Standard_Codes_Laws
  imports Standard_Codes
begin

text \<open>
  What the standard-code rule guarantees: the check digits detect every single wrong character and
  every swap of neighbours, the table lookups respect the hierarchy of the tables, the sample is
  judged row by row, and a code list is stored as the sorted set of its codes.
\<close>

subsection \<open>Units and sums\<close>

definition unit_check :: "int \<Rightarrow> int \<Rightarrow> bool" where
  "unit_check m w \<longleftrightarrow> list_ex (\<lambda>u. (w * u) mod m = 1 mod m) [0..m - 1]"

lemma unit_checkD: "unit_check m w \<Longrightarrow> unit_mod m w"
  by (auto simp: unit_check_def unit_mod_def list_ex_iff)

lemma unit_checks: "list_all (unit_check m) ws \<Longrightarrow> i < length ws \<Longrightarrow> unit_mod m (ws ! i)"
  by (auto simp: list_all_length intro: unit_checkD)

fun differences :: "int list \<Rightarrow> int list" where
  "differences (x # y # ws) = (x - y) # differences (y # ws)"
| "differences _ = []"

lemma length_differences [simp]: "length (differences ws) = length ws - 1"
  by (induction ws rule: differences.induct) auto

lemma nth_differences: "Suc i < length ws \<Longrightarrow> differences ws ! i = ws ! i - ws ! Suc i"
  by (induction ws arbitrary: i rule: differences.induct) (auto simp: nth_Cons split: nat.splits)

lemma step_checks:
  "list_all (unit_check m) (differences ws) \<Longrightarrow> Suc i < length ws \<Longrightarrow> unit_mod m (ws ! i - ws ! Suc i)"
  using unit_checks [of m "differences ws" i] by (simp add: nth_differences)

lemma weighted_sum_Cons:
  "weighted_sum (w # ws) (\<lambda>_. v) (c # s) = w * v c + weighted_sum ws (\<lambda>_. v) s"
  by (simp add: weighted_sum_def sum.lessThan_Suc_shift del: sum.lessThan_Suc)

lemma weighted_sum_snoc:
  "weighted_sum (ws @ [w]) v s = weighted_sum ws v s + w * v (length ws) (s ! length ws)"
  by (simp add: weighted_sum_def nth_append)

lemma all_less_Suc: "(\<forall>i<Suc n. P i) \<longleftrightarrow> P 0 \<and> (\<forall>i<n. P (Suc i))"
  using less_Suc_eq_0_disj by auto

subsection \<open>Unified social credit codes\<close>

lemma usccSum_Some:
  "usccSum code ws acc = Some s \<Longrightarrow> length ws \<le> length code \<Longrightarrow>
   s = acc + weighted_sum ws (\<lambda>_. IndexByte usccAlphabet) code
   \<and> (\<forall>i<length ws. code ! i \<in> set usccAlphabet)"
proof (induction code ws acc rule: usccSum.induct)
  case (1 c code w ws acc)
  then show ?case
    by (auto simp: Let_def weighted_sum_Cons all_less_Suc IndexByte_neg_iff algebra_simps split: if_splits)
qed (auto simp: weighted_sum_def)

lemma usccAlphabet_distinct: "distinct usccAlphabet" "length usccAlphabet = 31"
  by (simp_all add: usccAlphabet_def)

definition uscc_accepts :: "string \<Rightarrow> bool" where
  "uscc_accepts code \<longleftrightarrow> (\<exists>uni value. code = GoToUpper uni (trim_blanks value)
     \<and> validUnifiedSocialCreditCode uni value)"

lemma uscc_acceptsD:
  assumes "uscc_accepts code"
  shows "length code = 18" "\<forall>i<18. code ! i \<in> set usccAlphabet"
    "weighted_sum (unifiedSocialCreditWeights @ [1]) (\<lambda>_. IndexByte usccAlphabet) code mod 31 = 0"
proof -
  let ?v = "\<lambda>_ :: nat. IndexByte usccAlphabet"
  obtain s where len: "length code = 18"
    and s: "usccSum code unifiedSocialCreditWeights 0 = Some s"
    and last: "code ! 17 = usccAlphabet ! nat ((31 - s mod 31) mod 31)"
    using assms by (auto simp: uscc_accepts_def validUnifiedSocialCreditCode_def Let_def
        split: if_splits option.splits)
  define k where "k = nat ((31 - s mod 31) mod 31)"
  have k: "k < length usccAlphabet" by (simp add: k_def usccAlphabet_distinct nat_less_iff)
  have n: "length unifiedSocialCreditWeights = 17" by (simp add: unifiedSocialCreditWeights_def)
  have body: "s = weighted_sum unifiedSocialCreditWeights ?v code"
    "\<forall>i<17. code ! i \<in> set usccAlphabet"
    using usccSum_Some [OF s] len n by auto
  have "IndexByte usccAlphabet (code ! 17) = int k"
    using IndexByte_distinct [OF usccAlphabet_distinct(1) k] last by (simp add: k_def)
  then have "weighted_sum (unifiedSocialCreditWeights @ [1]) ?v code = s + (31 - s mod 31) mod 31"
    by (simp add: weighted_sum_snoc n k_def flip: body(1))
  then show "weighted_sum (unifiedSocialCreditWeights @ [1]) ?v code mod 31 = 0" by presburger
  have "code ! 17 \<in> set usccAlphabet" using last k by (simp add: k_def)
  then show "\<forall>i<18. code ! i \<in> set usccAlphabet"
    using body(2) less_Suc_eq [of _ 17] by auto
  show "length code = 18" by (rule len)
qed

lemma alphabet_exact:
  assumes "c \<in> set usccAlphabet" "d \<in> set usccAlphabet"
    "IndexByte usccAlphabet c mod 31 = IndexByte usccAlphabet d mod 31"
  shows "c = d"
proof -
  have small: "IndexByte usccAlphabet e mod 31 = IndexByte usccAlphabet e" if "e \<in> set usccAlphabet" for e
    using IndexByte_neg_iff [of usccAlphabet e] IndexByte_lt [of usccAlphabet e] that
    by (simp add: usccAlphabet_distinct mod_pos_pos_trivial)
  then have "IndexByte usccAlphabet c = IndexByte usccAlphabet d" using assms by metis
  then show ?thesis using IndexByte_nth assms(1,2) by metis
qed

interpretation uscc: exact_check_digit uscc_accepts "unifiedSocialCreditWeights @ [1]"
  "\<lambda>_. IndexByte usccAlphabet" 31 0
proof (unfold_locales)
  show "unit_mod 31 ((unifiedSocialCreditWeights @ [1]) ! i)"
    if "i < length (unifiedSocialCreditWeights @ [1])" for i
    by (rule unit_checks [OF _ that]) code_simp
  show "unit_mod 31 ((unifiedSocialCreditWeights @ [1]) ! i - (unifiedSocialCreditWeights @ [1]) ! Suc i)"
    if "Suc i < length (unifiedSocialCreditWeights @ [1])" for i
    by (rule step_checks [OF _ that]) code_simp
  show "s ! i = t ! j" if "uscc_accepts s" "uscc_accepts t" "i < length s" "j < length s"
    "IndexByte usccAlphabet (s ! i) mod 31 = IndexByte usccAlphabet (t ! j) mod 31" for s t i j
    using that uscc_acceptsD by (metis alphabet_exact)
qed (simp_all add: uscc_acceptsD unifiedSocialCreditWeights_def [THEN arg_cong, of length])


text \<open>
  C28. Two different valid credit codes differ in at least two characters, and exchanging two
  neighbours of a valid code gives an invalid one, unless they are equal: every single wrong
  character and every swapped pair is caught.
\<close>

theorem credit_code_errors_detected:
  assumes "validUnifiedSocialCreditCode uni v" "validUnifiedSocialCreditCode uni w"
    "GoToUpper uni (trim_blanks v) = code" "GoToUpper uni (trim_blanks w) = code'" "code \<noteq> code'"
  shows "(\<exists>i j. i < j \<and> j < 18 \<and> code ! i \<noteq> code' ! i \<and> code ! j \<noteq> code' ! j)
    \<and> (\<forall>i<17. code' \<noteq> swap_at i code)"
proof -
  have acc: "uscc_accepts code" "uscc_accepts code'" using assms by (auto simp: uscc_accepts_def)
  show ?thesis
    using uscc.errors_detected [OF acc assms(5)] by (simp add: uscc_acceptsD(1) [OF acc(1)])
qed

theorem credit_code_errors_detected_witness:
  "''91350100M000100Y43'' \<noteq> swap_at 12 ''91110000600037341L''
   \<and> (\<exists>i j. i < j \<and> j < 18 \<and> ''91110000600037341L'' ! i \<noteq> ''91350100M000100Y43'' ! i
        \<and> ''91110000600037341L'' ! j \<noteq> ''91350100M000100Y43'' ! j)"
proof -
  let ?uni = "\<lparr>u_ToUpper = id, u_TrimSpace = id, u_Fields = \<lambda>s. [s], u_ValidString = \<lambda>_. True\<rparr>"
  have "validUnifiedSocialCreditCode ?uni ''91110000600037341l ''"
    "validUnifiedSocialCreditCode ?uni ''91350100M000100Y43''"
    "GoToUpper ?uni (trim_blanks ''91110000600037341l '') = ''91110000600037341L''"
    "GoToUpper ?uni (trim_blanks ''91350100M000100Y43'') = ''91350100M000100Y43''"
    by code_simp+
  from credit_code_errors_detected [OF this] show ?thesis by simp
qed

subsection \<open>Resident identity numbers\<close>

definition id_value :: "char \<Rightarrow> int" where
  "id_value c = (if c = CHR ''X'' then 10 else int (digit_value c))"

lemma residentSum_eq:
  "length ws \<le> length code \<Longrightarrow> all_digits (take (length ws) code) \<Longrightarrow>
   residentSum code ws acc = acc + weighted_sum ws (\<lambda>_. id_value) code"
proof (induction code ws acc rule: residentSum.induct)
  case (1 c code w ws acc)
  then have "is_digit c" by (simp add: all_digits_def)
  then have "id_value c = int (digit_value c)" by (auto simp: id_value_def is_digit_def)
  with 1 show ?case by (simp add: weighted_sum_Cons all_digits_def algebra_simps)
qed (auto simp: weighted_sum_def)

definition resident_accepts :: "string \<Rightarrow> bool" where
  "resident_accepts code \<longleftrightarrow> (\<exists>uni t today value. code = GoToUpper uni (trim_blanks value)
     \<and> validResidentIDCard uni t today value)"

lemma check_character_value:
  assumes "0 \<le> k" "k < 11"
  shows "id_value (residentIDCardCheckCharacters ! nat k) mod 11 = (1 - k) mod 11"
proof -
  have "list_all (\<lambda>k. id_value (residentIDCardCheckCharacters ! nat k) mod 11 = (1 - k) mod 11) [0..10]"
    by code_simp
  then show ?thesis using assms by (auto simp: list_all_iff)
qed

lemma complement_mod: "(x :: int) mod 11 = (1 - s mod 11) mod 11 \<Longrightarrow> (s + x) mod 11 = 1"
proof -
  assume "x mod 11 = (1 - s mod 11) mod 11"
  then have "(s + x) mod 11 = (s + (1 - s mod 11) mod 11) mod 11" by (metis mod_add_right_eq)
  also have "\<dots> = (s + (1 - s)) mod 11" by (simp add: mod_add_right_eq mod_diff_right_eq del: add_diff_eq)
  finally show ?thesis by simp
qed

lemma resident_acceptsD:
  assumes "resident_accepts code"
  shows "length code = 18" "\<forall>i<18. is_digit (code ! i) \<or> code ! i = CHR ''X''"
    "weighted_sum (residentIDCardWeights @ [1]) (\<lambda>_. id_value) code mod 11 = 1"
proof -
  let ?v = "\<lambda>_ :: nat. id_value"
  define s where "s = residentSum code residentIDCardWeights 0"
  have len: "length code = 18" and digits: "all_digits (take 17 code)"
    and kind: "is_digit (code ! 17) \<or> code ! 17 = CHR ''X''"
    and last: "code ! 17 = residentIDCardCheckCharacters ! nat (s mod 11)"
    using assms by (auto simp: resident_accepts_def validResidentIDCard_def Let_def s_def split: if_splits)
  have n: "length residentIDCardWeights = 17" by (simp add: residentIDCardWeights_def)
  have body: "s = weighted_sum residentIDCardWeights ?v code"
    using residentSum_eq [of residentIDCardWeights code 0] len digits n by (simp add: s_def)
  have "id_value (code ! 17) mod 11 = (1 - s mod 11) mod 11"
    unfolding last by (rule check_character_value) simp_all
  then have "(s + id_value (code ! 17)) mod 11 = 1" by (rule complement_mod)
  then show "weighted_sum (residentIDCardWeights @ [1]) ?v code mod 11 = 1"
    by (simp add: weighted_sum_snoc n flip: body)
  have "is_digit (code ! i)" if "i < 17" for i
    using digits len that by (auto simp: all_digits_def list_all_length)
  then show "\<forall>i<18. is_digit (code ! i) \<or> code ! i = CHR ''X''"
    using kind less_Suc_eq [of _ 17] by auto
  show "length code = 18" by (rule len)
qed

lemma id_value_exact:
  assumes "is_digit c \<or> c = CHR ''X''" "is_digit d \<or> d = CHR ''X''" "id_value c mod 11 = id_value d mod 11"
  shows "c = d"
proof -
  have small: "0 \<le> id_value e \<and> id_value e < 11 \<and> (id_value e = 10 \<longleftrightarrow> e = CHR ''X'')"
    if "is_digit e \<or> e = CHR ''X''" for e
    using that by (auto simp: id_value_def is_digit_def digit_value_def Let_def)
  then have eq: "id_value c = id_value d" using assms by (metis mod_pos_pos_trivial)
  show ?thesis
  proof (cases "c = CHR ''X'' \<or> d = CHR ''X''")
    case False
    then have "digit_value c = digit_value d" "is_digit c" "is_digit d"
      using eq assms(1,2) by (simp_all add: id_value_def)
    then have "(of_char c :: nat) = of_char d"
      unfolding digit_value_def is_digit_def Let_def by linarith
    then show ?thesis by simp
  qed (use small eq assms(1,2) in metis)
qed

interpretation resident: exact_check_digit resident_accepts "residentIDCardWeights @ [1]"
  "\<lambda>_. id_value" 11 1
proof (unfold_locales)
  show "unit_mod 11 ((residentIDCardWeights @ [1]) ! i)"
    if "i < length (residentIDCardWeights @ [1])" for i
    by (rule unit_checks [OF _ that]) code_simp
  show "unit_mod 11 ((residentIDCardWeights @ [1]) ! i - (residentIDCardWeights @ [1]) ! Suc i)"
    if "Suc i < length (residentIDCardWeights @ [1])" for i
    by (rule step_checks [OF _ that]) code_simp
  show "s ! i = t ! j" if "resident_accepts s" "resident_accepts t" "i < length s" "j < length s"
    "id_value (s ! i) mod 11 = id_value (t ! j) mod 11" for s t i j
    using that resident_acceptsD by (metis id_value_exact)
qed (simp_all add: resident_acceptsD residentIDCardWeights_def [THEN arg_cong, of length])

text \<open>
  Two different valid identity numbers differ in at least two characters, and exchanging two
  neighbours of a valid number gives an invalid one, unless they are equal. Both hold whatever the
  date and the division table are at the two checks.
\<close>

theorem resident_id_errors_detected:
  assumes "validResidentIDCard uni t today v" "validResidentIDCard uni t' today' w"
    "GoToUpper uni (trim_blanks v) = code" "GoToUpper uni (trim_blanks w) = code'" "code \<noteq> code'"
  shows "(\<exists>i j. i < j \<and> j < 18 \<and> code ! i \<noteq> code' ! i \<and> code ! j \<noteq> code' ! j)
    \<and> (\<forall>i<17. code' \<noteq> swap_at i code)"
proof -
  have acc: "resident_accepts code" "resident_accepts code'" using assms by (auto simp: resident_accepts_def)
  show ?thesis
    using resident.errors_detected [OF acc assms(5)] by (simp add: resident_acceptsD(1) [OF acc(1)])
qed

theorem resident_id_errors_detected_witness:
  "''440524188001010014'' \<noteq> swap_at 3 ''11010519491231002X''
   \<and> (\<exists>i j. i < j \<and> j < 18 \<and> ''11010519491231002X'' ! i \<noteq> ''440524188001010014'' ! i
        \<and> ''11010519491231002X'' ! j \<noteq> ''440524188001010014'' ! j)"
proof -
  let ?uni = "\<lparr>u_ToUpper = id, u_TrimSpace = id, u_Fields = \<lambda>s. [s], u_ValidString = \<lambda>_. True\<rparr>"
  let ?t = "\<lparr>divisionCodes = [''110105'', ''440524''], provincePrefixes = [''11'', ''44'']\<rparr>"
  have "validResidentIDCard ?uni ?t ''20260101'' ''11010519491231002x ''"
    "validResidentIDCard ?uni ?t ''20260101'' ''440524188001010014''"
    "GoToUpper ?uni (trim_blanks ''11010519491231002x '') = ''11010519491231002X''"
    "GoToUpper ?uni (trim_blanks ''440524188001010014'') = ''440524188001010014''"
    by code_simp+
  from resident_id_errors_detected [OF this] show ?thesis by simp
qed

subsection \<open>The tables\<close>

lemma all_digits_butlast: "all_digits s \<Longrightarrow> all_digits (butlast s)"
  by (auto simp: all_digits_def list_all_iff dest: in_set_butlastD)

text \<open>
  The division table answers for its format: a value passes exactly when the table lists it, a
  prefix is known exactly when some listed code starts with it, and no pseudo division of the source
  is listed.
\<close>

theorem division_table_sound:
  assumes "parseDivisions uni data = Inr t"
  shows "(validAdministrativeDivision t v \<longleftrightarrow> IsAdministrativeDivision t (trim_blanks v))
    \<and> (IsProvincePrefix t p \<longleftrightarrow> (\<exists>code. IsAdministrativeDivision t code \<and> take 2 code = p))
    \<and> \<not> (IsAdministrativeDivision t code \<and> isStatisticsPseudoDivision code)"
  using parseDivisions_ok [OF assms]
  by (auto simp: divisions_ok_def list_all_iff list_ex_iff validAdministrativeDivision_def Let_def
      IsAdministrativeDivision_def IsProvincePrefix_def)

lemma sectionLetter_butlast:
  "sectionLetter code = (l, numeric) \<Longrightarrow> 2 \<le> length numeric \<Longrightarrow> sectionLetter (butlast code) = (l, butlast numeric)"
  by (cases code) (auto simp: sectionLetter_def Let_def split: if_splits)

lemma parentOf_butlast: "2 < length code \<Longrightarrow> length code \<le> 4 \<Longrightarrow> parentOf code = Some (butlast code)"
proof -
  assume "2 < length code" "length code \<le> 4"
  then have "length code = 3 \<or> length code = 4" by auto
  then show ?thesis by (auto simp: parentOf_def butlast_conv_take)
qed

lemma parseIndustries_ok:
  assumes "parseIndustries uni r data = Inr t" "fair_range r"
  shows "industries_ok t"
    and "gm_get (industrySections t) code = Some sec \<Longrightarrow> parentOf code = Some parent \<Longrightarrow>
      gm_get (industrySections t) parent = Some sec"
proof -
  have ok: "industries_ok \<lparr>industrySections = [], industrySectionsSet = []\<rparr>"
    by (simp add: industries_ok_def)
  have "industryLines uni 0 (Split (CHR 0x0A) data) \<lparr>industrySections = [], industrySectionsSet = []\<rparr> = Inr t"
    and pl: "parentLoop (industrySections t) (r (industrySections t)) = None"
    using assms(1) by (auto simp: parseIndustries_def split: sum.splits if_splits option.splits)
  with ok show "industries_ok t" by (blast intro: industryLines_ok)
  assume "gm_get (industrySections t) code = Some sec" "parentOf code = Some parent"
  then show "gm_get (industrySections t) parent = Some sec"
    using pl fair_range_set [OF assms(2)] map_of_SomeD [of "industrySections t" code sec]
    by (fastforce simp: parentLoop_None)
qed

lemma industry_lookup:
  assumes "industries_ok t" "sectionLetter code = (l, numeric)" "numeric \<noteq> []"
  shows "IsIndustryClassification t code \<longleftrightarrow>
    (\<exists>sec. gm_get (industrySections t) numeric = Some sec \<and> (l = None \<or> Some (sec ! 0) = l))"
proof -
  have "code \<noteq> []" using assms(2,3) by (auto simp: sectionLetter_def)
  moreover have "2 \<le> length numeric \<and> length numeric \<le> 4 \<and> all_digits numeric"
    if "gm_get (industrySections t) numeric = Some sec" for sec
    using assms(1) map_of_SomeD [OF that] by (fastforce simp: industries_ok_def list_all_iff)
  ultimately show ?thesis
    using assms(2,3) by (force simp: IsIndustryClassification_def split: option.splits)
qed

text \<open>
  The industry table is a hierarchy: with a code its parent is accepted under the same section
  letter, and so is the bare number, up to the two-digit division.
\<close>

theorem industry_codes_nested:
  assumes "parseIndustries uni r data = Inr t" "fair_range r"
    "IsIndustryClassification t code" "sectionLetter code = (l, numeric)" "2 < length numeric"
  shows "IsIndustryClassification t (butlast code) \<and> IsIndustryClassification t numeric"
proof (rule conjI)
  note ok = parseIndustries_ok(1) [OF assms(1,2)]
  have ne: "numeric \<noteq> []" using assms(5) by auto
  obtain sec where sec: "gm_get (industrySections t) numeric = Some sec" "l = None \<or> Some (sec ! 0) = l"
    using assms(3) industry_lookup [OF ok assms(4) ne] by blast
  have num: "length numeric \<le> 4" "all_digits numeric"
    using ok map_of_SomeD [OF sec(1)] by (fastforce simp: industries_ok_def list_all_iff)+
  have "gm_get (industrySections t) (butlast numeric) = Some sec"
    using parseIndustries_ok(2) [OF assms(1,2) sec(1)] parentOf_butlast assms(5) num(1) by blast
  moreover have "butlast numeric \<noteq> []" using assms(5) by (cases numeric) auto
  ultimately show "IsIndustryClassification t (butlast code)"
    using industry_lookup [OF ok sectionLetter_butlast [OF assms(4)]] sec(2) assms(5) by auto
  have "sectionLetter numeric = (None, numeric)"
    using num(2) ne by (cases numeric) (auto simp: sectionLetter_def all_digits_def is_digit_def Let_def)
  then show "IsIndustryClassification t numeric"
    using industry_lookup [OF ok _ ne] sec(1) by blast
qed

theorem industry_codes_nested_witness:
  "\<exists>t. IsIndustryClassification t ''a011'' \<and> IsIndustryClassification t ''0111''"
proof -
  let ?uni = "\<lparr>u_ToUpper = id, u_TrimSpace = id, u_Fields = \<lambda>s. [s], u_ValidString = \<lambda>_. True\<rparr>"
  let ?data = "''# c'' @ [CHR 0x0A] @ ''A 01'' @ [CHR 0x0A] @ ''A 011'' @ [CHR 0x0A] @ ''A 0111 ''"
  obtain t where t: "parseIndustries ?uni id ?data = Inr t" "IsIndustryClassification t ''a0111''"
    "sectionLetter ''a0111'' = (Some (CHR ''A''), ''0111'')"
  proof -
    have "parseIndustries ?uni id ?data = Inr
        \<lparr>industrySections = [(''01'', ''A''), (''011'', ''A''), (''0111'', ''A'')], industrySectionsSet = [CHR ''A'']\<rparr>"
      "IsIndustryClassification \<lparr>industrySections = [(''01'', ''A''), (''011'', ''A''), (''0111'', ''A'')],
         industrySectionsSet = [CHR ''A'']\<rparr> ''a0111''"
      "sectionLetter ''a0111'' = (Some (CHR ''A''), ''0111'')"
      by code_simp+
    then show thesis by (rule that)
  qed
  from industry_codes_nested [OF t(1) fair_range_id t(2,3)] show ?thesis by auto
qed

theorem division_table_sound_witness:
  "\<exists>t. validAdministrativeDivision t ''110101 '' \<and> IsProvincePrefix t ''11''
    \<and> \<not> IsAdministrativeDivision t ''320571''"
proof -
  let ?uni = "\<lparr>u_ToUpper = id, u_TrimSpace = id, u_Fields = \<lambda>s. [s], u_ValidString = \<lambda>_. True\<rparr>"
  let ?data = "''110101'' @ [CHR 0x0A] @ ''320571''"
  let ?t = "\<lparr>divisionCodes = [''110101''], provincePrefixes = [''11'']\<rparr>"
  have t: "parseDivisions ?uni ?data = Inr ?t" "IsAdministrativeDivision ?t (trim_blanks ''110101 '')"
    "isStatisticsPseudoDivision ''320571''" "take 2 (trim_blanks ''110101 '') = ''11''"
    by code_simp+
  from division_table_sound [OF t(1), of "''110101 ''" "''11''" "''320571''"] t(2-4)
  show ?thesis by blast
qed

subsection \<open>The sample\<close>

text \<open>The verdict on one row, and the rows that can be judged at all.\<close>

definition row_text :: "nat \<Rightarrow> row \<Rightarrow> bool" where
  "row_text i r \<longleftrightarrow> i < length r \<and> r ! i \<noteq> COther"

definition row_passes :: "(string \<Rightarrow> bool) \<Rightarrow> bool \<Rightarrow> nat \<Rightarrow> row \<Rightarrow> bool" where
  "row_passes accepts allowNull i r \<longleftrightarrow>
     (case r ! i of CNil \<Rightarrow> allowNull | CString v \<Rightarrow> accepts v | CBytes v \<Rightarrow> accepts v | COther \<Rightarrow> False)"

lemma keep_row_take:
  "keep_row limit r (take (nat limit) rs) = take (nat limit) (rs @ [r])"
proof (cases "int (length rs) < limit")
  case False
  then have "nat limit \<le> length rs" by simp
  then show ?thesis using False by (simp add: keep_row_def)
qed (simp add: keep_row_def)

lemma standardCodeRows_step:
  assumes "row_text i r"
  shows "standardCodeRows accepts allowNull i limit n (r # rows) t =
    standardCodeRows accepts allowNull i limit (Suc n) rows
      (if row_passes accepts allowNull i r
       then t\<lparr>evaluated := evaluated t + 1, passing := keep_row limit r (passing t)\<rparr>
       else t\<lparr>evaluated := evaluated t + 1, violations := violations t + 1,
          failing := keep_row limit r (failing t)\<rparr>)"
  using assms
  by (auto simp: row_text_def row_passes_def standardCodeCell_def Let_def split: cell.splits)

lemma standardCodeRows_spec:
  fixes ok :: "row \<Rightarrow> bool"
  assumes "\<forall>r\<in>set rows. row_text i r" and ok: "ok = row_passes accepts allowNull i"
  shows "standardCodeRows accepts allowNull i limit n rows
      \<lparr>violations = int (length (filter (Not \<circ> ok) rs)), evaluated = int (length rs),
       failing = take (nat limit) (filter (Not \<circ> ok) rs), passing = take (nat limit) (filter ok rs)\<rparr> =
    Inr \<lparr>violations = int (length (filter (Not \<circ> ok) (rs @ rows))), evaluated = int (length (rs @ rows)),
       failing = take (nat limit) (filter (Not \<circ> ok) (rs @ rows)),
       passing = take (nat limit) (filter ok (rs @ rows))\<rparr>"
  using assms(1)
proof (induction rows arbitrary: n rs)
  case (Cons r rows)
  show ?case
    using Cons.prems Cons.IH [of "Suc n" "rs @ [r]"]
    by (cases "ok r") (simp_all add: standardCodeRows_step keep_row_take ok [symmetric] add.commute
        del: take_append standardCodeRows.simps)
qed simp

lemma standardCodeRows_error:
  "\<not> (\<forall>r\<in>set rows. row_text i r) \<Longrightarrow> \<exists>err. standardCodeRows accepts allowNull i limit n rows t = Inl err"
proof (induction rows arbitrary: n t)
  case (Cons r rows)
  show ?case
  proof (cases "row_text i r")
    case True
    then show ?thesis using Cons by (simp add: standardCodeRows_step del: standardCodeRows.simps)
  qed (auto simp: row_text_def standardCodeCell_def)
qed simp

text \<open>
  A sample is judged as a whole or not at all: a row without a text cell makes it an error;
  otherwise every row is counted, the violations are the rows that fail, and the failing and passing
  rows kept as evidence are the first ones of each kind, up to the limit.
\<close>

theorem standard_code_sample:
  fixes ok :: "row \<Rightarrow> bool"
  assumes "ok = row_passes (\<lambda>v. standardCodeAccepts env standard v codeTable) allowNull i"
  shows "(if \<forall>r\<in>set rows. row_text i r
      then evaluateStandardCodeRows env standard allowNull i rows limit codeTable =
        Inr \<lparr>violations = int (length (filter (Not \<circ> ok) rows)), evaluated = int (length rows),
          failing = take (nat limit) (filter (Not \<circ> ok) rows),
          passing = take (nat limit) (filter ok rows)\<rparr>
      else \<exists>err. evaluateStandardCodeRows env standard allowNull i rows limit codeTable = Inl err)"
proof (cases "\<forall>r\<in>set rows. row_text i r")
  case True
  then show ?thesis
    using standardCodeRows_spec [OF True assms, of limit 0 "[]"]
    by (simp add: evaluateStandardCodeRows_def)
next
  case False
  then show ?thesis
    unfolding if_not_P [OF False] evaluateStandardCodeRows_def using standardCodeRows_error [OF False] by blast
qed

theorem standard_code_sample_witness:
  "\<exists>ok. ok = row_passes (\<lambda>v. v = ''A'') False 0
    \<and> (\<forall>env. evaluateStandardCodeRows env CUSTOM_CODE_TABLE False 0
          [[CString ''A ''], [CNil], [CBytes ''B''], [CString ''B'', CNil]] 2 (Some {''A''})
        = Inr \<lparr>violations = 3, evaluated = 4, failing = [[CNil], [CBytes ''B'']], passing = [[CString ''A '']]\<rparr>)"
proof -
  have "evaluateStandardCodeRows env CUSTOM_CODE_TABLE False 0
      [[CString ''A ''], [CNil], [CBytes ''B''], [CString ''B'', CNil]] 2 (Some {''A''})
    = Inr \<lparr>violations = 3, evaluated = 4, failing = [[CNil], [CBytes ''B'']], passing = [[CString ''A '']]\<rparr>" for env
    using standard_code_sample [OF refl, of "[[CString ''A ''], [CNil], [CBytes ''B''], [CString ''B'', CNil]]"
        0 env CUSTOM_CODE_TABLE False 2 "Some {''A''}"]
    by (simp add: row_text_def row_passes_def standardCodeAccepts_def standardCodeTableContains_def TrimRight_def)
  then show ?thesis by blast
qed

subsection \<open>Workspace code tables\<close>

definition storable :: "unicode \<Rightarrow> string \<Rightarrow> bool" where
  "storable uni v \<longleftrightarrow> v = [] \<or> ValidString uni v \<and> CHR 0x00 \<notin> set v \<and> length v \<le> maxCodeTableValueBytes"

lemma codeTableLoop_Inr:
  "codeTableLoop uni vs acc = Inr l \<longleftrightarrow>
     (\<forall>v\<in>set vs. storable uni (GoTrimSpace uni v)) \<and> l = acc @ filter (\<lambda>v. v \<noteq> []) (map (GoTrimSpace uni) vs)"
proof (induction vs arbitrary: acc)
  case (Cons v vs)
  then show ?case by (auto simp: Let_def storable_def)
qed auto

lemma distinct_remdups_adj_sorted: "sorted xs \<Longrightarrow> distinct (remdups_adj xs)"
  by (induction xs rule: remdups_adj.induct) auto

lemma NormalizeCodeTableValues_Inr:
  "NormalizeCodeTableValues uni values = Inr l \<longleftrightarrow>
     (\<forall>v\<in>set values. storable uni (GoTrimSpace uni v))
     \<and> l = sorted_list_of_set (GoTrimSpace uni ` set values - {[]}) \<and> length l \<le> maxCodeTableValues"
proof -
  have norm: "remdups_adj (sort xs) = sorted_list_of_set (set xs)" for xs :: "string list"
    using sorted_list_of_set.idem_if_sorted_distinct [of "remdups_adj (sort xs)"]
    by (simp add: distinct_remdups_adj_sorted)
  define xs where "xs = filter (\<lambda>v. v \<noteq> []) (map (GoTrimSpace uni) values)"
  have xs: "remdups_adj (sort xs) = sorted_list_of_set (GoTrimSpace uni ` set values - {[]})"
    unfolding norm by (rule arg_cong [of _ _ sorted_list_of_set]) (auto simp: xs_def)
  note loop = codeTableLoop_Inr [of uni "values" "[]", unfolded append_Nil, folded xs_def]
  show ?thesis
  proof (cases "\<forall>v\<in>set values. storable uni (GoTrimSpace uni v)")
    case True
    then have "codeTableLoop uni values [] = Inr xs" using loop by blast
    then show ?thesis using True by (auto simp: NormalizeCodeTableValues_def Let_def xs)
  next
    case False
    then obtain err where "codeTableLoop uni values [] = Inl err"
      using loop by (cases "codeTableLoop uni values []") auto
    then show ?thesis using False by (simp add: NormalizeCodeTableValues_def)
  qed
qed

lemma ascii_TrimSpace: "ascii s \<Longrightarrow> ascii (TrimSpace s)"
  unfolding TrimSpace_def TrimLeft_def
  by (intro ascii_TrimRight) (auto elim!: ascii_subset dest: set_dropWhileD)

lemma TrimSpace_idem [simp]: "TrimSpace (TrimSpace s) = TrimSpace s"
proof -
  have "dropWhile is_space (rev (dropWhile is_space (rev t))) = rev (dropWhile is_space (rev t))"
    if "t = [] \<or> \<not> is_space (hd t)" for t
    using that by (cases t) (auto simp: dropWhile_append3 dropWhile_eq_self_iff hd_append
        dest: set_dropWhileD split: if_splits)
  moreover have "dropWhile is_space s = [] \<or> \<not> is_space (hd (dropWhile is_space s))"
    using hd_dropWhile by blast
  ultimately show ?thesis
    by (simp add: TrimSpace_def TrimLeft_def TrimRight_def)
qed

definition trims_once :: "unicode \<Rightarrow> bool" where
  "trims_once uni \<longleftrightarrow> (\<forall>s. GoTrimSpace uni (GoTrimSpace uni s) = GoTrimSpace uni s)"

text \<open>
  A code list is stored as the ascending list of its trimmed, non-empty, distinct codes, exactly
  when every code can be stored and at most the maximum of different codes remain; order and
  repetition of the import do not matter, and a stored list is stored unchanged again.
\<close>

theorem code_list_canonical:
  assumes "trims_once uni"
  shows "(NormalizeCodeTableValues uni values = Inr l \<longleftrightarrow>
      (\<forall>v\<in>set values. storable uni (GoTrimSpace uni v))
      \<and> l = sorted_list_of_set (GoTrimSpace uni ` set values - {[]}) \<and> length l \<le> maxCodeTableValues)
    \<and> (NormalizeCodeTableValues uni values = Inr l \<longrightarrow> NormalizeCodeTableValues uni l = Inr l)"
proof (intro conjI impI)
  show "NormalizeCodeTableValues uni values = Inr l \<longleftrightarrow>
      (\<forall>v\<in>set values. storable uni (GoTrimSpace uni v))
      \<and> l = sorted_list_of_set (GoTrimSpace uni ` set values - {[]}) \<and> length l \<le> maxCodeTableValues"
    by (rule NormalizeCodeTableValues_Inr)
  assume "NormalizeCodeTableValues uni values = Inr l"
  then have l: "\<forall>v\<in>set values. storable uni (GoTrimSpace uni v)" "length l \<le> maxCodeTableValues"
    "l = sorted_list_of_set (GoTrimSpace uni ` set values - {[]})"
    unfolding NormalizeCodeTableValues_Inr by blast+
  have set_l: "set l = GoTrimSpace uni ` set values - {[]}" by (simp add: l(3))
  then have "GoTrimSpace uni v = v" "v \<noteq> []" "storable uni v" if "v \<in> set l" for v
    using that assms l(1) by (auto simp: trims_once_def)
  then have "GoTrimSpace uni ` set l - {[]} = set l" "\<forall>v\<in>set l. storable uni (GoTrimSpace uni v)"
    by force+
  then show "NormalizeCodeTableValues uni l = Inr l"
    using l(2,3) set_l by (simp add: NormalizeCodeTableValues_Inr)
qed

theorem code_list_canonical_witness:
  "\<exists>uni. NormalizeCodeTableValues uni ['' b'', ''a'', ''b '', []] = Inr [''a'', ''b'']
    \<and> NormalizeCodeTableValues uni [''a'', ''b''] = Inr [''a'', ''b'']"
proof -
  let ?uni = "\<lparr>u_ToUpper = id, u_TrimSpace = id, u_Fields = \<lambda>s. [s], u_ValidString = \<lambda>_. True\<rparr>"
  have "trims_once ?uni"
    by (auto simp: trims_once_def GoTrimSpace_def dest: ascii_TrimSpace)
  moreover have "NormalizeCodeTableValues ?uni ['' b'', ''a'', ''b '', []] = Inr [''a'', ''b'']"
    by code_simp
  ultimately show ?thesis using code_list_canonical [of ?uni "['' b'', ''a'', ''b '', []]" "[''a'', ''b'']"] by blast
qed

end
