(* ===== verification/Quality_Verdict.thy ===== *)
theory Quality_Verdict
  imports Go_Prelude Go_Float
begin

text \<open>
  How an observation is judged: the data of \<open>backend/component/dataquality/model.go\<close>, the defaults of
  \<open>config.go\<close>, the judgments of \<open>evaluate.go\<close> and \<open>segment_check.go\<close>, and the columns of the catalog
  \<open>rule_type_spec.go\<close> that select them. The judgments compute in \<open>float64\<close>.
\<close>

subsection \<open>Rule types, statuses and configurations\<close>

datatype QualityRuleType =
    RULE_TYPE_UNSPECIFIED | ROW_COUNT | ROW_COUNT_CHANGE | NULL_PERCENT | UNIQUE | UNIQUE_COMBINATION
  | ACCEPTED_VALUES | RANGE | REGEX | STRING_LENGTH | REFERENTIAL_INTEGRITY | CROSS_COLUMN
  | FRESHNESS | CUSTOM_SQL | CEL_EXPRESSION | SCHEMA_DRIFT | GROUP_CHECK | AGGREGATE_RULE | CROSS_TABLE
  | STANDARD_CODE | SEGMENT_CHECK | OTHER_RULE_TYPE nat

datatype QualityStatus =
    STATUS_UNSPECIFIED | PASS | WARN | FAIL | ERROR | SKIPPED | NOT_EVALUATED | OTHER_STATUS nat

datatype QualityEmptyBehavior =
    EMPTY_UNSPECIFIED | EMPTY_PASS | EMPTY_FAIL | EMPTY_NOT_EVALUATED | OTHER_EMPTY nat

datatype QualityComparison =
    COMPARISON_UNSPECIFIED | GREATER_THAN | LESS_THAN | OUTSIDE_RANGE | INSIDE_RANGE | OTHER_COMPARISON nat

datatype QualityThresholdMetric = METRIC_UNSPECIFIED | COUNT | PERCENT | OTHER_METRIC nat

record RowCountConfig =
  MinRows :: "int option"
  MaxRows :: "int option"
  ExactRows :: "int option"
  WarnMinRows :: "int option"
  WarnMaxRows :: "int option"

record RowCountChangeConfig =
  MaxIncreasePct :: "float64 option"
  MaxDecreasePct :: "float64 option"
  WarnIncreasePct :: "float64 option"
  WarnDecreasePct :: "float64 option"

record NullPercentConfig =
  MaxNullCount :: "int option"
  WarnNullCount :: "int option"
  MaxNullPct :: "float64 option"
  WarnNullPct :: "float64 option"

record FreshnessConfig =
  MaxLagSeconds :: int
  WarnLagSeconds :: "int option"

record AggregateConfig =
  agg_Min :: "float64 option"
  agg_Max :: "float64 option"
  agg_WarnMin :: "float64 option"
  agg_WarnMax :: "float64 option"
  Inclusive :: bool

record CrossTableConfig =
  Tolerance :: "float64 option"
  ct_FailThreshold :: "float64 option"
  ct_WarnThreshold :: "float64 option"

record SegmentCheckConfig =
  cfg_BaselineRuns :: int
  cfg_MinOccurrences :: int
  sc_FailThreshold :: "float64 option"
  sc_WarnThreshold :: "float64 option"

text \<open>
  The oneof of a configuration. The arms of the rules that count failed rows differ only in what the
  compiler reads, so one constructor names the type and carries the two thresholds.
\<close>

datatype rule_arm =
    NoArm
  | RowCountArm RowCountConfig
  | RowCountChangeArm RowCountChangeConfig
  | NullPercentArm NullPercentConfig
  | FreshnessArm FreshnessConfig
  | AggregateArm AggregateConfig
  | CrossTableArm CrossTableConfig
  | SegmentCheckArm SegmentCheckConfig
  | CountArm QualityRuleType "float64 option" "float64 option"

record QualityRuleConfig =
  Arm :: rule_arm
  cfg_OnEmpty :: QualityEmptyBehavior
  cfg_ThresholdMetric :: QualityThresholdMetric

record Observation =
  Observed :: float64
  FailedRows :: int
  TotalRows :: int
  ObservedNull :: bool
  MaxTimestamp :: "time option"
  Baseline :: "float64 option"

record QualityThresholds =
  Comparison :: QualityComparison
  OnEmpty :: QualityEmptyBehavior
  FailValue :: "float64 option"
  FailValueUpper :: "float64 option"
  WarnValue :: "float64 option"
  WarnValueUpper :: "float64 option"

record ResultState =
  Status :: QualityStatus
  Thresholds :: "QualityThresholds option"

text \<open>The literals of the code: fields that are not set have Go's zero value.\<close>

abbreviation status_only :: "QualityStatus \<Rightarrow> ResultState" where
  "status_only s \<equiv> \<lparr>Status = s, Thresholds = None\<rparr>"

abbreviation greater_than :: "QualityEmptyBehavior \<Rightarrow> QualityThresholds" where
  "greater_than onEmpty \<equiv> \<lparr>Comparison = GREATER_THAN, OnEmpty = onEmpty, FailValue = None,
     FailValueUpper = None, WarnValue = None, WarnValueUpper = None\<rparr>"

abbreviation outside_range :: "QualityEmptyBehavior \<Rightarrow> QualityThresholds" where
  "outside_range onEmpty \<equiv> \<lparr>Comparison = OUTSIDE_RANGE, OnEmpty = onEmpty, FailValue = None,
     FailValueUpper = None, WarnValue = None, WarnValueUpper = None\<rparr>"

subsection \<open>Shared parts of the judgments\<close>

definition emptyBehavior :: "QualityRuleConfig \<Rightarrow> QualityEmptyBehavior" where
  "emptyBehavior config =
     (if cfg_OnEmpty config = EMPTY_UNSPECIFIED then EMPTY_NOT_EVALUATED else cfg_OnEmpty config)"

definition thresholdMetric :: "QualityRuleConfig \<Rightarrow> QualityThresholdMetric" where
  "thresholdMetric config = (if cfg_ThresholdMetric config = PERCENT then PERCENT else COUNT)"

definition emptyStatus :: "QualityEmptyBehavior \<Rightarrow> QualityStatus \<Rightarrow> QualityStatus" where
  "emptyStatus onEmpty fallback =
     (case onEmpty of
        EMPTY_PASS \<Rightarrow> PASS
      | EMPTY_FAIL \<Rightarrow> FAIL
      | EMPTY_NOT_EVALUATED \<Rightarrow> NOT_EVALUATED
      | _ \<Rightarrow> fallback)"

definition float64Ptr :: "float64 \<Rightarrow> float64 option" where
  "float64Ptr v = (if v = NaN then None else Some v)"

definition int64Threshold :: "int option \<Rightarrow> float64 option" where
  "int64Threshold v = (case v of None \<Rightarrow> None | Some n \<Rightarrow> float64Ptr (f_of_int n))"

definition copyOptionalFloat :: "float64 option \<Rightarrow> float64 option" where
  "copyOptionalFloat v = v"

text \<open>A comparison with a bound that may be unset.\<close>

definition above :: "float64 \<Rightarrow> float64 option \<Rightarrow> bool" where
  "above v bound = (case bound of None \<Rightarrow> False | Some b \<Rightarrow> f_less b v)"

definition below :: "float64 \<Rightarrow> float64 option \<Rightarrow> bool" where
  "below v bound = (case bound of None \<Rightarrow> False | Some b \<Rightarrow> f_less v b)"

definition violates :: "float64 \<Rightarrow> float64 option \<Rightarrow> float64 option \<Rightarrow> QualityComparison \<Rightarrow> bool" where
  "violates v lower upper comparison =
     (case comparison of
        GREATER_THAN \<Rightarrow> above v lower
      | LESS_THAN \<Rightarrow> below v lower
      | OUTSIDE_RANGE \<Rightarrow> below v lower \<or> above v upper
      | INSIDE_RANGE \<Rightarrow>
          (case (lower, upper) of
             (Some l, Some u) \<Rightarrow> f_le l v \<and> f_le v u
           | (Some l, None) \<Rightarrow> f_less v l
           | (None, _) \<Rightarrow> above v upper)
      | _ \<Rightarrow> False)"

definition applyThresholds :: "float64 \<Rightarrow> QualityThresholds \<Rightarrow> ResultState" where
  "applyThresholds observed t =
     (if violates observed (FailValue t) (FailValueUpper t) (Comparison t) then \<lparr>Status = FAIL, Thresholds = Some t\<rparr>
      else if violates observed (WarnValue t) (WarnValueUpper t) (Comparison t)
      then \<lparr>Status = WARN, Thresholds = Some t\<rparr>
      else \<lparr>Status = PASS, Thresholds = Some t\<rparr>)"

definition percentage :: "int \<Rightarrow> int \<Rightarrow> float64" where
  "percentage failed tot = f_mul (f_div (f_of_int failed) (f_of_int tot)) (Fin 100)"

subsection \<open>Row counts\<close>

definition below_int :: "float64 \<Rightarrow> int option \<Rightarrow> bool" where
  "below_int v bound = below v (map_option f_of_int bound)"

definition above_int :: "float64 \<Rightarrow> int option \<Rightarrow> bool" where
  "above_int v bound = above v (map_option f_of_int bound)"

definition outOfBounds :: "float64 \<Rightarrow> int option \<Rightarrow> int option \<Rightarrow> int option \<Rightarrow> bool" where
  "outOfBounds v minValue maxValue exact =
     (case exact of
        Some e \<Rightarrow> \<not> f_eq v (f_of_int e)
      | None \<Rightarrow> below_int v minValue \<or> above_int v maxValue)"

definition warnOutOfBounds :: "float64 \<Rightarrow> int option \<Rightarrow> int option \<Rightarrow> bool" where
  "warnOutOfBounds v warnMin warnMax \<longleftrightarrow> below_int v warnMin \<or> above_int v warnMax"

definition evaluateRowCount ::
    "QualityRuleConfig \<Rightarrow> Observation \<Rightarrow> QualityEmptyBehavior \<Rightarrow> ResultState" where
  "evaluateRowCount config obs onEmpty =
     (case Arm config of
        RowCountArm rowCount \<Rightarrow>
          let observed = (if \<not> f_eq (Observed obs) (Fin 0) then Observed obs else f_of_int (TotalRows obs));
              t = (outside_range onEmpty)\<lparr>
                FailValue := int64Threshold (MinRows rowCount), FailValueUpper := int64Threshold (MaxRows rowCount),
                WarnValue := int64Threshold (WarnMinRows rowCount),
                WarnValueUpper := int64Threshold (WarnMaxRows rowCount)\<rparr>;
              t = (if ExactRows rowCount \<noteq> None then t\<lparr>FailValue := int64Threshold (ExactRows rowCount)\<rparr> else t)
          in if outOfBounds observed (MinRows rowCount) (MaxRows rowCount) (ExactRows rowCount)
             then \<lparr>Status = FAIL, Thresholds = Some t\<rparr>
             else if warnOutOfBounds observed (WarnMinRows rowCount) (WarnMaxRows rowCount)
             then \<lparr>Status = WARN, Thresholds = Some t\<rparr>
             else \<lparr>Status = PASS, Thresholds = Some t\<rparr>
      | _ \<Rightarrow> status_only ERROR)"

definition evaluateRowCountChange ::
    "QualityRuleConfig \<Rightarrow> Observation \<Rightarrow> QualityEmptyBehavior \<Rightarrow> ResultState" where
  "evaluateRowCountChange config obs onEmpty =
     (case Arm config of
        RowCountChangeArm change \<Rightarrow>
          let t = (greater_than onEmpty)\<lparr>FailValue := MaxIncreasePct change, WarnValue := WarnIncreasePct change\<rparr>
          in (case Baseline obs of
              None \<Rightarrow> \<lparr>Status = emptyStatus onEmpty NOT_EVALUATED, Thresholds = Some t\<rparr>
            | Some baseline \<Rightarrow>
                if f_eq baseline (Fin 0)
                then \<lparr>Status = emptyStatus onEmpty NOT_EVALUATED, Thresholds = Some t\<rparr>
                else
                  let percent = f_mul (f_div (f_sub (f_of_int (TotalRows obs)) baseline) baseline) (Fin 100);
                      t = t\<lparr>FailValueUpper := MaxDecreasePct change, WarnValueUpper := WarnDecreasePct change\<rparr>
                  in if above percent (MaxIncreasePct change) \<or> above (f_neg percent) (MaxDecreasePct change)
                     then \<lparr>Status = FAIL, Thresholds = Some t\<rparr>
                     else if above percent (WarnIncreasePct change) \<or> above (f_neg percent) (WarnDecreasePct change)
                     then \<lparr>Status = WARN, Thresholds = Some t\<rparr>
                     else \<lparr>Status = PASS, Thresholds = Some t\<rparr>)
      | _ \<Rightarrow> status_only ERROR)"

subsection \<open>Nulls, counts and lags\<close>

definition evaluateNullPercent ::
    "QualityRuleConfig \<Rightarrow> Observation \<Rightarrow> QualityEmptyBehavior \<Rightarrow> ResultState" where
  "evaluateNullPercent config obs onEmpty =
     (case Arm config of
        NullPercentArm nullPercent \<Rightarrow>
          if TotalRows obs = 0 then status_only (emptyStatus onEmpty NOT_EVALUATED)
          else (case (MaxNullCount nullPercent, MaxNullPct nullPercent) of
              (Some m, _) \<Rightarrow>
                applyThresholds (f_of_int (FailedRows obs))
                  ((greater_than onEmpty)\<lparr>FailValue := float64Ptr (f_of_int m),
                     WarnValue := int64Threshold (WarnNullCount nullPercent)\<rparr>)
            | (None, Some p) \<Rightarrow>
                applyThresholds (percentage (FailedRows obs) (TotalRows obs))
                  ((greater_than onEmpty)\<lparr>FailValue := float64Ptr p,
                     WarnValue := Option.bind (WarnNullPct nullPercent) float64Ptr\<rparr>)
            | (None, None) \<Rightarrow> status_only ERROR)
      | _ \<Rightarrow> status_only ERROR)"

definition evaluateCount ::
    "QualityRuleConfig \<Rightarrow> float64 option \<Rightarrow> float64 option \<Rightarrow> Observation \<Rightarrow> QualityEmptyBehavior \<Rightarrow> bool
      \<Rightarrow> ResultState" where
  "evaluateCount config failThreshold warnThreshold obs onEmpty hasTotal =
     (if hasTotal \<and> TotalRows obs = 0 \<and> FailedRows obs = 0 then status_only (emptyStatus onEmpty PASS)
      else if thresholdMetric config = PERCENT \<and> TotalRows obs = 0
      then \<lparr>Status = emptyStatus onEmpty PASS, Thresholds = Some (greater_than onEmpty)\<rparr>
      else
        let observed = (if thresholdMetric config = PERCENT then percentage (FailedRows obs) (TotalRows obs)
              else f_of_int (FailedRows obs));
            failValue = (case failThreshold of None \<Rightarrow> Fin 0 | Some f \<Rightarrow> f)
        in applyThresholds observed
             ((greater_than onEmpty)\<lparr>FailValue := float64Ptr failValue, WarnValue := warnThreshold\<rparr>))"

definition evaluateFreshness ::
    "QualityRuleConfig \<Rightarrow> Observation \<Rightarrow> QualityEmptyBehavior \<Rightarrow> ResultState" where
  "evaluateFreshness config obs onEmpty =
     (case Arm config of
        FreshnessArm freshness \<Rightarrow>
          let t = (greater_than onEmpty)\<lparr>FailValue := float64Ptr (f_of_int (MaxLagSeconds freshness)),
                WarnValue := int64Threshold (WarnLagSeconds freshness)\<rparr>
          in if MaxTimestamp obs = None
             then \<lparr>Status = emptyStatus onEmpty NOT_EVALUATED, Thresholds = Some t\<rparr>
             else applyThresholds (Observed obs) t
      | _ \<Rightarrow> status_only ERROR)"

subsection \<open>Aggregates and reconciliations\<close>

text \<open>A value violates one bound of an interval that is open unless the configuration says inclusive.\<close>

definition past_lower :: "bool \<Rightarrow> float64 \<Rightarrow> float64 option \<Rightarrow> bool" where
  "past_lower inclusive v bound =
     (case bound of None \<Rightarrow> False | Some b \<Rightarrow> if inclusive then f_less v b else f_le v b)"

definition past_upper :: "bool \<Rightarrow> float64 \<Rightarrow> float64 option \<Rightarrow> bool" where
  "past_upper inclusive v bound =
     (case bound of None \<Rightarrow> False | Some b \<Rightarrow> if inclusive then f_less b v else f_le b v)"

definition aggregateOutsideBounds :: "float64 \<Rightarrow> AggregateConfig \<Rightarrow> bool" where
  "aggregateOutsideBounds v config \<longleftrightarrow>
     past_lower (Inclusive config) v (agg_Min config) \<or> past_upper (Inclusive config) v (agg_Max config)"

definition aggregateWarnOutsideBounds :: "float64 \<Rightarrow> AggregateConfig \<Rightarrow> bool" where
  "aggregateWarnOutsideBounds v config \<longleftrightarrow>
     past_lower (Inclusive config) v (agg_WarnMin config) \<or> past_upper (Inclusive config) v (agg_WarnMax config)"

definition evaluateAggregate ::
    "QualityRuleConfig \<Rightarrow> Observation \<Rightarrow> QualityEmptyBehavior \<Rightarrow> ResultState" where
  "evaluateAggregate config obs onEmpty =
     (case Arm config of
        AggregateArm aggregate \<Rightarrow>
          let t = (outside_range onEmpty)\<lparr>FailValue := agg_Min aggregate, FailValueUpper := agg_Max aggregate,
                WarnValue := agg_WarnMin aggregate, WarnValueUpper := agg_WarnMax aggregate\<rparr>
          in if ObservedNull obs then \<lparr>Status = emptyStatus onEmpty NOT_EVALUATED, Thresholds = Some t\<rparr>
             else if aggregateOutsideBounds (Observed obs) aggregate then \<lparr>Status = FAIL, Thresholds = Some t\<rparr>
             else if aggregateWarnOutsideBounds (Observed obs) aggregate then \<lparr>Status = WARN, Thresholds = Some t\<rparr>
             else \<lparr>Status = PASS, Thresholds = Some t\<rparr>
      | _ \<Rightarrow> status_only ERROR)"

definition evaluateCrossTable ::
    "QualityRuleConfig \<Rightarrow> Observation \<Rightarrow> QualityEmptyBehavior \<Rightarrow> ResultState" where
  "evaluateCrossTable config obs onEmpty =
     (case Arm config of
        CrossTableArm cross \<Rightarrow>
          let tolerance = (case Tolerance cross of None \<Rightarrow> Fin 0 | Some v \<Rightarrow> v);
              failThreshold = (case ct_FailThreshold cross of None \<Rightarrow> Fin 0 | Some v \<Rightarrow> v);
              t = (greater_than onEmpty)\<lparr>FailValue := float64Ptr failThreshold,
                WarnValue := copyOptionalFloat (ct_WarnThreshold cross)\<rparr>
          in if ObservedNull obs then \<lparr>Status = emptyStatus onEmpty NOT_EVALUATED, Thresholds = Some t\<rparr>
             else
               let excess = f_sub (f_abs (Observed obs)) tolerance;
                   excess = (if f_less excess (Fin 0) then Fin 0 else excess)
               in applyThresholds excess t
      | _ \<Rightarrow> status_only ERROR)"

definition evaluateSegmentCheck ::
    "QualityRuleConfig \<Rightarrow> Observation \<Rightarrow> QualityEmptyBehavior \<Rightarrow> ResultState" where
  "evaluateSegmentCheck config obs onEmpty =
     (case Arm config of
        SegmentCheckArm segment \<Rightarrow>
          let failValue = (case sc_FailThreshold segment of None \<Rightarrow> Fin 0 | Some v \<Rightarrow> v);
              t = (greater_than onEmpty)\<lparr>FailValue := float64Ptr failValue, WarnValue := sc_WarnThreshold segment\<rparr>
          in if ObservedNull obs then \<lparr>Status = emptyStatus onEmpty NOT_EVALUATED, Thresholds = Some t\<rparr>
             else if TotalRows obs = 0 \<and> FailedRows obs = 0
             then \<lparr>Status = emptyStatus onEmpty PASS, Thresholds = Some t\<rparr>
             else applyThresholds
               (if thresholdMetric config = PERCENT then percentage (FailedRows obs) (TotalRows obs)
                else f_of_int (FailedRows obs)) t
      | _ \<Rightarrow> status_only ERROR)"

end
