(* ===== verification/Quality_Rules.thy ===== *)
theory Quality_Rules
  imports Quality_Verdict
begin

text \<open>
  The catalog of rule types, \<open>backend/component/dataquality/rule_type_spec.go\<close>, with the columns the
  verdicts, the scores and the sampling gate read, \<open>Evaluate\<close> over it, and the gates that read only
  a configuration's thresholds (\<open>validate.go\<close>, \<open>sampling.go\<close>, \<open>support.go\<close>).
\<close>

subsection \<open>The catalog\<close>

record ruleTypeSpec =
  Type :: QualityRuleType
  Views :: bool
  Metadata :: bool
  Percent :: bool
  Sampling :: bool
  CountsTotal :: bool
  Judge :: "(QualityRuleConfig \<Rightarrow> Observation \<Rightarrow> QualityEmptyBehavior \<Rightarrow> ResultState) option"
  thresholdsOf :: "(QualityRuleConfig \<Rightarrow> float64 option \<times> float64 option) option"

text \<open>The \<open>Thresholds\<close> functions: the bounds of the arm of the rule's own type.\<close>

definition countThresholds :: "QualityRuleType \<Rightarrow> QualityRuleConfig \<Rightarrow> float64 option \<times> float64 option" where
  "countThresholds ty config =
     (case Arm config of
        CountArm ty' fail warn \<Rightarrow> if ty' = ty then (fail, warn) else (None, None)
      | _ \<Rightarrow> (None, None))"

abbreviation judged_spec ::
    "QualityRuleType \<Rightarrow> (QualityRuleConfig \<Rightarrow> Observation \<Rightarrow> QualityEmptyBehavior \<Rightarrow> ResultState) \<Rightarrow> ruleTypeSpec" where
  "judged_spec ty judge \<equiv> \<lparr>Type = ty, Views = False, Metadata = False, Percent = False, Sampling = False,
     CountsTotal = False, Judge = Some judge, thresholdsOf = None\<rparr>"

abbreviation count_spec :: "QualityRuleType \<Rightarrow> ruleTypeSpec" where
  "count_spec ty \<equiv> \<lparr>Type = ty, Views = False, Metadata = False, Percent = True, Sampling = True,
     CountsTotal = True, Judge = None, thresholdsOf = Some (countThresholds ty)\<rparr>"

definition ruleTypeSpecs :: "ruleTypeSpec list" where
  "ruleTypeSpecs =
    [(judged_spec ROW_COUNT evaluateRowCount)\<lparr>Views := True\<rparr>,
     (judged_spec ROW_COUNT_CHANGE evaluateRowCountChange)\<lparr>Views := True\<rparr>,
     (judged_spec NULL_PERCENT evaluateNullPercent)\<lparr>Sampling := True\<rparr>,
     count_spec UNIQUE,
     count_spec UNIQUE_COMBINATION,
     count_spec ACCEPTED_VALUES,
     count_spec RANGE,
     count_spec REGEX,
     count_spec STRING_LENGTH,
     (count_spec REFERENTIAL_INTEGRITY)\<lparr>Sampling := False\<rparr>,
     count_spec CROSS_COLUMN,
     (judged_spec FRESHNESS evaluateFreshness)\<lparr>Views := True\<rparr>,
     (count_spec CUSTOM_SQL)\<lparr>Views := True, Percent := False, Sampling := False, CountsTotal := False\<rparr>,
     (count_spec CEL_EXPRESSION)\<lparr>Sampling := False\<rparr>,
     (count_spec SCHEMA_DRIFT)\<lparr>Views := True, Metadata := True, Percent := False, Sampling := False\<rparr>,
     count_spec GROUP_CHECK,
     (judged_spec AGGREGATE_RULE evaluateAggregate)\<lparr>Sampling := True\<rparr>,
     judged_spec CROSS_TABLE evaluateCrossTable,
     (count_spec STANDARD_CODE)\<lparr>Sampling := False\<rparr>,
     (judged_spec SEGMENT_CHECK evaluateSegmentCheck)\<lparr>Percent := True, CountsTotal := True\<rparr>]"

definition ruleTypeSpecFor :: "QualityRuleType \<Rightarrow> ruleTypeSpec option" where
  "ruleTypeSpecFor ruleType = find (\<lambda>spec. Type spec = ruleType) ruleTypeSpecs"

definition ruleTypeAllowsPercent :: "QualityRuleType \<Rightarrow> bool" where
  "ruleTypeAllowsPercent ruleType =
     (case ruleTypeSpecFor ruleType of None \<Rightarrow> False | Some spec \<Rightarrow> Percent spec)"

definition IsMetadataRule :: "QualityRuleType \<Rightarrow> bool" where
  "IsMetadataRule ruleType =
     (case ruleTypeSpecFor ruleType of None \<Rightarrow> False | Some spec \<Rightarrow> Metadata spec)"

datatype MetaType = TABLE | EXTERNAL_TABLE | VIEW | MATERIALIZED_VIEW | OTHER_META nat

definition RuleTypeForTarget :: "MetaType \<Rightarrow> QualityRuleType \<Rightarrow> bool" where
  "RuleTypeForTarget metaType ruleType =
     (case metaType of
        TABLE \<Rightarrow> True
      | EXTERNAL_TABLE \<Rightarrow> True
      | OTHER_META _ \<Rightarrow> False
      | _ \<Rightarrow> (case ruleTypeSpecFor ruleType of None \<Rightarrow> False | Some spec \<Rightarrow> Views spec))"

subsection \<open>Evaluation\<close>

text \<open>A rule is its type and its configuration, \<open>None\<close> for a missing one.\<close>

definition Evaluate :: "QualityRuleType \<Rightarrow> QualityRuleConfig option \<Rightarrow> Observation \<Rightarrow> ResultState" where
  "Evaluate ruleType config obs =
     (case config of
        None \<Rightarrow> \<lparr>Status = ERROR, Thresholds = Some \<lparr>Comparison = COMPARISON_UNSPECIFIED,
          OnEmpty = EMPTY_UNSPECIFIED, FailValue = None, FailValueUpper = None, WarnValue = None,
          WarnValueUpper = None\<rparr>\<rparr>
      | Some config \<Rightarrow>
          let onEmpty = emptyBehavior config in
          (case ruleTypeSpecFor ruleType of
             None \<Rightarrow> status_only ERROR
           | Some spec \<Rightarrow>
               (case Judge spec of
                  Some judge \<Rightarrow> judge config obs onEmpty
                | None \<Rightarrow>
                    let (failThreshold, warnThreshold) = the (thresholdsOf spec) config
                    in evaluateCount config failThreshold warnThreshold obs onEmpty (CountsTotal spec))))"

subsection \<open>Validation of the thresholds\<close>

text \<open>\<open>NilDereference\<close> is the panic of a pointer read without a test, the other errors are returned.\<close>

datatype config_error =
    ConfigMissing
  | UnknownOnEmpty
  | UnknownMetric
  | PercentUnsupported QualityRuleType
  | BoundRequired
  | BoundsExclusive
  | NegativeBound
  | NotFinite
  | OutOfRange float64
  | AbovePercent float64
  | BoundsCrossed
  | WarnExceedsFail
  | NilDereference

definition validateOnEmpty :: "QualityEmptyBehavior \<Rightarrow> config_error option" where
  "validateOnEmpty onEmpty = (case onEmpty of OTHER_EMPTY _ \<Rightarrow> Some UnknownOnEmpty | _ \<Rightarrow> None)"

definition validateThresholdMetric :: "QualityThresholdMetric \<Rightarrow> config_error option" where
  "validateThresholdMetric metric = (case metric of OTHER_METRIC _ \<Rightarrow> Some UnknownMetric | _ \<Rightarrow> None)"

definition validatePercentSupport :: "QualityRuleType \<Rightarrow> QualityThresholdMetric \<Rightarrow> config_error option" where
  "validatePercentSupport ruleType metric =
     (if metric \<noteq> PERCENT then None
      else if ruleTypeAllowsPercent ruleType then None
      else Some (PercentUnsupported ruleType))"

definition not_finite :: "float64 \<Rightarrow> bool" where
  "not_finite v \<longleftrightarrow> v \<in> {NaN, PosInf, NegInf}"

definition opt_less :: "int option \<Rightarrow> int option \<Rightarrow> bool" where
  "opt_less a b = (case (a, b) of (Some x, Some y) \<Rightarrow> x < y | _ \<Rightarrow> False)"

definition opt_negative :: "int option \<Rightarrow> bool" where
  "opt_negative a = (case a of Some x \<Rightarrow> x < 0 | None \<Rightarrow> False)"

definition f_opt_less :: "float64 option \<Rightarrow> float64 option \<Rightarrow> bool" where
  "f_opt_less a b = (case (a, b) of (Some x, Some y) \<Rightarrow> f_less x y | _ \<Rightarrow> False)"

definition validateRowCountConfig :: "RowCountConfig option \<Rightarrow> config_error option" where
  "validateRowCountConfig config =
     (case config of
        None \<Rightarrow> Some ConfigMissing
      | Some c \<Rightarrow>
          if MinRows c = None \<and> MaxRows c = None \<and> ExactRows c = None then Some BoundRequired
          else if opt_negative (ExactRows c) then Some NegativeBound
          else if ExactRows c \<noteq> None \<and> (MinRows c \<noteq> None \<or> MaxRows c \<noteq> None) then Some BoundsExclusive
          else if opt_negative (MinRows c) then Some NegativeBound
          else if opt_negative (MaxRows c) then Some NegativeBound
          else if opt_less (MaxRows c) (MinRows c) then Some BoundsCrossed
          else if opt_negative (WarnMinRows c) then Some NegativeBound
          else if opt_less (WarnMinRows c) (MinRows c) then Some WarnExceedsFail
          else if opt_negative (WarnMaxRows c) then Some NegativeBound
          else if opt_less (MaxRows c) (WarnMaxRows c) then Some WarnExceedsFail
          else if opt_less (WarnMaxRows c) (WarnMinRows c) then Some BoundsCrossed
          else None)"

fun changeBounds :: "float64 option list \<Rightarrow> config_error option" where
  "changeBounds [] = None"
| "changeBounds (None # bounds) = changeBounds bounds"
| "changeBounds (Some v # bounds) =
     (if not_finite v then Some NotFinite
      else if f_less v (Fin 0) \<or> f_less (Fin 1000) v then Some (OutOfRange v)
      else changeBounds bounds)"

definition validateRowCountChangeConfig :: "RowCountChangeConfig option \<Rightarrow> config_error option" where
  "validateRowCountChangeConfig config =
     (case config of
        None \<Rightarrow> Some ConfigMissing
      | Some c \<Rightarrow>
          if MaxIncreasePct c = None \<and> MaxDecreasePct c = None \<and> WarnIncreasePct c = None \<and> WarnDecreasePct c = None
          then Some BoundRequired
          else (case changeBounds [MaxIncreasePct c, MaxDecreasePct c, WarnIncreasePct c, WarnDecreasePct c] of
              Some err \<Rightarrow> Some err
            | None \<Rightarrow>
                if f_opt_less (MaxIncreasePct c) (WarnIncreasePct c) then Some WarnExceedsFail
                else if f_opt_less (MaxDecreasePct c) (WarnDecreasePct c) then Some WarnExceedsFail
                else None))"

definition outside_percent :: "float64 \<Rightarrow> bool" where
  "outside_percent v \<longleftrightarrow> f_less v (Fin 0) \<or> f_less (Fin 100) v \<or> not_finite v"

text \<open>The bounds of \<open>validateNullPercentConfig\<close>; the checks of its column and values come first there.\<close>

definition validateNullPercentBounds :: "NullPercentConfig \<Rightarrow> config_error option" where
  "validateNullPercentBounds c =
     (let countForm = MaxNullCount c \<noteq> None \<or> WarnNullCount c \<noteq> None;
          percentForm = MaxNullPct c \<noteq> None \<or> WarnNullPct c \<noteq> None
      in if countForm \<and> percentForm then Some BoundsExclusive
         else if \<not> countForm \<and> \<not> percentForm then Some BoundRequired
         else if countForm then
           (if MaxNullCount c = None then Some BoundRequired
            else if opt_negative (MaxNullCount c) then Some NegativeBound
            else if opt_negative (WarnNullCount c) then Some NegativeBound
            else if opt_less (MaxNullCount c) (WarnNullCount c) then Some WarnExceedsFail
            else None)
         else (case MaxNullPct c of
             None \<Rightarrow> Some NilDereference
           | Some m \<Rightarrow>
               if outside_percent m then Some (OutOfRange m)
               else (case WarnNullPct c of
                   None \<Rightarrow> None
                 | Some w \<Rightarrow>
                     if outside_percent w then Some (OutOfRange w)
                     else if f_less m w then Some WarnExceedsFail else None)))"

definition validateFreshnessBounds :: "FreshnessConfig \<Rightarrow> config_error option" where
  "validateFreshnessBounds c =
     (if MaxLagSeconds c \<le> 0 then Some NegativeBound
      else (case WarnLagSeconds c of
          None \<Rightarrow> None
        | Some w \<Rightarrow>
            if w < 0 then Some NegativeBound
            else if MaxLagSeconds c \<le> w then Some WarnExceedsFail else None))"

definition validateThresholdValue :: "float64 \<Rightarrow> bool \<Rightarrow> config_error option" where
  "validateThresholdValue v percent =
     (if not_finite v then Some NotFinite
      else if f_less v (Fin 0) then Some NegativeBound
      else if percent \<and> f_less (Fin 100) v then Some (AbovePercent v)
      else None)"

definition validateCountThresholds ::
    "QualityRuleConfig \<Rightarrow> float64 option \<Rightarrow> float64 option \<Rightarrow> config_error option" where
  "validateCountThresholds config fail warn =
     (let percent = (thresholdMetric config = PERCENT);
          failValue = (case fail of None \<Rightarrow> Fin 0 | Some f \<Rightarrow> f)
      in case validateThresholdValue failValue percent of
           Some err \<Rightarrow> Some err
         | None \<Rightarrow> (case warn of
               None \<Rightarrow> None
             | Some w \<Rightarrow> (case validateThresholdValue w percent of
                   Some err \<Rightarrow> Some err
                 | None \<Rightarrow> if f_less failValue w then Some WarnExceedsFail else None)))"

fun finiteBounds :: "float64 option list \<Rightarrow> config_error option" where
  "finiteBounds [] = None"
| "finiteBounds (None # bounds) = finiteBounds bounds"
| "finiteBounds (Some v # bounds) = (if not_finite v then Some NotFinite else finiteBounds bounds)"

definition validateAggregateBounds :: "AggregateConfig \<Rightarrow> config_error option" where
  "validateAggregateBounds c =
     (if agg_Min c = None \<and> agg_Max c = None then Some BoundRequired
      else (case finiteBounds [agg_Min c, agg_Max c, agg_WarnMin c, agg_WarnMax c] of
          Some err \<Rightarrow> Some err
        | None \<Rightarrow>
            if f_opt_less (agg_Max c) (agg_Min c) then Some BoundsCrossed
            else if f_opt_less (agg_WarnMin c) (agg_Min c) then Some WarnExceedsFail
            else if f_opt_less (agg_Max c) (agg_WarnMin c) then Some WarnExceedsFail
            else if f_opt_less (agg_Max c) (agg_WarnMax c) then Some WarnExceedsFail
            else if f_opt_less (agg_WarnMax c) (agg_Min c) then Some WarnExceedsFail
            else if f_opt_less (agg_WarnMax c) (agg_WarnMin c) then Some BoundsCrossed
            else None))"

definition validateTolerance :: "float64 option \<Rightarrow> config_error option" where
  "validateTolerance tolerance =
     (case tolerance of
        None \<Rightarrow> None
      | Some v \<Rightarrow> if not_finite v \<or> f_less v (Fin 0) then Some (OutOfRange v) else None)"

subsection \<open>The compilers' own checks (\<open>compile_util.go\<close>)\<close>

definition out_of_unit :: "float64 \<Rightarrow> bool \<Rightarrow> config_error option" where
  "out_of_unit v percent =
     (if f_less v (Fin 0) then Some NegativeBound
      else if percent \<and> f_less (Fin 100) v then Some (AbovePercent v) else None)"

definition compileValidateCountThresholds ::
    "QualityRuleConfig \<Rightarrow> float64 option \<Rightarrow> float64 option \<Rightarrow> config_error option" where
  "compileValidateCountThresholds config fail warn =
     (let percent = (thresholdMetric config = PERCENT);
          failValue = (case fail of None \<Rightarrow> Fin 0 | Some f \<Rightarrow> f)
      in case out_of_unit failValue percent of
           Some err \<Rightarrow> Some err
         | None \<Rightarrow> (case warn of
               None \<Rightarrow> None
             | Some w \<Rightarrow> (case out_of_unit w percent of
                   Some err \<Rightarrow> Some err
                 | None \<Rightarrow> if f_less failValue w then Some WarnExceedsFail else None)))"

definition compileValidateRowCount :: "RowCountConfig \<Rightarrow> config_error option" where
  "compileValidateRowCount c =
     (if MinRows c = None \<and> MaxRows c = None \<and> ExactRows c = None then Some BoundRequired
      else if ExactRows c \<noteq> None \<and> (MinRows c \<noteq> None \<or> MaxRows c \<noteq> None) then Some BoundsExclusive
      else if opt_negative (MinRows c) then Some NegativeBound
      else if opt_negative (MaxRows c) then Some NegativeBound
      else if opt_less (MaxRows c) (MinRows c) then Some BoundsCrossed
      else if opt_negative (WarnMinRows c) then Some NegativeBound
      else if opt_less (WarnMinRows c) (MinRows c) then Some WarnExceedsFail
      else if opt_negative (WarnMaxRows c) then Some NegativeBound
      else if opt_less (MaxRows c) (WarnMaxRows c) then Some WarnExceedsFail
      else if opt_less (WarnMaxRows c) (WarnMinRows c) then Some BoundsCrossed
      else None)"

fun compileChangeBounds :: "float64 option list \<Rightarrow> config_error option" where
  "compileChangeBounds [] = None"
| "compileChangeBounds (None # bounds) = compileChangeBounds bounds"
| "compileChangeBounds (Some v # bounds) =
     (if f_less v (Fin 0) \<or> f_less (Fin 1000) v then Some (OutOfRange v) else compileChangeBounds bounds)"

definition compileValidateRowCountChange :: "RowCountChangeConfig \<Rightarrow> config_error option" where
  "compileValidateRowCountChange c =
     (if MaxIncreasePct c = None \<and> MaxDecreasePct c = None \<and> WarnIncreasePct c = None \<and> WarnDecreasePct c = None
      then Some BoundRequired
      else (case compileChangeBounds [MaxIncreasePct c, MaxDecreasePct c, WarnIncreasePct c, WarnDecreasePct c] of
          Some err \<Rightarrow> Some err
        | None \<Rightarrow>
            if f_opt_less (MaxIncreasePct c) (WarnIncreasePct c) then Some WarnExceedsFail
            else if f_opt_less (MaxDecreasePct c) (WarnDecreasePct c) then Some WarnExceedsFail
            else None))"

definition compileValidateNullPercent :: "NullPercentConfig \<Rightarrow> config_error option" where
  "compileValidateNullPercent c =
     (let countForm = MaxNullCount c \<noteq> None \<or> WarnNullCount c \<noteq> None;
          percentForm = MaxNullPct c \<noteq> None \<or> WarnNullPct c \<noteq> None
      in if countForm \<and> percentForm then Some BoundsExclusive
         else if \<not> countForm \<and> \<not> percentForm then Some BoundRequired
         else if countForm then
           (if MaxNullCount c = None then Some BoundRequired
            else if opt_negative (MaxNullCount c) then Some NegativeBound
            else if opt_negative (WarnNullCount c) then Some NegativeBound
            else if opt_less (MaxNullCount c) (WarnNullCount c) then Some WarnExceedsFail
            else None)
         else (case MaxNullPct c of
             None \<Rightarrow> Some BoundRequired
           | Some m \<Rightarrow>
               if f_less m (Fin 0) \<or> f_less (Fin 100) m then Some (OutOfRange m)
               else (case WarnNullPct c of
                   None \<Rightarrow> None
                 | Some w \<Rightarrow>
                     if f_less w (Fin 0) \<or> f_less (Fin 100) w then Some (OutOfRange w)
                     else if f_less m w then Some WarnExceedsFail else None)))"

subsection \<open>Sampling\<close>

datatype sampling_method = MaxRowsMethod int | PercentMethod float64

datatype sampling_error =
    UnknownRuleType
  | SamplingUnsupported QualityRuleType
  | MaxRowsOutOfRange int
  | PercentOutOfRange float64
  | TablesOnly
  | NoDialect
  | NoTableSample

definition maxSampledRows :: int where "maxSampledRows = 10000000"
definition minSamplePercent :: int where "minSamplePercent = 1"
definition maxSamplePercent :: int where "maxSamplePercent = 99"

text \<open>\<open>dialect\<close> is what the target's engine offers: \<open>None\<close> without a dialect, else whether it samples.\<close>

definition validateSampling ::
    "MetaType \<Rightarrow> bool option \<Rightarrow> QualityRuleType \<Rightarrow> sampling_method option \<Rightarrow> sampling_error option" where
  "validateSampling metaType dialect ruleType sampling =
     (case sampling of
        None \<Rightarrow> None
      | Some m \<Rightarrow>
          (case ruleTypeSpecFor ruleType of
             None \<Rightarrow> Some UnknownRuleType
           | Some spec \<Rightarrow>
               if \<not> Sampling spec then Some (SamplingUnsupported ruleType)
               else (case m of
                   MaxRowsMethod n \<Rightarrow> if n < 1 \<or> maxSampledRows < n then Some (MaxRowsOutOfRange n) else None
                 | PercentMethod p \<Rightarrow>
                     if p = NaN \<or> f_less p (f_of_int minSamplePercent) \<or> f_less (f_of_int maxSamplePercent) p
                     then Some (PercentOutOfRange p)
                     else if metaType \<noteq> TABLE then Some TablesOnly
                     else (case dialect of
                         None \<Rightarrow> Some NoDialect
                       | Some samples \<Rightarrow> if samples then None else Some NoTableSample))))"

definition sampleRowsFromTotal :: "QualityRuleType \<Rightarrow> bool" where
  "sampleRowsFromTotal ruleType \<longleftrightarrow> ruleType \<noteq> GROUP_CHECK"

end
