(* ===== verification/Quality_Laws.thy ===== *)
theory Quality_Laws
  imports Quality_Rules
begin

text \<open>
  What the verdicts mean: a configuration that was accepted is judged, an observation without data
  never passes by default, more failed rows never make a verdict better, and the two checks of a
  configuration agree.
\<close>

subsection \<open>The catalog, type by type\<close>

lemmas catalog_simps =
  ruleTypeSpecFor_def ruleTypeSpecs_def

lemma spec_lookup:
  "ruleTypeSpecFor ROW_COUNT = Some ((judged_spec ROW_COUNT evaluateRowCount)\<lparr>Views := True\<rparr>)"
  "ruleTypeSpecFor ROW_COUNT_CHANGE = Some ((judged_spec ROW_COUNT_CHANGE evaluateRowCountChange)\<lparr>Views := True\<rparr>)"
  "ruleTypeSpecFor NULL_PERCENT = Some ((judged_spec NULL_PERCENT evaluateNullPercent)\<lparr>Sampling := True\<rparr>)"
  "ruleTypeSpecFor FRESHNESS = Some ((judged_spec FRESHNESS evaluateFreshness)\<lparr>Views := True\<rparr>)"
  "ruleTypeSpecFor AGGREGATE_RULE = Some ((judged_spec AGGREGATE_RULE evaluateAggregate)\<lparr>Sampling := True\<rparr>)"
  "ruleTypeSpecFor CROSS_TABLE = Some (judged_spec CROSS_TABLE evaluateCrossTable)"
  "ruleTypeSpecFor SEGMENT_CHECK =
     Some ((judged_spec SEGMENT_CHECK evaluateSegmentCheck)\<lparr>Percent := True, CountsTotal := True\<rparr>)"
  "ruleTypeSpecFor RULE_TYPE_UNSPECIFIED = None"
  "ruleTypeSpecFor (OTHER_RULE_TYPE n) = None"
  by (simp_all add: catalog_simps)

definition count_types :: "QualityRuleType list" where
  "count_types = [UNIQUE, UNIQUE_COMBINATION, ACCEPTED_VALUES, RANGE, REGEX, STRING_LENGTH,
     REFERENTIAL_INTEGRITY, CROSS_COLUMN, CUSTOM_SQL, CEL_EXPRESSION, SCHEMA_DRIFT, GROUP_CHECK, STANDARD_CODE]"

lemma spec_count:
  "ty \<in> set count_types \<Longrightarrow> \<exists>spec. ruleTypeSpecFor ty = Some spec \<and> Judge spec = None
    \<and> thresholdsOf spec = Some (countThresholds ty) \<and> CountsTotal spec = (ty \<noteq> CUSTOM_SQL)
    \<and> Percent spec = (ty \<noteq> CUSTOM_SQL \<and> ty \<noteq> SCHEMA_DRIFT)"
  by (auto simp: count_types_def catalog_simps)


lemma Evaluate_judged:
  "ruleTypeSpecFor ty = Some spec \<Longrightarrow> Judge spec = Some judge \<Longrightarrow>
   Evaluate ty (Some c) obs = judge c obs (emptyBehavior c)"
  by (simp add: Evaluate_def Let_def)

lemma Evaluate_types:
  "Evaluate ROW_COUNT (Some c) obs = evaluateRowCount c obs (emptyBehavior c)"
  "Evaluate ROW_COUNT_CHANGE (Some c) obs = evaluateRowCountChange c obs (emptyBehavior c)"
  "Evaluate NULL_PERCENT (Some c) obs = evaluateNullPercent c obs (emptyBehavior c)"
  "Evaluate FRESHNESS (Some c) obs = evaluateFreshness c obs (emptyBehavior c)"
  "Evaluate AGGREGATE_RULE (Some c) obs = evaluateAggregate c obs (emptyBehavior c)"
  "Evaluate CROSS_TABLE (Some c) obs = evaluateCrossTable c obs (emptyBehavior c)"
  "Evaluate SEGMENT_CHECK (Some c) obs = evaluateSegmentCheck c obs (emptyBehavior c)"
  by (simp_all add: Evaluate_judged spec_lookup)

lemma Evaluate_count:
  "ty \<in> set count_types \<Longrightarrow> Evaluate ty (Some c) obs =
    evaluateCount c (fst (countThresholds ty c)) (snd (countThresholds ty c)) obs (emptyBehavior c) (ty \<noteq> CUSTOM_SQL)"
  using spec_count [of ty] by (auto simp: Evaluate_def Let_def case_prod_beta)

lemma status_applyThresholds:
  "Status (applyThresholds v t) \<in> {PASS, WARN, FAIL}"
  by (simp add: applyThresholds_def)

subsection \<open>Observations without data\<close>







subsection \<open>More failed rows\<close>

definition verdict_rank :: "QualityStatus \<Rightarrow> nat" where
  "verdict_rank s = (case s of PASS \<Rightarrow> 0 | WARN \<Rightarrow> 1 | FAIL \<Rightarrow> 2 | _ \<Rightarrow> 3)"

lemma round64_2_63: "round64 (of_int (2 ^ 63)) = Fin (of_int (2 ^ 63))"
  using round64_exact [of "2 ^ 52" 11] by (simp add: pow2_def)

lemma round64_neg_2_63: "round64 (of_int (- (2 ^ 63))) = Fin (of_int (- (2 ^ 63)))"
  using round64_exact [of "- (2 ^ 52)" 11] by (simp add: pow2_def)

lemma f_of_int_int64:
  assumes "\<bar>n\<bar> \<le> 2 ^ 63"
  obtains b where "f_of_int n = Fin b" "1 \<le> n \<longrightarrow> 1 \<le> b"
proof -
  have "f_le (Fin (of_int (- (2 ^ 63)))) (f_of_int n)" "f_le (f_of_int n) (Fin (of_int (2 ^ 63)))"
    using f_of_int_mono [of "- (2 ^ 63)" n] f_of_int_mono [of n "2 ^ 63"] assms
    by (simp_all only: f_of_int_def round64_2_63 round64_neg_2_63 abs_le_iff minus_le_iff)
  then obtain b where b: "f_of_int n = Fin b" using f_le_squeeze by blast
  moreover have "1 \<le> n \<longrightarrow> 1 \<le> b" using f_of_int_mono [of 1 n] by (simp add: b)
  ultimately show thesis using that by blast
qed

lemma f_mul_100_mono: "f_le x y \<Longrightarrow> f_le (f_mul x (Fin 100)) (f_mul y (Fin 100))"
proof (cases x; cases y)
  fix a b
  assume "f_le x y" "x = Fin a" "y = Fin b"
  then show ?thesis by (simp add: binary64.rnd_mono)
next
  fix a
  assume "x = Fin a" "y = PosInf"
  then show ?thesis using binary64.rnd_not_nan [of "a * 100"]
    by (cases "round64 (a * 100)") (simp_all add: f_sign_inf_def f_le_def f_eq_def)
next
  fix b
  assume "x = NegInf" "y = Fin b"
  then show ?thesis using binary64.rnd_not_nan [of "b * 100"]
    by (cases "round64 (b * 100)") (simp_all add: f_sign_inf_def f_le_def f_eq_def)
qed (simp_all add: f_sign_inf_def f_le_def f_eq_def)

lemma percentage_mono:
  assumes "f \<le> f'" "\<bar>f\<bar> \<le> 2 ^ 63" "\<bar>f'\<bar> \<le> 2 ^ 63" "0 < t" "t \<le> 2 ^ 63"
  shows "f_le (percentage f t) (percentage f' t)"
proof -
  obtain a where a: "f_of_int f = Fin a" using f_of_int_int64 [OF assms(2)] by metis
  obtain a' where a': "f_of_int f' = Fin a'" using f_of_int_int64 [OF assms(3)] by metis
  obtain b where b: "f_of_int t = Fin b" "1 \<le> b" using f_of_int_int64 [of t] assms(4,5) by force
  have "a \<le> a'" using f_of_int_mono [OF assms(1)] by (simp add: a a')
  then have "f_le (f_div (Fin a) (Fin b)) (f_div (Fin a') (Fin b))"
    using b(2) by (simp add: binary64.rnd_mono divide_right_mono)
  then show ?thesis by (simp add: percentage_def a a' b(1) f_mul_100_mono)
qed

lemma above_mono: "f_le v v' \<Longrightarrow> above v b \<Longrightarrow> above v' b"
  by (auto simp: above_def f_less_le_trans split: option.splits)

lemma applyThresholds_mono:
  assumes "f_le v v'" "Comparison t = GREATER_THAN"
  shows "verdict_rank (Status (applyThresholds v t)) \<le> verdict_rank (Status (applyThresholds v' t))"
  using above_mono [OF assms(1), of "FailValue t"] above_mono [OF assms(1), of "WarnValue t"]
  by (simp add: applyThresholds_def violates_def assms(2) verdict_rank_def)

lemma evaluateCount_mono:
  assumes "f \<le> f'" "\<bar>f\<bar> \<le> 2 ^ 63" "\<bar>f'\<bar> \<le> 2 ^ 63" "0 < TotalRows obs" "TotalRows obs \<le> 2 ^ 63"
  shows "verdict_rank (Status (evaluateCount c a w (obs\<lparr>FailedRows := f\<rparr>) e h))
    \<le> verdict_rank (Status (evaluateCount c a w (obs\<lparr>FailedRows := f'\<rparr>) e h))"
  using assms(4) percentage_mono [OF assms] f_of_int_mono [OF assms(1)]
  by (cases "thresholdMetric c = PERCENT")
    (simp_all add: evaluateCount_def Let_def applyThresholds_mono)

lemma evaluateNullPercent_mono:
  assumes "f \<le> f'" "\<bar>f\<bar> \<le> 2 ^ 63" "\<bar>f'\<bar> \<le> 2 ^ 63" "0 < TotalRows obs" "TotalRows obs \<le> 2 ^ 63"
  shows "verdict_rank (Status (evaluateNullPercent c (obs\<lparr>FailedRows := f\<rparr>) e))
    \<le> verdict_rank (Status (evaluateNullPercent c (obs\<lparr>FailedRows := f'\<rparr>) e))"
proof (cases "Arm c")
  case (NullPercentArm n)
  then show ?thesis
    using assms(4) percentage_mono [OF assms] f_of_int_mono [OF assms(1)]
    by (cases "MaxNullCount n"; cases "MaxNullPct n")
      (simp_all add: evaluateNullPercent_def applyThresholds_mono)
qed (simp_all add: evaluateNullPercent_def)

lemma evaluateSegmentCheck_mono:
  assumes "f \<le> f'" "\<bar>f\<bar> \<le> 2 ^ 63" "\<bar>f'\<bar> \<le> 2 ^ 63" "0 < TotalRows obs" "TotalRows obs \<le> 2 ^ 63"
  shows "verdict_rank (Status (evaluateSegmentCheck c (obs\<lparr>FailedRows := f\<rparr>) e))
    \<le> verdict_rank (Status (evaluateSegmentCheck c (obs\<lparr>FailedRows := f'\<rparr>) e))"
proof (cases "Arm c")
  case (SegmentCheckArm n)
  then show ?thesis
    using assms(4) percentage_mono [OF assms] f_of_int_mono [OF assms(1)]
    by (cases "ObservedNull obs"; cases "thresholdMetric c = PERCENT")
      (simp_all add: evaluateSegmentCheck_def Let_def applyThresholds_mono)
qed (simp_all add: evaluateSegmentCheck_def)

text \<open>
  C30. For every rule that counts failed rows, null values or vanished segments, finding more of them
  in a table of the same size never improves the verdict, through every rounding of the percentage
  and for whatever thresholds are configured.
\<close>

theorem more_failures_never_better:
  assumes "ty \<in> set count_types \<or> ty = NULL_PERCENT \<or> ty = SEGMENT_CHECK"
    "f \<le> f'" "\<bar>f\<bar> \<le> 2 ^ 63" "\<bar>f'\<bar> \<le> 2 ^ 63" "0 < TotalRows obs" "TotalRows obs \<le> 2 ^ 63"
  shows "verdict_rank (Status (Evaluate ty (Some c) (obs\<lparr>FailedRows := f\<rparr>)))
    \<le> verdict_rank (Status (Evaluate ty (Some c) (obs\<lparr>FailedRows := f'\<rparr>)))"
  using assms(1)
proof (elim disjE)
  assume "ty \<in> set count_types"
  then show ?thesis by (simp add: Evaluate_count evaluateCount_mono [OF assms(2-6)])
next
  assume "ty = NULL_PERCENT"
  then show ?thesis by (simp add: Evaluate_types evaluateNullPercent_mono [OF assms(2-6)])
next
  assume "ty = SEGMENT_CHECK"
  then show ?thesis by (simp add: Evaluate_types evaluateSegmentCheck_mono [OF assms(2-6)])
qed

theorem more_failures_never_better_witness:
  "\<exists>c obs. TotalRows obs = 300 \<and> (\<forall>f'\<in>{2..300}.
     verdict_rank (Status (Evaluate REGEX (Some c) (obs\<lparr>FailedRows := 1\<rparr>)))
      \<le> verdict_rank (Status (Evaluate REGEX (Some c) (obs\<lparr>FailedRows := f'\<rparr>))))"
proof -
  define c where "c = \<lparr>Arm = CountArm REGEX (Some (Fin 1)) None, cfg_OnEmpty = EMPTY_PASS, cfg_ThresholdMetric = PERCENT\<rparr>"
  define obs where "obs = \<lparr>Observed = Fin 0, FailedRows = 0, TotalRows = 300, ObservedNull = False,
    MaxTimestamp = None, Baseline = None\<rparr>"
  have "REGEX \<in> set count_types" "TotalRows obs = 300" by (simp_all add: count_types_def obs_def)
  then show ?thesis
    using more_failures_never_better [of REGEX 1 _ obs c] by (intro exI [of _ c] exI [of _ obs]) auto
qed

subsection \<open>The two checks of a configuration\<close>

lemma finite_cases: "\<not> not_finite v \<Longrightarrow> \<exists>a. v = Fin a"
  by (cases v) (auto simp: not_finite_def)

lemma changeBounds_compile: "changeBounds bounds = None \<Longrightarrow> compileChangeBounds bounds = None"
  by (induction bounds rule: changeBounds.induct) (auto split: if_splits)

lemma thresholdValue_compile: "validateThresholdValue v p = None \<Longrightarrow> out_of_unit v p = None"
  by (auto simp: validateThresholdValue_def out_of_unit_def split: if_splits)

lemma if_noneE: "(if b then Some x else y) = None \<Longrightarrow> (\<not> b \<Longrightarrow> y = None \<Longrightarrow> P) \<Longrightarrow> P"
  by (auto split: if_splits)

text \<open>Each gate on its own.\<close>

lemma count_gate:
  "validateCountThresholds config fail warn = None \<Longrightarrow> compileValidateCountThresholds config fail warn = None"
  by (auto simp: validateCountThresholds_def compileValidateCountThresholds_def Let_def
      dest!: thresholdValue_compile split: option.splits if_splits)

lemma row_gate: "validateRowCountConfig (Some rc) = None \<Longrightarrow> compileValidateRowCount rc = None"
  unfolding validateRowCountConfig_def compileValidateRowCount_def option.case by (elim if_noneE; simp)

lemma change_gate: "validateRowCountChangeConfig (Some ch) = None \<Longrightarrow> compileValidateRowCountChange ch = None"
proof -
  have "validateRowCountChangeConfig (Some ch) = None \<longrightarrow> compileValidateRowCountChange ch = None"
    using changeBounds_compile [of "[MaxIncreasePct ch, MaxDecreasePct ch, WarnIncreasePct ch, WarnDecreasePct ch]"]
    by (simp add: validateRowCountChangeConfig_def compileValidateRowCountChange_def split: option.splits
        del: changeBounds.simps compileChangeBounds.simps)
  then show "validateRowCountChangeConfig (Some ch) = None \<Longrightarrow> compileValidateRowCountChange ch = None" by blast
qed

lemma null_gate: "validateNullPercentBounds np = None \<Longrightarrow> compileValidateNullPercent np = None"
  by (cases "MaxNullCount np"; cases "WarnNullCount np"; cases "MaxNullPct np"; cases "WarnNullPct np")
    (simp_all add: validateNullPercentBounds_def compileValidateNullPercent_def outside_percent_def split: if_splits)

text \<open>
  C31. What the save gate accepts the compiler accepts too: a stored rule never becomes unusable
  because of thresholds that were valid. And the two checks of a null rule agree on every
  configuration that does not make the save gate dereference a nil pointer, which it does exactly
  for a warning percentage without a failing one.
\<close>

theorem save_gate_implies_compile_gate:
  shows "(validateCountThresholds config fail warn = None \<longrightarrow> compileValidateCountThresholds config fail warn = None)
    \<and> (validateRowCountConfig (Some rc) = None \<longrightarrow> compileValidateRowCount rc = None)
    \<and> (validateRowCountChangeConfig (Some ch) = None \<longrightarrow> compileValidateRowCountChange ch = None)
    \<and> (validateNullPercentBounds np = None \<longrightarrow> compileValidateNullPercent np = None)
    \<and> (validateNullPercentBounds np = Some NilDereference \<longleftrightarrow>
        MaxNullCount np = None \<and> WarnNullCount np = None \<and> MaxNullPct np = None \<and> WarnNullPct np \<noteq> None)"
proof (intro conjI)
  show "validateNullPercentBounds np = Some NilDereference \<longleftrightarrow>
      MaxNullCount np = None \<and> WarnNullCount np = None \<and> MaxNullPct np = None \<and> WarnNullPct np \<noteq> None"
    by (cases "MaxNullCount np"; cases "WarnNullCount np"; cases "MaxNullPct np"; cases "WarnNullPct np")
      (simp_all add: validateNullPercentBounds_def)
qed (blast intro: count_gate row_gate change_gate null_gate)+

theorem save_gate_implies_compile_gate_witness:
  "validateNullPercentBounds \<lparr>MaxNullCount = None, WarnNullCount = None, MaxNullPct = None, WarnNullPct = Some (Fin 5)\<rparr>
      = Some NilDereference
    \<and> compileValidateRowCount \<lparr>MinRows = Some 1, MaxRows = None, ExactRows = None, WarnMinRows = Some 5, WarnMaxRows = None\<rparr>
      = None"
  using save_gate_implies_compile_gate
    [of undefined None None "\<lparr>MinRows = Some 1, MaxRows = None, ExactRows = None, WarnMinRows = Some 5, WarnMaxRows = None\<rparr>"
      undefined "\<lparr>MaxNullCount = None, WarnNullCount = None, MaxNullPct = None, WarnNullPct = Some (Fin 5)\<rparr>"]
  by (simp add: validateRowCountConfig_def opt_negative_def opt_less_def)

subsection \<open>Accepted configurations\<close>

text \<open>The save gate on the part of a configuration the judgments read.\<close>

definition thresholds_accepted :: "QualityRuleType \<Rightarrow> QualityRuleConfig \<Rightarrow> bool" where
  "thresholds_accepted ty c \<longleftrightarrow>
     validateOnEmpty (cfg_OnEmpty c) = None \<and> validateThresholdMetric (cfg_ThresholdMetric c) = None
     \<and> validatePercentSupport ty (cfg_ThresholdMetric c) = None
     \<and> (case Arm c of
          RowCountArm rc \<Rightarrow> ty = ROW_COUNT \<and> validateRowCountConfig (Some rc) = None
        | RowCountChangeArm ch \<Rightarrow> ty = ROW_COUNT_CHANGE \<and> validateRowCountChangeConfig (Some ch) = None
        | NullPercentArm np \<Rightarrow> ty = NULL_PERCENT \<and> validateNullPercentBounds np = None
        | FreshnessArm fr \<Rightarrow> ty = FRESHNESS \<and> validateFreshnessBounds fr = None
        | AggregateArm ag \<Rightarrow> ty = AGGREGATE_RULE \<and> validateAggregateBounds ag = None
        | CrossTableArm ct \<Rightarrow> ty = CROSS_TABLE \<and> validateTolerance (Tolerance ct) = None
            \<and> validateCountThresholds c (ct_FailThreshold ct) (ct_WarnThreshold ct) = None
        | SegmentCheckArm sc \<Rightarrow> ty = SEGMENT_CHECK
            \<and> validateCountThresholds c (sc_FailThreshold sc) (sc_WarnThreshold sc) = None
        | CountArm ty' fail warn \<Rightarrow> ty' = ty \<and> ty \<in> set count_types \<and> validateCountThresholds c fail warn = None
        | NoArm \<Rightarrow> False)"

lemma emptyStatus_cases: "validateOnEmpty (cfg_OnEmpty c) = None \<Longrightarrow>
    emptyStatus (emptyBehavior c) s \<in> {PASS, FAIL, NOT_EVALUATED}"
  by (cases "cfg_OnEmpty c") (auto simp: emptyStatus_def emptyBehavior_def validateOnEmpty_def)

text \<open>
  C32. A rule the save gate accepted is always judged: whatever is observed, NaN and infinities of the
  database included, its verdict is PASS, WARN, FAIL or NOT_EVALUATED and never the ERROR that stands
  for a malformed rule.
\<close>

theorem accepted_rule_is_judged:
  assumes "thresholds_accepted ty c"
  shows "Status (Evaluate ty (Some c) obs) \<in> {PASS, WARN, FAIL, NOT_EVALUATED}"
proof -
  define V where "V = {PASS, WARN, FAIL, NOT_EVALUATED}"
  have V: "PASS \<in> V" "WARN \<in> V" "FAIL \<in> V" by (simp_all add: V_def)
  have E: "emptyStatus (emptyBehavior c) s \<in> V" for s
    using assms emptyStatus_cases [of c s] by (auto simp: thresholds_accepted_def V_def)
  have A: "Status (applyThresholds v t) \<in> V" for v t
    using status_applyThresholds [of v t] by (auto simp: V_def)
  note rules = Evaluate_types V E A Let_def
  have "Status (Evaluate ty (Some c) obs) \<in> V"
  proof (cases "Arm c")
    case NoArm
    then show ?thesis using assms by (simp add: thresholds_accepted_def)
  next
    case (RowCountArm rc)
    then have "ty = ROW_COUNT" using assms by (simp add: thresholds_accepted_def)
    then show ?thesis by (simp add: rules evaluateRowCount_def RowCountArm)
  next
    case (RowCountChangeArm ch)
    then have "ty = ROW_COUNT_CHANGE" using assms by (simp add: thresholds_accepted_def)
    then show ?thesis by (simp add: rules evaluateRowCountChange_def RowCountChangeArm split: option.splits)
  next
    case (NullPercentArm np)
    then have ty: "ty = NULL_PERCENT" and np: "validateNullPercentBounds np = None"
      using assms by (simp_all add: thresholds_accepted_def)
    have "MaxNullCount np \<noteq> None \<or> MaxNullPct np \<noteq> None"
      using np by (cases "MaxNullCount np"; cases "MaxNullPct np"; cases "WarnNullCount np"; cases "WarnNullPct np")
        (simp_all add: validateNullPercentBounds_def)
    then show ?thesis unfolding ty
      by (cases "MaxNullCount np"; cases "MaxNullPct np") (simp_all add: rules evaluateNullPercent_def NullPercentArm)
  next
    case (FreshnessArm fr)
    then have "ty = FRESHNESS" using assms by (simp add: thresholds_accepted_def)
    then show ?thesis by (simp add: rules evaluateFreshness_def FreshnessArm)
  next
    case (AggregateArm ag)
    then have "ty = AGGREGATE_RULE" using assms by (simp add: thresholds_accepted_def)
    then show ?thesis by (simp add: rules evaluateAggregate_def AggregateArm)
  next
    case (CrossTableArm ct)
    then have "ty = CROSS_TABLE" using assms by (simp add: thresholds_accepted_def)
    then show ?thesis by (simp add: rules evaluateCrossTable_def CrossTableArm)
  next
    case (SegmentCheckArm sc)
    then have "ty = SEGMENT_CHECK" using assms by (simp add: thresholds_accepted_def)
    then show ?thesis by (simp add: rules evaluateSegmentCheck_def SegmentCheckArm)
  next
    case (CountArm ty' fail warn)
    then have "ty \<in> set count_types" using assms by (simp add: thresholds_accepted_def)
    then show ?thesis by (simp add: Evaluate_count rules evaluateCount_def)
  qed
  then show ?thesis by (simp only: V_def)
qed

theorem accepted_rule_is_judged_witness:
  "Status (Evaluate NULL_PERCENT (Some \<lparr>Arm = NullPercentArm \<lparr>MaxNullCount = None, WarnNullCount = None,
      MaxNullPct = Some (Fin 5), WarnNullPct = None\<rparr>, cfg_OnEmpty = EMPTY_FAIL, cfg_ThresholdMetric = COUNT\<rparr>)
    \<lparr>Observed = NaN, FailedRows = 1, TotalRows = 3, ObservedNull = False, MaxTimestamp = None, Baseline = None\<rparr>)
   \<in> {PASS, WARN, FAIL, NOT_EVALUATED}"
  by (rule accepted_rule_is_judged)
    (simp add: thresholds_accepted_def validateOnEmpty_def validateThresholdMetric_def validatePercentSupport_def
      validateNullPercentBounds_def outside_percent_def not_finite_def)

subsection \<open>Row counts that pass\<close>

definition small_bounds :: "RowCountConfig \<Rightarrow> bool" where
  "small_bounds rc \<longleftrightarrow> (\<forall>b\<in>{MinRows rc, MaxRows rc, ExactRows rc, WarnMinRows rc, WarnMaxRows rc}.
     \<forall>n. b = Some n \<longrightarrow> n \<le> 2 ^ 53)"

text \<open>A count at or above, or at or below, a bound that may be unset.\<close>

definition at_least :: "int \<Rightarrow> int option \<Rightarrow> bool" where
  "at_least n b = (case b of None \<Rightarrow> True | Some x \<Rightarrow> x \<le> n)"

definition at_most :: "int \<Rightarrow> int option \<Rightarrow> bool" where
  "at_most n b = (case b of None \<Rightarrow> True | Some x \<Rightarrow> n \<le> x)"

lemma exact_bounds:
  assumes "0 \<le> n" "n \<le> 2 ^ 53" "\<not> opt_negative b" "\<forall>x. b = Some x \<longrightarrow> x \<le> 2 ^ 53"
  shows "below_int (f_of_int n) b \<longleftrightarrow> \<not> at_least n b" "above_int (f_of_int n) b \<longleftrightarrow> \<not> at_most n b"
  using assms by (cases b; simp add: below_int_def above_int_def below_def above_def at_least_def at_most_def
      opt_negative_def not_le)+

lemma row_count_passes:
  assumes "0 \<le> n" "n \<le> 2 ^ 53" "Arm c = RowCountArm rc" "validateRowCountConfig (Some rc) = None" "small_bounds rc"
  shows "Status (Evaluate ROW_COUNT (Some c) (obs\<lparr>Observed := Fin 0, TotalRows := n\<rparr>)) = PASS \<longleftrightarrow>
    at_least n (MinRows rc) \<and> at_most n (MaxRows rc) \<and> at_least n (ExactRows rc) \<and> at_most n (ExactRows rc)
    \<and> at_least n (WarnMinRows rc) \<and> at_most n (WarnMaxRows rc)"
proof -
  have nn: "\<not> opt_negative (MinRows rc)" "\<not> opt_negative (MaxRows rc)" "\<not> opt_negative (ExactRows rc)"
    "\<not> opt_negative (WarnMinRows rc)" "\<not> opt_negative (WarnMaxRows rc)"
    "ExactRows rc = None \<or> MinRows rc = None \<and> MaxRows rc = None"
    using assms(4) by (simp_all add: validateRowCountConfig_def split: if_splits)
  have ex: "f_eq (f_of_int n) (f_of_int e) \<longleftrightarrow> n = e" if "ExactRows rc = Some e" for e
    using assms(1,2,5) nn(3) that by (simp add: f_eq_def small_bounds_def opt_negative_def)
  have "outOfBounds (f_of_int n) (MinRows rc) (MaxRows rc) (ExactRows rc) \<longleftrightarrow>
      \<not> (at_least n (MinRows rc) \<and> at_most n (MaxRows rc) \<and> at_least n (ExactRows rc) \<and> at_most n (ExactRows rc))"
    using exact_bounds [OF assms(1,2)] nn assms(5) ex
    by (cases "ExactRows rc") (auto simp: outOfBounds_def small_bounds_def at_least_def at_most_def)
  moreover have "warnOutOfBounds (f_of_int n) (WarnMinRows rc) (WarnMaxRows rc) \<longleftrightarrow>
      \<not> (at_least n (WarnMinRows rc) \<and> at_most n (WarnMaxRows rc))"
    using exact_bounds [OF assms(1,2)] nn assms(5) by (auto simp: warnOutOfBounds_def small_bounds_def)
  moreover have "f_eq (Fin 0) (Fin 0)" by (simp add: f_eq_def)
  ultimately show ?thesis
    by (auto simp: Evaluate_types evaluateRowCount_def assms(3) Let_def)
qed

text \<open>
  A row-count rule the save gate accepted has a count it passes on exactly when its warning
  bounds leave room inside its failing bounds. The gate does not ask that: a rule whose lower warning
  bound lies above its maximum, or whose upper one lies below its minimum or its exact count, is
  saved and can never pass.
\<close>

theorem row_count_rule_can_pass_iff:
  assumes "Arm c = RowCountArm rc" "validateRowCountConfig (Some rc) = None" "small_bounds rc"
  shows "(\<exists>n. 0 \<le> n \<and> n \<le> 2 ^ 53
      \<and> Status (Evaluate ROW_COUNT (Some c) (obs\<lparr>Observed := Fin 0, TotalRows := n\<rparr>)) = PASS) \<longleftrightarrow>
    \<not> opt_less (MaxRows rc) (WarnMinRows rc) \<and> \<not> opt_less (WarnMaxRows rc) (MinRows rc)
    \<and> \<not> opt_less (ExactRows rc) (WarnMinRows rc) \<and> \<not> opt_less (WarnMaxRows rc) (ExactRows rc)"
    (is "?can \<longleftrightarrow> ?room")
proof -
  have can: "?can \<longleftrightarrow> (\<exists>n. 0 \<le> n \<and> n \<le> 2 ^ 53 \<and> at_least n (MinRows rc) \<and> at_most n (MaxRows rc)
      \<and> at_least n (ExactRows rc) \<and> at_most n (ExactRows rc)
      \<and> at_least n (WarnMinRows rc) \<and> at_most n (WarnMaxRows rc))"
    using row_count_passes [OF _ _ assms] by blast
  have gate: "\<not> opt_less (MaxRows rc) (MinRows rc)" "\<not> opt_less (WarnMaxRows rc) (WarnMinRows rc)"
    "\<not> opt_negative (MinRows rc)" "\<not> opt_negative (MaxRows rc)" "\<not> opt_negative (ExactRows rc)"
    "\<not> opt_negative (WarnMinRows rc)" "\<not> opt_negative (WarnMaxRows rc)"
    "ExactRows rc = None \<or> MinRows rc = None \<and> MaxRows rc = None"
    using assms(2) by (simp_all add: validateRowCountConfig_def split: if_splits)
  show ?thesis
  proof
    assume ?room
    define opt where "opt b = (case b of None \<Rightarrow> 0 | Some n \<Rightarrow> n)" for b :: "int option"
    define n where "n = max (opt (MinRows rc)) (max (opt (WarnMinRows rc)) (opt (ExactRows rc)))"
    have "0 \<le> n \<and> n \<le> 2 ^ 53"
      using assms(3) gate(3,5,6) by (auto simp: n_def opt_def small_bounds_def opt_negative_def split: option.splits)
    moreover have "at_least n (MinRows rc)" "at_least n (WarnMinRows rc)" "at_least n (ExactRows rc)"
      by (auto simp: at_least_def n_def opt_def split: option.splits)
    moreover have "at_most n (MaxRows rc)" "at_most n (WarnMaxRows rc)" "at_most n (ExactRows rc)"
      using gate \<open>?room\<close> by (auto simp: at_most_def n_def opt_def opt_less_def opt_negative_def split: option.splits)
    ultimately show ?can unfolding can by blast
  next
    assume ?can
    then show ?room unfolding can by (auto simp: at_least_def at_most_def opt_less_def split: option.splits)
  qed
qed

theorem row_count_rule_can_pass_iff_witness:
  "\<exists>c rc. Arm c = RowCountArm rc \<and> validateRowCountConfig (Some rc) = None \<and> small_bounds rc
    \<and> (\<forall>obs n. 0 \<le> n \<and> n \<le> 2 ^ 53 \<longrightarrow>
         Status (Evaluate ROW_COUNT (Some c) (obs\<lparr>Observed := Fin 0, TotalRows := n\<rparr>)) \<noteq> PASS)"
proof -
  let ?rc = "\<lparr>MinRows = None, MaxRows = Some 50, ExactRows = None, WarnMinRows = Some 100, WarnMaxRows = None\<rparr>"
  let ?c = "\<lparr>Arm = RowCountArm ?rc, cfg_OnEmpty = EMPTY_UNSPECIFIED, cfg_ThresholdMetric = METRIC_UNSPECIFIED\<rparr>"
  have "Arm ?c = RowCountArm ?rc" "validateRowCountConfig (Some ?rc) = None" "small_bounds ?rc"
    by (simp_all add: validateRowCountConfig_def opt_negative_def opt_less_def small_bounds_def)
  with row_count_rule_can_pass_iff [OF this] show ?thesis
    by (intro exI [of _ ?c] exI [of _ ?rc]) (auto simp: opt_less_def)
qed

end
