(* ===== verification/Quality_Rollup.thy ===== *)
theory Quality_Rollup
  imports Quality_Verdict
begin

text \<open>
  The state of a batch, \<open>backend/component/dataquality/model.go\<close>: the worst of its results, and the
  tallies a batch stores with the state they give. The tallies are \<open>int32\<close>; their wrap-around is
  written out.
\<close>

subsection \<open>Definitions\<close>

definition int32 :: "int \<Rightarrow> int" where
  "int32 n = (n + 2 ^ 31) mod 2 ^ 32 - 2 ^ 31"

record QualityStatusCounts =
  Total :: int
  Pass :: int
  Warn :: int
  Fail :: int
  Error :: int
  Skipped :: int
  NotEvaluated :: int

text \<open>A map with six keys; the other statuses have no rank.\<close>

fun statusRank :: "QualityStatus \<Rightarrow> nat option" where
  "statusRank PASS = Some 0"
| "statusRank SKIPPED = Some 1"
| "statusRank NOT_EVALUATED = Some 2"
| "statusRank WARN = Some 3"
| "statusRank FAIL = Some 4"
| "statusRank ERROR = Some 5"
| "statusRank _ = None"

fun rollupLoop :: "QualityStatus list \<Rightarrow> QualityStatus \<Rightarrow> nat \<Rightarrow> QualityStatus" where
  "rollupLoop [] worst worstRank = worst"
| "rollupLoop (status # statuses) worst worstRank =
     (case statusRank status of
        None \<Rightarrow> rollupLoop statuses worst worstRank
      | Some rank \<Rightarrow>
          if worstRank < rank then rollupLoop statuses status rank
          else rollupLoop statuses worst worstRank)"

definition Rollup :: "QualityStatus list \<Rightarrow> QualityStatus" where
  "Rollup statuses = (if statuses = [] then NOT_EVALUATED else rollupLoop statuses PASS 0)"

definition RollupCounts :: "QualityStatusCounts option \<Rightarrow> QualityStatus" where
  "RollupCounts counts =
     (case counts of
        None \<Rightarrow> NOT_EVALUATED
      | Some c \<Rightarrow>
          if Total c = 0 then NOT_EVALUATED
          else if 0 < Error c then ERROR
          else if 0 < Fail c then FAIL
          else if 0 < Warn c then WARN
          else if 0 < NotEvaluated c then NOT_EVALUATED
          else if Skipped c = Total c then SKIPPED
          else PASS)"

text \<open>One step of the tally; whatever is no verdict counts as not evaluated.\<close>

definition countResult :: "QualityStatusCounts \<Rightarrow> QualityStatus \<Rightarrow> QualityStatusCounts" where
  "countResult c status =
     (case status of
        PASS \<Rightarrow> c\<lparr>Pass := int32 (Pass c + 1)\<rparr>
      | WARN \<Rightarrow> c\<lparr>Warn := int32 (Warn c + 1)\<rparr>
      | FAIL \<Rightarrow> c\<lparr>Fail := int32 (Fail c + 1)\<rparr>
      | ERROR \<Rightarrow> c\<lparr>Error := int32 (Error c + 1)\<rparr>
      | SKIPPED \<Rightarrow> c\<lparr>Skipped := int32 (Skipped c + 1)\<rparr>
      | _ \<Rightarrow> c\<lparr>NotEvaluated := int32 (NotEvaluated c + 1)\<rparr>)"

definition CountResults :: "QualityStatus list \<Rightarrow> QualityStatusCounts \<times> QualityStatus" where
  "CountResults statuses =
     (let counts = foldl countResult \<lparr>Total = int32 (int (length statuses)), Pass = 0, Warn = 0, Fail = 0,
            Error = 0, Skipped = 0, NotEvaluated = 0\<rparr> statuses
      in (counts, RollupCounts (Some counts)))"

subsection \<open>The tallies\<close>

definition occurs :: "QualityStatus list \<Rightarrow> (QualityStatus \<Rightarrow> bool) \<Rightarrow> int" where
  "occurs ss P = int (length (filter P ss))"

definition unjudged :: "QualityStatus \<Rightarrow> bool" where
  "unjudged s \<longleftrightarrow> s \<notin> {PASS, WARN, FAIL, ERROR, SKIPPED}"

lemma int32_small: "- (2 ^ 31) \<le> n \<Longrightarrow> n < 2 ^ 31 \<Longrightarrow> int32 n = n"
  by (simp add: int32_def)

lemma occurs_simps [simp]:
  "occurs [] P = 0" "occurs (ss @ [s]) P = occurs ss P + (if P s then 1 else 0)"
  by (simp_all add: occurs_def)

lemma occurs_bounds: "0 \<le> occurs ss P" "occurs ss P \<le> int (length ss)"
  by (simp_all add: occurs_def)

lemma occurs_pos: "0 < occurs ss P \<longleftrightarrow> (\<exists>s\<in>set ss. P s)"
  by (simp add: occurs_def filter_empty_conv)

lemma occurs_all: "occurs ss P = int (length ss) \<longleftrightarrow> (\<forall>s\<in>set ss. P s)"
  by (auto simp: occurs_def dest: length_filter_less)

lemma tally:
  assumes "int (length ss) < 2 ^ 31"
  shows "foldl countResult \<lparr>Total = n, Pass = 0, Warn = 0, Fail = 0, Error = 0, Skipped = 0, NotEvaluated = 0\<rparr> ss =
    \<lparr>Total = n, Pass = occurs ss ((=) PASS), Warn = occurs ss ((=) WARN), Fail = occurs ss ((=) FAIL),
     Error = occurs ss ((=) ERROR), Skipped = occurs ss ((=) SKIPPED), NotEvaluated = occurs ss unjudged\<rparr>"
  using assms
proof (induction ss rule: rev_induct)
  case (snoc s ss)
  have "int32 (occurs ss P + 1) = occurs ss P + 1" for P
    using snoc.prems occurs_bounds [of ss P] by (intro int32_small) auto
  then show ?case using snoc by (cases s) (simp_all add: countResult_def unjudged_def)
qed simp

text \<open>The outcome of the tallies, read from the statuses.\<close>

lemma outcome:
  assumes "int (length ss) < 2 ^ 31" "ss \<noteq> []"
  shows "snd (CountResults ss) =
    (if ERROR \<in> set ss then ERROR else if FAIL \<in> set ss then FAIL else if WARN \<in> set ss then WARN
     else if \<exists>s\<in>set ss. unjudged s then NOT_EVALUATED
     else if \<forall>s\<in>set ss. s = SKIPPED then SKIPPED else PASS)"
proof -
  have n: "int32 (int (length ss)) = int (length ss)" using assms(1) by (intro int32_small) auto
  show ?thesis
    using assms(2) occurs_all [of ss "(=) SKIPPED"]
    by (auto simp: CountResults_def Let_def tally [OF assms(1)] RollupCounts_def n occurs_pos)
qed

definition worst_of :: "QualityStatus set \<Rightarrow> QualityStatus" where
  "worst_of S =
     (if ERROR \<in> S then ERROR else if FAIL \<in> S then FAIL else if WARN \<in> S then WARN
      else if NOT_EVALUATED \<in> S then NOT_EVALUATED else if SKIPPED \<in> S then SKIPPED else PASS)"

lemma rollupLoop_worst:
  "statusRank worst = Some k \<Longrightarrow> rollupLoop ss worst k = worst_of (insert worst (set ss))"
proof (induction ss arbitrary: worst k)
  case Nil
  then show ?case by (cases worst) (simp_all add: worst_of_def)
next
  case (Cons s ss)
  show ?case
  proof (cases "statusRank s")
    case None
    then show ?thesis using Cons.IH [OF Cons.prems] by (cases s) (simp_all add: worst_of_def)
  next
    case (Some r)
    show ?thesis
    proof (cases "k < r")
      case True
      then show ?thesis using Some Cons.prems Cons.IH [OF Some]
        by (cases s; cases worst) (simp_all add: worst_of_def)
    next
      case False
      then show ?thesis using Some Cons.prems Cons.IH [OF Cons.prems]
        by (cases s; cases worst) (simp_all add: worst_of_def)
    qed
  qed
qed

lemma Rollup_worst: "ss \<noteq> [] \<Longrightarrow> Rollup ss = worst_of (insert PASS (set ss))"
  by (simp add: Rollup_def rollupLoop_worst)

text \<open>
  C33. The state a batch stores with its tallies is the worst of its results, as \<open>Rollup\<close> computes
  it, exactly when some result is ERROR, FAIL, WARN or NOT_EVALUATED or when the batch is all PASS or
  all SKIPPED. A batch of passed and skipped results is SKIPPED for one and PASS for the other, and
  results that are no verdict are PASS for one and NOT_EVALUATED for the other.
\<close>

theorem rollups_agree_iff:
  assumes "int (length ss) < 2 ^ 31" "ss \<noteq> []"
  shows "snd (CountResults ss) = Rollup ss \<longleftrightarrow>
    (\<exists>s\<in>set ss. s \<in> {ERROR, FAIL, WARN, NOT_EVALUATED})
    \<or> (\<forall>s\<in>set ss. s = PASS) \<or> (\<forall>s\<in>set ss. s = SKIPPED)"
proof (cases "\<exists>s\<in>set ss. s \<in> {ERROR, FAIL, WARN, NOT_EVALUATED}")
  case True
  then show ?thesis
    by (auto simp: outcome [OF assms] Rollup_worst [OF assms(2)] worst_of_def unjudged_def)
next
  case False
  then have rest: "ERROR \<notin> set ss" "FAIL \<notin> set ss" "WARN \<notin> set ss" "NOT_EVALUATED \<notin> set ss" by auto
  obtain x where x: "x \<in> set ss" using assms(2) by (cases ss) auto
  show ?thesis
  proof (cases "\<exists>s\<in>set ss. unjudged s")
    case True
    then show ?thesis using rest
      by (auto simp: outcome [OF assms] Rollup_worst [OF assms(2)] worst_of_def unjudged_def)
  next
    case no: False
    then have "\<forall>s\<in>set ss. s = PASS \<or> s = SKIPPED" using rest by (auto simp: unjudged_def)
    then show ?thesis using rest no x
      by (auto simp: outcome [OF assms] Rollup_worst [OF assms(2)] worst_of_def)
  qed
qed

theorem rollups_agree_iff_witness:
  "snd (CountResults [PASS, SKIPPED]) \<noteq> Rollup [PASS, SKIPPED]
    \<and> snd (CountResults [STATUS_UNSPECIFIED]) \<noteq> Rollup [STATUS_UNSPECIFIED]
    \<and> snd (CountResults [PASS, SKIPPED, FAIL]) = Rollup [PASS, SKIPPED, FAIL]"
  using rollups_agree_iff [of "[PASS, SKIPPED]"] rollups_agree_iff [of "[STATUS_UNSPECIFIED]"]
    rollups_agree_iff [of "[PASS, SKIPPED, FAIL]"] by simp

end
