(* ===== verification/Quality_Score.thy ===== *)
theory Quality_Score
  imports Quality_Laws Quality_Rollup
begin

text \<open>
  The quality score, \<open>backend/component/dataquality/score.go\<close>: the score of one check, its weight, and
  the aggregate of a scope, in \<open>float64\<close>; and the scores of the targets,
  \<open>backend/api/v1/data_quality_target.go\<close>.
\<close>

subsection \<open>Definitions\<close>

datatype ScoreMode = ScoreModeNone | ScoreModeRows | ScoreModeStatus

datatype QualitySeverity = SEVERITY_UNSPECIFIED | SEVERITY_WARNING | SEVERITY_ERROR | SEVERITY_CRITICAL | OTHER_SEVERITY nat

definition ScoreModeFor :: "QualityRuleType \<Rightarrow> ScoreMode" where
  "ScoreModeFor ruleType =
     (case ruleTypeSpecFor ruleType of
        None \<Rightarrow> ScoreModeNone
      | Some spec \<Rightarrow> if CountsTotal spec \<or> ruleType = NULL_PERCENT then ScoreModeRows else ScoreModeStatus)"

definition verdictScore :: "QualityStatus \<Rightarrow> float64 \<times> bool" where
  "verdictScore status =
     (case status of
        PASS \<Rightarrow> (Fin 1, True)
      | WARN \<Rightarrow> (Fin (1 / 2), True)
      | FAIL \<Rightarrow> (Fin 0, True)
      | _ \<Rightarrow> (Fin 0, False))"

definition clampUnit :: "float64 \<Rightarrow> float64" where
  "clampUnit score = f_min (f_max score (Fin 0)) (Fin 1)"

definition CheckScore :: "QualityRuleType \<Rightarrow> QualityStatus \<Rightarrow> int \<Rightarrow> int \<Rightarrow> float64 \<times> bool" where
  "CheckScore ruleType status failedRows totalRows =
     (let mode = ScoreModeFor ruleType in
      if mode = ScoreModeNone then (Fin 0, False)
      else
        let (statusScore, statusJudged) = verdictScore status in
        if mode = ScoreModeRows \<and> statusJudged \<and> 0 < totalRows
        then (clampUnit (f_sub (Fin 1) (f_div (f_of_int failedRows) (f_of_int totalRows))), True)
        else (statusScore, statusJudged))"

definition CheckWeight :: "QualitySeverity \<Rightarrow> float64" where
  "CheckWeight severity =
     (case severity of SEVERITY_ERROR \<Rightarrow> Fin 2 | SEVERITY_CRITICAL \<Rightarrow> Fin 3 | _ \<Rightarrow> Fin 1)"

record ScoreAggregate =
  weightedSum :: float64
  weightSum :: float64
  scored :: int
  sa_failing :: int

text \<open>The zero value.\<close>

definition emptyAggregate :: ScoreAggregate where
  "emptyAggregate = \<lparr>weightedSum = Fin 0, weightSum = Fin 0, scored = 0, sa_failing = 0\<rparr>"

definition sa_Add :: "float64 \<Rightarrow> QualitySeverity \<Rightarrow> bool \<Rightarrow> ScoreAggregate \<Rightarrow> ScoreAggregate" where
  "sa_Add score severity isFailing a =
     (let weight = CheckWeight severity in
      \<lparr>weightedSum = f_add (weightedSum a) (f_mul weight score),
       weightSum = f_add (weightSum a) weight,
       scored = int32 (scored a + 1),
       sa_failing = (if isFailing then int32 (sa_failing a + 1) else sa_failing a)\<rparr>)"

definition sa_Score :: "ScoreAggregate \<Rightarrow> float64 \<times> bool" where
  "sa_Score a =
     (if f_le (weightSum a) (Fin 0) then (Fin 0, False)
      else (f_div (f_mul (Fin 100) (weightedSum a)) (weightSum a), True))"

text \<open>
  The scores of the targets. A rule and an execution have the fields the loop reads; the newest
  completed executions are a map from rule identifiers.
\<close>

datatype QualityRuleState = STATE_UNSPECIFIED | ENABLED | PAUSED | ARCHIVED | OTHER_STATE nat

type_synonym MetaGUIDKey = "string \<times> MetaType"

record QualityRuleMessage =
  rule_ID :: int
  rule_Type :: QualityRuleType
  rule_TargetGUID :: string
  rule_TargetType :: MetaType
  rule_Severity :: QualitySeverity
  rule_State :: QualityRuleState

record QualityExecutionMessage =
  exec_TargetGUID :: string
  exec_TargetType :: MetaType
  exec_Status :: QualityStatus
  exec_FailedRows :: int
  exec_TotalRows :: int

record qualityTargetScore =
  ts_score :: "float64 option"
  ts_scored :: int

definition ruleLatestResult ::
    "QualityRuleMessage \<Rightarrow> (int \<rightharpoonup> QualityExecutionMessage) \<Rightarrow> QualityExecutionMessage option" where
  "ruleLatestResult rule latest =
     (case latest (rule_ID rule) of
        None \<Rightarrow> None
      | Some execution \<Rightarrow>
          if exec_TargetGUID execution \<noteq> rule_TargetGUID rule \<or> exec_TargetType execution \<noteq> rule_TargetType rule
          then None else Some execution)"

definition targetKey :: "QualityRuleMessage \<Rightarrow> MetaGUIDKey" where
  "targetKey rule = (rule_TargetGUID rule, rule_TargetType rule)"

definition foldRule ::
    "(int \<rightharpoonup> QualityExecutionMessage) \<Rightarrow> (MetaGUIDKey \<rightharpoonup> ScoreAggregate) \<Rightarrow> QualityRuleMessage
     \<Rightarrow> (MetaGUIDKey \<rightharpoonup> ScoreAggregate)" where
  "foldRule latest aggregates rule =
     (if rule_State rule \<noteq> ENABLED then aggregates
      else
        case ruleLatestResult rule latest of
          None \<Rightarrow> aggregates
        | Some execution \<Rightarrow>
            let (score, judged) =
                  CheckScore (rule_Type rule) (exec_Status execution) (exec_FailedRows execution) (exec_TotalRows execution)
            in
            if \<not> judged then aggregates
            else
              let aggregate = (case aggregates (targetKey rule) of None \<Rightarrow> emptyAggregate | Some a \<Rightarrow> a)
              in aggregates(targetKey rule \<mapsto>
                   sa_Add score (rule_Severity rule) (exec_Status execution = FAIL) aggregate))"

definition scorePointer :: "float64 \<Rightarrow> bool \<Rightarrow> float64 option" where
  "scorePointer score judged = (if judged then Some score else None)"

definition qualityTargetScores ::
    "QualityRuleMessage list \<Rightarrow> (int \<rightharpoonup> QualityExecutionMessage) \<Rightarrow> (MetaGUIDKey \<rightharpoonup> qualityTargetScore)" where
  "qualityTargetScores rules latest =
     (\<lambda>key. case foldl (foldRule latest) (\<lambda>_. None) rules key of
        None \<Rightarrow> None
      | Some aggregate \<Rightarrow>
          let (score, judged) = sa_Score aggregate in
          Some \<lparr>ts_score = scorePointer score judged, ts_scored = scored aggregate\<rparr>)"

subsection \<open>One check\<close>

text \<open>The rows of a judged check, and the rules of a target that are judged.\<close>

definition int64_rows :: "QualityExecutionMessage \<Rightarrow> bool" where
  "int64_rows e \<longleftrightarrow> \<bar>exec_FailedRows e\<bar> \<le> 2 ^ 63 \<and> \<bar>exec_TotalRows e\<bar> \<le> 2 ^ 63"

definition ruleScore ::
    "(int \<rightharpoonup> QualityExecutionMessage) \<Rightarrow> QualityRuleMessage \<Rightarrow> (float64 \<times> bool) option" where
  "ruleScore latest rule =
     (if rule_State rule \<noteq> ENABLED then None
      else case ruleLatestResult rule latest of
          None \<Rightarrow> None
        | Some e \<Rightarrow>
            let (score, judged) = CheckScore (rule_Type rule) (exec_Status e) (exec_FailedRows e) (exec_TotalRows e)
            in if judged then Some (score, exec_Status e = FAIL) else None)"

definition judgedRules ::
    "QualityRuleMessage list \<Rightarrow> (int \<rightharpoonup> QualityExecutionMessage) \<Rightarrow> MetaGUIDKey \<Rightarrow> QualityRuleMessage list" where
  "judgedRules rules latest key = [r \<leftarrow> rules. targetKey r = key \<and> ruleScore latest r \<noteq> None]"

lemma clampUnit_bounds: "x \<noteq> NaN \<Longrightarrow> \<exists>s. clampUnit x = Fin s \<and> 0 \<le> s \<and> s \<le> 1"
  by (cases x) (auto simp: clampUnit_def f_min_def f_max_def)

lemma row_share_not_nan:
  assumes "\<bar>f\<bar> \<le> 2 ^ 63" "\<bar>t\<bar> \<le> 2 ^ 63" "0 < t"
  shows "f_sub (Fin 1) (f_div (f_of_int f) (f_of_int t)) \<noteq> NaN"
proof -
  obtain a where a: "f_of_int f = Fin a" using f_of_int_int64 [OF assms(1)] by metis
  obtain b where b: "f_of_int t = Fin b" "1 \<le> b" using f_of_int_int64 [OF assms(2)] assms(3) by force
  show ?thesis
    using b(2) binary64.rnd_not_nan
    by (cases "round64 (a / b)") (simp_all add: a b(1) f_sub_def)
qed

lemma CheckScore_unit:
  assumes "CheckScore ty st f t = (s, True)" "\<bar>f\<bar> \<le> 2 ^ 63" "\<bar>t\<bar> \<le> 2 ^ 63"
  shows "\<exists>r. s = Fin r \<and> 0 \<le> r \<and> r \<le> 1"
proof -
  have "\<exists>r. fst (verdictScore st) = Fin r \<and> 0 \<le> r \<and> r \<le> 1"
    by (cases st) (auto simp: verdictScore_def intro: exI [of _ "1 / 2"])
  then show ?thesis
    using assms(1) clampUnit_bounds [OF row_share_not_nan [OF assms(2,3)]]
    by (auto simp: CheckScore_def Let_def split: if_splits prod.splits)
qed

lemma CheckWeight_int: "\<exists>k. CheckWeight v = Fin (of_int k) \<and> 1 \<le> k \<and> k \<le> 3"
proof -
  have "CheckWeight v \<in> {Fin (of_int 1), Fin (of_int 2), Fin (of_int 3)}"
    by (simp add: CheckWeight_def split: QualitySeverity.splits)
  then show ?thesis by (elim insertE emptyE) (intro exI conjI, assumption, simp, simp)+
qed

subsection \<open>One aggregate\<close>

text \<open>
  An aggregate of \<open>n\<close> judged checks: the sum of the weights is an exact integer, and the weighted sum
  is between zero and it.
\<close>

definition aggregate_of :: "int \<Rightarrow> ScoreAggregate \<Rightarrow> bool" where
  "aggregate_of n a \<longleftrightarrow>
     (\<exists>W w. weightSum a = Fin (of_int W) \<and> weightedSum a = Fin w \<and> 0 \<le> w \<and> w \<le> of_int W \<and>
        n \<le> W \<and> W \<le> 3 * n \<and> scored a = n)"

lemma sa_Add_unit:
  assumes "aggregate_of n a" "0 \<le> n" "n < 2 ^ 31 - 1" "0 \<le> s" "s \<le> 1"
  shows "aggregate_of (n + 1) (sa_Add (Fin s) v f a)"
    and "weightedSum a = Fin 0 \<Longrightarrow> s = 0 \<Longrightarrow> weightedSum (sa_Add (Fin s) v f a) = Fin 0"
    and "weightedSum a = weightSum a \<Longrightarrow> s = 1 \<Longrightarrow>
      weightedSum (sa_Add (Fin s) v f a) = weightSum (sa_Add (Fin s) v f a)"
proof -
  obtain W w where a: "weightSum a = Fin (of_int W)" "weightedSum a = Fin w" "0 \<le> w" "w \<le> of_int W"
      "n \<le> W" "W \<le> 3 * n" "scored a = n"
    using assms(1) by (auto simp: aggregate_of_def)
  obtain k where k: "CheckWeight v = Fin (of_int k)" "1 \<le> k" "k \<le> 3" using CheckWeight_int by blast
  have ks: "of_int 0 \<le> of_int k * s" "of_int k * s \<le> of_int k"
    using assms(4,5) k(2) by (simp_all add: mult_left_le)
  obtain p where p: "round64 (of_int k * s) = Fin p" "of_int 0 \<le> p" "p \<le> of_int k"
    using binary64.rnd_between [OF ks] k by auto
  have wp: "of_int 0 \<le> w + p" "w + p \<le> of_int (W + k)" using a(3,4) p(2,3) by simp_all
  obtain q where q: "round64 (w + p) = Fin q" "of_int 0 \<le> q" "q \<le> of_int (W + k)"
    by (rule binary64.rnd_between [OF wp]) (use a k assms(2,3) in auto)
  have W: "round64 (of_int W + of_int k) = Fin (of_int (W + k))"
    using binary64.rnd_int [of "W + k"] a k assms(2,3) by simp
  have n: "int32 (n + 1) = n + 1" using assms(2,3) by (simp add: int32_small)
  show "aggregate_of (n + 1) (sa_Add (Fin s) v f a)"
    using p q W n a k unfolding aggregate_of_def
    by (intro exI [of _ "W + k"] exI [of _ q]) (auto simp: sa_Add_def Let_def)
  show "weightedSum (sa_Add (Fin s) v f a) = Fin 0" if "weightedSum a = Fin 0" "s = 0"
    using that by (simp add: sa_Add_def k(1))
  show "weightedSum (sa_Add (Fin s) v f a) = weightSum (sa_Add (Fin s) v f a)"
    if "weightedSum a = weightSum a" "s = 1"
    using that a(1) k binary64.rnd_int [of k] by (simp add: sa_Add_def Let_def)
qed

lemma sa_Score_range:
  assumes "aggregate_of n a" "0 < n" "n < 2 ^ 31"
  shows "\<exists>s. sa_Score a = (Fin s, True) \<and> 0 \<le> s \<and> s \<le> 100 \<and>
    (weightedSum a = weightSum a \<longrightarrow> s = 100) \<and> (weightedSum a = Fin 0 \<longrightarrow> s = 0)"
proof -
  obtain W w where a: "weightSum a = Fin (of_int W)" "weightedSum a = Fin w" "0 \<le> w" "w \<le> of_int W"
      "n \<le> W" "W \<le> 3 * n"
    using assms(1) by (auto simp: aggregate_of_def)
  have hw: "of_int 0 \<le> 100 * w" "100 * w \<le> of_int (100 * W)" using a(3,4) by simp_all
  obtain p where p: "round64 (100 * w) = Fin p" "of_int 0 \<le> p" "p \<le> of_int (100 * W)"
    by (rule binary64.rnd_between [OF hw]) (use a assms(2,3) in auto)
  have pos: "(0 :: rat) < of_int W" using a(5) assms(2) by simp
  have pW: "of_int 0 \<le> p / of_int W" "p / of_int W \<le> of_int 100"
    using p(2,3) pos by (simp_all add: divide_le_eq)
  obtain q where q: "round64 (p / of_int W) = Fin q" "of_int 0 \<le> q" "q \<le> of_int 100"
    by (rule binary64.rnd_between [OF pW]) auto
  have score: "sa_Score a = (Fin q, True)" using pos by (simp add: sa_Score_def a p(1) q(1))
  have full: "q = 100" if "w = of_int W"
  proof -
    have "p = of_int (100 * W)"
      using p(1) that binary64.rnd_int [of "100 * W"] a assms(2,3) by simp
    then have "p / of_int W = of_int 100" using pos by simp
    then show ?thesis using q(1) binary64.rnd_int [of 100] by simp
  qed
  have none: "q = 0" if "w = 0" using p(1) q(1) that by simp
  show ?thesis
    using score q full none a(1,2) by auto
qed

subsection \<open>The scores of the targets\<close>

definition addRule ::
    "(int \<rightharpoonup> QualityExecutionMessage) \<Rightarrow> ScoreAggregate \<Rightarrow> QualityRuleMessage \<Rightarrow> ScoreAggregate" where
  "addRule latest a r =
     (case ruleScore latest r of None \<Rightarrow> a | Some (s, fails) \<Rightarrow> sa_Add s (rule_Severity r) fails a)"

lemma foldRule_alt: "foldRule latest m r =
    (if ruleScore latest r = None then m
     else m(targetKey r \<mapsto> addRule latest (case m (targetKey r) of None \<Rightarrow> emptyAggregate | Some a \<Rightarrow> a) r))"
  by (auto simp: foldRule_def ruleScore_def addRule_def Let_def split: option.splits prod.splits)

lemma foldRule_key:
  "foldl (foldRule latest) m rules key =
     (let J = judgedRules rules latest key in
      if J = [] then m key
      else Some (foldl (addRule latest) (case m key of None \<Rightarrow> emptyAggregate | Some a \<Rightarrow> a) J))"
proof (induction rules arbitrary: m)
  case Nil
  then show ?case by (simp add: judgedRules_def)
next
  case (Cons r rules)
  show ?case
    by (cases "ruleScore latest r"; cases "targetKey r = key"; cases "m key")
      (simp_all add: Cons judgedRules_def foldRule_alt [of latest m r] Let_def)
qed

lemma ruleScore_unit:
  assumes "ruleScore latest r = Some (s, fails)" "\<forall>e\<in>ran latest. int64_rows e"
  shows "\<exists>x. s = Fin x \<and> 0 \<le> x \<and> x \<le> 1"
proof -
  obtain e where e: "ruleLatestResult r latest = Some e"
      "CheckScore (rule_Type r) (exec_Status e) (exec_FailedRows e) (exec_TotalRows e) = (s, True)"
    using assms(1) by (auto simp: ruleScore_def Let_def split: if_splits option.splits prod.splits)
  then have "e \<in> ran latest"
    by (auto simp: ruleLatestResult_def ran_def split: option.splits if_splits)
  then show ?thesis using CheckScore_unit [OF e(2)] assms(2) by (auto simp: int64_rows_def)
qed

lemma aggregate_rules:
  assumes "\<forall>e\<in>ran latest. int64_rows e" "\<forall>r\<in>set J. ruleScore latest r \<noteq> None" "length J < 2 ^ 31"
  shows "aggregate_of (int (length J)) (foldl (addRule latest) emptyAggregate J) \<and>
    ((\<forall>r\<in>set J. fst (the (ruleScore latest r)) = Fin 1) \<longrightarrow>
       weightedSum (foldl (addRule latest) emptyAggregate J) = weightSum (foldl (addRule latest) emptyAggregate J)) \<and>
    ((\<forall>r\<in>set J. fst (the (ruleScore latest r)) = Fin 0) \<longrightarrow>
       weightedSum (foldl (addRule latest) emptyAggregate J) = Fin 0)"
  using assms(2,3)
proof (induction J rule: rev_induct)
  case Nil
  show ?case by (auto simp: aggregate_of_def emptyAggregate_def)
next
  case (snoc r J)
  obtain s fails where r: "ruleScore latest r = Some (s, fails)" using snoc.prems(1) by auto
  obtain x where x: "s = Fin x" "0 \<le> x" "x \<le> 1" using ruleScore_unit [OF r assms(1)] by blast
  have IH: "aggregate_of (int (length J)) (foldl (addRule latest) emptyAggregate J)"
    "(\<forall>r\<in>set J. fst (the (ruleScore latest r)) = Fin 1) \<longrightarrow>
       weightedSum (foldl (addRule latest) emptyAggregate J) = weightSum (foldl (addRule latest) emptyAggregate J)"
    "(\<forall>r\<in>set J. fst (the (ruleScore latest r)) = Fin 0) \<longrightarrow>
       weightedSum (foldl (addRule latest) emptyAggregate J) = Fin 0"
    using snoc by simp_all
  have len: "int (length J) < 2 ^ 31 - 1" using snoc.prems(2) by simp
  note step = sa_Add_unit [OF IH(1) _ len x(2,3)]
  have fold: "foldl (addRule latest) emptyAggregate (J @ [r]) =
      sa_Add (Fin x) (rule_Severity r) fails (foldl (addRule latest) emptyAggregate J)"
    by (simp add: addRule_def r x(1))
  show ?case unfolding fold using step(1) step(2) step(3) IH(2,3) r x(1) by (simp add: ac_simps)
qed

text \<open>C34. A target has a score exactly when one of its enabled rules has a judged newest result about
  this very target: the count next to it is the number of those rules, and the score is a number
  between 0 and 100, 100 when every check is perfect and 0 when every check is worthless. A target
  with nothing judged has no entry at all, and no row count, however large or wrong, gives a score
  outside the scale or an undefined one.\<close>

theorem target_score_on_scale:
  assumes "length rules < 2 ^ 31" "\<forall>e\<in>ran latest. int64_rows e"
  shows "case qualityTargetScores rules latest key of
      None \<Rightarrow> judgedRules rules latest key = []
    | Some entry \<Rightarrow>
        judgedRules rules latest key \<noteq> [] \<and>
        ts_scored entry = int (length (judgedRules rules latest key)) \<and>
        (\<exists>s. ts_score entry = Some (Fin s) \<and> 0 \<le> s \<and> s \<le> 100 \<and>
          ((\<forall>r\<in>set (judgedRules rules latest key). fst (the (ruleScore latest r)) = Fin 1) \<longrightarrow> s = 100) \<and>
          ((\<forall>r\<in>set (judgedRules rules latest key). fst (the (ruleScore latest r)) = Fin 0) \<longrightarrow> s = 0))"
proof (cases "judgedRules rules latest key = []")
  case True
  then show ?thesis by (simp add: qualityTargetScores_def foldRule_key)
next
  case False
  define J where "J = judgedRules rules latest key"
  define a where "a = foldl (addRule latest) emptyAggregate J"
  have "length J \<le> length rules" by (simp add: J_def judgedRules_def)
  then have J: "\<forall>r\<in>set J. ruleScore latest r \<noteq> None" "length J < 2 ^ 31" "J \<noteq> []"
    using le_less_trans [OF _ assms(1)] False unfolding J_def by (auto simp: judgedRules_def)
  note agg = aggregate_rules [OF assms(2) J(1,2), folded a_def]
  have n: "0 < int (length J)" "int (length J) < 2 ^ 31" using J(2,3) by simp_all
  obtain s where s: "sa_Score a = (Fin s, True)" "0 \<le> s" "s \<le> 100"
      "weightedSum a = weightSum a \<longrightarrow> s = 100" "weightedSum a = Fin 0 \<longrightarrow> s = 0"
    using sa_Score_range [OF conjunct1 [OF agg] n] by blast
  have entry: "qualityTargetScores rules latest key = Some \<lparr>ts_score = Some (Fin s), ts_scored = scored a\<rparr>"
    using J(3) by (simp add: qualityTargetScores_def foldRule_key s(1) scorePointer_def flip: J_def a_def)
  have "scored a = int (length J)" using agg by (auto simp: aggregate_of_def)
  then show ?thesis unfolding entry J_def [symmetric] using J(3) agg s by simp
qed

definition sample_rule :: "int \<Rightarrow> QualityRuleType \<Rightarrow> QualitySeverity \<Rightarrow> QualityRuleMessage" where
  "sample_rule i ty severity = \<lparr>rule_ID = i, rule_Type = ty, rule_TargetGUID = ''t'', rule_TargetType = TABLE,
     rule_Severity = severity, rule_State = ENABLED\<rparr>"

definition sample_execution :: "QualityStatus \<Rightarrow> int \<Rightarrow> int \<Rightarrow> QualityExecutionMessage" where
  "sample_execution status failed rows = \<lparr>exec_TargetGUID = ''t'', exec_TargetType = TABLE,
     exec_Status = status, exec_FailedRows = failed, exec_TotalRows = rows\<rparr>"

text \<open>A wrong row count (more failed rows than rows) next to a passing critical check.\<close>

theorem target_score_on_scale_witness:
  "case qualityTargetScores [sample_rule 1 UNIQUE SEVERITY_WARNING, sample_rule 2 FRESHNESS SEVERITY_CRITICAL]
      [1 \<mapsto> sample_execution FAIL 7 4, 2 \<mapsto> sample_execution PASS 0 0] (''t'', TABLE) of
      None \<Rightarrow> False
    | Some entry \<Rightarrow> ts_scored entry = 2 \<and> (\<exists>s. ts_score entry = Some (Fin s) \<and> 0 \<le> s \<and> s \<le> 100)"
proof -
  let ?rules = "[sample_rule 1 UNIQUE SEVERITY_WARNING, sample_rule 2 FRESHNESS SEVERITY_CRITICAL]"
  let ?latest = "[1 \<mapsto> sample_execution FAIL 7 4, 2 \<mapsto> sample_execution PASS 0 0]"
  have "ruleScore ?latest r \<noteq> None \<and> targetKey r = (''t'', TABLE)" if "r \<in> set ?rules" for r
    using that
    by (auto simp: ruleScore_def ruleLatestResult_def sample_rule_def sample_execution_def CheckScore_def
        ScoreModeFor_def ruleTypeSpecFor_def ruleTypeSpecs_def verdictScore_def targetKey_def Let_def)
  then have J: "judgedRules ?rules ?latest (''t'', TABLE) = ?rules" by (simp add: judgedRules_def)
  have rows: "\<forall>e\<in>ran ?latest. int64_rows e"
    by (auto simp: int64_rows_def sample_execution_def ran_def split: if_splits)
  have "length ?rules < 2 ^ 31" by simp
  from target_score_on_scale [OF this rows, of "(''t'', TABLE)", unfolded J]
  show ?thesis by (cases "qualityTargetScores ?rules ?latest (''t'', TABLE)") auto
qed

end
