(* ===== verification/Quality_Columns.thy ===== *)
theory Quality_Columns
  imports Go_Strconv Quality_Rules
begin

text \<open>
  The columns a quality rule names: their classification by type name
  (\<open>backend/component/dataquality/types.go\<close>), what each engine can do with them (\<open>capabilities.go\<close>),
  and the checks a rule makes of a column before any SQL is written.
\<close>

subsection \<open>Column kinds\<close>

datatype dq_engine =
    NoEngine | Mssql | Mysql | Postgres | Tidb | Mariadb | Oceanbase | Starrocks | Doris | UnknownEngine nat

datatype ColumnKind = KindUnknown | KindNumeric | KindTemporal | KindString | KindBoolean

definition numericTypes :: "string list" where
  "numericTypes =
     [''int'', ''integer'', ''tinyint'', ''smallint'', ''mediumint'', ''bigint'',
      ''decimal'', ''numeric'', ''float'', ''double'', ''real'', ''serial'',
      ''smallserial'', ''bigserial'', ''number'', ''money'', ''smallmoney'',
      ''dec'', ''fixed'', ''year'', ''largeint'',
      ''decimalv2'', ''decimalv3'', ''decimal32'', ''decimal64'', ''decimal128'']"

definition temporalTypes :: "string list" where
  "temporalTypes =
     [''date'', ''datetime'', ''datetime2'', ''smalldatetime'', ''timestamp'',
      ''timestamptz'', ''timestamp with time zone'', ''timestamp without time zone'',
      ''time'', ''timetz'']"

definition booleanTypes :: "string list" where
  "booleanTypes = [''bool'', ''boolean'', ''bit'']"

definition columnTypeBaseName :: "string \<Rightarrow> string" where
  "columnTypeBaseName columnType =
     takeWhile (\<lambda>c. c \<noteq> CHR ''('' \<and> c \<noteq> CHR '' '') (ToLower (TrimSpace columnType))"

definition ClassifyColumnType :: "string \<Rightarrow> ColumnKind" where
  "ClassifyColumnType columnType =
     (let name = columnTypeBaseName columnType in
      if name = [] then KindUnknown
      else if name \<in> set booleanTypes then KindBoolean
      else if name \<in> set numericTypes then KindNumeric
      else if list_ex (HasPrefix name) temporalTypes then KindTemporal
      else KindString)"

definition classifyColumnTypeForEngine :: "dq_engine \<Rightarrow> string \<Rightarrow> ColumnKind" where
  "classifyColumnTypeForEngine engine columnType =
     (let raw = ToLower (TrimSpace columnType) in
      if engine = Postgres \<and> columnTypeBaseName raw = ''bit'' then KindString
      else if engine = Postgres \<and> (HasSuffix raw ''[]'' \<or> HasPrefix (columnTypeBaseName raw) ''_'') then KindString
      else ClassifyColumnType columnType)"

record ColumnInfo =
  ci_Name :: string
  ci_Type :: string
  ci_Kind :: ColumnKind
  ci_Nullable :: bool

text \<open>Of a resolved target the fields the compilers read; \<open>rt_GUID\<close> appears in messages only.\<close>

record ResolvedTarget =
  rt_GUID :: string
  rt_MetaType :: MetaType
  rt_Engine :: dq_engine
  rt_Instance :: string
  rt_Database :: string
  rt_Schema :: string
  rt_Table :: string
  rt_Columns :: "ColumnInfo list"
  rt_KeyColumns :: "string list"

definition rt_Column :: "ResolvedTarget \<Rightarrow> string \<Rightarrow> ColumnInfo option" where
  "rt_Column target name = find (\<lambda>column. ci_Name column = name) (rt_Columns target)"

definition ColumnNames :: "ResolvedTarget \<Rightarrow> string list" where
  "ColumnNames target = map ci_Name (rt_Columns target)"

definition isMySQLWireEngine :: "dq_engine \<Rightarrow> bool" where
  "isMySQLWireEngine engine \<longleftrightarrow> engine \<in> {Mysql, Tidb, Mariadb, Oceanbase, Starrocks, Doris}"

subsection \<open>Capabilities\<close>

record columnCapabilities =
  cap_comparison :: bool
  cap_grouping :: bool
  cap_countDistinct :: bool
  cap_regex :: bool
  cap_length :: bool
  cap_extrema :: bool
  cap_orderable :: bool
  cap_valueComparison :: bool
  cap_text :: bool
  cap_noColumnCount :: bool
  cap_noNullTest :: bool
  cap_binary :: bool

definition noCapabilities :: columnCapabilities where
  "noCapabilities = \<lparr>cap_comparison = False, cap_grouping = False, cap_countDistinct = False, cap_regex = False,
     cap_length = False, cap_extrema = False, cap_orderable = False, cap_valueComparison = False,
     cap_text = False, cap_noColumnCount = False, cap_noNullTest = False, cap_binary = False\<rparr>"

text \<open>The literals of the tables, by the fields they have in common.\<close>

definition groupable :: columnCapabilities where
  "groupable = noCapabilities\<lparr>cap_grouping := True, cap_countDistinct := True\<rparr>"

definition equatable :: columnCapabilities where
  "equatable = groupable\<lparr>cap_comparison := True, cap_valueComparison := True, cap_orderable := True\<rparr>"

definition textCapabilities :: columnCapabilities where
  "textCapabilities = equatable\<lparr>cap_regex := True, cap_length := True, cap_extrema := True, cap_text := True\<rparr>"

definition scalarCapabilities :: columnCapabilities where
  "scalarCapabilities = equatable\<lparr>cap_extrema := True\<rparr>"

definition geometric :: columnCapabilities where
  "geometric = noCapabilities\<lparr>cap_comparison := True, cap_valueComparison := True\<rparr>"

type_synonym capability_table = "(string \<times> columnCapabilities) list"

definition postgresTypeCapabilities :: capability_table where
  "postgresTypeCapabilities =
     [(''character'', textCapabilities), (''varchar'', textCapabilities), (''text'', textCapabilities),
      (''name'', textCapabilities), (''citext'', textCapabilities), (''varbit'', equatable),
      (''jsonb'', equatable), (''uuid'', equatable), (''bytea'', equatable\<lparr>cap_binary := True\<rparr>),
      (''interval'', scalarCapabilities), (''inet'', scalarCapabilities), (''cidr'', scalarCapabilities),
      (''macaddr'', equatable), (''macaddr8'', equatable), (''bit'', equatable),
      (''json'', noCapabilities), (''xml'', noCapabilities), (''point'', noCapabilities),
      (''polygon'', noCapabilities), (''geometry'', noCapabilities), (''geography'', noCapabilities),
      (''refcursor'', noCapabilities), (''txid_snapshot'', noCapabilities),
      (''box'', geometric), (''line'', geometric), (''lseg'', geometric), (''path'', geometric),
      (''circle'', geometric), (''tsvector'', equatable), (''tsquery'', equatable), (''oid'', equatable),
      (''pg_lsn'', equatable)]"

definition postgresArrayElementCapabilities :: "string list" where
  "postgresArrayElementCapabilities =
     [''int2'', ''int4'', ''int8'', ''float4'', ''float8'', ''numeric'', ''money'',
      ''text'', ''varchar'', ''bpchar'', ''name'', ''citext'',
      ''bool'', ''uuid'', ''bytea'', ''jsonb'', ''varbit'',
      ''timestamp'', ''timestamptz'', ''date'', ''time'', ''timetz'',
      ''interval'', ''inet'', ''cidr'', ''macaddr'', ''macaddr8'',
      ''tsvector'', ''tsquery'', ''oid'', ''pg_lsn'',
      ''int4range'', ''int8range'', ''numrange'', ''tsrange'', ''tstzrange'', ''daterange'']"

definition mssqlTextCapabilities :: columnCapabilities where
  "mssqlTextCapabilities = textCapabilities\<lparr>cap_regex := False\<rparr>"

definition mssqlTypeCapabilities :: capability_table where
  "mssqlTypeCapabilities =
     [(''char'', mssqlTextCapabilities), (''varchar'', mssqlTextCapabilities), (''nchar'', mssqlTextCapabilities),
      (''nvarchar'', mssqlTextCapabilities),
      (''text'', noCapabilities\<lparr>cap_text := True, cap_noColumnCount := True\<rparr>),
      (''ntext'', noCapabilities\<lparr>cap_text := True, cap_noColumnCount := True\<rparr>),
      (''image'', noCapabilities\<lparr>cap_noColumnCount := True, cap_binary := True\<rparr>),
      (''xml'', noCapabilities),
      (''binary'', scalarCapabilities\<lparr>cap_length := True, cap_binary := True\<rparr>),
      (''varbinary'', scalarCapabilities\<lparr>cap_length := True, cap_binary := True\<rparr>),
      (''uniqueidentifier'', scalarCapabilities\<lparr>cap_length := True, cap_binary := True\<rparr>),
      (''sql_variant'', scalarCapabilities),
      (''geometry'', noCapabilities), (''geography'', noCapabilities),
      (''hierarchyid'', scalarCapabilities\<lparr>cap_binary := True\<rparr>)]"

definition mysqlTypeCapabilities :: capability_table where
  "mysqlTypeCapabilities =
     (let spatial = groupable\<lparr>cap_binary := True\<rparr>;
          bytes = scalarCapabilities\<lparr>cap_regex := True, cap_length := True, cap_binary := True\<rparr>;
          blob = bytes\<lparr>cap_orderable := False, cap_valueComparison := False\<rparr>
      in [(''char'', textCapabilities), (''varchar'', textCapabilities), (''tinytext'', textCapabilities),
          (''text'', textCapabilities), (''mediumtext'', textCapabilities), (''longtext'', textCapabilities),
          (''enum'', textCapabilities), (''set'', textCapabilities),
          (''json'', groupable\<lparr>cap_regex := True, cap_length := True, cap_extrema := True, cap_orderable := True\<rparr>),
          (''geometry'', spatial), (''point'', spatial), (''linestring'', spatial), (''polygon'', spatial),
          (''multipoint'', spatial), (''multilinestring'', spatial), (''multipolygon'', spatial),
          (''geometrycollection'', spatial), (''geomcollection'', spatial),
          (''binary'', bytes), (''varbinary'', bytes), (''tinyblob'', bytes), (''blob'', blob),
          (''mediumblob'', blob), (''longblob'', bytes)])"

definition starrocksTypeCapabilities :: capability_table where
  "starrocksTypeCapabilities =
     [(''char'', textCapabilities), (''varchar'', textCapabilities), (''string'', textCapabilities),
      (''text'', textCapabilities), (''varbinary'', groupable\<lparr>cap_length := True, cap_binary := True\<rparr>)]"

definition dorisTypeCapabilities :: capability_table where
  "dorisTypeCapabilities =
     [(''char'', textCapabilities), (''varchar'', textCapabilities), (''string'', textCapabilities),
      (''text'', textCapabilities),
      (''json'', noCapabilities\<lparr>cap_grouping := True, cap_regex := True, cap_length := True\<rparr>)]"

definition lookup_capabilities :: "capability_table \<Rightarrow> string \<Rightarrow> columnCapabilities" where
  "lookup_capabilities table name =
     (case map_of table name of None \<Rightarrow> noCapabilities | Some capabilities \<Rightarrow> capabilities)"

definition mssqlStringCapabilities :: "string \<Rightarrow> columnCapabilities" where
  "mssqlStringCapabilities raw = lookup_capabilities mssqlTypeCapabilities (columnTypeBaseName raw)"

definition mysqlStringCapabilities :: "string \<Rightarrow> columnCapabilities" where
  "mysqlStringCapabilities raw = lookup_capabilities mysqlTypeCapabilities (columnTypeBaseName raw)"

fun stripBackticked :: "bool \<Rightarrow> string \<Rightarrow> string" where
  "stripBackticked inFragment [] = []"
| "stripBackticked inFragment (r # raw) =
     (if r = CHR 0x60 then stripBackticked (\<not> inFragment) raw
      else if \<not> inFragment then r # stripBackticked inFragment raw
      else stripBackticked inFragment raw)"

definition stripBacktickedFragments :: "string \<Rightarrow> string" where
  "stripBacktickedFragments raw = stripBackticked False raw"

definition starrocksArrayCapabilities :: "string \<Rightarrow> columnCapabilities" where
  "starrocksArrayCapabilities raw =
     (let cleaned = stripBacktickedFragments raw in
      if list_ex (str_contains cleaned) [''json'', ''bitmap'', ''hll'', ''percentile'', ''variant'', ''quantile'']
      then noCapabilities else groupable)"

definition starrocksStringCapabilities :: "string \<Rightarrow> columnCapabilities" where
  "starrocksStringCapabilities raw =
     (let name = columnTypeBaseName raw in
      if HasPrefix raw ''array'' then starrocksArrayCapabilities raw
      else if name = ''json''
      then noCapabilities\<lparr>cap_comparison := True, cap_valueComparison := True, cap_length := True\<rparr>
      else if HasPrefix name ''bitmap'' \<or> HasPrefix name ''hll''
      then noCapabilities\<lparr>cap_countDistinct := True, cap_noNullTest := True, cap_binary := True\<rparr>
      else if name = ''percentile'' then noCapabilities\<lparr>cap_noNullTest := True\<rparr>
      else if HasPrefix name ''map'' \<or> HasPrefix name ''struct'' \<or> name = ''variant'' then noCapabilities
      else lookup_capabilities starrocksTypeCapabilities name)"

definition dorisStringCapabilities :: "string \<Rightarrow> columnCapabilities" where
  "dorisStringCapabilities raw =
     (let name = columnTypeBaseName raw in
      if HasPrefix name ''array'' \<or> HasPrefix name ''map'' \<or> HasPrefix name ''struct'' \<or>
         name \<in> {''variant'', ''ipv4'', ''ipv6''}
      then noCapabilities
      else if name \<in> {''bitmap'', ''hll''} then noCapabilities\<lparr>cap_binary := True\<rparr>
      else lookup_capabilities dorisTypeCapabilities name)"

definition postgresArrayFromElement :: "columnCapabilities \<Rightarrow> columnCapabilities" where
  "postgresArrayFromElement elementCaps =
     (if \<not> cap_orderable elementCaps then noCapabilities
      else groupable\<lparr>cap_comparison := True, cap_extrema := True, cap_orderable := True\<rparr>)"

lemma length_TrimSpace: "length (TrimSpace s) \<le> length s"
proof -
  have "length (dropWhile p (rev (dropWhile p s))) \<le> length s" for p
    by (metis le_trans length_dropWhile_le length_rev)
  then show ?thesis by (simp add: TrimSpace_def TrimLeft_def TrimRight_def)
qed

lemma length_columnTypeBaseName: "length (columnTypeBaseName s) \<le> length s"
  using length_takeWhile_le [of _ "ToLower (TrimSpace s)"] length_TrimSpace [of s]
  by (auto simp: columnTypeBaseName_def ToLower_def intro: le_trans)

text \<open>
  An array is what its element type allows. The branches of \<open>capabilitiesFor\<close> for an element's kind
  are written out here, because the element of an element is asked for again.
\<close>

function postgresStringCapabilities :: "string \<Rightarrow> columnCapabilities"
  and postgresElementCapabilities :: "string \<Rightarrow> columnCapabilities" where
  "postgresStringCapabilities raw =
     (let name = columnTypeBaseName raw in
      if HasSuffix raw ''[]''
      then postgresArrayFromElement (postgresElementCapabilities (TrimSpace (take (length raw - 2) raw)))
      else if HasPrefix name ''_'' then postgresArrayFromElement (postgresElementCapabilities (drop 1 name))
      else if CHR ''.'' \<in> set name then
        (let local_name = rev (takeWhile (\<lambda>c. c \<noteq> CHR ''.'') (rev name)) in
         if local_name = ''citext'' then textCapabilities
         else if local_name \<in> {''geometry'', ''geography''} then noCapabilities
         else geometric\<lparr>cap_grouping := True\<rparr>)
      else if HasSuffix name ''multirange'' \<or> HasSuffix name ''range'' then equatable
      else lookup_capabilities postgresTypeCapabilities name)"
| "postgresElementCapabilities element =
     (let name = ToLower (TrimSpace element) in
      if name \<in> set postgresArrayElementCapabilities then noCapabilities\<lparr>cap_orderable := True\<rparr>
      else (case ClassifyColumnType name of
          KindNumeric \<Rightarrow> scalarCapabilities
        | KindTemporal \<Rightarrow> scalarCapabilities
        | KindBoolean \<Rightarrow> equatable
        | KindString \<Rightarrow> postgresStringCapabilities (ToLower (TrimSpace name))
        | KindUnknown \<Rightarrow> noCapabilities))"
  by pat_completeness auto
termination
proof (relation "measure (\<lambda>x. case x of Inl raw \<Rightarrow> 2 * length raw | Inr e \<Rightarrow> 2 * length e + 1)", goal_cases)
  case (2 raw name)
  then have "2 \<le> length raw" by (cases raw; cases "tl raw") (auto simp: HasSuffix_def HasPrefix_def)
  then show ?case using length_TrimSpace [of "take (length raw - 2) raw"] by simp
next
  case (3 raw name)
  then have "name \<noteq> []" by (auto simp: HasPrefix_def)
  then have "1 \<le> length name" by (simp add: Suc_le_eq)
  moreover have "length name \<le> length raw" using 3 length_columnTypeBaseName by simp
  ultimately have "2 * length (drop 1 name) + 1 < 2 * length raw" by simp
  then show ?case by simp
next
  case (4 element name)
  then show ?case using length_TrimSpace [of element] length_TrimSpace [of name]
    by (simp add: ToLower_def)
qed simp

declare postgresStringCapabilities.simps [simp del] postgresElementCapabilities.simps [simp del]

definition stringCapabilities :: "dq_engine \<Rightarrow> string \<Rightarrow> columnCapabilities" where
  "stringCapabilities engine name =
     (case engine of
        Postgres \<Rightarrow> postgresStringCapabilities name
      | Mssql \<Rightarrow> mssqlStringCapabilities name
      | Mysql \<Rightarrow> mysqlStringCapabilities name
      | Tidb \<Rightarrow> mysqlStringCapabilities name
      | Mariadb \<Rightarrow> mysqlStringCapabilities name
      | Oceanbase \<Rightarrow> mysqlStringCapabilities name
      | Starrocks \<Rightarrow> starrocksStringCapabilities name
      | Doris \<Rightarrow> dorisStringCapabilities name
      | _ \<Rightarrow> noCapabilities)"

definition capabilitiesFor :: "dq_engine \<Rightarrow> ColumnInfo \<Rightarrow> columnCapabilities" where
  "capabilitiesFor engine column =
     (case ci_Kind column of
        KindNumeric \<Rightarrow> scalarCapabilities
      | KindTemporal \<Rightarrow> scalarCapabilities
      | KindBoolean \<Rightarrow> equatable
      | KindString \<Rightarrow> stringCapabilities engine (ToLower (TrimSpace (ci_Type column)))
      | KindUnknown \<Rightarrow> noCapabilities)"

definition supportsNullTest :: "ColumnInfo \<Rightarrow> dq_engine \<Rightarrow> bool" where
  "supportsNullTest column engine \<longleftrightarrow> \<not> cap_noNullTest (capabilitiesFor engine column)"

subsection \<open>The column a rule needs\<close>

text \<open>The errors are \<open>invalidConfig\<close> messages; a constructor stands for each.\<close>

datatype column_error =
    ColumnRequired
  | ColumnMissing string
  | ColumnUnclassified string
  | NoRegex string
  | NoLength string
  | NotText string
  | NotComparable string
  | NoScalarComparison string
  | NotGroupable string
  | NoNullTest string
  | NotTemporal string
  | NotOrdered string

definition requireColumn :: "ResolvedTarget \<Rightarrow> string \<Rightarrow> column_error + ColumnInfo" where
  "requireColumn target name =
     (if name = [] then Inl ColumnRequired
      else case rt_Column target name of None \<Rightarrow> Inl (ColumnMissing name) | Some column \<Rightarrow> Inr column)"

text \<open>What the \<open>require*Column\<close> functions share: a known type with the capability.\<close>

definition require_capability ::
    "(columnCapabilities \<Rightarrow> bool) \<Rightarrow> (string \<Rightarrow> column_error) \<Rightarrow> ResolvedTarget \<Rightarrow> string \<Rightarrow> column_error + ColumnInfo" where
  "require_capability allowed err target name =
     (case requireColumn target name of
        Inl e \<Rightarrow> Inl e
      | Inr column \<Rightarrow>
          if ci_Kind column = KindUnknown then Inl (ColumnUnclassified (ci_Name column))
          else if \<not> allowed (capabilitiesFor (rt_Engine target) column) then Inl (err (ci_Name column))
          else Inr column)"

definition requireRegexColumn :: "ResolvedTarget \<Rightarrow> string \<Rightarrow> column_error + ColumnInfo" where
  "requireRegexColumn = require_capability cap_regex NoRegex"

definition requireLengthColumn :: "ResolvedTarget \<Rightarrow> string \<Rightarrow> column_error + ColumnInfo" where
  "requireLengthColumn = require_capability cap_length NoLength"

definition requireTextColumn :: "ResolvedTarget \<Rightarrow> string \<Rightarrow> column_error + ColumnInfo" where
  "requireTextColumn target name =
     (case require_capability (\<lambda>_. True) NotText target name of
        Inl e \<Rightarrow> Inl e
      | Inr column \<Rightarrow>
          if ci_Kind column \<noteq> KindString \<or> \<not> cap_text (capabilitiesFor (rt_Engine target) column)
          then Inl (NotText (ci_Name column)) else Inr column)"

definition requireComparisonColumn :: "ResolvedTarget \<Rightarrow> string \<Rightarrow> column_error + ColumnInfo" where
  "requireComparisonColumn = require_capability cap_comparison NotComparable"

definition requireValueComparisonColumn :: "ResolvedTarget \<Rightarrow> string \<Rightarrow> column_error + ColumnInfo" where
  "requireValueComparisonColumn = require_capability cap_valueComparison NoScalarComparison"

definition requireGroupingColumn :: "ResolvedTarget \<Rightarrow> string \<Rightarrow> column_error + ColumnInfo" where
  "requireGroupingColumn = require_capability cap_grouping NotGroupable"

definition requireNullTestColumn :: "ResolvedTarget \<Rightarrow> string \<Rightarrow> column_error + ColumnInfo" where
  "requireNullTestColumn = require_capability (\<lambda>c. \<not> cap_noNullTest c) NoNullTest"

definition compileTemporalColumn :: "ResolvedTarget \<Rightarrow> string \<Rightarrow> column_error + ColumnInfo" where
  "compileTemporalColumn target name =
     (case requireColumn target name of
        Inl e \<Rightarrow> Inl e
      | Inr column \<Rightarrow> if ci_Kind column \<noteq> KindTemporal then Inl (NotTemporal (ci_Name column)) else Inr column)"

definition compileComparableColumn :: "ResolvedTarget \<Rightarrow> string \<Rightarrow> column_error + ColumnInfo" where
  "compileComparableColumn target name =
     (case requireColumn target name of
        Inl e \<Rightarrow> Inl e
      | Inr column \<Rightarrow>
          if ci_Kind column \<noteq> KindNumeric \<and> ci_Kind column \<noteq> KindTemporal then Inl (NotOrdered (ci_Name column))
          else Inr column)"

definition comparableColumnTypes :: "ColumnInfo \<Rightarrow> ColumnInfo \<Rightarrow> dq_engine \<Rightarrow> bool" where
  "comparableColumnTypes left right engine =
     (if ci_Kind left \<noteq> ci_Kind right then False
      else if ci_Kind left \<noteq> KindString then True
      else if cap_text (capabilitiesFor engine left) \<and> cap_text (capabilitiesFor engine right) then True
      else columnTypeBaseName (ci_Type left) = columnTypeBaseName (ci_Type right))"

end
