(* ===== verification/Time_Variables.thy ===== *)
theory Time_Variables
  imports Go_Strconv
begin

text \<open>
  The time variables of a check definition, \<open>backend/component/dataquality/variables.go\<close>, with the
  parts of package \<open>time\<close> they use. A time zone is a parameter: the offset in force when a second, and
  the seconds between which it is in force.
\<close>

subsection \<open>Package time\<close>

type_synonym zone = "int \<Rightarrow> int \<times> int \<times> int"

definition UTC :: zone where
  "UTC = (\<lambda>_. (0, 0, 0))"

definition local_second :: "zone \<Rightarrow> time \<Rightarrow> int" where
  "local_second location when = (let s = when div second in s + fst (location s))"

text \<open>\<open>time.Date\<close> on the seconds of a wall clock: the offset is looked up twice near a transition.\<close>

definition wall_clock :: "zone \<Rightarrow> int \<Rightarrow> int \<Rightarrow> time" where
  "wall_clock location unix nanos =
     (let (offset, start, stop) = location unix;
          offset' = (if offset = 0 then 0
                     else let utc = unix - offset in
                       if utc < start \<or> stop \<le> utc then fst (location utc) else offset)
      in (unix - offset') * second + nanos)"

definition day_seconds :: int where
  "day_seconds = 86400"

definition AddDays :: "zone \<Rightarrow> time \<Rightarrow> int \<Rightarrow> time" where
  "AddDays location when days =
     wall_clock location (local_second location when + days * day_seconds) (when mod second)"

definition midnight_of :: "zone \<Rightarrow> time \<Rightarrow> time" where
  "midnight_of location when =
     wall_clock location (local_second location when div day_seconds * day_seconds) 0"

text \<open>Year, month and day of the days since 0001-01-01, counted from the first of March.\<close>

definition civil :: "int \<Rightarrow> int \<times> int \<times> int" where
  "civil days =
     (let z = days + 306;
          era = z div 146097;
          doe = z mod 146097;
          yoe = (doe - doe div 1460 + doe div 36524 - doe div 146096) div 365;
          doy = doe - (365 * yoe + yoe div 4 - yoe div 100);
          mp = (5 * doy + 2) div 153;
          d = doy - (153 * mp + 2) div 5 + 1;
          m = (if mp < 10 then mp + 3 else mp - 9)
      in (yoe + era * 400 + (if m \<le> 2 then 1 else 0), m, d))"

definition padded :: "nat \<Rightarrow> int \<Rightarrow> string" where
  "padded width i =
     (let ds = dec (nat \<bar>i\<bar>) in
      (if i < 0 then ''-'' else []) @ replicate (width - length ds) (CHR ''0'') @ ds)"

definition format_date :: "zone \<Rightarrow> time \<Rightarrow> string" where
  "format_date location when =
     (let (y, m, d) = civil (local_second location when div day_seconds)
      in padded 4 y @ ''-'' @ padded 2 m @ ''-'' @ padded 2 d)"

definition format_timestamp :: "zone \<Rightarrow> time \<Rightarrow> string" where
  "format_timestamp location when =
     (let s = local_second location when mod day_seconds
      in format_date location when @ '' '' @ padded 2 (s div 3600) @ '':'' @ padded 2 (s div 60 mod 60) @
         '':'' @ padded 2 (s mod 60))"

subsection \<open>Tokens\<close>

datatype variable_error =
    UnsupportedVariable string | NoStartTime string | OffsetNotWhole string | OffsetTooLarge string
  | MixedVariable string | LeftOverVariable

record TimeVariables =
  tv_At :: time
  tv_Location :: "zone option"

definition maxVariableOffsetDays :: int where
  "maxVariableOffsetDays = 366"

definition is_lower :: "char \<Rightarrow> bool" where
  "is_lower c \<longleftrightarrow> (let n = of_char c :: nat in 97 \<le> n \<and> n \<le> 122)"

text \<open>A match of \<open>timeVariablePattern\<close> when the front: the name, the offset, and what follows.\<close>

definition match_variable :: "string \<Rightarrow> (string \<times> string \<times> string) option" where
  "match_variable s =
     (if \<not> HasPrefix s ''${'' then None
      else
        let body = drop 2 s;
            name = takeWhile is_lower body;
            rest = dropWhile is_lower body;
            digits = takeWhile is_digit (tl rest);
            more = dropWhile is_digit (tl rest)
        in if name = [] \<or> rest = [] then None
           else if hd rest = CHR ''}'' then Some (name, [], tl rest)
           else if hd rest \<in> {CHR ''+'', CHR ''-''} \<and> digits \<noteq> [] \<and> 2 \<le> length more \<and>
             hd more \<in> {CHR ''m'', CHR ''h'', CHR ''d''} \<and> more ! 1 = CHR ''}''
           then Some (name, hd rest # digits @ [hd more], drop 2 more)
           else None)"

definition ContainsTimeVariable :: "string \<Rightarrow> bool" where
  "ContainsTimeVariable s \<longleftrightarrow> str_contains s ''${''"

definition parseVariableOffset :: "string \<Rightarrow> variable_error + (int \<times> char)" where
  "parseVariableOffset offset =
     (let sign = (if HasPrefix offset ''-'' then - 1 else 1);
          body = drop 1 offset;
          unit = List.last body
      in case ParseInt (butlast body) of
           None \<Rightarrow> Inl (OffsetNotWhole offset)
         | Some amount \<Rightarrow>
             if amount < 0 then Inl (OffsetNotWhole offset)
             else
               let days = (if unit = CHR ''d'' then Some amount
                     else if unit = CHR ''h'' then Some ((amount + 23) div 24)
                     else if unit = CHR ''m'' then Some ((amount + 1439) div 1440)
                     else None)
               in case days of
                    None \<Rightarrow> Inl (OffsetNotWhole offset)
                  | Some n \<Rightarrow>
                      if maxVariableOffsetDays < n then Inl (OffsetTooLarge offset)
                      else Inr (sign * amount, unit))"

definition renderTimeVariable :: "string \<Rightarrow> string \<Rightarrow> TimeVariables \<Rightarrow> variable_error + string" where
  "renderTimeVariable name offset vars =
     (let location = (case tv_Location vars of None \<Rightarrow> UTC | Some z \<Rightarrow> z);
          midnight = midnight_of location (tv_At vars);
          base = (if name = ''now'' then Some (tv_At vars)
                  else if name = ''today'' then Some midnight
                  else if name = ''yesterday'' then Some (AddDays location midnight (- 1))
                  else None);
          render = (\<lambda>when.
            if local_second location when mod day_seconds = 0 \<and> when mod second = 0
            then format_date location when else format_timestamp location when)
      in case base of
           None \<Rightarrow> Inl (UnsupportedVariable name)
         | Some when \<Rightarrow>
             if offset = [] then Inr (render when)
             else case parseVariableOffset offset of
                 Inl e \<Rightarrow> Inl e
               | Inr (amount, unit) \<Rightarrow>
                   if unit = CHR ''d'' then Inr (render (AddDays location when amount))
                   else if unit = CHR ''h'' then Inr (render (when + amount * 60 * minute))
                   else if unit = CHR ''m'' then Inr (render (when + amount * minute))
                   else Inl (OffsetNotWhole offset))"

definition ResolveTimeVariable :: "string \<Rightarrow> TimeVariables \<Rightarrow> variable_error + string" where
  "ResolveTimeVariable token vars =
     (case match_variable (TrimSpace token) of
        Some (name, offset, []) \<Rightarrow>
          if IsZero (tv_At vars) then Inl (NoStartTime token) else renderTimeVariable name offset vars
      | _ \<Rightarrow> Inl (UnsupportedVariable token))"

text \<open>The loop of \<open>replaceTimeVariables\<close>: every leftmost token is rendered in quotes.\<close>

lemma match_variable_shorter:
  assumes "match_variable s = Some (n, off, rest)"
  shows "length rest < length s"
proof -
  define r where "r = dropWhile is_lower (drop 2 s)"
  have r: "r \<noteq> []" "rest = tl r \<or> rest = drop 2 (dropWhile is_digit (tl r))"
    using assms by (auto simp: match_variable_def Let_def r_def split: if_splits)
  have "length (drop 2 (dropWhile is_digit (tl r))) \<le> length (tl r)"
    by (metis diff_le_self le_trans length_drop length_dropWhile_le)
  then have "length rest \<le> length (tl r)" using r(2) by auto
  also have "\<dots> < length r" using r(1) by simp
  also have "\<dots> \<le> length (drop 2 s)" unfolding r_def by (rule length_dropWhile_le)
  finally show ?thesis by simp
qed

function replaceTimeVariables :: "string \<Rightarrow> TimeVariables \<Rightarrow> variable_error + string" where
  "replaceTimeVariables s vars =
     (if s = [] then Inr []
      else case match_variable s of
          None \<Rightarrow> map_sum id ((#) (hd s)) (replaceTimeVariables (tl s) vars)
        | Some (name, offset, rest) \<Rightarrow>
            (case ResolveTimeVariable (take (length s - length rest) s) vars of
               Inl e \<Rightarrow> Inl e
             | Inr v \<Rightarrow> map_sum id (\<lambda>r. [CHR 0x27] @ v @ [CHR 0x27] @ r) (replaceTimeVariables rest vars)))"
  by pat_completeness auto
termination
  by (relation "measure (\<lambda>(s, _). length s)") (auto dest: match_variable_shorter)

declare replaceTimeVariables.simps [simp del]

definition RenderCustomSQLVariables :: "string \<Rightarrow> TimeVariables \<Rightarrow> variable_error + string" where
  "RenderCustomSQLVariables statement vars =
     (case replaceTimeVariables statement vars of
        Inl e \<Rightarrow> Inl e
      | Inr rendered \<Rightarrow> if ContainsTimeVariable rendered then Inl LeftOverVariable else Inr rendered)"

end
