(* ===== verification/Quality_Dialect.thy ===== *)
theory Quality_Dialect
  imports Quality_Columns Time_Variables Unicode_Strings
begin

text \<open>
  The SQL surface of an engine, \<open>backend/component/dataquality/dialect.go\<close>, and the conds of a rule
  as a predicate with bound values, \<open>conds.go\<close>. A statement is a string, and the values it binds are
  kept beside it.
\<close>

subsection \<open>Errors and bound values\<close>

datatype compile_error =
    BadColumn column_error | BadVariable variable_error | BadThreshold config_error | BadSampling sampling_error
  | NotANumber string | NotABoolean string | Unclassified string | IndexOutOfRange | Invalid string
  | NotFound string | Internal string

definition bind_result :: "'e + 'a \<Rightarrow> ('a \<Rightarrow> 'e + 'b) \<Rightarrow> 'e + 'b" where
  "bind_result r f = (case r of Inl e \<Rightarrow> Inl e | Inr x \<Rightarrow> f x)"

definition column_result :: "column_error + 'a \<Rightarrow> compile_error + 'a" where
  "column_result r = map_sum BadColumn id r"

text \<open>A check that returns an error or nothing.\<close>

definition check_result :: "'c option \<Rightarrow> ('c \<Rightarrow> 'e) \<Rightarrow> 'e + 'b \<Rightarrow> 'e + 'b" where
  "check_result c err r = (case c of Some e \<Rightarrow> Inl (err e) | None \<Rightarrow> r)"

fun collect_results :: "('a \<Rightarrow> 'e + 'b) \<Rightarrow> 'a list \<Rightarrow> 'e + 'b list" where
  "collect_results f [] = Inr []"
| "collect_results f (x # xs) = bind_result (f x) (\<lambda>y. map_sum id ((#) y) (collect_results f xs))"

text \<open>The dynamic type of an argument.\<close>

datatype arg = IntArg int | FloatArg float64 | BoolArg bool | TextArg string

subsection \<open>Dialects\<close>

datatype Dialect = mysqlDialect dq_engine | postgresDialect | mssqlDialect

definition DialectFor :: "dq_engine \<Rightarrow> Dialect option" where
  "DialectFor engine =
     (if isMySQLWireEngine engine then Some (mysqlDialect engine)
      else if engine = Postgres then Some postgresDialect
      else if engine = Mssql then Some mssqlDialect
      else None)"

definition open_quote :: "Dialect \<Rightarrow> char" where
  "open_quote d = (case d of mysqlDialect _ \<Rightarrow> CHR 0x60 | postgresDialect \<Rightarrow> CHR 0x22 | mssqlDialect \<Rightarrow> CHR ''['')"

definition close_quote :: "Dialect \<Rightarrow> char" where
  "close_quote d = (case d of mysqlDialect _ \<Rightarrow> CHR 0x60 | postgresDialect \<Rightarrow> CHR 0x22 | mssqlDialect \<Rightarrow> CHR '']'')"

definition QuoteIdentifier :: "Dialect \<Rightarrow> string \<Rightarrow> string" where
  "QuoteIdentifier d identifier =
     [open_quote d] @ ReplaceAll identifier [close_quote d] [close_quote d, close_quote d] @ [close_quote d]"

definition Placeholder :: "Dialect \<Rightarrow> nat \<Rightarrow> string" where
  "Placeholder d n =
     (case d of mysqlDialect _ \<Rightarrow> ''?'' | postgresDialect \<Rightarrow> ''$'' @ dec n | mssqlDialect \<Rightarrow> ''@p'' @ dec n)"

definition QuoteTable :: "Dialect \<Rightarrow> ResolvedTarget \<Rightarrow> compile_error + string" where
  "QuoteTable d target =
     (case d of
        mysqlDialect _ \<Rightarrow>
          if rt_Schema target \<noteq> [] then Inl (Invalid ''schema segment'')
          else if rt_Database target = [] \<or> rt_Table target = [] then Inl (Invalid ''table name'')
          else Inr (QuoteIdentifier d (rt_Database target) @ ''.'' @ QuoteIdentifier d (rt_Table target))
      | _ \<Rightarrow>
          if rt_Schema target = [] \<or> rt_Table target = [] then Inl (Invalid ''table name'')
          else Inr (QuoteIdentifier d (rt_Schema target) @ ''.'' @ QuoteIdentifier d (rt_Table target)))"

definition SupportsRegex :: "Dialect \<Rightarrow> bool" where
  "SupportsRegex d \<longleftrightarrow> d \<noteq> mssqlDialect"

definition LengthExpr :: "Dialect \<Rightarrow> string \<Rightarrow> string" where
  "LengthExpr d column =
     (case d of mssqlDialect \<Rightarrow> ''LEN('' @ column @ '')'' | _ \<Rightarrow> ''CHAR_LENGTH('' @ column @ '')'')"

definition LimitClause :: "Dialect \<Rightarrow> int \<Rightarrow> string" where
  "LimitClause d n =
     (case d of mssqlDialect \<Rightarrow> ''OFFSET 0 ROWS FETCH NEXT '' @ fmt_d n @ '' ROWS ONLY'' | _ \<Rightarrow> ''LIMIT '' @ fmt_d n)"

definition NormalizeBool :: "Dialect \<Rightarrow> bool \<Rightarrow> string" where
  "NormalizeBool d v =
     (case d of mssqlDialect \<Rightarrow> if v then ''1'' else ''0'' | _ \<Rightarrow> if v then ''TRUE'' else ''FALSE'')"

definition BoundedRelation :: "Dialect \<Rightarrow> string \<Rightarrow> string \<Rightarrow> int \<Rightarrow> compile_error + string" where
  "BoundedRelation d table conds maxRows =
     (if maxRows \<le> 0 then Inl (Invalid ''row limit'')
      else Inr (case d of
          mssqlDialect \<Rightarrow> ''(SELECT TOP ('' @ fmt_d maxRows @ '') * FROM '' @ table @ conds @ '') dq''
        | _ \<Rightarrow> ''(SELECT * FROM '' @ table @ conds @ '' LIMIT '' @ fmt_d maxRows @ '') dq''))"

definition formatSamplePercent :: "float64 \<Rightarrow> string" where
  "formatSamplePercent percent = FormatFloat percent"

definition SampledRelation :: "Dialect \<Rightarrow> string \<Rightarrow> float64 \<Rightarrow> compile_error + string" where
  "SampledRelation d table percent =
     (case d of
        mysqlDialect _ \<Rightarrow> Inl (Invalid ''no sampling clause'')
      | postgresDialect \<Rightarrow> Inr (table @ '' TABLESAMPLE SYSTEM ('' @ formatSamplePercent percent @ '')'')
      | mssqlDialect \<Rightarrow> Inr (table @ '' TABLESAMPLE ('' @ formatSamplePercent percent @ '' PERCENT)''))"

definition SupportsTableSample :: "Dialect \<Rightarrow> bool" where
  "SupportsTableSample d = (case d of mysqlDialect _ \<Rightarrow> False | _ \<Rightarrow> True)"

subsection \<open>Filters\<close>

datatype FilterOp =
    FilterEQ | FilterNE | FilterLT | FilterLTE | FilterGT | FilterGTE | FilterIN | FilterNOTIN
  | FilterISNull | FilterISNotNull

definition FilterOp_String :: "FilterOp \<Rightarrow> string" where
  "FilterOp_String op =
     (case op of
        FilterEQ \<Rightarrow> ''='' | FilterNE \<Rightarrow> ''!='' | FilterLT \<Rightarrow> ''<'' | FilterLTE \<Rightarrow> ''<='' | FilterGT \<Rightarrow> ''>''
      | FilterGTE \<Rightarrow> ''>='' | FilterIN \<Rightarrow> ''IN'' | FilterNOTIN \<Rightarrow> ''NOT IN'' | FilterISNull \<Rightarrow> ''IS NULL''
      | FilterISNotNull \<Rightarrow> ''IS NOT NULL'')"

record FilterClause =
  fc_Column :: string
  fc_Op :: FilterOp
  fc_Values :: "string list"

type_synonym Filter = "FilterClause list"

definition MaxFilterClauses :: nat where "MaxFilterClauses = 10"
definition MaxFilterINValues :: nat where "MaxFilterINValues = 100"

text \<open>The stored filter: \<open>None\<close> is a nil pointer.\<close>

datatype QualityFilterOperator =
    OP_UNSPECIFIED | OP_EQ | OP_NE | OP_LT | OP_LTE | OP_GT | OP_GTE | OP_IN | OP_NOT_IN | OP_IS_NULL
  | OP_IS_NOT_NULL | OTHER_OP nat

record QualityFilterClause =
  qf_Column :: string
  qf_Op :: QualityFilterOperator
  qf_Values :: "string list"

type_synonym QualityFilter = "QualityFilterClause option list"

definition parseFilterOp :: "QualityFilterOperator \<Rightarrow> compile_error + FilterOp" where
  "parseFilterOp op =
     (case op of
        OP_EQ \<Rightarrow> Inr FilterEQ | OP_NE \<Rightarrow> Inr FilterNE | OP_LT \<Rightarrow> Inr FilterLT | OP_LTE \<Rightarrow> Inr FilterLTE
      | OP_GT \<Rightarrow> Inr FilterGT | OP_GTE \<Rightarrow> Inr FilterGTE | OP_IN \<Rightarrow> Inr FilterIN | OP_NOT_IN \<Rightarrow> Inr FilterNOTIN
      | OP_IS_NULL \<Rightarrow> Inr FilterISNull | OP_IS_NOT_NULL \<Rightarrow> Inr FilterISNotNull
      | OP_UNSPECIFIED \<Rightarrow> Inl (Invalid ''operator required'')
      | OTHER_OP _ \<Rightarrow> Inl (Invalid ''unknown operator''))"

definition parseClause :: "unicode \<Rightarrow> QualityFilterClause option \<Rightarrow> compile_error + FilterClause" where
  "parseClause uni clause =
     (case clause of
        None \<Rightarrow> Inl (Invalid ''clause required'')
      | Some c \<Rightarrow>
          let column = GoTrimSpace uni (qf_Column c); values = qf_Values c in
          if column = [] then Inl (Invalid ''column required'')
          else bind_result (parseFilterOp (qf_Op c)) (\<lambda>op.
            let ok = (if op \<in> {FilterISNull, FilterISNotNull} then values = []
                  else if op \<in> {FilterIN, FilterNOTIN} then values \<noteq> [] \<and> length values \<le> MaxFilterINValues
                  else length values = 1)
            in if \<not> ok then Inl (Invalid ''number of values'')
               else Inr \<lparr>fc_Column = column, fc_Op = op, fc_Values = values\<rparr>))"

definition ParseFilter :: "unicode \<Rightarrow> QualityFilter option \<Rightarrow> compile_error + Filter" where
  "ParseFilter uni qf =
     (case qf of
        None \<Rightarrow> Inr []
      | Some clauses \<Rightarrow>
          if MaxFilterClauses < length clauses then Inl (Invalid ''too many clauses'')
          else collect_results (parseClause uni) clauses)"

definition convertFilterValue :: "unicode \<Rightarrow> ColumnInfo \<Rightarrow> string \<Rightarrow> compile_error + arg" where
  "convertFilterValue uni column v =
     (case ci_Kind column of
        KindNumeric \<Rightarrow>
          (case ParseInt (GoTrimSpace uni v) of
             Some n \<Rightarrow> Inr (IntArg n)
           | None \<Rightarrow> (case ParseFloat (GoTrimSpace uni v) of
                 Some f \<Rightarrow> Inr (FloatArg f)
               | None \<Rightarrow> Inl (NotANumber v)))
      | KindBoolean \<Rightarrow>
          (case ParseBool (GoTrimSpace uni v) of Some b \<Rightarrow> Inr (BoolArg b) | None \<Rightarrow> Inl (NotABoolean v))
      | KindString \<Rightarrow> Inr (TextArg v)
      | KindTemporal \<Rightarrow> Inr (TextArg v)
      | KindUnknown \<Rightarrow> Inl (Unclassified (ci_Name column)))"

definition convertFilterValues :: "unicode \<Rightarrow> ColumnInfo \<Rightarrow> string list \<Rightarrow> compile_error + arg list" where
  "convertFilterValues uni column values = collect_results (convertFilterValue uni column) values"

text \<open>
  \<open>IndexOutOfRange\<close> is the panic of \<open>values[0]\<close> on a clause without a value, which \<open>ParseFilter\<close> refuses.
\<close>

text \<open>Appending values to the arguments, each with the placeholder that binds it.\<close>

fun bindValues :: "Dialect \<Rightarrow> nat \<Rightarrow> arg list \<Rightarrow> arg list \<Rightarrow> string list \<times> arg list" where
  "bindValues d offset [] args = ([], args)"
| "bindValues d offset (v # vs) args =
     (let args = args @ [v]; (placeholders, args') = bindValues d offset vs args
      in (Placeholder d (offset + length args) # placeholders, args'))"

definition renderFilterComparison ::
    "Dialect \<Rightarrow> string \<Rightarrow> FilterOp \<Rightarrow> arg list \<Rightarrow> arg list \<Rightarrow> nat \<Rightarrow> string \<times> arg list" where
  "renderFilterComparison d quoted op values args offset =
     (if op \<in> {FilterIN, FilterNOTIN} then
        let (placeholders, args') = bindValues d offset values args in
        (quoted @ '' '' @ FilterOp_String op @ '' ('' @ Join placeholders '', '' @ '')'', args')
      else
        let args' = args @ [hd values] in
        (quoted @ '' '' @ FilterOp_String op @ '' '' @ Placeholder d (offset + length args'), args'))"

fun compileClauses ::
    "unicode \<Rightarrow> Dialect \<Rightarrow> ResolvedTarget \<Rightarrow> nat \<Rightarrow> Filter \<Rightarrow> string list \<Rightarrow> arg list
     \<Rightarrow> compile_error + (string list \<times> arg list)" where
  "compileClauses uni d target offset [] conditions args = Inr (conditions, args)"
| "compileClauses uni d target offset (clause # conds) conditions args =
     (case rt_Column target (fc_Column clause) of
        None \<Rightarrow> Inl (BadColumn (ColumnMissing (fc_Column clause)))
      | Some column \<Rightarrow>
          let quoted = QuoteIdentifier d (ci_Name column) in
          if fc_Op clause \<in> {FilterISNull, FilterISNotNull} then
            if \<not> supportsNullTest column (rt_Engine target) then Inl (BadColumn (NoNullTest (ci_Name column)))
            else compileClauses uni d target offset conds
              (conditions @ [quoted @ (if fc_Op clause = FilterISNull then '' IS NULL'' else '' IS NOT NULL'')]) args
          else if ci_Kind column = KindUnknown then Inl (BadColumn (ColumnUnclassified (ci_Name column)))
          else if \<not> cap_valueComparison (capabilitiesFor (rt_Engine target) column)
          then Inl (BadColumn (NoScalarComparison (ci_Name column)))
          else bind_result (convertFilterValues uni column (fc_Values clause)) (\<lambda>values.
            if fc_Op clause \<notin> {FilterIN, FilterNOTIN} \<and> values = [] then Inl IndexOutOfRange
            else let (condition, args') = renderFilterComparison d quoted (fc_Op clause) values args offset
            in compileClauses uni d target offset conds (conditions @ [condition]) args'))"

definition CompileFilterAfter ::
    "unicode \<Rightarrow> Dialect \<Rightarrow> ResolvedTarget \<Rightarrow> Filter \<Rightarrow> nat \<Rightarrow> compile_error + (string \<times> arg list)" where
  "CompileFilterAfter uni d target conds offset =
     (if conds = [] then Inr ([], [])
      else map_sum id (map_prod (\<lambda>conditions. Join conditions '' AND '') id)
        (compileClauses uni d target offset conds [] []))"

definition CompileFilter ::
    "unicode \<Rightarrow> Dialect \<Rightarrow> ResolvedTarget \<Rightarrow> Filter \<Rightarrow> compile_error + (string \<times> arg list)" where
  "CompileFilter uni d target conds = CompileFilterAfter uni d target conds 0"

definition mergeFilters :: "Filter \<Rightarrow> Filter \<Rightarrow> Filter" where
  "mergeFilters ruleFilter contractFilter =
     (if contractFilter = [] then ruleFilter
      else if ruleFilter = [] then contractFilter
      else ruleFilter @ contractFilter)"

text \<open>The variables of a filter: a value that is one token is replaced by its rendering.\<close>

definition resolveValue :: "unicode \<Rightarrow> TimeVariables \<Rightarrow> string \<Rightarrow> variable_error + string" where
  "resolveValue uni vars v =
     (let trimmed = GoTrimSpace uni v in
      if \<not> ContainsTimeVariable trimmed then Inr v
      else if HasPrefix trimmed ''${'' \<and> HasSuffix trimmed ''}'' then ResolveTimeVariable trimmed vars
      else Inl (MixedVariable v))"

definition ResolveFilterVariables :: "unicode \<Rightarrow> Filter \<Rightarrow> TimeVariables \<Rightarrow> variable_error + Filter" where
  "ResolveFilterVariables uni conds vars =
     collect_results (\<lambda>clause.
       map_sum id (\<lambda>values. clause\<lparr>fc_Values := values\<rparr>) (collect_results (resolveValue uni vars) (fc_Values clause)))
       conds"

end
