(* ===== verification/Quality_Compile.thy ===== *)
theory Quality_Compile
  imports Quality_Dialect Standard_Codes
begin

text \<open>
  From a rule to the statement that observes it, \<open>backend/component/dataquality/compile.go\<close>,
  \<open>compile_util.go\<close>, \<open>compile_rules.go\<close> and the value sources of \<open>accepted_values.go\<close>. A rule type
  has one function that builds its statement; the values a rule names are bound, never written out.
\<close>

subsection \<open>Configurations\<close>

datatype QualityComparisonOperator = CMP_UNSPECIFIED | CMP_EQ | CMP_NE | CMP_LT | CMP_LTE | CMP_GT | CMP_GTE | OTHER_CMP nat

datatype QualityAggregateFunction =
    AGG_UNSPECIFIED | AGG_COUNT | AGG_SUM | AGG_AVG | AGG_MIN | AGG_MAX | AGG_STDDEV | AGG_PERCENTILE | OTHER_AGG nat

record count_bounds =
  FailThreshold :: "float64 option"
  WarnThreshold :: "float64 option"

record UniqueConfig = count_bounds +
  uq_Column :: string
  uq_CountNulls :: bool

record UniqueCombinationConfig = count_bounds +
  uc_Columns :: "string list"
  uc_AllColumns :: bool
  uc_CountNulls :: bool

record AcceptedValuesQuery =
  avq_Sql :: string
  avq_ValueColumn :: string

record AcceptedValuesConfig = count_bounds +
  av_Column :: string
  av_Values :: "string list"
  av_Field :: string
  av_Query :: "AcceptedValuesQuery option"
  av_AllowNull :: bool

record RangeConfig = count_bounds +
  rg_Column :: string
  rg_Min :: "string option"
  rg_Max :: "string option"
  rg_Inclusive :: bool

record RegexConfig = count_bounds +
  rx_Column :: string
  rx_Pattern :: string

record StringLengthConfig = count_bounds +
  sl_Column :: string
  sl_MinLen :: "int option"
  sl_MaxLen :: "int option"

record ReferentialIntegrityConfig = count_bounds +
  ri_ChildColumn :: string
  ri_ParentTable :: string
  ri_ParentColumn :: string
  ri_AllowNull :: bool

record CrossColumnConfig = count_bounds +
  cc_LeftColumn :: string
  cc_RightColumn :: string
  cc_Op :: QualityComparisonOperator
  cc_Tolerance :: "float64 option"

record CustomSqlConfig = count_bounds +
  cs_Sql :: string

record CelExpressionConfig = count_bounds +
  ce_Columns :: "string list"
  ce_SampleRows :: int
  ce_Expression :: string

record StandardCodeConfig = count_bounds +
  st_Column :: string
  st_SampleRows :: int
  st_Standard :: QualityStandardCode
  st_CodeTable :: string

record SchemaDriftColumn =
  sd_Name :: string
  sd_Type :: string

text \<open>A snapshot entry is \<open>None\<close> for a nil pointer.\<close>

record SchemaDriftConfig = count_bounds +
  sd_ExpectedColumns :: "SchemaDriftColumn option list"

record GroupCheckConfig = count_bounds +
  gc_Columns :: "string list"
  gc_MinRowsPerGroup :: "int option"
  gc_MaxRowsPerGroup :: "int option"

text \<open>The bounds of the next four are the records of \<open>Quality_Verdict\<close>, extended.\<close>

record NullPercentRule = NullPercentConfig +
  np_Column :: string
  np_NullValues :: "string list"

record FreshnessRule = FreshnessConfig +
  fr_TimestampColumn :: string

record AggregateRule = AggregateConfig +
  ag_Function :: QualityAggregateFunction
  ag_Column :: string
  ag_Percentile :: "float64 option"

record CrossTableReference =
  xr_MetaGuid :: string
  xr_MetaType :: MetaType

record CrossTableRule = CrossTableConfig +
  xt_Reference :: "CrossTableReference option"
  xt_LeftFunction :: QualityAggregateFunction
  xt_LeftColumn :: string
  xt_RightFunction :: QualityAggregateFunction
  xt_RightColumn :: string
  xt_RightFilter :: "QualityFilter option"

record SegmentCheckRule = SegmentCheckConfig +
  sg_Columns :: "string list"

datatype config_arm =
    EmptyC | RowCountC RowCountConfig | RowCountChangeC RowCountChangeConfig | NullPercentC NullPercentRule
  | UniqueC UniqueConfig | UniqueCombinationC UniqueCombinationConfig | AcceptedValuesC AcceptedValuesConfig
  | RangeC RangeConfig | RegexC RegexConfig | StringLengthC StringLengthConfig
  | ReferentialIntegrityC ReferentialIntegrityConfig | CrossColumnC CrossColumnConfig
  | FreshnessC FreshnessRule | CustomSqlC CustomSqlConfig | CelExpressionC CelExpressionConfig
  | SchemaDriftC SchemaDriftConfig | GroupCheckC GroupCheckConfig | AggregateC AggregateRule
  | CrossTableC CrossTableRule | StandardCodeC StandardCodeConfig | SegmentCheckC SegmentCheckRule

record rule_config =
  rc_Arm :: config_arm
  rc_OnEmpty :: QualityEmptyBehavior
  rc_ThresholdMetric :: QualityThresholdMetric
  rc_Sampling :: "sampling_method option"
  rc_Filter :: "QualityFilter option"
  rc_TimeoutSeconds :: int

text \<open>\<open>configArm\<close>: \<open>None\<close> is its error on an empty configuration.\<close>

definition configArm :: "rule_config \<Rightarrow> QualityRuleType option" where
  "configArm config =
     (case rc_Arm config of
        EmptyC \<Rightarrow> None
      | RowCountC _ \<Rightarrow> Some ROW_COUNT
      | RowCountChangeC _ \<Rightarrow> Some ROW_COUNT_CHANGE
      | NullPercentC _ \<Rightarrow> Some NULL_PERCENT
      | UniqueC _ \<Rightarrow> Some UNIQUE
      | UniqueCombinationC _ \<Rightarrow> Some UNIQUE_COMBINATION
      | AcceptedValuesC _ \<Rightarrow> Some ACCEPTED_VALUES
      | RangeC _ \<Rightarrow> Some RANGE
      | RegexC _ \<Rightarrow> Some REGEX
      | StringLengthC _ \<Rightarrow> Some STRING_LENGTH
      | ReferentialIntegrityC _ \<Rightarrow> Some REFERENTIAL_INTEGRITY
      | CrossColumnC _ \<Rightarrow> Some CROSS_COLUMN
      | FreshnessC _ \<Rightarrow> Some FRESHNESS
      | CustomSqlC _ \<Rightarrow> Some CUSTOM_SQL
      | CelExpressionC _ \<Rightarrow> Some CEL_EXPRESSION
      | SchemaDriftC _ \<Rightarrow> Some SCHEMA_DRIFT
      | GroupCheckC _ \<Rightarrow> Some GROUP_CHECK
      | AggregateC _ \<Rightarrow> Some AGGREGATE_RULE
      | CrossTableC _ \<Rightarrow> Some CROSS_TABLE
      | StandardCodeC _ \<Rightarrow> Some STANDARD_CODE
      | SegmentCheckC _ \<Rightarrow> Some SEGMENT_CHECK)"

text \<open>What the verdicts read of a configuration.\<close>

definition verdict_arm :: "config_arm \<Rightarrow> rule_arm" where
  "verdict_arm arm =
     (let count = (\<lambda>ty b. CountArm ty (FailThreshold b) (WarnThreshold b)) in
      case arm of
        EmptyC \<Rightarrow> NoArm
      | RowCountC c \<Rightarrow> RowCountArm c
      | RowCountChangeC c \<Rightarrow> RowCountChangeArm c
      | NullPercentC c \<Rightarrow> NullPercentArm (NullPercentConfig.truncate c)
      | FreshnessC c \<Rightarrow> FreshnessArm (FreshnessConfig.truncate c)
      | AggregateC c \<Rightarrow> AggregateArm (AggregateConfig.truncate c)
      | CrossTableC c \<Rightarrow> CrossTableArm (CrossTableConfig.truncate c)
      | SegmentCheckC c \<Rightarrow> SegmentCheckArm (SegmentCheckConfig.truncate c)
      | UniqueC c \<Rightarrow> count UNIQUE (count_bounds.truncate c)
      | UniqueCombinationC c \<Rightarrow> count UNIQUE_COMBINATION (count_bounds.truncate c)
      | AcceptedValuesC c \<Rightarrow> count ACCEPTED_VALUES (count_bounds.truncate c)
      | RangeC c \<Rightarrow> count RANGE (count_bounds.truncate c)
      | RegexC c \<Rightarrow> count REGEX (count_bounds.truncate c)
      | StringLengthC c \<Rightarrow> count STRING_LENGTH (count_bounds.truncate c)
      | ReferentialIntegrityC c \<Rightarrow> count REFERENTIAL_INTEGRITY (count_bounds.truncate c)
      | CrossColumnC c \<Rightarrow> count CROSS_COLUMN (count_bounds.truncate c)
      | CustomSqlC c \<Rightarrow> count CUSTOM_SQL (count_bounds.truncate c)
      | CelExpressionC c \<Rightarrow> count CEL_EXPRESSION (count_bounds.truncate c)
      | SchemaDriftC c \<Rightarrow> count SCHEMA_DRIFT (count_bounds.truncate c)
      | GroupCheckC c \<Rightarrow> count GROUP_CHECK (count_bounds.truncate c)
      | StandardCodeC c \<Rightarrow> count STANDARD_CODE (count_bounds.truncate c))"

definition verdict_config :: "rule_config \<Rightarrow> QualityRuleConfig" where
  "verdict_config config = \<lparr>Arm = verdict_arm (rc_Arm config), cfg_OnEmpty = rc_OnEmpty config,
     cfg_ThresholdMetric = rc_ThresholdMetric config\<rparr>"

text \<open>
  The input of a compiler. \<open>in_SQL\<close> is what the parser of an engine says of a rendered statement, and
  \<open>in_Derived\<close> what SQL Server's says of a derived query: the parsers are third-party.
\<close>

record CompileInput =
  in_Dialect :: Dialect
  in_Target :: ResolvedTarget
  in_Type :: QualityRuleType
  in_Config :: rule_config
  in_Filter :: Filter
  in_ContractFilter :: Filter
  in_Variables :: TimeVariables
  in_Reference :: "ResolvedTarget option"
  in_Unicode :: unicode
  in_SQL :: "dq_engine \<Rightarrow> string \<Rightarrow> compile_error option"
  in_Derived :: "string \<Rightarrow> compile_error option"

datatype QueryKind = QueryAggregate | QueryFailedRows | QuerySample | QueryMetadata

record CompiledQuery =
  cq_SQL :: string
  cq_Args :: "arg list"
  cq_Kind :: QueryKind
  cq_Columns :: "string list"

type_synonym compiled = "compile_error + CompiledQuery"

definition compileMaxAcceptedValues :: nat where "compileMaxAcceptedValues = 200"
definition compileMaxUniqueColumns :: nat where "compileMaxUniqueColumns = 10"
definition compileMaxCustomSQLLength :: nat where "compileMaxCustomSQLLength = 8 * 1024"
definition maxGroupCheckColumns :: nat where "maxGroupCheckColumns = 5"
definition maxNullValues :: nat where "maxNullValues = 20"

subsection \<open>Relation, predicate and arguments\<close>

definition compileTable :: "Dialect \<Rightarrow> ResolvedTarget \<Rightarrow> compile_error + string" where
  "compileTable d target = QuoteTable d target"

definition compileAppendWhere :: "string \<Rightarrow> string \<Rightarrow> string" where
  "compileAppendWhere conds condition =
     (if conds = [] then '' WHERE '' @ condition else conds @ '' AND '' @ condition)"

definition whereClause :: "CompileInput \<Rightarrow> compile_error + (string \<times> arg list)" where
  "whereClause inp =
     bind_result (map_sum BadVariable id
       (ResolveFilterVariables (in_Unicode inp) (mergeFilters (in_Filter inp) (in_ContractFilter inp)) (in_Variables inp)))
     (\<lambda>conds.
       map_sum id (\<lambda>(clause, args). if clause = [] then ([], []) else ('' WHERE '' @ clause, args))
         (CompileFilter (in_Unicode inp) (in_Dialect inp) (in_Target inp) conds))"

text \<open>The relation, the predicate still to append to it, and the arguments bound so far.\<close>

definition scanRelation :: "CompileInput \<Rightarrow> compile_error + (string \<times> string \<times> arg list)" where
  "scanRelation inp =
     bind_result (compileTable (in_Dialect inp) (in_Target inp)) (\<lambda>table.
     bind_result (whereClause inp) (\<lambda>(conds, args).
       case rc_Sampling (in_Config inp) of
         None \<Rightarrow> Inr (table, conds, args)
       | Some (MaxRowsMethod n) \<Rightarrow>
           map_sum id (\<lambda>relation. (relation, [], args)) (BoundedRelation (in_Dialect inp) table conds n)
       | Some (PercentMethod p) \<Rightarrow>
           map_sum id (\<lambda>relation. (relation, conds, args)) (SampledRelation (in_Dialect inp) table p)))"

record compileArgs =
  ca_filterArgs :: "arg list"
  ca_configArgs :: "arg list"

definition newCompileArgs :: "arg list \<Rightarrow> compileArgs" where
  "newCompileArgs filterArgs = \<lparr>ca_filterArgs = filterArgs, ca_configArgs = []\<rparr>"

definition compilePositional :: "Dialect \<Rightarrow> bool" where
  "compilePositional d \<longleftrightarrow> Placeholder d 1 = Placeholder d 2"

definition ca_add :: "Dialect \<Rightarrow> arg \<Rightarrow> compileArgs \<Rightarrow> string \<times> compileArgs" where
  "ca_add d v a =
     (let a = a\<lparr>ca_configArgs := ca_configArgs a @ [v]\<rparr> in
      (if compilePositional d then Placeholder d (length (ca_configArgs a))
       else Placeholder d (length (ca_filterArgs a) + length (ca_configArgs a)), a))"

definition ca_values :: "Dialect \<Rightarrow> compileArgs \<Rightarrow> arg list" where
  "ca_values d a =
     (if compilePositional d then ca_configArgs a @ ca_filterArgs a else ca_filterArgs a @ ca_configArgs a)"

text \<open>Binding several values in order, with either kind of argument list.\<close>

fun add_all :: "(arg \<Rightarrow> 's \<Rightarrow> string \<times> 's) \<Rightarrow> arg list \<Rightarrow> 's \<Rightarrow> string list \<times> 's" where
  "add_all add [] s = ([], s)"
| "add_all add (v # vs) s =
     (let (p, s') = add v s; (ps, s'') = add_all add vs s' in (p # ps, s''))"

definition compileCountSelect :: "string \<Rightarrow> string \<Rightarrow> string \<Rightarrow> arg list \<Rightarrow> CompiledQuery" where
  "compileCountSelect relation conds failureCondition args =
     \<lparr>cq_SQL = ''SELECT COUNT(*) AS total_rows, SUM(CASE WHEN '' @ failureCondition @
        '' THEN 1 ELSE 0 END) AS failed_rows FROM '' @ relation @ conds,
      cq_Args = args, cq_Kind = QueryAggregate, cq_Columns = [''total_rows'', ''failed_rows'']\<rparr>"

definition compileValueArg :: "unicode \<Rightarrow> ColumnInfo \<Rightarrow> string \<Rightarrow> compile_error + arg" where
  "compileValueArg uni column v =
     (case ci_Kind column of
        KindNumeric \<Rightarrow>
          (case ParseInt (GoTrimSpace uni v) of
             Some n \<Rightarrow> Inr (IntArg n)
           | None \<Rightarrow> (case ParseFloat (GoTrimSpace uni v) of
                 Some f \<Rightarrow> Inr (FloatArg f)
               | None \<Rightarrow> Inl (NotANumber v)))
      | KindTemporal \<Rightarrow> Inr (TextArg v)
      | KindString \<Rightarrow> Inr (TextArg v)
      | KindBoolean \<Rightarrow>
          (case ParseBool (GoTrimSpace uni v) of Some b \<Rightarrow> Inr (BoolArg b) | None \<Rightarrow> Inl (NotABoolean v))
      | KindUnknown \<Rightarrow> Inl (Unclassified (ci_Name column)))"

definition numericValue :: "arg \<Rightarrow> float64 option" where
  "numericValue v = (case v of IntArg n \<Rightarrow> Some (f_of_int n) | FloatArg f \<Rightarrow> Some f | _ \<Rightarrow> None)"

definition nullPercentValues :: "unicode \<Rightarrow> ColumnInfo \<Rightarrow> string list \<Rightarrow> compile_error + arg list" where
  "nullPercentValues uni column values =
     (if maxNullValues < length values then Inl (Invalid ''too many null values'')
      else collect_results (compileValueArg uni column) values)"

definition qualifyColumns :: "Dialect \<Rightarrow> string list \<Rightarrow> string" where
  "qualifyColumns d columns = Join (map (QuoteIdentifier d) columns) '', ''"

fun groupingLoop ::
    "unicode \<Rightarrow> ResolvedTarget \<Rightarrow> string list \<Rightarrow> string list \<Rightarrow> compile_error + string list" where
  "groupingLoop uni target [] columns = Inr columns"
| "groupingLoop uni target (name # names) columns =
     bind_result (column_result (requireGroupingColumn target (GoTrimSpace uni name))) (\<lambda>column.
       if ci_Name column \<in> set columns then Inl (Invalid ''group column named twice'')
       else groupingLoop uni target names (columns @ [ci_Name column]))"

definition groupingColumns ::
    "unicode \<Rightarrow> ResolvedTarget \<Rightarrow> string list \<Rightarrow> nat \<Rightarrow> compile_error + string list" where
  "groupingColumns uni target names maxColumns =
     (if names = [] then Inl (Invalid ''group column required'')
      else if maxColumns < length names then Inl (Invalid ''too many group columns'')
      else groupingLoop uni target names [])"

definition groupCheckBounds :: "GroupCheckConfig \<Rightarrow> config_error option" where
  "groupCheckBounds c =
     (if gc_MinRowsPerGroup c = None \<and> gc_MaxRowsPerGroup c = None then Some BoundRequired
      else if opt_negative (gc_MinRowsPerGroup c) then Some NegativeBound
      else if opt_negative (gc_MaxRowsPerGroup c) then Some NegativeBound
      else if opt_less (gc_MaxRowsPerGroup c) (gc_MinRowsPerGroup c) then Some BoundsCrossed
      else None)"

definition compileComparisonOperator :: "QualityComparisonOperator \<Rightarrow> compile_error + string" where
  "compileComparisonOperator op =
     (case op of
        CMP_EQ \<Rightarrow> Inr ''='' | CMP_NE \<Rightarrow> Inr ''<>'' | CMP_LT \<Rightarrow> Inr ''<'' | CMP_LTE \<Rightarrow> Inr ''<=''
      | CMP_GT \<Rightarrow> Inr ''>'' | CMP_GTE \<Rightarrow> Inr ''>=''
      | CMP_UNSPECIFIED \<Rightarrow> Inl (Invalid ''comparison operator required'')
      | OTHER_CMP _ \<Rightarrow> Inl (Invalid ''unknown comparison operator''))"

definition compileCrossColumnFailure ::
    "string \<Rightarrow> string \<Rightarrow> QualityComparisonOperator \<Rightarrow> float64 option \<Rightarrow> string \<Rightarrow> compile_error + string" where
  "compileCrossColumnFailure left right op tolerance placeholder =
     (if tolerance = None then
        bind_result (compileComparisonOperator op) (\<lambda>operator.
          Inr (''NOT ('' @ left @ '' '' @ operator @ '' '' @ right @ '')''))
      else case op of
        CMP_EQ \<Rightarrow> Inr (''ABS('' @ left @ '' - '' @ right @ '') > '' @ placeholder)
      | CMP_NE \<Rightarrow> Inr (''ABS('' @ left @ '' - '' @ right @ '') <= '' @ placeholder)
      | CMP_LT \<Rightarrow> Inr (left @ '' >= '' @ right @ '' - '' @ placeholder)
      | CMP_LTE \<Rightarrow> Inr (left @ '' > '' @ right @ '' + '' @ placeholder)
      | CMP_GT \<Rightarrow> Inr (left @ '' <= '' @ right @ '' + '' @ placeholder)
      | CMP_GTE \<Rightarrow> Inr (left @ '' < '' @ right @ '' - '' @ placeholder)
      | CMP_UNSPECIFIED \<Rightarrow> Inl (Invalid ''comparison operator required'')
      | OTHER_CMP _ \<Rightarrow> Inl (Invalid ''unknown comparison operator''))"

definition compileRegexNotMatch :: "Dialect \<Rightarrow> compile_error + string" where
  "compileRegexNotMatch d =
     (if \<not> SupportsRegex d then Inl (Invalid ''no regular expressions'')
      else case d of
        postgresDialect \<Rightarrow> Inr ''!~''
      | mysqlDialect _ \<Rightarrow> Inr ''NOT REGEXP''
      | mssqlDialect \<Rightarrow> Inl (Invalid ''no regular expressions''))"

definition compileFreshnessLagExpr :: "Dialect \<Rightarrow> string \<Rightarrow> string" where
  "compileFreshnessLagExpr d maxTimestamp =
     (case d of
        postgresDialect \<Rightarrow> ''EXTRACT(EPOCH FROM (CURRENT_TIMESTAMP - '' @ maxTimestamp @ ''))''
      | mysqlDialect _ \<Rightarrow> ''TIMESTAMPDIFF(SECOND, '' @ maxTimestamp @ '', NOW())''
      | mssqlDialect \<Rightarrow> ''DATEDIFF(SECOND, '' @ maxTimestamp @ '', SYSUTCDATETIME())'')"

definition relatedTableName :: "unicode \<Rightarrow> ResolvedTarget \<Rightarrow> string \<Rightarrow> compile_error + (string \<times> string)" where
  "relatedTableName uni target spec =
     (let spec = GoTrimSpace uni spec; parts = Split (CHR ''.'') spec in
      if spec = [] then Inl (Invalid ''table name'')
      else if list_ex (\<lambda>part. GoTrimSpace uni part = []) parts then Inl (Invalid ''table name'')
      else if isMySQLWireEngine (rt_Engine target) then
        (case parts of
           [table] \<Rightarrow> Inr ([], table)
         | [database, table] \<Rightarrow>
             if \<not> EqualFold database (rt_Database target) then Inl (Invalid ''other database'') else Inr ([], table)
         | _ \<Rightarrow> Inl (Invalid ''table name''))
      else
        (case parts of
           [table] \<Rightarrow> Inr (rt_Schema target, table)
         | [schema, table] \<Rightarrow>
             if rt_Schema target \<noteq> [] \<and> \<not> EqualFold schema (rt_Schema target) then Inl (Invalid ''other schema'')
             else Inr (rt_Schema target, table)
         | _ \<Rightarrow> Inl (Invalid ''table name'')))"

definition compileParentTable :: "unicode \<Rightarrow> Dialect \<Rightarrow> ResolvedTarget \<Rightarrow> string \<Rightarrow> compile_error + string" where
  "compileParentTable uni d target spec =
     bind_result (relatedTableName uni target spec) (\<lambda>(schema, table).
       compileTable d (target\<lparr>rt_Schema := schema, rt_Table := table\<rparr>))"

definition aggregateExpression ::
    "Dialect \<Rightarrow> QualityAggregateFunction \<Rightarrow> string \<Rightarrow> string \<Rightarrow> compile_error + string" where
  "aggregateExpression d function quotedColumn percentilePlaceholder =
     (case function of
        AGG_COUNT \<Rightarrow> Inr ''COUNT(*)''
      | AGG_SUM \<Rightarrow> Inr (''SUM('' @ quotedColumn @ '')'')
      | AGG_AVG \<Rightarrow> Inr (''AVG('' @ quotedColumn @ '')'')
      | AGG_MIN \<Rightarrow> Inr (''MIN('' @ quotedColumn @ '')'')
      | AGG_MAX \<Rightarrow> Inr (''MAX('' @ quotedColumn @ '')'')
      | AGG_STDDEV \<Rightarrow>
          (case d of
             mssqlDialect \<Rightarrow> Inr (''STDEV('' @ quotedColumn @ '')'')
           | _ \<Rightarrow> Inr (''STDDEV('' @ quotedColumn @ '')''))
      | AGG_PERCENTILE \<Rightarrow>
          if percentilePlaceholder = [] then Inl (Invalid ''percentile required'')
          else (case d of
             postgresDialect \<Rightarrow>
               Inr (''PERCENTILE_CONT('' @ percentilePlaceholder @ '') WITHIN GROUP (ORDER BY '' @ quotedColumn @ '')'')
           | mssqlDialect \<Rightarrow>
               Inr (''PERCENTILE_CONT('' @ percentilePlaceholder @ '') WITHIN GROUP (ORDER BY '' @ quotedColumn @
                 '') OVER ()'')
           | mysqlDialect _ \<Rightarrow> Inl (Invalid ''no percentile''))
      | AGG_UNSPECIFIED \<Rightarrow> Inl (Invalid ''aggregate function required'')
      | OTHER_AGG _ \<Rightarrow> Inl (Invalid ''unknown aggregate function''))"

definition count_thresholds_ok :: "CompileInput \<Rightarrow> 'a count_bounds_scheme \<Rightarrow> compile_error + 'b \<Rightarrow> compile_error + 'b" where
  "count_thresholds_ok inp c =
     check_result (compileValidateCountThresholds (verdict_config (in_Config inp)) (FailThreshold c) (WarnThreshold c))
       BadThreshold"

subsection \<open>One compiler per rule type\<close>

definition compileTotalRows :: "CompileInput \<Rightarrow> compiled" where
  "compileTotalRows inp =
     bind_result (compileTable (in_Dialect inp) (in_Target inp)) (\<lambda>table.
     bind_result (whereClause inp) (\<lambda>(conds, args).
       Inr \<lparr>cq_SQL = ''SELECT COUNT(*) AS total_rows FROM '' @ table @ conds, cq_Args = args,
         cq_Kind = QueryAggregate, cq_Columns = [''total_rows'']\<rparr>))"

definition compileRowCount :: "CompileInput \<Rightarrow> RowCountConfig \<Rightarrow> compiled" where
  "compileRowCount inp c = check_result (compileValidateRowCount c) BadThreshold (compileTotalRows inp)"

definition compileRowCountChange :: "CompileInput \<Rightarrow> RowCountChangeConfig \<Rightarrow> compiled" where
  "compileRowCountChange inp c =
     check_result (compileValidateRowCountChange c) BadThreshold (compileTotalRows inp)"

definition compileNullPercent :: "CompileInput \<Rightarrow> NullPercentRule \<Rightarrow> compiled" where
  "compileNullPercent inp c =
     bind_result (column_result (requireNullTestColumn (in_Target inp) (np_Column c))) (\<lambda>column.
     check_result (compileValidateNullPercent (NullPercentConfig.truncate c)) BadThreshold (
     bind_result (scanRelation inp) (\<lambda>(relation, conds, filterArgs).
     bind_result (if np_NullValues c = [] then Inr column
       else column_result (requireComparisonColumn (in_Target inp) (ci_Name column))) (\<lambda>_.
     bind_result (nullPercentValues (in_Unicode inp) column (np_NullValues c)) (\<lambda>values.
       let d = in_Dialect inp;
           qualified = QuoteIdentifier d (ci_Name column);
           (placeholders, args) = add_all (ca_add d) values (newCompileArgs filterArgs);
           condition = (if values = [] then qualified @ '' IS NULL''
             else qualified @ '' IS NULL OR '' @ qualified @ '' IN ('' @ Join placeholders '', '' @ '')'')
       in Inr (compileCountSelect relation conds condition (ca_values d args)))))))"

text \<open>The alias of the flag is the first of \<open>__dq_keyed\<close>, \<open>__dq_keyed_2\<close>, ... no column is called.\<close>

definition targetHasColumnFold :: "ResolvedTarget \<Rightarrow> string \<Rightarrow> bool" where
  "targetHasColumnFold target name \<longleftrightarrow> list_ex (\<lambda>column. EqualFold (ci_Name column) name) (rt_Columns target)"

definition keyed_aliases :: "nat \<Rightarrow> string list" where
  "keyed_aliases n = ''__dq_keyed'' # map (\<lambda>suffix. ''__dq_keyed_'' @ dec suffix) [2..<n + 2]"

definition uniqueKeyedAlias :: "ResolvedTarget \<Rightarrow> string" where
  "uniqueKeyedAlias target =
     hd (filter (\<lambda>name. \<not> targetHasColumnFold target name) (keyed_aliases (length (rt_Columns target))))"

definition compileUniqueQuery :: "CompileInput \<Rightarrow> string list \<Rightarrow> bool \<Rightarrow> compiled" where
  "compileUniqueQuery inp columns countNulls =
     bind_result (scanRelation inp) (\<lambda>(relation, conds, filterArgs).
       let quoted = map (QuoteIdentifier (in_Dialect inp)) columns;
           selectList = Join quoted '', '';
           keyedAlias = uniqueKeyedAlias (in_Target inp);
           keyed = map (\<lambda>column. column @ '' IS NOT NULL'') quoted;
           innerList = selectList @ '', COUNT(*) AS cnt'' @
             (if countNulls then []
              else '', CASE WHEN '' @ Join keyed '' AND '' @ '' THEN 1 ELSE 0 END AS '' @ keyedAlias);
           failure = (if countNulls then ''cnt > 1'' else ''cnt > 1 AND '' @ keyedAlias @ '' = 1'')
       in Inr \<lparr>cq_SQL = ''SELECT COALESCE(SUM(CASE WHEN '' @ failure @
            '' THEN cnt - 1 ELSE 0 END), 0) AS failed_rows, COUNT(CASE WHEN '' @ failure @
            '' THEN 1 END) AS duplicate_groups, COALESCE(SUM(cnt), 0) AS total_rows FROM (SELECT '' @
            innerList @ '' FROM '' @ relation @ conds @ '' GROUP BY '' @ selectList @ '') dq'',
          cq_Args = filterArgs, cq_Kind = QueryAggregate,
          cq_Columns = [''failed_rows'', ''duplicate_groups'', ''total_rows'']\<rparr>)"

definition unique_column :: "CompileInput \<Rightarrow> bool \<Rightarrow> string \<Rightarrow> compile_error + string" where
  "unique_column inp countNulls name =
     bind_result (column_result (requireGroupingColumn (in_Target inp) name)) (\<lambda>column.
     bind_result (if countNulls then Inr column
       else column_result (requireNullTestColumn (in_Target inp) (ci_Name column))) (\<lambda>_.
       Inr (ci_Name column)))"

definition compileUnique :: "CompileInput \<Rightarrow> UniqueConfig \<Rightarrow> compiled" where
  "compileUnique inp c =
     bind_result (unique_column inp (uq_CountNulls c) (uq_Column c)) (\<lambda>column.
     count_thresholds_ok inp c (compileUniqueQuery inp [column] (uq_CountNulls c)))"

definition compileUniqueCombination :: "CompileInput \<Rightarrow> UniqueCombinationConfig \<Rightarrow> compiled" where
  "compileUniqueCombination inp c =
     (let names = (if uc_AllColumns c then ColumnNames (in_Target inp) else uc_Columns c) in
      if names = [] then Inl (Invalid ''columns required'')
      else if compileMaxUniqueColumns < length names then Inl (Invalid ''too many columns'')
      else bind_result (collect_results (unique_column inp (uc_CountNulls c)) names) (\<lambda>columns.
        count_thresholds_ok inp c (compileUniqueQuery inp columns (uc_CountNulls c))))"

text \<open>The value sources of an accepted-values rule.\<close>

datatype acceptedValuesSource = acceptedValuesList | acceptedValuesField | acceptedValuesQuery

definition acceptedValuesSourceOf :: "unicode \<Rightarrow> AcceptedValuesConfig \<Rightarrow> compile_error + acceptedValuesSource" where
  "acceptedValuesSourceOf uni c =
     (let list = av_Values c \<noteq> []; field = GoTrimSpace uni (av_Field c) \<noteq> []; query = av_Query c \<noteq> None in
      if 1 < length (filter id [list, field, query]) then Inl (Invalid ''several value sources'')
      else if list then Inr acceptedValuesList
      else if field then Inr acceptedValuesField
      else if query then Inr acceptedValuesQuery
      else Inl (Invalid ''value source required''))"

definition acceptedValuesColumn ::
    "ResolvedTarget \<Rightarrow> AcceptedValuesConfig \<Rightarrow> acceptedValuesSource \<Rightarrow> compile_error + ColumnInfo" where
  "acceptedValuesColumn target c source =
     column_result (if source = acceptedValuesList then requireValueComparisonColumn target (av_Column c)
       else requireComparisonColumn target (av_Column c))"

definition acceptedValuesFieldColumn ::
    "unicode \<Rightarrow> ResolvedTarget \<Rightarrow> AcceptedValuesConfig \<Rightarrow> ColumnInfo \<Rightarrow> compile_error + ColumnInfo" where
  "acceptedValuesFieldColumn uni target c column =
     bind_result (column_result (requireComparisonColumn target (GoTrimSpace uni (av_Field c)))) (\<lambda>reference.
       if ci_Name reference = ci_Name column then Inl (Invalid ''same column'')
       else if \<not> comparableColumnTypes column reference (rt_Engine target) then Inl (Invalid ''incomparable columns'')
       else Inr reference)"

definition acceptedValuesFieldSet :: "CompileInput \<Rightarrow> AcceptedValuesConfig \<Rightarrow> ColumnInfo \<Rightarrow> compile_error + string" where
  "acceptedValuesFieldSet inp c column =
     bind_result (acceptedValuesFieldColumn (in_Unicode inp) (in_Target inp) c column) (\<lambda>reference.
     bind_result (compileTable (in_Dialect inp) (in_Target inp)) (\<lambda>table.
       let quoted = QuoteIdentifier (in_Dialect inp) (ci_Name reference)
       in Inr (''SELECT '' @ quoted @ '' FROM '' @ table @ '' WHERE '' @ quoted @ '' IS NOT NULL'')))"

definition is_sql_tail :: "char \<Rightarrow> bool" where
  "is_sql_tail ch \<longleftrightarrow> ch \<in> {CHR '';'', CHR '' '', CHR 0x09, CHR 0x0D, CHR 0x0A}"

definition referenceTimeVariables :: TimeVariables where
  "referenceTimeVariables = \<lparr>tv_At = 62135596800 * second, tv_Location = Some UTC\<rparr>"

definition customSQLForParsing :: "string \<Rightarrow> variable_error + string" where
  "customSQLForParsing statement = RenderCustomSQLVariables statement referenceTimeVariables"

text \<open>\<open>parse\<close> is the verdict of an engine's parser, \<open>derived\<close> the one on a derived query for SQL Server.\<close>

definition maxCustomSQLBytes :: nat where "maxCustomSQLBytes = compileMaxCustomSQLLength"

definition ValidateCustomSQL ::
    "unicode \<Rightarrow> (dq_engine \<Rightarrow> string \<Rightarrow> compile_error option) \<Rightarrow> dq_engine \<Rightarrow> string \<Rightarrow> compile_error option" where
  "ValidateCustomSQL uni parse engine sql =
     (let statement = GoTrimSpace uni sql in
      if statement = [] then Some (Invalid ''custom SQL required'')
      else if maxCustomSQLBytes < length statement then Some (Invalid ''custom SQL too long'')
      else case customSQLForParsing statement of
          Inl e \<Rightarrow> Some (BadVariable e)
        | Inr parseable \<Rightarrow>
            (case engine of
               NoEngine \<Rightarrow> Some (Invalid ''no engine'')
             | UnknownEngine _ \<Rightarrow> Some (Invalid ''no parser'')
             | _ \<Rightarrow> parse engine parseable))"

definition validateAcceptedValuesQuery ::
    "unicode \<Rightarrow> (dq_engine \<Rightarrow> string \<Rightarrow> compile_error option) \<Rightarrow> (string \<Rightarrow> compile_error option) \<Rightarrow> dq_engine
     \<Rightarrow> AcceptedValuesQuery option \<Rightarrow> compile_error option" where
  "validateAcceptedValuesQuery uni parse derived engine query =
     (case query of
        None \<Rightarrow> Some (Invalid ''query required'')
      | Some q \<Rightarrow>
          if GoTrimSpace uni (avq_ValueColumn q) = [] then Some (Invalid ''value column required'')
          else case ValidateCustomSQL uni parse engine (avq_Sql q) of
              Some e \<Rightarrow> Some e
            | None \<Rightarrow>
                if engine = Mssql then
                  (case customSQLForParsing (avq_Sql q) of
                     Inl e \<Rightarrow> Some (BadVariable e)
                   | Inr parseable \<Rightarrow> derived parseable)
                else None)"

definition acceptedValuesQuerySet :: "CompileInput \<Rightarrow> AcceptedValuesQuery option \<Rightarrow> compile_error + string" where
  "acceptedValuesQuerySet inp query =
     check_result (if rt_Engine (in_Target inp) = NoEngine then None else validateAcceptedValuesQuery (in_Unicode inp) (in_SQL inp) (in_Derived inp)
       (rt_Engine (in_Target inp)) query) id
     (case query of
        None \<Rightarrow> Inl (Invalid ''query required'')
      | Some q \<Rightarrow>
          let statement = TrimRight is_sql_tail (GoTrimSpace (in_Unicode inp) (avq_Sql q));
              quoted = QuoteIdentifier (in_Dialect inp) (GoTrimSpace (in_Unicode inp) (avq_ValueColumn q))
          in map_sum BadVariable
               (\<lambda>rendered. ''SELECT dq_values.'' @ quoted @ '' FROM ('' @ rendered @ [CHR 0x0A] @
                  '') dq_values WHERE dq_values.'' @ quoted @ '' IS NOT NULL'')
               (RenderCustomSQLVariables statement (in_Variables inp)))"

text \<open>The condition of an accepted-values rule, with the argument list it binds its values in.\<close>

definition acceptedValuesCondition ::
    "CompileInput \<Rightarrow> AcceptedValuesConfig \<Rightarrow> ColumnInfo \<Rightarrow> (arg \<Rightarrow> 's \<Rightarrow> string \<times> 's) \<Rightarrow> 's
     \<Rightarrow> compile_error + (string \<times> 's)" where
  "acceptedValuesCondition inp c column add args =
     bind_result (acceptedValuesSourceOf (in_Unicode inp) c) (\<lambda>source.
     bind_result
       (case source of
          acceptedValuesList \<Rightarrow>
            if compileMaxAcceptedValues < length (av_Values c) then Inl (Invalid ''too many values'')
            else map_sum id (\<lambda>values. let (ps, args') = add_all add values args in (Join ps '', '', args'))
              (collect_results (compileValueArg (in_Unicode inp) column) (av_Values c))
        | acceptedValuesField \<Rightarrow> map_sum id (\<lambda>s. (s, args)) (acceptedValuesFieldSet inp c column)
        | acceptedValuesQuery \<Rightarrow> map_sum id (\<lambda>s. (s, args)) (acceptedValuesQuerySet inp (av_Query c)))
       (\<lambda>(set_text, args').
         let qualified = QuoteIdentifier (in_Dialect inp) (ci_Name column);
             condition = qualified @ '' NOT IN ('' @ set_text @ '')''
         in Inr (if av_AllowNull c then condition else qualified @ '' IS NULL OR '' @ condition, args')))"

definition compileAcceptedValues :: "CompileInput \<Rightarrow> AcceptedValuesConfig \<Rightarrow> compiled" where
  "compileAcceptedValues inp c =
     bind_result (acceptedValuesSourceOf (in_Unicode inp) c) (\<lambda>source.
     bind_result (acceptedValuesColumn (in_Target inp) c source) (\<lambda>column.
     count_thresholds_ok inp c (
     bind_result (scanRelation inp) (\<lambda>(relation, conds, filterArgs).
     bind_result (acceptedValuesCondition inp c column (ca_add (in_Dialect inp)) (newCompileArgs filterArgs))
       (\<lambda>(condition, args).
         Inr (compileCountSelect relation conds condition (ca_values (in_Dialect inp) args)))))))"

text \<open>An optional bound of a range, converted.\<close>

definition range_value :: "unicode \<Rightarrow> ColumnInfo \<Rightarrow> string option \<Rightarrow> compile_error + arg option" where
  "range_value uni column bound =
     (case bound of None \<Rightarrow> Inr None | Some v \<Rightarrow> map_sum id Some (compileValueArg uni column v))"

definition range_crossed :: "arg option \<Rightarrow> arg option \<Rightarrow> bool" where
  "range_crossed minValue maxValue =
     (case (Option.bind minValue numericValue, Option.bind maxValue numericValue) of
        (Some lower, Some upper) \<Rightarrow> f_less upper lower
      | _ \<Rightarrow> False)"

text \<open>One optional condition: the text before its placeholder, and the value.\<close>

fun add_conditions ::
    "(arg \<Rightarrow> 's \<Rightarrow> string \<times> 's) \<Rightarrow> (string \<times> arg option) list \<Rightarrow> 's \<Rightarrow> string list \<times> 's" where
  "add_conditions add [] s = ([], s)"
| "add_conditions add ((_, None) # rest) s = add_conditions add rest s"
| "add_conditions add ((front, Some v) # rest) s =
     (let (p, s') = add v s; (conditions, s'') = add_conditions add rest s'
      in ((front @ p) # conditions, s''))"

definition compileRange :: "CompileInput \<Rightarrow> RangeConfig \<Rightarrow> compiled" where
  "compileRange inp c =
     bind_result (column_result (compileComparableColumn (in_Target inp) (rg_Column c))) (\<lambda>column.
     if rg_Min c = None \<and> rg_Max c = None then Inl (Invalid ''range bound required'')
     else count_thresholds_ok inp c (
     bind_result (range_value (in_Unicode inp) column (rg_Min c)) (\<lambda>minValue.
     bind_result (range_value (in_Unicode inp) column (rg_Max c)) (\<lambda>maxValue.
     if range_crossed minValue maxValue then Inl (Invalid ''range bounds crossed'')
     else bind_result (scanRelation inp) (\<lambda>(relation, conds, filterArgs).
       let d = in_Dialect inp;
           qualified = QuoteIdentifier d (ci_Name column);
           (conditions, args) = add_conditions (ca_add d)
             [(qualified @ (if rg_Inclusive c then '' < '' else '' <= ''), minValue),
              (qualified @ (if rg_Inclusive c then '' > '' else '' >= ''), maxValue)] (newCompileArgs filterArgs)
       in Inr (compileCountSelect relation conds (Join conditions '' OR '') (ca_values d args)))))))"

definition compileRegex :: "CompileInput \<Rightarrow> RegexConfig \<Rightarrow> compiled" where
  "compileRegex inp c =
     bind_result (column_result (requireRegexColumn (in_Target inp) (rx_Column c))) (\<lambda>column.
       let pattern = GoTrimSpace (in_Unicode inp) (rx_Pattern c) in
       if pattern = [] then Inl (Invalid ''pattern required'')
       else bind_result (compileRegexNotMatch (in_Dialect inp)) (\<lambda>operator.
       count_thresholds_ok inp c (
       bind_result (scanRelation inp) (\<lambda>(relation, conds, filterArgs).
         let d = in_Dialect inp;
             (placeholder, args) = ca_add d (TextArg pattern) (newCompileArgs filterArgs);
             qualified = QuoteIdentifier d (ci_Name column)
         in Inr (compileCountSelect relation conds
              (qualified @ '' IS NULL OR '' @ qualified @ '' '' @ operator @ '' '' @ placeholder) (ca_values d args))))))"

definition compileStringLength :: "CompileInput \<Rightarrow> StringLengthConfig \<Rightarrow> compiled" where
  "compileStringLength inp c =
     bind_result (column_result (requireLengthColumn (in_Target inp) (sl_Column c))) (\<lambda>column.
     if sl_MinLen c = None \<and> sl_MaxLen c = None then Inl (Invalid ''length bound required'')
     else if opt_negative (sl_MinLen c) \<or> opt_negative (sl_MaxLen c) then Inl (Invalid ''negative length'')
     else if opt_less (sl_MaxLen c) (sl_MinLen c) then Inl (Invalid ''length bounds crossed'')
     else count_thresholds_ok inp c (
     bind_result (scanRelation inp) (\<lambda>(relation, conds, filterArgs).
       let d = in_Dialect inp;
           len = LengthExpr d (QuoteIdentifier d (ci_Name column));
           (conditions, args) = add_conditions (ca_add d)
             [(len @ '' < '', map_option IntArg (sl_MinLen c)), (len @ '' > '', map_option IntArg (sl_MaxLen c))]
             (newCompileArgs filterArgs)
       in Inr (compileCountSelect relation conds (Join conditions '' OR '') (ca_values d args)))))"

definition compileReferentialIntegrity :: "CompileInput \<Rightarrow> ReferentialIntegrityConfig \<Rightarrow> compiled" where
  "compileReferentialIntegrity inp c =
     bind_result (column_result (requireComparisonColumn (in_Target inp) (ri_ChildColumn c))) (\<lambda>childColumn.
       let parentColumn = GoTrimSpace (in_Unicode inp) (ri_ParentColumn c); d = in_Dialect inp in
       if parentColumn = [] then Inl (Invalid ''parent column required'')
       else bind_result (compileParentTable (in_Unicode inp) d (in_Target inp) (ri_ParentTable c)) (\<lambda>parentTable.
       count_thresholds_ok inp c (
       bind_result (compileTable d (in_Target inp)) (\<lambda>table.
       bind_result (whereClause inp) (\<lambda>(conds, args).
         let child = ''c.'' @ QuoteIdentifier d (ci_Name childColumn);
             parent = ''p.'' @ QuoteIdentifier d parentColumn;
             condition = (if ri_AllowNull c then child @ '' IS NOT NULL AND '' @ parent @ '' IS NULL''
               else child @ '' IS NULL OR '' @ parent @ '' IS NULL'')
         in Inr \<lparr>cq_SQL = ''SELECT COUNT(*) AS total_rows, SUM(CASE WHEN '' @ condition @
              '' THEN 1 ELSE 0 END) AS failed_rows FROM (SELECT * FROM '' @ table @ conds @
              '') c LEFT JOIN '' @ parentTable @ '' p ON '' @ child @ '' = '' @ parent,
            cq_Args = args, cq_Kind = QueryAggregate, cq_Columns = [''total_rows'', ''failed_rows'']\<rparr>)))))"

definition compileCrossColumn :: "CompileInput \<Rightarrow> CrossColumnConfig \<Rightarrow> compiled" where
  "compileCrossColumn inp c =
     bind_result (column_result (compileComparableColumn (in_Target inp) (cc_LeftColumn c))) (\<lambda>left.
     bind_result (column_result (compileComparableColumn (in_Target inp) (cc_RightColumn c))) (\<lambda>right.
     if ci_Kind left \<noteq> ci_Kind right then Inl (Invalid ''incomparable columns'')
     else if cc_Op c = CMP_UNSPECIFIED then Inl (Invalid ''comparison operator required'')
     else if (case cc_Tolerance c of None \<Rightarrow> False | Some t \<Rightarrow> f_less t (Fin 0)) then Inl (Invalid ''negative tolerance'')
     else if cc_Tolerance c \<noteq> None \<and> ci_Kind left \<noteq> KindNumeric then Inl (Invalid ''tolerance needs numbers'')
     else count_thresholds_ok inp c (
     bind_result (scanRelation inp) (\<lambda>(relation, conds, filterArgs).
       let d = in_Dialect inp; args = newCompileArgs filterArgs;
           (placeholder, args) =
             (case cc_Tolerance c of None \<Rightarrow> ([], args) | Some t \<Rightarrow> ca_add d (FloatArg t) args)
       in bind_result
            (compileCrossColumnFailure (QuoteIdentifier d (ci_Name left)) (QuoteIdentifier d (ci_Name right))
              (cc_Op c) (cc_Tolerance c) placeholder)
            (\<lambda>condition. Inr (compileCountSelect relation conds condition (ca_values d args)))))))"

definition compileFreshness :: "CompileInput \<Rightarrow> FreshnessRule \<Rightarrow> compiled" where
  "compileFreshness inp c =
     bind_result (column_result (compileTemporalColumn (in_Target inp) (fr_TimestampColumn c))) (\<lambda>column.
     if MaxLagSeconds c < 0 then Inl (BadThreshold NegativeBound)
     else if opt_negative (WarnLagSeconds c) then Inl (BadThreshold NegativeBound)
     else if opt_less (Some (MaxLagSeconds c)) (WarnLagSeconds c) then Inl (BadThreshold WarnExceedsFail)
     else bind_result (compileTable (in_Dialect inp) (in_Target inp)) (\<lambda>table.
     bind_result (whereClause inp) (\<lambda>(conds, args).
       let maximum = ''MAX('' @ QuoteIdentifier (in_Dialect inp) (ci_Name column) @ '')''
       in Inr \<lparr>cq_SQL = ''SELECT COUNT(*) AS total_rows, '' @ maximum @ '' AS max_ts, '' @
            compileFreshnessLagExpr (in_Dialect inp) maximum @ '' AS lag_seconds FROM '' @ table @ conds,
          cq_Args = args, cq_Kind = QueryAggregate,
          cq_Columns = [''total_rows'', ''max_ts'', ''lag_seconds'']\<rparr>)))"

definition compileCustomSQL :: "CompileInput \<Rightarrow> CustomSqlConfig \<Rightarrow> compiled" where
  "compileCustomSQL inp c =
     (let userSQL = TrimRight is_sql_tail (GoTrimSpace (in_Unicode inp) (cs_Sql c)) in
      if userSQL = [] then Inl (Invalid ''custom SQL required'')
      else if compileMaxCustomSQLLength < length userSQL then Inl (Invalid ''custom SQL too long'')
      else check_result (if rt_Engine (in_Target inp) = NoEngine then None else ValidateCustomSQL (in_Unicode inp) (in_SQL inp) (rt_Engine (in_Target inp)) userSQL) id (
      count_thresholds_ok inp c (
      map_sum BadVariable
        (\<lambda>rendered. \<lparr>cq_SQL = ''SELECT COUNT(*) AS failed_rows FROM ('' @ rendered @ '') dq'', cq_Args = [],
           cq_Kind = QueryAggregate, cq_Columns = [''failed_rows'']\<rparr>)
        (RenderCustomSQLVariables userSQL (in_Variables inp)))))"

definition compileSchemaDrift :: "CompileInput \<Rightarrow> SchemaDriftConfig \<Rightarrow> compiled" where
  "compileSchemaDrift inp c = Inr \<lparr>cq_SQL = [], cq_Args = [], cq_Kind = QueryMetadata, cq_Columns = []\<rparr>"

definition compileGroupCheck :: "CompileInput \<Rightarrow> GroupCheckConfig \<Rightarrow> compiled" where
  "compileGroupCheck inp c =
     bind_result (groupingColumns (in_Unicode inp) (in_Target inp) (gc_Columns c) maxGroupCheckColumns) (\<lambda>columns.
     check_result (groupCheckBounds c) BadThreshold (
     count_thresholds_ok inp c (
     bind_result (scanRelation inp) (\<lambda>(relation, conds, filterArgs).
       let d = in_Dialect inp;
           (conditions, args) = add_conditions (ca_add d)
             [(''cnt < '', map_option IntArg (gc_MinRowsPerGroup c)), (''cnt > '', map_option IntArg (gc_MaxRowsPerGroup c))]
             (newCompileArgs filterArgs);
           groupList = qualifyColumns d columns
       in Inr \<lparr>cq_SQL = ''SELECT COUNT(*) AS total_groups, SUM(CASE WHEN '' @ Join conditions '' OR '' @
            '' THEN 1 ELSE 0 END) AS failed_groups FROM (SELECT '' @ groupList @ '', COUNT(*) AS cnt FROM '' @
            relation @ conds @ '' GROUP BY '' @ groupList @ '') dq'',
          cq_Args = ca_values d args, cq_Kind = QueryAggregate,
          cq_Columns = [''total_groups'', ''failed_groups'']\<rparr>))))"

definition compileAggregate :: "CompileInput \<Rightarrow> AggregateRule \<Rightarrow> compiled" where
  "compileAggregate inp c =
     bind_result (scanRelation inp) (\<lambda>(relation, conds, filterArgs).
     bind_result
       (if ag_Function c = AGG_COUNT then Inr []
        else map_sum BadColumn (\<lambda>column. QuoteIdentifier (in_Dialect inp) (ci_Name column))
          (requireColumn (in_Target inp) (ag_Column c)))
     (\<lambda>quotedColumn.
       let d = in_Dialect inp; args = newCompileArgs filterArgs in
       bind_result
         (if ag_Function c \<noteq> AGG_PERCENTILE then Inr ([], args)
          else case ag_Percentile c of
              None \<Rightarrow> Inl (Invalid ''percentile required'')
            | Some p \<Rightarrow>
                if f_less p (Fin 0) \<or> f_less (Fin 100) p then Inl (BadThreshold (OutOfRange p))
                else Inr (ca_add d (FloatArg (f_div p (Fin 100))) args))
       (\<lambda>(percentilePlaceholder, args).
       bind_result (aggregateExpression d (ag_Function c) quotedColumn percentilePlaceholder) (\<lambda>expression.
         Inr \<lparr>cq_SQL = ''SELECT COUNT(*) AS total_rows, '' @ expression @ '' AS observed FROM '' @ relation @ conds,
           cq_Args = ca_values d args, cq_Kind = QueryAggregate, cq_Columns = [''total_rows'', ''observed'']\<rparr>))))"

definition crossTableFunctionSupported :: "QualityAggregateFunction \<Rightarrow> bool" where
  "crossTableFunctionSupported function \<longleftrightarrow> function \<in> {AGG_COUNT, AGG_SUM, AGG_AVG, AGG_MIN, AGG_MAX}"

definition crossTableExpression ::
    "unicode \<Rightarrow> Dialect \<Rightarrow> QualityAggregateFunction \<Rightarrow> string \<Rightarrow> ResolvedTarget \<Rightarrow> compile_error + string" where
  "crossTableExpression uni d function column target =
     (if function = AGG_COUNT then Inr ''COUNT(*)''
      else if GoTrimSpace uni column = [] then Inl (Invalid ''column required'')
      else bind_result (column_result (requireColumn target (GoTrimSpace uni column))) (\<lambda>resolved.
        aggregateExpression d function (QuoteIdentifier d (ci_Name resolved)) []))"

definition ReferenceSharesConnection :: "ResolvedTarget \<Rightarrow> ResolvedTarget \<Rightarrow> bool" where
  "ReferenceSharesConnection target reference =
     (if rt_Instance target \<noteq> rt_Instance reference then False
      else if rt_Database target = rt_Database reference then True
      else isMySQLWireEngine (rt_Engine target))"

definition compileReferenceSide ::
    "CompileInput \<Rightarrow> CrossTableRule \<Rightarrow> ResolvedTarget \<Rightarrow> nat
     \<Rightarrow> compile_error + (string \<times> string \<times> string \<times> arg list)" where
  "compileReferenceSide inp c reference argOffset =
     (case DialectFor (rt_Engine reference) of
        None \<Rightarrow> Inl (Invalid ''no dialect'')
      | Some d \<Rightarrow>
          bind_result (compileTable d reference) (\<lambda>table.
          bind_result (crossTableExpression (in_Unicode inp) d (xt_RightFunction c) (xt_RightColumn c) reference) (\<lambda>expression.
          bind_result (ParseFilter (in_Unicode inp) (xt_RightFilter c)) (\<lambda>conds.
          bind_result (map_sum BadVariable id (ResolveFilterVariables (in_Unicode inp) conds (in_Variables inp))) (\<lambda>conds.
          bind_result (CompileFilterAfter (in_Unicode inp) d reference conds argOffset) (\<lambda>(clause, args).
            Inr (table, expression, if clause = [] then [] else '' WHERE '' @ clause, args)))))))"

definition compileCrossTable :: "CompileInput \<Rightarrow> CrossTableRule \<Rightarrow> compiled" where
  "compileCrossTable inp c =
     (case in_Reference inp of
        None \<Rightarrow> Inl (Invalid ''reference table required'')
      | Some reference \<Rightarrow>
          if \<not> crossTableFunctionSupported (xt_LeftFunction c) \<or> \<not> crossTableFunctionSupported (xt_RightFunction c)
          then Inl (Invalid ''function unsupported'')
          else bind_result (compileTable (in_Dialect inp) (in_Target inp)) (\<lambda>leftTable.
          bind_result (crossTableExpression (in_Unicode inp) (in_Dialect inp) (xt_LeftFunction c) (xt_LeftColumn c) (in_Target inp)) (\<lambda>leftExpression.
          bind_result (whereClause inp) (\<lambda>(conds, filterArgs).
            if \<not> ReferenceSharesConnection (in_Target inp) reference then
              Inr \<lparr>cq_SQL = ''SELECT '' @ leftExpression @ '' AS left_value FROM '' @ leftTable @ conds,
                cq_Args = filterArgs, cq_Kind = QueryAggregate, cq_Columns = [''left_value'']\<rparr>
            else
              bind_result (compileReferenceSide inp c reference (length filterArgs))
                (\<lambda>(rightTable, rightExpression, rightWhere, rightArgs).
                  Inr \<lparr>cq_SQL = ''SELECT (SELECT '' @ leftExpression @ '' FROM '' @ leftTable @ conds @
                       '') AS left_value, (SELECT '' @ rightExpression @ '' FROM '' @ rightTable @ rightWhere @
                       '') AS right_value'',
                    cq_Args = filterArgs @ rightArgs, cq_Kind = QueryAggregate,
                    cq_Columns = [''left_value'', ''right_value'']\<rparr>)))))"

definition CompileReference :: "CompileInput \<Rightarrow> CrossTableRule \<Rightarrow> compiled" where
  "CompileReference inp c =
     (case in_Reference inp of
        None \<Rightarrow> Inl (Invalid ''reference table required'')
      | Some reference \<Rightarrow>
          if \<not> crossTableFunctionSupported (xt_RightFunction c) then Inl (Invalid ''function unsupported'')
          else bind_result (compileReferenceSide inp c reference 0)
            (\<lambda>(rightTable, rightExpression, rightWhere, rightArgs).
              Inr \<lparr>cq_SQL = ''SELECT '' @ rightExpression @ '' AS right_value FROM '' @ rightTable @ rightWhere,
                cq_Args = rightArgs, cq_Kind = QueryAggregate, cq_Columns = [''right_value'']\<rparr>))"

subsection \<open>Samples of rows\<close>

text \<open>The argument list of a sample is in the order of its placeholders.\<close>

definition sa_add_arg :: "Dialect \<Rightarrow> arg \<Rightarrow> arg list \<Rightarrow> string \<times> arg list" where
  "sa_add_arg d v values = (let values = values @ [v] in (Placeholder d (length values), values))"

definition sampleSelect :: "Dialect \<Rightarrow> string list \<Rightarrow> string" where
  "sampleSelect d names = Join (map (QuoteIdentifier d) names) '', ''"

definition sampleColumns :: "ResolvedTarget \<Rightarrow> string list \<Rightarrow> string list" where
  "sampleColumns target checked =
     foldl (\<lambda>names name. if name \<in> set names then names else names @ [name]) [] (rt_KeyColumns target @ checked)"

definition sampleLimitClause :: "Dialect \<Rightarrow> int \<Rightarrow> string" where
  "sampleLimitClause d limit =
     (if d = mssqlDialect then '' ORDER BY (SELECT NULL) '' @ LimitClause d limit else '' '' @ LimitClause d limit)"

definition sampleQuery :: "CompileInput \<Rightarrow> string \<Rightarrow> arg list \<Rightarrow> string list \<Rightarrow> int \<Rightarrow> CompiledQuery" where
  "sampleQuery inp sql args columns limit =
     \<lparr>cq_SQL = sql @ sampleLimitClause (in_Dialect inp) limit, cq_Args = args, cq_Kind = QuerySample,
      cq_Columns = columns\<rparr>"

definition maxCELColumns :: nat where "maxCELColumns = 20"
definition defaultCELSampleRows :: int where "defaultCELSampleRows = 10000"
definition maxCELSampleRows :: int where "maxCELSampleRows = 100000"

definition celSampleRows :: "int \<Rightarrow> compile_error + int" where
  "celSampleRows configured =
     (if configured < 0 then Inl (Invalid ''negative sample'')
      else if configured = 0 then Inr defaultCELSampleRows
      else if maxCELSampleRows < configured then Inl (Invalid ''sample too large'')
      else Inr configured)"

text \<open>\<open>celIdentifierPattern\<close>.\<close>

definition is_word_char :: "char \<Rightarrow> bool" where
  "is_word_char ch \<longleftrightarrow> is_lower (lower_char ch) \<or> is_digit ch \<or> ch = CHR ''_''"

definition is_cel_identifier :: "string \<Rightarrow> bool" where
  "is_cel_identifier name \<longleftrightarrow> name \<noteq> [] \<and> list_all is_word_char name \<and> \<not> is_digit (hd name)"

fun celColumnsLoop :: "unicode \<Rightarrow> ResolvedTarget \<Rightarrow> string list \<Rightarrow> ColumnInfo list \<Rightarrow> compile_error + ColumnInfo list" where
  "celColumnsLoop uni target [] columns = Inr columns"
| "celColumnsLoop uni target (name # names) columns =
     bind_result (column_result (requireColumn target (GoTrimSpace uni name))) (\<lambda>column.
       if \<not> is_cel_identifier (ci_Name column) then Inl (Invalid ''not an identifier'')
       else celColumnsLoop uni target names
         (if ci_Name column \<in> ci_Name ` set columns then columns else columns @ [column]))"

definition celColumns :: "unicode \<Rightarrow> ResolvedTarget \<Rightarrow> string list \<Rightarrow> compile_error + ColumnInfo list" where
  "celColumns uni target names =
     (if names = [] then Inl (Invalid ''column required'')
      else bind_result (celColumnsLoop uni target names []) (\<lambda>columns.
        if maxCELColumns < length columns then Inl (Invalid ''too many columns'') else Inr columns))"

definition compileCelExpression :: "CompileInput \<Rightarrow> CelExpressionConfig \<Rightarrow> compiled" where
  "compileCelExpression inp c =
     bind_result (celColumns (in_Unicode inp) (in_Target inp) (ce_Columns c)) (\<lambda>columns.
     bind_result (celSampleRows (ce_SampleRows c)) (\<lambda>sampleRows.
     bind_result (compileTable (in_Dialect inp) (in_Target inp)) (\<lambda>table.
     bind_result (whereClause inp) (\<lambda>(conds, filterArgs).
       let names = map ci_Name columns
       in Inr (sampleQuery inp (''SELECT '' @ sampleSelect (in_Dialect inp) names @ '' FROM '' @ table @ conds)
            filterArgs names sampleRows)))))"

definition compileStandardCode :: "CompileInput \<Rightarrow> StandardCodeConfig \<Rightarrow> compiled" where
  "compileStandardCode inp c =
     bind_result (column_result (requireTextColumn (in_Target inp) (st_Column c))) (\<lambda>column.
     bind_result (map_sum (\<lambda>_. Invalid ''sample rows'') id (standardCodeSampleRows (st_SampleRows c))) (\<lambda>sampleRows.
     bind_result (compileTable (in_Dialect inp) (in_Target inp)) (\<lambda>table.
     bind_result (whereClause inp) (\<lambda>(conds, filterArgs).
       let names = sampleColumns (in_Target inp) [ci_Name column]
       in Inr (sampleQuery inp (''SELECT '' @ sampleSelect (in_Dialect inp) names @ '' FROM '' @ table @ conds)
            filterArgs names sampleRows)))))"

definition maxSegmentColumns :: nat where "maxSegmentColumns = 5"
definition maxSegmentCount :: int where "maxSegmentCount = 500"
definition segmentRowCountColumn :: string where "segmentRowCountColumn = ''segment_rows''"
definition defaultSegmentBaselineRuns :: int where "defaultSegmentBaselineRuns = 3"
definition maxSegmentBaselineRuns :: int where "maxSegmentBaselineRuns = 10"
definition defaultSegmentMinOccurrences :: int where "defaultSegmentMinOccurrences = 2"

definition SegmentCheckBounds :: "'a SegmentCheckConfig_scheme \<Rightarrow> compile_error + (int \<times> int)" where
  "SegmentCheckBounds c =
     (let baselineRuns = (if cfg_BaselineRuns c = 0 then defaultSegmentBaselineRuns else cfg_BaselineRuns c) in
      if baselineRuns < 1 \<or> maxSegmentBaselineRuns < baselineRuns then Inl (Invalid ''baseline runs'')
      else
        let minOccurrences = (if cfg_MinOccurrences c = 0 then min defaultSegmentMinOccurrences baselineRuns
              else cfg_MinOccurrences c) in
        if minOccurrences < 1 \<or> baselineRuns < minOccurrences then Inl (Invalid ''min occurrences'')
        else Inr (baselineRuns, minOccurrences))"

definition compileSegmentCheck :: "CompileInput \<Rightarrow> SegmentCheckRule \<Rightarrow> compiled" where
  "compileSegmentCheck inp c =
     bind_result (groupingColumns (in_Unicode inp) (in_Target inp) (sg_Columns c) maxSegmentColumns) (\<lambda>columns.
     bind_result (SegmentCheckBounds c) (\<lambda>_.
     check_result (compileValidateCountThresholds (verdict_config (in_Config inp)) (sc_FailThreshold c) (sc_WarnThreshold c))
       BadThreshold (
     bind_result (scanRelation inp) (\<lambda>(relation, conds, filterArgs).
       let groupList = qualifyColumns (in_Dialect inp) columns
       in Inr \<lparr>cq_SQL = ''SELECT '' @ groupList @ '', COUNT(*) AS '' @ segmentRowCountColumn @ '' FROM '' @ relation @
            conds @ '' GROUP BY '' @ groupList @ '' ORDER BY '' @ segmentRowCountColumn @ '' DESC, '' @ groupList @
            '' '' @ LimitClause (in_Dialect inp) (maxSegmentCount + 1),
          cq_Args = filterArgs, cq_Kind = QuerySample, cq_Columns = columns @ [segmentRowCountColumn]\<rparr>))))"

subsection \<open>Compiling a rule\<close>

definition compile_arm :: "CompileInput \<Rightarrow> compiled" where
  "compile_arm inp =
     (case rc_Arm (in_Config inp) of
        EmptyC \<Rightarrow> Inl (Invalid ''empty config'')
      | RowCountC c \<Rightarrow> compileRowCount inp c
      | RowCountChangeC c \<Rightarrow> compileRowCountChange inp c
      | NullPercentC c \<Rightarrow> compileNullPercent inp c
      | UniqueC c \<Rightarrow> compileUnique inp c
      | UniqueCombinationC c \<Rightarrow> compileUniqueCombination inp c
      | AcceptedValuesC c \<Rightarrow> compileAcceptedValues inp c
      | RangeC c \<Rightarrow> compileRange inp c
      | RegexC c \<Rightarrow> compileRegex inp c
      | StringLengthC c \<Rightarrow> compileStringLength inp c
      | ReferentialIntegrityC c \<Rightarrow> compileReferentialIntegrity inp c
      | CrossColumnC c \<Rightarrow> compileCrossColumn inp c
      | FreshnessC c \<Rightarrow> compileFreshness inp c
      | CustomSqlC c \<Rightarrow> compileCustomSQL inp c
      | CelExpressionC c \<Rightarrow> compileCelExpression inp c
      | SchemaDriftC c \<Rightarrow> compileSchemaDrift inp c
      | GroupCheckC c \<Rightarrow> compileGroupCheck inp c
      | AggregateC c \<Rightarrow> compileAggregate inp c
      | CrossTableC c \<Rightarrow> compileCrossTable inp c
      | StandardCodeC c \<Rightarrow> compileStandardCode inp c
      | SegmentCheckC c \<Rightarrow> compileSegmentCheck inp c)"

text \<open>The compiler of the type is the compiler of the arm, because the two are compared first.\<close>

definition Compile :: "CompileInput \<Rightarrow> compiled" where
  "Compile inp =
     (if ruleTypeSpecFor (in_Type inp) = None then Inl (Invalid ''no compiler'')
      else case configArm (in_Config inp) of
          None \<Rightarrow> Inl (Invalid ''empty config'')
        | Some arm \<Rightarrow>
            if arm \<noteq> in_Type inp then Inl (Invalid ''config of another type'')
            else check_result
              (validateSampling (rt_MetaType (in_Target inp))
                (map_option SupportsTableSample (DialectFor (rt_Engine (in_Target inp))))
                (in_Type inp) (rc_Sampling (in_Config inp)))
              BadSampling (compile_arm inp))"

end
