(* ===== verification/Quality_Samples.thy ===== *)
theory Quality_Samples
  imports Quality_Compile
begin

text \<open>
  The rows behind a count, \<open>backend/component/dataquality/compile_samples.go\<close>: the statements that
  select the rows a rule counted as failures, and the rows it counted as pass_rows.
\<close>

subsection \<open>Plans\<close>

record rowSamplePlan =
  sp_relation :: string
  sp_where :: string
  sp_filterArgs :: "arg list"
  sp_columns :: "string list"
  sp_predicate :: "arg list \<Rightarrow> compile_error + (string \<times> arg list)"

definition compileSamplePlan ::
    "compile_error + rowSamplePlan \<Rightarrow> CompileInput \<Rightarrow> int \<Rightarrow> bool \<Rightarrow> compiled" where
  "compileSamplePlan planned inp limit pass_rows =
     bind_result planned (\<lambda>plan.
     bind_result (sp_predicate plan (sp_filterArgs plan)) (\<lambda>(condition, values).
       let condition = (if pass_rows then ''NOT ('' @ condition @ '')'' else condition)
       in Inr (sampleQuery inp
            (''SELECT '' @ sampleSelect (in_Dialect inp) (sp_columns plan) @ '' FROM '' @ sp_relation plan @
              compileAppendWhere (sp_where plan) (''('' @ condition @ '')''))
            values (sp_columns plan) limit)))"

definition nullPercentSampleColumn :: "CompileInput \<Rightarrow> NullPercentRule \<Rightarrow> compile_error + ColumnInfo" where
  "nullPercentSampleColumn inp c =
     bind_result (column_result (requireNullTestColumn (in_Target inp) (np_Column c))) (\<lambda>column.
     bind_result (if np_NullValues c = [] then Inr column
       else column_result (requireComparisonColumn (in_Target inp) (np_Column c))) (\<lambda>_. Inr column))"

definition nullPercentSamplePlan :: "CompileInput \<Rightarrow> NullPercentRule \<Rightarrow> compile_error + rowSamplePlan" where
  "nullPercentSamplePlan inp c =
     bind_result (nullPercentSampleColumn inp c) (\<lambda>column.
     bind_result (scanRelation inp) (\<lambda>(relation, conds, filterArgs).
     bind_result (nullPercentValues (in_Unicode inp) column (np_NullValues c)) (\<lambda>values.
       let d = in_Dialect inp; qualified = QuoteIdentifier d (ci_Name column)
       in Inr \<lparr>sp_relation = relation, sp_where = conds, sp_filterArgs = filterArgs,
            sp_columns = sampleColumns (in_Target inp) [ci_Name column],
            sp_predicate = (\<lambda>args.
              if values = [] then Inr (qualified @ '' IS NULL'', args)
              else let (placeholders, args') = add_all (sa_add_arg d) values args
                in Inr (qualified @ '' IS NULL OR '' @ qualified @ '' IN ('' @ Join placeholders '', '' @ '')'', args'))\<rparr>)))"

definition acceptedValuesSamplePlan :: "CompileInput \<Rightarrow> AcceptedValuesConfig \<Rightarrow> compile_error + rowSamplePlan" where
  "acceptedValuesSamplePlan inp c =
     bind_result (acceptedValuesSourceOf (in_Unicode inp) c) (\<lambda>source.
     bind_result (acceptedValuesColumn (in_Target inp) c source) (\<lambda>column.
     bind_result (scanRelation inp) (\<lambda>(relation, conds, filterArgs).
       Inr \<lparr>sp_relation = relation, sp_where = conds, sp_filterArgs = filterArgs,
         sp_columns = sampleColumns (in_Target inp) [ci_Name column],
         sp_predicate = acceptedValuesCondition inp c column (sa_add_arg (in_Dialect inp))\<rparr>)))"

text \<open>One optional bound: its condition, when there is one.\<close>

definition range_bound ::
    "CompileInput \<Rightarrow> ColumnInfo \<Rightarrow> string \<Rightarrow> string option \<Rightarrow> string list \<times> arg list
     \<Rightarrow> compile_error + (string list \<times> arg list)" where
  "range_bound inp column front bound state =
     (case bound of
        None \<Rightarrow> Inr state
      | Some v \<Rightarrow> map_sum id
          (\<lambda>a. let (p, args) = sa_add_arg (in_Dialect inp) a (snd state) in (fst state @ [front @ p], args))
          (compileValueArg (in_Unicode inp) column v))"

definition rangeSamplePlan :: "CompileInput \<Rightarrow> RangeConfig \<Rightarrow> compile_error + rowSamplePlan" where
  "rangeSamplePlan inp c =
     bind_result (column_result (compileComparableColumn (in_Target inp) (rg_Column c))) (\<lambda>column.
     bind_result (scanRelation inp) (\<lambda>(relation, conds, filterArgs).
       let qualified = QuoteIdentifier (in_Dialect inp) (ci_Name column)
       in Inr \<lparr>sp_relation = relation, sp_where = conds, sp_filterArgs = filterArgs,
            sp_columns = sampleColumns (in_Target inp) [ci_Name column],
            sp_predicate = (\<lambda>args.
              bind_result (range_bound inp column (qualified @ (if rg_Inclusive c then '' < '' else '' <= '')) (rg_Min c) ([], args))
                (\<lambda>state.
              bind_result (range_bound inp column (qualified @ (if rg_Inclusive c then '' > '' else '' >= '')) (rg_Max c) state)
                (\<lambda>(conditions, args). Inr (Join conditions '' OR '', args))))\<rparr>))"

definition regexSamplePlan :: "CompileInput \<Rightarrow> RegexConfig \<Rightarrow> compile_error + rowSamplePlan" where
  "regexSamplePlan inp c =
     bind_result (column_result (requireRegexColumn (in_Target inp) (rx_Column c))) (\<lambda>column.
     bind_result (compileRegexNotMatch (in_Dialect inp)) (\<lambda>operator.
     bind_result (scanRelation inp) (\<lambda>(relation, conds, filterArgs).
       let qualified = QuoteIdentifier (in_Dialect inp) (ci_Name column);
           pattern = GoTrimSpace (in_Unicode inp) (rx_Pattern c)
       in Inr \<lparr>sp_relation = relation, sp_where = conds, sp_filterArgs = filterArgs,
            sp_columns = sampleColumns (in_Target inp) [ci_Name column],
            sp_predicate = (\<lambda>args.
              let (p, args') = sa_add_arg (in_Dialect inp) (TextArg pattern) args
              in Inr (qualified @ '' IS NULL OR '' @ qualified @ '' '' @ operator @ '' '' @ p, args'))\<rparr>)))"

definition stringLengthSamplePlan :: "CompileInput \<Rightarrow> StringLengthConfig \<Rightarrow> compile_error + rowSamplePlan" where
  "stringLengthSamplePlan inp c =
     bind_result (column_result (requireLengthColumn (in_Target inp) (sl_Column c))) (\<lambda>column.
     bind_result (scanRelation inp) (\<lambda>(relation, conds, filterArgs).
       let len = LengthExpr (in_Dialect inp) (QuoteIdentifier (in_Dialect inp) (ci_Name column))
       in Inr \<lparr>sp_relation = relation, sp_where = conds, sp_filterArgs = filterArgs,
            sp_columns = sampleColumns (in_Target inp) [ci_Name column],
            sp_predicate = (\<lambda>args.
              let (conditions, args') = add_conditions (sa_add_arg (in_Dialect inp))
                [(len @ '' < '', map_option IntArg (sl_MinLen c)), (len @ '' > '', map_option IntArg (sl_MaxLen c))] args
              in Inr (Join conditions '' OR '', args'))\<rparr>))"

definition crossColumnSamplePlan :: "CompileInput \<Rightarrow> CrossColumnConfig \<Rightarrow> compile_error + rowSamplePlan" where
  "crossColumnSamplePlan inp c =
     bind_result (column_result (compileComparableColumn (in_Target inp) (cc_LeftColumn c))) (\<lambda>left.
     bind_result (column_result (compileComparableColumn (in_Target inp) (cc_RightColumn c))) (\<lambda>right.
     bind_result (scanRelation inp) (\<lambda>(relation, conds, filterArgs).
       let d = in_Dialect inp
       in Inr \<lparr>sp_relation = relation, sp_where = conds, sp_filterArgs = filterArgs,
            sp_columns = sampleColumns (in_Target inp) [ci_Name left, ci_Name right],
            sp_predicate = (\<lambda>args.
              let (placeholder, args') =
                    (case cc_Tolerance c of None \<Rightarrow> ([], args) | Some t \<Rightarrow> sa_add_arg d (FloatArg t) args)
              in map_sum id (\<lambda>condition. (condition, args'))
                   (compileCrossColumnFailure (QuoteIdentifier d (ci_Name left)) (QuoteIdentifier d (ci_Name right))
                     (cc_Op c) (cc_Tolerance c) placeholder))\<rparr>)))"

subsection \<open>Statements without a plan\<close>

definition referentialIntegritySample ::
    "CompileInput \<Rightarrow> ReferentialIntegrityConfig \<Rightarrow> int \<Rightarrow> bool \<Rightarrow> compiled" where
  "referentialIntegritySample inp c limit pass_rows =
     bind_result (column_result (requireComparisonColumn (in_Target inp) (ri_ChildColumn c))) (\<lambda>childColumn.
     bind_result (compileParentTable (in_Unicode inp) (in_Dialect inp) (in_Target inp) (ri_ParentTable c)) (\<lambda>parentTable.
     bind_result (compileTable (in_Dialect inp) (in_Target inp)) (\<lambda>table.
     bind_result (whereClause inp) (\<lambda>(conds, filterArgs).
       let d = in_Dialect inp;
           child = ''c.'' @ QuoteIdentifier d (ci_Name childColumn);
           parent = ''p.'' @ QuoteIdentifier d (ri_ParentColumn c);
           condition = (if ri_AllowNull c then child @ '' IS NOT NULL AND '' @ parent @ '' IS NULL''
             else child @ '' IS NULL OR '' @ parent @ '' IS NULL'');
           childColumns = ColumnNames (in_Target inp);
           selectList = Join (map (\<lambda>name. ''c.'' @ QuoteIdentifier d name) childColumns) '', '';
           found = ''EXISTS (SELECT 1 FROM '' @ parentTable @ '' p WHERE '' @ parent @ '' = '' @ child @ '')'';
           match = (if ri_AllowNull c then child @ '' IS NULL OR '' @ found else found)
       in Inr (sampleQuery inp
            (''SELECT '' @ selectList @ '' FROM (SELECT * FROM '' @ table @ conds @ '') c'' @
              (if pass_rows then compileAppendWhere [] (''('' @ match @ '')'')
               else '' LEFT JOIN '' @ parentTable @ '' p ON '' @ child @ '' = '' @ parent @
                 compileAppendWhere [] (''('' @ condition @ '')'')))
            filterArgs childColumns limit)))))"

definition duplicateSample :: "CompileInput \<Rightarrow> string list \<Rightarrow> bool \<Rightarrow> int \<Rightarrow> compiled" where
  "duplicateSample inp names countNulls limit =
     bind_result (scanRelation inp) (\<lambda>(relation, conds, filterArgs).
       let quoted = map (QuoteIdentifier (in_Dialect inp)) names;
           innerWhere = (if countNulls then conds
             else foldl (\<lambda>w column. compileAppendWhere w (column @ '' IS NOT NULL'')) conds quoted);
           selectList = Join quoted '', ''
       in Inr (sampleQuery inp
            (''SELECT '' @ selectList @ '' FROM '' @ relation @ innerWhere @ '' GROUP BY '' @ selectList @
              '' HAVING COUNT(*) > 1'')
            filterArgs names limit))"

definition sampleUnique :: "CompileInput \<Rightarrow> int \<Rightarrow> compiled" where
  "sampleUnique inp limit =
     (case rc_Arm (in_Config inp) of
        UniqueC c \<Rightarrow> duplicateSample inp [uq_Column c] (uq_CountNulls c) limit
      | UniqueCombinationC c \<Rightarrow>
          duplicateSample inp (if uc_AllColumns c then ColumnNames (in_Target inp) else uc_Columns c) (uc_CountNulls c) limit
      | _ \<Rightarrow> Inl (Invalid ''no duplicate sample''))"

definition sampleCustomSQL :: "CompileInput \<Rightarrow> CustomSqlConfig \<Rightarrow> int \<Rightarrow> compiled" where
  "sampleCustomSQL inp c limit =
     map_sum BadVariable
       (\<lambda>rendered. sampleQuery inp (''SELECT * FROM ('' @ rendered @ '') dq'') [] [] limit)
       (RenderCustomSQLVariables (TrimRight is_sql_tail (GoTrimSpace (in_Unicode inp) (cs_Sql c))) (in_Variables inp))"

definition sampleGroupCheck :: "CompileInput \<Rightarrow> GroupCheckConfig \<Rightarrow> int \<Rightarrow> compiled" where
  "sampleGroupCheck inp c limit =
     bind_result (groupingColumns (in_Unicode inp) (in_Target inp) (gc_Columns c) maxGroupCheckColumns) (\<lambda>columns.
     check_result (groupCheckBounds c) BadThreshold (
     bind_result (scanRelation inp) (\<lambda>(relation, conds, filterArgs).
       let d = in_Dialect inp;
           (conditions, args) = add_conditions (sa_add_arg d)
             [(''group_rows < '', map_option IntArg (gc_MinRowsPerGroup c)),
              (''group_rows > '', map_option IntArg (gc_MaxRowsPerGroup c))] filterArgs;
           groupList = qualifyColumns d columns
       in Inr \<lparr>cq_SQL = ''SELECT '' @ groupList @ '', group_rows FROM (SELECT '' @ groupList @
            '', COUNT(*) AS group_rows FROM '' @ relation @ conds @ '' GROUP BY '' @ groupList @ '') dq WHERE '' @
            Join conditions '' OR '' @ '' ORDER BY group_rows DESC, '' @ groupList @ '' '' @ LimitClause d limit,
          cq_Args = args, cq_Kind = QuerySample, cq_Columns = columns @ [''group_rows'']\<rparr>)))"

subsection \<open>The sample of a rule\<close>

definition defaultSampleLimit :: int where "defaultSampleLimit = 20"
definition maxSampleLimit :: int where "maxSampleLimit = 100"

definition normalizeSampleLimit :: "int \<Rightarrow> int" where
  "normalizeSampleLimit limit =
     (if limit \<le> 0 then defaultSampleLimit else if maxSampleLimit < limit then maxSampleLimit else limit)"

text \<open>The plan of a rule type that selects rows one by one; the \<open>Sample\<close> and \<open>Passing\<close> columns.\<close>

definition row_plan :: "CompileInput \<Rightarrow> (compile_error + rowSamplePlan) option" where
  "row_plan inp =
     (case rc_Arm (in_Config inp) of
        NullPercentC c \<Rightarrow> Some (nullPercentSamplePlan inp c)
      | AcceptedValuesC c \<Rightarrow> Some (acceptedValuesSamplePlan inp c)
      | RangeC c \<Rightarrow> Some (rangeSamplePlan inp c)
      | RegexC c \<Rightarrow> Some (regexSamplePlan inp c)
      | StringLengthC c \<Rightarrow> Some (stringLengthSamplePlan inp c)
      | CrossColumnC c \<Rightarrow> Some (crossColumnSamplePlan inp c)
      | _ \<Rightarrow> None)"

text \<open>The zero query of a rule without failing rows is \<open>None\<close>.\<close>

definition CompileFailureRows :: "CompileInput \<Rightarrow> int \<Rightarrow> compile_error + CompiledQuery option" where
  "CompileFailureRows inp limit =
     bind_result (Compile inp) (\<lambda>_.
       let limit = normalizeSampleLimit limit in
       case row_plan inp of
         Some plan \<Rightarrow> map_sum id Some (compileSamplePlan plan inp limit False)
       | None \<Rightarrow>
           (case rc_Arm (in_Config inp) of
              UniqueC _ \<Rightarrow> map_sum id Some (sampleUnique inp limit)
            | UniqueCombinationC _ \<Rightarrow> map_sum id Some (sampleUnique inp limit)
            | ReferentialIntegrityC c \<Rightarrow> map_sum id Some (referentialIntegritySample inp c limit False)
            | CustomSqlC c \<Rightarrow> map_sum id Some (sampleCustomSQL inp c limit)
            | GroupCheckC c \<Rightarrow> map_sum id Some (sampleGroupCheck inp c limit)
            | _ \<Rightarrow> Inr None))"

text \<open>
  The statement of the passing rows, asked for when a row failed. \<open>Execute\<close> has compiled the rule before, so
  the configuration is one of the rule's type.
\<close>

definition compilePassingRows :: "CompileInput \<Rightarrow> int \<Rightarrow> int \<Rightarrow> compile_error + CompiledQuery option" where
  "compilePassingRows inp failedRows limit =
     (if failedRows \<le> 0 then Inr None
      else
        let limit = normalizeSampleLimit limit in
        case row_plan inp of
          Some plan \<Rightarrow> map_sum id Some (compileSamplePlan plan inp limit True)
        | None \<Rightarrow>
            (case rc_Arm (in_Config inp) of
               ReferentialIntegrityC c \<Rightarrow> map_sum id Some (referentialIntegritySample inp c limit True)
             | _ \<Rightarrow> Inr None))"

end
