(* ===== verification/Quality_Binding.thy ===== *)
theory Quality_Binding
  imports Quality_Samples
begin

text \<open>
  How an engine reads a statement with bound values: quoted names, placeholders and other text. The
  rules at the end take a statement apart the way the compilers put it together, whatever the dialect
  and whichever of the two argument lists handed out the placeholders.
\<close>

subsection \<open>Reading a statement\<close>

datatype token = Chr char | Name string | Val arg | Unbound

definition lit :: "string \<Rightarrow> token list" where
  "lit s = map Chr s"

fun unquote :: "char \<Rightarrow> string \<Rightarrow> string \<times> string" where
  "unquote q [] = ([], [])"
| "unquote q (c # s) =
     (if c = q then
        (case s of
           [] \<Rightarrow> ([], [])
         | c' # s' \<Rightarrow> if c' = q then (let (n, r) = unquote q s' in (q # n, r)) else ([], s))
      else let (n, r) = unquote q s in (c # n, r))"

definition arg_at :: "arg list \<Rightarrow> nat \<Rightarrow> token" where
  "arg_at args i = (if i < length args then Val (args ! i) else Unbound)"

text \<open>A placeholder at the front: what it is written with, its number and the rest.\<close>

definition read_placeholder :: "Dialect \<Rightarrow> string \<Rightarrow> (nat \<times> string) option" where
  "read_placeholder d s =
     (let numbered = (\<lambda>r. if r \<noteq> [] \<and> is_digit (hd r)
            then Some (digits_value (takeWhile is_digit r), dropWhile is_digit r) else None)
      in case d of
           mysqlDialect _ \<Rightarrow> if HasPrefix s ''?'' then Some (0, drop 1 s) else None
         | postgresDialect \<Rightarrow> if HasPrefix s ''$'' then numbered (drop 1 s) else None
         | mssqlDialect \<Rightarrow> if HasPrefix s ''@p'' then numbered (drop 2 s) else None)"

lemma unquote_length: "length (snd (unquote q s)) \<le> length s"
proof (induction q s rule: unquote.induct)
  case (2 q c s)
  show ?case
  proof (cases "c = q \<and> s \<noteq> [] \<and> hd s = q")
    case True
    then obtain s' where s: "s = q # s'" by (cases s) auto
    then have "length (snd (unquote q s')) \<le> length s'" using 2(1) True by simp
    then show ?thesis using True s by (simp add: case_prod_unfold Let_def)
  next
    case False
    then have "unquote q (c # s) = (if c = q then ([], s) else (c # fst (unquote q s), snd (unquote q s)))"
      by (subst unquote.simps) (cases s; auto simp: case_prod_unfold Let_def simp del: unquote.simps)
    then show ?thesis using 2(2) by (cases "c = q") (auto simp del: unquote.simps)
  qed
qed simp

lemma read_placeholder_length:
  assumes "read_placeholder d s = Some (n, r)"
  shows "length r < length s"
proof -
  have s: "s \<noteq> []" "r = drop 1 s \<or> r = dropWhile is_digit (drop 1 s) \<or> r = dropWhile is_digit (drop 2 s)"
    using assms by (auto simp: read_placeholder_def HasPrefix_def Let_def split: Dialect.splits if_splits)
  have "length (dropWhile is_digit (drop m s)) \<le> length (drop m s)" for m by (rule length_dropWhile_le)
  from this [of 1] this [of 2] have "length r \<le> length (drop 1 s)" using s(2) by auto
  then show ?thesis using s(1) by (cases s) auto
qed

function scan :: "Dialect \<Rightarrow> arg list \<Rightarrow> nat \<Rightarrow> string \<Rightarrow> token list" where
  "scan d args k [] = []"
| "scan d args k (c # s) =
     (if c = open_quote d then
        Name (fst (unquote (close_quote d) s)) # scan d args k (snd (unquote (close_quote d) s))
      else case read_placeholder d (c # s) of
          Some (n, r) \<Rightarrow> arg_at args (if compilePositional d then k else n - 1) # scan d args (Suc k) r
        | None \<Rightarrow> Chr c # scan d args k s)"
  by pat_completeness auto
termination
  by (relation "measure (\<lambda>(_, _, _, s). length s)")
    (auto simp: le_imp_less_Suc unquote_length dest: read_placeholder_length)

definition seen :: "Dialect \<Rightarrow> string \<Rightarrow> arg list \<Rightarrow> token list" where
  "seen d sql args = scan d args 0 sql"

subsection \<open>Pieces of a statement\<close>

text \<open>A piece is read the same whatever follows it, unless a digit or a closing quote does.\<close>

definition special :: "char \<Rightarrow> bool" where
  "special c \<longleftrightarrow> c \<in> {CHR 0x60, CHR 0x22, CHR ''['', CHR '']'', CHR ''?'', CHR ''$'', CHR ''@''}"

definition plain :: "string \<Rightarrow> bool" where
  "plain s \<longleftrightarrow> list_all (\<lambda>c. \<not> special c) s"

definition follows :: "string \<Rightarrow> bool" where
  "follows s \<longleftrightarrow> s = [] \<or> \<not> is_digit (hd s) \<and> \<not> special (hd s)"

definition reads :: "Dialect \<Rightarrow> arg list \<Rightarrow> nat \<Rightarrow> string \<Rightarrow> nat \<Rightarrow> token list \<Rightarrow> bool" where
  "reads d args k s k' ts \<longleftrightarrow> (\<forall>r. follows r \<longrightarrow> scan d args k (s @ r) = ts @ scan d args k' r)"

lemma reads_seen: "reads d args 0 s k ts \<Longrightarrow> seen d s args = ts"
  by (auto simp: reads_def seen_def follows_def dest: spec [of _ "[]"])

lemma plain_simps [simp]:
  "plain []" "plain (c # s) \<longleftrightarrow> \<not> special c \<and> plain s" "plain (s @ t) \<longleftrightarrow> plain s \<and> plain t"
  by (auto simp: plain_def)

lemma follows_simps [simp]:
  "follows []" "follows (c # s) \<longleftrightarrow> \<not> is_digit c \<and> \<not> special c"
  by (auto simp: follows_def)

lemma follows_append: "follows s \<Longrightarrow> follows t \<Longrightarrow> follows (s @ t)"
  by (cases s) auto

lemma quotes_special: "special (open_quote d)" "special (close_quote d)"
  by (cases d; simp add: open_quote_def close_quote_def special_def)+

lemma scan_plain: "plain s \<Longrightarrow> scan d args k (s @ r) = lit s @ scan d args k r"
proof (induction s)
  case (Cons c s)
  then have c: "\<not> special c" by simp
  then have "c \<noteq> open_quote d" "read_placeholder d (c # s @ r) = None"
    using quotes_special(1) by (auto simp: read_placeholder_def HasPrefix_def special_def split: Dialect.splits)
  then show ?case using Cons by (simp add: lit_def)
qed (simp add: lit_def)

lemma unquote_quoted:
  "r = [] \<or> hd r \<noteq> q \<Longrightarrow> unquote q (ReplaceAll s [q] [q, q] @ q # r) = (s, r)"
  by (induction s) (auto simp: ReplaceAll_char split: list.splits)

lemma dec_follow:
  "\<not> (r \<noteq> [] \<and> is_digit (hd r)) \<Longrightarrow>
    dec n @ r \<noteq> [] \<and> is_digit (hd (dec n @ r)) \<and> takeWhile is_digit (dec n @ r) = dec n \<and>
    dropWhile is_digit (dec n @ r) = r"
proof -
  assume r: "\<not> (r \<noteq> [] \<and> is_digit (hd r))"
  then have "takeWhile is_digit r = []" "dropWhile is_digit r = r" by (cases r; simp)+
  then show ?thesis
    using dec_digits [of n] by (cases "dec n") (auto simp: list_all_iff takeWhile_append dropWhile_append)
qed

named_theorems reading \<open>how the pieces of a statement are read\<close>

lemma reads_Nil [reading]: "reads d args k [] k []"
  by (simp add: reads_def)

lemma reads_plain [reading]: "plain s \<Longrightarrow> reads d args k s k (lit s)"
  by (simp add: reads_def scan_plain)

lemma reads_lit [reading]: "plain s \<Longrightarrow> reads d args k r k' ts \<Longrightarrow> reads d args k (s @ r) k' (lit s @ ts)"
  by (auto simp: reads_def scan_plain)

lemma reads_append:
  "reads d args k s k1 ts \<Longrightarrow> reads d args k1 r k' us \<Longrightarrow> follows r \<Longrightarrow> reads d args k (s @ r) k' (ts @ us)"
  by (auto simp: reads_def follows_append)

lemma reads_name: "reads d args k (QuoteIdentifier d name) k [Name name]"
proof -
  have "scan d args k (QuoteIdentifier d name @ r) = Name name # scan d args k r" if "follows r" for r
  proof -
    have "r = [] \<or> hd r \<noteq> close_quote d" using that quotes_special(2) [of d] by (auto simp: follows_def)
    then show ?thesis by (simp add: QuoteIdentifier_def unquote_quoted)
  qed
  then show ?thesis by (simp add: reads_def)
qed

lemma positional_simps [simp]:
  "compilePositional (mysqlDialect e)" "\<not> compilePositional postgresDialect" "\<not> compilePositional mssqlDialect"
proof -
  have "dec 1 \<noteq> dec 2" by (metis dec_value numeral_eq_one_iff semiring_norm(85))
  then show "compilePositional (mysqlDialect e)" "\<not> compilePositional postgresDialect" "\<not> compilePositional mssqlDialect"
    by (simp_all add: compilePositional_def Placeholder_def)
qed

lemma reads_placeholder:
  assumes "0 < n"
  shows "reads d args k (Placeholder d n) (Suc k) [arg_at args (if compilePositional d then k else n - 1)]"
proof -
  have "scan d args k (Placeholder d n @ r) =
      arg_at args (if compilePositional d then k else n - 1) # scan d args (Suc k) r" if "follows r" for r
  proof -
    have r: "\<not> (r \<noteq> [] \<and> is_digit (hd r))" using that by (auto simp: follows_def)
    show ?thesis
      using dec_follow [OF r, of n]
      by (cases d) (simp_all add: Placeholder_def open_quote_def read_placeholder_def HasPrefix_def Let_def dec_value)
  qed
  then show ?thesis by (simp add: reads_def)
qed

text \<open>The values a statement is read to hold.\<close>

fun vals :: "token list \<Rightarrow> arg list" where
  "vals [] = []"
| "vals (Val v # ts) = v # vals ts"
| "vals (_ # ts) = vals ts"

lemma vals_append [simp]: "vals (ts @ us) = vals ts @ vals us"
  by (induction ts rule: vals.induct) auto

lemma lit_simps [simp]: "vals (lit s) = []" "Unbound \<notin> set (lit s)"
  by (induction s) (auto simp: lit_def)

subsection \<open>Lists of pieces\<close>

fun separated :: "token list \<Rightarrow> token list list \<Rightarrow> token list" where
  "separated sep [] = []"
| "separated sep [t] = t"
| "separated sep (t # u # ts) = t @ sep @ separated sep (u # ts)"

inductive reads_all :: "Dialect \<Rightarrow> arg list \<Rightarrow> nat \<Rightarrow> string list \<Rightarrow> nat \<Rightarrow> token list list \<Rightarrow> bool"
  for d args where
  reads_all_Nil: "reads_all d args k [] k []"
| reads_all_Cons: "reads d args k p k1 t \<Longrightarrow> reads_all d args k1 ps k' us \<Longrightarrow> reads_all d args k (p # ps) k' (t # us)"

inductive_cases reads_all_ConsE: "reads_all d args k (p # ps) k' ts"
inductive_simps reads_all_Nil_iff [simp]: "reads_all d args k [] k' ts"

lemma reads_Join:
  assumes "reads_all d args k ps k' ts" "plain sep" "follows sep" "sep \<noteq> []"
  shows "reads d args k (Join ps sep) k' (separated (lit sep) ts)"
  using assms(1)
proof induction
  case (reads_all_Cons k p k1 t ps k' us)
  show ?case
  proof (cases ps)
    case Nil
    then show ?thesis using reads_all_Cons by simp
  next
    case (Cons q qs)
    obtain u us' where us: "us = u # us'" using reads_all_Cons(2) Cons by (auto elim: reads_all_ConsE)
    have "follows (sep @ Join ps sep)" using assms(3,4) by (cases sep) auto
    then have "reads d args k (p @ sep @ Join ps sep) k' (t @ lit sep @ separated (lit sep) us)"
      using reads_all_Cons by (intro reads_append [OF reads_all_Cons(1)] reads_lit assms(2))
    then show ?thesis by (simp add: Cons us)
  qed
qed (simp add: reads_Nil)

lemma reads_all_append:
  "reads_all d args k ps k1 ts \<Longrightarrow> reads_all d args k1 qs k' us \<Longrightarrow> reads_all d args k (ps @ qs) k' (ts @ us)"
  by (induction rule: reads_all.induct) (auto intro: reads_all.intros)

lemma separated_vals: "vals sep = [] \<Longrightarrow> vals (separated sep ts) = concat (map vals ts)"
  by (induction sep ts rule: separated.induct) auto

lemma separated_bound: "Unbound \<notin> set sep \<Longrightarrow> \<forall>t\<in>set ts. Unbound \<notin> set t \<Longrightarrow> Unbound \<notin> set (separated sep ts)"
  by (induction sep ts rule: separated.induct) auto

text \<open>Where the values of one argument list are found: by position, or from a number on.\<close>

definition window :: "Dialect \<Rightarrow> arg list \<Rightarrow> nat \<Rightarrow> nat \<Rightarrow> arg list \<Rightarrow> bool" where
  "window d args k n vs \<longleftrightarrow>
     (\<forall>i<length vs. arg_at args ((if compilePositional d then k else n) + i) = Val (vs ! i))"

lemma window_append: "window d args k n (vs @ ws) \<longleftrightarrow>
    window d args k n vs \<and> window d args (k + length vs) (n + length vs) ws"
proof
  assume w: "window d args k n (vs @ ws)"
  have "arg_at args ((if compilePositional d then k + length vs else n + length vs) + i) = Val (ws ! i)"
    if "i < length ws" for i
    using w that by (auto simp: window_def nth_append add.assoc dest!: spec [of _ "length vs + i"])
  moreover have "arg_at args ((if compilePositional d then k else n) + i) = Val (vs ! i)" if "i < length vs" for i
    using w that by (auto simp: window_def nth_append dest!: spec [of _ i])
  ultimately show "window d args k n vs \<and> window d args (k + length vs) (n + length vs) ws"
    by (simp add: window_def)
next
  assume w: "window d args k n vs \<and> window d args (k + length vs) (n + length vs) ws"
  have "arg_at args ((if compilePositional d then k else n) + i) = Val ((vs @ ws) ! i)"
    if "i < length vs + length ws" for i
  proof (cases "i < length vs")
    case False
    then have "i - length vs < length ws" using that by simp
    then show ?thesis using w False
      by (auto simp: window_def nth_append dest!: conjunct2 spec [of _ "i - length vs"])
  qed (use w in \<open>auto simp: window_def nth_append\<close>)
  then show "window d args k n (vs @ ws)" by (simp add: window_def)
qed

lemma window_Cons: "window d args k n (v # vs) \<longleftrightarrow>
    arg_at args (if compilePositional d then k else n) = Val v \<and> window d args (Suc k) (Suc n) vs"
  using window_append [of d args k n "[v]" vs] by (simp add: window_def)

lemma window_Nil [simp]: "window d args k n []"
  by (simp add: window_def)

lemma window_place: "args = us @ vs @ ws \<Longrightarrow> (if compilePositional d then k else n) = length us \<Longrightarrow> window d args k n vs"
  by (auto simp: window_def arg_at_def nth_append)

lemma reads_window: "window d args k n (v # vs) \<Longrightarrow> reads d args k (Placeholder d (Suc n)) (Suc k) [Val v]"
  using reads_placeholder [of "Suc n" d args k] by (auto simp: window_Cons split: if_splits)

text \<open>
  A piece whose placeholders are numbered from \<open>n + 1\<close> on and hold \<open>vs\<close>: it reads \<open>ts\<close> wherever the
  arguments give it these values.
\<close>

definition fills :: "Dialect \<Rightarrow> nat \<Rightarrow> string \<Rightarrow> arg list \<Rightarrow> token list \<Rightarrow> bool" where
  "fills d n s vs ts \<longleftrightarrow>
     (\<forall>args k. window d args k n vs \<longrightarrow> reads d args k s (k + length vs) ts) \<and> vals ts = vs \<and> Unbound \<notin> set ts"

lemma fills_reads: "fills d n s vs ts \<Longrightarrow> window d args k n vs \<Longrightarrow> k' = k + length vs \<Longrightarrow> reads d args k s k' ts"
  unfolding fills_def by blast

lemma fills_seen: "fills d 0 s vs ts \<Longrightarrow> seen d s vs = ts"
proof (rule reads_seen)
  assume "fills d 0 s vs ts"
  moreover have "window d vs 0 0 vs" by (rule window_place [where us = "[]" and ws = "[]"]) auto
  ultimately show "reads d vs 0 s (0 + length vs) ts" unfolding fills_def by blast
qed

lemma fills_plain: "plain s \<Longrightarrow> fills d n s [] (lit s)"
  by (simp add: fills_def reads_plain)

lemma fills_name: "fills d n (QuoteIdentifier d name) [] [Name name]"
  by (simp add: fills_def reads_name)

lemma fills_placeholder: "fills d n (Placeholder d (Suc n)) [v] [Val v]"
  using reads_window [of d _ _ n v "[]"] by (simp add: fills_def)

lemma fills_append:
  assumes "fills d n s vs ts" "fills d (n + length vs) r ws us" "follows r"
  shows "fills d n (s @ r) (vs @ ws) (ts @ us)"
proof -
  have "reads d args k (s @ r) (k + length (vs @ ws)) (ts @ us)" if "window d args k n (vs @ ws)" for args k
  proof (rule reads_append)
    show "reads d args k s (k + length vs) ts" using assms(1) that by (simp add: fills_def window_append)
    have "window d args (k + length vs) (n + length vs) ws" using that by (simp add: window_append)
    then have "reads d args (k + length vs) r (k + length vs + length ws) us" using assms(2) by (simp only: fills_def)
    then show "reads d args (k + length vs) r (k + length (vs @ ws)) us" by (simp add: add.assoc)
  qed (fact assms(3))
  then show ?thesis using assms by (simp add: fills_def)
qed

lemma fills_lit: "plain s \<Longrightarrow> fills d n r vs ts \<Longrightarrow> fills d n (s @ r) vs (lit s @ ts)"
  by (simp add: fills_def reads_lit)

lemma fills_then: "fills d n s [] ts \<Longrightarrow> fills d n r ws us \<Longrightarrow> follows r \<Longrightarrow> fills d n (s @ r) ws (ts @ us)"
  using fills_append [of d n s "[]" ts r ws us] by simp

fun fills_all :: "Dialect \<Rightarrow> nat \<Rightarrow> string list \<Rightarrow> arg list list \<Rightarrow> token list list \<Rightarrow> bool" where
  "fills_all d n (p # ps) (vs # vss) (t # ts) \<longleftrightarrow> fills d n p vs t \<and> fills_all d (n + length vs) ps vss ts"
| "fills_all d n [] [] [] \<longleftrightarrow> True"
| "fills_all d n _ _ _ \<longleftrightarrow> False"

lemma fills_all_reads:
  "fills_all d n ps vss ts \<Longrightarrow> window d args k n (concat vss) \<Longrightarrow>
    reads_all d args k ps (k + length (concat vss)) ts"
proof (induction d n ps vss ts arbitrary: k rule: fills_all.induct)
  case (1 d n p ps vs vss t ts)
  have "reads d args k p (k + length vs) t" using 1(2,3) by (simp add: fills_def window_append)
  moreover have "reads_all d args (k + length vs) ps (k + length vs + length (concat vss)) ts"
    using 1 by (simp add: window_append)
  ultimately show ?case by (auto simp: add.assoc intro: reads_all_Cons)
qed (simp_all add: reads_all.intros)

lemma fills_all_vals: "fills_all d n ps vss ts \<Longrightarrow> map vals ts = vss \<and> (\<forall>t\<in>set ts. Unbound \<notin> set t)"
  by (induction d n ps vss ts rule: fills_all.induct) (auto simp: fills_def)

lemma fills_Join:
  assumes "fills_all d n ps vss ts" "plain sep" "follows sep" "sep \<noteq> []"
  shows "fills d n (Join ps sep) (concat vss) (separated (lit sep) ts)"
  using fills_all_reads [OF assms(1)] fills_all_vals [OF assms(1)] assms
  by (auto simp: fills_def separated_vals separated_bound intro: reads_Join)

lemma fills_all_append:
  "fills_all d n ps vss ts \<Longrightarrow> fills_all d (n + length (concat vss)) qs wss us \<Longrightarrow>
    fills_all d n (ps @ qs) (vss @ wss) (ts @ us)"
  by (induction d n ps vss ts rule: fills_all.induct) (auto simp: add.assoc)

definition name_tokens :: "string list \<Rightarrow> token list" where
  "name_tokens names = separated (lit '', '') (map (\<lambda>name. [Name name]) names)"

lemma fills_names: "fills d n (Join (map (QuoteIdentifier d) names) '', '') [] (name_tokens names)"
proof -
  have "fills_all d n (map (QuoteIdentifier d) names) (map (\<lambda>_. []) names) (map (\<lambda>name. [Name name]) names)"
    by (induction names) (auto intro: fills_name)
  moreover have "concat (map (\<lambda>_. []) names) = ([] :: arg list)" by (induction names) auto
  ultimately show ?thesis
    using fills_Join [of d n _ "map (\<lambda>_. []) names" _ "'', ''"]
    by (simp add: name_tokens_def special_def is_digit_def del: concat_eq_Nil_conv)
qed

definition value_tokens :: "arg list \<Rightarrow> token list" where
  "value_tokens vs = separated (lit '', '') (map (\<lambda>v. [Val v]) vs)"

subsection \<open>Argument lists\<close>

text \<open>What a compiler asks of an argument list: placeholders in order, and the values in order.\<close>

locale arg_list =
  fixes d :: Dialect
    and add :: "arg \<Rightarrow> 's \<Rightarrow> string \<times> 's"
    and number :: "'s \<Rightarrow> nat"
    and bound :: "'s \<Rightarrow> arg list"
    and kept :: "'s \<Rightarrow> arg list"
  assumes add_placeholder: "fst (add v s) = Placeholder d (Suc (number s))"
    and add_number: "number (snd (add v s)) = Suc (number s)"
    and add_bound: "bound (snd (add v s)) = bound s @ [v]"
    and add_kept: "kept (snd (add v s)) = kept s"
begin

definition holds :: "'s \<Rightarrow> 's \<Rightarrow> arg list \<Rightarrow> bool" where
  "holds s s' vs \<longleftrightarrow> number s' = number s + length vs \<and> bound s' = bound s @ vs \<and> kept s' = kept s"

lemma holds_refl: "holds s s []"
  by (simp add: holds_def)

lemma holds_add: "holds s (snd (add v s)) [v]"
  by (simp add: holds_def add_number add_bound add_kept)

lemma holds_trans: "holds s s' vs \<Longrightarrow> holds s' s'' ws \<Longrightarrow> holds s s'' (vs @ ws)"
  by (simp add: holds_def)

lemma fills_add: "fills d (number s) (fst (add v s)) [v] [Val v]"
  by (simp add: add_placeholder fills_placeholder)

lemma add_all_fills:
  "holds s (snd (add_all add vs s)) vs \<and>
   fills_all d (number s) (fst (add_all add vs s)) (map (\<lambda>v. [v]) vs) (map (\<lambda>v. [Val v]) vs)"
proof (induction vs arbitrary: s)
  case (Cons v vs)
  then show ?case
    using holds_trans [OF holds_add [of s v] conjunct1 [OF Cons [of "snd (add v s)"]]] fills_add
      Cons [of "snd (add v s)"]
    by (simp add: case_prod_unfold Let_def add_number)
qed (simp add: holds_refl)

lemma fills_placeholders: "fills d (number s) (Join (fst (add_all add vs s)) '', '') vs (value_tokens vs)"
proof -
  have "concat (map (\<lambda>v. [v]) vs) = vs" by (induction vs) auto
  then show ?thesis
    using fills_Join [OF conjunct2 [OF add_all_fills [where vs = vs and s = s]], where sep = "'', ''"]
    by (simp add: value_tokens_def special_def is_digit_def)
qed

text \<open>Conditions that end in their value.\<close>

lemma add_conditions_fills:
  assumes "list_all2 (\<lambda>c t. \<forall>n. \<forall>p v. fills d n p [v] [Val v] \<longrightarrow> fills d n (fst c @ p) [v] (t @ [Val v])) cs ts"
  shows "holds s (snd (add_conditions add cs s)) (List.map_filter snd cs) \<and>
    fills_all d (number s) (fst (add_conditions add cs s)) (map (\<lambda>v. [v]) (List.map_filter snd cs))
      (List.map_filter (\<lambda>(c, t). map_option (\<lambda>v. t @ [Val v]) (snd c)) (zip cs ts))"
  using assms
proof (induction cs ts arbitrary: s rule: list_all2_induct)
  case (Cons c cs t ts)
  obtain front v where c: "c = (front, v)" by (cases c)
  show ?case
  proof (cases v)
    case None
    then show ?thesis using Cons.IH [of s] by (simp add: c map_filter_simps)
  next
    case (Some w)
    have "fills d (number s) (front @ fst (add w s)) [w] (t @ [Val w])"
      using Cons.hyps(1) fills_add by (simp add: c)
    then show ?thesis
      using Cons.IH [of "snd (add w s)"] holds_trans [OF holds_add [of s w] conjunct1 [OF Cons.IH [of "snd (add w s)"]]]
      by (simp add: c Some case_prod_unfold Let_def map_filter_simps add_number)
  qed
qed (simp add: holds_refl map_filter_simps)

end

end
