(* ===== verification/Quality_Statements.thy ===== *)
theory Quality_Statements
  imports Quality_Binding
begin

text \<open>
  How the pieces every compiler shares are read: relations, filters, conditions and samples. The two
  argument lists of the compilers are instances of \<open>arg_list\<close>.
\<close>

subsection \<open>The argument lists\<close>

definition ca_number :: "Dialect \<Rightarrow> compileArgs \<Rightarrow> nat" where
  "ca_number d a = (if compilePositional d then 0 else length (ca_filterArgs a)) + length (ca_configArgs a)"

interpretation compile_args: arg_list d "ca_add d" "ca_number d" ca_configArgs ca_filterArgs for d
  by unfold_locales (auto simp: ca_add_def ca_number_def Let_def)

interpretation sample_args: arg_list d "sa_add_arg d" length "\<lambda>args. args" "\<lambda>_. []" for d
  by unfold_locales (auto simp: sa_add_arg_def Let_def)

definition filter_add :: "Dialect \<Rightarrow> nat \<Rightarrow> arg \<Rightarrow> arg list \<Rightarrow> string \<times> arg list" where
  "filter_add d offset v args = (Placeholder d (offset + length (args @ [v])), args @ [v])"

interpretation filter_args: arg_list d "filter_add d offset" "\<lambda>args. offset + length args" "\<lambda>args. args" "\<lambda>_. []" for d offset
  by unfold_locales (auto simp: filter_add_def)

lemma bindValues_add_all: "bindValues d offset vs args = add_all (filter_add d offset) vs args"
  by (induction vs arbitrary: args) (auto simp: filter_add_def Let_def)

subsection \<open>Results\<close>

lemma bind_result_Inr: "bind_result r f = Inr y \<longleftrightarrow> (\<exists>x. r = Inr x \<and> f x = Inr y)"
  by (cases r) (auto simp: bind_result_def)

lemma check_result_Inr: "check_result c err r = Inr y \<longleftrightarrow> c = None \<and> r = Inr y"
  by (cases c) (auto simp: check_result_def)

lemma map_sum_Inr: "map_sum f g r = Inr y \<longleftrightarrow> (\<exists>x. r = Inr x \<and> g x = y)"
  by (cases r) auto

lemma column_result_Inr: "column_result r = Inr y \<longleftrightarrow> r = Inr y"
  by (simp add: column_result_def map_sum_Inr)

lemma guard_Inr: "(if p then Inl e else r) = Inr y \<longleftrightarrow> \<not> p \<and> r = Inr y"
  by simp

lemmas results = guard_Inr bind_result_Inr check_result_Inr map_sum_Inr column_result_Inr count_thresholds_ok_def

subsection \<open>Numbers are plain\<close>

lemma digit_plain: "is_digit c \<Longrightarrow> \<not> special c"
  by (auto simp: special_def is_digit_def)

lemma dec_plain [simp]: "plain (dec n)"
  using dec_digits [of n] digit_plain by (auto simp: plain_def list_all_iff)

lemma fmt_d_no_special [simp]: "plain (fmt_d i)"
  by (simp add: fmt_d_def special_def)

lemma f_digits_plain: "plain (f_digits r places)"
proof -
  have "plain (replicate n (CHR ''0''))" for n by (induction n) (auto simp: special_def)
  then show ?thesis by (simp add: f_digits_def Let_def special_def)
qed

lemma shortest_plain: "plain (shortest r places n)"
  by (induction r places n rule: shortest.induct) (auto simp: f_digits_plain)

lemma FormatFloat_plain [simp]: "plain (FormatFloat x)"
  by (cases x) (auto simp: FormatFloat_def Let_def shortest_plain special_def)

lemma LimitClause_plain [simp]: "plain (LimitClause d n)"
  by (cases d) (auto simp: LimitClause_def special_def)

lemma sampleLimitClause_plain [simp]: "plain (sampleLimitClause d n)" "follows (sampleLimitClause d n)"
  by (simp_all add: sampleLimitClause_def special_def is_digit_def)

lemma FilterOp_String_plain [simp]: "plain (FilterOp_String op)"
  by (cases op) (simp_all add: FilterOp_String_def special_def)

lemma follows_lit [simp]: "follows (c # s) \<Longrightarrow> follows ((c # s) @ r)"
  by simp

subsection \<open>Filters and relations\<close>

lemma render_fills:
  assumes "renderFilterComparison d (QuoteIdentifier d name) op given args offset = (condition, args')"
    and "given \<noteq> [] \<or> op \<in> {FilterIN, FilterNOTIN}"
  shows "\<exists>vs ts. args' = args @ vs \<and> fills d (offset + length args) condition vs ts"
proof (cases "op \<in> {FilterIN, FilterNOTIN}")
  case True
  define r where "r = add_all (filter_add d offset) given args"
  have r: "condition = QuoteIdentifier d name @ '' '' @ FilterOp_String op @ '' ('' @ Join (fst r) '', '' @ '')''"
    "args' = snd r"
    using assms(1) True
    by (simp_all add: renderFilterComparison_def bindValues_add_all r_def case_prod_unfold Let_def)
  have "snd r = args @ given"
    using filter_args.add_all_fills [where s = args and vs = given and d = d and offset = offset] by (simp add: r_def filter_args.holds_def)
  moreover have "fills d (offset + length args) (Join (fst r) '', '') given (value_tokens given)"
    using filter_args.fills_placeholders [where s = args and vs = given and d = d and offset = offset] by (simp add: r_def)
  then have "fills d (offset + length args) (Join (fst r) '', '' @ '')'') (given @ []) (value_tokens given @ lit '')'')"
    by (intro fills_append fills_plain) (auto simp: special_def is_digit_def)
  then have "fills d (offset + length args) condition (given @ [])
      ([Name name] @ lit '' '' @ lit (FilterOp_String op) @ lit '' ('' @ value_tokens given @ lit '')'')"
    unfolding r(1) by (intro fills_then [OF fills_name] fills_lit) (auto simp: special_def is_digit_def)
  ultimately show ?thesis using r(2) by auto
next
  case False
  obtain v vs where v: "given = v # vs" using assms(2) False by (cases given) auto
  then have c: "condition = QuoteIdentifier d name @ '' '' @ FilterOp_String op @ '' '' @ Placeholder d (Suc (offset + length args))"
    "args' = args @ [v]"
    using assms(1) False by (simp_all add: renderFilterComparison_def Let_def)
  have "fills d (offset + length args) condition [v] ([Name name] @ lit '' '' @ lit (FilterOp_String op) @ lit '' '' @ [Val v])"
    unfolding c(1)
    by (intro fills_then [OF fills_name] fills_lit fills_placeholder) (auto simp: special_def is_digit_def)
  then show ?thesis using c(2) by blast
qed

lemma compileClauses_fills:
  "compileClauses uni d target offset clauses conditions args = Inr (conditions', args') \<Longrightarrow>
    \<exists>new vss ts. conditions' = conditions @ new \<and> args' = args @ concat vss \<and>
      fills_all d (offset + length args) new vss ts"
proof (induction uni d target offset clauses conditions args rule: compileClauses.induct)
  case (1 uni d target offset conditions args)
  then show ?case by (auto intro!: exI [of _ "[]"])
next
  case (2 uni d target offset clause clauses conditions args)
  obtain column where column: "rt_Column target (fc_Column clause) = Some column"
    using 2(3) by (auto split: option.splits)
  define quoted where "quoted = QuoteIdentifier d (ci_Name column)"
  have step: "\<exists>new vss ts. conditions' = conditions @ new \<and> args' = args @ concat vss \<and>
      fills_all d (offset + length args) new vss ts"
    if new: "fills d (offset + length args) condition vs t"
      and rest: "\<exists>new vss ts. conditions' = (conditions @ [condition]) @ new \<and> args' = (args @ vs) @ concat vss \<and>
        fills_all d (offset + length (args @ vs)) new vss ts" for condition vs t
  proof -
    obtain new vss ts where n: "conditions' = (conditions @ [condition]) @ new" "args' = (args @ vs) @ concat vss"
      "fills_all d (offset + length (args @ vs)) new vss ts" using rest by blast
    then show ?thesis using new
      by (intro exI [of _ "condition # new"] exI [of _ "vs # vss"] exI [of _ "t # ts"]) (simp add: add.assoc)
  qed
  show ?case
  proof (cases "fc_Op clause \<in> {FilterISNull, FilterISNotNull}")
    case True
    define condition where "condition = quoted @ (if fc_Op clause = FilterISNull then '' IS NULL'' else '' IS NOT NULL'')"
    have ok: "supportsNullTest column (rt_Engine target)"
      "compileClauses uni d target offset clauses (conditions @ [condition]) args = Inr (conditions', args')"
      using 2(3) column True by (auto simp: Let_def quoted_def condition_def split: if_splits)
    have "fills d (offset + length args) condition [] ([Name (ci_Name column)] @
        lit (if fc_Op clause = FilterISNull then '' IS NULL'' else '' IS NOT NULL''))"
      unfolding condition_def quoted_def
      by (intro fills_then [OF fills_name] fills_plain) (auto simp: special_def is_digit_def)
    then show ?thesis
      using step [of condition "[]"] 2(1) [OF column quoted_def True] ok
      by (simp add: condition_def [symmetric])
  next
    case False
    obtain given where given: "convertFilterValues uni column (fc_Values clause) = Inr given"
      and known: "ci_Kind column \<noteq> KindUnknown" "cap_valueComparison (capabilitiesFor (rt_Engine target) column)"
      using 2(3) column False by (auto simp: Let_def bind_result_Inr split: if_splits)
    obtain condition args1 where c: "renderFilterComparison d quoted (fc_Op clause) given args offset = (condition, args1)"
      by (cases "renderFilterComparison d quoted (fc_Op clause) given args offset")
    have some: "given \<noteq> [] \<or> fc_Op clause \<in> {FilterIN, FilterNOTIN}"
      and go: "compileClauses uni d target offset clauses (conditions @ [condition]) args1 = Inr (conditions', args')"
      using 2(3) column False given known c by (auto simp: Let_def bind_result_Inr quoted_def split: if_splits)
    obtain vs t where vs: "args1 = args @ vs" "fills d (offset + length args) condition vs t"
      using render_fills [OF c [unfolded quoted_def] some] by blast
    show ?thesis
    proof (rule step [OF vs(2)])
      have "\<not> (fc_Op clause \<notin> {FilterIN, FilterNOTIN} \<and> given = [])" using some by blast
      then show "\<exists>new vss ts. conditions' = (conditions @ [condition]) @ new \<and> args' = (args @ vs) @ concat vss \<and>
          fills_all d (offset + length (args @ vs)) new vss ts"
        using 2(2) [OF column quoted_def False _ _ _ c [symmetric] refl] known go unfolding vs(1) by simp
    qed
  qed
qed

lemma CompileFilterAfter_fills:
  assumes "CompileFilterAfter uni d target conds offset = Inr (clause, args)"
  shows "\<exists>ts. fills d offset clause args ts"
proof (cases "conds = []")
  case True
  then show ?thesis using assms fills_plain [of "[]"] by (auto simp: CompileFilterAfter_def)
next
  case False
  then obtain conditions where c: "compileClauses uni d target offset conds [] [] = Inr (conditions, args)"
    "clause = Join conditions '' AND ''"
    using assms by (auto simp: CompileFilterAfter_def map_sum_Inr)
  obtain vss ts where "args = concat vss" "fills_all d offset conditions vss ts"
    using compileClauses_fills [OF c(1)] by auto
  then show ?thesis
    using fills_Join [of d offset conditions vss ts "'' AND ''"] c(2) by (auto simp: special_def is_digit_def)
qed

lemma whereClause_fills:
  assumes "whereClause inp = Inr (conds, args)"
  shows "\<exists>ts. fills (in_Dialect inp) 0 conds args ts \<and> follows conds \<and> (conds = [] \<or> hd conds = CHR '' '')"
proof -
  obtain filters clause args' where c: "CompileFilter (in_Unicode inp) (in_Dialect inp) (in_Target inp) filters = Inr (clause, args')"
    "(conds, args) = (if clause = [] then ([], []) else ('' WHERE '' @ clause, args'))"
    using assms by (auto simp: whereClause_def results)
  obtain ts where ts: "fills (in_Dialect inp) 0 clause args' ts"
    using c(1) CompileFilterAfter_fills unfolding CompileFilter_def by blast
  show ?thesis
  proof (cases "clause = []")
    case True
    then show ?thesis using c(2) fills_plain [of "[]"] by auto
  next
    case False
    have "fills (in_Dialect inp) 0 ('' WHERE '' @ clause) args' (lit '' WHERE '' @ ts)"
      using ts by (intro fills_lit) (auto simp: special_def)
    then show ?thesis using c(2) False by (auto simp: special_def is_digit_def)
  qed
qed

lemma compileTable_fills:
  assumes "compileTable d target = Inr table"
  shows "\<exists>ts. \<forall>n. fills d n table [] ts"
proof -
  obtain a b where t: "table = QuoteIdentifier d a @ ''.'' @ QuoteIdentifier d b"
    using assms by (auto simp: compileTable_def QuoteTable_def split: Dialect.splits if_splits)
  have "fills d n table [] ([Name a] @ lit ''.'' @ [Name b])" for n
    unfolding t by (intro fills_then [OF fills_name] fills_lit fills_name) (auto simp: special_def is_digit_def)
  then show ?thesis by blast
qed

text \<open>A relation is read with the conditions of the filter behind it or in it.\<close>

lemma scanRelation_fills:
  assumes "scanRelation inp = Inr (relation, conds, args)"
  shows "\<exists>ts. fills (in_Dialect inp) 0 (relation @ conds) args ts"
    and "conds = [] \<or> hd conds = CHR '' ''"
proof -
  let ?d = "in_Dialect inp"
  obtain table where table: "compileTable ?d (in_Target inp) = Inr table"
    using assms by (auto simp: scanRelation_def results)
  obtain conds0 args0 where w: "whereClause inp = Inr (conds0, args0)"
    using assms by (auto simp: scanRelation_def results)
  obtain tt where tt: "fills ?d 0 table [] tt" using compileTable_fills [OF table] by blast
  obtain tc where tc: "fills ?d 0 conds0 args0 tc" "follows conds0" "conds0 = [] \<or> hd conds0 = CHR '' ''"
    using whereClause_fills [OF w] by blast
  have r: "case rc_Sampling (in_Config inp) of
      None \<Rightarrow> (relation, conds, args) = (table, conds0, args0)
    | Some (MaxRowsMethod n) \<Rightarrow> BoundedRelation ?d table conds0 n = Inr relation \<and> conds = [] \<and> args = args0
    | Some (PercentMethod p) \<Rightarrow> SampledRelation ?d table p = Inr relation \<and> conds = conds0 \<and> args = args0"
    using assms by (auto simp: scanRelation_def results table w split: option.splits sampling_method.splits)
  then show "conds = [] \<or> hd conds = CHR '' ''"
    using tc(3) by (auto split: option.splits sampling_method.splits)
  show "\<exists>ts. fills ?d 0 (relation @ conds) args ts"
  proof (cases "rc_Sampling (in_Config inp)")
    case None
    then show ?thesis using r fills_then [OF tt tc(1,2)] by auto
  next
    case (Some m)
    show ?thesis
    proof (cases m)
      case (MaxRowsMethod n)
      have tail: "fills ?d 0 (table @ conds0 @ s) args0 (tt @ tc @ lit s)" if "plain s" "follows s" for s
        using fills_append [OF tc(1) fills_plain [OF that(1)] that(2)] tc(2) that(2)
        by (intro fills_then [OF tt]) (auto simp: follows_append)
      have rel: "relation = ''(SELECT TOP ('' @ fmt_d n @ '') * FROM '' @ table @ conds0 @ '') dq'' \<or>
          relation = ''(SELECT * FROM '' @ table @ conds0 @ '' LIMIT '' @ fmt_d n @ '') dq''"
        using r Some MaxRowsMethod by (auto simp: BoundedRelation_def split: Dialect.splits if_splits)
      have "\<exists>ts. fills ?d 0 relation args0 ts"
      proof (rule disjE [OF rel])
        assume "relation = ''(SELECT TOP ('' @ fmt_d n @ '') * FROM '' @ table @ conds0 @ '') dq''"
        then show ?thesis
          using fills_lit [OF _ fills_lit [OF _ fills_lit [OF _ tail [of "'') dq''"]]],
              of "''(SELECT TOP (''" "fmt_d n" "'') * FROM ''"]
          by (auto simp: special_def is_digit_def)
      next
        assume "relation = ''(SELECT * FROM '' @ table @ conds0 @ '' LIMIT '' @ fmt_d n @ '') dq''"
        then show ?thesis
          using fills_lit [OF _ tail [of "'' LIMIT '' @ fmt_d n @ '') dq''"], of "''(SELECT * FROM ''"]
          by (auto simp: special_def is_digit_def)
      qed
      then show ?thesis using r Some MaxRowsMethod by simp
    next
      case (PercentMethod p)
      then obtain s where s: "relation = table @ s" "plain s" "follows s" "args = args0" "conds = conds0"
        using r Some by (auto simp: SampledRelation_def formatSamplePercent_def special_def is_digit_def split: Dialect.splits)
      have "fills ?d 0 (table @ s @ conds0) args0 (tt @ lit s @ tc)"
        using s tc by (intro fills_then [OF tt] fills_lit) (auto intro: follows_append)
      then show ?thesis using s by auto
    qed
  qed
qed

subsection \<open>Conditions\<close>

text \<open>The conditions of the row rules, over either argument list.\<close>

definition null_condition :: "string \<Rightarrow> arg list \<Rightarrow> (arg \<Rightarrow> 's \<Rightarrow> string \<times> 's) \<Rightarrow> 's \<Rightarrow> string \<times> 's" where
  "null_condition qualified vs add s =
     (if vs = [] then (qualified @ '' IS NULL'', s)
      else let (placeholders, s') = add_all add vs s
        in (qualified @ '' IS NULL OR '' @ qualified @ '' IN ('' @ Join placeholders '', '' @ '')'', s'))"

definition either_condition :: "(string \<times> arg option) list \<Rightarrow> (arg \<Rightarrow> 's \<Rightarrow> string \<times> 's) \<Rightarrow> 's \<Rightarrow> string \<times> 's" where
  "either_condition cs add s = (let (conditions, s') = add_conditions add cs s in (Join conditions '' OR '', s'))"

definition regex_condition :: "string \<Rightarrow> string \<Rightarrow> arg \<Rightarrow> (arg \<Rightarrow> 's \<Rightarrow> string \<times> 's) \<Rightarrow> 's \<Rightarrow> string \<times> 's" where
  "regex_condition qualified operator v add s =
     (let (placeholder, s') = add v s
      in (qualified @ '' IS NULL OR '' @ qualified @ '' '' @ operator @ '' '' @ placeholder, s'))"

definition cross_condition ::
    "Dialect \<Rightarrow> string \<Rightarrow> string \<Rightarrow> QualityComparisonOperator \<Rightarrow> float64 option \<Rightarrow> (arg \<Rightarrow> 's \<Rightarrow> string \<times> 's) \<Rightarrow> 's
     \<Rightarrow> compile_error + (string \<times> 's)" where
  "cross_condition d left right op tolerance add s =
     (let (placeholder, s') = (case tolerance of None \<Rightarrow> ([], s) | Some t \<Rightarrow> add (FloatArg t) s)
      in map_sum id (\<lambda>condition. (condition, s'))
           (compileCrossColumnFailure (QuoteIdentifier d left) (QuoteIdentifier d right) op tolerance placeholder))"

text \<open>A front of a bound is read the same whatever follows it.\<close>

definition front_reads :: "Dialect \<Rightarrow> string \<Rightarrow> token list \<Rightarrow> bool" where
  "front_reads d front t \<longleftrightarrow> (\<forall>n p v. fills d n p [v] [Val v] \<longrightarrow> fills d n (front @ p) [v] (t @ [Val v]))"

lemma front_plain: "plain s \<Longrightarrow> front_reads d s (lit s)"
  by (simp add: front_reads_def fills_lit)

lemma front_name:
  assumes "plain s" "follows s" "s \<noteq> []"
  shows "front_reads d (QuoteIdentifier d name @ s) (Name name # lit s)"
proof -
  have "follows (s @ p)" for p using assms by (cases s) auto
  then have "fills d n (QuoteIdentifier d name @ s @ p) [v] ([Name name] @ lit s @ [Val v])"
    if "fills d n p [v] [Val v]" for n p v
    using that assms(1) by (intro fills_then [OF fills_name] fills_lit) auto
  then show ?thesis by (simp add: front_reads_def)
qed

lemma front_call:
  assumes "plain f" "plain s" "follows s" "s \<noteq> []"
  shows "front_reads d (f @ QuoteIdentifier d name @ s) (lit f @ Name name # lit s)"
  using front_name [OF assms(2-4)] assms(1) fills_lit [OF assms(1)] by (simp add: front_reads_def)

lemma front_length:
  assumes "plain s" "follows s" "s \<noteq> []"
  shows "\<exists>t. front_reads d (LengthExpr d (QuoteIdentifier d name) @ s) t"
proof -
  have "plain ('')'' @ s)" "follows ('')'' @ s)" using assms by (auto simp: special_def is_digit_def)
  moreover obtain f where "LengthExpr d (QuoteIdentifier d name) = f @ QuoteIdentifier d name @ '')''" "plain f"
    by (cases d) (auto simp: LengthExpr_def special_def)
  ultimately show ?thesis using front_call [of f "'')'' @ s" d name] by auto
qed

context arg_list
begin

text \<open>A condition binds the values it holds, and is read as \<open>ts\<close>.\<close>

definition acts :: "('s \<Rightarrow> 'e + (string \<times> 's)) \<Rightarrow> arg list \<Rightarrow> token list \<Rightarrow> bool" where
  "acts f vs ts \<longleftrightarrow>
     (\<forall>s. \<exists>condition s'. f s = Inr (condition, s') \<and> fills d (number s) condition vs ts \<and> holds s s' vs)"

lemma acts_null:
  "acts (\<lambda>s. Inr (null_condition (QuoteIdentifier d name) vs add s)) vs
     (if vs = [] then [Name name] @ lit '' IS NULL''
      else [Name name] @ lit '' IS NULL OR '' @ [Name name] @ lit '' IN ('' @ value_tokens vs @ lit '')'')"
proof (cases "vs = []")
  case True
  have "fills d n (QuoteIdentifier d name @ '' IS NULL'') [] ([Name name] @ lit '' IS NULL'')" for n
    by (intro fills_then [OF fills_name] fills_plain) (auto simp: special_def is_digit_def)
  then show ?thesis using True by (simp add: acts_def null_condition_def holds_refl)
next
  case False
  have "fills d (number s) (QuoteIdentifier d name @ '' IS NULL OR '' @ QuoteIdentifier d name @ '' IN ('' @
        Join (fst (add_all add vs s)) '', '' @ '')'') (vs @ [])
      ([Name name] @ lit '' IS NULL OR '' @ [Name name] @ lit '' IN ('' @ value_tokens vs @ lit '')'')" for s
    by (intro fills_then [OF fills_name] fills_append [OF fills_placeholders] fills_lit fills_plain)
      (auto simp: special_def is_digit_def)
  then show ?thesis
    using False add_all_fills by (simp add: acts_def null_condition_def case_prod_unfold Let_def)
qed

lemma acts_either:
  assumes "list_all2 (\<lambda>c t. front_reads d (fst c) t) cs ts"
  shows "acts (\<lambda>s. Inr (either_condition cs add s)) (List.map_filter snd cs)
    (separated (lit '' OR '') (List.map_filter (\<lambda>(c, t). map_option (\<lambda>v. t @ [Val v]) (snd c)) (zip cs ts)))"
proof -
  have "concat (map (\<lambda>v. [v]) vs) = vs" for vs :: "arg list" by (induction vs) auto
  moreover have "list_all2 (\<lambda>c t. \<forall>n p v. fills d n p [v] [Val v] \<longrightarrow> fills d n (fst c @ p) [v] (t @ [Val v])) cs ts"
    using assms by (simp add: front_reads_def)
  note add_conditions_fills [OF this]
  ultimately show ?thesis
    using fills_Join [where sep = "'' OR ''"]
    by (fastforce simp: acts_def either_condition_def case_prod_unfold Let_def special_def is_digit_def)
qed

lemma acts_regex:
  assumes "plain operator"
  shows "acts (\<lambda>s. Inr (regex_condition (QuoteIdentifier d name) operator v add s)) [v]
    ([Name name] @ lit '' IS NULL OR '' @ [Name name] @ lit '' '' @ lit operator @ lit '' '' @ [Val v])"
proof -
  have "fills d (number s) (QuoteIdentifier d name @ '' IS NULL OR '' @ QuoteIdentifier d name @ '' '' @ operator @ '' '' @
      fst (add v s)) [v]
      ([Name name] @ lit '' IS NULL OR '' @ [Name name] @ lit '' '' @ lit operator @ lit '' '' @ [Val v])" for s
    using assms
    by (intro fills_then [OF fills_name] fills_lit fills_add) (auto simp: special_def is_digit_def)
  then show ?thesis by (simp add: acts_def regex_condition_def case_prod_unfold Let_def holds_add)
qed

end
lemma cross_form:
  assumes "compileCrossColumnFailure left right op tolerance p0 = Inr x"
  obtains f m s where "plain f" "plain m" "plain s" "follows m" "follows (s @ [CHR '' ''])" "m \<noteq> []" "s \<noteq> []"
    "\<And>p l r. compileCrossColumnFailure l r op tolerance p = Inr (f @ l @ m @ r @ s @ (if tolerance = None then [] else p))"
proof (cases tolerance)
  case None
  then obtain operator where o: "compileComparisonOperator op = Inr operator"
    using assms by (auto simp: compileCrossColumnFailure_def results)
  then have "plain operator" by (cases op) (auto simp: compileComparisonOperator_def special_def)
  then show thesis
    using None o that [of "''NOT (''" "'' '' @ operator @ '' ''" "'')''"]
    by (simp add: compileCrossColumnFailure_def bind_result_def special_def is_digit_def)
next
  case (Some t)
  show thesis
  proof (cases op)
    case CMP_EQ
    then show thesis using Some that [of "''ABS(''" "'' - ''" "'') > ''"]
      by (simp add: compileCrossColumnFailure_def special_def is_digit_def)
  next
    case CMP_NE
    then show thesis using Some that [of "''ABS(''" "'' - ''" "'') <= ''"]
      by (simp add: compileCrossColumnFailure_def special_def is_digit_def)
  next
    case CMP_LT
    then show thesis using Some that [of "[]" "'' >= ''" "'' - ''"]
      by (simp add: compileCrossColumnFailure_def special_def is_digit_def)
  next
    case CMP_LTE
    then show thesis using Some that [of "[]" "'' > ''" "'' + ''"]
      by (simp add: compileCrossColumnFailure_def special_def is_digit_def)
  next
    case CMP_GT
    then show thesis using Some that [of "[]" "'' <= ''" "'' + ''"]
      by (simp add: compileCrossColumnFailure_def special_def is_digit_def)
  next
    case CMP_GTE
    then show thesis using Some that [of "[]" "'' < ''" "'' - ''"]
      by (simp add: compileCrossColumnFailure_def special_def is_digit_def)
  qed (use assms Some in \<open>auto simp: compileCrossColumnFailure_def\<close>)
qed

definition accepted_tokens :: "AcceptedValuesConfig \<Rightarrow> string \<Rightarrow> token list \<Rightarrow> token list" where
  "accepted_tokens c name ts =
     (if av_AllowNull c then [] else [Name name] @ lit '' IS NULL OR '') @ [Name name] @ lit '' NOT IN ('' @ ts @ lit '')''"

lemma fills_accepted:
  assumes "fills d n set_text vs ts"
  shows "fills d n (let condition = QuoteIdentifier d name @ '' NOT IN ('' @ set_text @ '')''
     in if av_AllowNull c then condition else QuoteIdentifier d name @ '' IS NULL OR '' @ condition) vs (accepted_tokens c name ts)"
proof -
  have "fills d n (set_text @ '')'') (vs @ []) (ts @ lit '')'')"
    by (intro fills_append [OF assms] fills_plain) (auto simp: special_def is_digit_def)
  then have one: "fills d n (QuoteIdentifier d name @ '' NOT IN ('' @ set_text @ '')'') vs
      ([Name name] @ lit '' NOT IN ('' @ ts @ lit '')'')"
    by (intro fills_then [OF fills_name] fills_lit) (auto simp: special_def is_digit_def)
  have "fills d n (QuoteIdentifier d name @ '' IS NULL OR '' @ QuoteIdentifier d name @ '' NOT IN ('' @ set_text @ '')'') vs
      ([Name name] @ lit '' IS NULL OR '' @ [Name name] @ lit '' NOT IN ('' @ ts @ lit '')'')"
    by (intro fills_then [OF fills_name] fills_lit one) (auto simp: special_def is_digit_def)
  then show ?thesis using one by (simp add: accepted_tokens_def)
qed

lemma acceptedValuesFieldSet_fills:
  assumes "acceptedValuesFieldSet inp c column = Inr t"
  shows "\<exists>ts. \<forall>n. fills (in_Dialect inp) n t [] ts"
proof -
  let ?d = "in_Dialect inp"
  obtain reference :: ColumnInfo and table where r: "compileTable ?d (in_Target inp) = Inr table"
    "t = ''SELECT '' @ QuoteIdentifier ?d (ci_Name reference) @ '' FROM '' @ table @ '' WHERE '' @
      QuoteIdentifier ?d (ci_Name reference) @ '' IS NOT NULL''"
    using assms unfolding acceptedValuesFieldSet_def results Let_def sum.inject
    by blast
  obtain tt where tt: "\<And>n. fills ?d n table [] tt" using compileTable_fills [OF r(1)] by blast
  have "fills ?d n t [] (lit ''SELECT '' @ [Name (ci_Name reference)] @ lit '' FROM '' @ tt @ lit '' WHERE '' @
      [Name (ci_Name reference)] @ lit '' IS NOT NULL'')" for n
    unfolding r(2)
    by (intro fills_then [OF fills_name] fills_then [OF tt] fills_lit fills_plain) (auto simp: special_def is_digit_def)
  then show ?thesis by blast
qed

context arg_list
begin

lemma acts_cross:
  assumes p: "plain f" "plain m" "plain s" "follows m" "follows (s @ [CHR '' ''])" "m \<noteq> []" "s \<noteq> []"
    and form: "\<And>p l r. compileCrossColumnFailure l r op tolerance p = Inr (f @ l @ m @ r @ s @ (if tolerance = None then [] else p))"
  shows "acts (cross_condition d left right op tolerance add)
    (case tolerance of None \<Rightarrow> [] | Some t \<Rightarrow> [FloatArg t])
    (lit f @ [Name left] @ lit m @ [Name right] @ lit s @ (case tolerance of None \<Rightarrow> [] | Some t \<Rightarrow> [Val (FloatArg t)]))"
proof -
  have fol: "follows (m @ r)" "follows (s @ r)" for r
    using p(4-7) by (cases m; simp; fail | cases s; simp)+
  have all: "fills d n (f @ QuoteIdentifier d left @ m @ QuoteIdentifier d right @ s @ r) vs
      (lit f @ [Name left] @ lit m @ [Name right] @ lit s @ ts)" if "fills d n r vs ts" for n r vs ts
    using that p(1-3) fol by (intro fills_then [OF fills_name] fills_lit)
  show ?thesis
  proof (cases tolerance)
    case None
    then show ?thesis
      using all [OF fills_plain [of "[]"]] form [unfolded None]
      by (simp add: acts_def cross_condition_def holds_refl lit_def)
  next
    case (Some t)
    then show ?thesis
      using all [OF fills_add] form [unfolded Some]
      by (simp add: acts_def cross_condition_def holds_add case_prod_unfold Let_def)
  qed
qed

lemma acts_accepted_list:
  assumes "in_Dialect inp = d" "acceptedValuesSourceOf (in_Unicode inp) c = Inr acceptedValuesList"
    and "length (av_Values c) \<le> compileMaxAcceptedValues"
    and "collect_results (compileValueArg (in_Unicode inp) column) (av_Values c) = Inr vs"
  shows "acts (acceptedValuesCondition inp c column add) vs (accepted_tokens c (ci_Name column) (value_tokens vs))"
  using assms add_all_fills fills_accepted [OF fills_placeholders, where vs = vs and name = "ci_Name column" and c = c]
  by (cases "av_AllowNull c") (simp_all add: acts_def acceptedValuesCondition_def bind_result_def case_prod_unfold Let_def)

lemma acts_accepted_field:
  assumes "in_Dialect inp = d" "acceptedValuesSourceOf (in_Unicode inp) c = Inr acceptedValuesField"
    and "acceptedValuesFieldSet inp c column = Inr t" "\<And>n. fills d n t [] ts"
  shows "acts (acceptedValuesCondition inp c column add) [] (accepted_tokens c (ci_Name column) ts)"
  using assms(1-3) fills_accepted [OF assms(4), where name = "ci_Name column" and c = c]
  by (cases "av_AllowNull c") (simp_all add: acts_def acceptedValuesCondition_def bind_result_def Let_def holds_refl)

end

end
