(* ===== verification/Quality_Compile_Laws.thy ===== *)
theory Quality_Compile_Laws
  imports Quality_Statements
begin

text \<open>
  What holds of every statement the compilers write: the rows a rule counts are the rows its samples
  show, and every placeholder has its value.
\<close>

subsection \<open>Counting and selecting statements\<close>

lemma count_select_seen:
  assumes "compile_args.acts d f cs tC" "f (newCompileArgs fs) = Inr (C, a)" "fills d 0 (relation @ conds) fs tR"
  shows "seen d (cq_SQL (compileCountSelect relation conds C (ca_values d a))) (ca_values d a) =
      lit ''SELECT COUNT(*) AS total_rows, SUM(CASE WHEN '' @ tC @ lit '' THEN 1 ELSE 0 END) AS failed_rows FROM '' @ tR"
    and "mset (ca_values d a) = mset cs + mset fs"
proof -
  have a: "fills d (ca_number d (newCompileArgs fs)) C cs tC" "ca_configArgs a = cs" "ca_filterArgs a = fs"
  proof -
    obtain C' a' where "f (newCompileArgs fs) = Inr (C', a')" "fills d (ca_number d (newCompileArgs fs)) C' cs tC"
      "compile_args.holds d (newCompileArgs fs) a' cs"
      using assms(1) unfolding compile_args.acts_def by blast
    then show "fills d (ca_number d (newCompileArgs fs)) C cs tC" "ca_configArgs a = cs" "ca_filterArgs a = fs"
      using assms(2) by (simp_all add: compile_args.holds_def newCompileArgs_def)
  qed
  then show "mset (ca_values d a) = mset cs + mset fs" by (simp add: ca_values_def)
  have "window d (ca_values d a) 0 (ca_number d (newCompileArgs fs)) cs"
    by (rule window_place [where us = "if compilePositional d then [] else fs" and
          ws = "if compilePositional d then fs else []"])
      (auto simp: ca_values_def ca_number_def newCompileArgs_def a)
  then have C: "reads d (ca_values d a) 0 C (length cs) tC" by (rule fills_reads [OF a(1)]) simp
  have "window d (ca_values d a) (length cs) 0 fs"
    by (rule window_place [where us = "if compilePositional d then cs else []" and
          ws = "if compilePositional d then [] else cs"])
      (auto simp: ca_values_def a)
  then have R: "reads d (ca_values d a) (length cs) (relation @ conds) (length cs + length fs) tR"
    by (rule fills_reads [OF assms(3)]) simp
  have "reads d (ca_values d a) 0 (''SELECT COUNT(*) AS total_rows, SUM(CASE WHEN '' @ C @
      '' THEN 1 ELSE 0 END) AS failed_rows FROM '' @ relation @ conds) (length cs + length fs)
    (lit ''SELECT COUNT(*) AS total_rows, SUM(CASE WHEN '' @ tC @ lit '' THEN 1 ELSE 0 END) AS failed_rows FROM '' @ tR)"
    by (intro reads_append [OF C] reads_lit R) (auto simp: special_def is_digit_def)
  from reads_seen [OF this] show "seen d (cq_SQL (compileCountSelect relation conds C (ca_values d a))) (ca_values d a) =
      lit ''SELECT COUNT(*) AS total_rows, SUM(CASE WHEN '' @ tC @ lit '' THEN 1 ELSE 0 END) AS failed_rows FROM '' @ tR"
    by (simp add: compileCountSelect_def)
qed

text \<open>The tokens of a statement that selects rows.\<close>

definition selects :: "Dialect \<Rightarrow> CompiledQuery \<Rightarrow> token list \<Rightarrow> token list \<Rightarrow> int \<Rightarrow> bool" where
  "selects d q tR tC limit \<longleftrightarrow>
     (\<exists>glue\<in>{'' WHERE '', '' AND ''}. seen d (cq_SQL q) (cq_Args q) =
        lit ''SELECT '' @ name_tokens (cq_Columns q) @ lit '' FROM '' @ tR @ lit glue @ lit ''('' @ tC @ lit '')'' @
        lit (sampleLimitClause d limit))"

lemma sample_seen:
  assumes "sample_args.acts d (sp_predicate plan) cs tC" "in_Dialect inp = d"
    and "fills d 0 (sp_relation plan @ sp_where plan) (sp_filterArgs plan) tR"
  shows "\<exists>q. compileSamplePlan (Inr plan) inp limit pass_rows = Inr q \<and>
    selects d q tR (if pass_rows then lit ''NOT ('' @ tC @ lit '')'' else tC) limit"
proof -
  let ?fs = "sp_filterArgs plan"
  obtain C where C: "sp_predicate plan ?fs = Inr (C, ?fs @ cs)" "fills d (length ?fs) C cs tC"
    using assms(1) unfolding sample_args.acts_def sample_args.holds_def by blast
  define condition where "condition = (if pass_rows then ''NOT ('' @ C @ '')'' else C)"
  define tcond where "tcond = (if pass_rows then lit ''NOT ('' @ tC @ lit '')'' else tC)"
  have "fills d (length ?fs) (''NOT ('' @ C @ '')'') (cs @ []) (lit ''NOT ('' @ tC @ lit '')'')"
    by (intro fills_lit fills_append [OF C(2)] fills_plain) (auto simp: special_def is_digit_def)
  then have cond: "fills d (length ?fs) condition cs tcond" using C(2) by (simp add: condition_def tcond_def)
  define glue where "glue = (if sp_where plan = [] then '' WHERE '' else '' AND '')"
  define sql where "sql = ''SELECT '' @ sampleSelect d (sp_columns plan) @ '' FROM '' @
    (sp_relation plan @ sp_where plan) @ glue @ ''('' @ condition @ '')'' @ sampleLimitClause d limit"
  have glue: "glue \<in> {'' WHERE '', '' AND ''}" "plain glue" "follows (glue @ r)" for r
    by (simp_all add: glue_def special_def is_digit_def)
  have tail: "fills d (length ?fs) (condition @ '')'' @ sampleLimitClause d limit) (cs @ [])
      (tcond @ lit '')'' @ lit (sampleLimitClause d limit))"
    by (intro fills_append [OF cond] fills_lit fills_plain) (auto simp: special_def is_digit_def)
  have "fills d 0 ((sp_relation plan @ sp_where plan) @ glue @ ''('' @ condition @ '')'' @ sampleLimitClause d limit)
      (?fs @ cs @ []) (tR @ lit glue @ lit ''('' @ tcond @ lit '')'' @ lit (sampleLimitClause d limit))"
    using tail glue by (intro fills_append [OF assms(3)] fills_lit) (auto simp: special_def)
  then have "fills d 0 sql (?fs @ cs @ []) (lit ''SELECT '' @ name_tokens (sp_columns plan) @ lit '' FROM '' @
      tR @ lit glue @ lit ''('' @ tcond @ lit '')'' @ lit (sampleLimitClause d limit))"
    unfolding sql_def sampleSelect_def
    by (intro fills_lit fills_then [OF fills_names]) (auto simp: special_def is_digit_def)
  from fills_seen [OF this] have seen: "seen d sql (?fs @ cs) = lit ''SELECT '' @ name_tokens (sp_columns plan) @ lit '' FROM '' @
      tR @ lit glue @ lit ''('' @ tcond @ lit '')'' @ lit (sampleLimitClause d limit)"
    by simp
  have "compileSamplePlan (Inr plan) inp limit pass_rows =
      Inr \<lparr>cq_SQL = sql, cq_Args = ?fs @ cs, cq_Kind = QuerySample, cq_Columns = sp_columns plan\<rparr>"
    by (simp add: compileSamplePlan_def bind_result_def C(1) Let_def sampleQuery_def assms(2) sql_def glue_def
        condition_def compileAppendWhere_def)
  then show ?thesis using seen glue(1) by (auto simp: selects_def tcond_def)
qed

subsection \<open>The shape of the row rules\<close>

text \<open>A count and a plan over the same relation, with a condition that is read the same in both.\<close>

definition row_shape :: "CompileInput \<Rightarrow> CompiledQuery \<Rightarrow> compile_error + rowSamplePlan \<Rightarrow> bool" where
  "row_shape inp q planned \<longleftrightarrow>
     (\<exists>relation conds fs cs tC C a (f :: compileArgs \<Rightarrow> compile_error + (string \<times> compileArgs)) plan.
        scanRelation inp = Inr (relation, conds, fs) \<and>
        compile_args.acts (in_Dialect inp) f cs tC \<and> f (newCompileArgs fs) = Inr (C, a) \<and>
        q = compileCountSelect relation conds C (ca_values (in_Dialect inp) a) \<and>
        planned = Inr plan \<and> sp_relation plan = relation \<and> sp_where plan = conds \<and> sp_filterArgs plan = fs \<and>
        sample_args.acts (in_Dialect inp) (sp_predicate plan) cs tC)"

lemma row_shapeI:
  fixes f :: "compileArgs \<Rightarrow> compile_error + (string \<times> compileArgs)"
  assumes "scanRelation inp = Inr (relation, conds, fs)" "compile_args.acts (in_Dialect inp) f cs tC"
    and "f (newCompileArgs fs) = Inr (C, a)" "q = compileCountSelect relation conds C (ca_values (in_Dialect inp) a)"
    and "planned = Inr \<lparr>sp_relation = relation, sp_where = conds, sp_filterArgs = fs, sp_columns = columns, sp_predicate = g\<rparr>"
    and "sample_args.acts (in_Dialect inp) g cs tC"
  shows "row_shape inp q planned"
  unfolding row_shape_def using assms
  apply -
  apply (rule exI [of _ relation], rule exI [of _ conds], rule exI [of _ fs], rule exI [of _ cs], rule exI [of _ tC])
  apply (rule exI [of _ C], rule exI [of _ a], rule exI [of _ f])
  apply (rule exI [of _ "\<lparr>sp_relation = relation, sp_where = conds, sp_filterArgs = fs, sp_columns = columns, sp_predicate = g\<rparr>"])
  apply simp
  done

lemma require_name: "require_capability allowed err target name = Inr column \<Longrightarrow> ci_Name column = name"
  by (auto simp: require_capability_def requireColumn_def rt_Column_def find_Some_iff
      split: sum.splits if_splits option.splits)

lemma null_shape:
  assumes "compileNullPercent inp c = Inr q"
  shows "row_shape inp q (nullPercentSamplePlan inp c)"
proof -
  let ?d = "in_Dialect inp"
  obtain column relation conds fs vs where r:
    "requireNullTestColumn (in_Target inp) (np_Column c) = Inr column"
    "scanRelation inp = Inr (relation, conds, fs)"
    "\<exists>x. (if np_NullValues c = [] then Inr column
       else column_result (requireComparisonColumn (in_Target inp) (ci_Name column))) = Inr x"
    "nullPercentValues (in_Unicode inp) column (np_NullValues c) = Inr vs"
    and q: "q = compileCountSelect relation conds
       (fst (null_condition (QuoteIdentifier ?d (ci_Name column)) vs (ca_add ?d) (newCompileArgs fs)))
       (ca_values ?d (snd (null_condition (QuoteIdentifier ?d (ci_Name column)) vs (ca_add ?d) (newCompileArgs fs))))"
  proof -
    have tail: "(case add_all (ca_add ?d) vs (newCompileArgs fs) of (placeholders, args) \<Rightarrow>
        Inr (compileCountSelect relation conds
          (if vs = [] then QuoteIdentifier ?d (ci_Name column) @ '' IS NULL''
           else QuoteIdentifier ?d (ci_Name column) @ '' IS NULL OR '' @ QuoteIdentifier ?d (ci_Name column) @ '' IN ('' @
             Join placeholders '', '' @ '')'') (ca_values ?d args))) =
      Inr (compileCountSelect relation conds
       (fst (null_condition (QuoteIdentifier ?d (ci_Name column)) vs (ca_add ?d) (newCompileArgs fs)))
       (ca_values ?d (snd (null_condition (QuoteIdentifier ?d (ci_Name column)) vs (ca_add ?d) (newCompileArgs fs)))))"
      for vs relation conds fs and column :: ColumnInfo
      by (simp add: null_condition_def Let_def case_prod_unfold)
    show thesis
      using assms that
      by (simp only: compileNullPercent_def results Let_def split_paired_Ex prod.case tail sum.inject) blast
  qed
  have name: "ci_Name column = np_Column c" using require_name r(1) unfolding requireNullTestColumn_def by blast
  have sample_column: "nullPercentSampleColumn inp c = Inr column"
    using r(3) by (auto simp: nullPercentSampleColumn_def results r(1) name split: if_splits)
  show ?thesis
  proof (rule row_shapeI [OF r(2) compile_args.acts_null _ _ _ sample_args.acts_null])
    show "nullPercentSamplePlan inp c = Inr \<lparr>sp_relation = relation, sp_where = conds, sp_filterArgs = fs,
        sp_columns = sampleColumns (in_Target inp) [ci_Name column],
        sp_predicate = (\<lambda>args. Inr (null_condition (QuoteIdentifier ?d (ci_Name column)) vs (sa_add_arg ?d) args))\<rparr>"
      by (simp add: nullPercentSamplePlan_def sample_column r(2,4) bind_result_def Let_def)
        (simp add: null_condition_def Let_def case_prod_unfold fun_eq_iff)
  qed (use q in auto)
qed

lemma accepted_shape:
  assumes "compileAcceptedValues inp c = Inr q" "acceptedValuesSourceOf (in_Unicode inp) c \<noteq> Inr acceptedValuesQuery"
  shows "row_shape inp q (acceptedValuesSamplePlan inp c)"
proof -
  let ?d = "in_Dialect inp"
  obtain source column relation conds fs condition args where r:
    "acceptedValuesSourceOf (in_Unicode inp) c = Inr source"
    "acceptedValuesColumn (in_Target inp) c source = Inr column"
    "scanRelation inp = Inr (relation, conds, fs)"
    "acceptedValuesCondition inp c column (ca_add ?d) (newCompileArgs fs) = Inr (condition, args)"
    "q = compileCountSelect relation conds condition (ca_values ?d args)"
    using assms(1) by (auto simp: compileAcceptedValues_def results)
  obtain cs tC where both: "compile_args.acts ?d (acceptedValuesCondition inp c column (ca_add ?d)) cs tC"
    "sample_args.acts ?d (acceptedValuesCondition inp c column (sa_add_arg ?d)) cs tC"
  proof (cases source)
    case acceptedValuesList
    then obtain vs where "length (av_Values c) \<le> compileMaxAcceptedValues"
      "collect_results (compileValueArg (in_Unicode inp) column) (av_Values c) = Inr vs"
      using r(1,4) by (auto simp: acceptedValuesCondition_def bind_result_def map_sum_Inr split: sum.splits if_splits)
    then show thesis
      using that compile_args.acts_accepted_list sample_args.acts_accepted_list r(1) acceptedValuesList by blast
  next
    case acceptedValuesField
    then obtain t where t: "acceptedValuesFieldSet inp c column = Inr t"
      using r(1,4) by (auto simp: acceptedValuesCondition_def bind_result_def map_sum_Inr split: sum.splits)
    then show thesis
      using that compile_args.acts_accepted_field sample_args.acts_accepted_field r(1) acceptedValuesField
        acceptedValuesFieldSet_fills [OF t] by blast
  next
    case acceptedValuesQuery
    then show thesis using assms(2) r(1) by simp
  qed
  show ?thesis
    by (rule row_shapeI [OF r(3) both(1) r(4,5) _ both(2)])
      (simp add: acceptedValuesSamplePlan_def bind_result_def r)
qed

lemma either_snd: "either_condition cs add s = (Join (fst (add_conditions add cs s)) '' OR '', snd (add_conditions add cs s))"
  by (simp add: either_condition_def case_prod_unfold Let_def)

lemma range_shape:
  assumes "compileRange inp c = Inr q"
  shows "row_shape inp q (rangeSamplePlan inp c)"
proof -
  let ?d = "in_Dialect inp"
  let ?cs = "\<lambda>column lower upper.
    [(QuoteIdentifier ?d (ci_Name column) @ (if rg_Inclusive c then '' < '' else '' <= ''), lower),
     (QuoteIdentifier ?d (ci_Name column) @ (if rg_Inclusive c then '' > '' else '' >= ''), upper)]"
  obtain column relation conds fs lower upper where r:
    "compileComparableColumn (in_Target inp) (rg_Column c) = Inr column"
    "scanRelation inp = Inr (relation, conds, fs)"
    "range_value (in_Unicode inp) column (rg_Min c) = Inr lower"
    "range_value (in_Unicode inp) column (rg_Max c) = Inr upper"
    and q: "q = compileCountSelect relation conds
       (fst (either_condition (?cs column lower upper) (ca_add ?d) (newCompileArgs fs)))
       (ca_values ?d (snd (either_condition (?cs column lower upper) (ca_add ?d) (newCompileArgs fs))))"
    using assms
    by (auto simp: compileRange_def results case_prod_unfold Let_def either_snd split: if_splits)
  define t where "t = (\<lambda>s. Name (ci_Name column) # lit s)"
  have fronts: "list_all2 (\<lambda>e t. front_reads ?d (fst e) t) (?cs column lower upper)
      [t (if rg_Inclusive c then '' < '' else '' <= ''), t (if rg_Inclusive c then '' > '' else '' >= '')]"
    unfolding t_def by (simp add: front_name special_def is_digit_def)
  show ?thesis
  proof (rule row_shapeI [OF r(2) compile_args.acts_either [OF fronts] _ _ _ sample_args.acts_either [OF fronts]])
    show "rangeSamplePlan inp c = Inr \<lparr>sp_relation = relation, sp_where = conds, sp_filterArgs = fs,
        sp_columns = sampleColumns (in_Target inp) [ci_Name column],
        sp_predicate = (\<lambda>args. Inr (either_condition (?cs column lower upper) (sa_add_arg ?d) args))\<rparr>"
      using r(3,4)
      by (auto simp: rangeSamplePlan_def range_bound_def range_value_def bind_result_def column_result_def r(1,2)
          either_snd map_sum_Inr case_prod_unfold Let_def fun_eq_iff split: option.splits)
  qed (use q in auto)
qed

lemma regex_shape:
  assumes "compileRegex inp c = Inr q"
  shows "row_shape inp q (regexSamplePlan inp c)"
proof -
  let ?d = "in_Dialect inp" and ?p = "TextArg (GoTrimSpace (in_Unicode inp) (rx_Pattern c))"
  obtain column operator relation conds fs where r:
    "requireRegexColumn (in_Target inp) (rx_Column c) = Inr column"
    "compileRegexNotMatch ?d = Inr operator"
    "scanRelation inp = Inr (relation, conds, fs)"
    and q: "q = compileCountSelect relation conds
       (fst (regex_condition (QuoteIdentifier ?d (ci_Name column)) operator ?p (ca_add ?d) (newCompileArgs fs)))
       (ca_values ?d (snd (regex_condition (QuoteIdentifier ?d (ci_Name column)) operator ?p (ca_add ?d) (newCompileArgs fs))))"
    using assms
    by (auto simp: compileRegex_def results case_prod_unfold Let_def regex_condition_def split: if_splits)
  have plain: "plain operator"
    using r(2) by (auto simp: compileRegexNotMatch_def special_def split: Dialect.splits if_splits)
  show ?thesis
  proof (rule row_shapeI [OF r(3) compile_args.acts_regex [OF plain] _ _ _ sample_args.acts_regex [OF plain]])
    show "regexSamplePlan inp c = Inr \<lparr>sp_relation = relation, sp_where = conds, sp_filterArgs = fs,
        sp_columns = sampleColumns (in_Target inp) [ci_Name column],
        sp_predicate = (\<lambda>args. Inr (regex_condition (QuoteIdentifier ?d (ci_Name column)) operator ?p (sa_add_arg ?d) args))\<rparr>"
      by (simp add: regexSamplePlan_def regex_condition_def bind_result_def column_result_def r case_prod_unfold Let_def)
  qed (use q in auto)
qed

lemma length_shape:
  assumes "compileStringLength inp c = Inr q"
  shows "row_shape inp q (stringLengthSamplePlan inp c)"
proof -
  let ?d = "in_Dialect inp"
  let ?cs = "\<lambda>column. [(LengthExpr ?d (QuoteIdentifier ?d (ci_Name column)) @ '' < '', map_option IntArg (sl_MinLen c)),
     (LengthExpr ?d (QuoteIdentifier ?d (ci_Name column)) @ '' > '', map_option IntArg (sl_MaxLen c))]"
  obtain column relation conds fs where r:
    "requireLengthColumn (in_Target inp) (sl_Column c) = Inr column"
    "scanRelation inp = Inr (relation, conds, fs)"
    and q: "q = compileCountSelect relation conds
       (fst (either_condition (?cs column) (ca_add ?d) (newCompileArgs fs)))
       (ca_values ?d (snd (either_condition (?cs column) (ca_add ?d) (newCompileArgs fs))))"
    using assms
    by (auto simp: compileStringLength_def results case_prod_unfold Let_def either_snd split: if_splits)
  obtain t1 t2 where "front_reads ?d (LengthExpr ?d (QuoteIdentifier ?d (ci_Name column)) @ '' < '') t1"
    "front_reads ?d (LengthExpr ?d (QuoteIdentifier ?d (ci_Name column)) @ '' > '') t2"
    using front_length [of "'' < ''" ?d "ci_Name column"] front_length [of "'' > ''" ?d "ci_Name column"]
    by (auto simp: special_def is_digit_def)
  then have fronts: "list_all2 (\<lambda>e t. front_reads ?d (fst e) t) (?cs column) [t1, t2]" by simp
  show ?thesis
  proof (rule row_shapeI [OF r(2) compile_args.acts_either [OF fronts] _ _ _ sample_args.acts_either [OF fronts]])
    show "stringLengthSamplePlan inp c = Inr \<lparr>sp_relation = relation, sp_where = conds, sp_filterArgs = fs,
        sp_columns = sampleColumns (in_Target inp) [ci_Name column],
        sp_predicate = (\<lambda>args. Inr (either_condition (?cs column) (sa_add_arg ?d) args))\<rparr>"
      by (simp add: stringLengthSamplePlan_def bind_result_def column_result_def r either_snd case_prod_unfold Let_def)
  qed (use q in auto)
qed

lemma cross_shape:
  assumes "compileCrossColumn inp c = Inr q"
  shows "row_shape inp q (crossColumnSamplePlan inp c)"
proof -
  let ?d = "in_Dialect inp"
  let ?f = "\<lambda>left right. cross_condition ?d (ci_Name left) (ci_Name right) (cc_Op c) (cc_Tolerance c)"
  obtain left right relation conds fs C a where r:
    "compileComparableColumn (in_Target inp) (cc_LeftColumn c) = Inr left"
    "compileComparableColumn (in_Target inp) (cc_RightColumn c) = Inr right"
    "scanRelation inp = Inr (relation, conds, fs)"
    "?f left right (ca_add ?d) (newCompileArgs fs) = Inr (C, a)"
    "q = compileCountSelect relation conds C (ca_values ?d a)"
  proof -
    have tail: "(case (case cc_Tolerance c of None \<Rightarrow> ([], s) | Some t \<Rightarrow> ca_add ?d (FloatArg t) s) of
        (placeholder, args) \<Rightarrow> bind_result (compileCrossColumnFailure (QuoteIdentifier ?d (ci_Name left))
            (QuoteIdentifier ?d (ci_Name right)) (cc_Op c) (cc_Tolerance c) placeholder)
          (\<lambda>condition. Inr (compileCountSelect relation conds condition (ca_values ?d args)))) =
      bind_result (?f left right (ca_add ?d) s) (\<lambda>(C, a). Inr (compileCountSelect relation conds C (ca_values ?d a)))"
      for s relation conds and left right :: ColumnInfo
      by (cases "compileCrossColumnFailure (QuoteIdentifier ?d (ci_Name left)) (QuoteIdentifier ?d (ci_Name right))
            (cc_Op c) (cc_Tolerance c) (fst (case cc_Tolerance c of None \<Rightarrow> ([], s) | Some t \<Rightarrow> ca_add ?d (FloatArg t) s))")
        (simp_all add: cross_condition_def case_prod_unfold Let_def bind_result_def)
    have guard: "(if p then Inl e else r) = (Inr x :: 'e + 'x) \<longleftrightarrow> \<not> p \<and> r = Inr x" for p and e :: 'e and x :: 'x and r
      by simp
    show thesis
      using assms that
      by (simp only: compileCrossColumn_def results Let_def guard split_paired_Ex prod.case tail sum.inject) blast
  qed
  obtain p0 where "compileCrossColumnFailure (QuoteIdentifier ?d (ci_Name left)) (QuoteIdentifier ?d (ci_Name right))
      (cc_Op c) (cc_Tolerance c) p0 = Inr C"
    using r(4) by (auto simp: cross_condition_def case_prod_unfold Let_def map_sum_Inr)
  from cross_form [OF this] obtain f m s where fm: "plain f" "plain m" "plain s" "follows m" "follows (s @ [CHR '' ''])"
    "m \<noteq> []" "s \<noteq> []" and form: "\<And>p l r. compileCrossColumnFailure l r (cc_Op c) (cc_Tolerance c) p =
        Inr (f @ l @ m @ r @ s @ (if cc_Tolerance c = None then [] else p))" by metis
  show ?thesis
  proof (rule row_shapeI [OF r(3) compile_args.acts_cross [OF fm form] r(4,5) _ sample_args.acts_cross [OF fm form]])
    show "crossColumnSamplePlan inp c = Inr \<lparr>sp_relation = relation, sp_where = conds, sp_filterArgs = fs,
        sp_columns = sampleColumns (in_Target inp) [ci_Name left, ci_Name right],
        sp_predicate = ?f left right (sa_add_arg ?d)\<rparr>"
      by (simp add: crossColumnSamplePlan_def bind_result_def column_result_def r(1,2,3) cross_condition_def [abs_def]
          case_prod_unfold Let_def)
  qed
qed

definition user_query :: "CompileInput \<Rightarrow> bool" where
  "user_query inp \<longleftrightarrow>
     (case rc_Arm (in_Config inp) of
        CustomSqlC _ \<Rightarrow> True
      | AcceptedValuesC c \<Rightarrow> acceptedValuesSourceOf (in_Unicode inp) c = Inr acceptedValuesQuery
      | _ \<Rightarrow> False)"

lemma Compile_arm: "Compile inp = Inr q \<Longrightarrow> compile_arm inp = Inr q"
  by (auto simp: Compile_def results split: if_splits option.splits)

lemma row_plan_shape:
  "compile_arm inp = Inr q \<Longrightarrow> row_plan inp = Some planned \<Longrightarrow> \<not> user_query inp \<Longrightarrow> row_shape inp q planned"
  by (cases "rc_Arm (in_Config inp)")
    (auto simp: compile_arm_def row_plan_def user_query_def null_shape accepted_shape range_shape regex_shape
      length_shape cross_shape)

lemma row_shape_reads:
  assumes "row_shape inp q planned"
  shows "\<exists>tC tR. seen (in_Dialect inp) (cq_SQL q) (cq_Args q) =
        lit ''SELECT COUNT(*) AS total_rows, SUM(CASE WHEN '' @ tC @ lit '' THEN 1 ELSE 0 END) AS failed_rows FROM '' @ tR \<and>
      Unbound \<notin> set (tC @ tR) \<and> mset (vals (tC @ tR)) = mset (cq_Args q) \<and>
      (\<forall>limit pass_rows. \<exists>s. compileSamplePlan planned inp limit pass_rows = Inr s \<and>
        selects (in_Dialect inp) s tR (if pass_rows then lit ''NOT ('' @ tC @ lit '')'' else tC) limit)"
proof -
  let ?d = "in_Dialect inp"
  obtain relation conds fs cs tC C a f plan where r: "scanRelation inp = Inr (relation, conds, fs)"
    "compile_args.acts ?d (f :: compileArgs \<Rightarrow> compile_error + (string \<times> compileArgs)) cs tC"
    "f (newCompileArgs fs) = Inr (C, a)" "q = compileCountSelect relation conds C (ca_values ?d a)"
    "planned = Inr plan" "sp_relation plan = relation" "sp_where plan = conds" "sp_filterArgs plan = fs"
    "sample_args.acts ?d (sp_predicate plan) cs tC"
    using assms unfolding row_shape_def by blast
  obtain tR where tR: "fills ?d 0 (relation @ conds) fs tR" using scanRelation_fills(1) [OF r(1)] by blast
  have C: "fills ?d (ca_number ?d (newCompileArgs fs)) C cs tC"
    using r(2,3) unfolding compile_args.acts_def by (metis Inr_inject prod.inject)
  have args: "cq_Args q = ca_values ?d a" by (simp add: r(4) compileCountSelect_def)
  have "\<exists>s. compileSamplePlan planned inp limit pass_rows = Inr s \<and>
      selects ?d s tR (if pass_rows then lit ''NOT ('' @ tC @ lit '')'' else tC) limit" for limit pass_rows
    unfolding r(5) using r(6-9) tR by (intro sample_seen) auto
  moreover have "Unbound \<notin> set (tC @ tR)" "vals (tC @ tR) = cs @ fs"
    using C tR by (auto simp: fills_def)
  moreover have "seen ?d (cq_SQL q) (cq_Args q) =
      lit ''SELECT COUNT(*) AS total_rows, SUM(CASE WHEN '' @ tC @ lit '' THEN 1 ELSE 0 END) AS failed_rows FROM '' @ tR"
    "mset (cq_Args q) = mset cs + mset fs"
    using count_select_seen [OF r(2,3) tR] unfolding args r(4) [symmetric] by simp_all
  ultimately show ?thesis by (intro exI [of _ tC] exI [of _ tR] conjI allI) simp_all
qed

text \<open>A rule with a tolerance between two columns on PostgreSQL, a filter, and the statement it compiles to.\<close>

definition example_target :: ResolvedTarget where
  "example_target = \<lparr>rt_GUID = ''t'', rt_MetaType = TABLE, rt_Engine = Postgres, rt_Instance = ''i'', rt_Database = ''d'',
     rt_Schema = ''s'', rt_Table = ''t'',
     rt_Columns = [\<lparr>ci_Name = ''a'', ci_Type = ''int'', ci_Kind = KindNumeric, ci_Nullable = True\<rparr>,
       \<lparr>ci_Name = ''b'', ci_Type = ''int'', ci_Kind = KindNumeric, ci_Nullable = True\<rparr>],
     rt_KeyColumns = [''a'']\<rparr>"

definition example_rule :: CrossColumnConfig where
  "example_rule = \<lparr>FailThreshold = Some (Fin 0), WarnThreshold = None, cc_LeftColumn = ''a'', cc_RightColumn = ''b'',
     cc_Op = CMP_EQ, cc_Tolerance = Some (Fin 2)\<rparr>"

definition example_input :: CompileInput where
  "example_input = \<lparr>in_Dialect = postgresDialect, in_Target = example_target, in_Type = CROSS_COLUMN,
     in_Config = \<lparr>rc_Arm = CrossColumnC example_rule, rc_OnEmpty = EMPTY_UNSPECIFIED,
       rc_ThresholdMetric = METRIC_UNSPECIFIED, rc_Sampling = None,
       rc_Filter = Some [Some \<lparr>qf_Column = ''a'', qf_Op = OP_EQ, qf_Values = [''7'']\<rparr>], rc_TimeoutSeconds = 0\<rparr>,
     in_Filter = [\<lparr>fc_Column = ''a'', fc_Op = FilterEQ, fc_Values = [''7'']\<rparr>], in_ContractFilter = [],
     in_Variables = \<lparr>tv_At = 0, tv_Location = None\<rparr>, in_Reference = None,
     in_Unicode = \<lparr>u_ToUpper = id, u_TrimSpace = id, u_Fields = (\<lambda>s. [s]), u_ValidString = (\<lambda>_. True)\<rparr>,
     in_SQL = (\<lambda>_ _. None), in_Derived = (\<lambda>_. None)\<rparr>"

definition example_query :: CompiledQuery where
  "example_query = \<lparr>cq_SQL = ''SELECT COUNT(*) AS total_rows, SUM(CASE WHEN ABS('' @ [CHR 0x22] @ ''a'' @ [CHR 0x22] @
       '' - '' @ [CHR 0x22] @ ''b'' @ [CHR 0x22] @ '') > $2 THEN 1 ELSE 0 END) AS failed_rows FROM '' @ [CHR 0x22] @
       ''s'' @ [CHR 0x22] @ ''.'' @ [CHR 0x22] @ ''t'' @ [CHR 0x22] @ '' WHERE '' @ [CHR 0x22] @ ''a'' @ [CHR 0x22] @ '' = $1'',
     cq_Args = [IntArg 7, FloatArg (Fin 2)], cq_Kind = QueryAggregate, cq_Columns = [''total_rows'', ''failed_rows'']\<rparr>"

lemma example_compiles: "Compile example_input = Inr example_query"
  unfolding example_query_def by code_simp

lemma example_facts: "row_plan example_input \<noteq> None" "\<not> user_query example_input" "in_Reference example_input = None"
  by (simp_all add: row_plan_def user_query_def example_input_def)

text \<open>
  C35. The rows a row rule counts as failed are the rows its sample shows. The rules meant are the six that
  judge each row by a condition of its own (null values, accepted values, range, regular expression, length and
  cross-column rules) and hold no query of the user. Whenever one compiles, its counting statement is read as
  one condition over one relation; its sample statement compiles too and is read as selecting from the same
  relation the rows with the same condition, names and bound values included; and for a positive failure count
  the statement of its passing rows selects from that relation the rows where the negation of the condition
  holds. A row where the condition is unknown because of a null is in neither sample. In each of them every
  placeholder has its value, in engines that number the placeholders and in those that do not.
\<close>

theorem counted_rows_are_shown:
  assumes "Compile inp = Inr q" "row_plan inp \<noteq> None" "\<not> user_query inp"
  shows "\<exists>tC tR. seen (in_Dialect inp) (cq_SQL q) (cq_Args q) =
        lit ''SELECT COUNT(*) AS total_rows, SUM(CASE WHEN '' @ tC @ lit '' THEN 1 ELSE 0 END) AS failed_rows FROM '' @ tR \<and>
      Unbound \<notin> set (tC @ tR) \<and> mset (vals (tC @ tR)) = mset (cq_Args q) \<and>
      (\<forall>limit. \<exists>s. CompileFailureRows inp limit = Inr (Some s) \<and>
        selects (in_Dialect inp) s tR tC (normalizeSampleLimit limit)) \<and>
      (\<forall>failed limit. 0 < failed \<longrightarrow> (\<exists>p. compilePassingRows inp failed limit = Inr (Some p) \<and>
        selects (in_Dialect inp) p tR (lit ''NOT ('' @ tC @ lit '')'') (normalizeSampleLimit limit)))"
proof -
  obtain planned where planned: "row_plan inp = Some planned" using assms(2) by blast
  from row_shape_reads [OF row_plan_shape [OF Compile_arm [OF assms(1)] planned assms(3)]] obtain tC tR where
    t: "seen (in_Dialect inp) (cq_SQL q) (cq_Args q) =
        lit ''SELECT COUNT(*) AS total_rows, SUM(CASE WHEN '' @ tC @ lit '' THEN 1 ELSE 0 END) AS failed_rows FROM '' @ tR"
      "Unbound \<notin> set (tC @ tR)" "mset (vals (tC @ tR)) = mset (cq_Args q)"
    and s: "\<And>limit pass_rows. \<exists>s. compileSamplePlan planned inp limit pass_rows = Inr s \<and>
        selects (in_Dialect inp) s tR (if pass_rows then lit ''NOT ('' @ tC @ lit '')'' else tC) limit"
    by blast
  have "\<exists>s. CompileFailureRows inp limit = Inr (Some s) \<and> selects (in_Dialect inp) s tR tC (normalizeSampleLimit limit)"
    for limit
    using s [of "normalizeSampleLimit limit" False] assms(1) planned
    by (auto simp: CompileFailureRows_def bind_result_def)
  moreover have "\<exists>p. compilePassingRows inp failed limit = Inr (Some p) \<and>
      selects (in_Dialect inp) p tR (lit ''NOT ('' @ tC @ lit '')'') (normalizeSampleLimit limit)"
    if "0 < failed" for failed limit
    using s [of "normalizeSampleLimit limit" True] that planned by (auto simp: compilePassingRows_def)
  ultimately show ?thesis using t by blast
qed

lemma counted_rows_are_shown_witness:
  "\<exists>tC tR. seen postgresDialect (cq_SQL example_query) (cq_Args example_query) =
      lit ''SELECT COUNT(*) AS total_rows, SUM(CASE WHEN '' @ tC @ lit '' THEN 1 ELSE 0 END) AS failed_rows FROM '' @ tR \<and>
    (\<exists>s. CompileFailureRows example_input 5 = Inr (Some s) \<and> selects postgresDialect s tR tC 5)"
proof -
  have e: "in_Dialect example_input = postgresDialect" "normalizeSampleLimit 5 = 5"
    by (simp_all add: example_input_def normalizeSampleLimit_def defaultSampleLimit_def maxSampleLimit_def)
  show ?thesis
    using counted_rows_are_shown [OF example_compiles example_facts(1,2)] unfolding e(1) by (metis e(2))
qed

subsection \<open>The alias of the uniqueness statement\<close>

lemma ToLower_dec: "ToLower (dec n) = dec n"
proof -
  have "lower_char c = c" if "is_digit c" for c
    using that by (auto simp: lower_char_def is_digit_def Let_def)
  then show ?thesis
    using dec_digits [of n] by (simp add: ToLower_def list_all_iff map_idI)
qed

lemma ToLower_append: "ToLower (s @ t) = ToLower s @ ToLower t"
  by (simp add: ToLower_def)

lemma keyed_aliases_lower: "map ToLower (keyed_aliases n) = keyed_aliases n"
proof -
  have "ToLower ''__dq_keyed'' = ''__dq_keyed''" "ToLower ''__dq_keyed_'' = ''__dq_keyed_''"
    by (simp_all add: ToLower_def lower_char_def Let_def)
  then show ?thesis unfolding keyed_aliases_def by (simp only: list.map map_map comp_def ToLower_append ToLower_dec)
qed

lemma keyed_aliases_distinct: "distinct (keyed_aliases n)"
proof -
  have "inj dec" by (rule inj_on_inverseI [of _ digits_value]) (rule dec_value)
  then show ?thesis by (auto simp: keyed_aliases_def distinct_map inj_on_def)
qed

lemma uniqueKeyedAlias_free:
  "uniqueKeyedAlias target \<in> set (keyed_aliases (length (rt_Columns target))) \<and>
    \<not> targetHasColumnFold target (uniqueKeyedAlias target)"
proof -
  let ?names = "keyed_aliases (length (rt_Columns target))"
  let ?free = "filter (\<lambda>name. \<not> targetHasColumnFold target name) ?names"
  have "?free \<noteq> []"
  proof
    assume "?free = []"
    then have "\<forall>name\<in>set ?names. targetHasColumnFold target name" by (auto simp: filter_empty_conv)
    then have "ToLower name \<in> (\<lambda>column. ToLower (ci_Name column)) ` set (rt_Columns target)" if n: "name \<in> set ?names" for name
    proof -
      obtain column where "column \<in> set (rt_Columns target)" "EqualFold (ci_Name column) name"
        using \<open>\<forall>name\<in>set ?names. _ name\<close> n by (auto simp: targetHasColumnFold_def list_ex_iff)
      then show ?thesis unfolding EqualFold_def by (intro image_eqI [of _ _ column]) simp_all
    qed
    then have "set (map ToLower ?names) \<subseteq> (\<lambda>column. ToLower (ci_Name column)) ` set (rt_Columns target)" by auto
    then have "card (set ?names) \<le> card (set (rt_Columns target))"
      by (metis keyed_aliases_lower List.finite_set card_image_le card_mono finite_imageI le_trans)
    then have "length ?names \<le> length (rt_Columns target)"
      using distinct_card [OF keyed_aliases_distinct] card_length le_trans by metis
    then show False by (simp add: keyed_aliases_def del: upt_Suc)
  qed
  then have "hd ?free \<in> set ?free" by (rule hd_in_set)
  then show ?thesis unfolding uniqueKeyedAlias_def set_filter by blast
qed

text \<open>
  C38. The flag of a uniqueness statement never takes the name of a column. Among the candidates the code
  tries, one more than the table has columns, the chosen one differs from every column even when case is
  ignored, however the columns are named, so the outer query never reads a column of the user as the flag.
\<close>

theorem unique_alias_is_no_column:
  "(\<exists>i. uniqueKeyedAlias target = (if i < 2 then ''__dq_keyed'' else ''__dq_keyed_'' @ dec i)) \<and>
   list_all (\<lambda>column. \<not> EqualFold (ci_Name column) (uniqueKeyedAlias target)) (rt_Columns target)"
proof
  have "\<exists>i. name = (if i < 2 then ''__dq_keyed'' else ''__dq_keyed_'' @ dec i)" if "name \<in> set (keyed_aliases n)" for name n
  proof -
    have "name = ''__dq_keyed'' \<or> (\<exists>i\<ge>2. name = ''__dq_keyed_'' @ dec i)"
      using that by (auto simp: keyed_aliases_def simp del: upt_Suc dec.simps)
    then show ?thesis
    proof
      assume "name = ''__dq_keyed''"
      then show ?thesis by (intro exI [of _ 0]) (simp del: dec.simps)
    next
      assume "\<exists>i\<ge>2. name = ''__dq_keyed_'' @ dec i"
      then obtain i where "2 \<le> i" "name = ''__dq_keyed_'' @ dec i" by blast
      then show ?thesis by (intro exI [of _ i]) (simp del: dec.simps)
    qed
  qed
  then show "\<exists>i. uniqueKeyedAlias target = (if i < 2 then ''__dq_keyed'' else ''__dq_keyed_'' @ dec i)"
    using uniqueKeyedAlias_free by blast
  show "list_all (\<lambda>column. \<not> EqualFold (ci_Name column) (uniqueKeyedAlias target)) (rt_Columns target)"
    using uniqueKeyedAlias_free [of target] by (simp add: targetHasColumnFold_def list_ex_iff list_all_iff)
qed

lemma uniqueKeyedAlias_plain: "plain (uniqueKeyedAlias target)"
proof -
  have "plain name" if "name \<in> set (keyed_aliases n)" for name n
    using that by (auto simp: keyed_aliases_def special_def)
  then show ?thesis using uniqueKeyedAlias_free by blast
qed

subsection \<open>Every placeholder has its value\<close>

definition binds_all :: "Dialect \<Rightarrow> CompiledQuery \<Rightarrow> bool" where
  "binds_all d q \<longleftrightarrow> Unbound \<notin> set (seen d (cq_SQL q) (cq_Args q)) \<and>
     mset (vals (seen d (cq_SQL q) (cq_Args q))) = mset (cq_Args q)"

text \<open>A statement without arguments of its own binds those of its filter in order.\<close>

definition binds :: "Dialect \<Rightarrow> nat \<Rightarrow> string \<Rightarrow> arg list \<Rightarrow> bool" where
  "binds d n s vs \<longleftrightarrow> (\<exists>ts. fills d n s vs ts)"

lemma binds_plain: "plain s \<Longrightarrow> binds d n s []"
  unfolding binds_def using fills_plain by blast

lemma binds_lit: "plain s \<Longrightarrow> binds d n r vs \<Longrightarrow> binds d n (s @ r) vs"
  unfolding binds_def using fills_lit by blast

lemma binds_name: "binds d n (QuoteIdentifier d name) []"
  unfolding binds_def using fills_name by blast

lemma binds_names: "binds d n (Join (map (QuoteIdentifier d) names) '', '') []"
  unfolding binds_def using fills_names by blast

lemma binds_then: "binds d n s [] \<Longrightarrow> binds d n r ws \<Longrightarrow> follows r \<Longrightarrow> binds d n (s @ r) ws"
  unfolding binds_def using fills_then by blast

lemma binds_append: "binds d n s vs \<Longrightarrow> binds d (n + length vs) r ws \<Longrightarrow> follows r \<Longrightarrow> binds d n (s @ r) (vs @ ws)"
  unfolding binds_def using fills_append by blast

lemma binds_last: "binds d n s vs \<Longrightarrow> binds d (n + length vs) r [] \<Longrightarrow> follows r \<Longrightarrow> binds d n (s @ r) vs"
  using binds_append [of d n s vs r "[]"] by simp

lemma binds_binds_all: "binds d 0 (cq_SQL q) (cq_Args q) \<Longrightarrow> binds_all d q"
  unfolding binds_def binds_all_def using fills_seen by (fastforce simp: fills_def)

lemma scan_binds: "scanRelation inp = Inr (relation, conds, args) \<Longrightarrow> binds (in_Dialect inp) 0 (relation @ conds) args"
  using scanRelation_fills unfolding binds_def by blast

lemma where_binds: "whereClause inp = Inr (conds, args) \<Longrightarrow> binds (in_Dialect inp) 0 conds args \<and> follows conds"
  using whereClause_fills unfolding binds_def by blast

lemma table_binds: "compileTable d target = Inr table \<Longrightarrow> binds d n table []"
  using compileTable_fills unfolding binds_def by blast

lemma table_where_binds:
  assumes "compileTable (in_Dialect inp) target = Inr table" "whereClause inp = Inr (conds, args)"
  shows "binds (in_Dialect inp) 0 (table @ conds) args"
  using binds_then [OF table_binds [OF assms(1)]] where_binds [OF assms(2)] by blast

lemma total_rows_binds:
  assumes "compileTotalRows inp = Inr q"
  shows "binds_all (in_Dialect inp) q"
proof (rule binds_binds_all)
  obtain table conds args where r: "compileTable (in_Dialect inp) (in_Target inp) = Inr table"
    "whereClause inp = Inr (conds, args)" "cq_Args q = args"
    "cq_SQL q = ''SELECT COUNT(*) AS total_rows FROM '' @ table @ conds"
    using assms unfolding compileTotalRows_def results split_paired_Ex prod.case sum.inject by auto
  show "binds (in_Dialect inp) 0 (cq_SQL q) (cq_Args q)"
    unfolding r(3,4) by (intro binds_lit table_where_binds [OF r(1,2)]) (simp add: special_def)
qed

lemma unique_binds: "compileUniqueQuery inp columns countNulls = Inr q \<Longrightarrow> binds_all (in_Dialect inp) q"
proof (rule binds_binds_all)
  let ?d = "in_Dialect inp"
  let ?list = "Join (map (QuoteIdentifier ?d) columns) '', ''" and ?keyed = "uniqueKeyedAlias (in_Target inp)"
  let ?inner = "?list @ '', COUNT(*) AS cnt'' @ (if countNulls then []
      else '', CASE WHEN '' @ Join (map (\<lambda>column. column @ '' IS NOT NULL'') (map (QuoteIdentifier ?d) columns)) '' AND '' @
        '' THEN 1 ELSE 0 END AS '' @ ?keyed)"
  let ?failure = "if countNulls then ''cnt > 1'' else ''cnt > 1 AND '' @ ?keyed @ '' = 1''"
  assume "compileUniqueQuery inp columns countNulls = Inr q"
  then obtain relation conds fs where r: "scanRelation inp = Inr (relation, conds, fs)" "cq_Args q = fs"
    "cq_SQL q = ''SELECT COALESCE(SUM(CASE WHEN '' @ ?failure @
        '' THEN cnt - 1 ELSE 0 END), 0) AS failed_rows, COUNT(CASE WHEN '' @ ?failure @
        '' THEN 1 END) AS duplicate_groups, COALESCE(SUM(cnt), 0) AS total_rows FROM (SELECT '' @
        ?inner @ '' FROM '' @ relation @ conds @ '' GROUP BY '' @ ?list @ '') dq''"
    unfolding compileUniqueQuery_def results split_paired_Ex prod.case sum.inject Let_def by auto
  have failure: "plain ?failure" using uniqueKeyedAlias_plain by (simp add: special_def)
  have keyed: "binds ?d n (Join (map (\<lambda>column. column @ '' IS NOT NULL'') (map (QuoteIdentifier ?d) columns)) '' AND '') []" for n
  proof -
    have every: "fills_all ?d n (map (\<lambda>column. column @ '' IS NOT NULL'') (map (QuoteIdentifier ?d) columns))
        (map (\<lambda>_. []) columns) (map (\<lambda>name. [Name name] @ lit '' IS NOT NULL'') columns)"
    proof (induction columns)
      case (Cons name names)
      have "fills ?d n (QuoteIdentifier ?d name @ '' IS NOT NULL'') [] ([Name name] @ lit '' IS NOT NULL'')"
        by (intro fills_then [OF fills_name] fills_plain) (auto simp: special_def is_digit_def)
      then show ?case using Cons by simp
    qed simp
    have none: "concat (map (\<lambda>_. []) columns) = ([] :: arg list)" by (induction columns) auto
    show ?thesis
      using fills_Join [OF every, where sep = "'' AND ''", unfolded none]
      unfolding binds_def by (auto simp: special_def is_digit_def)
  qed
  have inner: "binds ?d 0 (?inner @ t) vs" if "binds ?d 0 t vs" "follows t" for t vs
  proof (cases countNulls)
    case True
    have "binds ?d 0 (?list @ '', COUNT(*) AS cnt'' @ t) vs"
      using that by (intro binds_then [OF binds_names] binds_lit) (auto simp: special_def is_digit_def)
    then show ?thesis using True by simp
  next
    case False
    have "binds ?d 0 (?list @ '', COUNT(*) AS cnt'' @ '', CASE WHEN '' @
        Join (map (\<lambda>column. column @ '' IS NOT NULL'') (map (QuoteIdentifier ?d) columns)) '' AND '' @
        '' THEN 1 ELSE 0 END AS '' @ ?keyed @ t) vs"
      using that uniqueKeyedAlias_plain
      by (intro binds_then [OF binds_names] binds_then [OF keyed] binds_lit) (auto simp: special_def is_digit_def)
    then show ?thesis using False by simp
  qed
  have grouped: "binds ?d 0 ((relation @ conds) @ '' GROUP BY '' @ ?list @ '') dq'') fs"
    by (intro binds_last [OF scan_binds [OF r(1)]] binds_lit binds_then [OF binds_names] binds_plain)
      (auto simp: special_def is_digit_def)
  have from_on: "binds ?d 0 ('' FROM '' @ (relation @ conds) @ '' GROUP BY '' @ ?list @ '') dq'') fs"
    by (intro grouped binds_lit) (auto simp: special_def)
  have inner_on: "binds ?d 0 (?inner @ '' FROM '' @ (relation @ conds) @ '' GROUP BY '' @ ?list @ '') dq'') fs"
    by (rule inner [OF from_on]) (simp add: special_def is_digit_def)
  have "binds ?d 0 (''SELECT COALESCE(SUM(CASE WHEN '' @ ?failure @
      '' THEN cnt - 1 ELSE 0 END), 0) AS failed_rows, COUNT(CASE WHEN '' @ ?failure @
      '' THEN 1 END) AS duplicate_groups, COALESCE(SUM(cnt), 0) AS total_rows FROM (SELECT '' @
      ?inner @ '' FROM '' @ (relation @ conds) @ '' GROUP BY '' @ ?list @ '') dq'') fs"
    using failure by (intro inner_on binds_lit) (auto simp: special_def is_digit_def)
  then show "binds ?d 0 (cq_SQL q) (cq_Args q)" unfolding r(2,3) by (simp only: append_assoc)
qed


text \<open>A condition of the rule in front of the rest, which holds the filter.\<close>

lemma split_binds_all:
  assumes "compile_args.acts d f cs tC" "f (newCompileArgs fs) = Inr (C, a)"
    and "binds d 0 T fs" "follows T" "plain A" "cq_SQL q = A @ C @ T" "cq_Args q = ca_values d a"
  shows "binds_all d q"
proof -
  obtain C' a' where "f (newCompileArgs fs) = Inr (C', a')" "fills d (ca_number d (newCompileArgs fs)) C' cs tC"
    "compile_args.holds d (newCompileArgs fs) a' cs"
    using assms(1) unfolding compile_args.acts_def by blast
  then have a: "fills d (ca_number d (newCompileArgs fs)) C cs tC" "ca_configArgs a = cs" "ca_filterArgs a = fs"
    using assms(2) by (simp_all add: compile_args.holds_def newCompileArgs_def)
  obtain tT where tT: "fills d 0 T fs tT" using assms(3) unfolding binds_def by blast
  have "window d (ca_values d a) 0 (ca_number d (newCompileArgs fs)) cs"
    by (rule window_place [where us = "if compilePositional d then [] else fs" and
          ws = "if compilePositional d then fs else []"])
      (auto simp: ca_values_def ca_number_def newCompileArgs_def a)
  then have C: "reads d (ca_values d a) 0 C (length cs) tC" by (rule fills_reads [OF a(1)]) simp
  have "window d (ca_values d a) (length cs) 0 fs"
    by (rule window_place [where us = "if compilePositional d then cs else []" and
          ws = "if compilePositional d then [] else cs"])
      (auto simp: ca_values_def a)
  then have T: "reads d (ca_values d a) (length cs) T (length cs + length fs) tT"
    by (rule fills_reads [OF tT]) simp
  have "seen d (A @ C @ T) (ca_values d a) = lit A @ tC @ tT"
    by (rule reads_seen [OF reads_lit [OF assms(5) reads_append [OF C T assms(4)]]])
  then show ?thesis
    using a tT by (auto simp: binds_all_def assms(6,7) ca_values_def fills_def)
qed

lemma referential_binds:
  assumes "compileReferentialIntegrity inp c = Inr q"
  shows "binds_all (in_Dialect inp) q"
proof (rule binds_binds_all)
  let ?d = "in_Dialect inp" and ?parent = "GoTrimSpace (in_Unicode inp) (ri_ParentColumn c)"
  let ?child = "\<lambda>name. ''c.'' @ QuoteIdentifier ?d name" and ?found = "''p.'' @ QuoteIdentifier ?d ?parent"
  let ?condition = "\<lambda>name. if ri_AllowNull c then ?child name @ '' IS NOT NULL AND '' @ ?found @ '' IS NULL''
      else ?child name @ '' IS NULL OR '' @ ?found @ '' IS NULL''"
  obtain column :: ColumnInfo and table parentTable conds args where
    r: "compileTable ?d (in_Target inp) = Inr table" "whereClause inp = Inr (conds, args)"
      "compileParentTable (in_Unicode inp) ?d (in_Target inp) (ri_ParentTable c) = Inr parentTable"
    and sql: "\<lparr>cq_SQL = ''SELECT COUNT(*) AS total_rows, SUM(CASE WHEN '' @ ?condition (ci_Name column) @
      '' THEN 1 ELSE 0 END) AS failed_rows FROM (SELECT * FROM '' @ table @ conds @
      '') c LEFT JOIN '' @ parentTable @ '' p ON '' @ ?child (ci_Name column) @ '' = '' @ ?found,
      cq_Args = args, cq_Kind = QueryAggregate, cq_Columns = [''total_rows'', ''failed_rows'']\<rparr> = q"
    using assms unfolding compileReferentialIntegrity_def results split_paired_Ex prod.case sum.inject Let_def
    by blast
  define name where "name = ci_Name column"
  define parent where "parent = ?parent"
  have q: "cq_Args q = args" "cq_SQL q = ''SELECT COUNT(*) AS total_rows, SUM(CASE WHEN '' @ (if ri_AllowNull c
      then (''c.'' @ QuoteIdentifier ?d name) @ '' IS NOT NULL AND '' @ (''p.'' @ QuoteIdentifier ?d parent) @ '' IS NULL''
      else (''c.'' @ QuoteIdentifier ?d name) @ '' IS NULL OR '' @ (''p.'' @ QuoteIdentifier ?d parent) @ '' IS NULL'') @
      '' THEN 1 ELSE 0 END) AS failed_rows FROM (SELECT * FROM '' @ table @ conds @
      '') c LEFT JOIN '' @ parentTable @ '' p ON '' @ (''c.'' @ QuoteIdentifier ?d name) @ '' = '' @
      (''p.'' @ QuoteIdentifier ?d parent)"
    unfolding sql [symmetric] name_def parent_def by simp_all
  have parent: "binds ?d n parentTable []" for n
    using r(3) table_binds by (auto simp: compileParentTable_def results)
  have tail: "binds ?d 0 ((table @ conds) @ '') c LEFT JOIN '' @ parentTable @ '' p ON '' @ ''c.'' @
      QuoteIdentifier ?d name @ '' = '' @ ''p.'' @ QuoteIdentifier ?d parent) args"
    by (intro binds_last [OF table_where_binds [OF r(1,2)]] binds_then [OF binds_name] binds_then [OF parent]
        binds_name binds_lit) (auto simp: special_def is_digit_def)
  have rest: "binds ?d 0 ('' THEN 1 ELSE 0 END) AS failed_rows FROM (SELECT * FROM '' @ (table @ conds) @
      '') c LEFT JOIN '' @ parentTable @ '' p ON '' @ ''c.'' @ QuoteIdentifier ?d name @ '' = '' @ ''p.'' @
      QuoteIdentifier ?d parent) args"
    by (intro tail binds_lit) (auto simp: special_def)
  let ?cond = "if ri_AllowNull c
      then ''c.'' @ QuoteIdentifier ?d name @ '' IS NOT NULL AND '' @ ''p.'' @ QuoteIdentifier ?d parent @ '' IS NULL''
      else ''c.'' @ QuoteIdentifier ?d name @ '' IS NULL OR '' @ ''p.'' @ QuoteIdentifier ?d parent @ '' IS NULL''"
  have "binds ?d 0 ?cond []"
    by (cases "ri_AllowNull c")
      (simp_all only: if_True if_False, (intro binds_then [OF binds_name] binds_lit binds_plain; simp add: special_def is_digit_def)+)
  note cond = this
  have front: "binds ?d 0 (?cond @ '' THEN 1 ELSE 0 END) AS failed_rows FROM (SELECT * FROM '' @
      (table @ conds) @ '') c LEFT JOIN '' @ parentTable @ '' p ON '' @ ''c.'' @ QuoteIdentifier ?d name @ '' = '' @
      ''p.'' @ QuoteIdentifier ?d parent) args"
    by (rule binds_then [OF cond rest]) (simp add: special_def is_digit_def)
  have "binds ?d 0 (''SELECT COUNT(*) AS total_rows, SUM(CASE WHEN '' @ ?cond @
      '' THEN 1 ELSE 0 END) AS failed_rows FROM (SELECT * FROM '' @
      (table @ conds) @ '') c LEFT JOIN '' @ parentTable @ '' p ON '' @ ''c.'' @ QuoteIdentifier ?d name @ '' = '' @
      ''p.'' @ QuoteIdentifier ?d parent) args"
    by (rule binds_lit [OF _ front]) (simp add: special_def)
  then show "binds ?d 0 (cq_SQL q) (cq_Args q)" unfolding q by (cases "ri_AllowNull c") simp_all
qed

lemma freshness_binds:
  assumes "compileFreshness inp c = Inr q"
  shows "binds_all (in_Dialect inp) q"
proof (rule binds_binds_all)
  let ?d = "in_Dialect inp"
  obtain name table conds args where
    r: "compileTable ?d (in_Target inp) = Inr table" "whereClause inp = Inr (conds, args)"
    and q: "cq_Args q = args" "cq_SQL q = ''SELECT COUNT(*) AS total_rows, '' @ (''MAX('' @ QuoteIdentifier ?d name @ '')'') @
      '' AS max_ts, '' @ compileFreshnessLagExpr ?d (''MAX('' @ QuoteIdentifier ?d name @ '')'') @
      '' AS lag_seconds FROM '' @ table @ conds"
    using assms unfolding compileFreshness_def Let_def by (auto simp: results split: if_splits)
  have tail: "binds ?d 0 ('' AS lag_seconds FROM '' @ table @ conds) args"
    by (intro table_where_binds [OF r(1,2)] binds_lit) (simp add: special_def)
  obtain f g where lag: "plain f" "plain g" "follows g" "g \<noteq> []"
    "compileFreshnessLagExpr ?d (''MAX('' @ QuoteIdentifier ?d name @ '')'') = f @ QuoteIdentifier ?d name @ g"
  proof (cases ?d)
    case (mysqlDialect e)
    then show thesis using that [of "''TIMESTAMPDIFF(SECOND, MAX(''" "''), NOW())''"]
      by (simp add: compileFreshnessLagExpr_def special_def is_digit_def)
  next
    case postgresDialect
    then show thesis using that [of "''EXTRACT(EPOCH FROM (CURRENT_TIMESTAMP - MAX(''" "'')))''"]
      by (simp add: compileFreshnessLagExpr_def special_def is_digit_def)
  next
    case mssqlDialect
    then show thesis using that [of "''DATEDIFF(SECOND, MAX(''" "''), SYSUTCDATETIME())''"]
      by (simp add: compileFreshnessLagExpr_def special_def is_digit_def)
  qed
  have "follows (g @ r)" for r using lag(3,4) by (cases g) auto
  then have "binds ?d 0 (''SELECT COUNT(*) AS total_rows, '' @ ''MAX('' @ QuoteIdentifier ?d name @ '')'' @
      '' AS max_ts, '' @ f @ QuoteIdentifier ?d name @ g @ '' AS lag_seconds FROM '' @ table @ conds) args"
    using lag(1,2)
    by (intro tail binds_then [OF binds_name] binds_lit) (auto simp: special_def is_digit_def)
  then show "binds ?d 0 (cq_SQL q) (cq_Args q)" unfolding q lag(5) by simp
qed


lemma group_binds:
  assumes "compileGroupCheck inp c = Inr q"
  shows "binds_all (in_Dialect inp) q"
proof -
  let ?d = "in_Dialect inp"
  let ?cs = "[(''cnt < '', map_option IntArg (gc_MinRowsPerGroup c)), (''cnt > '', map_option IntArg (gc_MaxRowsPerGroup c))]"
  let ?list = "\<lambda>columns. Join (map (QuoteIdentifier ?d) columns) '', ''"
  have tail: "(case add_conditions (ca_add ?d) ?cs s of (conditions, args) \<Rightarrow> f (Join conditions '' OR '') args) =
      (case either_condition ?cs (ca_add ?d) s of (C, args) \<Rightarrow> f C args)" for s and f :: "string \<Rightarrow> compileArgs \<Rightarrow> compiled"
    by (simp add: either_snd case_prod_unfold)
  obtain columns relation conds fs where r: "scanRelation inp = Inr (relation, conds, fs)"
    and sql: "(case add_conditions (ca_add ?d) ?cs (newCompileArgs fs) of (conditions, args) \<Rightarrow>
       (Inr \<lparr>cq_SQL = ''SELECT COUNT(*) AS total_groups, SUM(CASE WHEN '' @ Join conditions '' OR '' @
            '' THEN 1 ELSE 0 END) AS failed_groups FROM (SELECT '' @ ?list columns @ '', COUNT(*) AS cnt FROM '' @
            relation @ conds @ '' GROUP BY '' @ ?list columns @ '') dq'',
          cq_Args = ca_values ?d args, cq_Kind = QueryAggregate,
          cq_Columns = [''total_groups'', ''failed_groups'']\<rparr> :: compiled)) = Inr q"
    using assms unfolding compileGroupCheck_def results split_paired_Ex prod.case Let_def qualifyColumns_def by blast
  obtain C a where C: "either_condition ?cs (ca_add ?d) (newCompileArgs fs) = (C, a)"
    by (cases "either_condition ?cs (ca_add ?d) (newCompileArgs fs)")
  have q: "cq_SQL q = ''SELECT COUNT(*) AS total_groups, SUM(CASE WHEN '' @ C @ '' THEN 1 ELSE 0 END) AS failed_groups FROM (SELECT '' @
      ?list columns @ '', COUNT(*) AS cnt FROM '' @ relation @ conds @ '' GROUP BY '' @ ?list columns @ '') dq''"
    "cq_Args q = ca_values ?d a"
    using sql C by (auto simp: either_snd case_prod_unfold)
  have on: "binds ?d 0 ((relation @ conds) @ '' GROUP BY '' @ ?list columns @ '') dq'') fs"
    by (intro binds_last [OF scan_binds [OF r]] binds_lit binds_then [OF binds_names] binds_plain)
      (auto simp: special_def is_digit_def)
  have T: "binds ?d 0 ('' THEN 1 ELSE 0 END) AS failed_groups FROM (SELECT '' @ ?list columns @
      '', COUNT(*) AS cnt FROM '' @ (relation @ conds) @ '' GROUP BY '' @ ?list columns @ '') dq'') fs"
    by (intro on binds_then [OF binds_names] binds_lit) (auto simp: special_def is_digit_def)
  have fronts: "list_all2 (\<lambda>e t. front_reads ?d (fst e) t) ?cs [lit ''cnt < '', lit ''cnt > '']"
    by (simp add: front_plain special_def)
  show ?thesis
  proof (rule split_binds_all [OF compile_args.acts_either [OF fronts] _ T])
    show "cq_SQL q = ''SELECT COUNT(*) AS total_groups, SUM(CASE WHEN '' @ C @ '' THEN 1 ELSE 0 END) AS failed_groups FROM (SELECT '' @
        ?list columns @ '', COUNT(*) AS cnt FROM '' @ (relation @ conds) @ '' GROUP BY '' @ ?list columns @ '') dq''"
      unfolding q(1) by simp
  qed (use C q(2) in \<open>auto simp: special_def is_digit_def\<close>)
qed

lemma aggregate_plain:
  assumes "aggregateExpression d fn quoted p = Inr e" "fn \<noteq> AGG_PERCENTILE"
    and "fn = AGG_COUNT \<or> quoted = QuoteIdentifier d name"
  shows "\<exists>ts. \<forall>n. fills d n e [] ts"
proof (cases "fn = AGG_COUNT")
  case True
  have "plain e" using assms(1) True by (auto simp: aggregateExpression_def special_def)
  then show ?thesis using fills_plain by blast
next
  case False
  then have "\<exists>f\<in>{''SUM('', ''AVG('', ''MIN('', ''MAX('', ''STDEV('', ''STDDEV(''}. e = f @ QuoteIdentifier d name @ '')''"
    using assms by (cases fn; cases d) (simp_all add: aggregateExpression_def)
  then obtain f where f: "e = f @ QuoteIdentifier d name @ '')''" "plain f" by (auto simp: special_def)
  have "fills d n e [] (lit f @ [Name name] @ lit '')'')" for n
    unfolding f(1) using f(2) by (intro fills_lit fills_then [OF fills_name] fills_plain) (auto simp: special_def is_digit_def)
  then show ?thesis by blast
qed

lemma aggregate_percentile:
  assumes "aggregateExpression d AGG_PERCENTILE (QuoteIdentifier d name) p0 = Inr e0"
  obtains f m g where "plain f" "plain m" "follows m" "m \<noteq> []" "plain g" "follows g"
    "\<And>p. p \<noteq> [] \<Longrightarrow> aggregateExpression d AGG_PERCENTILE (QuoteIdentifier d name) p = Inr (f @ p @ m @ QuoteIdentifier d name @ g)"
proof (cases d)
  case (mysqlDialect e)
  then show thesis using assms by (auto simp: aggregateExpression_def split: if_splits)
next
  case postgresDialect
  then show thesis using that [of "''PERCENTILE_CONT(''" "'') WITHIN GROUP (ORDER BY ''" "'')''"]
    by (simp add: aggregateExpression_def special_def is_digit_def)
next
  case mssqlDialect
  then show thesis using that [of "''PERCENTILE_CONT(''" "'') WITHIN GROUP (ORDER BY ''" "'') OVER ()''"]
    by (simp add: aggregateExpression_def special_def is_digit_def)
qed

lemma Placeholder_some: "Placeholder d n \<noteq> []"
  using dec_digits by (cases d) (auto simp: Placeholder_def)

lemma aggregate_binds:
  assumes "compileAggregate inp c = Inr q"
  shows "binds_all (in_Dialect inp) q"
proof -
  let ?d = "in_Dialect inp"
  let ?fraction = "\<lambda>p. FloatArg (f_div p (Fin 100))"
  obtain relation conds fs quoted p a e where r: "scanRelation inp = Inr (relation, conds, fs)"
    and quoted: "(if ag_Function c = AGG_COUNT then Inr []
        else map_sum BadColumn (\<lambda>column. QuoteIdentifier ?d (ci_Name column))
          (requireColumn (in_Target inp) (ag_Column c))) = Inr quoted"
    and bound: "(if ag_Function c \<noteq> AGG_PERCENTILE then Inr ([], newCompileArgs fs)
          else case ag_Percentile c of
              None \<Rightarrow> Inl (Invalid ''percentile required'')
            | Some p \<Rightarrow>
                if f_less p (Fin 0) \<or> f_less (Fin 100) p then Inl (BadThreshold (OutOfRange p))
                else Inr (ca_add ?d (?fraction p) (newCompileArgs fs))) = Inr (p, a)"
    and e: "aggregateExpression ?d (ag_Function c) quoted p = Inr e"
    and sql: "\<lparr>cq_SQL = ''SELECT COUNT(*) AS total_rows, '' @ e @ '' AS observed FROM '' @ relation @ conds,
      cq_Args = ca_values ?d a, cq_Kind = QueryAggregate, cq_Columns = [''total_rows'', ''observed'']\<rparr> = q"
    using assms unfolding compileAggregate_def bind_result_Inr split_paired_Ex prod.case sum.inject Let_def by blast
  obtain name where name: "ag_Function c = AGG_COUNT \<or> quoted = QuoteIdentifier ?d name"
    using quoted by (auto simp: map_sum_Inr split: if_splits)
  have T: "binds ?d 0 ('' AS observed FROM '' @ relation @ conds) fs"
    by (intro scan_binds [OF r] binds_lit) (simp add: special_def)
  have q: "cq_SQL q = ''SELECT COUNT(*) AS total_rows, '' @ e @ '' AS observed FROM '' @ relation @ conds"
    "cq_Args q = ca_values ?d a"
    unfolding sql [symmetric] by simp_all
  show ?thesis
  proof (cases "ag_Function c = AGG_PERCENTILE")
    case False
    obtain ts where "\<And>n. fills ?d n e [] ts" using aggregate_plain [OF e False name] by blast
    then have "compile_args.acts ?d (\<lambda>s. Inr (e, s)) [] ts"
      by (simp add: compile_args.acts_def compile_args.holds_refl)
    then show ?thesis
      by (rule split_binds_all [OF _ _ T _ _ q]) (use bound False in \<open>auto simp: special_def is_digit_def\<close>)
  next
    case True
    then obtain x where x: "ca_add ?d (?fraction x) (newCompileArgs fs) = (p, a)"
      using bound by (auto split: option.splits if_splits)
    have qn: "quoted = QuoteIdentifier ?d name" using name True by simp
    obtain f m g where fm: "plain f" "plain m" "follows m" "m \<noteq> []" "plain g" "follows g"
      and form: "\<And>p. p \<noteq> [] \<Longrightarrow>
        aggregateExpression ?d AGG_PERCENTILE (QuoteIdentifier ?d name) p = Inr (f @ p @ m @ QuoteIdentifier ?d name @ g)"
      using aggregate_percentile [OF e [unfolded True qn]] by blast
    let ?f = "\<lambda>s. Inr (f @ fst (ca_add ?d (?fraction x) s) @ m @ QuoteIdentifier ?d name @ g, snd (ca_add ?d (?fraction x) s))"
    have m: "follows (m @ r)" for r using fm(3,4) by (cases m) auto
    have "fills ?d (ca_number ?d s) (f @ fst (ca_add ?d (?fraction x) s) @ m @ QuoteIdentifier ?d name @ g) ([?fraction x] @ [])
        (lit f @ [Val (?fraction x)] @ lit m @ [Name name] @ lit g)" for s
      using fm m by (intro fills_lit fills_append [OF compile_args.fills_add] fills_then [OF fills_name] fills_plain)
    then have "compile_args.acts ?d ?f [?fraction x] (lit f @ [Val (?fraction x)] @ lit m @ [Name name] @ lit g)"
      by (simp add: compile_args.acts_def compile_args.holds_add)
    moreover have "p \<noteq> []" using compile_args.add_placeholder [of ?d "?fraction x" "newCompileArgs fs"] Placeholder_some x
      by simp
    then have "?f (newCompileArgs fs) = Inr (e, a)" using form e True qn x by simp
    ultimately show ?thesis
      by (rule split_binds_all [OF _ _ T _ _ q]) (auto simp: special_def is_digit_def)
  qed
qed


text \<open>Two sides of a cross-table rule: the placeholders of the second go on where the first ended.\<close>

lemma crossTableExpression_fills:
  assumes "crossTableExpression uni d fn column target = Inr e" "crossTableFunctionSupported fn"
  shows "\<exists>ts. \<forall>n. fills d n e [] ts"
proof (cases "fn = AGG_COUNT")
  case True
  then have "plain e" using assms by (auto simp: crossTableExpression_def special_def)
  then show ?thesis using fills_plain by blast
next
  case False
  then obtain resolved :: ColumnInfo where "aggregateExpression d fn (QuoteIdentifier d (ci_Name resolved)) [] = Inr e"
    using assms(1) by (auto simp: crossTableExpression_def results)
  then show ?thesis
    using assms(2) by (intro aggregate_plain) (auto simp: crossTableFunctionSupported_def)
qed

lemma expression_binds:
  "crossTableExpression uni d fn column target = Inr e \<Longrightarrow> crossTableFunctionSupported fn \<Longrightarrow> binds d n e []"
  unfolding binds_def using crossTableExpression_fills by blast

lemma reference_binds:
  assumes "compileReferenceSide inp c reference offset = Inr (table, expression, conds, args)"
    and "DialectFor (rt_Engine reference) = Some d" "crossTableFunctionSupported (xt_RightFunction c)"
  shows "binds d n table []" "binds d n expression []" "binds d offset conds args" "follows conds"
proof -
  obtain filters clause where r: "compileTable d reference = Inr table"
    "crossTableExpression (in_Unicode inp) d (xt_RightFunction c) (xt_RightColumn c) reference = Inr expression"
    "CompileFilterAfter (in_Unicode inp) d reference filters offset = Inr (clause, args)"
    "conds = (if clause = [] then [] else '' WHERE '' @ clause)"
    using assms(1,2) by (auto simp: compileReferenceSide_def results)
  show "binds d n table []" "binds d n expression []"
    using table_binds [OF r(1)] expression_binds [OF r(2) assms(3)] by blast+
  obtain ts where ts: "fills d offset clause args ts" using CompileFilterAfter_fills [OF r(3)] by blast
  then have "binds d offset ('' WHERE '' @ clause) args" by (intro binds_lit) (auto simp: binds_def special_def)
  moreover have "clause = [] \<Longrightarrow> binds d offset [] args" using ts by (auto simp: binds_def)
  ultimately show "binds d offset conds args" "follows conds" by (auto simp: r(4) special_def is_digit_def)
qed

lemma cross_table_binds:
  assumes "compileCrossTable inp c = Inr q"
    and "\<And>reference. in_Reference inp = Some reference \<Longrightarrow> ReferenceSharesConnection (in_Target inp) reference \<Longrightarrow>
      DialectFor (rt_Engine reference) = Some (in_Dialect inp)"
  shows "binds_all (in_Dialect inp) q"
proof (rule binds_binds_all)
  let ?d = "in_Dialect inp"
  obtain reference where ref: "in_Reference inp = Some reference"
    using assms(1) by (auto simp: compileCrossTable_def split: option.splits)
  obtain table e conds fs where sup: "crossTableFunctionSupported (xt_LeftFunction c)" "crossTableFunctionSupported (xt_RightFunction c)"
    and l: "compileTable ?d (in_Target inp) = Inr table"
      "crossTableExpression (in_Unicode inp) ?d (xt_LeftFunction c) (xt_LeftColumn c) (in_Target inp) = Inr e"
      "whereClause inp = Inr (conds, fs)"
    and q: "(if \<not> ReferenceSharesConnection (in_Target inp) reference then
        (Inr \<lparr>cq_SQL = ''SELECT '' @ e @ '' AS left_value FROM '' @ table @ conds,
          cq_Args = fs, cq_Kind = QueryAggregate, cq_Columns = [''left_value'']\<rparr> :: compiled)
      else bind_result (compileReferenceSide inp c reference (length fs))
        (\<lambda>(rightTable, rightExpression, rightWhere, rightArgs).
          Inr \<lparr>cq_SQL = ''SELECT (SELECT '' @ e @ '' FROM '' @ table @ conds @
               '') AS left_value, (SELECT '' @ rightExpression @ '' FROM '' @ rightTable @ rightWhere @ '') AS right_value'',
            cq_Args = fs @ rightArgs, cq_Kind = QueryAggregate,
            cq_Columns = [''left_value'', ''right_value'']\<rparr>)) = Inr q"
    using assms(1) unfolding compileCrossTable_def ref option.case results(1) bind_result_Inr split_paired_Ex prod.case
    by (auto simp only: de_Morgan_disj not_not)
  have side: "binds ?d 0 e []" by (rule expression_binds [OF l(2) sup(1)])
  note left = table_where_binds [OF l(1,3)]
  show "binds ?d 0 (cq_SQL q) (cq_Args q)"
  proof (cases "ReferenceSharesConnection (in_Target inp) reference")
    case False
    then have "cq_SQL q = ''SELECT '' @ e @ '' AS left_value FROM '' @ table @ conds" "cq_Args q = fs" using q by auto
    moreover have "binds ?d 0 (''SELECT '' @ e @ '' AS left_value FROM '' @ table @ conds) fs"
      by (intro left binds_then [OF side] binds_lit) (auto simp: special_def is_digit_def)
    ultimately show ?thesis by simp
  next
    case True
    then obtain rt re rw ra where r: "compileReferenceSide inp c reference (length fs) = Inr (rt, re, rw, ra)"
      and sql: "cq_SQL q = ''SELECT (SELECT '' @ e @ '' FROM '' @ table @ conds @
        '') AS left_value, (SELECT '' @ re @ '' FROM '' @ rt @ rw @ '') AS right_value''" "cq_Args q = fs @ ra"
      using q by (auto simp: bind_result_Inr)
    note right = reference_binds [OF r assms(2) [OF ref True] sup(2)]
    have "binds ?d (length fs) (rw @ '') AS right_value'') ra"
      by (intro binds_last [OF right(3)] binds_plain) (auto simp: special_def is_digit_def)
    then have right_on: "binds ?d (length fs) (rt @ rw @ '') AS right_value'') ra"
      using right(4) by (intro binds_then [OF right(1)]) (auto intro: follows_append simp: special_def is_digit_def)
    have tail: "binds ?d (0 + length fs) ('') AS left_value, (SELECT '' @ re @ '' FROM '' @ rt @ rw @ '') AS right_value'') ra"
      unfolding add_0 by (intro right_on binds_then [OF right(2)] binds_lit) (auto simp: special_def is_digit_def)
    have whole: "binds ?d 0 ((table @ conds) @ '') AS left_value, (SELECT '' @ re @ '' FROM '' @ rt @ rw @ '') AS right_value'') (fs @ ra)"
      by (rule binds_append [OF left tail]) (simp add: special_def is_digit_def)
    have "binds ?d 0 (''SELECT (SELECT '' @ e @ '' FROM '' @ (table @ conds) @
        '') AS left_value, (SELECT '' @ re @ '' FROM '' @ rt @ rw @ '') AS right_value'') (fs @ ra)"
      by (intro whole binds_then [OF side] binds_lit) (auto simp: special_def is_digit_def)
    then show ?thesis unfolding sql by simp
  qed
qed

lemma sample_binds:
  assumes "compileTable (in_Dialect inp) (in_Target inp) = Inr table" "whereClause inp = Inr (conds, fs)"
  shows "binds_all (in_Dialect inp) (sampleQuery inp (''SELECT '' @ sampleSelect (in_Dialect inp) names @ '' FROM '' @ table @ conds)
    fs columns limit)"
proof (rule binds_binds_all)
  let ?d = "in_Dialect inp"
  have tail: "binds ?d 0 ((table @ conds) @ sampleLimitClause ?d limit) fs"
    by (rule binds_last [OF table_where_binds [OF assms] binds_plain]) simp_all
  have "binds ?d 0 (''SELECT '' @ Join (map (QuoteIdentifier ?d) names) '', '' @ '' FROM '' @ (table @ conds) @
      sampleLimitClause ?d limit) fs"
    by (intro tail binds_then [OF binds_names] binds_lit) (auto simp: special_def is_digit_def)
  then show "binds ?d 0 (cq_SQL (sampleQuery inp (''SELECT '' @ sampleSelect ?d names @ '' FROM '' @ table @ conds) fs columns limit))
      (cq_Args (sampleQuery inp (''SELECT '' @ sampleSelect ?d names @ '' FROM '' @ table @ conds) fs columns limit))"
    by (simp add: sampleQuery_def sampleSelect_def)
qed

lemma cel_binds: "compileCelExpression inp c = Inr q \<Longrightarrow> binds_all (in_Dialect inp) q"
  using sample_binds unfolding compileCelExpression_def results split_paired_Ex prod.case sum.inject Let_def by blast

lemma standard_code_binds: "compileStandardCode inp c = Inr q \<Longrightarrow> binds_all (in_Dialect inp) q"
  using sample_binds unfolding compileStandardCode_def results split_paired_Ex prod.case sum.inject Let_def by blast

lemma segment_binds:
  assumes "compileSegmentCheck inp c = Inr q"
  shows "binds_all (in_Dialect inp) q"
proof (rule binds_binds_all)
  let ?d = "in_Dialect inp"
  obtain columns relation conds fs where r: "scanRelation inp = Inr (relation, conds, fs)"
    and sql: "\<lparr>cq_SQL = ''SELECT '' @ Join (map (QuoteIdentifier ?d) columns) '', '' @ '', COUNT(*) AS '' @
      segmentRowCountColumn @ '' FROM '' @ relation @ conds @ '' GROUP BY '' @ Join (map (QuoteIdentifier ?d) columns) '', '' @
      '' ORDER BY '' @ segmentRowCountColumn @ '' DESC, '' @ Join (map (QuoteIdentifier ?d) columns) '', '' @ '' '' @
      LimitClause ?d (maxSegmentCount + 1),
      cq_Args = fs, cq_Kind = QuerySample, cq_Columns = columns @ [segmentRowCountColumn]\<rparr> = q"
    using assms unfolding compileSegmentCheck_def results split_paired_Ex prod.case sum.inject Let_def qualifyColumns_def
    by blast
  have plain: "plain segmentRowCountColumn" by (simp add: segmentRowCountColumn_def special_def)
  have tail: "binds ?d 0 ((relation @ conds) @ '' GROUP BY '' @ Join (map (QuoteIdentifier ?d) columns) '', '' @
      '' ORDER BY '' @ segmentRowCountColumn @ '' DESC, '' @ Join (map (QuoteIdentifier ?d) columns) '', '' @ '' '' @
      LimitClause ?d (maxSegmentCount + 1)) fs"
    using plain
    by (intro binds_last [OF scan_binds [OF r]] binds_lit binds_then [OF binds_names] binds_plain)
      (auto simp: special_def is_digit_def)
  have "binds ?d 0 (''SELECT '' @ Join (map (QuoteIdentifier ?d) columns) '', '' @ '', COUNT(*) AS '' @
      segmentRowCountColumn @ '' FROM '' @ (relation @ conds) @ '' GROUP BY '' @ Join (map (QuoteIdentifier ?d) columns) '', '' @
      '' ORDER BY '' @ segmentRowCountColumn @ '' DESC, '' @ Join (map (QuoteIdentifier ?d) columns) '', '' @ '' '' @
      LimitClause ?d (maxSegmentCount + 1)) fs"
    using plain by (intro tail binds_then [OF binds_names] binds_lit) (auto simp: special_def is_digit_def)
  then show "binds ?d 0 (cq_SQL q) (cq_Args q)" unfolding sql [symmetric] by simp
qed

text \<open>
  C36. Every placeholder of a compiled statement has its value, and every value is used. Whatever the rule
  type, the dialect, the sampling and the filters of rule and contract, the engine reads a value for every
  placeholder and reads each argument exactly once. The two types that splice a user's query in are set
  aside, and the reference of a cross-table rule on the same connection is taken to be of the same engine.
\<close>

theorem every_placeholder_bound:
  assumes "Compile inp = Inr q" "\<not> user_query inp"
    and "\<And>reference. in_Reference inp = Some reference \<Longrightarrow> ReferenceSharesConnection (in_Target inp) reference \<Longrightarrow>
      DialectFor (rt_Engine reference) = Some (in_Dialect inp)"
  shows "Unbound \<notin> set (seen (in_Dialect inp) (cq_SQL q) (cq_Args q)) \<and>
    mset (vals (seen (in_Dialect inp) (cq_SQL q) (cq_Args q))) = mset (cq_Args q)"
proof -
  have arm: "compile_arm inp = Inr q" by (rule Compile_arm [OF assms(1)])
  have shape: "binds_all (in_Dialect inp) q" if "row_plan inp = Some planned" for planned
    using row_shape_reads [OF row_plan_shape [OF arm that assms(2)]] by (auto simp: binds_all_def)
  have drift: "binds_all (in_Dialect inp) \<lparr>cq_SQL = [], cq_Args = [], cq_Kind = QueryMetadata, cq_Columns = []\<rparr>"
    by (simp add: binds_all_def seen_def)
  have "binds_all (in_Dialect inp) q"
  proof (cases "rc_Arm (in_Config inp)")
    case (UniqueC c)
    then show ?thesis using arm unique_binds by (auto simp: compile_arm_def compileUnique_def results)
  next
    case (UniqueCombinationC c)
    then show ?thesis using arm unique_binds by (auto simp: compile_arm_def compileUniqueCombination_def results Let_def)
  next
    case (CrossTableC c)
    then show ?thesis using arm cross_table_binds assms(3) by (auto simp: compile_arm_def)
  qed (use arm assms(2) shape drift in \<open>auto simp: compile_arm_def row_plan_def user_query_def compileRowCount_def
      compileRowCountChange_def results compileSchemaDrift_def total_rows_binds referential_binds freshness_binds
      group_binds aggregate_binds cel_binds standard_code_binds segment_binds\<close>)
  then show ?thesis by (simp add: binds_all_def)
qed

lemma every_placeholder_bound_witness:
  "Unbound \<notin> set (seen postgresDialect (cq_SQL example_query) (cq_Args example_query)) \<and>
   mset (vals (seen postgresDialect (cq_SQL example_query) (cq_Args example_query))) = mset (cq_Args example_query)"
  using every_placeholder_bound [OF example_compiles example_facts(2)] example_facts(3)
  by (simp add: example_input_def)

text \<open>
  C37. A quoted name is one name. Whatever characters a column or table name holds, closing quotes included,
  an engine reads its quoted form as exactly that name and goes on behind it, as long as no closing quote
  follows, and none does in a compiled statement.
\<close>

theorem quoted_name_is_one_token:
  assumes "rest = [] \<or> hd rest \<noteq> close_quote d"
  shows "scan d args k (QuoteIdentifier d name @ rest) = Name name # scan d args k rest"
  using unquote_quoted [OF assms, of name] by (simp add: QuoteIdentifier_def)

lemma quoted_name_is_one_token_witness:
  "scan mssqlDialect [] 0 (QuoteIdentifier mssqlDialect ''a]; DROP TABLE t --'' @ '' > 1'') =
     Name ''a]; DROP TABLE t --'' # lit '' > 1''"
  using quoted_name_is_one_token [of "'' > 1''" mssqlDialect "[]" 0 "''a]; DROP TABLE t --''"]
    scan_plain [of "'' > 1''" mssqlDialect "[]" 0 "[]"]
  by (simp add: close_quote_def special_def)

subsection \<open>Time variables\<close>

definition date_text :: "string \<Rightarrow> bool" where
  "date_text s \<longleftrightarrow> list_all (\<lambda>c. is_digit c \<or> c \<in> {CHR ''-'', CHR '':'', CHR '' ''}) s"

lemma date_text_simps [simp]:
  "date_text []" "date_text (c # s) \<longleftrightarrow> (is_digit c \<or> c \<in> {CHR ''-'', CHR '':'', CHR '' ''}) \<and> date_text s"
  "date_text (s @ t) \<longleftrightarrow> date_text s \<and> date_text t"
  by (auto simp: date_text_def)

lemma padded_text: "date_text (padded width i)"
proof -
  have "date_text (replicate n (CHR ''0''))" for n by (induction n) (auto simp: is_digit_def)
  moreover have "date_text (dec n)" for n using dec_digits [of n] by (auto simp: date_text_def list_all_iff)
  ultimately show ?thesis by (simp add: padded_def Let_def)
qed

lemma format_text: "date_text (format_date location when)" "date_text (format_timestamp location when)"
  by (simp_all add: format_date_def format_timestamp_def padded_text case_prod_unfold Let_def)

text \<open>
  A time variable puts nothing but a date into a statement. In every time zone, at every time and for
  every name and offset, what a variable is replaced by holds digits, dashes, colons and spaces only, so it
  cannot end the quotes it is spliced into.
\<close>

theorem time_variable_is_inert:
  assumes "ResolveTimeVariable token vars = Inr v"
  shows "date_text v"
  using assms
  by (auto simp: ResolveTimeVariable_def renderTimeVariable_def Let_def format_text
      split: option.splits list.splits if_splits sum.splits prod.splits)

lemma time_variable_is_inert_witness:
  "ResolveTimeVariable ''${yesterday}'' \<lparr>tv_At = 63000000000 * second, tv_Location = None\<rparr> = Inr ''1997-05-22'' \<and>
   date_text ''1997-05-22''"
proof -
  have r: "ResolveTimeVariable ''${yesterday}'' \<lparr>tv_At = 63000000000 * second, tv_Location = None\<rparr> = Inr ''1997-05-22''"
    by code_simp
  show ?thesis using time_variable_is_inert [OF r] r by blast
qed

end
