(* ===== verification/Quality_Target.thy ===== *)
theory Quality_Target
  imports Quality_Compile Meta_GUID
begin

text \<open>
  The target of a rule, \<open>backend/component/dataquality/target.go\<close> and \<open>support.go\<close>: the registry row, the
  instance and the database a GUID names, read into the columns and the key the compilers use. The
  metadata store is a record of its three look-ups, each of which may fail.
\<close>

subsection \<open>The store\<close>

record registry_column =
  rc_Name :: string
  rc_Type :: string
  rc_Nullable :: bool

record registry_index =
  ix_Primary :: bool
  ix_Expressions :: "string list"

text \<open>\<open>None\<close> in a list is a nil pointer; a message without one of the four metadata is \<open>NoMetadata\<close>.\<close>

datatype StoredMetadata =
    TableMetadata "registry_column option list" "registry_index option list"
  | ExternalTableMetadata "registry_column option list"
  | ViewMetadata "registry_column option list"
  | MaterializedViewMetadata "registry_column option list"
  | NoMetadata

record instance_row =
  ins_Deleted :: bool
  ins_Engine :: "dq_engine option"

text \<open>\<open>Inl\<close> is a failure of the store; a database row is whether it was deleted.\<close>

record registry =
  GetMetaRegistry :: "string \<Rightarrow> MetaType \<Rightarrow> string + StoredMetadata option"
  GetInstance :: "string \<Rightarrow> string + instance_row option"
  GetDatabase :: "string \<Rightarrow> string \<Rightarrow> string + bool option"

abbreviation UNSPECIFIED_META :: MetaType where
  "UNSPECIFIED_META \<equiv> OTHER_META 0"

subsection \<open>Columns and key\<close>

definition table_columns :: "StoredMetadata \<Rightarrow> registry_column option list" where
  "table_columns metadata = (case metadata of TableMetadata columns _ \<Rightarrow> columns | _ \<Rightarrow> [])"

definition stored_columns :: "StoredMetadata \<Rightarrow> MetaType \<Rightarrow> compile_error + registry_column option list" where
  "stored_columns metadata metaType =
     (case metaType of
        TABLE \<Rightarrow> Inr (table_columns metadata)
      | EXTERNAL_TABLE \<Rightarrow> Inr (case metadata of ExternalTableMetadata columns \<Rightarrow> columns | _ \<Rightarrow> [])
      | VIEW \<Rightarrow> Inr (case metadata of ViewMetadata columns \<Rightarrow> columns | _ \<Rightarrow> [])
      | MATERIALIZED_VIEW \<Rightarrow> Inr (case metadata of MaterializedViewMetadata columns \<Rightarrow> columns | _ \<Rightarrow> [])
      | OTHER_META _ \<Rightarrow> Inl (Invalid ''not a table or view''))"

definition metadataColumns :: "StoredMetadata \<Rightarrow> MetaType \<Rightarrow> dq_engine \<Rightarrow> compile_error + ColumnInfo list" where
  "metadataColumns metadata metaType engine =
     map_sum id (\<lambda>stored. map (\<lambda>column. \<lparr>ci_Name = rc_Name column, ci_Type = rc_Type column,
         ci_Kind = classifyColumnTypeForEngine engine (rc_Type column), ci_Nullable = rc_Nullable column\<rparr>)
       (List.map_filter id stored))
       (stored_columns metadata metaType)"

fun cutSuffix :: "unicode \<Rightarrow> string list \<Rightarrow> string \<Rightarrow> string" where
  "cutSuffix uni [] name = name"
| "cutSuffix uni (suffix # suffixes) name =
     (let front = length name - length suffix in
      if length suffix \<le> length name \<and> EqualFold (drop front name) suffix
      then GoTrimSpace uni (take front name) else cutSuffix uni suffixes name)"

definition indexColumnName :: "unicode \<Rightarrow> string \<Rightarrow> string option" where
  "indexColumnName uni expression =
     (let name = cutSuffix uni ['' desc'', '' asc''] (GoTrimSpace uni expression);
          inner = butlast (tl name);
          quoted = (\<lambda>left right. 2 \<le> length name \<and> hd name = left \<and> List.last name = right)
      in if quoted (CHR 0x22) (CHR 0x22) then Some (ReplaceAll inner [CHR 0x22, CHR 0x22] [CHR 0x22])
         else if quoted (CHR 0x60) (CHR 0x60) then Some (ReplaceAll inner [CHR 0x60, CHR 0x60] [CHR 0x60])
         else if quoted (CHR ''['') (CHR '']'') then Some (ReplaceAll inner '']]'' '']'')
         else if name = [] \<or> list_ex (\<lambda>ch. ch \<in> {CHR '' '', CHR 0x09, CHR ''('', CHR '')'', CHR 0x22, CHR 0x27,
             CHR 0x60, CHR ''['', CHR '']''}) name then None
         else Some name)"

definition index_keys :: "unicode \<Rightarrow> ColumnInfo list \<Rightarrow> registry_index \<Rightarrow> string list" where
  "index_keys uni columns index =
     filter (\<lambda>name. name \<in> ci_Name ` set columns) (List.map_filter (indexColumnName uni) (ix_Expressions index))"

definition primaryKeyColumns :: "unicode \<Rightarrow> StoredMetadata \<Rightarrow> MetaType \<Rightarrow> ColumnInfo list \<Rightarrow> string list" where
  "primaryKeyColumns uni metadata metaType columns =
     (case (metaType, metadata) of
        (TABLE, TableMetadata _ indexes) \<Rightarrow>
          (case find ix_Primary (List.map_filter id indexes) of
             None \<Rightarrow> []
           | Some index \<Rightarrow> index_keys uni columns index)
      | _ \<Rightarrow> [])"

subsection \<open>Resolution\<close>

definition store_result :: "string + 'a \<Rightarrow> compile_error + 'a" where
  "store_result r = map_sum Internal id r"

definition ResolveTarget :: "unicode \<Rightarrow> registry \<Rightarrow> string \<Rightarrow> MetaType \<Rightarrow> compile_error + ResolvedTarget" where
  "ResolveTarget uni s guid metaType =
     (if guid = [] then Inl (Invalid ''target GUID required'')
      else if metaType = UNSPECIFIED_META then Inl (Invalid ''object type required'')
      else bind_result (store_result (GetMetaRegistry s guid metaType)) (\<lambda>resource.
        case resource of
          None \<Rightarrow> Inl (NotFound guid)
        | Some metadata \<Rightarrow>
            let segments = SplitMetaGUID guid in
            if length segments < 3 then Inl (NotFound guid)
            else
              let instanceID = segments ! 0; databaseName = segments ! 1; objectName = List.last segments;
                  schemaName = (if length segments = 4 then segments ! 2 else [])
              in bind_result (store_result (GetInstance s instanceID)) (\<lambda>row.
                case row of
                  None \<Rightarrow> Inl (NotFound instanceID)
                | Some inst \<Rightarrow>
                    if ins_Deleted inst then Inl (NotFound instanceID)
                    else case ins_Engine inst of
                      None \<Rightarrow> Inl (NotFound instanceID)
                    | Some engine \<Rightarrow>
                        bind_result (store_result (GetDatabase s instanceID databaseName)) (\<lambda>database.
                          if database \<noteq> Some False then Inl (NotFound databaseName)
                          else bind_result (metadataColumns metadata metaType engine) (\<lambda>columns.
                            Inr \<lparr>rt_GUID = guid, rt_MetaType = metaType, rt_Engine = engine,
                              rt_Instance = instanceID, rt_Database = databaseName, rt_Schema = schemaName,
                              rt_Table = objectName, rt_Columns = columns,
                              rt_KeyColumns = primaryKeyColumns uni metadata metaType columns\<rparr>)))))"

subsection \<open>What a rule may watch\<close>

definition EngineRefusals :: "QualityRuleType \<Rightarrow> dq_engine list" where
  "EngineRefusals ruleType = (if ruleType = REGEX then [Mssql] else [])"

definition Supported :: "dq_engine \<Rightarrow> QualityRuleType \<Rightarrow> bool" where
  "Supported engine ruleType \<longleftrightarrow>
     DialectFor engine \<noteq> None \<and> ruleTypeSpecFor ruleType \<noteq> None \<and> engine \<notin> set (EngineRefusals ruleType)"

definition RequireTarget :: "ResolvedTarget \<Rightarrow> QualityRuleType \<Rightarrow> compile_error + unit" where
  "RequireTarget target ruleType =
     (if \<not> RuleTypeForTarget (rt_MetaType target) ruleType then Inl (Invalid ''rule type cannot watch the target'')
      else if \<not> Supported (rt_Engine target) ruleType then Inl (Invalid ''unsupported on the engine'')
      else Inr ())"

definition relatedTargetGUID :: "ResolvedTarget \<Rightarrow> string \<Rightarrow> string \<Rightarrow> string" where
  "relatedTargetGUID target schema table = BuildMetaGUID [rt_Instance target, rt_Database target, schema, table]"

text \<open>The first kind of relation the registry knows under the GUID; only \<open>NotFound\<close> tries the next one.\<close>

fun resolveFirst ::
    "unicode \<Rightarrow> registry \<Rightarrow> string \<Rightarrow> MetaType list \<Rightarrow> compile_error \<Rightarrow> compile_error + ResolvedTarget" where
  "resolveFirst uni s guid [] lastErr = Inl lastErr"
| "resolveFirst uni s guid (metaType # metaTypes) lastErr =
     (case ResolveTarget uni s guid metaType of
        Inr target \<Rightarrow> Inr target
      | Inl (NotFound what) \<Rightarrow> resolveFirst uni s guid metaTypes (NotFound what)
      | Inl e \<Rightarrow> Inl e)"

definition resolveRelatedRelation :: "unicode \<Rightarrow> registry \<Rightarrow> string \<Rightarrow> compile_error + ResolvedTarget" where
  "resolveRelatedRelation uni s guid =
     resolveFirst uni s guid [TABLE, EXTERNAL_TABLE, VIEW, MATERIALIZED_VIEW] (NotFound guid)"

subsection \<open>Laws\<close>

lemma primary_keys_are_columns: "set (primaryKeyColumns uni metadata metaType columns) \<subseteq> ci_Name ` set columns"
  by (auto simp: primaryKeyColumns_def index_keys_def split: MetaType.splits StoredMetadata.splits option.splits)

lemma metadataColumns_kinds: "metadataColumns metadata metaType engine = Inr columns \<Longrightarrow>
    list_all (\<lambda>c. ci_Kind c = classifyColumnTypeForEngine engine (ci_Type c)) columns"
  by (cases "stored_columns metadata metaType") (auto simp: metadataColumns_def list_all_iff)

text \<open>What a successful resolution says: the parts of the GUID are the parts of the target.\<close>

lemma ResolveTarget_Inr:
  assumes "ResolveTarget uni s guid metaType = Inr target"
  shows "rt_GUID target = guid" "rt_MetaType target = metaType"
    "SplitMetaGUID guid ! 0 = rt_Instance target" "SplitMetaGUID guid ! 1 = rt_Database target"
    "List.last (SplitMetaGUID guid) = rt_Table target"
    "length (SplitMetaGUID guid) = 4 \<Longrightarrow> SplitMetaGUID guid ! 2 = rt_Schema target"
    "set (rt_KeyColumns target) \<subseteq> ci_Name ` set (rt_Columns target)"
    "list_all (\<lambda>c. ci_Kind c = classifyColumnTypeForEngine (rt_Engine target) (ci_Type c)) (rt_Columns target)"
  using assms metadataColumns_kinds
  by (auto dest!: subsetD [OF primary_keys_are_columns] simp: ResolveTarget_def bind_result_def store_result_def Let_def
      split: if_splits sum.splits option.splits)

lemma resolveFirst_Inr: "resolveFirst uni s guid metaTypes e = Inr target \<Longrightarrow>
    \<exists>metaType\<in>set metaTypes. ResolveTarget uni s guid metaType = Inr target"
  by (induction uni s guid metaTypes e rule: resolveFirst.induct)
    (auto split: sum.splits compile_error.splits)

text \<open>A relation looked up by its name in a target's own database is that relation.\<close>

lemma related_target:
  assumes "resolveRelatedRelation uni s (relatedTargetGUID target schema table) = Inr related"
  shows "rt_Instance related = rt_Instance target" "rt_Database related = rt_Database target"
    "rt_Schema related = schema" "rt_Table related = table"
proof -
  obtain metaType where r: "ResolveTarget uni s (relatedTargetGUID target schema table) metaType = Inr related"
    using assms resolveFirst_Inr unfolding resolveRelatedRelation_def by blast
  have parts: "SplitMetaGUID (relatedTargetGUID target schema table) = [rt_Instance target, rt_Database target, schema, table]"
    by (simp add: relatedTargetGUID_def SplitMetaGUID_Build)
  show "rt_Instance related = rt_Instance target" "rt_Database related = rt_Database target"
    "rt_Schema related = schema" "rt_Table related = table"
    using ResolveTarget_Inr(3-6) [OF r, unfolded parts] by simp_all
qed

end
