(* ===== verification/Quality_Validate.thy ===== *)
theory Quality_Validate
  imports Quality_Target
begin

text \<open>
  The save path of a rule, \<open>backend/component/dataquality/validate.go\<close> with the validators of
  \<open>accepted_values.go\<close>, \<open>standard_code.go\<close> and \<open>segment_check.go\<close>: one function checks the configuration
  of each rule type, \<open>ValidateConfig\<close> composes them, and \<open>ValidateRule\<close> is the whole pipeline from a GUID to a
  compiled rule. A validator returns its error or nothing.
\<close>

subsection \<open>What the save path asks of other packages\<close>

text \<open>
  \<open>pk_SQL\<close> and \<open>pk_Derived\<close> are the parsers of \<open>Quality_Compile\<close>, \<open>pk_Regexp\<close> is whether
  \<open>regexp.Compile\<close> accepts a pattern, \<open>pk_CEL\<close> what the CEL library says of a trimmed expression over columns.
\<close>

record packages =
  pk_Unicode :: unicode
  pk_SQL :: "dq_engine \<Rightarrow> string \<Rightarrow> compile_error option"
  pk_Derived :: "string \<Rightarrow> compile_error option"
  pk_Regexp :: "string \<Rightarrow> bool"
  pk_CEL :: "ColumnInfo list \<Rightarrow> string \<Rightarrow> compile_error option"

type_synonym check = "compile_error + unit"

definition done_if :: "'c option \<Rightarrow> ('c \<Rightarrow> compile_error) \<Rightarrow> check" where
  "done_if c err = check_result c err (Inr ())"

definition count_check :: "rule_config \<Rightarrow> 'a count_bounds_scheme \<Rightarrow> check" where
  "count_check config c =
     done_if (validateCountThresholds (verdict_config config) (FailThreshold c) (WarnThreshold c)) BadThreshold"

subsection \<open>The parts every type shares\<close>

definition validateFilter :: "packages \<Rightarrow> ResolvedTarget \<Rightarrow> QualityFilter option \<Rightarrow> check" where
  "validateFilter pk target qf =
     bind_result (ParseFilter (pk_Unicode pk) qf) (\<lambda>parsed.
       if parsed = [] then Inr ()
       else bind_result (map_sum BadVariable id (ResolveFilterVariables (pk_Unicode pk) parsed referenceTimeVariables))
         (\<lambda>resolved.
           case DialectFor (rt_Engine target) of
             None \<Rightarrow> Inl (Invalid ''no dialect'')
           | Some d \<Rightarrow> map_sum id (\<lambda>_. ()) (CompileFilter (pk_Unicode pk) d target resolved)))"

definition opt_text :: "string option \<Rightarrow> string" where
  "opt_text t = (case t of None \<Rightarrow> [] | Some s \<Rightarrow> s)"

definition ruleConfigTextFields :: "rule_config \<Rightarrow> string list" where
  "ruleConfigTextFields config =
     (case rc_Arm config of
        NullPercentC c \<Rightarrow> np_NullValues c
      | AcceptedValuesC c \<Rightarrow>
          av_Values c @ [av_Field c, case av_Query c of None \<Rightarrow> [] | Some q \<Rightarrow> avq_ValueColumn q]
      | RangeC c \<Rightarrow> [opt_text (rg_Min c), opt_text (rg_Max c)]
      | RegexC c \<Rightarrow> [rx_Pattern c]
      | CelExpressionC c \<Rightarrow> [ce_Expression c]
      | SchemaDriftC c \<Rightarrow>
          concat (map (\<lambda>column. case column of None \<Rightarrow> [[], []] | Some s \<Rightarrow> [sd_Name s, sd_Type s]) (sd_ExpectedColumns c))
      | _ \<Rightarrow> [])"

definition rejectUnexpectedTimeVariables :: "rule_config \<Rightarrow> check" where
  "rejectUnexpectedTimeVariables config =
     (if list_ex ContainsTimeVariable (ruleConfigTextFields config) then Inl (Invalid ''time variable'') else Inr ())"

subsection \<open>One validator per rule type\<close>

definition validateNullPercentConfig :: "packages \<Rightarrow> ResolvedTarget \<Rightarrow> NullPercentRule \<Rightarrow> check" where
  "validateNullPercentConfig pk target c =
     bind_result (column_result (requireNullTestColumn target (np_Column c))) (\<lambda>column.
     bind_result (if np_NullValues c = [] then Inr column
       else column_result (requireValueComparisonColumn target (ci_Name column))) (\<lambda>_.
     bind_result (nullPercentValues (pk_Unicode pk) column (np_NullValues c)) (\<lambda>_.
       done_if (validateNullPercentBounds (NullPercentConfig.truncate c)) BadThreshold)))"

definition validateUniqueConfig :: "ResolvedTarget \<Rightarrow> rule_config \<Rightarrow> UniqueConfig \<Rightarrow> check" where
  "validateUniqueConfig target config c =
     bind_result (column_result (requireGroupingColumn target (uq_Column c))) (\<lambda>column.
     bind_result (if uq_CountNulls c then Inr column
       else column_result (requireNullTestColumn target (uq_Column c))) (\<lambda>_.
       count_check config c))"

fun combinationLoop :: "ResolvedTarget \<Rightarrow> bool \<Rightarrow> string list \<Rightarrow> string list \<Rightarrow> check" where
  "combinationLoop target countNulls [] seen_names = Inr ()"
| "combinationLoop target countNulls (name # names) seen_names =
     bind_result (column_result (requireGroupingColumn target name)) (\<lambda>column.
       if ci_Name column \<in> set seen_names then Inl (Invalid ''column listed twice'')
       else bind_result (if countNulls then Inr column
           else column_result (requireNullTestColumn target (ci_Name column))) (\<lambda>_.
         combinationLoop target countNulls names (seen_names @ [ci_Name column])))"

definition validateUniqueCombinationConfig ::
    "ResolvedTarget \<Rightarrow> rule_config \<Rightarrow> UniqueCombinationConfig \<Rightarrow> check" where
  "validateUniqueCombinationConfig target config c =
     (if uc_AllColumns c \<and> uc_Columns c \<noteq> [] then Inl (Invalid ''all columns and a list'')
      else
        let names = (if uc_AllColumns c then ColumnNames target else uc_Columns c) in
        if names = [] then Inl (Invalid ''columns required'')
        else if compileMaxUniqueColumns < length names then Inl (Invalid ''too many columns'')
        else bind_result (combinationLoop target (uc_CountNulls c) names []) (\<lambda>_. count_check config c))"

definition validateAcceptedValuesSource ::
    "packages \<Rightarrow> ResolvedTarget \<Rightarrow> AcceptedValuesConfig \<Rightarrow> acceptedValuesSource \<Rightarrow> ColumnInfo \<Rightarrow> check" where
  "validateAcceptedValuesSource pk target c source column =
     (case source of
        acceptedValuesList \<Rightarrow>
          if compileMaxAcceptedValues < length (av_Values c) then Inl (Invalid ''too many values'')
          else map_sum id (\<lambda>_. ()) (collect_results (convertFilterValue (pk_Unicode pk) column) (av_Values c))
      | acceptedValuesField \<Rightarrow> map_sum id (\<lambda>_. ()) (acceptedValuesFieldColumn (pk_Unicode pk) target c column)
      | acceptedValuesQuery \<Rightarrow>
          done_if (validateAcceptedValuesQuery (pk_Unicode pk) (pk_SQL pk) (pk_Derived pk) (rt_Engine target) (av_Query c)) id)"

definition validateAcceptedValuesConfig ::
    "packages \<Rightarrow> ResolvedTarget \<Rightarrow> rule_config \<Rightarrow> AcceptedValuesConfig \<Rightarrow> check" where
  "validateAcceptedValuesConfig pk target config c =
     bind_result (acceptedValuesSourceOf (pk_Unicode pk) c) (\<lambda>source.
     bind_result (acceptedValuesColumn target c source) (\<lambda>column.
     bind_result (validateAcceptedValuesSource pk target c source column) (\<lambda>_. count_check config c)))"

definition validateComparableColumn :: "ResolvedTarget \<Rightarrow> string \<Rightarrow> column_error + ColumnInfo" where
  "validateComparableColumn target name =
     (case requireColumn target name of
        Inl e \<Rightarrow> Inl e
      | Inr column \<Rightarrow>
          if ci_Kind column \<noteq> KindNumeric \<and> ci_Kind column \<noteq> KindTemporal then Inl (NotOrdered (ci_Name column))
          else Inr column)"

definition validateTemporalColumn :: "ResolvedTarget \<Rightarrow> string \<Rightarrow> column_error + unit" where
  "validateTemporalColumn target name =
     (case requireColumn target name of
        Inl e \<Rightarrow> Inl e
      | Inr column \<Rightarrow> if ci_Kind column \<noteq> KindTemporal then Inl (NotTemporal (ci_Name column)) else Inr ())"

definition validateRangeBound :: "packages \<Rightarrow> ColumnInfo \<Rightarrow> string \<Rightarrow> check" where
  "validateRangeBound pk column v =
     (if GoTrimSpace (pk_Unicode pk) v = [] then Inl (Invalid ''empty range bound'')
      else if ci_Kind column = KindNumeric then map_sum id (\<lambda>_. ()) (convertFilterValue (pk_Unicode pk) column v)
      else Inr ())"

text \<open>
  The float a numeric bound is compared as; \<open>ParseFloat\<close> answers 0 beside a syntax error, which a
  checked bound never is.
\<close>

definition range_float :: "packages \<Rightarrow> ColumnInfo \<Rightarrow> string option \<Rightarrow> float64 option" where
  "range_float pk column bound =
     (case bound of
        None \<Rightarrow> None
      | Some v \<Rightarrow>
          if ci_Kind column = KindNumeric
          then Some (case ParseFloat (GoTrimSpace (pk_Unicode pk) v) of None \<Rightarrow> Fin 0 | Some f \<Rightarrow> f)
          else None)"

definition opt_bound :: "packages \<Rightarrow> ColumnInfo \<Rightarrow> string option \<Rightarrow> check" where
  "opt_bound pk column bound = (case bound of None \<Rightarrow> Inr () | Some v \<Rightarrow> validateRangeBound pk column v)"

definition validateRangeConfig :: "packages \<Rightarrow> ResolvedTarget \<Rightarrow> rule_config \<Rightarrow> RangeConfig \<Rightarrow> check" where
  "validateRangeConfig pk target config c =
     bind_result (column_result (validateComparableColumn target (rg_Column c))) (\<lambda>column.
       if rg_Min c = None \<and> rg_Max c = None then Inl (Invalid ''range bound required'')
       else bind_result (opt_bound pk column (rg_Min c)) (\<lambda>_.
       bind_result (opt_bound pk column (rg_Max c)) (\<lambda>_.
         if f_opt_less (range_float pk column (rg_Max c)) (range_float pk column (rg_Min c))
         then Inl (Invalid ''range bounds crossed'')
         else count_check config c)))"

definition validateRegexColumn :: "ResolvedTarget \<Rightarrow> string \<Rightarrow> check" where
  "validateRegexColumn target name = map_sum BadColumn (\<lambda>_. ()) (requireRegexColumn target name)"

definition validateLengthColumn :: "ResolvedTarget \<Rightarrow> string \<Rightarrow> check" where
  "validateLengthColumn target name = map_sum BadColumn (\<lambda>_. ()) (requireLengthColumn target name)"

definition validateRegexConfig :: "packages \<Rightarrow> ResolvedTarget \<Rightarrow> RegexConfig \<Rightarrow> check" where
  "validateRegexConfig pk target c =
     bind_result (validateRegexColumn target (rx_Column c)) (\<lambda>_.
       let pattern = GoTrimSpace (pk_Unicode pk) (rx_Pattern c) in
       if pattern = [] then Inl (Invalid ''pattern required'')
       else if \<not> pk_Regexp pk pattern then Inl (Invalid ''pattern does not compile'')
       else Inr ())"

definition validateStringLengthConfig :: "ResolvedTarget \<Rightarrow> rule_config \<Rightarrow> StringLengthConfig \<Rightarrow> check" where
  "validateStringLengthConfig target config c =
     bind_result (validateLengthColumn target (sl_Column c)) (\<lambda>_.
       if sl_MinLen c = None \<and> sl_MaxLen c = None then Inl (Invalid ''length bound required'')
       else if opt_negative (sl_MinLen c) then Inl (Invalid ''negative length'')
       else if opt_negative (sl_MaxLen c) then Inl (Invalid ''negative length'')
       else if opt_less (sl_MaxLen c) (sl_MinLen c) then Inl (Invalid ''length bounds crossed'')
       else count_check config c)"

definition parentTableName :: "unicode \<Rightarrow> ResolvedTarget \<Rightarrow> string \<Rightarrow> compile_error + (string \<times> string)" where
  "parentTableName uni target spec = relatedTableName uni target spec"

definition validateReferentialIntegrityConfig ::
    "packages \<Rightarrow> ResolvedTarget \<Rightarrow> rule_config \<Rightarrow> ReferentialIntegrityConfig \<Rightarrow> check" where
  "validateReferentialIntegrityConfig pk target config c =
     bind_result (column_result (requireColumn target (ri_ChildColumn c))) (\<lambda>_.
     bind_result (parentTableName (pk_Unicode pk) target (ri_ParentTable c)) (\<lambda>_.
       if GoTrimSpace (pk_Unicode pk) (ri_ParentColumn c) = [] then Inl (Invalid ''parent column required'')
       else count_check config c))"

definition validateComparisonOperator :: "QualityComparisonOperator \<Rightarrow> check" where
  "validateComparisonOperator op =
     (case op of
        CMP_UNSPECIFIED \<Rightarrow> Inl (Invalid ''comparison operator required'')
      | OTHER_CMP _ \<Rightarrow> Inl (Invalid ''unknown comparison operator'')
      | _ \<Rightarrow> Inr ())"

definition validateCrossColumnConfig :: "ResolvedTarget \<Rightarrow> rule_config \<Rightarrow> CrossColumnConfig \<Rightarrow> check" where
  "validateCrossColumnConfig target config c =
     bind_result (column_result (validateComparableColumn target (cc_LeftColumn c))) (\<lambda>left.
     bind_result (column_result (validateComparableColumn target (cc_RightColumn c))) (\<lambda>right.
       if ci_Kind left \<noteq> ci_Kind right then Inl (Invalid ''incomparable columns'')
       else bind_result (validateComparisonOperator (cc_Op c)) (\<lambda>_.
         case cc_Tolerance c of
           None \<Rightarrow> count_check config c
         | Some t \<Rightarrow>
             if not_finite t then Inl (BadThreshold NotFinite)
             else if f_less t (Fin 0) then Inl (Invalid ''negative tolerance'')
             else if ci_Kind left \<noteq> KindNumeric then Inl (Invalid ''tolerance needs numbers'')
             else count_check config c)))"

definition validateFreshnessConfig :: "ResolvedTarget \<Rightarrow> FreshnessRule \<Rightarrow> check" where
  "validateFreshnessConfig target c =
     bind_result (column_result (validateTemporalColumn target (fr_TimestampColumn c))) (\<lambda>_.
       done_if (validateFreshnessBounds (FreshnessConfig.truncate c)) BadThreshold)"

definition validateCustomSQLConfig :: "packages \<Rightarrow> ResolvedTarget \<Rightarrow> rule_config \<Rightarrow> CustomSqlConfig \<Rightarrow> check" where
  "validateCustomSQLConfig pk target config c =
     check_result (ValidateCustomSQL (pk_Unicode pk) (pk_SQL pk) (rt_Engine target) (cs_Sql c)) id (count_check config c)"

definition isMoneyType :: "string \<Rightarrow> bool" where
  "isMoneyType columnType \<longleftrightarrow> columnTypeBaseName columnType \<in> {''money'', ''smallmoney''}"

definition maxCELExpressionLength :: nat where "maxCELExpressionLength = 4 * 1024"

text \<open>The part of \<open>CompileCEL\<close> before the library.\<close>

definition CompileCEL :: "packages \<Rightarrow> ColumnInfo list \<Rightarrow> string \<Rightarrow> check" where
  "CompileCEL pk columns expression =
     (let trimmed = GoTrimSpace (pk_Unicode pk) expression in
      if trimmed = [] then Inl (Invalid ''expression required'')
      else if maxCELExpressionLength < length trimmed then Inl (Invalid ''expression too long'')
      else done_if (pk_CEL pk columns trimmed) id)"

definition validateCELExpressionConfig ::
    "packages \<Rightarrow> ResolvedTarget \<Rightarrow> rule_config \<Rightarrow> CelExpressionConfig \<Rightarrow> check" where
  "validateCELExpressionConfig pk target config c =
     bind_result (celColumns (pk_Unicode pk) target (ce_Columns c)) (\<lambda>columns.
       if list_ex (\<lambda>column. isMoneyType (ci_Type column)) columns then Inl (Invalid ''money column'')
       else bind_result (celSampleRows (ce_SampleRows c)) (\<lambda>_.
       bind_result (count_check config c) (\<lambda>_. CompileCEL pk columns (ce_Expression c))))"

fun driftColumns :: "unicode \<Rightarrow> SchemaDriftColumn option list \<Rightarrow> string list \<Rightarrow> check" where
  "driftColumns uni [] seen_names = Inr ()"
| "driftColumns uni (None # columns) seen_names = Inl (Invalid ''snapshot column required'')"
| "driftColumns uni (Some column # columns) seen_names =
     (let name = GoTrimSpace uni (sd_Name column) in
      if name = [] then Inl (Invalid ''name required'')
      else if name \<in> set seen_names then Inl (Invalid ''named twice'')
      else if GoTrimSpace uni (sd_Type column) = [] then Inl (Invalid ''type required'')
      else driftColumns uni columns (seen_names @ [name]))"

definition validateSchemaDriftConfig :: "packages \<Rightarrow> rule_config \<Rightarrow> SchemaDriftConfig \<Rightarrow> check" where
  "validateSchemaDriftConfig pk config c =
     (if sd_ExpectedColumns c = [] then Inl (Invalid ''expected column required'')
      else bind_result (driftColumns (pk_Unicode pk) (sd_ExpectedColumns c) []) (\<lambda>_. count_check config c))"

definition validateGroupCheckConfig :: "packages \<Rightarrow> ResolvedTarget \<Rightarrow> rule_config \<Rightarrow> GroupCheckConfig \<Rightarrow> check" where
  "validateGroupCheckConfig pk target config c =
     bind_result (groupingColumns (pk_Unicode pk) target (gc_Columns c) maxGroupCheckColumns) (\<lambda>_.
       check_result (groupCheckBounds c) BadThreshold (count_check config c))"

definition aggregateFunctionSupported :: "dq_engine \<Rightarrow> QualityAggregateFunction \<Rightarrow> bool" where
  "aggregateFunctionSupported engine function =
     (case function of
        AGG_COUNT \<Rightarrow> False
      | AGG_PERCENTILE \<Rightarrow> engine \<in> {Postgres, Mssql}
      | AGG_UNSPECIFIED \<Rightarrow> False
      | OTHER_AGG _ \<Rightarrow> False
      | _ \<Rightarrow> True)"

definition validateAggregateColumnKind :: "ColumnInfo \<Rightarrow> QualityAggregateFunction \<Rightarrow> check" where
  "validateAggregateColumnKind column function =
     (case function of
        AGG_COUNT \<Rightarrow> Inr ()
      | AGG_UNSPECIFIED \<Rightarrow> Inl (Invalid ''aggregate function required'')
      | OTHER_AGG _ \<Rightarrow> Inl (Invalid ''unknown aggregate function'')
      | _ \<Rightarrow>
          if ci_Kind column \<noteq> KindNumeric then Inl (Invalid ''numeric column required'')
          else if isMoneyType (ci_Type column) \<and> function \<notin> {AGG_SUM, AGG_MIN, AGG_MAX}
          then Inl (Invalid ''not defined for money'')
          else Inr ())"

definition validateAggregateConfig :: "ResolvedTarget \<Rightarrow> AggregateRule \<Rightarrow> check" where
  "validateAggregateConfig target c =
     bind_result (column_result (requireColumn target (ag_Column c))) (\<lambda>column.
       let function = ag_Function c in
       if function = AGG_COUNT then Inl (Invalid ''use a row_count rule'')
       else if \<not> aggregateFunctionSupported (rt_Engine target) function then Inl (Invalid ''function unsupported'')
       else bind_result
         (if function = AGG_PERCENTILE then
            (case ag_Percentile c of
               None \<Rightarrow> Inl (Invalid ''percentile required'')
             | Some p \<Rightarrow>
                 if not_finite p \<or> f_less p (Fin 0) \<or> f_less (Fin 100) p then Inl (BadThreshold (OutOfRange p))
                 else Inr ())
          else if ag_Percentile c \<noteq> None then Inl (Invalid ''percentile unused'')
          else Inr ())
         (\<lambda>_. bind_result (validateAggregateColumnKind column function) (\<lambda>_.
           done_if (validateAggregateBounds (AggregateConfig.truncate c)) BadThreshold)))"

definition validateReferenceMetaType :: "MetaType \<Rightarrow> check" where
  "validateReferenceMetaType metaType =
     (case metaType of OTHER_META _ \<Rightarrow> Inl (Invalid ''not a relation'') | _ \<Rightarrow> Inr ())"

text \<open>The reference a rule names, if it names one.\<close>

definition named_reference :: "packages \<Rightarrow> CrossTableRule \<Rightarrow> compile_error + CrossTableReference" where
  "named_reference pk c =
     (case xt_Reference c of
        None \<Rightarrow> Inl (Invalid ''reference table required'')
      | Some reference \<Rightarrow>
          if GoTrimSpace (pk_Unicode pk) (xr_MetaGuid reference) = [] then Inl (Invalid ''reference table required'')
          else map_sum id (\<lambda>_. reference) (validateReferenceMetaType (xr_MetaType reference)))"

definition validateCrossTableConfig :: "packages \<Rightarrow> ResolvedTarget \<Rightarrow> rule_config \<Rightarrow> CrossTableRule \<Rightarrow> check" where
  "validateCrossTableConfig pk target config c =
     bind_result (named_reference pk c) (\<lambda>_.
     bind_result (ParseFilter (pk_Unicode pk) (xt_RightFilter c)) (\<lambda>_.
       if \<not> crossTableFunctionSupported (xt_LeftFunction c) then Inl (Invalid ''left function unsupported'')
       else if \<not> crossTableFunctionSupported (xt_RightFunction c) then Inl (Invalid ''right function unsupported'')
       else
         let leftColumn = GoTrimSpace (pk_Unicode pk) (xt_LeftColumn c);
             rightColumn = GoTrimSpace (pk_Unicode pk) (xt_RightColumn c)
         in bind_result
           (if xt_LeftFunction c = AGG_COUNT then
              if leftColumn \<noteq> [] then Inl (Invalid ''COUNT takes no column'') else Inr ()
            else bind_result (column_result (requireColumn target leftColumn)) (\<lambda>column.
              bind_result (validateAggregateColumnKind column (xt_LeftFunction c)) (\<lambda>_.
                if ci_Kind column \<noteq> KindNumeric then Inl (Invalid ''numeric column required'') else Inr ())))
           (\<lambda>_.
             if xt_RightFunction c = AGG_COUNT \<and> rightColumn \<noteq> [] then Inl (Invalid ''COUNT takes no column'')
             else if xt_RightFunction c \<noteq> AGG_COUNT \<and> rightColumn = [] then Inl (Invalid ''right column required'')
             else check_result (validateTolerance (Tolerance c)) BadThreshold
               (done_if (validateCountThresholds (verdict_config config) (ct_FailThreshold c) (ct_WarnThreshold c))
                  BadThreshold))))"

definition validateStandardCodeConfig :: "packages \<Rightarrow> ResolvedTarget \<Rightarrow> rule_config \<Rightarrow> StandardCodeConfig \<Rightarrow> check" where
  "validateStandardCodeConfig pk target config c =
     bind_result (column_result (requireTextColumn target (st_Column c))) (\<lambda>_.
       if st_Standard c = STANDARD_CODE_UNSPECIFIED then Inl (Invalid ''standard required'')
       else if st_Standard c = CUSTOM_CODE_TABLE \<and> GoTrimSpace (pk_Unicode pk) (st_CodeTable c) = []
       then Inl (Invalid ''code table required'')
       else if \<not> knownStandard (st_Standard c) then Inl (Invalid ''unsupported standard'')
       else bind_result (map_sum (\<lambda>_. Invalid ''sample rows'') id (standardCodeSampleRows (st_SampleRows c))) (\<lambda>_.
         count_check config c))"

definition validateSegmentCheckConfig :: "packages \<Rightarrow> ResolvedTarget \<Rightarrow> rule_config \<Rightarrow> SegmentCheckRule \<Rightarrow> check" where
  "validateSegmentCheckConfig pk target config c =
     bind_result (groupingColumns (pk_Unicode pk) target (sg_Columns c) maxSegmentColumns) (\<lambda>_.
     bind_result (SegmentCheckBounds c) (\<lambda>_.
       done_if (validateCountThresholds (verdict_config config) (sc_FailThreshold c) (sc_WarnThreshold c)) BadThreshold))"

subsection \<open>A configuration\<close>

text \<open>The validator of the type is the validator of the arm, because the two are compared first.\<close>

definition validate_arm :: "packages \<Rightarrow> ResolvedTarget \<Rightarrow> rule_config \<Rightarrow> check" where
  "validate_arm pk target config =
     (case rc_Arm config of
        EmptyC \<Rightarrow> Inl (Invalid ''empty config'')
      | RowCountC c \<Rightarrow> done_if (validateRowCountConfig (Some c)) BadThreshold
      | RowCountChangeC c \<Rightarrow> done_if (validateRowCountChangeConfig (Some c)) BadThreshold
      | NullPercentC c \<Rightarrow> validateNullPercentConfig pk target c
      | UniqueC c \<Rightarrow> validateUniqueConfig target config c
      | UniqueCombinationC c \<Rightarrow> validateUniqueCombinationConfig target config c
      | AcceptedValuesC c \<Rightarrow> validateAcceptedValuesConfig pk target config c
      | RangeC c \<Rightarrow> validateRangeConfig pk target config c
      | RegexC c \<Rightarrow> validateRegexConfig pk target c
      | StringLengthC c \<Rightarrow> validateStringLengthConfig target config c
      | ReferentialIntegrityC c \<Rightarrow> validateReferentialIntegrityConfig pk target config c
      | CrossColumnC c \<Rightarrow> validateCrossColumnConfig target config c
      | FreshnessC c \<Rightarrow> validateFreshnessConfig target c
      | CustomSqlC c \<Rightarrow> validateCustomSQLConfig pk target config c
      | CelExpressionC c \<Rightarrow> validateCELExpressionConfig pk target config c
      | SchemaDriftC c \<Rightarrow> validateSchemaDriftConfig pk config c
      | GroupCheckC c \<Rightarrow> validateGroupCheckConfig pk target config c
      | AggregateC c \<Rightarrow> validateAggregateConfig target c
      | CrossTableC c \<Rightarrow> validateCrossTableConfig pk target config c
      | StandardCodeC c \<Rightarrow> validateStandardCodeConfig pk target config c
      | SegmentCheckC c \<Rightarrow> validateSegmentCheckConfig pk target config c)"

definition ValidateConfig :: "packages \<Rightarrow> ResolvedTarget \<Rightarrow> QualityRuleType \<Rightarrow> rule_config option \<Rightarrow> check" where
  "ValidateConfig pk target ruleType stored =
     (case stored of
        None \<Rightarrow> Inl (BadThreshold ConfigMissing)
      | Some config \<Rightarrow>
          (case configArm config of
             None \<Rightarrow> Inl (Invalid ''empty config'')
           | Some arm \<Rightarrow>
               if arm \<noteq> ruleType then Inl (Invalid ''config of another type'')
               else check_result (validateOnEmpty (rc_OnEmpty config)) BadThreshold (
               check_result (validateThresholdMetric (rc_ThresholdMetric config)) BadThreshold (
               check_result (validatePercentSupport ruleType (rc_ThresholdMetric config)) BadThreshold (
               bind_result (validateFilter pk target (rc_Filter config)) (\<lambda>_.
               bind_result (rejectUnexpectedTimeVariables config) (\<lambda>_.
               check_result
                 (validateSampling (rt_MetaType target) (map_option SupportsTableSample (DialectFor (rt_Engine target)))
                    ruleType (rc_Sampling config)) BadSampling (
               if ruleTypeSpecFor ruleType = None then Inl (Invalid ''unknown rule type'')
               else validate_arm pk target config))))))))"

definition DefaultCheckTimeout :: int where "DefaultCheckTimeout = 60 * second"
definition MaxCheckTimeout :: int where "MaxCheckTimeout = 300 * second"

definition validateCheckTimeout :: "int \<Rightarrow> check" where
  "validateCheckTimeout seconds =
     (if seconds = 0 then Inr ()
      else if seconds < 0 \<or> MaxCheckTimeout < seconds * second then Inl (Invalid ''timeout'')
      else Inr ())"

definition CheckTimeout :: "rule_config \<Rightarrow> int" where
  "CheckTimeout config =
     (let seconds = rc_TimeoutSeconds config in
      if seconds \<le> 0 then DefaultCheckTimeout else min (seconds * second) MaxCheckTimeout)"

subsection \<open>The other relation of a rule\<close>

definition validateReferentialParent ::
    "packages \<Rightarrow> registry \<Rightarrow> ResolvedTarget \<Rightarrow> ReferentialIntegrityConfig \<Rightarrow> check" where
  "validateReferentialParent pk s target c =
     bind_result (column_result (requireComparisonColumn target (GoTrimSpace (pk_Unicode pk) (ri_ChildColumn c)))) (\<lambda>child.
     bind_result (parentTableName (pk_Unicode pk) target (ri_ParentTable c)) (\<lambda>(parentSchema, parentTable).
     bind_result (resolveRelatedRelation (pk_Unicode pk) s (relatedTargetGUID target parentSchema parentTable)) (\<lambda>parent.
       case rt_Column parent (GoTrimSpace (pk_Unicode pk) (ri_ParentColumn c)) of
         None \<Rightarrow> Inl (Invalid ''parent column missing'')
       | Some parentColumn \<Rightarrow>
           if ci_Kind parentColumn = KindUnknown then Inl (Invalid ''unclassified parent column'')
           else if \<not> cap_comparison (capabilitiesFor (rt_Engine target) parentColumn)
           then Inl (Invalid ''incomparable parent column'')
           else if \<not> comparableColumnTypes child parentColumn (rt_Engine target)
           then Inl (Invalid ''incomparable columns'')
           else Inr ())))"

definition resolveCrossTableReference ::
    "packages \<Rightarrow> registry \<Rightarrow> CrossTableRule \<Rightarrow> compile_error + ResolvedTarget" where
  "resolveCrossTableReference pk s c =
     bind_result (named_reference pk c) (\<lambda>reference.
       ResolveTarget (pk_Unicode pk) s (GoTrimSpace (pk_Unicode pk) (xr_MetaGuid reference)) (xr_MetaType reference))"

definition validateCrossTableReference ::
    "packages \<Rightarrow> ResolvedTarget \<Rightarrow> ResolvedTarget \<Rightarrow> CrossTableRule \<Rightarrow> check" where
  "validateCrossTableReference pk target reference c =
     bind_result
       (if xt_RightFunction c = AGG_COUNT then Inr ()
        else case rt_Column reference (GoTrimSpace (pk_Unicode pk) (xt_RightColumn c)) of
          None \<Rightarrow> Inl (Invalid ''right column missing'')
        | Some rightColumn \<Rightarrow>
            bind_result (validateAggregateColumnKind rightColumn (xt_RightFunction c)) (\<lambda>_.
              if ci_Kind rightColumn \<noteq> KindNumeric then Inl (Invalid ''numeric column required'') else Inr ()))
       (\<lambda>_.
         if xt_LeftFunction c = AGG_COUNT then Inr ()
         else case rt_Column target (GoTrimSpace (pk_Unicode pk) (xt_LeftColumn c)) of
           None \<Rightarrow> Inr ()
         | Some leftColumn \<Rightarrow>
             if ci_Kind leftColumn \<noteq> KindNumeric then Inl (Invalid ''numeric column required'') else Inr ())"

subsection \<open>The pipeline\<close>

record ValidatedReference =
  vf_Target :: ResolvedTarget
  vf_Separate :: bool
  vf_Compiled :: "CompiledQuery option"

record ValidatedRule =
  vr_Target :: ResolvedTarget
  vr_Filter :: Filter
  vr_Compiled :: CompiledQuery
  vr_Reference :: "ValidatedReference option"

definition effective_config :: "rule_config \<Rightarrow> QualityFilter option \<Rightarrow> rule_config" where
  "effective_config config filterProto =
     (case filterProto of None \<Rightarrow> config | Some qf \<Rightarrow> config\<lparr>rc_Filter := Some qf\<rparr>)"

definition rule_input ::
    "packages \<Rightarrow> Dialect \<Rightarrow> ResolvedTarget \<Rightarrow> QualityRuleType \<Rightarrow> rule_config \<Rightarrow> Filter \<Rightarrow> TimeVariables
     \<Rightarrow> ResolvedTarget option \<Rightarrow> CompileInput" where
  "rule_input pk d target ruleType config conds variables reference =
     \<lparr>in_Dialect = d, in_Target = target, in_Type = ruleType, in_Config = config, in_Filter = conds,
      in_ContractFilter = [], in_Variables = variables, in_Reference = reference, in_Unicode = pk_Unicode pk,
      in_SQL = pk_SQL pk, in_Derived = pk_Derived pk\<rparr>"

text \<open>The steps between the configuration and the compiler: the other relation, resolved and checked.\<close>

definition other_relation ::
    "packages \<Rightarrow> registry \<Rightarrow> ResolvedTarget \<Rightarrow> QualityRuleType \<Rightarrow> rule_config \<Rightarrow> compile_error + ResolvedTarget option" where
  "other_relation pk s target ruleType config =
     (case rc_Arm config of
        ReferentialIntegrityC c \<Rightarrow>
          map_sum id (\<lambda>_. None)
            (if ruleType = REFERENTIAL_INTEGRITY then validateReferentialParent pk s target c else Inr ())
      | CrossTableC c \<Rightarrow>
          if ruleType \<noteq> CROSS_TABLE then Inr None
          else bind_result (resolveCrossTableReference pk s c) (\<lambda>reference.
            map_sum id (\<lambda>_. Some reference) (validateCrossTableReference pk target reference c))
      | _ \<Rightarrow> Inr None)"

definition compile_reference :: "CompileInput \<Rightarrow> compile_error + ValidatedReference option" where
  "compile_reference inp =
     (case (in_Reference inp, rc_Arm (in_Config inp)) of
        (Some reference, CrossTableC c) \<Rightarrow>
          if ReferenceSharesConnection (in_Target inp) reference
          then Inr (Some \<lparr>vf_Target = reference, vf_Separate = False, vf_Compiled = None\<rparr>)
          else map_sum id (\<lambda>q. Some \<lparr>vf_Target = reference, vf_Separate = True, vf_Compiled = Some q\<rparr>)
            (CompileReference inp c)
      | _ \<Rightarrow> Inr None)"

definition ValidateRule ::
    "packages \<Rightarrow> registry \<Rightarrow> QualityRuleType \<Rightarrow> string \<Rightarrow> MetaType \<Rightarrow> rule_config option \<Rightarrow> QualityFilter option
     \<Rightarrow> QualityFilter option \<Rightarrow> TimeVariables \<Rightarrow> compile_error + ValidatedRule" where
  "ValidateRule pk s ruleType guid metaType stored filterProto contractFilterProto variables =
     (case stored of
        None \<Rightarrow> Inl (BadThreshold ConfigMissing)
      | Some config \<Rightarrow>
          bind_result (ParseFilter (pk_Unicode pk) contractFilterProto) (\<lambda>contractFilter.
          bind_result (ResolveTarget (pk_Unicode pk) s guid metaType) (\<lambda>target.
          bind_result (RequireTarget target ruleType) (\<lambda>_.
          let effective = effective_config config filterProto in
          bind_result (validateCheckTimeout (rc_TimeoutSeconds effective)) (\<lambda>_.
          bind_result (ParseFilter (pk_Unicode pk) (rc_Filter effective)) (\<lambda>conds.
          bind_result (ValidateConfig pk target ruleType (Some effective)) (\<lambda>_.
          bind_result (other_relation pk s target ruleType effective) (\<lambda>reference.
          case DialectFor (rt_Engine target) of
            None \<Rightarrow> Inl (Invalid ''no dialect'')
          | Some d \<Rightarrow>
              let inp = rule_input pk d target ruleType effective (mergeFilters conds contractFilter) variables reference in
              bind_result (Compile inp) (\<lambda>compiled.
              bind_result (compile_reference inp) (\<lambda>validated.
                Inr \<lparr>vr_Target = target, vr_Filter = conds, vr_Compiled = compiled, vr_Reference = validated\<rparr>))))))))))"

end
