(* ===== verification/Quality_Clock.thy ===== *)
theory Quality_Clock
  imports Quality_Compile_Laws
begin

text \<open>
  A rule at another time. A time variable renders to a date, which no numeric or boolean column takes, so
  whether a rule compiles does not depend on when it runs, and a statement without a query of the user
  is the same text at every time: only the values it binds move.
\<close>

subsection \<open>A date is no number\<close>

text \<open>What a rendering starts with: a sign perhaps, digits, and a dash.\<close>

definition dated :: "string \<Rightarrow> bool" where
  "dated s \<longleftrightarrow> date_text s \<and> \<not> is_space (List.last s) \<and>
     (\<exists>sign ds rest. s = sign @ ds @ CHR ''-'' # rest \<and> sign \<in> {[], ''-''} \<and> ds \<noteq> [] \<and> list_all is_digit ds)"

lemma padded_parts:
  obtains sign ds where "padded width i = sign @ ds" "sign \<in> {[], ''-''}" "ds \<noteq> []" "list_all is_digit ds"
proof
  let ?ds = "replicate (width - length (dec (nat \<bar>i\<bar>))) (CHR ''0'') @ dec (nat \<bar>i\<bar>)"
  show "padded width i = (if i < 0 then ''-'' else []) @ ?ds" by (simp add: padded_def Let_def)
  show "?ds \<noteq> []" "list_all is_digit ?ds"
    using dec_digits [of "nat \<bar>i\<bar>"] by (auto simp: list_all_iff is_digit_def)
qed auto

lemma padded_last: "padded width i \<noteq> [] \<and> \<not> is_space (List.last (padded width i))"
proof -
  obtain sign ds where p: "padded width i = sign @ ds" "ds \<noteq> []" "list_all is_digit ds" by (rule padded_parts)
  then have "is_digit (List.last ds)" by (simp add: list_all_iff)
  then show ?thesis using p by (auto simp: is_digit_def is_space_def)
qed

lemma dated_after: "dated s \<Longrightarrow> date_text t \<Longrightarrow> t \<noteq> [] \<Longrightarrow> \<not> is_space (List.last t) \<Longrightarrow> dated (s @ t)"
  unfolding dated_def
proof (elim conjE exE, intro conjI)
  fix sign ds rest
  assume "s = sign @ ds @ CHR ''-'' # rest" "sign \<in> {[], ''-''}" "ds \<noteq> []" "list_all is_digit ds"
  then show "\<exists>sign ds rest. s @ t = sign @ ds @ CHR ''-'' # rest \<and> sign \<in> {[], ''-''} \<and> ds \<noteq> [] \<and> list_all is_digit ds"
    by (intro exI [of _ sign] exI [of _ ds] exI [of _ "rest @ t"]) simp
qed simp_all

lemma format_dated: "dated (format_date location when)" "dated (format_timestamp location when)"
proof -
  obtain y m d where c: "civil (local_second location when div day_seconds) = (y, m, d)" by (metis prod_cases3)
  obtain sign ds where p: "padded 4 y = sign @ ds" "sign \<in> {[], ''-''}" "ds \<noteq> []" "list_all is_digit ds"
    by (rule padded_parts)
  have f: "format_date location when = sign @ ds @ CHR ''-'' # padded 2 m @ ''-'' @ padded 2 d"
    by (simp add: format_date_def c p)
  have "\<not> is_space (List.last (format_date location when))" using padded_last [of 2 d] by (simp add: f)
  then show d: "dated (format_date location when)"
    unfolding dated_def using format_text(1) f p by blast
  show "dated (format_timestamp location when)"
    unfolding format_timestamp_def Let_def
    by (rule dated_after [OF d]) (simp_all add: padded_text padded_last)
qed

lemma dated_trim:
  assumes "dated s"
  shows "GoTrimSpace uni s = s"
proof -
  have chars: "date_text s" and tail: "\<not> is_space (List.last s)" using assms by (simp_all add: dated_def)
  obtain sign ds rest where s: "s = sign @ ds @ CHR ''-'' # rest" "sign \<in> {[], ''-''}" "ds \<noteq> []" "list_all is_digit ds"
    using assms unfolding dated_def by blast
  have ne: "s \<noteq> []" using s by simp
  have "is_digit (hd ds)" using s by (cases ds) auto
  then have "\<not> is_space (hd s)" using s by (auto simp: is_space_def is_digit_def hd_append)
  then have "dropWhile is_space s = s" using ne by (cases s) auto
  moreover have "dropWhile is_space (rev s) = rev s" using tail ne
    by (cases "rev s") (auto simp: last_rev [symmetric] hd_rev)
  ultimately have "TrimSpace s = s" by (simp add: TrimSpace_def TrimLeft_def TrimRight_def)
  moreover have "ascii s" using chars by (auto simp: ascii_def date_text_def list_all_iff is_digit_def Let_def)
  ultimately show ?thesis by (simp add: GoTrimSpace_def)
qed

lemma mantissa_stops:
  "list_all is_digit ds \<Longrightarrow>
   \<exists>v' p' sd. mantissa 10 (ds @ CHR ''-'' # rest) v p dot seen_digit = (v', p', dot, sd, CHR ''-'' # rest)"
proof (induction ds arbitrary: v p seen_digit)
  case Nil
  show ?case by (simp add: is_digit_def)
next
  case (Cons c ds)
  then have "c \<noteq> CHR ''_''" "c \<noteq> CHR ''.''" by (auto simp: is_digit_def)
  with Cons show ?case by simp
qed

lemma dated_no_number:
  assumes "dated s"
  shows "ParseInt s = None" "ParseFloat s = None" "ParseBool s = None"
proof -
  obtain sign ds rest where s: "s = sign @ ds @ CHR ''-'' # rest" "sign \<in> {[], ''-''}" "ds \<noteq> []" "list_all is_digit ds"
    using assms unfolding dated_def by blast
  obtain c cs where ds: "ds = c # cs" using s(3) by (cases ds) auto
  have c: "is_digit c" "c \<noteq> CHR ''-''" "c \<noteq> CHR ''+''" using s(4) ds by (auto simp: is_digit_def)
  have dash: "\<not> is_digit (CHR ''-'')" by (simp add: is_digit_def)
  show "ParseInt s = None" using s(2) c dash by (auto simp: ParseInt_def s(1) ds Let_def)
  show "ParseBool s = None" using s(2) c by (auto simp: ParseBool_def s(1) ds is_digit_def)
  let ?u = "ds @ CHR ''-'' # rest"
  have special: "ToLower ?u \<notin> {''inf'', ''infinity'', ''nan''}"
    using c(1) by (auto simp: ToLower_def ds digit_lower is_digit_def)
  obtain v p sd where m: "mantissa 10 ?u 0 0 False False = (v, p, False, sd, CHR ''-'' # rest)"
    using mantissa_stops [OF s(4)] by blast
  have hex: "\<not> HasPrefix (ToLower ?u) ''0x''"
  proof (cases cs)
    case Nil
    then show ?thesis by (simp add: HasPrefix_def ToLower_def ds lower_char_def Let_def)
  next
    case (Cons c' cs')
    then have "is_digit c'" using s(4) ds by simp
    then show ?thesis by (auto simp: HasPrefix_def ToLower_def ds Cons digit_lower is_digit_def)
  qed
  have e: "lower_char (CHR ''-'') \<noteq> CHR ''e''" by (simp add: lower_char_def Let_def)
  have "special_float s = None"
    using s(2) special c by (auto simp: special_float_def s(1) HasPrefix_def ds Let_def)
  moreover have "decimal_float s = None"
  proof -
    have u: "(if HasPrefix s ''-'' \<or> HasPrefix s ''+'' then drop 1 s else s) = ?u"
      using s(2) c by (auto simp: s(1) HasPrefix_def ds)
    show ?thesis unfolding decimal_float_def Let_def u using hex m e by simp
  qed
  ultimately show "ParseFloat s = None" by (simp add: ParseFloat_def)
qed

lemma dated_converts:
  assumes "dated x" "convertFilterValue uni column x = Inr a"
  shows "\<exists>b. convertFilterValue uni column y = Inr b"
  using assms dated_no_number [OF assms(1)]
  by (auto simp: convertFilterValue_def dated_trim split: ColumnKind.splits)

subsection \<open>A variable renders at every time\<close>

definition renderable :: "string \<Rightarrow> string \<Rightarrow> bool" where
  "renderable name offset \<longleftrightarrow> name \<in> {''now'', ''today'', ''yesterday''} \<and>
     (offset = [] \<or> (\<exists>amount unit. parseVariableOffset offset = Inr (amount, unit) \<and> unit \<in> {CHR ''d'', CHR ''h'', CHR ''m''}))"

lemma render_dated: "renderTimeVariable name offset vars = Inr x \<Longrightarrow> dated x"
  unfolding renderTimeVariable_def Let_def
  by (auto simp: format_dated split: option.splits if_splits sum.splits prod.splits)

lemma renders: "renderTimeVariable name offset vars = Inr x \<Longrightarrow> renderable name offset"
  unfolding renderTimeVariable_def Let_def renderable_def
  by (auto split: option.splits if_splits sum.splits prod.splits)

lemma renderable_renders: "renderable name offset \<Longrightarrow> \<exists>x. renderTimeVariable name offset vars = Inr x"
proof (cases "offset = []")
  case True
  assume "renderable name offset"
  then have "name = ''now'' \<or> name = ''today'' \<or> name = ''yesterday''" by (simp add: renderable_def)
  then show ?thesis using True by (elim disjE) (simp_all add: renderTimeVariable_def Let_def split del: if_split)
next
  case False
  assume "renderable name offset"
  then obtain amount unit where p: "parseVariableOffset offset = Inr (amount, unit)" and
     u: "unit = CHR ''d'' \<or> unit = CHR ''h'' \<or> unit = CHR ''m''" and
     n: "name = ''now'' \<or> name = ''today'' \<or> name = ''yesterday''" using False by (auto simp: renderable_def)
  show ?thesis using n u by (elim disjE) (simp_all add: renderTimeVariable_def Let_def False p split del: if_split)
qed
lemma resolve_parts: "ResolveTimeVariable token vars = Inr x \<longleftrightarrow>
    (\<exists>name offset. match_variable (TrimSpace token) = Some (name, offset, []) \<and> \<not> IsZero (tv_At vars) \<and>
      renderTimeVariable name offset vars = Inr x)"
  by (auto simp: ResolveTimeVariable_def split: option.splits list.splits)

lemma resolve_at:
  assumes "ResolveTimeVariable token vars = Inr x" "\<not> IsZero (tv_At vars')"
  shows "dated x" "\<exists>y. ResolveTimeVariable token vars' = Inr y \<and> dated y"
  using assms render_dated renders renderable_renders unfolding resolve_parts by metis+

subsection \<open>Two results at two times\<close>

text \<open>Where the first computation succeeds the second one does, with a related value.\<close>

definition keeps :: "('a \<Rightarrow> 'b \<Rightarrow> bool) \<Rightarrow> 'e + 'a \<Rightarrow> 'f + 'b \<Rightarrow> bool" where
  "keeps R r r' \<longleftrightarrow> (\<forall>x. r = Inr x \<longrightarrow> (\<exists>y. r' = Inr y \<and> R x y))"

named_theorems keeping

lemma keepsD: "keeps R r r' \<Longrightarrow> r = Inr x \<Longrightarrow> \<exists>y. r' = Inr y \<and> R x y"
  by (simp add: keeps_def)

lemma keeps_Inl [keeping]: "keeps R (Inl e) r"
  by (simp add: keeps_def)

lemma keeps_Inr [keeping]: "R x y \<Longrightarrow> keeps R (Inr x) (Inr y)"
  by (simp add: keeps_def)

lemma keeps_bind: "keeps R r r' \<Longrightarrow> (\<And>x y. R x y \<Longrightarrow> keeps S (f x) (g y)) \<Longrightarrow> keeps S (bind_result r f) (bind_result r' g)"
  unfolding keeps_def by (auto simp: bind_result_Inr)

lemma keeps_bind_same [keeping]: "(\<And>x. keeps S (f x) (g x)) \<Longrightarrow> keeps S (bind_result r f) (bind_result r g)"
  unfolding keeps_def by (auto simp: bind_result_Inr)

lemma keeps_check [keeping]: "keeps S r r' \<Longrightarrow> keeps S (check_result c err r) (check_result c err r')"
  unfolding keeps_def by (auto simp: check_result_Inr)

lemma keeps_if [keeping]:
  "keeps S r r' \<Longrightarrow> keeps S s s' \<Longrightarrow> keeps S (if p then r else s) (if p then r' else s')"
  by simp

lemma keeps_map [keeping]: "keeps (\<lambda>x y. S (f x) (g y)) r r' \<Longrightarrow> keeps S (map_sum e f r) (map_sum e' g r')"
  by (cases r; cases r') (auto simp: keeps_def)

lemma keeps_mono: "keeps R r r' \<Longrightarrow> (\<And>x y. R x y \<Longrightarrow> S x y) \<Longrightarrow> keeps S r r'"
  by (cases r; cases r') (auto simp: keeps_def)

lemma keeps_refl: "(\<And>x. R x x) \<Longrightarrow> keeps R r r"
  by (simp add: keeps_def)

lemma keeps_collect:
  "list_all2 (\<lambda>x y. keeps R (f x) (g y)) xs ys \<Longrightarrow> keeps (list_all2 R) (collect_results f xs) (collect_results g ys)"
proof (induction xs ys rule: list_all2_induct)
  case Nil
  show ?case by (simp add: keeps_def)
next
  case (Cons x xs y ys)
  show ?case unfolding collect_results.simps
  proof (rule keeps_bind [OF Cons(1)])
    fix a b
    assume "R a b"
    then have "keeps (\<lambda>x y. list_all2 R (a # x) (b # y)) (collect_results f xs) (collect_results g ys)"
      by (intro keeps_mono [OF Cons(3)]) simp
    then show "keeps (list_all2 R) (map_sum id ((#) a) (collect_results f xs)) (map_sum id ((#) b) (collect_results g ys))"
      by (rule keeps_map)
  qed
qed

subsection \<open>Filters\<close>

definition moved :: "string \<Rightarrow> string \<Rightarrow> bool" where
  "moved x y \<longleftrightarrow> x = y \<or> dated x"

definition moved_clause :: "FilterClause \<Rightarrow> FilterClause \<Rightarrow> bool" where
  "moved_clause c c' \<longleftrightarrow> fc_Column c = fc_Column c' \<and> fc_Op c = fc_Op c' \<and> list_all2 moved (fc_Values c) (fc_Values c')"

lemma resolveValue_at:
  "\<not> IsZero (tv_At v') \<Longrightarrow> keeps moved (resolveValue uni v s) (resolveValue uni v' s)"
  unfolding keeps_def resolveValue_def Let_def moved_def using resolve_at by (auto; metis)

lemma filter_at:
  assumes "\<not> IsZero (tv_At v')"
  shows "keeps (list_all2 moved_clause) (ResolveFilterVariables uni conds v) (ResolveFilterVariables uni conds v')"
  unfolding ResolveFilterVariables_def
proof (rule keeps_collect, rule list_all2_refl, rule keeps_map)
  fix clause :: FilterClause
  have "keeps (list_all2 moved) (collect_results (resolveValue uni v) (fc_Values clause)) (collect_results (resolveValue uni v') (fc_Values clause))"
    by (rule keeps_collect, rule list_all2_refl, rule resolveValue_at [OF assms])
  then show "keeps (\<lambda>x y. moved_clause (clause\<lparr>fc_Values := x\<rparr>) (clause\<lparr>fc_Values := y\<rparr>))
      (collect_results (resolveValue uni v) (fc_Values clause)) (collect_results (resolveValue uni v') (fc_Values clause))"
    by (rule keeps_mono) (simp add: moved_clause_def)
qed

lemma resolve_step: "\<not> IsZero (tv_At v') \<Longrightarrow> keeps (list_all2 moved_clause)
    (map_sum BadVariable id (ResolveFilterVariables uni conds v)) (map_sum BadVariable id (ResolveFilterVariables uni conds v'))"
  by (rule keeps_map) (simp add: filter_at)

lemma convert_at: "list_all2 moved xs ys \<Longrightarrow>
    keeps (\<lambda>a b. length a = length b) (convertFilterValues uni column xs) (convertFilterValues uni column ys)"
proof -
  assume m: "list_all2 moved xs ys"
  have "keeps (\<lambda>_ _. True) (convertFilterValue uni column x) (convertFilterValue uni column y)" if xy: "moved x y" for x y
    unfolding keeps_def
  proof (intro allI impI)
    fix a
    assume a: "convertFilterValue uni column x = Inr a"
    show "\<exists>b. convertFilterValue uni column y = Inr b \<and> True"
      using xy a dated_converts [OF _ a, of y] unfolding moved_def by (elim disjE) simp_all
  qed
  then have "list_all2 (\<lambda>x y. keeps (\<lambda>_ _. True) (convertFilterValue uni column x) (convertFilterValue uni column y)) xs ys"
    by (rule list_all2_mono [OF m])
  from keeps_collect [OF this] show ?thesis unfolding convertFilterValues_def
    by (rule keeps_mono) (rule list_all2_lengthD)
qed

lemma bindValues_at: "length vs = length ws \<Longrightarrow> length args = length args' \<Longrightarrow>
    fst (bindValues d n vs args) = fst (bindValues d n ws args') \<and>
    length (snd (bindValues d n vs args)) = length (snd (bindValues d n ws args'))"
proof (induction vs ws arbitrary: args args' rule: list_induct2)
  case (Cons x xs y ys)
  from Cons(2) [of "args @ [x]" "args' @ [y]"] Cons(3) show ?case by (simp add: Let_def case_prod_unfold)
qed simp

lemma render_comparison_at: "length vs = length ws \<Longrightarrow> length args = length args' \<Longrightarrow>
    fst (renderFilterComparison d q op vs args n) = fst (renderFilterComparison d q op ws args' n) \<and>
    length (snd (renderFilterComparison d q op vs args n)) = length (snd (renderFilterComparison d q op ws args' n))"
  using bindValues_at [of vs ws args args' d n] by (simp add: renderFilterComparison_def Let_def case_prod_unfold)

abbreviation same_text :: "'a \<times> arg list \<Rightarrow> 'a \<times> arg list \<Rightarrow> bool" where
  "same_text x y \<equiv> fst x = fst y \<and> length (snd x) = length (snd y)"

lemma clauses_at: "list_all2 moved_clause cs cs' \<Longrightarrow> length args = length args' \<Longrightarrow>
    keeps same_text (compileClauses uni d target n cs conds args) (compileClauses uni d target n cs' conds args')"
proof (induction cs cs' arbitrary: conds args args' rule: list_all2_induct)
  case Nil
  then show ?case by (simp add: keeps_def)
next
  case (Cons c cs c' cs')
  then have c: "fc_Column c' = fc_Column c" "fc_Op c' = fc_Op c" "list_all2 moved (fc_Values c) (fc_Values c')"
    by (simp_all add: moved_clause_def)
  show ?case
  proof (cases "rt_Column target (fc_Column c)")
    case None
    then show ?thesis by (simp add: keeps_def)
  next
    case (Some column)
    have bound_values: "keeps same_text
        (if fc_Op c \<notin> {FilterIN, FilterNOTIN} \<and> vs = [] then Inl IndexOutOfRange
         else let (condition, args') = renderFilterComparison d (QuoteIdentifier d (ci_Name column)) (fc_Op c) vs args n
           in compileClauses uni d target n cs (conds @ [condition]) args')
        (if fc_Op c \<notin> {FilterIN, FilterNOTIN} \<and> ws = [] then Inl IndexOutOfRange
         else let (condition, args') = renderFilterComparison d (QuoteIdentifier d (ci_Name column)) (fc_Op c) ws args' n
           in compileClauses uni d target n cs' (conds @ [condition]) args')"
      if l: "length vs = length ws" for vs ws :: "arg list"
    proof -
      have "vs = [] \<longleftrightarrow> ws = []" using l by auto
      then show ?thesis
        using render_comparison_at [OF l Cons.prems] Cons.IH by (simp add: Let_def case_prod_unfold keeps_Inl)
    qed
    show ?thesis unfolding compileClauses.simps c Some option.case Let_def
      by (intro keeping Cons.IH Cons.prems keeps_bind [OF convert_at [OF c(3)]] bound_values [unfolded Let_def])
  qed
qed

lemma CompileFilterAfter_at:
  assumes "list_all2 moved_clause cs cs'"
  shows "keeps same_text (CompileFilterAfter uni d target cs n) (CompileFilterAfter uni d target cs' n)"
proof -
  have "cs = [] \<longleftrightarrow> cs' = []" using assms by auto
  moreover have "keeps (\<lambda>x y. same_text (map_prod (\<lambda>conditions. Join conditions '' AND '') id x) (map_prod (\<lambda>conditions. Join conditions '' AND '') id y))
      (compileClauses uni d target n cs [] []) (compileClauses uni d target n cs' [] [])"
    by (rule keeps_mono [OF clauses_at [OF assms refl]]) (auto simp: map_prod_def split: prod.splits)
  ultimately show ?thesis unfolding CompileFilterAfter_def by (auto intro: keeps_Inr keeps_map)
qed

subsection \<open>The statement of a rule\<close>

definition later :: "CompileInput \<Rightarrow> TimeVariables \<Rightarrow> CompileInput" where
  "later inp v = inp\<lparr>in_Variables := v\<rparr>"

lemma later_simps [simp]:
  "in_Dialect (later inp v) = in_Dialect inp" "in_Target (later inp v) = in_Target inp"
  "in_Type (later inp v) = in_Type inp" "in_Config (later inp v) = in_Config inp"
  "in_Filter (later inp v) = in_Filter inp" "in_ContractFilter (later inp v) = in_ContractFilter inp"
  "in_Variables (later inp v) = v" "in_Reference (later inp v) = in_Reference inp"
  "in_Unicode (later inp v) = in_Unicode inp" "in_SQL (later inp v) = in_SQL inp" "in_Derived (later inp v) = in_Derived inp"
  by (simp_all add: later_def)

lemma where_at: "\<not> IsZero (tv_At v) \<Longrightarrow> keeps same_text (whereClause inp) (whereClause (later inp v))"
proof -
  assume v: "\<not> IsZero (tv_At v)"
  show ?thesis unfolding whereClause_def later_simps CompileFilter_def
  proof (rule keeps_bind [OF resolve_step [OF v]])
    fix cs cs'
    assume "list_all2 moved_clause cs cs'"
    note k = CompileFilterAfter_at [OF this, of "in_Unicode inp" "in_Dialect inp" "in_Target inp" 0]
    show "keeps same_text
        (map_sum id (\<lambda>(clause, args). if clause = [] then ([], []) else ('' WHERE '' @ clause, args))
          (CompileFilterAfter (in_Unicode inp) (in_Dialect inp) (in_Target inp) cs 0))
        (map_sum id (\<lambda>(clause, args). if clause = [] then ([], []) else ('' WHERE '' @ clause, args))
          (CompileFilterAfter (in_Unicode inp) (in_Dialect inp) (in_Target inp) cs' 0))"
      by (rule keeps_map [OF keeps_mono [OF k]]) (auto simp: case_prod_unfold)
  qed
qed

abbreviation same_scan :: "string \<times> string \<times> arg list \<Rightarrow> string \<times> string \<times> arg list \<Rightarrow> bool" where
  "same_scan x y \<equiv> fst x = fst y \<and> same_text (snd x) (snd y)"

lemma scan_at: "\<not> IsZero (tv_At v) \<Longrightarrow> keeps same_scan (scanRelation inp) (scanRelation (later inp v))"
  unfolding scanRelation_def later_simps
  by (rule keeps_bind_same, rule keeps_bind [OF where_at])
    (auto simp: case_prod_unfold intro!: keeps_Inr keeps_map keeps_refl split: option.splits sampling_method.splits)

text \<open>The arguments of two statements with as many filter values: the placeholders are the same.\<close>

definition same_places :: "compileArgs \<Rightarrow> compileArgs \<Rightarrow> bool" where
  "same_places s s' \<longleftrightarrow> ca_configArgs s = ca_configArgs s' \<and> length (ca_filterArgs s) = length (ca_filterArgs s')"

lemma places_new [simp]: "length a = length a' \<Longrightarrow> same_places (newCompileArgs a) (newCompileArgs a')"
  by (simp add: same_places_def newCompileArgs_def)

lemma places_length: "same_places s s' \<Longrightarrow> length (ca_values d s) = length (ca_values d s')"
  by (auto simp: same_places_def ca_values_def)

lemma add_at: "same_places s s' \<Longrightarrow> fst (ca_add d v s) = fst (ca_add d v s') \<and> same_places (snd (ca_add d v s)) (snd (ca_add d v s'))"
  by (simp add: same_places_def ca_add_def Let_def)

lemma add_all_at: "same_places s s' \<Longrightarrow>
    fst (add_all (ca_add d) vs s) = fst (add_all (ca_add d) vs s') \<and>
    same_places (snd (add_all (ca_add d) vs s)) (snd (add_all (ca_add d) vs s'))"
proof (induction vs arbitrary: s s')
  case (Cons v vs)
  from Cons.IH [OF conjunct2 [OF add_at [OF Cons.prems]]] add_at [OF Cons.prems] show ?case
    by (simp add: Let_def case_prod_unfold)
qed simp

lemma add_conditions_at: "same_places s s' \<Longrightarrow>
    fst (add_conditions (ca_add d) cs s) = fst (add_conditions (ca_add d) cs s') \<and>
    same_places (snd (add_conditions (ca_add d) cs s)) (snd (add_conditions (ca_add d) cs s'))"
proof (induction cs arbitrary: s s')
  case (Cons condition cs)
  show ?case
  proof (cases "snd condition")
    case None
    then show ?thesis using Cons by (cases condition) simp
  next
    case (Some v)
    then show ?thesis using Cons.IH [OF conjunct2 [OF add_at [OF Cons.prems]]] add_at [OF Cons.prems]
      by (cases condition) (simp add: Let_def case_prod_unfold)
  qed
qed simp

text \<open>The same statement but for the values: the whole text, or the text but for a user's own query.\<close>

definition restated :: "bool \<Rightarrow> CompiledQuery \<Rightarrow> CompiledQuery \<Rightarrow> bool" where
  "restated same_sql q q' \<longleftrightarrow> (same_sql \<longrightarrow> cq_SQL q' = cq_SQL q) \<and> cq_Kind q' = cq_Kind q \<and>
     cq_Columns q' = cq_Columns q \<and> length (cq_Args q') = length (cq_Args q)"

lemma restated_refl [simp]: "restated b q q"
  by (simp add: restated_def)

lemma count_select_at: "length a = length a' \<Longrightarrow>
    restated True (compileCountSelect relation conds condition a) (compileCountSelect relation conds condition a')"
  by (simp add: restated_def compileCountSelect_def)

lemma where_step:
  assumes "\<not> IsZero (tv_At v)" "\<And>c a a'. length a = length a' \<Longrightarrow> keeps S (f (c, a)) (g (c, a'))"
  shows "keeps S (bind_result (whereClause inp) f) (bind_result (whereClause (later inp v)) g)"
  by (rule keeps_bind [OF where_at [OF assms(1)]]) (auto intro: assms(2))

lemma scan_step:
  assumes "\<not> IsZero (tv_At v)" "\<And>r c a a'. length a = length a' \<Longrightarrow> keeps S (f (r, c, a)) (g (r, c, a'))"
  shows "keeps S (bind_result (scanRelation inp) f) (bind_result (scanRelation (later inp v)) g)"
  by (rule keeps_bind [OF scan_at [OF assms(1)]]) (auto intro: assms(2))

text \<open>Queries that append their values to a text.\<close>

lemmas all_step = add_all_at [OF places_new] and conditions_step = add_conditions_at [OF places_new]
  and one_step = add_at [OF places_new]

lemma total_rows_at: "\<not> IsZero (tv_At v) \<Longrightarrow> keeps (restated True) (compileTotalRows inp) (compileTotalRows (later inp v))"
  unfolding compileTotalRows_def later_simps
  by (rule keeps_bind_same, rule where_step) (auto simp: restated_def intro!: keeps_Inr)

lemma null_at: "\<not> IsZero (tv_At v) \<Longrightarrow> keeps (restated True) (compileNullPercent inp c) (compileNullPercent (later inp v) c)"
  unfolding compileNullPercent_def later_simps Let_def
  apply (rule keeps_bind_same, rule keeps_check, rule scan_step, assumption)
  apply (simp only: case_prod_unfold prod.sel)
  apply (intro keeps_bind_same keeps_Inr)
  subgoal for _ _ _ a a' _ vs
    using all_step [of a a' "in_Dialect inp" vs] by (simp add: count_select_at places_length)
  done

lemma unique_query_at: "\<not> IsZero (tv_At v) \<Longrightarrow>
    keeps (restated True) (compileUniqueQuery inp columns countNulls) (compileUniqueQuery (later inp v) columns countNulls)"
  unfolding compileUniqueQuery_def later_simps Let_def
  by (rule scan_step) (auto simp: restated_def intro!: keeps_Inr)

lemma unique_column_at [simp]: "unique_column (later inp v) = unique_column inp"
  by (intro ext) (simp only: unique_column_def later_simps)

lemma thresholds_at [simp]: "count_thresholds_ok (later inp v) c = count_thresholds_ok inp c"
  by (simp add: count_thresholds_ok_def fun_eq_iff)

lemma keeps_thresholds [keeping]: "keeps R r r' \<Longrightarrow> keeps R (count_thresholds_ok inp c r) (count_thresholds_ok inp c r')"
  unfolding count_thresholds_ok_def by (rule keeps_check)

lemma unique_at: "\<not> IsZero (tv_At v) \<Longrightarrow> keeps (restated True) (compileUnique inp c) (compileUnique (later inp v) c)"
  unfolding compileUnique_def later_simps unique_column_at thresholds_at by (intro keeping unique_query_at)

lemma combination_at: "\<not> IsZero (tv_At v) \<Longrightarrow>
    keeps (restated True) (compileUniqueCombination inp c) (compileUniqueCombination (later inp v) c)"
  unfolding compileUniqueCombination_def later_simps Let_def unique_column_at thresholds_at
  by (intro keeping unique_query_at)

lemma range_at: "\<not> IsZero (tv_At v) \<Longrightarrow> keeps (restated True) (compileRange inp c) (compileRange (later inp v) c)"
  unfolding compileRange_def later_simps Let_def thresholds_at
  apply (intro keeps_bind_same keeps_if keeps_thresholds keeps_Inl, rule scan_step, assumption)
  apply (simp only: case_prod_unfold prod.sel)
  apply (rule keeps_Inr)
  subgoal for column low high _ _ a a'
    using conditions_step [of a a' "in_Dialect inp"] by (simp add: count_select_at places_length)
  done

lemma regex_at: "\<not> IsZero (tv_At v) \<Longrightarrow> keeps (restated True) (compileRegex inp c) (compileRegex (later inp v) c)"
  unfolding compileRegex_def later_simps Let_def thresholds_at
  apply (intro keeps_bind_same keeps_if keeps_thresholds keeps_Inl, rule scan_step, assumption)
  apply (simp only: case_prod_unfold prod.sel)
  apply (rule keeps_Inr)
  subgoal for _ _ _ _ a a'
    using one_step [of a a' "in_Dialect inp"] by (simp add: count_select_at places_length)
  done

lemma length_at: "\<not> IsZero (tv_At v) \<Longrightarrow> keeps (restated True) (compileStringLength inp c) (compileStringLength (later inp v) c)"
  unfolding compileStringLength_def later_simps Let_def thresholds_at
  apply (intro keeps_bind_same keeps_if keeps_thresholds keeps_Inl, rule scan_step, assumption)
  apply (simp only: case_prod_unfold prod.sel)
  apply (rule keeps_Inr)
  subgoal for _ _ _ a a'
    using conditions_step [of a a' "in_Dialect inp"] by (simp add: count_select_at places_length)
  done

lemma group_at: "\<not> IsZero (tv_At v) \<Longrightarrow> keeps (restated True) (compileGroupCheck inp c) (compileGroupCheck (later inp v) c)"
  unfolding compileGroupCheck_def later_simps Let_def thresholds_at
  apply (intro keeps_bind_same keeps_check keeps_thresholds, rule scan_step, assumption)
  apply (simp only: case_prod_unfold prod.sel)
  apply (rule keeps_Inr)
  subgoal for _ _ _ a a'
    using conditions_step [of a a' "in_Dialect inp"] places_length [OF conjunct2 [OF conditions_step [of a a' "in_Dialect inp"]]]
    by (simp add: restated_def)
  done

lemma referential_at: "\<not> IsZero (tv_At v) \<Longrightarrow>
    keeps (restated True) (compileReferentialIntegrity inp c) (compileReferentialIntegrity (later inp v) c)"
  unfolding compileReferentialIntegrity_def later_simps Let_def thresholds_at
  by (intro keeps_bind_same keeps_if keeps_thresholds keeps_Inl, rule where_step)
    (auto simp: restated_def intro!: keeps_Inr)

lemma freshness_at: "\<not> IsZero (tv_At v) \<Longrightarrow> keeps (restated True) (compileFreshness inp c) (compileFreshness (later inp v) c)"
  unfolding compileFreshness_def later_simps Let_def
  by (intro keeps_bind_same keeps_if keeps_Inl, rule where_step) (auto simp: restated_def intro!: keeps_Inr)

lemma cel_at: "\<not> IsZero (tv_At v) \<Longrightarrow> keeps (restated True) (compileCelExpression inp c) (compileCelExpression (later inp v) c)"
  unfolding compileCelExpression_def later_simps Let_def sampleQuery_def
  by (intro keeps_bind_same, rule where_step) (auto simp: restated_def intro!: keeps_Inr)

lemma standard_at: "\<not> IsZero (tv_At v) \<Longrightarrow> keeps (restated True) (compileStandardCode inp c) (compileStandardCode (later inp v) c)"
  unfolding compileStandardCode_def later_simps Let_def sampleQuery_def
  by (intro keeps_bind_same, rule where_step) (auto simp: restated_def intro!: keeps_Inr)

lemma segment_at: "\<not> IsZero (tv_At v) \<Longrightarrow> keeps (restated True) (compileSegmentCheck inp c) (compileSegmentCheck (later inp v) c)"
  unfolding compileSegmentCheck_def later_simps Let_def
  by (intro keeps_bind_same keeps_check, rule scan_step) (auto simp: restated_def intro!: keeps_Inr)

lemma cross_at: "\<not> IsZero (tv_At v) \<Longrightarrow> keeps (restated True) (compileCrossColumn inp c) (compileCrossColumn (later inp v) c)"
  unfolding compileCrossColumn_def later_simps Let_def thresholds_at
  apply (intro keeps_bind_same keeps_if keeps_thresholds keeps_Inl, rule scan_step, assumption)
  apply (simp only: case_prod_unfold prod.sel)
  subgoal for left right _ _ a a'
    using one_step [of a a' "in_Dialect inp"]
    by (cases "cc_Tolerance c") (auto intro!: keeps_bind_same keeps_Inr simp: count_select_at places_length)
  done

lemma aggregate_at: "\<not> IsZero (tv_At v) \<Longrightarrow> keeps (restated True) (compileAggregate inp c) (compileAggregate (later inp v) c)"
  unfolding compileAggregate_def later_simps Let_def
  apply (rule scan_step, assumption)
  apply (simp only: case_prod_unfold prod.sel)
  apply (rule keeps_bind_same)
  subgoal for _ _ a a' quotedColumn
    apply (rule keeps_bind [where R = "\<lambda>x y. fst x = fst y \<and> same_places (snd x) (snd y)"])
     apply (use one_step [of a a' "in_Dialect inp"] in \<open>auto intro: keeping split: option.splits\<close>) []
    apply (auto intro!: keeps_bind_same keeps_Inr simp: restated_def intro: places_length [symmetric])
    done
  done

lemma reference_side_at: "\<not> IsZero (tv_At v) \<Longrightarrow>
    keeps (\<lambda>x y. fst x = fst y \<and> same_scan (snd x) (snd y)) (compileReferenceSide inp c reference n) (compileReferenceSide (later inp v) c reference n)"
  unfolding compileReferenceSide_def later_simps
  apply (cases "DialectFor (rt_Engine reference)")
   apply (simp add: keeps_def)
  apply (simp only: option.case)
  apply (intro keeps_bind_same)
  apply (rule keeps_bind [OF resolve_step], assumption)
  apply (rule keeps_bind [OF CompileFilterAfter_at], assumption)
  apply (auto intro!: keeps_Inr)
  done

lemma cross_table_at: "\<not> IsZero (tv_At v) \<Longrightarrow> keeps (restated True) (compileCrossTable inp c) (compileCrossTable (later inp v) c)"
  unfolding compileCrossTable_def later_simps
  apply (cases "in_Reference inp")
   apply (simp add: keeps_def)
  apply (simp only: option.case)
  apply (intro keeps_if keeps_bind_same keeps_Inl, rule where_step, assumption)
  apply (simp only: prod.case)
  apply (intro keeps_if)
   apply (simp add: keeps_def restated_def)
  subgoal for reference _ _ _ a a'
    apply (rule keeps_bind [OF reference_side_at], assumption)
    apply (auto intro!: keeps_Inr simp: restated_def)
    done
  done

lemma reference_query_at: "\<not> IsZero (tv_At v) \<Longrightarrow> keeps (restated True) (CompileReference inp c) (CompileReference (later inp v) c)"
  unfolding CompileReference_def later_simps
  apply (cases "in_Reference inp")
   apply (simp add: keeps_def)
  apply (simp only: option.case)
  apply (intro keeps_if keeps_Inl)
  apply (rule keeps_bind [OF reference_side_at], assumption)
  apply (auto intro!: keeps_Inr simp: restated_def)
  done

subsection \<open>The statements of a user\<close>

definition opens :: "string \<Rightarrow> bool" where
  "opens s \<longleftrightarrow> (case s of [] \<Rightarrow> False | c # _ \<Rightarrow> c = CHR ''{'')"

lemma contains_Cons: "ContainsTimeVariable (c # s) \<longleftrightarrow> c = CHR ''$'' \<and> opens s \<or> ContainsTimeVariable s"
  by (cases s) (auto simp: ContainsTimeVariable_def HasPrefix_def opens_def)

lemma contains_date: "date_text x \<Longrightarrow> ContainsTimeVariable (x @ s) \<longleftrightarrow> ContainsTimeVariable s"
proof (induction x)
  case (Cons c x)
  then have "c \<noteq> CHR ''$''" by (auto simp: is_digit_def)
  with Cons show ?case by (simp add: contains_Cons)
qed simp

lemma contains_rendered: "dated x \<Longrightarrow>
    ContainsTimeVariable ([CHR 0x27] @ x @ [CHR 0x27] @ r) \<longleftrightarrow> ContainsTimeVariable r"
  by (simp add: contains_Cons contains_date dated_def)

definition alike :: "string \<Rightarrow> string \<Rightarrow> bool" where
  "alike r r' \<longleftrightarrow> opens r = opens r' \<and> ContainsTimeVariable r = ContainsTimeVariable r'"

lemma replace_at:
  assumes "\<not> IsZero (tv_At v')"
  shows "keeps alike (replaceTimeVariables s v) (replaceTimeVariables s v')"
proof (induction s v rule: replaceTimeVariables.induct)
  case (1 s v)
  show ?case
  proof (cases "s = []")
    case True
    then show ?thesis by (simp add: replaceTimeVariables.simps keeps_def alike_def)
  next
    case False
    show ?thesis
    proof (cases "match_variable s")
      case None
      have "keeps (\<lambda>x y. alike (hd s # x) (hd s # y)) (replaceTimeVariables (tl s) v) (replaceTimeVariables (tl s) v')"
        by (rule keeps_mono [OF 1(1) [OF False None]]) (simp add: alike_def opens_def contains_Cons)
      then show ?thesis
        by (simp add: replaceTimeVariables.simps [of s] False None keeps_map)
    next
      case (Some m)
      obtain name offset rest where m: "m = (name, offset, rest)" by (cases m)
      let ?token = "take (length s - length rest) s"
      show ?thesis
      proof (cases "ResolveTimeVariable ?token v")
        case (Inl e)
        then show ?thesis by (simp add: replaceTimeVariables.simps [of s] False Some m keeps_Inl)
      next
        case (Inr x)
        obtain y where y: "ResolveTimeVariable ?token v' = Inr y" "dated x" "dated y"
          using resolve_at [OF Inr assms] by blast
        have "keeps (\<lambda>r r'. alike ([CHR 0x27] @ x @ [CHR 0x27] @ r) ([CHR 0x27] @ y @ [CHR 0x27] @ r'))
            (replaceTimeVariables rest v) (replaceTimeVariables rest v')"
        proof (rule keeps_mono [OF 1(2) [OF False Some]])
          fix r r'
          assume "alike r r'"
          then show "alike ([CHR 0x27] @ x @ [CHR 0x27] @ r) ([CHR 0x27] @ y @ [CHR 0x27] @ r')"
            using contains_rendered [OF y(2), of r] contains_rendered [OF y(3), of r']
            by (simp add: alike_def opens_def)
        qed (simp_all add: m Inr)
        then show ?thesis
          by (simp add: replaceTimeVariables.simps [of s] False Some m Inr y(1) keeps_map)
      qed
    qed
  qed
qed

lemma rendered_at:
  assumes "\<not> IsZero (tv_At v')"
  shows "keeps (\<lambda>_ _. True) (RenderCustomSQLVariables s v) (RenderCustomSQLVariables s v')"
  using replace_at [OF assms, of s v]
  by (auto simp: keeps_def RenderCustomSQLVariables_def alike_def split: sum.splits if_splits)

lemma custom_at: "\<not> IsZero (tv_At v) \<Longrightarrow> keeps (restated False) (compileCustomSQL inp c) (compileCustomSQL (later inp v) c)"
  unfolding compileCustomSQL_def later_simps Let_def thresholds_at
  by (intro keeps_if keeps_Inl keeps_check keeps_thresholds keeps_map keeps_mono [OF rendered_at])
    (simp_all add: restated_def)

text \<open>An accepted-values condition: the set is the same text unless it is a query of the user.\<close>

lemma query_set_at: "\<not> IsZero (tv_At v) \<Longrightarrow>
    keeps (\<lambda>_ _. True) (acceptedValuesQuerySet inp query) (acceptedValuesQuerySet (later inp v) query)"
  unfolding acceptedValuesQuerySet_def later_simps
  by (cases query) (auto simp: Let_def intro!: keeps_check keeps_map keeps_Inl rendered_at)

lemma field_set_at [simp]: "acceptedValuesFieldSet (later inp v) c column = acceptedValuesFieldSet inp c column"
  by (simp add: acceptedValuesFieldSet_def)

lemma accepted_condition_at:
  assumes "\<not> IsZero (tv_At v)" "length a = length a'"
  shows "keeps (\<lambda>x y. (acceptedValuesSourceOf (in_Unicode inp) c \<noteq> Inr acceptedValuesQuery \<longrightarrow> fst x = fst y) \<and> same_places (snd x) (snd y))
    (acceptedValuesCondition inp c column (ca_add d) (newCompileArgs a))
    (acceptedValuesCondition (later inp v) c column (ca_add d) (newCompileArgs a'))"
proof (cases "acceptedValuesSourceOf (in_Unicode inp) c")
  case (Inl e)
  then show ?thesis by (simp add: acceptedValuesCondition_def bind_result_def keeps_Inl)
next
  case (Inr source)
  show ?thesis
  proof (cases source)
    case acceptedValuesList
    then show ?thesis using all_step [OF assms(2), of d]
      by (cases "collect_results (compileValueArg (in_Unicode inp) column) (av_Values c)")
        (auto simp: acceptedValuesCondition_def Inr bind_result_def Let_def case_prod_unfold keeps_def)
  next
    case acceptedValuesField
    then show ?thesis using assms(2)
      by (cases "acceptedValuesFieldSet inp c column")
        (auto simp: acceptedValuesCondition_def Inr bind_result_def Let_def keeps_def)
  next
    case acceptedValuesQuery
    show ?thesis
    proof (cases "acceptedValuesQuerySet inp (av_Query c)")
      case (Inl e)
      then show ?thesis using Inr acceptedValuesQuery by (simp add: acceptedValuesCondition_def bind_result_def keeps_Inl)
    next
      fix t
      assume t: "acceptedValuesQuerySet inp (av_Query c) = Inr t"
      obtain t' where "acceptedValuesQuerySet (later inp v) (av_Query c) = Inr t'"
        using keepsD [OF query_set_at [OF assms(1)] t] by blast
      then show ?thesis using t Inr acceptedValuesQuery assms(2)
        by (simp add: acceptedValuesCondition_def bind_result_def Let_def keeps_def)
    qed
  qed
qed

lemma accepted_at: "\<not> IsZero (tv_At v) \<Longrightarrow>
    keeps (restated (acceptedValuesSourceOf (in_Unicode inp) c \<noteq> Inr acceptedValuesQuery))
      (compileAcceptedValues inp c) (compileAcceptedValues (later inp v) c)"
  unfolding compileAcceptedValues_def later_simps thresholds_at
  apply (intro keeps_bind_same keeps_thresholds, rule scan_step, assumption)
  apply (simp only: prod.case)
  apply (rule keeps_bind [OF accepted_condition_at], assumption, assumption)
  apply (auto intro!: keeps_Inr simp: restated_def compileCountSelect_def intro: places_length [symmetric])
  done

subsection \<open>A statement without its tail\<close>

definition token_of :: "string \<Rightarrow> string \<Rightarrow> bool" where
  "token_of name offset \<longleftrightarrow> name \<noteq> [] \<and> list_all is_lower name \<and>
     (offset = [] \<or> (\<exists>sign ds unit. offset = sign # ds @ [unit] \<and> sign \<in> {CHR ''+'', CHR ''-''} \<and> ds \<noteq> [] \<and>
        list_all is_digit ds \<and> unit \<in> {CHR ''m'', CHR ''h'', CHR ''d''}))"

lemma run_of: "list_all p xs \<Longrightarrow> \<not> p y \<Longrightarrow> takeWhile p (xs @ y # ys) = xs \<and> dropWhile p (xs @ y # ys) = y # ys"
  by (induction xs) auto

lemma run_all: "list_all p (takeWhile p xs)"
  by (auto simp: list_all_iff dest: set_takeWhileD)

lemma match_token: "token_of name offset \<Longrightarrow> match_variable (''${'' @ name @ offset @ ''}'' @ r) = Some (name, offset, r)"
proof -
  assume t: "token_of name offset"
  have name: "name \<noteq> []" "list_all is_lower name" using t by (simp_all add: token_of_def)
  have nl: "\<not> is_lower (CHR ''}'')" "\<not> is_lower (CHR ''+'')" "\<not> is_lower (CHR ''-'')" by (simp_all add: is_lower_def)
  consider "offset = []" | sign ds unit where "offset = sign # ds @ [unit]" "sign \<in> {CHR ''+'', CHR ''-''}" "ds \<noteq> []"
      "list_all is_digit ds" "unit \<in> {CHR ''m'', CHR ''h'', CHR ''d''}"
    using t unfolding token_of_def by blast
  then show ?thesis
  proof cases
    case 1
    then show ?thesis using name nl run_of [OF name(2) nl(1)] by (simp add: match_variable_def HasPrefix_def Let_def)
  next
    case 2
    have sign: "\<not> is_lower sign" "sign \<noteq> CHR ''}''" using 2(2) nl by auto
    have unit: "\<not> is_digit unit" using 2(5) by (auto simp: is_digit_def)
    show ?thesis using name nl sign(1) 2(2,3,5) run_of [OF name(2) sign(1)] run_of [OF 2(4) unit] sign(2)
      by (simp add: match_variable_def HasPrefix_def Let_def 2(1))
  qed
qed

lemma match_is_token: "match_variable s = Some (name, offset, r) \<Longrightarrow> token_of name offset \<and> s = ''${'' @ name @ offset @ ''}'' @ r"
proof -
  assume m: "match_variable s = Some (name, offset, r)"
  define body where "body = drop 2 s"
  define rest where "rest = dropWhile is_lower body"
  define digits where "digits = takeWhile is_digit (List.tl rest)"
  define after where "after = dropWhile is_digit (List.tl rest)"
  have pre: "HasPrefix s ''${''" using m by (simp add: match_variable_def Let_def split: if_splits)
  have s: "s = ''${'' @ body"
    using pre append_take_drop_id [of 2 s] by (simp add: HasPrefix_def body_def numeral_2_eq_2)
  have body: "body = takeWhile is_lower body @ rest" by (simp add: rest_def)
  have tail: "List.tl rest = digits @ after" by (simp add: digits_def after_def)
  have cases: "name = takeWhile is_lower body \<and> name \<noteq> [] \<and> rest \<noteq> [] \<and>
     (hd rest = CHR ''}'' \<and> offset = [] \<and> r = List.tl rest \<or>
      hd rest \<in> {CHR ''+'', CHR ''-''} \<and> digits \<noteq> [] \<and> 2 \<le> length after \<and> hd after \<in> {CHR ''m'', CHR ''h'', CHR ''d''} \<and>
      after ! 1 = CHR ''}'' \<and> offset = hd rest # digits @ [hd after] \<and> r = drop 2 after)"
    using m unfolding match_variable_def Let_def body_def [symmetric] rest_def [symmetric] digits_def [symmetric] after_def [symmetric]
    by (simp split: if_splits)
  have name: "list_all is_lower name" using cases run_all by metis
  have rest: "rest = hd rest # List.tl rest" using cases by simp
  from cases show ?thesis
  proof (elim conjE disjE)
    assume "hd rest = CHR ''}''" "offset = []" "r = List.tl rest" "name = takeWhile is_lower body" "name \<noteq> []"
    then show ?thesis using s body rest name by (metis append_Cons append_Nil token_of_def)
  next
    assume a: "hd rest \<in> {CHR ''+'', CHR ''-''}" "digits \<noteq> []" "2 \<le> length after" "hd after \<in> {CHR ''m'', CHR ''h'', CHR ''d''}"
      "after ! 1 = CHR ''}''" "offset = hd rest # digits @ [hd after]" "r = drop 2 after" "name = takeWhile is_lower body" "name \<noteq> []"
    have "after = hd after # CHR ''}'' # r"
      using a(3,5,7) by (cases after; cases "List.tl after") auto
    then have "rest = offset @ ''}'' @ r" using rest tail a(6) by simp
    moreover have "token_of name offset" unfolding token_of_def using a name run_all digits_def by blast
    ultimately show ?thesis using s body a(8) by simp
  qed
qed

definition tail_text :: "string \<Rightarrow> bool" where
  "tail_text t \<longleftrightarrow> list_all is_sql_tail t"

lemma split_before: "s @ t = a @ c # b \<Longrightarrow> c \<notin> set t \<Longrightarrow> \<exists>b'. s = a @ c # b'"
proof -
  assume e: "s @ t = a @ c # b" and c: "c \<notin> set t"
  then consider us where "s = a @ us" "us @ t = c # b" | us where "t = us @ c # b"
    by (auto simp: append_eq_append_conv2)
  then show ?thesis
  proof cases
    case 1
    then show ?thesis using c by (cases us) auto
  next
    case 2
    then show ?thesis using c by simp
  qed
qed

lemma match_tail:
  assumes "tail_text t"
  shows "match_variable (s @ t) = map_option (\<lambda>(name, offset, r). (name, offset, r @ t)) (match_variable s)"
proof (cases "match_variable s")
  case (Some m)
  obtain name offset r where m: "m = (name, offset, r)" by (cases m)
  then show ?thesis using match_is_token [of s name offset r] match_token [of name offset "r @ t"] Some by simp
next
  case None
  have "match_variable (s @ t) = None"
  proof (rule ccontr)
    assume "match_variable (s @ t) \<noteq> None"
    then obtain name offset r where m: "match_variable (s @ t) = Some (name, offset, r)" by auto
    note token = match_is_token [OF m]
    have brace: "CHR ''}'' \<notin> set t" using assms by (induction t) (auto simp: tail_text_def is_sql_tail_def)
    have e: "s @ t = (''${'' @ name @ offset) @ CHR ''}'' # r" using conjunct2 [OF token] by (simp only: append_assoc append.simps)
    obtain r' where "s = (''${'' @ name @ offset) @ CHR ''}'' # r'" using split_before [OF e brace] by (rule exE)
    then have "s = ''${'' @ name @ offset @ ''}'' @ r'" by (simp only: append_assoc append.simps)
    then have "match_variable s = Some (name, offset, r')" using match_token [OF conjunct1 [OF token], of r'] by (simp only:)
    then show False using None by simp
  qed
  then show ?thesis using None by simp
qed

lemma replace_plain: "tail_text t \<Longrightarrow> replaceTimeVariables t v = Inr t"
proof (induction t)
  case (Cons c t)
  then have "c \<noteq> CHR ''$''" by (auto simp: tail_text_def is_sql_tail_def)
  then have "match_variable (c # t) = None" by (simp add: match_variable_def HasPrefix_def)
  with Cons show ?case by (simp add: replaceTimeVariables.simps [of "c # t"] tail_text_def)
qed (simp add: replaceTimeVariables.simps)

lemma replace_tail:
  assumes t: "tail_text t"
  shows "replaceTimeVariables (s @ t) v = map_sum id (\<lambda>r. r @ t) (replaceTimeVariables s v)"
proof (induction s v rule: replaceTimeVariables.induct)
  case (1 s v)
  show ?case
  proof (cases "s = []")
    case True
    then show ?thesis using replace_plain [OF t] by (simp add: replaceTimeVariables.simps [of "[]"])
  next
    case False
    then obtain c s' where s: "s = c # s'" by (cases s) auto
    show ?thesis
    proof (cases "match_variable s")
      case None
      then have n: "match_variable (s @ t) = None" by (simp add: match_tail [OF t])
      show ?thesis using 1(1) [OF False None] None n
        by (simp add: replaceTimeVariables.simps [of "c # s' @ t"] replaceTimeVariables.simps [of "c # s'"] s sum.map_comp o_def)
    next
      case (Some m)
      obtain name offset r where m: "m = (name, offset, r)" by (cases m)
      have n: "match_variable (s @ t) = Some (name, offset, r @ t)" by (simp add: match_tail [OF t] Some m)
      have len: "length r < length s" using match_variable_shorter [of s name offset r] Some m by simp
      then have token: "take (length (s @ t) - length (r @ t)) (s @ t) = take (length s - length r) s" by simp
      show ?thesis
      proof (cases "ResolveTimeVariable (take (length s - length r) s) v")
        case (Inl e)
        then show ?thesis using False
          by (simp add: replaceTimeVariables.simps [of "s @ t"] replaceTimeVariables.simps [of s] Some m n token [simplified])
      next
        case (Inr x)
        then show ?thesis using False 1(2) [OF False Some] m
          by (simp add: replaceTimeVariables.simps [of "s @ t"] replaceTimeVariables.simps [of s] Some n token [simplified]
              sum.map_comp o_def)
      qed
    qed
  qed
qed

lemma rendered_tail:
  assumes "tail_text t" "RenderCustomSQLVariables (s @ t) v = Inr r"
  shows "\<exists>r. RenderCustomSQLVariables s v = Inr r"
proof -
  have none: "\<not> ContainsTimeVariable u" if "tail_text u" for u
    using that
  proof (induction u)
    case (Cons c u)
    then show ?case by (auto simp: contains_Cons tail_text_def is_sql_tail_def)
  qed (simp add: ContainsTimeVariable_def)
  have "ContainsTimeVariable (r @ t) \<longleftrightarrow> ContainsTimeVariable r" for r
  proof (induction r)
    case Nil
    then show ?case using none [OF assms(1)] by (simp add: ContainsTimeVariable_def)
  next
    case (Cons c r)
    have "opens (r @ t) = opens r"
      using assms(1) by (cases r; cases t) (auto simp: opens_def tail_text_def is_sql_tail_def)
    with Cons show ?case by (simp add: contains_Cons)
  qed
  then show ?thesis using assms
    by (cases "replaceTimeVariables s v") (auto simp: RenderCustomSQLVariables_def replace_tail split: if_splits)
qed

subsection \<open>Compile at another time\<close>

lemma arm_at:
  assumes v: "\<not> IsZero (tv_At v)"
  shows "keeps (restated (\<not> user_query inp)) (compile_arm inp) (compile_arm (later inp v))"
proof -
  have weak: "keeps (restated b) r r'" if "keeps (restated True) r r'" for b and r r' :: compiled
    using that by (rule keeps_mono) (simp add: restated_def)
  show ?thesis
    unfolding compile_arm_def later_simps user_query_def
    by (cases "rc_Arm (in_Config inp)")
      (auto simp: compileRowCount_def compileRowCountChange_def compileSchemaDrift_def
        intro!: keeps_Inl keeps_check weak [OF total_rows_at [OF v]] weak [OF null_at [OF v]] weak [OF unique_at [OF v]]
          weak [OF combination_at [OF v]] accepted_at [OF v] weak [OF range_at [OF v]] weak [OF regex_at [OF v]]
          weak [OF length_at [OF v]] weak [OF referential_at [OF v]] weak [OF cross_at [OF v]] weak [OF freshness_at [OF v]]
          custom_at [OF v] weak [OF cel_at [OF v]] weak [OF group_at [OF v]] weak [OF aggregate_at [OF v]]
          weak [OF cross_table_at [OF v]] weak [OF standard_at [OF v]] weak [OF segment_at [OF v]] keeps_Inr)
qed

lemma compile_at:
  assumes "\<not> IsZero (tv_At v)"
  shows "keeps (restated (\<not> user_query inp)) (Compile inp) (Compile (later inp v))"
  unfolding Compile_def later_simps
  by (cases "configArm (in_Config inp)") (auto intro!: keeps_Inl keeps_check arm_at [OF assms])

text \<open>
  C40. The clock moves values and nothing else. A rule that compiles compiles at every time and in every
  time zone, to a query of the same kind with the same result columns and as many arguments; and where the
  rule holds no query of the user the statement is the same text.
\<close>

theorem clock_moves_only_values:
  assumes "Compile inp = Inr q" "\<not> IsZero (tv_At v)"
  shows "\<exists>q'. Compile (inp\<lparr>in_Variables := v\<rparr>) = Inr q' \<and> cq_Kind q' = cq_Kind q \<and> cq_Columns q' = cq_Columns q \<and>
    length (cq_Args q') = length (cq_Args q) \<and> (user_query inp \<or> cq_SQL q' = cq_SQL q)"
  using keepsD [OF compile_at [OF assms(2), of inp] assms(1)] by (auto simp: restated_def later_def)

text \<open>A null rule on the rows of yesterday, compiled at two instants a week apart.\<close>

definition yesterdays_rule :: CompileInput where
  "yesterdays_rule = example_input\<lparr>
     in_Target := example_target\<lparr>rt_Columns := rt_Columns example_target @
       [\<lparr>ci_Name = ''c'', ci_Type = ''date'', ci_Kind = KindTemporal, ci_Nullable = True\<rparr>]\<rparr>,
     in_Filter := [\<lparr>fc_Column = ''c'', fc_Op = FilterEQ, fc_Values = [''${today-1d}'']\<rparr>],
     in_Variables := \<lparr>tv_At = 5 * second, tv_Location = None\<rparr>\<rparr>"

definition bound_values :: "CompileInput \<Rightarrow> arg list" where
  "bound_values inp = (case Compile inp of Inl _ \<Rightarrow> [] | Inr q \<Rightarrow> cq_Args q)"

lemma yesterdays_values:
  "bound_values yesterdays_rule = [TextArg ''0000-12-31'', FloatArg (Fin 2)]"
  "bound_values (yesterdays_rule\<lparr>in_Variables := \<lparr>tv_At = 7 * day_seconds * second, tv_Location = None\<rparr>\<rparr>) =
     [TextArg ''0001-01-07'', FloatArg (Fin 2)]"
  by code_simp+

lemma clock_moves_only_values_witness:
  "\<exists>q q'. Compile yesterdays_rule = Inr q \<and>
     Compile (yesterdays_rule\<lparr>in_Variables := \<lparr>tv_At = 7 * day_seconds * second, tv_Location = None\<rparr>\<rparr>) = Inr q' \<and>
     cq_SQL q' = cq_SQL q \<and> cq_Args q' \<noteq> cq_Args q"
proof -
  let ?later = "\<lparr>tv_At = 7 * day_seconds * second, tv_Location = None\<rparr>"
  obtain q where q: "Compile yesterdays_rule = Inr q"
    using yesterdays_values(1) by (auto simp: bound_values_def split: sum.splits)
  have "\<not> IsZero (tv_At ?later)" by (simp add: IsZero_def zero_time_def second_def day_seconds_def)
  moreover have "\<not> user_query yesterdays_rule" by (simp add: yesterdays_rule_def example_input_def user_query_def)
  ultimately show ?thesis
    using clock_moves_only_values [OF q, of ?later] yesterdays_values by (auto simp: bound_values_def q)
qed

end
