(* ===== verification/Quality_Validate_Laws.thy ===== *)
theory Quality_Validate_Laws
  imports Quality_Validate Quality_Clock Quality_Laws
begin

text \<open>
  What the save path promises. The validators mirror the compilers: a configuration they accept compiles, at
  the time it is saved and at every other, but for the checks listed in \<open>compiler_sees\<close>.
\<close>

subsection \<open>Results that are no error\<close>

definition succeeds :: "'e + 'a \<Rightarrow> bool" where
  "succeeds r \<longleftrightarrow> (case r of Inl _ \<Rightarrow> False | Inr _ \<Rightarrow> True)"

lemma succeeds_Inr [simp]: "succeeds (Inr x)" "\<not> succeeds (Inl e)"
  by (simp_all add: succeeds_def)

lemma succeeds_iff: "succeeds r \<longleftrightarrow> (\<exists>x. r = Inr x)"
  by (cases r) simp_all

lemma succeedsE: "succeeds r \<Longrightarrow> (\<And>x. r = Inr x \<Longrightarrow> P) \<Longrightarrow> P"
  by (cases r) simp_all

lemma succeeds_unit: "succeeds r \<longleftrightarrow> r = Inr ()"
  by (cases r) simp_all

lemma succeeds_bind: "succeeds (bind_result r f) \<longleftrightarrow> (\<exists>x. r = Inr x \<and> succeeds (f x))"
  by (cases r) (simp_all add: bind_result_def)

lemma succeeds_seq: "succeeds (bind_result r (\<lambda>_. k)) \<longleftrightarrow> succeeds r \<and> succeeds k"
  by (cases r) (simp_all add: bind_result_def)

lemma succeeds_bindE: "succeeds (bind_result r f) \<Longrightarrow> (\<And>x. r = Inr x \<Longrightarrow> succeeds (f x) \<Longrightarrow> P) \<Longrightarrow> P"
  by (cases r) (simp_all add: bind_result_def)

lemma succeeds_check: "succeeds (check_result c err r) \<longleftrightarrow> c = None \<and> succeeds r"
  by (cases c) (simp_all add: check_result_def)

lemma succeeds_map: "succeeds (map_sum f g r) \<longleftrightarrow> succeeds r"
  by (cases r) simp_all

lemma succeeds_column: "succeeds (column_result r) \<longleftrightarrow> succeeds r"
  by (simp add: column_result_def succeeds_map)

lemma succeeds_guard: "succeeds (if p then Inl e else r) \<longleftrightarrow> \<not> p \<and> succeeds r"
  by simp

lemma succeeds_done: "succeeds (done_if c err) \<longleftrightarrow> c = None"
  by (simp add: done_if_def succeeds_check)

lemma succeeds_keeps: "keeps R r r' \<Longrightarrow> succeeds r \<Longrightarrow> succeeds r'"
  by (auto simp: keeps_def succeeds_iff)

lemma succeeds_collect: "succeeds (collect_results f xs) \<longleftrightarrow> list_all (\<lambda>x. succeeds (f x)) xs"
proof (induction xs)
  case (Cons x xs)
  then show ?case by (cases "f x") (simp_all add: bind_result_def succeeds_map)
qed simp

lemmas succ = succeeds_guard succeeds_bind succeeds_check succeeds_map succeeds_column succeeds_done column_result_Inr

subsection \<open>The gates on thresholds\<close>

lemma count_check_ok: "succeeds (count_check config c) \<Longrightarrow> in_Config inp = config \<Longrightarrow>
    count_thresholds_ok inp c r = r"
  by (simp add: count_check_def succeeds_done count_thresholds_ok_def count_gate check_result_def)

subsection \<open>What a column can do\<close>

lemma in_table: "list_all (\<lambda>(_, c). p c) table \<Longrightarrow> p noCapabilities \<Longrightarrow> p (lookup_capabilities table name)"
  by (auto simp: lookup_capabilities_def list_all_iff dest!: map_of_SomeD split: option.splits)

abbreviation value_implies_comparison :: "columnCapabilities \<Rightarrow> bool" where
  "value_implies_comparison c \<equiv> cap_valueComparison c \<longrightarrow> cap_comparison c"

lemmas capability_defs = noCapabilities_def groupable_def equatable_def textCapabilities_def scalarCapabilities_def
  geometric_def mssqlTextCapabilities_def

lemma value_tables:
  "list_all (\<lambda>(_, c). value_implies_comparison c) postgresTypeCapabilities"
  "list_all (\<lambda>(_, c). value_implies_comparison c) mssqlTypeCapabilities"
  "list_all (\<lambda>(_, c). value_implies_comparison c) mysqlTypeCapabilities"
  "list_all (\<lambda>(_, c). value_implies_comparison c) starrocksTypeCapabilities"
  "list_all (\<lambda>(_, c). value_implies_comparison c) dorisTypeCapabilities"
  by (simp_all add: postgresTypeCapabilities_def mssqlTypeCapabilities_def mysqlTypeCapabilities_def
      starrocksTypeCapabilities_def dorisTypeCapabilities_def capability_defs Let_def)

lemma value_basic: "value_implies_comparison noCapabilities" "value_implies_comparison equatable"
  "value_implies_comparison scalarCapabilities" "value_implies_comparison textCapabilities"
  "value_implies_comparison groupable" "value_implies_comparison (postgresArrayFromElement c)"
  "value_implies_comparison (geometric\<lparr>cap_grouping := True\<rparr>)"
  by (simp_all add: capability_defs postgresArrayFromElement_def)

lemma value_postgres: "value_implies_comparison (postgresStringCapabilities raw)"
  unfolding postgresStringCapabilities.simps [of raw] Let_def
  using value_basic in_table [where p = value_implies_comparison, OF value_tables(1) value_basic(1)]
  by (auto split del: if_split split: if_splits)

lemma value_comparison: "cap_valueComparison (capabilitiesFor engine column) \<Longrightarrow> cap_comparison (capabilitiesFor engine column)"
proof -
  have table: "value_implies_comparison (lookup_capabilities table name)"
    if "list_all (\<lambda>(_, c). value_implies_comparison c) table" for table name
    by (rule in_table [where p = value_implies_comparison, OF that value_basic(1)])
  have star: "value_implies_comparison (starrocksStringCapabilities raw)" for raw
    unfolding starrocksStringCapabilities_def Let_def starrocksArrayCapabilities_def
    using value_basic table [OF value_tables(4)] by (simp add: capability_defs)
  have doris: "value_implies_comparison (dorisStringCapabilities raw)" for raw
    unfolding dorisStringCapabilities_def Let_def
    using value_basic table [OF value_tables(5)] by (simp add: capability_defs)
  have "value_implies_comparison (stringCapabilities engine name)" for name
    unfolding stringCapabilities_def mssqlStringCapabilities_def mysqlStringCapabilities_def
    using value_basic value_postgres star doris table [OF value_tables(2)] table [OF value_tables(3)]
    by (cases engine) simp_all
  then show "cap_valueComparison (capabilitiesFor engine column) \<Longrightarrow> cap_comparison (capabilitiesFor engine column)"
    unfolding capabilitiesFor_def using value_basic by (cases "ci_Kind column") simp_all
qed

text \<open>No column of SQL Server has regular expressions.\<close>

lemma regex_engine: "cap_regex (capabilitiesFor engine column) \<Longrightarrow> engine \<noteq> Mssql"
proof
  assume r: "cap_regex (capabilitiesFor engine column)" and e: "engine = Mssql"
  have "list_all (\<lambda>(_, c). \<not> cap_regex c) mssqlTypeCapabilities"
    by (simp add: mssqlTypeCapabilities_def capability_defs)
  then have "\<not> cap_regex (lookup_capabilities mssqlTypeCapabilities name)" for name
    by (rule in_table) (simp add: capability_defs)
  then show False using r
    by (simp add: e capabilitiesFor_def stringCapabilities_def mssqlStringCapabilities_def capability_defs split: ColumnKind.splits)
qed

subsection \<open>A target that can be read\<close>

text \<open>The table quotes, the filter compiles, and the sampling is one the dialect has.\<close>

definition ready :: "CompileInput \<Rightarrow> bool" where
  "ready inp \<longleftrightarrow> DialectFor (rt_Engine (in_Target inp)) = Some (in_Dialect inp) \<and>
     succeeds (compileTable (in_Dialect inp) (in_Target inp)) \<and> succeeds (whereClause inp) \<and> succeeds (scanRelation inp)"

lemma readyD: "ready inp \<Longrightarrow> (\<exists>table. compileTable (in_Dialect inp) (in_Target inp) = Inr table) \<and>
    (\<exists>conds args. whereClause inp = Inr (conds, args)) \<and> (\<exists>relation conds args. scanRelation inp = Inr (relation, conds, args))"
  by (auto simp: ready_def succeeds_iff)

lemma total_rows_ok: "ready inp \<Longrightarrow> succeeds (compileTotalRows inp)"
  using readyD [of inp] by (auto simp: compileTotalRows_def succ)

lemma null_ok:
  assumes "ready inp" "succeeds (validateNullPercentConfig pk (in_Target inp) c)" "pk_Unicode pk = in_Unicode inp"
  shows "succeeds (compileNullPercent inp c)"
proof -
  have comparison: "requireValueComparisonColumn target name = Inr x \<Longrightarrow> \<exists>y. requireComparisonColumn target name = Inr y"
    for target name x
    by (auto simp: requireValueComparisonColumn_def requireComparisonColumn_def require_capability_def
        dest: value_comparison split: sum.splits if_splits)
  show ?thesis using assms readyD [OF assms(1)]
    by (cases "np_NullValues c = []")
      (auto simp: compileNullPercent_def validateNullPercentConfig_def succ null_gate Let_def case_prod_unfold
        dest!: comparison)
qed

lemma unique_column_ok: "requireGroupingColumn (in_Target inp) name = Inr column \<Longrightarrow>
    succeeds (if countNulls then Inr column else column_result (requireNullTestColumn (in_Target inp) (ci_Name column))) \<Longrightarrow>
    unique_column inp countNulls name = Inr (ci_Name column)"
  by (cases countNulls) (auto simp: unique_column_def succ column_result_def bind_result_def succeeds_iff)

lemma unique_query_ok: "ready inp \<Longrightarrow> succeeds (compileUniqueQuery inp columns countNulls)"
  using readyD [of inp] by (auto simp: compileUniqueQuery_def succ Let_def)

lemma unique_ok:
  assumes "ready inp" "succeeds (validateUniqueConfig (in_Target inp) (in_Config inp) c)"
  shows "succeeds (compileUnique inp c)"
proof -
  let ?name = "uq_Column c"
  obtain column where column: "requireGroupingColumn (in_Target inp) ?name = Inr column"
      "succeeds (if uq_CountNulls c then Inr column else column_result (requireNullTestColumn (in_Target inp) ?name))"
      "succeeds (count_check (in_Config inp) c)"
    using assms(2) unfolding validateUniqueConfig_def
    by (auto simp: succeeds_seq column_result_Inr elim!: succeeds_bindE split del: if_split)
  have name: "ci_Name column = ?name" using column(1) require_name unfolding requireGroupingColumn_def by blast
  have "unique_column inp (uq_CountNulls c) ?name = Inr (ci_Name column)"
    by (rule unique_column_ok [OF column(1)]) (use column(2) in \<open>simp only: name\<close>)
  then show ?thesis using column(3) unique_query_ok [OF assms(1)]
    by (simp add: compileUnique_def bind_result_def count_check_ok)
qed

lemma combination_columns: "succeeds (combinationLoop (in_Target inp) countNulls names names') \<Longrightarrow>
    succeeds (collect_results (unique_column inp countNulls) names)"
proof (induction names arbitrary: names')
  case (Cons name names)
  then obtain column where column: "requireGroupingColumn (in_Target inp) name = Inr column"
      "succeeds (bind_result (if countNulls then Inr column else column_result (requireNullTestColumn (in_Target inp) (ci_Name column)))
        (\<lambda>_. combinationLoop (in_Target inp) countNulls names (names' @ [ci_Name column])))"
    by (auto simp: column_result_Inr elim!: succeeds_bindE split: if_splits)
  then have "succeeds (if countNulls then Inr column else column_result (requireNullTestColumn (in_Target inp) (ci_Name column)))"
      "succeeds (combinationLoop (in_Target inp) countNulls names (names' @ [ci_Name column]))"
    by (simp_all only: succeeds_seq)
  with Cons.IH unique_column_ok [OF column(1)] show ?case
    by (simp add: bind_result_def succeeds_map)
qed simp

lemma combination_ok:
  assumes "ready inp" "succeeds (validateUniqueCombinationConfig (in_Target inp) (in_Config inp) c)"
  shows "succeeds (compileUniqueCombination inp c)"
  using assms readyD [OF assms(1)]
    unique_query_ok [OF assms(1)]
  by (auto simp: compileUniqueCombination_def validateUniqueCombinationConfig_def succ count_check_ok
      Let_def succeeds_unit [symmetric] dest!: combination_columns simp: succeeds_iff [of "collect_results _ _"])

lemma length_ok:
  assumes "ready inp" "succeeds (validateStringLengthConfig (in_Target inp) (in_Config inp) c)"
  shows "succeeds (compileStringLength inp c)"
  using assms readyD [OF assms(1)]
  by (auto simp: compileStringLength_def validateStringLengthConfig_def validateLengthColumn_def succ count_check_ok
      Let_def case_prod_unfold map_sum_Inr)

lemma freshness_ok:
  assumes "ready inp" "succeeds (validateFreshnessConfig (in_Target inp) c)"
  shows "succeeds (compileFreshness inp c)"
  using assms readyD [OF assms(1)]
  by (auto simp: compileFreshness_def validateFreshnessConfig_def validateTemporalColumn_def compileTemporalColumn_def
      validateFreshnessBounds_def FreshnessConfig.defs succ Let_def opt_negative_def opt_less_def
      split: sum.splits if_splits option.splits)

lemma cel_ok:
  assumes "ready inp" "succeeds (validateCELExpressionConfig pk (in_Target inp) (in_Config inp) c)" "pk_Unicode pk = in_Unicode inp"
  shows "succeeds (compileCelExpression inp c)"
  using assms readyD [OF assms(1)]
  by (auto simp: compileCelExpression_def validateCELExpressionConfig_def succ Let_def)

lemma standard_ok:
  assumes "ready inp" "succeeds (validateStandardCodeConfig pk (in_Target inp) (in_Config inp) c)"
  shows "succeeds (compileStandardCode inp c)"
  using assms readyD [OF assms(1)]
  by (auto simp: compileStandardCode_def validateStandardCodeConfig_def succ Let_def)

lemma group_ok:
  assumes "ready inp" "succeeds (validateGroupCheckConfig pk (in_Target inp) (in_Config inp) c)" "pk_Unicode pk = in_Unicode inp"
  shows "succeeds (compileGroupCheck inp c)"
  using assms readyD [OF assms(1)]
  by (auto simp: compileGroupCheck_def validateGroupCheckConfig_def succ count_check_ok Let_def case_prod_unfold)

lemma segment_ok:
  assumes "ready inp" "succeeds (validateSegmentCheckConfig pk (in_Target inp) (in_Config inp) c)" "pk_Unicode pk = in_Unicode inp"
  shows "succeeds (compileSegmentCheck inp c)"
  using assms readyD [OF assms(1)]
  by (auto simp: compileSegmentCheck_def validateSegmentCheckConfig_def succ count_gate Let_def)

lemma cross_failure_ok: "validateComparisonOperator op = Inr () \<Longrightarrow> \<exists>t. compileCrossColumnFailure l r op tolerance p = Inr t"
  by (cases op; cases tolerance)
    (simp_all add: validateComparisonOperator_def compileCrossColumnFailure_def compileComparisonOperator_def bind_result_def)

lemma comparable_same: "validateComparableColumn = compileComparableColumn"
  by (intro ext) (simp add: validateComparableColumn_def compileComparableColumn_def)

lemma cross_ok:
  assumes "ready inp" "succeeds (validateCrossColumnConfig (in_Target inp) (in_Config inp) c)"
  shows "succeeds (compileCrossColumn inp c)"
proof -
  have op: "validateComparisonOperator (cc_Op c) = Inr ()"
    using assms(2) by (auto simp: validateCrossColumnConfig_def succ split: if_splits)
  then have "cc_Op c \<noteq> CMP_UNSPECIFIED" by (auto simp: validateComparisonOperator_def)
  then show ?thesis using assms readyD [OF assms(1)] cross_failure_ok [OF op]
    by (cases "cc_Tolerance c")
      (auto simp: compileCrossColumn_def validateCrossColumnConfig_def comparable_same op succ count_check_ok
        Let_def case_prod_unfold succeeds_iff [of "compileCrossColumnFailure _ _ _ _ _"])
qed

text \<open>The two values of a range as the two gates read them.\<close>

lemma convert_same: "compileValueArg uni column = convertFilterValue uni column"
  by (intro ext) (simp add: compileValueArg_def convertFilterValue_def split: ColumnKind.splits)

lemma range_value_ok: "succeeds (opt_bound pk column bound) \<Longrightarrow> ci_Kind column \<in> {KindNumeric, KindTemporal} \<Longrightarrow>
    succeeds (range_value (pk_Unicode pk) column bound)"
  by (cases bound)
    (auto simp: opt_bound_def range_value_def validateRangeBound_def succ convert_same convertFilterValue_def)

lemma range_uncrossed:
  assumes "succeeds (opt_bound pk column low)" "succeeds (opt_bound pk column high)"
    "range_value (pk_Unicode pk) column low = Inr a" "range_value (pk_Unicode pk) column high = Inr b"
    "ci_Kind column \<in> {KindNumeric, KindTemporal}"
    "\<not> f_opt_less (range_float pk column high) (range_float pk column low)"
  shows "\<not> range_crossed a b"
proof -
  have number: "Option.bind a numericValue = range_float pk column bound"
    if "range_value (pk_Unicode pk) column bound = Inr a" for bound a
    using that assms(5)
    by (cases bound) (auto simp: range_value_def range_float_def compileValueArg_def numericValue_def map_sum_Inr
        split: option.splits dest!: ParseInt_ParseFloat)
  show ?thesis using assms(6) number [OF assms(3)] number [OF assms(4)]
    by (simp add: range_crossed_def f_opt_less_def split: option.splits)
qed

lemma range_ok:
  assumes "ready inp" "succeeds (validateRangeConfig pk (in_Target inp) (in_Config inp) c)" "pk_Unicode pk = in_Unicode inp"
  shows "succeeds (compileRange inp c)"
proof -
  obtain column where column: "compileComparableColumn (in_Target inp) (rg_Column c) = Inr column"
      "\<not> (rg_Min c = None \<and> rg_Max c = None)" "succeeds (opt_bound pk column (rg_Min c))" "succeeds (opt_bound pk column (rg_Max c))"
      "\<not> f_opt_less (range_float pk column (rg_Max c)) (range_float pk column (rg_Min c))" "succeeds (count_check (in_Config inp) c)"
    using assms(2) unfolding validateRangeConfig_def comparable_same
    by (auto simp: succeeds_seq succeeds_guard column_result_Inr elim!: succeeds_bindE)
  have kind: "ci_Kind column \<in> {KindNumeric, KindTemporal}"
    using column(1) by (auto simp: compileComparableColumn_def split: sum.splits if_splits)
  obtain a b where ab: "range_value (in_Unicode inp) column (rg_Min c) = Inr a" "range_value (in_Unicode inp) column (rg_Max c) = Inr b"
    using range_value_ok [OF column(3) kind] range_value_ok [OF column(4) kind] by (auto simp: assms(3) succeeds_iff)
  have "\<not> range_crossed a b"
    by (rule range_uncrossed [OF column(3,4) _ _ kind column(5)]) (simp_all add: ab assms(3))
  then show ?thesis using readyD [OF assms(1)] column(2)
    by (auto simp: compileRange_def column_result_def column(1) bind_result_def ab count_check_ok [OF column(6)] Let_def case_prod_unfold)
qed

lemma aggregate_ok:
  assumes "ready inp" "succeeds (validateAggregateConfig (in_Target inp) c)"
  shows "succeeds (compileAggregate inp c)"
proof -
  obtain column where column: "requireColumn (in_Target inp) (ag_Column c) = Inr column"
      "ag_Function c \<noteq> AGG_COUNT" "aggregateFunctionSupported (rt_Engine (in_Target inp)) (ag_Function c)"
      "ag_Function c = AGG_PERCENTILE \<Longrightarrow> \<exists>p. ag_Percentile c = Some p \<and> \<not> f_less p (Fin 0) \<and> \<not> f_less (Fin 100) p"
    using assms(2) unfolding validateAggregateConfig_def Let_def
    by (auto simp: succeeds_seq succeeds_guard column_result_Inr elim!: succeeds_bindE split: option.splits if_splits)
  have d: "ag_Function c = AGG_PERCENTILE \<Longrightarrow> in_Dialect inp \<in> {postgresDialect, mssqlDialect}"
    using assms(1) column(3) by (auto simp: ready_def DialectFor_def aggregateFunctionSupported_def isMySQLWireEngine_def)
  show ?thesis
  proof (cases "ag_Function c = AGG_PERCENTILE")
    case True
    then obtain p where p: "ag_Percentile c = Some p" "\<not> f_less p (Fin 0)" "\<not> f_less (Fin 100) p" using column(4) by blast
    have place: "fst (ca_add (in_Dialect inp) v a) \<noteq> []" for v a
      by (simp add: ca_add_def Let_def Placeholder_some)
    show ?thesis using readyD [OF assms(1)] d [OF True] place
      by (auto simp: compileAggregate_def True column(1) p bind_result_def aggregateExpression_def Let_def case_prod_unfold)
  next
    case False
    then obtain t where t: "aggregateExpression (in_Dialect inp) (ag_Function c) (QuoteIdentifier (in_Dialect inp) (ci_Name column)) [] = Inr t"
      using column(2,3) by (cases "in_Dialect inp"; cases "ag_Function c") (auto simp: aggregateExpression_def aggregateFunctionSupported_def)
    then show ?thesis using readyD [OF assms(1)] False column(2)
      by (auto simp: compileAggregate_def column(1) bind_result_def Let_def case_prod_unfold t)
  qed
qed

lemma stripped: "\<exists>t. s = TrimRight is_sql_tail s @ t \<and> tail_text t"
proof -
  have "s = TrimRight is_sql_tail s @ rev (takeWhile is_sql_tail (rev s))"
    unfolding TrimRight_def rev_append [symmetric] by (simp add: takeWhile_dropWhile_id)
  moreover have "tail_text (rev (takeWhile is_sql_tail (rev s)))"
    by (auto simp: tail_text_def list_all_iff dest: set_takeWhileD)
  ultimately show ?thesis by blast
qed

lemma stripped_renders: "RenderCustomSQLVariables s v = Inr r \<Longrightarrow> \<exists>r. RenderCustomSQLVariables (TrimRight is_sql_tail s) v = Inr r"
  using stripped [of s] rendered_tail by metis

lemma stripped_shorter: "length (TrimRight is_sql_tail s) \<le> length s"
  using stripped [of s] by (metis le_add1 length_append)

lemma accepted_ok:
  assumes "ready inp" "succeeds (validateAcceptedValuesConfig pk (in_Target inp) (in_Config inp) c)"
    "pk_Unicode pk = in_Unicode inp" "pk_SQL pk = in_SQL inp" "pk_Derived pk = in_Derived inp"
    "in_Variables inp = referenceTimeVariables"
  shows "succeeds (compileAcceptedValues inp c)"
proof -
  obtain source column where column: "acceptedValuesSourceOf (in_Unicode inp) c = Inr source"
      "acceptedValuesColumn (in_Target inp) c source = Inr column"
      "succeeds (validateAcceptedValuesSource pk (in_Target inp) c source column)" "succeeds (count_check (in_Config inp) c)"
    using assms(2) unfolding validateAcceptedValuesConfig_def assms(3)
    by (auto simp: succeeds_seq elim!: succeeds_bindE)
  obtain table where table: "compileTable (in_Dialect inp) (in_Target inp) = Inr table" using readyD [OF assms(1)] by blast
  have engine: "rt_Engine (in_Target inp) \<noteq> NoEngine"
    using assms(1) by (auto simp: ready_def DialectFor_def isMySQLWireEngine_def)
  have condition: "succeeds (acceptedValuesCondition inp c column add s)" for add :: "arg \<Rightarrow> compileArgs \<Rightarrow> string \<times> compileArgs" and s
  proof (cases source)
    case acceptedValuesList
    then show ?thesis using column(3)
      by (cases "collect_results (convertFilterValue (in_Unicode inp) column) (av_Values c)")
        (auto simp: acceptedValuesCondition_def column(1) bind_result_def validateAcceptedValuesSource_def assms(3) convert_same
          succeeds_map Let_def case_prod_unfold split: if_splits)
  next
    case acceptedValuesField
    then obtain reference where "acceptedValuesFieldColumn (in_Unicode inp) (in_Target inp) c column = Inr reference"
      using column(3) by (auto simp: validateAcceptedValuesSource_def assms(3) succeeds_map elim: succeedsE)
    then show ?thesis
      by (simp add: acceptedValuesCondition_def column(1) acceptedValuesField acceptedValuesFieldSet_def bind_result_def table Let_def)
  next
    case acceptedValuesQuery
    then have valid: "validateAcceptedValuesQuery (in_Unicode inp) (in_SQL inp) (in_Derived inp) (rt_Engine (in_Target inp)) (av_Query c) = None"
      using column(3) by (simp add: validateAcceptedValuesSource_def succeeds_done assms(3-5))
    obtain q where q: "av_Query c = Some q" using valid by (cases "av_Query c") (simp_all add: validateAcceptedValuesQuery_def)
    obtain r where "RenderCustomSQLVariables (GoTrimSpace (in_Unicode inp) (avq_Sql q)) referenceTimeVariables = Inr r"
      using valid by (auto simp: validateAcceptedValuesQuery_def q ValidateCustomSQL_def customSQLForParsing_def Let_def
          split: if_splits option.splits sum.splits)
    then obtain r' where "RenderCustomSQLVariables (TrimRight is_sql_tail (GoTrimSpace (in_Unicode inp) (avq_Sql q))) referenceTimeVariables = Inr r'"
      using stripped_renders by blast
    then show ?thesis
      by (simp add: acceptedValuesCondition_def column(1) acceptedValuesQuery acceptedValuesQuerySet_def engine valid [unfolded q] q
          assms(6) bind_result_def check_result_def Let_def)
  qed
  obtain relation conds args where scan: "scanRelation inp = Inr (relation, conds, args)" using readyD [OF assms(1)] by blast
  obtain x where "acceptedValuesCondition inp c column (ca_add (in_Dialect inp)) (newCompileArgs args) = Inr x"
    using condition by (rule succeedsE)
  then show ?thesis
    by (simp add: compileAcceptedValues_def column(1,2) bind_result_def scan count_check_ok [OF column(4)] case_prod_unfold)
qed

subsection \<open>What only a compiler sees\<close>

text \<open>
  The checks a compiler makes and \<open>ValidateConfig\<close> does not: the thresholds of a regex rule, which its validator
  is not handed; the operators of a child column; the parser's verdict on a statement without its tail; and the
  other relation of a reconciliation, where it is read in the same statement.
\<close>

definition right_side_ok :: "packages \<Rightarrow> CrossTableRule \<Rightarrow> ResolvedTarget \<Rightarrow> bool" where
  "right_side_ok pk c reference \<longleftrightarrow>
     (case DialectFor (rt_Engine reference) of
        None \<Rightarrow> False
      | Some d \<Rightarrow> succeeds (QuoteTable d reference)) \<and>
     (xt_RightFunction c = AGG_COUNT \<or>
        succeeds (requireColumn reference (GoTrimSpace (pk_Unicode pk) (xt_RightColumn c)))) \<and>
     succeeds (validateFilter pk reference (xt_RightFilter c))"

definition compiler_sees :: "packages \<Rightarrow> ResolvedTarget \<Rightarrow> rule_config \<Rightarrow> ResolvedTarget option \<Rightarrow> bool" where
  "compiler_sees pk target config reference \<longleftrightarrow>
     (case rc_Arm config of
        RegexC c \<Rightarrow> compileValidateCountThresholds (verdict_config config) (FailThreshold c) (WarnThreshold c) = None
      | ReferentialIntegrityC c \<Rightarrow> succeeds (requireComparisonColumn target (ri_ChildColumn c))
      | CustomSqlC c \<Rightarrow>
          ValidateCustomSQL (pk_Unicode pk) (pk_SQL pk) (rt_Engine target)
            (TrimRight is_sql_tail (GoTrimSpace (pk_Unicode pk) (cs_Sql c))) = None
      | CrossTableC c \<Rightarrow>
          (case reference of
             None \<Rightarrow> False
           | Some r \<Rightarrow> \<not> ReferenceSharesConnection target r \<or> right_side_ok pk c r)
      | _ \<Rightarrow> True)"

lemma regex_iff:
  assumes "ready inp" "succeeds (validateRegexConfig pk (in_Target inp) c)" "pk_Unicode pk = in_Unicode inp"
  shows "succeeds (compileRegex inp c) \<longleftrightarrow>
    compileValidateCountThresholds (verdict_config (in_Config inp)) (FailThreshold c) (WarnThreshold c) = None"
proof -
  obtain column where column: "requireRegexColumn (in_Target inp) (rx_Column c) = Inr column"
      "GoTrimSpace (in_Unicode inp) (rx_Pattern c) \<noteq> []"
    using assms(2) unfolding validateRegexConfig_def validateRegexColumn_def Let_def assms(3)
    by (auto simp: succeeds_seq succeeds_guard succeeds_map elim: succeedsE)
  have "in_Dialect inp \<noteq> mssqlDialect"
    using assms(1) column(1) regex_engine
    by (auto simp: ready_def DialectFor_def requireRegexColumn_def require_capability_def split: if_splits sum.splits)
  then obtain operator where "compileRegexNotMatch (in_Dialect inp) = Inr operator"
    by (cases "in_Dialect inp") (auto simp: compileRegexNotMatch_def SupportsRegex_def)
  then show ?thesis using readyD [OF assms(1)] column(2)
    by (auto simp: compileRegex_def column_result_def column(1) bind_result_def Let_def case_prod_unfold
        count_thresholds_ok_def succeeds_check)
qed

lemma Split_parts: "GoTrimSpace uni part \<noteq> [] \<Longrightarrow> part \<noteq> []"
  by (auto simp: GoTrimSpace_def TrimSpace_def TrimLeft_def TrimRight_def)

lemma parent_ok:
  assumes "ready inp" "relatedTableName uni (in_Target inp) spec = Inr (schema, table)"
  shows "\<exists>t. compileTable (in_Dialect inp) (in_Target inp\<lparr>rt_Schema := schema, rt_Table := table\<rparr>) = Inr t"
proof -
  obtain t where t: "QuoteTable (in_Dialect inp) (in_Target inp) = Inr t"
    using readyD [OF assms(1)] by (auto simp: compileTable_def)
  have "table \<noteq> []" "schema = (if isMySQLWireEngine (rt_Engine (in_Target inp)) then [] else rt_Schema (in_Target inp))"
    using assms(2) Split_parts by (auto simp: relatedTableName_def Let_def list_ex_iff split: if_splits list.splits)
  then show ?thesis using t assms(1)
    by (auto simp: compileTable_def QuoteTable_def ready_def DialectFor_def split: Dialect.splits if_splits)
qed

lemma referential_iff:
  assumes "ready inp" "succeeds (validateReferentialIntegrityConfig pk (in_Target inp) (in_Config inp) c)"
    "pk_Unicode pk = in_Unicode inp"
  shows "succeeds (compileReferentialIntegrity inp c) \<longleftrightarrow> succeeds (requireComparisonColumn (in_Target inp) (ri_ChildColumn c))"
proof -
  obtain schema table where parts: "relatedTableName (in_Unicode inp) (in_Target inp) (ri_ParentTable c) = Inr (schema, table)"
      "GoTrimSpace (in_Unicode inp) (ri_ParentColumn c) \<noteq> []" "succeeds (count_check (in_Config inp) c)"
    using assms(2) unfolding validateReferentialIntegrityConfig_def parentTableName_def assms(3)
    by (auto simp: succeeds_seq succeeds_guard succeeds_iff [of "relatedTableName _ _ _"])
  obtain t where t: "compileTable (in_Dialect inp) (in_Target inp\<lparr>rt_Schema := schema, rt_Table := table\<rparr>) = Inr t"
    using parent_ok [OF assms(1) parts(1)] by blast
  show ?thesis using readyD [OF assms(1)] parts(2)
    by (cases "requireComparisonColumn (in_Target inp) (ri_ChildColumn c)")
      (auto simp: compileReferentialIntegrity_def compileParentTable_def parts(1) bind_result_def t Let_def
        count_check_ok [OF parts(3)] column_result_def)
qed

lemma custom_iff:
  assumes "ready inp" "succeeds (validateCustomSQLConfig pk (in_Target inp) (in_Config inp) c)"
    "pk_Unicode pk = in_Unicode inp" "pk_SQL pk = in_SQL inp" "in_Variables inp = referenceTimeVariables"
  shows "succeeds (compileCustomSQL inp c) \<longleftrightarrow> ValidateCustomSQL (in_Unicode inp) (in_SQL inp) (rt_Engine (in_Target inp))
      (TrimRight is_sql_tail (GoTrimSpace (in_Unicode inp) (cs_Sql c))) = None"
proof -
  let ?trimmed = "GoTrimSpace (in_Unicode inp) (cs_Sql c)"
  let ?userSQL = "TrimRight is_sql_tail ?trimmed"
  have valid: "ValidateCustomSQL (in_Unicode inp) (in_SQL inp) (rt_Engine (in_Target inp)) (cs_Sql c) = None"
      "succeeds (count_check (in_Config inp) c)"
    using assms(2) by (simp_all add: validateCustomSQLConfig_def succeeds_check assms(3,4))
  have engine: "rt_Engine (in_Target inp) \<noteq> NoEngine"
    using assms(1) by (auto simp: ready_def DialectFor_def isMySQLWireEngine_def)
  have size: "length ?trimmed \<le> maxCustomSQLBytes"
    using valid(1) by (auto simp: ValidateCustomSQL_def Let_def split: if_splits)
  obtain r where "RenderCustomSQLVariables ?trimmed referenceTimeVariables = Inr r"
    using valid(1) by (auto simp: ValidateCustomSQL_def customSQLForParsing_def Let_def split: if_splits sum.splits)
  then obtain r' where r': "RenderCustomSQLVariables ?userSQL referenceTimeVariables = Inr r'"
    using stripped_renders by blast
  have "\<not> compileMaxCustomSQLLength < length ?userSQL"
    using size stripped_shorter [of ?trimmed] by (simp add: maxCustomSQLBytes_def)
  moreover have "ValidateCustomSQL (in_Unicode inp) (in_SQL inp) (rt_Engine (in_Target inp)) [] \<noteq> None"
    by (simp add: ValidateCustomSQL_def GoTrimSpace_def TrimSpace_def TrimLeft_def TrimRight_def)
  ultimately show ?thesis using engine
    by (auto simp: compileCustomSQL_def Let_def succeeds_check count_check_ok [OF valid(2)] assms(5) r' succeeds_map)
qed

lemma clauses_offset: "succeeds (compileClauses uni d target n cs conds args) \<longleftrightarrow> succeeds (compileClauses uni d target 0 cs [] [])"
proof (induction cs arbitrary: n conds args)
  case (Cons c cs)
  define k where "k = succeeds (compileClauses uni d target 0 cs [] [])"
  have step: "succeeds (compileClauses uni d target n cs a b) = k" for n a b
    unfolding k_def by (rule Cons.IH)
  show ?case
  proof (cases "rt_Column target (fc_Column c)")
    case (Some column)
    show ?thesis
      by (cases "convertFilterValues uni column (fc_Values c)")
        (simp_all add: Some step bind_result_def case_prod_unfold Let_def)
  qed simp
qed simp

lemma filter_offset: "succeeds (CompileFilterAfter uni d target cs n) \<longleftrightarrow> succeeds (CompileFilter uni d target cs)"
  using clauses_offset [of uni d target n cs "[]" "[]"]
  by (simp add: CompileFilter_def CompileFilterAfter_def succeeds_map)

lemma expression_ok:
  assumes "crossTableFunctionSupported function"
  shows "succeeds (crossTableExpression uni d function column target) \<longleftrightarrow>
    function = AGG_COUNT \<or> succeeds (requireColumn target (GoTrimSpace uni column))"
proof (cases "function = AGG_COUNT")
  case False
  then have "\<exists>t. aggregateExpression d function q [] = Inr t" for q
    using assms by (auto simp: crossTableFunctionSupported_def aggregateExpression_def)
  then have "succeeds (aggregateExpression d function q [])" for q by (simp add: succeeds_iff)
  then show ?thesis using False
    by (cases "requireColumn target (GoTrimSpace uni column)")
      (auto simp: crossTableExpression_def column_result_def bind_result_def requireColumn_def)
qed (simp add: crossTableExpression_def)

lemma reference_side_iff:
  assumes "crossTableFunctionSupported (xt_RightFunction c)" "succeeds (ParseFilter (in_Unicode inp) (xt_RightFilter c))"
    "pk_Unicode pk = in_Unicode inp" "in_Variables inp = referenceTimeVariables"
  shows "succeeds (compileReferenceSide inp c reference n) \<longleftrightarrow> right_side_ok pk c reference"
proof (cases "DialectFor (rt_Engine reference)")
  case None
  then show ?thesis by (simp add: compileReferenceSide_def right_side_ok_def)
next
  case (Some d)
  obtain conds where conds: "ParseFilter (in_Unicode inp) (xt_RightFilter c) = Inr conds"
    using assms(2) by (rule succeedsE)
  have filter: "succeeds (bind_result (map_sum BadVariable id (ResolveFilterVariables (in_Unicode inp) conds referenceTimeVariables))
      (\<lambda>conds. bind_result (CompileFilterAfter (in_Unicode inp) d reference conds n) (\<lambda>x. Inr (f x)))) \<longleftrightarrow>
    succeeds (validateFilter pk reference (xt_RightFilter c))" for f :: "string \<times> arg list \<Rightarrow> 'b"
  proof (cases "conds = []")
    case True
    then show ?thesis
      by (simp add: validateFilter_def assms(3) conds bind_result_def ResolveFilterVariables_def CompileFilterAfter_def)
  next
    case False
    have "succeeds (bind_result (CompileFilterAfter (in_Unicode inp) d reference cs n) (\<lambda>x. Inr (f x))) \<longleftrightarrow>
        succeeds (map_sum id (\<lambda>_. ()) (CompileFilter (in_Unicode inp) d reference cs))" for cs
      using filter_offset [of "in_Unicode inp" d reference cs n]
      by (cases "CompileFilterAfter (in_Unicode inp) d reference cs n") (simp_all add: bind_result_def succeeds_map)
    then show ?thesis using False
      by (cases "ResolveFilterVariables (in_Unicode inp) conds referenceTimeVariables")
        (simp_all add: validateFilter_def assms(3) conds bind_result_def Some)
  qed
  show ?thesis
  proof (cases "compileTable d reference"; cases "crossTableExpression (in_Unicode inp) d (xt_RightFunction c) (xt_RightColumn c) reference")
  qed (use filter expression_ok [OF assms(1), of "in_Unicode inp" d "xt_RightColumn c" reference] in
      \<open>simp_all add: compileReferenceSide_def right_side_ok_def Some compileTable_def conds assms(3,4) bind_result_def [of "Inr _"] bind_result_def [of "Inl _"] case_prod_unfold\<close>)
qed

lemma cross_table_iff:
  assumes "ready inp" "succeeds (validateCrossTableConfig pk (in_Target inp) (in_Config inp) c)"
    "pk_Unicode pk = in_Unicode inp" "in_Variables inp = referenceTimeVariables"
  shows "succeeds (compileCrossTable inp c) \<longleftrightarrow> (case in_Reference inp of None \<Rightarrow> False
    | Some r \<Rightarrow> \<not> ReferenceSharesConnection (in_Target inp) r \<or> right_side_ok pk c r)"
proof (cases "in_Reference inp")
  case None
  then show ?thesis by (simp add: compileCrossTable_def)
next
  case (Some r)
  have supported: "crossTableFunctionSupported (xt_LeftFunction c)" "crossTableFunctionSupported (xt_RightFunction c)"
      "succeeds (ParseFilter (in_Unicode inp) (xt_RightFilter c))"
      "xt_LeftFunction c = AGG_COUNT \<or> succeeds (requireColumn (in_Target inp) (GoTrimSpace (in_Unicode inp) (xt_LeftColumn c)))"
    using assms(2) unfolding validateCrossTableConfig_def Let_def assms(3)
    by (auto simp: succeeds_seq succeeds_guard column_result_Inr split: if_splits elim!: succeeds_bindE)
  obtain e where e: "crossTableExpression (in_Unicode inp) (in_Dialect inp) (xt_LeftFunction c) (xt_LeftColumn c) (in_Target inp) = Inr e"
    using expression_ok [OF supported(1)] supported(4) by (metis succeeds_iff)
  obtain t conds args where t: "compileTable (in_Dialect inp) (in_Target inp) = Inr t" "whereClause inp = Inr (conds, args)"
    using readyD [OF assms(1)] by blast
  note side = reference_side_iff [OF supported(2,3) assms(3,4), of r "length args"]
  show ?thesis
    by (cases "compileReferenceSide inp c r (length args)")
      (use side supported in \<open>simp_all add: compileCrossTable_def Some e t bind_result_def case_prod_unfold\<close>)
qed

subsection \<open>Accepted configurations compile\<close>

abbreviation saved_input ::
    "packages \<Rightarrow> Dialect \<Rightarrow> ResolvedTarget \<Rightarrow> QualityRuleType \<Rightarrow> rule_config \<Rightarrow> Filter \<Rightarrow> ResolvedTarget option \<Rightarrow> CompileInput" where
  "saved_input pk d target ruleType config conds reference \<equiv>
     rule_input pk d target ruleType config conds referenceTimeVariables reference"

lemma rule_input_simps [simp]:
  "in_Dialect (rule_input pk d target ruleType config conds v reference) = d"
  "in_Target (rule_input pk d target ruleType config conds v reference) = target"
  "in_Type (rule_input pk d target ruleType config conds v reference) = ruleType"
  "in_Config (rule_input pk d target ruleType config conds v reference) = config"
  "in_Filter (rule_input pk d target ruleType config conds v reference) = conds"
  "in_ContractFilter (rule_input pk d target ruleType config conds v reference) = []"
  "in_Variables (rule_input pk d target ruleType config conds v reference) = v"
  "in_Reference (rule_input pk d target ruleType config conds v reference) = reference"
  "in_Unicode (rule_input pk d target ruleType config conds v reference) = pk_Unicode pk"
  "in_SQL (rule_input pk d target ruleType config conds v reference) = pk_SQL pk"
  "in_Derived (rule_input pk d target ruleType config conds v reference) = pk_Derived pk"
  "later (rule_input pk d target ruleType config conds v reference) v' = rule_input pk d target ruleType config conds v' reference"
  by (simp_all add: rule_input_def later_def)

lemma ValidateConfig_parts:
  assumes "ValidateConfig pk target ruleType (Some config) = Inr ()"
  shows "configArm config = Some ruleType" "succeeds (validateFilter pk target (rc_Filter config))"
    "validateSampling (rt_MetaType target) (map_option SupportsTableSample (DialectFor (rt_Engine target))) ruleType (rc_Sampling config) = None"
    "ruleTypeSpecFor ruleType \<noteq> None" "succeeds (validate_arm pk target config)"
    "validateOnEmpty (rc_OnEmpty config) = None" "validateThresholdMetric (rc_ThresholdMetric config) = None"
    "validatePercentSupport ruleType (rc_ThresholdMetric config) = None"
  using assms unfolding ValidateConfig_def succeeds_unit [symmetric] option.case
  by (simp_all add: succeeds_seq succeeds_check split: option.splits if_splits)

lemma where_ready:
  assumes "succeeds (validateFilter pk target (rc_Filter config))" "ParseFilter (pk_Unicode pk) (rc_Filter config) = Inr conds"
    "DialectFor (rt_Engine target) = Some d"
  shows "succeeds (whereClause (saved_input pk d target ruleType config conds reference))"
proof (cases "conds = []")
  case True
  then show ?thesis
    by (simp add: whereClause_def mergeFilters_def ResolveFilterVariables_def bind_result_def CompileFilter_def CompileFilterAfter_def)
next
  case False
  then show ?thesis using assms(1)
    by (cases "ResolveFilterVariables (pk_Unicode pk) conds referenceTimeVariables")
      (simp_all add: validateFilter_def assms(2,3) bind_result_def whereClause_def mergeFilters_def succeeds_map)
qed

lemma input_ready:
  assumes v: "ValidateConfig pk target ruleType (Some config) = Inr ()" and
    c: "ParseFilter (pk_Unicode pk) (rc_Filter config) = Inr conds" and
    d: "DialectFor (rt_Engine target) = Some d" and t: "QuoteTable d target = Inr table"
  shows "ready (saved_input pk d target ruleType config conds reference)"
proof -
  let ?inp = "saved_input pk d target ruleType config conds reference"
  note parts = ValidateConfig_parts [OF v]
  obtain w where w: "whereClause ?inp = Inr w" using where_ready [OF parts(2) c d] by (rule succeedsE)
  have "succeeds (scanRelation ?inp)"
  proof (cases "rc_Sampling config")
    case None
    then show ?thesis by (simp add: scanRelation_def compileTable_def t w bind_result_def case_prod_unfold)
  next
    case (Some m)
    show ?thesis
    proof (cases m)
      case (MaxRowsMethod n)
      then have "0 < n" using parts(3) Some by (auto simp: validateSampling_def split: option.splits if_splits)
      then show ?thesis
        by (simp add: scanRelation_def compileTable_def t w bind_result_def case_prod_unfold Some MaxRowsMethod BoundedRelation_def)
    next
      case (PercentMethod p)
      then have "SupportsTableSample d" using parts(3) Some d by (auto simp: validateSampling_def split: option.splits if_splits)
      then obtain r where "SampledRelation d table p = Inr r"
        by (cases d) (simp_all add: SampledRelation_def SupportsTableSample_def)
      then show ?thesis
        by (simp add: scanRelation_def compileTable_def t w bind_result_def case_prod_unfold Some PercentMethod)
    qed
  qed
  then show ?thesis using d t w by (simp add: ready_def compileTable_def)
qed

lemma arm_iff:
  assumes r: "ready inp" and v: "succeeds (validate_arm pk (in_Target inp) (in_Config inp))" and
    p: "pk_Unicode pk = in_Unicode inp" "pk_SQL pk = in_SQL inp" "pk_Derived pk = in_Derived inp"
      "in_Variables inp = referenceTimeVariables"
  shows "succeeds (compile_arm inp) \<longleftrightarrow> compiler_sees pk (in_Target inp) (in_Config inp) (in_Reference inp)"
  using v
  by (cases "rc_Arm (in_Config inp)")
    (simp_all add: validate_arm_def compile_arm_def compiler_sees_def compileRowCount_def compileRowCountChange_def
      compileSchemaDrift_def succeeds_check succeeds_done row_gate change_gate total_rows_ok [OF r] null_ok [OF r _ p(1)]
      unique_ok [OF r] combination_ok [OF r] accepted_ok [OF r _ p] range_ok [OF r _ p(1)] regex_iff [OF r _ p(1)]
      length_ok [OF r] referential_iff [OF r _ p(1)] cross_ok [OF r] freshness_ok [OF r] custom_iff [OF r _ p(1,2,4)]
      cel_ok [OF r _ p(1)] group_ok [OF r _ p(1)] aggregate_ok [OF r] cross_table_iff [OF r _ p(1,4)]
      standard_ok [OF r] segment_ok [OF r _ p(1)] p(1,2))

text \<open>
  C39. The validators mirror the compilers. A configuration \<open>ValidateConfig\<close> accepts, for a target whose name can
  be quoted, compiles at every time unless one of four checks fails that only a compiler makes: the thresholds
  of a regex rule, the operators of a referential rule's child column, the statement of a custom-SQL rule
  without its trailing semicolons, and the reference of a reconciliation.
\<close>

theorem accepted_config_compiles_iff:
  assumes "ValidateConfig pk target ruleType (Some config) = Inr ()"
    and "ParseFilter (pk_Unicode pk) (rc_Filter config) = Inr conds"
    and "DialectFor (rt_Engine target) = Some d" and "QuoteTable d target = Inr table"
    and "\<not> IsZero (tv_At v)"
  shows "(\<exists>q. Compile (rule_input pk d target ruleType config conds v reference) = Inr q) \<longleftrightarrow>
    compiler_sees pk target config reference"
proof -
  let ?inp = "\<lambda>v. rule_input pk d target ruleType config conds v reference"
  note parts = ValidateConfig_parts [OF assms(1)]
  obtain spec where spec: "ruleTypeSpecFor ruleType = Some spec" using parts(4) by blast
  have ref: "\<not> IsZero (tv_At referenceTimeVariables)"
    by (simp add: referenceTimeVariables_def IsZero_def zero_time_def second_def)
  have at: "keeps (restated (\<not> user_query (?inp w))) (Compile (?inp w)) (Compile (?inp w'))"
    if "\<not> IsZero (tv_At w')" for w w'
    using compile_at [OF that, of "?inp w"] by simp
  have "succeeds (Compile (?inp v)) \<longleftrightarrow> succeeds (Compile (?inp referenceTimeVariables))"
    using succeeds_keeps [OF at [OF ref, of v]] succeeds_keeps [OF at [OF assms(5), of referenceTimeVariables]] by blast
  also have "\<dots> \<longleftrightarrow> succeeds (compile_arm (?inp referenceTimeVariables))"
    using parts(1,3) spec by (simp add: Compile_def succeeds_check)
  also have "\<dots> \<longleftrightarrow> compiler_sees pk target config reference"
    using arm_iff [of "?inp referenceTimeVariables" pk] input_ready [OF assms(1-4)] parts(5) by simp
  finally show ?thesis by (simp add: succeeds_iff)
qed

text \<open>The example rule again, saved with a parser that accepts every text, and a regex rule whose bound no compiler takes.\<close>

definition trusting_packages :: packages where
  "trusting_packages = \<lparr>pk_Unicode = in_Unicode example_input, pk_SQL = (\<lambda>_ _. None), pk_Derived = (\<lambda>_. None),
     pk_Regexp = (\<lambda>_. True), pk_CEL = (\<lambda>_ _. None)\<rparr>"

lemma example_saved:
  "ValidateConfig trusting_packages example_target CROSS_COLUMN (Some (in_Config example_input)) = Inr ()"
  "ParseFilter (pk_Unicode trusting_packages) (rc_Filter (in_Config example_input)) = Inr (in_Filter example_input)"
  "DialectFor (rt_Engine example_target) = Some postgresDialect"
  "succeeds (QuoteTable postgresDialect example_target)"
  "compiler_sees trusting_packages example_target (in_Config example_input) None"
  by code_simp+

lemma accepted_config_compiles_iff_witness:
  "\<exists>q. Compile (rule_input trusting_packages postgresDialect example_target CROSS_COLUMN (in_Config example_input)
     (in_Filter example_input) \<lparr>tv_At = second, tv_Location = None\<rparr> None) = Inr q"
proof -
  obtain table where t: "QuoteTable postgresDialect example_target = Inr table"
    using example_saved(4) by (rule succeedsE)
  have "\<not> IsZero (tv_At \<lparr>tv_At = second, tv_Location = None\<rparr>)" by (simp add: IsZero_def zero_time_def second_def)
  then show ?thesis
    using accepted_config_compiles_iff [OF example_saved(1-3) t, of "\<lparr>tv_At = second, tv_Location = None\<rparr>" None]
      example_saved(5) by simp
qed

end
