(* ===== verification/Spec2Isabelle.thy ===== *)
theory Spec2Isabelle
  imports
    Window_Limiter
    Login_Limiter
    Revocation_Cache
    SSO_State
    Device_Login
    OAuth_Request
    Connection_Governor
    SQL_Tokens
    Schema_Diff_Patch
    Resource_Names
    IAM_Administrators
    Lineage_Flatten
    Lineage_Influence
    Lineage_Analyzer
    Standard_Codes_Laws
    Quality_Laws
    Quality_Rollup
    Quality_Score
    Quality_Compile_Laws
    Quality_Validate_Laws
begin

text \<open>
  A model of the decision-making core of MetaXisData, a Go service that collects the schemas of
  databases, traces lineage through their SQL, runs data quality rules over them and serves all of
  this to users, devices and agents. Go code under \<open>src/backend\<close> is modelled definition by
  definition; file names below are relative to it. A definition has the name of the function it
  translates, with a prefix or a suffix where two files use one name or where HOL already has it.

  Conventions. A struct is a \<open>record\<close>, a set of Go constants a \<open>datatype\<close> with an \<open>OTHER\<close>
  constructor for the numbers the code does not name, a pointer that may be nil an \<open>option\<close>, a map
  a partial function or, where its iteration order matters, an association list together with a
  parameter that chooses the order. A method takes the receiver and returns it updated. An error
  is a value of a sum or option type, and so is a panic. A lock makes a method one step; what
  happens between two locked sections is a step of its own, and concurrent behaviour is every
  interleaving of steps. So a password login is two steps, with the check of the password between them,
  redeeming a nonce is the look-up and the removal, and setting the policy or deleting a user is the check
  and the write. Times are integers, with the zero time apart. Integers are unbounded where
  the code cannot leave their range, which is then a hypothesis or shown, and wrap explicitly where
  it can. Third-party code is a parameter, with its documented behaviour as named hypotheses: the
  golang-lru cache, \<open>crypto/rand\<close>, \<open>math/rand\<close>-ordered map iteration, SQL lexers and parsers, the
  metadata provider, the password check, the Unicode tables, the time zones, and the parsers, regular
  expressions and CEL library of the save path (the record \<open>packages\<close>). \<open>strings.EqualFold\<close>, also in the
  alias of a uniqueness statement, folds the ASCII letters only.

  Prelude. \<open>Go_Prelude\<close> (instants, maps with an arbitrary iteration order, \<open>range\<close> loops that delete,
  runs of transition systems), \<open>Go_Strings\<close> (package \<open>strings\<close> on bytes), \<open>Go_Strconv\<close> (numbers as text), \<open>Unicode_Strings\<close> (the
  same on text from outside, over Unicode tables that are a parameter), \<open>Go_Float\<close> (binary64 with
  rounding to nearest even; the locale \<open>rounding\<close> states what the proofs use of it, and binary64
  interprets it), \<open>Store_Interfaces\<close> (the contracts of the in-memory stores: a preserved invariant, a
  bounded pool, a single-use token), \<open>Indexed_Store\<close> (two maps over shared objects on a heap) and
  \<open>LRU_Interface\<close> (the laws of the bounded cache, with a concrete instance).

  Throttles and sessions, \<open>component/state\<close> and its callers in \<open>api\<close>. \<open>Window_Limiter\<close>
  (\<open>window_limiter.go\<close>) counts requests per source and in total; \<open>Login_Attempts\<close> and
  \<open>Login_Limiter\<close> (\<open>login_limiter.go\<close> and \<open>AuthService.Login\<close>) throttle password guesses;
  \<open>SSO_State\<close> (\<open>throttle_interceptor.go\<close>, the nonces of \<open>auth_service.go\<close>) puts the nonce cache behind
  its limiter, for any number of logins that overlap; \<open>Revocation_Cache\<close> (\<open>revocation_cache.go\<close>, \<open>tokenRevoked\<close>) interleaves checks with
  logouts; \<open>Random_Code\<close>, \<open>Device_Login\<close> and \<open>OAuth_Request\<close> are the device and authorization code
  grants; \<open>Connection_Governor\<close> (\<open>connection.go\<close>) hands out database connections. The lemmas show
  that the stores are bounded, that grants are authorised, timely and used once, how many guesses
  an attacker has (more when logins overlap), who can still use a redeemed nonce, how long after a
  revocation a check that accepts the token can have started, and that the governor keeps its ceiling,
  counts its slots exactly and respects priority.

  Identity and permissions. \<open>Resource_Names\<close> (\<open>common/resource_name.go\<close>), \<open>Meta_GUID\<close>
  (\<open>common/guid.go\<close>), \<open>IAM\<close>, \<open>IAM_Laws\<close> and \<open>IAM_Administrators\<close> (\<open>common/permission\<close>, \<open>component/iam\<close>,
  \<open>store/policy.go\<close>, the policy handlers of \<open>api/v1\<close>): names and identifiers are read back exactly,
  a check grants what the user was told, and a workspace keeps an administrator through any run of
  policy writes and deletions in which no write falls between the check and the write of another, for
  policies that name their members as the code writes them; two overlapping deletions can remove the last
  two administrators.

  SQL and schemas. \<open>SQL_Sanitize\<close>, \<open>SQL_Fold_Laws\<close>, \<open>SQL_Sanitize_Laws\<close> (\<open>plugin/sqlsanitize\<close>, the
  lexers are a parameter) and \<open>SQL_Tokens\<close>, a grammar of the tokens, literals and comments of each dialect
  that is written apart from the code: for a statement of the grammar the stored text is given token by
  token, and nothing of a literal is stored. \<open>Schema_Diff\<close>, \<open>Schema_Diff_Laws\<close>,
  \<open>Schema_Diff_Patch\<close> (\<open>plugin/schema/differ.go\<close>): the comparison reports nothing exactly for
  schemas that agree in what it compares, its changes rebuild the new table up to the attributes it
  does not compare, and databases that differ in these alone have an empty difference.

  Lineage, \<open>plugin/lineage\<close> less the dialects. \<open>Lineage_Model\<close>, \<open>Lineage_Scope\<close>,
  \<open>Lineage_Scope_Laws\<close>, \<open>Lineage_Algorithm\<close>, \<open>Lineage_Algorithm_Laws\<close>, \<open>Lineage_Flatten\<close>,
  \<open>Lineage_Influence\<close>, \<open>Lineage_Analyzer\<close>: how names resolve in nested scopes, how edges are
  collected, how temporary relations are replaced by stored ones and when that ends, which
  predicates influence a result, and the analyzer above the dialects. The dialect visitors over
  third-party syntax trees are the parameter of the script analysis. The flattening is fuel-bounded;
  that enough fuel exists, except for a relation that reads its own name, is proved.

  Data quality, \<open>component/dataquality\<close>. \<open>Code_Tables\<close>, \<open>Standard_Codes\<close>, \<open>Check_Digits\<close>,
  \<open>Standard_Codes_Laws\<close> (\<open>codetable.go\<close>, \<open>standard_code.go\<close>, \<open>code_table.go\<close>): code tables and
  check digits. \<open>Quality_Verdict\<close>, \<open>Quality_Rules\<close>, \<open>Quality_Laws\<close> (\<open>evaluate.go\<close>, \<open>config.go\<close>,
  \<open>validate.go\<close>, \<open>compile_util.go\<close>, \<open>sampling.go\<close>): how an observation is judged and which
  configurations are accepted. \<open>Quality_Rollup\<close> (\<open>model.go\<close>) and \<open>Quality_Score\<close> (\<open>score.go\<close>,
  \<open>api/v1/data_quality_target.go\<close>): what a batch and a target are worth.

  The rule compiler, also \<open>component/dataquality\<close>. \<open>Quality_Columns\<close> (\<open>types.go\<close>, \<open>capabilities.go\<close>),
  \<open>Time_Variables\<close> (\<open>variables.go\<close>), \<open>Quality_Dialect\<close> (\<open>dialect.go\<close>, \<open>filter.go\<close>), \<open>Quality_Compile\<close>
  (\<open>compile.go\<close>, \<open>compile_rules.go\<close>, \<open>compile_util.go\<close>, \<open>accepted_values.go\<close>, \<open>cel.go\<close>, \<open>segment_check.go\<close>)
  and \<open>Quality_Samples\<close> (\<open>compile_samples.go\<close>) turn a rule into the statement that counts its failures
  and the statements that show them. \<open>Quality_Binding\<close> says how an engine reads a statement with bound
  values, piece by piece; its locale \<open>arg_list\<close> is what a compiler asks of an argument list, and
  \<open>Quality_Statements\<close> interprets it for the three lists of the code. \<open>Quality_Compile_Laws\<close> shows that
  counts and samples agree, that every placeholder has its value, and that no name escapes its quotes.

  The save path of a rule. \<open>Quality_Target\<close> (\<open>target.go\<close>, \<open>support.go\<close>) reads a target from the registry,
  \<open>Quality_Validate\<close> (\<open>validate.go\<close>, \<open>accepted_values.go\<close>, \<open>standard_code.go\<close>, \<open>segment_check.go\<close>, \<open>customsql.go\<close>
  above its parsers) is the pipeline \<open>ValidateRule\<close> with one validator per rule type. \<open>Quality_Clock\<close> shows
  that a rule compiles at one time exactly as at another but for the values it binds, and
  \<open>Quality_Validate_Laws\<close> that an accepted configuration compiles, but for four checks that only a compiler
  makes.

  Bounds. Loops over finite data are folds or structural recursion. Only the flattening of temporary
  relations takes fuel, because the code's recursion need not end; \<open>None\<close> is running out of it, more
  fuel never changes an answer, and the lemmas say when enough exists. Capacities, windows, limits
  and timeouts are the constants of the source.

  Not modelled: what is mostly input and output (request handlers over protobuf messages, SQL against
  the metadata store, drivers, mail, webhooks, HTTP assembly, the MCP server, language model calls),
  generated code, the visitors over syntax trees of third-party parsers, the DDL writers of single
  engines, reports, and the web client, which is not Go.
\<close>

end
